(* ===== verification/Prelude.thy ===== *)
theory Prelude
  imports Complex_Main "HOL-Library.AList" "HOL-Library.Sublist"
    "HOL-Library.Char_ord" "HOL-Library.List_Lexorder" "HOL-Library.Product_Lexorder"
begin

text \<open>
  What every component shares: JSON values, exceptions, the state-and-exception operations
  the broker's coroutines become, a small Hoare logic over them, insertion-ordered
  dictionaries (association lists with \<open>AList.update\<close> and \<open>AList.delete\<close>), and
  generic list lemmas. Python integers are \<open>int\<close> or, where they count, \<open>nat\<close>;
  floats are idealised as \<open>real\<close>; a Python string is a \<open>string\<close>, whose
  characters stand for the code points below 256.
\<close>

section \<open>Values\<close>

text \<open>\<open>JNonFinite\<close> is a float that is no real: \<open>NaN\<close>, \<open>Infinity\<close> or \<open>-Infinity\<close>.\<close>

datatype json =
    JNull
  | JBool bool
  | JInt int
  | JNum real
  | JNonFinite string
  | JStr string
  | JArr "json list"
  | JObj "(string \<times> json) list"

text \<open>The exceptions the broker and the builder raise or let through.\<close>

datatype exn =
    ToolError string
  | LedgeredToolError string
  | RuntimeError string
  | ValueError
  | DbError
  | MultipleResultsFound
  | SearchError
  | EntailmentError
  | PydanticValidationError
  | StopIteration
  | TypeError
  | AttributeError
  | AssertionError
  | CancelledError
  | KeyError
  | OverflowError
  | OSError
  | HttpFetchError string
  | SourceConfigError string

type_synonym uuid = nat

section \<open>Operations with state and exceptions\<close>

type_synonym ('w, 'a) op = "'w \<Rightarrow> (exn + 'a) \<times> 'w"

definition ret :: "'a \<Rightarrow> ('w, 'a) op" where
  "ret x = (\<lambda>w. (Inr x, w))"

definition raise :: "exn \<Rightarrow> ('w, 'a) op" where
  "raise e = (\<lambda>w. (Inl e, w))"

definition bindM :: "('w, 'a) op \<Rightarrow> ('a \<Rightarrow> ('w, 'b) op) \<Rightarrow> ('w, 'b) op" where
  "bindM m f = (\<lambda>w. case m w of (Inl e, w') \<Rightarrow> (Inl e, w') | (Inr x, w') \<Rightarrow> f x w')"

definition getM :: "('w \<Rightarrow> 'a) \<Rightarrow> ('w, 'a) op" where
  "getM f = (\<lambda>w. (Inr (f w), w))"

definition modM :: "('w \<Rightarrow> 'w) \<Rightarrow> ('w, unit) op" where
  "modM f = (\<lambda>w. (Inr (), f w))"

text \<open>
  \<open>except Exception as e: h e\<close>. A cancellation of the running task is a \<open>BaseException\<close> and
  passes through.
\<close>

definition tryM :: "('w, 'a) op \<Rightarrow> (exn \<Rightarrow> ('w, 'a) op) \<Rightarrow> ('w, 'a) op" where
  "tryM m h = (\<lambda>w. case m w of
     (Inl e, w') \<Rightarrow> if e = CancelledError then (Inl e, w') else h e w'
   | (Inr x, w') \<Rightarrow> (Inr x, w'))"

definition liftM :: "exn + 'a \<Rightarrow> ('w, 'a) op" where
  "liftM r = (\<lambda>w. (r, w))"

fun opt_or_raise :: "exn \<Rightarrow> 'a option \<Rightarrow> exn + 'a" where
  "opt_or_raise e None = Inl e"
| "opt_or_raise e (Some x) = Inr x"

fun mapE :: "('a \<Rightarrow> exn + 'b) \<Rightarrow> 'a list \<Rightarrow> exn + 'b list" where
  "mapE f [] = Inr []"
| "mapE f (x # xs) =
     (case f x of Inl e \<Rightarrow> Inl e
      | Inr y \<Rightarrow> (case mapE f xs of Inl e \<Rightarrow> Inl e | Inr ys \<Rightarrow> Inr (y # ys)))"

lemma mapE_cong [fundef_cong]:
  assumes "xs = ys" and "\<And>x. x \<in> set ys \<Longrightarrow> f x = g x" shows "mapE f xs = mapE g ys"
  using assms(2) unfolding assms(1) by (induction ys) (auto split: sum.splits)

lemma mapE_total: "(\<exists>ys. mapE f xs = Inr ys) \<longleftrightarrow> (\<forall>x \<in> set xs. \<exists>y. f x = Inr y)"
  by (induction xs) (auto split: sum.splits)

text \<open>A loop over \<open>xs\<close> whose body may raise.\<close>

fun foldE :: "('a \<Rightarrow> 'b \<Rightarrow> exn + 'b) \<Rightarrow> 'a list \<Rightarrow> 'b \<Rightarrow> exn + 'b" where
  "foldE f [] acc = Inr acc"
| "foldE f (x # xs) acc = (case f x acc of Inl e \<Rightarrow> Inl e | Inr acc' \<Rightarrow> foldE f xs acc')"

lemma foldE_invariant:
  assumes "foldE f xs acc = Inr acc'" and "I acc"
    and "\<And>x a a'. x \<in> set xs \<Longrightarrow> I a \<Longrightarrow> f x a = Inr a' \<Longrightarrow> I a'"
  shows "I acc'"
  using assms
proof (induction xs arbitrary: acc)
  case (Cons x xs)
  then obtain a where a: "f x acc = Inr a" "foldE f xs a = Inr acc'" by (auto split: sum.splits)
  have "I a" using Cons.prems(2,3) a(1) by (meson list.set_intros(1))
  with Cons.IH [OF a(2)] Cons.prems(3) show ?case by (meson list.set_intros(2))
qed simp

lemma foldE_exn:
  assumes "foldE f xs acc = Inl e" and "\<And>x a e. f x a = Inl e \<Longrightarrow> P e" shows "P e"
  using assms by (induction xs arbitrary: acc) (auto split: sum.splits)

lemmas op_defs = ret_def raise_def getM_def modM_def liftM_def

lemma bindM_simps [simp]:
  "bindM (ret x) f = f x"
  "bindM (raise e) f = raise e"
  "bindM (liftM (Inr x)) f = f x"
  "bindM (liftM (Inl e)) f = raise e"
  by (auto simp: bindM_def op_defs fun_eq_iff)

lemma bindM_apply [simp]:
  "m w = (Inl e, w') \<Longrightarrow> bindM m f w = (Inl e, w')"
  "m w = (Inr x, w') \<Longrightarrow> bindM m f w = f x w'"
  by (simp_all add: bindM_def)

lemma getM_bind [simp]: "bindM (getM g) f w = f (g w) w"
  by (simp add: bindM_def getM_def)

lemma modM_bind [simp]: "bindM (modM g) f w = f () (g w)"
  by (simp add: bindM_def modM_def)

named_theorems op_iff \<open>what a run that ends normally went through\<close>

lemma bindM_Inr_iff [op_iff]:
  "bindM m f w = (Inr y, w') \<longleftrightarrow> (\<exists>x w1. m w = (Inr x, w1) \<and> f x w1 = (Inr y, w'))"
  by (auto simp: bindM_def split: prod.splits sum.splits)

lemma bindM_InrE:
  assumes "bindM m f w = (Inr y, w')"
  obtains x w1 where "m w = (Inr x, w1)" and "f x w1 = (Inr y, w')"
  using assms by (auto simp: bindM_Inr_iff)

lemma ret_iff [op_iff]: "ret x w = (Inr y, w') \<longleftrightarrow> y = x \<and> w' = w"
  by (auto simp: ret_def)

lemma raise_iff [op_iff]: "raise e w = (Inr y, w') \<longleftrightarrow> False"
  by (simp add: raise_def)

lemma getM_iff [op_iff]: "getM f w = (Inr y, w') \<longleftrightarrow> y = f w \<and> w' = w"
  by (auto simp: getM_def)

lemma modM_iff [op_iff]: "modM f w = (Inr y, w') \<longleftrightarrow> w' = f w"
  by (auto simp: modM_def)

lemma liftM_iff [op_iff]: "liftM r w = (Inr y, w') \<longleftrightarrow> r = Inr y \<and> w' = w"
  by (auto simp: liftM_def)

subsection \<open>A Hoare logic: normal and exceptional postconditions\<close>

definition valid ::
  "('w \<Rightarrow> bool) \<Rightarrow> ('w, 'a) op \<Rightarrow> ('a \<Rightarrow> 'w \<Rightarrow> bool) \<Rightarrow> (exn \<Rightarrow> 'w \<Rightarrow> bool) \<Rightarrow> bool" where
  "valid P m Q E \<longleftrightarrow>
     (\<forall>w x w'. P w \<longrightarrow> m w = (Inr x, w') \<longrightarrow> Q x w') \<and>
     (\<forall>w e w'. P w \<longrightarrow> m w = (Inl e, w') \<longrightarrow> E e w')"

named_theorems wp \<open>Hoare rules of the operations\<close>

lemma validD_Inr: "valid P m Q E \<Longrightarrow> P w \<Longrightarrow> m w = (Inr x, w') \<Longrightarrow> Q x w'"
  by (simp add: valid_def)

lemma validD_Inl: "valid P m Q E \<Longrightarrow> P w \<Longrightarrow> m w = (Inl e, w') \<Longrightarrow> E e w'"
  by (simp add: valid_def)

lemma validI:
  assumes "\<And>w x w'. P w \<Longrightarrow> m w = (Inr x, w') \<Longrightarrow> Q x w'"
    and "\<And>w e w'. P w \<Longrightarrow> m w = (Inl e, w') \<Longrightarrow> E e w'"
  shows "valid P m Q E"
  using assms by (simp add: valid_def)

lemma valid_pre: "valid P' m Q E \<Longrightarrow> (\<And>w. P w \<Longrightarrow> P' w) \<Longrightarrow> valid P m Q E"
  by (rule validI) (blast dest: validD_Inr validD_Inl)+

lemma valid_post:
  assumes "valid P m Q' E'"
    and "\<And>x w. Q' x w \<Longrightarrow> Q x w" and "\<And>e w. E' e w \<Longrightarrow> E e w"
  shows "valid P m Q E"
  using assms by (intro validI) (blast dest: validD_Inr validD_Inl)+

lemma valid_ret [wp]: "valid (Q x) (ret x) Q E"
  by (simp add: valid_def ret_def)

lemma valid_raise [wp]: "valid (E e) (raise e) Q E"
  by (simp add: valid_def raise_def)

lemma valid_getM [wp]: "valid (\<lambda>w. Q (f w) w) (getM f) Q E"
  by (simp add: valid_def getM_def)

lemma valid_modM [wp]: "valid (\<lambda>w. Q () (f w)) (modM f) Q E"
  by (simp add: valid_def modM_def)

lemma valid_liftM [wp]: "valid (\<lambda>w. case r of Inr x \<Rightarrow> Q x w | Inl e \<Rightarrow> E e w) (liftM r) Q E"
  by (simp add: valid_def liftM_def split: sum.splits)

lemma valid_bindM [wp]:
  assumes f: "\<And>x. valid (R x) (f x) Q E" and m: "valid P m R E"
  shows "valid P (bindM m f) Q E"
proof (rule validI)
  fix w y w' assume P: "P w" and run: "bindM m f w = (Inr y, w')"
  then obtain x w1 where "m w = (Inr x, w1)" and "f x w1 = (Inr y, w')"
    by (auto simp: op_iff)
  with P show "Q y w'" by (blast intro: validD_Inr [OF f] validD_Inr [OF m])
next
  fix w e w' assume P: "P w" and run: "bindM m f w = (Inl e, w')"
  then consider "m w = (Inl e, w')" | x w1 where "m w = (Inr x, w1)" and "f x w1 = (Inl e, w')"
    by (cases "m w"; cases "fst (m w)") (auto simp: bindM_def)
  with P show "E e w'" by cases (blast intro: validD_Inl [OF f] validD_Inr [OF m] validD_Inl [OF m])+
qed

lemma valid_tryM [wp]:
  assumes h: "\<And>e. valid (R e) (h e) Q E"
    and m: "valid P m Q (\<lambda>e w. if e = CancelledError then E e w else R e w)"
  shows "valid P (tryM m h) Q E"
proof (rule validI)
  fix w y w' assume P: "P w" and run: "tryM m h w = (Inr y, w')"
  then consider "m w = (Inr y, w')" | e w1 where "m w = (Inl e, w1)" "e \<noteq> CancelledError" "h e w1 = (Inr y, w')"
    by (cases "m w"; cases "fst (m w)") (auto simp: tryM_def split: if_splits)
  then show "Q y w'"
  proof cases
    case 2
    with validD_Inl [OF m P 2(1)] show ?thesis by (auto intro: validD_Inr [OF h])
  qed (use P in \<open>blast intro: validD_Inr [OF m]\<close>)
next
  fix w e w' assume P: "P w" and run: "tryM m h w = (Inl e, w')"
  then consider "m w = (Inl e, w')" "e = CancelledError"
    | e1 w1 where "m w = (Inl e1, w1)" "e1 \<noteq> CancelledError" "h e1 w1 = (Inl e, w')"
    by (cases "m w"; cases "fst (m w)") (auto simp: tryM_def split: if_splits)
  then show "E e w'"
  proof cases
    case 1
    with validD_Inl [OF m P 1(1)] show ?thesis by simp
  next
    case 2
    with validD_Inl [OF m P 2(1)] show ?thesis by (auto intro: validD_Inl [OF h])
  qed
qed

lemma valid_if [wp]:
  "(b \<Longrightarrow> valid P m Q E) \<Longrightarrow> (\<not> b \<Longrightarrow> valid P m' Q E) \<Longrightarrow> valid P (if b then m else m') Q E"
  by simp

lemma valid_case_option [wp]:
  "(x = None \<Longrightarrow> valid P m Q E) \<Longrightarrow> (\<And>y. x = Some y \<Longrightarrow> valid P (f y) Q E)
   \<Longrightarrow> valid P (case x of None \<Rightarrow> m | Some y \<Rightarrow> f y) Q E"
  by (cases x) auto

text \<open>An invariant kept on every exit, normal or exceptional.\<close>

definition keeps :: "('w \<Rightarrow> bool) \<Rightarrow> ('w, 'a) op \<Rightarrow> bool" where
  "keeps I m \<longleftrightarrow> (\<forall>w. I w \<longrightarrow> I (snd (m w)))"

lemma keepsD: "keeps I m \<Longrightarrow> I w \<Longrightarrow> I (snd (m w))"
  by (simp add: keeps_def)

lemma keepsD2: "keeps I m \<Longrightarrow> I w \<Longrightarrow> m w = (r, w') \<Longrightarrow> I w'"
  by (drule keepsD, assumption) simp

named_theorems keeps_intros \<open>invariant preservation, operation by operation\<close>

lemma keeps_basic [keeps_intros]:
  "keeps I (ret x)" "keeps I (raise e)" "keeps I (getM f)" "keeps I (liftM r)"
  by (simp_all add: keeps_def op_defs)

lemma keeps_modM [keeps_intros]: "(\<And>w. I w \<Longrightarrow> I (f w)) \<Longrightarrow> keeps I (modM f)"
  by (simp add: keeps_def modM_def)

lemma keeps_bindM [keeps_intros]:
  "keeps I m \<Longrightarrow> (\<And>x. keeps I (f x)) \<Longrightarrow> keeps I (bindM m f)"
  unfolding keeps_def bindM_def
  by (auto split: prod.splits sum.splits)

lemma keeps_tryM [keeps_intros]:
  "keeps I m \<Longrightarrow> (\<And>e. keeps I (h e)) \<Longrightarrow> keeps I (tryM m h)"
  unfolding keeps_def tryM_def
  by (auto split: prod.splits sum.splits)

lemma keeps_if [keeps_intros]:
  "(b \<Longrightarrow> keeps I m) \<Longrightarrow> (\<not> b \<Longrightarrow> keeps I m') \<Longrightarrow> keeps I (if b then m else m')"
  by simp

lemma keeps_option [keeps_intros]:
  "keeps I m \<Longrightarrow> (\<And>y. keeps I (f y)) \<Longrightarrow> keeps I (case x of None \<Rightarrow> m | Some y \<Rightarrow> f y)"
  by (cases x) auto

section \<open>Dictionaries\<close>

text \<open>
  A Python dict keeps insertion order: a new key goes to the back, an existing key keeps
  its place. \<open>AList.update\<close> does exactly this, \<open>AList.delete\<close> is \<open>pop\<close>/\<open>del\<close>.
\<close>

type_synonym ('k, 'v) dict = "('k \<times> 'v) list"

definition dict_ok :: "('k, 'v) dict \<Rightarrow> bool" where
  "dict_ok d \<longleftrightarrow> distinct (map fst d)"

fun dict_update_all :: "('k, 'v) dict \<Rightarrow> ('k \<times> 'v) list \<Rightarrow> ('k, 'v) dict" where
  "dict_update_all d [] = d"
| "dict_update_all d ((k, v) # kvs) = dict_update_all (AList.update k v d) kvs"

text \<open>\<open>list(dict.fromkeys(xs))\<close>: the first occurrence of each element, in order.\<close>

fun dict_fromkeys :: "'a list \<Rightarrow> 'a list" where
  "dict_fromkeys [] = []"
| "dict_fromkeys (x # xs) = x # filter (\<lambda>y. y \<noteq> x) (dict_fromkeys xs)"

lemma dict_ok_simps [simp]:
  "dict_ok []"
  "dict_ok d \<Longrightarrow> dict_ok (AList.update k v d)"
  "dict_ok d \<Longrightarrow> dict_ok (AList.delete k d)"
  by (auto simp: dict_ok_def intro: distinct_update distinct_delete)

lemma dict_ok_update_all [simp]: "dict_ok d \<Longrightarrow> dict_ok (dict_update_all d kvs)"
  by (induction d kvs rule: dict_update_all.induct) auto

lemma map_of_update [simp]: "map_of (AList.update k v d) = (map_of d)(k \<mapsto> v)"
  by (rule update_conv')

lemma map_of_delete [simp]: "map_of (AList.delete k d) = (map_of d)(k := None)"
  by (rule delete_conv')

lemma dict_update_all_fresh:
  "dict_ok d \<Longrightarrow> distinct (map fst kvs) \<Longrightarrow> set (map fst kvs) \<inter> set (map fst d) = {}
   \<Longrightarrow> dict_update_all d kvs = d @ kvs"
proof (induction d kvs rule: dict_update_all.induct)
  case (2 d k v kvs)
  have "AList.update k v d = d @ [(k, v)]"
    using "2.prems"(3) by (induction d) auto
  with 2 show ?case by (force simp: dict_ok_def)
qed simp

lemma set_dict_update_all:
  "fst ` set (dict_update_all d kvs) = fst ` set d \<union> fst ` set kvs"
  by (induction d kvs rule: dict_update_all.induct) (auto simp: dom_update)

lemma set_update_subset: "set (AList.update k v d) \<subseteq> insert (k, v) (set d)"
  by (induction d) auto

lemma set_dict_update_all_subset: "set (dict_update_all d kvs) \<subseteq> set d \<union> set kvs"
  by (induction d kvs rule: dict_update_all.induct) (use set_update_subset in fastforce)+

lemma dict_getD: "dict_ok d \<Longrightarrow> (k, v) \<in> set d \<Longrightarrow> map_of d k = Some v"
  by (simp add: dict_ok_def)

lemma length_delete_less: "map_of d k \<noteq> None \<Longrightarrow> length (AList.delete k d) < length d"
  by (induction d) (auto simp: less_Suc_eq_le intro: AList.length_delete_le)

lemma delete_notin: "k \<notin> fst ` set d \<Longrightarrow> AList.delete k d = d"
  by (induction d) auto

lemma delete_hd: "dict_ok ((k, v) # d) \<Longrightarrow> AList.delete k ((k, v) # d) = d"
  by (force simp: dict_ok_def intro: delete_notin)

lemma set_delete_subset: "x \<in> set (AList.delete k d) \<Longrightarrow> x \<in> set d"
  by (induction d) (auto split: if_splits)

lemma notin_delete: "k \<notin> fst ` set (AList.delete k d)"
  by (rule delete_notin_dom)

lemma dict_ok_append_fresh:
  "dict_ok d \<Longrightarrow> k \<notin> fst ` set d \<Longrightarrow> dict_ok (d @ [(k, v)])"
  by (simp add: dict_ok_def)

lemma dict_ok_suffix: "dict_ok (u @ d) \<Longrightarrow> dict_ok d"
  by (simp add: dict_ok_def)

lemma length_update_new: "k \<notin> fst ` set d \<Longrightarrow> AList.update k v d = d @ [(k, v)]"
  by (induction d) auto

lemma length_update_le: "length (AList.update k v d) \<le> Suc (length d)"
  by (induction d) auto

lemma length_delete_dict:
  "dict_ok d \<Longrightarrow> map_of d k \<noteq> None \<Longrightarrow> Suc (length (AList.delete k d)) = length d"
proof (induction d)
  case (Cons p d)
  obtain a b where p: "p = (a, b)" by (cases p)
  show ?case
  proof (cases "a = k")
    case True
    with Cons.prems p show ?thesis by (auto simp: dict_ok_def delete_notin)
  next
    case False
    with Cons p show ?thesis by (simp add: dict_ok_def)
  qed
qed simp

lemma dict_fromkeys_set [simp]: "set (dict_fromkeys xs) = set xs"
  by (induction xs) auto

lemma dict_fromkeys_distinct [simp]: "distinct (dict_fromkeys xs)"
  by (induction xs) auto

lemma dict_fromkeys_id: "distinct xs \<Longrightarrow> dict_fromkeys xs = xs"
  by (induction xs) (auto intro: filter_True)

section \<open>Lists\<close>

text \<open>\<open>sorted(xs, key=k, reverse=True)\<close>: descending, equal keys in their original order.\<close>

definition sorted_desc :: "('a \<Rightarrow> 'b::linorder) \<Rightarrow> 'a list \<Rightarrow> 'a list" where
  "sorted_desc k xs = rev (sort_key k (rev xs))"

lemma set_sorted_desc [simp]: "set (sorted_desc k xs) = set xs"
  by (simp add: sorted_desc_def)

lemma length_sorted_desc [simp]: "length (sorted_desc k xs) = length xs"
  by (simp add: sorted_desc_def)

lemma sorted_desc_Nil [simp]: "sorted_desc k xs = [] \<longleftrightarrow> xs = []"
  by (metis length_0_conv length_sorted_desc)

lemma distinct_sorted_desc [simp]: "distinct (sorted_desc k xs) = distinct xs"
  by (simp add: sorted_desc_def)

lemma distinct_map_sorted_desc: "distinct (map f xs) \<Longrightarrow> distinct (map f (sorted_desc k xs))"
  by (auto simp: distinct_map)

lemma sorted_desc_sorted: "sorted_wrt (\<ge>) (map k (sorted_desc k xs))"
proof -
  have "sorted (map k (sort_key k (rev xs)))" by (rule sorted_sort_key)
  then have "sorted_wrt (\<lambda>x y. y \<le> x) (rev (map k (sort_key k (rev xs))))"
    by (simp add: sorted_wrt_rev)
  then show ?thesis by (simp add: sorted_desc_def rev_map)
qed

lemma distinct_map_filter_idx: "distinct (map f xs) \<Longrightarrow> distinct (map f (filter P xs))"
  by (rule distinct_map_filter)

lemma mapE_in: "mapE f xs = Inr ys \<Longrightarrow> y \<in> set ys \<Longrightarrow> \<exists>x \<in> set xs. f x = Inr y"
  by (induction xs arbitrary: ys) (auto split: sum.splits)

lemma mapE_Inr_iff: "mapE f xs = Inr ys \<longleftrightarrow> list_all2 (\<lambda>x y. f x = Inr y) xs ys"
proof (induction xs arbitrary: ys)
  case (Cons x xs)
  show ?case
    by (cases "mapE f xs"; cases ys) (auto split: sum.splits simp: Cons.IH [symmetric])
qed auto

lemma mapE_map_Inr: "(\<And>x. x \<in> set xs \<Longrightarrow> f x = Inr (g x)) \<Longrightarrow> mapE f xs = Inr (map g xs)"
  by (induction xs) auto

end
