(* ===== verification/PyText.thy ===== *)
theory PyText
  imports Prelude
begin

text \<open>
  The string routines of the broker: the standard-library methods it calls (\<open>split\<close>,
  \<open>strip\<close>, \<open>lower\<close>, \<open>in\<close>, \<open>join\<close>, \<open>uuid.UUID\<close> and \<open>str\<close> of a UUID), then
  \<open>domain/query_text.py\<close> and \<open>domain/token_budget.py\<close>. Characters stand for the code
  points below 256, so white space and letter case follow Latin-1.
\<close>

section \<open>Standard-library string methods\<close>

abbreviation code :: "char \<Rightarrow> nat" where "code c \<equiv> of_char c"

definition py_space :: "char \<Rightarrow> bool" where
  "py_space c \<longleftrightarrow> (let n = code c in (9 \<le> n \<and> n \<le> 13) \<or> (28 \<le> n \<and> n \<le> 32) \<or> n = 133 \<or> n = 160)"

definition py_linebreak :: "char \<Rightarrow> bool" where
  "py_linebreak c \<longleftrightarrow> (let n = code c in (10 \<le> n \<and> n \<le> 13) \<or> (28 \<le> n \<and> n \<le> 30) \<or> n = 133)"

definition lower_char :: "char \<Rightarrow> char" where
  "lower_char c = (let n = code c in
     if (65 \<le> n \<and> n \<le> 90) \<or> (192 \<le> n \<and> n \<le> 222 \<and> n \<noteq> 215) then char_of (n + 32) else c)"

definition py_lower :: "string \<Rightarrow> string" where
  "py_lower s = map lower_char s"

definition strip_by :: "(char \<Rightarrow> bool) \<Rightarrow> string \<Rightarrow> string" where
  "strip_by p s = rev (dropWhile p (rev (dropWhile p s)))"

definition py_strip :: "string \<Rightarrow> string" where
  "py_strip s = strip_by py_space s"

fun split_go :: "string \<Rightarrow> string \<Rightarrow> string list" where
  "split_go cur [] = (if cur = [] then [] else [rev cur])"
| "split_go cur (c # cs) =
     (if py_space c then (if cur = [] then split_go [] cs else rev cur # split_go [] cs)
      else split_go (c # cur) cs)"

definition py_split :: "string \<Rightarrow> string list" where
  "py_split s = split_go [] s"

fun py_join :: "string \<Rightarrow> string list \<Rightarrow> string" where
  "py_join sep [] = []"
| "py_join sep [x] = x"
| "py_join sep (x # y # xs) = x @ sep @ py_join sep (y # xs)"

text \<open>\<open>needle in haystack\<close>.\<close>

fun py_in :: "string \<Rightarrow> string \<Rightarrow> bool" where
  "py_in n [] = (n = [])"
| "py_in n (c # cs) = (prefix n (c # cs) \<or> py_in n cs)"

text \<open>\<open>s.split(sep, 1)\<close> for a separator that occurs: the parts before and after it.\<close>

fun split_once :: "string \<Rightarrow> string \<Rightarrow> (string \<times> string) option" where
  "split_once sep [] = None"
| "split_once sep (c # cs) =
     (if prefix sep (c # cs) then Some ([], drop (length sep) (c # cs))
      else map_option (\<lambda>(a, b). (c # a, b)) (split_once sep cs))"

text \<open>\<open>s.split(c)\<close> for a separator of one character, \<open>s.rsplit(c, 1)[-1]\<close> and \<open>s.removesuffix(t)\<close>.\<close>

fun split_on :: "char \<Rightarrow> string \<Rightarrow> string list" where
  "split_on d [] = [[]]"
| "split_on d (c # cs) =
     (if c = d then [] # split_on d cs
      else (case split_on d cs of [] \<Rightarrow> [[c]] | w # ws \<Rightarrow> (c # w) # ws))"

definition after_last :: "char \<Rightarrow> string \<Rightarrow> string" where
  "after_last d s = last (split_on d s)"

definition removesuffix :: "string \<Rightarrow> string \<Rightarrow> string" where
  "removesuffix t s = (if t \<noteq> [] \<and> suffix t s then take (length s - length t) s else s)"

text \<open>\<open>s.rstrip(chars)\<close>.\<close>

definition rstrip_by :: "(char \<Rightarrow> bool) \<Rightarrow> string \<Rightarrow> string" where
  "rstrip_by p s = rev (dropWhile p (rev s))"

lemma split_on_Nil [simp]: "split_on d s \<noteq> []"
  by (induction s) (auto split: list.splits)

lemma split_on_join: "py_join [d] (split_on d s) = s"
proof (induction s)
  case (Cons c cs)
  obtain w ws where w: "split_on d cs = w # ws" by (cases "split_on d cs") auto
  with Cons show ?case by (cases ws) auto
qed simp

lemma split_on_pieces: "w \<in> set (split_on d s) \<Longrightarrow> d \<notin> set w"
proof (induction s arbitrary: w)
  case (Cons c cs)
  then show ?case by (cases "split_on d cs") (auto split: if_splits)
qed simp

text \<open>\<open>s.replace(pat, "")\<close> for a non-empty pattern.\<close>

function str_remove :: "string \<Rightarrow> string \<Rightarrow> string" where
  "str_remove pat s =
     (case s of [] \<Rightarrow> []
      | c # cs \<Rightarrow> if pat \<noteq> [] \<and> prefix pat s then str_remove pat (drop (length pat) s)
                  else c # str_remove pat cs)"
  by pat_completeness auto
termination
  by (relation "measure (\<lambda>(pat, s). length s)") auto

declare str_remove.simps [simp del]

text \<open>Decimal numerals, as in an f-string.\<close>

fun nat_str :: "nat \<Rightarrow> string" where
  "nat_str n = (if n < 10 then [char_of (48 + n)] else nat_str (n div 10) @ [char_of (48 + n mod 10)])"

declare nat_str.simps [simp del]

definition int_str :: "int \<Rightarrow> string" where
  "int_str i = (if i < 0 then ''-'' @ nat_str (nat (- i)) else nat_str (nat i))"

lemma py_in_iff: "py_in n h \<longleftrightarrow> (\<exists>u v. h = u @ n @ v)"
proof (induction h)
  case (Cons c cs)
  have "(\<exists>u v. c # cs = u @ n @ v) \<longleftrightarrow> (\<exists>v. c # cs = n @ v) \<or> (\<exists>u v. cs = u @ n @ v)"
    by (metis append_Cons append_Nil list.exhaust list.inject)
  with Cons show ?case by (auto simp: prefix_def)
qed auto

lemma split_go_nonempty: "w \<in> set (split_go cur s) \<Longrightarrow> w \<noteq> []"
  by (induction cur s rule: split_go.induct) (auto split: if_splits)

lemma split_go_no_space:
  "w \<in> set (split_go cur s) \<Longrightarrow> \<forall>c \<in> set cur. \<not> py_space c \<Longrightarrow> c \<in> set w \<Longrightarrow> \<not> py_space c"
  by (induction cur s rule: split_go.induct) (auto split: if_splits)

lemma split_go_word:
  "\<forall>c \<in> set w. \<not> py_space c \<Longrightarrow> split_go cur (w @ s) = split_go (rev w @ cur) s"
  by (induction w arbitrary: cur) auto

lemma py_split_words: "w \<in> set (py_split s) \<Longrightarrow> w \<noteq> [] \<and> (\<forall>c \<in> set w. \<not> py_space c)"
  using split_go_nonempty split_go_no_space unfolding py_split_def by fastforce

text \<open>Joining words with single spaces and splitting again gives the words back.\<close>

lemma py_split_join:
  "\<forall>w \<in> set ws. w \<noteq> [] \<and> (\<forall>c \<in> set w. \<not> py_space c) \<Longrightarrow> py_split (py_join '' '' ws) = ws"
proof (induction ws)
  case (Cons w ws)
  have sp: "py_space CHR '' ''" by (simp add: py_space_def)
  show ?case
  proof (cases ws)
    case Nil
    with Cons.prems show ?thesis using split_go_word [of w "[]" "[]"] by (simp add: py_split_def)
  next
    case (Cons v vs)
    with Cons.prems have "split_go [] (w @ '' '' @ py_join '' '' ws)
      = split_go (rev w) ('' '' @ py_join '' '' ws)"
      using split_go_word [of w "[]"] by simp
    with Cons Cons.prems Cons.IH sp show ?thesis by (simp add: py_split_def)
  qed
qed (simp add: py_split_def)

section \<open>UUIDs\<close>

text \<open>
  A UUID is the number \<open>uuid.UUID\<close> holds, below \<open>2 ^ 128\<close>. \<open>str\<close> prints its 32 hex
  digits in groups 8-4-4-4-12; the constructor drops \<open>urn:\<close>, \<open>uuid:\<close>, outer braces
  and hyphens, wants 32 characters and reads them with \<open>int(_, 16)\<close>, which itself accepts
  surrounding white space, a sign, a \<open>0x\<close> prefix and single underscores between digits.
\<close>

definition hex_char :: "nat \<Rightarrow> char" where
  "hex_char d = char_of (if d < 10 then 48 + d else 87 + d)"

definition hex_val :: "char \<Rightarrow> nat option" where
  "hex_val c = (let n = code c in
     if 48 \<le> n \<and> n \<le> 57 then Some (n - 48)
     else if 97 \<le> n \<and> n \<le> 102 then Some (n - 87)
     else if 65 \<le> n \<and> n \<le> 70 then Some (n - 55) else None)"

fun hex_digits :: "nat \<Rightarrow> nat \<Rightarrow> string" where
  "hex_digits 0 n = []"
| "hex_digits (Suc k) n = hex_digits k (n div 16) @ [hex_char (n mod 16)]"

definition uuid_str :: "uuid \<Rightarrow> string" where
  "uuid_str u = (let h = hex_digits 32 u in
     take 8 h @ ''-'' @ take 4 (drop 8 h) @ ''-'' @ take 4 (drop 12 h) @ ''-''
       @ take 4 (drop 16 h) @ ''-'' @ drop 20 h)"

text \<open>The digits after the first: each one directly or after one underscore.\<close>

fun hex_tail :: "nat \<Rightarrow> string \<Rightarrow> nat option" where
  "hex_tail acc [] = Some acc"
| "hex_tail acc (c # cs) =
     (if c = CHR ''_''
      then (case cs of [] \<Rightarrow> None
            | d # ds \<Rightarrow> (case hex_val d of None \<Rightarrow> None | Some v \<Rightarrow> hex_tail (acc * 16 + v) ds))
      else (case hex_val c of None \<Rightarrow> None | Some v \<Rightarrow> hex_tail (acc * 16 + v) cs))"

fun hex_number :: "string \<Rightarrow> nat option" where
  "hex_number [] = None"
| "hex_number (c # cs) = (case hex_val c of None \<Rightarrow> None | Some v \<Rightarrow> hex_tail v cs)"

definition py_int16 :: "string \<Rightarrow> int option" where
  "py_int16 s =
     (let t = py_strip s;
          (neg, t) = (case t of c # cs \<Rightarrow> if c = CHR ''-'' then (True, cs)
                                          else if c = CHR ''+'' then (False, cs) else (False, t)
                      | [] \<Rightarrow> (False, t));
          t = (if prefix ''0x'' t \<or> prefix ''0X'' t
               then (case drop 2 t of [] \<Rightarrow> [] | d # ds \<Rightarrow> if d = CHR ''_'' then ds else d # ds) else t)
      in map_option (\<lambda>n. if neg then - int n else int n) (hex_number t))"

definition parse_uuid :: "string \<Rightarrow> uuid option" where
  "parse_uuid s =
     (let h = str_remove ''uuid:'' (str_remove ''urn:'' s);
          h = filter (\<lambda>c. c \<noteq> CHR ''-'') (strip_by (\<lambda>c. c = CHR ''{'' \<or> c = CHR ''}'') h)
      in if length h \<noteq> 32 then None
         else (case py_int16 h of None \<Rightarrow> None
               | Some i \<Rightarrow> if 0 \<le> i \<and> i < 2 ^ 128 then Some (nat i) else None))"

definition uuid_ok :: "uuid \<Rightarrow> bool" where
  "uuid_ok u \<longleftrightarrow> u < 2 ^ 128"

subsection \<open>Printing and parsing a UUID\<close>

lemma length_hex_digits [simp]: "length (hex_digits k n) = k"
  by (induction k arbitrary: n) auto

lemma hex_char_code: "d < 16 \<Longrightarrow> code (hex_char d) = (if d < 10 then 48 + d else 87 + d)"
  by (simp add: hex_char_def)

lemma hex_val_char: "d < 16 \<Longrightarrow> hex_val (hex_char d) = Some d"
  by (auto simp: hex_val_def hex_char_code Let_def)

lemma hex_char_set: "set (hex_digits k n) \<subseteq> hex_char ` {..<16}"
  by (induction k arbitrary: n) auto

lemma hex_char_props:
  assumes "c \<in> hex_char ` {..<16}"
  shows "\<not> py_space c" "c \<notin> {CHR ''-'', CHR ''+'', CHR ''_'', CHR ''x'', CHR ''X'', CHR ''u'',
    CHR ''{'', CHR ''}''}"
proof -
  from assms obtain d where d: "d < 16" "c = hex_char d" by auto
  then have cd: "code c = (if d < 10 then 48 + d else 87 + d)" by (simp add: hex_char_code)
  then have n: "48 \<le> code c \<and> code c \<le> 57 \<or> 97 \<le> code c \<and> code c \<le> (102 :: nat)"
    using d by (auto split: if_splits)
  then show "\<not> py_space c" by (auto simp: py_space_def Let_def)
  from n show "c \<notin> {CHR ''-'', CHR ''+'', CHR ''_'', CHR ''x'', CHR ''X'', CHR ''u'',
    CHR ''{'', CHR ''}''}" by auto
qed

lemma hex_tail_append:
  "(\<And>c. c \<in> set s \<Longrightarrow> c \<in> hex_char ` {..<16}) \<Longrightarrow>
   hex_tail acc (s @ t) = hex_tail (foldl (\<lambda>a c. a * 16 + the (hex_val c)) acc s) t"
proof (induction s arbitrary: acc)
  case (Cons c s)
  then obtain d where "d < 16" "c = hex_char d" by fastforce
  moreover have "c \<noteq> CHR ''_''" using hex_char_props(2) [of c] Cons.prems by simp
  ultimately show ?case using Cons by (simp add: hex_val_char)
qed simp

lemma foldl_hex_digits:
  "n < 16 ^ k \<Longrightarrow> foldl (\<lambda>a c. a * 16 + the (hex_val c)) 0 (hex_digits k n) = n"
proof (induction k arbitrary: n)
  case (Suc k)
  then have "n div 16 < 16 ^ k" by (simp add: less_mult_imp_div_less mult.commute)
  with Suc.IH show ?case by (simp add: hex_val_char)
qed simp

lemma hex_digits_inj: "m < 16 ^ k \<Longrightarrow> n < 16 ^ k \<Longrightarrow> hex_digits k m = hex_digits k n \<Longrightarrow> m = n"
  by (metis foldl_hex_digits)

lemma hex_number_digits:
  assumes "n < 16 ^ Suc k"
  shows "hex_number (hex_digits (Suc k) n) = Some n"
proof -
  let ?s = "hex_digits (Suc k) n"
  obtain c cs where s: "?s = c # cs" by (cases ?s) auto
  have all: "\<And>x. x \<in> set ?s \<Longrightarrow> x \<in> hex_char ` {..<16}" using hex_char_set by blast
  then obtain d where d: "d < 16" "c = hex_char d" using s by (metis imageE lessThan_iff list.set_intros(1))
  have "hex_number ?s = hex_tail d cs" unfolding s using d by (simp add: hex_val_char)
  also have "\<dots> = Some (foldl (\<lambda>a c. a * 16 + the (hex_val c)) 0 ?s)"
    using hex_tail_append [of cs d "[]"] all d unfolding s by (simp add: hex_val_char)
  finally show ?thesis using foldl_hex_digits [OF assms] by simp
qed

lemma strip_by_none: "(\<And>c. c \<in> set s \<Longrightarrow> \<not> p c) \<Longrightarrow> strip_by p s = s"
proof -
  assume np: "\<And>c. c \<in> set s \<Longrightarrow> \<not> p c"
  have "dropWhile p s = s" and "dropWhile p (rev s) = rev s"
    using np [of "hd s"] np [of "last s"] by (auto simp: dropWhile_eq_self_iff hd_rev)
  then show ?thesis by (simp add: strip_by_def)
qed

lemma str_remove_none: "x \<notin> set s \<Longrightarrow> str_remove (x # pat) s = s"
proof (induction s)
  case (Cons c s)
  then show ?case by (subst str_remove.simps) auto
qed (simp add: str_remove.simps)

lemma uuid_str_filter: "filter (\<lambda>c. c \<noteq> CHR ''-'') (uuid_str u) = hex_digits 32 u"
proof -
  let ?h = "hex_digits 32 u"
  have "\<And>c. c \<in> set ?h \<Longrightarrow> c \<noteq> CHR ''-''"
    using hex_char_set hex_char_props(2) by blast
  then have f: "filter (\<lambda>c. c \<noteq> CHR ''-'') xs = xs" if "set xs \<subseteq> set ?h" for xs
    using that by (auto intro: filter_True)
  have "take 8 ?h @ take 4 (drop 8 ?h) @ take 4 (drop 12 ?h) @ take 4 (drop 16 ?h) @ drop 20 ?h = ?h"
    using append_take_drop_id [of 4 "drop 16 ?h"] append_take_drop_id [of 4 "drop 12 ?h"]
      append_take_drop_id [of 4 "drop 8 ?h"] append_take_drop_id [of 8 ?h]
    by (simp only: drop_drop) simp
  then show ?thesis
    by (simp add: uuid_str_def Let_def f set_take_subset set_drop_subset
        order_trans [OF set_take_subset set_drop_subset])
qed

lemma uuid_str_chars:
  assumes "c \<in> set (uuid_str u)" shows "c \<in> hex_char ` {..<16} \<or> c = CHR ''-''"
proof -
  have "c = CHR ''-'' \<or> c \<in> set (filter (\<lambda>c. c \<noteq> CHR ''-'') (uuid_str u))"
    using assms by auto
  then show ?thesis using hex_char_set unfolding uuid_str_filter by blast
qed

theorem parse_uuid_str:
  assumes "uuid_ok u" shows "parse_uuid (uuid_str u) = Some u"
proof -
  let ?s = "uuid_str u" and ?h = "hex_digits 32 u"
  have cs: "c \<notin> {CHR ''u'', CHR ''{'', CHR ''}''}" if "c \<in> set ?s" for c
    using uuid_str_chars [OF that] hex_char_props(2) [of c] by auto
  then have "str_remove ''uuid:'' (str_remove ''urn:'' ?s) = ?s"
    by (subst str_remove_none, use cs in blast, subst str_remove_none, use cs in blast) simp
  moreover have "strip_by (\<lambda>c. c = CHR ''{'' \<or> c = CHR ''}'') ?s = ?s"
    using cs by (intro strip_by_none) auto
  moreover have "py_int16 ?h = Some (int u)"
  proof -
    have all: "c \<in> hex_char ` {..<16}" if "c \<in> set ?h" for c using hex_char_set that by blast
    have st: "py_strip ?h = ?h"
      unfolding py_strip_def using hex_char_props(1) all by (intro strip_by_none) blast
    obtain a b t where h: "?h = a # b # t"
      using length_hex_digits [of 32 u] by (cases ?h; cases "tl ?h") auto
    have ab: "a \<notin> {CHR ''-'', CHR ''+''}" "b \<notin> {CHR ''x'', CHR ''X''}"
      using hex_char_props(2) [OF all, of a] hex_char_props(2) [OF all, of b] h by auto
    have num: "hex_number (a # b # t) = Some u"
    proof -
      have "Suc 31 = (32::nat)" "(16::nat) ^ 32 = 2 ^ 128" by simp_all
      then have "u < 16 ^ Suc 31" using assms unfolding uuid_ok_def by (simp only:)
      from hex_number_digits [OF this] show ?thesis using h by simp
    qed
    have nx: "\<not> prefix ''0x'' (a # b # t)" "\<not> prefix ''0X'' (a # b # t)"
      using ab by auto
    show ?thesis
      using ab num nx st unfolding h py_int16_def Let_def by auto
  qed
  ultimately show ?thesis
    using assms by (simp add: parse_uuid_def uuid_str_filter uuid_ok_def Let_def)
qed

lemma uuid_str_inj: "uuid_ok u \<Longrightarrow> uuid_ok v \<Longrightarrow> uuid_str u = uuid_str v \<longleftrightarrow> u = v"
  using parse_uuid_str by (metis option.inject)

lemma parse_uuid_ok: "parse_uuid s = Some u \<Longrightarrow> uuid_ok u"
  by (auto simp: parse_uuid_def uuid_ok_def Let_def split: if_splits option.splits)

end
