(* ===== verification/Injection.thy ===== *)
theory Injection
  imports PyText
begin

text \<open>
  \<open>context_broker/untrusted.py\<close>: the deterministic prompt-injection scan. Python's \<open>re\<close>
  is modelled for the constructs these patterns use: a matcher returns every position at
  which a match can end, so \<open>search\<close> asks whether that list is non-empty at some start.
  Greedy and lazy repetition agree for that question. The pattern for Unicode control
  characters only has code points above 255, which no modelled character is, so it never
  matches here; it is kept as the empty class.
\<close>

datatype rx =
    Cls "char \<Rightarrow> bool"
  | Rep nat "nat option" "char \<Rightarrow> bool"
  | Cat rx rx
  | Alt rx rx
  | Opt rx
  | WordB
  | LineStart

text \<open>A position: the character before it, if any, and the rest of the subject.\<close>

type_synonym pos = "char option \<times> string"

definition word_char :: "char \<Rightarrow> bool" where
  "word_char c \<longleftrightarrow> (let n = code c in
     (48 \<le> n \<and> n \<le> 57) \<or> (65 \<le> n \<and> n \<le> 90) \<or> (97 \<le> n \<and> n \<le> 122) \<or> n = 95
     \<or> n = 170 \<or> n = 178 \<or> n = 179 \<or> n = 181 \<or> n = 185 \<or> n = 186 \<or> (188 \<le> n \<and> n \<le> 190)
     \<or> (192 \<le> n \<and> n \<noteq> 215 \<and> n \<noteq> 247))"

definition opt_word :: "char option \<Rightarrow> bool" where
  "opt_word x = (case x of None \<Rightarrow> False | Some c \<Rightarrow> word_char c)"

definition peek :: "string \<Rightarrow> char option" where
  "peek s = (case s of [] \<Rightarrow> None | c # _ \<Rightarrow> Some c)"

text \<open>All ends of \<open>p{lo,hi}\<close> for one character class.\<close>

fun rep_ends :: "nat \<Rightarrow> nat option \<Rightarrow> (char \<Rightarrow> bool) \<Rightarrow> char option \<Rightarrow> string \<Rightarrow> pos list" where
  "rep_ends lo hi p pv [] = (if lo = 0 then [(pv, [])] else [])"
| "rep_ends lo hi p pv (c # cs) =
     (if lo = 0 then [(pv, c # cs)] else []) @
     (if p c \<and> hi \<noteq> Some 0 then rep_ends (lo - 1) (map_option (\<lambda>h. h - 1) hi) p (Some c) cs else [])"

fun ends :: "rx \<Rightarrow> pos \<Rightarrow> pos list" where
  "ends (Cls p) (pv, s) = (case s of [] \<Rightarrow> [] | c # cs \<Rightarrow> if p c then [(Some c, cs)] else [])"
| "ends (Rep lo hi p) (pv, s) = rep_ends lo hi p pv s"
| "ends (Cat a b) st = concat (map (ends b) (ends a st))"
| "ends (Alt a b) st = ends a st @ ends b st"
| "ends (Opt a) st = ends a st @ [st]"
| "ends WordB (pv, s) = (if opt_word pv \<noteq> opt_word (peek s) then [(pv, s)] else [])"
| "ends LineStart (pv, s) = (if pv = None \<or> pv = Some (char_of (10::nat)) then [(pv, s)] else [])"

fun search_from :: "rx \<Rightarrow> char option \<Rightarrow> string \<Rightarrow> bool" where
  "search_from r pv [] = (ends r (pv, []) \<noteq> [])"
| "search_from r pv (c # cs) = (ends r (pv, c # cs) \<noteq> [] \<or> search_from r (Some c) cs)"

definition search :: "rx \<Rightarrow> string \<Rightarrow> bool" where
  "search r s = search_from r None s"

section \<open>The patterns\<close>

definition any_char :: "char \<Rightarrow> bool" where "any_char c = True"

text \<open>A literal under \<open>re.IGNORECASE\<close>, and a literal as written.\<close>

fun lit_i :: "string \<Rightarrow> rx" where
  "lit_i [] = Rep 0 (Some 0) any_char"
| "lit_i [c] = Cls (\<lambda>x. lower_char x = lower_char c)"
| "lit_i (c # cs) = Cat (Cls (\<lambda>x. lower_char x = lower_char c)) (lit_i cs)"

fun lit :: "string \<Rightarrow> rx" where
  "lit [] = Rep 0 (Some 0) any_char"
| "lit [c] = Cls (\<lambda>x. x = c)"
| "lit (c # cs) = Cat (Cls (\<lambda>x. x = c)) (lit cs)"

fun alts :: "rx list \<Rightarrow> rx" where
  "alts [] = Cls (\<lambda>c. False)"
| "alts [r] = r"
| "alts (r # rs) = Alt r (alts rs)"

fun cats :: "rx list \<Rightarrow> rx" where
  "cats [] = Rep 0 (Some 0) any_char"
| "cats [r] = r"
| "cats (r # rs) = Cat r (cats rs)"

definition ws1 :: rx where "ws1 = Rep 1 None py_space"
definition ws0 :: rx where "ws0 = Rep 0 None py_space"
definition gap60 :: rx where "gap60 = Rep 0 (Some 60) any_char"

definition whole :: "rx list \<Rightarrow> rx" where
  "whole rs = cats [WordB, alts rs, WordB]"

definition plural :: "string \<Rightarrow> rx" where
  "plural s = Cat (lit_i s) (Opt (lit_i ''s''))"

definition instruction_override :: rx where
  "instruction_override = cats [
     whole (map lit_i [''ignore'', ''disregard'', ''forget'', ''override'']), gap60,
     whole (map lit_i [''previous'', ''prior'', ''above'', ''earlier'', ''all'', ''any'', ''system'']),
     gap60,
     whole [plural ''instruction'', plural ''prompt'', plural ''rule'', plural ''directive'',
       lit_i ''policies'']]"

definition role_reassignment :: rx where
  "role_reassignment = alts [
     cats [lit_i ''new'', ws1, lit_i ''system'', ws1, lit_i ''prompt''],
     cats [lit_i ''you'', ws1, lit_i ''are'', ws1, lit_i ''now'', WordB],
     cats [lit_i ''act'', ws1, lit_i ''as'', ws1, Opt (Cat (lit_i ''the'') ws1),
       Alt (lit_i ''system'') (lit_i ''admin'')]]"

definition system_role_marker :: rx where
  "system_role_marker = cats [LineStart, ws0,
     alts (map lit_i [''system'', ''assistant'', ''developer'']), ws0, lit_i '':'']"

definition chat_template_token :: rx where
  "chat_template_token = alts (map lit
     [''<|im_start|>'', ''<|im_end|>'', ''<|endoftext|>'', ''[INST]'', ''<<SYS>>''])"

definition secret_exfiltration :: rx where
  "secret_exfiltration = cats [
     whole (map lit_i [''reveal'', ''print'', ''show'', ''output'', ''leak'', ''exfiltrate'', ''repeat'']),
     gap60,
     whole [cats [lit_i ''system'', ws1, lit_i ''prompt''], plural ''secret'', plural ''credential'',
       cats [lit_i ''api'', ws1, plural ''key''], plural ''password'', plural ''token'']]"

definition unicode_obfuscation :: rx where
  "unicode_obfuscation = Cls (\<lambda>c. False)"

definition PATTERNS :: "(string \<times> rx) list" where
  "PATTERNS = [
     (''instruction_override'', instruction_override),
     (''role_reassignment'', role_reassignment),
     (''system_role_marker'', system_role_marker),
     (''chat_template_token'', chat_template_token),
     (''secret_exfiltration'', secret_exfiltration),
     (''unicode_obfuscation'', unicode_obfuscation)]"

record injection_scan =
  flagged :: bool
  signals :: "string list"

definition scan_for_injection :: "string list \<Rightarrow> injection_scan" where
  "scan_for_injection texts =
     (let sigs = map fst (filter (\<lambda>(name, pattern). \<exists>t \<in> set texts. search pattern t) PATTERNS)
      in \<lparr>flagged = (sigs \<noteq> []), signals = sigs\<rparr>)"

section \<open>What the scan reports\<close>

lemma scan_flagged_iff: "flagged (scan_for_injection ts) \<longleftrightarrow> signals (scan_for_injection ts) \<noteq> []"
  by (simp add: scan_for_injection_def Let_def)

lemma distinct_pattern_names: "distinct (map fst PATTERNS)"
  by (simp add: PATTERNS_def)

lemma scan_signals_iff:
  "s \<in> set (signals (scan_for_injection ts)) \<longleftrightarrow>
     (\<exists>r. (s, r) \<in> set PATTERNS \<and> (\<exists>t \<in> set ts. search r t))"
  by (force simp: scan_for_injection_def Let_def)

text \<open>More text never hides a signal, and the signals keep the order of the patterns.\<close>

lemma scan_signals_subseq: "subseq (signals (scan_for_injection ts)) (map fst PATTERNS)"
  by (simp add: scan_for_injection_def Let_def subseq_map)

lemma scan_signals_append:
  "set (signals (scan_for_injection (ts @ us))) =
     set (signals (scan_for_injection ts)) \<union> set (signals (scan_for_injection us))"
  by (auto simp: scan_signals_iff set_eq_iff)

end
