(* ===== verification/Paths.thy ===== *)
theory Paths
  imports Injection
begin

text \<open>
  The path and name helpers of \<open>context_broker/change_context.py\<close>: which service a path belongs
  to, how close two paths are, where a test of a file would be, and the two patterns that find
  class names and Python files in a task.
\<close>

section \<open>Paths\<close>

definition base_name :: "string \<Rightarrow> string" where
  "base_name path = after_last CHR ''/'' path"

definition is_test_path :: "string \<Rightarrow> bool" where
  "is_test_path path \<longleftrightarrow> py_in ''/test'' path \<or> prefix ''test_'' (base_name path) \<or> suffix ''_test.py'' (base_name path)"

text \<open>
  \<open>(?:^|/)(services/[^/]+)/\<close>, searched leftmost: a segment \<open>services\<close>, a non-empty one, and a slash
  after it.
\<close>

fun service_of :: "string list \<Rightarrow> string option" where
  "service_of (a # b # c # segs) =
     (if a = ''services'' \<and> b \<noteq> [] then Some (''services/'' @ b) else service_of (b # c # segs))"
| "service_of segs = None"

definition repo_scope :: "string \<Rightarrow> string option" where
  "repo_scope path = service_of (split_on CHR ''/'' path)"

definition same_repo :: "string option \<Rightarrow> string \<Rightarrow> bool" where
  "same_repo target_scope candidate_path =
     (case (target_scope, repo_scope candidate_path) of
        (Some t, Some c) \<Rightarrow> t = c
      | _ \<Rightarrow> True)"

fun shared_prefix :: "string list \<Rightarrow> string list \<Rightarrow> nat" where
  "shared_prefix (a # t) (b # c) = (if a \<noteq> b then 0 else Suc (shared_prefix t c))"
| "shared_prefix t c = 0"

definition path_proximity :: "string \<Rightarrow> string \<Rightarrow> nat" where
  "path_proximity target_path candidate_path =
     shared_prefix (butlast (split_on CHR ''/'' target_path)) (butlast (split_on CHR ''/'' candidate_path))"

definition module_stem :: "string \<Rightarrow> string" where
  "module_stem path = removesuffix ''.py'' (base_name path)"

text \<open>\<open>parts[: parts.index("src")]\<close> and what follows it.\<close>

definition before_src :: "string list \<Rightarrow> string list" where
  "before_src parts = takeWhile (\<lambda>p. p \<noteq> ''src'') parts"

definition after_src :: "string list \<Rightarrow> string list" where
  "after_src parts = tl (dropWhile (\<lambda>p. p \<noteq> ''src'') parts)"

definition conventional_test_paths :: "string \<Rightarrow> string list" where
  "conventional_test_paths target_path =
     (let parts = split_on CHR ''/'' target_path;
          test_base = ''test_'' @ module_stem target_path @ ''.py'';
          top = py_join ''/'' (before_src parts); rest = after_src parts
      in dict_fromkeys
          ((if ''src'' \<in> set parts
            then [top @ ''/tests/unit/'' @ test_base, top @ ''/tests/'' @ test_base]
               @ (if 2 < length rest
                  then [top @ ''/tests/unit/'' @ py_join ''/'' (butlast (tl rest)) @ ''/'' @ test_base] else [])
            else [])
           @ [py_join ''/'' (butlast parts) @ ''/'' @ test_base]))"

section \<open>The two patterns\<close>

definition ascii_alnum :: "char \<Rightarrow> bool" where
  "ascii_alnum c \<longleftrightarrow> (let n = code c in
     (48 \<le> n \<and> n \<le> 57) \<or> (65 \<le> n \<and> n \<le> 90) \<or> (97 \<le> n \<and> n \<le> 122))"

definition ascii_upper :: "char \<Rightarrow> bool" where
  "ascii_upper c \<longleftrightarrow> 65 \<le> code c \<and> code c \<le> 90"

text \<open>The maximal runs of word characters.\<close>

function word_runs :: "string \<Rightarrow> string list" where
  "word_runs s = (case dropWhile (Not \<circ> word_char) s of
     [] \<Rightarrow> []
   | c # cs \<Rightarrow> takeWhile word_char (c # cs) # word_runs (dropWhile word_char (c # cs)))"
  by pat_completeness auto
termination
proof (relation "measure length", goal_cases)
  case (2 s c cs)
  have w: "word_char c" using 2 hd_dropWhile [of "Not \<circ> word_char" s] by (metis comp_apply list.distinct(1) list.sel(1))
  have "length (dropWhile word_char (c # cs)) \<le> length cs" using w by (simp add: length_dropWhile_le)
  also have "\<dots> < length (c # cs)" by simp
  also have "\<dots> \<le> length s" using 2 by (metis length_dropWhile_le)
  finally show ?case by simp
qed simp

declare word_runs.simps [simp del]

text \<open>
  \<open>_CAPWORDS\<close>: a match starts and ends at a word boundary and has only ASCII letters and digits,
  so it is a whole run of word characters.
\<close>

definition cap_words :: "string \<Rightarrow> string list" where
  "cap_words s = filter (\<lambda>w. 2 \<le> length w \<and> ascii_upper (hd w) \<and> list_all ascii_alnum w) (word_runs s)"

definition path_char :: "char \<Rightarrow> bool" where
  "path_char c \<longleftrightarrow> ascii_alnum c \<or> c \<in> {CHR ''_'', CHR ''.'', CHR ''/'', CHR ''-''}"

text \<open>
  \<open>_PYFILE\<close> at one position: the longest piece of the run that ends in \<open>.py\<close> and at a word boundary.
\<close>

definition py_file_at :: "string \<Rightarrow> nat option" where
  "py_file_at s = (let n = length (takeWhile path_char s)
     in find (\<lambda>k. 4 \<le> k \<and> suffix ''.py'' (take k s) \<and> \<not> opt_word (peek (drop k s))) (rev [0..<Suc n]))"

lemma py_file_at_le: "py_file_at s = Some k \<Longrightarrow> 4 \<le> k \<and> k \<le> length s"
proof -
  assume "py_file_at s = Some k"
  then obtain i where "i < Suc (length (takeWhile path_char s))" "4 \<le> k"
      "k = rev [0..<Suc (length (takeWhile path_char s))] ! i"
    unfolding py_file_at_def Let_def find_Some_iff by (auto simp del: upt_Suc)
  then have "k \<in> set (rev [0..<Suc (length (takeWhile path_char s))])" "4 \<le> k"
    by (metis length_rev length_upt minus_nat.diff_0 nth_mem)+
  then show ?thesis using length_takeWhile_le [of path_char s] by auto
qed

function py_files :: "char option \<Rightarrow> string \<Rightarrow> string list" where
  "py_files pv s = (case s of
     [] \<Rightarrow> []
   | c # cs \<Rightarrow>
       (case (if opt_word pv \<noteq> word_char c then py_file_at s else None) of
          None \<Rightarrow> py_files (Some c) cs
        | Some k \<Rightarrow> take k s # py_files (Some (s ! (k - 1))) (drop k s)))"
  by pat_completeness auto
termination
proof (relation "measure (\<lambda>(b, s). length s)", goal_cases)
  case (3 pv s c cs k)
  then have "py_file_at s = Some k" by (simp split: if_splits)
  with py_file_at_le [OF this] 3 show ?case by simp
qed auto

declare py_files.simps [simp del]

section \<open>Facts\<close>

lemma same_repo_None [simp]: "same_repo None p"
  by (simp add: same_repo_def)

lemma same_repo_iff:
  "same_repo (Some t) p \<longleftrightarrow> repo_scope p = None \<or> repo_scope p = Some t"
  by (auto simp: same_repo_def split: option.splits)

lemma shared_prefix_sym: "shared_prefix a b = shared_prefix b a"
  by (induction a b rule: shared_prefix.induct) auto

lemma path_proximity_sym: "path_proximity p q = path_proximity q p"
  unfolding path_proximity_def by (rule shared_prefix_sym)

lemma shared_prefix_take:
  "n \<le> shared_prefix a b \<longleftrightarrow> n \<le> length a \<and> n \<le> length b \<and> take n a = take n b"
proof (induction a b arbitrary: n rule: shared_prefix.induct)
  case (1 a t b c)
  then show ?case by (cases n) auto
qed (auto simp: le_0_eq)

text \<open>A segment of the path named \<open>services\<close> with a non-empty one and a further one after it.\<close>

lemma service_of_Some:
  "service_of segs = Some s \<Longrightarrow> \<exists>u b v. segs = u @ ''services'' # b # v \<and> v \<noteq> [] \<and> b \<noteq> [] \<and> s = ''services/'' @ b"
proof (induction segs rule: service_of.induct)
  case (1 a b c segs)
  show ?case
  proof (cases "a = ''services'' \<and> b \<noteq> []")
    case True
    with 1(2) have "a # b # c # segs = [] @ ''services'' # b # (c # segs)" "s = ''services/'' @ b" by auto
    with True show ?thesis by blast
  next
    case False
    with 1 obtain u b' v where "b # c # segs = u @ ''services'' # b' # v" "v \<noteq> []" "b' \<noteq> []" "s = ''services/'' @ b'" by auto
    then show ?thesis by (intro exI [of _ "a # u"] exI [of _ b'] exI [of _ v]) simp
  qed
qed auto

lemma distinct_conventional: "distinct (conventional_test_paths p)"
  by (simp add: conventional_test_paths_def Let_def)

lemma word_runs_words: "w \<in> set (word_runs s) \<Longrightarrow> w \<noteq> [] \<and> list_all word_char w"
proof (induction s rule: word_runs.induct)
  case (1 s)
  show ?case
  proof (cases "dropWhile (Not \<circ> word_char) s")
    case Nil
    with 1(2) show ?thesis by (simp add: word_runs.simps)
  next
    case (Cons c cs)
    have c: "word_char c" using Cons hd_dropWhile [of "Not \<circ> word_char" s] by (metis comp_apply list.distinct(1) list.sel(1))
    from Cons 1(2) have "w = takeWhile word_char (c # cs) \<or> w \<in> set (word_runs (dropWhile word_char (c # cs)))"
      by (subst (asm) word_runs.simps) simp
    then show ?thesis
    proof
      assume "w = takeWhile word_char (c # cs)"
      then show ?thesis using c by (auto simp: list_all_iff dest: set_takeWhileD)
    qed (rule 1(1) [OF Cons])
  qed
qed

end
