(* ===== verification/Registry.thy ===== *)
theory Registry
  imports PyText
begin

text \<open>
  The Knowledge Registry as the broker reads it (\<open>infrastructure/postgres\<close>): the tables it
  queries as lists of rows, one function per query, and the row types handed to the broker.
  A query without ORDER BY returns rows in the order of its table here; tables are arbitrary
  lists, so nothing proved rests on that order. Rows are members of a build when the build's
  sequence number lies in their validity interval.
\<close>

section \<open>Tables\<close>

record build_run =
  br_kb_version :: string
  br_build_seq :: int
  br_status :: string

record source_item =
  src_id :: nat
  src_uri :: string
  src_type :: "string option"
  src_path :: "string option"
  src_deleted :: bool

record knowledge_artifact =
  ka_id :: uuid
  ka_source :: nat
  ka_type :: string
  ka_title :: "string option"
  ka_body :: "string option"
  ka_search :: "string option"
  ka_kind :: "string option"
  ka_authority :: "real option"
  ka_centrality :: "real option"
  ka_acl :: "string list"
  ka_span_start :: "int option"
  ka_span_end :: "int option"
  ka_valid_from :: int
  ka_invalidated :: "int option"

record knowledge_edge =
  ke_id :: uuid
  ke_from :: uuid
  ke_to :: uuid
  ke_type :: string
  ke_confidence :: "real option"
  ke_source :: "string option"
  ke_trust :: string
  ke_valid_from :: int
  ke_invalidated :: "int option"

text \<open>\<open>RetrievalEventInsert\<close>; the latency, a clock reading, is left out.\<close>

record retrieval_event =
  ev_run_id :: string
  ev_agent_name :: string
  ev_tool_name :: string
  ev_status :: string
  ev_kb_version :: string
  ev_context_pack_id :: "uuid option"
  ev_query_text :: "string option"
  ev_normalized_query :: "string option"
  ev_retrieval_profile :: "string option"
  ev_returned :: "uuid list"
  ev_reused :: "uuid list"
  ev_new :: "uuid list"
  ev_cache_hit :: bool
  ev_semantic_reuse :: bool
  ev_tokens_returned :: int
  ev_details :: "(string \<times> json) list option"

text \<open>The entailment cache: its four-part key and the stored verdict with its reason.\<close>

type_synonym entailment_key = "string \<times> string \<times> string \<times> string"

record registry =
  builds :: "build_run list"
  sources :: "source_item list"
  artifacts :: "knowledge_artifact list"
  edges :: "knowledge_edge list"
  events :: "retrieval_event list"
  entailments :: "(entailment_key, bool \<times> string) dict"

section \<open>Membership\<close>

definition member_at :: "int \<Rightarrow> int \<Rightarrow> int option \<Rightarrow> bool" where
  "member_at build_seq valid_from invalidated \<longleftrightarrow>
     valid_from \<le> build_seq \<and> (case invalidated of None \<Rightarrow> True | Some i \<Rightarrow> i > build_seq)"

definition artifact_member :: "int \<Rightarrow> knowledge_artifact \<Rightarrow> bool" where
  "artifact_member s a = member_at s (ka_valid_from a) (ka_invalidated a)"

definition edge_member :: "int \<Rightarrow> knowledge_edge \<Rightarrow> bool" where
  "edge_member s e = member_at s (ke_valid_from e) (ke_invalidated e)"

section \<open>The active version (active_kb_version.py)\<close>

record active_version =
  av_kb_version :: string
  av_build_seq :: int

definition fetch_active_version :: "registry \<Rightarrow> exn + active_version option" where
  "fetch_active_version r =
     (case filter (\<lambda>b. br_status b = ''active'') (builds r) of
        [] \<Rightarrow> Inr None
      | [b] \<Rightarrow> Inr (Some \<lparr>av_kb_version = br_kb_version b, av_build_seq = br_build_seq b\<rparr>)
      | _ \<Rightarrow> Inl MultipleResultsFound)"

definition fetch_active_kb_version :: "registry \<Rightarrow> exn + string option" where
  "fetch_active_kb_version r =
     (case fetch_active_version r of Inl e \<Rightarrow> Inl e
      | Inr None \<Rightarrow> Inr None | Inr (Some v) \<Rightarrow> Inr (Some (av_kb_version v)))"

section \<open>Artifacts (artifacts.py)\<close>

record artifact_row =
  ar_id :: uuid
  ar_type :: string
  ar_title :: "string option"
  ar_body :: "string option"
  ar_kind :: "string option"
  ar_authority :: "real option"
  ar_source_uri :: string
  ar_acl :: "string list"
  ar_source_type :: "string option"
  ar_invalidated :: "int option"
  ar_source_deleted :: bool
  ar_centrality :: "real option"
  ar_search :: "string option"

definition artifact_row_of :: "knowledge_artifact \<Rightarrow> source_item \<Rightarrow> artifact_row" where
  "artifact_row_of a s = \<lparr>ar_id = ka_id a, ar_type = ka_type a, ar_title = ka_title a,
     ar_body = ka_body a, ar_kind = ka_kind a, ar_authority = ka_authority a,
     ar_source_uri = src_uri s, ar_acl = ka_acl a, ar_source_type = src_type s,
     ar_invalidated = ka_invalidated a, ar_source_deleted = src_deleted s,
     ar_centrality = ka_centrality a, ar_search = ka_search a\<rparr>"

definition joined :: "registry \<Rightarrow> (knowledge_artifact \<times> source_item) list" where
  "joined r = concat (map (\<lambda>a. map (Pair a) (filter (\<lambda>s. src_id s = ka_source a) (sources r))) (artifacts r))"

definition fetch_artifacts :: "registry \<Rightarrow> uuid list \<Rightarrow> int \<Rightarrow> artifact_row list" where
  "fetch_artifacts r artifact_ids build_seq =
     map (\<lambda>(a, s). artifact_row_of a s)
       (filter (\<lambda>(a, s). ka_id a \<in> set artifact_ids \<and> artifact_member build_seq a) (joined r))"

definition fetch_current_symbol_titles :: "registry \<Rightarrow> int \<Rightarrow> string set" where
  "fetch_current_symbol_titles r build_seq =
     set (concat (map (\<lambda>(a, s). case ka_title a of None \<Rightarrow> [] | Some t \<Rightarrow> if t = [] then [] else [t])
       (filter (\<lambda>(a, s). ka_type a \<in> {''code_symbol'', ''code_file'', ''endpoint''}
         \<and> \<not> src_deleted s \<and> artifact_member build_seq a) (joined r))))"

section \<open>Edges (edges.py)\<close>

record edge_row =
  er_from :: uuid
  er_to :: uuid
  er_type :: string
  er_confidence :: "real option"
  er_source :: "string option"
  er_trust :: string

definition edge_row_of :: "knowledge_edge \<Rightarrow> edge_row" where
  "edge_row_of e = \<lparr>er_from = ke_from e, er_to = ke_to e, er_type = ke_type e,
     er_confidence = ke_confidence e, er_source = ke_source e, er_trust = ke_trust e\<rparr>"

definition edge_order :: "edge_row \<Rightarrow> uuid \<times> uuid \<times> string \<times> string" where
  "edge_order e = (er_from e, er_to e, er_type e, er_trust e)"

definition fetch_edges_touching ::
  "registry \<Rightarrow> uuid list \<Rightarrow> int \<Rightarrow> string list option \<Rightarrow> edge_row list" where
  "fetch_edges_touching r artifact_ids build_seq edge_types =
     sort_key edge_order (map edge_row_of (filter (\<lambda>e. edge_member build_seq e
       \<and> (ke_from e \<in> set artifact_ids \<or> ke_to e \<in> set artifact_ids)
       \<and> (case edge_types of None \<Rightarrow> True | Some ts \<Rightarrow> ts = [] \<or> ke_type e \<in> set ts)) (edges r)))"

section \<open>Provenance (provenance.py)\<close>

record provenance_row =
  pv_id :: uuid
  pv_source_deleted :: bool
  pv_acl :: "string list"
  pv_extracted_edge :: bool
  pv_any_edge :: bool

definition incident :: "int \<Rightarrow> uuid \<Rightarrow> knowledge_edge \<Rightarrow> bool" where
  "incident s u e \<longleftrightarrow> edge_member s e \<and> (ke_from e = u \<or> ke_to e = u)"

definition fetch_provenance ::
  "registry \<Rightarrow> uuid list \<Rightarrow> int \<Rightarrow> string \<Rightarrow> (uuid, provenance_row) dict" where
  "fetch_provenance r artifact_ids build_seq extracted_bucket =
     dict_update_all [] (map (\<lambda>(a, s). (ka_id a,
         \<lparr>pv_id = ka_id a, pv_source_deleted = src_deleted s, pv_acl = ka_acl a,
          pv_extracted_edge = list_ex (\<lambda>e. incident build_seq (ka_id a) e \<and> ke_trust e = extracted_bucket) (edges r),
          pv_any_edge = list_ex (incident build_seq (ka_id a)) (edges r)\<rparr>))
       (filter (\<lambda>(a, s). ka_id a \<in> set artifact_ids \<and> artifact_member build_seq a) (joined r)))"

definition fetch_existing_anywhere :: "registry \<Rightarrow> uuid list \<Rightarrow> uuid set" where
  "fetch_existing_anywhere r artifact_ids = set (filter (\<lambda>u. u \<in> set artifact_ids) (map ka_id (artifacts r)))"

definition fetch_cited_body_texts :: "registry \<Rightarrow> uuid list \<Rightarrow> int \<Rightarrow> (uuid, string) dict" where
  "fetch_cited_body_texts r artifact_ids build_seq =
     dict_update_all [] (concat (map (\<lambda>a. case ka_body a of
         None \<Rightarrow> [] | Some b \<Rightarrow> if b = [] then [] else [(ka_id a, b)])
       (filter (\<lambda>a. ka_id a \<in> set artifact_ids \<and> artifact_member build_seq a) (artifacts r))))"

section \<open>Events (retrieval_events.py)\<close>

definition fetch_subject_retrieved_ids :: "registry \<Rightarrow> string \<Rightarrow> string \<Rightarrow> uuid set" where
  "fetch_subject_retrieved_ids r agent_name kb_version =
     set (concat (map (\<lambda>e. ev_returned e @ ev_reused e @ ev_new e)
       (filter (\<lambda>e. ev_agent_name e = agent_name \<and> ev_kb_version e = kb_version) (events r))))"

text \<open>The ledger is kept in insertion order, which is the order of \<open>created_at\<close>.\<close>

definition list_events :: "registry \<Rightarrow> string \<Rightarrow> string \<Rightarrow> retrieval_event list" where
  "list_events r run_id agent_name =
     filter (\<lambda>e. ev_run_id e = run_id \<and> ev_agent_name e = agent_name) (events r)"

definition replay_events :: "registry \<Rightarrow> string \<Rightarrow> retrieval_event list" where
  "replay_events r run_id = filter (\<lambda>e. ev_run_id e = run_id) (events r)"

definition add_event :: "retrieval_event \<Rightarrow> registry \<Rightarrow> registry" where
  "add_event e r = r\<lparr>events := events r @ [e]\<rparr>"

section \<open>The entailment cache (entailment_cache.py)\<close>

definition lookup_entailment :: "registry \<Rightarrow> entailment_key \<Rightarrow> (bool \<times> string) option" where
  "lookup_entailment r key = map_of (entailments r) key"

text \<open>\<open>ON CONFLICT DO NOTHING\<close>.\<close>

definition record_entailment :: "entailment_key \<Rightarrow> bool \<Rightarrow> string \<Rightarrow> registry \<Rightarrow> registry" where
  "record_entailment key entailed reason r =
     (case map_of (entailments r) key of
        Some _ \<Rightarrow> r
      | None \<Rightarrow> r\<lparr>entailments := entailments r @ [(key, (entailed, reason))]\<rparr>)"

section \<open>Facts about the queries\<close>

definition registry_ok :: "registry \<Rightarrow> bool" where
  "registry_ok r \<longleftrightarrow>
     distinct (map ka_id (artifacts r)) \<and> distinct (map src_id (sources r))
     \<and> (\<forall>a \<in> set (artifacts r). uuid_ok (ka_id a))
     \<and> (\<forall>b \<in> set (builds r). br_kb_version b \<noteq> [])
     \<and> length (filter (\<lambda>b. br_status b = ''active'') (builds r)) \<le> 1"

lemma in_joined: "(a, s) \<in> set (joined r) \<longleftrightarrow>
    a \<in> set (artifacts r) \<and> s \<in> set (sources r) \<and> src_id s = ka_source a"
  by (auto simp: joined_def)

lemma in_fetch_artifacts:
  "row \<in> set (fetch_artifacts r ids seq) \<longleftrightarrow>
     (\<exists>a s. a \<in> set (artifacts r) \<and> s \<in> set (sources r) \<and> src_id s = ka_source a \<and>
        ka_id a \<in> set ids \<and> artifact_member seq a \<and> row = artifact_row_of a s)"
  unfolding fetch_artifacts_def by (auto simp: in_joined) blast

lemma fetch_artifacts_id: "row \<in> set (fetch_artifacts r ids seq) \<Longrightarrow> ar_id row \<in> set ids"
  by (auto simp: in_fetch_artifacts artifact_row_of_def)

lemma filter_singleton_key: "distinct (map f xs) \<Longrightarrow> length (filter (\<lambda>x. f x = k) xs) \<le> 1"
proof (induction xs)
  case (Cons x xs)
  then show ?case by (cases "f x = k") (auto simp: filter_empty_conv image_iff)
qed simp

lemma distinct_joined:
  assumes "distinct (map ka_id as)" and "distinct (map src_id ss)"
  shows "distinct (map (\<lambda>(a, s). ka_id a)
    (concat (map (\<lambda>a. map (Pair a) (filter (\<lambda>s. src_id s = ka_source a) ss)) as)))"
  using assms(1)
proof (induction as)
  case (Cons a as)
  have "length (filter (\<lambda>s. src_id s = ka_source a) ss) \<le> 1"
    by (rule filter_singleton_key) (rule assms(2))
  then have "distinct (map (\<lambda>(a, s). ka_id a) (map (Pair a) (filter (\<lambda>s. src_id s = ka_source a) ss)))"
    by (cases "filter (\<lambda>s. src_id s = ka_source a) ss") auto
  with Cons show ?case by auto
qed simp

text \<open>The primary keys make every artifact come back at most once.\<close>

lemma fetch_artifacts_distinct:
  assumes "registry_ok r" shows "distinct (map ar_id (fetch_artifacts r ids seq))"
proof -
  have "distinct (map (\<lambda>(a, s). ka_id a) (joined r))"
    unfolding joined_def using assms by (intro distinct_joined) (auto simp: registry_ok_def)
  then have "distinct (map (\<lambda>(a, s). ka_id a)
      (filter (\<lambda>(a, s). ka_id a \<in> set ids \<and> artifact_member seq a) (joined r)))"
    by (rule distinct_map_filter)
  moreover have "map ar_id (fetch_artifacts r ids seq) = map (\<lambda>(a, s). ka_id a)
      (filter (\<lambda>(a, s). ka_id a \<in> set ids \<and> artifact_member seq a) (joined r))"
    by (simp add: fetch_artifacts_def artifact_row_of_def split_def)
  ultimately show ?thesis by simp
qed

lemma fetch_artifacts_uuid_ok:
  "registry_ok r \<Longrightarrow> row \<in> set (fetch_artifacts r ids seq) \<Longrightarrow> uuid_ok (ar_id row)"
  by (auto simp: in_fetch_artifacts artifact_row_of_def registry_ok_def)

lemma in_fetch_edges:
  "e \<in> set (fetch_edges_touching r ids seq ts) \<longleftrightarrow>
     (\<exists>k \<in> set (edges r). edge_member seq k \<and> (ke_from k \<in> set ids \<or> ke_to k \<in> set ids) \<and>
        (case ts of None \<Rightarrow> True | Some l \<Rightarrow> l = [] \<or> ke_type k \<in> set l) \<and> e = edge_row_of k)"
  by (auto simp: fetch_edges_touching_def)

lemma fetch_edges_touch:
  "e \<in> set (fetch_edges_touching r ids seq ts) \<Longrightarrow> er_from e \<in> set ids \<or> er_to e \<in> set ids"
  by (auto simp: in_fetch_edges edge_row_of_def)

lemma fetch_provenance_Some:
  assumes "map_of (fetch_provenance r ids seq b) u = Some row"
  shows "u \<in> set ids \<and> pv_id row = u \<and> (\<exists>a s. (a, s) \<in> set (joined r) \<and> ka_id a = u \<and>
    artifact_member seq a \<and> pv_source_deleted row = src_deleted s \<and> pv_acl row = ka_acl a \<and>
    pv_extracted_edge row = list_ex (\<lambda>e. incident seq u e \<and> ke_trust e = b) (edges r) \<and>
    pv_any_edge row = list_ex (incident seq u) (edges r))"
proof -
  have "(u, row) \<in> set (fetch_provenance r ids seq b)"
    using assms by (rule map_of_SomeD)
  then show ?thesis
    unfolding fetch_provenance_def
    by (auto dest!: set_dict_update_all_subset [THEN subsetD]) blast
qed

lemma fetch_provenance_ok: "dict_ok (fetch_provenance r ids seq b)"
  by (simp add: fetch_provenance_def)

lemma in_subject_retrieved:
  "u \<in> fetch_subject_retrieved_ids r agent v \<longleftrightarrow>
     (\<exists>e \<in> set (events r). ev_agent_name e = agent \<and> ev_kb_version e = v \<and>
        u \<in> set (ev_returned e) \<union> set (ev_reused e) \<union> set (ev_new e))"
  by (auto simp: fetch_subject_retrieved_ids_def)

lemma fetch_active_ok:
  "registry_ok r \<Longrightarrow> \<exists>v. fetch_active_version r = Inr v"
  by (auto simp: registry_ok_def fetch_active_version_def split: list.splits)

lemma fetch_active_Some:
  assumes "fetch_active_version r = Inr (Some v)"
  shows "\<exists>b \<in> set (builds r). br_status b = ''active'' \<and> av_kb_version v = br_kb_version b
    \<and> av_build_seq v = br_build_seq b"
proof -
  define act where "act = filter (\<lambda>b. br_status b = ''active'') (builds r)"
  from assms obtain b where "act = [b]" "v = \<lparr>av_kb_version = br_kb_version b, av_build_seq = br_build_seq b\<rparr>"
    unfolding fetch_active_version_def act_def [symmetric] by (auto split: list.splits)
  moreover from this(1) have "b \<in> set act" by simp
  then have "b \<in> set (builds r) \<and> br_status b = ''active''" unfolding act_def by simp
  ultimately show ?thesis by (intro bexI [of _ b]) simp_all
qed

lemma fetch_active_nonempty:
  "registry_ok r \<Longrightarrow> fetch_active_version r = Inr (Some v) \<Longrightarrow> av_kb_version v \<noteq> []"
  using fetch_active_Some by (fastforce simp: registry_ok_def)

lemma record_entailment_lookup:
  "lookup_entailment (record_entailment key b why r) key =
     Some (case lookup_entailment r key of None \<Rightarrow> (b, why) | Some v \<Rightarrow> v)"
  by (auto simp: lookup_entailment_def record_entailment_def map_add_def split: option.splits)

lemma record_entailment_other:
  "k \<noteq> key \<Longrightarrow> lookup_entailment (record_entailment key b why r) k = lookup_entailment r k"
  by (auto simp: lookup_entailment_def record_entailment_def map_add_def split: option.splits)

end
