(* ===== verification/Lru.thy ===== *)
theory Lru
  imports Prelude
begin

text \<open>
  What the broker's two in-process stores share: an insertion-ordered dictionary whose front
  is evicted while it is full and whose touched entries move to the back. The locale is the
  interface; \<open>Budgets\<close> and \<open>PackState\<close> interpret it on the stores of the code.
\<close>

text \<open>\<open>while len(d) >= max: del d[next(iter(d))]\<close>; an empty full dictionary raises.\<close>

fun evict_front :: "nat \<Rightarrow> ('k, 'v) dict \<Rightarrow> exn + ('k, 'v) dict" where
  "evict_front m [] = (if m = 0 then Inl StopIteration else Inr [])"
| "evict_front m (x # xs) = (if m \<le> length (x # xs) then evict_front m xs else Inr (x # xs))"

lemma evict_front_drop:
  "0 < m \<Longrightarrow> evict_front m d = Inr (drop (Suc (length d) - m) d)"
  by (induction d) (auto simp: Suc_diff_le not_le)

lemma evict_front_length:
  "evict_front m d = Inr d' \<Longrightarrow> length d' < m"
  by (induction m d rule: evict_front.induct) (auto split: if_splits)

lemma evict_front_suffix: "evict_front m d = Inr d' \<Longrightarrow> \<exists>u. d = u @ d'"
proof (induction m d rule: evict_front.induct)
  case (2 m x xs)
  show ?case
  proof (cases "m \<le> length (x # xs)")
    case True
    with 2 obtain u where "xs = u @ d'" by auto
    then show ?thesis by (intro exI [of _ "x # u"]) simp
  next
    case False
    with 2 show ?thesis by simp
  qed
qed (auto split: if_splits)

lemma evict_front_total: "0 < m \<Longrightarrow> \<exists>d'. evict_front m d = Inr d'"
  by (simp add: evict_front_drop)

lemma evict_front_noop: "length d < m \<Longrightarrow> evict_front m d = Inr d"
  by (cases d) auto

text \<open>The interface of a bounded store with recency order.\<close>

locale lru_store =
  fixes entries :: "'s \<Rightarrow> ('k, 'v) dict"
    and cap :: "'s \<Rightarrow> nat"
    and touch :: "'k \<Rightarrow> 's \<Rightarrow> 's"
  assumes touch_keys: "dict_ok (entries s) \<Longrightarrow> 0 < cap s \<Longrightarrow> dict_ok (entries (touch k s))"
    and touch_cap: "cap (touch k s) = cap s"
    and touch_bound: "length (entries s) \<le> cap s \<Longrightarrow> 0 < cap s \<Longrightarrow> dict_ok (entries s)
      \<Longrightarrow> length (entries (touch k s)) \<le> cap s"
    and touch_last: "dict_ok (entries s) \<Longrightarrow> 0 < cap s
      \<Longrightarrow> \<exists>v d. entries (touch k s) = d @ [(k, v)] \<and> (\<forall>x \<in> set d. x \<in> set (entries s))"
begin

fun touch_each :: "'k list \<Rightarrow> 's \<Rightarrow> 's" where
  "touch_each [] s = s"
| "touch_each (k # ks) s = touch_each ks (touch k s)"

lemma touch_each_cap: "cap (touch_each ks s) = cap s"
  by (induction ks s rule: touch_each.induct) (auto simp: touch_cap)

lemma touch_each_ok: "dict_ok (entries s) \<Longrightarrow> 0 < cap s \<Longrightarrow> dict_ok (entries (touch_each ks s))"
  by (induction ks s rule: touch_each.induct) (auto simp: touch_keys touch_cap)

text \<open>However many keys are touched, the store never holds more than its capacity.\<close>

lemma touch_each_bound:
  "dict_ok (entries s) \<Longrightarrow> 0 < cap s \<Longrightarrow> length (entries s) \<le> cap s
   \<Longrightarrow> length (entries (touch_each ks s)) \<le> cap s"
  by (induction ks s rule: touch_each.induct) (auto simp: touch_keys touch_cap touch_bound)

lemma touched_present:
  "dict_ok (entries s) \<Longrightarrow> 0 < cap s \<Longrightarrow> map_of (entries (touch k s)) k \<noteq> None"
proof -
  assume "dict_ok (entries s)" "0 < cap s"
  then obtain v d where "entries (touch k s) = d @ [(k, v)]" using touch_last by blast
  then show "map_of (entries (touch k s)) k \<noteq> None" by (simp add: map_of_eq_None_iff)
qed

end

end
