(* ===== verification/JsonText.thy ===== *)
theory JsonText
  imports Sha256
begin

text \<open>
  The canonical JSON the broker hashes and signs: Python's \<open>json.dumps\<close> with
  \<open>separators=(",", ":")\<close>, \<open>sort_keys=True\<close> and \<open>ensure_ascii=False\<close>, on the documents
  the program builds, which hold no floats. UTF-8 keeps texts apart.
\<close>

section \<open>Documents and their text\<close>

datatype doc =
    DNull
  | DBool bool
  | DInt int
  | DStr string
  | DArr "doc list"
  | DObj "(string \<times> doc) list"

abbreviation quote_mark :: char where "quote_mark \<equiv> CHR 0x22"
abbreviation backslash :: char where "backslash \<equiv> CHR 0x5C"

definition ESCAPES :: "(char, char) dict" where
  "ESCAPES = [(quote_mark, quote_mark), (backslash, backslash), (CHR 0x08, CHR ''b''), (CHR 0x0C, CHR ''f''),
     (CHR 0x0A, CHR ''n''), (CHR 0x0D, CHR ''r''), (CHR 0x09, CHR ''t'')]"

definition esc_char :: "char \<Rightarrow> string" where
  "esc_char c = (case map_of ESCAPES c of
      Some x \<Rightarrow> [backslash, x]
    | None \<Rightarrow> if code c < 32 then backslash # CHR ''u'' # hex_digits 4 (code c) else [c])"

definition json_str :: "string \<Rightarrow> string" where
  "json_str s = quote_mark # concat (map esc_char s) @ [quote_mark]"

fun json_raw :: "doc \<Rightarrow> string" where
  "json_raw DNull = ''null''"
| "json_raw (DBool b) = (if b then ''true'' else ''false'')"
| "json_raw (DInt i) = int_str i"
| "json_raw (DStr s) = json_str s"
| "json_raw (DArr xs) = ''['' @ py_join '','' (map json_raw xs) @ '']''"
| "json_raw (DObj kvs) = ''{'' @ py_join '','' (map (\<lambda>(k, v). json_str k @ '':'' @ json_raw v) kvs) @ ''}''"

fun sort_keys :: "doc \<Rightarrow> doc" where
  "sort_keys (DArr xs) = DArr (map sort_keys xs)"
| "sort_keys (DObj kvs) = DObj (sort_key fst (map (\<lambda>(k, v). (k, sort_keys v)) kvs))"
| "sort_keys d = d"

definition json_dumps :: "doc \<Rightarrow> string" where
  "json_dumps d = json_raw (sort_keys d)"

text \<open>The value a document stands for.\<close>

fun json_of_doc :: "doc \<Rightarrow> json" where
  "json_of_doc DNull = JNull"
| "json_of_doc (DBool b) = JBool b"
| "json_of_doc (DInt i) = JInt i"
| "json_of_doc (DStr s) = JStr s"
| "json_of_doc (DArr xs) = JArr (map json_of_doc xs)"
| "json_of_doc (DObj kvs) = JObj (map (\<lambda>(k, v). (k, json_of_doc v)) kvs)"

lemma json_of_doc_inj: "json_of_doc d = json_of_doc d' \<longleftrightarrow> d = d'"
proof
  show "json_of_doc d = json_of_doc d' \<Longrightarrow> d = d'"
  proof (induction d arbitrary: d')
    case (DArr xs)
    then obtain ys where "d' = DArr ys" "map json_of_doc xs = map json_of_doc ys" by (cases d') auto
    moreover from this have "xs = ys" using DArr.IH by (intro list.inj_map_strong [of xs ys json_of_doc json_of_doc]) blast+
    ultimately show ?case by simp
  next
    case (DObj kvs)
    let ?f = "\<lambda>(k :: string, v). (k, json_of_doc v)"
    obtain kvs' where d': "d' = DObj kvs'" and e: "map ?f kvs = map ?f kvs'" using DObj.prems by (cases d') auto
    have "kvs = kvs'"
    proof (rule list.inj_map_strong [OF _ e])
      fix p q assume "p \<in> set kvs" "q \<in> set kvs'" "?f p = ?f q"
      then show "p = q"
        using DObj.IH [of p "snd p" "snd q"] by (simp add: snds.intros prod_eq_iff split: prod.splits)
    qed
    with d' show ?case by simp
  next
    case DNull then show ?case by (cases d') simp_all
  next
    case (DBool b) then show ?case by (cases d') simp_all
  next
    case (DInt i) then show ?case by (cases d') simp_all
  next
    case (DStr x) then show ?case by (cases d') simp_all
  qed
qed simp

section \<open>UTF-8 keeps texts apart\<close>

text \<open>\<open>decodable f\<close>: the texts of \<open>f\<close> can be read off the front of any longer text.\<close>

definition decodable :: "('a \<Rightarrow> 'b list) \<Rightarrow> bool" where
  "decodable f \<longleftrightarrow> (\<forall>x y s t. f x @ s = f y @ t \<longrightarrow> x = y \<and> s = t)"

lemma decodableD: "decodable f \<Longrightarrow> f x @ s = f y @ t \<Longrightarrow> x = y \<and> s = t"
  unfolding decodable_def by blast

lemma byte_eq: "m < 256 \<Longrightarrow> n < 256 \<Longrightarrow> (of_nat m :: 8 word) = of_nat n \<longleftrightarrow> m = n"
  proof -
  assume "m < 256" "n < 256"
  moreover have "(of_nat m :: 8 word) = of_nat n \<longleftrightarrow> m mod 256 = n mod 256"
    by (simp add: word_unat_eq_iff unat_of_nat)
  ultimately show ?thesis by simp
qed

lemma utf8_decodable: "decodable utf8_char"
  unfolding decodable_def
proof (intro allI impI)
  fix c d s t assume e: "utf8_char c @ s = utf8_char d @ t"
  have b: "code c < 256" "code d < 256" by simp_all
  show "c = d \<and> s = t"
  proof (cases "code c < 128"; cases "code d < 128")
    assume "code c < 128" "code d < 128"
    with e b show ?thesis by (simp add: utf8_char_def byte_eq)
  next
    assume "code c < 128" "\<not> code d < 128"
    with e b have "code c = 192 + code d div 64" by (simp add: utf8_char_def Let_def byte_eq del: of_nat_add)
    with \<open>code c < 128\<close> show ?thesis by simp
  next
    assume "\<not> code c < 128" "code d < 128"
    with e b have "192 + code c div 64 = code d" by (simp add: utf8_char_def Let_def byte_eq del: of_nat_add)
    with \<open>code d < 128\<close> show ?thesis by simp
  next
    assume "\<not> code c < 128" "\<not> code d < 128"
    with e b have q: "192 + code c div 64 = 192 + code d div 64" "128 + code c mod 64 = 128 + code d mod 64" and st: "s = t"
      by (simp_all add: utf8_char_def Let_def byte_eq del: of_nat_add)
    then have "code c = code d" by (metis add_left_cancel div_mod_decomp)
    with st show ?thesis by simp
  qed
qed

lemma utf8_inj: "utf8 s = utf8 t \<longleftrightarrow> s = t"
proof
  have ne: "utf8_char c \<noteq> []" for c by (simp add: utf8_char_def Let_def)
  show "utf8 s = utf8 t \<Longrightarrow> s = t"
  proof (induction s arbitrary: t)
    case Nil
    then show ?case using ne by (cases t) (auto simp: utf8_def)
  next
    case (Cons c s)
    then obtain d t' where t: "t = d # t'" using ne by (cases t) (auto simp: utf8_def)
    with Cons.prems have "utf8_char c @ utf8 s = utf8_char d @ utf8 t'" by (simp add: utf8_def)
    from decodableD [OF utf8_decodable this] Cons.IH t show ?case by simp
  qed
qed simp

end
