(* ===== verification/JsonParse.thy ===== *)
theory JsonParse
  imports JsonText
begin

text \<open>
  Python's \<open>json.loads\<close> on texts, with its leniencies: the constants \<open>NaN\<close>, \<open>Infinity\<close> and
  \<open>-Infinity\<close>, and white space around every token. \<open>json_read\<close> keeps every pair of an object, as an
  \<open>object_pairs_hook\<close> sees them; in \<open>json_loads\<close> a repeated key keeps its last value. An escape for a
  character above U+00FF has no character here and makes the text unreadable. Every document
  \<open>json.dumps\<close> writes is read back.
\<close>

section \<open>Tokens\<close>

definition json_space :: "char \<Rightarrow> bool" where
  "json_space c \<longleftrightarrow> c = CHR '' '' \<or> c = CHR 0x09 \<or> c = CHR 0x0A \<or> c = CHR 0x0D"

abbreviation skip_space :: "string \<Rightarrow> string" where
  "skip_space s \<equiv> dropWhile json_space s"

definition UNESCAPES :: "(char, char) dict" where
  "UNESCAPES = [(quote_mark, quote_mark), (backslash, backslash), (CHR ''/'', CHR ''/''), (CHR ''b'', CHR 0x08),
     (CHR ''f'', CHR 0x0C), (CHR ''n'', CHR 0x0A), (CHR ''r'', CHR 0x0D), (CHR ''t'', CHR 0x09)]"

definition hex_value :: "string \<Rightarrow> nat option" where
  "hex_value s = (if list_all (\<lambda>c. hex_val c \<noteq> None) s then Some (foldl (\<lambda>a c. a * 16 + the (hex_val c)) 0 s) else None)"

definition escaped_char :: "string \<Rightarrow> (char \<times> string) option" where
  "escaped_char s = (case s of [] \<Rightarrow> None
     | c # cs \<Rightarrow>
         if c = CHR ''u''
         then (if length cs < 4 then None
               else case hex_value (take 4 cs) of None \<Rightarrow> None
                 | Some n \<Rightarrow> if n < 256 then Some (char_of n, drop 4 cs) else None)
         else map_option (\<lambda>d. (d, cs)) (map_of UNESCAPES c))"

lemma escaped_char_shorter: "escaped_char s = Some (d, r) \<Longrightarrow> length r < length s"
  by (auto simp: escaped_char_def split: list.splits option.splits if_splits)

text \<open>What follows an opening quotation mark.\<close>

function read_string :: "string \<Rightarrow> (string \<times> string) option" where
  "read_string s = (case s of [] \<Rightarrow> None
     | c # cs \<Rightarrow>
         if c = quote_mark then Some ([], cs)
         else if c = backslash
              then (case escaped_char cs of None \<Rightarrow> None
                    | Some (d, r) \<Rightarrow> map_option (\<lambda>(x, t). (d # x, t)) (read_string r))
         else if code c < 32 then None
         else map_option (\<lambda>(x, t). (c # x, t)) (read_string cs))"
  by pat_completeness auto

termination
  by (relation "measure length") (auto dest: escaped_char_shorter)

declare read_string.simps [simp del]

lemma read_string_shorter: "read_string s = Some (x, r) \<Longrightarrow> length r < length s"
proof (induction s arbitrary: x r rule: read_string.induct)
  case (1 s)
  then show ?case
    by (subst (asm) (3) read_string.simps)
      (fastforce split: list.splits if_splits option.splits dest: escaped_char_shorter)
qed

definition is_digit :: "char \<Rightarrow> bool" where
  "is_digit c \<longleftrightarrow> 48 \<le> code c \<and> code c \<le> 57"

definition digits_value :: "string \<Rightarrow> nat" where
  "digits_value ds = foldl (\<lambda>a c. a * 10 + (code c - 48)) 0 ds"

text \<open>The digits of an exponent with its sign, if one stands here.\<close>

definition read_exponent :: "string \<Rightarrow> (int \<times> string) option" where
  "read_exponent s = (case s of [] \<Rightarrow> None
     | e # r \<Rightarrow>
         if e \<notin> {CHR ''e'', CHR ''E''} then None
         else (let neg = (r \<noteq> [] \<and> hd r = CHR ''-'');
                   ds = (if r \<noteq> [] \<and> hd r \<in> {CHR ''-'', CHR ''+''} then tl r else r)
               in if takeWhile is_digit ds = [] then None
                  else Some ((if neg then - 1 else 1) * int (digits_value (takeWhile is_digit ds)), dropWhile is_digit ds)))"

text \<open>The digits after a decimal point, if it has any, and the rest.\<close>

definition read_fraction :: "string \<Rightarrow> string \<times> string" where
  "read_fraction s = (case s of [] \<Rightarrow> ([], s)
     | x # r \<Rightarrow> if x = CHR ''.'' \<and> takeWhile is_digit r \<noteq> [] then (takeWhile is_digit r, dropWhile is_digit r) else ([], s))"

definition read_whole :: "string \<Rightarrow> (string \<times> string) option" where
  "read_whole s = (case s of [] \<Rightarrow> None
     | c # cs \<Rightarrow> if \<not> is_digit c then None
         else if c = CHR ''0'' then Some ([c], cs)
         else Some (c # takeWhile is_digit cs, dropWhile is_digit cs))"

text \<open>An unsigned number: an integer, or a float when a fraction or an exponent follows.\<close>

definition read_number :: "bool \<Rightarrow> string \<Rightarrow> (json \<times> string) option" where
  "read_number neg s = (case read_whole s of None \<Rightarrow> None
     | Some (whole, r1) \<Rightarrow>
         let (frac, r2) = read_fraction r1;
             sgn = (if neg then - 1 else 1 :: int);
             mant = real (digits_value (whole @ frac)) / 10 ^ length frac
         in case read_exponent r2 of
              Some (e, r3) \<Rightarrow>
                Some (JNum (of_int sgn * (if e < 0 then mant / 10 ^ nat (- e) else mant * 10 ^ nat e)), r3)
            | None \<Rightarrow> if frac = [] then Some (JInt (sgn * int (digits_value whole)), r2)
                      else Some (JNum (of_int sgn * mant), r2))"

text \<open>The words of the grammar, at the front of a text.\<close>

definition WORDS :: "(string \<times> json) list" where
  "WORDS = [(''null'', JNull), (''true'', JBool True), (''false'', JBool False), (''NaN'', JNonFinite ''NaN''),
     (''Infinity'', JNonFinite ''Infinity''), (''-Infinity'', JNonFinite ''-Infinity'')]"

definition read_scalar :: "string \<Rightarrow> (json \<times> string) option" where
  "read_scalar s =
     (case find (\<lambda>e. prefix (fst e) s) WORDS of
        Some (w, v) \<Rightarrow> Some (v, drop (length w) s)
      | None \<Rightarrow> if s \<noteq> [] \<and> hd s = CHR ''-'' then read_number True (tl s) else read_number False s)"
section \<open>Values\<close>

lemma read_exponent_shorter: "read_exponent s = Some (e, r) \<Longrightarrow> length r \<le> length s"
proof -
  assume "read_exponent s = Some (e, r)"
  then obtain x t ds where "s = x # t" and ds: "ds = t \<or> ds = tl t" and "r = dropWhile is_digit ds"
    by (auto simp: read_exponent_def Let_def split: list.splits if_splits)
  then show ?thesis using length_dropWhile_le [of is_digit ds] by (auto simp: le_SucI)
qed

lemma read_whole_shorter: "read_whole s = Some (w, r) \<Longrightarrow> length r < length s"
  by (auto simp: read_whole_def less_Suc_eq_le length_dropWhile_le split: list.splits if_splits)

lemma read_fraction_shorter: "length (snd (read_fraction s)) \<le> length s"
  by (auto simp: read_fraction_def le_SucI length_dropWhile_le split: list.splits)

lemma read_number_shorter: "read_number neg s = Some (v, r) \<Longrightarrow> length r < length s"
proof -
  assume run: "read_number neg s = Some (v, r)"
  then obtain w r1 where w: "read_whole s = Some (w, r1)" by (auto simp: read_number_def split: option.splits)
  with run have "r = snd (read_fraction r1) \<or> (\<exists>e. read_exponent (snd (read_fraction r1)) = Some (e, r))"
    by (auto simp: read_number_def Let_def split_def split: option.splits if_splits)
  then have "length r \<le> length (snd (read_fraction r1))" by (auto dest: read_exponent_shorter)
  with read_fraction_shorter [of r1] read_whole_shorter [OF w] show ?thesis by linarith
qed

lemma read_scalar_shorter: "read_scalar s = Some (v, r) \<Longrightarrow> length r < length s"
proof -
  assume run: "read_scalar s = Some (v, r)"
  show ?thesis
  proof (cases "find (\<lambda>e. prefix (fst e) s) WORDS")
    case (Some p)
    then have "p \<in> set WORDS" "prefix (fst p) s" by (auto simp: find_Some_iff)
    then have "fst p \<noteq> []" by (auto simp: WORDS_def)
    with run Some \<open>prefix (fst p) s\<close> show ?thesis by (auto simp: read_scalar_def prefix_def split: prod.splits)
  next
    case None
    with run have "read_number True (tl s) = Some (v, r) \<and> s \<noteq> [] \<or> read_number False s = Some (v, r)"
      by (auto simp: read_scalar_def split: if_splits)
    then show ?thesis by (auto dest!: read_number_shorter)
  qed
qed

lemma skip_shorter: "skip_space s = c # cs \<Longrightarrow> length cs < length s"
  using length_dropWhile_le [of json_space s] by simp

text \<open>
  The recursive descent. An array or object body is entered after its opening bracket has been
  read; the guard on the rest of a body always holds.
\<close>

function read_value :: "string \<Rightarrow> (json \<times> string) option"
  and read_items :: "string \<Rightarrow> (json list \<times> string) option"
  and read_pairs :: "string \<Rightarrow> ((string \<times> json) list \<times> string) option" where
  "read_value s = (case skip_space s of [] \<Rightarrow> None
     | c # cs \<Rightarrow>
         if c = quote_mark then map_option (\<lambda>(x, r). (JStr x, r)) (read_string cs)
         else if c = CHR ''[''
              then (if skip_space cs \<noteq> [] \<and> hd (skip_space cs) = CHR '']'' then Some (JArr [], tl (skip_space cs))
                    else map_option (\<lambda>(vs, r). (JArr vs, r)) (read_items cs))
         else if c = CHR ''{''
              then (if skip_space cs \<noteq> [] \<and> hd (skip_space cs) = CHR ''}'' then Some (JObj [], tl (skip_space cs))
                    else map_option (\<lambda>(kvs, r). (JObj kvs, r)) (read_pairs cs))
         else read_scalar (c # cs))"
| "read_items s = (case read_value s of None \<Rightarrow> None
     | Some (v, r) \<Rightarrow> (case skip_space r of [] \<Rightarrow> None
         | c # cs \<Rightarrow> if c = CHR '']'' then Some ([v], cs)
             else if c = CHR '','' \<and> length cs < length s then map_option (\<lambda>(vs, t). (v # vs, t)) (read_items cs)
             else None))"
| "read_pairs s = (case skip_space s of [] \<Rightarrow> None
     | q # qs \<Rightarrow> if q \<noteq> quote_mark then None
         else (case read_string qs of None \<Rightarrow> None
           | Some (k, r) \<Rightarrow> (case skip_space r of [] \<Rightarrow> None
               | d # ds \<Rightarrow> if d \<noteq> CHR '':'' \<or> \<not> length ds < length s then None
                   else (case read_value ds of None \<Rightarrow> None
                     | Some (v, t) \<Rightarrow> (case skip_space t of [] \<Rightarrow> None
                         | c # cs \<Rightarrow> if c = CHR ''}'' then Some ([(k, v)], cs)
                             else if c = CHR '','' \<and> length cs < length s
                                  then map_option (\<lambda>(kvs, t). ((k, v) # kvs, t)) (read_pairs cs)
                             else None)))))"
  by pat_completeness auto

termination
  by (relation "measures [case_sum length (case_sum length length), case_sum (\<lambda>_. 0) (\<lambda>_. 1)]")
    (auto dest: skip_shorter)

declare read_value.simps [simp del] read_items.simps [simp del] read_pairs.simps [simp del]

text \<open>The whole text is one value between white space.\<close>

definition json_read :: "string \<Rightarrow> json option" where
  "json_read s = (case read_value s of None \<Rightarrow> None
     | Some (v, r) \<Rightarrow> if skip_space r = [] then Some v else None)"

fun as_dicts :: "json \<Rightarrow> json" where
  "as_dicts (JArr js) = JArr (map as_dicts js)"
| "as_dicts (JObj kvs) = JObj (dict_update_all [] (map (\<lambda>(k, j). (k, as_dicts j)) kvs))"
| "as_dicts j = j"

definition json_loads :: "string \<Rightarrow> json option" where
  "json_loads s = map_option as_dicts (json_read s)"

section \<open>What json.dumps writes is read back\<close>

lemma escapes_back: "map_of ESCAPES c = Some x \<Longrightarrow> x \<noteq> CHR ''u'' \<and> map_of UNESCAPES x = Some c"
  by (auto simp: ESCAPES_def UNESCAPES_def split: if_splits)

lemma escape_cases:
  obtains (plain) "esc_char c = [c]" "c \<noteq> quote_mark" "c \<noteq> backslash" "\<not> code c < 32"
  | (escaped) r where "esc_char c = backslash # r" "\<And>t. escaped_char (r @ t) = Some (c, t)"
proof (cases "map_of ESCAPES c")
  case (Some x)
  with escapes_back [OF Some] show ?thesis by (intro escaped [of "[x]"]) (auto simp: esc_char_def escaped_char_def)
next
  case None
  show ?thesis
  proof (cases "code c < 32")
    case True
    have h: "hex_value (hex_digits 4 (code c)) = Some (code c)"
      using hex_char_set [of 4 "code c"] True foldl_hex_digits [of "code c" 4]
      by (fastforce simp: hex_value_def list_all_iff hex_val_char)
    show ?thesis
    proof (rule escaped)
      show "esc_char c = backslash # CHR ''u'' # hex_digits 4 (code c)" using None True by (simp add: esc_char_def)
      show "escaped_char ((CHR ''u'' # hex_digits 4 (code c)) @ t) = Some (c, t)" for t
        using h True by (simp add: escaped_char_def)
    qed
  next
    case False
    with None show ?thesis by (intro plain) (auto simp: esc_char_def ESCAPES_def split: if_splits)
  qed
qed

lemma read_string_escaped: "read_string (concat (map esc_char x) @ quote_mark # t) = Some (x, t)"
proof (induction x)
  case Nil
  show ?case by (subst read_string.simps) simp
next
  case (Cons c x)
  show ?case
  proof (cases c rule: escape_cases)
    case plain
    with Cons show ?thesis by (simp, subst read_string.simps) simp
  next
    case (escaped r)
    with Cons show ?thesis by (simp, subst read_string.simps) simp
  qed
qed

lemma digit_char: "d < 10 \<Longrightarrow> is_digit (char_of (48 + d)) \<and> code (char_of (48 + d) :: char) = 48 + d"
  by (simp add: is_digit_def)

lemma zero_digit: "code CHR ''0'' = (48 :: nat)"
  by simp

lemma nat_str_digits: "nat_str n \<noteq> [] \<and> (\<forall>c \<in> set (nat_str n). is_digit c) \<and> digits_value (nat_str n) = n
    \<and> (hd (nat_str n) = CHR ''0'' \<longrightarrow> n = 0)"
proof (induction n rule: nat_str.induct)
  case (1 n)
  show ?case
  proof (cases "n < 10")
    case True
    then have "code (char_of (48 + n) :: char) = 48 + n" using digit_char by blast
    then have "n = 0" if "(char_of (48 + n) :: char) = CHR ''0''" using that by (metis add_cancel_left_right zero_digit)
    with True digit_char [OF True] show ?thesis by (subst (1 2 3 4) nat_str.simps) (simp add: digits_value_def)
  next
    case False
    note ih = 1 [OF False]
    have d: "n mod 10 < 10" by simp
    have "digits_value (nat_str (n div 10) @ [char_of (48 + n mod 10)]) = n"
      using ih digit_char [OF d] by (simp add: digits_value_def)
    with False ih digit_char [OF d] show ?thesis by (subst (1 2 3 4) nat_str.simps) auto
  qed
qed

text \<open>A number ends where its digits end.\<close>

definition number_end :: "string \<Rightarrow> bool" where
  "number_end t \<longleftrightarrow> t = [] \<or> \<not> is_digit (hd t) \<and> hd t \<notin> {CHR ''.'', CHR ''e'', CHR ''E''}"

lemma read_number_nat: "number_end t \<Longrightarrow> read_number neg (nat_str n @ t) = Some (JInt ((if neg then - 1 else 1) * int n), t)"
proof -
  assume t: "number_end t"
  note d = nat_str_digits [of n]
  then obtain c cs where cs: "nat_str n = c # cs" by (cases "nat_str n") auto
  have tw: "takeWhile is_digit (cs @ t) = cs" "dropWhile is_digit (cs @ t) = t"
  proof -
    have "\<forall>x \<in> set cs. is_digit x" using d cs by simp
    then show "takeWhile is_digit (cs @ t) = cs" "dropWhile is_digit (cs @ t) = t"
      using t unfolding number_end_def by (cases t; simp add: takeWhile_append dropWhile_append)+
  qed
  have one: "cs = []" if "c = CHR ''0''"
  proof -
    from that d have "n = 0" unfolding cs by simp
    then show ?thesis using cs by (simp add: nat_str.simps)
  qed
  have "is_digit c" using d cs by simp
  then have "read_whole (nat_str n @ t) = Some (nat_str n, t)"
    using tw one unfolding cs by (cases "c = CHR ''0''") (simp_all add: read_whole_def)
  moreover have "read_fraction t = ([], t)" "read_exponent t = None"
    using t by (cases t; simp add: number_end_def read_fraction_def read_exponent_def)+
  ultimately show ?thesis using d by (simp add: read_number_def)
qed

lemma digit_not_sign: "is_digit c \<Longrightarrow> c \<notin> {CHR ''n'', CHR ''t'', CHR ''f'', CHR ''N'', CHR ''I'', CHR ''-''}"
  by (auto simp: is_digit_def)

lemma digit_no_word:
  assumes "is_digit c"
  shows "find (\<lambda>e. prefix (fst e) (c # s)) WORDS = None" "find (\<lambda>e. prefix (fst e) (CHR ''-'' # c # s)) WORDS = None"
  using digit_not_sign [OF assms] by (auto simp: WORDS_def)

lemma read_scalar_int: "number_end t \<Longrightarrow> read_scalar (int_str i @ t) = Some (JInt i, t)"
proof -
  assume t: "number_end t"
  have c: "\<exists>c cs. nat_str n = c # cs \<and> is_digit c" for n
    using nat_str_digits [of n] by (cases "nat_str n") auto
  show ?thesis
  proof (cases "i < 0")
    case True
    obtain c cs where n: "nat_str (nat (- i)) = c # cs" "is_digit c" using c by blast
    with True read_number_nat [OF t, of True "nat (- i)"] show ?thesis
      by (simp add: int_str_def read_scalar_def digit_no_word)
  next
    case False
    obtain c cs where n: "nat_str (nat i) = c # cs" "is_digit c" using c by blast
    with False read_number_nat [OF t, of False "nat i"] digit_not_sign [OF n(2)] show ?thesis
      by (simp add: int_str_def read_scalar_def digit_no_word)
  qed
qed

section \<open>Reading a document back\<close>

text \<open>
  The first character of a document's text tells what it is, is no white space, and closes
  nothing.
\<close>

definition opens :: "string \<Rightarrow> bool" where
  "opens s \<longleftrightarrow> s \<noteq> [] \<and> \<not> json_space (hd s) \<and> hd s \<notin> {CHR '']'', CHR ''}''}"

lemma opens_append: "opens s \<Longrightarrow> opens (s @ t)"
  by (simp add: opens_def)

lemma opens_skip: "opens s \<Longrightarrow> skip_space s = s"
  by (cases s) (simp_all add: opens_def)

lemma opens_int: "opens (int_str i)"
proof -
  have "\<exists>c cs. nat_str n = c # cs \<and> is_digit c" for n
    using nat_str_digits [of n] by (cases "nat_str n") auto
  then obtain c cs where c: "nat_str (nat \<bar>i\<bar>) = c # cs" "is_digit c" by blast
  then show ?thesis by (auto simp: opens_def int_str_def json_space_def is_digit_def split: if_splits)
qed

lemma opens_raw: "opens (json_raw d)"
  by (cases d) (auto simp: opens_int, auto simp: opens_def json_str_def json_space_def)

lemma closing_not_space: "\<not> json_space CHR '']''" "\<not> json_space CHR ''}''" "\<not> json_space CHR '',''"
    "\<not> json_space CHR '':''" "\<not> json_space quote_mark"
  by (simp_all add: json_space_def)

lemma number_end_closing: "number_end (CHR '']'' # t)" "number_end (CHR ''}'' # t)" "number_end (CHR '','' # t)"
  by (simp_all add: number_end_def is_digit_def)

text \<open>The items of an array, given that each of them is read back.\<close>

lemma read_items_raw:
  assumes "\<And>x t. x \<in> set xs \<Longrightarrow> number_end t \<Longrightarrow> read_value (f x @ t) = Some (g x, t)" and "xs \<noteq> []"
  shows "read_items (py_join '','' (map f xs) @ CHR '']'' # t) = Some (map g xs, t)"
  using assms
proof (induction xs)
  case (Cons x xs)
  show ?case
  proof (cases xs)
    case Nil
    with Cons.prems(1) [of x "CHR '']'' # t"] show ?thesis
      by (subst read_items.simps) (simp add: number_end_closing closing_not_space)
  next
    case (Cons y ys)
    let ?r = "py_join '','' (map f xs) @ CHR '']'' # t"
    have "read_value (f x @ CHR '','' # ?r) = Some (g x, CHR '','' # ?r)"
      using Cons.prems(1) [of x] by (simp add: number_end_closing)
    moreover have "read_items ?r = Some (map g xs, t)" using Cons.IH Cons.prems(1) Cons by simp
    moreover have "py_join '','' (map f (x # xs)) @ CHR '']'' # t = f x @ CHR '','' # ?r" using Cons by simp
    ultimately show ?thesis by (subst read_items.simps) (simp add: closing_not_space)
  qed
qed simp

lemma read_pairs_raw:
  assumes "\<And>k v t. (k, v) \<in> set kvs \<Longrightarrow> number_end t \<Longrightarrow> read_value (f v @ t) = Some (g v, t)" and "kvs \<noteq> []"
  shows "read_pairs (py_join '','' (map (\<lambda>(k, v). json_str k @ '':'' @ f v) kvs) @ CHR ''}'' # t)
    = Some (map (\<lambda>(k, v). (k, g v)) kvs, t)"
  using assms
proof (induction kvs)
  case (Cons p kvs)
  obtain k v where p: "p = (k, v)" by (cases p)
  let ?h = "\<lambda>(k, v). json_str k @ '':'' @ f v"
  have str: "read_string (concat (map esc_char k) @ quote_mark # r) = Some (k, r)" for r by (rule read_string_escaped)
  show ?case
  proof (cases kvs)
    case Nil
    have "read_value (f v @ CHR ''}'' # t) = Some (g v, CHR ''}'' # t)"
      using Cons.prems(1) [of k v] p by (simp add: number_end_closing)
    with Nil p str show ?thesis
      by (subst read_pairs.simps) (simp add: json_str_def closing_not_space)
  next
    case (Cons q qs)
    let ?r = "py_join '','' (map ?h kvs) @ CHR ''}'' # t"
    have "read_value (f v @ CHR '','' # ?r) = Some (g v, CHR '','' # ?r)"
      using Cons.prems(1) [of k v] p by (simp add: number_end_closing)
    moreover have "read_pairs ?r = Some (map (\<lambda>(k, v). (k, g v)) kvs, t)"
      by (rule Cons.IH) (use Cons.prems(1) Cons in auto)
    moreover have "py_join '','' (map ?h (p # kvs)) @ CHR ''}'' # t
        = quote_mark # concat (map esc_char k) @ quote_mark # CHR '':'' # f v @ CHR '','' # ?r"
      using Cons p by (simp add: json_str_def)
    ultimately show ?thesis using p str by (subst read_pairs.simps) (simp add: closing_not_space)
  qed
qed simp

lemma read_value_raw: "number_end t \<Longrightarrow> read_value (json_raw d @ t) = Some (json_of_doc d, t)"
proof (induction d arbitrary: t rule: json_raw.induct)
  case 1
  show ?case by (subst read_value.simps) (simp add: json_space_def read_scalar_def WORDS_def)
next
  case (2 b)
  show ?case by (subst read_value.simps) (simp add: json_space_def read_scalar_def WORDS_def)
next
  case (3 i)
  obtain c cs where c: "int_str i = c # cs" using opens_int [of i] by (cases "int_str i") (auto simp: opens_def)
  have "c \<notin> {quote_mark, CHR ''['', CHR ''{''} \<and> \<not> json_space c"
  proof -
    have "c = CHR ''-'' \<or> is_digit c"
      using c nat_str_digits [of "nat i"] by (auto simp: int_str_def split: if_splits)
    then show ?thesis by (auto simp: is_digit_def json_space_def)
  qed
  with c read_scalar_int [OF 3, of i] show ?case by (subst read_value.simps) simp
next
  case (4 x)
  show ?case by (subst read_value.simps) (simp add: json_str_def closing_not_space read_string_escaped)
next
  case (5 xs)
  show ?case
  proof (cases "xs = []")
    case True
    then show ?thesis by (subst read_value.simps) (simp add: json_space_def)
  next
    case False
    let ?b = "py_join '','' (map json_raw xs) @ CHR '']'' # t"
    have "opens ?b" using False opens_raw by (cases xs rule: remdups_adj.cases) (simp_all add: opens_append)
    moreover have "read_items ?b = Some (map json_of_doc xs, t)" by (rule read_items_raw) (use 5 False in auto)
    moreover have "\<not> json_space CHR ''[''" by (simp add: json_space_def)
    ultimately show ?thesis by (subst read_value.simps) (auto simp: opens_skip opens_def)
  qed
next
  case (6 kvs)
  show ?case
  proof (cases "kvs = []")
    case True
    then show ?thesis by (subst read_value.simps) (simp add: json_space_def)
  next
    case False
    let ?b = "py_join '','' (map (\<lambda>(k, v). json_str k @ '':'' @ json_raw v) kvs) @ CHR ''}'' # t"
    have "opens (json_str k @ r)" for k r by (simp add: opens_def json_str_def closing_not_space)
    then have "opens ?b" using False by (cases kvs rule: remdups_adj.cases) (auto split: prod.splits)
    moreover have "read_pairs ?b = Some (map (\<lambda>(k, v). (k, json_of_doc v)) kvs, t)"
      by (rule read_pairs_raw) (use 6 False in auto)
    moreover have "\<not> json_space CHR ''{''" by (simp add: json_space_def)
    ultimately show ?thesis by (subst read_value.simps) (auto simp: opens_skip opens_def)
  qed
qed

theorem json_read_raw: "json_read (json_raw d) = Some (json_of_doc d)"
  using read_value_raw [of "[]" d] by (simp add: json_read_def number_end_def)

text \<open>So the canonical text determines the document up to the order of keys.\<close>

theorem json_dumps_determines: "json_dumps d = json_dumps d' \<longleftrightarrow> sort_keys d = sort_keys d'"
  unfolding json_dumps_def by (metis json_read_raw option.inject json_of_doc_inj)

end
