(* ===== verification/Auth.thy ===== *)
theory Auth
  imports JsonParse
begin

text \<open>
  \<open>auth/rbac.py\<close>, \<open>auth/client_identity.py\<close>, \<open>auth/scopes.py\<close> and the identity
  functions of \<open>context_broker/dependencies.py\<close>: who is asking, what the team ACL admits,
  which tools a registered client may call, and how a session's subject is derived.
  The parsers read their text with \<open>json_read\<close>, which keeps the pairs of every object.
\<close>

section \<open>Requesters and the team ACL (rbac.py)\<close>

record requester =
  subject :: string
  teams :: "string set"

definition TEAM_CLAIMS :: "string list" where
  "TEAM_CLAIMS = [''groups'', ''roles'']"

fun json_strings :: "json list \<Rightarrow> string list" where
  "json_strings [] = []"
| "json_strings (JStr s # js) = s # json_strings js"
| "json_strings (_ # js) = json_strings js"

definition teams_from_claims :: "(string \<times> json) list \<Rightarrow> string set" where
  "teams_from_claims claims =
     set (concat (map (\<lambda>claim. case map_of claims claim of
       Some (JArr items) \<Rightarrow> json_strings items | _ \<Rightarrow> []) TEAM_CLAIMS))"

definition acl_admits :: "requester \<Rightarrow> string list \<Rightarrow> bool" where
  "acl_admits r acl_teams \<longleftrightarrow> acl_teams = [] \<or> teams r \<inter> set acl_teams \<noteq> {}"

lemma acl_admits_public [simp]: "acl_admits r []"
  by (simp add: acl_admits_def)

lemma acl_admits_mono:
  "acl_admits r acl \<Longrightarrow> teams r \<subseteq> teams r' \<Longrightarrow> acl_admits r' acl"
  by (auto simp: acl_admits_def)

lemma acl_denied_iff: "\<not> acl_admits r acl \<longleftrightarrow> acl \<noteq> [] \<and> (\<forall>t \<in> set acl. t \<notin> teams r)"
  by (auto simp: acl_admits_def)

lemma in_json_strings: "s \<in> set (json_strings js) \<longleftrightarrow> JStr s \<in> set js"
  by (induction js rule: json_strings.induct) auto

lemma teams_from_claims_iff:
  "t \<in> teams_from_claims claims \<longleftrightarrow>
     (\<exists>claim \<in> {''groups'', ''roles''}. \<exists>items. map_of claims claim = Some (JArr items) \<and> JStr t \<in> set items)"
  by (auto simp: teams_from_claims_def TEAM_CLAIMS_def in_json_strings split: option.splits json.splits)

section \<open>Client identities and scopes (client_identity.py, scopes.py)\<close>

record client_identity =
  client_id :: string
  scopes :: "string set"
  verification_required :: bool
  registered :: bool

definition has_scope :: "client_identity \<Rightarrow> string \<Rightarrow> bool" where
  "has_scope c s \<longleftrightarrow> s \<in> scopes c"

record client_policy =
  cp_scopes :: "string set"
  cp_verification_required :: bool

type_synonym client_registry = "(string, client_policy) dict"

definition resolve :: "client_registry \<Rightarrow> string \<Rightarrow> client_identity" where
  "resolve policies cid = (case map_of policies cid of
     None \<Rightarrow> \<lparr>client_id = cid, scopes = {}, verification_required = False, registered = False\<rparr>
   | Some p \<Rightarrow> \<lparr>client_id = cid, scopes = cp_scopes p,
       verification_required = cp_verification_required p, registered = True\<rparr>)"

definition TOOL_REQUIRED_SCOPES :: "(string, string) dict" where
  "TOOL_REQUIRED_SCOPES = [
     (''context.create_pack'', ''context.read''),
     (''context.read_pack'', ''context.read''),
     (''context.request_more'', ''context.read''),
     (''context.open_evidence'', ''context.read''),
     (''context.create_change_pack'', ''context.read''),
     (''kb_search'', ''context.read''),
     (''get_task_context'', ''context.read''),
     (''get_review_draft'', ''context.read''),
     (''graph.get_neighbors'', ''graph.read''),
     (''ledger.list_retrievals'', ''ledger.read''),
     (''context.verify_answer'', ''context.verify''),
     (''context.platform_trust'', ''context.verify'')]"

definition client_may_call :: "client_identity \<Rightarrow> string \<Rightarrow> bool" where
  "client_may_call client tool_name =
     (if \<not> registered client then True
      else case map_of TOOL_REQUIRED_SCOPES tool_name of
             None \<Rightarrow> True
           | Some required \<Rightarrow> has_scope client required)"

section \<open>Parsing deployment JSON\<close>

text \<open>
  \<open>object_pairs_hook=_reject_duplicate_keys\<close> runs on every object of the document, inner
  objects first: a duplicate key anywhere raises.
\<close>

fun no_dup_keys :: "json \<Rightarrow> bool" and no_dup_keys_list :: "json list \<Rightarrow> bool"
  and no_dup_keys_obj :: "(string \<times> json) list \<Rightarrow> bool" where
  "no_dup_keys (JArr js) = no_dup_keys_list js"
| "no_dup_keys (JObj kvs) = (distinct (map fst kvs) \<and> no_dup_keys_obj kvs)"
| "no_dup_keys j = True"
| "no_dup_keys_list [] = True"
| "no_dup_keys_list (j # js) = (no_dup_keys j \<and> no_dup_keys_list js)"
| "no_dup_keys_obj [] = True"
| "no_dup_keys_obj ((k, j) # kvs) = (no_dup_keys j \<and> no_dup_keys_obj kvs)"

definition blank :: "string \<Rightarrow> bool" where
  "blank s \<longleftrightarrow> py_strip s = []"

definition padded_key :: "string \<Rightarrow> bool" where
  "padded_key k \<longleftrightarrow> blank k \<or> k \<noteq> py_strip k"

definition ENTRY_KEYS :: "string set" where
  "ENTRY_KEYS = {''scopes'', ''verification_required'', ''secret_env''}"

definition FORBIDDEN_ENTRY_KEYS :: "string set" where
  "FORBIDDEN_ENTRY_KEYS = {''secret'', ''client_secret'', ''key'', ''password'', ''credential''}"

fun scope_items :: "json list \<Rightarrow> exn + string list" where
  "scope_items [] = Inr []"
| "scope_items (JStr s # js) =
     (if blank s then Inl (RuntimeError ''scopes must be non-empty strings'')
      else case scope_items js of Inl e \<Rightarrow> Inl e | Inr ss \<Rightarrow> Inr (s # ss))"
| "scope_items (_ # js) = Inl (RuntimeError ''scopes must be non-empty strings'')"

fun parse_scopes :: "json \<Rightarrow> exn + string set" where
  "parse_scopes (JArr js) = (case scope_items js of Inl e \<Rightarrow> Inl e | Inr ss \<Rightarrow> Inr (set ss))"
| "parse_scopes _ = Inl (RuntimeError ''scopes must be a list of strings'')"

fun parse_verification_required :: "json \<Rightarrow> exn + bool" where
  "parse_verification_required (JBool b) = Inr b"
| "parse_verification_required _ = Inl (RuntimeError ''verification_required must be a boolean'')"

fun secret_env_ok :: "json option \<Rightarrow> bool" where
  "secret_env_ok None = True"
| "secret_env_ok (Some JNull) = True"
| "secret_env_ok (Some (JStr s)) = (\<not> blank s)"
| "secret_env_ok (Some _) = False"

text \<open>\<open>dict.get(key, default)\<close>.\<close>

definition get_default :: "('k, 'v) dict \<Rightarrow> 'k \<Rightarrow> 'v \<Rightarrow> 'v" where
  "get_default d k v = (case map_of d k of None \<Rightarrow> v | Some x \<Rightarrow> x)"

fun parse_client_entry :: "string \<Rightarrow> json \<Rightarrow> exn + client_policy" where
  "parse_client_entry cid (JObj entry) =
     (if padded_key cid then Inl (RuntimeError ''empty or padded client_id key'')
      else if FORBIDDEN_ENTRY_KEYS \<inter> set (map fst entry) \<noteq> {}
        then Inl (RuntimeError ''must not carry secret values'')
      else if set (map fst entry) - ENTRY_KEYS \<noteq> {} then Inl (RuntimeError ''has unknown keys'')
      else case parse_scopes (get_default entry ''scopes'' (JArr [])) of
             Inl e \<Rightarrow> Inl e
           | Inr ss \<Rightarrow>
      (case parse_verification_required (get_default entry ''verification_required'' (JBool False)) of
             Inl e \<Rightarrow> Inl e
           | Inr v \<Rightarrow>
       if \<not> secret_env_ok (map_of entry ''secret_env'')
         then Inl (RuntimeError ''secret_env must be a non-empty NAME'')
         else Inr \<lparr>cp_scopes = ss, cp_verification_required = v\<rparr>))"
| "parse_client_entry cid _ =
     (if padded_key cid then Inl (RuntimeError ''empty or padded client_id key'')
      else Inl (RuntimeError ''must be an object''))"

fun parse_client_entries :: "(string \<times> json) list \<Rightarrow> exn + client_registry" where
  "parse_client_entries [] = Inr []"
| "parse_client_entries ((cid, j) # rest) =
     (case parse_client_entry cid j of Inl e \<Rightarrow> Inl e
      | Inr p \<Rightarrow> (case parse_client_entries rest of Inl e \<Rightarrow> Inl e | Inr ps \<Rightarrow> Inr ((cid, p) # ps)))"

definition parse_client_registry :: "string option \<Rightarrow> exn + client_registry" where
  "parse_client_registry raw =
     (case raw of None \<Rightarrow> Inr []
      | Some text \<Rightarrow>
          if blank text then Inr []
          else case json_read text of
                 None \<Rightarrow> Inl (RuntimeError ''MCP_CLIENT_REGISTRY is not valid JSON'')
               | Some j \<Rightarrow>
                   if \<not> no_dup_keys j then Inl (RuntimeError ''MCP_CLIENT_REGISTRY: duplicate key'')
                   else (case j of JObj kvs \<Rightarrow> parse_client_entries kvs
                         | _ \<Rightarrow> Inl (RuntimeError ''MCP_CLIENT_REGISTRY must be a JSON object'')))"

section \<open>Session identity (dependencies.py)\<close>

text \<open>The verified bearer token: its \<open>sub\<close>, its client id and its claims.\<close>

record access_token =
  tok_subject :: "string option"
  tok_client_id :: string
  tok_claims :: "(string \<times> json) list"

definition subject_safe :: "char \<Rightarrow> bool" where
  "subject_safe c \<longleftrightarrow> (let n = code c in
     (65 \<le> n \<and> n \<le> 90) \<or> (97 \<le> n \<and> n \<le> 122) \<or> (48 \<le> n \<and> n \<le> 57)
     \<or> c = CHR ''.'' \<or> c = CHR ''_'' \<or> c = CHR ''@'' \<or> c = CHR ''-'')"

definition sanitize_subject :: "string \<Rightarrow> string" where
  "sanitize_subject s = map (\<lambda>c. if subject_safe c then c else CHR ''_'') s"

definition current_requester :: "access_token option \<Rightarrow> exn + requester" where
  "current_requester token = (case token of
     None \<Rightarrow> Inl (ToolError ''no authenticated session'')
   | Some t \<Rightarrow>
       let s = (case tok_subject t of Some x \<Rightarrow> if x = [] then tok_client_id t else x
                | None \<Rightarrow> tok_client_id t)
       in if s = [] then Inl (ToolError ''authenticated session carries no subject'')
          else Inr \<lparr>subject = sanitize_subject s, teams = teams_from_claims (tok_claims t)\<rparr>)"

definition current_client_identity :: "client_registry \<Rightarrow> access_token option \<Rightarrow> exn + client_identity" where
  "current_client_identity reg token = (case token of
     None \<Rightarrow> Inl (ToolError ''no authenticated session'')
   | Some t \<Rightarrow>
       let cid = (if tok_client_id t \<noteq> [] then tok_client_id t
                  else case tok_subject t of Some x \<Rightarrow> x | None \<Rightarrow> [])
       in if cid = [] then Inl (ToolError ''authenticated session carries no client identity'')
          else Inr (resolve reg cid))"

section \<open>Facts about identities\<close>

lemma sanitize_safe: "c \<in> set (sanitize_subject s) \<Longrightarrow> subject_safe c"
  by (auto simp: sanitize_subject_def subject_safe_def)

lemma sanitize_idem: "sanitize_subject (sanitize_subject s) = sanitize_subject s"
  by (auto simp: sanitize_subject_def subject_safe_def)

lemma sanitize_id_iff: "sanitize_subject s = s \<longleftrightarrow> (\<forall>c \<in> set s. subject_safe c)"
  by (induction s) (auto simp: sanitize_subject_def subject_safe_def)

lemma current_requester_Inr:
  "current_requester token = Inr r \<Longrightarrow>
     \<exists>t. token = Some t \<and> subject r \<noteq> [] \<and> teams r = teams_from_claims (tok_claims t)"
  by (auto simp: current_requester_def Let_def sanitize_subject_def split: option.splits if_splits)

lemma resolve_registered: "registered (resolve reg cid) \<longleftrightarrow> map_of reg cid \<noteq> None"
  by (simp add: resolve_def split: option.splits)

lemma resolve_client_id [simp]: "client_id (resolve reg cid) = cid"
  by (simp add: resolve_def split: option.splits)

lemma unregistered_unconstrained:
  "\<not> registered (resolve reg cid) \<Longrightarrow> \<not> verification_required (resolve reg cid)"
  by (simp add: resolve_def split: option.splits)

lemma parse_client_entries_keys:
  "parse_client_entries kvs = Inr ps \<Longrightarrow> map fst ps = map fst kvs"
  by (induction kvs arbitrary: ps rule: parse_client_entries.induct) (auto split: sum.splits)

lemma parse_client_entry_ok:
  assumes "parse_client_entry cid j = Inr p"
  shows "\<not> padded_key cid \<and>
    (\<exists>entry. j = JObj entry \<and> set (map fst entry) \<subseteq> ENTRY_KEYS)"
  using assms by (cases j) (auto split: if_splits sum.splits)

lemma parse_client_entries_ok:
  "parse_client_entries kvs = Inr ps \<Longrightarrow> (cid, j) \<in> set kvs \<Longrightarrow>
     \<exists>p. parse_client_entry cid j = Inr p \<and> (cid, p) \<in> set ps"
proof (induction kvs arbitrary: ps rule: parse_client_entries.induct)
  case (2 c k rest)
  from "2.prems"(1) obtain p ps' where p: "parse_client_entry c k = Inr p"
    and ps': "parse_client_entries rest = Inr ps'" and ps: "ps = (c, p) # ps'"
    by (auto split: sum.splits)
  from "2.IH" [OF p ps'] "2.prems"(2) p ps show ?case by auto
qed simp

lemma parse_client_registry_Inr:
  assumes "parse_client_registry (Some text) = Inr reg" and "\<not> blank text"
  obtains kvs where "json_read text = Some (JObj kvs)" "no_dup_keys (JObj kvs)"
    "parse_client_entries kvs = Inr reg"
  using assms by (auto simp: parse_client_registry_def split: option.splits json.splits if_splits)

end
