(* ===== verification/Budgets.thy ===== *)
theory Budgets
  imports Lru Auth
begin

text \<open>
  \<open>context_broker/budgets.py\<close>: per-agent allowances, the dual cap of \<open>kb_search\<close>, its
  bounded store of usage windows, and the parser of \<open>MCP_AGENT_ALLOWANCES\<close>.
\<close>

section \<open>Allowances and usage\<close>

record agent_allowance =
  max_requests :: int
  max_tokens :: int

definition DEFAULT_AGENT_ALLOWANCE :: agent_allowance where
  "DEFAULT_AGENT_ALLOWANCE = \<lparr>max_requests = 1, max_tokens = 4000\<rparr>"

record agent_usage =
  requests :: int
  tokens :: int

definition new_usage :: agent_usage where
  "new_usage = \<lparr>requests = 0, tokens = 0\<rparr>"

record budget_policy =
  allowances :: "(string, agent_allowance) dict"
  default_allowance :: agent_allowance

definition allowance_for :: "budget_policy \<Rightarrow> string \<Rightarrow> agent_allowance" where
  "allowance_for p subj = get_default (allowances p) subj (default_allowance p)"

definition kb_budget_open :: "agent_allowance \<Rightarrow> agent_usage \<Rightarrow> bool" where
  "kb_budget_open allowance usage \<longleftrightarrow>
     requests usage < max_requests allowance \<and> tokens usage < max_tokens allowance"

section \<open>The kb_search windows\<close>

type_synonym window_key = "string \<times> string"

record kb_store =
  windows :: "(window_key, agent_usage) dict"
  max_windows :: nat

definition window_for :: "kb_store \<Rightarrow> string \<Rightarrow> string \<Rightarrow> exn + agent_usage \<times> kb_store" where
  "window_for s session_key subj =
     (let key = (session_key, subj); rest = AList.delete key (windows s)
      in case map_of (windows s) key of
           Some w \<Rightarrow> Inr (w, s\<lparr>windows := AList.update key w rest\<rparr>)
         | None \<Rightarrow> (case evict_front (max_windows s) rest of
               Inl e \<Rightarrow> Inl e
             | Inr kept \<Rightarrow> Inr (new_usage, s\<lparr>windows := AList.update key new_usage kept\<rparr>)))"

text \<open>The window object of a key is mutated in place.\<close>

definition set_window :: "window_key \<Rightarrow> agent_usage \<Rightarrow> kb_store \<Rightarrow> kb_store" where
  "set_window key u s = s\<lparr>windows := AList.update key u (windows s)\<rparr>"

section \<open>Parsing MCP_AGENT_ALLOWANCES\<close>

fun count_value :: "json option \<Rightarrow> int option" where
  "count_value (Some (JInt n)) = (if n < 0 then None else Some n)"
| "count_value _ = None"

definition ALLOWANCE_KEYS :: "string set" where
  "ALLOWANCE_KEYS = {''max_requests'', ''max_tokens''}"

definition parse_allowance :: "string \<Rightarrow> json \<Rightarrow> exn + agent_allowance" where
  "parse_allowance subj entry =
     (if padded_key subj then Inl (RuntimeError ''MCP_AGENT_ALLOWANCES: empty or padded subject key'')
      else case entry of
        JObj kvs \<Rightarrow>
          (if set (map fst kvs) \<noteq> ALLOWANCE_KEYS
             then Inl (RuntimeError ''must be an object with exactly max_requests and max_tokens'')
           else (case (count_value (map_of kvs ''max_requests''), count_value (map_of kvs ''max_tokens'')) of
                   (Some r, Some t) \<Rightarrow> Inr \<lparr>max_requests = r, max_tokens = t\<rparr>
                 | _ \<Rightarrow> Inl (RuntimeError ''must be a non-negative integer'')))
      | _ \<Rightarrow> Inl (RuntimeError ''must be an object with exactly max_requests and max_tokens''))"

fun parse_allowance_entries :: "(string \<times> json) list \<Rightarrow> exn + (string, agent_allowance) dict" where
  "parse_allowance_entries [] = Inr []"
| "parse_allowance_entries ((subj, entry) # rest) =
     (case parse_allowance subj entry of Inl e \<Rightarrow> Inl e
      | Inr a \<Rightarrow> (case parse_allowance_entries rest of Inl e \<Rightarrow> Inl e | Inr m \<Rightarrow> Inr ((subj, a) # m)))"

definition parse_agent_allowances :: "string option \<Rightarrow> exn + (string, agent_allowance) dict" where
  "parse_agent_allowances raw =
     (case raw of None \<Rightarrow> Inr []
      | Some text \<Rightarrow>
          if blank text then Inr []
          else case json_read text of
                 None \<Rightarrow> Inl (RuntimeError ''MCP_AGENT_ALLOWANCES is not valid JSON'')
               | Some j \<Rightarrow>
                   if \<not> no_dup_keys j then Inl (RuntimeError ''MCP_AGENT_ALLOWANCES: duplicate key'')
                   else (case j of JObj kvs \<Rightarrow> parse_allowance_entries kvs
                         | _ \<Rightarrow> Inl (RuntimeError ''MCP_AGENT_ALLOWANCES must be a JSON object'')))"

section \<open>Facts about the windows\<close>

definition window_touch :: "window_key \<Rightarrow> kb_store \<Rightarrow> kb_store" where
  "window_touch k s = (case window_for s (fst k) (snd k) of Inl e \<Rightarrow> s | Inr (_, s') \<Rightarrow> s')"

lemma window_for_known:
  "map_of (windows s) (k, u) = Some w \<Longrightarrow>
     window_for s k u = Inr (w, s\<lparr>windows := AList.delete (k, u) (windows s) @ [((k, u), w)]\<rparr>)"
  by (simp add: window_for_def Let_def length_update_new notin_delete)

lemma window_for_new:
  assumes "map_of (windows s) (k, u) = None" and "0 < max_windows s"
  obtains kept front where "windows s = front @ kept" "length kept < max_windows s"
    "window_for s k u = Inr (new_usage, s\<lparr>windows := kept @ [((k, u), new_usage)]\<rparr>)"
proof -
  have nk: "(k, u) \<notin> fst ` set (windows s)" using assms(1) by (simp add: map_of_eq_None_iff)
  then have del: "AList.delete (k, u) (windows s) = windows s" by (rule delete_notin)
  from evict_front_total [OF assms(2)] obtain kept
    where e: "evict_front (max_windows s) (windows s) = Inr kept" by blast
  obtain front where front: "windows s = front @ kept" using evict_front_suffix [OF e] by blast
  with nk have "(k, u) \<notin> fst ` set kept" by auto
  then have "window_for s k u = Inr (new_usage, s\<lparr>windows := kept @ [((k, u), new_usage)]\<rparr>)"
    using assms(1) e del by (simp add: window_for_def Let_def length_update_new)
  with that front evict_front_length [OF e] show ?thesis by blast
qed

text \<open>The window handed out is the stored one, or a fresh one for a key not held.\<close>

lemma window_for_usage:
  assumes "0 < max_windows s"
  shows "\<exists>s'. window_for s k u = Inr (get_default (windows s) (k, u) new_usage, s')
           \<and> map_of (windows s') (k, u) = Some (get_default (windows s) (k, u) new_usage)"
proof (cases "map_of (windows s) (k, u)")
  case None
  from window_for_new [OF this assms] obtain kept front where
    "windows s = front @ kept"
    "window_for s k u = Inr (new_usage, s\<lparr>windows := kept @ [((k, u), new_usage)]\<rparr>)" by blast
  moreover have "(k, u) \<notin> fst ` set kept"
    using None calculation(1) by (auto simp: map_of_eq_None_iff)
  ultimately show ?thesis
    using None by (simp add: get_default_def map_of_eq_None_iff [symmetric] map_add_def)
next
  case (Some w)
  then show ?thesis
    by (simp add: window_for_known get_default_def map_add_def)
qed

interpretation kb_lru: lru_store windows max_windows window_touch
proof unfold_locales
  fix s :: kb_store and k :: window_key
  obtain a b where k: "k = (a, b)" by (cases k)
  have step: "max_windows (window_touch k s) = max_windows s \<and>
    (dict_ok (windows s) \<longrightarrow> 0 < max_windows s \<longrightarrow>
      dict_ok (windows (window_touch k s)) \<and>
      (length (windows s) \<le> max_windows s \<longrightarrow> length (windows (window_touch k s)) \<le> max_windows s) \<and>
      (\<exists>v d. windows (window_touch k s) = d @ [(k, v)] \<and> (\<forall>x \<in> set d. x \<in> set (windows s))))"
  proof (cases "map_of (windows s) (a, b)")
    case (Some w)
    have "dict_ok (AList.delete (a, b) (windows s) @ [((a, b), w)])" if "dict_ok (windows s)"
      using that by (intro dict_ok_append_fresh) (simp_all add: notin_delete)
    then show ?thesis
      using Some length_delete_dict [of "windows s" "(a, b)"]
      by (auto simp: k window_touch_def window_for_known dest: set_delete_subset)
  next
    case None
    show ?thesis
    proof (cases "0 < max_windows s")
      case True
      obtain kept front where "windows s = front @ kept" "length kept < max_windows s"
        "window_for s a b = Inr (new_usage, s\<lparr>windows := kept @ [((a, b), new_usage)]\<rparr>)"
        using window_for_new [OF None True] by blast
      with None show ?thesis
        by (auto simp: k window_touch_def dict_ok_def map_of_eq_None_iff)
    next
      case False
      then show ?thesis
        by (auto simp: k window_touch_def window_for_def Let_def split: sum.splits option.splits)
    qed
  qed
  show "dict_ok (windows s) \<Longrightarrow> 0 < max_windows s \<Longrightarrow> dict_ok (windows (window_touch k s))"
    and "max_windows (window_touch k s) = max_windows s"
    and "length (windows s) \<le> max_windows s \<Longrightarrow> 0 < max_windows s \<Longrightarrow> dict_ok (windows s)
      \<Longrightarrow> length (windows (window_touch k s)) \<le> max_windows s"
    and "dict_ok (windows s) \<Longrightarrow> 0 < max_windows s
      \<Longrightarrow> \<exists>v d. windows (window_touch k s) = d @ [(k, v)] \<and> (\<forall>x \<in> set d. x \<in> set (windows s))"
    using step by blast+
qed

section \<open>Facts about the parser\<close>

lemma parse_allowance_Inr:
  "parse_allowance subj entry = Inr a \<Longrightarrow> \<not> padded_key subj \<and> 0 \<le> max_requests a \<and> 0 \<le> max_tokens a"
  by (auto simp: parse_allowance_def split: json.splits if_splits option.splits
      elim!: count_value.elims)

lemma parse_allowance_entries_Inr:
  "parse_allowance_entries kvs = Inr m \<Longrightarrow>
     map fst m = map fst kvs \<and>
     (\<forall>(subj, a) \<in> set m. \<not> padded_key subj \<and> 0 \<le> max_requests a \<and> 0 \<le> max_tokens a)"
proof (induction kvs arbitrary: m rule: parse_allowance_entries.induct)
  case (2 subj j rest)
  from "2.prems" obtain a m' where a: "parse_allowance subj j = Inr a"
    and m': "parse_allowance_entries rest = Inr m'" and m: "m = (subj, a) # m'"
    by (auto split: sum.splits)
  from "2.IH" [OF a m'] parse_allowance_Inr [OF a] m show ?case by auto
qed simp

end
