(* ===== verification/QueryText.thy ===== *)
theory QueryText
  imports PyText
begin

text \<open>
  \<open>domain/query_text.py\<close> and \<open>domain/token_budget.py\<close>: the normal form of a query and
  the deterministic four-characters-per-token estimate every budget is charged with.
\<close>

section \<open>Query normalisation\<close>

definition alnum :: "char \<Rightarrow> bool" where
  "alnum c \<longleftrightarrow> (let n = code c in (97 \<le> n \<and> n \<le> 122) \<or> (48 \<le> n \<and> n \<le> 57))"

text \<open>\<open>_NON_ALNUM.sub(" ", s)\<close>: each maximal run of other characters becomes one space.\<close>

fun sub_non_alnum :: "bool \<Rightarrow> string \<Rightarrow> string" where
  "sub_non_alnum in_run [] = []"
| "sub_non_alnum in_run (c # cs) =
     (if alnum c then c # sub_non_alnum False cs
      else if in_run then sub_non_alnum True cs
      else CHR '' '' # sub_non_alnum True cs)"

definition normalize_query :: "string \<Rightarrow> string" where
  "normalize_query query = py_strip (sub_non_alnum False (py_lower query))"

definition normalize_whitespace :: "string \<Rightarrow> string" where
  "normalize_whitespace s = py_join '' '' (py_split s)"

text \<open>The normal form: letters and digits with single spaces between them.\<close>

fun nfs :: "bool \<Rightarrow> string \<Rightarrow> bool" where
  "nfs p [] = True"
| "nfs p (c # cs) = (if alnum c then nfs False cs else c = CHR '' '' \<and> \<not> p \<and> nfs True cs)"

definition query_normal :: "string \<Rightarrow> bool" where
  "query_normal s \<longleftrightarrow> nfs True s \<and> (s = [] \<or> alnum (last s))"

lemma alnum_not_space: "alnum c \<Longrightarrow> \<not> py_space c"
  by (auto simp: alnum_def py_space_def Let_def)

lemma space_space [simp]: "py_space CHR '' ''"
  by (simp add: py_space_def)

lemma alnum_lower [simp]: "alnum c \<Longrightarrow> lower_char c = c"
  by (auto simp: alnum_def lower_char_def Let_def)

lemma lower_space [simp]: "lower_char CHR '' '' = CHR '' ''"
  by (simp add: lower_char_def)

lemma nfs_sub: "nfs p (sub_non_alnum p s)"
  by (induction p s rule: sub_non_alnum.induct) (auto simp: alnum_def)

lemma sub_nfs: "nfs p s \<Longrightarrow> sub_non_alnum p s = s"
  by (induction p s rule: nfs.induct) (auto split: if_splits)

lemma nfs_append: "nfs p (s @ t) \<Longrightarrow> nfs p s"
  by (induction p s rule: nfs.induct) (auto split: if_splits)

lemma nfs_weaken: "nfs True s \<Longrightarrow> nfs False s"
  by (cases s) (auto split: if_splits)

lemma nfs_chars: "nfs p s \<Longrightarrow> c \<in> set s \<Longrightarrow> alnum c \<or> c = CHR '' ''"
  by (induction p s rule: nfs.induct) (auto split: if_splits)

lemma nfs_dropWhile: "nfs p s \<Longrightarrow> nfs True (dropWhile py_space s)"
proof (induction s arbitrary: p)
  case (Cons c s)
  show ?case
  proof (cases "alnum c")
    case True
    with Cons.prems show ?thesis by (simp add: alnum_not_space)
  next
    case False
    with Cons show ?thesis by (auto intro: Cons.IH)
  qed
qed simp

lemma sub_normal: "query_normal s \<Longrightarrow> sub_non_alnum False s = s"
  by (simp add: query_normal_def nfs_weaken sub_nfs)

lemma strip_prefix: "\<exists>u v. s = u @ py_strip s @ v \<and> dropWhile py_space s = py_strip s @ v"
proof -
  let ?t = "dropWhile py_space s"
  have t: "?t = py_strip s @ rev (takeWhile py_space (rev ?t))"
    by (metis py_strip_def strip_by_def rev_append rev_rev_ident takeWhile_dropWhile_id)
  then show ?thesis by (metis takeWhile_dropWhile_id)
qed

lemma strip_last: "py_strip s \<noteq> [] \<Longrightarrow> \<not> py_space (last (py_strip s))"
  unfolding py_strip_def strip_by_def by (metis hd_dropWhile last_rev rev_is_Nil_conv)

lemma strip_normal:
  assumes "nfs p s" shows "query_normal (py_strip s)"
proof -
  obtain u v where v: "s = u @ py_strip s @ v" "dropWhile py_space s = py_strip s @ v"
    using strip_prefix by blast
  have n: "nfs True (py_strip s)"
    using nfs_dropWhile [OF assms] v(2) nfs_append by metis
  have "alnum (last (py_strip s))" if "py_strip s \<noteq> []"
    using nfs_chars [OF n last_in_set [OF that]] strip_last [OF that] by auto
  with n show ?thesis by (auto simp: query_normal_def)
qed

lemma query_normal_strip: "query_normal s \<Longrightarrow> py_strip s = s"
proof (cases s)
  case (Cons c cs)
  assume q: "query_normal s"
  then have a: "alnum c" using Cons by (auto simp: query_normal_def split: if_splits)
  have l: "alnum (last s)" using q Cons by (simp add: query_normal_def)
  have "dropWhile py_space s = s" using a Cons by (simp add: alnum_not_space)
  moreover have "dropWhile py_space (rev s) = rev s"
    using l Cons by (simp add: dropWhile_eq_self_iff hd_rev alnum_not_space del: last.simps rev.simps)
  ultimately show ?thesis by (simp add: py_strip_def strip_by_def)
qed (simp add: py_strip_def strip_by_def)

lemma normalize_query_normal: "query_normal (normalize_query q)"
  unfolding normalize_query_def by (rule strip_normal) (rule nfs_sub)

lemma query_normal_lower: "query_normal s \<Longrightarrow> py_lower s = s"
proof -
  assume "query_normal s"
  then have "\<And>c. c \<in> set s \<Longrightarrow> lower_char c = c"
    using nfs_chars by (fastforce simp: query_normal_def)
  then show ?thesis by (simp add: py_lower_def map_idI)
qed

lemma normalize_query_fixed: "query_normal s \<Longrightarrow> normalize_query s = s"
  by (simp add: normalize_query_def query_normal_lower sub_normal query_normal_strip)

lemma normalize_query_idem: "normalize_query (normalize_query q) = normalize_query q"
  by (rule normalize_query_fixed) (rule normalize_query_normal)

lemma normalize_whitespace_idem:
  "normalize_whitespace (normalize_whitespace s) = normalize_whitespace s"
  unfolding normalize_whitespace_def by (simp add: py_split_join py_split_words)

section \<open>Token estimates\<close>

definition CHARS_PER_TOKEN :: nat where
  "CHARS_PER_TOKEN = 4"

definition estimate_tokens :: "string \<Rightarrow> nat" where
  "estimate_tokens text = (length text + CHARS_PER_TOKEN - 1) div CHARS_PER_TOKEN"

lemma estimate_tokens_bounds:
  "length s \<le> 4 * estimate_tokens s" "4 * estimate_tokens s < length s + 4"
  unfolding estimate_tokens_def CHARS_PER_TOKEN_def by linarith+

lemma estimate_tokens_Nil [simp]: "estimate_tokens [] = 0"
  by (simp add: estimate_tokens_def CHARS_PER_TOKEN_def)

lemma estimate_tokens_0: "estimate_tokens s = 0 \<longleftrightarrow> s = []"
  using estimate_tokens_bounds [of s] by auto

lemma estimate_tokens_mono: "length s \<le> length t \<Longrightarrow> estimate_tokens s \<le> estimate_tokens t"
  unfolding estimate_tokens_def by (intro div_le_mono) simp

text \<open>Cutting a body at the token cap charges exactly the estimate of what is delivered.\<close>

lemma estimate_tokens_take:
  "estimate_tokens (take (m * CHARS_PER_TOKEN) s) = min (estimate_tokens s) m"
proof (cases "length s \<le> m * CHARS_PER_TOKEN")
  case True
  then have "estimate_tokens s \<le> m"
    using estimate_tokens_bounds [of s] by (simp add: CHARS_PER_TOKEN_def)
  with True show ?thesis by simp
next
  case False
  then have "m \<le> estimate_tokens s"
    using estimate_tokens_bounds [of s] by (simp add: CHARS_PER_TOKEN_def)
  moreover have "estimate_tokens (take (m * CHARS_PER_TOKEN) s) = (m * 4 + 3) div 4"
    using False by (simp add: estimate_tokens_def CHARS_PER_TOKEN_def min_def)
  ultimately show ?thesis by simp
qed

end
