(* ===== verification/Dedupe.thy ===== *)
theory Dedupe
  imports QueryText
begin

text \<open>
  \<open>context_broker/dedupe.py\<close>: the cosine over token counts and the per-pack query history.
  The locale \<open>similarity_measure\<close> states what the users of the cosine rely on; it is
  interpreted on the cosine itself, by the Cauchy-Schwarz inequality over token counts.
\<close>

section \<open>Token counts and their cosine\<close>

text \<open>\<open>Counter(tokens)\<close>: a dictionary in order of first occurrence.\<close>

fun counter :: "(string, nat) dict \<Rightarrow> string list \<Rightarrow> (string, nat) dict" where
  "counter d [] = d"
| "counter d (t # ts) =
     counter (AList.update t (Suc (case map_of d t of None \<Rightarrow> 0 | Some c \<Rightarrow> c)) d) ts"

definition token_counts :: "string \<Rightarrow> (string, nat) dict" where
  "token_counts normalized_query = counter [] (py_split normalized_query)"

definition count_of :: "(string, nat) dict \<Rightarrow> string \<Rightarrow> nat" where
  "count_of d t = (case map_of d t of None \<Rightarrow> 0 | Some c \<Rightarrow> c)"

definition similarity :: "string \<Rightarrow> string \<Rightarrow> real" where
  "similarity normalized_a normalized_b =
     (let a = token_counts normalized_a; b = token_counts normalized_b
      in if a = [] \<or> b = [] then 0
         else let dot = sum_list (map (\<lambda>(token, c). real c * real (count_of b token)) a);
                  norm = sqrt (sum_list (map (\<lambda>(_, c). real c * real c) a))
                       * sqrt (sum_list (map (\<lambda>(_, c). real c * real c) b))
              in if norm \<noteq> 0 then dot / norm else 0)"

section \<open>The query history\<close>

record past_retrieval =
  pr_query :: string
  pr_evidence :: "string list"

fun find_exact :: "past_retrieval list \<Rightarrow> string \<Rightarrow> past_retrieval option" where
  "find_exact [] q = None"
| "find_exact (entry # es) q = (if pr_query entry = q then Some entry else find_exact es q)"

fun find_semantic_from ::
  "past_retrieval option \<Rightarrow> real \<Rightarrow> past_retrieval list \<Rightarrow> string \<Rightarrow> real \<Rightarrow> past_retrieval option" where
  "find_semantic_from best best_score [] q threshold = best"
| "find_semantic_from best best_score (entry # es) q threshold =
     (let score = similarity q (pr_query entry)
      in if threshold \<le> score \<and> best_score < score
         then find_semantic_from (Some entry) score es q threshold
         else find_semantic_from best best_score es q threshold)"

definition find_semantic :: "past_retrieval list \<Rightarrow> string \<Rightarrow> real \<Rightarrow> past_retrieval option" where
  "find_semantic entries q threshold = find_semantic_from None 0 entries q threshold"

definition history_record :: "past_retrieval list \<Rightarrow> string \<Rightarrow> string list \<Rightarrow> past_retrieval list" where
  "history_record entries q evidence_ids = entries @ [\<lparr>pr_query = q, pr_evidence = evidence_ids\<rparr>]"

section \<open>The cosine is a similarity measure\<close>

lemma counter_ok: "dict_ok d \<Longrightarrow> dict_ok (counter d ts)"
  by (induction d ts rule: counter.induct) auto

lemma count_of_counter: "count_of (counter d ts) t = count_of d t + count_list ts t"
  by (induction d ts rule: counter.induct) (auto simp: count_of_def split: option.splits)

lemma keys_counter: "fst ` set (counter d ts) = fst ` set d \<union> set ts"
  by (induction d ts rule: counter.induct) (auto simp: dom_update)

lemma token_counts_ok: "dict_ok (token_counts q)"
  by (simp add: token_counts_def counter_ok)

lemma keys_token_counts: "fst ` set (token_counts q) = set (py_split q)"
  by (simp add: token_counts_def keys_counter)

lemma count_of_token_counts: "count_of (token_counts q) t = count_list (py_split q) t"
  unfolding token_counts_def by (simp add: count_of_counter) (simp add: count_of_def)

lemma token_counts_Nil: "token_counts q = [] \<longleftrightarrow> py_split q = []"
  using keys_token_counts [of q] by auto

lemma sum_items:
  assumes "dict_ok d"
  shows "sum_list (map (\<lambda>(t, c). f t c) d) = (\<Sum>t \<in> fst ` set d. f t (count_of d t))"
proof -
  have "sum_list (map (\<lambda>(t, c). f t c) d) = (\<Sum>x \<in> set d. f (fst x) (snd x))"
    using assms by (subst sum_list_distinct_conv_sum_set)
      (auto simp: dict_ok_def distinct_map split_def)
  also have "\<dots> = (\<Sum>x \<in> set d. f (fst x) (count_of d (fst x)))"
    using assms by (intro sum.cong) (auto simp: count_of_def dest: dict_getD)
  also have "\<dots> = (\<Sum>t \<in> fst ` set d. f t (count_of d t))"
    using assms by (subst sum.reindex) (auto simp: dict_ok_def distinct_map)
  finally show ?thesis .
qed

lemma cauchy_schwarz:
  fixes a b :: "'a \<Rightarrow> real"
  assumes "finite S"
  shows "(\<Sum>i\<in>S. a i * b i)\<^sup>2 \<le> (\<Sum>i\<in>S. a i * a i) * (\<Sum>i\<in>S. b i * b i)"
proof -
  let ?A = "\<Sum>i\<in>S. a i * a i" and ?B = "\<Sum>i\<in>S. b i * b i" and ?D = "\<Sum>i\<in>S. a i * b i"
  have B: "0 \<le> ?B" by (intro sum_nonneg) simp
  show ?thesis
  proof (cases "?B = 0")
    case True
    then have "\<forall>i\<in>S. b i * b i = 0"
      using assms by (subst (asm) sum_nonneg_eq_0_iff) auto
    then show ?thesis by simp
  next
    case False
    have "0 \<le> (\<Sum>i\<in>S. (a i * ?B - b i * ?D)\<^sup>2)" by (intro sum_nonneg) simp
    also have "(\<Sum>i\<in>S. (a i * ?B - b i * ?D)\<^sup>2) =
      (\<Sum>i\<in>S. ?B\<^sup>2 * (a i * a i) - 2 * ?B * ?D * (a i * b i) + ?D\<^sup>2 * (b i * b i))"
      by (intro sum.cong) (auto simp: power2_eq_square algebra_simps)
    also have "\<dots> = ?B\<^sup>2 * ?A - 2 * ?B * ?D * ?D + ?D\<^sup>2 * ?B"
      by (simp add: sum.distrib sum_subtractf sum_distrib_left)
    also have "\<dots> = ?B * (?A * ?B - ?D\<^sup>2)"
      by (simp add: power2_eq_square algebra_simps)
    finally have "0 \<le> ?A * ?B - ?D\<^sup>2"
      using B False by (simp add: zero_le_mult_iff)
    then show ?thesis by simp
  qed
qed

text \<open>The cosine with the counts written as functions, over the tokens of both queries.\<close>

definition tok :: "string \<Rightarrow> string \<Rightarrow> real" where
  "tok q t = real (count_list (py_split q) t)"

lemma similarity_eq:
  assumes "py_split a \<noteq> []" and "py_split b \<noteq> []" and "S = set (py_split a) \<union> set (py_split b)"
  shows "similarity a b = (\<Sum>t\<in>S. tok a t * tok b t)
     / (sqrt (\<Sum>t\<in>S. tok a t * tok a t) * sqrt (\<Sum>t\<in>S. tok b t * tok b t))"
proof -
  have ext: "(\<Sum>t\<in>set (py_split q). f t) = (\<Sum>t\<in>S. f t)"
    if "set (py_split q) \<subseteq> S" "\<And>t. t \<notin> set (py_split q) \<Longrightarrow> f t = 0" for q and f :: "string \<Rightarrow> real"
    using that assms(3) by (intro sum.mono_neutral_left) auto
  have z: "tok q t = 0" if "t \<notin> set (py_split q)" for q t
    using that by (simp add: tok_def count_list_0_iff)
  have dot: "sum_list (map (\<lambda>(t, c). real c * real (count_of (token_counts b) t)) (token_counts a))
    = (\<Sum>t\<in>S. tok a t * tok b t)"
    using sum_items [OF token_counts_ok, of "\<lambda>t c. real c * real (count_of (token_counts b) t)" a]
      ext [of a "\<lambda>t. tok a t * tok b t"] assms(3)
    by (simp add: keys_token_counts count_of_token_counts tok_def [symmetric] z)
  have sq: "sum_list (map (\<lambda>(_, c). real c * real c) (token_counts q)) = (\<Sum>t\<in>S. tok q t * tok q t)"
    if "set (py_split q) \<subseteq> S" for q
    using sum_items [OF token_counts_ok, of "\<lambda>t c. real c * real c" q]
      ext [of q "\<lambda>t. tok q t * tok q t"] that
    by (simp add: keys_token_counts count_of_token_counts tok_def [symmetric] z)
  show ?thesis
    using assms by (simp add: similarity_def Let_def token_counts_Nil dot sq)
qed

lemma norm_pos: "py_split q \<noteq> [] \<Longrightarrow> set (py_split q) \<subseteq> S \<Longrightarrow> finite S \<Longrightarrow> 0 < (\<Sum>t\<in>S. tok q t * tok q t)"
proof -
  assume q: "py_split q \<noteq> []" "set (py_split q) \<subseteq> S" "finite S"
  then obtain t where t: "t \<in> set (py_split q)" by (cases "py_split q") auto
  then have "count_list (py_split q) t \<noteq> 0" by (simp add: count_list_0_iff)
  then have "0 < tok q t * tok q t" by (simp add: tok_def)
  then show ?thesis using q t by (intro sum_pos2 [of S t]) (auto simp: tok_def)
qed

lemma similarity_Nil [simp]: "py_split a = [] \<Longrightarrow> similarity a b = 0" "py_split b = [] \<Longrightarrow> similarity a b = 0"
  by (simp_all add: similarity_def token_counts_Nil)

lemma similarity_sym: "similarity a b = similarity b a"
proof (cases "py_split a = [] \<or> py_split b = []")
  case False
  then show ?thesis
    using similarity_eq [of a b] similarity_eq [of b a] by (simp add: Un_commute mult.commute)
qed auto

lemma similarity_nonneg: "0 \<le> similarity a b"
proof (cases "py_split a = [] \<or> py_split b = []")
  case False
  then show ?thesis
    by (simp add: similarity_eq) (intro divide_nonneg_nonneg mult_nonneg_nonneg sum_nonneg, auto simp: tok_def sum_nonneg)
qed auto

lemma similarity_le_1: "similarity a b \<le> 1"
proof (cases "py_split a = [] \<or> py_split b = []")
  case False
  let ?S = "set (py_split a) \<union> set (py_split b)"
  let ?D = "\<Sum>t\<in>?S. tok a t * tok b t" and ?A = "\<Sum>t\<in>?S. tok a t * tok a t"
    and ?B = "\<Sum>t\<in>?S. tok b t * tok b t"
  have pos: "0 < ?A" "0 < ?B" using False norm_pos by auto
  have "?D \<le> sqrt (?A * ?B)"
    using cauchy_schwarz [of ?S "tok a" "tok b"] by (intro real_le_rsqrt) simp
  then have "?D \<le> sqrt ?A * sqrt ?B" by (simp add: real_sqrt_mult)
  then show ?thesis
    using False pos similarity_eq [of a b ?S] by (simp add: divide_le_eq)
qed auto

lemma similarity_self: "py_split q \<noteq> [] \<Longrightarrow> similarity q q = 1"
proof -
  assume q: "py_split q \<noteq> []"
  have p: "0 < (\<Sum>t\<in>set (py_split q). tok q t * tok q t)" using norm_pos [OF q] by simp
  then show ?thesis using similarity_eq [OF q q refl] by simp
qed

section \<open>What the users of a similarity rely on\<close>

locale similarity_measure =
  fixes sim :: "string \<Rightarrow> string \<Rightarrow> real"
  assumes sim_sym: "sim a b = sim b a"
    and sim_nonneg: "0 \<le> sim a b"
    and sim_le_1: "sim a b \<le> 1"
    and sim_self: "py_split a \<noteq> [] \<Longrightarrow> sim a a = 1"
begin

text \<open>At a threshold of at most one, a query with a word is a near-duplicate of itself.\<close>

lemma self_near_duplicate: "py_split a \<noteq> [] \<Longrightarrow> t \<le> 1 \<Longrightarrow> t \<le> sim a a"
  by (simp add: sim_self)

lemma above_one_never: "1 < t \<Longrightarrow> \<not> t \<le> sim a b"
  using sim_le_1 [of a b] by linarith

lemma near_sym: "t \<le> sim a b \<longleftrightarrow> t \<le> sim b a"
  by (simp add: sim_sym)

end

interpretation cosine: similarity_measure similarity
  by unfold_locales (auto simp: similarity_nonneg similarity_le_1 similarity_self intro: similarity_sym)

section \<open>Lookups in the history\<close>

lemma find_exact_Some: "find_exact es q = Some e \<Longrightarrow> e \<in> set es \<and> pr_query e = q"
  by (induction es q rule: find_exact.induct) (auto split: if_splits)

lemma find_exact_None: "find_exact es q = None \<longleftrightarrow> (\<forall>e \<in> set es. pr_query e \<noteq> q)"
  by (induction es q rule: find_exact.induct) auto

lemma find_exact_recorded:
  "find_exact es q = None \<Longrightarrow>
   find_exact (history_record es q ids) q = Some \<lparr>pr_query = q, pr_evidence = ids\<rparr>"
  by (induction es q rule: find_exact.induct) (auto simp: history_record_def split: if_splits)

text \<open>The scan keeps the best score so far: the result is the best entry at or above the
  threshold, and there is none exactly when no entry scores that much.\<close>

lemma find_semantic_from_Some:
  "find_semantic_from best bs es q thr = Some e \<Longrightarrow>
     (best = Some e \<and> (\<forall>x \<in> set es. thr \<le> similarity q (pr_query x) \<longrightarrow> similarity q (pr_query x) \<le> bs))
   \<or> (e \<in> set es \<and> thr \<le> similarity q (pr_query e) \<and> bs < similarity q (pr_query e)
      \<and> (\<forall>x \<in> set es. thr \<le> similarity q (pr_query x) \<longrightarrow> similarity q (pr_query x) \<le> similarity q (pr_query e)))"
proof (induction best bs es q thr rule: find_semantic_from.induct)
  case (2 best bs x es q thr)
  show ?case
  proof (cases "thr \<le> similarity q (pr_query x) \<and> bs < similarity q (pr_query x)")
    case True
    with "2.IH"(1) [OF refl True] "2.prems" show ?thesis by (auto simp: Let_def)
  next
    case False
    with "2.IH"(2) [OF refl False] "2.prems" show ?thesis by (auto simp: Let_def)
  qed
qed auto

lemma find_semantic_Some:
  assumes "find_semantic es q thr = Some e"
  shows "e \<in> set es" "thr \<le> similarity q (pr_query e)" "0 < similarity q (pr_query e)"
    "x \<in> set es \<Longrightarrow> thr \<le> similarity q (pr_query x) \<Longrightarrow> similarity q (pr_query x) \<le> similarity q (pr_query e)"
  using find_semantic_from_Some [OF assms [unfolded find_semantic_def]] by auto

lemma find_semantic_from_keeps: "find_semantic_from (Some b) bs es q thr \<noteq> None"
  by (induction "Some b" bs es q thr arbitrary: b rule: find_semantic_from.induct) (auto simp: Let_def)

lemma find_semantic_from_None:
  "find_semantic_from None bs es q thr = None \<longleftrightarrow>
     (\<forall>x \<in> set es. \<not> (thr \<le> similarity q (pr_query x) \<and> bs < similarity q (pr_query x)))"
  by (induction es) (auto simp: Let_def find_semantic_from_keeps)

lemma find_semantic_None:
  "find_semantic es q thr = None \<longleftrightarrow>
     (\<forall>x \<in> set es. \<not> (thr \<le> similarity q (pr_query x) \<and> 0 < similarity q (pr_query x)))"
  by (simp add: find_semantic_def find_semantic_from_None)

section \<open>Comparing without the square root\<close>

text \<open>
  The code only compares similarities with each other and with thresholds. Comparing their
  squares decides the same and computes; these are the code equations of the comparisons.
\<close>

definition similarity_sq :: "string \<Rightarrow> string \<Rightarrow> real" where
  "similarity_sq a b =
     (let l = token_counts a; r = token_counts b
      in if l = [] \<or> r = [] then 0
         else let dot = sum_list (map (\<lambda>(t, c). real c * real (count_of r t)) l)
              in dot * dot / (sum_list (map (\<lambda>(_, c). real c * real c) l) * sum_list (map (\<lambda>(_, c). real c * real c) r)))"

lemma sum_list_counts_nonneg: "0 \<le> sum_list (map (\<lambda>(t, c). real c * real (f t c)) d)"
  by (induction d) auto

lemma similarity_sqrt: "similarity a b = sqrt (similarity_sq a b)"
proof (cases "token_counts a = [] \<or> token_counts b = []")
  case False
  define D where "D = sum_list (map (\<lambda>(t, c). real c * real (count_of (token_counts b) t)) (token_counts a))"
  define A where "A = sum_list (map (\<lambda>(_, c). real c * real c) (token_counts a))"
  define B where "B = sum_list (map (\<lambda>(_, c). real c * real c) (token_counts b))"
  have "0 \<le> D" unfolding D_def using sum_list_counts_nonneg [of "\<lambda>t _. count_of (token_counts b) t"] by simp
  then have "sqrt (D * D / (A * B)) = D / (sqrt A * sqrt B)"
    by (simp add: real_sqrt_divide real_sqrt_mult)
  with False show ?thesis
    by (auto simp: similarity_def similarity_sq_def Let_def D_def [symmetric] A_def [symmetric] B_def [symmetric])
qed (auto simp: similarity_def similarity_sq_def)

lemma similarity_sq_nonneg: "0 \<le> similarity_sq a b"
  using similarity_nonneg [of a b] by (simp add: similarity_sqrt)

definition at_least :: "real \<Rightarrow> string \<Rightarrow> string \<Rightarrow> bool" where
  "at_least threshold a b \<longleftrightarrow> threshold \<le> 0 \<or> threshold * threshold \<le> similarity_sq a b"

lemma at_least_iff: "threshold \<le> similarity a b \<longleftrightarrow> at_least threshold a b"
proof (cases "threshold \<le> 0")
  case False
  then have "sqrt (threshold * threshold) = threshold" by simp
  then have "threshold \<le> sqrt (similarity_sq a b) \<longleftrightarrow> threshold * threshold \<le> similarity_sq a b"
    using real_sqrt_le_iff [of "threshold * threshold" "similarity_sq a b"] by simp
  with False show ?thesis by (simp add: similarity_sqrt at_least_def)
qed (use similarity_nonneg [of a b] in \<open>simp add: at_least_def\<close>)

fun find_semantic_sq ::
  "past_retrieval option \<Rightarrow> real \<Rightarrow> past_retrieval list \<Rightarrow> string \<Rightarrow> real \<Rightarrow> past_retrieval option" where
  "find_semantic_sq best best_sq [] q threshold = best"
| "find_semantic_sq best best_sq (entry # es) q threshold =
     (let sq = similarity_sq q (pr_query entry)
      in if at_least threshold q (pr_query entry) \<and> best_sq < sq
         then find_semantic_sq (Some entry) sq es q threshold
         else find_semantic_sq best best_sq es q threshold)"

lemma find_semantic_from_sq:
  "0 \<le> s \<Longrightarrow> find_semantic_from best (sqrt s) es q threshold = find_semantic_sq best s es q threshold"
  by (induction best s es q threshold rule: find_semantic_sq.induct)
    (auto simp: Let_def at_least_iff [unfolded similarity_sqrt, symmetric] similarity_sqrt similarity_sq_nonneg)

lemma find_semantic_code [code]: "find_semantic es q threshold = find_semantic_sq None 0 es q threshold"
  using find_semantic_from_sq [of 0 None es q threshold] by (simp add: find_semantic_def)

end
