(* ===== verification/PackState.thy ===== *)
theory PackState
  imports Budgets Dedupe
begin

text \<open>
  \<open>context_broker/state.py\<close>: evidence packs and the store that holds them. Python shares
  objects: a pack handed out by the store is mutated in place, and every pack of a run
  shares one usage dictionary. Both are modelled by an explicit heap: \<open>packs\<close> and
  \<open>run_usage\<close> map names to object numbers, \<open>pack_obj\<close> and \<open>usage_obj\<close> hold the objects.
\<close>

section \<open>Evidence cards and packs\<close>

record evidence_card =
  ec_evidence_id :: string
  ec_artifact_id :: uuid
  ec_level :: string
  ec_card_type :: string
  ec_title :: string
  ec_summary :: string
  ec_source_uri :: "string option"
  ec_display_citation :: string
  ec_confidence :: real
  ec_authority :: real
  ec_tokens_if_expanded :: int
  ec_injection_flagged :: bool
  ec_injection_signals :: "string list"
  ec_source_kind :: string
  ec_temporal_state :: string
  ec_stale_for_intent :: bool

record pack =
  pk_id :: string
  pk_run_id :: string
  pk_kb_version :: string
  pk_build_seq :: int
  pk_profile :: string
  pk_summary :: string
  pk_budget :: int
  pk_used :: int
  pk_cards :: "(string, evidence_card) dict"
  pk_questions :: "string list"
  pk_usage :: nat
  pk_history :: "past_retrieval list"

type_synonym usage_map = "(string, agent_usage) dict"

record pack_store =
  packs :: "(string, nat) dict"
  pack_obj :: "nat \<Rightarrow> pack"
  run_usage :: "(string, nat) dict"
  usage_obj :: "nat \<Rightarrow> usage_map"
  next_obj :: nat
  max_packs :: nat

record pack_snapshot =
  sn_used :: int
  sn_requests :: int
  sn_tokens :: int
  sn_cards :: "(string, evidence_card) dict"
  sn_history :: "past_retrieval list"

section \<open>EvidencePackState\<close>

definition run_remaining_tokens :: "pack \<Rightarrow> int" where
  "run_remaining_tokens p = max (pk_budget p - pk_used p) 0"

definition upd_pack :: "nat \<Rightarrow> (pack \<Rightarrow> pack) \<Rightarrow> pack_store \<Rightarrow> pack_store" where
  "upd_pack r f s = s\<lparr>pack_obj := (pack_obj s)(r := f (pack_obj s r))\<rparr>"

text \<open>\<open>usage_for\<close>: the subject's meter in the pack's usage dictionary, created on first use.\<close>

definition usage_at :: "pack_store \<Rightarrow> nat \<Rightarrow> string \<Rightarrow> agent_usage" where
  "usage_at s r subj = get_default (usage_obj s (pk_usage (pack_obj s r))) subj new_usage"

definition set_usage :: "nat \<Rightarrow> string \<Rightarrow> agent_usage \<Rightarrow> pack_store \<Rightarrow> pack_store" where
  "set_usage r subj u s = (let d = pk_usage (pack_obj s r)
     in s\<lparr>usage_obj := (usage_obj s)(d := AList.update subj u (usage_obj s d))\<rparr>)"

definition usage_for :: "nat \<Rightarrow> string \<Rightarrow> pack_store \<Rightarrow> agent_usage \<times> pack_store" where
  "usage_for r subj s = (usage_at s r subj, set_usage r subj (usage_at s r subj) s)"

definition charge :: "nat \<Rightarrow> string \<Rightarrow> int \<Rightarrow> pack_store \<Rightarrow> pack_store" where
  "charge r subj n s =
     (let s1 = upd_pack r (\<lambda>p. p\<lparr>pk_used := pk_used p + n\<rparr>) s; u = usage_at s1 r subj
      in set_usage r subj (u\<lparr>tokens := tokens u + n\<rparr>) s1)"

definition snapshot :: "nat \<Rightarrow> string \<Rightarrow> pack_store \<Rightarrow> pack_snapshot \<times> pack_store" where
  "snapshot r subj s =
     (let (u, s1) = usage_for r subj s; p = pack_obj s1 r
      in (\<lparr>sn_used = pk_used p, sn_requests = requests u, sn_tokens = tokens u,
           sn_cards = pk_cards p, sn_history = pk_history p\<rparr>, s1))"

definition restore :: "nat \<Rightarrow> string \<Rightarrow> pack_snapshot \<Rightarrow> pack_store \<Rightarrow> pack_store" where
  "restore r subj sn s =
     (let s1 = upd_pack r (\<lambda>p. p\<lparr>pk_used := sn_used sn\<rparr>) s;
          (u, s2) = usage_for r subj s1;
          s3 = set_usage r subj (u\<lparr>requests := sn_requests sn, tokens := sn_tokens sn\<rparr>) s2
      in upd_pack r (\<lambda>p. p\<lparr>pk_cards := sn_cards sn, pk_history := sn_history sn\<rparr>) s3)"

section \<open>PackStore\<close>

text \<open>\<open>usage_for_run\<close>: the run's shared usage dictionary, allocated on first use.\<close>

definition usage_for_run :: "string \<Rightarrow> pack_store \<Rightarrow> nat \<times> pack_store" where
  "usage_for_run run_id s = (case map_of (run_usage s) run_id of
     Some d \<Rightarrow> (d, s)
   | None \<Rightarrow> (next_obj s, s\<lparr>run_usage := run_usage s @ [(run_id, next_obj s)],
       usage_obj := (usage_obj s)(next_obj s := []), next_obj := Suc (next_obj s)\<rparr>))"

definition evict_run_usage_if_unreferenced ::
  "(nat \<Rightarrow> pack) \<Rightarrow> string \<Rightarrow> (string, nat) dict \<Rightarrow> (string, nat) dict \<Rightarrow> (string, nat) dict" where
  "evict_run_usage_if_unreferenced obj run_id live usage =
     (if map_of usage run_id \<noteq> None \<and> \<not> list_ex (\<lambda>(_, r). pk_run_id (obj r) = run_id) live
      then AList.delete run_id usage else usage)"

fun evict_packs ::
  "nat \<Rightarrow> (nat \<Rightarrow> pack) \<Rightarrow> (string, nat) dict \<Rightarrow> (string, nat) dict
   \<Rightarrow> exn + (string, nat) dict \<times> (string, nat) dict" where
  "evict_packs m obj [] usage = (if m = 0 then Inl StopIteration else Inr ([], usage))"
| "evict_packs m obj ((pid, r) # live) usage =
     (if m \<le> length ((pid, r) # live)
      then evict_packs m obj live (evict_run_usage_if_unreferenced obj (pk_run_id (obj r)) live usage)
      else Inr ((pid, r) # live, usage))"

text \<open>A pack object is allocated by its constructor, then stored by \<open>create\<close>.\<close>

definition alloc_pack :: "pack \<Rightarrow> pack_store \<Rightarrow> nat \<times> pack_store" where
  "alloc_pack p s = (next_obj s, s\<lparr>pack_obj := (pack_obj s)(next_obj s := p), next_obj := Suc (next_obj s)\<rparr>)"

definition create :: "nat \<Rightarrow> pack_store \<Rightarrow> exn + pack_store" where
  "create r s = (case evict_packs (max_packs s) (pack_obj s) (packs s) (run_usage s) of
     Inl e \<Rightarrow> Inl e
   | Inr (live, usage) \<Rightarrow>
       Inr (s\<lparr>packs := AList.update (pk_id (pack_obj s r)) r live, run_usage := usage\<rparr>))"

text \<open>\<open>get\<close>: \<open>None\<close> is \<open>UnknownPackError\<close>; a hit moves to the back.\<close>

definition get_pack :: "string \<Rightarrow> pack_store \<Rightarrow> (nat \<times> pack_store) option" where
  "get_pack pid s = (case map_of (packs s) pid of
     None \<Rightarrow> None
   | Some r \<Rightarrow> Some (r, s\<lparr>packs := AList.update pid r (AList.delete pid (packs s))\<rparr>))"

section \<open>Meters and refunds\<close>

lemma upd_pack_simps [simp]:
  "pack_obj (upd_pack r f s) r' = (if r' = r then f (pack_obj s r) else pack_obj s r')"
  "packs (upd_pack r f s) = packs s" "usage_obj (upd_pack r f s) = usage_obj s"
  "run_usage (upd_pack r f s) = run_usage s" "next_obj (upd_pack r f s) = next_obj s"
  "max_packs (upd_pack r f s) = max_packs s"
  by (auto simp: upd_pack_def)

lemma set_usage_simps [simp]:
  "pack_obj (set_usage r subj u s) = pack_obj s" "packs (set_usage r subj u s) = packs s"
  "run_usage (set_usage r subj u s) = run_usage s" "next_obj (set_usage r subj u s) = next_obj s"
  "max_packs (set_usage r subj u s) = max_packs s"
  by (auto simp: set_usage_def Let_def)

lemma usage_at_set_usage [simp]:
  "usage_at (set_usage r subj u s) r' subj' =
     (if pk_usage (pack_obj s r') = pk_usage (pack_obj s r) \<and> subj' = subj then u else usage_at s r' subj')"
  by (simp add: usage_at_def set_usage_def Let_def get_default_def)

lemma usage_at_upd_pack:
  "(\<And>p. pk_usage (f p) = pk_usage p) \<Longrightarrow> usage_at (upd_pack r f s) r' subj = usage_at s r' subj"
  by (simp add: usage_at_def)

lemma usage_at_upd_used [simp]:
  "usage_at (upd_pack r (\<lambda>p. p\<lparr>pk_used := x p\<rparr>) s) r' subj = usage_at s r' subj"
  "usage_at (upd_pack r (\<lambda>p. p\<lparr>pk_cards := y p, pk_history := z p\<rparr>) s) r' subj = usage_at s r' subj"
  by (simp_all add: usage_at_upd_pack)

lemma charge_pack [simp]:
  "pack_obj (charge r subj n s) r' =
     (if r' = r then (pack_obj s r)\<lparr>pk_used := pk_used (pack_obj s r) + n\<rparr> else pack_obj s r')"
  "packs (charge r subj n s) = packs s" "run_usage (charge r subj n s) = run_usage s"
  "next_obj (charge r subj n s) = next_obj s" "max_packs (charge r subj n s) = max_packs s"
  by (simp_all add: charge_def Let_def)

lemma charge_usage [simp]:
  "usage_at (charge r subj n s) r' subj' =
     (if pk_usage (pack_obj s r') = pk_usage (pack_obj s r) \<and> subj' = subj
      then (usage_at s r subj)\<lparr>tokens := tokens (usage_at s r subj) + n\<rparr> else usage_at s r' subj')"
  by (simp add: charge_def Let_def)

text \<open>
  Two stores are indistinguishable through every reader: the same names, the same packs, and
  the same meter for every subject of every pack. (A meter that is absent reads as zero.)
\<close>

definition same_view :: "pack_store \<Rightarrow> pack_store \<Rightarrow> bool" where
  "same_view s t \<longleftrightarrow> packs s = packs t \<and> pack_obj s = pack_obj t \<and> run_usage s = run_usage t
     \<and> max_packs s = max_packs t \<and> next_obj s = next_obj t
     \<and> (\<forall>r subj. usage_at s r subj = usage_at t r subj)"

lemma same_view_refl [simp]: "same_view s s"
  by (simp add: same_view_def)

lemma same_view_trans: "same_view s t \<Longrightarrow> same_view t u \<Longrightarrow> same_view s u"
  by (simp add: same_view_def)

lemma same_view_sym: "same_view s t \<Longrightarrow> same_view t s"
  by (simp add: same_view_def)

lemma usage_for_view: "same_view (snd (usage_for r subj s)) s"
  by (auto simp: same_view_def usage_for_def) (simp add: usage_at_def)

lemma snapshot_view: "same_view (snd (snapshot r subj s)) s"
  using usage_for_view [of r subj s] by (simp add: snapshot_def Let_def split_def)

lemma snapshot_fields:
  "sn_used (fst (snapshot r subj s)) = pk_used (pack_obj s r)"
  "sn_requests (fst (snapshot r subj s)) = requests (usage_at s r subj)"
  "sn_tokens (fst (snapshot r subj s)) = tokens (usage_at s r subj)"
  "sn_cards (fst (snapshot r subj s)) = pk_cards (pack_obj s r)"
  "sn_history (fst (snapshot r subj s)) = pk_history (pack_obj s r)"
  by (simp_all add: snapshot_def usage_for_def Let_def split_def)

text \<open>
  A charged operation may change the pack's used tokens, cards and history and the subject's
  meter, and nothing else.
\<close>

definition pack_frame :: "pack \<Rightarrow> pack \<Rightarrow> bool" where
  "pack_frame p q \<longleftrightarrow> q\<lparr>pk_used := pk_used p, pk_cards := pk_cards p, pk_history := pk_history p\<rparr> = p"

definition charged_change :: "nat \<Rightarrow> string \<Rightarrow> pack_store \<Rightarrow> pack_store \<Rightarrow> bool" where
  "charged_change r subj s t \<longleftrightarrow>
     packs t = packs s \<and> run_usage t = run_usage s \<and> max_packs t = max_packs s \<and> next_obj t = next_obj s
     \<and> (\<forall>r'. r' \<noteq> r \<longrightarrow> pack_obj t r' = pack_obj s r')
     \<and> pack_frame (pack_obj s r) (pack_obj t r)
     \<and> (\<forall>r' subj'. \<not> (pk_usage (pack_obj s r') = pk_usage (pack_obj s r) \<and> subj' = subj)
          \<longrightarrow> usage_at t r' subj' = usage_at s r' subj')"

lemma pack_frame_refl [simp]: "pack_frame p p"
  by (simp add: pack_frame_def)

lemma pack_frame_upd [simp]:
  "pack_frame p (q\<lparr>pk_used := u\<rparr>) = pack_frame p q"
  "pack_frame p (q\<lparr>pk_cards := c\<rparr>) = pack_frame p q"
  "pack_frame p (q\<lparr>pk_history := h\<rparr>) = pack_frame p q"
  by (simp_all add: pack_frame_def)

lemma pack_frame_fields:
  assumes "pack_frame p q"
  shows "pk_id q = pk_id p" "pk_run_id q = pk_run_id p" "pk_kb_version q = pk_kb_version p"
    "pk_build_seq q = pk_build_seq p" "pk_budget q = pk_budget p" "pk_usage q = pk_usage p"
    "pk_profile q = pk_profile p" "pk_questions q = pk_questions p" "pk_summary q = pk_summary p"
  using arg_cong [OF assms [unfolded pack_frame_def], of pk_id]
    arg_cong [OF assms [unfolded pack_frame_def], of pk_run_id]
    arg_cong [OF assms [unfolded pack_frame_def], of pk_kb_version]
    arg_cong [OF assms [unfolded pack_frame_def], of pk_build_seq]
    arg_cong [OF assms [unfolded pack_frame_def], of pk_budget]
    arg_cong [OF assms [unfolded pack_frame_def], of pk_usage]
    arg_cong [OF assms [unfolded pack_frame_def], of pk_profile]
    arg_cong [OF assms [unfolded pack_frame_def], of pk_questions]
    arg_cong [OF assms [unfolded pack_frame_def], of pk_summary]
  by simp_all

lemma pack_frame_trans: "pack_frame p q \<Longrightarrow> pack_frame q s \<Longrightarrow> pack_frame p s"
  by (cases p; cases q; cases s) (simp add: pack_frame_def)

lemma restore_pack [simp]:
  "pack_obj (restore r subj sn s) r' = (if r' = r then (pack_obj s r)\<lparr>pk_used := sn_used sn,
     pk_cards := sn_cards sn, pk_history := sn_history sn\<rparr> else pack_obj s r')"
  "packs (restore r subj sn s) = packs s" "run_usage (restore r subj sn s) = run_usage s"
  "next_obj (restore r subj sn s) = next_obj s" "max_packs (restore r subj sn s) = max_packs s"
  by (simp_all add: restore_def usage_for_def Let_def split_def)

lemma restore_usage [simp]:
  "usage_at (restore r subj sn s) r' subj' =
     (if pk_usage (pack_obj s r') = pk_usage (pack_obj s r) \<and> subj' = subj
      then (usage_at s r subj)\<lparr>requests := sn_requests sn, tokens := sn_tokens sn\<rparr>
      else usage_at s r' subj')"
  by (simp add: restore_def usage_for_def Let_def split_def)

lemma charged_usage_ref:
  "charged_change r subj s t \<Longrightarrow> pk_usage (pack_obj t r') = pk_usage (pack_obj s r')"
  by (cases "r' = r") (auto simp: charged_change_def pack_frame_fields)

text \<open>The refund is exact: whatever a charged operation did, restoring brings back the view.\<close>

lemma restore_view:
  assumes ch: "charged_change r subj s t"
  shows "same_view (restore r subj (fst (snapshot r subj s)) t) s"
proof -
  let ?t = "restore r subj (fst (snapshot r subj s)) t"
  have po: "pack_obj ?t = pack_obj s"
    using ch by (auto simp: fun_eq_iff snapshot_fields charged_change_def pack_frame_def)
  have "usage_at ?t r' subj' = usage_at s r' subj'" for r' subj'
  proof (cases "pk_usage (pack_obj s r') = pk_usage (pack_obj s r) \<and> subj' = subj")
    case True
    have "requests (usage_at s r subj) = requests (usage_at s r' subj')"
      "tokens (usage_at s r subj) = tokens (usage_at s r' subj')"
      using True by (simp_all add: usage_at_def)
    with True show ?thesis by (simp add: charged_usage_ref [OF ch] snapshot_fields)
  next
    case False
    then have "usage_at t r' subj' = usage_at s r' subj'" using ch by (simp add: charged_change_def)
    with False show ?thesis by (auto simp: charged_usage_ref [OF ch])
  qed
  with po ch show ?thesis by (simp add: same_view_def charged_change_def)
qed

lemma charged_refl [simp]: "charged_change r subj s s"
  by (simp add: charged_change_def)

lemma charged_trans:
  assumes "charged_change r subj s t" and "charged_change r subj t u"
  shows "charged_change r subj s u"
proof -
  have "pack_frame (pack_obj s r) (pack_obj u r)"
    using assms by (auto simp: charged_change_def intro: pack_frame_trans)
  then show ?thesis
    using assms charged_usage_ref [OF assms(1)] by (simp add: charged_change_def)
qed

lemma charged_charge: "charged_change r subj s (charge r subj n s)"
  by (simp add: charged_change_def)

lemma charged_upd:
  assumes "pack_frame (pack_obj s r) (f (pack_obj s r))"
  shows "charged_change r subj s (upd_pack r f s)"
  using assms by (simp add: charged_change_def usage_at_def pack_frame_fields)

lemma charged_set_usage: "charged_change r subj s (set_usage r subj u s)"
  by (simp add: charged_change_def)

lemma charged_view: "same_view t s \<Longrightarrow> charged_change r subj s t"
  by (simp add: same_view_def charged_change_def)

section \<open>The pack store's invariant\<close>

definition card_entry_ok :: "string \<times> evidence_card \<Rightarrow> bool" where
  "card_entry_ok kc \<longleftrightarrow> fst kc = ec_evidence_id (snd kc) \<and> uuid_ok (ec_artifact_id (snd kc))
     \<and> ec_evidence_id (snd kc) = uuid_str (ec_artifact_id (snd kc))"

definition cards_ok :: "(string, evidence_card) dict \<Rightarrow> bool" where
  "cards_ok cs \<longleftrightarrow> dict_ok cs \<and> (\<forall>kc \<in> set cs. card_entry_ok kc)"

definition pack_ok :: "pack \<Rightarrow> bool" where
  "pack_ok p \<longleftrightarrow> (\<exists>u. uuid_ok u \<and> pk_id p = uuid_str u) \<and> pk_kb_version p \<noteq> [] \<and> cards_ok (pk_cards p)"

definition store_ok :: "pack_store \<Rightarrow> bool" where
  "store_ok s \<longleftrightarrow> 0 < max_packs s \<and> dict_ok (packs s) \<and> length (packs s) \<le> max_packs s
     \<and> (\<forall>r. cards_ok (pk_cards (pack_obj s r)))
     \<and> (\<forall>(pid, r) \<in> set (packs s). r < next_obj s \<and> pk_id (pack_obj s r) = pid \<and> pack_ok (pack_obj s r))"

lemma cards_ok_simps [simp]:
  "cards_ok []"
  "cards_ok cs \<Longrightarrow> card_entry_ok (k, c) \<Longrightarrow> cards_ok (AList.update k c cs)"
  by (auto simp: cards_ok_def dest!: set_update_subset [THEN subsetD])

lemma cards_ok_update_all:
  "cards_ok cs \<Longrightarrow> \<forall>kc \<in> set kcs. card_entry_ok kc \<Longrightarrow> cards_ok (dict_update_all cs kcs)"
  by (induction cs kcs rule: dict_update_all.induct) auto

lemma card_entry_by_id:
  "ec_evidence_id c = uuid_str (ec_artifact_id c) \<Longrightarrow> uuid_ok (ec_artifact_id c)
   \<Longrightarrow> card_entry_ok (ec_evidence_id c, c)"
  by (simp add: card_entry_ok_def)

lemma pack_ok_uuid: "pack_ok p \<Longrightarrow> \<exists>u. parse_uuid (pk_id p) = Some u \<and> pk_id p = uuid_str u"
  using parse_uuid_str by (auto simp: pack_ok_def)

lemma pack_ok_frame:
  "pack_frame p q \<Longrightarrow> pack_ok p \<Longrightarrow> cards_ok (pk_cards q) \<Longrightarrow> pack_ok q"
  by (simp add: pack_ok_def pack_frame_fields)

lemma store_ok_same: "same_view s t \<Longrightarrow> store_ok t \<Longrightarrow> store_ok s"
  by (simp add: store_ok_def same_view_def)

lemma charged_store_ok:
  assumes "charged_change r subj s t" and "store_ok s"
    and "cards_ok (pk_cards (pack_obj t r))"
  shows "store_ok t"
proof -
  have "r' < next_obj s \<and> pk_id (pack_obj t r') = pid \<and> pack_ok (pack_obj t r')"
    if "(pid, r') \<in> set (packs s)" for pid r'
  proof (cases "r' = r")
    case True
    with assms(1) have "pack_frame (pack_obj s r') (pack_obj t r')" by (simp add: charged_change_def)
    with assms that True show ?thesis
      using pack_frame_fields(1) pack_ok_frame by (fastforce simp: store_ok_def)
  next
    case False
    with assms that show ?thesis by (fastforce simp: store_ok_def charged_change_def)
  qed
  moreover have "cards_ok (pk_cards (pack_obj t r'))" for r'
    using assms by (cases "r' = r") (auto simp: store_ok_def charged_change_def)
  ultimately show ?thesis using assms(1,2) by (auto simp: store_ok_def charged_change_def)
qed

lemma alloc_store_ok:
  assumes s: "store_ok s" and p: "pack_ok p"
  shows "store_ok (snd (alloc_pack p s))"
proof -
  have "r < next_obj s" "r \<noteq> next_obj s" if "(pid, r) \<in> set (packs s)" for pid r
    using s that by (auto simp: store_ok_def)
  moreover have "cards_ok (pk_cards p)" using p by (simp add: pack_ok_def)
  ultimately show ?thesis
    using s unfolding store_ok_def alloc_pack_def by (auto intro: less_SucI)
qed

lemma get_pack_Some:
  assumes "get_pack pid s = Some (r, s')"
  shows "map_of (packs s) pid = Some r" "pack_obj s' = pack_obj s" "usage_obj s' = usage_obj s"
    "run_usage s' = run_usage s" "next_obj s' = next_obj s" "max_packs s' = max_packs s"
    "packs s' = AList.delete pid (packs s) @ [(pid, r)]"
  using assms by (auto simp: get_pack_def length_update_new notin_delete split: option.splits)

lemma get_pack_store_ok:
  assumes "get_pack pid s = Some (r, s')" and "store_ok s"
  shows "store_ok s'" "pack_ok (pack_obj s r)" "pk_id (pack_obj s r) = pid" "(pid, r) \<in> set (packs s')"
    "r < next_obj s"
proof -
  note g = get_pack_Some [OF assms(1)]
  have in0: "(pid, r) \<in> set (packs s)" using g(1) by (rule map_of_SomeD)
  with assms(2) show "pack_ok (pack_obj s r)" "pk_id (pack_obj s r) = pid" "r < next_obj s"
    by (auto simp: store_ok_def)
  have "length (AList.delete pid (packs s)) < max_packs s"
    using assms(2) g(1) length_delete_dict [of "packs s" pid] by (auto simp: store_ok_def)
  moreover have "dict_ok (AList.delete pid (packs s) @ [(pid, r)])"
    using assms(2) by (intro dict_ok_append_fresh) (simp_all add: store_ok_def notin_delete)
  ultimately show "store_ok s'" "(pid, r) \<in> set (packs s')"
    using assms(2) in0 by (auto simp: store_ok_def g dest!: set_delete_subset)
qed

lemma evict_packs_front:
  "evict_packs m obj live usage = Inr (live', usage') \<Longrightarrow> evict_front m live = Inr live'"
  by (induction m obj live usage rule: evict_packs.induct) (auto split: if_splits)

lemma evict_packs_total: "0 < m \<Longrightarrow> \<exists>x. evict_packs m obj live usage = Inr x"
  by (induction m obj live usage rule: evict_packs.induct) auto

lemma create_total: "0 < max_packs s \<Longrightarrow> \<exists>s'. create r s = Inr s'"
  using evict_packs_total [of "max_packs s" "pack_obj s" "packs s" "run_usage s"]
  by (force simp: create_def)

text \<open>Creating a pack under a name not held: older packs leave from the front, the new one is last.\<close>

lemma create_Inr:
  assumes "create r s = Inr s'" and "pk_id (pack_obj s r) \<notin> fst ` set (packs s)"
  obtains front kept where "packs s = front @ kept" "length kept < max_packs s"
    "packs s' = kept @ [(pk_id (pack_obj s r), r)]" "pack_obj s' = pack_obj s"
    "usage_obj s' = usage_obj s" "next_obj s' = next_obj s" "max_packs s' = max_packs s"
proof -
  from assms(1) obtain live usage
    where e: "evict_packs (max_packs s) (pack_obj s) (packs s) (run_usage s) = Inr (live, usage)"
      and s': "s' = s\<lparr>packs := AList.update (pk_id (pack_obj s r)) r live, run_usage := usage\<rparr>"
    by (auto simp: create_def split: sum.splits)
  obtain front where front: "packs s = front @ live"
    using evict_front_suffix [OF evict_packs_front [OF e]] by blast
  with assms(2) have "pk_id (pack_obj s r) \<notin> fst ` set live" by auto
  then show ?thesis
    using that front s' evict_front_length [OF evict_packs_front [OF e]]
    by (simp add: length_update_new)
qed

lemma create_store_ok:
  assumes "create r s = Inr s'" and "store_ok s" and "pack_ok (pack_obj s r)" and "r < next_obj s"
  shows "store_ok s'"
proof -
  from assms(1) obtain live usage
    where e: "evict_packs (max_packs s) (pack_obj s) (packs s) (run_usage s) = Inr (live, usage)"
      and s': "s' = s\<lparr>packs := AList.update (pk_id (pack_obj s r)) r live, run_usage := usage\<rparr>"
    by (auto simp: create_def split: sum.splits)
  obtain front where front: "packs s = front @ live"
    using evict_front_suffix [OF evict_packs_front [OF e]] by blast
  have "length live < max_packs s" using evict_front_length [OF evict_packs_front [OF e]] .
  then have "length (AList.update (pk_id (pack_obj s r)) r live) \<le> max_packs s"
    using length_update_le [of "pk_id (pack_obj s r)" r live] by simp
  moreover have "dict_ok (AList.update (pk_id (pack_obj s r)) r live)"
    using assms(2) front by (intro dict_ok_simps(2)) (auto simp: store_ok_def intro: dict_ok_suffix)
  moreover have "set (AList.update (pk_id (pack_obj s r)) r live) \<subseteq> insert (pk_id (pack_obj s r), r) (set (packs s))"
    using set_update_subset [of "pk_id (pack_obj s r)" r live] front by auto
  ultimately show ?thesis
    using assms s' by (fastforce simp: store_ok_def)
qed

end
