(* ===== verification/Broker.thy ===== *)
theory Broker
  imports Registry PackState
begin

text \<open>
  The broker's world and ports: \<open>BrokerSettings\<close> and \<open>BrokerDeps\<close>
  (\<open>context_broker/dependencies.py\<close>), the authorization seam, database access that may fail
  at every call, and the error rows of \<open>context_broker/error_ledger.py\<close>.

  A database call takes the next entry of a list of faults: \<open>Broken\<close> makes it raise, and
  \<open>Cancelled\<close> cancels the task there; both leave the tables as they were. The list is
  arbitrary, so every claim holds for every pattern of failing reads and writes. What the broker only calls is a field of \<open>deps\<close>: the search
  client, \<open>uuid4\<close> (indexed by a counter of the world, like the calls of the entailment model), and the length that matters of a
  card's serialization. Log lines and clock readings are left out.
\<close>

section \<open>Settings, ports and the world\<close>

record settings =
  semantic_reuse_threshold :: real
  semantic_dupe_threshold :: real
  max_cards_per_retrieval :: nat
  max_graph_neighbors :: nat
  max_run_budget_tokens :: int
  max_quote_chars :: nat
  signing_key_env :: string
  task_context_max_tokens :: nat

definition default_settings :: settings where
  "default_settings = \<lparr>semantic_reuse_threshold = 90/100, semantic_dupe_threshold = 90/100,
     max_cards_per_retrieval = 5, max_graph_neighbors = 100, max_run_budget_tokens = 18000,
     max_quote_chars = 600, signing_key_env = ''VERIFY_SIGNING_KEY'',
     task_context_max_tokens = 8000\<rparr>"

type_synonym search_hits = "(uuid \<times> real) list"

record deps =
  dp_settings :: settings
  dp_budget :: budget_policy
  dp_search :: "registry \<Rightarrow> string \<Rightarrow> int \<Rightarrow> nat \<Rightarrow> search_hits option"
  dp_dump_card :: "evidence_card \<Rightarrow> string"
  dp_uuid4 :: "nat \<Rightarrow> uuid"

datatype fault = Fine | Broken | Cancelled

record world =
  w_db :: registry
  w_faults :: "fault list"
  w_store :: pack_store
  w_kb :: kb_store
  w_uuids :: nat
  w_llm :: nat

type_synonym 'a broker = "(world, 'a) op"

section \<open>The authorization seam (authorization.py, rbac.py)\<close>

text \<open>\<open>TeamAclAuthorization\<close>, the policy every \<open>BrokerDeps\<close> is built with.\<close>

definition policy_name :: string where
  "policy_name = ''team_acl_v1''"

definition filter_artifacts :: "requester \<Rightarrow> artifact_row list \<Rightarrow> artifact_row list" where
  "filter_artifacts r rows = filter (\<lambda>a. acl_admits r (ar_acl a)) rows"

locale authorization_policy =
  fixes flt :: "'r \<Rightarrow> 'a list \<Rightarrow> 'a list"
    and sees :: "'r \<Rightarrow> 'a \<Rightarrow> bool"
  assumes flt_sound: "a \<in> set (flt r rows) \<Longrightarrow> a \<in> set rows \<and> sees r a"
    and flt_complete: "a \<in> set rows \<Longrightarrow> sees r a \<Longrightarrow> a \<in> set (flt r rows)"
    and flt_order: "subseq (flt r rows) rows"
begin

lemma flt_iff: "a \<in> set (flt r rows) \<longleftrightarrow> a \<in> set rows \<and> sees r a"
  using flt_sound flt_complete by blast

lemma flt_distinct:
  assumes "distinct (map f rows)" shows "distinct (map f (flt r rows))"
proof -
  obtain ns where "flt r rows = nths rows ns" using flt_order by (metis subseq_conv_nths)
  then have "map f (flt r rows) = nths (map f rows) ns" by (simp add: nths_map)
  then show ?thesis using assms by (simp add: distinct_nthsI)
qed

lemma flt_ids: "(\<exists>a \<in> set (flt r rows). f a = u) \<longleftrightarrow> (\<exists>a \<in> set rows. f a = u \<and> sees r a)"
  using flt_iff by blast

end

interpretation team_acl: authorization_policy filter_artifacts "\<lambda>r a. acl_admits r (ar_acl a)"
  by unfold_locales (auto simp: filter_artifacts_def)

section \<open>Database calls\<close>

definition db_call :: "(registry \<Rightarrow> (exn + 'a) \<times> registry) \<Rightarrow> 'a broker" where
  "db_call f w =
     (case w_faults w of
        Broken # fs \<Rightarrow> (Inl DbError, w\<lparr>w_faults := fs\<rparr>)
      | Cancelled # fs \<Rightarrow> (Inl CancelledError, w\<lparr>w_faults := fs\<rparr>)
      | _ \<Rightarrow> (let (r, d) = f (w_db w) in (r, w\<lparr>w_db := d, w_faults := tl (w_faults w)\<rparr>)))"

text \<open>The next database call goes through.\<close>

definition db_up :: "world \<Rightarrow> bool" where
  "db_up w \<longleftrightarrow> w_faults w = [] \<or> hd (w_faults w) = Fine"

definition db_read :: "(registry \<Rightarrow> exn + 'a) \<Rightarrow> 'a broker" where
  "db_read f = db_call (\<lambda>d. (f d, d))"

definition db_get :: "(registry \<Rightarrow> 'a) \<Rightarrow> 'a broker" where
  "db_get f = db_read (\<lambda>d. Inr (f d))"

definition insert_event :: "retrieval_event \<Rightarrow> unit broker" where
  "insert_event e = db_call (\<lambda>d. (Inr (), add_event e d))"

section \<open>Constants and error rows (constants.py, error_ledger.py)\<close>

definition NO_RUN_SENTINEL :: string where
  "NO_RUN_SENTINEL = ''-''"

definition MSG_NO_ACTIVE_VERSION :: string where
  "MSG_NO_ACTIVE_VERSION = ''no active kb_version; the knowledge base has not been built yet''"

definition UNRESOLVED :: string where
  "UNRESOLVED = ''-''"

text \<open>The defaults of \<open>RetrievalEventInsert\<close>.\<close>

definition event :: "string \<Rightarrow> string \<Rightarrow> string \<Rightarrow> string \<Rightarrow> string \<Rightarrow> retrieval_event" where
  "event run_id agent_name tool_name status kb_version =
     \<lparr>ev_run_id = run_id, ev_agent_name = agent_name, ev_tool_name = tool_name, ev_status = status,
      ev_kb_version = kb_version, ev_context_pack_id = None, ev_query_text = None,
      ev_normalized_query = None, ev_retrieval_profile = None, ev_returned = [], ev_reused = [],
      ev_new = [], ev_cache_hit = False, ev_semantic_reuse = False, ev_tokens_returned = 0,
      ev_details = None\<rparr>"

record error_args =
  ea_run_id :: string
  ea_kb_version :: string
  ea_context_pack_id :: "uuid option"
  ea_query_text :: "string option"
  ea_details :: "(string \<times> json) list option"

definition error_defaults :: error_args where
  "error_defaults = \<lparr>ea_run_id = UNRESOLVED, ea_kb_version = UNRESOLVED, ea_context_pack_id = None,
     ea_query_text = None, ea_details = None\<rparr>"

definition write_error_event :: "string \<Rightarrow> string \<Rightarrow> error_args \<Rightarrow> unit broker" where
  "write_error_event tool_name subj a =
     insert_event ((event (ea_run_id a) subj tool_name ''error'' (ea_kb_version a))
       \<lparr>ev_context_pack_id := ea_context_pack_id a, ev_query_text := ea_query_text a,
        ev_details := ea_details a\<rparr>)"

text \<open>An anticipated failure: write the row, then raise the marker.\<close>

definition ledgered_error :: "string \<Rightarrow> string \<Rightarrow> error_args \<Rightarrow> string \<Rightarrow> 'a broker" where
  "ledgered_error tool_name subj a msg =
     bindM (write_error_event tool_name subj a) (\<lambda>_. raise (LedgeredToolError msg))"

section \<open>Small operations\<close>

definition new_pack_id :: "deps \<Rightarrow> string broker" where
  "new_pack_id dp = bindM (getM w_uuids) (\<lambda>n.
     bindM (modM (\<lambda>w. w\<lparr>w_uuids := Suc n\<rparr>)) (\<lambda>_. ret (uuid_str (dp_uuid4 dp n))))"

definition store_op :: "(pack_store \<Rightarrow> 'a \<times> pack_store) \<Rightarrow> 'a broker" where
  "store_op f w = (let (x, s) = f (w_store w) in (Inr x, w\<lparr>w_store := s\<rparr>))"

definition store_mod :: "(pack_store \<Rightarrow> pack_store) \<Rightarrow> unit broker" where
  "store_mod f = modM (\<lambda>w. w\<lparr>w_store := f (w_store w)\<rparr>)"

definition the_pack :: "nat \<Rightarrow> pack broker" where
  "the_pack r = getM (\<lambda>w. pack_obj (w_store w) r)"

text \<open>A response model's constructor: pydantic raises when a constraint fails.\<close>

definition validated :: "bool \<Rightarrow> 'a \<Rightarrow> 'a broker" where
  "validated ok x = (if ok then ret x else raise PydanticValidationError)"

definition uuid4_ok :: "deps \<Rightarrow> bool" where
  "uuid4_ok dp \<longleftrightarrow> (\<forall>n. uuid_ok (dp_uuid4 dp n))"

section \<open>What the database calls do\<close>

lemma db_call_Inr [op_iff]:
  "db_call f w = (Inr x, w') \<longleftrightarrow>
     db_up w \<and>
     (\<exists>d. f (w_db w) = (Inr x, d) \<and> w' = w\<lparr>w_db := d, w_faults := tl (w_faults w)\<rparr>)"
  by (auto simp: db_call_def db_up_def Let_def split: list.splits fault.splits prod.splits)

lemma db_read_Inr [op_iff]:
  "db_read f w = (Inr x, w') \<longleftrightarrow>
     db_up w \<and> f (w_db w) = Inr x \<and> w' = w\<lparr>w_faults := tl (w_faults w)\<rparr>"
  by (auto simp: db_read_def op_iff)

lemma db_get_Inr [op_iff]:
  "db_get f w = (Inr x, w') \<longleftrightarrow>
     db_up w \<and> x = f (w_db w) \<and> w' = w\<lparr>w_faults := tl (w_faults w)\<rparr>"
  by (auto simp: db_get_def op_iff)

lemma insert_event_Inr [op_iff]:
  "insert_event e w = (Inr x, w') \<longleftrightarrow>
     db_up w \<and>
     w' = w\<lparr>w_db := add_event e (w_db w), w_faults := tl (w_faults w)\<rparr>"
  by (auto simp: insert_event_def op_iff)

lemma store_op_Inr [op_iff]:
  "store_op f w = (Inr x, w') \<longleftrightarrow>
     x = fst (f (w_store w)) \<and> w' = w\<lparr>w_store := snd (f (w_store w))\<rparr>"
  by (auto simp: store_op_def split_def Let_def)

lemma ledgered_error_Inr [op_iff]: "ledgered_error tool subj a msg w = (Inr y, w') \<longleftrightarrow> False"
  by (simp add: ledgered_error_def op_iff)

lemma the_pack_bind [simp]: "bindM (the_pack r) f w = f (pack_obj (w_store w) r) w"
  by (simp add: the_pack_def)

lemma the_pack_Inr [op_iff]: "the_pack r w = (Inr p, w') \<longleftrightarrow> p = pack_obj (w_store w) r \<and> w' = w"
  by (auto simp: the_pack_def op_iff)

lemma validated_Inr [op_iff]: "validated ok x w = (Inr y, w') \<longleftrightarrow> ok \<and> y = x \<and> w' = w"
  by (auto simp: validated_def op_defs)

section \<open>Operations that only read\<close>

text \<open>
  An operation that reads leaves the world as it was, apart from the faults it consumed, and
  never ends in the marker of a ledgered failure.
\<close>

fun ledgered_exn :: "exn \<Rightarrow> bool" where
  "ledgered_exn (LedgeredToolError s) = True"
| "ledgered_exn _ = False"

definition reads_only :: "'a broker \<Rightarrow> bool" where
  "reads_only m \<longleftrightarrow> (\<forall>w. (snd (m w))\<lparr>w_faults := w_faults w\<rparr> = w
     \<and> (\<forall>e. fst (m w) = Inl e \<longrightarrow> \<not> ledgered_exn e))"

named_theorems reads_intros \<open>which operations only read\<close>

lemma reads_onlyI:
  assumes "\<And>w r w'. m w = (r, w') \<Longrightarrow> w'\<lparr>w_faults := w_faults w\<rparr> = w \<and> (\<forall>e. r = Inl e \<longrightarrow> \<not> ledgered_exn e)"
  shows "reads_only m"
  unfolding reads_only_def
proof
  fix w show "(snd (m w))\<lparr>w_faults := w_faults w\<rparr> = w \<and> (\<forall>e. fst (m w) = Inl e \<longrightarrow> \<not> ledgered_exn e)"
    using assms [of w "fst (m w)" "snd (m w)"] by simp
qed

lemma reads_onlyD:
  assumes "reads_only m" and "m w = (r, w')"
  shows "w'\<lparr>w_faults := w_faults w\<rparr> = w" "r = Inl e \<Longrightarrow> \<not> ledgered_exn e"
proof -
  from assms have "(snd (m w))\<lparr>w_faults := w_faults w\<rparr> = w \<and> (\<forall>e. fst (m w) = Inl e \<longrightarrow> \<not> ledgered_exn e)"
    unfolding reads_only_def by blast
  with assms(2) show "w'\<lparr>w_faults := w_faults w\<rparr> = w" "r = Inl e \<Longrightarrow> \<not> ledgered_exn e" by simp_all
qed

lemma faults_eq_fields:
  assumes "w'\<lparr>w_faults := w_faults w\<rparr> = w"
  shows "w_db w' = w_db w" "w_store w' = w_store w" "w_kb w' = w_kb w" "w_uuids w' = w_uuids w"
    "w_llm w' = w_llm w"
  using arg_cong [OF assms, of w_db] arg_cong [OF assms, of w_store] arg_cong [OF assms, of w_kb]
    arg_cong [OF assms, of w_uuids] arg_cong [OF assms, of w_llm] by simp_all

lemma faults_eq_trans:
  assumes "w2\<lparr>w_faults := w_faults w1\<rparr> = w1" and "w1\<lparr>w_faults := w_faults w\<rparr> = w"
  shows "w2\<lparr>w_faults := w_faults w\<rparr> = w"
  by (subst assms(2) [symmetric], subst assms(1) [symmetric]) simp

lemmas reads_only_fields = faults_eq_fields [OF reads_onlyD(1)]

lemma reads_ret [reads_intros]: "reads_only (ret x)"
  by (simp add: reads_only_def ret_def)

lemma reads_raise [reads_intros]: "\<not> ledgered_exn e \<Longrightarrow> reads_only (raise e)"
  by (simp add: reads_only_def raise_def)

lemma reads_getM [reads_intros]: "reads_only (getM f)"
  by (simp add: reads_only_def getM_def)

lemma reads_liftM [reads_intros]: "(\<And>e. r = Inl e \<Longrightarrow> \<not> ledgered_exn e) \<Longrightarrow> reads_only (liftM r)"
  by (simp add: reads_only_def liftM_def)

lemma reads_opt [reads_intros]: "\<not> ledgered_exn e \<Longrightarrow> reads_only (liftM (opt_or_raise e x))"
  by (cases x) (auto intro: reads_liftM)

lemma reads_bindM [reads_intros]:
  assumes m: "reads_only m" and f: "\<And>x. reads_only (f x)"
  shows "reads_only (bindM m f)"
proof (rule reads_onlyI)
  fix w r w' assume run: "bindM m f w = (r, w')"
  obtain r1 w1 where m1: "m w = (r1, w1)" by (cases "m w")
  note e1 = reads_onlyD [OF m m1]
  show "w'\<lparr>w_faults := w_faults w\<rparr> = w \<and> (\<forall>e. r = Inl e \<longrightarrow> \<not> ledgered_exn e)"
  proof (cases r1)
    case (Inl e)
    with run m1 e1 show ?thesis by auto
  next
    case (Inr x)
    with run m1 have fx: "f x w1 = (r, w')" by simp
    note e2 = reads_onlyD [OF f fx]
    have "w'\<lparr>w_faults := w_faults w\<rparr> = w1\<lparr>w_faults := w_faults w\<rparr>"
      by (subst e2(1) [symmetric]) simp
    with e1 e2 show ?thesis by simp
  qed
qed

lemma reads_if [reads_intros]:
  "(b \<Longrightarrow> reads_only m) \<Longrightarrow> (\<not> b \<Longrightarrow> reads_only m') \<Longrightarrow> reads_only (if b then m else m')"
  by simp

lemma reads_option [reads_intros]:
  "reads_only m \<Longrightarrow> (\<And>y. reads_only (f y)) \<Longrightarrow> reads_only (case x of None \<Rightarrow> m | Some y \<Rightarrow> f y)"
  by (cases x) auto

lemma reads_db_read [reads_intros]:
  "(\<And>d e. f d = Inl e \<Longrightarrow> \<not> ledgered_exn e) \<Longrightarrow> reads_only (db_read f)"
  by (rule reads_onlyI)
    (auto simp: db_read_def db_call_def Let_def split: list.splits fault.splits)

lemma reads_db_get [reads_intros]: "reads_only (db_get f)"
  unfolding db_get_def by (rule reads_db_read) simp

lemma reads_active [reads_intros]: "reads_only (db_read fetch_active_version)"
  by (rule reads_db_read) (auto simp: fetch_active_version_def split: list.splits)

text \<open>What an operation that leaves the tables alone returns, whatever the faults.\<close>

definition yields :: "registry \<Rightarrow> 'a broker \<Rightarrow> ('a \<Rightarrow> bool) \<Rightarrow> bool" where
  "yields r m P \<longleftrightarrow> (\<forall>w x w'. w_db w = r \<longrightarrow> m w = (Inr x, w') \<longrightarrow> w_db w' = r \<and> P x)"

lemma yieldsD: "yields (w_db w) m P \<Longrightarrow> m w = (Inr x, w') \<Longrightarrow> w_db w' = w_db w \<and> P x"
  unfolding yields_def by blast

named_theorems yields_intros \<open>what read-only operations return\<close>

lemma yields_ret [yields_intros]: "P x \<Longrightarrow> yields r (ret x) P"
  by (simp add: yields_def ret_def)

lemma yields_raise [yields_intros]: "yields r (raise e) P"
  by (simp add: yields_def raise_def)

lemma yields_liftM [yields_intros]: "(\<And>x. v = Inr x \<Longrightarrow> P x) \<Longrightarrow> yields r (liftM v) P"
  by (simp add: yields_def liftM_def)

lemma yields_getM [yields_intros]: "(\<And>w. w_db w = r \<Longrightarrow> P (f w)) \<Longrightarrow> yields r (getM f) P"
  by (simp add: yields_def getM_def)

lemma yields_db_get [yields_intros]: "P (f r) \<Longrightarrow> yields r (db_get f) P"
  by (auto simp: yields_def db_get_Inr)

lemma yields_bindM:
  "yields r m R \<Longrightarrow> (\<And>x. R x \<Longrightarrow> yields r (f x) P) \<Longrightarrow> yields r (bindM m f) P"
  unfolding yields_def by (intro allI impI) (elim bindM_InrE, blast)

lemma yields_if [yields_intros]:
  "(b \<Longrightarrow> yields r m P) \<Longrightarrow> (\<not> b \<Longrightarrow> yields r m' P) \<Longrightarrow> yields r (if b then m else m') P"
  by simp

lemma yields_weaken: "yields r m P \<Longrightarrow> (\<And>x. P x \<Longrightarrow> Q x) \<Longrightarrow> yields r m Q"
  unfolding yields_def by blast

section \<open>The ledger discipline\<close>

text \<open>
  \<open>broker_ok\<close> is the invariant of the broker's state. A handler keeps the discipline
  (\<open>one_row\<close>) when a run that returns, or that raises the ledgered marker, has written exactly
  one event, and any other failure has written none. Before the row a handler is \<open>quiet\<close>; after
  it, it is \<open>silent\<close>: it cannot fail.
\<close>

definition broker_ok :: "world \<Rightarrow> bool" where
  "broker_ok w \<longleftrightarrow> registry_ok (w_db w) \<and> store_ok (w_store w) \<and> 0 < max_windows (w_kb w)"

abbreviation rows :: "world \<Rightarrow> retrieval_event list" where
  "rows w \<equiv> events (w_db w)"

definition quiet :: "'a broker \<Rightarrow> bool" where
  "quiet m \<longleftrightarrow> (\<forall>w r w'. broker_ok w \<longrightarrow> m w = (r, w') \<longrightarrow>
     broker_ok w' \<and> rows w' = rows w \<and> (\<forall>e. r = Inl e \<longrightarrow> \<not> ledgered_exn e))"

definition row_after :: "exn + 'a \<Rightarrow> bool" where
  "row_after r \<longleftrightarrow> (case r of Inr _ \<Rightarrow> True | Inl e \<Rightarrow> ledgered_exn e)"

definition one_row :: "'a broker \<Rightarrow> bool" where
  "one_row m \<longleftrightarrow> (\<forall>w r w'. broker_ok w \<longrightarrow> m w = (r, w') \<longrightarrow>
     broker_ok w' \<and> (if row_after r then \<exists>e. rows w' = rows w @ [e] else rows w' = rows w))"

definition silent :: "'a broker \<Rightarrow> bool" where
  "silent m \<longleftrightarrow> (\<forall>w. broker_ok w \<longrightarrow>
     (\<exists>x w'. m w = (Inr x, w') \<and> broker_ok w' \<and> rows w' = rows w))"

lemma quietD:
  "quiet m \<Longrightarrow> broker_ok w \<Longrightarrow> m w = (r, w') \<Longrightarrow>
     broker_ok w' \<and> rows w' = rows w \<and> (\<forall>e. r = Inl e \<longrightarrow> \<not> ledgered_exn e)"
  unfolding quiet_def by blast

lemma one_rowD:
  "one_row m \<Longrightarrow> broker_ok w \<Longrightarrow> m w = (r, w') \<Longrightarrow>
     broker_ok w' \<and> (if row_after r then \<exists>e. rows w' = rows w @ [e] else rows w' = rows w)"
  unfolding one_row_def by blast

lemma silentD:
  "silent m \<Longrightarrow> broker_ok w \<Longrightarrow> \<exists>x w'. m w = (Inr x, w') \<and> broker_ok w' \<and> rows w' = rows w"
  unfolding silent_def by blast

named_theorems ledger_intros \<open>the ledger discipline, operation by operation\<close>

lemma broker_ok_faults [simp]: "broker_ok (w\<lparr>w_faults := fs\<rparr>) = broker_ok w"
  by (simp add: broker_ok_def)

lemma registry_ok_events [simp]: "registry_ok (d\<lparr>events := es\<rparr>) = registry_ok d"
  by (simp add: registry_ok_def)

lemma broker_ok_event [simp]:
  "broker_ok (w\<lparr>w_db := add_event e (w_db w)\<rparr>) = broker_ok w"
  "broker_ok (w\<lparr>w_db := (w_db w)\<lparr>events := es\<rparr>\<rparr>) = broker_ok w"
  by (simp_all add: broker_ok_def add_event_def)

lemma reads_quiet: "reads_only m \<Longrightarrow> quiet m"
  unfolding quiet_def
proof (intro allI impI)
  fix w r w' assume m: "reads_only m" and ok: "broker_ok w" and run: "m w = (r, w')"
  note f = reads_only_fields [OF m run]
  show "broker_ok w' \<and> rows w' = rows w \<and> (\<forall>e. r = Inl e \<longrightarrow> \<not> ledgered_exn e)"
    using ok f reads_onlyD(2) [OF m run] by (simp add: broker_ok_def)
qed

lemma silent_quiet: "silent m \<Longrightarrow> quiet m"
  unfolding quiet_def by (auto dest!: silentD)

lemma quiet_bindM:
  assumes m: "quiet m" and f: "\<And>x w w'. broker_ok w \<Longrightarrow> m w = (Inr x, w') \<Longrightarrow> quiet (f x)"
  shows "quiet (bindM m f)"
  unfolding quiet_def
proof (intro allI impI)
  fix w r w' assume ok: "broker_ok w" and run: "bindM m f w = (r, w')"
  obtain r1 w1 where m1: "m w = (r1, w1)" by (cases "m w")
  note q = quietD [OF m ok m1]
  show "broker_ok w' \<and> rows w' = rows w \<and> (\<forall>e. r = Inl e \<longrightarrow> \<not> ledgered_exn e)"
  proof (cases r1)
    case (Inl e) with q run m1 show ?thesis by auto
  next
    case (Inr x)
    with run m1 have "f x w1 = (r, w')" by simp
    moreover have "quiet (f x)" using f ok m1 Inr by blast
    ultimately show ?thesis using quietD [of "f x" w1 r w'] q by simp
  qed
qed

lemma one_row_bindM:
  assumes m: "quiet m" and f: "\<And>x w w'. broker_ok w \<Longrightarrow> m w = (Inr x, w') \<Longrightarrow> one_row (f x)"
  shows "one_row (bindM m f)"
  unfolding one_row_def
proof (intro allI impI)
  fix w r w' assume ok: "broker_ok w" and run: "bindM m f w = (r, w')"
  obtain r1 w1 where m1: "m w = (r1, w1)" by (cases "m w")
  note q = quietD [OF m ok m1]
  show "broker_ok w' \<and> (if row_after r then \<exists>e. rows w' = rows w @ [e] else rows w' = rows w)"
  proof (cases r1)
    case (Inl e) with q run m1 show ?thesis by (auto simp: row_after_def)
  next
    case (Inr x)
    with run m1 have "f x w1 = (r, w')" by simp
    moreover have "one_row (f x)" using f ok m1 Inr by blast
    ultimately show ?thesis using one_rowD [of "f x" w1 r w'] q by (auto split: if_splits)
  qed
qed

lemma db_down:
  assumes "\<not> db_up w"
  shows "\<exists>e fs. (e = DbError \<or> e = CancelledError) \<and> db_call f w = (Inl e, w\<lparr>w_faults := fs\<rparr>)"
proof -
  from assms obtain x fs where w: "w_faults w = x # fs" "x \<noteq> Fine"
    by (cases "w_faults w") (auto simp: db_up_def)
  then show ?thesis by (cases x) (auto simp: db_call_def)
qed

lemma one_row_insert_event [ledger_intros]: "one_row (insert_event e)"
  unfolding one_row_def
proof (intro allI impI)
  fix w r w' assume ok: "broker_ok w" and run: "insert_event e w = (r, w')"
  show "broker_ok w' \<and> (if row_after r then \<exists>e. rows w' = rows w @ [e] else rows w' = rows w)"
  proof (cases "db_up w")
    case False
    from db_down [OF this, of "\<lambda>d. (Inr (), add_event e d)"] run ok show ?thesis
      by (auto simp: insert_event_def row_after_def)
  next
    case True
    then have "insert_event e w = (Inr (), w\<lparr>w_db := add_event e (w_db w), w_faults := tl (w_faults w)\<rparr>)"
      by (simp add: insert_event_Inr)
    with run ok show ?thesis by (auto simp: row_after_def add_event_def)
  qed
qed

lemma one_row_silent:
  assumes m: "one_row m" and f: "\<And>x. silent (f x)" shows "one_row (bindM m f)"
  unfolding one_row_def
proof (intro allI impI)
  fix w r w' assume ok: "broker_ok w" and run: "bindM m f w = (r, w')"
  obtain r1 w1 where m1: "m w = (r1, w1)" by (cases "m w")
  note q = one_rowD [OF m ok m1]
  show "broker_ok w' \<and> (if row_after r then \<exists>e. rows w' = rows w @ [e] else rows w' = rows w)"
  proof (cases r1)
    case (Inl e) with q run m1 show ?thesis by (auto simp: row_after_def)
  next
    case (Inr x)
    with run m1 have fx: "f x w1 = (r, w')" by simp
    from q have "broker_ok w1" by simp
    from silentD [OF f this, of x] fx have "(\<exists>y. r = Inr y) \<and> broker_ok w' \<and> rows w' = rows w1" by auto
    with q Inr show ?thesis by (auto simp: row_after_def)
  qed
qed

lemma one_row_insert: "silent (f ()) \<Longrightarrow> one_row (bindM (insert_event e) f)"
  by (rule one_row_silent [OF one_row_insert_event]) (case_tac x, simp)

text \<open>A step that either goes on quietly or ends the call, with its row when it is ledgered.\<close>

definition resolves :: "'a broker \<Rightarrow> bool" where
  "resolves m \<longleftrightarrow> (\<forall>w r w'. broker_ok w \<longrightarrow> m w = (r, w') \<longrightarrow> broker_ok w' \<and>
     (case r of Inr _ \<Rightarrow> rows w' = rows w
      | Inl e \<Rightarrow> if ledgered_exn e then \<exists>ev. rows w' = rows w @ [ev] else rows w' = rows w))"

lemma quiet_resolves: "quiet m \<Longrightarrow> resolves m"
  unfolding resolves_def by (auto dest!: quietD split: sum.splits)

lemma one_row_resolves: "one_row m \<Longrightarrow> (\<And>w x w'. m w \<noteq> (Inr x, w')) \<Longrightarrow> resolves m"
  unfolding resolves_def by (auto dest!: one_rowD simp: row_after_def split: sum.splits)

lemma resolves_bindM:
  assumes m: "quiet m" and f: "\<And>x. resolves (f x)" shows "resolves (bindM m f)"
  unfolding resolves_def
proof (intro allI impI)
  fix w r w' assume ok: "broker_ok w" and run: "bindM m f w = (r, w')"
  obtain r1 w1 where m1: "m w = (r1, w1)" by (cases "m w")
  note q = quietD [OF m ok m1]
  show "broker_ok w' \<and> (case r of Inr _ \<Rightarrow> rows w' = rows w
      | Inl e \<Rightarrow> if ledgered_exn e then \<exists>ev. rows w' = rows w @ [ev] else rows w' = rows w)"
  proof (cases r1)
    case (Inl e) with q run m1 show ?thesis by auto
  next
    case (Inr x)
    with run m1 have fx: "f x w1 = (r, w')" by simp
    from f [of x, unfolded resolves_def, rule_format, OF _ fx] q show ?thesis by (auto split: sum.splits)
  qed
qed

lemma one_row_after_resolves:
  assumes m: "resolves m" and f: "\<And>x w w'. broker_ok w \<Longrightarrow> m w = (Inr x, w') \<Longrightarrow> one_row (f x)"
  shows "one_row (bindM m f)"
  unfolding one_row_def
proof (intro allI impI)
  fix w r w' assume ok: "broker_ok w" and run: "bindM m f w = (r, w')"
  obtain r1 w1 where m1: "m w = (r1, w1)" by (cases "m w")
  note q = m [unfolded resolves_def, rule_format, OF ok m1]
  show "broker_ok w' \<and> (if row_after r then \<exists>e. rows w' = rows w @ [e] else rows w' = rows w)"
  proof (cases r1)
    case (Inl e) with q run m1 show ?thesis by (auto simp: row_after_def split: if_splits)
  next
    case (Inr x)
    with run m1 have fx: "f x w1 = (r, w')" by simp
    have "one_row (f x)" using f ok m1 Inr by blast
    from one_rowD [OF this _ fx] q Inr show ?thesis by (auto split: if_splits)
  qed
qed

text \<open>After the row, the marker is raised.\<close>

definition marks :: "'a broker \<Rightarrow> bool" where
  "marks m \<longleftrightarrow> (\<forall>w. \<exists>msg. m w = (Inl (LedgeredToolError msg), w))"

lemma one_row_marker:
  assumes m: "one_row m" and f: "\<And>x. marks (f x)" shows "one_row (bindM m f)"
  unfolding one_row_def
proof (intro allI impI)
  fix w r w' assume ok: "broker_ok w" and run: "bindM m f w = (r, w')"
  obtain r1 w1 where m1: "m w = (r1, w1)" by (cases "m w")
  note q = one_rowD [OF m ok m1]
  show "broker_ok w' \<and> (if row_after r then \<exists>e. rows w' = rows w @ [e] else rows w' = rows w)"
  proof (cases r1)
    case (Inl e) with q run m1 show ?thesis by (auto simp: row_after_def)
  next
    case (Inr x)
    from f obtain msg where "f x w1 = (Inl (LedgeredToolError msg), w1)" unfolding marks_def by blast
    with q run m1 Inr show ?thesis by (auto simp: row_after_def)
  qed
qed

text \<open>A failed write is undone and the failure passed on.\<close>

lemma one_row_refund:
  assumes m: "one_row m" and f: "\<And>s. store_ok s \<Longrightarrow> store_ok (f s)"
  shows "one_row (tryM m (\<lambda>e. bindM (store_mod f) (\<lambda>_. raise e)))"
  unfolding one_row_def
proof (intro allI impI)
  fix w r w'
  assume ok: "broker_ok w" and run: "tryM m (\<lambda>e. bindM (store_mod f) (\<lambda>_. raise e)) w = (r, w')"
  obtain r1 w1 where m1: "m w = (r1, w1)" by (cases "m w")
  note q = one_rowD [OF m ok m1]
  have "broker_ok (w1\<lparr>w_store := f (w_store w1)\<rparr>)" using q f by (simp add: broker_ok_def)
  with q run m1 show "broker_ok w' \<and> (if row_after r then \<exists>e. rows w' = rows w @ [e] else rows w' = rows w)"
    by (cases r1) (auto simp: tryM_def store_mod_def raise_def row_after_def split: if_splits)
qed

lemma silent_ret [ledger_intros]: "silent (ret x)"
  by (simp add: silent_def ret_def)

lemma silent_getM [ledger_intros]: "silent (getM f)"
  by (simp add: silent_def getM_def)

lemma silent_bindM [ledger_intros]:
  assumes "silent m" and "\<And>x. silent (f x)" shows "silent (bindM m f)"
  unfolding silent_def
proof (intro allI impI)
  fix w assume "broker_ok w"
  with silentD [OF assms(1)] obtain x w1 where 1: "m w = (Inr x, w1)" "broker_ok w1" "rows w1 = rows w"
    by blast
  from silentD [OF assms(2) 1(2)] obtain y w2 where "f x w1 = (Inr y, w2)" "broker_ok w2" "rows w2 = rows w1"
    by blast
  with 1 show "\<exists>x w'. bindM m f w = (Inr x, w') \<and> broker_ok w' \<and> rows w' = rows w" by simp
qed

lemma silent_validated [ledger_intros]: "ok \<Longrightarrow> silent (validated ok x)"
  by (simp add: validated_def silent_ret)

lemma silent_store_mod [ledger_intros]:
  "(\<And>s. store_ok s \<Longrightarrow> store_ok (f s)) \<Longrightarrow> silent (store_mod f)"
  by (simp add: silent_def store_mod_def modM_def broker_ok_def)

lemma silent_store_op [ledger_intros]:
  "(\<And>s. store_ok s \<Longrightarrow> store_ok (snd (f s))) \<Longrightarrow> silent (store_op f)"
  by (simp add: silent_def store_op_def Let_def split_def broker_ok_def)

lemma silent_new_pack_id [ledger_intros]: "silent (new_pack_id dp)"
  by (simp add: silent_def new_pack_id_def getM_def modM_def bindM_def ret_def broker_ok_def)

lemma one_row_ledgered_error [ledger_intros]: "one_row (ledgered_error tool subj a msg)"
  unfolding one_row_def
proof (intro allI impI)
  fix w r w' assume ok: "broker_ok w" and run: "ledgered_error tool subj a msg w = (r, w')"
  let ?e = "(event (ea_run_id a) subj tool ''error'' (ea_kb_version a))
       \<lparr>ev_context_pack_id := ea_context_pack_id a, ev_query_text := ea_query_text a,
        ev_details := ea_details a\<rparr>"
  obtain r1 w1 where i: "insert_event ?e w = (r1, w1)" by (cases "insert_event ?e w")
  note q = one_rowD [OF one_row_insert_event ok i]
  have "\<not> ledgered_exn x" if "r1 = Inl x" for x
    using that i db_down [of w "\<lambda>d. (Inr (), add_event ?e d)"]
    by (cases "db_up w") (auto simp: insert_event_def db_call_def db_up_def split: list.splits fault.splits)
  with q run i show "broker_ok w' \<and> (if row_after r then \<exists>e. rows w' = rows w @ [e] else rows w' = rows w)"
    by (cases r1) (auto simp: ledgered_error_def write_error_event_def raise_def row_after_def)
qed

lemma one_row_if [ledger_intros]:
  "(b \<Longrightarrow> one_row m) \<Longrightarrow> (\<not> b \<Longrightarrow> one_row m') \<Longrightarrow> one_row (if b then m else m')"
  by simp

lemma quiet_if [ledger_intros]:
  "(b \<Longrightarrow> quiet m) \<Longrightarrow> (\<not> b \<Longrightarrow> quiet m') \<Longrightarrow> quiet (if b then m else m')"
  by simp

lemma one_row_raise: "\<not> ledgered_exn e \<Longrightarrow> one_row (raise e)"
  by (simp add: one_row_def raise_def row_after_def)

lemma one_row_liftM_bindM:
  "(\<And>e. r = Inl e \<Longrightarrow> \<not> ledgered_exn e) \<Longrightarrow> (\<And>x. r = Inr x \<Longrightarrow> one_row (f x)) \<Longrightarrow> one_row (bindM (liftM r) f)"
  by (cases r) (auto intro: one_row_raise)

end
