(* ===== verification/Temporal.thy ===== *)
theory Temporal
  imports PyText
begin

text \<open>
  \<open>context_broker/temporal.py\<close>: the source kind and state of an artifact, the ranking weight
  they give under a query intent, and the symbol references that mark a document stale. The
  weights are exact rationals; the logging of each factor is left out.
\<close>

section \<open>Kinds and states\<close>

datatype intent = How_does_x_work | Why_was_x_changed | Who_owns_x | What_calls_x

record temporal_signals =
  ts_source_type :: "string option"
  ts_artifact_type :: string
  ts_invalidated :: "int option"
  ts_source_deleted :: bool

record temporal_weight =
  tw_kind :: string
  tw_state :: string
  tw_stale :: bool
  tw_weight :: real

definition CODE_ARTIFACT_TYPES :: "string set" where
  "CODE_ARTIFACT_TYPES = {''code_file'', ''code_symbol'', ''endpoint'', ''test''}"

definition CODE_SOURCE_TYPES :: "string set" where
  "CODE_SOURCE_TYPES = {''github_code''}"

definition PR_ARTIFACT_TYPES :: "string set" where
  "PR_ARTIFACT_TYPES = {''commit'', ''pull_request'', ''pr''}"

definition DOC_SOURCE_TYPES :: "string set" where
  "DOC_SOURCE_TYPES = {''github_doc'', ''azure_wiki''}"

definition DOC_ARTIFACT_TYPES :: "string set" where
  "DOC_ARTIFACT_TYPES = {''doc_chunk'', ''chunk'', ''summary'', ''concept'', ''doc''}"

definition derive_source_kind :: "string option \<Rightarrow> string \<Rightarrow> string" where
  "derive_source_kind source_type artifact_type =
     (if artifact_type \<in> CODE_ARTIFACT_TYPES then ''code''
      else let st = py_lower (case source_type of None \<Rightarrow> [] | Some s \<Rightarrow> s);
               aty = py_lower artifact_type
           in if st \<in> CODE_SOURCE_TYPES then ''code''
              else if aty = ''adr'' \<or> aty = ''decision'' then ''adr''
              else if st = ''ado_card'' \<or> aty = ''card'' \<or> aty = ''work_item'' then ''card''
              else if aty \<in> PR_ARTIFACT_TYPES \<or> st = ''git_metadata'' then ''pr''
              else if st \<in> DOC_SOURCE_TYPES \<or> aty \<in> DOC_ARTIFACT_TYPES then ''doc''
              else ''other'')"

definition derive_state :: "temporal_signals \<Rightarrow> string" where
  "derive_state s =
     (if ts_source_deleted s \<or> ts_invalidated s \<noteq> None then ''superseded'' else ''current'')"

section \<open>Weights\<close>

fun INTENT_KIND_WEIGHT :: "intent \<Rightarrow> (string, real) dict" where
  "INTENT_KIND_WEIGHT How_does_x_work =
     [(''code'', 15/10), (''doc'', 1), (''adr'', 9/10), (''pr'', 8/10), (''card'', 7/10), (''other'', 1)]"
| "INTENT_KIND_WEIGHT Why_was_x_changed =
     [(''card'', 15/10), (''pr'', 15/10), (''adr'', 14/10), (''doc'', 1), (''code'', 9/10), (''other'', 1)]"
| "INTENT_KIND_WEIGHT Who_owns_x =
     [(''pr'', 15/10), (''card'', 13/10), (''code'', 11/10), (''adr'', 1), (''doc'', 9/10), (''other'', 1)]"
| "INTENT_KIND_WEIGHT What_calls_x =
     [(''code'', 14/10), (''doc'', 9/10), (''adr'', 9/10), (''pr'', 9/10), (''card'', 8/10), (''other'', 1)]"

definition SUPERSEDED_WEIGHT :: real where
  "SUPERSEDED_WEIGHT = 6/10"

definition STALE_DOC_WEIGHT :: real where
  "STALE_DOC_WEIGHT = 25/100"

definition kind_weight :: "intent option \<Rightarrow> string \<Rightarrow> real" where
  "kind_weight intent kind = (case intent of None \<Rightarrow> 1
     | Some i \<Rightarrow> (case map_of (INTENT_KIND_WEIGHT i) kind of None \<Rightarrow> 1 | Some w \<Rightarrow> w))"

definition compute_weight :: "intent option \<Rightarrow> temporal_signals \<Rightarrow> bool \<Rightarrow> temporal_weight" where
  "compute_weight intent signals stale_for_intent =
     (let kind = derive_source_kind (ts_source_type signals) (ts_artifact_type signals);
          state = derive_state signals;
          state_weight = (if state = ''superseded'' then SUPERSEDED_WEIGHT else 1);
          stale_weight = (if stale_for_intent then STALE_DOC_WEIGHT else 1)
      in \<lparr>tw_kind = kind, tw_state = state, tw_stale = stale_for_intent,
          tw_weight = kind_weight intent kind * state_weight * stale_weight\<rparr>)"

section \<open>Symbol references\<close>

definition sym_start :: "char \<Rightarrow> bool" where
  "sym_start c \<longleftrightarrow> code CHR ''A'' \<le> code c \<and> code c \<le> code CHR ''Z''
     \<or> code CHR ''a'' \<le> code c \<and> code c \<le> code CHR ''z'' \<or> c = CHR ''_''"

definition sym_char :: "char \<Rightarrow> bool" where
  "sym_char c \<longleftrightarrow> sym_start c \<or> code CHR ''0'' \<le> code c \<and> code c \<le> code CHR ''9'' \<or> c = CHR ''.''"

abbreviation backtick :: char where
  "backtick \<equiv> CHR 0x60"

text \<open>
  \<open>findall\<close> of a backtick-quoted name. A name holds no backtick, so the greedy match is the
  only one that can end at a backtick.
\<close>

definition sym_match :: "string \<Rightarrow> (string \<times> string) option" where
  "sym_match s = (let m = takeWhile sym_char s; rest = dropWhile sym_char s
     in if m \<noteq> [] \<and> sym_start (hd m) \<and> rest \<noteq> [] \<and> hd rest = backtick then Some (m, tl rest) else None)"

function sym_findall :: "string \<Rightarrow> string list" where
  "sym_findall [] = []"
| "sym_findall (c # s) =
     (if c = backtick
      then (case sym_match s of Some (m, rest) \<Rightarrow> m # sym_findall rest | None \<Rightarrow> sym_findall s)
      else sym_findall s)"
  by pat_completeness auto

lemma sym_match_shorter: "sym_match s = Some (m, rest) \<Longrightarrow> length rest < length s"
  using length_dropWhile_le [of sym_char s]
  by (cases "dropWhile sym_char s") (auto simp: sym_match_def Let_def split: if_splits)

termination sym_findall
  by (relation "measure length") (auto dest: sym_match_shorter)

definition MIN_SYMBOL_LEN :: nat where
  "MIN_SYMBOL_LEN = 2"

text \<open>\<open>match.rsplit(".", 1)[-1]\<close>.\<close>

definition last_segment :: "string \<Rightarrow> string" where
  "last_segment m = rev (takeWhile (\<lambda>c. c \<noteq> CHR ''.'') (rev m))"

definition symbol_forms :: "string \<Rightarrow> string list" where
  "symbol_forms m =
     (if length m < MIN_SYMBOL_LEN then []
      else m # (if CHR ''.'' \<in> set m \<and> length (last_segment m) \<ge> MIN_SYMBOL_LEN
                then [last_segment m] else []))"

definition referenced_symbols :: "string option \<Rightarrow> string set" where
  "referenced_symbols text_value = (case text_value of None \<Rightarrow> {}
     | Some t \<Rightarrow> set (concat (map symbol_forms (sym_findall t))))"

definition STALENESS_INTENTS :: "intent set" where
  "STALENESS_INTENTS = {How_does_x_work, What_calls_x}"

definition is_stale_doc_for_intent ::
  "intent option \<Rightarrow> string \<Rightarrow> string option \<Rightarrow> string option \<Rightarrow> string set \<Rightarrow> bool" where
  "is_stale_doc_for_intent intent source_kind body_text title current_symbols =
     (if (case intent of None \<Rightarrow> True | Some i \<Rightarrow> i \<notin> STALENESS_INTENTS) \<or> source_kind \<noteq> ''doc'' then False
      else let refs = referenced_symbols body_text \<union> referenced_symbols title
           in refs \<noteq> {} \<and> (\<exists>x \<in> refs. x \<notin> current_symbols))"

section \<open>Facts\<close>

lemma derive_source_kind_range:
  "derive_source_kind st aty \<in> {''code'', ''doc'', ''card'', ''pr'', ''adr'', ''other''}"
  by (simp add: derive_source_kind_def Let_def)

lemma kind_weight_bounds: "7/10 \<le> kind_weight i k \<and> kind_weight i k \<le> 15/10"
proof (cases i)
  case (Some j)
  show ?thesis by (cases j) (simp_all add: kind_weight_def Some)
qed (simp add: kind_weight_def)

lemma tw_weight_eq:
  "tw_weight (compute_weight i s stale) =
     kind_weight i (derive_source_kind (ts_source_type s) (ts_artifact_type s))
     * (if ts_source_deleted s \<or> ts_invalidated s \<noteq> None then 6/10 else 1) * (if stale then 25/100 else 1)"
  by (simp add: compute_weight_def Let_def derive_state_def SUPERSEDED_WEIGHT_def STALE_DOC_WEIGHT_def)

lemma tw_weight_bounds:
  "0 < tw_weight (compute_weight i s stale) \<and> tw_weight (compute_weight i s stale) \<le> 15/10"
  using kind_weight_bounds [of i "derive_source_kind (ts_source_type s) (ts_artifact_type s)"]
  by (auto simp: tw_weight_eq)

lemma tw_fields:
  "tw_kind (compute_weight i s stale) = derive_source_kind (ts_source_type s) (ts_artifact_type s)"
  "tw_state (compute_weight i s stale) = derive_state s" "tw_stale (compute_weight i s stale) = stale"
  by (simp_all add: compute_weight_def Let_def)

lemma sym_match_eq:
  assumes "sym_match s = Some (m, rest)"
  shows "s = m @ backtick # rest \<and> m \<noteq> [] \<and> sym_start (hd m) \<and> list_all sym_char m"
proof -
  define a where "a = takeWhile sym_char s"
  define b where "b = dropWhile sym_char s"
  have s: "s = a @ b" by (simp add: a_def b_def)
  have c: "list_all sym_char a" by (auto simp: a_def list_all_iff dest: set_takeWhileD)
  have "sym_match s = (if a \<noteq> [] \<and> sym_start (hd a) \<and> b \<noteq> [] \<and> hd b = backtick then Some (a, tl b) else None)"
    by (simp add: sym_match_def Let_def a_def b_def)
  with assms have "a = m" "tl b = rest" "m \<noteq> []" "sym_start (hd m)" "b \<noteq> []" "hd b = backtick"
    by (auto split: if_splits)
  with s c show ?thesis by (metis list.collapse)
qed

lemma in_sym_findall:
  "x \<in> set (sym_findall s) \<Longrightarrow>
     \<exists>u v. s = u @ backtick # x @ backtick # v \<and> x \<noteq> [] \<and> sym_start (hd x) \<and> list_all sym_char x"
proof (induction s rule: sym_findall.induct)
  case (2 c s)
  show ?case
  proof (cases "c = backtick \<and> sym_match s \<noteq> None")
    case True
    then obtain m rest where m: "sym_match s = Some (m, rest)" by auto
    have eq: "s = m @ backtick # rest" and ok: "m \<noteq> [] \<and> sym_start (hd m) \<and> list_all sym_char m"
      using sym_match_eq [OF m] by auto
    from True m "2.prems" have "x = m \<or> x \<in> set (sym_findall rest)" by simp
    then show ?thesis
    proof
      assume "x = m"
      with eq ok True show ?thesis by (intro exI [of _ "[]"] exI [of _ rest]) simp
    next
      assume "x \<in> set (sym_findall rest)"
      with "2.IH"(2) True m obtain u v where "rest = u @ backtick # x @ backtick # v"
        "x \<noteq> []" "sym_start (hd x)" "list_all sym_char x" by blast
      with eq True show ?thesis by (intro exI [of _ "c # m @ backtick # u"] exI [of _ v]) simp
    qed
  next
    case False
    with "2.prems" have "x \<in> set (sym_findall s)"
      by (cases "sym_match s") (auto split: if_splits)
    with "2.IH" False obtain u v where "s = u @ backtick # x @ backtick # v"
      "x \<noteq> []" "sym_start (hd x)" "list_all sym_char x" by blast
    then show ?thesis by (intro exI [of _ "c # u"] exI [of _ v]) simp
  qed
qed simp

lemma stale_iff:
  "is_stale_doc_for_intent i k b t syms \<longleftrightarrow>
     i \<in> {Some How_does_x_work, Some What_calls_x} \<and> k = ''doc''
     \<and> \<not> referenced_symbols b \<union> referenced_symbols t \<subseteq> syms"
proof -
  define R where "R = referenced_symbols b \<union> referenced_symbols t"
  define doc where "doc = ''doc''"
  have "(R \<noteq> {} \<and> (\<exists>x \<in> R. x \<notin> syms)) = (\<not> R \<subseteq> syms)" by blast
  then show ?thesis
    unfolding is_stale_doc_for_intent_def Let_def STALENESS_INTENTS_def R_def [symmetric] doc_def [symmetric]
    by (cases i) auto
qed

end
