(* ===== verification/Retrieval.thy ===== *)
theory Retrieval
  imports Broker Injection Temporal
begin

text \<open>
  \<open>context_broker/retrieval.py\<close>: search hints, hydration, the ACL, the ranking, the collapse
  of near-duplicates, and the evidence cards. The pydantic model of a card rejects an empty
  card type; its other constraints hold of the values passed.
\<close>

section \<open>Cards\<close>

definition SEARCH_OVERSAMPLE :: nat where
  "SEARCH_OVERSAMPLE = 4"

definition temporal_signals_of :: "artifact_row \<Rightarrow> temporal_signals" where
  "temporal_signals_of a = \<lparr>ts_source_type = ar_source_type a, ts_artifact_type = ar_type a,
     ts_invalidated = ar_invalidated a, ts_source_deleted = ar_source_deleted a\<rparr>"

text \<open>\<open>x or default\<close> on an optional string and an optional float.\<close>

definition str_or :: "string option \<Rightarrow> string \<Rightarrow> string" where
  "str_or x d = (case x of None \<Rightarrow> d | Some s \<Rightarrow> if s = [] then d else s)"

definition real_or_0 :: "real option \<Rightarrow> real" where
  "real_or_0 x = (case x of None \<Rightarrow> 0 | Some v \<Rightarrow> v)"

text \<open>A stripped text starts with no line break, so its first line ends at the first one.\<close>

definition card_summary :: "string \<Rightarrow> nat \<Rightarrow> string" where
  "card_summary body max_chars = take max_chars (takeWhile (\<lambda>c. \<not> py_linebreak c) (py_strip body))"

definition readable_path :: "string \<Rightarrow> string" where
  "readable_path source_uri =
     (let rest = (case split_once ''://'' source_uri of Some (_, r) \<Rightarrow> r | None \<Rightarrow> source_uri)
      in if prefix ''github://'' source_uri
         then (case split_once ''/'' rest of None \<Rightarrow> rest
               | Some (_, r1) \<Rightarrow> (case split_once ''/'' r1 of None \<Rightarrow> rest | Some (_, path) \<Rightarrow> path))
         else rest)"

definition display_citation :: "artifact_row \<Rightarrow> string" where
  "display_citation a =
     (let path = readable_path (ar_source_uri a); title = py_strip (str_or (ar_title a) [])
      in if ar_type a \<in> {''code_symbol'', ''endpoint''} \<and> title \<noteq> []
         then (if path \<noteq> [] then path @ '':'' @ title else title)
         else if path \<noteq> [] then path else if title \<noteq> [] then title else uuid_str (ar_id a))"

definition build_card :: "artifact_row \<Rightarrow> temporal_weight option \<Rightarrow> exn + evidence_card" where
  "build_card a temporal =
     (let body = str_or (ar_body a) []; title = str_or (ar_title a) (uuid_str (ar_id a));
          summary = card_summary body 280; scan = scan_for_injection [title, summary]
      in if ar_type a = [] then Inl PydanticValidationError
         else Inr \<lparr>ec_evidence_id = uuid_str (ar_id a), ec_artifact_id = ar_id a, ec_level = ''L1'',
           ec_card_type = ar_type a, ec_title = title, ec_summary = summary,
           ec_source_uri = Some (ar_source_uri a), ec_display_citation = display_citation a,
           ec_confidence = (if ar_kind a = Some ''source_backed'' then 1 else 1/2),
           ec_authority = min (max (real_or_0 (ar_authority a)) 0) 1,
           ec_tokens_if_expanded = int (estimate_tokens body),
           ec_injection_flagged = flagged scan, ec_injection_signals = signals scan,
           ec_source_kind = (case temporal of None \<Rightarrow> derive_source_kind (ar_source_type a) (ar_type a)
             | Some t \<Rightarrow> tw_kind t),
           ec_temporal_state = (case temporal of None \<Rightarrow> derive_state (temporal_signals_of a)
             | Some t \<Rightarrow> tw_state t),
           ec_stale_for_intent = (case temporal of None \<Rightarrow> False | Some t \<Rightarrow> tw_stale t)\<rparr>)"

definition card_tokens :: "deps \<Rightarrow> evidence_card \<Rightarrow> int" where
  "card_tokens dp c = int (estimate_tokens (dp_dump_card dp c))"

section \<open>Ranking\<close>

definition CENTRALITY_BETA :: real where
  "CENTRALITY_BETA = 25/100"

definition rank_key ::
  "(uuid, real) dict \<Rightarrow> (uuid, temporal_weight) dict \<Rightarrow> artifact_row \<Rightarrow> nat \<times> real \<times> real \<times> string" where
  "rank_key scores temporal a =
     (let source_backed = (if ar_kind a = Some ''source_backed'' then 1 else 0);
          base_score = (case map_of scores (ar_id a) of None \<Rightarrow> 0 | Some s \<Rightarrow> s);
          weight = (case map_of temporal (ar_id a) of None \<Rightarrow> 1 | Some t \<Rightarrow> tw_weight t);
          relevance = base_score * weight * (1 + CENTRALITY_BETA * real_or_0 (ar_centrality a))
      in (source_backed, real_or_0 (ar_authority a), relevance, uuid_str (ar_id a)))"

section \<open>Near-duplicates\<close>

definition dedupe_text :: "artifact_row \<Rightarrow> string" where
  "dedupe_text a =
     normalize_query (str_or (ar_title a) (uuid_str (ar_id a)) @ '' '' @ card_summary (str_or (ar_body a) []) 280)"

fun duplicate_in :: "real \<Rightarrow> string \<Rightarrow> (artifact_row \<times> string) list \<Rightarrow> artifact_row option" where
  "duplicate_in threshold txt [] = None"
| "duplicate_in threshold txt ((keeper, keeper_text) # ks) =
     (if threshold \<le> similarity txt keeper_text then Some keeper else duplicate_in threshold txt ks)"

declare duplicate_in.simps [code del]

lemma duplicate_in_code [code]:
  "duplicate_in threshold txt [] = None"
  "duplicate_in threshold txt ((keeper, keeper_text) # ks) =
     (if at_least threshold txt keeper_text then Some keeper else duplicate_in threshold txt ks)"
  by (simp_all add: at_least_iff)

fun collapse_loop ::
  "real \<Rightarrow> (artifact_row \<times> string) list \<Rightarrow> (uuid \<times> uuid) list \<Rightarrow> artifact_row list
   \<Rightarrow> artifact_row list \<times> (uuid \<times> uuid) list" where
  "collapse_loop threshold kept dropped [] = (map fst kept, dropped)"
| "collapse_loop threshold kept dropped (candidate # ranked) =
     (case duplicate_in threshold (dedupe_text candidate) kept of
        None \<Rightarrow> collapse_loop threshold (kept @ [(candidate, dedupe_text candidate)]) dropped ranked
      | Some keeper \<Rightarrow>
          collapse_loop threshold kept (dropped @ [(ar_id candidate, ar_id keeper)]) ranked)"

definition collapse_near_duplicates ::
  "artifact_row list \<Rightarrow> real \<Rightarrow> artifact_row list \<times> (uuid \<times> uuid) list" where
  "collapse_near_duplicates ranked threshold = collapse_loop threshold [] [] ranked"

section \<open>The retrieval path\<close>

definition temporal_of ::
  "intent option \<Rightarrow> string set \<Rightarrow> artifact_row list \<Rightarrow> (uuid, temporal_weight) dict" where
  "temporal_of intent current_symbols allowed =
     dict_update_all [] (map (\<lambda>a. (ar_id a, compute_weight intent (temporal_signals_of a)
       (is_stale_doc_for_intent intent (derive_source_kind (ar_source_type a) (ar_type a))
          (ar_body a) (ar_title a) current_symbols))) allowed)"

definition rank_candidates ::
  "settings \<Rightarrow> (uuid, real) dict \<Rightarrow> (uuid, temporal_weight) dict \<Rightarrow> artifact_row list \<Rightarrow> artifact_row list" where
  "rank_candidates st scores temporal allowed =
     take (max_cards_per_retrieval st)
       (fst (collapse_near_duplicates (sorted_desc (rank_key scores temporal) allowed)
          (semantic_dupe_threshold st)))"

definition retrieve_cards ::
  "deps \<Rightarrow> string \<Rightarrow> int \<Rightarrow> requester \<Rightarrow> intent option
   \<Rightarrow> (evidence_card list \<times> artifact_row list) broker" where
  "retrieve_cards dp query build_seq requester intent =
     (let st = dp_settings dp; top = max_cards_per_retrieval st
      in bindM (getM (\<lambda>w. dp_search dp (w_db w) query build_seq (top * SEARCH_OVERSAMPLE))) (\<lambda>found.
         bindM (liftM (opt_or_raise SearchError found)) (\<lambda>hits.
         if hits = [] then ret ([], [])
         else let scores = dict_update_all [] hits in
           bindM (db_get (\<lambda>r. fetch_artifacts r (map fst scores) build_seq)) (\<lambda>rows.
           bindM (case intent of None \<Rightarrow> ret {}
                  | Some _ \<Rightarrow> db_get (\<lambda>r. fetch_current_symbol_titles r build_seq)) (\<lambda>current_symbols.
           let allowed = filter_artifacts requester rows;
               temporal = temporal_of intent current_symbols allowed;
               ranked = rank_candidates st scores temporal allowed
           in bindM (liftM (mapE (\<lambda>a. build_card a (map_of temporal (ar_id a))) ranked)) (\<lambda>cards.
              ret (cards, ranked)))))))"

section \<open>Facts about cards\<close>

lemma real_or_0_simps [simp]: "real_or_0 None = 0" "real_or_0 (Some v) = v"
  by (simp_all add: real_or_0_def)

lemma build_card_Inr:
  assumes "build_card a t = Inr c"
  shows "ec_artifact_id c = ar_id a" "ec_evidence_id c = uuid_str (ar_id a)" "ar_type a \<noteq> []"
    "ec_title c = str_or (ar_title a) (uuid_str (ar_id a))"
    "0 \<le> ec_authority c" "ec_authority c \<le> 1" "0 \<le> ec_tokens_if_expanded c"
    "ec_tokens_if_expanded c = int (estimate_tokens (str_or (ar_body a) []))"
    "ec_source_kind c = (case t of None \<Rightarrow> derive_source_kind (ar_source_type a) (ar_type a) | Some w \<Rightarrow> tw_kind w)"
    "ec_summary c = card_summary (str_or (ar_body a) []) 280"
  using assms by (auto simp: build_card_def Let_def split: if_splits)

lemma card_tokens_nonneg [simp]: "0 \<le> card_tokens dp c"
  by (simp add: card_tokens_def)

lemma mapE_build_card:
  assumes "mapE (\<lambda>a. build_card a (f a)) as = Inr cs"
  shows "map ec_artifact_id cs = map ar_id as" "map ec_evidence_id cs = map (\<lambda>a. uuid_str (ar_id a)) as"
    "length cs = length as"
  using assms
  by (auto simp: mapE_Inr_iff list_all2_conv_all_nth build_card_Inr intro!: nth_equalityI)

lemma mapE_build_card_in:
  assumes "mapE (\<lambda>a. build_card a (f a)) as = Inr cs" and "c \<in> set cs"
  shows "\<exists>a \<in> set as. build_card a (f a) = Inr c"
  using assms by (rule mapE_in)

section \<open>Facts about the collapse\<close>

lemma duplicate_in_None:
  "duplicate_in th t ks = None \<longleftrightarrow> (\<forall>(k, kt) \<in> set ks. similarity t kt < th)"
  by (induction th t ks rule: duplicate_in.induct) auto

lemma duplicate_in_Some:
  "duplicate_in th t ks = Some k \<Longrightarrow> \<exists>kt. (k, kt) \<in> set ks \<and> th \<le> similarity t kt"
  by (induction th t ks rule: duplicate_in.induct) (auto split: if_splits)

abbreviation near_duplicate :: "real \<Rightarrow> artifact_row \<Rightarrow> artifact_row \<Rightarrow> bool" where
  "near_duplicate th a b \<equiv> th \<le> similarity (dedupe_text a) (dedupe_text b)"

text \<open>Survivors are a subsequence, pairwise no duplicates; each dropped one has a survivor before it.\<close>

lemma collapse_loop_spec:
  assumes "\<forall>(k, kt) \<in> set kept. kt = dedupe_text k"
    and "sorted_wrt (\<lambda>a b. \<not> near_duplicate th b a) (map fst kept)"
    and "collapse_loop th kept dropped ranked = (out, dr)"
  shows "\<exists>new. out = map fst kept @ new \<and> subseq new ranked \<and>
     sorted_wrt (\<lambda>a b. \<not> near_duplicate th b a) out \<and>
     (\<forall>c \<in> set ranked. c \<in> set new \<or> (\<exists>k \<in> set out. near_duplicate th c k))"
  using assms
proof (induction th kept dropped ranked arbitrary: out dr rule: collapse_loop.induct)
  case (2 th kept dropped c ranked)
  show ?case
  proof (cases "duplicate_in th (dedupe_text c) kept")
    case None
    have "\<forall>k \<in> set (map fst kept). \<not> near_duplicate th c k"
      using None "2.prems"(1) by (fastforce simp: duplicate_in_None)
    with "2.prems" None "2.IH"(1) [OF None, of out dr] obtain new where
      "out = map fst (kept @ [(c, dedupe_text c)]) @ new" "subseq new ranked"
      "sorted_wrt (\<lambda>a b. \<not> near_duplicate th b a) out"
      "\<forall>c' \<in> set ranked. c' \<in> set new \<or> (\<exists>k \<in> set out. near_duplicate th c' k)"
      by (auto simp: sorted_wrt_append)
    then show ?thesis by (intro exI [of _ "c # new"]) auto
  next
    case (Some k)
    then obtain kt where "(k, kt) \<in> set kept" "th \<le> similarity (dedupe_text c) kt"
      using duplicate_in_Some by blast
    then have near: "near_duplicate th c k" and k: "k \<in> set (map fst kept)"
      using "2.prems"(1) by (force, force)
    from "2.IH"(2) [OF Some "2.prems"(1,2), of out dr] "2.prems"(3) Some obtain new where
      n: "out = map fst kept @ new" "subseq new ranked"
      "sorted_wrt (\<lambda>a b. \<not> near_duplicate th b a) out"
      "\<forall>c' \<in> set ranked. c' \<in> set new \<or> (\<exists>k \<in> set out. near_duplicate th c' k)"
      by auto
    show ?thesis
    proof (intro exI [of _ new] conjI ballI)
      fix c' assume "c' \<in> set (c # ranked)"
      then show "c' \<in> set new \<or> (\<exists>k \<in> set out. near_duplicate th c' k)"
        using n near k by auto
    qed (use n in auto)
  qed
qed auto

lemma collapse_spec:
  assumes "collapse_near_duplicates ranked th = (kept, dropped)"
  shows "subseq kept ranked" "sorted_wrt (\<lambda>a b. \<not> near_duplicate th b a) kept"
    "c \<in> set ranked \<Longrightarrow> c \<in> set kept \<or> (\<exists>k \<in> set kept. near_duplicate th c k)"
  using collapse_loop_spec [of "[]" th "[]" ranked kept dropped] assms
  by (auto simp: collapse_near_duplicates_def)

section \<open>Facts about the retrieval path\<close>

lemma subseq_set: "subseq xs ys \<Longrightarrow> set xs \<subseteq> set ys"
  by (rule subsetI) (metis subseq_conv_nths set_nths_subset subsetD)

lemma subseq_distinct: "subseq xs ys \<Longrightarrow> distinct ys \<Longrightarrow> distinct xs"
  by (metis subseq_conv_nths distinct_nthsI)

lemma subseq_take: "subseq (take n xs) xs"
  using prefix_imp_subseq take_is_prefix by blast

lemma rank_candidates_subseq:
  "subseq (rank_candidates st scores temporal allowed) (sorted_desc (rank_key scores temporal) allowed)"
proof -
  obtain kept dropped where c: "collapse_near_duplicates (sorted_desc (rank_key scores temporal) allowed)
      (semantic_dupe_threshold st) = (kept, dropped)" by force
  have "subseq (take (max_cards_per_retrieval st) kept) kept"
    by (rule subseq_take)
  then show ?thesis using collapse_spec(1) [OF c] c
    by (auto simp: rank_candidates_def intro: subseq_order.trans)
qed

lemma mapE_build_card_exn:
  "mapE (\<lambda>a. build_card a (f a)) as = Inl e \<Longrightarrow> e = PydanticValidationError"
  by (induction as) (auto simp: build_card_def Let_def split: sum.splits if_splits)

lemma retrieve_cards_reads [reads_intros]: "reads_only (retrieve_cards dp q seq rq intent)"
  unfolding retrieve_cards_def Let_def
  by (intro reads_intros) (auto dest: mapE_build_card_exn)

text \<open>What a retrieval returns, on every run that returns.\<close>

inductive retrieved ::
  "deps \<Rightarrow> registry \<Rightarrow> int \<Rightarrow> requester \<Rightarrow> evidence_card list \<Rightarrow> artifact_row list \<Rightarrow> bool"
  for dp r seq rq where
  nothing: "retrieved dp r seq rq [] []"
| cards: "ranked = rank_candidates (dp_settings dp) scores temporal (filter_artifacts rq (fetch_artifacts r ids seq))
    \<Longrightarrow> mapE (\<lambda>a. build_card a (map_of temporal (ar_id a))) ranked = Inr cs \<Longrightarrow> retrieved dp r seq rq cs ranked"

lemma retrieve_cards_Inr:
  assumes "retrieve_cards dp q seq rq intent w = (Inr (cards, ranked), w')"
  shows "length cards \<le> max_cards_per_retrieval (dp_settings dp)"
    and "c \<in> set cards \<Longrightarrow> \<exists>row \<in> set ranked. ar_id row = ec_artifact_id c
      \<and> ec_evidence_id c = uuid_str (ar_id row)"
    and "row \<in> set ranked \<Longrightarrow> \<exists>ids. row \<in> set (fetch_artifacts (w_db w) ids seq) \<and> acl_admits rq (ar_acl row)"
    and "registry_ok (w_db w) \<Longrightarrow> distinct (map ec_artifact_id cards)"
    and "map ec_artifact_id cards = map ar_id ranked"
    and "sorted_wrt (\<lambda>a b. \<not> near_duplicate (semantic_dupe_threshold (dp_settings dp)) b a) ranked"
proof -
  let ?st = "dp_settings dp"
  have "retrieved dp (w_db w) seq rq cards ranked"
    using assms unfolding retrieve_cards_def Let_def
    by (auto simp: op_iff split: if_splits option.splits intro: retrieved.intros)
  then consider "cards = []" "ranked = []" | scores temporal ids where
      "ranked = rank_candidates ?st scores temporal (filter_artifacts rq (fetch_artifacts (w_db w) ids seq))"
      "mapE (\<lambda>a. build_card a (map_of temporal (ar_id a))) ranked = Inr cards"
    by cases
  note cs = this
  show "length cards \<le> max_cards_per_retrieval ?st"
    using cs by cases (auto simp: mapE_build_card(3) rank_candidates_def)
  show ids: "map ec_artifact_id cards = map ar_id ranked"
    using cs by cases (auto simp: mapE_build_card(1))
  show "\<exists>row \<in> set ranked. ar_id row = ec_artifact_id c \<and> ec_evidence_id c = uuid_str (ar_id row)"
    if "c \<in> set cards"
    using cs
  proof cases
    case 2
    from mapE_build_card_in [OF 2(2) that] obtain a where
      "a \<in> set ranked" "build_card a (map_of temporal (ar_id a)) = Inr c" by blast
    with build_card_Inr(1,2) [OF this(2)] show ?thesis by auto
  qed (use that in simp)
  show "\<exists>ids. row \<in> set (fetch_artifacts (w_db w) ids seq) \<and> acl_admits rq (ar_acl row)"
    if "row \<in> set ranked"
    using cs
  proof cases
    case 2
    have "row \<in> set (filter_artifacts rq (fetch_artifacts (w_db w) ids seq))"
      using subseq_set [OF rank_candidates_subseq] that 2(1) by fastforce
    then show ?thesis using team_acl.flt_iff by blast
  qed (use that in simp)
  show "distinct (map ec_artifact_id cards)" if ok: "registry_ok (w_db w)"
    using cs
  proof cases
    case 2
    have "distinct (map ar_id (filter_artifacts rq (fetch_artifacts (w_db w) ids seq)))"
      by (rule team_acl.flt_distinct) (rule fetch_artifacts_distinct [OF ok])
    then have "distinct (map ar_id (sorted_desc (rank_key scores temporal)
        (filter_artifacts rq (fetch_artifacts (w_db w) ids seq))))"
      by (rule distinct_map_sorted_desc)
    then have "distinct (map ar_id ranked)"
      using subseq_distinct [OF subseq_map [OF rank_candidates_subseq]] 2(1) by metis
    with ids show ?thesis by simp
  qed simp
  show "sorted_wrt (\<lambda>a b. \<not> near_duplicate (semantic_dupe_threshold ?st) b a) ranked"
    using cs
  proof cases
    case 2
    obtain kept dropped where "collapse_near_duplicates (sorted_desc (rank_key scores temporal)
      (filter_artifacts rq (fetch_artifacts (w_db w) ids seq))) (semantic_dupe_threshold ?st) = (kept, dropped)"
      by force
    with collapse_spec(2) [OF this] 2(1) show ?thesis
      by (simp add: rank_candidates_def sorted_wrt_take)
  qed simp
qed

end
