(* ===== verification/Trust.thy ===== *)
theory Trust
  imports Prelude
begin

text \<open>\<open>context_broker/trust.py\<close>: the trust buckets and their admission at read time.\<close>

definition TRUST_ORDER :: "string list" where
  "TRUST_ORDER = [''REJECTED'', ''AMBIGUOUS'', ''INFERRED_LOW'', ''INFERRED_HIGH'', ''EXTRACTED'']"

definition RANK :: "(string, nat) dict" where
  "RANK = zip TRUST_ORDER [0..<length TRUST_ORDER]"

definition NEVER_RETURNED :: "string set" where
  "NEVER_RETURNED = {''REJECTED'', ''AMBIGUOUS''}"

definition INFERRED :: "string set" where
  "INFERRED = {''INFERRED_LOW'', ''INFERRED_HIGH''}"

definition CLAIM_SUPPORTING :: string where
  "CLAIM_SUPPORTING = ''EXTRACTED''"

definition rank :: "string \<Rightarrow> nat" where
  "rank trust_class = (case map_of RANK trust_class of
     None \<Rightarrow> the (map_of RANK ''AMBIGUOUS'') | Some r \<Rightarrow> r)"

definition admits :: "string \<Rightarrow> string \<Rightarrow> bool \<Rightarrow> bool" where
  "admits trust_class trust_floor include_inferred =
     (let normalized = (if map_of RANK trust_class \<noteq> None then trust_class else ''AMBIGUOUS'')
      in if normalized \<in> NEVER_RETURNED then False
         else if normalized \<in> INFERRED then
           (if \<not> include_inferred then False
            else let floor_for_inferred = (if trust_floor \<in> INFERRED then trust_floor else TRUST_ORDER ! 0)
                 in rank normalized \<ge> rank floor_for_inferred)
         else rank normalized \<ge> rank trust_floor)"

definition is_claim_supporting :: "string \<Rightarrow> bool" where
  "is_claim_supporting trust_class \<longleftrightarrow> trust_class = CLAIM_SUPPORTING"

section \<open>The admission table\<close>

lemma RANK_eval:
  "RANK = [(''REJECTED'', 0), (''AMBIGUOUS'', 1), (''INFERRED_LOW'', 2), (''INFERRED_HIGH'', 3),
           (''EXTRACTED'', 4)]"
  by (simp add: RANK_def TRUST_ORDER_def upt_rec)

lemma rank_simps [simp]:
  "rank ''REJECTED'' = 0" "rank ''AMBIGUOUS'' = 1" "rank ''INFERRED_LOW'' = 2"
  "rank ''INFERRED_HIGH'' = 3" "rank ''EXTRACTED'' = 4"
  by (simp_all add: rank_def RANK_eval)

lemma rank_unknown: "t \<notin> set TRUST_ORDER \<Longrightarrow> rank t = 1"
  by (simp add: rank_def RANK_eval TRUST_ORDER_def)

lemma rank_le_4: "rank t \<le> 4"
  by (simp add: rank_def RANK_eval)

text \<open>What surfaces, case by case: an edge is admitted only by the rows of this table.\<close>

lemma admits_iff:
  "admits t flr inc \<longleftrightarrow>
     t = ''EXTRACTED'' \<or>
     inc \<and> t = ''INFERRED_HIGH'' \<or>
     inc \<and> t = ''INFERRED_LOW'' \<and> flr \<noteq> ''INFERRED_HIGH''"
proof (cases "t \<in> set TRUST_ORDER")
  case True
  then have "t = ''REJECTED'' \<or> t = ''AMBIGUOUS'' \<or> t = ''INFERRED_LOW''
    \<or> t = ''INFERRED_HIGH'' \<or> t = ''EXTRACTED''"
    by (simp add: TRUST_ORDER_def)
  then show ?thesis
  proof (elim disjE)
    assume t: "t = ''INFERRED_LOW''"
    show ?thesis
      by (cases "flr = ''INFERRED_HIGH''"; cases "flr = ''INFERRED_LOW''")
        (simp_all add: t admits_def RANK_eval NEVER_RETURNED_def INFERRED_def TRUST_ORDER_def)
  next
    assume t: "t = ''INFERRED_HIGH''"
    show ?thesis
      by (cases "flr = ''INFERRED_HIGH''"; cases "flr = ''INFERRED_LOW''")
        (simp_all add: t admits_def RANK_eval NEVER_RETURNED_def INFERRED_def TRUST_ORDER_def)
  qed (simp_all add: admits_def RANK_eval NEVER_RETURNED_def INFERRED_def rank_le_4)
next
  case False
  then show ?thesis
    by (simp add: admits_def Let_def RANK_eval NEVER_RETURNED_def TRUST_ORDER_def)
qed

lemma admits_never: "t \<in> NEVER_RETURNED \<or> t \<notin> set TRUST_ORDER \<Longrightarrow> \<not> admits t flr inc"
  by (auto simp: admits_iff NEVER_RETURNED_def TRUST_ORDER_def)

lemma admits_extracted_only: "admits t flr False \<longleftrightarrow> t = ''EXTRACTED''"
  by (simp add: admits_iff)

lemma admits_mono_inferred: "admits t flr False \<Longrightarrow> admits t flr inc"
  by (simp add: admits_iff)

end
