(* ===== verification/Traverse.thy ===== *)
theory Traverse
  imports Retrieval Trust
begin

text \<open>
  What \<open>graph.py\<close> and \<open>expand.py\<close> share: the scan of one hop's edges, and the relation it
  computes. An edge leads from a frontier node to its other end when its trust bucket is
  admitted and that end is new; the end is marked visited at once.
\<close>

record hop_edge =
  he_neighbor :: uuid
  he_direction :: string
  he_edge :: edge_row

text \<open>The three-way test of one edge: outgoing to a new node, incoming from one, or neither.\<close>

definition edge_hop :: "string \<Rightarrow> bool \<Rightarrow> uuid set \<Rightarrow> uuid set \<Rightarrow> edge_row \<Rightarrow> hop_edge option" where
  "edge_hop trust_floor include_inferred frontier visited e =
     (if \<not> admits (er_trust e) trust_floor include_inferred then None
      else if er_from e \<in> frontier \<and> er_to e \<notin> visited
      then Some \<lparr>he_neighbor = er_to e, he_direction = ''out'', he_edge = e\<rparr>
      else if er_to e \<in> frontier \<and> er_from e \<notin> visited
      then Some \<lparr>he_neighbor = er_from e, he_direction = ''in'', he_edge = e\<rparr>
      else None)"

fun scan_edges ::
  "string \<Rightarrow> bool \<Rightarrow> uuid set \<Rightarrow> uuid set \<Rightarrow> edge_row list \<Rightarrow> hop_edge list \<times> uuid set" where
  "scan_edges trust_floor include_inferred frontier visited [] = ([], visited)"
| "scan_edges trust_floor include_inferred frontier visited (e # es) =
     (case edge_hop trust_floor include_inferred frontier visited e of
        None \<Rightarrow> scan_edges trust_floor include_inferred frontier visited es
      | Some h \<Rightarrow>
          (let (cs, v) = scan_edges trust_floor include_inferred frontier (insert (he_neighbor h) visited) es
           in (h # cs, v)))"

section \<open>The step relation of a traversal\<close>

text \<open>\<open>e\<close> joins \<open>u\<close> to \<open>v\<close> in either direction.\<close>

definition joins :: "edge_row \<Rightarrow> uuid \<Rightarrow> uuid \<Rightarrow> bool" where
  "joins e u v \<longleftrightarrow> (er_from e = u \<and> er_to e = v) \<or> (er_to e = u \<and> er_from e = v)"

definition hop_ok :: "string \<Rightarrow> bool \<Rightarrow> uuid set \<Rightarrow> hop_edge \<Rightarrow> bool" where
  "hop_ok trust_floor include_inferred frontier h \<longleftrightarrow>
     admits (er_trust (he_edge h)) trust_floor include_inferred
     \<and> (\<exists>u \<in> frontier. joins (he_edge h) u (he_neighbor h))"

lemma edge_hop_Some:
  assumes "edge_hop fl inc F V e = Some h"
  shows "hop_ok fl inc F h" "he_edge h = e" "he_neighbor h \<notin> V" "joins e u v \<Longrightarrow> he_neighbor h \<in> {u, v}"
  using assms by (auto simp: edge_hop_def hop_ok_def joins_def split: if_splits)

lemma edge_hop_None:
  assumes "edge_hop fl inc F V e = None" and "admits (er_trust e) fl inc" and "joins e u v" and "u \<in> F"
  shows "v \<in> V"
  using assms by (auto simp: edge_hop_def joins_def split: if_splits)

lemma scan_edges_hop_ok:
  "h \<in> set (fst (scan_edges fl inc F V es)) \<Longrightarrow> hop_ok fl inc F h \<and> he_edge h \<in> set es \<and> he_neighbor h \<notin> V"
proof (induction fl inc F V es rule: scan_edges.induct)
  case (2 fl inc F V e es)
  show ?case
  proof (cases "edge_hop fl inc F V e")
    case None
    with 2 show ?thesis by auto
  next
    case (Some k)
    then have "h = k \<or> h \<in> set (fst (scan_edges fl inc F (insert (he_neighbor k) V) es))"
      using "2.prems" by (auto simp: Let_def split_def)
    with "2.IH"(2) [OF Some] edge_hop_Some(1-3) [OF Some] show ?thesis by auto
  qed
qed simp

lemma scan_edges_visited:
  "snd (scan_edges fl inc F V es) = V \<union> he_neighbor ` set (fst (scan_edges fl inc F V es))"
  by (induction fl inc F V es rule: scan_edges.induct) (auto simp: Let_def split_def split: option.splits)

lemma scan_edges_distinct: "distinct (map he_neighbor (fst (scan_edges fl inc F V es)))"
proof (induction fl inc F V es rule: scan_edges.induct)
  case (2 fl inc F V e es)
  show ?case
  proof (cases "edge_hop fl inc F V e")
    case (Some k)
    have "he_neighbor k \<notin> he_neighbor ` set (fst (scan_edges fl inc F (insert (he_neighbor k) V) es))"
      using scan_edges_hop_ok by fastforce
    with Some "2.IH"(2) [OF Some] show ?thesis by (simp add: Let_def split_def)
  qed (use 2 in simp)
qed simp

lemma scan_edges_complete:
  assumes "e \<in> set es" and "admits (er_trust e) fl inc" and "joins e u v" and "u \<in> F" and "F \<subseteq> V"
  shows "v \<in> snd (scan_edges fl inc F V es)"
  using assms
proof (induction fl inc F V es rule: scan_edges.induct)
  case (2 fl inc F V e' es)
  have mono: "V \<subseteq> snd (scan_edges fl inc F V es)" for V
    using scan_edges_visited by blast
  show ?case
  proof (cases "edge_hop fl inc F V e'")
    case None
    show ?thesis
    proof (cases "e = e'")
      case True
      then have "v \<in> V" using edge_hop_None [OF None] "2.prems" by blast
      with None mono [of V] show ?thesis by auto
    qed (use None 2 in simp)
  next
    case (Some k)
    show ?thesis
    proof (cases "e = e'")
      case True
      have "v \<in> insert (he_neighbor k) V"
        using edge_hop_Some(3,4) [OF Some] True "2.prems" by auto
      with mono [of "insert (he_neighbor k) V"]
      have "v \<in> snd (scan_edges fl inc F (insert (he_neighbor k) V) es)" by blast
      with Some show ?thesis by (simp add: Let_def split_def)
    next
      case False
      with Some "2.prems" "2.IH"(2) [OF Some] show ?thesis by (auto simp: Let_def split_def)
    qed
  qed
qed simp

text \<open>The nodes one hop adds: the new ends of admitted edges at the frontier.\<close>

lemma scan_edges_neighbors:
  assumes "F \<subseteq> V"
  shows "he_neighbor ` set (fst (scan_edges fl inc F V es)) =
     {v. v \<notin> V \<and> (\<exists>e \<in> set es. \<exists>u \<in> F. admits (er_trust e) fl inc \<and> joins e u v)}"
proof (intro equalityI subsetI)
  fix v assume "v \<in> he_neighbor ` set (fst (scan_edges fl inc F V es))"
  then obtain h where "h \<in> set (fst (scan_edges fl inc F V es))" "v = he_neighbor h" by auto
  with scan_edges_hop_ok [OF this(1)] show "v \<in> {v. v \<notin> V \<and> (\<exists>e \<in> set es. \<exists>u \<in> F. admits (er_trust e) fl inc \<and> joins e u v)}"
    by (auto simp: hop_ok_def)
next
  fix v assume "v \<in> {v. v \<notin> V \<and> (\<exists>e \<in> set es. \<exists>u \<in> F. admits (er_trust e) fl inc \<and> joins e u v)}"
  then obtain e u where "v \<notin> V" "e \<in> set es" "u \<in> F" "admits (er_trust e) fl inc" "joins e u v" by auto
  with scan_edges_complete [of e es fl inc u v F V] assms scan_edges_visited [of fl inc F V es]
  show "v \<in> he_neighbor ` set (fst (scan_edges fl inc F V es))" by auto
qed

section \<open>Reachability through visible nodes\<close>

text \<open>
  The graph a traversal walks: \<open>step u v\<close> when an edge of the build whose bucket is admitted
  joins them, \<open>visible v\<close> when \<open>v\<close> has a row the caller may see. A path never leaves the
  visible nodes and never enters an avoided one.
\<close>

definition graph_step ::
  "registry \<Rightarrow> int \<Rightarrow> string list option \<Rightarrow> string \<Rightarrow> bool \<Rightarrow> uuid \<Rightarrow> uuid \<Rightarrow> bool" where
  "graph_step r build_seq edge_types trust_floor include_inferred u v \<longleftrightarrow>
     (\<exists>e \<in> set (fetch_edges_touching r [u] build_seq edge_types).
        admits (er_trust e) trust_floor include_inferred \<and> joins e u v)"

definition visible :: "registry \<Rightarrow> int \<Rightarrow> requester \<Rightarrow> uuid \<Rightarrow> bool" where
  "visible r build_seq rq u \<longleftrightarrow> filter_artifacts rq (fetch_artifacts r [u] build_seq) \<noteq> []"

inductive reachable :: "(uuid \<Rightarrow> uuid \<Rightarrow> bool) \<Rightarrow> (uuid \<Rightarrow> bool) \<Rightarrow> uuid set \<Rightarrow> uuid set \<Rightarrow> uuid \<Rightarrow> bool"
  for step vis F V where
  start: "u \<in> F \<Longrightarrow> reachable step vis F V u"
| step: "reachable step vis F V u \<Longrightarrow> step u v \<Longrightarrow> v \<notin> V \<Longrightarrow> vis v \<Longrightarrow> reachable step vis F V v"

inductive_cases reachableE: "reachable step vis F V u"

inductive_simps reachable_empty: "reachable step vis {} V u"

lemma not_reachable_empty: "\<not> reachable step vis {} V u"
proof
  assume "reachable step vis {} V u" then show False by induction auto
qed

text \<open>One hop of a breadth-first search, as an equation on what remains to be found.\<close>

lemma reachable_hop:
  fixes step vis F V
  defines "N \<equiv> {v. v \<notin> V \<and> (\<exists>u \<in> F. step u v)}"
  defines "A \<equiv> {v \<in> N. vis v}"
  assumes "F \<subseteq> V"
  shows "{v. reachable step vis F V v \<and> v \<notin> V} = A \<union> {v. reachable step vis A (V \<union> N) v \<and> v \<notin> V \<union> N}"
proof (intro equalityI subsetI)
  fix v assume "v \<in> {v. reachable step vis F V v \<and> v \<notin> V}"
  then have "reachable step vis F V v" "v \<notin> V" by auto
  then have "v \<in> A \<union> {v. reachable step vis A (V \<union> N) v \<and> v \<notin> V \<union> N}"
  proof (induction rule: reachable.induct)
    case (start u)
    with assms(3) show ?case by blast
  next
    case (step u v)
    show ?case
    proof (cases "v \<in> N")
      case True
      with step show ?thesis by (simp add: A_def)
    next
      case False
      with step have "u \<notin> F" unfolding N_def by auto
      have "u \<notin> V"
        using step.hyps(1) \<open>u \<notin> F\<close> by (cases rule: reachable.cases) auto
      with step.IH have "reachable step vis A (V \<union> N) u"
        by (auto intro: reachable.start)
      with step False show ?thesis by (auto intro: reachable.step)
    qed
  qed
  then show "v \<in> A \<union> {v. reachable step vis A (V \<union> N) v \<and> v \<notin> V \<union> N}" .
next
  have A: "reachable step vis F V a \<and> a \<notin> V" if "a \<in> A" for a
    using that by (auto simp: A_def N_def intro: reachable.intros)
  have "reachable step vis F V v" if "reachable step vis A (V \<union> N) v" for v
    using that by induction (auto simp: A intro: reachable.step)
  with A show "v \<in> {v. reachable step vis F V v \<and> v \<notin> V}"
    if "v \<in> A \<union> {v. reachable step vis A (V \<union> N) v \<and> v \<notin> V \<union> N}" for v
    using that by auto
qed

section \<open>Visible rows\<close>

lemma visible_iff:
  "visible r seq rq u \<longleftrightarrow> (\<exists>row \<in> set (fetch_artifacts r [u] seq). acl_admits rq (ar_acl row))"
  by (auto simp: visible_def filter_artifacts_def filter_empty_conv)

lemma fetch_artifacts_single:
  "row \<in> set (fetch_artifacts r ids seq) \<longleftrightarrow> ar_id row \<in> set ids \<and> row \<in> set (fetch_artifacts r [ar_id row] seq)"
proof -
  have id: "ar_id (artifact_row_of a s) = ka_id a" for a s by (simp add: artifact_row_of_def)
  show ?thesis
  proof
    assume "row \<in> set (fetch_artifacts r ids seq)"
    then obtain a s where "a \<in> set (artifacts r)" "s \<in> set (sources r)" "src_id s = ka_source a"
      "ka_id a \<in> set ids" "artifact_member seq a" "row = artifact_row_of a s"
      unfolding in_fetch_artifacts by blast
    then show "ar_id row \<in> set ids \<and> row \<in> set (fetch_artifacts r [ar_id row] seq)"
      unfolding in_fetch_artifacts by (intro conjI exI [of _ a] exI [of _ s]) (simp_all add: id)
  next
    assume h: "ar_id row \<in> set ids \<and> row \<in> set (fetch_artifacts r [ar_id row] seq)"
    then obtain a s where "a \<in> set (artifacts r)" "s \<in> set (sources r)" "src_id s = ka_source a"
      "ka_id a \<in> set [ar_id row]" "artifact_member seq a" "row = artifact_row_of a s"
      unfolding in_fetch_artifacts by blast
    with h show "row \<in> set (fetch_artifacts r ids seq)"
      unfolding in_fetch_artifacts by (intro exI [of _ a] exI [of _ s]) simp
  qed
qed

text \<open>\<open>{a.artifact_id: a for a in allowed}\<close>.\<close>

definition rows_by_id :: "artifact_row list \<Rightarrow> (uuid, artifact_row) dict" where
  "rows_by_id as = dict_update_all [] (map (\<lambda>a. (ar_id a, a)) as)"

lemma rows_by_id_Some: "map_of (rows_by_id as) u = Some a \<Longrightarrow> a \<in> set as \<and> ar_id a = u"
proof -
  assume "map_of (rows_by_id as) u = Some a"
  then have "(u, a) \<in> set (rows_by_id as)" by (rule map_of_SomeD)
  then show ?thesis unfolding rows_by_id_def
    using set_dict_update_all_subset [of "[]" "map (\<lambda>a. (ar_id a, a)) as"] by auto
qed

lemma rows_by_id_keys: "fst ` set (rows_by_id as) = ar_id ` set as"
  unfolding rows_by_id_def set_dict_update_all by (auto simp: image_iff)

lemma rows_by_id_None: "map_of (rows_by_id as) u = None \<longleftrightarrow> u \<notin> ar_id ` set as"
  using rows_by_id_keys by (metis map_of_eq_None_iff)

lemma allowed_visible:
  assumes "u \<in> set ids"
  shows "map_of (rows_by_id (filter_artifacts rq (fetch_artifacts r ids seq))) u \<noteq> None \<longleftrightarrow> visible r seq rq u"
proof -
  have "u \<in> ar_id ` set (filter_artifacts rq (fetch_artifacts r ids seq)) \<longleftrightarrow>
      (\<exists>row \<in> set (fetch_artifacts r ids seq). ar_id row = u \<and> acl_admits rq (ar_acl row))"
    by (auto simp: filter_artifacts_def)
  also have "\<dots> \<longleftrightarrow> (\<exists>row \<in> set (fetch_artifacts r [u] seq). acl_admits rq (ar_acl row))"
    using assms fetch_artifacts_single fetch_artifacts_id by (metis empty_iff empty_set set_ConsD)
  finally show ?thesis
    unfolding visible_iff using rows_by_id_None [of "filter_artifacts rq (fetch_artifacts r ids seq)" u] by simp
qed

lemma edges_hop:
  "(\<exists>e \<in> set (fetch_edges_touching r ids seq ts). \<exists>u \<in> set ids. admits (er_trust e) fl inc \<and> joins e u v)
     \<longleftrightarrow> (\<exists>u \<in> set ids. graph_step r seq ts fl inc u v)"
proof -
  have "e \<in> set (fetch_edges_touching r ids seq ts) \<longleftrightarrow> e \<in> set (fetch_edges_touching r [u] seq ts)"
    if "u \<in> set ids" "joins e u v" for e u
    using that by (auto simp: in_fetch_edges joins_def edge_row_of_def)
  then show ?thesis unfolding graph_step_def by blast
qed

end
