(* ===== verification/ChangeContext.thy ===== *)
theory ChangeContext
  imports Paths Traverse "HOL-Library.Product_Lexorder"
begin

text \<open>
  \<open>context_broker/change_context.py\<close>: \<open>context.create_change_pack\<close>, the file selector of the build
  lane. The target files come from the hints of the task, the test files from the graph, the
  registry, a focused search or a naming convention, the dependency files from the target's
  imports. Python iterates over sets of paths in an arbitrary order: \<open>ord\<close> is that order. Scores
  are reals. Characters are 8-bit: the arrow and the dash of two literal texts are \<open>->\<close> and \<open>-\<close>.
\<close>

section \<open>Requests and responses (tool_schemas/change.py)\<close>

record change_request =
  cc_task :: string
  cc_hint :: "string option"
  cc_budget :: int
  cc_run_id :: "string option"

record file_ref =
  fr_path :: string
  fr_reason :: string
  fr_confidence :: real
  fr_tokens :: nat

record change_response =
  ch_targets :: "file_ref list"
  ch_tests :: "file_ref list"
  ch_deps :: "file_ref list"
  ch_symbols :: "string list"
  ch_notes :: "string list"

text \<open>The constructor of \<open>FileRef\<close> with its field constraints.\<close>

definition file_ref :: "string \<Rightarrow> string \<Rightarrow> real \<Rightarrow> nat \<Rightarrow> exn + file_ref" where
  "file_ref path reason conf toks =
     (if path = [] \<or> reason = [] \<or> conf < 0 \<or> 1 < conf then Inl PydanticValidationError
      else Inr \<lparr>fr_path = path, fr_reason = reason, fr_confidence = conf, fr_tokens = toks\<rparr>)"

definition set_order :: "('a set \<Rightarrow> 'a list) \<Rightarrow> bool" where
  "set_order ord \<longleftrightarrow> (\<forall>S. finite S \<longrightarrow> set (ord S) = S \<and> distinct (ord S))"

section \<open>Files and their sizes\<close>

definition MAX_DEPENDENCY_FILES :: nat where "MAX_DEPENDENCY_FILES = 2"
definition MAX_TEST_FILES :: nat where "MAX_TEST_FILES = 3"
definition CHANGE_SEARCH_TOP :: nat where "CHANGE_SEARCH_TOP = 12"
definition CHANGE_CODE_TYPES :: "string set" where
  "CHANGE_CODE_TYPES = {''code_symbol'', ''code_file'', ''endpoint'', ''test''}"

definition UBIQUITOUS_UTIL_STEMS :: "string set" where
  "UBIQUITOUS_UTIL_STEMS = {''structured_logging'', ''logging'', ''logger'', ''log'', ''telemetry'', ''tracing'', ''metrics''}"

definition CONTRACT_KINDS :: "string list" where
  "CONTRACT_KINDS = [''Error'', ''Exception'', ''Client'', ''Response'', ''Request'', ''Config'', ''Protocol'', ''Backend'',
     ''Base'', ''Spec'']"

text \<open>\<open>_CONTRACT_RE\<close>: its \<open>$\<close> also matches before a final line break.\<close>

definition is_contract :: "string \<Rightarrow> bool" where
  "is_contract t \<longleftrightarrow> list_ex (\<lambda>k. suffix k t \<or> suffix (k @ [CHR 0x0A]) t) CONTRACT_KINDS"

definition file_of :: "artifact_row \<Rightarrow> string" where
  "file_of a = readable_path (ar_source_uri a)"

definition add_chars :: "string \<Rightarrow> artifact_row \<Rightarrow> (string, nat) dict \<Rightarrow> (string, nat) dict" where
  "add_chars path a chars = AList.update path (get_default chars path 0 + length (str_or (ar_body a) [])) chars"

definition count_chars :: "artifact_row list \<Rightarrow> (string, nat) dict \<Rightarrow> (string, nat) dict" where
  "count_chars found chars = fold (\<lambda>a. add_chars (file_of a) a) found chars"

definition est_tokens_for_file :: "string \<Rightarrow> (string, nat) dict \<Rightarrow> nat" where
  "est_tokens_for_file path chars =
     (let n = get_default chars path 0 in if n \<noteq> 0 then estimate_tokens (replicate n CHR ''x'') else 400)"

section \<open>Targets\<close>

record target_state =
  tg_files :: "file_ref list"
  tg_ids :: "uuid list"
  tg_paths :: "string set"
  tg_symbols :: "string list"

definition no_targets :: target_state where
  "no_targets = \<lparr>tg_files = [], tg_ids = [], tg_paths = {}, tg_symbols = []\<rparr>"

definition add_target ::
  "(string, nat) dict \<Rightarrow> artifact_row \<Rightarrow> string \<Rightarrow> real \<Rightarrow> target_state \<Rightarrow> exn + target_state" where
  "add_target chars a reason conf st =
     (let path = file_of a;
          st1 = (if ar_type a = ''code_symbol''
                 then st\<lparr>tg_ids := tg_ids st @ [ar_id a],
                         tg_symbols := tg_symbols st @ (case ar_title a of None \<Rightarrow> [] | Some t \<Rightarrow> if t = [] then [] else [t])\<rparr>
                 else st)
      in if path \<in> tg_paths st \<or> is_test_path path then Inr st1
         else case file_ref path reason conf (est_tokens_for_file path chars) of
                Inl e \<Rightarrow> Inl e
              | Inr f \<Rightarrow> Inr (st1\<lparr>tg_paths := insert path (tg_paths st), tg_files := tg_files st @ [f]\<rparr>))"

definition bare_title :: "artifact_row \<Rightarrow> string" where
  "bare_title a = rstrip_by (\<lambda>c. c \<in> {CHR ''('', CHR '')''}) (str_or (ar_title a) [])"

definition by_symbol :: "(string, nat) dict \<Rightarrow> string set \<Rightarrow> artifact_row list \<Rightarrow> exn + target_state" where
  "by_symbol chars class_hints code_rows =
     foldE (\<lambda>a st. let title = bare_title a
        in if title \<noteq> [] \<and> title \<in> class_hints
           then add_target chars a (''contains exact symbol '' @ title @ '' matched from the task'') (96/100) st
           else Inr st) code_rows no_targets"

definition by_file ::
  "(string, nat) dict \<Rightarrow> string set \<Rightarrow> artifact_row list \<Rightarrow> target_state \<Rightarrow> exn + target_state" where
  "by_file chars file_hints code_rows st =
     (if tg_files st \<noteq> [] then Inr st
      else foldE (\<lambda>a st. let base = base_name (file_of a)
        in if base \<in> file_hints then add_target chars a (''file name '' @ base @ '' named in the task'') (85/100) st
           else Inr st) code_rows st)"

definition NOTE_LEXICAL :: string where
  "NOTE_LEXICAL = ''target resolved by lexical fallback (no exact symbol/file hint matched)''"

definition by_rank :: "(string, nat) dict \<Rightarrow> artifact_row list \<Rightarrow> target_state \<Rightarrow> exn + target_state \<times> string list" where
  "by_rank chars code_rows st =
     (case code_rows of
        a # _ \<Rightarrow> if tg_files st \<noteq> [] then Inr (st, [])
          else (case add_target chars a ''top lexical match for the task'' (55/100) st of
                  Inl e \<Rightarrow> Inl e | Inr st' \<Rightarrow> Inr (st', [NOTE_LEXICAL]))
      | [] \<Rightarrow> Inr (st, []))"

definition hint_text :: "change_request \<Rightarrow> string" where
  "hint_text req = cc_task req @ '' '' @ str_or (cc_hint req) []"

definition find_targets ::
  "(string, nat) dict \<Rightarrow> change_request \<Rightarrow> artifact_row list \<Rightarrow> exn + target_state \<times> string list" where
  "find_targets chars req code_rows =
     (case by_symbol chars (set (cap_words (hint_text req))) code_rows of
        Inl e \<Rightarrow> Inl e
      | Inr st \<Rightarrow>
         (case by_file chars (base_name ` set (py_files None (hint_text req))) code_rows st of
            Inl e \<Rightarrow> Inl e
          | Inr st' \<Rightarrow> by_rank chars code_rows st'))"

text \<open>The one service all target paths agree on, if there is one.\<close>

definition target_scope :: "(string set \<Rightarrow> string list) \<Rightarrow> string set \<Rightarrow> string option" where
  "target_scope ord paths =
     (case remdups (List.map_filter repo_scope (ord paths)) of [s] \<Rightarrow> Some s | _ \<Rightarrow> None)"

definition primary_path :: "(string set \<Rightarrow> string list) \<Rightarrow> string set \<Rightarrow> string" where
  "primary_path ord paths = (case ord paths of [] \<Rightarrow> [] | p # _ \<Rightarrow> p)"

section \<open>Tests\<close>

definition add_test ::
  "string option \<Rightarrow> (string, nat) dict \<Rightarrow> string \<Rightarrow> string \<Rightarrow> real \<Rightarrow> file_ref list \<Rightarrow> exn + file_ref list" where
  "add_test scope chars path reason conf tests =
     (if path \<in> set (map fr_path tests) \<or> \<not> same_repo scope path then Inr tests
      else case file_ref path reason conf (est_tokens_for_file path chars) of
             Inl e \<Rightarrow> Inl e | Inr f \<Rightarrow> Inr (tests @ [f]))"

definition tests_from_edges ::
  "string option \<Rightarrow> (string, nat) dict \<Rightarrow> uuid list \<Rightarrow> (uuid, artifact_row) dict \<Rightarrow> edge_row list \<Rightarrow> exn + file_ref list" where
  "tests_from_edges scope chars target_ids neighbours edge_rows =
     foldE (\<lambda>e tests. if er_type e = ''tests'' \<and> er_to e \<in> set target_ids
        then (case map_of neighbours (er_from e) of
                None \<Rightarrow> Inr tests
              | Some t \<Rightarrow> add_test scope chars (file_of t)
                  (''`tests` edge -> a target symbol ('' @ (case ar_title t of None \<Rightarrow> ''None'' | Some x \<Rightarrow> x) @ '')'') (90/100) tests)
        else Inr tests) edge_rows []"

definition tests_from_hits ::
  "string option \<Rightarrow> (string, nat) dict \<Rightarrow> string list \<Rightarrow> artifact_row list \<Rightarrow> file_ref list \<Rightarrow> exn + file_ref list" where
  "tests_from_hits scope chars symbols_lc allowed tests =
     foldE (\<lambda>a tests. let p = file_of a; body_lc = py_lower (str_or (ar_body a) [])
        in if is_test_path p \<and> list_ex (\<lambda>s. py_in s body_lc) symbols_lc
           then add_test scope chars p ''test file in the KB references the target symbol'' (80/100) tests
           else Inr tests) allowed tests"

text \<open>The focused search counts a test's characters before it adds the test.\<close>

definition tests_from_search ::
  "string option \<Rightarrow> artifact_row list \<Rightarrow> file_ref list \<times> (string, nat) dict \<Rightarrow> exn + file_ref list \<times> (string, nat) dict" where
  "tests_from_search scope found st =
     foldE (\<lambda>a (tests, chars). let p = file_of a in
        if is_test_path p
        then (let chars' = add_chars p a chars
              in case add_test scope chars' p ''KB search located the target's test file'' (70/100) tests of
                   Inl e \<Rightarrow> Inl e | Inr tests' \<Rightarrow> Inr (tests', chars'))
        else Inr (tests, chars)) found st"

definition tests_by_name ::
  "(string set \<Rightarrow> string list) \<Rightarrow> string option \<Rightarrow> (string, nat) dict \<Rightarrow> string set \<Rightarrow> exn + file_ref list" where
  "tests_by_name ord scope chars target_paths =
     foldE (\<lambda>cand. add_test scope chars cand ''naming convention (runtime verifies existence)'' (50/100))
       (concat (map conventional_test_paths (ord target_paths))) []"

definition NOTE_CONVENTION :: string where
  "NOTE_CONVENTION = ''test file proposed by naming convention - the runtime must verify it exists''"

definition target_stems :: "string set \<Rightarrow> string set" where
  "target_stems target_paths = module_stem ` target_paths"

definition test_rank :: "string set \<Rightarrow> string \<Rightarrow> file_ref \<Rightarrow> nat \<times> int \<times> real" where
  "test_rank stems primary f =
     (if \<exists>stem \<in> stems. py_in stem (base_name (fr_path f)) then 0 else 1,
      - int (path_proximity primary (fr_path f)), - fr_confidence f)"

definition test_query :: "(string set \<Rightarrow> string list) \<Rightarrow> string list \<Rightarrow> string set \<Rightarrow> string" where
  "test_query ord symbols stems = ''test '' @ py_join '' '' (take 2 symbols @ ord stems)"

text \<open>The search client behind a call that may fail.\<close>

definition search_call :: "deps \<Rightarrow> string \<Rightarrow> int \<Rightarrow> nat \<Rightarrow> search_hits broker" where
  "search_call dp query build_seq limit =
     bindM (getM (\<lambda>w. dp_search dp (w_db w) query build_seq limit)) (\<lambda>found. liftM (opt_or_raise SearchError found))"

definition find_tests ::
  "deps \<Rightarrow> (string set \<Rightarrow> string list) \<Rightarrow> requester \<Rightarrow> int \<Rightarrow> target_state \<Rightarrow> artifact_row list \<Rightarrow> (uuid, artifact_row) dict
   \<Rightarrow> edge_row list \<Rightarrow> (string, nat) dict \<Rightarrow> (file_ref list \<times> (string, nat) dict \<times> string list) broker" where
  "find_tests dp ord rq build_seq tg allowed neighbours edge_rows chars =
     (let scope = target_scope ord (tg_paths tg); stems = target_stems (tg_paths tg);
          ranked = (\<lambda>tests. take MAX_TEST_FILES (sort_key (test_rank stems (primary_path ord (tg_paths tg))) tests))
      in bindM (liftM (tests_from_edges scope chars (tg_ids tg) neighbours edge_rows)) (\<lambda>t1.
         bindM (liftM (tests_from_hits scope chars (map py_lower (tg_symbols tg)) allowed t1)) (\<lambda>t2.
         if t2 \<noteq> [] then ret (ranked t2, chars, [])
         else bindM (search_call dp (test_query ord (tg_symbols tg) stems) build_seq 8) (\<lambda>hits.
           bindM (db_get (\<lambda>d. fetch_artifacts d (map fst hits) build_seq)) (\<lambda>test_rows.
           bindM (liftM (tests_from_search scope (filter_artifacts rq test_rows) ([], chars))) (\<lambda>(t3, chars').
           if t3 \<noteq> [] then ret (ranked t3, chars', [])
           else bindM (liftM (tests_by_name ord scope chars' (tg_paths tg))) (\<lambda>t4.
                ret (ranked t4, chars', if t4 \<noteq> [] then [NOTE_CONVENTION] else []))))))))"

section \<open>Dependencies\<close>

fun score_titles :: "string \<Rightarrow> string \<Rightarrow> string list \<Rightarrow> real \<times> string list \<Rightarrow> real \<times> string list" where
  "score_titles body_lc query_lc [] st = st"
| "score_titles body_lc query_lc (t # ts) (score, used) =
     (let tl = py_lower t;
          s1 = (if tl \<noteq> [] \<and> py_in tl query_lc then score + 40/100 else score);
          hit = tl \<noteq> [] \<and> py_in tl body_lc;
          s2 = (if hit then s1 + 45/100 else s1);
          s3 = (if is_contract t then s2 + 25/100 else s2)
      in score_titles body_lc query_lc ts (s3, if hit then used @ [t] else used))"

definition score_imported_file :: "string list \<Rightarrow> string \<Rightarrow> string \<Rightarrow> string \<Rightarrow> real \<times> string list" where
  "score_imported_file symbol_titles body_lc query_lc path =
     (let (score, used) = score_titles body_lc query_lc symbol_titles (0, [])
      in (if module_stem path \<in> UBIQUITOUS_UTIL_STEMS \<and> \<not> py_in (module_stem path) query_lc then score - 50/100 else score,
          dict_fromkeys used))"

record scored_file =
  sc_score :: real
  sc_proximity :: nat
  sc_path :: string
  sc_reason :: string

definition score_candidate ::
  "string option \<Rightarrow> string \<Rightarrow> string set \<Rightarrow> (uuid, string list) dict \<Rightarrow> string \<Rightarrow> string \<Rightarrow> uuid \<times> artifact_row \<Rightarrow> scored_file option" where
  "score_candidate scope primary target_paths symbols_by_file body_lc query_lc f = (case f of (fid, art) \<Rightarrow>
     let path = file_of art
     in if path \<in> target_paths \<or> is_test_path path \<or> \<not> same_repo scope path then None
        else (let (score, name_hits) = score_imported_file (get_default symbols_by_file fid []) body_lc query_lc path;
                  used = (let u = py_join '', '' name_hits in if u = [] then ''imported by the target'' else u)
              in if score \<le> 0 then None
                 else Some \<lparr>sc_score = score, sc_proximity = path_proximity primary path, sc_path = path,
                        sc_reason = ''defines '' @ used @ '' used by the target file''\<rparr>))"

definition dependency_ref :: "(string, nat) dict \<Rightarrow> scored_file \<Rightarrow> exn + file_ref" where
  "dependency_ref chars s =
     file_ref (sc_path s) (sc_reason s) (min (95/100) (55/100 + sc_score s / 2)) (est_tokens_for_file (sc_path s) chars)"

definition rank_dependencies :: "scored_file list \<Rightarrow> scored_file list" where
  "rank_dependencies scored =
     take MAX_DEPENDENCY_FILES (sort_key (\<lambda>s. (- sc_score s, - int (sc_proximity s))) scored)"

text \<open>The titles each imported file defines, and the characters they add.\<close>

definition group_symbols ::
  "edge_row list \<Rightarrow> artifact_row list \<Rightarrow> (string, nat) dict \<Rightarrow> (uuid, string list) dict \<times> (string, nat) dict" where
  "group_symbols def_edges sym_rows chars =
     (let file_by_sym = dict_update_all [] (map (\<lambda>e. (er_from e, er_to e)) def_edges)
      in fold (\<lambda>s (by_file, chars).
           case (map_of file_by_sym (ar_id s), ar_title s) of
             (Some fid, Some t) \<Rightarrow>
               if t = [] then (by_file, chars)
               else (AList.update fid (get_default by_file fid [] @ [t]) by_file, add_chars (file_of s) s chars)
           | _ \<Rightarrow> (by_file, chars)) sym_rows ([], chars))"

definition target_file_ids :: "target_state \<Rightarrow> edge_row list \<Rightarrow> artifact_row list \<Rightarrow> uuid list" where
  "target_file_ids tg edge_rows code_rows =
     remdups (map er_to (filter (\<lambda>e. er_type e = ''defined_in'' \<and> er_from e \<in> set (tg_ids tg)) edge_rows)
       @ map ar_id (filter (\<lambda>a. ar_type a = ''code_file'' \<and> file_of a \<in> tg_paths tg) code_rows))"

definition imported_of :: "uuid list \<Rightarrow> edge_row list \<Rightarrow> uuid list" where
  "imported_of file_ids import_edges =
     remdups (filter (\<lambda>u. u \<notin> set file_ids)
       (map (\<lambda>e. if er_from e \<in> set file_ids then er_to e else er_from e) import_edges))"

definition target_body :: "target_state \<Rightarrow> artifact_row list \<Rightarrow> string" where
  "target_body tg code_rows =
     py_lower (py_join '' '' (map (\<lambda>a. str_or (ar_body a) []) (filter (\<lambda>a. ar_id a \<in> set (tg_ids tg)) code_rows)))"

definition find_dependencies ::
  "(string set \<Rightarrow> string list) \<Rightarrow> requester \<Rightarrow> int \<Rightarrow> string \<Rightarrow> target_state \<Rightarrow> artifact_row list \<Rightarrow> edge_row list
   \<Rightarrow> (string, nat) dict \<Rightarrow> file_ref list broker" where
  "find_dependencies ord rq build_seq query tg code_rows edge_rows chars =
     (let file_ids = target_file_ids tg edge_rows code_rows
      in if file_ids = [] then ret []
         else bindM (db_get (\<lambda>d. fetch_edges_touching d file_ids build_seq (Some [''imports'']))) (\<lambda>import_edges.
           let imported_ids = imported_of file_ids import_edges
           in bindM (if imported_ids = [] then ret []
                     else db_get (\<lambda>d. fetch_edges_touching d imported_ids build_seq (Some [''defined_in'']))) (\<lambda>def_edges.
              let sym_ids = map er_from (filter (\<lambda>e. er_to e \<in> set imported_ids) def_edges)
              in bindM (db_get (\<lambda>d. fetch_artifacts d imported_ids build_seq)) (\<lambda>imported_rows.
                 bindM (if sym_ids = [] then ret [] else db_get (\<lambda>d. fetch_artifacts d sym_ids build_seq)) (\<lambda>sym_rows.
                 let imported = rows_by_id (filter_artifacts rq imported_rows);
                     (symbols_by_file, chars') = group_symbols def_edges sym_rows chars;
                     scored = List.map_filter
                       (score_candidate (target_scope ord (tg_paths tg)) (primary_path ord (tg_paths tg)) (tg_paths tg)
                          symbols_by_file (target_body tg code_rows) (py_lower query)) imported
                 in liftM (mapE (dependency_ref chars') (rank_dependencies scored)))))))"

section \<open>The budget\<close>

fun keep_deps :: "int \<Rightarrow> int \<Rightarrow> file_ref list \<Rightarrow> file_ref list" where
  "keep_deps budget spent [] = []"
| "keep_deps budget spent (f # fs) =
     (if spent + int (fr_tokens f) > budget then keep_deps budget spent fs
      else f # keep_deps budget (spent + int (fr_tokens f)) fs)"

definition total_tokens :: "file_ref list \<Rightarrow> int" where
  "total_tokens fs = sum_list (map (int \<circ> fr_tokens) fs)"

definition dropped_note :: "change_request \<Rightarrow> nat \<Rightarrow> string list" where
  "dropped_note req n = (if n = 0 then []
     else [''dropped '' @ nat_str n @ '' dependency file(s) to stay within budget_tokens='' @ int_str (cc_budget req)])"

section \<open>The handler\<close>

definition change_event :: "change_request \<Rightarrow> requester \<Rightarrow> string \<Rightarrow> string \<Rightarrow> change_response \<Rightarrow> retrieval_event" where
  "change_event req rq query kb_version resp =
     (event (str_or (cc_run_id req) ''-'') (subject rq) ''context.create_change_pack'' ''approved'' kb_version)
       \<lparr>ev_query_text := Some query,
        ev_details := Some [(''task'', JStr (cc_task req)),
          (''target_files'', JArr (map (JStr \<circ> fr_path) (ch_targets resp))),
          (''test_files'', JArr (map (JStr \<circ> fr_path) (ch_tests resp))),
          (''dependency_files'', JArr (map (JStr \<circ> fr_path) (ch_deps resp))),
          (''notes'', JArr (map JStr (ch_notes resp)))]\<rparr>"

definition graph_neighbours ::
  "requester \<Rightarrow> int \<Rightarrow> uuid list \<Rightarrow> (edge_row list \<times> artifact_row list) broker" where
  "graph_neighbours rq build_seq seeds =
     (if seeds = [] then ret ([], [])
      else bindM (db_get (\<lambda>d. fetch_edges_touching d seeds build_seq None)) (\<lambda>edge_rows.
        let neighbour_ids = remdups (map (\<lambda>e. if er_from e \<in> set seeds then er_to e else er_from e) edge_rows)
        in bindM (db_get (\<lambda>d. fetch_artifacts d neighbour_ids build_seq)) (\<lambda>neighbour_rows.
           ret (edge_rows, filter_artifacts rq neighbour_rows))))"

definition select_files ::
  "deps \<Rightarrow> (string set \<Rightarrow> string list) \<Rightarrow> change_request \<Rightarrow> requester \<Rightarrow> int \<Rightarrow> string \<Rightarrow> artifact_row list \<Rightarrow> artifact_row list
   \<Rightarrow> change_response broker" where
  "select_files dp ord req rq build_seq query allowed code_rows =
     (let chars = count_chars allowed []
      in bindM (liftM (find_targets chars req code_rows)) (\<lambda>(tg, notes1).
         let seeds = remdups (map ar_id (filter (\<lambda>a. file_of a \<in> tg_paths tg) code_rows) @ tg_ids tg)
         in bindM (graph_neighbours rq build_seq seeds) (\<lambda>(edge_rows, neighbour_rows).
            let neighbours = rows_by_id neighbour_rows; chars1 = count_chars (map snd neighbours) chars
            in bindM (find_tests dp ord rq build_seq tg allowed neighbours edge_rows chars1) (\<lambda>(tests, chars2, notes2).
               bindM (find_dependencies ord rq build_seq query tg code_rows edge_rows chars2) (\<lambda>found.
               let kept = keep_deps (cc_budget req) (total_tokens (tg_files tg @ tests)) found
               in ret \<lparr>ch_targets = tg_files tg, ch_tests = tests, ch_deps = kept,
                       ch_symbols = dict_fromkeys (tg_symbols tg),
                       ch_notes = notes1 @ notes2 @ dropped_note req (length found - length kept)\<rparr>)))))"

definition change_query :: "change_request \<Rightarrow> string" where
  "change_query req = py_strip (hint_text req)"

definition create_change_pack ::
  "deps \<Rightarrow> (string set \<Rightarrow> string list) \<Rightarrow> change_request \<Rightarrow> requester \<Rightarrow> change_response broker" where
  "create_change_pack dp ord req rq =
     bindM (db_read fetch_active_version) (\<lambda>active. case active of
       None \<Rightarrow> ret \<lparr>ch_targets = [], ch_tests = [], ch_deps = [], ch_symbols = [], ch_notes = [MSG_NO_ACTIVE_VERSION]\<rparr>
     | Some v \<Rightarrow>
         bindM (search_call dp (change_query req) (av_build_seq v) CHANGE_SEARCH_TOP) (\<lambda>hits.
         let scores = dict_update_all [] hits
         in bindM (db_get (\<lambda>d. fetch_artifacts d (map fst scores) (av_build_seq v))) (\<lambda>found.
            let allowed = filter_artifacts rq found;
                code_rows = sorted_desc (\<lambda>a. get_default scores (ar_id a) 0)
                  (filter (\<lambda>a. ar_type a \<in> CHANGE_CODE_TYPES) allowed)
            in bindM (select_files dp ord req rq (av_build_seq v) (change_query req) allowed code_rows) (\<lambda>resp.
               bindM (insert_event (change_event req rq (change_query req) (av_kb_version v) resp)) (\<lambda>_. ret resp)))))"

section \<open>What is selected\<close>

lemma file_ref_Inr: "file_ref p r c n = Inr f \<Longrightarrow> fr_path f = p \<and> p \<noteq> [] \<and> 0 \<le> fr_confidence f \<and> fr_confidence f \<le> 1"
  by (auto simp: file_ref_def split: if_splits)

lemma total_tokens_simps [simp]:
  "total_tokens [] = 0" "total_tokens (f # fs) = int (fr_tokens f) + total_tokens fs"
  "total_tokens (fs @ gs) = total_tokens fs + total_tokens gs"
  by (simp_all add: total_tokens_def)

lemma total_tokens_nonneg [simp]: "0 \<le> total_tokens fs"
  by (induction fs) auto

text \<open>The essential files stay whatever they cost; the others fit what is left.\<close>

lemma keep_deps_budget: "spent + total_tokens (keep_deps b spent fs) \<le> max b spent"
proof (induction b spent fs rule: keep_deps.induct)
  case (2 b spent f fs)
  then show ?case by (auto simp: max_def split: if_splits)
qed simp

lemma keep_deps_subseq: "subseq (keep_deps b spent fs) fs"
  by (induction b spent fs rule: keep_deps.induct) auto

lemma keep_deps_all: "spent + total_tokens fs \<le> b \<Longrightarrow> keep_deps b spent fs = fs"
proof (induction b spent fs rule: keep_deps.induct)
  case (2 b spent f fs)
  have "\<not> b < spent + int (fr_tokens f)" using 2(3) total_tokens_nonneg [of fs] unfolding total_tokens_simps by linarith
  with 2 show ?case by simp
qed simp

definition targets_ok :: "artifact_row list \<Rightarrow> target_state \<Rightarrow> bool" where
  "targets_ok code_rows st \<longleftrightarrow> tg_paths st = fr_path ` set (tg_files st) \<and> distinct (map fr_path (tg_files st))
     \<and> (\<forall>p \<in> tg_paths st. p \<in> file_of ` set code_rows \<and> \<not> is_test_path p)"

lemma add_target_cases:
  assumes "add_target chars a reason conf st = Inr st'"
  obtains (same) "tg_files st' = tg_files st" "tg_paths st' = tg_paths st"
  | (new) f where "fr_path f = file_of a" "file_of a \<notin> tg_paths st" "\<not> is_test_path (file_of a)"
      "tg_files st' = tg_files st @ [f]" "tg_paths st' = insert (file_of a) (tg_paths st)"
proof (cases "file_of a \<in> tg_paths st \<or> is_test_path (file_of a)")
  case True
  then show thesis using assms by (intro same) (auto simp: add_target_def Let_def split: if_splits)
next
  case False
  then obtain f where f: "file_ref (file_of a) reason conf (est_tokens_for_file (file_of a) chars) = Inr f"
    using assms by (simp add: add_target_def Let_def split: sum.splits)
  have "tg_files st' = tg_files st @ [f]" "tg_paths st' = insert (file_of a) (tg_paths st)"
    using assms False f by (auto simp: add_target_def Let_def split: if_splits)
  with False file_ref_Inr [OF f] show thesis by (intro new) auto
qed

lemma add_target_ok:
  assumes "add_target chars a reason conf st = Inr st'" and ok: "targets_ok code_rows st" and a: "a \<in> set code_rows"
  shows "targets_ok code_rows st'"
  using assms(1)
proof (cases rule: add_target_cases)
  case same
  with ok show ?thesis by (simp add: targets_ok_def)
next
  case (new f)
  then have "fr_path f \<notin> fr_path ` set (tg_files st)" using ok by (auto simp: targets_ok_def)
  with new ok a show ?thesis by (simp add: targets_ok_def)
qed

lemma no_targets_ok: "targets_ok code_rows no_targets"
  by (simp add: targets_ok_def no_targets_def)

lemma find_targets_ok:
  assumes "find_targets chars req code_rows = Inr (tg, notes)" shows "targets_ok code_rows tg"
proof -
  from assms obtain s1 s2 where s1: "by_symbol chars (set (cap_words (hint_text req))) code_rows = Inr s1"
    and s2: "by_file chars (base_name ` set (py_files None (hint_text req))) code_rows s1 = Inr s2"
    and s3: "by_rank chars code_rows s2 = Inr (tg, notes)"
    by (auto simp: find_targets_def split: sum.splits)
  have "targets_ok code_rows s1"
    using s1 unfolding by_symbol_def
    by (rule foldE_invariant) (auto simp: no_targets_ok Let_def split: if_splits intro: add_target_ok)
  moreover from this have "targets_ok code_rows s2" if "tg_files s1 = []"
    using s2 that unfolding by_file_def
    by (auto elim!: foldE_invariant simp: Let_def split: if_splits intro: add_target_ok)
  ultimately have "targets_ok code_rows s2" using s2 by (cases "tg_files s1 = []") (auto simp: by_file_def)
  with s3 show ?thesis
    by (auto simp: by_rank_def split: list.splits if_splits sum.splits intro: add_target_ok)
qed

definition tests_ok :: "string option \<Rightarrow> file_ref list \<Rightarrow> bool" where
  "tests_ok scope tests \<longleftrightarrow> distinct (map fr_path tests) \<and> (\<forall>f \<in> set tests. same_repo scope (fr_path f))"

lemma add_test_ok: "add_test scope chars p reason conf ts = Inr ts' \<Longrightarrow> tests_ok scope ts \<Longrightarrow> tests_ok scope ts'"
  by (auto simp: add_test_def tests_ok_def split: if_splits sum.splits dest!: file_ref_Inr)

lemma no_tests_ok [simp]: "tests_ok scope []"
  by (simp add: tests_ok_def)

lemma tests_stages_ok:
  "tests_from_edges scope chars ids nb es = Inr ts \<Longrightarrow> tests_ok scope ts"
  "tests_from_hits scope chars syms rs us = Inr ts \<Longrightarrow> tests_ok scope us \<Longrightarrow> tests_ok scope ts"
  "tests_by_name ord scope chars paths = Inr ts \<Longrightarrow> tests_ok scope ts"
proof -
  show "tests_from_edges scope chars ids nb es = Inr ts \<Longrightarrow> tests_ok scope ts"
    unfolding tests_from_edges_def
    by (rule foldE_invariant) (auto split: if_splits option.splits intro: add_test_ok)
  show "tests_from_hits scope chars syms rs us = Inr ts \<Longrightarrow> tests_ok scope us \<Longrightarrow> tests_ok scope ts"
    unfolding tests_from_hits_def
    by (rule foldE_invariant) (auto simp: Let_def split: if_splits intro: add_test_ok)
  show "tests_by_name ord scope chars paths = Inr ts \<Longrightarrow> tests_ok scope ts"
    unfolding tests_by_name_def by (rule foldE_invariant) (auto intro: add_test_ok)
qed

lemma tests_search_ok: "tests_from_search scope rs ([], chars) = Inr (ts, chars') \<Longrightarrow> tests_ok scope ts"
proof -
  assume "tests_from_search scope rs ([], chars) = Inr (ts, chars')"
  then have "tests_ok scope (fst (ts, chars'))"
    unfolding tests_from_search_def
    by (rule foldE_invariant) (auto simp: Let_def split: prod.splits if_splits sum.splits intro: add_test_ok)
  then show ?thesis by simp
qed

lemma tests_ok_ranked: "tests_ok scope ts \<Longrightarrow> tests_ok scope (take n (sort_key k ts))"
proof -
  assume a: "tests_ok scope ts"
  have "distinct (map fr_path (sort_key k ts))"
    using a by (auto simp: tests_ok_def distinct_map)
  then have "distinct (map fr_path (take n (sort_key k ts)))" by (simp add: take_map [symmetric] distinct_take)
  moreover have "set (take n (sort_key k ts)) \<subseteq> set ts" by (metis set_sort set_take_subset)
  ultimately show ?thesis using a unfolding tests_ok_def by blast
qed

lemma find_tests_Inr:
  assumes "find_tests dp ord rq seq tg allowed nb es chars w = (Inr (tests, chars', notes), w')"
  shows "tests_ok (target_scope ord (tg_paths tg)) tests" and "length tests \<le> 3"
  using assms unfolding find_tests_def Let_def
  by (auto simp: op_iff MAX_TEST_FILES_def split: if_splits prod.splits
      intro: tests_ok_ranked tests_stages_ok tests_search_ok)

definition deps_ok :: "string option \<Rightarrow> string set \<Rightarrow> string set \<Rightarrow> file_ref list \<Rightarrow> bool" where
  "deps_ok scope target_paths seen ds \<longleftrightarrow>
     fr_path ` set ds \<subseteq> {p \<in> seen. p \<notin> target_paths \<and> \<not> is_test_path p \<and> same_repo scope p}"

lemma score_candidate_Some:
  "score_candidate scope pr paths sy b q f = Some s \<Longrightarrow>
     sc_path s = file_of (snd f) \<and> sc_path s \<notin> paths \<and> \<not> is_test_path (sc_path s) \<and> same_repo scope (sc_path s) \<and> 0 < sc_score s"
  by (auto simp: score_candidate_def Let_def split: prod.splits if_splits)

lemma find_dependencies_Inr:
  assumes run: "find_dependencies ord rq seq query tg code_rows es chars w = (Inr ds, w')"
  shows "deps_ok (target_scope ord (tg_paths tg)) (tg_paths tg)
      (file_of ` {row. acl_admits rq (ar_acl row) \<and> (\<exists>ids. row \<in> set (fetch_artifacts (w_db w) ids seq))}) ds"
    and "length ds \<le> 2"
proof -
  let ?sc = "target_scope ord (tg_paths tg)"
  let ?seen = "{row. acl_admits rq (ar_acl row) \<and> (\<exists>ids. row \<in> set (fetch_artifacts (w_db w) ids seq))}"
  consider "ds = []" | scored chars' ids sy b q where
      "mapE (dependency_ref chars') (rank_dependencies scored) = Inr ds"
      "scored = List.map_filter (score_candidate ?sc (primary_path ord (tg_paths tg)) (tg_paths tg) sy b q)
         (rows_by_id (filter_artifacts rq (fetch_artifacts (w_db w) ids seq)))"
    using run unfolding find_dependencies_def Let_def
    by (auto simp: op_iff split: if_splits prod.splits)
  then have "deps_ok ?sc (tg_paths tg) (file_of ` ?seen) ds \<and> length ds \<le> 2"
  proof cases
    case 1 then show ?thesis by (simp add: deps_ok_def)
  next
    case 2
    have len: "length ds = length (rank_dependencies scored)"
      using 2(1) by (metis mapE_Inr_iff list_all2_lengthD)
    have "fr_path d \<in> {p \<in> file_of ` ?seen. p \<notin> tg_paths tg \<and> \<not> is_test_path p \<and> same_repo ?sc p}" if d: "d \<in> set ds" for d
    proof -
      from mapE_in [OF 2(1) d] obtain s where s: "s \<in> set (rank_dependencies scored)" "dependency_ref chars' s = Inr d" by blast
      then have p: "fr_path d = sc_path s" by (auto simp: dependency_ref_def dest: file_ref_Inr)
      have "s \<in> set scored" using s(1) unfolding rank_dependencies_def by (metis in_set_takeD set_sort)
      then obtain f where f: "f \<in> set (rows_by_id (filter_artifacts rq (fetch_artifacts (w_db w) ids seq)))"
          "score_candidate ?sc (primary_path ord (tg_paths tg)) (tg_paths tg) sy b q f = Some s"
        unfolding 2(2) by (auto simp: List.map_filter_def)
      have "snd f \<in> set (filter_artifacts rq (fetch_artifacts (w_db w) ids seq))"
        using f(1) set_dict_update_all_subset [of "[]"] unfolding rows_by_id_def by fastforce
      then have "snd f \<in> ?seen" by (auto simp: filter_artifacts_def)
      with score_candidate_Some [OF f(2)] p show ?thesis by auto
    qed
    then show ?thesis using len by (auto simp: deps_ok_def rank_dependencies_def MAX_DEPENDENCY_FILES_def)
  qed
  then show "deps_ok ?sc (tg_paths tg) (file_of ` ?seen) ds" "length ds \<le> 2" by blast+
qed

section \<open>The handler's outcome\<close>

lemma file_ref_exn: "file_ref p r c n = Inl e \<Longrightarrow> e = PydanticValidationError"
  by (auto simp: file_ref_def split: if_splits)

lemma add_exn:
  "add_target chars a reason conf st = Inl e \<Longrightarrow> \<not> ledgered_exn e"
  "add_test scope chars p reason conf ts = Inl e \<Longrightarrow> \<not> ledgered_exn e"
  by (auto simp: add_target_def add_test_def Let_def split: if_splits sum.splits dest!: file_ref_exn)

lemma find_targets_exn:
  assumes "find_targets chars req cs = Inl e" shows "\<not> ledgered_exn e"
proof -
  have s: "\<not> ledgered_exn e" if "by_symbol chars hs cs = Inl e" for hs e
    using that unfolding by_symbol_def
    by (rule foldE_exn) (auto simp: Let_def split: if_splits dest: add_exn)
  have f: "\<not> ledgered_exn e" if "by_file chars hs cs st = Inl e" for hs st e
  proof -
    from that have "foldE (\<lambda>a st. let base = base_name (file_of a)
        in if base \<in> hs then add_target chars a (''file name '' @ base @ '' named in the task'') (85/100) st
           else Inr st) cs st = Inl e"
      unfolding by_file_def by (simp split: if_splits)
    then show ?thesis by (rule foldE_exn) (auto simp: Let_def split: if_splits dest: add_exn)
  qed
  have r: "\<not> ledgered_exn e" if "by_rank chars cs st = Inl e" for st e
    using that unfolding by_rank_def by (auto split: list.splits if_splits sum.splits dest: add_exn)
  show ?thesis
    using assms unfolding find_targets_def by (auto split: sum.splits dest: s f r)
qed

lemma tests_exn:
  "tests_from_edges scope chars ids nb es = Inl e \<Longrightarrow> \<not> ledgered_exn e"
  "tests_from_hits scope chars syms rs us = Inl e \<Longrightarrow> \<not> ledgered_exn e"
  "tests_from_search scope rs st = Inl e \<Longrightarrow> \<not> ledgered_exn e"
  "tests_by_name ord scope chars paths = Inl e \<Longrightarrow> \<not> ledgered_exn e"
  unfolding tests_from_edges_def tests_from_hits_def tests_from_search_def tests_by_name_def
  subgoal by (erule foldE_exn) (auto simp: Let_def split: if_splits option.splits dest: add_exn)
  subgoal by (erule foldE_exn) (auto simp: Let_def split: if_splits option.splits dest: add_exn)
  subgoal by (erule foldE_exn) (auto simp: Let_def split: if_splits prod.splits sum.splits dest: add_exn)
  subgoal by (erule foldE_exn) (auto simp: Let_def split: if_splits dest: add_exn)
  done

lemma dependency_refs_exn: "mapE (dependency_ref chars) ss = Inl e \<Longrightarrow> \<not> ledgered_exn e"
  by (induction ss) (auto simp: dependency_ref_def split: sum.splits dest: file_ref_exn)

lemma search_call_reads [reads_intros]: "reads_only (search_call dp q seq n)"
  unfolding search_call_def by (intro reads_intros) simp

lemma graph_neighbours_reads [reads_intros]: "reads_only (graph_neighbours rq seq seeds)"
  unfolding graph_neighbours_def Let_def by (intro reads_intros)

lemma find_tests_reads [reads_intros]: "reads_only (find_tests dp ord rq seq tg allowed nb es chars)"
  unfolding find_tests_def Let_def split_def by (intro reads_intros tests_exn)

lemma find_dependencies_reads [reads_intros]:
  "reads_only (find_dependencies ord rq seq q tg cs es chars)"
  unfolding find_dependencies_def Let_def split_def by (intro reads_intros dependency_refs_exn)

lemma select_files_reads [reads_intros]: "reads_only (select_files dp ord req rq seq q allowed cs)"
  unfolding select_files_def Let_def split_def by (intro reads_intros find_targets_exn)

definition visible_files :: "registry \<Rightarrow> int \<Rightarrow> requester \<Rightarrow> string set" where
  "visible_files r seq rq = file_of ` {row. acl_admits rq (ar_acl row) \<and> (\<exists>ids. row \<in> set (fetch_artifacts r ids seq))}"

text \<open>
  A selection within its limits: targets are distinct visible files and no tests; tests and
  dependencies stay in the targets' service; dependencies are visible files, no tests and no
  targets; the tokens fit the budget unless targets and tests alone exceed it.
\<close>

definition selection_ok :: "registry \<Rightarrow> int \<Rightarrow> requester \<Rightarrow> int \<Rightarrow> change_response \<Rightarrow> bool" where
  "selection_ok r seq rq budget resp \<longleftrightarrow>
     (\<exists>scope. distinct (map fr_path (ch_targets resp)) \<and> tests_ok scope (ch_tests resp)
       \<and> fr_path ` set (ch_targets resp) \<subseteq> {p \<in> visible_files r seq rq. \<not> is_test_path p}
       \<and> deps_ok scope (fr_path ` set (ch_targets resp)) (visible_files r seq rq) (ch_deps resp)
       \<and> length (ch_tests resp) \<le> 3 \<and> length (ch_deps resp) \<le> 2 \<and> distinct (ch_symbols resp)
       \<and> total_tokens (ch_targets resp @ ch_tests resp @ ch_deps resp)
           \<le> max budget (total_tokens (ch_targets resp @ ch_tests resp)))"

lemma select_files_Inr:
  assumes run: "select_files dp ord req rq seq q allowed cs w = (Inr resp, w')"
    and cs: "set cs \<subseteq> {row. acl_admits rq (ar_acl row) \<and> (\<exists>ids. row \<in> set (fetch_artifacts (w_db w) ids seq))}"
  shows "selection_ok (w_db w) seq rq (cc_budget req) resp"
proof -
  let ?chars = "count_chars allowed []"
  obtain tg n1 where t: "find_targets ?chars req cs = Inr (tg, n1)"
    and k1: "bindM (graph_neighbours rq seq (remdups (map ar_id (filter (\<lambda>a. file_of a \<in> tg_paths tg) cs) @ tg_ids tg)))
       (\<lambda>(es, nb). bindM (find_tests dp ord rq seq tg allowed (rows_by_id nb) es (count_chars (map snd (rows_by_id nb)) ?chars))
          (\<lambda>(tests, chars2, n2). bindM (find_dependencies ord rq seq q tg cs es chars2) (\<lambda>found.
             ret \<lparr>ch_targets = tg_files tg, ch_tests = tests,
                  ch_deps = keep_deps (cc_budget req) (total_tokens (tg_files tg @ tests)) found,
                  ch_symbols = dict_fromkeys (tg_symbols tg),
                  ch_notes = n1 @ n2 @ dropped_note req (length found
                    - length (keep_deps (cc_budget req) (total_tokens (tg_files tg @ tests)) found))\<rparr>))) w = (Inr resp, w')"
    using run unfolding select_files_def Let_def
    by (cases "find_targets ?chars req cs") (auto simp: raise_def)
  from k1 obtain es nb w1 where g: "graph_neighbours rq seq (remdups (map ar_id (filter (\<lambda>a. file_of a \<in> tg_paths tg) cs) @ tg_ids tg)) w
      = (Inr (es, nb), w1)"
    and k2: "bindM (find_tests dp ord rq seq tg allowed (rows_by_id nb) es (count_chars (map snd (rows_by_id nb)) ?chars))
          (\<lambda>(tests, chars2, n2). bindM (find_dependencies ord rq seq q tg cs es chars2) (\<lambda>found.
             ret \<lparr>ch_targets = tg_files tg, ch_tests = tests,
                  ch_deps = keep_deps (cc_budget req) (total_tokens (tg_files tg @ tests)) found,
                  ch_symbols = dict_fromkeys (tg_symbols tg),
                  ch_notes = n1 @ n2 @ dropped_note req (length found
                    - length (keep_deps (cc_budget req) (total_tokens (tg_files tg @ tests)) found))\<rparr>)) w1 = (Inr resp, w')"
    by (rule bindM_InrE) (simp split: prod.splits)
  from k2 obtain tests chars2 n2 w2 where ft: "find_tests dp ord rq seq tg allowed (rows_by_id nb) es
      (count_chars (map snd (rows_by_id nb)) ?chars) w1 = (Inr (tests, chars2, n2), w2)"
    and k3: "bindM (find_dependencies ord rq seq q tg cs es chars2) (\<lambda>found.
             ret \<lparr>ch_targets = tg_files tg, ch_tests = tests,
                  ch_deps = keep_deps (cc_budget req) (total_tokens (tg_files tg @ tests)) found,
                  ch_symbols = dict_fromkeys (tg_symbols tg),
                  ch_notes = n1 @ n2 @ dropped_note req (length found
                    - length (keep_deps (cc_budget req) (total_tokens (tg_files tg @ tests)) found))\<rparr>) w2 = (Inr resp, w')"
    by (rule bindM_InrE) (simp split: prod.splits)
  from k3 obtain found where fd: "find_dependencies ord rq seq q tg cs es chars2 w2 = (Inr found, w')"
    and resp: "ch_targets resp = tg_files tg" "ch_tests resp = tests" "ch_symbols resp = dict_fromkeys (tg_symbols tg)"
      "ch_deps resp = keep_deps (cc_budget req) (total_tokens (tg_files tg @ tests)) found"
    by (rule bindM_InrE) (auto simp: ret_iff)
  have db: "w_db w2 = w_db w"
    using reads_only_fields(1) [OF graph_neighbours_reads g] reads_only_fields(1) [OF find_tests_reads ft] by simp
  note tok = find_targets_ok [OF t, unfolded targets_ok_def]
  note tst = find_tests_Inr [OF ft]
  note dep = find_dependencies_Inr [OF fd, unfolded db]
  let ?scope = "target_scope ord (tg_paths tg)"
  have sub: "set (ch_deps resp) \<subseteq> set found" "length (ch_deps resp) \<le> length found"
    unfolding resp(4) using keep_deps_subseq by (auto dest: list_emb_length list_emb_set)
  have "file_of ` set cs \<subseteq> visible_files (w_db w) seq rq" using cs unfolding visible_files_def by (rule image_mono)
  then have targets: "fr_path ` set (ch_targets resp) \<subseteq> {p \<in> visible_files (w_db w) seq rq. \<not> is_test_path p}"
    using tok resp(1) by auto
  have paths: "tg_paths tg = fr_path ` set (ch_targets resp)" using tok resp(1) by simp
  have deps: "deps_ok ?scope (fr_path ` set (ch_targets resp)) (visible_files (w_db w) seq rq) (ch_deps resp)"
    using order_trans [OF image_mono [OF sub(1), of fr_path] dep(1) [unfolded deps_ok_def paths]]
    unfolding deps_ok_def visible_files_def paths .
  show ?thesis
    unfolding selection_ok_def
    using tok tst dep(2) sub(2) targets deps resp keep_deps_budget [of "total_tokens (tg_files tg @ tests)" "cc_budget req" found]
    by (intro exI [of _ ?scope]) simp
qed

lemma create_change_pack_outcome:
  assumes run: "create_change_pack dp ord req rq w = (Inr resp, w')"
  shows "case fetch_active_version (w_db w) of
      Inr (Some v) \<Rightarrow> selection_ok (w_db w) (av_build_seq v) rq (cc_budget req) resp \<and> (\<exists>e. rows w' = rows w @ [e])
    | _ \<Rightarrow> ch_targets resp @ ch_tests resp @ ch_deps resp = [] \<and> rows w' = rows w"
proof -
  from run obtain active fs where a: "fetch_active_version (w_db w) = Inr active"
    and k: "(case active of
       None \<Rightarrow> ret \<lparr>ch_targets = [], ch_tests = [], ch_deps = [], ch_symbols = [], ch_notes = [MSG_NO_ACTIVE_VERSION]\<rparr>
     | Some v \<Rightarrow>
         bindM (search_call dp (change_query req) (av_build_seq v) CHANGE_SEARCH_TOP) (\<lambda>hits.
         let scores = dict_update_all [] hits
         in bindM (db_get (\<lambda>d. fetch_artifacts d (map fst scores) (av_build_seq v))) (\<lambda>found.
            let allowed = filter_artifacts rq found;
                code_rows = sorted_desc (\<lambda>a. get_default scores (ar_id a) 0)
                  (filter (\<lambda>a. ar_type a \<in> CHANGE_CODE_TYPES) allowed)
            in bindM (select_files dp ord req rq (av_build_seq v) (change_query req) allowed code_rows) (\<lambda>resp.
               bindM (insert_event (change_event req rq (change_query req) (av_kb_version v) resp)) (\<lambda>_. ret resp)))))
       (w\<lparr>w_faults := fs\<rparr>) = (Inr resp, w')"
    unfolding create_change_pack_def by (rule bindM_InrE) (auto simp: db_read_Inr)
  show ?thesis
  proof (cases active)
    case None
    with a k show ?thesis by (auto simp: ret_iff)
  next
    case (Some v)
    from k obtain hits w1 found w2 w3 where
      s: "search_call dp (change_query req) (av_build_seq v) CHANGE_SEARCH_TOP (w\<lparr>w_faults := fs\<rparr>) = (Inr hits, w1)"
      and f: "db_get (\<lambda>d. fetch_artifacts d (map fst (dict_update_all [] hits)) (av_build_seq v)) w1 = (Inr found, w2)"
      and sel: "select_files dp ord req rq (av_build_seq v) (change_query req) (filter_artifacts rq found)
         (sorted_desc (\<lambda>a. get_default (dict_update_all [] hits) (ar_id a) 0)
            (filter (\<lambda>a. ar_type a \<in> CHANGE_CODE_TYPES) (filter_artifacts rq found))) w2 = (Inr resp, w3)"
      and ev: "insert_event (change_event req rq (change_query req) (av_kb_version v) resp) w3 = (Inr (), w')"
      unfolding Some option.case Let_def by (elim bindM_InrE) (simp add: ret_iff)
    have d1: "w_db w1 = w_db w" using reads_only_fields(1) [OF search_call_reads s] by simp
    then have d2: "w_db w2 = w_db w" "found = fetch_artifacts (w_db w) (map fst (dict_update_all [] hits)) (av_build_seq v)"
      using f by (auto simp: db_get_Inr)
    have d3: "w_db w3 = w_db w" using reads_only_fields(1) [OF select_files_reads sel] d2 by simp
    have "selection_ok (w_db w2) (av_build_seq v) rq (cc_budget req) resp"
      by (rule select_files_Inr [OF sel]) (auto simp: d2 filter_artifacts_def)
    moreover have "\<exists>e. rows w' = rows w @ [e]" using ev d3 by (auto simp: insert_event_Inr add_event_def)
    ultimately show ?thesis using a Some d2 by simp
  qed
qed

end
