(* ===== verification/TaskScope.thy ===== *)
theory TaskScope
  imports ChangeContext JsonParse
begin

text \<open>
  \<open>context_broker/task_context_nodes.py\<close>, first half: the scope of a task, resolved by hints, then the
  alias index, then search. The meter, a count of retrieval calls and the ids the team ACL kept
  back, is passed along. Log lines are left out; the long dash of some texts is a plain one.
\<close>

section \<open>Requests and results (tool_schemas/task_context.py)\<close>

datatype confidence_tier = Interpreted | Deterministic | GroundTruth

definition TIER_RANK :: "confidence_tier \<Rightarrow> nat" where
  "TIER_RANK t = (case t of Interpreted \<Rightarrow> 0 | Deterministic \<Rightarrow> 1 | GroundTruth \<Rightarrow> 2)"

text \<open>The tiers are ordered by their rank.\<close>

instantiation confidence_tier :: linorder
begin

definition less_eq_confidence_tier :: "confidence_tier \<Rightarrow> confidence_tier \<Rightarrow> bool" where
  "s \<le> t \<longleftrightarrow> TIER_RANK s \<le> TIER_RANK t"

definition less_confidence_tier :: "confidence_tier \<Rightarrow> confidence_tier \<Rightarrow> bool" where
  "s < t \<longleftrightarrow> TIER_RANK s < TIER_RANK t"

instance
  by standard
    (auto simp: less_eq_confidence_tier_def less_confidence_tier_def TIER_RANK_def split: confidence_tier.splits)

end

definition tier_name :: "confidence_tier \<Rightarrow> string" where
  "tier_name t = (case t of Interpreted \<Rightarrow> ''interpreted'' | Deterministic \<Rightarrow> ''deterministic'' | GroundTruth \<Rightarrow> ''ground_truth'')"

definition known_tier :: "string \<Rightarrow> confidence_tier option" where
  "known_tier s = find (\<lambda>t. tier_name t = s) [Interpreted, Deterministic, GroundTruth]"

definition admits_floor :: "confidence_tier \<Rightarrow> confidence_tier \<Rightarrow> bool" where
  "admits_floor tier lowest \<longleftrightarrow> TIER_RANK tier \<ge> TIER_RANK lowest"

record task_hints =
  th_paths :: "string list"
  th_symbols :: "string list"

record task_request =
  tk_task :: string
  tk_hints :: "task_hints option"
  tk_floor :: confidence_tier
  tk_max :: "int option"

record scope_entity =
  se_id :: uuid
  se_path :: string
  se_symbol :: "string option"
  se_source :: string
  se_tier :: confidence_tier

record ambiguous_candidate =
  am_text :: string
  am_candidates :: "uuid list"
  am_reason :: string

record convention =
  cv_pattern :: string
  cv_evidence :: "uuid list"
  cv_tier :: confidence_tier

record prior_change =
  pc_id :: string
  pc_summary :: string
  pc_evidence :: "uuid list"

text \<open>The constructors with a constraint.\<close>

definition ambiguous_candidate :: "string \<Rightarrow> uuid list \<Rightarrow> string \<Rightarrow> exn + ambiguous_candidate" where
  "ambiguous_candidate alias cands reason =
     (if alias = [] \<or> length cands < 2 \<or> reason = [] then Inl PydanticValidationError
      else Inr \<lparr>am_text = alias, am_candidates = cands, am_reason = reason\<rparr>)"

definition convention_of :: "string \<Rightarrow> uuid \<Rightarrow> exn + convention" where
  "convention_of pattern u =
     (if pattern = [] then Inl PydanticValidationError
      else Inr \<lparr>cv_pattern = pattern, cv_evidence = [u], cv_tier = Interpreted\<rparr>)"

section \<open>Shared retrieval\<close>

record scope_resolution =
  sr_entities :: "scope_entity list"
  sr_ambiguous :: "ambiguous_candidate list"
  sr_questions :: "string list"

definition no_scope :: scope_resolution where
  "no_scope = \<lparr>sr_entities = [], sr_ambiguous = [], sr_questions = []\<rparr>"

definition unresolved :: "scope_resolution \<Rightarrow> bool" where
  "unresolved s \<longleftrightarrow> sr_entities s = [] \<and> sr_ambiguous s = []"

record blast_entry =
  be_id :: uuid
  be_path :: string
  be_symbol :: "string option"
  be_edge_type :: string
  be_tier :: confidence_tier
  be_caveat :: "string option"

record blast_resolution =
  bl_callers :: "blast_entry list"
  bl_callees :: "blast_entry list"
  bl_tests :: "blast_entry list"

definition no_blast :: blast_resolution where
  "no_blast = \<lparr>bl_callers = [], bl_callees = [], bl_tests = []\<rparr>"

record task_ctx =
  tx_deps :: deps
  tx_requester :: requester
  tx_request :: task_request
  tx_seq :: int

record meter =
  mt_calls :: nat
  mt_suppressed :: "uuid list"

definition one_call :: "meter \<Rightarrow> meter" where
  "one_call m = m\<lparr>mt_calls := mt_calls m + 1\<rparr>"

definition suppress :: "artifact_row list \<Rightarrow> artifact_row list \<Rightarrow> meter \<Rightarrow> meter" where
  "suppress found allowed m = m\<lparr>mt_suppressed := mt_suppressed m
     @ map ar_id (filter (\<lambda>a. ar_id a \<notin> set (map ar_id allowed)) found)\<rparr>"

definition SYMBOL_TYPES :: "string set" where "SYMBOL_TYPES = {''code_symbol'', ''endpoint''}"
definition TASK_CODE_TYPES :: "string set" where
  "TASK_CODE_TYPES = {''code_symbol'', ''endpoint'', ''code_file'', ''test''}"
definition ALIAS_TYPE :: string where "ALIAS_TYPE = ''alias_reference''"
definition COMMIT_TYPE :: string where "COMMIT_TYPE = ''commit''"
definition TASK_SEARCH_TOP :: nat where "TASK_SEARCH_TOP = 8"
definition BROADENED_TOP :: nat where "BROADENED_TOP = 16"
definition MAX_SCOPE_ENTITIES :: nat where "MAX_SCOPE_ENTITIES = 5"
definition MAX_CONVENTIONS :: nat where "MAX_CONVENTIONS = 3"
definition MAX_PRIOR_CHANGES :: nat where "MAX_PRIOR_CHANGES = 3"

definition search_rows ::
  "task_ctx \<Rightarrow> string \<Rightarrow> nat \<Rightarrow> meter \<Rightarrow> ((artifact_row list \<times> (uuid, real) dict) \<times> meter) broker" where
  "search_rows cx query limit m =
     bindM (search_call (tx_deps cx) query (tx_seq cx) limit) (\<lambda>hits.
       if hits = [] then ret (([], []), one_call m)
       else let scores = dict_update_all [] hits
         in bindM (db_get (\<lambda>d. fetch_artifacts d (map fst scores) (tx_seq cx))) (\<lambda>found.
           let allowed = filter_artifacts (tx_requester cx) found
           in ret ((sort_key (\<lambda>a. (- get_default scores (ar_id a) 0, uuid_str (ar_id a))) allowed, scores),
                suppress found allowed (one_call m))))"

definition hydrate_allowed :: "task_ctx \<Rightarrow> uuid list \<Rightarrow> meter \<Rightarrow> ((uuid, artifact_row) dict \<times> meter) broker" where
  "hydrate_allowed cx ids m =
     (if ids = [] then ret ([], m)
      else bindM (db_get (\<lambda>d. fetch_artifacts d ids (tx_seq cx))) (\<lambda>found.
        let allowed = filter_artifacts (tx_requester cx) found
        in ret (rows_by_id allowed, suppress found allowed m)))"

definition symbol_of :: "artifact_row \<Rightarrow> string option" where
  "symbol_of a = (if ar_type a \<in> SYMBOL_TYPES then ar_title a else None)"

definition entity :: "artifact_row \<Rightarrow> string \<Rightarrow> confidence_tier \<Rightarrow> scope_entity" where
  "entity a source tier = \<lparr>se_id = ar_id a, se_path = file_of a, se_symbol = symbol_of a,
     se_source = source, se_tier = tier\<rparr>"

section \<open>Hints\<close>

definition symbol_question :: "string \<Rightarrow> nat \<Rightarrow> string" where
  "symbol_question s n = (if n = 0 then ''Hint symbol '' @ [CHR 0x27] @ s @ [CHR 0x27] @ '' was not found in the knowledge base.''
     else ''Which '' @ [CHR 0x27] @ s @ [CHR 0x27] @ '' is in scope? '' @ nat_str n @ '' definitions match - see ambiguous_candidates.'')"

definition path_question :: "string \<Rightarrow> nat \<Rightarrow> string" where
  "path_question p n = (if n = 0 then ''Hint file '' @ [CHR 0x27] @ p @ [CHR 0x27] @ '' was not found in the knowledge base.''
     else ''Which file did you mean by '' @ [CHR 0x27] @ p @ [CHR 0x27] @ ''? '' @ nat_str n @ '' paths match - see ambiguous_candidates.'')"

text \<open>One hint's outcome, added to the scope so far.\<close>

definition add_matches ::
  "string \<Rightarrow> string \<Rightarrow> (nat \<Rightarrow> string) \<Rightarrow> artifact_row list \<Rightarrow> scope_resolution \<Rightarrow> exn + scope_resolution" where
  "add_matches hint reason question matches s =
     (case matches of
        [] \<Rightarrow> Inr (s\<lparr>sr_questions := sr_questions s @ [question 0]\<rparr>)
      | [a] \<Rightarrow> Inr (s\<lparr>sr_entities := sr_entities s @ [entity a ''hint'' Deterministic]\<rparr>)
      | _ \<Rightarrow> (case ambiguous_candidate hint (map ar_id matches) reason of Inl e \<Rightarrow> Inl e
          | Inr am \<Rightarrow> Inr (s\<lparr>sr_ambiguous := sr_ambiguous s @ [am],
                             sr_questions := sr_questions s @ [question (length matches)]\<rparr>)))"

definition symbol_matches :: "string \<Rightarrow> artifact_row list \<Rightarrow> artifact_row list" where
  "symbol_matches s found = filter (\<lambda>a. ar_type a \<in> SYMBOL_TYPES \<and> bare_title a = s) found"

text \<open>One row per matching path: the first, or the file artifact.\<close>

definition path_match :: "string \<Rightarrow> artifact_row \<Rightarrow> (string, artifact_row) dict \<Rightarrow> (string, artifact_row) dict" where
  "path_match path a d =
     (if file_of a = path \<or> suffix (CHR ''/'' # path) (file_of a)
      then (case map_of d (file_of a) of
              None \<Rightarrow> AList.update (file_of a) a d
            | Some b \<Rightarrow> if ar_type a = ''code_file'' \<and> ar_type b \<noteq> ''code_file'' then AList.update (file_of a) a d else d)
      else d)"

definition path_matches :: "string \<Rightarrow> artifact_row list \<Rightarrow> artifact_row list" where
  "path_matches path found = sort_key file_of (map snd (fold (path_match path) found []))"

definition symbol_hint :: "task_ctx \<Rightarrow> string \<Rightarrow> scope_resolution \<times> meter \<Rightarrow> (scope_resolution \<times> meter) broker" where
  "symbol_hint cx s st = (case st of (scope, m) \<Rightarrow>
     bindM (search_rows cx s TASK_SEARCH_TOP m) (\<lambda>((found, _), m').
       let ms = symbol_matches s found in
       bindM (liftM (add_matches s (''symbol '' @ [CHR 0x27] @ s @ [CHR 0x27] @ '' matches '' @ nat_str (length ms)
           @ '' distinct definitions; resolution stopped rather than guessing'') (symbol_question s) ms scope))
         (\<lambda>scope'. ret (scope', m'))))"

definition path_hint :: "task_ctx \<Rightarrow> string \<Rightarrow> scope_resolution \<times> meter \<Rightarrow> (scope_resolution \<times> meter) broker" where
  "path_hint cx p st = (case st of (scope, m) \<Rightarrow>
     bindM (search_rows cx (base_name p) TASK_SEARCH_TOP m) (\<lambda>((found, _), m').
       let ms = path_matches p found in
       bindM (liftM (add_matches p (''file hint '' @ [CHR 0x27] @ p @ [CHR 0x27] @ '' matches '' @ nat_str (length ms)
           @ '' distinct paths; resolution stopped rather than guessing'') (path_question p) ms scope))
         (\<lambda>scope'. ret (scope', m'))))"

fun each_hint :: "('a \<Rightarrow> 's \<Rightarrow> 's broker) \<Rightarrow> 'a list \<Rightarrow> 's \<Rightarrow> 's broker" where
  "each_hint f [] st = ret st"
| "each_hint f (x # xs) st = bindM (f x st) (each_hint f xs)"

definition resolve_from_hints :: "task_ctx \<Rightarrow> meter \<Rightarrow> (scope_resolution \<times> meter) broker" where
  "resolve_from_hints cx m =
     (case tk_hints (tx_request cx) of
        None \<Rightarrow> ret (no_scope, m)
      | Some h \<Rightarrow>
          if th_symbols h = [] \<and> th_paths h = [] then ret (no_scope, m)
          else bindM (each_hint (symbol_hint cx) (th_symbols h) (no_scope, m)) (each_hint (path_hint cx) (th_paths h)))"

section \<open>The alias index\<close>

text \<open>\<open>uuid.UUID(str(value))\<close> for a JSON value: no other value than a string or an integer prints as one.\<close>

definition uuid_of_json :: "json \<Rightarrow> uuid option" where
  "uuid_of_json v = (case v of JStr s \<Rightarrow> parse_uuid s | JInt i \<Rightarrow> parse_uuid (int_str i) | _ \<Rightarrow> None)"

definition raw_targets :: "(string \<times> json) list \<Rightarrow> json list" where
  "raw_targets payload =
     (case map_of payload ''target_entity_ids'' of
        Some (JArr vs) \<Rightarrow> vs
      | _ \<Rightarrow> (case map_of payload ''targets'' of
               Some (JArr ts) \<Rightarrow> List.map_filter (\<lambda>t. case t of JObj ob \<Rightarrow> Some (get_default ob ''artifact_id'' JNull) | _ \<Rightarrow> None) ts
             | _ \<Rightarrow> []))"

definition alias_targets :: "artifact_row \<Rightarrow> uuid list" where
  "alias_targets a =
     (case json_loads (str_or (ar_body a) []) of
        Some (JObj payload) \<Rightarrow> dict_fromkeys (List.map_filter uuid_of_json (raw_targets payload))
      | _ \<Rightarrow> [])"

definition alias_tier :: "artifact_row \<Rightarrow> confidence_tier" where
  "alias_tier a =
     (case json_loads (str_or (ar_body a) []) of
        Some (JObj payload) \<Rightarrow>
          (case map_of payload ''confidence_tier'' of
             Some (JStr s) \<Rightarrow> (case known_tier s of Some t \<Rightarrow> t | None \<Rightarrow> Interpreted)
           | _ \<Rightarrow> Interpreted)
      | _ \<Rightarrow> Interpreted)"

definition differing_aliases :: "(uuid, real) dict \<Rightarrow> artifact_row \<Rightarrow> artifact_row list \<Rightarrow> artifact_row list" where
  "differing_aliases scores best others =
     filter (\<lambda>a. get_default scores (ar_id a) 0 \<ge> 80/100 * get_default scores (ar_id best) 0
       \<and> alias_targets a \<noteq> [] \<and> set (alias_targets a) \<noteq> set (alias_targets best)) others"

definition alias_question :: "nat \<Rightarrow> string" where
  "alias_question n = ''The phrase resolves to '' @ nat_str n
     @ '' different targets via the alias index - which one is in scope? See ambiguous_candidates.''"

definition resolve_from_alias ::
  "task_ctx \<Rightarrow> artifact_row list \<Rightarrow> (uuid, real) dict \<Rightarrow> meter \<Rightarrow> (scope_resolution \<times> meter) broker" where
  "resolve_from_alias cx found scores m =
     (case filter (\<lambda>a. ar_type a = ALIAS_TYPE) found of
        [] \<Rightarrow> ret (no_scope, m)
      | best # others \<Rightarrow>
          let targets = alias_targets best; differing = differing_aliases scores best others in
          if targets = [] then ret (no_scope, m)
          else if differing \<noteq> []
          then (let cands = dict_fromkeys (targets @ concat (map alias_targets differing))
                in bindM (liftM (ambiguous_candidate (str_or (ar_title best) (tk_task (tx_request cx))) cands
                     (nat_str (1 + length differing) @ '' alias phrases match with comparable relevance and point at different targets; resolution stopped rather than guessing'')))
                   (\<lambda>am. ret (\<lparr>sr_entities = [], sr_ambiguous = [am], sr_questions = [alias_question (length cands)]\<rparr>, m)))
          else bindM (hydrate_allowed cx targets m) (\<lambda>(allowed, m').
            ret (no_scope\<lparr>sr_entities := take MAX_SCOPE_ENTITIES
                   (map (\<lambda>a. entity a ''alias_index'' (alias_tier best)) (List.map_filter (map_of allowed) targets))\<rparr>, m')))"

section \<open>Search, and the chain of the three\<close>

definition resolve_from_search :: "artifact_row list \<Rightarrow> bool \<Rightarrow> scope_resolution" where
  "resolve_from_search found broadened =
     (let cands = (if broadened then filter (\<lambda>a. ar_type a \<notin> {ALIAS_TYPE, COMMIT_TYPE}) found
                   else filter (\<lambda>a. ar_type a \<in> TASK_CODE_TYPES) found)
      in no_scope\<lparr>sr_entities := map (\<lambda>a. entity a ''search'' Interpreted) (take MAX_SCOPE_ENTITIES cands)\<rparr>)"

text \<open>With the rows of the task search, when the chain got that far.\<close>

definition resolve_entities_and_rows ::
  "task_ctx \<Rightarrow> bool \<Rightarrow> meter \<Rightarrow> ((scope_resolution \<times> artifact_row list option) \<times> meter) broker" where
  "resolve_entities_and_rows cx broadened m =
     bindM (resolve_from_hints cx m) (\<lambda>(hinted, m1).
     if \<not> unresolved hinted then ret ((hinted, None), m1)
     else bindM (search_rows cx (tk_task (tx_request cx)) (if broadened then BROADENED_TOP else TASK_SEARCH_TOP) m1)
       (\<lambda>((found, scores), m2).
       bindM (resolve_from_alias cx found scores m2) (\<lambda>(aliased, m3).
       if \<not> unresolved aliased
       then ret ((aliased\<lparr>sr_questions := sr_questions hinted @ sr_questions aliased\<rparr>, Some found), m3)
       else ret (((resolve_from_search found broadened)\<lparr>sr_questions := sr_questions hinted\<rparr>, Some found), m3))))"

definition resolve_entities :: "task_ctx \<Rightarrow> bool \<Rightarrow> meter \<Rightarrow> (scope_resolution \<times> meter) broker" where
  "resolve_entities cx broadened m =
     bindM (resolve_entities_and_rows cx broadened m) (\<lambda>((scope, _), m'). ret (scope, m'))"

end
