(* ===== verification/TaskNodes.thy ===== *)
theory TaskNodes
  imports TaskScope
begin

text \<open>
  \<open>context_broker/task_context_nodes.py\<close>, second half: the four retrieval nodes behind
  \<open>get_task_context\<close>. Each resolves the scope on its own. The time spans and log lines are left out.
\<close>

section \<open>The nodes\<close>

text \<open>A node starts with an empty meter.\<close>

definition new_meter :: meter where
  "new_meter = \<lparr>mt_calls = 0, mt_suppressed = []\<rparr>"

definition resolve_scope_node :: "task_ctx \<Rightarrow> bool \<Rightarrow> (scope_resolution \<times> meter) broker" where
  "resolve_scope_node cx broadened = resolve_entities cx broadened new_meter"

definition admitted_edges :: "edge_row list \<Rightarrow> edge_row list" where
  "admitted_edges es = filter (\<lambda>e. admits (er_trust e) ''EXTRACTED'' False) es"

definition calls_edge_tier ::
  "uuid option \<Rightarrow> uuid option \<Rightarrow> (uuid \<times> uuid) set \<Rightarrow> string option \<Rightarrow> confidence_tier \<times> string option" where
  "calls_edge_tier caller_file target_file import_pairs target_path =
     (if caller_file \<noteq> None \<and> caller_file = target_file then (Deterministic, None)
      else if caller_file \<noteq> None \<and> target_file \<noteq> None \<and> (the caller_file, the target_file) \<in> import_pairs
      then (Deterministic, None)
      else (Interpreted, Some (case target_path of
          Some (c # p) \<Rightarrow> ''`calls` edge is not corroborated by an import of '' @ c # p
             @ ''; a same-named symbol elsewhere may be the real target - verify before relying on it''
        | _ \<Rightarrow> ''`calls` edge target's defining module could not be resolved (no `defined_in` edge); the call target is unverified - a same-named symbol may be the real target'')))"

text \<open>What the corroboration rule looks at: which file defines a symbol, which file imports which.\<close>

record corroboration =
  cb_defined_in :: "(uuid, uuid) dict"
  cb_imports :: "(uuid \<times> uuid) set"

definition first_hop :: "edge_row list \<Rightarrow> corroboration" where
  "first_hop es = \<lparr>
     cb_defined_in = dict_update_all [] (map (\<lambda>e. (er_from e, er_to e)) (filter (\<lambda>e. er_type e = ''defined_in'') es)),
     cb_imports = set (map (\<lambda>e. (er_from e, er_to e)) (filter (\<lambda>e. er_type e = ''imports'') es))\<rparr>"

definition second_hop :: "edge_row \<Rightarrow> corroboration \<Rightarrow> corroboration" where
  "second_hop e cb =
     (if er_type e = ''defined_in''
      then (if map_of (cb_defined_in cb) (er_from e) = None
            then cb\<lparr>cb_defined_in := AList.update (er_from e) (er_to e) (cb_defined_in cb)\<rparr> else cb)
      else cb\<lparr>cb_imports := insert (er_from e, er_to e) (cb_imports cb)\<rparr>)"

definition file_path_of :: "(uuid, artifact_row) dict \<Rightarrow> uuid option \<Rightarrow> string option" where
  "file_path_of allowed u = Option.bind u (\<lambda>f. map_option file_of (map_of allowed f))"

definition blast_entity ::
  "(uuid, artifact_row) dict \<Rightarrow> corroboration \<Rightarrow> uuid \<Rightarrow> edge_row \<Rightarrow> blast_entry option" where
  "blast_entity allowed cb neighbor e =
     (case map_of allowed neighbor of None \<Rightarrow> None
      | Some row \<Rightarrow>
          let target = map_of (cb_defined_in cb) (er_to e);
              (tier, caveat) = (if er_type e = ''calls''
                 then calls_edge_tier (map_of (cb_defined_in cb) (er_from e)) target (cb_imports cb) (file_path_of allowed target)
                 else (Deterministic, None))
          in Some \<lparr>be_id = ar_id row, be_path = file_of row, be_symbol = symbol_of row, be_edge_type = er_type e,
                be_tier = tier, be_caveat = caveat\<rparr>)"

definition ordered :: "blast_entry list \<Rightarrow> blast_entry list" where
  "ordered es = sort_key (\<lambda>e. (be_path e, str_or (be_symbol e) [], uuid_str (be_id e))) es"

definition caller_edges :: "nat \<Rightarrow> uuid set \<Rightarrow> edge_row list \<Rightarrow> edge_row list" where
  "caller_edges cap seeds es = take cap (filter (\<lambda>e. er_type e \<in> {''calls'', ''imports''} \<and> er_to e \<in> seeds \<and> er_from e \<notin> seeds) es)"

definition callee_edges :: "nat \<Rightarrow> uuid set \<Rightarrow> edge_row list \<Rightarrow> edge_row list" where
  "callee_edges cap seeds es = take cap (filter (\<lambda>e. er_type e \<in> {''calls'', ''imports''} \<and> er_from e \<in> seeds \<and> er_to e \<notin> seeds) es)"

definition test_edges :: "nat \<Rightarrow> uuid set \<Rightarrow> edge_row list \<Rightarrow> edge_row list" where
  "test_edges cap seeds es = take cap (filter (\<lambda>e. er_type e = ''tests'' \<and> er_to e \<in> seeds \<and> er_from e \<notin> seeds) es)"

definition blast_of ::
  "nat \<Rightarrow> uuid set \<Rightarrow> edge_row list \<Rightarrow> (uuid, artifact_row) dict \<Rightarrow> corroboration \<Rightarrow> blast_resolution" where
  "blast_of cap seeds es allowed cb =
     \<lparr>bl_callers = ordered (List.map_filter (\<lambda>e. blast_entity allowed cb (er_from e) e) (caller_edges cap seeds es)),
      bl_callees = ordered (List.map_filter (\<lambda>e. blast_entity allowed cb (er_to e) e) (callee_edges cap seeds es)),
      bl_tests = ordered (List.map_filter (\<lambda>e. blast_entity allowed cb (er_from e) e) (test_edges cap seeds es))\<rparr>"

definition neighbor_ids :: "nat \<Rightarrow> uuid set \<Rightarrow> edge_row list \<Rightarrow> uuid list" where
  "neighbor_ids cap seeds es =
     remdups (map er_from (caller_edges cap seeds es @ test_edges cap seeds es) @ map er_to (callee_edges cap seeds es))"

definition corroborate :: "task_ctx \<Rightarrow> uuid list \<Rightarrow> corroboration \<Rightarrow> meter \<Rightarrow> (corroboration \<times> meter) broker" where
  "corroborate cx neighbors cb m =
     (let seeds = remdups (neighbors @ map snd (cb_defined_in cb))
      in if seeds = [] then ret (cb, m)
         else bindM (db_get (\<lambda>d. fetch_edges_touching d seeds (tx_seq cx) (Some [''defined_in'', ''imports'']))) (\<lambda>es.
           ret (fold second_hop (admitted_edges es) cb, one_call m)))"

definition blast_radius_node :: "task_ctx \<Rightarrow> bool \<Rightarrow> (blast_resolution \<times> meter) broker" where
  "blast_radius_node cx broadened =
     bindM (resolve_entities cx broadened new_meter) (\<lambda>(scope, m1).
     let seed_ids = map se_id (sr_entities scope); seeds = set seed_ids;
         cap = max_graph_neighbors (dp_settings (tx_deps cx)) in
     if seed_ids = [] then ret (no_blast, m1)
     else bindM (db_get (\<lambda>d. fetch_edges_touching d seed_ids (tx_seq cx)
              (Some [''calls'', ''imports'', ''tests'', ''defined_in'']))) (\<lambda>touching.
       let es = admitted_edges touching; neighbors = neighbor_ids cap seeds es in
       bindM (corroborate cx neighbors (first_hop es) (one_call m1)) (\<lambda>(cb, m2).
       bindM (hydrate_allowed cx (remdups (neighbors @ map snd (cb_defined_in cb))) m2) (\<lambda>(allowed, m3).
       ret (blast_of cap seeds es allowed cb, m3)))))"

definition GENERIC_SEGMENTS :: "string set" where
  "GENERIC_SEGMENTS = {''src'', ''services'', ''tests'', ''test'', ''lib'', ''docs''}"

text \<open>\<open>s.rsplit(".", 1)[0]\<close>: what stands before the last dot, or the whole without one.\<close>

definition before_last_dot :: "string \<Rightarrow> string" where
  "before_last_dot s = (let ps = split_on CHR ''.'' s in if length ps = 1 then s else py_join ''.'' (butlast ps))"

definition entity_terms :: "scope_entity \<Rightarrow> string list" where
  "entity_terms e =
     (let segments = split_on CHR ''/'' (py_lower (se_path e))
      in filter (\<lambda>w. w \<noteq> [] \<and> w \<notin> GENERIC_SEGMENTS) (before_last_dot (last segments) # butlast segments))"

definition scope_terms :: "scope_resolution \<Rightarrow> string list" where
  "scope_terms scope = concat (map entity_terms (sr_entities scope))"

definition doc_text :: "artifact_row \<Rightarrow> string" where
  "doc_text a = py_lower (str_or (ar_title a) [] @ '' '' @ str_or (ar_body a) [])"

definition relevant_docs :: "string list \<Rightarrow> artifact_row list \<Rightarrow> artifact_row list" where
  "relevant_docs terms found =
     (let docs = filter (\<lambda>a. ar_type a \<notin> TASK_CODE_TYPES \<and> ar_type a \<notin> {ALIAS_TYPE, COMMIT_TYPE}) found;
          relevant = filter (\<lambda>a. list_ex (\<lambda>t. py_in t (doc_text a)) terms) docs
      in if terms \<noteq> [] \<and> relevant \<noteq> [] then relevant else docs)"

text \<open>The rows of the task search, from the resolution when it ran the same search.\<close>

definition convention_rows ::
  "task_ctx \<Rightarrow> bool \<Rightarrow> artifact_row list option \<Rightarrow> meter \<Rightarrow> (artifact_row list \<times> meter) broker" where
  "convention_rows cx broadened task_rows m =
     (if broadened \<or> task_rows = None
      then bindM (search_rows cx (tk_task (tx_request cx)) TASK_SEARCH_TOP m) (\<lambda>((found, _), m'). ret (found, m'))
      else ret (the task_rows, m))"

definition conventions_node :: "task_ctx \<Rightarrow> bool \<Rightarrow> (convention list \<times> meter) broker" where
  "conventions_node cx broadened =
     bindM (resolve_entities_and_rows cx broadened new_meter) (\<lambda>((scope, task_rows), m1).
     bindM (convention_rows cx broadened task_rows m1) (\<lambda>(found, m2).
     bindM (liftM (mapE (\<lambda>a. convention_of (str_or (ar_title a) (file_of a)) (ar_id a))
              (take MAX_CONVENTIONS (relevant_docs (scope_terms scope) found)))) (\<lambda>cs. ret (cs, m2))))"

text \<open>The first line of a stripped text.\<close>

definition first_line :: "string \<Rightarrow> string" where
  "first_line s = takeWhile (\<lambda>c. \<not> py_linebreak c) (py_strip s)"

definition prior_of :: "artifact_row \<Rightarrow> prior_change" where
  "prior_of a = \<lparr>pc_id = (if file_of a = [] then uuid_str (ar_id a) else file_of a),
     pc_summary = take 200 (str_or (ar_title a) (first_line (str_or (ar_body a) []))), pc_evidence = [ar_id a]\<rparr>"

definition similar_prior_changes_node :: "task_ctx \<Rightarrow> (prior_change list \<times> meter) broker" where
  "similar_prior_changes_node cx =
     bindM (search_rows cx (tk_task (tx_request cx)) BROADENED_TOP new_meter) (\<lambda>((found, _), m).
     ret (map prior_of (take MAX_PRIOR_CHANGES (filter (\<lambda>a. ar_type a = COMMIT_TYPE) found)), m))"

section \<open>The nodes only read\<close>

lemma each_hint_reads: "(\<And>x st. reads_only (f x st)) \<Longrightarrow> reads_only (each_hint f xs st)"
  by (induction xs arbitrary: st) (auto intro: reads_intros)

lemma ambiguous_exn: "ambiguous_candidate a cs r = Inl e \<Longrightarrow> \<not> ledgered_exn e"
  by (auto simp: ambiguous_candidate_def split: if_splits)

lemma add_matches_exn: "add_matches h r q ms s = Inl e \<Longrightarrow> \<not> ledgered_exn e"
  by (auto simp: add_matches_def split: list.splits sum.splits dest: ambiguous_exn)

lemma convention_exn: "mapE (\<lambda>a. convention_of (p a) (u a)) as = Inl e \<Longrightarrow> \<not> ledgered_exn e"
  by (induction as) (auto simp: convention_of_def split: if_splits sum.splits)

lemma search_rows_reads [reads_intros]: "reads_only (search_rows cx q n m)"
  unfolding search_rows_def Let_def by (intro reads_intros)

lemma hydrate_reads [reads_intros]: "reads_only (hydrate_allowed cx ids m)"
  unfolding hydrate_allowed_def Let_def by (intro reads_intros)

lemma hints_reads [reads_intros]: "reads_only (resolve_from_hints cx m)"
  unfolding resolve_from_hints_def symbol_hint_def path_hint_def Let_def split_def
  by (intro reads_intros each_hint_reads add_matches_exn)

lemma alias_reads [reads_intros]: "reads_only (resolve_from_alias cx found scores m)"
proof (cases "filter (\<lambda>a. ar_type a = ALIAS_TYPE) found")
  case (Cons best others)
  then show ?thesis unfolding resolve_from_alias_def Cons list.case Let_def split_def
    by (intro reads_intros ambiguous_exn)
qed (simp add: resolve_from_alias_def reads_ret)

lemma entities_and_rows_reads [reads_intros]: "reads_only (resolve_entities_and_rows cx b m)"
  unfolding resolve_entities_and_rows_def split_def by (intro reads_intros)

lemma entities_reads [reads_intros]: "reads_only (resolve_entities cx b m)"
  unfolding resolve_entities_def split_def by (intro reads_intros)

lemma corroborate_reads [reads_intros]: "reads_only (corroborate cx ns cb m)"
  unfolding corroborate_def Let_def by (intro reads_intros)

lemma convention_rows_reads [reads_intros]: "reads_only (convention_rows cx b tr m)"
  unfolding convention_rows_def split_def by (intro reads_intros)

lemma nodes_read [reads_intros]:
  "reads_only (resolve_scope_node cx b)" "reads_only (blast_radius_node cx b)"
  "reads_only (conventions_node cx b)" "reads_only (similar_prior_changes_node cx)"
  unfolding resolve_scope_node_def blast_radius_node_def conventions_node_def similar_prior_changes_node_def
    Let_def split_def
  by (intro reads_intros convention_exn; assumption)+

end
