(* ===== verification/TaskContext.thy ===== *)
theory TaskContext
  imports TaskNodes
begin

text \<open>
  \<open>context_broker/task_context.py\<close>: \<open>get_task_context\<close>. The LangGraph runtime is read off the graph the
  code builds: the four nodes, whose updates touch different keys, then the synthesis, then at
  most one broadened pass. The nodes run here one after the other. The serialization of a
  response is a parameter. Trace spans, clock readings and log lines are left out.
\<close>

section \<open>The response\<close>

record wire_entry =
  we_id :: uuid
  we_path_ref :: nat
  we_symbol :: "string option"
  we_edge_type :: string
  we_tier :: confidence_tier
  we_caveat :: "string option"

record task_response =
  tr_entities :: "scope_entity list"
  tr_ambiguous :: "ambiguous_candidate list"
  tr_paths :: "string list"
  tr_callers :: "wire_entry list"
  tr_callees :: "wire_entry list"
  tr_tests :: "wire_entry list"
  tr_conventions :: "convention list"
  tr_prior :: "prior_change list"
  tr_evidence :: "uuid list"
  tr_questions :: "string list"
  tr_tokens :: nat
  tr_calls :: nat

definition floor_scope :: "scope_resolution \<Rightarrow> task_request \<Rightarrow> scope_resolution" where
  "floor_scope s req = s\<lparr>sr_entities := filter (\<lambda>e. admits_floor (se_tier e) (tk_floor req)) (sr_entities s)\<rparr>"

definition floor_blast :: "blast_resolution \<Rightarrow> task_request \<Rightarrow> blast_resolution" where
  "floor_blast b req =
     (let keep = filter (\<lambda>e. admits_floor (be_tier e) (tk_floor req))
      in \<lparr>bl_callers = keep (bl_callers b), bl_callees = keep (bl_callees b), bl_tests = keep (bl_tests b)\<rparr>)"

definition blast_entries :: "blast_resolution \<Rightarrow> blast_entry list" where
  "blast_entries b = bl_callers b @ bl_callees b @ bl_tests b"

definition collect_evidence ::
  "scope_resolution \<Rightarrow> blast_resolution \<Rightarrow> convention list \<Rightarrow> prior_change list \<Rightarrow> uuid list" where
  "collect_evidence scope blast cs ps =
     sort_key uuid_str (remdups (map se_id (sr_entities scope) @ concat (map am_candidates (sr_ambiguous scope))
       @ map be_id (blast_entries blast) @ concat (map cv_evidence cs) @ concat (map pc_evidence ps)))"

text \<open>The position of a path in the table, which holds every path of the entries.\<close>

fun path_index :: "string list \<Rightarrow> string \<Rightarrow> nat" where
  "path_index [] p = 0"
| "path_index (q # qs) p = (if q = p then 0 else Suc (path_index qs p))"

definition to_wire :: "string list \<Rightarrow> blast_entry \<Rightarrow> wire_entry" where
  "to_wire paths e = \<lparr>we_id = be_id e, we_path_ref = path_index paths (be_path e), we_symbol = be_symbol e,
     we_edge_type = be_edge_type e, we_tier = be_tier e, we_caveat = be_caveat e\<rparr>"

definition referenced_paths :: "blast_resolution \<Rightarrow> string list" where
  "referenced_paths b = sort (remdups (map be_path (blast_entries b)))"

definition build_response ::
  "scope_resolution \<Rightarrow> blast_resolution \<Rightarrow> convention list \<Rightarrow> prior_change list \<Rightarrow> string list \<Rightarrow> nat \<Rightarrow> task_response" where
  "build_response scope blast cs ps questions calls_used =
     (let paths = referenced_paths blast; wire = map (to_wire paths)
      in \<lparr>tr_entities = sr_entities scope, tr_ambiguous = sr_ambiguous scope, tr_paths = paths,
          tr_callers = wire (bl_callers blast), tr_callees = wire (bl_callees blast), tr_tests = wire (bl_tests blast),
          tr_conventions = cs, tr_prior = ps, tr_evidence = collect_evidence scope blast cs ps,
          tr_questions = questions, tr_tokens = 0, tr_calls = calls_used\<rparr>)"

section \<open>The trim loop\<close>

record buckets =
  bk_prior :: "prior_change list"
  bk_conventions :: "convention list"
  bk_callees :: "blast_entry list"
  bk_callers :: "blast_entry list"
  bk_tests :: "blast_entry list"

definition bucket_size :: "buckets \<Rightarrow> nat" where
  "bucket_size b = length (bk_prior b) + length (bk_conventions b) + length (bk_callees b)
     + length (bk_callers b) + length (bk_tests b)"

text \<open>Drop the last item of the first bucket that has one.\<close>

definition pop_lowest :: "buckets \<Rightarrow> buckets option" where
  "pop_lowest b =
     (if bk_prior b \<noteq> [] then Some (b\<lparr>bk_prior := butlast (bk_prior b)\<rparr>)
      else if bk_conventions b \<noteq> [] then Some (b\<lparr>bk_conventions := butlast (bk_conventions b)\<rparr>)
      else if bk_callees b \<noteq> [] then Some (b\<lparr>bk_callees := butlast (bk_callees b)\<rparr>)
      else if bk_callers b \<noteq> [] then Some (b\<lparr>bk_callers := butlast (bk_callers b)\<rparr>)
      else if bk_tests b \<noteq> [] then Some (b\<lparr>bk_tests := butlast (bk_tests b)\<rparr>)
      else None)"

lemma pop_lowest_size: "pop_lowest b = Some b' \<Longrightarrow> Suc (bucket_size b') = bucket_size b"
  by (auto simp: pop_lowest_def bucket_size_def split: if_splits)

function trim_buckets :: "(buckets \<Rightarrow> nat) \<Rightarrow> int \<Rightarrow> buckets \<Rightarrow> buckets" where
  "trim_buckets tokens_of cap b =
     (if int (tokens_of b) \<le> cap then b
      else case pop_lowest b of None \<Rightarrow> b | Some b' \<Rightarrow> trim_buckets tokens_of cap b')"
  by pat_completeness auto
termination
  by (relation "measure (\<lambda>(_, _, b). bucket_size b)") (auto dest: pop_lowest_size)

declare trim_buckets.simps [simp del]

section \<open>The synthesis\<close>

text \<open>The state the four nodes leave.\<close>

record task_state =
  ts_broadened :: bool
  ts_scope :: scope_resolution
  ts_blast :: blast_resolution
  ts_conventions :: "convention list"
  ts_prior :: "prior_change list"
  ts_meter :: meter

definition GAP_QUESTION :: string where
  "GAP_QUESTION = ''No entity in the knowledge base could be resolved for this task, even after a broadened search - the KB may not cover this area yet. Proceed from the task description and repository files directly.''"

definition token_cap :: "task_ctx \<Rightarrow> int" where
  "token_cap cx =
     (let server_cap = int (task_context_max_tokens (dp_settings (tx_deps cx)))
      in min (case tk_max (tx_request cx) of None \<Rightarrow> server_cap | Some n \<Rightarrow> if n = 0 then server_cap else n) server_cap)"

definition bucket_blast :: "buckets \<Rightarrow> blast_resolution" where
  "bucket_blast b = \<lparr>bl_callers = bk_callers b, bl_callees = bk_callees b, bl_tests = bk_tests b\<rparr>"

definition synthesize :: "(task_response \<Rightarrow> string) \<Rightarrow> task_ctx \<Rightarrow> task_state \<Rightarrow> task_response" where
  "synthesize dump cx st =
     (let req = tx_request cx;
          scope = floor_scope (ts_scope st) req; blast = floor_blast (ts_blast st) req;
          cs = filter (\<lambda>c. admits_floor (cv_tier c) (tk_floor req)) (ts_conventions st);
          ps = (if admits_floor Interpreted (tk_floor req) then ts_prior st else []);
          questions = sr_questions scope @ (if unresolved scope \<and> ts_broadened st then [GAP_QUESTION] else []);
          respond = (\<lambda>b. build_response scope (bucket_blast b) (bk_conventions b) (bk_prior b) questions (mt_calls (ts_meter st)));
          tokens_of = (\<lambda>b. estimate_tokens (dump (respond b)));
          kept = trim_buckets tokens_of (token_cap cx)
            \<lparr>bk_prior = ps, bk_conventions = cs, bk_callees = bl_callees blast, bk_callers = bl_callers blast, bk_tests = bl_tests blast\<rparr>
      in (respond kept)\<lparr>tr_tokens := tokens_of kept\<rparr>)"

section \<open>The graph\<close>

text \<open>\<open>operator.add\<close>, the reducer of the shared counters.\<close>

definition add_meter :: "meter \<Rightarrow> meter \<Rightarrow> meter" where
  "add_meter m n = \<lparr>mt_calls = mt_calls m + mt_calls n, mt_suppressed = mt_suppressed m @ mt_suppressed n\<rparr>"

definition fan_out :: "task_ctx \<Rightarrow> bool \<Rightarrow> meter \<Rightarrow> task_state broker" where
  "fan_out cx broadened m =
     bindM (resolve_scope_node cx broadened) (\<lambda>(scope, m1).
     bindM (blast_radius_node cx broadened) (\<lambda>(blast, m2).
     bindM (conventions_node cx broadened) (\<lambda>(cs, m3).
     bindM (similar_prior_changes_node cx) (\<lambda>(ps, m4).
     ret \<lparr>ts_broadened = broadened, ts_scope = scope, ts_blast = blast, ts_conventions = cs, ts_prior = ps,
          ts_meter = foldl add_meter m [m1, m2, m3, m4]\<rparr>))))"

text \<open>The route after the synthesis: one more pass, only when nothing was resolved.\<close>

definition wants_retry :: "task_state \<Rightarrow> bool" where
  "wants_retry st \<longleftrightarrow> unresolved (ts_scope st) \<and> \<not> ts_broadened st"

definition run_graph :: "(task_response \<Rightarrow> string) \<Rightarrow> task_ctx \<Rightarrow> (task_response \<times> task_state) broker" where
  "run_graph dump cx =
     bindM (fan_out cx False new_meter) (\<lambda>st.
       if wants_retry st then bindM (fan_out cx True (ts_meter st)) (\<lambda>st2. ret (synthesize dump cx st2, st2))
       else ret (synthesize dump cx st, st))"

section \<open>The tool\<close>

definition tracing_enabled :: "(string \<Rightarrow> string option) \<Rightarrow> bool" where
  "tracing_enabled env \<longleftrightarrow>
     py_lower (py_strip (case env ''LANGSMITH_TRACING'' of None \<Rightarrow> [] | Some s \<Rightarrow> s)) \<in> {''true'', ''1''}"

definition task_event ::
  "(string \<Rightarrow> string option) \<Rightarrow> task_request \<Rightarrow> requester \<Rightarrow> string \<Rightarrow> task_response \<Rightarrow> task_state \<Rightarrow> retrieval_event" where
  "task_event env req rq kb_version resp st =
     (event NO_RUN_SENTINEL (subject rq) ''get_task_context'' ''approved'' kb_version)
       \<lparr>ev_query_text := Some (tk_task req), ev_returned := tr_evidence resp, ev_tokens_returned := int (tr_tokens resp),
        ev_details := Some [(''entities'', JInt (int (length (tr_entities resp)))),
          (''ambiguous_candidates'', JInt (int (length (tr_ambiguous resp)))),
          (''callers'', JInt (int (length (tr_callers resp)))), (''callees'', JInt (int (length (tr_callees resp)))),
          (''tests'', JInt (int (length (tr_tests resp)))), (''conventions'', JInt (int (length (tr_conventions resp)))),
          (''similar_prior_changes'', JInt (int (length (tr_prior resp)))),
          (''open_questions'', JInt (int (length (tr_questions resp)))),
          (''calls_used'', JInt (int (mt_calls (ts_meter st)))), (''retried'', JBool (ts_broadened st)),
          (''confidence_floor'', JStr (tier_name (tk_floor req))), (''tracing'', JBool (tracing_enabled env))]\<rparr>"

definition get_task_context ::
  "deps \<Rightarrow> (string \<Rightarrow> string option) \<Rightarrow> (task_response \<Rightarrow> string) \<Rightarrow> task_request \<Rightarrow> requester \<Rightarrow> task_response broker" where
  "get_task_context dp env dump req rq =
     bindM (db_read fetch_active_version) (\<lambda>active. case active of
       None \<Rightarrow> ledgered_error ''get_task_context'' (subject rq)
                 (error_defaults\<lparr>ea_query_text := Some (tk_task req)\<rparr>) MSG_NO_ACTIVE_VERSION
     | Some v \<Rightarrow>
         bindM (run_graph dump \<lparr>tx_deps = dp, tx_requester = rq, tx_request = req, tx_seq = av_build_seq v\<rparr>) (\<lambda>(resp, st).
         bindM (insert_event (task_event env req rq (av_kb_version v) resp st)) (\<lambda>_. ret resp)))"

section \<open>What the nodes find\<close>

text \<open>A row the caller may see, of the build the call reads.\<close>

definition seen_row :: "registry \<Rightarrow> task_ctx \<Rightarrow> artifact_row \<Rightarrow> bool" where
  "seen_row r cx a \<longleftrightarrow> acl_admits (tx_requester cx) (ar_acl a) \<and> (\<exists>ids. a \<in> set (fetch_artifacts r ids (tx_seq cx)))"

definition entity_ok :: "registry \<Rightarrow> task_ctx \<Rightarrow> scope_entity \<Rightarrow> bool" where
  "entity_ok r cx e \<longleftrightarrow> (\<exists>a. seen_row r cx a \<and> se_id e = ar_id a \<and> se_path e = file_of a)"

text \<open>
  An entry stands for a visible row at an end of an admitted edge of the build; a caveat marks
  exactly the calls edges that no structural signal corroborates.
\<close>

definition entry_ok :: "registry \<Rightarrow> task_ctx \<Rightarrow> blast_entry \<Rightarrow> bool" where
  "entry_ok r cx b \<longleftrightarrow> (\<exists>a e. seen_row r cx a \<and> be_id b = ar_id a \<and> be_path b = file_of a
     \<and> e \<in> set (edges r) \<and> edge_member (tx_seq cx) e \<and> ke_trust e = ''EXTRACTED'' \<and> ke_type e = be_edge_type b
     \<and> ar_id a \<in> {ke_from e, ke_to e}
     \<and> (be_tier b = (if be_caveat b = None then Deterministic else Interpreted))
     \<and> (be_caveat b \<noteq> None \<longrightarrow> be_edge_type b = ''calls''))"

definition scope_ok :: "registry \<Rightarrow> task_ctx \<Rightarrow> scope_resolution \<Rightarrow> bool" where
  "scope_ok r cx s \<longleftrightarrow> (\<forall>e \<in> set (sr_entities s). entity_ok r cx e)"

lemma scope_ok_none [simp]: "scope_ok r cx no_scope"
  by (simp add: scope_ok_def no_scope_def)

lemma filter_seen: "a \<in> set (filter_artifacts (tx_requester cx) (fetch_artifacts r ids (tx_seq cx))) \<Longrightarrow> seen_row r cx a"
  by (auto simp: filter_artifacts_def seen_row_def)

lemma search_rows_yields [yields_intros]:
  "yields r (search_rows cx q n m) (\<lambda>((found, scores), m'). \<forall>a \<in> set found. seen_row r cx a)"
  unfolding search_rows_def search_call_def
  by (rule yields_bindM [where R = "\<lambda>_. True"])
    (auto simp: Let_def intro!: yields_intros yields_bindM [where R = "\<lambda>_. True"]
      yields_bindM [OF yields_db_get [where P = "\<lambda>x. x = fetch_artifacts r _ (tx_seq cx)"]] dest: filter_seen)

lemma hydrate_yields [yields_intros]:
  "yields r (hydrate_allowed cx ids m) (\<lambda>(allowed, m'). \<forall>u a. map_of allowed u = Some a \<longrightarrow> seen_row r cx a \<and> ar_id a = u)"
  unfolding hydrate_allowed_def
  by (auto simp: Let_def intro!: yields_intros
      yields_bindM [OF yields_db_get [where P = "\<lambda>x. x = fetch_artifacts r _ (tx_seq cx)"]] dest!: rows_by_id_Some dest: filter_seen)

lemma entity_seen: "seen_row r cx a \<Longrightarrow> entity_ok r cx (entity a src tier)"
  by (auto simp: entity_ok_def entity_def)

lemma add_matches_ok:
  assumes "add_matches h why q ms s = Inr s'" and "scope_ok r cx s" and "\<And>a. a \<in> set ms \<Longrightarrow> seen_row r cx a"
  shows "scope_ok r cx s'"
  using assms entity_seen
  by (fastforce simp: add_matches_def scope_ok_def split: list.splits sum.splits)

lemma fold_path_match_subset: "set (fold (path_match p) found d) \<subseteq> set d \<union> {(file_of a, a) | a. a \<in> set found}"
proof (induction found arbitrary: d)
  case (Cons a found)
  have "set (path_match p a d) \<subseteq> insert (file_of a, a) (set d)"
    using set_update_subset [of "file_of a" a d] by (auto simp: path_match_def split: option.splits)
  with Cons [of "path_match p a d"] show ?case by fastforce
qed simp

lemma path_matches_subset: "set (path_matches p found) \<subseteq> set found"
  using fold_path_match_subset [of p found "[]"] by (fastforce simp: path_matches_def)

lemma each_hint_yields:
  assumes "\<And>x st. P st \<Longrightarrow> yields r (f x st) P" and "P st" shows "yields r (each_hint f xs st) P"
  using assms(2) by (induction xs arbitrary: st) (auto intro!: yields_intros yields_bindM [OF assms(1)])

lemma matches_ok:
  assumes "\<forall>a \<in> set found. seen_row r cx a" and "scope_ok r cx s"
  shows "add_matches h why q (symbol_matches y found) s = Inr s' \<Longrightarrow> scope_ok r cx s'"
    and "add_matches h why q (path_matches y found) s = Inr s' \<Longrightarrow> scope_ok r cx s'"
  using assms path_matches_subset [of y found]
  by (auto simp: symbol_matches_def elim!: add_matches_ok)

lemma hint_yields:
  assumes "scope_ok r cx (fst st)"
  shows "yields r (symbol_hint cx s st) (\<lambda>st'. scope_ok r cx (fst st'))"
    and "yields r (path_hint cx s st) (\<lambda>st'. scope_ok r cx (fst st'))"
  unfolding symbol_hint_def path_hint_def Let_def split_def using assms
  by (auto simp: split_def intro!: yields_intros yields_bindM [OF search_rows_yields]
      yields_bindM [where R = "scope_ok r cx"] dest: matches_ok)

lemma hints_yields: "yields r (resolve_from_hints cx m) (\<lambda>st. scope_ok r cx (fst st))"
  unfolding resolve_from_hints_def
  by (auto split: option.splits intro!: yields_intros each_hint_yields hint_yields
      yields_bindM [where R = "\<lambda>st. scope_ok r cx (fst st)"])

lemma alias_yields: "yields r (resolve_from_alias cx found scores m) (\<lambda>st. scope_ok r cx (fst st))"
proof (cases "filter (\<lambda>a. ar_type a = ALIAS_TYPE) found")
  case (Cons best others)
  have ents: "scope_ok r cx (no_scope\<lparr>sr_entities := take k (map (\<lambda>a. entity a s t) (List.map_filter (map_of allowed) us))\<rparr>)"
    if "\<forall>u a. map_of allowed u = Some a \<longrightarrow> seen_row r cx a \<and> ar_id a = u" for allowed us k s t
    using that entity_seen by (auto simp: scope_ok_def List.map_filter_def dest!: in_set_takeD)
  show ?thesis unfolding resolve_from_alias_def Cons list.case Let_def
    by (auto simp: split_def intro!: yields_intros yields_bindM [OF hydrate_yields] ents
        yields_bindM [where R = "\<lambda>_. True"]) (simp add: scope_ok_def)
qed (simp add: resolve_from_alias_def yields_ret)

lemma search_scope_ok: "\<forall>a \<in> set found. seen_row r cx a \<Longrightarrow> scope_ok r cx ((resolve_from_search found b)\<lparr>sr_questions := qs\<rparr>)"
  using entity_seen by (auto simp: scope_ok_def resolve_from_search_def Let_def dest!: in_set_takeD)

lemma entities_and_rows_yields:
  "yields r (resolve_entities_and_rows cx b m)
     (\<lambda>((scope, found), m'). scope_ok r cx scope \<and> (\<forall>as. found = Some as \<longrightarrow> (\<forall>a \<in> set as. seen_row r cx a)))"
  unfolding resolve_entities_and_rows_def
proof (rule yields_bindM [OF hints_yields], goal_cases)
  case (1 x)
  show ?case unfolding split_def
  proof (rule yields_if, goal_cases)
    case 1 with \<open>scope_ok r cx (fst x)\<close> show ?case by (auto intro: yields_ret)
  next
    case 2
    show ?case
    proof (rule yields_bindM [OF search_rows_yields], goal_cases)
      case (1 y)
      then have found: "\<forall>a \<in> set (fst (fst y)). seen_row r cx a" by (simp add: split_def)
      show ?case unfolding split_def
      proof (rule yields_bindM [OF alias_yields], rule yields_if, goal_cases)
        case 1 with found show ?case by (intro yields_ret) (simp add: scope_ok_def)
      next
        case 2 from found show ?case by (intro yields_ret) (simp add: search_scope_ok)
      qed
    qed
  qed
qed

lemma entities_yields: "yields r (resolve_entities cx b m) (\<lambda>st. scope_ok r cx (fst st))"
  unfolding resolve_entities_def
  by (rule yields_bindM [OF entities_and_rows_yields]) (auto simp: split_def intro!: yields_intros)

text \<open>The edge of the build behind a row of the query.\<close>

definition build_edge :: "registry \<Rightarrow> task_ctx \<Rightarrow> edge_row \<Rightarrow> bool" where
  "build_edge r cx e \<longleftrightarrow> (\<exists>k \<in> set (edges r). edge_member (tx_seq cx) k \<and> ke_trust k = ''EXTRACTED'' \<and> e = edge_row_of k)"

lemma admitted_build_edge: "e \<in> set (admitted_edges (fetch_edges_touching r ids (tx_seq cx) ts)) \<Longrightarrow> build_edge r cx e"
  by (auto simp: admitted_edges_def build_edge_def in_fetch_edges admits_extracted_only edge_row_of_def)

lemma calls_edge_tier_cases:
  "fst (calls_edge_tier f g i p) = (if snd (calls_edge_tier f g i p) = None then Deterministic else Interpreted)"
  by (auto simp: calls_edge_tier_def)

lemma blast_entity_ok:
  assumes "blast_entity allowed cb n e = Some b" and "build_edge r cx e" and "n \<in> {er_from e, er_to e}"
    and "\<forall>u a. map_of allowed u = Some a \<longrightarrow> seen_row r cx a \<and> ar_id a = u"
  shows "entry_ok r cx b"
proof -
  obtain row where row: "map_of allowed n = Some row" using assms(1) by (auto simp: blast_entity_def split: option.splits)
  let ?t = "map_of (cb_defined_in cb) (er_to e)"
  let ?ct = "calls_edge_tier (map_of (cb_defined_in cb) (er_from e)) ?t (cb_imports cb) (file_path_of allowed ?t)"
  from assms(1) row have b: "be_id b = ar_id row" "be_path b = file_of row" "be_edge_type b = er_type e"
    and "be_tier b = (if er_type e = ''calls'' then fst ?ct else Deterministic)"
    and "be_caveat b = (if er_type e = ''calls'' then snd ?ct else None)"
    by (auto simp: blast_entity_def Let_def split_def)
  with calls_edge_tier_cases [of "map_of (cb_defined_in cb) (er_from e)" ?t "cb_imports cb" "file_path_of allowed ?t"]
  have t: "be_tier b = (if be_caveat b = None then Deterministic else Interpreted)"
    "be_caveat b \<noteq> None \<longrightarrow> be_edge_type b = ''calls''" by (auto split: if_splits)
  from assms(2) obtain k where k: "k \<in> set (edges r)" "edge_member (tx_seq cx) k" "ke_trust k = ''EXTRACTED''" "e = edge_row_of k"
    unfolding build_edge_def by blast
  have "ar_id row = n" "seen_row r cx row" using assms(4) row by blast+
  with b t k assms(3) show ?thesis unfolding entry_ok_def edge_row_of_def by fastforce
qed

definition blast_ok :: "registry \<Rightarrow> task_ctx \<Rightarrow> blast_resolution \<Rightarrow> bool" where
  "blast_ok r cx b \<longleftrightarrow> (\<forall>e \<in> set (blast_entries b). entry_ok r cx e)"

lemma blast_of_ok:
  assumes "\<And>e. e \<in> set es \<Longrightarrow> build_edge r cx e"
    and "\<forall>u a. map_of allowed u = Some a \<longrightarrow> seen_row r cx a \<and> ar_id a = u"
  shows "blast_ok r cx (blast_of cap seeds es allowed cb)"
proof -
  have "entry_ok r cx b" if "blast_entity allowed cb n e = Some b" "e \<in> set es" "n \<in> {er_from e, er_to e}" for b n e
    using blast_entity_ok [OF that(1) assms(1) [OF that(2)] that(3) assms(2)] .
  then show ?thesis
    by (auto simp: blast_ok_def blast_entries_def blast_of_def ordered_def List.map_filter_def caller_edges_def
        callee_edges_def test_edges_def dest!: in_set_takeD)
qed

lemma blast_node_yields: "yields r (blast_radius_node cx b) (\<lambda>st. blast_ok r cx (fst st))"
  unfolding blast_radius_node_def
proof (rule yields_bindM [OF entities_yields], goal_cases)
  case (1 x)
  have fetch: "yields r (db_get (\<lambda>d. fetch_edges_touching d ids s ts)) (\<lambda>es. es = fetch_edges_touching r ids s ts)" for ids s ts
    by (rule yields_db_get) simp
  have cor: "yields r (corroborate cx ns cb m) (\<lambda>_. True)" for ns cb m
    unfolding corroborate_def Let_def by (intro yields_intros yields_bindM [where R = "\<lambda>_. True"]) simp_all
  have node: "yields r (bindM (corroborate cx ns cb m) (\<lambda>(cb, m2).
       bindM (hydrate_allowed cx (ids cb) m2) (\<lambda>(allowed, m3). ret (blast_of cap seeds es allowed cb, m3))))
     (\<lambda>st. blast_ok r cx (fst st))" if "\<And>e. e \<in> set es \<Longrightarrow> build_edge r cx e" for ns cb m ids cap seeds es
    by (rule yields_bindM [OF cor])
      (auto simp: split_def intro!: yields_intros yields_bindM [OF hydrate_yields] blast_of_ok that)
  show ?case unfolding split_def Let_def
    by (rule yields_if, simp add: yields_ret blast_ok_def blast_entries_def no_blast_def)
      (rule yields_bindM [OF fetch], rule node [unfolded split_def], simp add: admitted_build_edge)
qed

lemma convention_rows_yields:
  "\<forall>as. tr = Some as \<longrightarrow> (\<forall>a \<in> set as. seen_row r cx a) \<Longrightarrow>
   yields r (convention_rows cx b tr m) (\<lambda>st. \<forall>a \<in> set (fst st). seen_row r cx a)"
  unfolding convention_rows_def
  by (auto simp: split_def intro!: yields_intros yields_bindM [OF search_rows_yields])

definition cited_ok :: "registry \<Rightarrow> task_ctx \<Rightarrow> uuid list \<Rightarrow> bool" where
  "cited_ok r cx us \<longleftrightarrow> (\<exists>a. seen_row r cx a \<and> us = [ar_id a])"

lemma convention_of_cited: "convention_of p (ar_id a) = Inr c \<Longrightarrow> seen_row r cx a \<Longrightarrow> cited_ok r cx (cv_evidence c)"
  by (auto simp: convention_of_def cited_ok_def split: if_splits)

lemma conventions_yields: "yields r (conventions_node cx b) (\<lambda>st. \<forall>c \<in> set (fst st). cited_ok r cx (cv_evidence c) \<and> cv_tier c = Interpreted)"
  unfolding conventions_node_def
proof (rule yields_bindM [OF entities_and_rows_yields], goal_cases)
  case (1 x)
  have sub: "set (take k (relevant_docs ts found)) \<subseteq> set found" for k ts found
    by (auto simp: relevant_docs_def Let_def dest!: in_set_takeD split: if_splits)
  show ?case unfolding split_def
  proof (rule yields_bindM [OF convention_rows_yields], use 1 in \<open>simp add: split_def\<close>, goal_cases)
    case (1 y)
    show ?case
    proof (rule yields_bindM, rule yields_liftM)
      fix cs assume m: "mapE (\<lambda>a. convention_of (str_or (ar_title a) (file_of a)) (ar_id a))
          (take MAX_CONVENTIONS (relevant_docs (scope_terms (fst (fst x))) (fst y))) = Inr cs"
      show "\<forall>c \<in> set cs. cited_ok r cx (cv_evidence c) \<and> cv_tier c = Interpreted"
      proof
        fix c assume "c \<in> set cs"
        from mapE_in [OF m this] obtain a where "a \<in> set (take MAX_CONVENTIONS (relevant_docs (scope_terms (fst (fst x))) (fst y)))"
          and c: "convention_of (str_or (ar_title a) (file_of a)) (ar_id a) = Inr c" by blast
        with sub 1 have "seen_row r cx a" by blast
        with c show "cited_ok r cx (cv_evidence c) \<and> cv_tier c = Interpreted"
          using convention_of_cited by (auto simp: convention_of_def split: if_splits)
      qed
    qed (auto intro: yields_ret)
  qed
qed

lemma prior_yields: "yields r (similar_prior_changes_node cx) (\<lambda>st. \<forall>p \<in> set (fst st). cited_ok r cx (pc_evidence p))"
  unfolding similar_prior_changes_node_def
  by (rule yields_bindM [OF search_rows_yields])
    (auto simp: split_def prior_of_def cited_ok_def intro!: yields_intros dest!: in_set_takeD, blast)

section \<open>What is kept\<close>

text \<open>The state after \<open>n\<close> drops.\<close>

fun drops :: "nat \<Rightarrow> buckets \<Rightarrow> buckets option" where
  "drops 0 b = Some b"
| "drops (Suc n) b = (case pop_lowest b of None \<Rightarrow> None | Some b' \<Rightarrow> drops n b')"

definition sub_buckets :: "buckets \<Rightarrow> buckets \<Rightarrow> bool" where
  "sub_buckets b' b \<longleftrightarrow> prefix (bk_prior b') (bk_prior b) \<and> prefix (bk_conventions b') (bk_conventions b)
     \<and> prefix (bk_callees b') (bk_callees b) \<and> prefix (bk_callers b') (bk_callers b) \<and> prefix (bk_tests b') (bk_tests b)"

lemma sub_buckets_sets:
  assumes "sub_buckets b' b"
  shows "set (bk_prior b') \<subseteq> set (bk_prior b)" "set (bk_conventions b') \<subseteq> set (bk_conventions b)"
    "set (blast_entries (bucket_blast b')) \<subseteq> set (blast_entries (bucket_blast b))"
proof -
  note p = assms [unfolded sub_buckets_def]
  show "set (bk_prior b') \<subseteq> set (bk_prior b)" "set (bk_conventions b') \<subseteq> set (bk_conventions b)"
    using p by (blast intro: set_mono_prefix [THEN subsetD])+
  have "set (bk_callees b') \<subseteq> set (bk_callees b)" "set (bk_callers b') \<subseteq> set (bk_callers b)" "set (bk_tests b') \<subseteq> set (bk_tests b)"
    using p by (blast intro: set_mono_prefix [THEN subsetD])+
  then show "set (blast_entries (bucket_blast b')) \<subseteq> set (blast_entries (bucket_blast b))"
    by (auto simp: blast_entries_def bucket_blast_def)
qed

lemma pop_lowest_sub: "pop_lowest b = Some b' \<Longrightarrow> sub_buckets b' b"
  by (auto simp: pop_lowest_def sub_buckets_def prefixeq_butlast split: if_splits)

lemma trim_sub: "sub_buckets (trim_buckets t cap b) b"
proof (induction t cap b rule: trim_buckets.induct)
  case (1 t cap b)
  have refl: "sub_buckets b b" by (simp add: sub_buckets_def)
  show ?case
  proof (cases "pop_lowest b")
    case None
    with refl show ?thesis by (subst trim_buckets.simps) simp
  next
    case (Some b')
    have "sub_buckets (trim_buckets t cap b') b" if "\<not> int (t b) \<le> cap"
      using "1.IH" [OF that Some] pop_lowest_sub [OF Some] unfolding sub_buckets_def by (meson prefix_order.trans)
    with refl Some show ?thesis by (subst trim_buckets.simps) simp
  qed
qed

text \<open>The loop stops at the first state that fits, or when nothing is left to drop.\<close>

lemma trim_buckets_least:
  "\<exists>n. drops n b = Some (trim_buckets t cap b) \<and> (\<forall>k < n. \<exists>b'. drops k b = Some b' \<and> cap < int (t b'))
     \<and> (int (t (trim_buckets t cap b)) \<le> cap \<or> pop_lowest (trim_buckets t cap b) = None)"
proof (induction t cap b rule: trim_buckets.induct)
  case (1 t cap b)
  show ?case
  proof (cases "int (t b) \<le> cap \<or> pop_lowest b = None")
    case True
    then have "trim_buckets t cap b = b" by (subst trim_buckets.simps) (auto split: option.splits)
    with True show ?thesis by (intro exI [of _ 0]) simp
  next
    case False
    then obtain b' where b': "pop_lowest b = Some b'" and big: "\<not> int (t b) \<le> cap" by auto
    then have eq: "trim_buckets t cap b = trim_buckets t cap b'" by (subst trim_buckets.simps) simp
    from "1.IH" [OF big b'] obtain n where n: "drops n b' = Some (trim_buckets t cap b')"
      "\<forall>k < n. \<exists>x. drops k b' = Some x \<and> cap < int (t x)"
      "int (t (trim_buckets t cap b')) \<le> cap \<or> pop_lowest (trim_buckets t cap b') = None" by blast
    have "\<exists>x. drops k b = Some x \<and> cap < int (t x)" if "k < Suc n" for k
      using that n(2) b' big by (cases k) auto
    with n b' eq show ?thesis by (intro exI [of _ "Suc n"]) simp
  qed
qed

lemma pop_lowest_None: "pop_lowest b = None \<longleftrightarrow>
    bk_prior b = [] \<and> bk_conventions b = [] \<and> bk_callees b = [] \<and> bk_callers b = [] \<and> bk_tests b = []"
  by (auto simp: pop_lowest_def)

section \<open>What the tool returns\<close>

lemma path_index_nth: "p \<in> set ps \<Longrightarrow> path_index ps p < length ps \<and> ps ! path_index ps p = p"
  by (induction ps) auto

definition wire_ok :: "registry \<Rightarrow> task_ctx \<Rightarrow> task_response \<Rightarrow> wire_entry \<Rightarrow> bool" where
  "wire_ok r cx resp w \<longleftrightarrow> admits_floor (we_tier w) (tk_floor (tx_request cx)) \<and> we_path_ref w < length (tr_paths resp)
     \<and> (\<exists>b. entry_ok r cx b \<and> we_id w = be_id b \<and> we_tier w = be_tier b \<and> we_caveat w = be_caveat b
          \<and> we_edge_type w = be_edge_type b \<and> tr_paths resp ! we_path_ref w = be_path b)"

definition response_ok :: "registry \<Rightarrow> task_ctx \<Rightarrow> task_response \<Rightarrow> bool" where
  "response_ok r cx resp \<longleftrightarrow>
     (\<forall>e \<in> set (tr_entities resp). entity_ok r cx e \<and> admits_floor (se_tier e) (tk_floor (tx_request cx)))
   \<and> (\<forall>w \<in> set (tr_callers resp @ tr_callees resp @ tr_tests resp). wire_ok r cx resp w)
   \<and> (\<forall>c \<in> set (tr_conventions resp). cited_ok r cx (cv_evidence c) \<and> admits_floor (cv_tier c) (tk_floor (tx_request cx)))
   \<and> (\<forall>p \<in> set (tr_prior resp). cited_ok r cx (pc_evidence p))
   \<and> (tr_prior resp \<noteq> [] \<longrightarrow> tk_floor (tx_request cx) = Interpreted)
   \<and> (int (tr_tokens resp) \<le> token_cap cx \<or> tr_prior resp = [] \<and> tr_conventions resp = [] \<and> tr_callees resp = []
        \<and> tr_callers resp = [] \<and> tr_tests resp = [])
   \<and> sorted (tr_paths resp) \<and> distinct (tr_paths resp) \<and> distinct (tr_evidence resp)"

definition state_ok :: "registry \<Rightarrow> task_ctx \<Rightarrow> task_state \<Rightarrow> bool" where
  "state_ok r cx st \<longleftrightarrow> scope_ok r cx (ts_scope st) \<and> blast_ok r cx (ts_blast st)
     \<and> (\<forall>c \<in> set (ts_conventions st). cited_ok r cx (cv_evidence c))
     \<and> (\<forall>p \<in> set (ts_prior st). cited_ok r cx (pc_evidence p))"

lemma admits_interpreted: "admits_floor Interpreted f \<longleftrightarrow> f = Interpreted"
  by (cases f) (auto simp: admits_floor_def TIER_RANK_def)

lemma to_wire_ok:
  assumes "entry_ok r cx b" and "admits_floor (be_tier b) (tk_floor (tx_request cx))" and "be_path b \<in> set (tr_paths resp)"
  shows "wire_ok r cx resp (to_wire (tr_paths resp) b)"
  unfolding wire_ok_def using assms path_index_nth [OF assms(3)]
  by (auto simp: to_wire_def)

lemma synthesize_ok:
  assumes "state_ok r cx st" shows "response_ok r cx (synthesize dump cx st)"
proof -
  let ?req = "tx_request cx" and ?fl = "tk_floor (tx_request cx)"
  define scope where "scope = floor_scope (ts_scope st) ?req"
  define b0 where "b0 = \<lparr>bk_prior = (if admits_floor Interpreted ?fl then ts_prior st else []),
     bk_conventions = filter (\<lambda>c. admits_floor (cv_tier c) ?fl) (ts_conventions st),
     bk_callees = bl_callees (floor_blast (ts_blast st) ?req), bk_callers = bl_callers (floor_blast (ts_blast st) ?req),
     bk_tests = bl_tests (floor_blast (ts_blast st) ?req)\<rparr>"
  define qs where "qs = sr_questions scope @ (if unresolved scope \<and> ts_broadened st then [GAP_QUESTION] else [])"
  define respond where "respond = (\<lambda>b. build_response scope (bucket_blast b) (bk_conventions b) (bk_prior b) qs (mt_calls (ts_meter st)))"
  define tok where "tok = (\<lambda>b. estimate_tokens (dump (respond b)))"
  define kept where "kept = trim_buckets tok (token_cap cx) b0"
  have resp: "synthesize dump cx st = (respond kept)\<lparr>tr_tokens := tok kept\<rparr>"
    by (simp only: synthesize_def Let_def scope_def b0_def qs_def respond_def tok_def kept_def)
  note sub = sub_buckets_sets [OF trim_sub [of tok "token_cap cx" b0, folded kept_def]]
  have b0: "blast_entries (bucket_blast b0) = blast_entries (floor_blast (ts_blast st) ?req)"
    by (simp add: b0_def bucket_blast_def blast_entries_def)
  have entries: "entry_ok r cx b \<and> admits_floor (be_tier b) ?fl" if "b \<in> set (blast_entries (floor_blast (ts_blast st) ?req))" for b
    using that assms by (auto simp: blast_entries_def floor_blast_def Let_def state_ok_def blast_ok_def)
  have wires: "wire_ok r cx (synthesize dump cx st) w"
    if "w \<in> set (tr_callers (respond kept) @ tr_callees (respond kept) @ tr_tests (respond kept))" for w
  proof -
    have p: "tr_paths (synthesize dump cx st) = referenced_paths (bucket_blast kept)"
      by (simp add: resp respond_def build_response_def Let_def)
    from that obtain b where b: "b \<in> set (blast_entries (bucket_blast kept))" and w: "w = to_wire (referenced_paths (bucket_blast kept)) b"
      by (auto simp: respond_def build_response_def Let_def blast_entries_def)
    from b have "b \<in> set (blast_entries (floor_blast (ts_blast st) ?req))"
      using sub(3) b0 by auto
    with b w show ?thesis
      unfolding w p [symmetric] by (intro to_wire_ok) (use entries in \<open>auto simp: p referenced_paths_def\<close>)
  qed
  have fit: "int (tok kept) \<le> token_cap cx \<or> bk_prior kept = [] \<and> bk_conventions kept = [] \<and> bk_callees kept = []
      \<and> bk_callers kept = [] \<and> bk_tests kept = []"
    using trim_buckets_least [of b0 tok "token_cap cx"] unfolding kept_def [symmetric] pop_lowest_None [symmetric] by (elim exE conjE)
  have ents: "\<forall>e \<in> set (sr_entities scope). entity_ok r cx e \<and> admits_floor (se_tier e) ?fl"
    using assms by (auto simp: scope_def floor_scope_def state_ok_def scope_ok_def)
  have cs: "\<forall>c \<in> set (bk_conventions kept). cited_ok r cx (cv_evidence c) \<and> admits_floor (cv_tier c) ?fl"
    using sub(2) assms by (auto simp: b0_def state_ok_def)
  have ps: "\<forall>p \<in> set (bk_prior kept). cited_ok r cx (pc_evidence p)"
    using sub(1) assms by (auto simp: b0_def state_ok_def split: if_splits)
  have lvl: "bk_prior kept \<noteq> [] \<longrightarrow> ?fl = Interpreted"
    using sub(1) by (cases "bk_prior kept") (auto simp: b0_def admits_interpreted split: if_splits)
  show ?thesis
    unfolding response_ok_def using wires fit ents cs ps lvl
    by (simp add: resp respond_def build_response_def Let_def bucket_blast_def referenced_paths_def collect_evidence_def)
qed

lemma scope_node_yields: "yields r (resolve_scope_node cx b) (\<lambda>st. scope_ok r cx (fst st))"
  unfolding resolve_scope_node_def by (rule entities_yields)

lemma fan_out_yields: "yields r (fan_out cx b m) (\<lambda>st. state_ok r cx st \<and> ts_broadened st = b)"
  unfolding fan_out_def split_def
  by (rule yields_bindM [OF scope_node_yields], rule yields_bindM [OF blast_node_yields],
      rule yields_bindM [OF conventions_yields], rule yields_bindM [OF prior_yields], rule yields_ret)
    (auto simp: state_ok_def)

lemma run_graph_yields:
  "yields r (run_graph dump cx) (\<lambda>(resp, st). response_ok r cx resp \<and> resp = synthesize dump cx st
     \<and> (ts_broadened st \<or> \<not> unresolved (ts_scope st)))"
  unfolding run_graph_def
proof (rule yields_bindM [OF fan_out_yields], goal_cases)
  case (1 st)
  then show ?case
    by (auto simp: synthesize_ok wants_retry_def intro!: yields_intros yields_bindM [OF fan_out_yields])
qed

lemma run_graph_reads [reads_intros]: "reads_only (run_graph dump cx)"
  unfolding run_graph_def fan_out_def split_def by (intro reads_intros)

lemma get_task_context_one_row [ledger_intros]: "one_row (get_task_context dp env dump req rq)"
  unfolding get_task_context_def
proof (rule one_row_bindM [OF reads_quiet [OF reads_active]], goal_cases)
  case (1 active w w')
  show ?case
  proof (cases active)
    case None then show ?thesis by (simp add: one_row_ledgered_error)
  next
    case (Some v)
    then show ?thesis unfolding Some option.case split_def
      by (intro one_row_bindM [OF reads_quiet [OF run_graph_reads]] one_row_insert silent_ret)
  qed
qed

theorem get_task_context_Inr:
  assumes run: "get_task_context dp env dump req rq w = (Inr resp, w')"
  obtains v st where "fetch_active_version (w_db w) = Inr (Some v)"
    "response_ok (w_db w) \<lparr>tx_deps = dp, tx_requester = rq, tx_request = req, tx_seq = av_build_seq v\<rparr> resp"
    "rows w' = rows w @ [task_event env req rq (av_kb_version v) resp st]"
proof -
  from run obtain active fs where a: "fetch_active_version (w_db w) = Inr active"
    and k: "(case active of
       None \<Rightarrow> ledgered_error ''get_task_context'' (subject rq)
                 (error_defaults\<lparr>ea_query_text := Some (tk_task req)\<rparr>) MSG_NO_ACTIVE_VERSION
     | Some v \<Rightarrow>
         bindM (run_graph dump \<lparr>tx_deps = dp, tx_requester = rq, tx_request = req, tx_seq = av_build_seq v\<rparr>) (\<lambda>(resp, st).
         bindM (insert_event (task_event env req rq (av_kb_version v) resp st)) (\<lambda>_. ret resp))) (w\<lparr>w_faults := fs\<rparr>) = (Inr resp, w')"
    unfolding get_task_context_def by (rule bindM_InrE) (auto simp: db_read_Inr)
  show thesis
  proof (cases active)
    case None
    with k show ?thesis by (simp add: ledgered_error_Inr)
  next
    case (Some v)
    let ?cx = "\<lparr>tx_deps = dp, tx_requester = rq, tx_request = req, tx_seq = av_build_seq v\<rparr>"
    from k obtain p w1 where g: "run_graph dump ?cx (w\<lparr>w_faults := fs\<rparr>) = (Inr p, w1)"
      and i: "insert_event (task_event env req rq (av_kb_version v) (fst p) (snd p)) w1 = (Inr (), w')" and r: "resp = fst p"
      unfolding Some option.case split_def by (elim bindM_InrE) (simp add: ret_iff)
    have db: "w_db (w\<lparr>w_faults := fs\<rparr>) = w_db w" by simp
    note y = yieldsD [OF run_graph_yields g, unfolded split_def db]
    then have "w_db w1 = w_db w" and "response_ok (w_db w) ?cx (fst p)" by blast+
    then show ?thesis using that [OF a [unfolded Some], of "snd p"] i r by (simp add: insert_event_Inr add_event_def)
  qed
qed

section \<open>Ambiguous aliases are not filtered\<close>

text \<open>
  When comparable alias rows disagree, every id their bodies name becomes a candidate, without a
  look at the registry or the team ACL.
\<close>

lemma alias_unfiltered:
  assumes al: "filter (\<lambda>a. ar_type a = ALIAS_TYPE) found = best # others"
    and t: "alias_targets best \<noteq> []" and d: "differing_aliases scores best others \<noteq> []"
    and task: "tk_task (tx_request cx) \<noteq> []"
  shows "\<exists>s. resolve_from_alias cx found scores m w = (Inr (s, m), w)
    \<and> set (concat (map am_candidates (sr_ambiguous s)))
      = set (alias_targets best) \<union> (\<Union>a \<in> set (differing_aliases scores best others). set (alias_targets a))"
proof -
  let ?d = "differing_aliases scores best others"
  let ?c = "dict_fromkeys (alias_targets best @ concat (map alias_targets ?d))"
  have set: "set ?c = set (alias_targets best) \<union> (\<Union>a \<in> set ?d. set (alias_targets a))" by simp
  have "\<not> length ?c < 2"
  proof
    assume "length ?c < 2"
    then have one: "x = y" if "x \<in> set ?c" "y \<in> set ?c" for x y
      using that by (cases ?c) (auto simp: less_Suc_eq)
    obtain a where a: "a \<in> set ?d" using d by (cases ?d) auto
    then have ne: "alias_targets a \<noteq> []" "set (alias_targets a) \<noteq> set (alias_targets best)"
      by (auto simp: differing_aliases_def)
    have sub: "set (alias_targets best) \<subseteq> set ?c" "set (alias_targets a) \<subseteq> set ?c" unfolding set using a by auto
    obtain x where x: "x \<in> set (alias_targets best)" using t by (cases "alias_targets best") auto
    obtain y where y: "y \<in> set (alias_targets a)" using ne by (cases "alias_targets a") auto
    have "set (alias_targets best) = {x}" "set (alias_targets a) = {y}" "x = y"
      using one sub x y by blast+
    with ne(2) show False by simp
  qed
  moreover have "str_or (ar_title best) (tk_task (tx_request cx)) \<noteq> []" using task by (auto simp: str_or_def split: option.splits)
  ultimately have "\<exists>am. ambiguous_candidate (str_or (ar_title best) (tk_task (tx_request cx))) ?c
      (nat_str (1 + length ?d) @ '' alias phrases match with comparable relevance and point at different targets; resolution stopped rather than guessing'')
      = Inr am \<and> am_candidates am = ?c"
    by (simp add: ambiguous_candidate_def)
  then show ?thesis using t d set
    by (auto simp: resolve_from_alias_def al Let_def bindM_def liftM_def ret_def)
qed

lemma json_loads_raw: "json_loads (json_raw d) = Some (as_dicts (json_of_doc d))"
  by (simp add: json_loads_def json_read_raw)

lemma map_filter_uuid_str: "\<forall>u \<in> set us. uuid_ok u \<Longrightarrow> List.map_filter uuid_of_json (map (JStr \<circ> uuid_str) us) = us"
  by (induction us) (auto simp: List.map_filter_def uuid_of_json_def parse_uuid_str)

text \<open>An alias row whose body lists its targets' ids names exactly them.\<close>

lemma alias_targets_listed:
  assumes "ar_body a = Some (json_raw (DObj [(''target_entity_ids'', DArr (map (DStr \<circ> uuid_str) us))]))"
    and "\<forall>u \<in> set us. uuid_ok u"
  shows "alias_targets a = dict_fromkeys us"
proof -
  let ?d = "DObj [(''target_entity_ids'', DArr (map (DStr \<circ> uuid_str) us))]"
  have ne: "json_raw ?d \<noteq> []" by simp
  have "as_dicts (json_of_doc ?d) = JObj [(''target_entity_ids'', JArr (map (JStr \<circ> uuid_str) us))]"
    by (simp add: comp_def)
  then have "json_loads (str_or (ar_body a) []) = Some (JObj [(''target_entity_ids'', JArr (map (JStr \<circ> uuid_str) us))])"
    using ne by (simp only: assms(1) str_or_def option.case if_False json_loads_raw)
  then show ?thesis
    by (simp add: alias_targets_def raw_targets_def map_filter_uuid_str [OF assms(2)])
qed

end
