(* ===== verification/ClaimLedger.thy ===== *)
theory ClaimLedger
  imports Broker Trust
begin

text \<open>
  \<open>infrastructure/postgres/ledger_facts.py\<close> and \<open>context_broker/claim_ledger.py\<close>: the typed
  facts of the registry and the verdict on a claim's assertion, which may rest only on
  evidence the claim cites and the caller has retrieved.
\<close>

section \<open>Fact units (ledger_facts.py)\<close>

record symbol_fact =
  sf_id :: uuid
  sf_title :: string
  sf_path :: "string option"
  sf_span_start :: "int option"
  sf_span_end :: "int option"
  sf_acl :: "string list"

record edge_fact =
  ef_id :: uuid
  ef_trust :: string
  ef_from :: uuid
  ef_acl :: "string list"

text \<open>\<open>tuple(sorted(set(xs)))\<close>.\<close>

definition sorted_set :: "string list \<Rightarrow> string list" where
  "sorted_set xs = sort (remdups xs)"

definition acl_intersection :: "string list \<Rightarrow> string list \<Rightarrow> string list" where
  "acl_intersection from_acl to_acl =
     (if from_acl = [] then sorted_set to_acl
      else if to_acl = [] then sorted_set from_acl
      else sorted_set (filter (\<lambda>t. t \<in> set to_acl) from_acl))"

definition SYMBOL_ARTIFACT_TYPES :: "string list" where
  "SYMBOL_ARTIFACT_TYPES = [''code_symbol'', ''test'']"

definition fetch_symbol_in_file_units :: "registry \<Rightarrow> string \<Rightarrow> string \<Rightarrow> int \<Rightarrow> symbol_fact list" where
  "fetch_symbol_in_file_units r symbol file build_seq =
     map (\<lambda>(a, s). \<lparr>sf_id = ka_id a, sf_title = symbol, sf_path = src_path s,
         sf_span_start = ka_span_start a, sf_span_end = ka_span_end a, sf_acl = ka_acl a\<rparr>)
       (filter (\<lambda>(a, s). ka_type a \<in> set SYMBOL_ARTIFACT_TYPES \<and> ka_title a = Some symbol
           \<and> src_path s = Some file \<and> artifact_member build_seq a) (joined r))"

definition edge_fact_of :: "knowledge_edge \<Rightarrow> knowledge_artifact \<Rightarrow> knowledge_artifact \<Rightarrow> edge_fact" where
  "edge_fact_of e f t = \<lparr>ef_id = ke_id e, ef_trust = ke_trust e, ef_from = ke_from e,
     ef_acl = acl_intersection (ka_acl f) (ka_acl t)\<rparr>"

definition fetch_file_imports_module_units :: "registry \<Rightarrow> string \<Rightarrow> string \<Rightarrow> int \<Rightarrow> edge_fact list" where
  "fetch_file_imports_module_units r file modl build_seq =
     map (\<lambda>(e, (f, s), t). edge_fact_of e f t)
       (filter (\<lambda>(e, (f, s), t). ka_id f = ke_from e \<and> ka_id t = ke_to e
           \<and> ke_type e = ''imports'' \<and> ka_type f = ''code_file'' \<and> src_path s = Some file
           \<and> ka_title t = Some modl \<and> edge_member build_seq e
           \<and> artifact_member build_seq f \<and> artifact_member build_seq t)
         (List.product (edges r) (List.product (joined r) (artifacts r))))"

definition fetch_edge_between_units :: "registry \<Rightarrow> string \<Rightarrow> uuid \<Rightarrow> uuid \<Rightarrow> int \<Rightarrow> edge_fact list" where
  "fetch_edge_between_units r edge_type a b build_seq =
     map (\<lambda>(e, f, t). edge_fact_of e f t)
       (filter (\<lambda>(e, f, t). ka_id f = ke_from e \<and> ka_id t = ke_to e \<and> ke_type e = edge_type
           \<and> (ke_from e = a \<and> ke_to e = b \<or> ke_from e = b \<and> ke_to e = a)
           \<and> edge_member build_seq e \<and> artifact_member build_seq f \<and> artifact_member build_seq t)
         (List.product (edges r) (List.product (artifacts r) (artifacts r))))"

section \<open>Adjudication (claim_ledger.py)\<close>

datatype assertion =
    SymbolInFile string string
  | FileImportsModule string string
  | EdgeBetween string string string

definition acl_visible :: "string list \<Rightarrow> requester \<Rightarrow> bool" where
  "acl_visible acl_teams rq \<longleftrightarrow> acl_teams = [] \<or> teams rq \<inter> set acl_teams \<noteq> {}"

definition visible_symbol_units :: "symbol_fact list \<Rightarrow> requester \<Rightarrow> symbol_fact list" where
  "visible_symbol_units units rq = filter (\<lambda>u. acl_visible (sf_acl u) rq) units"

definition claim_supporting_edge_units :: "edge_fact list \<Rightarrow> requester \<Rightarrow> edge_fact list" where
  "claim_supporting_edge_units units rq =
     filter (\<lambda>u. acl_visible (ef_acl u) rq \<and> ef_trust u = CLAIM_SUPPORTING) units"

definition adjudicate_typed_fact :: "assertion \<Rightarrow> int \<Rightarrow> requester \<Rightarrow> uuid set \<Rightarrow> bool broker" where
  "adjudicate_typed_fact assertion build_seq rq cited_ids = (case assertion of
       SymbolInFile symbol file \<Rightarrow>
         bindM (db_get (\<lambda>d. fetch_symbol_in_file_units d symbol file build_seq)) (\<lambda>units.
         ret (list_ex (\<lambda>u. sf_id u \<in> cited_ids) (visible_symbol_units units rq)))
     | FileImportsModule file modl \<Rightarrow>
         bindM (db_get (\<lambda>d. fetch_file_imports_module_units d file modl build_seq)) (\<lambda>units.
         ret (list_ex (\<lambda>u. ef_from u \<in> cited_ids) (claim_supporting_edge_units units rq)))
     | EdgeBetween edge_type from_id to_id \<Rightarrow>
         (case (parse_uuid from_id, parse_uuid to_id) of
            (Some a, Some b) \<Rightarrow>
              if a \<notin> cited_ids \<or> b \<notin> cited_ids then ret False
              else bindM (db_get (\<lambda>d. fetch_edge_between_units d edge_type a b build_seq)) (\<lambda>units.
                   ret (claim_supporting_edge_units units rq \<noteq> []))
          | _ \<Rightarrow> ret False))"

section \<open>Facts\<close>

lemma acl_visible_admits: "acl_visible acl rq = acl_admits rq acl"
  by (simp add: acl_visible_def acl_admits_def)

lemma set_sorted_set [simp]: "set (sorted_set xs) = set xs"
  by (simp add: sorted_set_def)

lemma sorted_set_Nil [simp]: "sorted_set xs = [] \<longleftrightarrow> xs = []"
  by (metis set_empty set_sorted_set)

lemma set_acl_intersection:
  "set (acl_intersection a b) = (if a = [] then set b else if b = [] then set a else set a \<inter> set b)"
  by (auto simp: acl_intersection_def)

text \<open>A caller who sees both ends sees the edge; the converse needs the two ends to share a team.\<close>

lemma acl_intersection_admits:
  assumes "a = [] \<or> b = [] \<or> set a \<inter> set b \<noteq> {}"
  shows "acl_admits rq (acl_intersection a b) \<longrightarrow> acl_admits rq a \<and> acl_admits rq b"
proof -
  have "acl_intersection a b = [] \<longleftrightarrow> a = [] \<and> b = [] \<or> (a \<noteq> [] \<and> b \<noteq> [] \<and> set a \<inter> set b = {})"
    by (metis set_acl_intersection set_empty)
  with assms show ?thesis by (auto simp: acl_admits_def set_acl_intersection split: if_splits)
qed

lemma acl_intersection_disjoint:
  "a \<noteq> [] \<Longrightarrow> b \<noteq> [] \<Longrightarrow> set a \<inter> set b = {} \<Longrightarrow> acl_admits rq (acl_intersection a b)"
  by (metis acl_admits_public set_acl_intersection set_empty)

lemma adjudicate_reads [reads_intros]: "reads_only (adjudicate_typed_fact a seq rq cited)"
  unfolding adjudicate_typed_fact_def
  by (auto intro!: reads_intros split: assertion.splits option.splits)

definition fact_holds :: "registry \<Rightarrow> int \<Rightarrow> uuid set \<Rightarrow> assertion \<Rightarrow> bool" where
  "fact_holds r seq cited assertion = (case assertion of
       SymbolInFile symbol file \<Rightarrow> (\<exists>a s. (a, s) \<in> set (joined r) \<and> ka_id a \<in> cited
         \<and> ka_type a \<in> set SYMBOL_ARTIFACT_TYPES \<and> ka_title a = Some symbol \<and> src_path s = Some file
         \<and> artifact_member seq a)
     | FileImportsModule file modl \<Rightarrow> (\<exists>e f s t. e \<in> set (edges r) \<and> (f, s) \<in> set (joined r) \<and> t \<in> set (artifacts r)
         \<and> ka_id f = ke_from e \<and> ka_id t = ke_to e \<and> ke_from e \<in> cited \<and> ke_type e = ''imports''
         \<and> ka_type f = ''code_file'' \<and> src_path s = Some file \<and> ka_title t = Some modl
         \<and> ke_trust e = CLAIM_SUPPORTING \<and> edge_member seq e \<and> artifact_member seq f \<and> artifact_member seq t)
     | EdgeBetween edge_type from_id to_id \<Rightarrow> (\<exists>a b e. parse_uuid from_id = Some a \<and> parse_uuid to_id = Some b
         \<and> a \<in> cited \<and> b \<in> cited \<and> e \<in> set (edges r) \<and> ke_type e = edge_type \<and> {ke_from e, ke_to e} = {a, b}
         \<and> ke_trust e = CLAIM_SUPPORTING \<and> edge_member seq e))"

text \<open>A verdict in favour rests on a cited unit of the served build that states the assertion.\<close>

lemma adjudicate_sound:
  assumes "adjudicate_typed_fact a seq rq cited w = (Inr True, w')"
  shows "fact_holds (w_db w) seq cited a"
proof (cases a)
  case (SymbolInFile symbol path)
  with assms show ?thesis
    by (fastforce simp: adjudicate_typed_fact_def fact_holds_def op_iff list_ex_iff visible_symbol_units_def
        fetch_symbol_in_file_units_def)
next
  case (FileImportsModule path modl)
  with assms show ?thesis
    by (fastforce simp: adjudicate_typed_fact_def fact_holds_def op_iff list_ex_iff claim_supporting_edge_units_def
        fetch_file_imports_module_units_def edge_fact_of_def)
next
  case (EdgeBetween edge_type from_id to_id)
  with assms show ?thesis
    by (fastforce simp: adjudicate_typed_fact_def fact_holds_def op_iff claim_supporting_edge_units_def
        fetch_edge_between_units_def edge_fact_of_def filter_empty_conv split: option.splits if_splits)
qed

text \<open>Disjoint teams at the two ends make an import public: the caller need not see the module.\<close>

lemma adjudicate_disjoint:
  assumes "e \<in> set (edges r)" "(f, s) \<in> set (joined r)" "t \<in> set (artifacts r)"
    "ka_id f = ke_from e" "ka_id t = ke_to e" "ke_type e = ''imports''" "ka_type f = ''code_file''"
    "src_path s = Some file" "ka_title t = Some modl" "ke_trust e = CLAIM_SUPPORTING"
    "edge_member seq e" "artifact_member seq f" "artifact_member seq t"
    and acl: "ka_acl f \<noteq> []" "ka_acl t \<noteq> []" "set (ka_acl f) \<inter> set (ka_acl t) = {}"
    and "ka_id f \<in> cited" and "w_db w = r" and "w_faults w = []"
  shows "fst (adjudicate_typed_fact (FileImportsModule file modl) seq rq cited w) = Inr True"
proof -
  let ?u = "edge_fact_of e f t"
  have "acl_visible (ef_acl ?u) rq"
    using acl_intersection_disjoint [OF acl] by (simp add: edge_fact_of_def acl_visible_admits)
  moreover have "?u \<in> set (fetch_file_imports_module_units r file modl seq)"
    using assms(1-13) unfolding fetch_file_imports_module_units_def
    by (auto intro!: image_eqI [of _ _ "(e, (f, s), t)"])
  ultimately have "?u \<in> set (claim_supporting_edge_units (fetch_file_imports_module_units r file modl seq) rq)"
    using assms(10) by (simp add: claim_supporting_edge_units_def edge_fact_of_def)
  moreover have "ef_from ?u \<in> cited" using assms(4) \<open>ka_id f \<in> cited\<close> by (simp add: edge_fact_of_def)
  ultimately have "list_ex (\<lambda>u. ef_from u \<in> cited)
      (claim_supporting_edge_units (fetch_file_imports_module_units r file modl seq) rq)"
    unfolding list_ex_iff by blast
  then show ?thesis
    using assms(18,19)
    by (simp add: adjudicate_typed_fact_def db_get_def db_read_def db_call_def bindM_def ret_def)
qed

text \<open>A served import whose file and module are shown to teams with nothing in common.\<close>

definition imports_across_teams :: "registry \<Rightarrow> int \<Rightarrow> string \<Rightarrow> string \<Rightarrow> uuid \<Rightarrow> bool" where
  "imports_across_teams r seq path modl u \<longleftrightarrow> (\<exists>e f s t. e \<in> set (edges r) \<and> (f, s) \<in> set (joined r)
     \<and> t \<in> set (artifacts r) \<and> ka_id f = ke_from e \<and> ka_id t = ke_to e \<and> ka_id f = u \<and> ke_type e = ''imports''
     \<and> ka_type f = ''code_file'' \<and> src_path s = Some path \<and> ka_title t = Some modl \<and> ke_trust e = CLAIM_SUPPORTING
     \<and> edge_member seq e \<and> artifact_member seq f \<and> artifact_member seq t
     \<and> ka_acl f \<noteq> [] \<and> ka_acl t \<noteq> [] \<and> set (ka_acl f) \<inter> set (ka_acl t) = {})"

end
