(* ===== verification/Entailment.thy ===== *)
theory Entailment
  imports ClaimLedger JsonText QueryText "HOL-Library.Multiset"
begin

text \<open>
  \<open>context_broker/entailment.py\<close>: the cached verdict of the entailment model on one claim. The
  model itself (\<open>EntailmentClient\<close>) is an argument that may answer differently at every call;
  the world counts the calls. The cache is \<open>entailment_cache\<close>, keyed by the hashes of the claim
  and of its evidence, the prompt version and the model version.
\<close>

record entail_client =
  en_model_version :: string
  en_check :: "nat \<Rightarrow> string \<Rightarrow> string list \<Rightarrow> exn + (bool \<times> string)"

definition ENTAILMENT_PROMPT_VERSION :: string where
  "ENTAILMENT_PROMPT_VERSION = ''entail-v1''"

definition claim_hash :: "string \<Rightarrow> string" where
  "claim_hash claim_text = sha256_hex (normalize_whitespace claim_text)"

text \<open>The evidence ids are a set: a list without repetitions, sorted before it is hashed.\<close>

definition evidence_ids_hash :: "uuid list \<Rightarrow> string" where
  "evidence_ids_hash ids = sha256_hex (py_join '','' (sort (map uuid_str (remdups ids))))"

definition entail_key :: "entail_client \<Rightarrow> string \<Rightarrow> uuid list \<Rightarrow> entailment_key" where
  "entail_key ec claim_text ids =
     (claim_hash claim_text, evidence_ids_hash ids, ENTAILMENT_PROMPT_VERSION, en_model_version ec)"

definition check_entailment :: "entail_client \<Rightarrow> string \<Rightarrow> string list \<Rightarrow> (bool \<times> string) broker" where
  "check_entailment ec claim_text texts w =
     (en_check ec (w_llm w) claim_text texts, w\<lparr>w_llm := Suc (w_llm w)\<rparr>)"

definition evidence_texts :: "uuid list \<Rightarrow> artifact_row list \<Rightarrow> string list" where
  "evidence_texts ids artifact_rows =
     concat (map (\<lambda>a. case ar_body a of Some b \<Rightarrow> if ar_id a \<in> set ids \<and> b \<noteq> [] then [b] else [] | None \<Rightarrow> [])
       artifact_rows)"

text \<open>The verdict, and whether the cache gave it.\<close>

definition run_l3_entailment :: "entail_client \<Rightarrow> string \<Rightarrow> uuid list \<Rightarrow> int \<Rightarrow> (bool \<times> bool) broker" where
  "run_l3_entailment ec claim_text ids build_seq =
     (let key = entail_key ec claim_text ids
      in bindM (db_get (\<lambda>d. lookup_entailment d key)) (\<lambda>cached. case cached of
           Some (entailed, _) \<Rightarrow> ret (entailed, True)
         | None \<Rightarrow>
             bindM (db_get (\<lambda>d. fetch_artifacts d ids build_seq)) (\<lambda>artifact_rows.
             bindM (check_entailment ec claim_text (evidence_texts ids artifact_rows)) (\<lambda>(entailed, reason).
             bindM (db_call (\<lambda>d. (Inr (), record_entailment key entailed reason d))) (\<lambda>_.
             ret (entailed, False))))))"

section \<open>Facts\<close>

lemma evidence_ids_hash_set: "set ids = set ids' \<Longrightarrow> evidence_ids_hash ids = evidence_ids_hash ids'"
proof -
  assume s: "set ids = set ids'"
  have e: "sort (map uuid_str (remdups ids)) = sort (map uuid_str (remdups ids'))"
  proof (rule properties_for_sort)
    have "mset (remdups ids) = mset (remdups ids')" using s by (simp add: set_eq_iff_mset_remdups_eq)
    then show "mset (sort (map uuid_str (remdups ids'))) = mset (map uuid_str (remdups ids))" by simp
  qed simp
  show ?thesis by (simp add: evidence_ids_hash_def e)
qed

text \<open>The model never raises the broker's own marker.\<close>

definition entail_ok :: "entail_client \<Rightarrow> bool" where
  "entail_ok ec \<longleftrightarrow> (\<forall>n t ts e. en_check ec n t ts = Inl e \<longrightarrow> \<not> ledgered_exn e)"

lemma registry_ok_entail [simp]: "registry_ok (record_entailment k b why d) = registry_ok d"
  by (simp add: record_entailment_def registry_ok_def split: option.splits)

lemma record_entailment_events [simp]: "events (record_entailment k b why d) = events d"
  by (simp add: record_entailment_def split: option.splits)

lemma quiet_record: "quiet (db_call (\<lambda>d. (Inr (), record_entailment key b why d)))"
  unfolding quiet_def
proof (intro allI impI)
  fix w r w' assume ok: "broker_ok w" and run: "db_call (\<lambda>d. (Inr (), record_entailment key b why d)) w = (r, w')"
  show "broker_ok w' \<and> rows w' = rows w \<and> (\<forall>e. r = Inl e \<longrightarrow> \<not> ledgered_exn e)"
  proof (cases "db_up w")
    case False
    obtain e fs where e: "e = DbError \<or> e = CancelledError"
      and c: "db_call (\<lambda>d. (Inr (), record_entailment key b why d)) w = (Inl e, w\<lparr>w_faults := fs\<rparr>)"
      using db_down [OF False, of "\<lambda>d. (Inr (), record_entailment key b why d)"] by blast
    from c run have "r = Inl e" "w' = w\<lparr>w_faults := fs\<rparr>" by simp_all
    with e ok show ?thesis by auto
  next
    case True
    then have "w' = w\<lparr>w_db := record_entailment key b why (w_db w), w_faults := tl (w_faults w)\<rparr>" "r = Inr ()"
      using run by (auto simp: db_call_def db_up_def Let_def split: list.splits fault.splits)
    with ok show ?thesis by (simp add: broker_ok_def)
  qed
qed

lemma quiet_check: "entail_ok ec \<Longrightarrow> quiet (check_entailment ec t ts)"
  by (auto simp: quiet_def check_entailment_def entail_ok_def broker_ok_def)

lemma run_l3_quiet: "entail_ok ec \<Longrightarrow> quiet (run_l3_entailment ec t ids seq)"
  unfolding run_l3_entailment_def Let_def
proof (rule quiet_bindM [OF reads_quiet [OF reads_db_get]])
  fix cached :: "(bool \<times> string) option" and w w'
  assume "entail_ok ec"
  then show "quiet (case cached of Some (entailed, _) \<Rightarrow> ret (entailed, True)
         | None \<Rightarrow> bindM (db_get (\<lambda>d. fetch_artifacts d ids seq)) (\<lambda>artifact_rows.
             bindM (check_entailment ec t (evidence_texts ids artifact_rows)) (\<lambda>(entailed, reason).
             bindM (db_call (\<lambda>d. (Inr (), record_entailment (entail_key ec t ids) entailed reason d))) (\<lambda>_.
             ret (entailed, False)))))"
    by (cases cached) (auto simp: split_def intro!: quiet_bindM quiet_check quiet_record reads_quiet [OF reads_db_get] reads_quiet [OF reads_ret])
qed

text \<open>A hit costs no call; a miss costs one, and stores the verdict it returns.\<close>

lemma run_l3_hit:
  assumes "lookup_entailment (w_db w) (entail_key ec t ids) = Some v" and "run_l3_entailment ec t ids seq w = (r, w')"
  shows "w_llm w' = w_llm w" "w_db w' = w_db w" "r = Inr x \<Longrightarrow> x = (fst v, True)"
  using assms
  by (auto simp: run_l3_entailment_def Let_def db_get_def db_read_def db_call_def bindM_def ret_def
      split: list.splits fault.splits prod.splits)

lemma run_l3_miss:
  assumes m: "lookup_entailment (w_db w) (entail_key ec t ids) = None"
    and run: "run_l3_entailment ec t ids seq w = (Inr (b, hit), w')"
  shows "\<not> hit" "w_llm w' = Suc (w_llm w)"
    "\<exists>why. lookup_entailment (w_db w') (entail_key ec t ids) = Some (b, why)
      \<and> en_check ec (w_llm w) t (evidence_texts ids (fetch_artifacts (w_db w) ids seq)) = Inr (b, why)"
proof -
  let ?k = "entail_key ec t ids"
  from run obtain cached w1 where c: "db_get (\<lambda>d. lookup_entailment d ?k) w = (Inr cached, w1)"
    and k: "(case cached of Some (entailed, _) \<Rightarrow> ret (entailed, True)
         | None \<Rightarrow> bindM (db_get (\<lambda>d. fetch_artifacts d ids seq)) (\<lambda>artifact_rows.
             bindM (check_entailment ec t (evidence_texts ids artifact_rows)) (\<lambda>(entailed, reason).
             bindM (db_call (\<lambda>d. (Inr (), record_entailment ?k entailed reason d))) (\<lambda>_.
             ret (entailed, False))))) w1 = (Inr (b, hit), w')"
    unfolding run_l3_entailment_def Let_def by (rule bindM_InrE)
  have w1: "w_db w1 = w_db w" "w_llm w1 = w_llm w" "cached = None" using c m by (auto simp: db_get_Inr)
  with k have "bindM (db_get (\<lambda>d. fetch_artifacts d ids seq)) (\<lambda>artifact_rows.
             bindM (check_entailment ec t (evidence_texts ids artifact_rows)) (\<lambda>(entailed, reason).
             bindM (db_call (\<lambda>d. (Inr (), record_entailment ?k entailed reason d))) (\<lambda>_.
             ret (entailed, False)))) w1 = (Inr (b, hit), w')" by simp
  then obtain rws w2 where f: "db_get (\<lambda>d. fetch_artifacts d ids seq) w1 = (Inr rws, w2)"
    and k2: "bindM (check_entailment ec t (evidence_texts ids rws)) (\<lambda>(entailed, reason).
             bindM (db_call (\<lambda>d. (Inr (), record_entailment ?k entailed reason d))) (\<lambda>_.
             ret (entailed, False))) w2 = (Inr (b, hit), w')" by (rule bindM_InrE)
  have w2: "w_db w2 = w_db w" "w_llm w2 = w_llm w" "rws = fetch_artifacts (w_db w) ids seq"
    using f w1 by (auto simp: db_get_Inr)
  from k2 obtain v w3 where ck: "check_entailment ec t (evidence_texts ids rws) w2 = (Inr v, w3)"
    and k3: "(case v of (entailed, reason) \<Rightarrow>
             bindM (db_call (\<lambda>d. (Inr (), record_entailment ?k entailed reason d))) (\<lambda>_.
             ret (entailed, False))) w3 = (Inr (b, hit), w')" by (rule bindM_InrE)
  obtain e why where v: "v = (e, why)" by (cases v)
  have w3: "w_db w3 = w_db w" "w_llm w3 = Suc (w_llm w)"
    "en_check ec (w_llm w) t (evidence_texts ids (fetch_artifacts (w_db w) ids seq)) = Inr (e, why)"
    using ck w2 v by (auto simp: check_entailment_def)
  from k3 v have r: "b = e" "\<not> hit" "w_db w' = record_entailment ?k e why (w_db w3)" "w_llm w' = w_llm w3"
    by (auto simp: op_iff)
  show "\<not> hit" "w_llm w' = Suc (w_llm w)" using r w3 by simp_all
  show "\<exists>why. lookup_entailment (w_db w') ?k = Some (b, why)
      \<and> en_check ec (w_llm w) t (evidence_texts ids (fetch_artifacts (w_db w) ids seq)) = Inr (b, why)"
    using r w3 m record_entailment_lookup [of ?k e why "w_db w"] by auto
qed

end
