(* ===== verification/Receipt.thy ===== *)
theory Receipt
  imports JsonParse Auth
begin

text \<open>
  Verification receipts: the schemas of \<open>mcp/tool_schemas/verification.py\<close>, the signature of
  \<open>context_broker/receipt_signing.py\<close> and the gate of \<open>context_broker/platform_trust.py\<close>. The
  environment is an argument; the receipt's time of issue, which nothing reads, is left out.
\<close>

record claim_checks =
  ck_exists :: bool
  ck_in_version :: bool
  ck_acl_visible :: bool
  ck_in_ledger :: bool
  ck_not_stale :: bool
  ck_trust_ok :: bool
  ck_l1 :: "bool option"
  ck_l2 :: "bool option"
  ck_l3 :: "bool option"

record claim_receipt =
  cr_claim_id :: string
  cr_result :: string
  cr_checks :: claim_checks
  cr_reasons :: "string list"

record receipt =
  rc_answer_hash :: string
  rc_graph_version :: string
  rc_levels :: "string list"
  rc_overall :: string
  rc_claims :: "claim_receipt list"
  rc_client :: "string option"
  rc_signature :: "string option"
  rc_key_id :: "string option"

type_synonym environ = "string \<Rightarrow> string option"

section \<open>Signing (receipt_signing.py)\<close>

fun opt_bool :: "bool option \<Rightarrow> doc" where
  "opt_bool None = DNull"
| "opt_bool (Some b) = DBool b"

fun opt_str :: "string option \<Rightarrow> doc" where
  "opt_str None = DNull"
| "opt_str (Some s) = DStr s"

definition checks_fields :: "claim_checks \<Rightarrow> (string \<times> doc) list" where
  "checks_fields c = [
     (''L0_exists'', DBool (ck_exists c)), (''L0_in_active_version'', DBool (ck_in_version c)),
     (''L0_acl_visible'', DBool (ck_acl_visible c)), (''L0_in_requester_ledger'', DBool (ck_in_ledger c)),
     (''L0_not_stale'', DBool (ck_not_stale c)), (''L0_supporting_trust_ok'', DBool (ck_trust_ok c)),
     (''L1_coverage'', opt_bool (ck_l1 c)), (''L2_typed_fact'', opt_bool (ck_l2 c)),
     (''L3_entailment'', opt_bool (ck_l3 c))]"

definition claim_fields :: "claim_receipt \<Rightarrow> (string \<times> doc) list" where
  "claim_fields c = [(''claim_id'', DStr (cr_claim_id c)), (''result'', DStr (cr_result c)),
     (''checks'', DObj (checks_fields (cr_checks c)))]"

definition payload_fields :: "receipt \<Rightarrow> (string \<times> doc) list" where
  "payload_fields r = [(''answer_hash'', DStr (rc_answer_hash r)), (''graph_version'', DStr (rc_graph_version r)),
     (''client_id'', opt_str (rc_client r)),
     (''claim_results'', DArr (map (DObj \<circ> claim_fields) (rc_claims r)))]"

definition canonical_payload :: "receipt \<Rightarrow> 8 word list" where
  "canonical_payload r = utf8 (json_dumps (DObj (payload_fields r)))"

definition KEY_ID_LABEL :: string where
  "KEY_ID_LABEL = ''agentic-kb:verify-receipt:key-id:v1''"

definition compute_key_id :: "8 word list \<Rightarrow> string" where
  "compute_key_id key = take 16 (hexdigest (hmac_sha256 key (utf8 KEY_ID_LABEL)))"

definition load_key :: "environ \<Rightarrow> string \<Rightarrow> exn + 8 word list" where
  "load_key env env_var = (case env env_var of
     Some v \<Rightarrow> if v = [] then Inl (RuntimeError (env_var @ '' is unset'')) else Inr (utf8 v)
   | None \<Rightarrow> Inl (RuntimeError (env_var @ '' is unset'')))"

definition receipt_mac :: "8 word list \<Rightarrow> receipt \<Rightarrow> string" where
  "receipt_mac key r = hexdigest (hmac_sha256 key (canonical_payload r))"

definition sign_receipt :: "environ \<Rightarrow> string \<Rightarrow> receipt \<Rightarrow> exn + receipt" where
  "sign_receipt env env_var r = (case load_key env env_var of
     Inl e \<Rightarrow> Inl e
   | Inr key \<Rightarrow> Inr (r\<lparr>rc_signature := Some (receipt_mac key r), rc_key_id := Some (compute_key_id key)\<rparr>))"

text \<open>\<open>hmac.compare_digest\<close> on strings raises when one of them is not ASCII.\<close>

definition compare_digest :: "string \<Rightarrow> string \<Rightarrow> exn + bool" where
  "compare_digest a b = (if (\<forall>c \<in> set a \<union> set b. code c < 128) then Inr (a = b) else Inl TypeError)"

definition verify_receipt_signature :: "receipt \<Rightarrow> string \<Rightarrow> string option \<Rightarrow> exn + bool" where
  "verify_receipt_signature r key expected_client_id = (case rc_signature r of
     None \<Rightarrow> Inr False
   | Some sig \<Rightarrow>
       if expected_client_id \<noteq> None \<and> rc_client r \<noteq> expected_client_id then Inr False
       else compare_digest (receipt_mac (utf8 key) r) sig)"

section \<open>The platform-trust gate (platform_trust.py)\<close>

record trust_decision =
  td_status :: string
  td_client :: string
  td_required :: bool
  td_reason :: "string option"

definition deny :: "client_identity \<Rightarrow> string \<Rightarrow> trust_decision" where
  "deny client reason = \<lparr>td_status = ''denied'', td_client = client_id client, td_required = True,
     td_reason = Some reason\<rparr>"

definition evaluate_platform_trust ::
  "environ \<Rightarrow> client_identity \<Rightarrow> receipt option \<Rightarrow> string \<Rightarrow> exn + trust_decision" where
  "evaluate_platform_trust env client rc signing_key_env =
     (if \<not> verification_required client
      then Inr \<lparr>td_status = ''not_required'', td_client = client_id client, td_required = False, td_reason = None\<rparr>
      else case rc of
        None \<Rightarrow> Inr (deny client ''verification_required_no_receipt'')
      | Some r \<Rightarrow>
          if rc_signature r = None then Inr (deny client ''receipt_unsigned'')
          else if rc_client r \<noteq> Some (client_id client) then Inr (deny client ''receipt_client_mismatch'')
          else (case env signing_key_env of
              None \<Rightarrow> Inr (deny client ''receipt_signature_invalid'')
            | Some key \<Rightarrow>
                if key = [] then Inr (deny client ''receipt_signature_invalid'')
                else (case verify_receipt_signature r key (Some (client_id client)) of
                    Inl e \<Rightarrow> Inl e
                  | Inr ok \<Rightarrow>
                      if \<not> ok then Inr (deny client ''receipt_signature_invalid'')
                      else if rc_overall r \<noteq> ''passed'' then Inr (deny client ''receipt_overall_not_passed'')
                      else Inr \<lparr>td_status = ''trusted'', td_client = client_id client, td_required = True,
                             td_reason = None\<rparr>)))"

section \<open>Hexadecimal digests\<close>

lemma hexdigest_ascii: "c \<in> set (hexdigest bs) \<Longrightarrow> code c < 128"
proof -
  assume "c \<in> set (hexdigest bs)"
  then obtain b where "c \<in> set (hex_digits 2 (unat (b :: 8 word)))" by (auto simp: hexdigest_def)
  then obtain d where "d < 16" "c = hex_char d" using hex_char_set by blast
  then show ?thesis by (simp add: hex_char_code)
qed

lemma hexdigest_inj: "hexdigest a = hexdigest b \<longleftrightarrow> a = b"
proof
  show "hexdigest a = hexdigest b \<Longrightarrow> a = b"
  proof (induction a arbitrary: b)
    case Nil
    then show ?case by (cases b) (auto simp: hexdigest_def numeral_2_eq_2)
  next
    case (Cons x xs)
    then obtain y ys where b: "b = y # ys" by (cases b) (auto simp: hexdigest_def numeral_2_eq_2)
    with Cons.prems have e: "hex_digits 2 (unat x) @ hexdigest xs = hex_digits 2 (unat y) @ hexdigest ys"
      by (simp add: hexdigest_def)
    then have h: "hex_digits 2 (unat x) = hex_digits 2 (unat y)" "hexdigest xs = hexdigest ys"
      by (simp_all add: append_eq_append_conv)
    have "unat x < 16 ^ 2" "unat y < 16 ^ 2" using unsigned_less [of x] unsigned_less [of y] by simp_all
    from hex_digits_inj [OF this h(1)] have "x = y" by (rule unsigned_word_eqI)
    with Cons.IH [OF h(2)] b show ?case by simp
  qed
qed simp

section \<open>What a signature binds\<close>

text \<open>The fields a host must be able to trust.\<close>

definition signed_fields ::
  "receipt \<Rightarrow> string \<times> string \<times> string option \<times> (string \<times> string \<times> claim_checks) list" where
  "signed_fields r = (rc_answer_hash r, rc_graph_version r, rc_client r,
     map (\<lambda>c. (cr_claim_id c, cr_result c, cr_checks c)) (rc_claims r))"

lemma opt_doc_inj [simp]: "opt_bool a = opt_bool b \<longleftrightarrow> a = b" "opt_str s = opt_str t \<longleftrightarrow> s = t"
  by (cases a; cases b; simp) (cases s; cases t; simp)

lemma opt_doc_sorted [simp]: "sort_keys (opt_bool a) = opt_bool a" "sort_keys (opt_str s) = opt_str s"
  by (cases a; simp) (cases s; simp)

lemma sorted_doc_eq:
  assumes "sort_keys (DObj kvs) = sort_keys (DObj kvs')" and "distinct (map fst kvs)"
  shows "map_of (map (\<lambda>(k, v). (k, sort_keys v)) kvs) k = map_of (map (\<lambda>(k, v). (k, sort_keys v)) kvs') k"
proof -
  let ?s = "map (\<lambda>(k, v). (k, sort_keys v))"
  have e: "sort_key fst (?s kvs) = sort_key fst (?s kvs')" using assms(1) by simp
  have st: "set (?s kvs) = set (?s kvs')" using arg_cong [OF e, of set] by simp
  have "length (?s kvs) = length (?s kvs')" using arg_cong [OF e, of length] by simp
  then have len: "length (map fst (?s kvs)) = length (map fst (?s kvs'))" by simp
  have keys: "set (map fst (?s kvs)) = set (map fst (?s kvs'))" using st by (simp only: set_map)
  have d: "distinct (map fst (?s kvs))" using assms(2) by (simp add: o_def split_def)
  then have "distinct (map fst (?s kvs'))" using distinct_card [OF d] keys len card_distinct by metis
  with st d have "map_of (?s kvs) = map_of (?s kvs')" using map_of_inject_set by blast
  then show ?thesis by (rule fun_cong)
qed

lemma checks_doc_inj:
  assumes "sort_keys (DObj (checks_fields c)) = sort_keys (DObj (checks_fields d))" shows "c = d"
proof -
  have "distinct (map fst (checks_fields c))" by (simp add: checks_fields_def)
  note f = sorted_doc_eq [OF assms this, unfolded checks_fields_def]
  show ?thesis
    using f [of "''L0_exists''"] f [of "''L0_in_active_version''"] f [of "''L0_acl_visible''"]
      f [of "''L0_in_requester_ledger''"] f [of "''L0_not_stale''"] f [of "''L0_supporting_trust_ok''"]
      f [of "''L1_coverage''"] f [of "''L2_typed_fact''"] f [of "''L3_entailment''"]
    by simp
qed

abbreviation claim_key :: "claim_receipt \<Rightarrow> string \<times> string \<times> claim_checks" where
  "claim_key c \<equiv> (cr_claim_id c, cr_result c, cr_checks c)"

lemma claim_doc_inj:
  assumes "sort_keys (DObj (claim_fields c)) = sort_keys (DObj (claim_fields d))"
  shows "claim_key c = claim_key d"
proof -
  have "distinct (map fst (claim_fields c))" by (simp add: claim_fields_def)
  note f = sorted_doc_eq [OF assms this, unfolded claim_fields_def]
  have "sort_keys (DObj (checks_fields (cr_checks c))) = sort_keys (DObj (checks_fields (cr_checks d)))"
    using f [of "''checks''"] by (simp del: sort_keys.simps(2))
  from checks_doc_inj [OF this] f [of "''claim_id''"] f [of "''result''"] show ?thesis by simp
qed

lemma claims_doc_inj:
  "map (sort_keys \<circ> (DObj \<circ> claim_fields)) cs = map (sort_keys \<circ> (DObj \<circ> claim_fields)) ds
     \<Longrightarrow> map claim_key cs = map claim_key ds"
proof (induction cs arbitrary: ds)
  case (Cons c cs)
  then obtain d ds' where ds: "ds = d # ds'" by (cases ds) simp_all
  from Cons.prems ds have "sort_keys (DObj (claim_fields c)) = sort_keys (DObj (claim_fields d))"
    and "map (sort_keys \<circ> (DObj \<circ> claim_fields)) cs = map (sort_keys \<circ> (DObj \<circ> claim_fields)) ds'"
    by (simp_all only: list.map list.inject o_apply o_def)
  from claim_doc_inj [OF this(1)] Cons.IH [OF this(2)] ds show ?case by simp
qed simp

lemma payload_doc_inj:
  assumes "sort_keys (DObj (payload_fields r)) = sort_keys (DObj (payload_fields r'))"
  shows "signed_fields r = signed_fields r'"
proof -
  have "distinct (map fst (payload_fields r))" by (simp add: payload_fields_def)
  note f = sorted_doc_eq [OF assms this, unfolded payload_fields_def]
  have "map (sort_keys \<circ> (DObj \<circ> claim_fields)) (rc_claims r) = map (sort_keys \<circ> (DObj \<circ> claim_fields)) (rc_claims r')"
    using f [of "''claim_results''"] by (simp del: sort_keys.simps(2))
  from claims_doc_inj [OF this] f [of "''answer_hash''"] f [of "''graph_version''"] f [of "''client_id''"]
  show ?thesis by (simp add: signed_fields_def)
qed

lemma claim_fields_key: "claim_key c = claim_key d \<Longrightarrow> claim_fields c = claim_fields d"
  by (simp add: claim_fields_def)

lemma claims_fields_key: "map claim_key cs = map claim_key ds \<Longrightarrow> map claim_fields cs = map claim_fields ds"
proof (induction cs arbitrary: ds)
  case (Cons c cs)
  then obtain d ds' where ds: "ds = d # ds'" by (cases ds) simp_all
  with Cons.prems have "claim_key c = claim_key d" "map claim_key cs = map claim_key ds'" by simp_all
  from claim_fields_key [OF this(1)] Cons.IH [OF this(2)] ds show ?case by simp
qed simp

lemma canonical_payload_eq: "canonical_payload r = canonical_payload r' \<longleftrightarrow> signed_fields r = signed_fields r'"
proof
  assume "canonical_payload r = canonical_payload r'"
  then have "sort_keys (DObj (payload_fields r)) = sort_keys (DObj (payload_fields r'))"
    by (simp only: canonical_payload_def utf8_inj json_dumps_determines)
  then show "signed_fields r = signed_fields r'" by (rule payload_doc_inj)
next
  assume s: "signed_fields r = signed_fields r'"
  then have "map claim_fields (rc_claims r) = map claim_fields (rc_claims r')"
    by (intro claims_fields_key) (simp add: signed_fields_def)
  then have "payload_fields r = payload_fields r'"
    using s by (simp add: payload_fields_def signed_fields_def flip: map_map)
  then show "canonical_payload r = canonical_payload r'" by (simp only: canonical_payload_def)
qed

text \<open>A receipt signed under a key verifies under it, for its own client and for no other.\<close>

lemma verify_signed:
  assumes "sign_receipt env v r = Inr r'" and "env v = Some key"
  shows "verify_receipt_signature r' key expected = Inr (expected = None \<or> expected = rc_client r)"
    and "signed_fields r' = signed_fields r"
proof -
  from assms have k: "key \<noteq> []" and r': "r' = r\<lparr>rc_signature := Some (receipt_mac (utf8 key) r),
      rc_key_id := Some (compute_key_id (utf8 key))\<rparr>"
    by (auto simp: sign_receipt_def load_key_def split: if_splits)
  show s: "signed_fields r' = signed_fields r" by (simp add: r' signed_fields_def)
  then have "canonical_payload r' = canonical_payload r" by (rule canonical_payload_eq [THEN iffD2])
  then have m: "receipt_mac (utf8 key) r' = receipt_mac (utf8 key) r" by (simp only: receipt_mac_def)
  have "\<forall>c \<in> set (receipt_mac (utf8 key) r). code c < 128"
    by (auto simp: receipt_mac_def dest: hexdigest_ascii)
  then show "verify_receipt_signature r' key expected = Inr (expected = None \<or> expected = rc_client r)"
    unfolding verify_receipt_signature_def m by (auto simp: r' compare_digest_def)
qed

text \<open>Whoever alters a signed field keeps the signature valid only with a collision of HMAC-SHA256.\<close>

lemma verify_tampered:
  assumes "verify_receipt_signature r' key expected = Inr True"
    and "rc_signature r' = Some (receipt_mac (utf8 key) r)" and "signed_fields r' \<noteq> signed_fields r"
  shows "canonical_payload r' \<noteq> canonical_payload r
    \<and> hmac_sha256 (utf8 key) (canonical_payload r') = hmac_sha256 (utf8 key) (canonical_payload r)"
  using assms
  by (auto simp: verify_receipt_signature_def compare_digest_def receipt_mac_def hexdigest_inj canonical_payload_eq
      split: if_splits)

text \<open>Exactly when the gate trusts an answer.\<close>

lemma platform_trusted_iff:
  assumes "evaluate_platform_trust env client rc v = Inr d"
  shows "td_status d = ''trusted'' \<longleftrightarrow> verification_required client \<and>
     (\<exists>r key. rc = Some r \<and> env v = Some key \<and> key \<noteq> [] \<and> rc_client r = Some (client_id client)
        \<and> rc_signature r = Some (receipt_mac (utf8 key) r) \<and> rc_overall r = ''passed'')"
  using assms
  by (auto simp: evaluate_platform_trust_def deny_def verify_receipt_signature_def compare_digest_def
      split: if_splits option.splits)

lemma platform_trust_total:
  assumes "\<And>r sig. rc = Some r \<Longrightarrow> rc_signature r = Some sig \<Longrightarrow> (\<forall>c \<in> set sig. code c < 128)"
  shows "\<exists>d. evaluate_platform_trust env client rc v = Inr d"
  using assms
  by (auto simp: evaluate_platform_trust_def verify_receipt_signature_def compare_digest_def receipt_mac_def
      dest: hexdigest_ascii split: option.splits)

end
