(* ===== verification/Verify.thy ===== *)
theory Verify
  imports Entailment Receipt Retrieval
begin

text \<open>
  \<open>context_broker/verify.py\<close>: \<open>context.verify_answer\<close>, the layered verifier. Level L0 checks the
  provenance of every cited id, L1 its coverage and the quote, L2 the typed assertion, and L3
  asks the entailment model about what the others could not settle. A claim without evidence,
  which the request schema rejects, ends in the code's \<open>assert\<close>.
\<close>

section \<open>Requests and intermediate states\<close>

record claim_input =
  ci_id :: string
  ci_text :: string
  ci_evidence :: "string list"
  ci_quote :: "string option"
  ci_assertion :: "assertion option"

record verify_request =
  vr_answer_id :: string
  vr_claims :: "claim_input list"
  vr_graph_version :: "string option"
  vr_levels :: "string list"

record evidence_context =
  cx_in_version :: "(uuid, provenance_row) dict"
  cx_anywhere :: "uuid set"
  cx_acl :: "uuid set"
  cx_retrieved :: "uuid set"

record l0_result =
  l0_exists :: bool
  l0_in_version :: bool
  l0_acl :: bool
  l0_ledger :: bool
  l0_fresh :: bool
  l0_trust :: bool

definition resolvable :: "l0_result \<Rightarrow> bool" where
  "resolvable u \<longleftrightarrow> l0_exists u \<and> l0_in_version u \<and> l0_acl u \<and> l0_ledger u"

record det_claim =
  dc_claim :: claim_input
  dc_merged :: l0_result
  dc_reasons :: "string list"
  dc_passed :: bool
  dc_l1 :: "bool option"
  dc_l2 :: "bool option"

section \<open>The answer hash\<close>

definition claim_hash_doc :: "claim_input \<Rightarrow> doc" where
  "claim_hash_doc c = DObj [(''claim_id'', DStr (ci_id c)), (''text'', DStr (normalize_whitespace (ci_text c))),
     (''evidence_ids'', DArr (map DStr (sorted_set (ci_evidence c))))]"

definition normalized_answer_hash :: "verify_request \<Rightarrow> string" where
  "normalized_answer_hash req =
     sha256_hex (json_dumps (DArr (map claim_hash_doc (sort_key ci_id (vr_claims req)))))"

section \<open>L0\<close>

definition no_evidence :: l0_result where
  "no_evidence = \<lparr>l0_exists = False, l0_in_version = False, l0_acl = False, l0_ledger = False,
     l0_fresh = False, l0_trust = False\<rparr>"

definition check_evidence :: "evidence_context \<Rightarrow> string \<Rightarrow> l0_result \<times> string list" where
  "check_evidence cx raw = (case parse_uuid raw of
     None \<Rightarrow> (no_evidence, [''evidence_id_not_a_valid_artifact_id''])
   | Some u \<Rightarrow>
       let row = map_of (cx_in_version cx) u; here = row \<noteq> None; found = here \<or> u \<in> cx_anywhere cx;
           acl = u \<in> cx_acl cx; got = u \<in> cx_retrieved cx;
           fresh = (case row of None \<Rightarrow> False | Some p \<Rightarrow> \<not> pv_source_deleted p);
           trust = (case row of None \<Rightarrow> False | Some p \<Rightarrow> pv_extracted_edge p \<or> \<not> pv_any_edge p)
       in (\<lparr>l0_exists = found, l0_in_version = here, l0_acl = acl, l0_ledger = got, l0_fresh = fresh, l0_trust = trust\<rparr>,
           (if \<not> found then [''evidence_not_found''] else if \<not> here then [''evidence_from_another_version''] else [])
           @ (if \<not> acl then [''evidence_acl_invisible''] else [])
           @ (if \<not> got then [''evidence_not_retrieved_by_requester''] else [])
           @ (if here \<and> \<not> fresh then [''evidence_stale''] else [])
           @ (if here \<and> \<not> trust then [''evidence_supported_only_by_inferred_edge''] else [])))"

definition merge_l0 :: "l0_result \<Rightarrow> l0_result \<Rightarrow> l0_result" where
  "merge_l0 a b = \<lparr>l0_exists = (l0_exists a \<and> l0_exists b), l0_in_version = (l0_in_version a \<and> l0_in_version b),
     l0_acl = (l0_acl a \<and> l0_acl b), l0_ledger = (l0_ledger a \<and> l0_ledger b),
     l0_fresh = (l0_fresh a \<and> l0_fresh b), l0_trust = (l0_trust a \<and> l0_trust b)\<rparr>"

definition l0_passed :: "l0_result \<Rightarrow> bool" where
  "l0_passed u \<longleftrightarrow> l0_exists u \<and> l0_in_version u \<and> l0_acl u \<and> l0_ledger u \<and> l0_fresh u \<and> l0_trust u"

definition resolve_levels :: "string list \<Rightarrow> bool \<Rightarrow> string list" where
  "resolve_levels requested l3_supported =
     [''L0''] @ filter (\<lambda>lv. lv \<in> set requested) [''L1'', ''L2'']
     @ (if ''L3'' \<in> set requested \<and> l3_supported then [''L3''] else [])"

section \<open>L1\<close>

definition quote_grounded :: "string \<Rightarrow> string list \<Rightarrow> bool" where
  "quote_grounded q cited_texts = (let needle = normalize_whitespace q in
     needle \<noteq> [] \<and> list_ex (\<lambda>body. py_in needle (normalize_whitespace body)) cited_texts)"

definition l1_coverage :: "claim_input \<Rightarrow> l0_result list \<Rightarrow> nat \<Rightarrow> string list \<Rightarrow> bool \<times> string list" where
  "l1_coverage claim evidence max_quote cited_texts =
     (let cited = list_ex resolvable evidence;
          quote_ok = (case ci_quote claim of None \<Rightarrow> True | Some q \<Rightarrow> length q \<le> max_quote);
          grounded = (case ci_quote claim of None \<Rightarrow> True
             | Some q \<Rightarrow> if quote_ok \<and> cited then quote_grounded q cited_texts else True)
      in (cited \<and> quote_ok \<and> grounded,
          (if \<not> cited then [''claim_uncited''] else []) @ (if \<not> quote_ok then [''quote_over_cap''] else [])
          @ (if \<not> grounded then [''quote_not_found''] else [])))"

definition evidence_uuids :: "claim_input \<Rightarrow> uuid list" where
  "evidence_uuids claim = List.map_filter parse_uuid (ci_evidence claim)"

section \<open>The deterministic pass\<close>

fun merge_all :: "l0_result list \<Rightarrow> exn + l0_result" where
  "merge_all [] = Inl AssertionError"
| "merge_all (u # us) = Inr (foldl merge_l0 u us)"

definition det_claim_of ::
  "evidence_context \<Rightarrow> uuid list \<Rightarrow> (uuid, string) dict \<Rightarrow> (string, bool) dict \<Rightarrow> bool \<Rightarrow> bool \<Rightarrow> nat
   \<Rightarrow> claim_input \<Rightarrow> exn + det_claim" where
  "det_claim_of cx resolvable_ids body_texts l2_verdicts run_l1 run_l2 max_quote claim =
     (let checked = map (check_evidence cx) (ci_evidence claim); units = map fst checked
      in case merge_all units of
           Inl e \<Rightarrow> Inl e
         | Inr merged \<Rightarrow>
             let texts = concat (map (\<lambda>u. case map_of body_texts u of
                     Some b \<Rightarrow> if u \<in> set resolvable_ids then [b] else [] | None \<Rightarrow> []) (evidence_uuids claim));
                 l1 = (if run_l1 then Some (l1_coverage claim units max_quote texts) else None);
                 l2 = (if run_l2 then map_of l2_verdicts (ci_id claim) else None)
             in Inr \<lparr>dc_claim = claim, dc_merged = merged,
                  dc_reasons = concat (map snd checked) @ (case l1 of None \<Rightarrow> [] | Some (_, why) \<Rightarrow> why)
                    @ (if l2 = Some False then [''typed_fact_unsupported''] else []),
                  dc_passed = (l0_passed merged \<and> (case l1 of None \<Rightarrow> True | Some (ok, _) \<Rightarrow> ok) \<and> l2 \<noteq> Some False),
                  dc_l1 = map_option fst l1, dc_l2 = l2\<rparr>)"

definition deterministic_pass ::
  "claim_input list \<Rightarrow> evidence_context \<Rightarrow> uuid list \<Rightarrow> (uuid, string) dict \<Rightarrow> (string, bool) dict \<Rightarrow> bool \<Rightarrow> bool
   \<Rightarrow> nat \<Rightarrow> exn + det_claim list" where
  "deterministic_pass claims cx resolvable_ids body_texts l2_verdicts run_l1 run_l2 max_quote =
     mapE (det_claim_of cx resolvable_ids body_texts l2_verdicts run_l1 run_l2 max_quote) claims"

section \<open>L2 and L3\<close>

fun l2_pass ::
  "claim_input list \<Rightarrow> uuid list \<Rightarrow> int \<Rightarrow> requester \<Rightarrow> (string, bool) dict \<Rightarrow> (string, bool) dict broker" where
  "l2_pass [] resolvable_ids build_seq rq verdicts = ret verdicts"
| "l2_pass (c # cs) resolvable_ids build_seq rq verdicts = (case ci_assertion c of
       None \<Rightarrow> l2_pass cs resolvable_ids build_seq rq verdicts
     | Some a \<Rightarrow>
         bindM (adjudicate_typed_fact a build_seq rq (set (evidence_uuids c) \<inter> set resolvable_ids)) (\<lambda>ok.
         l2_pass cs resolvable_ids build_seq rq (AList.update (ci_id c) ok verdicts)))"

definition l3_eligible :: "det_claim \<Rightarrow> bool" where
  "l3_eligible d \<longleftrightarrow> dc_passed d \<and> dc_l2 d = None"

fun l3_loop ::
  "entail_client \<Rightarrow> uuid list \<Rightarrow> int \<Rightarrow> det_claim list \<Rightarrow> (string, bool) dict \<Rightarrow> (string, bool) dict broker" where
  "l3_loop ec resolvable_ids build_seq [] verdicts = ret verdicts"
| "l3_loop ec resolvable_ids build_seq (d # ds) verdicts =
     (let cited = filter (\<lambda>u. u \<in> set resolvable_ids) (evidence_uuids (dc_claim d))
      in if \<not> l3_eligible d \<or> cited = [] then l3_loop ec resolvable_ids build_seq ds verdicts
         else bindM (run_l3_entailment ec (ci_text (dc_claim d)) cited build_seq) (\<lambda>(entailed, _).
              l3_loop ec resolvable_ids build_seq ds (AList.update (ci_id (dc_claim d)) entailed verdicts)))"

definition l3_pass ::
  "det_claim list \<Rightarrow> entail_client option \<Rightarrow> uuid list \<Rightarrow> int \<Rightarrow> bool \<Rightarrow> bool \<Rightarrow> (string, bool) dict broker" where
  "l3_pass ds ec resolvable_ids build_seq run_l3 is_active = (case ec of
     None \<Rightarrow> ret []
   | Some c \<Rightarrow> if run_l3 \<and> is_active then l3_loop c resolvable_ids build_seq ds [] else ret [])"

section \<open>Receipts\<close>

definition claim_receipt_of :: "(string, bool) dict \<Rightarrow> det_claim \<Rightarrow> claim_receipt" where
  "claim_receipt_of l3_verdicts d =
     (let l3 = map_of l3_verdicts (ci_id (dc_claim d)); m = dc_merged d
      in \<lparr>cr_claim_id = ci_id (dc_claim d),
          cr_result = (if dc_passed d \<and> l3 \<noteq> Some False then ''passed'' else ''failed''),
          cr_checks = \<lparr>ck_exists = l0_exists m, ck_in_version = l0_in_version m, ck_acl_visible = l0_acl m,
            ck_in_ledger = l0_ledger m, ck_not_stale = l0_fresh m, ck_trust_ok = l0_trust m,
            ck_l1 = dc_l1 d, ck_l2 = dc_l2 d, ck_l3 = l3\<rparr>,
          cr_reasons = dict_fromkeys (dc_reasons d @ (if l3 = Some False then [''entailment_unsupported''] else []))\<rparr>)"

definition overall_result :: "claim_receipt list \<Rightarrow> string" where
  "overall_result rs =
     (let n = length (filter (\<lambda>r. cr_result r = ''passed'') rs)
      in if n = length rs then ''passed'' else if n = 0 then ''failed'' else ''partial'')"

section \<open>The handler\<close>

record resolved =
  rs_context :: evidence_context
  rs_ids :: "uuid list"
  rs_texts :: "(uuid, string) dict"
  rs_l2 :: "(string, bool) dict"

definition cited_ids :: "claim_input list \<Rightarrow> uuid list" where
  "cited_ids claims = dict_fromkeys (concat (map evidence_uuids claims))"

definition admitted_ids :: "requester \<Rightarrow> (uuid, provenance_row) dict \<Rightarrow> uuid list" where
  "admitted_ids rq in_version = map fst (filter (\<lambda>(u, row). acl_admits rq (pv_acl row)) in_version)"

definition resolve_evidence ::
  "verify_request \<Rightarrow> requester \<Rightarrow> active_version \<Rightarrow> bool \<Rightarrow> bool \<Rightarrow> bool \<Rightarrow> resolved broker" where
  "resolve_evidence req rq active is_active run_l1 run_l2 =
     (let unique_ids = cited_ids (vr_claims req); seq = av_build_seq active
      in bindM (if is_active then db_get (\<lambda>d. fetch_provenance d unique_ids seq CLAIM_SUPPORTING) else ret []) (\<lambda>in_version.
         bindM (db_get (\<lambda>d. fetch_existing_anywhere d unique_ids)) (\<lambda>anywhere.
         bindM (db_get (\<lambda>d. fetch_subject_retrieved_ids d (subject rq) (av_kb_version active))) (\<lambda>retrieved.
         let ids = filter (\<lambda>u. u \<in> retrieved) (admitted_ids rq in_version)
         in bindM (if run_l1 \<and> is_active \<and> ids \<noteq> [] then db_get (\<lambda>d. fetch_cited_body_texts d ids seq) else ret []) (\<lambda>texts.
            bindM (if run_l2 \<and> is_active then l2_pass (vr_claims req) ids seq rq [] else ret []) (\<lambda>l2.
            ret \<lparr>rs_context = \<lparr>cx_in_version = in_version, cx_anywhere = anywhere,
                   cx_acl = set (admitted_ids rq in_version), cx_retrieved = retrieved\<rparr>,
                 rs_ids = ids, rs_texts = texts, rs_l2 = l2\<rparr>))))))"

definition verify_event ::
  "verify_request \<Rightarrow> requester \<Rightarrow> string \<Rightarrow> claim_receipt list \<Rightarrow> retrieval_event" where
  "verify_event req rq graph_version claims =
     (event NO_RUN_SENTINEL (subject rq) ''context.verify_answer'' ''approved'' graph_version)
       \<lparr>ev_query_text := Some (vr_answer_id req), ev_normalized_query := Some (normalized_answer_hash req),
        ev_details := Some [(''answer_id'', JStr (vr_answer_id req)),
          (''claims'', JArr (map (\<lambda>r. JObj [(''claim_id'', JStr (cr_claim_id r)),
             (''checks'', json_of_doc (DObj (checks_fields (cr_checks r)))),
             (''ok'', JBool (cr_result r = ''passed''))]) claims)),
          (''overall'', JStr (overall_result claims))]\<rparr>"

definition issue_receipt :: "environ \<Rightarrow> string \<Rightarrow> receipt \<Rightarrow> receipt broker" where
  "issue_receipt env env_var rc = (case env env_var of
     None \<Rightarrow> ret rc
   | Some v \<Rightarrow> if v = [] then ret rc else liftM (sign_receipt env env_var rc))"

definition receipt_of ::
  "verify_request \<Rightarrow> client_identity option \<Rightarrow> string list \<Rightarrow> string \<Rightarrow> claim_receipt list \<Rightarrow> receipt" where
  "receipt_of req client levels graph_version claims =
     \<lparr>rc_answer_hash = normalized_answer_hash req, rc_graph_version = graph_version, rc_levels = levels,
      rc_overall = overall_result claims, rc_claims = claims, rc_client = map_option client_id client,
      rc_signature = None, rc_key_id = None\<rparr>"

definition judge_claims ::
  "deps \<Rightarrow> entail_client option \<Rightarrow> verify_request \<Rightarrow> requester \<Rightarrow> active_version \<Rightarrow> string list \<Rightarrow> bool
   \<Rightarrow> claim_receipt list broker" where
  "judge_claims dp ec req rq active levels is_active =
     bindM (resolve_evidence req rq active is_active (''L1'' \<in> set levels) (''L2'' \<in> set levels)) (\<lambda>rs.
     bindM (liftM (deterministic_pass (vr_claims req) (rs_context rs) (rs_ids rs) (rs_texts rs) (rs_l2 rs)
       (''L1'' \<in> set levels) (''L2'' \<in> set levels) (max_quote_chars (dp_settings dp)))) (\<lambda>ds.
     bindM (l3_pass ds ec (rs_ids rs) (av_build_seq active) (''L3'' \<in> set levels) is_active) (\<lambda>l3.
     ret (map (claim_receipt_of l3) ds))))"

definition verify_active ::
  "deps \<Rightarrow> environ \<Rightarrow> entail_client option \<Rightarrow> verify_request \<Rightarrow> requester \<Rightarrow> client_identity option \<Rightarrow> active_version
   \<Rightarrow> receipt broker" where
  "verify_active dp env ec req rq client active =
     (let levels = resolve_levels (vr_levels req) (ec \<noteq> None);
          graph_version = str_or (vr_graph_version req) (av_kb_version active)
      in bindM (judge_claims dp ec req rq active levels (graph_version = av_kb_version active)) (\<lambda>claims.
         bindM (insert_event (verify_event req rq graph_version claims)) (\<lambda>_.
         bindM (validated (graph_version \<noteq> []) (receipt_of req client levels graph_version claims)) (\<lambda>rc.
         issue_receipt env (signing_key_env (dp_settings dp)) rc))))"

definition verify_answer ::
  "deps \<Rightarrow> environ \<Rightarrow> entail_client option \<Rightarrow> verify_request \<Rightarrow> requester \<Rightarrow> client_identity option \<Rightarrow> receipt broker" where
  "verify_answer dp env ec req rq client =
     bindM (db_read fetch_active_version) (\<lambda>active. case active of
       None \<Rightarrow> ledgered_error ''context.verify_answer'' (subject rq)
         (error_defaults\<lparr>ea_query_text := Some (vr_answer_id req)\<rparr>) MSG_NO_ACTIVE_VERSION
     | Some v \<Rightarrow> verify_active dp env ec req rq client v)"

section \<open>One row\<close>

lemma l2_pass_reads [reads_intros]: "reads_only (l2_pass cs ids seq rq vs)"
  by (induction cs ids seq rq vs rule: l2_pass.induct) (auto intro!: reads_intros split: option.splits)

lemma resolve_evidence_reads [reads_intros]: "reads_only (resolve_evidence req rq v ia r1 r2)"
  unfolding resolve_evidence_def Let_def by (intro reads_intros)

lemma merge_all_exn: "merge_all us = Inl e \<Longrightarrow> e = AssertionError"
  by (cases us) auto

lemma det_claim_exn: "det_claim_of cx ids bt l2 r1 r2 mq c = Inl e \<Longrightarrow> e = AssertionError"
  by (auto simp: det_claim_of_def Let_def split: sum.splits dest: merge_all_exn)

lemma deterministic_exn: "deterministic_pass cs cx ids bt l2 r1 r2 mq = Inl e \<Longrightarrow> e = AssertionError"
  unfolding deterministic_pass_def by (induction cs) (auto split: sum.splits dest: det_claim_exn)

lemma l3_loop_quiet: "entail_ok ec \<Longrightarrow> quiet (l3_loop ec ids seq ds vs)"
proof (induction ds arbitrary: vs)
  case (Cons d ds)
  then show ?case
    by (auto simp: Let_def split_def intro!: quiet_bindM run_l3_quiet)
qed (simp add: reads_quiet reads_ret)

definition entailment_ok :: "entail_client option \<Rightarrow> bool" where
  "entailment_ok ec \<longleftrightarrow> (case ec of None \<Rightarrow> True | Some c \<Rightarrow> entail_ok c)"

lemma l3_pass_quiet: "entailment_ok ec \<Longrightarrow> quiet (l3_pass ds ec ids seq r3 ia)"
  by (cases ec) (auto simp: l3_pass_def entailment_ok_def intro: l3_loop_quiet reads_quiet reads_ret)

lemma judge_claims_quiet: "entailment_ok ec \<Longrightarrow> quiet (judge_claims dp ec req rq v lv ia)"
  unfolding judge_claims_def
  by (intro quiet_bindM reads_quiet [OF resolve_evidence_reads] reads_quiet [OF reads_liftM] l3_pass_quiet
      reads_quiet [OF reads_ret]) (auto dest: deterministic_exn)

lemma silent_issue: "silent (issue_receipt env v rc)"
  by (auto simp: issue_receipt_def sign_receipt_def load_key_def silent_def ret_def liftM_def split: option.splits)

lemma verify_answer_one_row [ledger_intros]:
  assumes "entailment_ok ec" shows "one_row (verify_answer dp env ec req rq client)"
  unfolding verify_answer_def
proof (rule one_row_bindM [OF reads_quiet [OF reads_active]], goal_cases)
  case (1 active w w')
  show ?case
  proof (cases active)
    case None then show ?thesis by (simp add: one_row_ledgered_error)
  next
    case (Some v)
    with 1 have "av_kb_version v \<noteq> []"
      using fetch_active_nonempty by (auto simp: op_iff broker_ok_def)
    then have "str_or (vr_graph_version req) (av_kb_version v) \<noteq> []"
      by (auto simp: str_or_def split: option.splits)
    then show ?thesis unfolding Some option.case verify_active_def Let_def
      by (intro one_row_bindM [OF judge_claims_quiet [OF assms]] one_row_insert silent_bindM silent_validated silent_issue)
  qed
qed

section \<open>What a passing claim rests on\<close>

lemma map_filter_set: "u \<in> set (evidence_uuids c) \<longleftrightarrow> (\<exists>raw \<in> set (ci_evidence c). parse_uuid raw = Some u)"
  by (force simp: evidence_uuids_def List.map_filter_def)

text \<open>An id that passes L0: a visible, retrieved, live artifact of the served build with support.\<close>

definition supported :: "registry \<Rightarrow> active_version \<Rightarrow> requester \<Rightarrow> string \<Rightarrow> bool" where
  "supported r v rq raw \<longleftrightarrow> (\<exists>u a s. parse_uuid raw = Some u \<and> (a, s) \<in> set (joined r) \<and> ka_id a = u
     \<and> artifact_member (av_build_seq v) a \<and> acl_admits rq (ka_acl a) \<and> \<not> src_deleted s
     \<and> (\<exists>e \<in> set (events r). ev_agent_name e = subject rq \<and> ev_kb_version e = av_kb_version v
          \<and> u \<in> set (ev_returned e) \<union> set (ev_reused e) \<union> set (ev_new e))
     \<and> ((\<exists>e \<in> set (edges r). incident (av_build_seq v) u e \<and> ke_trust e = CLAIM_SUPPORTING)
        \<or> (\<forall>e \<in> set (edges r). \<not> incident (av_build_seq v) u e)))"

lemma foldl_merge: "l0_passed (foldl merge_l0 u us) \<longleftrightarrow> (\<forall>x \<in> set (u # us). l0_passed x)"
  by (induction us arbitrary: u) (auto simp: merge_l0_def l0_passed_def)

lemma merge_all_passed: "merge_all us = Inr m \<Longrightarrow> l0_passed m \<longleftrightarrow> (\<forall>x \<in> set us. l0_passed x)"
  using foldl_merge by (cases us) auto

lemma check_evidence_passed:
  assumes "l0_passed (fst (check_evidence cx raw))"
  shows "\<exists>u p. parse_uuid raw = Some u \<and> map_of (cx_in_version cx) u = Some p \<and> u \<in> cx_acl cx
    \<and> u \<in> cx_retrieved cx \<and> \<not> pv_source_deleted p \<and> (pv_extracted_edge p \<or> \<not> pv_any_edge p)"
  using assms
  by (auto simp: check_evidence_def l0_passed_def no_evidence_def Let_def split: option.splits)

lemma det_claim_passed:
  assumes "det_claim_of cx ids bt l2 r1 r2 mq c = Inr d" and "dc_passed d" and "raw \<in> set (ci_evidence c)"
  shows "l0_passed (fst (check_evidence cx raw))"
proof -
  from assms(1) obtain m where m: "merge_all (map fst (map (check_evidence cx) (ci_evidence c))) = Inr m"
    and d: "dc_passed d \<longrightarrow> l0_passed m"
    by (auto simp: det_claim_of_def Let_def split: sum.splits)
  from merge_all_passed [OF m] d assms(2,3) show ?thesis by simp
qed

lemma det_claim_fields:
  assumes "det_claim_of cx ids bt l2 r1 r2 mq c = Inr d"
  shows "dc_claim d = c" "dc_l2 d = (if r2 then map_of l2 (ci_id c) else None)"
    "dc_passed d \<Longrightarrow> dc_l2 d \<noteq> Some False"
  using assms by (auto simp: det_claim_of_def Let_def split: sum.splits)

lemma resolve_evidence_Inr:
  assumes "resolve_evidence req rq v ia r1 r2 w = (Inr rs, w')"
  shows "cx_in_version (rs_context rs) = (if ia then fetch_provenance (w_db w) (cited_ids (vr_claims req)) (av_build_seq v) CLAIM_SUPPORTING else [])"
    and "cx_acl (rs_context rs) = set (admitted_ids rq (cx_in_version (rs_context rs)))"
    and "cx_retrieved (rs_context rs) = fetch_subject_retrieved_ids (w_db w) (subject rq) (av_kb_version v)"
    and "rs_ids rs = filter (\<lambda>u. u \<in> cx_retrieved (rs_context rs)) (admitted_ids rq (cx_in_version (rs_context rs)))"
proof -
  let ?ids = "cited_ids (vr_claims req)"
  let ?p = "if ia then db_get (\<lambda>d. fetch_provenance d ?ids (av_build_seq v) CLAIM_SUPPORTING) else ret []"
  from assms obtain iv w1 k1 where p: "?p w = (Inr iv, w1)" and k1: "k1 w1 = (Inr rs, w')"
    and k1d: "k1 = bindM (db_get (\<lambda>d. fetch_existing_anywhere d ?ids)) (\<lambda>anywhere.
         bindM (db_get (\<lambda>d. fetch_subject_retrieved_ids d (subject rq) (av_kb_version v))) (\<lambda>retrieved.
         let ids = filter (\<lambda>u. u \<in> retrieved) (admitted_ids rq iv)
         in bindM (if r1 \<and> ia \<and> ids \<noteq> [] then db_get (\<lambda>d. fetch_cited_body_texts d ids (av_build_seq v)) else ret []) (\<lambda>texts.
            bindM (if r2 \<and> ia then l2_pass (vr_claims req) ids (av_build_seq v) rq [] else ret []) (\<lambda>l2.
            ret \<lparr>rs_context = \<lparr>cx_in_version = iv, cx_anywhere = anywhere,
                   cx_acl = set (admitted_ids rq iv), cx_retrieved = retrieved\<rparr>,
                 rs_ids = ids, rs_texts = texts, rs_l2 = l2\<rparr>))))"
    unfolding resolve_evidence_def Let_def by (blast elim: bindM_InrE)
  have db1: "w_db w1 = w_db w" and iv: "iv = (if ia then fetch_provenance (w_db w) ?ids (av_build_seq v) CLAIM_SUPPORTING else [])"
    using p by (auto simp: db_get_Inr ret_iff split: if_splits)
  from k1 k1d obtain anywhere retrieved where
    "retrieved = fetch_subject_retrieved_ids (w_db w1) (subject rq) (av_kb_version v)"
    "rs_context rs = \<lparr>cx_in_version = iv, cx_anywhere = anywhere, cx_acl = set (admitted_ids rq iv), cx_retrieved = retrieved\<rparr>"
    "rs_ids rs = filter (\<lambda>u. u \<in> retrieved) (admitted_ids rq iv)"
    by (auto simp: bindM_Inr_iff db_get_Inr ret_iff Let_def)
  with iv db1 show "cx_in_version (rs_context rs) = (if ia then fetch_provenance (w_db w) ?ids (av_build_seq v) CLAIM_SUPPORTING else [])"
    "cx_acl (rs_context rs) = set (admitted_ids rq (cx_in_version (rs_context rs)))"
    "cx_retrieved (rs_context rs) = fetch_subject_retrieved_ids (w_db w) (subject rq) (av_kb_version v)"
    "rs_ids rs = filter (\<lambda>u. u \<in> cx_retrieved (rs_context rs)) (admitted_ids rq (cx_in_version (rs_context rs)))"
    by simp_all
qed

lemma admitted_in: "dict_ok iv \<Longrightarrow> u \<in> set (admitted_ids rq iv) \<Longrightarrow> map_of iv u = Some p \<Longrightarrow> acl_admits rq (pv_acl p)"
  by (auto simp: admitted_ids_def dest: dict_getD)

lemma l0_passed_supported:
  assumes rs: "resolve_evidence req rq v ia r1 r2 w = (Inr rs, w')"
    and p: "l0_passed (fst (check_evidence (rs_context rs) raw))"
  shows "ia" and "supported (w_db w) v rq raw"
proof -
  let ?iv = "cx_in_version (rs_context rs)"
  note f = resolve_evidence_Inr [OF rs]
  from check_evidence_passed [OF p] obtain u row where u: "parse_uuid raw = Some u" "map_of ?iv u = Some row"
    "u \<in> cx_acl (rs_context rs)" "u \<in> cx_retrieved (rs_context rs)" "\<not> pv_source_deleted row"
    "pv_extracted_edge row \<or> \<not> pv_any_edge row" by blast
  show ia: ia using u(2) f(1) by (cases ia) auto
  have iv: "?iv = fetch_provenance (w_db w) (cited_ids (vr_claims req)) (av_build_seq v) CLAIM_SUPPORTING"
    using f(1) ia by simp
  have "dict_ok ?iv" unfolding iv by (rule fetch_provenance_ok)
  then have acl: "acl_admits rq (pv_acl row)" using admitted_in u(2,3) f(2) by metis
  note pr = fetch_provenance_Some [OF u(2) [unfolded iv]]
  then obtain a s where as: "(a, s) \<in> set (joined (w_db w))" "ka_id a = u" "artifact_member (av_build_seq v) a"
    "pv_source_deleted row = src_deleted s" "pv_acl row = ka_acl a"
    "pv_extracted_edge row = list_ex (\<lambda>e. incident (av_build_seq v) u e \<and> ke_trust e = CLAIM_SUPPORTING) (edges (w_db w))"
    "pv_any_edge row = list_ex (incident (av_build_seq v) u) (edges (w_db w))" by blast
  have got: "\<exists>e \<in> set (events (w_db w)). ev_agent_name e = subject rq \<and> ev_kb_version e = av_kb_version v
      \<and> u \<in> set (ev_returned e) \<union> set (ev_reused e) \<union> set (ev_new e)"
    using u(4) f(3) by (simp add: in_subject_retrieved)
  have edge: "(\<exists>e \<in> set (edges (w_db w)). incident (av_build_seq v) u e \<and> ke_trust e = CLAIM_SUPPORTING)
        \<or> (\<forall>e \<in> set (edges (w_db w)). \<not> incident (av_build_seq v) u e)"
    using u(6) unfolding as(6,7) list_ex_iff by blast
  show "supported (w_db w) v rq raw"
    unfolding supported_def using u(1,5) as(1-5) acl got edge by metis
qed

text \<open>Soundness: whatever the levels, a claim that passes cites only supported ids.\<close>

lemma judge_claims_sound:
  assumes run: "judge_claims dp ec req rq v levels ia w = (Inr claims, w')" and ok: "broker_ok w" "entailment_ok ec"
  shows "list_all2 (\<lambda>c r. cr_claim_id r = ci_id c \<and> (cr_result r = ''passed'' \<longrightarrow>
      ia \<and> ci_evidence c \<noteq> [] \<and> (\<forall>raw \<in> set (ci_evidence c). supported (w_db w) v rq raw)
      \<and> ck_l2 (cr_checks r) \<noteq> Some False \<and> ck_l3 (cr_checks r) \<noteq> Some False)) (vr_claims req) claims"
proof -
  let ?r1 = "''L1'' \<in> set levels" and ?r2 = "''L2'' \<in> set levels" and ?mq = "max_quote_chars (dp_settings dp)"
  from run obtain rs w1 where rs: "resolve_evidence req rq v ia ?r1 ?r2 w = (Inr rs, w1)"
    and k1: "bindM (liftM (deterministic_pass (vr_claims req) (rs_context rs) (rs_ids rs) (rs_texts rs) (rs_l2 rs) ?r1 ?r2 ?mq))
       (\<lambda>ds. bindM (l3_pass ds ec (rs_ids rs) (av_build_seq v) (''L3'' \<in> set levels) ia) (\<lambda>l3.
        ret (map (claim_receipt_of l3) ds))) w1 = (Inr claims, w')"
    unfolding judge_claims_def by (rule bindM_InrE)
  from k1 obtain ds l3 where ds: "deterministic_pass (vr_claims req) (rs_context rs) (rs_ids rs) (rs_texts rs) (rs_l2 rs) ?r1 ?r2 ?mq = Inr ds"
    and cl: "claims = map (claim_receipt_of l3) ds"
    by (auto simp: bindM_Inr_iff liftM_iff ret_iff)
  have "list_all2 (\<lambda>c d. det_claim_of (rs_context rs) (rs_ids rs) (rs_texts rs) (rs_l2 rs) ?r1 ?r2 ?mq c = Inr d) (vr_claims req) ds"
    using ds unfolding deterministic_pass_def mapE_Inr_iff .
  then show ?thesis
    unfolding cl list_all2_map2
  proof (rule list_all2_mono)
    fix c d assume d: "det_claim_of (rs_context rs) (rs_ids rs) (rs_texts rs) (rs_l2 rs) ?r1 ?r2 ?mq c = Inr d"
    note f = det_claim_fields [OF d]
    have id: "cr_claim_id (claim_receipt_of l3 d) = ci_id c" using f(1) by (simp add: claim_receipt_of_def Let_def)
    have ne: "ci_evidence c \<noteq> []" using d by (auto simp: det_claim_of_def)
    show "cr_claim_id (claim_receipt_of l3 d) = ci_id c \<and> (cr_result (claim_receipt_of l3 d) = ''passed'' \<longrightarrow>
      ia \<and> ci_evidence c \<noteq> [] \<and> (\<forall>raw \<in> set (ci_evidence c). supported (w_db w) v rq raw)
      \<and> ck_l2 (cr_checks (claim_receipt_of l3 d)) \<noteq> Some False \<and> ck_l3 (cr_checks (claim_receipt_of l3 d)) \<noteq> Some False)"
    proof (intro conjI impI id ne ballI)
      assume p: "cr_result (claim_receipt_of l3 d) = ''passed''"
      then have pd: "dc_passed d" and l3: "map_of l3 (ci_id (dc_claim d)) \<noteq> Some False"
        by (auto simp: claim_receipt_of_def Let_def split: if_splits)
      show "ck_l2 (cr_checks (claim_receipt_of l3 d)) \<noteq> Some False" using f(3) [OF pd] by (simp add: claim_receipt_of_def Let_def)
      show "ck_l3 (cr_checks (claim_receipt_of l3 d)) \<noteq> Some False" using l3 by (simp add: claim_receipt_of_def Let_def)
      have sp: "ia" "supported (w_db w) v rq raw" if "raw \<in> set (ci_evidence c)" for raw
        using l0_passed_supported [OF rs det_claim_passed [OF d pd that]] by blast+
      show ia using sp(1) ne by (cases "ci_evidence c") auto
      show "supported (w_db w) v rq raw" if "raw \<in> set (ci_evidence c)" for raw using sp(2) [OF that] .
    qed
  qed
qed

text \<open>
  What a claim's receipt vouches for: a claim passes only over the served version, citing at least
  one id, every cited id supported, with no level that ran against it.
\<close>

definition claim_backed ::
  "registry \<Rightarrow> active_version \<Rightarrow> requester \<Rightarrow> verify_request \<Rightarrow> claim_input \<Rightarrow> claim_receipt \<Rightarrow> bool" where
  "claim_backed r v rq req c rcpt \<longleftrightarrow> cr_claim_id rcpt = ci_id c \<and> (cr_result rcpt = ''passed'' \<longrightarrow>
     str_or (vr_graph_version req) (av_kb_version v) = av_kb_version v \<and> ci_evidence c \<noteq> []
     \<and> (\<forall>raw \<in> set (ci_evidence c). supported r v rq raw)
     \<and> ck_l2 (cr_checks rcpt) \<noteq> Some False \<and> ck_l3 (cr_checks rcpt) \<noteq> Some False)"

lemma issue_receipt_Inr:
  assumes "issue_receipt env v rc w = (Inr rc', w')"
  shows "rc_claims rc' = rc_claims rc" "rc_overall rc' = rc_overall rc" "rc_client rc' = rc_client rc"
  using assms by (auto simp: issue_receipt_def op_iff sign_receipt_def split: option.splits if_splits sum.splits)

lemma verify_answer_Inr:
  assumes run: "verify_answer dp env ec req rq client w = (Inr rc, w')" and ok: "broker_ok w" "entailment_ok ec"
  obtains v where "fetch_active_version (w_db w) = Inr (Some v)"
    "list_all2 (claim_backed (w_db w) v rq req) (vr_claims req) (rc_claims rc)"
    "rc_overall rc = overall_result (rc_claims rc)" "rc_client rc = map_option client_id client"
proof -
  from run obtain v fs where v: "fetch_active_version (w_db w) = Inr (Some v)"
    and a: "verify_active dp env ec req rq client v (w\<lparr>w_faults := fs\<rparr>) = (Inr rc, w')"
    unfolding verify_answer_def
    by (rule bindM_InrE) (auto simp: op_iff split: option.splits)
  let ?w1 = "w\<lparr>w_faults := fs\<rparr>"
  have d: "w_db ?w1 = w_db w" "broker_ok ?w1" using ok(1) by (simp_all add: broker_ok_def)
  let ?lv = "resolve_levels (vr_levels req) (ec \<noteq> None)" and ?gv = "str_or (vr_graph_version req) (av_kb_version v)"
  from a obtain cs w2 w3 w4 where j: "judge_claims dp ec req rq v ?lv (?gv = av_kb_version v) ?w1 = (Inr cs, w2)"
    and i: "issue_receipt env (signing_key_env (dp_settings dp)) (receipt_of req client ?lv ?gv cs) w4 = (Inr rc, w')"
    unfolding verify_active_def Let_def by (elim bindM_InrE) (auto simp: validated_Inr)
  have c: "rc_claims rc = cs" "rc_overall rc = overall_result cs" "rc_client rc = map_option client_id client"
    using issue_receipt_Inr [OF i] by (simp_all add: receipt_of_def)
  show thesis
  proof (rule that [OF v])
    show "list_all2 (claim_backed (w_db w) v rq req) (vr_claims req) (rc_claims rc)"
      using judge_claims_sound [OF j d(2) ok(2)] unfolding c(1) d(1) claim_backed_def .
  qed (simp_all add: c)
qed

end
