(* ===== verification/Pack.thy ===== *)
theory Pack
  imports Retrieval
begin

text \<open>
  \<open>context_broker/pack.py\<close>: \<open>context.create_pack\<close> and \<open>context.read_pack\<close>. The request models'
  constraints (non-empty strings, a positive budget) are checked before a handler runs; they
  are hypotheses where a claim needs them.
\<close>

section \<open>Trimming to the run budget\<close>

definition MAX_READ_PACK_CARDS :: nat where
  "MAX_READ_PACK_CARDS = 50"

function trim_loop :: "deps \<Rightarrow> int \<Rightarrow> evidence_card list \<Rightarrow> int \<Rightarrow> evidence_card list \<times> int" where
  "trim_loop dp budget kept used =
     (if kept \<noteq> [] \<and> used > budget
      then trim_loop dp budget (butlast kept) (used - card_tokens dp (last kept))
      else (kept, used))"
  by pat_completeness auto
termination
  by (relation "measure (\<lambda>(dp, budget, kept, used). length kept)") auto

declare trim_loop.simps [simp del]

definition trim_to_budget :: "deps \<Rightarrow> evidence_card list \<Rightarrow> int \<Rightarrow> evidence_card list \<times> int" where
  "trim_to_budget dp cards budget_tokens =
     trim_loop dp budget_tokens cards (sum_list (map (card_tokens dp) cards))"

definition summary :: "string \<Rightarrow> evidence_card list \<Rightarrow> string" where
  "summary run_id cards =
     (if cards = [] then ''Evidence pack for run '' @ run_id @ '': no evidence found.''
      else ''Evidence pack for run '' @ run_id @ '': '' @ nat_str (length cards) @ '' cards covering ''
           @ py_join ''; '' (map ec_title cards) @ ''.'')"

section \<open>create_pack\<close>

record create_pack_request =
  cp_run_id :: string
  cp_task :: string
  cp_plan :: string
  cp_profile :: string
  cp_budget :: int
  cp_intent :: "intent option"

record create_pack_response =
  cr_pack_id :: string
  cr_kb_version :: string
  cr_summary :: string
  cr_cards :: "evidence_card list"
  cr_questions :: "string list"
  cr_used :: int
  cr_policy :: string

definition budget_json :: "int \<Rightarrow> int \<Rightarrow> int \<Rightarrow> json" where
  "budget_json allowed used remaining =
     JObj [(''allowed'', JInt allowed), (''used'', JInt used), (''remaining'', JInt remaining)]"

definition create_details :: "string \<Rightarrow> evidence_card list \<Rightarrow> int \<Rightarrow> int \<Rightarrow> (string \<times> json) list" where
  "create_details task cards budget_tokens used_tokens =
     [(''task'', JStr task),
      (''candidates_considered'', JInt (int (length cards))),
      (''cards'', JArr (map (\<lambda>c. JObj [(''artifact_id'', JStr (uuid_str (ec_artifact_id c))),
          (''title'', JStr (ec_title c)), (''score'', JNum (ec_authority c)),
          (''card_type'', JStr (ec_card_type c))]) cards)),
      (''budget'', budget_json budget_tokens used_tokens (budget_tokens - used_tokens))]"

text \<open>\<open>packs.create(pack)\<close>: the object is allocated and stored.\<close>

definition store_pack :: "pack \<Rightarrow> nat broker" where
  "store_pack p w =
     (let (r, s1) = alloc_pack p (w_store w)
      in case create r s1 of Inl e \<Rightarrow> (Inl e, w) | Inr s2 \<Rightarrow> (Inr r, w\<lparr>w_store := s2\<rparr>))"

definition new_pack ::
  "create_pack_request \<Rightarrow> active_version \<Rightarrow> string \<Rightarrow> nat \<Rightarrow> int \<Rightarrow> evidence_card list \<Rightarrow> int \<Rightarrow> pack" where
  "new_pack req v pid usage_ref budget_tokens cards used_tokens =
     \<lparr>pk_id = pid, pk_run_id = cp_run_id req, pk_kb_version = av_kb_version v,
      pk_build_seq = av_build_seq v, pk_profile = cp_profile req, pk_summary = summary (cp_run_id req) cards,
      pk_budget = budget_tokens, pk_used = used_tokens,
      pk_cards = dict_update_all [] (map (\<lambda>c. (ec_evidence_id c, c)) cards),
      pk_questions = (if cards \<noteq> [] then [] else [''No evidence found for: '' @ cp_task req]),
      pk_usage = usage_ref,
      pk_history = history_record [] (normalize_query (cp_task req @ '' '' @ cp_plan req))
        (map ec_evidence_id cards)\<rparr>"

definition create_event ::
  "create_pack_request \<Rightarrow> requester \<Rightarrow> pack \<Rightarrow> uuid \<Rightarrow> evidence_card list \<Rightarrow> retrieval_event" where
  "create_event req requester p pack_uuid cards =
     (event (cp_run_id req) (subject requester) ''context.create_pack'' ''approved'' (pk_kb_version p))
       \<lparr>ev_context_pack_id := Some pack_uuid,
        ev_query_text := Some (cp_task req @ '' '' @ cp_plan req),
        ev_normalized_query := Some (normalize_query (cp_task req @ '' '' @ cp_plan req)),
        ev_retrieval_profile := Some (cp_profile req),
        ev_returned := map ec_artifact_id cards, ev_new := map ec_artifact_id cards,
        ev_tokens_returned := pk_used p,
        ev_details := Some (create_details (cp_task req) cards (pk_budget p) (pk_used p))\<rparr>"

text \<open>From the retrieved cards to the response.\<close>

definition finish_create ::
  "deps \<Rightarrow> create_pack_request \<Rightarrow> requester \<Rightarrow> active_version \<Rightarrow> int \<Rightarrow> evidence_card list \<Rightarrow> int
   \<Rightarrow> create_pack_response broker" where
  "finish_create dp req requester v budget_tokens cards used_tokens =
     bindM (store_op (usage_for_run (cp_run_id req))) (\<lambda>usage_ref.
     bindM (new_pack_id dp) (\<lambda>pid.
     let p = new_pack req v pid usage_ref budget_tokens cards used_tokens
     in bindM (liftM (opt_or_raise ValueError (parse_uuid pid))) (\<lambda>pack_uuid.
        bindM (insert_event (create_event req requester p pack_uuid cards)) (\<lambda>_.
        bindM (store_pack p) (\<lambda>_.
        validated (av_kb_version v \<noteq> [])
          \<lparr>cr_pack_id = pid, cr_kb_version = av_kb_version v, cr_summary = pk_summary p,
           cr_cards = cards, cr_questions = pk_questions p, cr_used = used_tokens,
           cr_policy = policy_name\<rparr>)))))"

definition create_pack :: "deps \<Rightarrow> create_pack_request \<Rightarrow> requester \<Rightarrow> create_pack_response broker" where
  "create_pack dp req requester =
     (let query = cp_task req @ '' '' @ cp_plan req;
          budget_tokens = min (cp_budget req) (max_run_budget_tokens (dp_settings dp))
      in bindM (db_read fetch_active_version) (\<lambda>active. case active of
           None \<Rightarrow> ledgered_error ''context.create_pack'' (subject requester)
             (error_defaults\<lparr>ea_run_id := cp_run_id req, ea_query_text := Some query\<rparr>) MSG_NO_ACTIVE_VERSION
         | Some v \<Rightarrow>
             bindM (retrieve_cards dp query (av_build_seq v) requester (cp_intent req)) (\<lambda>found.
             let trimmed = trim_to_budget dp (fst found) budget_tokens
             in finish_create dp req requester v budget_tokens (fst trimmed) (snd trimmed))))"

section \<open>read_pack\<close>

record read_pack_request =
  rp_pack_id :: string
  rp_role :: string

record read_pack_response =
  rr_pack_id :: string
  rr_kb_version :: string
  rr_role :: string
  rr_summary :: string
  rr_cards :: "evidence_card list"
  rr_questions :: "string list"
  rr_remaining :: int
  rr_policy :: string

text \<open>\<open>packs.get\<close>: the pack object and its fields as they are at that moment.\<close>

definition lookup_pack :: "string \<Rightarrow> (nat \<times> pack) option broker" where
  "lookup_pack pid = store_op (\<lambda>s. case get_pack pid s of
     None \<Rightarrow> (None, s) | Some (r, s') \<Rightarrow> (Some (r, pack_obj s' r), s'))"

definition readable_cards :: "requester \<Rightarrow> artifact_row list \<Rightarrow> evidence_card list \<Rightarrow> evidence_card list" where
  "readable_cards requester artifact_rows all_cards =
     (let allowed_ids = set (map ar_id (filter_artifacts requester artifact_rows))
      in take MAX_READ_PACK_CARDS (filter (\<lambda>c. ec_artifact_id c \<in> allowed_ids) all_cards))"

definition pack_artifacts :: "registry \<Rightarrow> pack \<Rightarrow> artifact_row list" where
  "pack_artifacts d p = fetch_artifacts d (map (ec_artifact_id \<circ> snd) (pk_cards p)) (pk_build_seq p)"

definition read_event :: "requester \<Rightarrow> pack \<Rightarrow> uuid \<Rightarrow> evidence_card list \<Rightarrow> retrieval_event" where
  "read_event requester p pack_uuid cards =
     (event (pk_run_id p) (subject requester) ''context.read_pack'' ''reused'' (pk_kb_version p))
       \<lparr>ev_context_pack_id := Some pack_uuid, ev_retrieval_profile := Some (pk_profile p),
        ev_reused := map ec_artifact_id cards, ev_cache_hit := True\<rparr>"

definition serve_pack ::
  "deps \<Rightarrow> read_pack_request \<Rightarrow> requester \<Rightarrow> nat \<Rightarrow> pack \<Rightarrow> read_pack_response broker" where
  "serve_pack dp req requester r p =
     bindM (db_get (\<lambda>d. pack_artifacts d p)) (\<lambda>artifact_rows.
     let cards = readable_cards requester artifact_rows (map snd (pk_cards p))
     in bindM (liftM (opt_or_raise ValueError (parse_uuid (pk_id p)))) (\<lambda>pack_uuid.
        bindM (insert_event (read_event requester p pack_uuid cards)) (\<lambda>_.
        bindM (the_pack r) (\<lambda>p'.
        validated (pk_id p \<noteq> [] \<and> pk_kb_version p \<noteq> [])
          \<lparr>rr_pack_id = pk_id p, rr_kb_version = pk_kb_version p, rr_role = rp_role req,
           rr_summary = summary (pk_run_id p) cards, rr_cards = cards,
           rr_questions = pk_questions p, rr_remaining = run_remaining_tokens p',
           rr_policy = policy_name\<rparr>))))"

definition read_pack :: "deps \<Rightarrow> read_pack_request \<Rightarrow> requester \<Rightarrow> read_pack_response broker" where
  "read_pack dp req requester =
     bindM (lookup_pack (rp_pack_id req)) (\<lambda>found. case found of
       None \<Rightarrow> ledgered_error ''context.read_pack'' (subject requester)
         (error_defaults\<lparr>ea_query_text := Some (rp_pack_id req)\<rparr>)
         (''unknown context_pack_id: '' @ rp_pack_id req)
     | Some (r, p) \<Rightarrow> serve_pack dp req requester r p)"

section \<open>Trimming keeps the longest prefix that fits\<close>

lemma trim_loop_spec:
  assumes "trim_loop dp b kept used = (out, u)" and "used = sum_list (map (card_tokens dp) kept)"
  shows "\<exists>n \<le> length kept. out = take n kept \<and> u = sum_list (map (card_tokens dp) out)
    \<and> (0 \<le> b \<longrightarrow> u \<le> b)
    \<and> (\<forall>m. n < m \<longrightarrow> m \<le> length kept \<longrightarrow> b < sum_list (map (card_tokens dp) (take m kept)))"
  using assms
proof (induction dp b kept used rule: trim_loop.induct)
  case (1 dp b kept used)
  show ?case
  proof (cases "kept \<noteq> [] \<and> used > b")
    case True
    have bl: "butlast kept = take (length kept - 1) kept" by (rule butlast_conv_take)
    obtain ks k where "kept = ks @ [k]" using True by (cases kept rule: rev_cases) auto
    then have u: "used - card_tokens dp (last kept) = sum_list (map (card_tokens dp) (butlast kept))"
      using "1.prems"(2) by simp
    have "trim_loop dp b (butlast kept) (used - card_tokens dp (last kept)) = (out, u)"
      using "1.prems"(1) True by (subst (asm) trim_loop.simps) simp
    from "1.IH" [OF True this u] obtain n where n: "n \<le> length kept - 1" "out = take n (butlast kept)"
      "u = sum_list (map (card_tokens dp) out)" "0 \<le> b \<longrightarrow> u \<le> b"
      and mx: "\<And>m. n < m \<Longrightarrow> m \<le> length kept - 1 \<Longrightarrow> b < sum_list (map (card_tokens dp) (take m (butlast kept)))"
      by auto
    have "b < sum_list (map (card_tokens dp) (take m kept))" if "n < m" "m \<le> length kept" for m
    proof (cases "m = length kept")
      case True with "1.prems"(2) \<open>kept \<noteq> [] \<and> used > b\<close> show ?thesis by simp
    next
      case False
      with that mx [of m] show ?thesis by (simp add: bl)
    qed
    with n show ?thesis by (intro exI [of _ n]) (auto simp: bl)
  next
    case False
    then have "out = kept \<and> u = used" using "1.prems"(1) by (subst (asm) trim_loop.simps) auto
    with False "1.prems"(2) show ?thesis by (intro exI [of _ "length kept"]) auto
  qed
qed

lemma trim_spec:
  assumes "trim_to_budget dp cards b = (out, u)"
  obtains n where "n \<le> length cards" "out = take n cards" "u = sum_list (map (card_tokens dp) out)"
    "0 \<le> b \<Longrightarrow> u \<le> b"
    "\<And>m. n < m \<Longrightarrow> m \<le> length cards \<Longrightarrow> b < sum_list (map (card_tokens dp) (take m cards))"
  using trim_loop_spec [OF assms [unfolded trim_to_budget_def] refl] by blast

lemma sum_card_tokens_nonneg [simp]: "0 \<le> sum_list (map (card_tokens dp) cs)"
  by (induction cs) auto

section \<open>The ledger discipline and the store's invariant\<close>

lemma lookup_pack_Inr [op_iff]:
  "lookup_pack pid w = (Inr x, w') \<longleftrightarrow>
     (case get_pack pid (w_store w) of None \<Rightarrow> x = None \<and> w' = w
      | Some (r, s) \<Rightarrow> x = Some (r, pack_obj s r) \<and> w' = w\<lparr>w_store := s\<rparr>)"
  by (auto simp: lookup_pack_def op_iff split: option.splits)

lemma silent_lookup_pack [ledger_intros]: "silent (lookup_pack pid)"
  unfolding lookup_pack_def
  by (rule silent_store_op) (auto split: option.splits dest: get_pack_store_ok(1))

lemma silent_usage_for_run [ledger_intros]: "silent (store_op (usage_for_run run))"
  by (rule silent_store_op)
    (auto simp: usage_for_run_def store_ok_def split: option.splits intro: less_SucI)

lemma silent_store_pack [ledger_intros]: "pack_ok p \<Longrightarrow> silent (store_pack p)"
  unfolding silent_def
proof (intro allI impI)
  fix w assume p: "pack_ok p" and ok: "broker_ok w"
  let ?s1 = "snd (alloc_pack p (w_store w))" and ?r = "next_obj (w_store w)"
  have s1: "store_ok ?s1" "pack_obj ?s1 ?r = p" "?r < next_obj ?s1"
    using ok p alloc_store_ok by (simp_all add: broker_ok_def) (simp_all add: alloc_pack_def)
  then have "0 < max_packs ?s1" by (simp add: store_ok_def)
  then obtain s2 where c: "create ?r ?s1 = Inr s2" using create_total by blast
  with s1 p have "store_ok s2" by (auto intro: create_store_ok)
  moreover have "store_pack p w = (Inr ?r, w\<lparr>w_store := s2\<rparr>)"
    using c by (simp add: store_pack_def alloc_pack_def Let_def)
  ultimately show "\<exists>x w'. store_pack p w = (Inr x, w') \<and> broker_ok w' \<and> rows w' = rows w"
    using ok by (simp add: broker_ok_def)
qed

lemma reads_the_pack [reads_intros]: "reads_only (the_pack r)"
  unfolding the_pack_def by (rule reads_getM)

text \<open>The cards of a retrieval are entries a pack may hold.\<close>

lemma retrieved_card_ok:
  assumes "retrieve_cards dp q seq rq intent w = (Inr (cards, ranked), w')" and "registry_ok (w_db w)"
    and "c \<in> set cards"
  shows "card_entry_ok (ec_evidence_id c, c)"
proof -
  from retrieve_cards_Inr(2) [OF assms(1,3)] obtain row where row: "row \<in> set ranked"
    "ar_id row = ec_artifact_id c" "ec_evidence_id c = uuid_str (ar_id row)" by blast
  obtain ids where "row \<in> set (fetch_artifacts (w_db w) ids seq)"
    using retrieve_cards_Inr(3) [OF assms(1) row(1)] by blast
  then have "uuid_ok (ar_id row)" using fetch_artifacts_uuid_ok [OF assms(2)] by blast
  with row show ?thesis by (simp add: card_entry_ok_def)
qed

lemma new_pack_ok:
  assumes "uuid_ok u" and "pid = uuid_str u" and "av_kb_version v \<noteq> []"
    and "\<forall>c \<in> set cards. card_entry_ok (ec_evidence_id c, c)"
  shows "pack_ok (new_pack req v pid d b cards n)"
  using assms by (auto simp: pack_ok_def new_pack_def intro!: cards_ok_update_all)

lemma trim_subset: "set (fst (trim_to_budget dp cards b)) \<subseteq> set cards"
  by (rule trim_spec [of dp cards b "fst (trim_to_budget dp cards b)" "snd (trim_to_budget dp cards b)"])
    (auto dest: in_set_takeD)

lemma new_pack_id_Inr [op_iff]:
  "new_pack_id dp w = (Inr x, w') \<longleftrightarrow>
     x = uuid_str (dp_uuid4 dp (w_uuids w)) \<and> w' = w\<lparr>w_uuids := Suc (w_uuids w)\<rparr>"
  by (auto simp: new_pack_id_def op_iff)

lemma finish_create_one_row:
  assumes "uuid4_ok dp" and v: "av_kb_version v \<noteq> []"
    and cs: "\<forall>c \<in> set cards. card_entry_ok (ec_evidence_id c, c)"
  shows "one_row (finish_create dp req rq v b cards n)"
  unfolding finish_create_def Let_def
proof (rule one_row_bindM [OF silent_quiet [OF silent_usage_for_run]],
    rule one_row_bindM [OF silent_quiet [OF silent_new_pack_id]])
  fix d pid w w' assume "new_pack_id dp w = (Inr pid, w')"
  with assms have p: "pack_ok (new_pack req v pid d b cards n)"
    by (auto simp: op_iff uuid4_ok_def intro: new_pack_ok)
  then obtain u where "parse_uuid pid = Some u"
    using pack_ok_uuid by (fastforce simp: new_pack_def)
  then show "one_row (bindM (liftM (opt_or_raise ValueError (parse_uuid pid))) (\<lambda>pack_uuid.
      bindM (insert_event (create_event req rq (new_pack req v pid d b cards n) pack_uuid cards)) (\<lambda>_.
      bindM (store_pack (new_pack req v pid d b cards n)) (\<lambda>_.
      validated (av_kb_version v \<noteq> [])
        \<lparr>cr_pack_id = pid, cr_kb_version = av_kb_version v,
         cr_summary = pk_summary (new_pack req v pid d b cards n), cr_cards = cards,
         cr_questions = pk_questions (new_pack req v pid d b cards n), cr_used = n,
         cr_policy = policy_name\<rparr>))))"
    using p v by (simp, intro one_row_insert ledger_intros; simp)
qed

lemma create_pack_one_row [ledger_intros]:
  assumes "uuid4_ok dp" shows "one_row (create_pack dp req rq)"
  unfolding create_pack_def Let_def
proof (rule one_row_bindM [OF reads_quiet [OF reads_active]])
  fix active :: "active_version option" and w w'
  assume ok: "broker_ok w" and a: "db_read fetch_active_version w = (Inr active, w')"
  let ?q = "cp_task req @ '' '' @ cp_plan req" and ?b = "min (cp_budget req) (max_run_budget_tokens (dp_settings dp))"
  have v: "av_kb_version v \<noteq> []" if "active = Some v" for v
    using that a ok fetch_active_nonempty by (auto simp: op_iff broker_ok_def)
  have "one_row (bindM (retrieve_cards dp ?q (av_build_seq v) rq (cp_intent req)) (\<lambda>found.
      finish_create dp req rq v ?b (fst (trim_to_budget dp (fst found) ?b)) (snd (trim_to_budget dp (fst found) ?b))))"
    if "active = Some v" for v
  proof (rule one_row_bindM [OF reads_quiet [OF retrieve_cards_reads]])
    fix found w2 w3
    assume ok2: "broker_ok w2"
      and r: "retrieve_cards dp ?q (av_build_seq v) rq (cp_intent req) w2 = (Inr found, w3)"
    have "card_entry_ok (ec_evidence_id c, c)" if "c \<in> set (fst found)" for c
      using retrieved_card_ok [of dp ?q "av_build_seq v" rq "cp_intent req" w2 "fst found" "snd found" w3 c]
        r ok2 that by (simp add: broker_ok_def)
    with trim_subset show "one_row (finish_create dp req rq v ?b (fst (trim_to_budget dp (fst found) ?b))
        (snd (trim_to_budget dp (fst found) ?b)))"
      by (intro finish_create_one_row assms v [OF that]) blast
  qed
  then show "one_row (case active of
      None \<Rightarrow> ledgered_error ''context.create_pack'' (subject rq)
        (error_defaults\<lparr>ea_run_id := cp_run_id req, ea_query_text := Some ?q\<rparr>) MSG_NO_ACTIVE_VERSION
    | Some v \<Rightarrow> bindM (retrieve_cards dp ?q (av_build_seq v) rq (cp_intent req)) (\<lambda>found.
        finish_create dp req rq v ?b (fst (trim_to_budget dp (fst found) ?b)) (snd (trim_to_budget dp (fst found) ?b))))"
    by (cases active) (simp_all add: one_row_ledgered_error)
qed

lemma lookup_pack_ok:
  assumes "lookup_pack pid w = (Inr (Some (r, p)), w')" and "broker_ok w"
  shows "pack_ok p" "pk_id p = pid" "pack_obj (w_store w') r = p" "pack_obj (w_store w) r = p"
proof -
  from assms(1) obtain s where g: "get_pack pid (w_store w) = Some (r, s)"
    and p: "p = pack_obj s r" "w' = w\<lparr>w_store := s\<rparr>"
    by (auto simp: lookup_pack_Inr split: option.splits)
  note f = get_pack_store_ok [OF g] get_pack_Some(2) [OF g]
  show "pack_ok p" "pk_id p = pid" "pack_obj (w_store w') r = p" "pack_obj (w_store w) r = p"
    using f assms(2) p by (simp_all add: broker_ok_def)
qed

lemma pack_id_nonempty: "pack_ok p \<Longrightarrow> pk_id p \<noteq> []"
proof -
  assume "pack_ok p"
  then obtain u where "pk_id p = uuid_str u" by (auto simp: pack_ok_def)
  then have "length (filter (\<lambda>c. c \<noteq> CHR ''-'') (pk_id p)) = 32" by (simp add: uuid_str_filter)
  then show ?thesis by auto
qed

lemma serve_pack_one_row:
  assumes "pack_ok p" shows "one_row (serve_pack dp req rq r p)"
  unfolding serve_pack_def Let_def
proof (rule one_row_bindM [OF reads_quiet [OF reads_db_get]])
  fix artifact_rows w w'
  obtain u where u: "parse_uuid (pk_id p) = Some u" using pack_ok_uuid assms by blast
  have ne: "pk_id p \<noteq> [] \<and> pk_kb_version p \<noteq> []"
    using assms pack_id_nonempty by (auto simp: pack_ok_def)
  show "one_row (bindM (liftM (opt_or_raise ValueError (parse_uuid (pk_id p)))) (\<lambda>pack_uuid.
        bindM (insert_event (read_event rq p pack_uuid (readable_cards rq artifact_rows (map snd (pk_cards p))))) (\<lambda>_.
        bindM (the_pack r) (\<lambda>p'.
        validated (pk_id p \<noteq> [] \<and> pk_kb_version p \<noteq> [])
          \<lparr>rr_pack_id = pk_id p, rr_kb_version = pk_kb_version p, rr_role = rp_role req,
           rr_summary = summary (pk_run_id p) (readable_cards rq artifact_rows (map snd (pk_cards p))),
           rr_cards = readable_cards rq artifact_rows (map snd (pk_cards p)),
           rr_questions = pk_questions p, rr_remaining = run_remaining_tokens p',
           rr_policy = policy_name\<rparr>))))"
    unfolding u opt_or_raise.simps bindM_simps the_pack_def
    by (intro one_row_insert silent_bindM silent_getM silent_validated ne)
qed

lemma read_pack_one_row [ledger_intros]: "one_row (read_pack dp req rq)"
  unfolding read_pack_def
proof (rule one_row_bindM [OF silent_quiet [OF silent_lookup_pack]], goal_cases)
  case (1 found w w')
  show ?case
  proof (cases found)
    case None then show ?thesis by (simp add: one_row_ledgered_error)
  next
    case (Some rp)
    with 1 lookup_pack_ok(1) have "pack_ok (snd rp)" by (cases rp) auto
    then show ?thesis unfolding Some option.case by (cases rp) (simp add: serve_pack_one_row)
  qed
qed

text \<open>
  What a reader gets: cards of the pack, at most fifty, each of an artifact that the reader's
  teams may see at the pack's build.
\<close>

lemma read_pack_Inr:
  assumes "read_pack dp req rq w = (Inr resp, w')"
  obtains r s where "get_pack (rp_pack_id req) (w_store w) = Some (r, s)"
    "rr_cards resp = readable_cards rq (pack_artifacts (w_db w) (pack_obj s r)) (map snd (pk_cards (pack_obj s r)))"
    "rr_remaining resp = run_remaining_tokens (pack_obj s r)"
proof -
  from assms obtain found w1 where f: "lookup_pack (rp_pack_id req) w = (Inr found, w1)"
    and c: "(case found of
       None \<Rightarrow> ledgered_error ''context.read_pack'' (subject rq)
         (error_defaults\<lparr>ea_query_text := Some (rp_pack_id req)\<rparr>) (''unknown context_pack_id: '' @ rp_pack_id req)
     | Some (r, p) \<Rightarrow> serve_pack dp req rq r p) w1 = (Inr resp, w')"
    unfolding read_pack_def by (rule bindM_InrE)
  show ?thesis
  proof (cases found)
    case None
    with c show ?thesis by (simp add: ledgered_error_Inr)
  next
    case (Some rp)
    obtain r p where rp: "rp = (r, p)" by (cases rp)
    from f Some rp obtain s where g: "get_pack (rp_pack_id req) (w_store w) = Some (r, s)"
      and w1: "w1 = w\<lparr>w_store := s\<rparr>" and p: "p = pack_obj s r"
      by (auto simp: lookup_pack_Inr split: option.splits)
    from c have "serve_pack dp req rq r p w1 = (Inr resp, w')" by (simp add: Some rp)
    then show ?thesis
      unfolding serve_pack_def Let_def
      by (elim bindM_InrE) (rule that [OF g]; simp add: op_iff w1 p)
  qed
qed

lemma in_readable_cards:
  "c \<in> set (readable_cards rq artifact_rows cs) \<Longrightarrow>
     c \<in> set cs \<and> (\<exists>row \<in> set artifact_rows. ar_id row = ec_artifact_id c \<and> acl_admits rq (ar_acl row))"
proof -
  assume "c \<in> set (readable_cards rq artifact_rows cs)"
  then have c: "c \<in> set cs" and m: "ec_artifact_id c \<in> set (map ar_id (filter_artifacts rq artifact_rows))"
    by (auto simp: readable_cards_def Let_def dest!: in_set_takeD)
  then obtain row where "row \<in> set (filter_artifacts rq artifact_rows)" "ar_id row = ec_artifact_id c" by auto
  with c show ?thesis using team_acl.flt_iff [of row rq artifact_rows] by blast
qed

lemma readable_cards_length: "length (readable_cards rq artifact_rows cs) \<le> 50"
  by (simp add: readable_cards_def MAX_READ_PACK_CARDS_def Let_def)

text \<open>A pack is never born over its run budget, whose ceiling is the server's.\<close>

lemma create_pack_Inr:
  assumes "create_pack dp req rq w = (Inr resp, w')"
  obtains found v wa wb where "fetch_active_version (w_db w) = Inr (Some v)"
    "retrieve_cards dp (cp_task req @ '' '' @ cp_plan req) (av_build_seq v) rq (cp_intent req) wa = (Inr found, wb)"
    "(cr_cards resp, cr_used resp) = trim_to_budget dp (fst found)
       (min (cp_budget req) (max_run_budget_tokens (dp_settings dp)))"
    "w_db wa = w_db w" "w_store wa = w_store w"
proof -
  let ?b = "min (cp_budget req) (max_run_budget_tokens (dp_settings dp))"
  let ?q = "cp_task req @ '' '' @ cp_plan req"
  let ?k = "\<lambda>v found. finish_create dp req rq v ?b (fst (trim_to_budget dp (fst found) ?b))
       (snd (trim_to_budget dp (fst found) ?b))"
  from assms obtain active w1 where a: "db_read fetch_active_version w = (Inr active, w1)"
    and c: "(case active of None \<Rightarrow> ledgered_error ''context.create_pack'' (subject rq)
        (error_defaults\<lparr>ea_run_id := cp_run_id req, ea_query_text := Some ?q\<rparr>) MSG_NO_ACTIVE_VERSION
      | Some v \<Rightarrow> bindM (retrieve_cards dp ?q (av_build_seq v) rq (cp_intent req)) (?k v)) w1 = (Inr resp, w')"
    unfolding create_pack_def Let_def by (rule bindM_InrE)
  then obtain v where v: "active = Some v" by (cases active) (simp_all add: ledgered_error_Inr)
  with c obtain found w2 where r: "retrieve_cards dp ?q (av_build_seq v) rq (cp_intent req) w1 = (Inr found, w2)"
    and k: "?k v found w2 = (Inr resp, w')" by (auto elim: bindM_InrE)
  have "cr_cards resp = fst (trim_to_budget dp (fst found) ?b) \<and> cr_used resp = snd (trim_to_budget dp (fst found) ?b)"
    using k unfolding finish_create_def Let_def by (elim bindM_InrE) (simp add: validated_Inr)
  with that [OF _ r] a v show ?thesis by (simp add: op_iff)
qed

lemma create_pack_budget:
  assumes "create_pack dp req rq w = (Inr resp, w')" and "1 \<le> cp_budget req"
    and "0 \<le> max_run_budget_tokens (dp_settings dp)"
  shows "cr_used resp = sum_list (map (card_tokens dp) (cr_cards resp))"
    "cr_used resp \<le> cp_budget req" "cr_used resp \<le> max_run_budget_tokens (dp_settings dp)"
    "length (cr_cards resp) \<le> max_cards_per_retrieval (dp_settings dp)"
proof -
  let ?b = "min (cp_budget req) (max_run_budget_tokens (dp_settings dp))"
  obtain found v wa wb where "fetch_active_version (w_db w) = Inr (Some v)"
    and f: "retrieve_cards dp (cp_task req @ '' '' @ cp_plan req) (av_build_seq v) rq (cp_intent req) wa = (Inr found, wb)"
    and c: "(cr_cards resp, cr_used resp) = trim_to_budget dp (fst found) ?b"
    and "w_db wa = w_db w" "w_store wa = w_store w" by (rule create_pack_Inr [OF assms(1)])
  have l: "length (fst found) \<le> max_cards_per_retrieval (dp_settings dp)"
    using retrieve_cards_Inr(1) f by (metis prod.collapse)
  from trim_spec [OF c [symmetric]] obtain n where
    "n \<le> length (fst found)" "cr_cards resp = take n (fst found)"
    "cr_used resp = sum_list (map (card_tokens dp) (cr_cards resp))" "0 \<le> ?b \<Longrightarrow> cr_used resp \<le> ?b"
    by metis
  with assms(2,3) l show "cr_used resp = sum_list (map (card_tokens dp) (cr_cards resp))"
    "cr_used resp \<le> cp_budget req" "cr_used resp \<le> max_run_budget_tokens (dp_settings dp)"
    "length (cr_cards resp) \<le> max_cards_per_retrieval (dp_settings dp)"
    by auto
qed

end
