(* ===== verification/Charge.thy ===== *)
theory Charge
  imports Pack
begin

text \<open>
  The pattern \<open>request_more\<close>, \<open>open_evidence\<close> and \<open>expand\<close> share: snapshot the pack, charge it,
  write the ledger row, and restore the snapshot when the write raises. The books are what
  every later charge decision reads: the pack objects and the meters.
\<close>

definition charged_write ::
  "nat \<Rightarrow> string \<Rightarrow> (pack_store \<Rightarrow> pack_store) \<Rightarrow> unit broker \<Rightarrow> unit broker" where
  "charged_write r subj commit write =
     bindM (store_op (snapshot r subj)) (\<lambda>sn.
     bindM (store_mod commit) (\<lambda>_.
     tryM write (\<lambda>e. bindM (store_mod (restore r subj sn)) (\<lambda>_. raise e))))"

section \<open>Books\<close>

definition same_books :: "pack_store \<Rightarrow> pack_store \<Rightarrow> bool" where
  "same_books s t \<longleftrightarrow> pack_obj s = pack_obj t \<and> (\<forall>r subj. usage_at s r subj = usage_at t r subj)"

definition keeps_books :: "'a broker \<Rightarrow> bool" where
  "keeps_books m \<longleftrightarrow> (\<forall>w r w'. m w = (r, w') \<longrightarrow> same_books (w_store w') (w_store w))"

text \<open>A failure other than a cancellation leaves the books as they were.\<close>

definition books_safe :: "'a broker \<Rightarrow> bool" where
  "books_safe m \<longleftrightarrow> (\<forall>w e w'. m w = (Inl e, w') \<longrightarrow> e \<noteq> CancelledError
     \<longrightarrow> same_books (w_store w') (w_store w))"

named_theorems books_intros \<open>which operations keep the books\<close>

lemma same_books_refl [simp]: "same_books s s"
  by (simp add: same_books_def)

lemma same_books_trans: "same_books s t \<Longrightarrow> same_books t u \<Longrightarrow> same_books s u"
  by (simp add: same_books_def)

lemma same_books_sym: "same_books s t \<Longrightarrow> same_books t s"
  by (simp add: same_books_def)

lemma view_books: "same_view s t \<Longrightarrow> same_books s t"
  by (simp add: same_view_def same_books_def)

lemma keeps_booksD: "keeps_books m \<Longrightarrow> m w = (r, w') \<Longrightarrow> same_books (w_store w') (w_store w)"
  by (simp add: keeps_books_def)

lemma books_safeD:
  "books_safe m \<Longrightarrow> m w = (Inl e, w') \<Longrightarrow> e \<noteq> CancelledError \<Longrightarrow> same_books (w_store w') (w_store w)"
  by (simp add: books_safe_def)

lemma keeps_books_safe: "keeps_books m \<Longrightarrow> books_safe m"
  by (simp add: keeps_books_def books_safe_def)

lemma reads_books: "reads_only m \<Longrightarrow> keeps_books m"
  unfolding keeps_books_def by (auto dest: reads_only_fields(2))

lemma books_store_op [books_intros]:
  "(\<And>s. same_books (snd (f s)) s) \<Longrightarrow> keeps_books (store_op f)"
  by (auto simp: keeps_books_def store_op_def Let_def split_def)

lemma books_insert_event [books_intros]: "keeps_books (insert_event e)"
  by (auto simp: keeps_books_def insert_event_def db_call_def Let_def split: list.splits fault.splits)

lemma books_bindM [books_intros]:
  assumes m: "keeps_books m" and f: "\<And>x. keeps_books (f x)" shows "keeps_books (bindM m f)"
  unfolding keeps_books_def
proof (intro allI impI)
  fix w r w' assume run: "bindM m f w = (r, w')"
  obtain r1 w1 where m1: "m w = (r1, w1)" by (cases "m w")
  note s1 = keeps_booksD [OF m m1]
  show "same_books (w_store w') (w_store w)"
  proof (cases r1)
    case (Inl e) with run m1 s1 show ?thesis by simp
  next
    case (Inr x)
    with run m1 have "f x w1 = (r, w')" by simp
    from keeps_booksD [OF f this] s1 show ?thesis by (rule same_books_trans)
  qed
qed

lemma books_basic [books_intros]:
  "keeps_books (ret x)" "keeps_books (raise e)" "keeps_books (liftM r')" "keeps_books (getM f)"
  "keeps_books (the_pack r)" "keeps_books (validated ok y)"
  by (simp_all add: keeps_books_def op_defs the_pack_def validated_def)

lemma books_ledgered_error [books_intros]: "keeps_books (ledgered_error tool subj a msg)"
  unfolding ledgered_error_def write_error_event_def by (intro books_intros)

lemma books_lookup_pack [books_intros]: "keeps_books (lookup_pack pid)"
  unfolding lookup_pack_def
  by (rule books_store_op)
    (auto simp: same_books_def usage_at_def get_pack_Some split: option.splits)

lemma books_usage_for [books_intros]: "keeps_books (store_op (usage_for r subj))"
  by (rule books_store_op) (rule view_books [OF usage_for_view])

lemma safe_bindM:
  assumes m: "keeps_books m" and f: "\<And>x. books_safe (f x)" shows "books_safe (bindM m f)"
  unfolding books_safe_def
proof (intro allI impI)
  fix w e w' assume run: "bindM m f w = (Inl e, w')" and nc: "e \<noteq> CancelledError"
  obtain r1 w1 where m1: "m w = (r1, w1)" by (cases "m w")
  note s1 = keeps_booksD [OF m m1]
  show "same_books (w_store w') (w_store w)"
  proof (cases r1)
    case (Inl e) with run m1 s1 show ?thesis by simp
  next
    case (Inr x)
    with run m1 have "f x w1 = (Inl e, w')" by simp
    from books_safeD [OF f this nc] s1 show ?thesis by (rule same_books_trans)
  qed
qed

lemma safe_if: "(b \<Longrightarrow> books_safe m) \<Longrightarrow> (\<not> b \<Longrightarrow> books_safe m') \<Longrightarrow> books_safe (if b then m else m')"
  by simp

text \<open>After the row, only what cannot fail.\<close>

definition never_fails :: "'a broker \<Rightarrow> bool" where
  "never_fails m \<longleftrightarrow> (\<forall>w e w'. m w \<noteq> (Inl e, w'))"

lemma safe_never_fails:
  assumes m: "books_safe m" and f: "\<And>x. never_fails (f x)" shows "books_safe (bindM m f)"
  using assms unfolding books_safe_def never_fails_def bindM_def
  by (auto split: prod.splits sum.splits)

section \<open>The refund\<close>

text \<open>What a ledger write may do to the world: nothing to the store.\<close>

definition store_fixed :: "'a broker \<Rightarrow> bool" where
  "store_fixed m \<longleftrightarrow> (\<forall>w. w_store (snd (m w)) = w_store w)"

lemma store_fixed_insert [simp]: "store_fixed (insert_event e)"
  by (auto simp: store_fixed_def insert_event_def db_call_def Let_def split: list.splits fault.splits)

lemma store_fixed_liftM [simp]: "(\<And>x. store_fixed (f x)) \<Longrightarrow> store_fixed (bindM (liftM r) f)"
  by (cases r) (auto simp: store_fixed_def raise_def)

lemma charged_write_safe:
  assumes c: "\<And>s. charged_change r subj s (commit s)" and fx: "store_fixed write"
  shows "books_safe (charged_write r subj commit write)"
  unfolding books_safe_def
proof (intro allI impI)
  fix w e w'
  assume run: "charged_write r subj commit write w = (Inl e, w')" and nc: "e \<noteq> CancelledError"
  let ?sn = "fst (snapshot r subj (w_store w))" and ?s1 = "snd (snapshot r subj (w_store w))"
  let ?w2 = "w\<lparr>w_store := commit ?s1\<rparr>"
  obtain r3 w3 where wr: "write ?w2 = (r3, w3)" by (cases "write ?w2")
  have st: "w_store w3 = commit ?s1"
    using fx [unfolded store_fixed_def, rule_format, of ?w2] wr by simp
  have "charged_write r subj commit write w =
      tryM write (\<lambda>e. bindM (store_mod (restore r subj ?sn)) (\<lambda>_. raise e)) ?w2"
    by (simp add: charged_write_def store_op_def store_mod_def bindM_def modM_def split_def Let_def)
  with run wr nc have "w' = w3\<lparr>w_store := restore r subj ?sn (w_store w3)\<rparr>"
    by (cases r3) (auto simp: tryM_def store_mod_def raise_def split: if_splits)
  then have w': "w_store w' = restore r subj ?sn (commit ?s1)" using st by simp
  have sv: "same_view ?s1 (w_store w)" by (rule snapshot_view)
  have "charged_change r subj (w_store w) (commit ?s1)"
    using charged_trans [OF charged_view [OF sv] c] .
  from restore_view [OF this] show "same_books (w_store w') (w_store w)"
    unfolding w' by (rule view_books)
qed

lemma charged_write_Inr:
  assumes "charged_write r subj commit write w = (Inr x, w')" and "store_fixed write"
  shows "w_store w' = commit (snd (snapshot r subj (w_store w)))"
    and "\<exists>y w2. write (w\<lparr>w_store := commit (snd (snapshot r subj (w_store w)))\<rparr>) = (Inr y, w2) \<and> w' = w2"
proof -
  let ?s1 = "snd (snapshot r subj (w_store w))" and ?sn = "fst (snapshot r subj (w_store w))"
  let ?w2 = "w\<lparr>w_store := commit ?s1\<rparr>"
  have "charged_write r subj commit write w =
      tryM write (\<lambda>e. bindM (store_mod (restore r subj ?sn)) (\<lambda>_. raise e)) ?w2"
    by (simp add: charged_write_def store_op_def store_mod_def bindM_def modM_def split_def Let_def)
  with assms(1) have "write ?w2 = (Inr x, w')"
    by (auto simp: tryM_def store_mod_def raise_def split: prod.splits sum.splits if_splits)
  moreover have "w_store (snd (write ?w2)) = w_store ?w2"
    using assms(2) by (simp add: store_fixed_def)
  ultimately show "w_store w' = commit ?s1" "\<exists>y w2. write ?w2 = (Inr y, w2) \<and> w' = w2" by auto
qed

text \<open>The snapshot, like every store reached, holds well-formed cards.\<close>

lemma restore_store_ok:
  assumes "store_ok s" and "cards_ok (sn_cards sn)" shows "store_ok (restore r subj sn s)"
proof (rule charged_store_ok [OF _ assms(1)])
  show "charged_change r subj s (restore r subj sn s)"
    by (simp add: charged_change_def)
  show "cards_ok (pk_cards (pack_obj (restore r subj sn s) r))" using assms(2) by simp
qed

lemma charged_write_one_row:
  assumes c: "\<And>s. store_ok s \<Longrightarrow> store_ok (commit s)" and w: "one_row write"
  shows "one_row (charged_write r subj commit write)"
  unfolding charged_write_def
proof (rule one_row_bindM, rule silent_quiet, rule silent_store_op)
  show "store_ok s \<Longrightarrow> store_ok (snd (snapshot r subj s))" for s
    using store_ok_same [OF snapshot_view] .
next
  fix sn wa wb assume ok: "broker_ok wa" and s: "store_op (snapshot r subj) wa = (Inr sn, wb)"
  from s have "sn_cards sn = pk_cards (pack_obj (w_store wa) r)"
    by (auto simp: store_op_Inr snapshot_fields)
  with ok have sn: "cards_ok (sn_cards sn)" by (simp add: broker_ok_def store_ok_def)
  show "one_row (bindM (store_mod commit) (\<lambda>_.
      tryM write (\<lambda>e. bindM (store_mod (restore r subj sn)) (\<lambda>_. raise e))))"
    by (intro one_row_bindM silent_quiet silent_store_mod c one_row_refund w restore_store_ok sn)
qed

end
