(* ===== verification/KbSearch.thy ===== *)
theory KbSearch
  imports Charge
begin

text \<open>
  \<open>context_broker/kb_search.py\<close>: one query under a dual budget per session and caller, a count
  of calls and a sum of tokens. The call is counted before the retrieval and the tokens after
  it, both under the window's lock; a failure gives both back. \<open>dump_hit\<close> is pydantic's
  serialization of a hit, whose length is the charge.
\<close>

section \<open>Messages\<close>

record kb_hit =
  kh_title :: string
  kh_type :: string
  kh_source_uri :: "string option"
  kh_snippet :: string
  kh_tier :: string

record kb_response =
  kr_results :: "kb_hit list"
  kr_calls :: int
  kr_tokens :: int
  kr_notice :: "string option"

text \<open>The message's dash is outside the characters of the model and is a hyphen here.\<close>

definition BUDGET_SPENT_NOTICE :: string where
  "BUDGET_SPENT_NOTICE =
     ''KB budget spent - work with what you have, or read the specific files you still need.''"

definition SNIPPET_CHARS :: nat where
  "SNIPPET_CHARS = 200"

text \<open>Python's \<open>a or b\<close> on optional strings: an empty string counts as missing.\<close>

definition hit_of :: "artifact_row \<Rightarrow> exn + kb_hit" where
  "hit_of a =
     (let body = str_or (ar_body a) (str_or (ar_search a) []); title = str_or (ar_title a) (ar_type a)
      in if title = [] \<or> ar_type a = [] then Inl PydanticValidationError
         else Inr \<lparr>kh_title = title, kh_type = ar_type a, kh_source_uri = Some (ar_source_uri a),
                kh_snippet = take SNIPPET_CHARS (py_join '' '' (py_split body)), kh_tier = ''interpreted''\<rparr>)"

definition kb_response_of ::
  "kb_hit list \<Rightarrow> agent_allowance \<Rightarrow> agent_usage \<Rightarrow> bool \<Rightarrow> kb_response" where
  "kb_response_of hits allowance u spent =
     \<lparr>kr_results = hits, kr_calls = max (max_requests allowance - requests u) 0,
      kr_tokens = max (max_tokens allowance - tokens u) 0,
      kr_notice = (if spent then Some BUDGET_SPENT_NOTICE else None)\<rparr>"

section \<open>The handler\<close>

definition kb_event ::
  "string \<Rightarrow> requester \<Rightarrow> string \<Rightarrow> string \<Rightarrow> agent_allowance \<Rightarrow> agent_usage \<Rightarrow> string \<Rightarrow> uuid list \<Rightarrow> int
   \<Rightarrow> retrieval_event" where
  "kb_event query rq session_key kb_version allowance u status returned toks =
     (event NO_RUN_SENTINEL (subject rq) ''kb_search'' status kb_version)
       \<lparr>ev_query_text := Some query, ev_normalized_query := Some (normalize_query query),
        ev_returned := returned, ev_tokens_returned := toks,
        ev_details := Some [(''session'', JStr session_key), (''calls_used'', JInt (requests u)),
          (''tokens_used'', JInt (tokens u)), (''max_requests'', JInt (max_requests allowance)),
          (''max_tokens'', JInt (max_tokens allowance))]\<rparr>"

definition window_usage :: "kb_store \<Rightarrow> window_key \<Rightarrow> agent_usage" where
  "window_usage s key = get_default (windows s) key new_usage"

definition kb_window :: "window_key \<Rightarrow> agent_usage broker" where
  "kb_window key w =
     (case window_for (w_kb w) (fst key) (snd key) of
        Inl e \<Rightarrow> (Inl e, w)
      | Inr (u, s) \<Rightarrow> (Inr u, w\<lparr>w_kb := s\<rparr>))"

definition kb_set :: "window_key \<Rightarrow> agent_usage \<Rightarrow> unit broker" where
  "kb_set key u = modM (\<lambda>w. w\<lparr>w_kb := set_window key u (w_kb w)\<rparr>)"

definition hits_tokens :: "(kb_hit \<Rightarrow> string) \<Rightarrow> kb_hit list \<Rightarrow> int" where
  "hits_tokens dump_hit hits = sum_list (map (\<lambda>h. int (estimate_tokens (dump_hit h))) hits)"

text \<open>The charged part of the call: everything a failure refunds.\<close>

definition kb_charged ::
  "deps \<Rightarrow> (kb_hit \<Rightarrow> string) \<Rightarrow> string \<Rightarrow> requester \<Rightarrow> string \<Rightarrow> active_version \<Rightarrow> agent_usage \<Rightarrow> kb_response broker" where
  "kb_charged dp dump_hit query rq session_key active u =
     (let allowance = allowance_for (dp_budget dp) (subject rq); key = (session_key, subject rq)
      in bindM (retrieve_cards dp query (av_build_seq active) rq None) (\<lambda>(_, artifacts).
         bindM (liftM (mapE hit_of artifacts)) (\<lambda>hits.
         let toks = hits_tokens dump_hit hits; u' = u\<lparr>tokens := tokens u + toks\<rparr>
         in bindM (kb_set key u') (\<lambda>_.
            bindM (insert_event (kb_event query rq session_key (av_kb_version active) allowance u'
              ''approved'' (map ar_id artifacts) toks)) (\<lambda>_.
            ret (kb_response_of hits allowance u' (\<not> kb_budget_open allowance u')))))))"

definition kb_locked ::
  "deps \<Rightarrow> (kb_hit \<Rightarrow> string) \<Rightarrow> string \<Rightarrow> requester \<Rightarrow> string \<Rightarrow> active_version \<Rightarrow> agent_usage \<Rightarrow> kb_response broker" where
  "kb_locked dp dump_hit query rq session_key active u =
     (let allowance = allowance_for (dp_budget dp) (subject rq); key = (session_key, subject rq)
      in if \<not> kb_budget_open allowance u
         then bindM (insert_event (kb_event query rq session_key (av_kb_version active) allowance u ''denied'' [] 0))
           (\<lambda>_. ret (kb_response_of [] allowance u True))
         else bindM (kb_set key (u\<lparr>requests := requests u + 1\<rparr>)) (\<lambda>_.
           tryM (kb_charged dp dump_hit query rq session_key active (u\<lparr>requests := requests u + 1\<rparr>))
             (\<lambda>e. bindM (kb_set key u) (\<lambda>_. raise e))))"

definition kb_search ::
  "deps \<Rightarrow> (kb_hit \<Rightarrow> string) \<Rightarrow> string \<Rightarrow> requester \<Rightarrow> string \<Rightarrow> kb_response broker" where
  "kb_search dp dump_hit query rq session_key =
     bindM (db_read fetch_active_version) (\<lambda>active. case active of
       None \<Rightarrow> ledgered_error ''kb_search'' (subject rq)
         (error_defaults\<lparr>ea_query_text := Some query\<rparr>) MSG_NO_ACTIVE_VERSION
     | Some v \<Rightarrow> bindM (kb_window (session_key, subject rq)) (\<lambda>u.
         kb_locked dp dump_hit query rq session_key v u))"

section \<open>The window store\<close>

lemma set_window_twice [simp]: "set_window k u (set_window k v s) = set_window k u s"
proof -
  have "AList.update k u (AList.update k v d) = AList.update k u d" for d :: "(window_key \<times> agent_usage) list"
    by (induction d) auto
  then show ?thesis by (simp add: set_window_def)
qed

lemma set_window_same: "map_of (windows s) k = Some u \<Longrightarrow> set_window k u s = s"
proof -
  have "map_of d k = Some u \<Longrightarrow> AList.update k u d = d" for d :: "(window_key \<times> agent_usage) list"
    by (induction d) auto
  then show "map_of (windows s) k = Some u \<Longrightarrow> set_window k u s = s" by (simp add: set_window_def)
qed

lemma window_usage_set [simp]:
  "window_usage (set_window k u s) k = u"
  "k' \<noteq> k \<Longrightarrow> window_usage (set_window k u s) k' = window_usage s k'"
  "max_windows (set_window k u s) = max_windows s"
  by (simp_all add: window_usage_def set_window_def get_default_def update_conv)

text \<open>Fetching a window: the stored usage, or a fresh one; only evicted windows change.\<close>

lemma kb_window_Inr:
  assumes "0 < max_windows (w_kb w)"
  shows "kb_window key w = (Inr (window_usage (w_kb w) key), w\<lparr>w_kb := window_touch key (w_kb w)\<rparr>)"
    and "map_of (windows (window_touch key (w_kb w))) key = Some (window_usage (w_kb w) key)"
    and "max_windows (window_touch key (w_kb w)) = max_windows (w_kb w)"
proof -
  obtain a b where k: "key = (a, b)" by (cases key)
  from window_for_usage [OF assms, of a b] obtain s' where
    s': "window_for (w_kb w) a b = Inr (window_usage (w_kb w) key, s')"
    "map_of (windows s') key = Some (window_usage (w_kb w) key)"
    by (auto simp: window_usage_def k)
  then show "kb_window key w = (Inr (window_usage (w_kb w) key), w\<lparr>w_kb := window_touch key (w_kb w)\<rparr>)"
    "map_of (windows (window_touch key (w_kb w))) key = Some (window_usage (w_kb w) key)"
    by (simp_all add: kb_window_def window_touch_def k)
  show "max_windows (window_touch key (w_kb w)) = max_windows (w_kb w)" by (rule kb_lru.touch_cap)
qed

section \<open>One row\<close>

lemma broker_ok_kb: "broker_ok w \<Longrightarrow> max_windows s = max_windows (w_kb w) \<Longrightarrow> broker_ok (w\<lparr>w_kb := s\<rparr>)"
  by (simp add: broker_ok_def)

lemma silent_kb_set [ledger_intros]: "silent (kb_set k u)"
  by (simp add: silent_def kb_set_def modM_def broker_ok_kb)

lemma silent_kb_window [ledger_intros]: "silent (kb_window k)"
proof -
  have "0 < max_windows (w_kb w)" if "broker_ok w" for w using that by (simp add: broker_ok_def)
  then show ?thesis by (simp add: silent_def kb_window_Inr broker_ok_kb)
qed

lemma hit_of_exn: "mapE hit_of as = Inl e \<Longrightarrow> e = PydanticValidationError"
  by (induction as) (auto simp: hit_of_def Let_def split: sum.splits if_splits)

lemma kb_charged_one_row: "one_row (kb_charged dp dh q rq sk v u)"
  unfolding kb_charged_def Let_def split_def
  by (intro one_row_bindM [OF reads_quiet [OF retrieve_cards_reads]] one_row_liftM_bindM
      one_row_bindM [OF silent_quiet [OF silent_kb_set]] one_row_insert silent_ret) (auto dest: hit_of_exn)

lemma one_row_refund_kb:
  assumes m: "one_row m" shows "one_row (tryM m (\<lambda>e. bindM (kb_set k u) (\<lambda>_. raise e)))"
  unfolding one_row_def
proof (intro allI impI)
  fix w r w'
  assume ok: "broker_ok w" and run: "tryM m (\<lambda>e. bindM (kb_set k u) (\<lambda>_. raise e)) w = (r, w')"
  obtain r1 w1 where m1: "m w = (r1, w1)" by (cases "m w")
  note q = one_rowD [OF m ok m1]
  from q have "broker_ok (w1\<lparr>w_kb := set_window k u (w_kb w1)\<rparr>)" by (simp add: broker_ok_kb)
  with q run m1 show "broker_ok w' \<and> (if row_after r then \<exists>e. rows w' = rows w @ [e] else rows w' = rows w)"
    by (cases r1) (auto simp: tryM_def kb_set_def raise_def row_after_def split: if_splits)
qed

lemma kb_search_one_row [ledger_intros]: "one_row (kb_search dp dh q rq sk)"
  unfolding kb_search_def
proof (rule one_row_bindM [OF reads_quiet [OF reads_active]])
  fix active :: "active_version option"
  have "one_row (kb_locked dp dh q rq sk v u)" for v u
    unfolding kb_locked_def Let_def
    by (intro one_row_if one_row_insert silent_ret one_row_bindM [OF silent_quiet [OF silent_kb_set]]
        one_row_refund_kb kb_charged_one_row)
  then show "one_row (case active of None \<Rightarrow> ledgered_error ''kb_search'' (subject rq)
         (error_defaults\<lparr>ea_query_text := Some q\<rparr>) MSG_NO_ACTIVE_VERSION
     | Some v \<Rightarrow> bindM (kb_window (sk, subject rq)) (\<lambda>u. kb_locked dp dh q rq sk v u))"
    by (cases active)
      (auto intro: one_row_ledgered_error one_row_bindM [OF silent_quiet [OF silent_kb_window]])
qed

section \<open>The budget\<close>

definition kb_only :: "window_key \<Rightarrow> kb_store \<Rightarrow> world \<Rightarrow> bool" where
  "kb_only key s w \<longleftrightarrow> (\<exists>u. w_kb w = set_window key u s)"

lemma keeps_reads: "reads_only m \<Longrightarrow> keeps (kb_only key s) m"
  unfolding keeps_def kb_only_def
  by (metis prod.collapse reads_only_fields(3))

lemma keeps_insert: "keeps (kb_only key s) (insert_event e)"
  by (auto simp: keeps_def kb_only_def insert_event_def db_call_def Let_def split: list.splits fault.splits)

lemma keeps_kb_set: "keeps (kb_only key s) (kb_set key u)"
  by (auto simp: keeps_def kb_only_def kb_set_def modM_def)

lemma kb_charged_keeps: "keeps (kb_only (sk, subject rq) s) (kb_charged dp dh q rq sk v u)"
  unfolding kb_charged_def Let_def split_def
  by (intro keeps_bindM keeps_reads [OF retrieve_cards_reads] keeps_basic keeps_kb_set keeps_insert)

lemma kb_locked_refund:
  assumes run: "kb_locked dp dh q rq sk v u w = (Inl e, w')" and nc: "e \<noteq> CancelledError"
    and held: "map_of (windows (w_kb w)) (sk, subject rq) = Some u"
  shows "w_kb w' = w_kb w"
proof (cases "kb_budget_open (allowance_for (dp_budget dp) (subject rq)) u")
  case False
  with run show ?thesis
    by (auto simp: kb_locked_def Let_def insert_event_def db_call_def bindM_def ret_def
        split: list.splits fault.splits)
next
  case True
  let ?k = "(sk, subject rq)" and ?u = "u\<lparr>requests := requests u + 1\<rparr>"
  let ?w1 = "w\<lparr>w_kb := set_window ?k ?u (w_kb w)\<rparr>"
  obtain r2 w2 where b: "kb_charged dp dh q rq sk v ?u ?w1 = (r2, w2)" by fastforce
  have "kb_only ?k (w_kb w) ?w1" by (auto simp: kb_only_def)
  from keepsD2 [OF kb_charged_keeps this b] obtain u2 where u2: "w_kb w2 = set_window ?k u2 (w_kb w)"
    unfolding kb_only_def by blast
  have "tryM (kb_charged dp dh q rq sk v ?u) (\<lambda>e. bindM (kb_set ?k u) (\<lambda>_. raise e)) ?w1 = (Inl e, w')"
    using run True by (simp add: kb_locked_def Let_def kb_set_def)
  with b nc have "w_kb w' = set_window ?k u (w_kb w2)"
    by (cases r2) (auto simp: tryM_def kb_set_def raise_def split: if_splits)
  with u2 held show ?thesis by (simp add: set_window_same)
qed

text \<open>A failed call costs nothing: the window store is the one a lookup leaves.\<close>

lemma kb_search_refund:
  assumes run: "kb_search dp dh q rq sk w = (Inl e, w')" and nc: "e \<noteq> CancelledError"
    and cap: "0 < max_windows (w_kb w)"
  shows "w_kb w' = w_kb w \<or> w_kb w' = window_touch (sk, subject rq) (w_kb w)"
proof -
  let ?k = "(sk, subject rq)"
  obtain r1 w1 where a: "db_read fetch_active_version w = (r1, w1)" by fastforce
  have kb1: "w_kb w1 = w_kb w" using reads_only_fields(3) [OF reads_active a] .
  show ?thesis
  proof (cases r1)
    case (Inl e1)
    with run a kb1 show ?thesis by (simp add: kb_search_def)
  next
    case (Inr active)
    show ?thesis
    proof (cases active)
      case None
      with run a Inr have "ledgered_error ''kb_search'' (subject rq)
         (error_defaults\<lparr>ea_query_text := Some q\<rparr>) MSG_NO_ACTIVE_VERSION w1 = (Inl e :: exn + kb_response, w')"
        by (simp add: kb_search_def)
      then have "w_kb w' = w_kb w1"
        unfolding ledgered_error_def write_error_event_def insert_event_def db_call_def
        by (auto simp: bindM_def raise_def Let_def split: list.splits fault.splits)
      with kb1 show ?thesis by simp
    next
      case (Some v)
      have cap1: "0 < max_windows (w_kb w1)" using cap kb1 by simp
      let ?w2 = "w1\<lparr>w_kb := window_touch ?k (w_kb w1)\<rparr>"
      have "kb_locked dp dh q rq sk v (window_usage (w_kb w1) ?k) ?w2 = (Inl e, w')"
        using run a Inr Some by (simp add: kb_search_def kb_window_Inr(1) [OF cap1])
      from kb_locked_refund [OF this nc] kb_window_Inr(2) [OF cap1, of ?k] kb1 show ?thesis by simp
    qed
  qed
qed

text \<open>What a call that returns gives and costs.\<close>

definition kb_post ::
  "deps \<Rightarrow> (kb_hit \<Rightarrow> string) \<Rightarrow> string \<Rightarrow> requester \<Rightarrow> registry \<Rightarrow> agent_usage \<Rightarrow> kb_response \<Rightarrow> agent_usage \<Rightarrow> bool" where
  "kb_post dp dump_hit query rq r u resp u' \<longleftrightarrow>
     (let a = allowance_for (dp_budget dp) (subject rq) in
      if \<not> kb_budget_open a u
      then u' = u \<and> resp = kb_response_of [] a u True
      else requests u' = requests u + 1 \<and> tokens u' = tokens u + hits_tokens dump_hit (kr_results resp)
        \<and> resp = kb_response_of (kr_results resp) a u' (\<not> kb_budget_open a u')
        \<and> length (kr_results resp) \<le> max_cards_per_retrieval (dp_settings dp)
        \<and> (\<forall>h \<in> set (kr_results resp). \<exists>row ids seq. row \<in> set (fetch_artifacts r ids seq)
             \<and> acl_admits rq (ar_acl row) \<and> hit_of row = Inr h))"

lemma kb_charged_Inr:
  assumes run: "kb_charged dp dh q rq sk v u w = (Inr resp, w')"
  defines "a \<equiv> allowance_for (dp_budget dp) (subject rq)"
  defines "u' \<equiv> u\<lparr>tokens := tokens u + hits_tokens dh (kr_results resp)\<rparr>"
  shows "resp = kb_response_of (kr_results resp) a u' (\<not> kb_budget_open a u')"
    and "w_kb w' = set_window (sk, subject rq) u' (w_kb w)"
    and "length (kr_results resp) \<le> max_cards_per_retrieval (dp_settings dp)"
    and "h \<in> set (kr_results resp) \<Longrightarrow> \<exists>row ids seq. row \<in> set (fetch_artifacts (w_db w) ids seq)
             \<and> acl_admits rq (ar_acl row) \<and> hit_of row = Inr h"
proof -
  from run obtain ca w1 where r: "retrieve_cards dp q (av_build_seq v) rq None w = (Inr ca, w1)"
    and k: "(\<lambda>(_, artifacts). bindM (liftM (mapE hit_of artifacts)) (\<lambda>hits.
         let toks = hits_tokens dh hits; u' = u\<lparr>tokens := tokens u + toks\<rparr>
         in bindM (kb_set (sk, subject rq) u') (\<lambda>_.
            bindM (insert_event (kb_event q rq sk (av_kb_version v) a u'
              ''approved'' (map ar_id artifacts) toks)) (\<lambda>_.
            ret (kb_response_of hits a u' (\<not> kb_budget_open a u')))))) ca w1 = (Inr resp, w')"
    unfolding kb_charged_def Let_def a_def [symmetric] by (rule bindM_InrE)
  obtain cards artifacts where ca: "ca = (cards, artifacts)" by (cases ca)
  from k obtain hits where m: "mapE hit_of artifacts = Inr hits"
    and rest: "resp = kb_response_of hits a (u\<lparr>tokens := tokens u + hits_tokens dh hits\<rparr>)
        (\<not> kb_budget_open a (u\<lparr>tokens := tokens u + hits_tokens dh hits\<rparr>))"
      "w_kb w' = set_window (sk, subject rq) (u\<lparr>tokens := tokens u + hits_tokens dh hits\<rparr>) (w_kb w1)"
    unfolding ca by (auto simp: op_iff Let_def kb_set_def)
  have hits: "kr_results resp = hits" by (simp add: rest(1) kb_response_of_def)
  note rr = retrieve_cards_Inr [OF r [unfolded ca]]
  show "resp = kb_response_of (kr_results resp) a u' (\<not> kb_budget_open a u')"
    unfolding u'_def hits by (rule rest(1))
  show "w_kb w' = set_window (sk, subject rq) u' (w_kb w)"
    unfolding u'_def hits using rest(2) reads_only_fields(3) [OF retrieve_cards_reads r] by simp
  have len: "length hits = length artifacts" using m by (auto simp: mapE_Inr_iff list_all2_lengthD)
  have "length artifacts = length cards" using rr(5) by (metis length_map)
  with len rr(1) hits show "length (kr_results resp) \<le> max_cards_per_retrieval (dp_settings dp)" by simp
  show "\<exists>row ids seq. row \<in> set (fetch_artifacts (w_db w) ids seq) \<and> acl_admits rq (ar_acl row)
      \<and> hit_of row = Inr h" if "h \<in> set (kr_results resp)"
  proof -
    from that hits have "h \<in> set hits" by simp
    then obtain row where row: "row \<in> set artifacts" "hit_of row = Inr h"
      using mapE_in [OF m, of h] by blast
    from rr(3) [OF row(1)] row(2) show ?thesis by blast
  qed
qed

lemma kb_search_Inr:
  assumes run: "kb_search dp dh q rq sk w = (Inr resp, w')" and cap: "0 < max_windows (w_kb w)"
  shows "kb_post dp dh q rq (w_db w) (window_usage (w_kb w) (sk, subject rq)) resp
      (window_usage (w_kb w') (sk, subject rq))"
    and "w_kb w' = set_window (sk, subject rq) (window_usage (w_kb w') (sk, subject rq))
      (window_touch (sk, subject rq) (w_kb w))"
proof -
  let ?k = "(sk, subject rq)" and ?a = "allowance_for (dp_budget dp) (subject rq)"
  from run obtain active w1 where a: "db_read fetch_active_version w = (Inr active, w1)"
    and k: "(case active of None \<Rightarrow> ledgered_error ''kb_search'' (subject rq)
         (error_defaults\<lparr>ea_query_text := Some q\<rparr>) MSG_NO_ACTIVE_VERSION
     | Some v \<Rightarrow> bindM (kb_window ?k) (\<lambda>u. kb_locked dp dh q rq sk v u)) w1 = (Inr resp, w')"
    unfolding kb_search_def by (rule bindM_InrE)
  have kb1: "w_kb w1 = w_kb w" and db1: "w_db w1 = w_db w"
    using reads_only_fields [OF reads_active a] by simp_all
  from k obtain v where v: "active = Some v" by (cases active) (auto simp: ledgered_error_Inr)
  have cap1: "0 < max_windows (w_kb w1)" using cap kb1 by simp
  define u where "u = window_usage (w_kb w) ?k"
  let ?w2 = "w1\<lparr>w_kb := window_touch ?k (w_kb w)\<rparr>"
  have l: "kb_locked dp dh q rq sk v u ?w2 = (Inr resp, w')"
    using k v by (simp add: kb_window_Inr(1) [OF cap1] kb1 u_def)
  have held: "map_of (windows (window_touch ?k (w_kb w))) ?k = Some u"
    using kb_window_Inr(2) [OF cap1, of ?k] by (simp add: kb1 u_def)
  have "kb_post dp dh q rq (w_db w) u resp (window_usage (w_kb w') ?k) \<and>
      w_kb w' = set_window ?k (window_usage (w_kb w') ?k) (window_touch ?k (w_kb w))"
  proof (cases "kb_budget_open ?a u")
    case False
    with l have "w_kb w' = window_touch ?k (w_kb w)" "resp = kb_response_of [] ?a u True"
      by (auto simp: kb_locked_def Let_def op_iff)
    with held False show ?thesis
      by (simp add: kb_post_def Let_def window_usage_def get_default_def set_window_same)
  next
    case True
    let ?u = "u\<lparr>requests := requests u + 1\<rparr>"
    have "kb_charged dp dh q rq sk v ?u (?w2\<lparr>w_kb := set_window ?k ?u (window_touch ?k (w_kb w))\<rparr>) = (Inr resp, w')"
      using l True by (auto simp: kb_locked_def Let_def kb_set_def tryM_def raise_def
          split: prod.splits sum.splits if_splits)
    note c = kb_charged_Inr [OF this]
    show ?thesis using True c db1 by (simp add: kb_post_def Let_def)
  qed
  then show "kb_post dp dh q rq (w_db w) (window_usage (w_kb w) ?k) resp (window_usage (w_kb w') ?k)"
    "w_kb w' = set_window ?k (window_usage (w_kb w') ?k) (window_touch ?k (w_kb w))"
    by (simp_all add: u_def)
qed

end
