(* ===== verification/Ledger.thy ===== *)
theory Ledger
  imports KbSearch
begin

text \<open>
  The handlers that only read and leave a row: \<open>context_broker/ledger.py\<close> (the caller's own
  events of a run), \<open>context_broker/checkpoint.py\<close> (the runner's gate decisions) and
  \<open>context_broker/review_draft.py\<close> (a stored draft review, newest first). The event ids and
  clock readings are left out; a draft's \<open>created_at\<close> is kept, since it orders the drafts.
\<close>

section \<open>ledger.list_retrievals\<close>

record event_record =
  rr_run_id :: string
  rr_kb_version :: string
  rr_agent_name :: string
  rr_tool :: string
  rr_status :: string
  rr_cache_hit :: bool
  rr_tokens_returned :: int
  rr_evidence_ids :: "string list"

definition event_record_of :: "retrieval_event \<Rightarrow> exn + event_record" where
  "event_record_of e =
     (if ev_tokens_returned e < 0 then Inl PydanticValidationError
      else Inr \<lparr>rr_run_id = ev_run_id e, rr_kb_version = ev_kb_version e, rr_agent_name = ev_agent_name e,
        rr_tool = ev_tool_name e, rr_status = ev_status e, rr_cache_hit = ev_cache_hit e,
        rr_tokens_returned = ev_tokens_returned e,
        rr_evidence_ids = dict_fromkeys (map uuid_str (ev_reused e @ ev_new e))\<rparr>)"

definition list_retrievals :: "string \<Rightarrow> requester \<Rightarrow> (string \<times> event_record list) broker" where
  "list_retrievals run_id rq =
     bindM (db_get (\<lambda>d. list_events d run_id (subject rq))) (\<lambda>evs.
     bindM (db_read fetch_active_kb_version) (\<lambda>kb_version.
     bindM (insert_event (event run_id (subject rq) ''ledger.list_retrievals'' ''approved'' (str_or kb_version ''-'')))
       (\<lambda>_. bindM (liftM (mapE event_record_of evs)) (\<lambda>records. ret (run_id, records)))))"

section \<open>governance.checkpoint\<close>

definition record_checkpoint ::
  "string \<Rightarrow> string \<Rightarrow> string \<Rightarrow> string \<Rightarrow> string \<Rightarrow> string list \<Rightarrow> unit broker" where
  "record_checkpoint run_id from_agent to_agent plan_summary decision edits =
     bindM (db_read fetch_active_kb_version) (\<lambda>kb_version.
     insert_event ((event run_id from_agent ''governance.checkpoint'' decision (str_or kb_version UNRESOLVED))
       \<lparr>ev_details := Some [(''from_agent'', JStr from_agent), (''to_agent'', JStr to_agent),
          (''plan_summary'', JStr plan_summary), (''decision'', JStr decision),
          (''edits'', JArr (map JStr edits))]\<rparr>))"

section \<open>get_review_draft\<close>

text \<open>The review panel's table, which this service only reads, is the argument \<open>drafts\<close>.\<close>

record review_draft =
  rd_key :: string
  rd_repo :: string
  rd_pr_number :: int
  rd_head_sha :: string
  rd_created_at :: int
  rd_draft :: "(string \<times> json) list"

definition fetch_review_draft ::
  "review_draft list \<Rightarrow> string \<Rightarrow> int \<Rightarrow> string option \<Rightarrow> review_draft option" where
  "fetch_review_draft drafts repo pr_number head_sha =
     (case sorted_desc rd_created_at (filter (\<lambda>d. rd_repo d = repo \<and> rd_pr_number d = pr_number
         \<and> (head_sha = None \<or> head_sha = Some (rd_head_sha d))) drafts) of
        [] \<Rightarrow> None
      | d # _ \<Rightarrow> Some d)"

definition get_review_draft ::
  "review_draft list \<Rightarrow> string \<Rightarrow> int \<Rightarrow> string option \<Rightarrow> requester \<Rightarrow> review_draft option broker" where
  "get_review_draft drafts repo pr_number head_sha rq =
     bindM (db_get (\<lambda>_. fetch_review_draft drafts repo pr_number head_sha)) (\<lambda>row.
     bindM (insert_event ((event NO_RUN_SENTINEL (subject rq) ''get_review_draft'' ''approved'' NO_RUN_SENTINEL)
       \<lparr>ev_query_text := Some (repo @ ''#'' @ int_str pr_number),
        ev_details := Some [(''repo'', JStr repo), (''pr_number'', JInt pr_number),
          (''head_sha'', case head_sha of None \<Rightarrow> JNull | Some s \<Rightarrow> JStr s), (''found'', JBool (row \<noteq> None))]\<rparr>))
       (\<lambda>_. ret row))"

section \<open>Facts\<close>

lemma reads_active_kb [reads_intros]: "reads_only (db_read fetch_active_kb_version)"
  by (rule reads_db_read)
    (auto simp: fetch_active_kb_version_def fetch_active_version_def split: list.splits sum.splits option.splits)

lemma record_checkpoint_one_row [ledger_intros]: "one_row (record_checkpoint run fa ta ps d es)"
  unfolding record_checkpoint_def
  by (intro one_row_bindM [OF reads_quiet [OF reads_active_kb]] one_row_insert_event)

lemma get_review_draft_one_row [ledger_intros]: "one_row (get_review_draft drafts repo pr sha rq)"
  unfolding get_review_draft_def
  by (intro one_row_bindM [OF reads_quiet [OF reads_db_get]] one_row_insert silent_ret)

text \<open>The newest stored draft of the pull request, at the given commit when one is given.\<close>

lemma fetch_review_draft_Some:
  assumes "fetch_review_draft drafts repo pr sha = Some d"
  shows "d \<in> set drafts" "rd_repo d = repo" "rd_pr_number d = pr" "sha = None \<or> sha = Some (rd_head_sha d)"
    and "d' \<in> set drafts \<Longrightarrow> rd_repo d' = repo \<Longrightarrow> rd_pr_number d' = pr \<Longrightarrow>
      sha = None \<or> sha = Some (rd_head_sha d') \<Longrightarrow> rd_created_at d' \<le> rd_created_at d"
proof -
  let ?xs = "filter (\<lambda>d. rd_repo d = repo \<and> rd_pr_number d = pr \<and> (sha = None \<or> sha = Some (rd_head_sha d))) drafts"
  from assms obtain ds where s: "sorted_desc rd_created_at ?xs = d # ds"
    by (auto simp: fetch_review_draft_def split: list.splits)
  then have "set ?xs = insert d (set ds)" using set_sorted_desc [of rd_created_at ?xs] by simp
  then have d: "d \<in> set ?xs" by blast
  then show "d \<in> set drafts" "rd_repo d = repo" "rd_pr_number d = pr" "sha = None \<or> sha = Some (rd_head_sha d)"
    by simp_all
  show "rd_created_at d' \<le> rd_created_at d"
    if "d' \<in> set drafts" "rd_repo d' = repo" "rd_pr_number d' = pr" "sha = None \<or> sha = Some (rd_head_sha d')"
  proof -
    from that have "d' \<in> set ?xs" by simp
    then have "d' = d \<or> d' \<in> set ds" using \<open>set ?xs = insert d (set ds)\<close> by blast
    then show ?thesis using sorted_desc_sorted [of rd_created_at ?xs] s by auto
  qed
qed

lemma fetch_review_draft_None:
  "fetch_review_draft drafts repo pr sha = None \<longleftrightarrow>
     (\<forall>d \<in> set drafts. rd_repo d = repo \<longrightarrow> rd_pr_number d = pr \<longrightarrow> sha \<noteq> None \<and> sha \<noteq> Some (rd_head_sha d))"
proof -
  let ?xs = "filter (\<lambda>d. rd_repo d = repo \<and> rd_pr_number d = pr \<and> (sha = None \<or> sha = Some (rd_head_sha d))) drafts"
  have "fetch_review_draft drafts repo pr sha = None \<longleftrightarrow> sorted_desc rd_created_at ?xs = []"
    unfolding fetch_review_draft_def by (cases "sorted_desc rd_created_at ?xs") (simp_all only: list.case, simp_all)
  also have "\<dots> \<longleftrightarrow> ?xs = []" by (rule sorted_desc_Nil)
  finally show ?thesis by (auto simp: filter_empty_conv)
qed

text \<open>A listing: the caller's own rows of the run, in order, the listing's own row not among them.\<close>

lemma event_record_fields:
  "event_record_of e = Inr x \<Longrightarrow> rr_run_id x = ev_run_id e \<and> rr_agent_name x = ev_agent_name e
     \<and> rr_tool x = ev_tool_name e \<and> rr_status x = ev_status e \<and> rr_tokens_returned x = ev_tokens_returned e
     \<and> set (rr_evidence_ids x) = uuid_str ` (set (ev_reused e) \<union> set (ev_new e)) \<and> distinct (rr_evidence_ids x)"
  by (auto simp: event_record_of_def image_Un split: if_splits)

lemma list_retrievals_Inr:
  assumes "list_retrievals run_id rq w = (Inr (rid, records), w')"
  shows "rid = run_id" and "list_all2 (\<lambda>e x. event_record_of e = Inr x) (list_events (w_db w) run_id (subject rq)) records"
    and "\<exists>e. rows w' = rows w @ [e] \<and> ev_run_id e = run_id \<and> ev_agent_name e = subject rq"
proof -
  from assms obtain evs w1 where d: "db_get (\<lambda>d. list_events d run_id (subject rq)) w = (Inr evs, w1)"
    and k: "bindM (db_read fetch_active_kb_version) (\<lambda>kb_version.
     bindM (insert_event (event run_id (subject rq) ''ledger.list_retrievals'' ''approved'' (str_or kb_version ''-'')))
       (\<lambda>_. bindM (liftM (mapE event_record_of evs)) (\<lambda>records. ret (run_id, records)))) w1 = (Inr (rid, records), w')"
    unfolding list_retrievals_def by (rule bindM_InrE)
  from k obtain v w2 where v: "db_read fetch_active_kb_version w1 = (Inr v, w2)"
    and k2: "bindM (insert_event (event run_id (subject rq) ''ledger.list_retrievals'' ''approved'' (str_or v ''-'')))
       (\<lambda>_. bindM (liftM (mapE event_record_of evs)) (\<lambda>records. ret (run_id, records))) w2 = (Inr (rid, records), w')"
    by (rule bindM_InrE)
  have evs: "evs = list_events (w_db w) run_id (subject rq)" and db1: "w_db w1 = w_db w"
    using d by (simp_all add: db_get_Inr)
  have db2: "w_db w2 = w_db w1" using reads_only_fields(1) [OF reads_active_kb v] .
  from k2 obtain x w3 where i: "insert_event (event run_id (subject rq) ''ledger.list_retrievals'' ''approved'' (str_or v ''-'')) w2 = (Inr x, w3)"
    and m: "mapE event_record_of evs = Inr records" and r: "rid = run_id" "w' = w3"
    by (auto simp: bindM_Inr_iff liftM_iff ret_iff)
  show "rid = run_id" by (rule r(1))
  show "list_all2 (\<lambda>e x. event_record_of e = Inr x) (list_events (w_db w) run_id (subject rq)) records"
    using m evs by (simp add: mapE_Inr_iff)
  show "\<exists>e. rows w' = rows w @ [e] \<and> ev_run_id e = run_id \<and> ev_agent_name e = subject rq"
    using i r db1 db2 by (auto simp: insert_event_Inr add_event_def event_def)
qed

text \<open>On a ledger of well-formed rows the listing keeps the discipline.\<close>

definition tokens_ok :: "world \<Rightarrow> bool" where
  "tokens_ok w \<longleftrightarrow> (\<forall>e \<in> set (rows w). 0 \<le> ev_tokens_returned e)"

lemma event_records_total:
  "(\<forall>e \<in> set es. 0 \<le> ev_tokens_returned e) \<Longrightarrow> \<exists>rs. mapE event_record_of es = Inr rs"
  by (induction es) (auto simp: event_record_of_def)

lemma list_retrievals_row:
  assumes ok: "broker_ok w" "tokens_ok w" and run: "list_retrievals run_id rq w = (r, w')"
  shows "if row_after r then \<exists>e. rows w' = rows w @ [e] else rows w' = rows w"
proof -
  define evs where "evs = list_events (w_db w) run_id (subject rq)"
  from ok(2) have "\<forall>e \<in> set evs. 0 \<le> ev_tokens_returned e" by (simp add: tokens_ok_def evs_def list_events_def)
  then obtain rs where rs: "mapE event_record_of evs = Inr rs" using event_records_total by blast
  let ?tail = "\<lambda>evs. bindM (db_read fetch_active_kb_version) (\<lambda>kb_version.
     bindM (insert_event (event run_id (subject rq) ''ledger.list_retrievals'' ''approved'' (str_or kb_version ''-'')))
       (\<lambda>_. bindM (liftM (mapE event_record_of evs)) (\<lambda>records. ret (run_id, records))))"
  have tl: "one_row (?tail evs)"
    by (intro one_row_bindM [OF reads_quiet [OF reads_active_kb]] one_row_insert) (simp add: rs silent_ret)
  obtain r1 w1 where d: "db_get (\<lambda>d. list_events d run_id (subject rq)) w = (r1, w1)" by fastforce
  note q = quietD [OF reads_quiet [OF reads_db_get] ok(1) d]
  show ?thesis
  proof (cases r1)
    case (Inl e) with run d q show ?thesis by (auto simp: list_retrievals_def row_after_def)
  next
    case (Inr evs')
    then have "evs' = evs" using d by (simp add: db_get_Inr evs_def)
    with run d Inr have "?tail evs w1 = (r, w')" by (simp add: list_retrievals_def)
    from one_rowD [OF tl _ this] q show ?thesis by (auto split: if_splits)
  qed
qed

end
