(* ===== verification/Graph.thy ===== *)
theory Graph
  imports Traverse Charge
begin

text \<open>
  \<open>context_broker/graph.py\<close>: \<open>graph.get_neighbors\<close>, a search bounded in depth and in the
  number of nodes, filtered hop by hop. A found node is kept with its row, which the code
  keeps in a second dictionary under the node's id. The audit line and its suppressed ids
  are left out.
\<close>

record neighbors_request =
  nb_artifact :: uuid
  nb_edge_types :: "string list"
  nb_depth :: nat
  nb_floor :: string
  nb_inferred :: bool

record found_node =
  fn_id :: uuid
  fn_type :: string
  fn_direction :: string
  fn_confidence :: real
  fn_source :: string
  fn_distance :: nat
  fn_trust :: string

record graph_neighbor =
  gn_id :: uuid
  gn_title :: string
  gn_artifact_type :: string
  gn_edge_type :: string
  gn_direction :: string
  gn_confidence :: real
  gn_edge_source :: string
  gn_distance :: nat
  gn_trust :: string
  gn_claim_supporting :: bool

record neighbors_response =
  nr_artifact :: uuid
  nr_kb_version :: string
  nr_neighbors :: "graph_neighbor list"
  nr_policy :: string

section \<open>The search\<close>

definition found_of :: "nat \<Rightarrow> hop_edge \<Rightarrow> found_node" where
  "found_of distance h = \<lparr>fn_id = he_neighbor h, fn_type = er_type (he_edge h),
     fn_direction = he_direction h,
     fn_confidence = min (max (real_or_0 (er_confidence (he_edge h))) 0) 1,
     fn_source = str_or (er_source (he_edge h)) ''unknown'', fn_distance = distance,
     fn_trust = er_trust (he_edge h)\<rparr>"

text \<open>The loop over the candidates of a hop: skip the suppressed, stop at the cap.\<close>

fun admit_candidates ::
  "nat \<Rightarrow> (uuid, artifact_row) dict \<Rightarrow> (found_node \<times> artifact_row) list \<Rightarrow> uuid list \<Rightarrow> found_node list
   \<Rightarrow> (found_node \<times> artifact_row) list \<times> uuid list" where
  "admit_candidates cap allowed found nxt [] = (found, nxt)"
| "admit_candidates cap allowed found nxt (c # cs) =
     (case map_of allowed (fn_id c) of
        None \<Rightarrow> admit_candidates cap allowed found nxt cs
      | Some row \<Rightarrow>
          (if cap \<le> length found then (found, nxt)
           else admit_candidates cap allowed (found @ [(c, row)]) (nxt @ [fn_id c]) cs))"

text \<open>One distance: the hop's edges, its candidates, and those the caller may see.\<close>

definition hop_round ::
  "neighbors_request \<Rightarrow> requester \<Rightarrow> int \<Rightarrow> nat \<Rightarrow> nat \<Rightarrow> uuid list \<Rightarrow> uuid set \<Rightarrow> (found_node \<times> artifact_row) list
   \<Rightarrow> (uuid list \<times> uuid set \<times> (found_node \<times> artifact_row) list) broker" where
  "hop_round req rq build_seq cap distance frontier visited found =
     bindM (db_get (\<lambda>d. fetch_edges_touching d frontier build_seq
       (if nb_edge_types req = [] then None else Some (nb_edge_types req)))) (\<lambda>edge_rows.
     let hops = scan_edges (nb_floor req) (nb_inferred req) (set frontier) visited edge_rows;
         candidates = map (found_of distance) (fst hops)
     in if candidates = [] then ret ([], snd hops, found)
        else bindM (db_get (\<lambda>d. fetch_artifacts d (map fn_id candidates) build_seq)) (\<lambda>artifact_rows.
          let admitted = admit_candidates cap (rows_by_id (filter_artifacts rq artifact_rows)) found [] candidates
          in ret (snd admitted, snd hops, fst admitted)))"

fun hop_loop ::
  "neighbors_request \<Rightarrow> requester \<Rightarrow> int \<Rightarrow> nat \<Rightarrow> nat list \<Rightarrow> uuid list \<Rightarrow> uuid set
   \<Rightarrow> (found_node \<times> artifact_row) list \<Rightarrow> (found_node \<times> artifact_row) list broker" where
  "hop_loop req rq build_seq cap [] frontier visited found = ret found"
| "hop_loop req rq build_seq cap (distance # ds) frontier visited found =
     (if frontier = [] \<or> cap \<le> length found then ret found
      else bindM (hop_round req rq build_seq cap distance frontier visited found) (\<lambda>(nxt, visited', found').
           hop_loop req rq build_seq cap ds nxt visited' found'))"

definition neighbor_of :: "found_node \<times> artifact_row \<Rightarrow> graph_neighbor" where
  "neighbor_of fr = (let f = fst fr; row = snd fr in
     \<lparr>gn_id = fn_id f, gn_title = str_or (ar_title row) (uuid_str (fn_id f)),
      gn_artifact_type = ar_type row, gn_edge_type = fn_type f, gn_direction = fn_direction f,
      gn_confidence = fn_confidence f, gn_edge_source = fn_source f, gn_distance = fn_distance f,
      gn_trust = fn_trust f, gn_claim_supporting = is_claim_supporting (fn_trust f)\<rparr>)"

definition neighbors_event ::
  "neighbors_request \<Rightarrow> requester \<Rightarrow> string \<Rightarrow> graph_neighbor list \<Rightarrow> retrieval_event" where
  "neighbors_event req rq kb_version neighbors =
     (event NO_RUN_SENTINEL (subject rq) ''graph.get_neighbors'' ''approved'' kb_version)
       \<lparr>ev_query_text := Some (uuid_str (nb_artifact req)), ev_returned := map gn_id neighbors,
        ev_details := Some [(''artifact_id'', JStr (uuid_str (nb_artifact req))),
          (''depth'', JInt (int (nb_depth req))), (''trust_floor'', JStr (nb_floor req)),
          (''neighbors_by_type'', JObj (map (\<lambda>(t, n). (t, JInt (int n))) (counter [] (map gn_edge_type neighbors))))]\<rparr>"

definition search_neighbors ::
  "deps \<Rightarrow> neighbors_request \<Rightarrow> requester \<Rightarrow> int \<Rightarrow> (found_node \<times> artifact_row) list broker" where
  "search_neighbors dp req rq build_seq =
     bindM (db_get (\<lambda>d. fetch_artifacts d [nb_artifact req] build_seq)) (\<lambda>root_rows.
     hop_loop req rq build_seq (max_graph_neighbors (dp_settings dp)) [1..<Suc (nb_depth req)]
       (if filter_artifacts rq root_rows \<noteq> [] then [nb_artifact req] else []) {nb_artifact req} [])"

definition get_neighbors :: "deps \<Rightarrow> neighbors_request \<Rightarrow> requester \<Rightarrow> neighbors_response broker" where
  "get_neighbors dp req rq =
     bindM (db_read fetch_active_version) (\<lambda>active. case active of
       None \<Rightarrow> ledgered_error ''graph.get_neighbors'' (subject rq)
         (error_defaults\<lparr>ea_query_text := Some (uuid_str (nb_artifact req))\<rparr>) MSG_NO_ACTIVE_VERSION
     | Some v \<Rightarrow>
         bindM (search_neighbors dp req rq (av_build_seq v)) (\<lambda>found.
         let neighbors = map neighbor_of found
         in bindM (insert_event (neighbors_event req rq (av_kb_version v) neighbors)) (\<lambda>_.
            validated (av_kb_version v \<noteq> [])
              \<lparr>nr_artifact = nb_artifact req, nr_kb_version = av_kb_version v, nr_neighbors = neighbors,
               nr_policy = policy_name\<rparr>)))"

section \<open>The ledger discipline\<close>

lemma hop_round_reads [reads_intros]: "reads_only (hop_round req rq seq cap d F V found)"
  unfolding hop_round_def Let_def by (intro reads_intros)

lemma hop_loop_reads [reads_intros]: "reads_only (hop_loop req rq seq cap ds F V found)"
proof (induction ds arbitrary: F V found)
  case (Cons d ds)
  then show ?case
    by (auto simp: split_def intro!: reads_intros)
qed (simp add: reads_ret)

lemma search_neighbors_reads [reads_intros]: "reads_only (search_neighbors dp req rq seq)"
  unfolding search_neighbors_def by (intro reads_intros)

lemma get_neighbors_one_row [ledger_intros]: "one_row (get_neighbors dp req rq)"
  unfolding get_neighbors_def
proof (rule one_row_bindM [OF reads_quiet [OF reads_active]], goal_cases)
  case (1 active w w')
  show ?case
  proof (cases active)
    case None then show ?thesis by (simp add: one_row_ledgered_error)
  next
    case (Some v)
    with 1 have "av_kb_version v \<noteq> []"
      using fetch_active_nonempty by (auto simp: op_iff broker_ok_def)
    then show ?thesis unfolding Some option.case Let_def
      by (intro one_row_bindM [OF reads_quiet [OF search_neighbors_reads]] one_row_insert silent_validated)
  qed
qed

lemma get_neighbors_books: "keeps_books (get_neighbors dp req rq)"
  unfolding get_neighbors_def Let_def
proof (rule books_bindM [OF reads_books [OF reads_active]])
  fix active :: "active_version option"
  show "keeps_books (case active of
       None \<Rightarrow> ledgered_error ''graph.get_neighbors'' (subject rq)
         (error_defaults\<lparr>ea_query_text := Some (uuid_str (nb_artifact req))\<rparr>) MSG_NO_ACTIVE_VERSION
     | Some v \<Rightarrow> bindM (search_neighbors dp req rq (av_build_seq v)) (\<lambda>found.
         bindM (insert_event (neighbors_event req rq (av_kb_version v) (map neighbor_of found))) (\<lambda>_.
            validated (av_kb_version v \<noteq> [])
              \<lparr>nr_artifact = nb_artifact req, nr_kb_version = av_kb_version v,
               nr_neighbors = map neighbor_of found, nr_policy = policy_name\<rparr>)))"
    by (cases active) (auto intro: books_intros reads_books search_neighbors_reads)
qed

section \<open>Paths\<close>

text \<open>\<open>path_in n u v\<close>: a walk of \<open>n\<close> steps from \<open>u\<close> to \<open>v\<close> whose nodes after \<open>u\<close> are visible.\<close>

inductive path_in :: "(uuid \<Rightarrow> uuid \<Rightarrow> bool) \<Rightarrow> (uuid \<Rightarrow> bool) \<Rightarrow> nat \<Rightarrow> uuid \<Rightarrow> uuid \<Rightarrow> bool"
  for step vis where
  path_nil: "path_in step vis 0 u u"
| path_step: "path_in step vis n u v \<Longrightarrow> step v x \<Longrightarrow> vis x \<Longrightarrow> path_in step vis (Suc n) u x"

inductive_cases path_zeroE: "path_in step vis 0 u v"
inductive_cases path_SucE: "path_in step vis (Suc n) u v"

definition req_step :: "registry \<Rightarrow> int \<Rightarrow> neighbors_request \<Rightarrow> uuid \<Rightarrow> uuid \<Rightarrow> bool" where
  "req_step r seq req = graph_step r seq (if nb_edge_types req = [] then None else Some (nb_edge_types req))
     (nb_floor req) (nb_inferred req)"

lemma path_split: "path_in step vis (Suc n) u x \<longleftrightarrow> (\<exists>v. path_in step vis n u v \<and> step v x \<and> vis x)"
  by (auto elim: path_SucE intro: path_in.intros)

lemma path_zero [simp]: "path_in step vis 0 u v \<longleftrightarrow> v = u"
  by (auto elim: path_zeroE intro: path_in.intros)

lemma path_stable:
  assumes "\<And>v. path_in step vis d u v \<Longrightarrow> \<exists>m < d. path_in step vis m u v"
  shows "path_in step vis n u v \<Longrightarrow> d \<le> n \<Longrightarrow> \<exists>m < d. path_in step vis m u v"
proof (induction n arbitrary: v)
  case 0 with assms show ?case by auto
next
  case (Suc n)
  show ?case
  proof (cases "d = Suc n")
    case True with Suc assms show ?thesis by blast
  next
    case False
    from Suc.prems(1) obtain y where y: "path_in step vis n u y" "step y v" "vis v" by (auto simp: path_split)
    with Suc.IH [of y] Suc.prems False obtain m where "m < d" "path_in step vis m u y" by auto
    with y have "path_in step vis (Suc m) u v" by (auto simp: path_split)
    with assms \<open>m < d\<close> show ?thesis by (cases "Suc m = d") (auto intro: exI [of _ "Suc m"])
  qed
qed

section \<open>One hop\<close>

lemma admit_candidates_eq:
  "length found \<le> cap \<Longrightarrow> admit_candidates cap allowed found nxt cs =
    (let good = take (cap - length found) (filter (\<lambda>c. map_of allowed (fn_id c) \<noteq> None) cs)
     in (found @ map (\<lambda>c. (c, the (map_of allowed (fn_id c)))) good, nxt @ map fn_id good))"
proof (induction cap allowed found nxt cs rule: admit_candidates.induct)
  case (2 cap allowed found nxt c cs)
  show ?case
  proof (cases "map_of allowed (fn_id c)")
    case None
    with 2 show ?thesis by simp
  next
    case (Some row)
    show ?thesis
    proof (cases "cap \<le> length found")
      case True
      with Some show ?thesis by simp
    next
      case False
      then have "cap - length found = Suc (cap - Suc (length found))" by simp
      with Some False 2 show ?thesis by (simp add: Let_def)
    qed
  qed
qed simp

text \<open>
  \<open>sound_found\<close> holds of every node found; \<open>frontier_inv\<close> says that the search is complete up
  to the current distance.
\<close>

definition sound_found ::
  "registry \<Rightarrow> int \<Rightarrow> requester \<Rightarrow> neighbors_request \<Rightarrow> nat \<Rightarrow> found_node \<times> artifact_row \<Rightarrow> bool" where
  "sound_found r seq rq req d fr \<longleftrightarrow>
     (let f = fst fr; row = snd fr; origin = nb_artifact req; step = req_step r seq req; vis = visible r seq rq in
      fn_id f \<noteq> origin \<and> ar_id row = fn_id f \<and> row \<in> set (fetch_artifacts r [fn_id f] seq) \<and> acl_admits rq (ar_acl row)
      \<and> 1 \<le> fn_distance f \<and> fn_distance f < d \<and> path_in step vis (fn_distance f) origin (fn_id f)
      \<and> (\<forall>m < fn_distance f. \<not> path_in step vis m origin (fn_id f))
      \<and> admits (fn_trust f) (nb_floor req) (nb_inferred req))"

definition frontier_inv ::
  "(uuid \<Rightarrow> uuid \<Rightarrow> bool) \<Rightarrow> (uuid \<Rightarrow> bool) \<Rightarrow> uuid \<Rightarrow> nat \<Rightarrow> uuid set \<Rightarrow> uuid set \<Rightarrow> uuid set \<Rightarrow> bool" where
  "frontier_inv step vis origin n F V ids \<longleftrightarrow>
     (\<forall>v m. m \<le> n \<longrightarrow> path_in step vis m origin v \<longrightarrow> v \<in> V)
     \<and> (\<forall>v. path_in step vis n origin v \<longrightarrow> v \<in> F \<or> (\<exists>m < n. path_in step vis m origin v))
     \<and> (\<forall>v \<in> V. vis v \<longrightarrow> (\<exists>m \<le> n. path_in step vis m origin v))
     \<and> (\<forall>u \<in> F. path_in step vis n origin u) \<and> F \<subseteq> V \<and> origin \<in> V
     \<and> ids = {v. v \<noteq> origin \<and> (\<exists>m \<le> n. path_in step vis m origin v)}"

lemma frontier_ids:
  "frontier_inv step vis origin n F V ids \<Longrightarrow> ids = {v. v \<noteq> origin \<and> (\<exists>m \<le> n. path_in step vis m origin v)}"
  unfolding frontier_inv_def by (elim conjE)

lemma frontier_step:
  assumes inv: "frontier_inv step vis origin n F V ids"
    and N: "N = {v. v \<notin> V \<and> (\<exists>u \<in> F. step u v)}" and A: "A = {v \<in> N. vis v}"
  shows "frontier_inv step vis origin (Suc n) A (V \<union> N) (ids \<union> A)"
    and "v \<in> A \<Longrightarrow> path_in step vis (Suc n) origin v \<and> (\<forall>m \<le> n. \<not> path_in step vis m origin v) \<and> v \<noteq> origin"
proof -
  from inv have a: "\<And>v m. m \<le> n \<Longrightarrow> path_in step vis m origin v \<Longrightarrow> v \<in> V"
    and b: "\<And>v. path_in step vis n origin v \<Longrightarrow> v \<in> F \<or> (\<exists>m < n. path_in step vis m origin v)"
    and c: "\<And>v. v \<in> V \<Longrightarrow> vis v \<Longrightarrow> \<exists>m \<le> n. path_in step vis m origin v"
    and d: "\<And>u. u \<in> F \<Longrightarrow> path_in step vis n origin u" and FV: "F \<subseteq> V" and rV: "origin \<in> V"
    and ids: "ids = {v. v \<noteq> origin \<and> (\<exists>m \<le> n. path_in step vis m origin v)}"
    unfolding frontier_inv_def by blast+
  have pA: "path_in step vis (Suc n) origin v" if "v \<in> A" for v
    using that d unfolding A N path_split by auto
  have reach: "v \<in> V \<union> N" if "path_in step vis (Suc n) origin v" for v
  proof -
    from that obtain y where y: "path_in step vis n origin y" "step y v" "vis v" by (auto simp: path_split)
    from b [OF y(1)] show ?thesis
    proof
      assume "y \<in> F" with y N show ?thesis by auto
    next
      assume "\<exists>m < n. path_in step vis m origin y"
      then obtain m where m: "m < n" "path_in step vis m origin y" by blast
      with y have "path_in step vis (Suc m) origin v" by (auto simp: path_split)
      with a [of "Suc m" v] m show ?thesis by simp
    qed
  qed
  have vis_path: "vis v" if "path_in step vis (Suc m) origin v" for m v using that by (auto simp: path_split)
  show "v \<in> A \<Longrightarrow> path_in step vis (Suc n) origin v \<and> (\<forall>m \<le> n. \<not> path_in step vis m origin v) \<and> v \<noteq> origin"
    using pA a rV unfolding A N by blast
  show "frontier_inv step vis origin (Suc n) A (V \<union> N) (ids \<union> A)"
    unfolding frontier_inv_def
  proof (intro conjI allI impI ballI)
    fix v m assume "m \<le> Suc n" "path_in step vis m origin v"
    then show "v \<in> V \<union> N" using a [of m v] reach by (cases "m = Suc n") auto
  next
    fix v assume p: "path_in step vis (Suc n) origin v"
    show "v \<in> A \<or> (\<exists>m < Suc n. path_in step vis m origin v)"
      using reach [OF p] vis_path [OF p] c A by (auto simp: less_Suc_eq_le)
  next
    fix v assume "v \<in> V \<union> N" "vis v"
    then show "\<exists>m \<le> Suc n. path_in step vis m origin v"
      using c pA A by (blast intro: le_SucI)
  next
    show "ids \<union> A = {v. v \<noteq> origin \<and> (\<exists>m \<le> Suc n. path_in step vis m origin v)}"
    proof (intro equalityI subsetI)
      fix v assume "v \<in> ids \<union> A"
      then show "v \<in> {v. v \<noteq> origin \<and> (\<exists>m \<le> Suc n. path_in step vis m origin v)}"
        using ids pA rV A N by (auto intro: le_SucI)
    next
      fix v assume v: "v \<in> {v. v \<noteq> origin \<and> (\<exists>m \<le> Suc n. path_in step vis m origin v)}"
      then obtain m where m: "m \<le> Suc n" "path_in step vis m origin v" "v \<noteq> origin" by blast
      show "v \<in> ids \<union> A"
      proof (cases "m = Suc n")
        case False with m ids show ?thesis by auto
      next
        case True
        with m(2) have p: "path_in step vis (Suc n) origin v" by simp
        from reach [OF p] vis_path [OF p] c m(3) A ids show ?thesis by auto
      qed
    qed
  qed (use pA A N FV rV in auto)
qed

lemma frontier_done:
  assumes inv: "frontier_inv step vis origin n {} V ids"
  shows "ids = {v. v \<noteq> origin \<and> (\<exists>m. path_in step vis m origin v)}"
proof -
  have st: "\<exists>m < n. path_in step vis m origin v" if "path_in step vis n origin v" for v
    using inv that unfolding frontier_inv_def by blast
  have "\<exists>m \<le> n. path_in step vis m origin v" if "path_in step vis k origin v" for k v
  proof (cases "k \<le> n")
    case False
    then show ?thesis using path_stable [OF st that] by (metis less_imp_le not_le)
  qed (use that in blast)
  with inv show ?thesis unfolding frontier_inv_def by blast
qed

text \<open>What a round that returns has computed.\<close>

lemma hop_round_Inr:
  assumes run: "hop_round req rq seq cap d F V found w = (Inr res, w')" and cap: "length found \<le> cap"
  defines "es \<equiv> fetch_edges_touching (w_db w) F seq (if nb_edge_types req = [] then None else Some (nb_edge_types req))"
  defines "hops \<equiv> scan_edges (nb_floor req) (nb_inferred req) (set F) V es"
  defines "cands \<equiv> map (found_of d) (fst hops)"
  defines "by_id \<equiv> rows_by_id (filter_artifacts rq (fetch_artifacts (w_db w) (map fn_id cands) seq))"
  defines "good \<equiv> take (cap - length found) (filter (\<lambda>c. map_of by_id (fn_id c) \<noteq> None) cands)"
  shows "res = (map fn_id good, snd hops, found @ map (\<lambda>c. (c, the (map_of by_id (fn_id c)))) good)"
    and "w_db w' = w_db w"
proof -
  show "w_db w' = w_db w" using reads_only_fields(1) [OF hop_round_reads run] .
  obtain edge_rows w1 where d1: "db_get (\<lambda>d. fetch_edges_touching d F seq
       (if nb_edge_types req = [] then None else Some (nb_edge_types req))) w = (Inr edge_rows, w1)"
    and k: "(let hops = scan_edges (nb_floor req) (nb_inferred req) (set F) V edge_rows; candidates = map (found_of d) (fst hops)
       in if candidates = [] then ret ([], snd hops, found)
          else bindM (db_get (\<lambda>d. fetch_artifacts d (map fn_id candidates) seq)) (\<lambda>artifact_rows.
            let admitted = admit_candidates cap (rows_by_id (filter_artifacts rq artifact_rows)) found [] candidates
            in ret (snd admitted, snd hops, fst admitted))) w1 = (Inr res, w')"
    using run unfolding hop_round_def by (rule bindM_InrE)
  have es: "edge_rows = es" and db1: "w_db w1 = w_db w" using d1 by (simp_all add: db_get_Inr es_def)
  have k': "(if cands = [] then ret ([], snd hops, found)
          else bindM (db_get (\<lambda>d. fetch_artifacts d (map fn_id cands) seq)) (\<lambda>artifact_rows.
            let admitted = admit_candidates cap (rows_by_id (filter_artifacts rq artifact_rows)) found [] cands
            in ret (snd admitted, snd hops, fst admitted))) w1 = (Inr res, w')"
    using k unfolding es Let_def hops_def cands_def .
  show "res = (map fn_id good, snd hops, found @ map (\<lambda>c. (c, the (map_of by_id (fn_id c)))) good)"
  proof (cases "cands = []")
    case True
    then have "good = []" by (simp add: good_def)
    with k' True show ?thesis by (simp add: ret_iff)
  next
    case False
    with k' obtain arts w2 where d2: "db_get (\<lambda>d. fetch_artifacts d (map fn_id cands) seq) w1 = (Inr arts, w2)"
      and r: "res = (let admitted = admit_candidates cap (rows_by_id (filter_artifacts rq arts)) found [] cands
            in (snd admitted, snd hops, fst admitted))"
      by (auto simp: bindM_Inr_iff ret_iff Let_def)
    have "arts = fetch_artifacts (w_db w) (map fn_id cands) seq" using d2 db1 by (simp add: db_get_Inr)
    then show ?thesis unfolding r by (simp add: admit_candidates_eq [OF cap] by_id_def good_def Let_def)
  qed
qed

section \<open>The search as a whole\<close>

definition search_ok ::
  "registry \<Rightarrow> int \<Rightarrow> requester \<Rightarrow> neighbors_request \<Rightarrow> nat \<Rightarrow> nat \<Rightarrow> (found_node \<times> artifact_row) list \<Rightarrow> bool" where
  "search_ok r seq rq req cap depth out \<longleftrightarrow>
     (\<forall>fr \<in> set out. sound_found r seq rq req (Suc depth) fr) \<and> distinct (map (fn_id \<circ> fst) out)
     \<and> length out \<le> cap
     \<and> (length out < cap \<longrightarrow> fn_id ` fst ` set out =
          {v. v \<noteq> nb_artifact req \<and> (\<exists>m \<le> depth. path_in (req_step r seq req) (visible r seq rq) m (nb_artifact req) v)})"

lemma sound_found_mono: "sound_found r seq rq req d fr \<Longrightarrow> d \<le> d' \<Longrightarrow> sound_found r seq rq req d' fr"
  by (auto simp: sound_found_def Let_def)

lemma found_of_simps [simp]:
  "fn_id (found_of d h) = he_neighbor h" "fn_distance (found_of d h) = d" "fn_trust (found_of d h) = er_trust (he_edge h)"
  by (simp_all add: found_of_def)

text \<open>\<open>hop_inv\<close>: what holds between two rounds of the loop.\<close>

definition hop_inv ::
  "registry \<Rightarrow> int \<Rightarrow> requester \<Rightarrow> neighbors_request \<Rightarrow> nat \<Rightarrow> uuid list \<Rightarrow> uuid set
   \<Rightarrow> (found_node \<times> artifact_row) list \<Rightarrow> bool" where
  "hop_inv r seq rq req n F V found \<longleftrightarrow>
     frontier_inv (req_step r seq req) (visible r seq rq) (nb_artifact req) n (set F) V (fn_id ` fst ` set found)
     \<and> (\<forall>fr \<in> set found. sound_found r seq rq req (Suc n) fr) \<and> distinct (map (fn_id \<circ> fst) found)"

lemma hop_sound:
  assumes c: "h \<in> set (fst (scan_edges (nb_floor req) (nb_inferred req) (set F) V es))"
    and row: "map_of (rows_by_id (filter_artifacts rq (fetch_artifacts r ids seq))) (he_neighbor h) = Some row"
    and p: "path_in (req_step r seq req) (visible r seq rq) d (nb_artifact req) (he_neighbor h)"
      "\<And>m. m < d \<Longrightarrow> \<not> path_in (req_step r seq req) (visible r seq rq) m (nb_artifact req) (he_neighbor h)"
      "he_neighbor h \<noteq> nb_artifact req" "1 \<le> d"
  shows "sound_found r seq rq req (Suc d) (found_of d h, row)"
proof -
  have rr: "row \<in> set (filter_artifacts rq (fetch_artifacts r ids seq))" "ar_id row = he_neighbor h"
    using rows_by_id_Some [OF row] by auto
  then have a: "row \<in> set (fetch_artifacts r ids seq)" "acl_admits rq (ar_acl row)"
    using team_acl.flt_iff by auto
  then have "row \<in> set (fetch_artifacts r [he_neighbor h] seq)"
    using fetch_artifacts_single [of row r ids seq] rr(2) by simp
  moreover have "admits (er_trust (he_edge h)) (nb_floor req) (nb_inferred req)"
    using scan_edges_hop_ok [OF c] by (simp add: hop_ok_def)
  ultimately show ?thesis
    using p rr(2) a(2) by (simp add: sound_found_def Let_def)
qed

lemma map_disjoint: "(\<And>c. c \<in> set xs \<Longrightarrow> f c \<notin> A) \<Longrightarrow> A \<inter> set (map f xs) = {}"
  by auto

lemma hop_round_inv:
  assumes run: "hop_round req rq seq cap (Suc n) F V found w = (Inr (F', V', found'), w')"
    and inv: "hop_inv (w_db w) seq rq req n F V found" and cap: "length found \<le> cap"
  shows "\<forall>fr \<in> set found'. sound_found (w_db w) seq rq req (Suc (Suc n)) fr" (is ?sound)
    and "distinct (map (fn_id \<circ> fst) found')" (is ?dist)
    and "length found' \<le> cap" (is ?len)
    and "length found' < cap \<Longrightarrow> hop_inv (w_db w) seq rq req (Suc n) F' V' found'"
proof -
  define r where "r = w_db w"
  define step vis origin where "step = req_step r seq req" and "vis = visible r seq rq" and "origin = nb_artifact req"
  define es where "es = fetch_edges_touching r F seq (if nb_edge_types req = [] then None else Some (nb_edge_types req))"
  define hops where "hops = scan_edges (nb_floor req) (nb_inferred req) (set F) V es"
  define cands where "cands = map (found_of (Suc n)) (fst hops)"
  define by_id where "by_id = rows_by_id (filter_artifacts rq (fetch_artifacts r (map fn_id cands) seq))"
  define good where "good = take (cap - length found) (filter (\<lambda>c. map_of by_id (fn_id c) \<noteq> None) cands)"
  have F': "F' = map fn_id good" and V': "V' = snd hops"
    and found': "found' = found @ map (\<lambda>c. (c, the (map_of by_id (fn_id c)))) good"
    using hop_round_Inr(1) [OF run cap]
    unfolding good_def by_id_def cands_def hops_def es_def r_def by (simp_all only: prod.inject)
  have fi: "frontier_inv step vis origin n (set F) V (fn_id ` fst ` set found)"
    and old: "\<forall>fr \<in> set found. sound_found r seq rq req (Suc n) fr" and od: "distinct (map (fn_id \<circ> fst) found)"
    using inv by (simp_all add: hop_inv_def r_def step_def vis_def origin_def)
  define N where "N = {v. v \<notin> V \<and> (\<exists>u \<in> set F. step u v)}"
  define A where "A = {v \<in> N. vis v}"
  have FV: "set F \<subseteq> V" using fi by (simp add: frontier_inv_def)
  have Nc: "fn_id ` set cands = N"
    using scan_edges_neighbors [OF FV, of "nb_floor req" "nb_inferred req" es]
    unfolding cands_def hops_def N_def step_def req_step_def es_def edges_hop by (simp add: image_image)
  have V2: "V' = V \<union> N"
    using scan_edges_visited [of "nb_floor req" "nb_inferred req" "set F" V es] Nc
    by (simp add: V' hops_def cands_def image_image)
  have dc: "distinct (map fn_id cands)"
    using scan_edges_distinct [of "nb_floor req" "nb_inferred req" "set F" V es]
    by (simp add: cands_def hops_def o_def)
  have seen: "map_of by_id (fn_id c) \<noteq> None \<longleftrightarrow> vis (fn_id c)" if "c \<in> set cands" for c
    unfolding by_id_def vis_def using that by (intro allowed_visible) simp
  have good: "c \<in> set cands" "fn_id c \<in> A" "map_of by_id (fn_id c) \<noteq> None" if "c \<in> set good" for c
  proof -
    show cc: "c \<in> set cands" and m: "map_of by_id (fn_id c) \<noteq> None"
      using that by (auto simp: good_def dest!: in_set_takeD)
    show "fn_id c \<in> A" using cc m seen [OF cc] Nc by (auto simp: A_def)
  qed
  note fs = frontier_step [OF fi N_def A_def]
  have new: "sound_found r seq rq req (Suc (Suc n)) (c, the (map_of by_id (fn_id c)))" if c: "c \<in> set good" for c
  proof -
    from good(1) [OF c] obtain h where h: "h \<in> set (fst hops)" "c = found_of (Suc n) h" by (auto simp: cands_def)
    from good(3) [OF c] obtain row where row: "map_of by_id (fn_id c) = Some row" by blast
    show ?thesis
      using hop_sound [of h req F V es rq r "map fn_id cands" seq row "Suc n"] h row fs(2) [OF good(2) [OF c]]
      by (simp add: hops_def by_id_def step_def vis_def origin_def less_Suc_eq_le)
  qed
  have ids': "fn_id ` fst ` set found' = fn_id ` fst ` set found \<union> fn_id ` set good"
    by (simp add: found' image_Un image_image)
  show snd': ?sound
    using old new sound_found_mono [of r seq rq req "Suc n" _ "Suc (Suc n)"] by (auto simp: found' r_def)
  have fresh: "fn_id c \<notin> fn_id ` fst ` set found" if "c \<in> set good" for c
    using fs(2) [OF good(2) [OF that]] by (simp add: frontier_ids [OF fi])
  have dgood: "distinct (map fn_id good)"
    unfolding good_def using distinct_map_filter [OF dc] by (simp add: take_map [symmetric])
  show dist': ?dist
  proof -
    have "map (fn_id \<circ> fst) found' = map (fn_id \<circ> fst) found @ map fn_id good" by (simp add: found' o_def)
    moreover have "set (map (fn_id \<circ> fst) found) \<inter> set (map fn_id good) = {}"
    proof -
      have "set (map (fn_id \<circ> fst) found) = fn_id ` fst ` set found" by (simp add: image_comp)
      then show ?thesis using map_disjoint [of good fn_id, OF fresh] by (simp only:)
    qed
    ultimately show ?thesis using od dgood by (simp only: distinct_append)
  qed
  show ?len using cap by (simp add: found' good_def)
  show "hop_inv (w_db w) seq rq req (Suc n) F' V' found'" if l: "length found' < cap"
  proof -
    have "good = filter (\<lambda>c. map_of by_id (fn_id c) \<noteq> None) cands"
      using l by (simp add: found' good_def)
    then have gs: "set good = {c \<in> set cands. map_of by_id (fn_id c) \<noteq> None}" by (simp only: set_filter)
    have "fn_id ` set good = A"
    proof (intro equalityI subsetI)
      fix v assume "v \<in> A"
      then have "v \<in> fn_id ` set cands" and v: "vis v" using Nc by (simp_all add: A_def)
      then obtain c where c: "c \<in> set cands" "v = fn_id c" by blast
      with v seen [of c] gs show "v \<in> fn_id ` set good" by blast
    qed (use good(2) in blast)
    then show ?thesis
      using fs(1) V2 ids' F' snd' dist' by (simp add: hop_inv_def r_def step_def vis_def origin_def)
  qed
qed

lemma squeeze:
  assumes "S = {v. Q v \<and> (\<exists>m \<le> n. P m v)}" and "S = {v. Q v \<and> (\<exists>m. P m v)}" and "n \<le> d"
  shows "S = {v. Q v \<and> (\<exists>m \<le> (d :: nat). P m v)}"
proof (rule set_eqI)
  fix v
  have "v \<in> S \<longleftrightarrow> Q v \<and> (\<exists>m \<le> n. P m v)" using assms(1) by simp
  moreover have "v \<in> S \<longleftrightarrow> Q v \<and> (\<exists>m. P m v)" using assms(2) by simp
  ultimately show "v \<in> S \<longleftrightarrow> v \<in> {v. Q v \<and> (\<exists>m \<le> d. P m v)}"
    using le_trans [OF _ assms(3)] by (simp only: mem_Collect_eq) blast
qed

lemma hop_loop_spec:
  assumes "hop_loop req rq seq cap [Suc n..<Suc depth] F V found w = (Inr out, w')" and "n \<le> depth"
    and "hop_inv (w_db w) seq rq req n F V found" and "length found < cap"
  shows "search_ok (w_db w) seq rq req cap depth out"
  using assms
proof (induction "depth - n" arbitrary: n F V found w rule: less_induct)
  case less
  let ?ids = "fn_id ` fst ` set found" and ?step = "req_step (w_db w) seq req" and ?vis = "visible (w_db w) seq rq"
  have fi: "frontier_inv ?step ?vis (nb_artifact req) n (set F) V ?ids"
    and old: "\<forall>fr \<in> set found. sound_found (w_db w) seq rq req (Suc n) fr"
    and od: "distinct (map (fn_id \<circ> fst) found)" using less.prems(3) by (simp_all add: hop_inv_def)
  have ids: "?ids = {v. v \<noteq> nb_artifact req \<and> (\<exists>m \<le> n. path_in ?step ?vis m (nb_artifact req) v)}"
    by (rule frontier_ids [OF fi])
  have stop: ?case if "out = found" "n = depth \<or> F = []"
  proof -
    have "?ids = {v. v \<noteq> nb_artifact req \<and> (\<exists>m \<le> depth. path_in ?step ?vis m (nb_artifact req) v)}"
    proof (cases "n = depth")
      case False
      with that(2) have "set F = {}" by simp
      then have "frontier_inv ?step ?vis (nb_artifact req) n {} V ?ids" using fi by simp
      from squeeze [OF ids frontier_done [OF this] less.prems(2)] show ?thesis .
    qed (use ids in simp)
    then show ?thesis
      using old od less.prems(2,4) that(1) sound_found_mono [of "w_db w" seq rq req "Suc n" _ "Suc depth"]
      by (auto simp: search_ok_def)
  qed
  show ?case
  proof (cases "n = depth \<or> F = []")
    case True
    then have "out = found" using less.prems(1) by (cases "[Suc n..<Suc depth]") (auto simp: ret_iff)
    from stop [OF this True] show ?thesis .
  next
    case F: False
    then have nd: "n < depth" using less.prems(2) by simp
    then have ds: "[Suc n..<Suc depth] = Suc n # [Suc (Suc n)..<Suc depth]" by (simp add: upt_rec)
    have "bindM (hop_round req rq seq cap (Suc n) F V found) (\<lambda>(nxt, visited', found').
        hop_loop req rq seq cap [Suc (Suc n)..<Suc depth] nxt visited' found') w = (Inr out, w')"
      using less.prems(1,4) F unfolding ds hop_loop.simps by (simp del: upt_Suc)
    then obtain res w2 where rd0: "hop_round req rq seq cap (Suc n) F V found w = (Inr res, w2)"
      and k0: "(case res of (nxt, visited', found') \<Rightarrow>
        hop_loop req rq seq cap [Suc (Suc n)..<Suc depth] nxt visited' found') w2 = (Inr out, w')"
      by (rule bindM_InrE)
    obtain F' V' found' where res: "res = (F', V', found')" by (cases res)
    have rd: "hop_round req rq seq cap (Suc n) F V found w = (Inr (F', V', found'), w2)"
      and k: "hop_loop req rq seq cap [Suc (Suc n)..<Suc depth] F' V' found' w2 = (Inr out, w')"
      using rd0 k0 unfolding res prod.case .
    have db: "w_db w2 = w_db w" using reads_only_fields(1) [OF hop_round_reads rd] .
    note ri = hop_round_inv [OF rd less.prems(3) less_imp_le [OF less.prems(4)]]
    show ?thesis
    proof (cases "length found' < cap")
      case True
      show ?thesis
        using less.hyps [of "Suc n" F' V' found' w2] nd k ri(4) [OF True] True by (simp add: db del: upt_Suc)
    next
      case False
      then have "out = found'" using k by (cases "[Suc (Suc n)..<Suc depth]") (auto simp: ret_iff)
      with False ri(1-3) nd show ?thesis
        using sound_found_mono [of "w_db w" seq rq req "Suc (Suc n)" _ "Suc depth"] by (auto simp: search_ok_def)
    qed
  qed
qed

lemma search_neighbors_spec:
  assumes run: "search_neighbors dp req rq seq w = (Inr out, w')"
  defines "vis \<equiv> visible (w_db w) seq rq" and "cap \<equiv> max_graph_neighbors (dp_settings dp)"
  shows "if vis (nb_artifact req) then search_ok (w_db w) seq rq req cap (nb_depth req) out else out = []"
proof -
  from run obtain root_rows w1 where d: "db_get (\<lambda>d. fetch_artifacts d [nb_artifact req] seq) w = (Inr root_rows, w1)"
    and h: "hop_loop req rq seq cap [1..<Suc (nb_depth req)]
       (if filter_artifacts rq root_rows \<noteq> [] then [nb_artifact req] else []) {nb_artifact req} [] w1 = (Inr out, w')"
    unfolding search_neighbors_def cap_def by (rule bindM_InrE)
  have rr: "root_rows = fetch_artifacts (w_db w) [nb_artifact req] seq" and db: "w_db w1 = w_db w"
    using d by (simp_all add: db_get_Inr)
  show ?thesis
  proof (cases "vis (nb_artifact req)")
    case False
    with h rr have "hop_loop req rq seq cap [1..<Suc (nb_depth req)] [] {nb_artifact req} [] w1 = (Inr out, w')"
      by (simp add: vis_def visible_def)
    then have "out = []" by (cases "[1..<Suc (nb_depth req)]") (simp_all add: ret_iff)
    with False show ?thesis by simp
  next
    case True
    with h rr have run: "hop_loop req rq seq cap [Suc 0..<Suc (nb_depth req)] [nb_artifact req] {nb_artifact req} [] w1 = (Inr out, w')"
      by (simp add: vis_def visible_def)
    have inv: "frontier_inv (req_step (w_db w) seq req) vis (nb_artifact req) 0 (set [nb_artifact req]) {nb_artifact req}
        (fn_id ` fst ` set ([] :: (found_node \<times> artifact_row) list))"
      by (auto simp: frontier_inv_def)
    show ?thesis
    proof (cases "cap = 0")
      case cap: True
      have "out = []" using run cap by (cases "[Suc 0..<Suc (nb_depth req)]") (simp_all add: ret_iff)
      with True cap show ?thesis by (simp add: search_ok_def)
    next
      case False
      with inv True db show ?thesis
        using hop_loop_spec [OF run] by (simp add: vis_def hop_inv_def)
    qed
  qed
qed

end
