(* ===== verification/RequestMore.thy ===== *)
theory RequestMore
  imports Charge
begin

text \<open>
  \<open>context_broker/request_more.py\<close>: the justified follow-up. In order: exact reuse, semantic
  reuse, the request allowance, the token allowance, the run budget, and a fresh retrieval
  that is charged and recorded. Everything after the lookup runs under the pack's lock.
\<close>

section \<open>Requests and responses\<close>

record request_more_request =
  rm_pack_id :: string
  rm_question :: string
  rm_checked :: "string list"
  rm_max_tokens :: int

record request_more_response =
  rs_status :: string
  rs_reused :: "string list"
  rs_new :: "evidence_card list"
  rs_tokens :: int
  rs_remaining :: int
  rs_policy :: string
  rs_reason :: "string option"

text \<open>\<open>_denied_requires_reason\<close>.\<close>

definition response_valid :: "string \<Rightarrow> string option \<Rightarrow> bool" where
  "response_valid status reason \<longleftrightarrow> \<not> (status = ''denied'' \<and> (reason = None \<or> reason = Some []))"

section \<open>Operations\<close>

definition more_event ::
  "request_more_request \<Rightarrow> requester \<Rightarrow> pack \<Rightarrow> string \<Rightarrow> uuid \<Rightarrow> uuid list \<Rightarrow> uuid list \<Rightarrow> bool \<Rightarrow> bool \<Rightarrow> int
   \<Rightarrow> retrieval_event" where
  "more_event req rq p status pack_uuid reused new cache_hit semantic_reuse tokens_returned =
     (event (pk_run_id p) (subject rq) ''context.request_more'' status (pk_kb_version p))
       \<lparr>ev_context_pack_id := Some pack_uuid, ev_query_text := Some (rm_question req),
        ev_normalized_query := Some (normalize_query (rm_question req)),
        ev_retrieval_profile := Some (pk_profile p), ev_returned := reused @ new, ev_reused := reused,
        ev_new := new, ev_cache_hit := cache_hit, ev_semantic_reuse := semantic_reuse,
        ev_tokens_returned := tokens_returned\<rparr>"

definition parse_uuids :: "string list \<Rightarrow> exn + uuid list" where
  "parse_uuids ids = mapE (\<lambda>s. opt_or_raise ValueError (parse_uuid s)) ids"

definition write_more ::
  "request_more_request \<Rightarrow> requester \<Rightarrow> pack \<Rightarrow> string \<Rightarrow> string list \<Rightarrow> string list \<Rightarrow> bool \<Rightarrow> bool \<Rightarrow> int
   \<Rightarrow> unit broker" where
  "write_more req rq p status reused new cache_hit semantic_reuse tokens_returned =
     bindM (liftM (opt_or_raise ValueError (parse_uuid (pk_id p)))) (\<lambda>pack_uuid.
     bindM (liftM (parse_uuids reused)) (\<lambda>reused_ids.
     bindM (liftM (parse_uuids new)) (\<lambda>new_ids.
     insert_event (more_event req rq p status pack_uuid reused_ids new_ids cache_hit semantic_reuse
       tokens_returned))))"

definition authorized_reuse :: "requester \<Rightarrow> pack \<Rightarrow> string list \<Rightarrow> string list broker" where
  "authorized_reuse rq p reused =
     (if reused = [] then ret []
      else bindM (liftM (parse_uuids reused)) (\<lambda>ids.
           bindM (db_get (\<lambda>d. fetch_artifacts d ids (pk_build_seq p))) (\<lambda>artifact_rows.
           ret (filter (\<lambda>e. e \<in> set (map (uuid_str \<circ> ar_id) (filter_artifacts rq artifact_rows))) reused))))"

definition reuse_response :: "nat \<Rightarrow> string list \<Rightarrow> request_more_response broker" where
  "reuse_response r reused = bindM (the_pack r) (\<lambda>p.
     validated (response_valid ''reused'' None)
       \<lparr>rs_status = ''reused'', rs_reused = reused, rs_new = [], rs_tokens = 0,
        rs_remaining = run_remaining_tokens p, rs_policy = policy_name, rs_reason = None\<rparr>)"

definition refuse ::
  "request_more_request \<Rightarrow> requester \<Rightarrow> nat \<Rightarrow> pack \<Rightarrow> string \<Rightarrow> string option \<Rightarrow> request_more_response broker" where
  "refuse req rq r p status reason =
     bindM (write_more req rq p status [] [] False False 0) (\<lambda>_. bindM (the_pack r) (\<lambda>p'.
     validated (response_valid status reason)
       \<lparr>rs_status = status, rs_reused = [], rs_new = [], rs_tokens = 0,
        rs_remaining = run_remaining_tokens p', rs_policy = policy_name, rs_reason = reason\<rparr>))"

text \<open>The selection loop: skip what is excluded, stop at the first card over the cap.\<close>

fun pick_cards ::
  "deps \<Rightarrow> string set \<Rightarrow> int \<Rightarrow> evidence_card list \<Rightarrow> int \<Rightarrow> evidence_card list \<Rightarrow> evidence_card list \<times> int" where
  "pick_cards dp excluded cap new_cards n [] = (new_cards, n)"
| "pick_cards dp excluded cap new_cards n (c # cs) =
     (if ec_evidence_id c \<in> excluded then pick_cards dp excluded cap new_cards n cs
      else if n + card_tokens dp c > cap then (new_cards, n)
      else pick_cards dp excluded cap (new_cards @ [c]) (n + card_tokens dp c) cs)"

text \<open>The charge, the request count, the new cards and the history entry.\<close>

definition add_request :: "nat \<Rightarrow> string \<Rightarrow> pack_store \<Rightarrow> pack_store" where
  "add_request r subj s =
     set_usage r subj ((usage_at s r subj)\<lparr>requests := requests (usage_at s r subj) + 1\<rparr>) s"

definition register_cards :: "nat \<Rightarrow> evidence_card list \<Rightarrow> pack_store \<Rightarrow> pack_store" where
  "register_cards r cards = upd_pack r (\<lambda>p.
     p\<lparr>pk_cards := dict_update_all (pk_cards p) (map (\<lambda>c. (ec_evidence_id c, c)) cards)\<rparr>)"

definition record_history :: "nat \<Rightarrow> string \<Rightarrow> string list \<Rightarrow> pack_store \<Rightarrow> pack_store" where
  "record_history r normalized ids = upd_pack r (\<lambda>p. p\<lparr>pk_history := history_record (pk_history p) normalized ids\<rparr>)"

definition commit_more ::
  "nat \<Rightarrow> string \<Rightarrow> int \<Rightarrow> evidence_card list \<Rightarrow> string \<Rightarrow> pack_store \<Rightarrow> pack_store" where
  "commit_more r subj n new_cards normalized s =
     record_history r normalized (map ec_evidence_id new_cards)
       (register_cards r new_cards (add_request r subj (charge r subj n s)))"

definition approve_more ::
  "deps \<Rightarrow> request_more_request \<Rightarrow> requester \<Rightarrow> nat \<Rightarrow> pack \<Rightarrow> evidence_card list \<Rightarrow> request_more_response broker" where
  "approve_more dp req rq r p cards =
     bindM (the_pack r) (\<lambda>p1.
     let excluded = set (rm_checked req) \<union> set (map fst (pk_cards p1));
         picked = pick_cards dp excluded (rm_max_tokens req) [] 0 cards
     in bindM (charged_write r (subject rq)
          (commit_more r (subject rq) (snd picked) (fst picked) (normalize_query (rm_question req)))
          (write_more req rq p ''approved'' [] (map ec_evidence_id (fst picked)) False False (snd picked))) (\<lambda>_.
        bindM (the_pack r) (\<lambda>p2.
        validated (response_valid ''approved'' None)
          \<lparr>rs_status = ''approved'', rs_reused = [], rs_new = fst picked, rs_tokens = snd picked,
           rs_remaining = run_remaining_tokens p2, rs_policy = policy_name, rs_reason = None\<rparr>)))"

definition requests_reason :: "agent_usage \<Rightarrow> agent_allowance \<Rightarrow> string" where
  "requests_reason u a = ''agent request allowance exhausted: '' @ int_str (requests u) @ ''/''
     @ int_str (max_requests a) @ '' requests used''"

definition tokens_reason :: "agent_usage \<Rightarrow> int \<Rightarrow> agent_allowance \<Rightarrow> string" where
  "tokens_reason u n a = ''agent token allowance exceeded: '' @ int_str (tokens u) @ '' used + ''
     @ int_str n @ '' requested > '' @ int_str (max_tokens a) @ '' allowed''"

definition fresh_more ::
  "deps \<Rightarrow> request_more_request \<Rightarrow> requester \<Rightarrow> nat \<Rightarrow> pack \<Rightarrow> request_more_response broker" where
  "fresh_more dp req rq r p =
     (let allowance = allowance_for (dp_budget dp) (subject rq)
      in bindM (store_op (usage_for r (subject rq))) (\<lambda>u.
         if requests u + 1 > max_requests allowance
         then refuse req rq r p ''denied'' (Some (requests_reason u allowance))
         else if tokens u + rm_max_tokens req > max_tokens allowance
         then refuse req rq r p ''denied'' (Some (tokens_reason u (rm_max_tokens req) allowance))
         else bindM (the_pack r) (\<lambda>p1.
           if rm_max_tokens req > run_remaining_tokens p1
           then refuse req rq r p ''needs_human_approval'' None
           else bindM (retrieve_cards dp (rm_question req) (pk_build_seq p) rq None) (\<lambda>found.
             approve_more dp req rq r p (fst found)))))"

text \<open>A history hit is served when the caller may see some of it, or when it was empty.\<close>

definition try_reuse ::
  "request_more_request \<Rightarrow> requester \<Rightarrow> nat \<Rightarrow> pack \<Rightarrow> past_retrieval option \<Rightarrow> bool \<Rightarrow> bool
   \<Rightarrow> request_more_response broker \<Rightarrow> request_more_response broker" where
  "try_reuse req rq r p hit cache_hit semantic_reuse otherwise =
     (case hit of None \<Rightarrow> otherwise
      | Some h \<Rightarrow> bindM (authorized_reuse rq p (pr_evidence h)) (\<lambda>allowed.
          if allowed \<noteq> [] \<or> pr_evidence h = []
          then bindM (write_more req rq p ''reused'' allowed [] cache_hit semantic_reuse 0)
                 (\<lambda>_. reuse_response r allowed)
          else otherwise))"

definition locked_more ::
  "deps \<Rightarrow> request_more_request \<Rightarrow> requester \<Rightarrow> nat \<Rightarrow> pack \<Rightarrow> request_more_response broker" where
  "locked_more dp req rq r p =
     (let normalized = normalize_query (rm_question req)
      in bindM (the_pack r) (\<lambda>p1.
         try_reuse req rq r p (find_exact (pk_history p1) normalized) True False
           (try_reuse req rq r p
             (find_semantic (pk_history p1) normalized (semantic_reuse_threshold (dp_settings dp))) False True
             (fresh_more dp req rq r p))))"

definition request_more :: "deps \<Rightarrow> request_more_request \<Rightarrow> requester \<Rightarrow> request_more_response broker" where
  "request_more dp req rq =
     bindM (lookup_pack (rm_pack_id req)) (\<lambda>found. case found of
       None \<Rightarrow> ledgered_error ''context.request_more'' (subject rq)
         (error_defaults\<lparr>ea_query_text := Some (rm_pack_id req)\<rparr>)
         (''unknown context_pack_id: '' @ rm_pack_id req)
     | Some (r, p) \<Rightarrow> locked_more dp req rq r p)"

section \<open>The selection\<close>

lemma pick_cards_spec:
  assumes "pick_cards dp excluded cap new n cs = (out, m)" and "n = sum_list (map (card_tokens dp) new)"
    and "n \<le> cap"
  shows "\<exists>picked. out = new @ picked \<and> subseq picked cs \<and> (\<forall>c \<in> set picked. ec_evidence_id c \<notin> excluded)
    \<and> m = sum_list (map (card_tokens dp) out) \<and> m \<le> cap"
  using assms
proof (induction dp excluded cap new n cs rule: pick_cards.induct)
  case (2 dp excluded cap new n c cs)
  show ?case
  proof (cases "ec_evidence_id c \<in> excluded")
    case True
    with 2 show ?thesis by auto
  next
    case ne: False
    show ?thesis
    proof (cases "n + card_tokens dp c > cap")
      case True
      with ne 2 show ?thesis by (intro exI [of _ "[]"]) auto
    next
      case False
      with ne "2.prems" "2.IH"(2) obtain picked where
        "out = (new @ [c]) @ picked" "subseq picked cs" "\<forall>c \<in> set picked. ec_evidence_id c \<notin> excluded"
        "m = sum_list (map (card_tokens dp) out)" "m \<le> cap" by auto
      with ne show ?thesis by (intro exI [of _ "c # picked"]) auto
    qed
  qed
qed auto

lemma pick_cards_subset: "pick_cards dp ex cap new n cs = (out, m) \<Longrightarrow> set out \<subseteq> set new \<union> set cs"
  by (induction dp ex cap new n cs arbitrary: out m rule: pick_cards.induct) (auto split: if_splits)

section \<open>The commit\<close>

lemma add_request_simps [simp]:
  "pack_obj (add_request r subj s) = pack_obj s" "packs (add_request r subj s) = packs s"
  "run_usage (add_request r subj s) = run_usage s" "next_obj (add_request r subj s) = next_obj s"
  "max_packs (add_request r subj s) = max_packs s"
  by (simp_all add: add_request_def)

lemma add_request_usage [simp]:
  "usage_at (add_request r subj s) r subj =
     (usage_at s r subj)\<lparr>requests := requests (usage_at s r subj) + 1\<rparr>"
  by (simp add: add_request_def)

lemma register_usage [simp]:
  "usage_at (register_cards r cs s) r' subj = usage_at s r' subj"
  "usage_at (record_history r q ids s) r' subj = usage_at s r' subj"
  unfolding register_cards_def record_history_def by (simp_all add: usage_at_upd_pack)

lemma charged_register: "charged_change r subj s (register_cards r cs s)"
  unfolding register_cards_def by (rule charged_upd) simp

lemma charged_history: "charged_change r subj s (record_history r q ids s)"
  unfolding record_history_def by (rule charged_upd) simp

lemma charged_add_request: "charged_change r subj s (add_request r subj s)"
  unfolding add_request_def by (rule charged_set_usage)

lemma charged_commit_more: "charged_change r subj s (commit_more r subj n cs q s)"
  unfolding commit_more_def
  by (rule charged_trans [OF charged_trans [OF charged_trans [OF charged_charge charged_add_request]
        charged_register] charged_history])

lemma commit_more_effect:
  "pk_used (pack_obj (commit_more r subj n cs q s) r) = pk_used (pack_obj s r) + n"
  "usage_at (commit_more r subj n cs q s) r subj = (usage_at s r subj)
     \<lparr>requests := requests (usage_at s r subj) + 1, tokens := tokens (usage_at s r subj) + n\<rparr>"
  "pk_cards (pack_obj (commit_more r subj n cs q s) r) =
     dict_update_all (pk_cards (pack_obj s r)) (map (\<lambda>c. (ec_evidence_id c, c)) cs)"
  by (simp_all add: commit_more_def) (simp_all add: register_cards_def record_history_def)

lemma commit_more_store_ok:
  assumes "\<forall>c \<in> set cs. card_entry_ok (ec_evidence_id c, c)" and "store_ok s"
  shows "store_ok (commit_more r subj n cs q s)"
proof (rule charged_store_ok [OF charged_commit_more assms(2)])
  have "cards_ok (pk_cards (pack_obj s r))" using assms(2) by (simp add: store_ok_def)
  then show "cards_ok (pk_cards (pack_obj (commit_more r subj n cs q s) r))"
    using assms(1) by (auto simp: commit_more_effect intro!: cards_ok_update_all)
qed

section \<open>The refund and the ledger discipline\<close>

lemma write_more_fixed [simp]: "store_fixed (write_more req rq p st re ne a b n)"
  unfolding write_more_def by simp

lemma write_more_books [books_intros]: "keeps_books (write_more req rq p st re ne a b n)"
  unfolding write_more_def by (intro books_intros)

lemma opt_or_raise_quiet: "opt_or_raise ValueError x = Inl e \<Longrightarrow> \<not> ledgered_exn e"
  by (cases x) auto

lemma parse_uuids_quiet: "parse_uuids ids = Inl e \<Longrightarrow> \<not> ledgered_exn e"
proof -
  have "mapE (\<lambda>s. opt_or_raise ValueError (parse_uuid s)) ids = Inl e \<Longrightarrow> e = ValueError"
  proof (induction ids)
    case (Cons x xs)
    then show ?case by (cases "parse_uuid x") (auto split: sum.splits)
  qed simp
  then show "parse_uuids ids = Inl e \<Longrightarrow> \<not> ledgered_exn e" by (auto simp: parse_uuids_def)
qed

lemma write_more_one_row [ledger_intros]: "one_row (write_more req rq p st re ne a b n)"
  unfolding write_more_def
  by (intro one_row_liftM_bindM one_row_insert_event) (simp_all add: opt_or_raise_quiet parse_uuids_quiet)

lemma authorized_reuse_reads [reads_intros]: "reads_only (authorized_reuse rq p ids)"
  unfolding authorized_reuse_def
  by (intro reads_if reads_ret reads_bindM reads_liftM reads_db_get) (simp add: parse_uuids_quiet)

lemma response_valid_simps [simp]:
  "response_valid ''reused'' x" "response_valid ''approved'' x" "response_valid ''needs_human_approval'' x"
  by (simp_all add: response_valid_def)

lemma reason_valid:
  "response_valid ''denied'' (Some (requests_reason u a))" "response_valid ''denied'' (Some (tokens_reason u n a))"
  by (simp_all add: response_valid_def requests_reason_def tokens_reason_def)

lemma refuse_one_row: "response_valid st reason \<Longrightarrow> one_row (refuse req rq r p st reason)"
  unfolding refuse_def
  by (intro one_row_silent write_more_one_row silent_bindM silent_validated)
    (simp_all add: the_pack_def silent_getM)

lemma approve_more_one_row:
  assumes "\<forall>c \<in> set cards. card_entry_ok (ec_evidence_id c, c)"
  shows "one_row (approve_more dp req rq r p cards)"
  unfolding approve_more_def Let_def
proof (intro one_row_bindM [OF reads_quiet [OF reads_the_pack]])
  fix p1 :: pack and w w'
  let ?pick = "pick_cards dp (set (rm_checked req) \<union> set (map fst (pk_cards p1))) (rm_max_tokens req) [] 0 cards"
  have "set (fst ?pick) \<subseteq> set cards" using pick_cards_subset [of dp _ _ "[]" 0 cards] by (metis prod.collapse set_empty sup_bot_left)
  with assms have cs: "\<forall>c \<in> set (fst ?pick). card_entry_ok (ec_evidence_id c, c)" by blast
  show "one_row (bindM (charged_write r (subject rq)
          (commit_more r (subject rq) (snd ?pick) (fst ?pick) (normalize_query (rm_question req)))
          (write_more req rq p ''approved'' [] (map ec_evidence_id (fst ?pick)) False False (snd ?pick))) (\<lambda>_.
        bindM (the_pack r) (\<lambda>p2. validated (response_valid ''approved'' None)
          \<lparr>rs_status = ''approved'', rs_reused = [], rs_new = fst ?pick, rs_tokens = snd ?pick,
           rs_remaining = run_remaining_tokens p2, rs_policy = policy_name, rs_reason = None\<rparr>)))"
    by (intro one_row_silent charged_write_one_row write_more_one_row commit_more_store_ok [OF cs]
        silent_bindM silent_validated) (simp_all add: the_pack_def silent_getM)
qed

lemma fresh_more_one_row: "one_row (fresh_more dp req rq r p)"
proof -
  have ap: "one_row (approve_more dp req rq r p (fst found))"
    if "broker_ok w" "retrieve_cards dp (rm_question req) (pk_build_seq p) rq None w = (Inr found, w')" for found w w'
    using that retrieved_card_ok [of dp _ _ rq None w "fst found" "snd found" w']
    by (intro approve_more_one_row) (auto simp: broker_ok_def)
  have u: "store_ok s \<Longrightarrow> store_ok (snd (usage_for r (subject rq) s))" for s
    by (rule store_ok_same [OF usage_for_view])
  show ?thesis
    unfolding fresh_more_def Let_def
    by (intro one_row_bindM [OF silent_quiet [OF silent_store_op [OF u]]] one_row_if refuse_one_row reason_valid
        one_row_bindM [OF reads_quiet [OF reads_the_pack]] response_valid_simps
        one_row_bindM [OF reads_quiet [OF retrieve_cards_reads]] ap; assumption)
qed

lemma try_reuse_one_row:
  "one_row other \<Longrightarrow> one_row (try_reuse req rq r p hit a b other)"
  unfolding try_reuse_def reuse_response_def
  by (cases hit)
    (auto intro!: one_row_bindM [OF reads_quiet [OF authorized_reuse_reads]] one_row_if one_row_silent
      write_more_one_row silent_bindM silent_validated silent_getM simp: the_pack_def)

lemma request_more_one_row [ledger_intros]: "one_row (request_more dp req rq)"
  unfolding request_more_def
proof (rule one_row_bindM [OF silent_quiet [OF silent_lookup_pack]])
  fix found :: "(nat \<times> pack) option" and w w'
  show "one_row (case found of None \<Rightarrow> ledgered_error ''context.request_more'' (subject rq)
         (error_defaults\<lparr>ea_query_text := Some (rm_pack_id req)\<rparr>) (''unknown context_pack_id: '' @ rm_pack_id req)
     | Some (r, p) \<Rightarrow> locked_more dp req rq r p)"
    by (cases found) (auto simp: locked_more_def Let_def
        intro!: one_row_ledgered_error one_row_bindM [OF reads_quiet [OF reads_the_pack]]
          try_reuse_one_row fresh_more_one_row)
qed

lemma never_fails_simps [intro]:
  "never_fails (ret x)" "ok \<Longrightarrow> never_fails (validated ok y)"
  by (simp_all add: never_fails_def ret_def validated_def)

lemma never_fails_the_pack: "(\<And>p. never_fails (f p)) \<Longrightarrow> never_fails (bindM (the_pack r) f)"
  by (simp add: never_fails_def the_pack_def)

lemma refuse_books: "keeps_books (refuse req rq r p st reason)"
  unfolding refuse_def by (intro books_intros)

lemma approve_more_safe: "books_safe (approve_more dp req rq r p cards)"
  unfolding approve_more_def Let_def
  by (intro safe_bindM [OF books_basic(5)] safe_never_fails charged_write_safe charged_commit_more
      write_more_fixed never_fails_the_pack never_fails_simps response_valid_simps)

lemma fresh_more_safe: "books_safe (fresh_more dp req rq r p)"
  unfolding fresh_more_def Let_def
  by (intro safe_bindM books_intros safe_if keeps_books_safe [OF refuse_books] approve_more_safe
      reads_books [OF retrieve_cards_reads])

lemma try_reuse_safe: "books_safe other \<Longrightarrow> books_safe (try_reuse req rq r p hit a b other)"
proof (cases hit)
  case (Some h)
  assume other: "books_safe other"
  have answer: "books_safe (bindM (write_more req rq p ''reused'' allowed [] a b 0) (\<lambda>_. reuse_response r allowed))"
    for allowed
    unfolding reuse_response_def by (intro keeps_books_safe books_intros)
  show ?thesis
    unfolding try_reuse_def Some option.case
    by (intro safe_bindM [OF reads_books [OF authorized_reuse_reads]] safe_if answer other)
qed (simp add: try_reuse_def)

text \<open>Whatever fails, and wherever, the books are as before the call.\<close>

lemma request_more_safe: "books_safe (request_more dp req rq)"
  unfolding request_more_def
proof (rule safe_bindM [OF books_lookup_pack])
  fix found :: "(nat \<times> pack) option"
  show "books_safe (case found of None \<Rightarrow> ledgered_error ''context.request_more'' (subject rq)
         (error_defaults\<lparr>ea_query_text := Some (rm_pack_id req)\<rparr>) (''unknown context_pack_id: '' @ rm_pack_id req)
     | Some (r, p) \<Rightarrow> locked_more dp req rq r p)"
    by (cases found) (auto simp: locked_more_def Let_def
        intro!: keeps_books_safe [OF books_ledgered_error] safe_bindM [OF books_basic(5)] try_reuse_safe fresh_more_safe)
qed

section \<open>What a follow-up costs\<close>

definition approved_post ::
  "deps \<Rightarrow> request_more_request \<Rightarrow> requester \<Rightarrow> nat \<Rightarrow> request_more_response \<Rightarrow> pack_store \<Rightarrow> pack_store \<Rightarrow> bool" where
  "approved_post dp req rq r resp s s' \<longleftrightarrow>
     (let u = usage_at s r (subject rq); a = allowance_for (dp_budget dp) (subject rq)
      in requests u < max_requests a \<and> tokens u + rm_max_tokens req \<le> max_tokens a
         \<and> rm_max_tokens req \<le> run_remaining_tokens (pack_obj s r)
         \<and> 0 \<le> rs_tokens resp \<and> rs_tokens resp \<le> rm_max_tokens req
         \<and> rs_tokens resp = sum_list (map (card_tokens dp) (rs_new resp))
         \<and> (\<forall>c \<in> set (rs_new resp). ec_evidence_id c \<notin> set (rm_checked req)
              \<and> ec_evidence_id c \<notin> fst ` set (pk_cards (pack_obj s r)))
         \<and> pk_used (pack_obj s' r) = pk_used (pack_obj s r) + rs_tokens resp
         \<and> usage_at s' r (subject rq) = u\<lparr>requests := requests u + 1, tokens := tokens u + rs_tokens resp\<rparr>)"

definition free_post :: "request_more_response \<Rightarrow> pack_store \<Rightarrow> pack_store \<Rightarrow> bool" where
  "free_post resp s s' \<longleftrightarrow> rs_status resp \<noteq> ''approved'' \<and> rs_new resp = [] \<and> rs_tokens resp = 0 \<and> same_books s' s"

definition more_post ::
  "deps \<Rightarrow> request_more_request \<Rightarrow> requester \<Rightarrow> nat \<Rightarrow> request_more_response \<Rightarrow> pack_store \<Rightarrow> pack_store \<Rightarrow> bool" where
  "more_post dp req rq r resp s s' \<longleftrightarrow>
     (if rs_status resp = ''approved'' then approved_post dp req rq r resp s s' \<and> charged_change r (subject rq) s s'
      else free_post resp s s')"

lemma more_post_free:
  "rs_status resp \<noteq> ''approved'' \<Longrightarrow> rs_new resp = [] \<Longrightarrow> rs_tokens resp = 0 \<Longrightarrow> same_books s' s
   \<Longrightarrow> more_post dp req rq r resp s s'"
  by (simp add: more_post_def free_post_def)

lemma refuse_post_fields:
  "refuse req rq r p st reason w = (Inr resp, w') \<Longrightarrow> rs_status resp = st \<and> rs_new resp = [] \<and> rs_tokens resp = 0"
  unfolding refuse_def by (elim bindM_InrE) (simp add: validated_Inr)

lemma refuse_post:
  assumes "refuse req rq r p st reason w = (Inr resp, w')" and "st \<noteq> ''approved''"
  shows "more_post dp req rq r resp (w_store w) (w_store w')"
proof -
  have b: "same_books (w_store w') (w_store w)" using keeps_booksD [OF refuse_books assms(1)] .
  have "rs_status resp = st \<and> rs_new resp = [] \<and> rs_tokens resp = 0"
    using assms(1) unfolding refuse_def by (elim bindM_InrE) (simp add: validated_Inr)
  with b assms(2) show ?thesis by (simp add: more_post_free)
qed

lemma approve_more_post:
  assumes "approve_more dp req rq r p cards w = (Inr resp, w')"
    and "requests (usage_at (w_store w) r (subject rq)) < max_requests (allowance_for (dp_budget dp) (subject rq))"
    and "tokens (usage_at (w_store w) r (subject rq)) + rm_max_tokens req \<le> max_tokens (allowance_for (dp_budget dp) (subject rq))"
    and "rm_max_tokens req \<le> run_remaining_tokens (pack_obj (w_store w) r)" and "0 \<le> rm_max_tokens req"
  shows "rs_status resp = ''approved'' \<and> approved_post dp req rq r resp (w_store w) (w_store w')
    \<and> charged_change r (subject rq) (w_store w) (w_store w')"
proof -
  let ?s = "w_store w" and ?subj = "subject rq"
  define pick where "pick = pick_cards dp (set (rm_checked req) \<union> set (map fst (pk_cards (pack_obj ?s r)))) (rm_max_tokens req) [] 0 cards"
  define commit where "commit = commit_more r ?subj (snd pick) (fst pick) (normalize_query (rm_question req))"
  from assms(1) obtain x w1 where cw: "charged_write r ?subj commit
      (write_more req rq p ''approved'' [] (map ec_evidence_id (fst pick)) False False (snd pick)) w = (Inr x, w1)"
    and resp: "resp = \<lparr>rs_status = ''approved'', rs_reused = [], rs_new = fst pick, rs_tokens = snd pick,
           rs_remaining = run_remaining_tokens (pack_obj (w_store w1) r), rs_policy = policy_name, rs_reason = None\<rparr>"
    and w1: "w' = w1"
    unfolding approve_more_def Let_def pick_def commit_def
    by (elim bindM_InrE) (simp add: the_pack_Inr validated_Inr)
  have st: "w_store w' = commit (snd (snapshot r ?subj ?s))"
    using charged_write_Inr(1) [OF cw] w1 by simp
  have sv: "same_view (snd (snapshot r ?subj ?s)) ?s" by (rule snapshot_view)
  then have eqs: "pack_obj (snd (snapshot r ?subj ?s)) = pack_obj ?s"
    "usage_at (snd (snapshot r ?subj ?s)) r ?subj = usage_at ?s r ?subj" by (simp_all add: same_view_def)
  have pick: "\<forall>c \<in> set (fst pick). ec_evidence_id c \<notin> set (rm_checked req) \<union> set (map fst (pk_cards (pack_obj ?s r)))"
    "snd pick = sum_list (map (card_tokens dp) (fst pick))" "snd pick \<le> rm_max_tokens req"
    using pick_cards_spec [of dp "set (rm_checked req) \<union> set (map fst (pk_cards (pack_obj ?s r)))"
        "rm_max_tokens req" "[]" 0 cards "fst pick" "snd pick"] assms(5)
    by (auto simp: pick_def)
  have "charged_change r ?subj ?s (w_store w')"
    unfolding st commit_def by (rule charged_trans [OF charged_view [OF sv] charged_commit_more])
  moreover have "approved_post dp req rq r resp ?s (w_store w')"
    unfolding approved_post_def Let_def st commit_def
    using assms(2-4) pick by (simp add: resp commit_more_effect eqs)
  ultimately show ?thesis by (simp add: resp)
qed

lemma approved_post_same_books:
  assumes "approved_post dp req rq r resp t s'" and "same_books t s"
  shows "approved_post dp req rq r resp s s'"
  using assms by (simp add: approved_post_def same_books_def)

lemma usage_for_store_op:
  "store_op (usage_for r subj) w = (Inr u, w') \<Longrightarrow> u = usage_at (w_store w) r subj
     \<and> same_view (w_store w') (w_store w) \<and> w_db w' = w_db w"
  using usage_for_view [of r subj "w_store w"] by (auto simp: store_op_Inr) (simp add: usage_for_def)

lemma fresh_more_post:
  assumes run: "fresh_more dp req rq r p w = (Inr resp, w')" and pos: "0 \<le> rm_max_tokens req"
  shows "more_post dp req rq r resp (w_store w) (w_store w')"
proof -
  let ?a = "allowance_for (dp_budget dp) (subject rq)"
  let ?k = "\<lambda>p1. if rm_max_tokens req > run_remaining_tokens p1
           then refuse req rq r p ''needs_human_approval'' None
           else bindM (retrieve_cards dp (rm_question req) (pk_build_seq p) rq None) (\<lambda>found.
             approve_more dp req rq r p (fst found))"
  from run obtain u w1 where u: "store_op (usage_for r (subject rq)) w = (Inr u, w1)"
    and k: "(if requests u + 1 > max_requests ?a
         then refuse req rq r p ''denied'' (Some (requests_reason u ?a))
         else if tokens u + rm_max_tokens req > max_tokens ?a
         then refuse req rq r p ''denied'' (Some (tokens_reason u (rm_max_tokens req) ?a))
         else bindM (the_pack r) ?k) w1 = (Inr resp, w')"
    unfolding fresh_more_def Let_def by (rule bindM_InrE)
  note uf = usage_for_store_op [OF u]
  have b1: "same_books (w_store w1) (w_store w)" using uf view_books by blast
  have refused: "more_post dp req rq r resp (w_store w) (w_store w')"
    if "refuse req rq r p st reason w1 = (Inr resp, w')" "st \<noteq> ''approved''" for st reason
    using refuse_post [OF that] refuse_post_fields [OF that(1)] b1 that(2)
    by (auto simp: more_post_def free_post_def intro: same_books_trans)
  consider (requests) "requests u + 1 > max_requests ?a" | (tokens) "requests u < max_requests ?a"
      "tokens u + rm_max_tokens req > max_tokens ?a"
    | (go) "requests u < max_requests ?a" "tokens u + rm_max_tokens req \<le> max_tokens ?a" by linarith
  then show ?thesis
  proof cases
    case requests
    with k show ?thesis by (intro refused [of "''denied''"]) simp_all
  next
    case tokens
    with k show ?thesis by (intro refused [of "''denied''"]) simp_all
  next
    case go
    with k have k2: "?k (pack_obj (w_store w1) r) w1 = (Inr resp, w')" by (simp add: the_pack_def)
    show ?thesis
    proof (cases "rm_max_tokens req > run_remaining_tokens (pack_obj (w_store w1) r)")
      case True
      with k2 show ?thesis by (intro refused [of "''needs_human_approval''"]) simp_all
    next
      case False
      with k2 obtain found w2 where f: "retrieve_cards dp (rm_question req) (pk_build_seq p) rq None w1 = (Inr found, w2)"
        and ap: "approve_more dp req rq r p (fst found) w2 = (Inr resp, w')" by (auto elim: bindM_InrE)
      have s2: "w_store w2 = w_store w1" using reads_only_fields(2) [OF retrieve_cards_reads f] .
      have u': "u = usage_at (w_store w2) r (subject rq)"
        using uf s2 by (simp add: same_view_def)
      have "rs_status resp = ''approved'' \<and> approved_post dp req rq r resp (w_store w2) (w_store w')
          \<and> charged_change r (subject rq) (w_store w2) (w_store w')"
        using go False s2 u' pos by (intro approve_more_post [OF ap]) simp_all
      moreover have "same_books (w_store w2) (w_store w)" using b1 s2 by simp
      moreover have "charged_change r (subject rq) (w_store w) (w_store w2)"
        using charged_view uf s2 by metis
      ultimately show ?thesis
        unfolding more_post_def using approved_post_same_books charged_trans by metis
    qed
  qed
qed

lemma try_reuse_post:
  assumes "try_reuse req rq r p hit a b other w = (Inr resp, w')"
    and other: "\<And>wa. same_view (w_store wa) (w_store w) \<Longrightarrow> other wa = (Inr resp, w')
      \<Longrightarrow> more_post dp req rq r resp (w_store w) (w_store w')"
  shows "more_post dp req rq r resp (w_store w) (w_store w')"
proof (cases hit)
  case None
  with assms(1) have "other w = (Inr resp, w')" by (simp add: try_reuse_def)
  then show ?thesis by (rule other [OF same_view_refl])
next
  case (Some h)
  let ?answer = "\<lambda>allowed. bindM (write_more req rq p ''reused'' allowed [] a b 0) (\<lambda>_. reuse_response r allowed)"
  from assms(1) obtain allowed w1 where al: "authorized_reuse rq p (pr_evidence h) w = (Inr allowed, w1)"
    and k: "(if allowed \<noteq> [] \<or> pr_evidence h = [] then ?answer allowed else other) w1 = (Inr resp, w')"
    unfolding try_reuse_def Some option.case by (rule bindM_InrE)
  have s1: "w_store w1 = w_store w" using reads_only_fields(2) [OF authorized_reuse_reads al] .
  show ?thesis
  proof (cases "allowed \<noteq> [] \<or> pr_evidence h = []")
    case True
    with k have an: "?answer allowed w1 = (Inr resp, w')" by auto
    have "keeps_books (?answer allowed)" unfolding reuse_response_def by (intro books_intros)
    from keeps_booksD [OF this an] have "same_books (w_store w') (w_store w)" using s1 by simp
    moreover have "rs_status resp = ''reused'' \<and> rs_new resp = [] \<and> rs_tokens resp = 0"
      using an unfolding reuse_response_def by (elim bindM_InrE) (simp add: validated_Inr)
    ultimately show ?thesis by (simp add: more_post_free)
  next
    case False
    with k s1 show ?thesis by (intro other [of w1]) auto
  qed
qed

lemma request_more_Inr:
  assumes run: "request_more dp req rq w = (Inr resp, w')" and pos: "0 \<le> rm_max_tokens req"
  obtains r s where "get_pack (rm_pack_id req) (w_store w) = Some (r, s)"
    "more_post dp req rq r resp s (w_store w')"
proof -
  from run obtain found w1 where f: "lookup_pack (rm_pack_id req) w = (Inr found, w1)"
    and k: "(case found of None \<Rightarrow> ledgered_error ''context.request_more'' (subject rq)
         (error_defaults\<lparr>ea_query_text := Some (rm_pack_id req)\<rparr>) (''unknown context_pack_id: '' @ rm_pack_id req)
     | Some (r, p) \<Rightarrow> locked_more dp req rq r p) w1 = (Inr resp, w')"
    unfolding request_more_def by (rule bindM_InrE)
  then obtain r p where fp: "found = Some (r, p)" by (cases found) (auto simp: ledgered_error_Inr)
  with f obtain s where g: "get_pack (rm_pack_id req) (w_store w) = Some (r, s)" and w1: "w1 = w\<lparr>w_store := s\<rparr>"
    by (auto simp: lookup_pack_Inr split: option.splits)
  let ?q = "normalize_query (rm_question req)" and ?h = "pk_history (pack_obj s r)"
  from k fp w1 have l: "try_reuse req rq r p (find_exact ?h ?q) True False
      (try_reuse req rq r p (find_semantic ?h ?q (semantic_reuse_threshold (dp_settings dp))) False True
        (fresh_more dp req rq r p)) w1 = (Inr resp, w')"
    by (simp add: locked_more_def Let_def the_pack_def)
  have post: "more_post dp req rq r resp t (w_store w')"
    if "same_view v t" "more_post dp req rq r resp v (w_store w')" for v t
    using that view_books [OF that(1)]
    by (auto simp: more_post_def free_post_def approved_post_same_books
        dest: same_books_trans charged_trans [OF charged_view [OF that(1)]] split: if_splits)
  have fresh: "more_post dp req rq r resp (w_store wa) (w_store w')"
    if "same_view (w_store wb) (w_store wa)" "fresh_more dp req rq r p wb = (Inr resp, w')" for wa wb
    using fresh_more_post [OF that(2) pos] post that(1) by blast
  have "more_post dp req rq r resp (w_store w1) (w_store w')"
    using l
  proof (rule try_reuse_post)
    fix wa assume sv: "same_view (w_store wa) (w_store w1)"
      and t: "try_reuse req rq r p (find_semantic ?h ?q (semantic_reuse_threshold (dp_settings dp))) False True
        (fresh_more dp req rq r p) wa = (Inr resp, w')"
    have "more_post dp req rq r resp (w_store wa) (w_store w')"
      by (rule try_reuse_post [OF t], rule fresh)
    with post [OF sv] show "more_post dp req rq r resp (w_store w1) (w_store w')" by blast
  qed
  with g w1 that show ?thesis by simp
qed

end
