(* ===== verification/OpenEvidence.thy ===== *)
theory OpenEvidence
  imports RequestMore
begin

text \<open>
  \<open>context_broker/evidence.py\<close>: \<open>context.open_evidence\<close>, the only way to raw text. The card
  must be in the pack, the artifact must be visible to the caller at the pack's build, and the
  cost must fit the run budget and the caller's allowance; the text is cut at the token cap.
\<close>

record open_request =
  oe_pack_id :: string
  oe_evidence_id :: string
  oe_max_tokens :: int

record open_response =
  or_evidence_id :: string
  or_level :: string
  or_content :: string
  or_tokens :: int
  or_remaining :: int
  or_source_uri :: "string option"
  or_policy :: string
  or_flagged :: bool
  or_signals :: "string list"

section \<open>Operations\<close>

definition not_available :: "string \<Rightarrow> string" where
  "not_available evidence_id = ''evidence not available: '' @ evidence_id"

definition audit_error :: "open_request \<Rightarrow> requester \<Rightarrow> pack \<Rightarrow> open_response broker" where
  "audit_error req rq p =
     bindM (liftM (opt_or_raise ValueError (parse_uuid (pk_id p)))) (\<lambda>pack_uuid.
     ledgered_error ''context.open_evidence'' (subject rq)
       \<lparr>ea_run_id = pk_run_id p, ea_kb_version = pk_kb_version p, ea_context_pack_id = Some pack_uuid,
        ea_query_text = Some (oe_evidence_id req), ea_details = None\<rparr>
       (not_available (oe_evidence_id req)))"

definition open_event ::
  "open_request \<Rightarrow> requester \<Rightarrow> pack \<Rightarrow> uuid \<Rightarrow> uuid \<Rightarrow> string \<Rightarrow> int \<Rightarrow> bool \<Rightarrow> retrieval_event" where
  "open_event req rq p artifact pack_uuid status tokens_returned is_flagged =
     (event (pk_run_id p) (subject rq) ''context.open_evidence'' status (pk_kb_version p))
       \<lparr>ev_context_pack_id := Some pack_uuid, ev_retrieval_profile := Some (pk_profile p),
        ev_returned := [artifact],
        ev_new := (if status = ''approved'' then [artifact] else []),
        ev_reused := (if status = ''approved'' then [] else [artifact]),
        ev_tokens_returned := tokens_returned,
        ev_details := Some [(''evidence_id'', JStr (oe_evidence_id req)), (''level'', JStr ''L2''),
          (''injection_flagged'', JBool is_flagged), (''tokens'', JInt tokens_returned)]\<rparr>"

definition write_open ::
  "open_request \<Rightarrow> requester \<Rightarrow> pack \<Rightarrow> uuid \<Rightarrow> string \<Rightarrow> int \<Rightarrow> bool \<Rightarrow> unit broker" where
  "write_open req rq p artifact status tokens_returned is_flagged =
     bindM (liftM (opt_or_raise ValueError (parse_uuid (pk_id p)))) (\<lambda>pack_uuid.
     insert_event (open_event req rq p artifact pack_uuid status tokens_returned is_flagged))"

definition run_reason :: "open_request \<Rightarrow> int \<Rightarrow> pack \<Rightarrow> string" where
  "run_reason req cost p = ''run budget exceeded: expanding '' @ oe_evidence_id req @ '' costs ''
     @ int_str cost @ '' tokens but only '' @ int_str (run_remaining_tokens p) @ '' remain''"

definition agent_reason :: "open_request \<Rightarrow> int \<Rightarrow> agent_usage \<Rightarrow> agent_allowance \<Rightarrow> string" where
  "agent_reason req cost u a = ''agent token allowance exceeded: expanding '' @ oe_evidence_id req
     @ '' costs '' @ int_str cost @ '' tokens but '' @ int_str (tokens u) @ '' of ''
     @ int_str (max_tokens a) @ '' are already used''"

definition charge_open ::
  "open_request \<Rightarrow> requester \<Rightarrow> nat \<Rightarrow> pack \<Rightarrow> evidence_card \<Rightarrow> string \<Rightarrow> int \<Rightarrow> open_response broker" where
  "charge_open req rq r p c body cost =
     (let content = take (nat (oe_max_tokens req) * CHARS_PER_TOKEN) body;
          scan = scan_for_injection [content]
      in bindM (charged_write r (subject rq) (charge r (subject rq) cost)
           (write_open req rq p (ec_artifact_id c) ''approved'' cost (flagged scan))) (\<lambda>_.
         bindM (the_pack r) (\<lambda>p'.
         ret \<lparr>or_evidence_id = oe_evidence_id req, or_level = ''L2'', or_content = content,
              or_tokens = cost, or_remaining = run_remaining_tokens p', or_source_uri = ec_source_uri c,
              or_policy = policy_name, or_flagged = flagged scan, or_signals = signals scan\<rparr>)))"

definition locked_open ::
  "deps \<Rightarrow> open_request \<Rightarrow> requester \<Rightarrow> nat \<Rightarrow> pack \<Rightarrow> evidence_card \<Rightarrow> string \<Rightarrow> open_response broker" where
  "locked_open dp req rq r p c body =
     (let cost = min (int (estimate_tokens body)) (oe_max_tokens req);
          allowance = allowance_for (dp_budget dp) (subject rq);
          denied = write_open req rq p (ec_artifact_id c) ''denied'' 0 False
      in bindM (the_pack r) (\<lambda>p1.
         if cost > run_remaining_tokens p1
         then bindM denied (\<lambda>_. bindM (the_pack r) (\<lambda>p2. raise (LedgeredToolError (run_reason req cost p2))))
         else bindM (store_op (usage_for r (subject rq))) (\<lambda>u.
           if tokens u + cost > max_tokens allowance
           then bindM denied (\<lambda>_. bindM (getM (\<lambda>w. usage_at (w_store w) r (subject rq))) (\<lambda>u2.
                  raise (LedgeredToolError (agent_reason req cost u2 allowance))))
           else charge_open req rq r p c body cost)))"

definition open_in ::
  "deps \<Rightarrow> open_request \<Rightarrow> requester \<Rightarrow> nat \<Rightarrow> pack \<Rightarrow> open_response broker" where
  "open_in dp req rq r p =
     (case map_of (pk_cards p) (oe_evidence_id req) of
        None \<Rightarrow> audit_error req rq p
      | Some c \<Rightarrow>
          bindM (db_get (\<lambda>d. fetch_artifacts d [ec_artifact_id c] (pk_build_seq p))) (\<lambda>artifact_rows.
          case filter_artifacts rq artifact_rows of
            [] \<Rightarrow> audit_error req rq p
          | a # _ \<Rightarrow> locked_open dp req rq r p c (str_or (ar_body a) [])))"

definition open_evidence :: "deps \<Rightarrow> open_request \<Rightarrow> requester \<Rightarrow> open_response broker" where
  "open_evidence dp req rq =
     bindM (lookup_pack (oe_pack_id req)) (\<lambda>found. case found of
       None \<Rightarrow> ledgered_error ''context.open_evidence'' (subject rq)
         (error_defaults\<lparr>ea_query_text := Some (oe_pack_id req)\<rparr>)
         (''unknown context_pack_id: '' @ oe_pack_id req)
     | Some (r, p) \<Rightarrow> open_in dp req rq r p)"

section \<open>The ledger discipline and the refund\<close>

lemma write_open_one_row [ledger_intros]: "one_row (write_open req rq p a st n b)"
  unfolding write_open_def
  by (intro one_row_liftM_bindM one_row_insert_event) (simp_all add: opt_or_raise_quiet)

lemma write_open_fixed [simp]: "store_fixed (write_open req rq p a st n b)"
  by (simp add: write_open_def)

lemma write_open_books [books_intros]: "keeps_books (write_open req rq p a st n b)"
  unfolding write_open_def by (intro books_intros)

lemma audit_error_one_row [ledger_intros]: "one_row (audit_error req rq p)"
  unfolding audit_error_def
  by (intro one_row_liftM_bindM one_row_ledgered_error) (simp_all add: opt_or_raise_quiet)

lemma audit_error_books [books_intros]: "keeps_books (audit_error req rq p)"
  unfolding audit_error_def by (intro books_intros)

lemma charge_store_ok: "store_ok s \<Longrightarrow> store_ok (charge r subj n s)"
  by (rule charged_store_ok [OF charged_charge]) (simp_all add: store_ok_def)

lemma charge_open_one_row: "one_row (charge_open req rq r p c body cost)"
  unfolding charge_open_def Let_def
  by (intro one_row_silent charged_write_one_row write_open_one_row charge_store_ok silent_bindM silent_ret)
    (simp_all add: the_pack_def silent_getM)

lemma locked_open_one_row: "one_row (locked_open dp req rq r p c body)"
proof -
  have u: "store_ok s \<Longrightarrow> store_ok (snd (usage_for r (subject rq) s))" for s
    by (rule store_ok_same [OF usage_for_view])
  show ?thesis
    unfolding locked_open_def Let_def
    by (intro one_row_bindM [OF reads_quiet [OF reads_the_pack]] one_row_if
        one_row_bindM [OF silent_quiet [OF silent_store_op [OF u]]] charge_open_one_row
        one_row_marker [OF write_open_one_row]) (simp_all add: the_pack_def marks_def op_defs bindM_def)
qed

lemma open_evidence_one_row [ledger_intros]: "one_row (open_evidence dp req rq)"
proof -
  have oi: "one_row (open_in dp req rq r p)" for r p
    unfolding open_in_def
    by (auto intro!: one_row_bindM [OF reads_quiet [OF reads_db_get]] locked_open_one_row audit_error_one_row
        split: option.splits list.splits)
  show ?thesis
    unfolding open_evidence_def
  proof (rule one_row_bindM [OF silent_quiet [OF silent_lookup_pack]])
    fix found :: "(nat \<times> pack) option"
    show "one_row (case found of None \<Rightarrow> ledgered_error ''context.open_evidence'' (subject rq)
         (error_defaults\<lparr>ea_query_text := Some (oe_pack_id req)\<rparr>) (''unknown context_pack_id: '' @ oe_pack_id req)
       | Some (r, p) \<Rightarrow> open_in dp req rq r p)"
      by (cases found) (auto simp: oi intro: one_row_ledgered_error)
  qed
qed

lemma locked_open_safe: "books_safe (locked_open dp req rq r p c body)"
  unfolding locked_open_def charge_open_def Let_def
  by (intro safe_bindM [OF books_basic(5)] safe_if safe_bindM [OF books_usage_for] keeps_books_safe
      [OF books_bindM [OF write_open_books]] safe_never_fails charged_write_safe charged_charge write_open_fixed
      never_fails_the_pack never_fails_simps books_bindM books_basic)

lemma open_evidence_safe: "books_safe (open_evidence dp req rq)"
proof -
  have oi: "books_safe (open_in dp req rq r p)" for r p
    unfolding open_in_def
    by (auto intro!: safe_bindM [OF reads_books [OF reads_db_get]] locked_open_safe
        keeps_books_safe [OF audit_error_books] split: option.splits list.splits)
  show ?thesis
    unfolding open_evidence_def
  proof (rule safe_bindM [OF books_lookup_pack])
    fix found :: "(nat \<times> pack) option"
    show "books_safe (case found of None \<Rightarrow> ledgered_error ''context.open_evidence'' (subject rq)
         (error_defaults\<lparr>ea_query_text := Some (oe_pack_id req)\<rparr>) (''unknown context_pack_id: '' @ oe_pack_id req)
       | Some (r, p) \<Rightarrow> open_in dp req rq r p)"
      by (cases found) (auto simp: oi intro: keeps_books_safe [OF books_ledgered_error])
  qed
qed

section \<open>What an expansion returns and costs\<close>

text \<open>The content is the cut body, exactly what was charged fits both budgets, nothing else moves.\<close>

definition open_post ::
  "deps \<Rightarrow> open_request \<Rightarrow> requester \<Rightarrow> nat \<Rightarrow> string \<Rightarrow> open_response \<Rightarrow> pack_store \<Rightarrow> pack_store \<Rightarrow> bool" where
  "open_post dp req rq r body resp s s' \<longleftrightarrow>
     or_content resp = take (nat (oe_max_tokens req) * CHARS_PER_TOKEN) body
     \<and> or_tokens resp = min (int (estimate_tokens body)) (oe_max_tokens req)
     \<and> or_tokens resp \<le> run_remaining_tokens (pack_obj s r)
     \<and> tokens (usage_at s r (subject rq)) + or_tokens resp \<le> max_tokens (allowance_for (dp_budget dp) (subject rq))
     \<and> pk_used (pack_obj s' r) = pk_used (pack_obj s r) + or_tokens resp
     \<and> usage_at s' r (subject rq) = (usage_at s r (subject rq))
         \<lparr>tokens := tokens (usage_at s r (subject rq)) + or_tokens resp\<rparr>
     \<and> charged_change r (subject rq) s s'"

lemma charge_open_Inr:
  assumes "charge_open req rq r p c body cost w = (Inr resp, w')"
  shows "or_content resp = take (nat (oe_max_tokens req) * CHARS_PER_TOKEN) body" "or_tokens resp = cost"
    "w_store w' = charge r (subject rq) cost (snd (snapshot r (subject rq) (w_store w)))"
proof -
  let ?content = "take (nat (oe_max_tokens req) * CHARS_PER_TOKEN) body"
  from assms obtain x w1 where cw: "charged_write r (subject rq) (charge r (subject rq) cost)
      (write_open req rq p (ec_artifact_id c) ''approved'' cost (flagged (scan_for_injection [?content]))) w = (Inr x, w1)"
    and k: "resp = \<lparr>or_evidence_id = oe_evidence_id req, or_level = ''L2'', or_content = ?content,
              or_tokens = cost, or_remaining = run_remaining_tokens (pack_obj (w_store w1) r),
              or_source_uri = ec_source_uri c, or_policy = policy_name,
              or_flagged = flagged (scan_for_injection [?content]),
              or_signals = signals (scan_for_injection [?content])\<rparr> \<and> w' = w1"
    unfolding charge_open_def Let_def by (elim bindM_InrE) (simp add: the_pack_Inr ret_iff)
  from charged_write_Inr(1) [OF cw] k
  show "or_content resp = ?content" "or_tokens resp = cost"
    "w_store w' = charge r (subject rq) cost (snd (snapshot r (subject rq) (w_store w)))" by simp_all
qed

lemma marks_not_Inr: "marks m \<Longrightarrow> m w \<noteq> (Inr x, w')"
  unfolding marks_def by (metis old.sum.distinct(1) prod.inject)

lemma bindM_marks_not_Inr: "(\<And>x. marks (f x)) \<Longrightarrow> bindM m f w \<noteq> (Inr y, w')"
  by (auto simp: bindM_Inr_iff marks_not_Inr)

lemma locked_open_Inr:
  assumes run: "locked_open dp req rq r p c body w = (Inr resp, w')"
  shows "open_post dp req rq r body resp (w_store w) (w_store w')"
proof -
  define cost where "cost = min (int (estimate_tokens body)) (oe_max_tokens req)"
  let ?a = "allowance_for (dp_budget dp) (subject rq)"
  let ?den = "write_open req rq p (ec_artifact_id c) ''denied'' 0 False"
  let ?k = "bindM (store_op (usage_for r (subject rq))) (\<lambda>u.
           if tokens u + cost > max_tokens ?a
           then bindM ?den (\<lambda>_. bindM (getM (\<lambda>w. usage_at (w_store w) r (subject rq))) (\<lambda>u2.
                  raise (LedgeredToolError (agent_reason req cost u2 ?a))))
           else charge_open req rq r p c body cost)"
  have m1: "marks (bindM (the_pack r) (\<lambda>p2. raise (LedgeredToolError (run_reason req cost p2))))"
    and m2: "marks (bindM (getM (\<lambda>w. usage_at (w_store w) r (subject rq))) (\<lambda>u2.
                  raise (LedgeredToolError (agent_reason req cost u2 ?a))))"
    by (simp_all add: marks_def the_pack_def op_defs bindM_def)
  have run': "(if cost > run_remaining_tokens (pack_obj (w_store w) r)
      then bindM ?den (\<lambda>_. bindM (the_pack r) (\<lambda>p2. raise (LedgeredToolError (run_reason req cost p2))))
      else ?k) w = (Inr resp, w')"
    using run unfolding locked_open_def Let_def cost_def [symmetric] by (simp only: the_pack_bind)
  then have fits: "cost \<le> run_remaining_tokens (pack_obj (w_store w) r)"
    by (rule_tac ccontr) (simp add: not_le bindM_marks_not_Inr [OF m1])
  with run' have k: "?k w = (Inr resp, w')" by auto
  obtain u w1 where u: "store_op (usage_for r (subject rq)) w = (Inr u, w1)"
    and k1: "(if tokens u + cost > max_tokens ?a
           then bindM ?den (\<lambda>_. bindM (getM (\<lambda>w. usage_at (w_store w) r (subject rq))) (\<lambda>u2.
                  raise (LedgeredToolError (agent_reason req cost u2 ?a))))
           else charge_open req rq r p c body cost) w1 = (Inr resp, w')"
    using k by (rule bindM_InrE)
  have allow: "tokens u + cost \<le> max_tokens ?a"
    using k1 by (rule_tac ccontr) (simp add: not_le bindM_marks_not_Inr [OF m2])
  with k1 have ch: "charge_open req rq r p c body cost w1 = (Inr resp, w')" by auto
  note uf = usage_for_store_op [OF u]
  let ?s2 = "snd (snapshot r (subject rq) (w_store w1))"
  have sv: "same_view ?s2 (w_store w)" using same_view_trans [OF snapshot_view] uf by blast
  then have eqs: "pack_obj ?s2 = pack_obj (w_store w)" "usage_at ?s2 r (subject rq) = usage_at (w_store w) r (subject rq)"
    by (simp_all add: same_view_def)
  have "charged_change r (subject rq) (w_store w) (w_store w')"
    unfolding charge_open_Inr(3) [OF ch] by (rule charged_trans [OF charged_view [OF sv] charged_charge])
  with fits allow uf show ?thesis
    by (simp add: open_post_def charge_open_Inr [OF ch] eqs cost_def)
qed

lemma audit_error_not_Inr: "audit_error req rq p w \<noteq> (Inr x, w')"
  by (simp add: audit_error_def bindM_Inr_iff ledgered_error_Inr)

lemma open_evidence_Inr:
  assumes run: "open_evidence dp req rq w = (Inr resp, w')"
  obtains r s c row where "get_pack (oe_pack_id req) (w_store w) = Some (r, s)"
    "map_of (pk_cards (pack_obj s r)) (oe_evidence_id req) = Some c"
    "row \<in> set (fetch_artifacts (w_db w) [ec_artifact_id c] (pk_build_seq (pack_obj s r)))"
    "acl_admits rq (ar_acl row)" "ar_id row = ec_artifact_id c"
    "open_post dp req rq r (str_or (ar_body row) []) resp s (w_store w')"
proof -
  from run obtain found w1 where f: "lookup_pack (oe_pack_id req) w = (Inr found, w1)"
    and k: "(case found of None \<Rightarrow> ledgered_error ''context.open_evidence'' (subject rq)
         (error_defaults\<lparr>ea_query_text := Some (oe_pack_id req)\<rparr>) (''unknown context_pack_id: '' @ oe_pack_id req)
     | Some (r, p) \<Rightarrow> open_in dp req rq r p) w1 = (Inr resp, w')"
    unfolding open_evidence_def by (rule bindM_InrE)
  then obtain r p where fp: "found = Some (r, p)" by (cases found) (auto simp: ledgered_error_Inr)
  with f obtain s where g: "get_pack (oe_pack_id req) (w_store w) = Some (r, s)"
    and w1: "w1 = w\<lparr>w_store := s\<rparr>" and p: "p = pack_obj s r"
    by (auto simp: lookup_pack_Inr split: option.splits)
  from k fp have o: "open_in dp req rq r p w1 = (Inr resp, w')" by simp
  then obtain c where c: "map_of (pk_cards p) (oe_evidence_id req) = Some c"
    by (cases "map_of (pk_cards p) (oe_evidence_id req)") (auto simp: open_in_def audit_error_not_Inr)
  let ?rows = "fetch_artifacts (w_db w) [ec_artifact_id c] (pk_build_seq p)"
  from o c obtain artifact_rows w2 where d: "db_get (\<lambda>d. fetch_artifacts d [ec_artifact_id c] (pk_build_seq p)) w1 = (Inr artifact_rows, w2)"
    and l: "(case filter_artifacts rq artifact_rows of [] \<Rightarrow> audit_error req rq p
          | a # _ \<Rightarrow> locked_open dp req rq r p c (str_or (ar_body a) [])) w2 = (Inr resp, w')"
    unfolding open_in_def by (auto elim: bindM_InrE)
  have ar: "artifact_rows = ?rows" and s2: "w_store w2 = s"
    using d w1 by (auto simp: db_get_Inr)
  from l obtain row rest where fr: "filter_artifacts rq ?rows = row # rest"
    unfolding ar by (cases "filter_artifacts rq ?rows") (auto simp: audit_error_not_Inr)
  then have row: "row \<in> set ?rows" "acl_admits rq (ar_acl row)"
    using team_acl.flt_iff [of row rq ?rows] by auto
  have "locked_open dp req rq r p c (str_or (ar_body row) []) w2 = (Inr resp, w')" using l ar fr by simp
  from locked_open_Inr [OF this] have "open_post dp req rq r (str_or (ar_body row) []) resp s (w_store w')"
    using s2 by simp
  moreover have "ar_id row = ec_artifact_id c" using fetch_artifacts_id [OF row(1)] by simp
  ultimately show ?thesis using that g c row p by blast
qed

end
