(* ===== verification/Expand.thy ===== *)
theory Expand
  imports Traverse OpenEvidence
begin

text \<open>
  \<open>context_broker/expand.py\<close>: the breadth-first expansion from seeds, the backbone tier and
  then the inferred tier, the selection of cards under the budget and the card cap, and the
  charge. The search is a function of the world with a termination proof: every round marks a
  new end of an edge as visited. The code plans outside the pack's lock and commits inside it;
  the model keeps the two stages apart.
\<close>

section \<open>The search\<close>

definition edge_ends :: "registry \<Rightarrow> uuid set" where
  "edge_ends r = ke_from ` set (edges r) \<union> ke_to ` set (edges r)"

lemma finite_edge_ends [simp]: "finite (edge_ends r)"
  by (simp add: edge_ends_def)

lemma fetched_ends:
  "e \<in> set (fetch_edges_touching r ids seq ts) \<Longrightarrow> joins e u v \<Longrightarrow> v \<in> edge_ends r"
  by (auto simp: in_fetch_edges joins_def edge_row_of_def edge_ends_def)

function bfs_tier ::
  "requester \<Rightarrow> int \<Rightarrow> string \<Rightarrow> bool \<Rightarrow> uuid list \<Rightarrow> uuid set \<Rightarrow> (artifact_row list \<times> uuid set) broker" where
  "bfs_tier rq build_seq trust_floor include_inferred frontier visited w =
     (if frontier = [] then (Inr ([], visited), w)
      else case db_get (\<lambda>d. fetch_edges_touching d frontier build_seq None) w of
        (Inl e, w1) \<Rightarrow> (Inl e, w1)
      | (Inr edge_rows, w1) \<Rightarrow>
         (let hops = scan_edges trust_floor include_inferred (set frontier) visited edge_rows;
              neighbor_ids = map he_neighbor (fst hops)
          in if neighbor_ids = [] then (Inr ([], snd hops), w1)
             else case db_get (\<lambda>d. fetch_artifacts d neighbor_ids build_seq) w1 of
               (Inl e, w2) \<Rightarrow> (Inl e, w2)
             | (Inr artifact_rows, w2) \<Rightarrow>
                (let allowed_by_id = rows_by_id (filter_artifacts rq artifact_rows);
                     found = List.map_filter (map_of allowed_by_id) neighbor_ids;
                     next_frontier = filter (\<lambda>u. map_of allowed_by_id u \<noteq> None) neighbor_ids
                 in case bfs_tier rq build_seq trust_floor include_inferred next_frontier (snd hops) w2 of
                      (Inl e, w3) \<Rightarrow> (Inl e, w3)
                    | (Inr (deeper, v), w3) \<Rightarrow> (Inr (found @ deeper, v), w3))))"
  by pat_completeness auto

termination bfs_tier
proof (relation "measure (\<lambda>(rq, seq, fl, inc, F, V, w). card (edge_ends (w_db w) - V))", goal_cases)
  case (2 rq seq fl inc F V w r1 w1 edge_rows hops neighbor_ids r2 w2 artifact_rows by_id found nxt)
  have e: "edge_rows = fetch_edges_touching (w_db w) F seq None" "w_db w1 = w_db w"
    using 2(2) [symmetric] 2(3) by (simp_all add: db_get_Inr)
  have d2: "w_db w2 = w_db w" using 2(7) [symmetric] 2(8) e(2) by (simp add: db_get_Inr)
  obtain h where h: "h \<in> set (fst hops)" using 2(5,6) by (cases "fst hops") auto
  note ok = scan_edges_hop_ok [of h fl inc "set F" V edge_rows] 2(4) h
  then have "he_neighbor h \<in> edge_ends (w_db w)" "he_neighbor h \<notin> V"
    using fetched_ends [of "he_edge h" "w_db w" F seq None] e(1) by (auto simp: hop_ok_def)
  moreover have "V \<subseteq> snd hops" "he_neighbor h \<in> snd hops"
    using scan_edges_visited [of fl inc "set F" V edge_rows] 2(4) h by auto
  ultimately have "edge_ends (w_db w) - snd hops \<subset> edge_ends (w_db w) - V" by blast
  then show ?case using d2 by (simp add: psubset_card_mono)
qed simp

declare bfs_tier.simps [simp del]

section \<open>Plan and commit\<close>

definition MAX_EXPAND_CARDS :: nat where
  "MAX_EXPAND_CARDS = 30"

record expand_request =
  ex_seeds :: "uuid list"
  ex_floor :: string
  ex_inferred :: bool
  ex_budget :: int
  ex_pack_id :: "string option"

record expand_response =
  er_cards :: "evidence_card list"
  er_tokens :: int
  er_truncated :: bool
  er_policy :: string

text \<open>What is known when the planning is over.\<close>

record expand_plan =
  pl_version :: active_version
  pl_pack :: "(nat \<times> pack) option"
  pl_cards :: "evidence_card list"
  pl_tokens :: int
  pl_truncated :: bool
  pl_inferred_rows :: "artifact_row list"

fun select_cards ::
  "deps \<Rightarrow> int \<Rightarrow> evidence_card list \<Rightarrow> int \<Rightarrow> artifact_row list \<Rightarrow> exn + evidence_card list \<times> int \<times> bool" where
  "select_cards dp budget cards n [] = Inr (cards, n, False)"
| "select_cards dp budget cards n (row # ordered) =
     (if MAX_EXPAND_CARDS \<le> length cards then Inr (cards, n, True)
      else case build_card row None of
             Inl e \<Rightarrow> Inl e
           | Inr c \<Rightarrow> (if n + card_tokens dp c > budget then Inr (cards, n, True)
               else select_cards dp budget (cards @ [c]) (n + card_tokens dp c) ordered))"

text \<open>\<open>min(request, server ceiling)\<close>, and the pack's remaining tokens when a pack is given.\<close>

definition effective_budget :: "deps \<Rightarrow> expand_request \<Rightarrow> (nat \<times> pack) option \<Rightarrow> int" where
  "effective_budget dp req found =
     (let b = min (ex_budget req) (max_run_budget_tokens (dp_settings dp))
      in case found of None \<Rightarrow> b | Some (r, p) \<Rightarrow> min b (run_remaining_tokens p))"

definition pack_artifact_ids :: "(nat \<times> pack) option \<Rightarrow> uuid set" where
  "pack_artifact_ids found = (case found of None \<Rightarrow> {}
     | Some (r, p) \<Rightarrow> set (map (ec_artifact_id \<circ> snd) (pk_cards p)))"

definition resolve_pack :: "expand_request \<Rightarrow> requester \<Rightarrow> (nat \<times> pack) option broker" where
  "resolve_pack req rq =
     (case ex_pack_id req of None \<Rightarrow> ret None
      | Some pid \<Rightarrow> bindM (lookup_pack pid) (\<lambda>found. case found of
          None \<Rightarrow> ledgered_error ''context.expand'' (subject rq)
            (error_defaults\<lparr>ea_query_text := Some pid\<rparr>) (''unknown context_pack_id: '' @ pid)
        | Some rp \<Rightarrow> ret (Some rp)))"

text \<open>Both tiers: the backbone from the visible seeds, then the inferred tier from all of it.\<close>

definition search_tiers ::
  "expand_request \<Rightarrow> requester \<Rightarrow> int \<Rightarrow> uuid list \<Rightarrow> (artifact_row list \<times> artifact_row list) broker" where
  "search_tiers req rq build_seq seeds =
     bindM (bfs_tier rq build_seq (ex_floor req) False seeds (set (ex_seeds req))) (\<lambda>(extracted, visited).
     if \<not> ex_inferred req then ret (extracted, [])
     else bindM (bfs_tier rq build_seq (ex_floor req) True (seeds @ map ar_id extracted) visited) (\<lambda>(inferred, _).
          ret (extracted, inferred)))"

definition plan_expand ::
  "deps \<Rightarrow> expand_request \<Rightarrow> requester \<Rightarrow> active_version \<Rightarrow> (nat \<times> pack) option \<Rightarrow> expand_plan broker" where
  "plan_expand dp req rq v found =
     bindM (db_get (\<lambda>d. fetch_artifacts d (ex_seeds req) (av_build_seq v))) (\<lambda>seed_rows_all.
     let seed_rows = filter_artifacts rq seed_rows_all;
         seeds = map fst (rows_by_id seed_rows)
     in bindM (search_tiers req rq (av_build_seq v) seeds) (\<lambda>(extracted, inferred).
        let ordered = filter (\<lambda>row. ar_id row \<notin> pack_artifact_ids found) (seed_rows @ extracted @ inferred)
        in bindM (liftM (select_cards dp (effective_budget dp req found) [] 0 ordered)) (\<lambda>(cards, n, truncated).
           ret \<lparr>pl_version = v, pl_pack = found, pl_cards = cards, pl_tokens = n,
                pl_truncated = truncated, pl_inferred_rows = inferred\<rparr>)))"

definition expand_event ::
  "expand_request \<Rightarrow> requester \<Rightarrow> expand_plan \<Rightarrow> uuid option \<Rightarrow> uuid list \<Rightarrow> retrieval_event" where
  "expand_event req rq pl pack_uuid new_ids =
     (event (case pl_pack pl of None \<Rightarrow> NO_RUN_SENTINEL | Some (r, p) \<Rightarrow> pk_run_id p) (subject rq)
        ''context.expand'' ''approved'' (av_kb_version (pl_version pl)))
       \<lparr>ev_context_pack_id := pack_uuid,
        ev_query_text := Some (py_join '','' (map uuid_str (ex_seeds req))),
        ev_returned := map ec_artifact_id (pl_cards pl), ev_new := new_ids,
        ev_tokens_returned := pl_tokens pl,
        ev_details := Some [(''seed_artifact_ids'', JArr (map (JStr \<circ> uuid_str) (ex_seeds req))),
          (''tiers'', JArr (JStr ''EXTRACTED'' #
             (if ex_inferred req \<and> pl_inferred_rows pl \<noteq> [] then [JStr ''INFERRED''] else []))),
          (''cards_added'', JInt (int (length (pl_cards pl)))), (''truncated'', JBool (pl_truncated pl)),
          (''tokens'', JInt (pl_tokens pl))]\<rparr>"

definition write_expand :: "expand_request \<Rightarrow> requester \<Rightarrow> expand_plan \<Rightarrow> uuid option \<Rightarrow> unit broker" where
  "write_expand req rq pl pack_uuid =
     bindM (liftM (parse_uuids (map ec_evidence_id (pl_cards pl)))) (\<lambda>new_ids.
     insert_event (expand_event req rq pl pack_uuid new_ids))"

definition commit_cards :: "nat \<Rightarrow> string \<Rightarrow> int \<Rightarrow> evidence_card list \<Rightarrow> pack_store \<Rightarrow> pack_store" where
  "commit_cards r subj n cards s = register_cards r cards (charge r subj n s)"

definition commit_expand :: "expand_request \<Rightarrow> requester \<Rightarrow> expand_plan \<Rightarrow> expand_response broker" where
  "commit_expand req rq pl =
     (let resp = \<lparr>er_cards = pl_cards pl, er_tokens = pl_tokens pl, er_truncated = pl_truncated pl,
                  er_policy = policy_name\<rparr>
      in case pl_pack pl of
           None \<Rightarrow> bindM (write_expand req rq pl None) (\<lambda>_. ret resp)
         | Some (r, p) \<Rightarrow>
             bindM (liftM (opt_or_raise ValueError (parse_uuid (pk_id p)))) (\<lambda>pack_uuid.
             bindM (charged_write r (subject rq) (commit_cards r (subject rq) (pl_tokens pl) (pl_cards pl))
               (write_expand req rq pl (Some pack_uuid))) (\<lambda>_. ret resp)))"

definition expand :: "deps \<Rightarrow> expand_request \<Rightarrow> requester \<Rightarrow> expand_response broker" where
  "expand dp req rq =
     bindM (db_read fetch_active_version) (\<lambda>active. case active of
       None \<Rightarrow> ledgered_error ''context.expand'' (subject rq)
         (error_defaults\<lparr>ea_query_text := Some (''['' @ py_join '', ''
            (map (\<lambda>u. ''UUID('' @ [CHR 0x27] @ uuid_str u @ [CHR 0x27] @ '')'') (ex_seeds req)) @ '']'')\<rparr>)
         MSG_NO_ACTIVE_VERSION
     | Some v \<Rightarrow> bindM (resolve_pack req rq) (\<lambda>found.
         bindM (plan_expand dp req rq v found) (commit_expand req rq)))"

section \<open>The search finds exactly what is reachable\<close>

lemma map_filter_found:
  assumes "distinct ids" and "\<And>u a. f u = Some a \<Longrightarrow> g a = u"
  shows "map g (List.map_filter f ids) = filter (\<lambda>u. f u \<noteq> None) ids"
  using assms(1) by (induction ids) (auto simp: List.map_filter_simps assms(2) split: option.splits)

lemma bfs_tier_round:
  assumes "bfs_tier rq seq fl inc F V w = (Inr (out, V'), w')" and "F \<noteq> []"
  obtains (stop) "fst (scan_edges fl inc (set F) V (fetch_edges_touching (w_db w) F seq None)) = []" "out = []"
      "V' = snd (scan_edges fl inc (set F) V (fetch_edges_touching (w_db w) F seq None))" "w' = w\<lparr>w_faults := w_faults w'\<rparr>"
  | (go) hops ids by_id deeper w1 w2 where
      "hops = scan_edges fl inc (set F) V (fetch_edges_touching (w_db w) F seq None)"
      "ids = map he_neighbor (fst hops)"
      "by_id = rows_by_id (filter_artifacts rq (fetch_artifacts (w_db w) ids seq))"
      "db_get (\<lambda>d. fetch_edges_touching d F seq None) w = (Inr (fetch_edges_touching (w_db w) F seq None), w1)"
      "db_get (\<lambda>d. fetch_artifacts d ids seq) w1 = (Inr (fetch_artifacts (w_db w) ids seq), w2)"
      "w2 = w\<lparr>w_faults := w_faults w2\<rparr>" "ids \<noteq> []"
      "bfs_tier rq seq fl inc (filter (\<lambda>u. map_of by_id u \<noteq> None) ids) (snd hops) w2 = (Inr (deeper, V'), w')"
      "out = List.map_filter (map_of by_id) ids @ deeper"
proof -
  obtain r1 w1 where d1: "db_get (\<lambda>d. fetch_edges_touching d F seq None) w = (r1, w1)" by (meson surj_pair)
  with assms obtain es where r1: "r1 = Inr es"
    by (subst (asm) bfs_tier.simps) (cases r1; simp)
  then have es: "es = fetch_edges_touching (w_db w) F seq None" and w1: "w1 = w\<lparr>w_faults := tl (w_faults w)\<rparr>"
    using d1 by (simp_all add: db_get_Inr)
  define hops where "hops = scan_edges fl inc (set F) V es"
  define ids where "ids = map he_neighbor (fst hops)"
  show ?thesis
  proof (cases "ids = []")
    case True
    with assms d1 r1 have "out = []" "w' = w1" "V' = snd hops"
      by (subst (asm) bfs_tier.simps, simp add: Let_def hops_def ids_def)+
    with True w1 es show ?thesis by (intro stop) (simp_all add: ids_def hops_def)
  next
    case False
    obtain r2 w2 where d2: "db_get (\<lambda>d. fetch_artifacts d ids seq) w1 = (r2, w2)" by (meson surj_pair)
    define k :: "artifact_row list \<Rightarrow> (artifact_row list \<times> uuid set) broker" where "k = (\<lambda>as w. let by_id = rows_by_id (filter_artifacts rq as);
        found = List.map_filter (map_of by_id) ids; nxt = filter (\<lambda>u. map_of by_id u \<noteq> None) ids
      in case bfs_tier rq seq fl inc nxt (snd hops) w of (Inl e, w3) \<Rightarrow> (Inl e, w3)
         | (Inr (deeper, v), w3) \<Rightarrow> (Inr (found @ deeper, v), w3))"
    have run: "(case (r2, w2) of (Inl e, w2) \<Rightarrow> (Inl e, w2) | (Inr as, w2) \<Rightarrow> k as w2) = (Inr (out, V'), w')"
      using assms d1 r1 d2 False
      by (subst (asm) bfs_tier.simps) (cases r2; simp add: Let_def hops_def ids_def k_def)
    then obtain as where r2: "r2 = Inr as" by (cases r2) auto
    have as: "as = fetch_artifacts (w_db w) ids seq" and w2: "w2 = w1\<lparr>w_faults := tl (w_faults w1)\<rparr>"
      using d2 r2 w1 by (simp_all add: db_get_Inr)
    from run r2 have kk: "k as w2 = (Inr (out, V'), w')" by simp
    then obtain deeper where
      "bfs_tier rq seq fl inc (filter (\<lambda>u. map_of (rows_by_id (filter_artifacts rq as)) u \<noteq> None) ids) (snd hops) w2
        = (Inr (deeper, V'), w')"
      "out = List.map_filter (map_of (rows_by_id (filter_artifacts rq as))) ids @ deeper"
      unfolding k_def Let_def by (auto split: prod.splits sum.splits)
    with False d1 d2 r1 r2 es as w1 w2 show ?thesis
      by (intro go [OF hops_def [unfolded es] ids_def refl]) (simp_all add: hops_def ids_def)
  qed
qed

lemma bfs_tier_spec:
  "bfs_tier rq seq fl inc F V w = (Inr (out, V'), w') \<Longrightarrow> set F \<subseteq> V \<Longrightarrow>
   ar_id ` set out = {v. reachable (graph_step (w_db w) seq None fl inc) (visible (w_db w) seq rq) (set F) V v \<and> v \<notin> V}
   \<and> distinct (map ar_id out)
   \<and> (\<forall>row \<in> set out. row \<in> set (fetch_artifacts (w_db w) [ar_id row] seq) \<and> acl_admits rq (ar_acl row))
   \<and> V \<union> ar_id ` set out \<subseteq> V'
   \<and> (\<forall>v \<in> V'. v \<in> V \<or> v \<in> ar_id ` set out \<or> \<not> visible (w_db w) seq rq v)
   \<and> w' = w\<lparr>w_faults := w_faults w'\<rparr>"
proof (induction "card (edge_ends (w_db w) - V)" arbitrary: F V w out V' w' rule: less_induct)
  case less
  let ?step = "graph_step (w_db w) seq None fl inc" and ?vis = "visible (w_db w) seq rq"
  show ?case
  proof (cases "F = []")
    case True
    with less.prems have "out = [] \<and> w' = w \<and> V' = V" by (subst (asm) bfs_tier.simps) auto
    with True show ?thesis by (simp add: not_reachable_empty)
  next
    case False
    define es where "es = fetch_edges_touching (w_db w) F seq None"
    define N where "N = {v. v \<notin> V \<and> (\<exists>u \<in> set F. ?step u v)}"
    have N: "he_neighbor ` set (fst (scan_edges fl inc (set F) V es)) = N"
      unfolding scan_edges_neighbors [OF less.prems(2)] N_def es_def edges_hop by simp
    have hop: "{v. reachable ?step ?vis (set F) V v \<and> v \<notin> V} =
        {v \<in> N. ?vis v} \<union> {v. reachable ?step ?vis {v \<in> N. ?vis v} (V \<union> N) v \<and> v \<notin> V \<union> N}"
      unfolding N_def by (rule reachable_hop [OF less.prems(2)])
    from less.prems(1) False show ?thesis
    proof (cases rule: bfs_tier_round)
      case stop
      then have "N = {}" using N es_def by auto
      moreover have "V' = V" using stop scan_edges_visited [of fl inc "set F" V es] by (simp add: es_def)
      ultimately show ?thesis using hop stop by (simp add: not_reachable_empty)
    next
      case (go hops ids by_id deeper w1 w2)
      have sids: "set ids = N" and V2: "snd hops = V \<union> N" and dids: "distinct ids"
        using N scan_edges_visited [of fl inc "set F" V es] scan_edges_distinct [of fl inc "set F" V es]
        by (auto simp: go(1,2) es_def)
      have db2: "w_db w2 = w_db w" using arg_cong [OF go(6), of w_db] by simp
      have byid: "map_of by_id u = Some a \<Longrightarrow> ar_id a = u" for u a
        unfolding go(3) using rows_by_id_Some by blast
      have vis: "map_of by_id u \<noteq> None \<longleftrightarrow> ?vis u" if "u \<in> set ids" for u
        unfolding go(3) using allowed_visible that by blast
      let ?nxt = "filter (\<lambda>u. map_of by_id u \<noteq> None) ids"
      let ?found = "List.map_filter (map_of by_id) ids"
      have nxt: "set ?nxt = {v \<in> N. ?vis v}" using vis sids by auto
      have fids: "map ar_id ?found = ?nxt" using dids byid by (rule map_filter_found)
      have "N \<noteq> {}" "N \<subseteq> edge_ends (w_db w)" "N \<inter> V = {}"
        using go(7) sids fetched_ends unfolding N_def graph_step_def by fastforce+
      then have c: "card (edge_ends (w_db w2) - (V \<union> N)) < card (edge_ends (w_db w) - V)"
        unfolding db2 by (intro psubset_card_mono) auto
      have sb: "set ?nxt \<subseteq> V \<union> N" using nxt by auto
      note IH0 = less.hyps [OF c go(8) [unfolded V2] sb, unfolded db2 nxt]
      have IH: "ar_id ` set deeper = {v. reachable ?step ?vis {v \<in> N. ?vis v} (V \<union> N) v \<and> v \<notin> V \<union> N}"
        "distinct (map ar_id deeper)"
        "\<forall>row \<in> set deeper. row \<in> set (fetch_artifacts (w_db w) [ar_id row] seq) \<and> acl_admits rq (ar_acl row)"
        "w' = w2\<lparr>w_faults := w_faults w'\<rparr>"
        "V \<union> N \<union> ar_id ` set deeper \<subseteq> V'" "\<forall>v \<in> V'. v \<in> V \<union> N \<or> v \<in> ar_id ` set deeper \<or> \<not> ?vis v"
        using IH0 by - (elim conjE, assumption)+
      have img: "ar_id ` set ?found = {v \<in> N. ?vis v}" using fids nxt by (metis set_map)
      have "row \<in> set (fetch_artifacts (w_db w) [ar_id row] seq) \<and> acl_admits rq (ar_acl row)"
        if "row \<in> set ?found" for row
      proof -
        from that obtain u where "map_of by_id u = Some row" by (auto simp: List.map_filter_def)
        then have "row \<in> set (filter_artifacts rq (fetch_artifacts (w_db w) ids seq))"
          unfolding go(3) using rows_by_id_Some by blast
        then have "row \<in> set (fetch_artifacts (w_db w) ids seq)" "acl_admits rq (ar_acl row)"
          using team_acl.flt_iff [of row rq] by auto
        then show ?thesis using fetch_artifacts_single by blast
      qed
      moreover have "distinct (map ar_id (?found @ deeper))"
        using fids dids IH(1,2) img sids by auto
      moreover have "w' = w\<lparr>w_faults := w_faults w'\<rparr>"
        using IH(4) go(6) by (metis world.update_convs(2) world.surjective)
      moreover have "ar_id ` set out = {v. reachable ?step ?vis (set F) V v \<and> v \<notin> V}"
        unfolding hop go(9) using img IH(1) by auto
      moreover have "\<forall>v \<in> V'. v \<in> V \<or> v \<in> ar_id ` set out \<or> \<not> ?vis v"
        using IH(6) img go(9) by auto
      moreover have "V \<union> ar_id ` set out \<subseteq> V'" using IH(5) img go(9) by auto
      ultimately show ?thesis using IH(3) go(9) by auto
    qed
  qed
qed

section \<open>The selection\<close>

lemma select_cards_spec:
  assumes "select_cards dp b cards n ordered = Inr (out, m, t)" and "n = sum_list (map (card_tokens dp) cards)"
    and "length cards \<le> MAX_EXPAND_CARDS"
  shows "\<exists>k \<le> length ordered. \<exists>new. mapE (\<lambda>row. build_card row None) (take k ordered) = Inr new
    \<and> out = cards @ new \<and> m = sum_list (map (card_tokens dp) out) \<and> (n \<le> b \<longrightarrow> m \<le> b)
    \<and> length out \<le> MAX_EXPAND_CARDS \<and> (\<not> t \<longleftrightarrow> k = length ordered)"
  using assms
proof (induction dp b cards n ordered rule: select_cards.induct)
  case (2 dp b cards n row ordered)
  show ?case
  proof (cases "MAX_EXPAND_CARDS \<le> length cards")
    case True
    with 2 show ?thesis by (intro exI [of _ 0] conjI exI [of _ "[]"]) auto
  next
    case False
    with "2.prems"(1) obtain c where c: "build_card row None = Inr c" by (auto split: sum.splits)
    show ?thesis
    proof (cases "n + card_tokens dp c > b")
      case True
      with False c 2 show ?thesis by (intro exI [of _ 0] conjI exI [of _ "[]"]) auto
    next
      case fits: False
      with False c "2.prems"(1) have "select_cards dp b (cards @ [c]) (n + card_tokens dp c) ordered = Inr (out, m, t)"
        by simp
      moreover have "n + card_tokens dp c = sum_list (map (card_tokens dp) (cards @ [c]))"
        "length (cards @ [c]) \<le> MAX_EXPAND_CARDS" using "2.prems"(2) False by simp_all
      ultimately obtain k new where k: "k \<le> length ordered"
        "mapE (\<lambda>row. build_card row None) (take k ordered) = Inr new"
        "out = (cards @ [c]) @ new" "m = sum_list (map (card_tokens dp) out)"
        "n + card_tokens dp c \<le> b \<longrightarrow> m \<le> b" "length out \<le> MAX_EXPAND_CARDS"
        "\<not> t \<longleftrightarrow> k = length ordered" using "2.IH" [OF False c fits] by blast
      with c fits show ?thesis by (intro exI [of _ "Suc k"] conjI exI [of _ "c # new"]) auto
    qed
  qed
qed auto

lemma select_cards_exn: "select_cards dp b cards n ordered = Inl e \<Longrightarrow> \<not> ledgered_exn e"
proof (induction dp b cards n ordered rule: select_cards.induct)
  case (2 dp b cards n row ordered)
  then show ?case by (auto simp: build_card_def Let_def split: if_splits sum.splits)
qed simp

section \<open>The ledger discipline and the refund\<close>

lemma bfs_tier_quiet: "reads_only (bfs_tier rq seq fl inc F V)"
proof (rule reads_onlyI)
  fix w r w' assume "bfs_tier rq seq fl inc F V w = (r, w')"
  then show "w'\<lparr>w_faults := w_faults w\<rparr> = w \<and> (\<forall>e. r = Inl e \<longrightarrow> \<not> ledgered_exn e)"
  proof (induction rq seq fl inc F V w arbitrary: r w' rule: bfs_tier.induct)
    case (1 rq seq fl inc F V w)
    let ?g1 = "db_get (\<lambda>d. fetch_edges_touching d F seq None)"
    obtain r1 w1 where d1: "?g1 w = (r1, w1)" by (meson surj_pair)
    note s1 = reads_onlyD [OF reads_db_get d1]
    show ?case
    proof (cases "F = []")
      case True
      with "1.prems" show ?thesis by (subst (asm) bfs_tier.simps) auto
    next
      case F: False
      show ?thesis
      proof (cases r1)
        case (Inl e)
        with "1.prems" F d1 s1 show ?thesis by (subst (asm) bfs_tier.simps) auto
      next
        case (Inr es)
        define hops where "hops = scan_edges fl inc (set F) V es"
        define ids where "ids = map he_neighbor (fst hops)"
        obtain r2 w2 where d2: "db_get (\<lambda>d. fetch_artifacts d ids seq) w1 = (r2, w2)" by (meson surj_pair)
        note s2 = reads_onlyD [OF reads_db_get d2]
        show ?thesis
        proof (cases "ids = [] \<or> (\<exists>e. r2 = Inl e)")
          case True
          then show ?thesis
          proof
            assume "ids = []"
            with "1.prems" F d1 Inr s1 show ?thesis
              by (subst (asm) bfs_tier.simps) (auto simp: Let_def hops_def ids_def)
          next
            assume "\<exists>e. r2 = Inl e"
            then obtain e where "r2 = Inl e" by blast
            with "1.prems" F d1 Inr d2 s1 s2 show ?thesis
              by (cases "ids = []"; subst (asm) bfs_tier.simps)
                (auto simp: Let_def hops_def ids_def dest: faults_eq_trans)
          qed
        next
          case False
          then obtain arts where r2: "r2 = Inr arts" by (cases r2) auto
          define by_id where "by_id = rows_by_id (filter_artifacts rq arts)"
          obtain r3 w3 where d3: "bfs_tier rq seq fl inc (filter (\<lambda>u. map_of by_id u \<noteq> None) ids) (snd hops) w2 = (r3, w3)"
            by (meson surj_pair)
          have ids: "ids \<noteq> []" using False by simp
          have "w3\<lparr>w_faults := w_faults w2\<rparr> = w2 \<and> (\<forall>e. r3 = Inl e \<longrightarrow> \<not> ledgered_exn e)"
            using "1.IH" [OF F d1 [symmetric] Inr hops_def ids_def ids d2 [unfolded r2, symmetric] refl by_id_def refl refl d3]
            by blast
          moreover have "w' = w3 \<and> (\<forall>e. r = Inl e \<longrightarrow> r3 = Inl e)"
            using "1.prems" F d1 Inr d2 r2 d3 ids
            by (subst (asm) bfs_tier.simps) (auto simp: Let_def hops_def ids_def by_id_def split: sum.splits prod.splits)
          ultimately show ?thesis using s1(1) s2(1) faults_eq_trans by metis
        qed
      qed
    qed
  qed
qed

lemma search_tiers_reads [reads_intros]: "reads_only (search_tiers req rq seq seeds)"
  unfolding search_tiers_def split_def
  by (intro reads_bindM bfs_tier_quiet reads_if reads_ret)

lemma plan_expand_reads [reads_intros]: "reads_only (plan_expand dp req rq v found)"
  unfolding plan_expand_def Let_def split_def
  by (intro reads_bindM reads_db_get search_tiers_reads reads_liftM reads_ret) (auto dest: select_cards_exn)

lemma resolve_pack_resolves: "resolves (resolve_pack req rq)"
proof (cases "ex_pack_id req")
  case None
  then show ?thesis by (simp add: resolve_pack_def quiet_resolves reads_quiet reads_ret)
next
  case (Some pid)
  have "resolves (case found of None \<Rightarrow> ledgered_error ''context.expand'' (subject rq)
            (error_defaults\<lparr>ea_query_text := Some pid\<rparr>) (''unknown context_pack_id: '' @ pid)
        | Some rp \<Rightarrow> ret (Some rp))" for found :: "(nat \<times> pack) option"
    by (cases found)
      (auto intro: one_row_resolves one_row_ledgered_error quiet_resolves reads_quiet reads_ret simp: ledgered_error_Inr)
  then show ?thesis
    unfolding resolve_pack_def Some option.case
    by (rule resolves_bindM [OF silent_quiet [OF silent_lookup_pack]])
qed

section \<open>Everything found is reachable, and everything reachable is found\<close>

lemma admits_inferred_mono: "admits t fl False \<Longrightarrow> admits t fl inc"
  by (simp add: admits_def Let_def split: if_splits)

lemma graph_step_mono: "graph_step r seq ts fl False u v \<Longrightarrow> graph_step r seq ts fl inc u v"
  unfolding graph_step_def using admits_inferred_mono by blast

lemma reachable_lift:
  assumes "reachable step vis F V v" and "\<And>u v. step u v \<Longrightarrow> step' u v"
    and "\<And>u. u \<in> F \<Longrightarrow> reachable step' vis F' {} u"
  shows "reachable step' vis F' {} v"
  using assms(1) by induction (auto intro: assms(2,3) reachable.step)

lemma search_tiers_spec:
  assumes run: "search_tiers req rq seq seeds w = (Inr (ext, inf'), w')"
    and seeds: "set seeds = {u \<in> set (ex_seeds req). visible (w_db w) seq rq u}"
  shows "set seeds \<union> ar_id ` set (ext @ inf') =
      {v. reachable (graph_step (w_db w) seq None (ex_floor req) (ex_inferred req)) (visible (w_db w) seq rq) (set seeds) {} v}"
    and "row \<in> set (ext @ inf') \<Longrightarrow> row \<in> set (fetch_artifacts (w_db w) [ar_id row] seq) \<and> acl_admits rq (ar_acl row)"
proof -
  let ?vis = "visible (w_db w) seq rq" and ?S = "set seeds" and ?V = "set (ex_seeds req)"
  let ?step = "\<lambda>inc. graph_step (w_db w) seq None (ex_floor req) inc"
  from run obtain V1 w1 where t1: "bfs_tier rq seq (ex_floor req) False seeds ?V w = (Inr (ext, V1), w1)"
    and k: "(if \<not> ex_inferred req then ret (ext, [])
     else bindM (bfs_tier rq seq (ex_floor req) True (seeds @ map ar_id ext) V1) (\<lambda>(inferred, _). ret (ext, inferred))) w1
       = (Inr (ext, inf'), w')"
    unfolding search_tiers_def by (elim bindM_InrE) (auto simp: op_iff split: if_splits)
  have SV: "?S \<subseteq> ?V" using seeds by auto
  note s1 = bfs_tier_spec [OF t1 SV]
  then have e1: "ar_id ` set ext = {v. reachable (?step False) ?vis ?S ?V v \<and> v \<notin> ?V}"
    and r1: "\<And>row. row \<in> set ext \<Longrightarrow> row \<in> set (fetch_artifacts (w_db w) [ar_id row] seq) \<and> acl_admits rq (ar_acl row)"
    and sub1: "?V \<union> ar_id ` set ext \<subseteq> V1" and v1: "\<And>v. v \<in> V1 \<Longrightarrow> v \<in> ?V \<or> v \<in> ar_id ` set ext \<or> \<not> ?vis v"
    and w1: "w1 = w\<lparr>w_faults := w_faults w1\<rparr>" by auto
  have db1: "w_db w1 = w_db w" using arg_cong [OF w1, of w_db] by simp
  have lift1: "reachable (?step inc) ?vis ?S {} v" if "v \<in> ?S \<union> ar_id ` set ext" for v inc
    using that e1 by (auto intro: reachable.start reachable_lift graph_step_mono)
  have vS: "v \<in> ?S" if "v \<in> ?V" "?vis v" for v using that seeds by auto
  have "?S \<union> ar_id ` set (ext @ inf') = {v. reachable (?step (ex_inferred req)) ?vis ?S {} v}
    \<and> (\<forall>row \<in> set (ext @ inf'). row \<in> set (fetch_artifacts (w_db w) [ar_id row] seq) \<and> acl_admits rq (ar_acl row))"
  proof (cases "ex_inferred req")
    case False
    with k have inf: "inf' = []" by (simp add: ret_iff)
    have "v \<in> ?S \<union> ar_id ` set ext" if "reachable (?step False) ?vis ?S {} v" for v
      using that
    proof induction
      case (step u v)
      have "reachable (?step False) ?vis ?S ?V u" using step.IH e1 by (auto intro: reachable.start)
      with step vS show ?case unfolding e1 by (auto intro: reachable.step)
    qed simp
    then have "{v. reachable (?step False) ?vis ?S {} v} = ?S \<union> ar_id ` set ext" using lift1 by blast
    with r1 inf False show ?thesis by simp
  next
    case True
    with k obtain V2 where t2: "bfs_tier rq seq (ex_floor req) True (seeds @ map ar_id ext) V1 w1 = (Inr (inf', V2), w')"
      by (auto simp: op_iff)
    have "set (seeds @ map ar_id ext) \<subseteq> V1" using sub1 SV by auto
    from bfs_tier_spec [OF t2 this] db1
    have e2: "ar_id ` set inf' = {v. reachable (?step True) ?vis (?S \<union> ar_id ` set ext) V1 v \<and> v \<notin> V1}"
      and r2: "\<And>row. row \<in> set inf' \<Longrightarrow> row \<in> set (fetch_artifacts (w_db w) [ar_id row] seq) \<and> acl_admits rq (ar_acl row)"
      by auto
    have lift2: "reachable (?step True) ?vis ?S {} v" if "v \<in> ar_id ` set inf'" for v
      using that lift1 unfolding e2 by (auto intro: reachable_lift)
    have "v \<in> ?S \<union> ar_id ` set ext \<union> ar_id ` set inf'" if "reachable (?step True) ?vis ?S {} v" for v
      using that
    proof induction
      case (step u v)
      have u: "reachable (?step True) ?vis (?S \<union> ar_id ` set ext) V1 u"
        using step.IH e2 by (auto intro: reachable.start)
      show ?case
      proof (cases "v \<in> V1")
        case True
        with v1 step vS show ?thesis by blast
      next
        case False
        with u step show ?thesis unfolding e2 by (auto intro: reachable.step)
      qed
    qed simp
    then have "{v. reachable (?step True) ?vis ?S {} v} = ?S \<union> ar_id ` set (ext @ inf')"
      using lift1 lift2 by auto
    with r1 r2 True show ?thesis by auto
  qed
  then show "?S \<union> ar_id ` set (ext @ inf') = {v. reachable (?step (ex_inferred req)) ?vis ?S {} v}"
    and "row \<in> set (ext @ inf') \<Longrightarrow> row \<in> set (fetch_artifacts (w_db w) [ar_id row] seq) \<and> acl_admits rq (ar_acl row)"
    by blast+
qed

lemma visible_rows:
  "ar_id ` set (filter_artifacts rq (fetch_artifacts r ids seq)) = {u \<in> set ids. visible r seq rq u}"
proof (intro equalityI subsetI)
  fix u assume "u \<in> ar_id ` set (filter_artifacts rq (fetch_artifacts r ids seq))"
  then obtain row where row: "row \<in> set (filter_artifacts rq (fetch_artifacts r ids seq))" "u = ar_id row" by blast
  then have "row \<in> set (fetch_artifacts r ids seq)" "acl_admits rq (ar_acl row)"
    using team_acl.flt_iff [of row rq] by auto
  with fetch_artifacts_single [of row r ids seq] row(2) show "u \<in> {u \<in> set ids. visible r seq rq u}"
    by (auto simp: visible_iff)
next
  fix u assume u: "u \<in> {u \<in> set ids. visible r seq rq u}"
  then obtain row where row: "row \<in> set (fetch_artifacts r [u] seq)" "acl_admits rq (ar_acl row)"
    by (auto simp: visible_iff)
  have id: "ar_id row = u" using fetch_artifacts_id [OF row(1)] by simp
  with row u fetch_artifacts_single [of row r ids seq] have "row \<in> set (fetch_artifacts r ids seq)" by simp
  then have "row \<in> set (filter_artifacts rq (fetch_artifacts r ids seq))"
    using row(2) team_acl.flt_iff [of row rq] by blast
  with id show "u \<in> ar_id ` set (filter_artifacts rq (fetch_artifacts r ids seq))" by blast
qed

section \<open>What an expansion returns and costs\<close>

lemma plan_expand_Inr:
  assumes run: "plan_expand dp req rq v found w = (Inr pl, w')"
  defines "seq \<equiv> av_build_seq v"
  shows "pl_version pl = v" "pl_pack pl = found" "length (pl_cards pl) \<le> 30"
    "pl_tokens pl = sum_list (map (card_tokens dp) (pl_cards pl))"
    "0 \<le> effective_budget dp req found \<Longrightarrow> pl_tokens pl \<le> effective_budget dp req found"
    "c \<in> set (pl_cards pl) \<Longrightarrow> \<exists>row. build_card row None = Inr c
      \<and> row \<in> set (fetch_artifacts (w_db w) [ar_id row] seq) \<and> acl_admits rq (ar_acl row)
      \<and> ar_id row \<notin> pack_artifact_ids found
      \<and> reachable (graph_step (w_db w) seq None (ex_floor req) (ex_inferred req)) (visible (w_db w) seq rq)
          {u \<in> set (ex_seeds req). visible (w_db w) seq rq u} {} (ar_id row)"
proof -
  let ?all = "fetch_artifacts (w_db w) (ex_seeds req) seq"
  let ?seed_rows = "filter_artifacts rq ?all" and ?seeds = "map fst (rows_by_id (filter_artifacts rq ?all))"
  from run obtain ext inf' w1 w2 cards n t where
    st: "search_tiers req rq seq ?seeds w1 = (Inr (ext, inf'), w2)" and w1: "w_db w1 = w_db w"
    and sel: "select_cards dp (effective_budget dp req found) [] 0
        (filter (\<lambda>row. ar_id row \<notin> pack_artifact_ids found) (?seed_rows @ ext @ inf')) = Inr (cards, n, t)"
    and pl: "pl = \<lparr>pl_version = v, pl_pack = found, pl_cards = cards, pl_tokens = n,
                pl_truncated = t, pl_inferred_rows = inf'\<rparr>"
    unfolding plan_expand_def Let_def seq_def
    by (elim bindM_InrE) (auto simp: op_iff)
  let ?ord = "filter (\<lambda>row. ar_id row \<notin> pack_artifact_ids found) (?seed_rows @ ext @ inf')"
  from select_cards_spec [OF sel] obtain k where k: "mapE (\<lambda>row. build_card row None) (take k ?ord) = Inr cards"
    "n = sum_list (map (card_tokens dp) cards)" "0 \<le> effective_budget dp req found \<longrightarrow> n \<le> effective_budget dp req found"
    "length cards \<le> MAX_EXPAND_CARDS" by auto
  show "pl_version pl = v" "pl_pack pl = found" "length (pl_cards pl) \<le> 30"
    "pl_tokens pl = sum_list (map (card_tokens dp) (pl_cards pl))"
    "0 \<le> effective_budget dp req found \<Longrightarrow> pl_tokens pl \<le> effective_budget dp req found"
    using k by (simp_all add: pl MAX_EXPAND_CARDS_def)
  have keys: "set ?seeds = {u \<in> set (ex_seeds req). visible (w_db w) seq rq u}"
  proof -
    have "set ?seeds = ar_id ` set ?seed_rows" using rows_by_id_keys by (metis list.set_map)
    also have "\<dots> = {u \<in> set (ex_seeds req). visible (w_db w) seq rq u}"
      by (rule visible_rows)
    finally show ?thesis .
  qed
  note spec = search_tiers_spec [OF st, unfolded w1, OF keys]
  show "\<exists>row. build_card row None = Inr c
      \<and> row \<in> set (fetch_artifacts (w_db w) [ar_id row] seq) \<and> acl_admits rq (ar_acl row)
      \<and> ar_id row \<notin> pack_artifact_ids found
      \<and> reachable (graph_step (w_db w) seq None (ex_floor req) (ex_inferred req)) (visible (w_db w) seq rq)
          {u \<in> set (ex_seeds req). visible (w_db w) seq rq u} {} (ar_id row)"
    if "c \<in> set (pl_cards pl)"
  proof -
    have "c \<in> set cards" using that pl by simp
    then obtain row where row: "row \<in> set (take k ?ord)" "build_card row None = Inr c"
      using mapE_build_card_in [of "\<lambda>_. None" "take k ?ord" cards c] k(1) by blast
    then have ord: "row \<in> set (?seed_rows @ ext @ inf')" "ar_id row \<notin> pack_artifact_ids found"
      by (auto dest: in_set_takeD)
    show ?thesis
    proof (cases "row \<in> set (ext @ inf')")
      case True
      then have "ar_id row \<in> set ?seeds \<union> ar_id ` set (ext @ inf')" by blast
      then have "reachable (graph_step (w_db w) seq None (ex_floor req) (ex_inferred req)) (visible (w_db w) seq rq)
          (set ?seeds) {} (ar_id row)" unfolding spec(1) by simp
      with spec(2) [OF True] row(2) ord(2) keys show ?thesis by auto
    next
      case False
      with ord(1) have "row \<in> set ?seed_rows" by auto
      then have f: "row \<in> set ?all" "acl_admits rq (ar_acl row)" using team_acl.flt_iff [of row rq ?all] by auto
      then have "row \<in> set (fetch_artifacts (w_db w) [ar_id row] seq)" using fetch_artifacts_single by blast
      moreover have "ar_id row \<in> {u \<in> set (ex_seeds req). visible (w_db w) seq rq u}"
        using f calculation fetch_artifacts_id [OF f(1)] by (auto simp: visible_iff)
      ultimately show ?thesis using f(2) row(2) ord(2) by (auto intro: reachable.start)
    qed
  qed
qed

section \<open>The commit\<close>

lemma charged_commit_cards: "charged_change r subj s (commit_cards r subj n cs s)"
  unfolding commit_cards_def by (rule charged_trans [OF charged_charge charged_register])

lemma commit_cards_effect:
  "pk_used (pack_obj (commit_cards r subj n cs s) r) = pk_used (pack_obj s r) + n"
  "usage_at (commit_cards r subj n cs s) r subj = (usage_at s r subj)\<lparr>tokens := tokens (usage_at s r subj) + n\<rparr>"
  "pk_cards (pack_obj (commit_cards r subj n cs s) r) =
     dict_update_all (pk_cards (pack_obj s r)) (map (\<lambda>c. (ec_evidence_id c, c)) cs)"
  by (simp_all add: commit_cards_def) (simp_all add: register_cards_def)

lemma commit_cards_store_ok:
  assumes "\<forall>c \<in> set cs. card_entry_ok (ec_evidence_id c, c)" and "store_ok s"
  shows "store_ok (commit_cards r subj n cs s)"
proof (rule charged_store_ok [OF charged_commit_cards assms(2)])
  have "cards_ok (pk_cards (pack_obj s r))" using assms(2) by (simp add: store_ok_def)
  then show "cards_ok (pk_cards (pack_obj (commit_cards r subj n cs s) r))"
    using assms(1) by (auto simp: commit_cards_effect intro!: cards_ok_update_all)
qed

lemma write_expand_one_row: "one_row (write_expand req rq pl pid)"
  unfolding write_expand_def by (intro one_row_liftM_bindM one_row_insert_event) (simp add: parse_uuids_quiet)

lemma write_expand_fixed [simp]: "store_fixed (write_expand req rq pl pid)"
  unfolding write_expand_def by simp

lemma write_expand_books: "keeps_books (write_expand req rq pl pid)"
  unfolding write_expand_def by (intro books_intros)

lemma commit_expand_one_row:
  assumes "\<forall>c \<in> set (pl_cards pl). card_entry_ok (ec_evidence_id c, c)"
  shows "one_row (commit_expand req rq pl)"
proof (cases "pl_pack pl")
  case None
  then show ?thesis unfolding commit_expand_def Let_def
    by (simp add: one_row_silent write_expand_one_row silent_ret)
next
  case (Some rp)
  obtain r p where rp: "rp = (r, p)" by (cases rp)
  show ?thesis unfolding commit_expand_def Let_def Some rp option.case prod.case
    by (intro one_row_liftM_bindM one_row_silent charged_write_one_row write_expand_one_row
        commit_cards_store_ok [OF assms] silent_ret) (simp_all add: opt_or_raise_quiet)
qed

lemma plan_cards_ok:
  assumes "plan_expand dp req rq v found w = (Inr pl, w')" and "registry_ok (w_db w)"
  shows "\<forall>c \<in> set (pl_cards pl). card_entry_ok (ec_evidence_id c, c)"
proof
  fix c assume "c \<in> set (pl_cards pl)"
  from plan_expand_Inr(6) [OF assms(1) this] obtain row where
    "build_card row None = Inr c" "row \<in> set (fetch_artifacts (w_db w) [ar_id row] (av_build_seq v))" by blast
  with build_card_Inr(1,2) [OF this(1)] fetch_artifacts_uuid_ok [OF assms(2)]
  show "card_entry_ok (ec_evidence_id c, c)" by (simp add: card_entry_ok_def)
qed

lemma expand_one_row [ledger_intros]: "one_row (expand dp req rq)"
  unfolding expand_def
proof (rule one_row_bindM [OF reads_quiet [OF reads_active]], goal_cases)
  case (1 active w w')
  show ?case
  proof (cases active)
    case None then show ?thesis by (simp add: one_row_ledgered_error)
  next
    case (Some v)
    have "one_row (bindM (plan_expand dp req rq v found) (commit_expand req rq))" for found
      by (rule one_row_bindM [OF reads_quiet [OF plan_expand_reads]])
        (auto intro!: commit_expand_one_row dest: plan_cards_ok simp: broker_ok_def)
    then show ?thesis
      unfolding Some option.case by (intro one_row_after_resolves [OF resolve_pack_resolves])
  qed
qed

lemma commit_expand_safe: "books_safe (commit_expand req rq pl)"
proof (cases "pl_pack pl")
  case None
  then show ?thesis unfolding commit_expand_def Let_def
    by (simp add: keeps_books_safe books_bindM write_expand_books books_basic)
next
  case (Some rp)
  obtain r p where rp: "rp = (r, p)" by (cases rp)
  show ?thesis unfolding commit_expand_def Let_def Some rp option.case prod.case
    by (intro safe_bindM [OF books_basic(3)] safe_never_fails charged_write_safe charged_commit_cards
        write_expand_fixed never_fails_simps)
qed

lemma resolve_pack_books: "keeps_books (resolve_pack req rq)"
proof (cases "ex_pack_id req")
  case (Some pid)
  have "keeps_books (case found of None \<Rightarrow> ledgered_error ''context.expand'' (subject rq)
            (error_defaults\<lparr>ea_query_text := Some pid\<rparr>) (''unknown context_pack_id: '' @ pid)
        | Some rp \<Rightarrow> ret (Some rp))" for found :: "(nat \<times> pack) option"
    by (cases found) (auto intro: books_intros)
  then show ?thesis unfolding resolve_pack_def Some option.case
    by (rule books_bindM [OF books_lookup_pack])
qed (simp add: resolve_pack_def books_basic)

lemma expand_safe: "books_safe (expand dp req rq)"
  unfolding expand_def
proof (rule safe_bindM [OF reads_books [OF reads_active]])
  fix active :: "active_version option"
  have "books_safe (bindM (resolve_pack req rq) (\<lambda>found. bindM (plan_expand dp req rq v found) (commit_expand req rq)))" for v
    by (intro safe_bindM [OF resolve_pack_books] safe_bindM [OF reads_books [OF plan_expand_reads]] commit_expand_safe)
  then show "books_safe (case active of
       None \<Rightarrow> ledgered_error ''context.expand'' (subject rq)
         (error_defaults\<lparr>ea_query_text := Some (''['' @ py_join '', ''
            (map (\<lambda>u. ''UUID('' @ [CHR 0x27] @ uuid_str u @ [CHR 0x27] @ '')'') (ex_seeds req)) @ '']'')\<rparr>)
         MSG_NO_ACTIVE_VERSION
     | Some v \<Rightarrow> bindM (resolve_pack req rq) (\<lambda>found. bindM (plan_expand dp req rq v found) (commit_expand req rq)))"
    by (cases active) (simp_all add: keeps_books_safe books_ledgered_error)
qed

text \<open>A run that returns: the plan it committed, and where the plan was made.\<close>

lemma expand_Inr:
  assumes run: "expand dp req rq w = (Inr resp, w')"
  obtains v found pl wa wb where "fetch_active_version (w_db w) = Inr (Some v)"
    "plan_expand dp req rq v found wa = (Inr pl, wb)" "w_db wa = w_db w"
    "same_books (w_store wa) (w_store w)"
    "found = None \<Longrightarrow> ex_pack_id req = None"
    "\<And>r p. found = Some (r, p) \<Longrightarrow> \<exists>pid. ex_pack_id req = Some pid \<and> map_of (packs (w_store w)) pid = Some r \<and> p = pack_obj (w_store w) r"
    "commit_expand req rq pl wb = (Inr resp, w')" "w_store wb = w_store wa"
proof -
  let ?k = "\<lambda>v. bindM (resolve_pack req rq) (\<lambda>found. bindM (plan_expand dp req rq v found) (commit_expand req rq))"
  from run obtain active w1 where a: "db_read fetch_active_version w = (Inr active, w1)"
    and c: "(case active of
       None \<Rightarrow> ledgered_error ''context.expand'' (subject rq)
         (error_defaults\<lparr>ea_query_text := Some (''['' @ py_join '', ''
            (map (\<lambda>u. ''UUID('' @ [CHR 0x27] @ uuid_str u @ [CHR 0x27] @ '')'') (ex_seeds req)) @ '']'')\<rparr>)
         MSG_NO_ACTIVE_VERSION
     | Some v \<Rightarrow> ?k v) w1 = (Inr resp, w')"
    unfolding expand_def by (rule bindM_InrE)
  then obtain v where v: "active = Some v" by (cases active) (auto simp: ledgered_error_Inr)
  with c obtain found wa pl wb where rs: "resolve_pack req rq w1 = (Inr found, wa)"
    and pl: "plan_expand dp req rq v found wa = (Inr pl, wb)" and cm: "commit_expand req rq pl wb = (Inr resp, w')"
    by (auto elim!: bindM_InrE)
  have w1: "w_db w1 = w_db w" "w_store w1 = w_store w" "fetch_active_version (w_db w) = Inr (Some v)"
    using a v by (simp_all add: db_read_Inr)
  have "w_db wa = w_db w1" "found = None \<Longrightarrow> ex_pack_id req = None"
    "\<And>r p. found = Some (r, p) \<Longrightarrow> \<exists>pid. ex_pack_id req = Some pid \<and> map_of (packs (w_store w1)) pid = Some r \<and> p = pack_obj (w_store w1) r"
    using rs unfolding resolve_pack_def
    by (auto simp: op_iff get_pack_Some split: option.splits)
  with that w1 pl cm keeps_booksD [OF resolve_pack_books rs] reads_only_fields(2) [OF plan_expand_reads pl]
  show ?thesis by simp
qed

end
