(* ===== verification/ToolHandlers.thy ===== *)
theory ToolHandlers
  imports TaskContext Verify Ledger Graph Expand
begin

text \<open>
  \<open>mcp/tool_handlers.py\<close> and \<open>mcp/schema_rejection_middleware.py\<close>: every tool behind its scope gate,
  the wrapper that owes the ledger a row for every unexpected exception, and the middleware that
  ledgers the calls rejected at the schema boundary. The server record holds what the process was
  started with; the session is what the transport knows of the caller. The schema check is
  pydantic's: a request arrives parsed, or rejected with a list of errors. The class name of an
  exception is a parameter, since some exceptions are a library's.
\<close>

section \<open>The server, the session, the calls\<close>

record server =
  sv_deps :: deps
  sv_env :: environ
  sv_entail :: "entail_client option"
  sv_clients :: client_registry
  sv_order :: "string set \<Rightarrow> string list"
  sv_dump_hit :: "kb_hit \<Rightarrow> string"
  sv_dump_task :: "task_response \<Rightarrow> string"
  sv_drafts :: "review_draft list"
  sv_type_name :: "exn \<Rightarrow> string"

record session =
  ss_token :: "access_token option"
  ss_id :: "string option"

datatype tool_call =
    CreatePack create_pack_request
  | ReadPack read_pack_request
  | RequestMore request_more_request
  | OpenEvidence open_request
  | Expand expand_request
  | GetNeighbors neighbors_request
  | ListRetrievals string
  | VerifyAnswer verify_request
  | PlatformTrust "receipt option"
  | CreateChangePack change_request
  | KbSearch string
  | GetTaskContext task_request
  | GetReviewDraft string int "string option"

datatype tool_answer =
    PackCreated create_pack_response
  | PackRead read_pack_response
  | MoreAnswered request_more_response
  | EvidenceOpened open_response
  | Expanded expand_response
  | Neighbors neighbors_response
  | Retrievals string "event_record list"
  | Verified receipt
  | TrustDecided trust_decision
  | ChangePackCreated change_response
  | Searched kb_response
  | TaskContextFound task_response
  | DraftFound "review_draft option"

definition tool_name :: "tool_call \<Rightarrow> string" where
  "tool_name c = (case c of
     CreatePack _ \<Rightarrow> ''context.create_pack'' | ReadPack _ \<Rightarrow> ''context.read_pack''
   | RequestMore _ \<Rightarrow> ''context.request_more'' | OpenEvidence _ \<Rightarrow> ''context.open_evidence''
   | Expand _ \<Rightarrow> ''context.expand'' | GetNeighbors _ \<Rightarrow> ''graph.get_neighbors''
   | ListRetrievals _ \<Rightarrow> ''ledger.list_retrievals'' | VerifyAnswer _ \<Rightarrow> ''context.verify_answer''
   | PlatformTrust _ \<Rightarrow> ''context.platform_trust'' | CreateChangePack _ \<Rightarrow> ''context.create_change_pack''
   | KbSearch _ \<Rightarrow> ''kb_search'' | GetTaskContext _ \<Rightarrow> ''get_task_context'' | GetReviewDraft _ _ _ \<Rightarrow> ''get_review_draft'')"

definition TOOL_NAMES :: "string list" where
  "TOOL_NAMES = [''context.create_pack'', ''context.read_pack'', ''context.request_more'', ''context.open_evidence'',
     ''context.expand'', ''graph.get_neighbors'', ''ledger.list_retrievals'', ''context.verify_answer'',
     ''context.platform_trust'', ''context.create_change_pack'', ''kb_search'', ''get_task_context'', ''get_review_draft'']"

section \<open>The handlers\<close>

definition client_for :: "server \<Rightarrow> session \<Rightarrow> string \<Rightarrow> client_identity broker" where
  "client_for srv ss tool =
     bindM (liftM (current_client_identity (sv_clients srv) (ss_token ss))) (\<lambda>client.
       if client_may_call client tool then ret client
       else raise (ToolError (''client not authorized for '' @ tool @ '' (missing scope)'')))"

definition current_session_key :: "session \<Rightarrow> string broker" where
  "current_session_key ss = liftM (opt_or_raise (ToolError ''no active MCP session'') (ss_id ss))"

definition answered :: "('a \<Rightarrow> 'b) \<Rightarrow> 'a broker \<Rightarrow> 'b broker" where
  "answered f m = bindM m (\<lambda>x. ret (f x))"

text \<open>What follows the gate; the caller's identity is resolved where the tool needs it.\<close>

definition run_tool :: "server \<Rightarrow> session \<Rightarrow> tool_call \<Rightarrow> client_identity \<Rightarrow> requester \<Rightarrow> tool_answer broker" where
  "run_tool srv ss c client rq = (let dp = sv_deps srv in case c of
     CreatePack req \<Rightarrow> answered PackCreated (create_pack dp req rq)
   | ReadPack req \<Rightarrow> answered PackRead (read_pack dp req rq)
   | RequestMore req \<Rightarrow> answered MoreAnswered (request_more dp req rq)
   | OpenEvidence req \<Rightarrow> answered EvidenceOpened (open_evidence dp req rq)
   | Expand req \<Rightarrow> answered Expanded (expand dp req rq)
   | GetNeighbors req \<Rightarrow> answered Neighbors (get_neighbors dp req rq)
   | ListRetrievals run_id \<Rightarrow> answered (\<lambda>(r, es). Retrievals r es) (list_retrievals run_id rq)
   | VerifyAnswer req \<Rightarrow> answered Verified (verify_answer dp (sv_env srv) (sv_entail srv) req rq (Some client))
   | PlatformTrust rc \<Rightarrow> answered TrustDecided
       (liftM (evaluate_platform_trust (sv_env srv) client rc (signing_key_env (dp_settings dp))))
   | CreateChangePack req \<Rightarrow> answered ChangePackCreated (create_change_pack dp (sv_order srv) req rq)
   | KbSearch q \<Rightarrow> bindM (current_session_key ss) (\<lambda>key. answered Searched (kb_search dp (sv_dump_hit srv) q rq key))
   | GetTaskContext req \<Rightarrow> answered TaskContextFound (get_task_context dp (sv_env srv) (sv_dump_task srv) req rq)
   | GetReviewDraft repo pr sha \<Rightarrow> answered DraftFound (get_review_draft (sv_drafts srv) repo pr sha rq))"

definition raw_handler :: "server \<Rightarrow> session \<Rightarrow> tool_call \<Rightarrow> tool_answer broker" where
  "raw_handler srv ss c =
     bindM (client_for srv ss (tool_name c)) (\<lambda>client. case c of
       PlatformTrust _ \<Rightarrow> run_tool srv ss c client \<lparr>subject = [], teams = {}\<rparr>
     | _ \<Rightarrow> bindM (liftM (current_requester (ss_token ss))) (\<lambda>rq. run_tool srv ss c client rq))"

section \<open>The ledger wrapper\<close>

definition ledger_subject :: "session \<Rightarrow> string" where
  "ledger_subject ss = (case current_requester (ss_token ss) of Inr r \<Rightarrow> subject r | Inl _ \<Rightarrow> UNRESOLVED)"

text \<open>A best-effort row: a failing write is logged and forgotten.\<close>

definition write_quietly :: "session \<Rightarrow> string \<Rightarrow> (string \<times> json) list \<Rightarrow> unit broker" where
  "write_quietly ss tool details =
     tryM (write_error_event tool (ledger_subject ss) (error_defaults\<lparr>ea_details := Some details\<rparr>)) (\<lambda>_. ret ())"

definition write_unexpected_error :: "server \<Rightarrow> session \<Rightarrow> string \<Rightarrow> exn \<Rightarrow> unit broker" where
  "write_unexpected_error srv ss tool e = write_quietly ss tool [(''exception_type'', JStr (sv_type_name srv e))]"

definition ledgered :: "server \<Rightarrow> session \<Rightarrow> string \<Rightarrow> 'a broker \<Rightarrow> 'a broker" where
  "ledgered srv ss tool h =
     tryM h (\<lambda>e. if ledgered_exn e then raise e
                 else bindM (write_unexpected_error srv ss tool e) (\<lambda>_. raise e))"

definition handle :: "server \<Rightarrow> session \<Rightarrow> tool_call \<Rightarrow> tool_answer broker" where
  "handle srv ss c = ledgered srv ss (tool_name c) (raw_handler srv ss c)"

section \<open>The schema boundary\<close>

record validation_error =
  ve_loc :: "string list"
  ve_type :: string
  ve_msg :: string

definition wire_name :: "string \<Rightarrow> string" where
  "wire_name tool = map (\<lambda>c. if c = CHR ''.'' then CHR ''_'' else c) tool"

definition CANONICAL_TOOL_NAMES :: "(string, string) dict" where
  "CANONICAL_TOOL_NAMES = dict_update_all [] (map (\<lambda>t. (wire_name t, t)) TOOL_NAMES)"

definition canonical_tool_name :: "string \<Rightarrow> string" where
  "canonical_tool_name wire = get_default CANONICAL_TOOL_NAMES wire wire"

definition validation_summary :: "validation_error list \<Rightarrow> json" where
  "validation_summary errs = JArr (map (\<lambda>e. JObj [(''loc'', JStr (py_join ''.'' (ve_loc e))), (''type'', JStr (ve_type e)),
     (''msg'', JStr (ve_msg e))]) errs)"

text \<open>
  \<open>on_call_tool\<close> around the rest of the chain: either pydantic rejects the arguments, with these
  errors, or the handler runs. A validation error the handler lets through is caught as well; the
  errors it then carries are its own.
\<close>

definition on_call_tool ::
  "server \<Rightarrow> session \<Rightarrow> string \<Rightarrow> validation_error list \<Rightarrow> 'a broker \<Rightarrow> 'a broker" where
  "on_call_tool srv ss wire errs call_next =
     tryM call_next (\<lambda>e. if e = PydanticValidationError
       then bindM (write_quietly ss (canonical_tool_name wire)
              [(''exception_type'', JStr (sv_type_name srv e)), (''validation_errors'', validation_summary errs)]) (\<lambda>_. raise e)
       else raise e)"

text \<open>A call as it arrives: rejected, or parsed and handled.\<close>

definition serve ::
  "server \<Rightarrow> session \<Rightarrow> string \<Rightarrow> validation_error list \<Rightarrow> tool_call option \<Rightarrow> tool_answer broker" where
  "serve srv ss wire errs parsed =
     on_call_tool srv ss wire errs (case parsed of None \<Rightarrow> raise PydanticValidationError | Some c \<Rightarrow> handle srv ss c)"

section \<open>Names\<close>

lemma canonical_wire_name: "canonical_tool_name (wire_name (tool_name c)) = tool_name c"
  by (cases c) (simp_all add: tool_name_def canonical_tool_name_def CANONICAL_TOOL_NAMES_def TOOL_NAMES_def
      wire_name_def get_default_def)

section \<open>One row per call\<close>

text \<open>
  What a run of the bare handler leaves the wrapper to do: it has written its row, or the row of
  an unexpected exception can still be written.
\<close>

definition accounted :: "exn + 'a \<Rightarrow> world \<Rightarrow> bool" where
  "accounted r w \<longleftrightarrow> (case r of Inr _ \<Rightarrow> True | Inl e \<Rightarrow> ledgered_exn e \<or> e \<noteq> CancelledError \<and> db_up w)"

definition served_once :: "'a broker \<Rightarrow> 'a broker \<Rightarrow> bool" where
  "served_once h m \<longleftrightarrow> (\<forall>w r1 w1 r w'. broker_ok w \<longrightarrow> h w = (r1, w1) \<longrightarrow> m w = (r, w') \<longrightarrow>
     broker_ok w' \<and> (if accounted r1 w1 then \<exists>e. rows w' = rows w @ [e] else rows w' = rows w)
     \<and> (case r1 of Inr x \<Rightarrow> r = Inr x | Inl e \<Rightarrow> r = Inl e \<or> r = Inl CancelledError))"

lemma write_quietly_up:
  assumes "db_up w"
  shows "\<exists>e. write_quietly ss tool det w = (Inr (), w\<lparr>w_db := add_event e (w_db w), w_faults := tl (w_faults w)\<rparr>)
    \<and> ev_tool_name e = tool \<and> ev_status e = ''error'' \<and> ev_agent_name e = ledger_subject ss \<and> ev_details e = Some det"
proof -
  let ?ev = "(event (ea_run_id error_defaults) (ledger_subject ss) tool ''error'' (ea_kb_version error_defaults))
       \<lparr>ev_context_pack_id := ea_context_pack_id error_defaults, ev_query_text := ea_query_text error_defaults,
        ev_details := Some det\<rparr>"
  have "write_quietly ss tool det w = (Inr (), w\<lparr>w_db := add_event ?ev (w_db w), w_faults := tl (w_faults w)\<rparr>)"
    using assms by (simp add: write_quietly_def tryM_def write_error_event_def insert_event_Inr
        split: prod.splits sum.splits) (auto simp: insert_event_def db_call_def db_up_def Let_def split: list.splits fault.splits)
  then show ?thesis by (intro exI [of _ ?ev]) (simp add: event_def)
qed

lemma write_quietly_down:
  assumes "\<not> db_up w"
  shows "\<exists>r fs. write_quietly ss tool det w = (r, w\<lparr>w_faults := fs\<rparr>) \<and> (r = Inr () \<or> r = Inl CancelledError)"
proof -
  let ?ev = "(event (ea_run_id error_defaults) (ledger_subject ss) tool ''error'' (ea_kb_version error_defaults))
       \<lparr>ev_context_pack_id := ea_context_pack_id error_defaults, ev_query_text := ea_query_text error_defaults,
        ev_details := Some det\<rparr>"
  from db_down [OF assms, of "\<lambda>d. (Inr (), add_event ?ev d)"] obtain e fs
    where e: "e = DbError \<or> e = CancelledError" and i: "insert_event ?ev w = (Inl e, w\<lparr>w_faults := fs\<rparr>)"
    unfolding insert_event_def by blast
  have w: "write_error_event tool (ledger_subject ss) (error_defaults\<lparr>ea_details := Some det\<rparr>) w = insert_event ?ev w"
    by (simp add: write_error_event_def)
  from e show ?thesis
    by (elim disjE) (simp_all add: write_quietly_def tryM_def w i ret_def, blast+)
qed

lemma ledgered_once:
  assumes h: "one_row h" shows "served_once h (ledgered srv ss tool h)"
  unfolding served_once_def
proof (intro allI impI)
  fix w r1 w1 r w' assume ok: "broker_ok w" and h1: "h w = (r1, w1)" and m: "ledgered srv ss tool h w = (r, w')"
  note q = one_rowD [OF h ok h1]
  show "broker_ok w' \<and> (if accounted r1 w1 then \<exists>e. rows w' = rows w @ [e] else rows w' = rows w)
     \<and> (case r1 of Inr x \<Rightarrow> r = Inr x | Inl e \<Rightarrow> r = Inl e \<or> r = Inl CancelledError)"
  proof (cases "\<exists>e. r1 = Inl e \<and> \<not> ledgered_exn e \<and> e \<noteq> CancelledError")
    case False
    with m h1 have "r = r1 \<and> w' = w1"
      by (cases r1) (auto simp: ledgered_def tryM_def raise_def split: if_splits)
    with q False show ?thesis by (auto simp: accounted_def row_after_def split: sum.splits)
  next
    case True
    then obtain e where e: "r1 = Inl e" "\<not> ledgered_exn e" "e \<noteq> CancelledError" by blast
    with q have w1: "broker_ok w1" "rows w1 = rows w" by (auto simp: row_after_def)
    let ?q = "write_quietly ss tool [(''exception_type'', JStr (sv_type_name srv e))]"
    have run: "bindM ?q (\<lambda>_. raise e) w1 = (r, w')"
      using m h1 e by (simp add: ledgered_def tryM_def write_unexpected_error_def)
    show ?thesis
    proof (cases "db_up w1")
      case True
      from write_quietly_up [OF this, of ss tool] obtain ev where
        "?q w1 = (Inr (), w1\<lparr>w_db := add_event ev (w_db w1), w_faults := tl (w_faults w1)\<rparr>)" by blast
      with run have "r = Inl e" "w' = w1\<lparr>w_db := add_event ev (w_db w1), w_faults := tl (w_faults w1)\<rparr>"
        by (simp_all add: raise_def)
      with w1 e True show ?thesis by (simp add: accounted_def add_event_def)
    next
      case False
      from write_quietly_down [OF this] obtain r2 fs where d: "?q w1 = (r2, w1\<lparr>w_faults := fs\<rparr>)"
        "r2 = Inr () \<or> r2 = Inl CancelledError" by blast
      with run w1 e False show ?thesis by (auto simp: raise_def accounted_def)
    qed
  qed
qed

text \<open>The tools whose handlers keep the discipline on every world.\<close>

definition disciplined :: "tool_call \<Rightarrow> bool" where
  "disciplined c \<longleftrightarrow> (case c of ListRetrievals _ \<Rightarrow> False | PlatformTrust _ \<Rightarrow> False | CreateChangePack _ \<Rightarrow> False | _ \<Rightarrow> True)"

lemma answered_one_row: "one_row m \<Longrightarrow> one_row (answered f m)"
  unfolding answered_def by (rule one_row_silent) (auto intro: silent_ret)

lemma client_for_reads: "reads_only (client_for srv ss tool)"
  unfolding client_for_def
  by (intro reads_intros) (auto simp: current_client_identity_def Let_def split: option.splits if_splits)

lemma requester_reads: "reads_only (liftM (current_requester token))"
  by (rule reads_liftM) (auto simp: current_requester_def Let_def split: option.splits if_splits)

lemma session_key_reads: "reads_only (current_session_key ss)"
  unfolding current_session_key_def by (intro reads_intros) simp

lemma run_tool_one_row:
  assumes "disciplined c" and "uuid4_ok (sv_deps srv)" and "entailment_ok (sv_entail srv)"
  shows "one_row (run_tool srv ss c client rq)"
  using assms
  by (cases c) (auto simp: run_tool_def Let_def disciplined_def
      intro!: answered_one_row ledger_intros one_row_bindM [OF reads_quiet [OF session_key_reads]])

lemma raw_handler_one_row:
  assumes "disciplined c" and "uuid4_ok (sv_deps srv)" and "entailment_ok (sv_entail srv)"
  shows "one_row (raw_handler srv ss c)"
proof -
  have "one_row (bindM (liftM (current_requester (ss_token ss))) (\<lambda>rq. run_tool srv ss c client rq))" for client
    by (intro one_row_bindM [OF reads_quiet [OF requester_reads]] run_tool_one_row assms)
  then show ?thesis
    using assms(1) unfolding raw_handler_def
    by (cases c) (auto simp: disciplined_def intro!: one_row_bindM [OF reads_quiet [OF client_for_reads]])
qed

section \<open>A refused client\<close>

lemma refused_raw:
  assumes "case current_client_identity (sv_clients srv) (ss_token ss) of Inr client \<Rightarrow> \<not> client_may_call client (tool_name c) | _ \<Rightarrow> True"
  shows "\<exists>msg. raw_handler srv ss c w = (Inl (ToolError msg), w)"
proof (cases "current_client_identity (sv_clients srv) (ss_token ss)")
  case (Inl e)
  moreover from this obtain msg where "e = ToolError msg"
    by (auto simp: current_client_identity_def Let_def split: option.splits if_splits)
  ultimately show ?thesis by (simp add: raw_handler_def client_for_def bindM_def raise_def liftM_def)
next
  case (Inr client)
  with assms show ?thesis by (simp add: raw_handler_def client_for_def bindM_def raise_def liftM_def)
qed

lemma refused_handle:
  assumes "case current_client_identity (sv_clients srv) (ss_token ss) of Inr client \<Rightarrow> \<not> client_may_call client (tool_name c) | _ \<Rightarrow> True"
  shows "\<exists>e es fs. handle srv ss c w = (Inl e, w\<lparr>w_db := (w_db w)\<lparr>events := events (w_db w) @ es\<rparr>, w_faults := fs\<rparr>) \<and> length es \<le> 1"
proof -
  from refused_raw [OF assms] obtain msg where r: "raw_handler srv ss c w = (Inl (ToolError msg), w)" by blast
  let ?q = "write_quietly ss (tool_name c) [(''exception_type'', JStr (sv_type_name srv (ToolError msg)))]"
  have h: "handle srv ss c w = bindM ?q (\<lambda>_. raise (ToolError msg)) w"
    using r by (simp add: handle_def ledgered_def tryM_def write_unexpected_error_def)
  show ?thesis
  proof (cases "db_up w")
    case True
    from write_quietly_up [OF this, of ss "tool_name c"] obtain ev where
      "?q w = (Inr (), w\<lparr>w_db := add_event ev (w_db w), w_faults := tl (w_faults w)\<rparr>)" by blast
    then show ?thesis unfolding h
      by (intro exI [of _ "ToolError msg"] exI [of _ "[ev]"] exI [of _ "tl (w_faults w)"]) (simp add: raise_def add_event_def)
  next
    case False
    from write_quietly_down [OF this, of ss "tool_name c"] obtain r2 fs where
      d: "?q w = (r2, w\<lparr>w_faults := fs\<rparr>)" "r2 = Inr () \<or> r2 = Inl CancelledError" by blast
    have same: "w\<lparr>w_faults := fs\<rparr> = w\<lparr>w_db := (w_db w)\<lparr>events := events (w_db w) @ []\<rparr>, w_faults := fs\<rparr>" by simp
    have "\<exists>e. handle srv ss c w = (Inl e, w\<lparr>w_faults := fs\<rparr>)"
      unfolding h using d by (auto simp: raise_def)
    with same show ?thesis by (metis le0 list.size(3) zero_le_one)
  qed
qed

section \<open>What escapes the ledger, and what enters it twice\<close>

lemma platform_trust_no_row:
  assumes "handle srv ss (PlatformTrust rc) w = (Inr a, w')" shows "w' = w"
proof -
  have raw: "raw_handler srv ss (PlatformTrust rc) w = (r1, w1) \<Longrightarrow> w1 = w" for r1 w1
    by (cases "current_client_identity (sv_clients srv) (ss_token ss)")
      (auto simp: raw_handler_def client_for_def run_tool_def answered_def bindM_def liftM_def raise_def ret_def Let_def
        split: if_splits sum.splits)
  obtain r1 w1 where h: "raw_handler srv ss (PlatformTrust rc) w = (r1, w1)" by fastforce
  show ?thesis
  proof (cases r1)
    case (Inr x)
    with assms h raw [OF h] show ?thesis by (simp add: handle_def ledgered_def tryM_def)
  next
    case (Inl e)
    with assms h show ?thesis
      by (auto simp: handle_def ledgered_def tryM_def bindM_Inr_iff raise_iff split: if_splits)
  qed
qed

lemma two_rows:
  assumes h: "raw_handler srv ss c w = (Inl PydanticValidationError, w1)" and up: "w_faults w1 = []"
  shows "\<exists>e1 e2. rows (snd (serve srv ss wire errs (Some c) w)) = rows w1 @ [e1, e2]"
proof -
  have u1: "db_up w1" using up by (simp add: db_up_def)
  from write_quietly_up [OF u1, of ss "tool_name c"] obtain e1 where
    e1: "write_quietly ss (tool_name c) [(''exception_type'', JStr (sv_type_name srv PydanticValidationError))] w1
      = (Inr (), w1\<lparr>w_db := add_event e1 (w_db w1), w_faults := tl (w_faults w1)\<rparr>)" by blast
  let ?w2 = "w1\<lparr>w_db := add_event e1 (w_db w1), w_faults := tl (w_faults w1)\<rparr>"
  have hd: "handle srv ss c w = (Inl PydanticValidationError, ?w2)"
    using h e1 by (simp add: handle_def ledgered_def tryM_def write_unexpected_error_def raise_def)
  have u2: "db_up ?w2" using up by (simp add: db_up_def)
  from write_quietly_up [OF u2, of ss "canonical_tool_name wire"] obtain e2 where
    e2: "write_quietly ss (canonical_tool_name wire) [(''exception_type'', JStr (sv_type_name srv PydanticValidationError)),
        (''validation_errors'', validation_summary errs)] ?w2
      = (Inr (), ?w2\<lparr>w_db := add_event e2 (w_db ?w2), w_faults := tl (w_faults ?w2)\<rparr>)" by blast
  have "serve srv ss wire errs (Some c) w = (Inl PydanticValidationError, ?w2\<lparr>w_db := add_event e2 (w_db ?w2), w_faults := tl (w_faults ?w2)\<rparr>)"
    using hd e2 by (simp add: serve_def on_call_tool_def tryM_def raise_def)
  then show ?thesis by (simp add: add_event_def)
qed

text \<open>A call rejected at the boundary: one row, and nothing else changed.\<close>

lemma rejected_row:
  assumes "db_up w"
  shows "\<exists>e. serve srv ss wire errs None w
      = (Inl PydanticValidationError, w\<lparr>w_db := add_event e (w_db w), w_faults := tl (w_faults w)\<rparr>)
    \<and> ev_tool_name e = canonical_tool_name wire \<and> ev_status e = ''error''"
proof -
  from write_quietly_up [OF assms, of ss "canonical_tool_name wire"] obtain e where
    "write_quietly ss (canonical_tool_name wire) [(''exception_type'', JStr (sv_type_name srv PydanticValidationError)),
        (''validation_errors'', validation_summary errs)] w
      = (Inr (), w\<lparr>w_db := add_event e (w_db w), w_faults := tl (w_faults w)\<rparr>)"
    "ev_tool_name e = canonical_tool_name wire" "ev_status e = ''error''" by blast
  then show ?thesis by (intro exI [of _ e]) (simp add: serve_def on_call_tool_def tryM_def raise_def)
qed

end
