(* ===== verification/Sample.thy ===== *)
theory Sample
  imports ToolHandlers
begin

text \<open>
  A small concrete world for the witnesses: one active build, a public file and a test that
  only the team \<open>core\<close> sees, joined by an extracted edge. The search client finds the file,
  every card's serialization has eight characters (two tokens), and \<open>uuid4\<close> gives 9.
\<close>

definition art :: "uuid \<Rightarrow> string \<Rightarrow> string \<Rightarrow> string \<Rightarrow> string list \<Rightarrow> knowledge_artifact" where
  "art u typ title body acl = \<lparr>ka_id = u, ka_source = 1, ka_type = typ, ka_title = Some title, ka_body = Some body,
     ka_search = None, ka_kind = None, ka_authority = None, ka_centrality = None, ka_acl = acl,
     ka_span_start = None, ka_span_end = None, ka_valid_from = 1, ka_invalidated = None\<rparr>"

definition sample_registry :: registry where
  "sample_registry = \<lparr>builds = [\<lparr>br_kb_version = ''v5'', br_build_seq = 5, br_status = ''active''\<rparr>],
     sources = [\<lparr>src_id = 1, src_uri = ''repo'', src_type = Some ''github_code'', src_path = Some ''a.py'', src_deleted = False\<rparr>],
     artifacts = [art 7 ''code_file'' ''a'' ''def run'' [], art 8 ''test'' ''t'' ''run it'' [''core'']],
     edges = [\<lparr>ke_id = 1, ke_from = 7, ke_to = 8, ke_type = ''tests'', ke_confidence = Some 1, ke_source = Some ''ast'',
       ke_trust = ''EXTRACTED'', ke_valid_from = 1, ke_invalidated = None\<rparr>],
     events = [], entailments = []\<rparr>"

definition sample_deps :: deps where
  "sample_deps = \<lparr>dp_settings = default_settings, dp_budget = \<lparr>allowances = [], default_allowance = DEFAULT_AGENT_ALLOWANCE\<rparr>,
     dp_search = (\<lambda>_ _ _ _. Some [(7, 1)]), dp_dump_card = (\<lambda>_. ''xxxxxxxx''), dp_uuid4 = (\<lambda>_. 9)\<rparr>"

definition empty_store :: pack_store where
  "empty_store = \<lparr>packs = [], pack_obj = undefined, run_usage = [], usage_obj = (\<lambda>_. []), next_obj = 0, max_packs = 256\<rparr>"

definition sample_world :: world where
  "sample_world = \<lparr>w_db = sample_registry, w_faults = [], w_store = empty_store, w_kb = \<lparr>windows = [], max_windows = 4096\<rparr>,
     w_uuids = 0, w_llm = 0\<rparr>"

definition core_user :: requester where
  "core_user = \<lparr>subject = ''ann'', teams = {''core''}\<rparr>"

definition sample_create :: create_pack_request where
  "sample_create = \<lparr>cp_run_id = ''r1'', cp_task = ''fix run'', cp_plan = ''read'', cp_profile = ''p'', cp_budget = 100,
     cp_intent = None\<rparr>"

text \<open>The same world with a file only \<open>docs\<close> sees importing a module only \<open>core\<close> sees.\<close>

definition split_edge :: knowledge_edge where
  "split_edge = \<lparr>ke_id = 1, ke_from = 1, ke_to = 2, ke_type = ''imports'', ke_confidence = None, ke_source = None,
     ke_trust = ''EXTRACTED'', ke_valid_from = 1, ke_invalidated = None\<rparr>"

definition split_world :: world where
  "split_world = sample_world\<lparr>w_db := sample_registry\<lparr>edges := [split_edge],
     artifacts := [art 1 ''code_file'' ''a'' ''x'' [''docs''], art 2 ''module'' ''m'' ''y'' [''core'']]\<rparr>\<rparr>"

lemma split_world_imports: "imports_across_teams (w_db split_world) 5 ''a.py'' ''m'' 1"
  unfolding imports_across_teams_def
  by (rule exI [of _ split_edge], rule exI [of _ "art 1 ''code_file'' ''a'' ''x'' [''docs'']"],
      rule exI [of _ "hd (sources sample_registry)"], rule exI [of _ "art 2 ''module'' ''m'' ''y'' [''core'']"])
    (simp add: split_world_def split_edge_def sample_world_def sample_registry_def art_def joined_def
      CLAIM_SUPPORTING_def edge_member_def artifact_member_def member_at_def)

definition sample_verify :: verify_request where
  "sample_verify = \<lparr>vr_answer_id = ''a1'', vr_claims = [\<lparr>ci_id = ''c1'', ci_text = ''run exists'', ci_evidence = [uuid_str 7],
       ci_quote = None, ci_assertion = None\<rparr>], vr_graph_version = None, vr_levels = [''L0'', ''L1'']\<rparr>"

definition sample_client :: entail_client where
  "sample_client = \<lparr>en_model_version = ''m'', en_check = (\<lambda>_ _ _. Inr (True, ''why''))\<rparr>"

text \<open>Two alias rows with the same score and different targets, and a caller of no team.\<close>

definition sample_alias :: "uuid \<Rightarrow> uuid \<Rightarrow> artifact_row" where
  "sample_alias u target = \<lparr>ar_id = u, ar_type = ALIAS_TYPE, ar_title = Some ''the cache'',
     ar_body = Some (json_raw (DObj [(''target_entity_ids'', DArr (map (DStr \<circ> uuid_str) [target]))])), ar_kind = None,
     ar_authority = None, ar_source_uri = ''alias'', ar_acl = [], ar_source_type = None, ar_invalidated = None,
     ar_source_deleted = False, ar_centrality = None, ar_search = None\<rparr>"

definition sample_ctx :: task_ctx where
  "sample_ctx = \<lparr>tx_deps = sample_deps, tx_requester = \<lparr>subject = ''bob'', teams = {}\<rparr>,
     tx_request = \<lparr>tk_task = ''fix the cache'', tk_hints = None, tk_floor = Interpreted, tk_max = None\<rparr>, tx_seq = 5\<rparr>"

lemma sample_alias_fields: "ar_id (sample_alias u target) = u" "ar_type (sample_alias u target) = ALIAS_TYPE"
  by (simp_all add: sample_alias_def)

lemma sample_alias_targets: "uuid_ok target \<Longrightarrow> alias_targets (sample_alias u target) = [target]"
  using alias_targets_listed [of "sample_alias u target" "[target]"] by (simp add: sample_alias_def)

definition sample_server :: server where
  "sample_server = \<lparr>sv_deps = sample_deps, sv_env = (\<lambda>_. None), sv_entail = None, sv_clients = [], sv_order = (\<lambda>_. []),
     sv_dump_hit = (\<lambda>_. ''hit''), sv_dump_task = (\<lambda>_. ''task''), sv_drafts = [], sv_type_name = (\<lambda>_. ''Error'')\<rparr>"

end
