(* ===== verification/BuildTables.thy ===== *)
theory BuildTables
  imports Auth Registry Sha256
begin

text \<open>
  The builder's side of the Knowledge Registry (kb-builder,
  \<open>infrastructure/postgres/models\<close>). Each row extends the record of the columns the broker
  reads by the columns only the builder uses, so the broker's view of the registry is a
  truncation (\<open>published\<close>). Timestamps are integers (one database clock); \<open>updated_at\<close>,
  which nothing reads, is left out. A SELECT without ORDER BY returns rows in table order.
\<close>

section \<open>Rows\<close>

text \<open>The counters of a run: \<open>_Counters\<close> of the runner, columns of \<open>kb_build_run\<close>.\<close>

record counters =
  sources_seen :: nat
  sources_changed :: nat
  artifacts_created :: nat
  llm_calls :: nat
  embedding_calls :: nat
  search_docs_upserted :: nat
  extractor_failures :: nat
  misses_seen :: nat
  mined :: nat
  unresolved_misses :: nat

definition no_counters :: counters where
  "no_counters = \<lparr>sources_seen = 0, sources_changed = 0, artifacts_created = 0, llm_calls = 0,
     embedding_calls = 0, search_docs_upserted = 0, extractor_failures = 0, misses_seen = 0,
     mined = 0, unresolved_misses = 0\<rparr>"

record kb_run = build_run +
  br_id :: uuid
  br_started_at :: int
  br_completed_at :: "int option"
  br_counters :: counters
  br_error :: "string option"
  br_allow_large_delta :: bool
  br_failed_gate :: "string option"
  br_gate_value :: "real option"

record kb_source = source_item +
  src_version :: string
  src_repo :: "string option"
  src_branch :: "string option"
  src_external :: "string option"
  src_hash :: string
  src_last_seen :: "int option"
  src_acl :: "string list"
  src_created :: int

record kb_artifact = knowledge_artifact +
  ka_content_hash :: "string option"
  ka_artifact_hash :: "string option"
  ka_version :: string
  ka_prior :: "uuid option"
  ka_freshness :: "real option"
  ka_created :: int

record kb_edge = knowledge_edge +
  ke_version :: string
  ke_schema :: int
  ke_evidence :: "json option"

text \<open>
  \<open>generation_cache\<close> keyed by its cache key (the identity columns are for auditing only),
  the ordered mapping of a key to its output artifacts, and \<open>embedding_cache\<close>.
\<close>

record gen_map =
  gm_key :: string
  gm_artifact :: uuid
  gm_position :: nat

record embed_row =
  em_hash :: string
  em_vector :: "real list option"
  em_doc_id :: "string option"

type_synonym embed_key = "uuid \<times> string \<times> string"

text \<open>
  \<open>relationship_candidate\<close> (an audit table) and \<open>relationship_judgment_cache\<close>, keyed by the
  two endpoint hashes, the schema, prompt and model versions.
\<close>

record candidate_row =
  cr_id :: uuid
  cr_from :: uuid
  cr_to :: uuid
  cr_signals :: "(string \<times> real) list"
  cr_bucket :: string
  cr_version :: string

record judged =
  jd_relation :: string
  jd_bucket :: string
  jd_quote :: string
  jd_reason :: string

type_synonym judgment_key = "string \<times> string \<times> int \<times> string \<times> string"

text \<open>
  The registry. \<open>gen_random_uuid()\<close> is an arbitrary sequence of ids, of which \<open>kb_drawn\<close> are
  used up.
\<close>

record kb =
  kb_runs :: "kb_run list"
  kb_sources :: "kb_source list"
  kb_artifacts :: "kb_artifact list"
  kb_edges :: "kb_edge list"
  kb_gen_cache :: "(string, string) dict"
  kb_gen_maps :: "gen_map list"
  kb_embeddings :: "(embed_key, embed_row) dict"
  kb_candidates :: "candidate_row list"
  kb_judgments :: "(judgment_key, judged) dict"
  kb_uuids :: "nat \<Rightarrow> uuid"
  kb_drawn :: nat

definition gen_random_uuid :: "kb \<Rightarrow> uuid \<times> kb" where
  "gen_random_uuid k = (kb_uuids k (kb_drawn k), k\<lparr>kb_drawn := Suc (kb_drawn k)\<rparr>)"

text \<open>
  A JSONB column: \<open>None\<close> is SQL NULL, \<open>Some JNull\<close> the JSON null that SQLAlchemy stores for a
  Python \<open>None\<close>; both read back as \<open>None\<close>.
\<close>

definition to_jsonb :: "json option \<Rightarrow> json option" where
  "to_jsonb j = Some (case j of None \<Rightarrow> JNull | Some x \<Rightarrow> x)"

definition jsonb_is_none :: "json option \<Rightarrow> bool" where
  "jsonb_is_none j \<longleftrightarrow> j = None \<or> j = Some JNull"

section \<open>UPDATE and membership\<close>

text \<open>\<open>UPDATE t SET f WHERE p\<close>; its RETURNING rows are \<open>filter p rows\<close>.\<close>

definition update_where :: "('r \<Rightarrow> bool) \<Rightarrow> ('r \<Rightarrow> 'r) \<Rightarrow> 'r list \<Rightarrow> 'r list" where
  "update_where p f rows = map (\<lambda>r. if p r then f r else r) rows"

definition live_artifact :: "kb_artifact \<Rightarrow> bool" where
  "live_artifact a \<longleftrightarrow> ka_invalidated a = None"

definition live_edge :: "kb_edge \<Rightarrow> bool" where
  "live_edge e \<longleftrightarrow> ke_invalidated e = None"

definition in_version :: "int \<Rightarrow> kb_artifact \<Rightarrow> bool" where
  "in_version s a = member_at s (ka_valid_from a) (ka_invalidated a)"

definition edge_in_version :: "int \<Rightarrow> kb_edge \<Rightarrow> bool" where
  "edge_in_version s e = member_at s (ke_valid_from e) (ke_invalidated e)"

definition touches :: "uuid set \<Rightarrow> kb_edge \<Rightarrow> bool" where
  "touches ids e \<longleftrightarrow> ke_from e \<in> ids \<or> ke_to e \<in> ids"

lemma update_where_simps [simp]:
  "update_where p f [] = []"
  "update_where p f (r # rs) = (if p r then f r else r) # update_where p f rs"
  "length (update_where p f rows) = length rows"
  by (simp_all add: update_where_def)

lemma set_update_where: "set (update_where p f rows) = (\<lambda>r. if p r then f r else r) ` set rows"
  by (simp add: update_where_def)

lemma update_where_id: "(\<And>r. r \<in> set rows \<Longrightarrow> p r \<Longrightarrow> f r = r) \<Longrightarrow> update_where p f rows = rows"
  by (simp add: update_where_def map_idI)

lemma map_update_where: "(\<And>r. g (f r) = g r) \<Longrightarrow> map g (update_where p f rows) = map g rows"
  by (simp add: update_where_def)

lemma filter_update_where:
  "(\<And>r. r \<in> set rows \<Longrightarrow> q (if p r then f r else r) = q r) \<Longrightarrow>
   filter q (update_where p f rows) = update_where p f (filter q rows)"
  by (induction rows) auto

lemma in_update_where:
  assumes "r \<in> set (update_where p f rows)"
  obtains r0 where "r0 \<in> set rows" and "r = (if p r0 then f r0 else r0)"
  using assms by (auto simp: set_update_where)

text \<open>A primary key picks one row.\<close>

lemma filter_key: "distinct (map f xs) \<Longrightarrow> x \<in> set xs \<Longrightarrow> filter (\<lambda>y. f y = f x) xs = [x]"
proof (induction xs)
  case (Cons a xs)
  show ?case
  proof (cases "x = a")
    case True
    have "filter (\<lambda>y. f y = f a) xs = []"
      using Cons.prems(1) by (auto simp: filter_empty_conv) (metis image_eqI)
    with True show ?thesis by simp
  next
    case False
    with Cons.prems have "f a \<noteq> f x" by force
    with False Cons show ?thesis by simp
  qed
qed simp

lemma key_unique: "distinct (map f xs) \<Longrightarrow> x \<in> set xs \<Longrightarrow> y \<in> set xs \<Longrightarrow> f x = f y \<Longrightarrow> x = y"
  by (auto simp: distinct_map dest: inj_onD)

section \<open>The broker's view\<close>

definition published :: "retrieval_event list \<Rightarrow> (entailment_key, bool \<times> string) dict \<Rightarrow> kb \<Rightarrow> registry" where
  "published evs ents k = \<lparr>builds = map build_run.truncate (kb_runs k),
     sources = map source_item.truncate (kb_sources k),
     artifacts = map knowledge_artifact.truncate (kb_artifacts k),
     edges = map knowledge_edge.truncate (kb_edges k), events = evs, entailments = ents\<rparr>"

lemma truncate_selectors [simp]:
  "br_kb_version (build_run.truncate r) = br_kb_version r"
  "br_build_seq (build_run.truncate r) = br_build_seq r"
  "br_status (build_run.truncate r) = br_status r"
  "ka_id (knowledge_artifact.truncate a) = ka_id a"
  "ka_acl (knowledge_artifact.truncate a) = ka_acl a"
  "ke_from (knowledge_edge.truncate e) = ke_from e"
  "ke_to (knowledge_edge.truncate e) = ke_to e"
  "artifact_member s (knowledge_artifact.truncate a) = in_version s a"
  "edge_member s (knowledge_edge.truncate e) = edge_in_version s e"
  by (simp_all add: build_run.truncate_def knowledge_artifact.truncate_def knowledge_edge.truncate_def
      artifact_member_def edge_member_def in_version_def edge_in_version_def)

section \<open>Content hashes (content_hasher.py)\<close>

definition content_hash :: "string \<Rightarrow> string" where
  "content_hash s = sha256_hex s"

text \<open>\<open>normalize_code\<close>: CRLF and CR become LF.\<close>

fun normalize_code :: "string \<Rightarrow> string" where
  "normalize_code [] = []"
| "normalize_code (c # cs) =
     (if c = CHR 0x0D then
        (case cs of d # ds \<Rightarrow> if d = CHR 0x0A then CHR 0x0A # normalize_code ds
                              else CHR 0x0A # normalize_code cs
         | [] \<Rightarrow> [CHR 0x0A])
      else c # normalize_code cs)"

lemma normalize_code_no_cr: "CHR 0x0D \<notin> set (normalize_code s)"
  by (induction s rule: normalize_code.induct) (auto split: list.splits)

lemma normalize_code_id: "CHR 0x0D \<notin> set s \<Longrightarrow> normalize_code s = s"
  by (induction s rule: normalize_code.induct) (auto split: list.splits)

lemma normalize_code_idem: "normalize_code (normalize_code s) = normalize_code s"
  by (rule normalize_code_id [OF normalize_code_no_cr])

end
