(* ===== verification/Indexing.thy ===== *)
theory Indexing
  imports BuildTables
begin

text \<open>
  The search projection (\<open>indexing/\<close>): the documents of the registry, the upsert of changed
  documents, the orphan sweep, the back-fill and the consistency check. A search client is a
  record of its three calls over its own state; \<open>local_client\<close> is
  \<open>infrastructure/local_search\<close>, whose file is the persistent copy of that state. What a
  client promises is the locale \<open>faithful_client\<close>.
\<close>

section \<open>Documents (search_document.py)\<close>

definition PROJECTABLE_ARTIFACT_TYPES :: "string set" where
  "PROJECTABLE_ARTIFACT_TYPES = {''concept'', ''summary'', ''chunk'', ''source_backed_fact'',
     ''code_symbol'', ''commit'', ''alias_reference''}"

record search_doc =
  sd_id :: string
  sd_artifact :: uuid
  sd_type :: string
  sd_source_type :: "string option"
  sd_source_uri :: string
  sd_title :: "string option"
  sd_body :: "string option"
  sd_version :: string
  sd_kind :: "string option"
  sd_authority :: "real option"
  sd_freshness :: "real option"
  sd_hash :: "string option"
  sd_search :: "string option"
  sd_embedding :: "real list option"
  sd_model :: "string option"

definition doc_id_for :: "uuid \<Rightarrow> string" where
  "doc_id_for u = uuid_str u"

section \<open>The projection (projection.py)\<close>

definition projectable :: "kb_artifact \<Rightarrow> kb_source \<Rightarrow> bool" where
  "projectable a s \<longleftrightarrow> \<not> src_deleted s \<and> ka_type a \<in> PROJECTABLE_ARTIFACT_TYPES
     \<and> (ka_body a \<noteq> None \<or> ka_search a \<noteq> None) \<and> live_artifact a"

definition kb_joined :: "kb \<Rightarrow> (kb_artifact \<times> kb_source) list" where
  "kb_joined k = concat (map (\<lambda>a. map (Pair a) (filter (\<lambda>s. src_id s = ka_source a) (kb_sources k))) (kb_artifacts k))"

definition projected :: "kb \<Rightarrow> (kb_artifact \<times> kb_source) list" where
  "projected k = filter (\<lambda>(a, s). projectable a s) (kb_joined k)"

text \<open>\<open>_load_embeddings\<close>: rows by model name; a row with a vector replaces one without.\<close>

fun prefer_vector :: "(embed_key \<times> embed_row) list \<Rightarrow> (uuid \<times> string, string \<times> embed_row) dict
     \<Rightarrow> (uuid \<times> string, string \<times> embed_row) dict" where
  "prefer_vector [] d = d"
| "prefer_vector (((u, h, m), row) # rows) d = prefer_vector rows
     (case map_of d (u, h) of
        None \<Rightarrow> AList.update (u, h) (m, row) d
      | Some (_, cur) \<Rightarrow> if em_vector cur = None \<and> em_vector row \<noteq> None
                         then AList.update (u, h) (m, row) d else d)"

definition load_embeddings :: "kb \<Rightarrow> uuid list \<Rightarrow> (uuid \<times> string, string \<times> embed_row) dict" where
  "load_embeddings k ids =
     (if ids = [] then []
      else prefer_vector (sort_key (\<lambda>((u, h, m), row). m)
             (filter (\<lambda>((u, h, m), row). u \<in> set ids) (kb_embeddings k))) [])"

definition embed_text :: "string option \<Rightarrow> string option \<Rightarrow> string option" where
  "embed_text body search = (case body of Some b \<Rightarrow> Some b | None \<Rightarrow> search)"

definition search_doc_of :: "(uuid \<times> string, string \<times> embed_row) dict \<Rightarrow> kb_artifact \<times> kb_source \<Rightarrow> search_doc" where
  "search_doc_of embs = (\<lambda>(a, s).
     let row = (case embed_text (ka_body a) (ka_search a) of None \<Rightarrow> None
                | Some t \<Rightarrow> map_of embs (ka_id a, content_hash t))
     in \<lparr>sd_id = doc_id_for (ka_id a), sd_artifact = ka_id a, sd_type = ka_type a,
         sd_source_type = src_type s, sd_source_uri = src_uri s, sd_title = ka_title a, sd_body = ka_body a,
         sd_version = ka_version a, sd_kind = ka_kind a, sd_authority = ka_authority a,
         sd_freshness = ka_freshness a, sd_hash = ka_artifact_hash a, sd_search = ka_search a,
         sd_embedding = Option.bind row (\<lambda>(m, r). em_vector r), sd_model = map_option fst row\<rparr>)"

definition load_search_docs :: "kb \<Rightarrow> uuid list option \<Rightarrow> search_doc list" where
  "load_search_docs k ids =
     (let rows = (case ids of None \<Rightarrow> projected k
                  | Some us \<Rightarrow> filter (\<lambda>(a, s). ka_id a \<in> set us) (projected k))
      in map (search_doc_of (load_embeddings k (map (\<lambda>(a, s). ka_id a) rows))) rows)"

definition load_doc_hashes :: "kb \<Rightarrow> (string, string option) dict" where
  "load_doc_hashes k = dict_update_all [] (map (\<lambda>(a, s). (doc_id_for (ka_id a), ka_artifact_hash a)) (projected k))"

section \<open>Search clients\<close>

record 'i search_client =
  sc_upsert :: "search_doc list \<Rightarrow> 'i \<Rightarrow> nat \<times> 'i"
  sc_delete :: "string list \<Rightarrow> 'i \<Rightarrow> nat \<times> 'i"
  sc_state :: "'i \<Rightarrow> (string, string option) dict"

type_synonym local_index = "(string, search_doc) dict"

definition local_upsert :: "search_doc list \<Rightarrow> local_index \<Rightarrow> nat \<times> local_index" where
  "local_upsert docs idx = (length docs, dict_update_all idx (map (\<lambda>d. (sd_id d, d)) docs))"

fun local_delete :: "string list \<Rightarrow> local_index \<Rightarrow> nat \<times> local_index" where
  "local_delete [] idx = (0, idx)"
| "local_delete (i # is) idx =
     (let (n, idx') = local_delete is (AList.delete i idx)
      in (if map_of idx i = None then n else n + 1, idx'))"

definition local_state :: "local_index \<Rightarrow> (string, string option) dict" where
  "local_state idx = map (\<lambda>(i, d). (i, sd_hash d)) idx"

definition local_client :: "local_index search_client" where
  "local_client = \<lparr>sc_upsert = local_upsert, sc_delete = local_delete, sc_state = local_state\<rparr>"

section \<open>Upsert, sweep, back-fill (upsert.py)\<close>

definition stamp_doc_id :: "search_doc \<Rightarrow> kb \<Rightarrow> kb" where
  "stamp_doc_id d k =
     (if sd_embedding d = None then k
      else (case embed_text (sd_body d) (sd_search d) of None \<Rightarrow> k
        | Some t \<Rightarrow> k\<lparr>kb_embeddings := map (\<lambda>((u, h, m), row).
            ((u, h, m), if u = sd_artifact d \<and> h = content_hash t \<and> Some m = sd_model d
                        then row\<lparr>em_doc_id := Some (sd_id d)\<rparr> else row)) (kb_embeddings k)\<rparr>))"

definition record_doc_ids :: "search_doc list \<Rightarrow> kb \<Rightarrow> kb" where
  "record_doc_ids docs k = fold stamp_doc_id docs k"

definition MSG_UPSERT :: string where "MSG_UPSERT = ''search upsert incomplete''"
definition MSG_RECONCILE :: string where "MSG_RECONCILE = ''search reconcile incomplete''"

definition write_docs :: "'i search_client \<Rightarrow> string \<Rightarrow> search_doc list \<Rightarrow> kb \<Rightarrow> 'i \<Rightarrow> (exn + nat) \<times> kb \<times> 'i" where
  "write_docs c msg docs k idx =
     (let (n, idx') = sc_upsert c docs idx
      in if n \<noteq> length docs then (Inl (RuntimeError msg), k, idx')
         else (Inr n, record_doc_ids docs k, idx'))"

definition upsert_documents :: "'i search_client \<Rightarrow> uuid list \<Rightarrow> kb \<Rightarrow> 'i \<Rightarrow> (exn + nat) \<times> kb \<times> 'i" where
  "upsert_documents c ids k idx =
     (let docs = load_search_docs k (Some ids)
      in if docs = [] then (Inr 0, k, idx) else write_docs c MSG_UPSERT docs k idx)"

definition delete_orphaned_docs :: "'i search_client \<Rightarrow> kb \<Rightarrow> 'i \<Rightarrow> nat \<times> 'i" where
  "delete_orphaned_docs c k idx =
     (let expected = fst ` set (load_doc_hashes k);
          orphaned = sort (filter (\<lambda>i. i \<notin> expected) (map fst (sc_state c idx)))
      in if orphaned = [] then (0, idx) else sc_delete c orphaned idx)"

definition stale_doc_ids :: "(string, string option) dict \<Rightarrow> (string, string option) dict \<Rightarrow> string list" where
  "stale_doc_ids expected actual = map fst (filter (\<lambda>(i, h). map_of actual i \<noteq> Some h) expected)"

definition reconcile_missing :: "'i search_client \<Rightarrow> kb \<Rightarrow> 'i \<Rightarrow> (exn + nat) \<times> kb \<times> 'i" where
  "reconcile_missing c k idx =
     (let stale = stale_doc_ids (load_doc_hashes k) (sc_state c idx)
      in if stale = [] then (Inr 0, k, idx)
         else (case mapE (\<lambda>i. opt_or_raise ValueError (parse_uuid i)) stale of
             Inl e \<Rightarrow> (Inl e, k, idx)
           | Inr ids \<Rightarrow> write_docs c MSG_RECONCILE (load_search_docs k (Some ids)) k idx))"

section \<open>The consistency check (consistency.py)\<close>

definition validate_index_consistency :: "'i search_client \<Rightarrow> kb \<Rightarrow> 'i \<Rightarrow> bool" where
  "validate_index_consistency c k idx =
     (let expected = load_doc_hashes k; actual = sc_state c idx;
          missing = filter (\<lambda>i. map_of actual i = None) (map fst expected);
          orphaned = filter (\<lambda>i. map_of expected i = None) (map fst actual);
          drifted = filter (\<lambda>i. map_of actual i \<noteq> None \<and> map_of expected i \<noteq> map_of actual i) (map fst expected)
      in missing = [] \<and> orphaned = [] \<and> drifted = [])"

section \<open>Lemmas\<close>

text \<open>The registry's primary keys: artifact ids are distinct uuids, source ids are distinct.\<close>

definition kb_keys :: "kb \<Rightarrow> bool" where
  "kb_keys k \<longleftrightarrow> distinct (map ka_id (kb_artifacts k)) \<and> distinct (map src_id (kb_sources k))
     \<and> (\<forall>a \<in> set (kb_artifacts k). uuid_ok (ka_id a))"

lemma kb_keysD:
  assumes "kb_keys k"
  shows "distinct (map ka_id (kb_artifacts k))" and "distinct (map src_id (kb_sources k))"
    and "a \<in> set (kb_artifacts k) \<Longrightarrow> uuid_ok (ka_id a)"
  using assms by (simp_all add: kb_keys_def)

lemma doc_id_inj: "uuid_ok u \<Longrightarrow> uuid_ok v \<Longrightarrow> doc_id_for u = doc_id_for v \<Longrightarrow> u = v"
  by (metis doc_id_for_def option.inject parse_uuid_str)

lemma filter_src_id: "distinct (map src_id ss) \<Longrightarrow> length (filter (\<lambda>s. src_id s = x) ss) \<le> 1"
  by (induction ss) (auto simp: filter_empty_conv image_iff)

lemma joined_ids:
  assumes "kb_keys k" shows "distinct (map (\<lambda>x. ka_id (fst x)) (kb_joined k))"
proof -
  have "distinct (map (\<lambda>x. ka_id (fst x)) (concat (map (\<lambda>a. map (Pair a) (filter (\<lambda>s. src_id s = ka_source a) (kb_sources k))) as)))
      \<and> fst ` set (concat (map (\<lambda>a. map (Pair a) (filter (\<lambda>s. src_id s = ka_source a) (kb_sources k))) as)) \<subseteq> set as"
    if "distinct (map ka_id as)" for as
    using that
  proof (induction as)
    case (Cons a as)
    obtain ss where ss: "filter (\<lambda>s. src_id s = ka_source a) (kb_sources k) = ss" "length ss \<le> 1"
      using filter_src_id [OF kb_keysD(2) [OF assms]] by blast
    then consider "ss = []" | s where "ss = [s]" by (cases ss) auto
    then show ?case using Cons ss(1) by cases (force simp: image_subset_iff)+
  qed simp
  from this [OF kb_keysD(1) [OF assms]] show ?thesis by (simp add: kb_joined_def)
qed

lemma joined_artifact: "(a, s) \<in> set (kb_joined k) \<Longrightarrow> a \<in> set (kb_artifacts k)"
  by (auto simp: kb_joined_def)

lemma projected_ids: "kb_keys k \<Longrightarrow> distinct (map (\<lambda>x. ka_id (fst x)) (projected k))"
  by (drule joined_ids) (auto simp: projected_def intro: distinct_map_filter)

lemma projected_ok: "kb_keys k \<Longrightarrow> (a, s) \<in> set (projected k) \<Longrightarrow> uuid_ok (ka_id a)"
  by (auto simp: projected_def intro: kb_keysD(3) joined_artifact)

lemma projected_doc_ids:
  assumes "kb_keys k" shows "distinct (map (\<lambda>x. doc_id_for (ka_id (fst x))) (projected k))"
proof -
  have ok: "uuid_ok (ka_id (fst x))" if "x \<in> set (projected k)" for x
    using that projected_ok [OF assms, of "fst x" "snd x"] by simp
  have "inj_on (\<lambda>x. ka_id (fst x)) (set (projected k))" "distinct (projected k)"
    using projected_ids [OF assms] by (simp_all add: distinct_map)
  then show ?thesis unfolding distinct_map
    by (intro conjI inj_onI) (metis doc_id_inj inj_onD ok)+
qed

lemma doc_hashes_eq:
  assumes "kb_keys k"
  shows "load_doc_hashes k = map (\<lambda>x. (doc_id_for (ka_id (fst x)), ka_artifact_hash (fst x))) (projected k)"
proof -
  have "distinct (map fst (map (\<lambda>x. (doc_id_for (ka_id (fst x)), ka_artifact_hash (fst x))) (projected k)))"
    using projected_doc_ids [OF assms] by (simp add: comp_def)
  from dict_update_all_fresh [OF _ this, of "[]"] show ?thesis by (simp add: load_doc_hashes_def case_prod_beta')
qed

lemma dict_ok_hashes: "dict_ok (load_doc_hashes k)"
  by (simp add: load_doc_hashes_def)

lemma search_doc_of_id [simp]: "sd_id (search_doc_of e x) = doc_id_for (ka_id (fst x))"
  and search_doc_of_hash [simp]: "sd_hash (search_doc_of e x) = ka_artifact_hash (fst x)"
  by (simp_all add: search_doc_of_def split_beta Let_def)

lemma parse_stale:
  assumes "kb_keys k" and "set is \<subseteq> fst ` set (load_doc_hashes k)"
  shows "\<exists>us. mapE (\<lambda>i. opt_or_raise ValueError (parse_uuid i)) is = Inr us \<and> is = map doc_id_for us
     \<and> set us \<subseteq> (\<lambda>x. ka_id (fst x)) ` set (projected k)"
  using assms(2)
proof (induction "is")
  case (Cons i "is")
  then obtain a s where a: "(a, s) \<in> set (projected k)" "i = doc_id_for (ka_id a)"
    by (auto simp: doc_hashes_eq [OF assms(1)])
  then have "parse_uuid i = Some (ka_id a)"
    using parse_uuid_str projected_ok [OF assms(1)] by (simp add: doc_id_for_def)
  moreover obtain us where "mapE (\<lambda>i. opt_or_raise ValueError (parse_uuid i)) is = Inr us"
    "is = map doc_id_for us" "set us \<subseteq> (\<lambda>x. ka_id (fst x)) ` set (projected k)" using Cons by auto
  ultimately show ?case using a by (intro exI [of _ "ka_id a # us"]) force
qed simp

lemma in_rows:
  assumes keys: "kb_keys k" and us: "set us \<subseteq> (\<lambda>x. ka_id (fst x)) ` set (projected k)"
  shows "x \<in> set (filter (\<lambda>x. ka_id (fst x) \<in> set us) (projected k))
    \<longleftrightarrow> x \<in> set (projected k) \<and> doc_id_for (ka_id (fst x)) \<in> set (map doc_id_for us)"
proof -
  have ok: "uuid_ok (ka_id (fst y))" if "y \<in> set (projected k)" for y
    using that projected_ok [OF keys, of "fst y" "snd y"] by simp
  have "ka_id (fst x) \<in> set us" if x: "x \<in> set (projected k)" and d: "doc_id_for (ka_id (fst x)) \<in> doc_id_for ` set us"
  proof -
    from d obtain u where u: "u \<in> set us" "doc_id_for (ka_id (fst x)) = doc_id_for u" by auto
    then obtain y where "y \<in> set (projected k)" "u = ka_id (fst y)" using us by auto
    with u ok x show ?thesis using doc_id_inj by metis
  qed
  then show ?thesis by auto
qed

section \<open>The client contract\<close>

locale faithful_client =
  fixes c :: "'i search_client"
  assumes upsert_all: "fst (sc_upsert c docs idx) = length docs \<Longrightarrow> distinct (map sd_id docs) \<Longrightarrow>
      map_of (sc_state c (snd (sc_upsert c docs idx)))
        = map_of (sc_state c idx) ++ map_of (map (\<lambda>d. (sd_id d, sd_hash d)) docs)"
    and delete_state: "map_of (sc_state c (snd (sc_delete c ids idx))) = map_of (sc_state c idx) |` (- set ids)"
begin

lemma orphans_gone:
  "map_of (sc_state c (snd (delete_orphaned_docs c k idx)))
     = map_of (sc_state c idx) |` (fst ` set (load_doc_hashes k))"
proof -
  define E where "E = fst ` set (load_doc_hashes k)"
  define ids where "ids = sort (filter (\<lambda>i. i \<notin> E) (map fst (sc_state c idx)))"
  have mem: "x \<in> set ids \<longleftrightarrow> x \<notin> E \<and> map_of (sc_state c idx) x \<noteq> None" for x
    by (auto simp: ids_def map_of_eq_None_iff)
  have run: "snd (delete_orphaned_docs c k idx) = (if ids = [] then idx else snd (sc_delete c ids idx))"
    by (simp add: delete_orphaned_docs_def ids_def E_def Let_def)
  have none: "map_of (sc_state c idx) x = None" if "x \<notin> E" "x \<notin> set ids" for x using mem that by blast
  show ?thesis unfolding E_def [symmetric]
  proof
    fix x
    show "map_of (sc_state c (snd (delete_orphaned_docs c k idx))) x = (map_of (sc_state c idx) |` E) x"
    proof (cases "ids = []")
      case True
      then show ?thesis using none [of x] by (simp add: run restrict_map_def)
    next
      case False
      then show ?thesis using none [of x] mem [of x] by (simp add: run delete_state restrict_map_def)
    qed
  qed
qed

lemma consistent_iff:
  "validate_index_consistency c k idx \<longleftrightarrow> map_of (sc_state c idx) = map_of (load_doc_hashes k)" (is "?v \<longleftrightarrow> ?e")
proof
  assume v: ?v
  show ?e
  proof
    fix x
    show "map_of (sc_state c idx) x = map_of (load_doc_hashes k) x"
    proof (cases "x \<in> fst ` set (load_doc_hashes k)")
      case True
      then obtain h where "(x, h) \<in> set (load_doc_hashes k)" by auto
      with v have "map_of (sc_state c idx) x \<noteq> None"
        "map_of (sc_state c idx) x = None \<or> map_of (load_doc_hashes k) x = map_of (sc_state c idx) x"
        by (force simp: validate_index_consistency_def Let_def filter_empty_conv)+
      then show ?thesis by auto
    next
      case False
      then have none: "map_of (load_doc_hashes k) x = None" by (simp add: map_of_eq_None_iff)
      with v have "x \<notin> fst ` set (sc_state c idx)"
        by (auto simp: validate_index_consistency_def Let_def filter_empty_conv)
      then have "map_of (sc_state c idx) x = None" by (simp only: map_of_eq_None_iff simp_thms)
      with none show ?thesis by simp
    qed
  qed
next
  assume ?e
  then have "fst ` set (sc_state c idx) = fst ` set (load_doc_hashes k)" by (metis dom_map_of_conv_image_fst)
  with \<open>?e\<close> show ?v
    by (auto simp: validate_index_consistency_def Let_def filter_empty_conv map_of_eq_None_iff)
qed

text \<open>Orphan sweep, then back-fill: if the client took every document, the check passes.\<close>

lemma reconciled:
  assumes keys: "kb_keys k" and run: "reconcile_missing c k (snd (delete_orphaned_docs c k idx)) = (Inr n, k', idx')"
  shows "validate_index_consistency c k' idx' \<and> load_doc_hashes k' = load_doc_hashes k"
proof -
  define i1 where "i1 = snd (delete_orphaned_docs c k idx)"
  let ?e = "load_doc_hashes k" and ?s = "map_of (sc_state c i1)"
  let ?stale = "stale_doc_ids ?e (sc_state c i1)"
  have orph: "?s x = None" if "map_of ?e x = None" for x
    using that by (simp add: i1_def orphans_gone restrict_map_def map_of_eq_None_iff)
  have stale_iff: "x \<in> set ?stale \<longleftrightarrow> map_of ?e x \<noteq> None \<and> ?s x \<noteq> map_of ?e x" for x
    using dict_ok_hashes [of k] unfolding stale_doc_ids_def dict_ok_def
    by (force simp: map_of_eq_Some_iff)
  show ?thesis
  proof (cases "?stale = []")
    case True
    then have "?s x = map_of ?e x" for x using stale_iff [of x] orph [of x] by (cases "map_of ?e x") auto
    then show ?thesis using run True by (auto simp: reconcile_missing_def Let_def i1_def [symmetric] consistent_iff)
  next
    case False
    have "set ?stale \<subseteq> fst ` set ?e" by (auto simp: stale_doc_ids_def)
    then obtain us where us: "mapE (\<lambda>i. opt_or_raise ValueError (parse_uuid i)) ?stale = Inr us"
      "?stale = map doc_id_for us" "set us \<subseteq> (\<lambda>x. ka_id (fst x)) ` set (projected k)"
      using parse_stale [OF keys] by blast
    let ?rows = "filter (\<lambda>x. ka_id (fst x) \<in> set us) (projected k)"
    let ?docs = "load_search_docs k (Some us)"
    have docs: "map (\<lambda>d. (sd_id d, sd_hash d)) ?docs = map (\<lambda>x. (doc_id_for (ka_id (fst x)), ka_artifact_hash (fst x))) ?rows"
      by (simp add: load_search_docs_def Let_def case_prod_beta' comp_def)
    have docs2: "map sd_id ?docs = map (\<lambda>x. doc_id_for (ka_id (fst x))) ?rows"
      by (simp add: load_search_docs_def Let_def case_prod_beta' comp_def)
    have dist: "distinct (map sd_id ?docs)"
      unfolding docs2 by (rule distinct_map_filter [OF projected_doc_ids [OF keys]])
    have look: "map_of (map (\<lambda>x. (doc_id_for (ka_id (fst x)), ka_artifact_hash (fst x))) ?rows) x
        = (if x \<in> set ?stale then map_of ?e x else None)" for x
    proof -
      have mem: "x \<in> set ?rows \<longleftrightarrow> x \<in> set (projected k) \<and> doc_id_for (ka_id (fst x)) \<in> set ?stale" for x
        unfolding us(2) by (rule in_rows [OF keys us(3)])
      have rd: "distinct (map fst (map (\<lambda>x. (doc_id_for (ka_id (fst x)), ka_artifact_hash (fst x))) ?rows))"
        using dist unfolding docs2 by (simp add: comp_def)
      have pd: "distinct (map fst ?e)" using dict_ok_hashes [of k] by (simp add: dict_ok_def)
      show ?thesis
      proof (cases "x \<in> set ?stale")
        case True
        then obtain h where h: "map_of ?e x = Some h" using stale_iff by blast
        then have "(x, h) \<in> set ?e" by (rule map_of_SomeD)
        then obtain r where as: "r \<in> set (projected k)" "x = doc_id_for (ka_id (fst r))" "h = ka_artifact_hash (fst r)"
          by (auto simp: doc_hashes_eq [OF keys])
        with True mem have "r \<in> set ?rows" by simp
        then have "(x, h) \<in> set (map (\<lambda>x. (doc_id_for (ka_id (fst x)), ka_artifact_hash (fst x))) ?rows)"
          using as(2,3) by force
        with rd have "map_of (map (\<lambda>x. (doc_id_for (ka_id (fst x)), ka_artifact_hash (fst x))) ?rows) x = Some h"
          by (simp only: map_of_eq_Some_iff)
        with True h show ?thesis by simp
      next
        case False
        then have "x \<notin> fst ` set (map (\<lambda>x. (doc_id_for (ka_id (fst x)), ka_artifact_hash (fst x))) ?rows)"
          using mem by force
        with False show ?thesis by (simp add: map_of_eq_None_iff)
      qed
    qed
    from run us False have w: "write_docs c MSG_RECONCILE ?docs k i1 = (Inr n, k', idx')"
      by (simp add: reconcile_missing_def Let_def i1_def [symmetric])
    then have full: "fst (sc_upsert c ?docs i1) = length ?docs" and st: "idx' = snd (sc_upsert c ?docs i1)"
      and k': "k' = record_doc_ids ?docs k"
      by (auto simp: write_docs_def Let_def split_beta split: if_splits)
    have "map_of (sc_state c idx') = map_of ?e"
    proof
      fix x
      show "map_of (sc_state c idx') x = map_of ?e x"
        unfolding st upsert_all [OF full dist] docs
        using look [of x] stale_iff [of x] orph [of x]
        by (cases "map_of ?e x") (auto simp: map_add_def split: if_splits)
    qed
    moreover have "load_doc_hashes k' = ?e"
    proof -
      have "kb_artifacts (fold stamp_doc_id ds k) = kb_artifacts k \<and> kb_sources (fold stamp_doc_id ds k) = kb_sources k" for ds k
        by (induction ds arbitrary: k) (simp_all add: stamp_doc_id_def split: option.splits)
      then show ?thesis by (simp add: k' record_doc_ids_def load_doc_hashes_def projected_def kb_joined_def)
    qed
    ultimately show ?thesis by (simp add: consistent_iff)
  qed
qed

end

lemma local_delete_map: "map_of (snd (local_delete ids idx)) = map_of idx |` (- set ids)"
proof (induction ids idx rule: local_delete.induct)
  case (2 i "is" idx)
  then show ?case by (auto simp: split_beta Let_def delete_conv' restrict_map_def fun_eq_iff)
qed simp

lemma local_state_map: "map_of (local_state idx) = (\<lambda>x. map_option sd_hash (map_of idx x))"
  by (rule ext) (induction idx, auto simp: local_state_def)

lemma local_upsert_map:
  "distinct (map sd_id docs) \<Longrightarrow>
   map_of (dict_update_all idx (map (\<lambda>d. (sd_id d, d)) docs)) = map_of idx ++ map_of (map (\<lambda>d. (sd_id d, d)) docs)"
proof (induction docs arbitrary: idx)
  case (Cons d docs)
  have "sd_id d \<notin> dom (map_of (map (\<lambda>d. (sd_id d, d)) docs))" using Cons.prems
    by (simp add: dom_map_of_conv_image_fst image_image)
  then show ?case using Cons by (simp add: map_add_upd_left) (auto simp: map_add_def fun_eq_iff split: option.splits)
qed simp

interpretation local_index: faithful_client local_client
proof
  fix docs idx
  show "map_of (sc_state local_client (snd (sc_upsert local_client docs idx)))
      = map_of (sc_state local_client idx) ++ map_of (map (\<lambda>d. (sd_id d, sd_hash d)) docs)"
    if "distinct (map sd_id docs)"
  proof
    fix x
    have "map_of (map (\<lambda>d. (sd_id d, sd_hash d)) docs) x = map_option sd_hash (map_of (map (\<lambda>d. (sd_id d, d)) docs) x)"
      by (induction docs) auto
    then show "map_of (sc_state local_client (snd (sc_upsert local_client docs idx))) x
        = (map_of (sc_state local_client idx) ++ map_of (map (\<lambda>d. (sd_id d, sd_hash d)) docs)) x"
      by (simp add: local_client_def local_upsert_def local_state_map local_upsert_map [OF that] map_add_def
          split: option.splits)
  qed
qed (auto simp: local_client_def local_state_map local_delete_map restrict_map_def fun_eq_iff)

lemma local_reconcile_ok:
  assumes "kb_keys k" shows "\<exists>n k' idx'. reconcile_missing local_client k idx = (Inr n, k', idx')"
proof -
  let ?stale = "stale_doc_ids (load_doc_hashes k) (sc_state local_client idx)"
  have "set ?stale \<subseteq> fst ` set (load_doc_hashes k)" by (auto simp: stale_doc_ids_def)
  from parse_stale [OF assms this] show ?thesis
    by (auto simp: reconcile_missing_def Let_def write_docs_def local_client_def local_upsert_def split_beta)
qed

end
