(* ===== verification/CacheGates.thy ===== *)
theory CacheGates
  imports Indexing
begin

text \<open>
  What keeps the build from paying a model twice (\<open>application/cache_gates.py\<close>,
  \<open>infrastructure/postgres/durable_output_cache.py\<close>): the cache keys, the generation and embedding
  gates inside the build's transaction, and the side-committed output cache beneath them. Logs are left out.
\<close>

section \<open>Drafts (docify_artifacts.py)\<close>

record doc_draft =
  dd_type :: string
  dd_kind :: string
  dd_title :: "string option"
  dd_body :: string
  dd_authority :: real
  dd_freshness :: real

definition doc_kind_of :: "string \<Rightarrow> string option" where
  "doc_kind_of t = (if t = ''summary'' \<or> t = ''concept'' then Some ''interpreted''
     else if t = ''source_backed_fact'' then Some ''source_backed'' else None)"

text \<open>The pydantic fields and \<open>_kind_matches_type\<close>.\<close>

definition doc_draft_ok :: "doc_draft \<Rightarrow> bool" where
  "doc_draft_ok d \<longleftrightarrow> doc_kind_of (dd_type d) = Some (dd_kind d) \<and> dd_body d \<noteq> []
     \<and> 0 \<le> dd_authority d \<and> dd_authority d \<le> 1 \<and> 0 \<le> dd_freshness d \<and> dd_freshness d \<le> 1"

section \<open>Cache keys\<close>

definition CACHE_SEPARATOR :: string where "CACHE_SEPARATOR = [CHR 0x1F]"

definition compose_key :: "string \<Rightarrow> string list \<Rightarrow> string" where
  "compose_key kind parts = content_hash (py_join CACHE_SEPARATOR (kind # parts))"

definition doc_extract_cache_key :: "string \<Rightarrow> string \<Rightarrow> string \<Rightarrow> string \<Rightarrow> string \<Rightarrow> string" where
  "doc_extract_cache_key source_hash prompt model params schema =
     compose_key ''doc_extract'' [source_hash, prompt, model, params, schema]"

definition code_graph_cache_key :: "string \<Rightarrow> string \<Rightarrow> string \<Rightarrow> string \<Rightarrow> string \<Rightarrow> string \<Rightarrow> string" where
  "code_graph_cache_key repo commit_sha path file_hash graphify_version parser_version =
     compose_key ''code_graph'' [repo, commit_sha, path, file_hash, graphify_version, parser_version]"

definition OUTPUT_SCHEMA_VERSION :: string where "OUTPUT_SCHEMA_VERSION = ''1.0.0''"
definition DOC_EXTRACT_PROMPT_VERSION :: string where "DOC_EXTRACT_PROMPT_VERSION = ''1.0.0''"

section \<open>GenerationCacheGate\<close>

definition generation_lookup :: "string \<Rightarrow> kb \<Rightarrow> string option" where
  "generation_lookup key k = map_of (kb_gen_cache k) key"

definition lookup_artifact_ids :: "string \<Rightarrow> kb \<Rightarrow> uuid list" where
  "lookup_artifact_ids key k =
     map gm_artifact (sort_key gm_position (filter (\<lambda>m. gm_key m = key) (kb_gen_maps k)))"

text \<open>
  One INSERT per table. A mapping row whose (key, artifact) exists is skipped; one whose
  (key, position) another artifact holds breaks the unique constraint.
\<close>

definition generation_record :: "string \<Rightarrow> string \<Rightarrow> uuid list \<Rightarrow> kb \<Rightarrow> exn + kb" where
  "generation_record key input_hash ids k =
     (let k1 = (if map_of (kb_gen_cache k) key = None then k\<lparr>kb_gen_cache := kb_gen_cache k @ [(key, input_hash)]\<rparr> else k);
          new = filter (\<lambda>(u, i). \<not> list_ex (\<lambda>m. gm_key m = key \<and> gm_artifact m = u) (kb_gen_maps k))
                  (zip ids [0 ..< length ids])
      in if list_ex (\<lambda>(u, i). list_ex (\<lambda>m. gm_key m = key \<and> gm_position m = i) (kb_gen_maps k)) new then Inl DbError
         else Inr (k1\<lparr>kb_gen_maps := kb_gen_maps k1
                @ map (\<lambda>(u, i). \<lparr>gm_key = key, gm_artifact = u, gm_position = i\<rparr>) new\<rparr>))"

section \<open>EmbeddingCacheGate\<close>

definition embedding_lookup :: "embed_key \<Rightarrow> kb \<Rightarrow> embed_row option" where
  "embedding_lookup key k = (case map_of (kb_embeddings k) key of
     Some row \<Rightarrow> if em_vector row = None then None else Some row | None \<Rightarrow> None)"

definition embedding_record :: "embed_key \<Rightarrow> string \<Rightarrow> real list option \<Rightarrow> string option \<Rightarrow> kb \<Rightarrow> kb" where
  "embedding_record key h vector doc_id k =
     (case map_of (kb_embeddings k) key of
        None \<Rightarrow> k\<lparr>kb_embeddings := kb_embeddings k @ [(key, \<lparr>em_hash = h, em_vector = vector, em_doc_id = doc_id\<rparr>)]\<rparr>
      | Some row \<Rightarrow> (case vector of None \<Rightarrow> k
          | Some v \<Rightarrow> k\<lparr>kb_embeddings := AList.update key (row\<lparr>em_hash := h, em_vector := Some v\<rparr>) (kb_embeddings k)\<rparr>))"

section \<open>The durable output cache\<close>

text \<open>
  Each call runs in a transaction of its own; \<open>du_faults\<close> says which of the coming calls fail with an
  \<open>SQLAlchemyError\<close>. A failure degrades the cache and is a miss, or a put that did nothing.
\<close>

record durable =
  du_docs :: "(string, doc_draft list) dict"
  du_vectors :: "(string \<times> string, string \<times> real list) dict"
  du_degraded :: bool
  du_faults :: "bool list"

definition durable_fault :: "durable \<Rightarrow> bool \<times> durable" where
  "durable_fault d = (case du_faults d of [] \<Rightarrow> (False, d)
     | b # bs \<Rightarrow> (b, d\<lparr>du_faults := bs, du_degraded := du_degraded d \<or> b\<rparr>))"

definition durable_get_doc :: "string \<Rightarrow> durable \<Rightarrow> doc_draft list option \<times> durable" where
  "durable_get_doc key d = (let (failed, d1) = durable_fault d in (if failed then None else map_of (du_docs d1) key, d1))"

definition durable_put_doc :: "string \<Rightarrow> doc_draft list \<Rightarrow> durable \<Rightarrow> durable" where
  "durable_put_doc key drafts d = (let (failed, d1) = durable_fault d in
     if failed \<or> map_of (du_docs d1) key \<noteq> None then d1 else d1\<lparr>du_docs := du_docs d1 @ [(key, drafts)]\<rparr>)"

definition durable_get_vector :: "string \<times> string \<Rightarrow> durable \<Rightarrow> (string \<times> real list) option \<times> durable" where
  "durable_get_vector key d = (let (failed, d1) = durable_fault d in (if failed then None else map_of (du_vectors d1) key, d1))"

definition durable_put_vector :: "string \<times> string \<Rightarrow> string \<times> real list \<Rightarrow> durable \<Rightarrow> durable" where
  "durable_put_vector key v d = (let (failed, d1) = durable_fault d in
     if failed \<or> map_of (du_vectors d1) key \<noteq> None then d1 else d1\<lparr>du_vectors := du_vectors d1 @ [(key, v)]\<rparr>)"

section \<open>What a key and a record are worth\<close>

text \<open>The hashed text determines the parts, when no part holds the separator.\<close>

lemma join_separator_inj:
  assumes "\<forall>x \<in> set xs. CHR 0x1F \<notin> set x" "\<forall>x \<in> set ys. CHR 0x1F \<notin> set x" "xs \<noteq> []" "ys \<noteq> []"
    and "py_join CACHE_SEPARATOR xs = py_join CACHE_SEPARATOR ys"
  shows "xs = ys"
proof -
  have one: "split_on d x = [x]" if "d \<notin> set x" for d :: char and x using that by (induction x) auto
  have two: "split_on d (x @ d # r) = x # split_on d r" if "d \<notin> set x" for d :: char and x r
    using that by (induction x) auto
  have s: "split_on CHR 0x1F (py_join CACHE_SEPARATOR zs) = zs" if "\<forall>x \<in> set zs. CHR 0x1F \<notin> set x" "zs \<noteq> []" for zs
    using that
  proof (induction zs)
    case (Cons x zs)
    show ?case
    proof (cases zs)
      case Nil
      with Cons.prems one show ?thesis by simp
    next
      case (Cons y ys)
      then have "split_on CHR 0x1F (py_join CACHE_SEPARATOR (x # zs)) = split_on CHR 0x1F (x @ CHR 0x1F # py_join CACHE_SEPARATOR zs)"
        by (simp add: CACHE_SEPARATOR_def)
      also have "\<dots> = x # split_on CHR 0x1F (py_join CACHE_SEPARATOR zs)" using Cons.prems by (intro two) simp
      also have "split_on CHR 0x1F (py_join CACHE_SEPARATOR zs) = zs"
        by (rule Cons.IH) (use Cons.prems(1) Cons in simp_all)
      finally show ?thesis .
    qed
  qed simp
  show ?thesis using s [OF assms(1,3)] s [OF assms(2,4)] unfolding assms(5) by (rule trans [OF sym])
qed

text \<open>A recorded generation is a hit that gives back the ids in their order.\<close>

lemma generation_record_hit:
  assumes "generation_record key h ids k = Inr k'" "distinct ids" "\<forall>m \<in> set (kb_gen_maps k). gm_key m \<noteq> key"
  shows "generation_lookup key k' \<noteq> None" "lookup_artifact_ids key k' = ids"
proof -
  have new: "filter (\<lambda>(u, i). \<not> list_ex (\<lambda>m. gm_key m = key \<and> gm_artifact m = u) (kb_gen_maps k)) (zip ids [0 ..< length ids])
      = zip ids [0 ..< length ids]"
    using assms(3) by (auto simp: filter_id_conv list_ex_iff)
  have old: "filter (\<lambda>m. gm_key m = key) (kb_gen_maps k) = []" using assms(3) by (auto simp: filter_empty_conv)
  let ?rows = "map (\<lambda>(u, i). \<lparr>gm_key = key, gm_artifact = u, gm_position = i\<rparr>) (zip ids [0 ..< length ids])"
  have k': "kb_gen_maps k' = kb_gen_maps k @ ?rows" "map_of (kb_gen_cache k') key \<noteq> None"
    using assms(1) unfolding generation_record_def new Let_def by (auto split: if_splits simp: map_add_def)
  then show "generation_lookup key k' \<noteq> None" by (simp add: generation_lookup_def)
  have all: "filter (\<lambda>m. gm_key m = key) ?rows = ?rows" by (auto simp: filter_id_conv)
  have "map gm_position ?rows = [0 ..< length ids]" by (simp add: split_beta comp_def map_snd_zip flip: snd_def)
  then have "sorted (map gm_position ?rows)" by simp
  then have "sort_key gm_position ?rows = ?rows" by (rule sort_key_id_if_sorted)
  moreover have "map gm_artifact ?rows = ids" by (simp add: split_beta comp_def)
  ultimately show "lookup_artifact_ids key k' = ids"
    unfolding lookup_artifact_ids_def k'(1) filter_append old all by simp
qed

lemma embedding_record_hit: "embedding_lookup key (embedding_record key h (Some v) doc k) \<noteq> None"
  by (auto simp: embedding_lookup_def embedding_record_def map_add_def split: option.splits)

text \<open>What is put is kept for good: a later put changes nothing, and a get finds it unless it fails.\<close>

lemma durable_put_keeps:
  "map_of (du_docs d) key = Some x \<Longrightarrow> map_of (du_docs (durable_put_doc key' y d)) key = Some x"
  by (auto simp: durable_put_doc_def durable_fault_def split_beta map_add_def split: list.splits)

lemma durable_get_after_put:
  assumes "map_of (du_docs d) key = None" "du_faults d = []"
  shows "fst (durable_get_doc key (durable_put_doc key x d)) = Some x"
  using assms by (simp add: durable_put_doc_def durable_get_doc_def durable_fault_def map_add_def)

end
