(* ===== verification/AclIntersection.thy ===== *)
theory AclIntersection
  imports BuildTables
begin

text \<open>
  The ACL of a derived artifact (\<open>domain/acl_intersection.py\<close>) and the commit artifact that
  uses it (\<open>application/write_commit.py\<close>). The lemmas read the stored ACL with the broker's
  own rule (\<open>acl_admits\<close>), for a requester who is not in the sentinel team.
\<close>

section \<open>The intersection\<close>

definition DENY_ALL_ACL :: "string list" where
  "DENY_ALL_ACL = [''__no_team__'']"

definition merge_path_acls :: "string list list \<Rightarrow> string list" where
  "merge_path_acls acl_rows =
     (case filter (\<lambda>acl. acl \<noteq> []) acl_rows of
        [] \<Rightarrow> []
      | acl # acls \<Rightarrow>
          (let shared = filter (\<lambda>t. \<forall>a \<in> set acls. t \<in> set a) acl
           in if shared = [] then DENY_ALL_ACL else sort (remdups shared)))"

definition commit_acl_intersection :: "string list \<Rightarrow> (string, string list) dict \<Rightarrow> string list" where
  "commit_acl_intersection target_paths path_acls =
     (let resolved = concat (map (\<lambda>p. case map_of path_acls p of Some acl \<Rightarrow> [acl] | None \<Rightarrow> []) target_paths)
      in if resolved = [] then DENY_ALL_ACL else merge_path_acls resolved)"

text \<open>A requester none of whose teams is the sentinel.\<close>

definition real_requester :: "requester \<Rightarrow> bool" where
  "real_requester r \<longleftrightarrow> ''__no_team__'' \<notin> teams r"

lemma deny_all_denies: "real_requester r \<Longrightarrow> \<not> acl_admits r DENY_ALL_ACL"
  by (simp add: real_requester_def acl_admits_def DENY_ALL_ACL_def)

lemma merge_admits:
  assumes r: "real_requester r" and adm: "acl_admits r (merge_path_acls acls)"
    and a: "a \<in> set acls"
  shows "acl_admits r a"
proof (cases "a = []")
  case False
  then have mem: "a \<in> set (filter (\<lambda>acl. acl \<noteq> []) acls)" using a by simp
  then obtain b bs where split: "filter (\<lambda>acl. acl \<noteq> []) acls = b # bs"
    by (cases "filter (\<lambda>acl. acl \<noteq> []) acls") auto
  define shared where "shared = filter (\<lambda>t. \<forall>a \<in> set bs. t \<in> set a) b"
  have eq: "merge_path_acls acls = (if shared = [] then DENY_ALL_ACL else sort (remdups shared))"
    by (simp add: merge_path_acls_def split shared_def Let_def)
  have ne: "shared \<noteq> []" using adm deny_all_denies [OF r] by (auto simp: eq)
  then have "teams r \<inter> set shared \<noteq> {}" using adm
    by (auto simp: eq acl_admits_def dest: arg_cong [where f = set])
  then obtain t where "t \<in> teams r" "t \<in> set shared" by blast
  moreover have "t \<in> set a" using \<open>t \<in> set shared\<close> mem by (auto simp: shared_def split)
  ultimately show ?thesis by (auto simp: acl_admits_def)
qed simp

text \<open>Never narrower than it must be: one team that every constrained input admits is kept.\<close>

lemma merge_keeps_common:
  assumes t: "t \<in> teams r" and all: "\<And>a. a \<in> set acls \<Longrightarrow> a = [] \<or> t \<in> set a"
  shows "acl_admits r (merge_path_acls acls)"
proof (cases "filter (\<lambda>acl. acl \<noteq> []) acls")
  case (Cons b bs)
  then have "\<And>a. a \<in> set (b # bs) \<Longrightarrow> t \<in> set a"
    using all by (metis (mono_tags, lifting) mem_Collect_eq set_filter)
  then have "t \<in> set (filter (\<lambda>t. \<forall>a \<in> set bs. t \<in> set a) b)" by simp
  then show ?thesis using t
    by (auto simp: merge_path_acls_def Cons acl_admits_def Let_def filter_empty_conv)
qed (simp add: merge_path_acls_def)

lemma commit_acl_admits:
  assumes "real_requester r" and "acl_admits r (commit_acl_intersection ps d)"
    and "p \<in> set ps" and "map_of d p = Some acl"
  shows "acl_admits r acl"
proof -
  let ?res = "concat (map (\<lambda>p. case map_of d p of Some acl \<Rightarrow> [acl] | None \<Rightarrow> []) ps)"
  have "acl \<in> set ?res" using assms(3,4) by force
  moreover from this have "?res \<noteq> []" by (metis empty_iff list.set(1))
  then have "acl_admits r (merge_path_acls ?res)"
    using assms(2) unfolding commit_acl_intersection_def Let_def by (simp only: if_False)
  ultimately show ?thesis by (blast intro: merge_admits [OF assms(1)])
qed

lemma commit_acl_unknown:
  assumes "real_requester r" and "\<And>p. p \<in> set ps \<Longrightarrow> map_of d p = None"
  shows "\<not> acl_admits r (commit_acl_intersection ps d)"
proof -
  have "concat (map (\<lambda>p. case map_of d p of Some acl \<Rightarrow> [acl] | None \<Rightarrow> []) ps) = []"
    using assms(2) by simp
  then show ?thesis by (simp add: commit_acl_intersection_def deny_all_denies [OF assms(1)])
qed

section \<open>Commit artifacts (write_commit.py)\<close>

definition COMMIT_ARTIFACT_TYPE :: string where
  "COMMIT_ARTIFACT_TYPE = ''commit''"

text \<open>\<open>setdefault(path, []).append(acl)\<close> over the rows, then the merge of each list.\<close>

definition acl_rows_by_path :: "kb_source list \<Rightarrow> (string, string list list) dict" where
  "acl_rows_by_path rows = foldl (\<lambda>d s. case src_path s of None \<Rightarrow> d
     | Some p \<Rightarrow> AList.update p ((case map_of d p of Some l \<Rightarrow> l | None \<Rightarrow> []) @ [src_acl s]) d) [] rows"

definition file_acls :: "kb \<Rightarrow> string list \<Rightarrow> string option \<Rightarrow> (string, string list) dict" where
  "file_acls k changed_files repo =
     (if changed_files = [] then []
      else map (\<lambda>(p, rows). (p, merge_path_acls rows)) (acl_rows_by_path
        (filter (\<lambda>s. (case src_path s of Some p \<Rightarrow> p \<in> set changed_files | None \<Rightarrow> False)
           \<and> src_repo s = repo \<and> \<not> src_deleted s) (kb_sources k))))"

definition new_artifact :: "uuid \<Rightarrow> nat \<Rightarrow> string \<Rightarrow> string option \<Rightarrow> string option \<Rightarrow> string \<Rightarrow> int
     \<Rightarrow> string list \<Rightarrow> string \<Rightarrow> real \<Rightarrow> real \<Rightarrow> int \<Rightarrow> kb_artifact" where
  "new_artifact u sid typ title body version seq acl kind authority freshness t =
     \<lparr>ka_id = u, ka_source = sid, ka_type = typ, ka_title = title, ka_body = body, ka_search = None,
      ka_kind = Some kind, ka_authority = Some authority, ka_centrality = None, ka_acl = acl,
      ka_span_start = None, ka_span_end = None, ka_valid_from = seq, ka_invalidated = None,
      ka_content_hash = map_option content_hash body, ka_artifact_hash = None, ka_version = version,
      ka_prior = None, ka_freshness = Some freshness, ka_created = t\<rparr>"

definition commit_artifact :: "kb \<Rightarrow> uuid \<Rightarrow> int \<Rightarrow> nat \<Rightarrow> string \<Rightarrow> int \<Rightarrow> string \<Rightarrow> string \<Rightarrow>
     string list \<Rightarrow> string option \<Rightarrow> kb_artifact" where
  "commit_artifact k u t sid version seq title body changed_files repo =
     new_artifact u sid COMMIT_ARTIFACT_TYPE (Some title) (Some body) version seq
       (commit_acl_intersection changed_files (file_acls k changed_files repo))
       ''source_backed'' 1 1 t"

lemma acl_rows_foldl:
  "map_of (foldl (\<lambda>d s. case src_path s of None \<Rightarrow> d
     | Some p \<Rightarrow> AList.update p ((case map_of d p of Some l \<Rightarrow> l | None \<Rightarrow> []) @ [src_acl s]) d) d rows) p
   = (let here = map src_acl (filter (\<lambda>s. src_path s = Some p) rows)
      in case map_of d p of Some l \<Rightarrow> Some (l @ here) | None \<Rightarrow> if here = [] then None else Some here)"
  by (induction rows arbitrary: d) (auto simp: Let_def update_conv' split: option.splits)

lemma acl_rows_by_path_lookup:
  "map_of (acl_rows_by_path rows) p =
     (let here = map src_acl (filter (\<lambda>s. src_path s = Some p) rows)
      in if here = [] then None else Some here)"
  by (simp add: acl_rows_by_path_def acl_rows_foldl)

lemma map_of_map_snd: "map_of (map (\<lambda>(p, x). (p, f x)) d) p = map_option f (map_of d p)"
  by (induction d) auto

text \<open>A requester who sees the commit sees every live source row of a changed file in its repo.\<close>

lemma commit_artifact_never_widens:
  assumes r: "real_requester r"
    and sees: "acl_admits r (ka_acl (commit_artifact k u t sid v seq ti body files repo))"
    and s: "s \<in> set (kb_sources k)" "\<not> src_deleted s" "src_repo s = repo" "src_path s = Some p" "p \<in> set files"
  shows "acl_admits r (src_acl s)"
proof -
  let ?rows = "filter (\<lambda>s. (case src_path s of Some p \<Rightarrow> p \<in> set files | None \<Rightarrow> False)
     \<and> src_repo s = repo \<and> \<not> src_deleted s) (kb_sources k)"
  let ?here = "map src_acl (filter (\<lambda>s. src_path s = Some p) ?rows)"
  have mem: "src_acl s \<in> set ?here" using s by auto
  then have "?here \<noteq> []" by (metis empty_iff list.set(1))
  then have "map_of (file_acls k files repo) p = Some (merge_path_acls ?here)"
    using s(5) by (auto simp: file_acls_def map_of_map_snd acl_rows_by_path_lookup Let_def)
  from commit_acl_admits [OF r _ s(5) this] sees have "acl_admits r (merge_path_acls ?here)"
    by (simp add: commit_artifact_def new_artifact_def)
  from merge_admits [OF r this mem] show ?thesis .
qed

end
