(* ===== verification/Invalidation.thy ===== *)
theory Invalidation
  imports BuildTables
begin

text \<open>
  The invalidation pass (\<open>application/invalidation.py\<close>): the sources that vanished, rename
  detection, the deletion sweep, the supersession sweep and ACL propagation, each a function of
  the registry the session sees, composed as \<open>run_invalidation_pass\<close> does. Sets of ids are
  sets; the rows a SELECT returns are a list in table order.
\<close>

section \<open>The statements the sweeps share\<close>

definition invalidate_artifacts :: "int \<Rightarrow> uuid set \<Rightarrow> kb \<Rightarrow> kb" where
  "invalidate_artifacts seq ids k = k\<lparr>kb_artifacts :=
     update_where (\<lambda>a. ka_id a \<in> ids \<and> live_artifact a) (\<lambda>a. a\<lparr>ka_invalidated := Some seq\<rparr>) (kb_artifacts k)\<rparr>"

definition invalidate_edges :: "int \<Rightarrow> (kb_edge \<Rightarrow> bool) \<Rightarrow> kb \<Rightarrow> kb" where
  "invalidate_edges seq p k = k\<lparr>kb_edges :=
     update_where (\<lambda>e. p e \<and> live_edge e) (\<lambda>e. e\<lparr>ke_invalidated := Some seq\<rparr>) (kb_edges k)\<rparr>"

definition mark_deleted :: "nat set \<Rightarrow> kb \<Rightarrow> kb" where
  "mark_deleted ids k = k\<lparr>kb_sources :=
     update_where (\<lambda>s. src_id s \<in> ids) (\<lambda>s. s\<lparr>src_deleted := True\<rparr>) (kb_sources k)\<rparr>"

definition live_of_sources :: "nat set \<Rightarrow> kb \<Rightarrow> kb_artifact list" where
  "live_of_sources ids k = filter (\<lambda>a. ka_source a \<in> ids \<and> live_artifact a) (kb_artifacts k)"

section \<open>Vanished sources\<close>

definition last_recorded :: "kb_source \<Rightarrow> int" where
  "last_recorded s = (case src_last_seen s of Some t \<Rightarrow> t | None \<Rightarrow> src_created s)"

definition unseen_live :: "nat set \<Rightarrow> kb \<Rightarrow> kb_source list" where
  "unseen_live seen k = filter (\<lambda>s. \<not> src_deleted s \<and> src_id s \<notin> seen) (kb_sources k)"

definition vanished_live_sources :: "nat set \<Rightarrow> int \<Rightarrow> kb \<Rightarrow> nat set \<times> nat" where
  "vanished_live_sources seen started k =
     (src_id ` set (filter (\<lambda>s. last_recorded s < started) (unseen_live seen k)),
      length (filter (\<lambda>s. \<not> last_recorded s < started) (unseen_live seen k)))"

section \<open>Renames\<close>

text \<open>
  One column of \<open>_reattach_edges\<close>: the edges that would become loops are invalidated, the
  others repointed. \<open>get\<close>/\<open>put\<close> are the column, \<open>oth\<close> the other endpoint.
\<close>

definition reattach_column :: "int \<Rightarrow> uuid \<Rightarrow> uuid \<Rightarrow> (kb_edge \<Rightarrow> uuid) \<Rightarrow> (kb_edge \<Rightarrow> uuid)
     \<Rightarrow> (uuid \<Rightarrow> kb_edge \<Rightarrow> kb_edge) \<Rightarrow> kb \<Rightarrow> nat \<times> kb" where
  "reattach_column seq old new get oth put k =
     (let k1 = invalidate_edges seq (\<lambda>e. get e = old \<and> oth e = new) k;
          p = (\<lambda>e. get e = old \<and> oth e \<noteq> new \<and> live_edge e)
      in (length (filter p (kb_edges k1)), k1\<lparr>kb_edges := update_where p (put new) (kb_edges k1)\<rparr>))"

definition put_from :: "uuid \<Rightarrow> kb_edge \<Rightarrow> kb_edge" where
  "put_from u e = e\<lparr>ke_from := u\<rparr>"

definition put_to :: "uuid \<Rightarrow> kb_edge \<Rightarrow> kb_edge" where
  "put_to u e = e\<lparr>ke_to := u\<rparr>"

definition reattach_edges :: "int \<Rightarrow> uuid \<Rightarrow> uuid \<Rightarrow> kb \<Rightarrow> nat \<times> kb" where
  "reattach_edges seq old new k =
     (let (n1, k1) = reattach_column seq old new ke_from ke_to put_from k;
          (n2, k2) = reattach_column seq old new ke_to ke_from put_to k1
      in (n1 + n2, k2))"

record rename_state =
  rn_renames :: nat
  rn_reattached :: nat
  rn_sources :: "nat set"
  rn_matched :: "string set"
  rn_kb :: kb

text \<open>\<open>old_by_hash.setdefault(...)\<close>: the first artifact of a hash wins.\<close>

fun old_by_hash :: "kb_artifact list \<Rightarrow> (string, uuid \<times> nat) dict \<Rightarrow> (string, uuid \<times> nat) dict" where
  "old_by_hash [] d = d"
| "old_by_hash (a # as) d = old_by_hash as
     (case ka_content_hash a of None \<Rightarrow> d
      | Some h \<Rightarrow> if map_of d h = None then d @ [(h, (ka_id a, ka_source a))] else d)"

definition rename_step :: "int \<Rightarrow> (string, uuid \<times> nat) dict \<Rightarrow> kb_artifact \<Rightarrow> rename_state \<Rightarrow> rename_state" where
  "rename_step seq old row st =
     (case ka_content_hash row of None \<Rightarrow> st
      | Some h \<Rightarrow>
        if h \<in> rn_matched st then st
        else (case map_of old h of None \<Rightarrow> st
          | Some (old_id, old_source) \<Rightarrow>
             (let k = rn_kb st;
                  k1 = k\<lparr>kb_artifacts := update_where (\<lambda>a. ka_id a = ka_id row)
                          (\<lambda>a. a\<lparr>ka_prior := Some old_id\<rparr>) (kb_artifacts k)\<rparr>;
                  (n, k2) = reattach_edges seq old_id (ka_id row) k1;
                  k3 = mark_deleted {old_source} (invalidate_artifacts seq {old_id} k2)
              in \<lparr>rn_renames = rn_renames st + 1, rn_reattached = rn_reattached st + n,
                  rn_sources = insert old_source (rn_sources st), rn_matched = insert h (rn_matched st),
                  rn_kb = k3\<rparr>)))"

definition old_rows :: "nat set \<Rightarrow> kb \<Rightarrow> kb_artifact list" where
  "old_rows vanished k = filter (\<lambda>a. ka_content_hash a \<noteq> None) (live_of_sources vanished k)"

definition new_rows :: "int \<Rightarrow> nat set \<Rightarrow> (string, uuid \<times> nat) dict \<Rightarrow> kb \<Rightarrow> kb_artifact list" where
  "new_rows seq vanished old k = filter (\<lambda>a. ka_valid_from a = seq \<and> ka_source a \<notin> vanished
     \<and> (case ka_content_hash a of Some h \<Rightarrow> map_of old h \<noteq> None | None \<Rightarrow> False)) (kb_artifacts k)"

definition no_renames :: "kb \<Rightarrow> rename_state" where
  "no_renames k = \<lparr>rn_renames = 0, rn_reattached = 0, rn_sources = {}, rn_matched = {}, rn_kb = k\<rparr>"

definition detect_renames :: "int \<Rightarrow> nat set \<Rightarrow> kb \<Rightarrow> rename_state" where
  "detect_renames seq vanished k =
     (if vanished = {} then no_renames k
      else (let old = old_by_hash (old_rows vanished k) []
            in if old = [] then no_renames k
               else fold (rename_step seq old) (new_rows seq vanished old k) (no_renames k)))"

section \<open>The deletion sweep\<close>

record deletion_counts =
  dc_sources :: nat
  dc_artifacts :: nat
  dc_edges :: nat
  dc_caches :: nat

definition retire_caches :: "uuid set \<Rightarrow> kb \<Rightarrow> nat \<times> kb" where
  "retire_caches ids k =
     (length (filter (\<lambda>m. gm_artifact m \<in> ids) (kb_gen_maps k))
        + length (filter (\<lambda>(key, row). fst key \<in> ids) (kb_embeddings k)),
      k\<lparr>kb_gen_maps := filter (\<lambda>m. gm_artifact m \<notin> ids) (kb_gen_maps k),
        kb_embeddings := filter (\<lambda>(key, row). fst key \<notin> ids) (kb_embeddings k)\<rparr>)"

definition deletion_sweep :: "int \<Rightarrow> nat set \<Rightarrow> kb \<Rightarrow> deletion_counts \<times> kb" where
  "deletion_sweep seq source_ids k =
     (if source_ids = {} then (\<lparr>dc_sources = 0, dc_artifacts = 0, dc_edges = 0, dc_caches = 0\<rparr>, k)
      else (let ids = ka_id ` set (live_of_sources source_ids k);
                k1 = mark_deleted source_ids k
            in if ids = {} then (\<lparr>dc_sources = card source_ids, dc_artifacts = 0, dc_edges = 0, dc_caches = 0\<rparr>, k1)
               else (let k2 = invalidate_artifacts seq ids k1;
                         k3 = invalidate_edges seq (touches ids) k2;
                         (c, k4) = retire_caches ids k3
                     in (\<lparr>dc_sources = card source_ids,
                          dc_artifacts = length (filter (\<lambda>a. ka_id a \<in> ids \<and> live_artifact a) (kb_artifacts k1)),
                          dc_edges = length (filter (\<lambda>e. touches ids e \<and> live_edge e) (kb_edges k2)),
                          dc_caches = c\<rparr>, k4))))"

section \<open>The supersession sweep\<close>

definition supersession_sweep :: "int \<Rightarrow> nat set \<Rightarrow> kb \<Rightarrow> nat \<times> kb" where
  "supersession_sweep seq changed k =
     (if changed = {} then (0, k)
      else (let ids = ka_id ` set (filter (\<lambda>a. ka_valid_from a < seq) (live_of_sources changed k))
            in if ids = {} then (0, k)
               else (length (filter (\<lambda>a. ka_id a \<in> ids \<and> live_artifact a) (kb_artifacts k)),
                     invalidate_edges seq (touches ids) (invalidate_artifacts seq ids k))))"

section \<open>ACL propagation\<close>

definition acl_differs :: "kb_source \<Rightarrow> kb_artifact \<Rightarrow> bool" where
  "acl_differs s a \<longleftrightarrow> ka_source a = src_id s \<and> live_artifact a \<and> ka_acl a \<noteq> src_acl s"

definition propagate_one :: "kb_source \<Rightarrow> nat \<times> nat \<times> kb \<Rightarrow> nat \<times> nat \<times> kb" where
  "propagate_one s st = (case st of (sources_n, artifacts_n, k) \<Rightarrow>
     (let n = length (filter (acl_differs s) (kb_artifacts k));
          k' = k\<lparr>kb_artifacts := update_where (acl_differs s) (\<lambda>a. a\<lparr>ka_acl := src_acl s\<rparr>) (kb_artifacts k)\<rparr>
      in (if n = 0 then sources_n else sources_n + 1, artifacts_n + n, k')))"

definition propagate_acl :: "nat set \<Rightarrow> kb \<Rightarrow> nat \<times> nat \<times> kb" where
  "propagate_acl seen k =
     (if seen = {} then (0, 0, k)
      else fold propagate_one (filter (\<lambda>s. src_id s \<in> seen) (kb_sources k)) (0, 0, k))"

section \<open>The pass\<close>

record invalidation_result =
  ir_renames :: nat
  ir_reattached :: nat
  ir_deletion :: deletion_counts
  ir_superseded :: nat
  ir_acl_sources :: nat
  ir_acl_artifacts :: nat
  ir_concurrent :: nat

definition run_invalidation_pass ::
  "int \<Rightarrow> nat set \<Rightarrow> nat set \<Rightarrow> int \<Rightarrow> kb \<Rightarrow> invalidation_result \<times> kb" where
  "run_invalidation_pass seq seen changed started k =
     (let (vanished, concurrent) = vanished_live_sources seen started k;
          rn = detect_renames seq vanished k;
          (deletion, k2) = deletion_sweep seq (vanished - rn_sources rn) (rn_kb rn);
          (superseded, k3) = supersession_sweep seq changed k2;
          (acl_sources, acl_artifacts, k4) = propagate_acl seen k3
      in (\<lparr>ir_renames = rn_renames rn, ir_reattached = rn_reattached rn, ir_deletion = deletion,
           ir_superseded = superseded, ir_acl_sources = acl_sources, ir_acl_artifacts = acl_artifacts,
           ir_concurrent = concurrent\<rparr>, k4))"

section \<open>Older versions keep their artifacts\<close>

text \<open>
  Row by row: only the three columns the pass writes may differ, and membership in every
  version before \<open>seq\<close> is the same.
\<close>

definition row_core :: "kb_artifact \<Rightarrow> kb_artifact" where
  "row_core a = a\<lparr>ka_invalidated := None, ka_acl := [], ka_prior := None\<rparr>"

definition same_row :: "int \<Rightarrow> kb_artifact \<Rightarrow> kb_artifact \<Rightarrow> bool" where
  "same_row seq a b \<longleftrightarrow>
     row_core a = row_core b \<and> (\<forall>s < seq. in_version s a = in_version s b)"

definition versions_kept :: "int \<Rightarrow> kb \<Rightarrow> kb \<Rightarrow> bool" where
  "versions_kept seq k k' \<longleftrightarrow> list_all2 (same_row seq) (kb_artifacts k) (kb_artifacts k')"

lemma same_row_refl [simp]: "same_row seq a a"
  by (simp add: same_row_def)

lemma same_row_trans: "same_row seq a b \<Longrightarrow> same_row seq b c \<Longrightarrow> same_row seq a c"
  by (simp add: same_row_def)

lemma kept_same: "kb_artifacts k' = kb_artifacts k \<Longrightarrow> versions_kept seq k k'"
  by (simp add: versions_kept_def list_all2_refl)

lemma kept_trans: "versions_kept seq k k1 \<Longrightarrow> versions_kept seq k1 k2 \<Longrightarrow> versions_kept seq k k2"
  unfolding versions_kept_def by (erule (1) list_all2_trans [rotated]) (rule same_row_trans)

lemma kept_update:
  assumes "\<And>a. p a \<Longrightarrow> same_row seq a (f a)"
  shows "versions_kept seq k (k\<lparr>kb_artifacts := update_where p f (kb_artifacts k)\<rparr>)"
proof -
  have "list_all2 (same_row seq) rows (update_where p f rows)" for rows
    using assms by (induction rows) auto
  then show ?thesis by (simp add: versions_kept_def)
qed

lemma other_columns [simp]:
  "kb_artifacts (invalidate_edges seq p k) = kb_artifacts k"
  "kb_artifacts (mark_deleted ids k) = kb_artifacts k"
  "kb_artifacts (snd (retire_caches ids k)) = kb_artifacts k"
  "kb_artifacts (snd (reattach_column seq old new g h put k)) = kb_artifacts k"
  "kb_edges (invalidate_artifacts seq ids k) = kb_edges k"
  "kb_edges (mark_deleted ids k) = kb_edges k"
  "kb_edges (snd (retire_caches ids k)) = kb_edges k"
  "kb_sources (invalidate_edges seq p k) = kb_sources k"
  "kb_sources (invalidate_artifacts seq ids k) = kb_sources k"
  "kb_sources (snd (retire_caches ids k)) = kb_sources k"
  "kb_sources (snd (reattach_column seq old new g h put k)) = kb_sources k"
  by (simp_all add: invalidate_edges_def mark_deleted_def retire_caches_def reattach_column_def
      invalidate_artifacts_def Let_def)

lemma reattach_columns [simp]:
  "kb_artifacts (snd (reattach_edges seq old new k)) = kb_artifacts k"
  "kb_sources (snd (reattach_edges seq old new k)) = kb_sources k"
  by (simp_all add: reattach_edges_def split_beta Let_def)

text \<open>Only the artifact table matters.\<close>

lemma kept_other [simp]:
  "versions_kept seq k (invalidate_edges s p k1) = versions_kept seq k k1"
  "versions_kept seq k (mark_deleted ids k1) = versions_kept seq k k1"
  "versions_kept seq k (snd (retire_caches ids k1)) = versions_kept seq k k1"
  "versions_kept seq k (snd (reattach_edges s old new k1)) = versions_kept seq k k1"
  by (simp_all add: versions_kept_def)

lemma kept_invalidate:
  assumes "versions_kept seq k k1" shows "versions_kept seq k (invalidate_artifacts seq ids k1)"
proof (rule kept_trans [OF assms])
  show "versions_kept seq k1 (invalidate_artifacts seq ids k1)" unfolding invalidate_artifacts_def
    by (rule kept_update) (auto simp: same_row_def row_core_def live_artifact_def in_version_def member_at_def)
qed

lemma kept_rename_step:
  "versions_kept seq (rn_kb st) (rn_kb (rename_step seq old row st))"
proof -
  have "versions_kept seq k (k\<lparr>kb_artifacts := update_where p (\<lambda>a. a\<lparr>ka_prior := Some u\<rparr>) (kb_artifacts k)\<rparr>)"
    for k p u by (rule kept_update) (simp add: same_row_def row_core_def in_version_def)
  then show ?thesis
    by (auto simp: rename_step_def split_beta Let_def kept_same split: option.splits prod.splits
      intro!: kept_invalidate)
qed

lemma kept_renames: "versions_kept seq k (rn_kb (detect_renames seq vanished k))"
proof -
  have "versions_kept seq (rn_kb st) (rn_kb (fold (rename_step seq old) rows st))" for old rows st
    by (induction rows arbitrary: st) (auto intro: kept_same kept_trans [OF kept_rename_step])
  from this [of "no_renames k"] show ?thesis
    by (simp add: detect_renames_def no_renames_def Let_def kept_same)
qed

lemma kept_deletion: "versions_kept seq k (snd (deletion_sweep seq ids k))"
  by (simp add: deletion_sweep_def Let_def split_beta kept_same kept_invalidate)

lemma kept_supersession: "versions_kept seq k (snd (supersession_sweep seq ch k))"
  by (simp add: supersession_sweep_def Let_def kept_same kept_invalidate)

lemma kept_propagate_one: "versions_kept seq (snd (snd st)) (snd (snd (propagate_one s st)))"
  by (cases st) (auto simp: propagate_one_def Let_def same_row_def row_core_def in_version_def intro!: kept_update)

lemma kept_propagate: "versions_kept seq k (snd (snd (propagate_acl seen k)))"
proof -
  have "versions_kept seq (snd (snd st)) (snd (snd (fold propagate_one ss st)))" for ss st
  proof (induction ss arbitrary: st)
    case (Cons s ss)
    show ?case using kept_trans [OF kept_propagate_one Cons.IH] by simp
  qed (simp add: kept_same)
  from this [of "(0, 0, k)"] show ?thesis by (simp add: propagate_acl_def kept_same)
qed

lemma kept_pass: "versions_kept seq k (snd (run_invalidation_pass seq seen changed started k))"
  unfolding run_invalidation_pass_def Let_def split_beta
  by (simp, intro kept_trans [OF kept_renames kept_trans [OF kept_deletion
      kept_trans [OF kept_supersession kept_propagate]]])

text \<open>What a reader of an older version sees: the same rows, with the ACL of today.\<close>

lemma kept_version_ids:
  assumes "versions_kept seq k k'" and "s < seq"
  shows "map ka_id (filter (in_version s) (kb_artifacts k')) = map ka_id (filter (in_version s) (kb_artifacts k))"
proof -
  have core: "ka_id (row_core a) = ka_id a" for a by (simp add: row_core_def)
  have id: "ka_id a = ka_id b" if "same_row seq a b" for a b
    using that core by (metis same_row_def)
  from assms(1) show ?thesis unfolding versions_kept_def
  proof (induction rule: list_all2_induct)
    case (Cons a as b bs)
    have "in_version s a = in_version s b" using Cons.hyps(1) assms(2) by (simp add: same_row_def)
    then show ?case using Cons.IH id [OF Cons.hyps(1)] by simp
  qed simp
qed

section \<open>No ghost edges\<close>

definition live_ids :: "kb \<Rightarrow> uuid set" where
  "live_ids k = ka_id ` set (filter live_artifact (kb_artifacts k))"

text \<open>Every live edge joins live artifacts.\<close>

definition no_ghosts :: "kb \<Rightarrow> bool" where
  "no_ghosts k \<longleftrightarrow> (\<forall>e \<in> set (kb_edges k). live_edge e \<longrightarrow> ke_from e \<in> live_ids k \<and> ke_to e \<in> live_ids k)"

lemma live_ids_other [simp]:
  "live_ids (invalidate_edges s p k) = live_ids k"
  "live_ids (mark_deleted ids k) = live_ids k"
  "live_ids (snd (retire_caches ids k)) = live_ids k"
  "live_ids (snd (reattach_edges s old new k)) = live_ids k"
  by (simp_all add: live_ids_def)

lemma live_ids_update:
  assumes "\<And>a. ka_id (f a) = ka_id a" and "\<And>a. live_artifact (f a) = live_artifact a"
  shows "live_ids (k\<lparr>kb_artifacts := update_where p f (kb_artifacts k)\<rparr>) = live_ids k"
proof -
  have "ka_id ` set (filter live_artifact (update_where p f rows)) = ka_id ` set (filter live_artifact rows)" for rows
    using assms by (induction rows) auto
  then show ?thesis by (simp add: live_ids_def)
qed

lemma live_ids_invalidate: "live_ids (invalidate_artifacts seq ids k) = live_ids k - ids"
proof -
  have "ka_id ` set (filter live_artifact (update_where (\<lambda>a. ka_id a \<in> ids \<and> live_artifact a)
      (\<lambda>a. a\<lparr>ka_invalidated := Some seq\<rparr>) rows)) = ka_id ` set (filter live_artifact rows) - ids" for rows
    by (induction rows) (auto simp: live_artifact_def)
  then show ?thesis by (simp add: live_ids_def invalidate_artifacts_def)
qed

lemma no_ghosts_cong:
  "kb_edges k' = kb_edges k \<Longrightarrow> live_ids k' = live_ids k \<Longrightarrow> no_ghosts k' = no_ghosts k"
  by (simp add: no_ghosts_def)

text \<open>The edges a sweep leaves live: none of those it matched.\<close>

lemma live_after_invalidate_edges:
  "e \<in> set (kb_edges (invalidate_edges seq p k)) \<and> live_edge e \<longleftrightarrow>
   e \<in> set (kb_edges k) \<and> live_edge e \<and> \<not> p e"
  by (auto simp: invalidate_edges_def set_update_where live_edge_def image_iff split: if_splits)

lemma no_ghosts_retire:
  assumes "no_ghosts k" shows "no_ghosts (invalidate_edges seq (touches ids) (invalidate_artifacts seq ids k))"
  unfolding no_ghosts_def
proof (intro ballI impI)
  fix e assume e: "e \<in> set (kb_edges (invalidate_edges seq (touches ids) (invalidate_artifacts seq ids k)))" "live_edge e"
  then have "e \<in> set (kb_edges k)" "live_edge e" "\<not> touches ids e"
    using live_after_invalidate_edges [of e seq "touches ids" "invalidate_artifacts seq ids k"] by simp_all
  then show "ke_from e \<in> live_ids (invalidate_edges seq (touches ids) (invalidate_artifacts seq ids k)) \<and>
      ke_to e \<in> live_ids (invalidate_edges seq (touches ids) (invalidate_artifacts seq ids k))"
    using assms by (simp add: no_ghosts_def live_ids_invalidate touches_def)
qed

subsection \<open>Repointing\<close>

text \<open>What one column's two statements do to an edge.\<close>

definition redirect :: "int \<Rightarrow> uuid \<Rightarrow> uuid \<Rightarrow> (kb_edge \<Rightarrow> uuid) \<Rightarrow> (kb_edge \<Rightarrow> uuid)
     \<Rightarrow> (uuid \<Rightarrow> kb_edge \<Rightarrow> kb_edge) \<Rightarrow> kb_edge \<Rightarrow> kb_edge" where
  "redirect seq old new get oth put e =
     (if get e = old \<and> live_edge e
      then (if oth e = new then e\<lparr>ke_invalidated := Some seq\<rparr> else put new e) else e)"

lemma in_reattach_column:
  assumes "e \<in> set (kb_edges (snd (reattach_column seq old new get oth put k)))"
  obtains e0 where "e0 \<in> set (kb_edges k)" and "e = redirect seq old new get oth put e0"
proof -
  let ?g = "\<lambda>e. if (get e = old \<and> oth e = new) \<and> live_edge e then e\<lparr>ke_invalidated := Some seq\<rparr> else e"
  let ?f = "\<lambda>e. if get e = old \<and> oth e \<noteq> new \<and> live_edge e then put new e else e"
  have "kb_edges (snd (reattach_column seq old new get oth put k)) = map ?f (map ?g (kb_edges k))"
    by (simp add: reattach_column_def invalidate_edges_def update_where_def Let_def)
  with assms have "e \<in> ?f ` ?g ` set (kb_edges k)" by (simp only: list.set_map)
  then obtain e0 where e0: "e0 \<in> set (kb_edges k)" "e = ?f (?g e0)" by (elim imageE) blast
  have dead: "\<not> live_edge (e0\<lparr>ke_invalidated := Some seq\<rparr>)" by (simp add: live_edge_def)
  have "?f (?g e0) = redirect seq old new get oth put e0"
    by (cases "get e0 = old \<and> oth e0 = new \<and> live_edge e0") (use dead in \<open>auto simp: redirect_def\<close>)
  with e0 that show thesis by simp
qed

lemma reattach_from_live:
  assumes "e \<in> set (kb_edges (snd (reattach_column seq old new ke_from ke_to put_from k)))" and "live_edge e" "new \<noteq> old"
  shows "ke_from e \<noteq> old \<and> (\<exists>e0 \<in> set (kb_edges k). live_edge e0 \<and> ke_to e = ke_to e0
     \<and> ke_from e = (if ke_from e0 = old then new else ke_from e0))"
proof -
  from assms(1) obtain e0 where e0: "e0 \<in> set (kb_edges k)"
    and e: "e = redirect seq old new ke_from ke_to put_from e0" by (rule in_reattach_column)
  show ?thesis
  proof (cases "ke_from e0 = old \<and> live_edge e0")
    case True
    with assms(2) e have "e = put_from new e0" by (auto simp: redirect_def live_edge_def split: if_splits)
    with True e0 assms(3) show ?thesis by (intro conjI bexI [of _ e0]) (simp_all add: put_from_def)
  next
    case False
    with e have "e = e0" by (simp add: redirect_def)
    with False e0 assms(2) show ?thesis by auto
  qed
qed

lemma reattach_to_live:
  assumes "e \<in> set (kb_edges (snd (reattach_column seq old new ke_to ke_from put_to k)))" and "live_edge e" "new \<noteq> old"
  shows "ke_to e \<noteq> old \<and> (\<exists>e0 \<in> set (kb_edges k). live_edge e0 \<and> ke_from e = ke_from e0
     \<and> ke_to e = (if ke_to e0 = old then new else ke_to e0))"
proof -
  from assms(1) obtain e0 where e0: "e0 \<in> set (kb_edges k)"
    and e: "e = redirect seq old new ke_to ke_from put_to e0" by (rule in_reattach_column)
  show ?thesis
  proof (cases "ke_to e0 = old \<and> live_edge e0")
    case True
    with assms(2) e have "e = put_to new e0" by (auto simp: redirect_def live_edge_def split: if_splits)
    with True e0 assms(3) show ?thesis by (intro conjI bexI [of _ e0]) (simp_all add: put_to_def)
  next
    case False
    with e have "e = e0" by (simp add: redirect_def)
    with False e0 assms(2) show ?thesis by auto
  qed
qed

lemma reattach_live:
  assumes "e \<in> set (kb_edges (snd (reattach_edges seq old new k)))" and "live_edge e" and ne: "new \<noteq> old"
  shows "ke_from e \<noteq> old \<and> ke_to e \<noteq> old \<and> (\<exists>e0 \<in> set (kb_edges k). live_edge e0
     \<and> ke_from e = (if ke_from e0 = old then new else ke_from e0)
     \<and> ke_to e = (if ke_to e0 = old then new else ke_to e0))"
proof -
  let ?k1 = "snd (reattach_column seq old new ke_from ke_to put_from k)"
  have "e \<in> set (kb_edges (snd (reattach_column seq old new ke_to ke_from put_to ?k1)))"
    using assms(1) by (simp add: reattach_edges_def split_beta Let_def)
  from reattach_to_live [OF this assms(2) ne] obtain e1 where e1: "e1 \<in> set (kb_edges ?k1)" "live_edge e1"
    "ke_from e = ke_from e1" "ke_to e = (if ke_to e1 = old then new else ke_to e1)" "ke_to e \<noteq> old" by blast
  from reattach_from_live [OF this(1,2) ne] e1(3-5) show ?thesis by metis
qed

lemma no_ghosts_rename:
  assumes g: "no_ghosts k" and new: "new \<in> live_ids k" and ne: "new \<noteq> old"
  shows "no_ghosts (mark_deleted s (invalidate_artifacts seq {old} (snd (reattach_edges seq old new k))))"
  unfolding no_ghosts_def
proof (intro ballI impI)
  fix e assume "e \<in> set (kb_edges (mark_deleted s (invalidate_artifacts seq {old} (snd (reattach_edges seq old new k)))))"
    "live_edge e"
  then have e: "e \<in> set (kb_edges (snd (reattach_edges seq old new k)))" "live_edge e" by simp_all
  from reattach_live [OF this ne] obtain e0 where "e0 \<in> set (kb_edges k)" "live_edge e0"
    and ends: "ke_from e \<noteq> old" "ke_to e \<noteq> old" "ke_from e = (if ke_from e0 = old then new else ke_from e0)"
      "ke_to e = (if ke_to e0 = old then new else ke_to e0)" by blast
  with g have "ke_from e0 \<in> live_ids k" "ke_to e0 \<in> live_ids k" by (simp_all add: no_ghosts_def)
  then show "ke_from e \<in> live_ids (mark_deleted s (invalidate_artifacts seq {old} (snd (reattach_edges seq old new k))))
      \<and> ke_to e \<in> live_ids (mark_deleted s (invalidate_artifacts seq {old} (snd (reattach_edges seq old new k))))"
    using ends new by (auto simp: live_ids_invalidate)
qed

subsection \<open>The rename loop and the pass\<close>

lemma old_by_hash_ids:
  "map_of (old_by_hash as d) h = Some (u, s) \<Longrightarrow>
   map_of d h = Some (u, s) \<or> (\<exists>a \<in> set as. ka_id a = u \<and> ka_source a = s \<and> ka_content_hash a = Some h)"
  by (induction as d rule: old_by_hash.induct) (force split: option.splits if_splits)+

lemma rename_step_ghosts:
  assumes "no_ghosts (rn_kb st)" and "ka_id row \<in> live_ids (rn_kb st)"
    and "\<And>h u s. map_of old h = Some (u, s) \<Longrightarrow> u \<notin> N" and "ka_id row \<in> N" and "N \<subseteq> live_ids (rn_kb st)"
  shows "no_ghosts (rn_kb (rename_step seq old row st)) \<and> N \<subseteq> live_ids (rn_kb (rename_step seq old row st))"
proof -
  { fix u
    let ?k1 = "(rn_kb st)\<lparr>kb_artifacts := update_where (\<lambda>a. ka_id a = ka_id row)
      (\<lambda>a. a\<lparr>ka_prior := Some u\<rparr>) (kb_artifacts (rn_kb st))\<rparr>"
    have ids: "live_ids ?k1 = live_ids (rn_kb st)" by (rule live_ids_update) (simp_all add: live_artifact_def)
    have "no_ghosts ?k1" using assms(1) no_ghosts_cong [of ?k1 "rn_kb st"] ids by simp
    note this ids }
  note prior = this
  show ?thesis
  proof (cases "ka_content_hash row")
    case (Some h)
    show ?thesis
    proof (cases "h \<in> rn_matched st \<or> map_of old h = None")
      case True then show ?thesis using Some assms by (auto simp: rename_step_def split: option.splits)
    next
      case False
      then obtain u s where us: "map_of old h = Some (u, s)" by auto
      then have ne: "ka_id row \<noteq> u" and uN: "u \<notin> N" using assms(3,4) by auto
      show ?thesis using Some False us uN assms(5) no_ghosts_rename [OF prior(1) _ ne] assms(2)
        by (auto simp: rename_step_def split_beta Let_def prior(2) live_ids_invalidate)
    qed
  qed (use assms in \<open>simp add: rename_step_def\<close>)
qed

lemma renames_ghosts:
  assumes "no_ghosts (rn_kb st)" and "N \<subseteq> live_ids (rn_kb st)"
    and "\<And>h u s. map_of old h = Some (u, s) \<Longrightarrow> u \<notin> N" and "\<And>r. r \<in> set rows \<Longrightarrow> ka_id r \<in> N"
  shows "no_ghosts (rn_kb (fold (rename_step seq old) rows st))"
  using assms
proof (induction rows arbitrary: st)
  case (Cons row rows)
  then have row: "ka_id row \<in> N" by simp
  have "no_ghosts (rn_kb (rename_step seq old row st)) \<and> N \<subseteq> live_ids (rn_kb (rename_step seq old row st))"
    by (rule rename_step_ghosts) (use Cons.prems row in auto)
  with Cons.IH Cons.prems(3,4) show ?case by simp
qed simp

text \<open>
  What the builder's own writes give the pass: artifact ids are a primary key, and what this
  build introduced is live.
\<close>

definition pass_ready :: "int \<Rightarrow> kb \<Rightarrow> bool" where
  "pass_ready seq k \<longleftrightarrow> distinct (map ka_id (kb_artifacts k))
     \<and> (\<forall>a \<in> set (kb_artifacts k). ka_valid_from a = seq \<longrightarrow> live_artifact a)"

lemma detect_renames_ghosts:
  assumes g: "no_ghosts k" and r: "pass_ready seq k"
  shows "no_ghosts (rn_kb (detect_renames seq vanished k))"
proof -
  let ?old = "old_by_hash (old_rows vanished k) []"
  let ?new = "new_rows seq vanished ?old k"
  have "no_ghosts (rn_kb (fold (rename_step seq ?old) ?new (no_renames k)))"
  proof (rule renames_ghosts [where N = "ka_id ` set ?new"])
    show "ka_id ` set ?new \<subseteq> live_ids (rn_kb (no_renames k))"
      using r by (auto simp: new_rows_def live_ids_def no_renames_def pass_ready_def)
    fix h u s assume "map_of ?old h = Some (u, s)"
    then obtain a where a: "a \<in> set (old_rows vanished k)" "ka_id a = u" by (auto dest: old_by_hash_ids)
    show "u \<notin> ka_id ` set ?new"
    proof
      assume "u \<in> ka_id ` set ?new"
      then obtain b where b: "b \<in> set ?new" "ka_id b = ka_id a" using a(2) by auto
      then have "b = a" using r a(1) by (auto simp: pass_ready_def old_rows_def live_of_sources_def new_rows_def
          dest: inj_onD [OF iffD1 [OF distinct_map, THEN conjunct2]])
      with a(1) b(1) show False by (simp add: old_rows_def live_of_sources_def new_rows_def)
    qed
  qed (use g in \<open>simp_all add: no_renames_def\<close>)
  then show ?thesis using g by (simp add: detect_renames_def no_renames_def Let_def)
qed

lemma deletion_ghosts: "no_ghosts k \<Longrightarrow> no_ghosts (snd (deletion_sweep seq ids k))"
proof -
  assume g: "no_ghosts k"
  have m: "no_ghosts (mark_deleted ids k)" using g no_ghosts_cong [of "mark_deleted ids k" k] by simp
  have c: "no_ghosts (snd (retire_caches i k')) = no_ghosts k'" for i k' by (rule no_ghosts_cong) simp_all
  show ?thesis using g m no_ghosts_retire [OF m] by (simp add: deletion_sweep_def Let_def split_beta c)
qed

lemma supersession_ghosts: "no_ghosts k \<Longrightarrow> no_ghosts (snd (supersession_sweep seq ch k))"
  by (simp add: supersession_sweep_def Let_def no_ghosts_retire)

lemma propagate_ghosts:
  assumes "no_ghosts k" shows "no_ghosts (snd (snd (propagate_acl seen k)))"
proof -
  have one: "no_ghosts (snd (snd (propagate_one s st))) = no_ghosts (snd (snd st))" for s st
  proof (cases st)
    case (fields m n k)
    then show ?thesis by (simp add: propagate_one_def Let_def)
      (rule no_ghosts_cong, simp, rule live_ids_update, simp_all add: live_artifact_def)
  qed
  have "no_ghosts (snd (snd (fold propagate_one ss st))) = no_ghosts (snd (snd st))" for ss st
    by (induction ss arbitrary: st) (simp_all add: one)
  with assms show ?thesis by (simp add: propagate_acl_def)
qed

lemma pass_ghosts:
  assumes "no_ghosts k" and "pass_ready seq k"
  shows "no_ghosts (snd (run_invalidation_pass seq seen changed started k))"
  using detect_renames_ghosts [OF assms]
  by (simp add: run_invalidation_pass_def Let_def split_beta propagate_ghosts supersession_ghosts deletion_ghosts)

end
