(* ===== verification/Writers.thy ===== *)
theory Writers
  imports CacheGates AclIntersection Invalidation
begin

text \<open>
  The writers of artifacts and code edges (\<open>docify/write.py\<close>, \<open>graphify/keys.py\<close>,
  \<open>graphify/write.py\<close>, the insert of \<open>application/write_commit.py\<close>). A flush draws one id per new row.
\<close>

section \<open>Keys (keys.py)\<close>

record code_draft =
  cf_key :: string
  cf_type :: string
  cf_title :: string
  cf_body :: "string option"
  cf_span_start :: "int option"
  cf_span_end :: "int option"
  cf_search :: "string option"

record code_edge =
  ed_from :: string
  ed_to :: string
  ed_type :: string
  ed_confidence :: real

definition file_key :: "string \<Rightarrow> string" where "file_key path = ''file:'' @ path"
definition symbol_key :: "string \<Rightarrow> string \<Rightarrow> string" where "symbol_key path name = ''sym:'' @ path @ ''::'' @ name"
definition test_key :: "string \<Rightarrow> string \<Rightarrow> string" where "test_key path name = ''test:'' @ path @ ''::'' @ name"
definition endpoint_key :: "string \<Rightarrow> string \<Rightarrow> string \<Rightarrow> string" where
  "endpoint_key path http_method route = ''endpoint:'' @ path @ ''::'' @ http_method @ '' '' @ route"

record parsed_key =
  pk_type :: string
  pk_path :: string
  pk_title :: "string option"

definition KEY_PREFIXES :: "(string \<times> string) list" where
  "KEY_PREFIXES = [(''sym:'', ''code_symbol''), (''test:'', ''test''), (''endpoint:'', ''endpoint'')]"

text \<open>\<open>rest.rpartition("::")\<close>, when the separator occurs: the parts around its last occurrence.\<close>

definition rpartition :: "string \<Rightarrow> string \<Rightarrow> (string \<times> string) option" where
  "rpartition sep s = map_option (\<lambda>(b, a). (rev a, rev b)) (split_once (rev sep) (rev s))"

fun parse_prefixed :: "string \<Rightarrow> (string \<times> string) list \<Rightarrow> exn + parsed_key" where
  "parse_prefixed key [] = Inl ValueError"
| "parse_prefixed key ((pre, typ) # ps) =
     (if prefix pre key
      then (case rpartition ''::'' (drop (length pre) key) of
          None \<Rightarrow> Inl ValueError
        | Some (path, title) \<Rightarrow> if path = [] \<or> title = [] then Inl ValueError
            else Inr \<lparr>pk_type = typ, pk_path = path, pk_title = Some title\<rparr>)
      else parse_prefixed key ps)"

definition parse_key :: "string \<Rightarrow> exn + parsed_key" where
  "parse_key key = (if prefix ''file:'' key
     then Inr \<lparr>pk_type = ''code_file'', pk_path = drop 5 key, pk_title = None\<rparr> else parse_prefixed key KEY_PREFIXES)"

section \<open>Artifacts\<close>

fun add_artifacts :: "(uuid \<Rightarrow> kb_artifact) list \<Rightarrow> kb \<Rightarrow> uuid list \<times> kb" where
  "add_artifacts [] k = ([], k)"
| "add_artifacts (f # fs) k =
     (let (u, k1) = gen_random_uuid k;
          (us, k2) = add_artifacts fs (k1\<lparr>kb_artifacts := kb_artifacts k1 @ [f u]\<rparr>)
      in (u # us, k2))"

definition doc_artifact :: "nat \<Rightarrow> string \<Rightarrow> int \<Rightarrow> string list \<Rightarrow> int \<Rightarrow> doc_draft \<Rightarrow> uuid \<Rightarrow> kb_artifact" where
  "doc_artifact sid version seq acl t d u =
     new_artifact u sid (dd_type d) (dd_title d) (Some (dd_body d)) version seq acl (dd_kind d) (dd_authority d) (dd_freshness d) t"

definition write_doc_artifacts :: "nat \<Rightarrow> string \<Rightarrow> int \<Rightarrow> string list \<Rightarrow> int \<Rightarrow> doc_draft list \<Rightarrow> kb \<Rightarrow> uuid list \<times> kb" where
  "write_doc_artifacts sid version seq acl t drafts = add_artifacts (map (doc_artifact sid version seq acl t) drafts)"

definition code_artifact :: "nat \<Rightarrow> string \<Rightarrow> int \<Rightarrow> string list \<Rightarrow> int \<Rightarrow> code_draft \<Rightarrow> uuid \<Rightarrow> kb_artifact" where
  "code_artifact sid version seq acl t d u =
     (new_artifact u sid (cf_type d) (Some (cf_title d)) (cf_body d) version seq acl ''source_backed'' 1 1 t)
       \<lparr>ka_span_start := cf_span_start d, ka_span_end := cf_span_end d, ka_search := cf_search d\<rparr>"

definition write_code_artifacts :: "nat \<Rightarrow> string \<Rightarrow> int \<Rightarrow> string list \<Rightarrow> int \<Rightarrow> code_draft list \<Rightarrow> kb
     \<Rightarrow> (string, uuid) dict \<times> kb" where
  "write_code_artifacts sid version seq acl t drafts k =
     (let (us, k') = add_artifacts (map (code_artifact sid version seq acl t) drafts) k
      in (dict_update_all [] (zip (map cf_key drafts) us), k'))"

definition write_commit_artifact :: "nat \<Rightarrow> string \<Rightarrow> int \<Rightarrow> string \<Rightarrow> string \<Rightarrow> string list \<Rightarrow> string option
     \<Rightarrow> int \<Rightarrow> kb \<Rightarrow> uuid \<times> kb" where
  "write_commit_artifact sid version seq title body changed_files repo t k =
     (let (us, k') = add_artifacts [\<lambda>u. commit_artifact k u t sid version seq title body changed_files repo] k
      in (hd us, k'))"

section \<open>Code edges\<close>

type_synonym key_map = "(string \<times> string, uuid) dict"

definition matches_key :: "string \<Rightarrow> parsed_key \<Rightarrow> kb_artifact \<times> kb_source \<Rightarrow> bool" where
  "matches_key repo p x \<longleftrightarrow> (case x of (a, s) \<Rightarrow> ka_type a = pk_type p \<and> src_path s = Some (pk_path p)
     \<and> src_repo s = Some repo \<and> \<not> src_deleted s \<and> (case pk_title p of None \<Rightarrow> True | Some t \<Rightarrow> ka_title a = Some t))"

text \<open>The newest row first, by creation time and then by id; dead rows are not left out.\<close>

definition resolve_key :: "string \<Rightarrow> key_map \<Rightarrow> string \<Rightarrow> kb \<Rightarrow> exn + uuid option" where
  "resolve_key repo m key k =
     (case map_of m (repo, key) of
        Some u \<Rightarrow> Inr (Some u)
      | None \<Rightarrow>
          (case parse_key key of
             Inl e \<Rightarrow> Inl e
           | Inr p \<Rightarrow>
               (case sorted_desc (\<lambda>(a, s). (ka_created a, ka_id a)) (filter (matches_key repo p) (kb_joined k)) of
                  [] \<Rightarrow> Inr None | (a, s) # _ \<Rightarrow> Inr (Some (ka_id a)))))"

definition graphify_edge :: "uuid \<Rightarrow> uuid \<Rightarrow> uuid \<Rightarrow> string \<Rightarrow> int \<Rightarrow> code_edge \<Rightarrow> kb_edge" where
  "graphify_edge u f t version seq d = \<lparr>ke_id = u, ke_from = f, ke_to = t, ke_type = ed_type d,
     ke_confidence = Some (ed_confidence d), ke_source = Some ''graphify'', ke_trust = ''EXTRACTED'',
     ke_valid_from = seq, ke_invalidated = None, ke_version = version, ke_schema = 1, ke_evidence = None\<rparr>"

fun write_code_edges :: "string \<Rightarrow> int \<Rightarrow> string \<Rightarrow> key_map \<Rightarrow> code_edge list \<Rightarrow> kb \<Rightarrow> exn + (nat \<times> nat) \<times> kb" where
  "write_code_edges version seq repo m [] k = Inr ((0, 0), k)"
| "write_code_edges version seq repo m (d # ds) k =
     (case (resolve_key repo m (ed_from d) k, resolve_key repo m (ed_to d) k) of
        (Inl e, _) \<Rightarrow> Inl e
      | (_, Inl e) \<Rightarrow> Inl e
      | (Inr (Some f), Inr (Some t)) \<Rightarrow>
          (let (u, k1) = gen_random_uuid k
           in case write_code_edges version seq repo m ds (k1\<lparr>kb_edges := kb_edges k1 @ [graphify_edge u f t version seq d]\<rparr>) of
                Inl e \<Rightarrow> Inl e | Inr ((ins, dr), k2) \<Rightarrow> Inr ((ins + 1, dr), k2))
      | _ \<Rightarrow> (case write_code_edges version seq repo m ds k of
                Inl e \<Rightarrow> Inl e | Inr ((ins, dr), k2) \<Rightarrow> Inr ((ins, dr + 1), k2)))"

section \<open>Keys parse back\<close>

lemma split_once_nosep: "split_once sep s = Some (a, b) \<Longrightarrow> s = a @ sep @ b"
proof (induction s arbitrary: a b)
  case (Cons c cs)
  then show ?case by (auto simp: prefix_def split: if_splits)
qed simp

lemma split_once_first:
  assumes "CHR '':'' \<notin> set a" shows "split_once ''::'' (a @ ''::'' @ b) = Some (a, b)"
  using assms by (induction a) (auto simp: prefix_def)

lemma rpartition_last: "CHR '':'' \<notin> set name \<Longrightarrow> rpartition ''::'' (path @ ''::'' @ name) = Some (path, name)"
  using split_once_first [of "rev name" "rev path"] by (simp add: rpartition_def)

lemma parse_file_key: "parse_key (file_key path) = Inr \<lparr>pk_type = ''code_file'', pk_path = path, pk_title = None\<rparr>"
  by (simp add: parse_key_def file_key_def)

lemma parse_symbol_key:
  assumes "CHR '':'' \<notin> set name" "path \<noteq> []" "name \<noteq> []"
  shows "parse_key (symbol_key path name) = Inr \<lparr>pk_type = ''code_symbol'', pk_path = path, pk_title = Some name\<rparr>"
    "parse_key (test_key path name) = Inr \<lparr>pk_type = ''test'', pk_path = path, pk_title = Some name\<rparr>"
  using assms rpartition_last [OF assms(1), of path]
  by (simp_all add: parse_key_def symbol_key_def test_key_def KEY_PREFIXES_def)

section \<open>What the writers add\<close>

lemma add_artifacts_spec:
  assumes "add_artifacts fs k = (us, k')"
  shows "length us = length fs" "us = map (kb_uuids k) [kb_drawn k ..< kb_drawn k + length fs]"
    "k' = k\<lparr>kb_artifacts := kb_artifacts k @ map (\<lambda>(f, u). f u) (zip fs us), kb_drawn := kb_drawn k + length fs\<rparr>"
proof -
  have "us = map (kb_uuids k) [kb_drawn k ..< kb_drawn k + length fs] \<and>
      k' = k\<lparr>kb_artifacts := kb_artifacts k @ map (\<lambda>(f, u). f u) (zip fs us), kb_drawn := kb_drawn k + length fs\<rparr>"
    using assms
  proof (induction fs arbitrary: k us)
    case (Cons f fs)
    let ?k1 = "k\<lparr>kb_drawn := Suc (kb_drawn k), kb_artifacts := kb_artifacts k @ [f (kb_uuids k (kb_drawn k))]\<rparr>"
    obtain vs where vs: "add_artifacts fs ?k1 = (vs, k')" "us = kb_uuids k (kb_drawn k) # vs"
      using Cons.prems by (auto simp: gen_random_uuid_def split: prod.splits)
    from Cons.IH [OF vs(1)] have b: "vs = map (kb_uuids k) [Suc (kb_drawn k) ..< Suc (kb_drawn k) + length fs]"
      and c: "k' = ?k1\<lparr>kb_artifacts := kb_artifacts ?k1 @ map (\<lambda>(f, u). f u) (zip fs vs), kb_drawn := Suc (kb_drawn k) + length fs\<rparr>"
      by simp_all
    have "us = map (kb_uuids k) [kb_drawn k ..< kb_drawn k + length (f # fs)]"
      unfolding vs(2) b by (subst (2) upt_conv_Cons) simp_all
    moreover have "k' = k\<lparr>kb_artifacts := kb_artifacts k @ map (\<lambda>(f, u). f u) (zip (f # fs) us), kb_drawn := kb_drawn k + length (f # fs)\<rparr>"
      unfolding c vs(2) by simp
    ultimately show ?case ..
  qed simp
  then show "us = map (kb_uuids k) [kb_drawn k ..< kb_drawn k + length fs]"
    "k' = k\<lparr>kb_artifacts := kb_artifacts k @ map (\<lambda>(f, u). f u) (zip fs us), kb_drawn := kb_drawn k + length fs\<rparr>" by blast+
  then show "length us = length fs" by simp
qed

text \<open>A document artifact carries its source's ACL, never a wider one, and belongs to the build.\<close>

lemma written_docs:
  assumes "write_doc_artifacts sid version seq acl t drafts k = (us, k')" "a \<in> set (kb_artifacts k')"
  shows "a \<in> set (kb_artifacts k) \<or> ka_acl a = acl \<and> ka_source a = sid \<and> ka_valid_from a = seq \<and> live_artifact a
    \<and> ka_id a \<in> set us"
proof -
  note s = add_artifacts_spec [OF assms(1) [unfolded write_doc_artifacts_def]]
  show ?thesis
  proof (cases "a \<in> set (kb_artifacts k)")
    case False
    then obtain f u where "(f, u) \<in> set (zip (map (doc_artifact sid version seq acl t) drafts) us)" "a = f u"
      using assms(2) by (auto simp: s(3))
    moreover from this(1) obtain d where "f = doc_artifact sid version seq acl t d" "u \<in> set us"
      using set_zip_leftD [of f u] set_zip_rightD [of f u] by fastforce
    ultimately show ?thesis by (simp add: doc_artifact_def new_artifact_def live_artifact_def)
  qed simp
qed

section \<open>A code edge can be written onto a dead artifact\<close>

text \<open>
  A key that is not in the batch is looked up among all the artifacts of the live source, the dead ones of
  earlier generations included.
\<close>

lemma resolve_finds_dead:
  assumes "map_of m (repo, key) = None" "parse_key key = Inr p"
    and only: "filter (matches_key repo p) (kb_joined k) = [(a, s)]"
  shows "resolve_key repo m key k = Inr (Some (ka_id a))"
  using assms by (simp add: resolve_key_def sorted_desc_def)

lemma dead_code_edge:
  assumes "map_of m (repo, ed_from d) = Some f"
    and "map_of m (repo, ed_to d) = None" "parse_key (ed_to d) = Inr p"
    and only: "filter (matches_key repo p) (kb_joined k) = [(a, s)]" and dead: "\<not> live_artifact a"
    and ids: "distinct (map ka_id (kb_artifacts k))"
  shows "\<exists>k'. write_code_edges version seq repo m [d] k = Inr ((1, 0), k') \<and> \<not> no_ghosts k'"
proof -
  let ?e = "graphify_edge (kb_uuids k (kb_drawn k)) f (ka_id a) version seq d"
  let ?k' = "k\<lparr>kb_drawn := Suc (kb_drawn k), kb_edges := kb_edges k @ [?e]\<rparr>"
  have f: "resolve_key repo m (ed_from d) k = Inr (Some f)" using assms(1) by (simp add: resolve_key_def)
  note t = resolve_finds_dead [OF assms(2,3) only]
  have w: "write_code_edges version seq repo m [d] k = Inr ((1, 0), ?k')"
    by (simp add: f t gen_random_uuid_def)
  have "(a, s) \<in> set (kb_joined k)" using arg_cong [OF only, of set] by auto
  then have a: "a \<in> set (kb_artifacts k)" by (rule joined_artifact)
  have "ka_id a \<notin> live_ids ?k'"
  proof
    assume "ka_id a \<in> live_ids ?k'"
    then obtain b where "b \<in> set (kb_artifacts k)" "live_artifact b" "ka_id b = ka_id a" by (auto simp: live_ids_def)
    with key_unique [OF ids this(1) a] dead show False by auto
  qed
  moreover have "live_edge ?e" "ke_to ?e = ka_id a" by (simp_all add: graphify_edge_def live_edge_def)
  ultimately have "\<not> no_ghosts ?k'" unfolding no_ghosts_def by auto
  with w show ?thesis by blast
qed

end
