(* ===== verification/GitMetadata.thy ===== *)
theory GitMetadata
  imports BuildTables
begin

text \<open>
  Normalized text (\<open>domain/content_hasher.py\<close>) and the git-metadata connector
  (\<open>connectors/git_metadata.py\<close>): parsing \<open>git log\<close>, the rendering of a commit, and the
  inverse that recovers its changed files. The output of the git commands is a parameter. NFC
  normalization is the identity on the characters the model has.
\<close>

section \<open>Lines\<close>

definition nl :: char where "nl = CHR 0x0A"

text \<open>\<open>str.splitlines()\<close>; CR LF is one break.\<close>

fun lines_go :: "string \<Rightarrow> string \<Rightarrow> string list" where
  "lines_go cur [] = (if cur = [] then [] else [rev cur])"
| "lines_go cur (c # cs) =
     (if py_linebreak c
      then rev cur # (case cs of d # ds \<Rightarrow> if c = CHR 0x0D \<and> d = nl then lines_go [] ds else lines_go [] cs
                      | [] \<Rightarrow> [])
      else lines_go (c # cur) cs)"

definition splitlines :: "string \<Rightarrow> string list" where
  "splitlines s = lines_go [] s"

text \<open>\<open>normalize_text\<close>: LF line ends, no trailing white space, one final newline.\<close>

definition normalize_text :: "string \<Rightarrow> string" where
  "normalize_text text =
     (let unified = normalize_code text;
          body = strip_by (\<lambda>c. c = nl) (py_join [nl] (map (rstrip_by py_space) (split_on nl unified)))
      in if body = [] then [] else body @ [nl])"

definition normalized_content_hash :: "string \<Rightarrow> string" where
  "normalized_content_hash text = content_hash (normalize_text text)"

section \<open>Commits\<close>

record commit_record =
  cm_sha :: string
  cm_subject :: string
  cm_body :: string
  cm_files :: "string list"

definition FIELD_SEP :: char where "FIELD_SEP = CHR 0x1F"
definition RECORD_SEP :: char where "RECORD_SEP = CHR 0x1E"

definition CHANGED_FILES_HEADER :: string where
  "CHANGED_FILES_HEADER = ''--- changed files ---''"

definition DEFAULT_MAX_COMMITS :: int where "DEFAULT_MAX_COMMITS = 200"

definition parse_log_record :: "string \<Rightarrow> string \<times> string \<times> string" where
  "parse_log_record record =
     (let fields = split_on FIELD_SEP (dropWhile (\<lambda>c. c = nl) record) @ [[], [], []]
      in (py_strip (fields ! 0), py_strip (fields ! 1), py_strip (fields ! 2)))"

text \<open>
  What git prints: the log, the changed names of a commit, the branch and the work-tree test.
  \<open>None\<close> is a failing command (\<open>CalledProcessError\<close>).
\<close>

record git_output =
  go_log :: "int \<Rightarrow> string option"
  go_one :: "string \<Rightarrow> string option"
  go_names :: "string \<Rightarrow> string option"
  go_branch :: "string option"
  go_inside :: "string option"

definition changed_files :: "git_output \<Rightarrow> string \<Rightarrow> exn + string list" where
  "changed_files g sha =
     (case go_names g sha of
        None \<Rightarrow> Inl (RuntimeError ''git'')
      | Some out \<Rightarrow> Inr (sort (remdups (filter (\<lambda>p. p \<noteq> []) (map py_strip (splitlines out))))))"

definition current_branch :: "git_output \<Rightarrow> exn + string option" where
  "current_branch g =
     (case go_branch g of
        None \<Rightarrow> Inl (RuntimeError ''git'')
      | Some out \<Rightarrow> (let b = py_strip out in Inr (if b = [] \<or> b = ''HEAD'' then None else Some b)))"

definition is_git_work_tree :: "git_output \<Rightarrow> bool" where
  "is_git_work_tree g = (case go_inside g of None \<Rightarrow> False | Some out \<Rightarrow> py_strip out = ''true'')"

definition read_record :: "git_output \<Rightarrow> string \<Rightarrow> exn + commit_record option" where
  "read_record g record =
     (if py_strip record = [] then Inr None
      else (case parse_log_record record of (sha, subj, body) \<Rightarrow>
        if sha = [] then Inr None
        else (case changed_files g sha of Inl e \<Rightarrow> Inl e
              | Inr fs \<Rightarrow> Inr (Some \<lparr>cm_sha = sha, cm_subject = subj, cm_body = body, cm_files = fs\<rparr>))))"

definition read_commits :: "git_output \<Rightarrow> int \<Rightarrow> exn + commit_record list" where
  "read_commits g max_commits =
     (if max_commits < 1 then Inr []
      else (case go_log g max_commits of
          None \<Rightarrow> Inl (RuntimeError ''git'')
        | Some raw \<Rightarrow>
           (case mapE (read_record g) (split_on RECORD_SEP raw) of
              Inl e \<Rightarrow> Inl e
            | Inr cs \<Rightarrow> Inr (concat (map (\<lambda>c. case c of None \<Rightarrow> [] | Some x \<Rightarrow> [x]) cs)))))"

definition files_block :: "commit_record \<Rightarrow> string" where
  "files_block c = py_join [nl] (CHANGED_FILES_HEADER # cm_files c)"

definition render_commit :: "commit_record \<Rightarrow> string" where
  "render_commit c = normalize_text (py_join [nl, nl]
     (filter (\<lambda>s. s \<noteq> []) ([cm_subject c] @ (if cm_body c = [] then [] else [cm_body c]) @ [files_block c])))"

text \<open>The lines after the last header, stripped, blank ones dropped.\<close>

definition parse_changed_files :: "string \<Rightarrow> string list" where
  "parse_changed_files body_text =
     (let ls = map py_strip (splitlines body_text)
      in if CHANGED_FILES_HEADER \<notin> set ls then []
         else filter (\<lambda>l. l \<noteq> []) (rev (takeWhile (\<lambda>l. l \<noteq> CHANGED_FILES_HEADER) (rev ls))))"

section \<open>The connector\<close>

record source_ref =
  rf_type :: string
  rf_uri :: string
  rf_version :: string
  rf_repo :: "string option"
  rf_branch :: "string option"
  rf_path :: "string option"
  rf_external :: "string option"
  rf_acl :: "string list"

record content =
  ct_source :: source_ref
  ct_text :: string
  ct_hash :: string

definition commit_ref :: "string option \<Rightarrow> string option \<Rightarrow> commit_record \<Rightarrow> source_ref" where
  "commit_ref repo branch c = \<lparr>rf_type = ''git_metadata'', rf_uri = ''git:'' @ cm_sha c, rf_version = cm_sha c,
     rf_repo = repo, rf_branch = branch, rf_path = None, rf_external = Some (cm_sha c), rf_acl = []\<rparr>"

definition git_list_sources :: "git_output \<Rightarrow> string option \<Rightarrow> string option \<Rightarrow> int
     \<Rightarrow> exn + source_ref list \<times> (string, commit_record) dict" where
  "git_list_sources g repo branch max_commits =
     (if \<not> is_git_work_tree g then Inr ([], [])
      else (case (case branch of Some b \<Rightarrow> Inr (Some b) | None \<Rightarrow> current_branch g) of
          Inl e \<Rightarrow> Inl e
        | Inr br \<Rightarrow> (case read_commits g max_commits of Inl e \<Rightarrow> Inl e
            | Inr cs \<Rightarrow> Inr (map (commit_ref repo br) cs, dict_update_all [] (map (\<lambda>c. (cm_sha c, c)) cs)))))"

definition read_single :: "git_output \<Rightarrow> string \<Rightarrow> exn + commit_record" where
  "read_single g sha =
     (case go_one g sha of
        None \<Rightarrow> Inl (RuntimeError ''git'')
      | Some raw \<Rightarrow> (case parse_log_record (hd (split_on RECORD_SEP raw)) of (s, subj, body) \<Rightarrow>
          (case changed_files g sha of Inl e \<Rightarrow> Inl e
           | Inr fs \<Rightarrow> Inr \<lparr>cm_sha = s, cm_subject = subj, cm_body = body, cm_files = fs\<rparr>)))"

definition git_fetch :: "git_output \<Rightarrow> (string, commit_record) dict \<Rightarrow> source_ref \<Rightarrow> exn + content" where
  "git_fetch g records ref =
     (case (case map_of records (rf_version ref) of Some c \<Rightarrow> Inr c | None \<Rightarrow> read_single g (rf_version ref)) of
        Inl e \<Rightarrow> Inl e
      | Inr c \<Rightarrow> (let text = render_commit c in Inr \<lparr>ct_source = ref, ct_text = text, ct_hash = content_hash text\<rparr>))"

section \<open>The rendering keeps the changed files\<close>

text \<open>A path as git lists it: one stripped, non-empty line that is not the header.\<close>

definition listed_path :: "string \<Rightarrow> bool" where
  "listed_path p \<longleftrightarrow> p \<noteq> [] \<and> py_strip p = p \<and> \<not> list_ex py_linebreak p \<and> p \<noteq> CHANGED_FILES_HEADER"

lemma dropWhile_id: "dropWhile p s = s \<longleftrightarrow> s = [] \<or> \<not> p (hd s)"
proof (cases s)
  case (Cons c cs)
  have "length (dropWhile p cs) \<le> length cs" by (rule length_dropWhile_le)
  then show ?thesis using Cons by auto
qed simp

lemma dropWhile_same: "s = [] \<or> \<not> p (hd s) \<Longrightarrow> dropWhile p s = s"
  by (simp add: dropWhile_id)

lemma strip_fixD:
  assumes "py_strip s = s" "s \<noteq> []" shows "\<not> py_space (hd s)" and "\<not> py_space (last s)"
proof -
  have len: "length (dropWhile py_space s) \<le> length s" "length (dropWhile py_space (rev t)) \<le> length t" for t
    using length_dropWhile_le [of py_space] by (metis, metis length_rev)
  from assms(1) have eq: "rev (dropWhile py_space (rev (dropWhile py_space s))) = s"
    by (simp add: py_strip_def strip_by_def)
  then have "length (dropWhile py_space s) = length s" using len(1) len(2) [of "dropWhile py_space s"]
    by (metis le_antisym length_rev)
  then have d: "dropWhile py_space s = s" by (metis dropWhile_eq_drop append_same_eq length_append
    add_cancel_left_left length_0_conv self_append_conv2 takeWhile_dropWhile_id)
  with assms(2) show "\<not> py_space (hd s)" by (simp add: dropWhile_id)
  from eq d have "dropWhile py_space (rev s) = rev s" by (metis rev_rev_ident)
  with assms(2) show "\<not> py_space (last s)" by (simp add: dropWhile_id hd_rev)
qed

lemma strip_fix: "s = [] \<or> \<not> py_space (hd s) \<and> \<not> py_space (last s) \<Longrightarrow> py_strip s = s"
  by (cases "s = []") (simp_all add: py_strip_def strip_by_def dropWhile_same hd_rev)

lemma rstrip_fix: "s = [] \<or> \<not> py_space (last s) \<Longrightarrow> rstrip_by py_space s = s"
  by (cases "s = []") (simp_all add: rstrip_by_def dropWhile_same hd_rev)

lemma linebreak_space: "py_linebreak c \<Longrightarrow> py_space c"
  by (auto simp: py_linebreak_def py_space_def Let_def)

lemma nl_break: "py_linebreak nl" "nl \<noteq> CHR 0x0D"
  by (simp_all add: py_linebreak_def nl_def Let_def)

lemma header_facts:
  "\<not> list_ex py_linebreak CHANGED_FILES_HEADER" "py_strip CHANGED_FILES_HEADER = CHANGED_FILES_HEADER"
  "CHANGED_FILES_HEADER \<noteq> []" "hd CHANGED_FILES_HEADER = CHR ''-''"
  by (simp_all add: CHANGED_FILES_HEADER_def py_linebreak_def py_strip_def strip_by_def py_space_def Let_def)

lemma normalize_code_append:
  "a = [] \<or> last a \<noteq> CHR 0x0D \<Longrightarrow> normalize_code (a @ b) = normalize_code a @ normalize_code b"
proof (induction a rule: normalize_code.induct)
  case (2 c cs)
  show ?case
  proof (cases cs)
    case Nil with 2 show ?thesis by (cases b) auto
  next
    case (Cons d ds)
    show ?thesis
    proof (cases "c = CHR 0x0D")
      case cr: True
      show ?thesis
      proof (cases "d = CHR 0x0A")
        case True
        with 2(1) [OF cr Cons True] 2(4) cr Cons show ?thesis by (cases ds) auto
      next
        case False with 2(2) [OF cr Cons False] 2(4) cr Cons show ?thesis by simp
      qed
    next
      case False with 2(3) 2(4) Cons show ?thesis by simp
    qed
  qed
qed simp

lemma split_on_append_sep: "split_on d (a @ d # b) = split_on d a @ split_on d b"
proof (induction a)
  case (Cons c cs)
  show ?case using Cons by (cases "split_on d cs") (auto split: list.splits)
qed simp

lemma split_on_none: "d \<notin> set s \<Longrightarrow> split_on d s = [s]"
  by (induction s) auto

lemma py_join_Cons: "xs \<noteq> [] \<Longrightarrow> py_join sep (x # xs) = x @ sep @ py_join sep xs"
  by (cases xs) auto

lemma py_join_append: "xs \<noteq> [] \<Longrightarrow> ys \<noteq> [] \<Longrightarrow> py_join sep (xs @ ys) = py_join sep xs @ sep @ py_join sep ys"
proof (induction xs)
  case (Cons x xs)
  then show ?case by (cases "xs = []") (simp_all add: py_join_Cons)
qed simp

lemma split_on_join_list:
  "xs \<noteq> [] \<Longrightarrow> (\<And>x. x \<in> set xs \<Longrightarrow> d \<notin> set x) \<Longrightarrow> split_on d (py_join [d] xs) = xs"
proof (induction xs)
  case (Cons x xs)
  then show ?case by (cases "xs = []") (simp_all add: py_join_Cons split_on_none split_on_append_sep)
qed simp

lemma lines_go_append: "lines_go cur (a @ nl # b) = lines_go cur (a @ [nl]) @ lines_go [] b"
proof (induction cur a rule: lines_go.induct)
  case (1 cur)
  then show ?case using nl_break by (cases b) auto
next
  case (2 cur c cs)
  then show ?case by (cases cs) (auto simp: nl_break split: list.splits)
qed

lemma lines_go_line: "\<not> list_ex py_linebreak x \<Longrightarrow> lines_go cur (x @ nl # b) = (rev cur @ x) # lines_go [] b"
  using nl_break by (induction x arbitrary: cur) (auto split: list.splits)

lemma splitlines_join:
  "xs \<noteq> [] \<Longrightarrow> (\<And>x. x \<in> set xs \<Longrightarrow> \<not> list_ex py_linebreak x) \<Longrightarrow> splitlines (py_join [nl] xs @ [nl]) = xs"
proof (induction xs)
  case (Cons x xs)
  then show ?case
    by (cases "xs = []") (simp_all add: py_join_Cons splitlines_def lines_go_line)
qed simp

text \<open>The rendered text ends with the block, after nothing or after a line end.\<close>

lemma dropWhile_front: "dropWhile p b = b \<Longrightarrow> dropWhile p (a @ b) = dropWhile p a @ b"
  by (induction a) auto

lemma last_dropWhile: "dropWhile p a \<noteq> [] \<Longrightarrow> last (dropWhile p a) = last a"
  by (induction a) auto

lemma strip_front:
  assumes "b \<noteq> []" "hd b \<noteq> nl" "last b \<noteq> nl" and "a = [] \<or> last a = nl"
  shows "\<exists>a'. strip_by (\<lambda>c. c = nl) (a @ b) = a' @ b \<and> (a' = [] \<or> last a' = nl)"
proof -
  have "dropWhile (\<lambda>c. c = nl) b = b" using assms by (simp add: dropWhile_id)
  then have "dropWhile (\<lambda>c. c = nl) (a @ b) = dropWhile (\<lambda>c. c = nl) a @ b"
    by (rule dropWhile_front)
  moreover have "last (dropWhile (\<lambda>c. c = nl) a) = nl" if "dropWhile (\<lambda>c. c = nl) a \<noteq> []"
    using last_dropWhile [OF that] that assms(4) by (cases "a = []") simp_all
  moreover have "rev (dropWhile (\<lambda>c. c = nl) (rev (x @ b))) = x @ b" for x
  proof -
    have "dropWhile (\<lambda>c. c = nl) (rev b @ rev x) = rev b @ rev x"
      using assms(1,3) by (simp add: dropWhile_id hd_rev hd_append)
    then show ?thesis by simp
  qed
  ultimately show ?thesis unfolding strip_by_def by metis
qed

lemma join_last: "xs \<noteq> [] \<Longrightarrow> last xs \<noteq> [] \<Longrightarrow> py_join sep xs \<noteq> [] \<and> last (py_join sep xs) = last (last xs)"
proof (induction xs)
  case (Cons x xs)
  then show ?case by (cases "xs = []") (auto simp: py_join_Cons)
qed simp

lemma render_shape:
  assumes files: "\<And>p. p \<in> set (cm_files c) \<Longrightarrow> listed_path p"
  obtains a where "render_commit c = a @ files_block c @ [nl]" and "a = [] \<or> last a = nl"
proof -
  let ?ls = "CHANGED_FILES_HEADER # cm_files c" and ?sp = "rstrip_by py_space"
  let ?b = "files_block c"
  have ok: "\<not> list_ex py_linebreak x \<and> x \<noteq> [] \<and> py_strip x = x" if "x \<in> set ?ls" for x
    using that files header_facts by (auto simp: listed_path_def)
  have nonl: "nl \<notin> set x" if "x \<in> set ?ls" for x using ok [OF that] nl_break by (auto simp: list_ex_iff)
  have nocr: "CHR 0x0D \<notin> set ?b"
  proof -
    have "CHR 0x0D \<notin> set x" if "x \<in> set ?ls" for x using ok [OF that]
      by (auto simp: list_ex_iff py_linebreak_def Let_def)
    moreover have "c \<in> set (py_join [nl] xs) \<Longrightarrow> c = nl \<or> (\<exists>x \<in> set xs. c \<in> set x)" for c xs
    proof (induction xs)
      case (Cons x xs) then show ?case by (cases "xs = []") (auto simp: py_join_Cons)
    qed simp
    ultimately show ?thesis unfolding files_block_def by (metis nl_break(2))
  qed
  have split: "split_on nl ?b = ?ls" unfolding files_block_def by (rule split_on_join_list) (use nonl in auto)
  have rs: "map ?sp ?ls = ?ls"
  proof (rule map_idI)
    fix x assume "x \<in> set ?ls"
    then show "?sp x = x" using ok strip_fixD(2) by (blast intro: rstrip_fix)
  qed
  have edge: "?b \<noteq> []" "hd ?b \<noteq> nl" "last ?b \<noteq> nl"
  proof -
    show "hd ?b \<noteq> nl" using header_facts(3,4) by (cases "cm_files c") (auto simp: files_block_def nl_def)
    have "last ?ls \<in> set ?ls" by (rule last_in_set) simp
    then have "last ?ls \<noteq> []" "\<not> py_space (last (last ?ls))" using ok strip_fixD(2) by blast+
    with join_last [of ?ls "[nl]"] show "?b \<noteq> []" "last ?b \<noteq> nl"
      using linebreak_space nl_break by (auto simp: files_block_def)
  qed
  define pre where "pre = filter (\<lambda>s. s \<noteq> []) ([cm_subject c] @ (if cm_body c = [] then [] else [cm_body c]))"
  have secs: "filter (\<lambda>s. s \<noteq> []) ([cm_subject c] @ (if cm_body c = [] then [] else [cm_body c]) @ [?b]) = pre @ [?b]"
    using edge(1) by (simp add: pre_def)
  define a where "a = (if pre = [] then [] else py_join [nl, nl] pre @ [nl, nl])"
  have shape: "py_join [nl, nl] (pre @ [?b]) = a @ ?b" by (simp add: a_def py_join_append)
  have "\<exists>a1. py_join [nl] (map ?sp (split_on nl (normalize_code (a @ ?b)))) = a1 @ ?b \<and> (a1 = [] \<or> last a1 = nl)"
  proof (cases "pre = []")
    case True
    then have "a = []" by (simp add: a_def)
    then have "normalize_code (a @ ?b) = ?b" by (simp add: normalize_code_id [OF nocr])
    then have "py_join [nl] (map ?sp (split_on nl (normalize_code (a @ ?b)))) = [] @ ?b"
      by (simp only: split rs) (simp add: files_block_def)
    then show ?thesis by blast
  next
    case False
    then obtain a0 where a0: "a = a0 @ [nl]" by (simp add: a_def)
    then have "last a \<noteq> CHR 0x0D" using nl_break by simp
    then have "normalize_code (a @ ?b) = normalize_code a @ ?b"
      by (simp add: normalize_code_append normalize_code_id [OF nocr])
    moreover have "normalize_code a = normalize_code a1 @ [nl]" if "a = a1 @ [nl]" "a1 = [] \<or> last a1 \<noteq> CHR 0x0D" for a1
      using that by (simp add: normalize_code_append nl_def)
    moreover have "a = (py_join [nl, nl] pre @ [nl]) @ [nl]" using False by (simp add: a_def)
    ultimately obtain u where "normalize_code (a @ ?b) = u @ nl # ?b" using nl_break by fastforce
    then have "map ?sp (split_on nl (normalize_code (a @ ?b))) = map ?sp (split_on nl u) @ ?ls"
      using split rs by (simp add: split_on_append_sep)
    then have "py_join [nl] (map ?sp (split_on nl (normalize_code (a @ ?b))))
        = (py_join [nl] (map ?sp (split_on nl u)) @ [nl]) @ ?b"
      by (simp add: py_join_append files_block_def)
    then show ?thesis by fastforce
  qed
  then obtain a1 where a1: "py_join [nl] (map ?sp (split_on nl (normalize_code (a @ ?b)))) = a1 @ ?b"
    "a1 = [] \<or> last a1 = nl" by blast
  from strip_front [OF edge a1(2)] obtain a2 where a2: "strip_by (\<lambda>c. c = nl) (a1 @ ?b) = a2 @ ?b"
    "a2 = [] \<or> last a2 = nl" by blast
  have "render_commit c = a2 @ ?b @ [nl]"
    using edge(1) a1(1) a2(1) by (simp add: render_commit_def secs [simplified] shape normalize_text_def Let_def)
  with a2(2) that show thesis by blast
qed

lemma parse_render:
  assumes files: "\<And>p. p \<in> set (cm_files c) \<Longrightarrow> listed_path p"
  shows "parse_changed_files (render_commit c) = cm_files c"
proof -
  let ?ls = "CHANGED_FILES_HEADER # cm_files c"
  from render_shape [OF files] obtain a where r: "render_commit c = a @ files_block c @ [nl]" "a = [] \<or> last a = nl" .
  have ok: "\<not> list_ex py_linebreak x \<and> py_strip x = x" if "x \<in> set ?ls" for x
    using that files header_facts by (auto simp: listed_path_def)
  have tail: "splitlines (files_block c @ [nl]) = ?ls"
    unfolding files_block_def by (rule splitlines_join) (use ok in auto)
  have "\<exists>pre. splitlines (render_commit c) = pre @ ?ls"
  proof (cases "a = []")
    case False
    then obtain a0 where "a = a0 @ [nl]" using r(2) by (metis append_butlast_last_id)
    then have "splitlines (render_commit c) = splitlines a @ splitlines (files_block c @ [nl])"
      using lines_go_append [of "[]" a0 "files_block c @ [nl]"] by (simp add: r(1) splitlines_def)
    then show ?thesis by (simp add: tail)
  qed (simp add: r(1) tail)
  then obtain pre where pre: "splitlines (render_commit c) = pre @ ?ls" ..
  have strip: "map py_strip ?ls = ?ls" by (rule map_idI) (use ok in auto)
  have files': "\<forall>p \<in> set (cm_files c). p \<noteq> CHANGED_FILES_HEADER \<and> p \<noteq> []" using files by (auto simp: listed_path_def)
  have "takeWhile (\<lambda>l. l \<noteq> CHANGED_FILES_HEADER) (rev (cm_files c) @ CHANGED_FILES_HEADER # xs) = rev (cm_files c)" for xs
    by (subst takeWhile_append2) (use files' in auto)
  moreover have "filter (\<lambda>l. l \<noteq> []) (cm_files c) = cm_files c" using files' by (simp add: filter_id_conv)
  ultimately show ?thesis using strip by (simp add: parse_changed_files_def pre Let_def)
qed

text \<open>The names git lists are listed paths, the header itself apart.\<close>

lemma strip_strip: "py_strip (py_strip s) = py_strip s"
proof (rule strip_fix, cases "py_strip s = []")
  case False
  let ?t = "dropWhile py_space s"
  have "dropWhile py_space (rev ?t) \<noteq> []" using False by (simp add: py_strip_def strip_by_def)
  then have l: "\<not> py_space (hd (dropWhile py_space (rev ?t)))" by (rule hd_dropWhile)
  obtain u where u: "rev ?t = u @ dropWhile py_space (rev ?t)" by (metis takeWhile_dropWhile_id)
  then have t: "?t = py_strip s @ rev u" by (metis py_strip_def rev_append rev_rev_ident strip_by_def)
  then have "?t \<noteq> []" "hd ?t = hd (py_strip s)" using False by auto
  with hd_dropWhile [of py_space s] have "\<not> py_space (hd (py_strip s))" by simp
  with l False show "py_strip s = [] \<or> \<not> py_space (hd (py_strip s)) \<and> \<not> py_space (last (py_strip s))"
    by (simp add: py_strip_def strip_by_def last_rev)
qed simp

lemma lines_no_break:
  "l \<in> set (lines_go cur s) \<Longrightarrow> \<forall>x \<in> set cur. \<not> py_linebreak x \<Longrightarrow> \<forall>x \<in> set l. \<not> py_linebreak x"
proof (induction cur s rule: lines_go.induct)
  case (2 cur c cs)
  show ?case
  proof (cases "py_linebreak c")
    case True
    show ?thesis
    proof (cases cs)
      case (Cons d ds)
      show ?thesis
      proof (cases "c = CHR 0x0D \<and> d = nl")
        case crlf: True
        with 2(4) True Cons have "l = rev cur \<or> l \<in> set (lines_go [] ds)" by simp
        with 2(1) [OF True Cons crlf] 2(5) show ?thesis by auto
      next
        case False
        with 2(4) True Cons have "l = rev cur \<or> l \<in> set (lines_go [] cs)" by (simp split: if_splits)
        with 2(2) [OF True Cons False] 2(5) show ?thesis by auto
      qed
    qed (use 2(4,5) True in auto)
  next
    case False
    with 2(4) have "l \<in> set (lines_go (c # cur) cs)" by simp
    from 2(3) [OF False this] 2(5) False show ?thesis by simp
  qed
qed (auto split: if_splits)

lemma strip_subset: "set (py_strip s) \<subseteq> set s"
  by (auto simp: py_strip_def strip_by_def dest!: set_dropWhileD)

lemma changed_files_listed:
  assumes "changed_files g sha = Inr fs" and "p \<in> set fs" and "p \<noteq> CHANGED_FILES_HEADER"
  shows "listed_path p"
proof -
  from assms(1,2) obtain out l where l: "l \<in> set (splitlines out)" "p = py_strip l" "p \<noteq> []"
    by (auto simp: changed_files_def split: option.splits)
  have "\<not> list_ex py_linebreak l" using lines_no_break [of l "[]" out] l(1)
    by (simp add: splitlines_def list_ex_iff)
  then show ?thesis using l assms(3) strip_subset strip_strip by (auto simp: listed_path_def list_ex_iff)
qed

end
