(* ===== verification/BuildSources.thy ===== *)
theory BuildSources
  imports Writers GitMetadata
begin

text \<open>
  The first half of \<open>application/build_runner.py\<close>: fetching the sources, the skip of unchanged ones, and
  one commit per changed source. A session is the registry as its open transaction sees it (\<open>bw_kb\<close>) and as last
  committed (\<open>bw_saved\<close>); \<open>now()\<close> is the start of the transaction. Connectors, models, the search client and
  Graphify's extraction are fields of the environment, each of them free to raise. Logs are left out.
\<close>

section \<open>The environment and the session\<close>

record connector =
  cn_type :: string
  cn_list :: "exn + source_ref list"
  cn_fetch :: "source_ref \<Rightarrow> exn + content"

record 'i build_env =
  be_version :: string
  be_model :: string
  be_params :: string
  be_extract :: "nat \<Rightarrow> content \<Rightarrow> exn + doc_draft list"
  be_embed_model :: string
  be_embed :: "nat \<Rightarrow> string \<Rightarrow> exn + string \<times> real list"
  be_client :: "'i search_client"
  be_graphify :: "(string \<times> string) list \<Rightarrow> exn + code_draft list \<times> code_edge list"
  be_durable :: bool
  be_clock :: "nat \<Rightarrow> int"

record 'i bworld =
  bw_kb :: kb
  bw_saved :: kb
  bw_index :: 'i
  bw_counters :: counters
  bw_durable :: durable
  bw_txn :: nat
  bw_seq :: int
  bw_extracts :: nat
  bw_embeds :: nat

definition commitM :: "('i bworld, unit) op" where
  "commitM = modM (\<lambda>w. w\<lparr>bw_saved := bw_kb w, bw_txn := Suc (bw_txn w)\<rparr>)"

text \<open>A rollback does not take back the ids drawn.\<close>

definition rollbackM :: "('i bworld, unit) op" where
  "rollbackM = modM (\<lambda>w. w\<lparr>bw_kb := (bw_saved w)\<lparr>kb_drawn := kb_drawn (bw_kb w)\<rparr>, bw_txn := Suc (bw_txn w)\<rparr>)"

definition nowM :: "'i build_env \<Rightarrow> ('i bworld, int) op" where
  "nowM env = getM (\<lambda>w. be_clock env (bw_txn w))"

definition kbM :: "(kb \<Rightarrow> 'a \<times> kb) \<Rightarrow> ('i bworld, 'a) op" where
  "kbM f w = (let (x, k) = f (bw_kb w) in (Inr x, w\<lparr>bw_kb := k\<rparr>))"

definition kbE :: "(kb \<Rightarrow> exn + 'a \<times> kb) \<Rightarrow> ('i bworld, 'a) op" where
  "kbE f w = (case f (bw_kb w) of Inl e \<Rightarrow> (Inl e, w) | Inr (x, k) \<Rightarrow> (Inr x, w\<lparr>bw_kb := k\<rparr>))"

definition countM :: "(counters \<Rightarrow> counters) \<Rightarrow> ('i bworld, unit) op" where
  "countM f = modM (\<lambda>w. w\<lparr>bw_counters := f (bw_counters w)\<rparr>)"

section \<open>Source items\<close>

definition is_source :: "source_ref \<Rightarrow> kb_source \<Rightarrow> bool" where
  "is_source ref s \<longleftrightarrow> src_type s = Some (rf_type ref) \<and> src_uri s = rf_uri ref"

definition scalar_one_or_none :: "'a list \<Rightarrow> exn + 'a option" where
  "scalar_one_or_none xs = (case xs of [] \<Rightarrow> Inr None | [x] \<Rightarrow> Inr (Some x) | _ \<Rightarrow> Inl MultipleResultsFound)"

definition is_unchanged :: "content \<Rightarrow> ('i bworld, bool) op" where
  "is_unchanged c = bindM (getM (\<lambda>w. filter (is_source (ct_source c)) (kb_sources (bw_kb w)))) (\<lambda>rows.
     bindM (liftM (scalar_one_or_none rows)) (\<lambda>r. ret (map_option src_hash r = Some (ct_hash c))))"

definition touch_row :: "int \<Rightarrow> source_ref \<Rightarrow> kb_source \<Rightarrow> kb_source" where
  "touch_row t ref s = s\<lparr>src_last_seen := Some t, src_acl := rf_acl ref\<rparr>"

definition touch_sources :: "int \<Rightarrow> source_ref \<Rightarrow> kb \<Rightarrow> nat list \<times> kb" where
  "touch_sources t ref k = (map src_id (filter (is_source ref) (kb_sources k)),
     k\<lparr>kb_sources := update_where (is_source ref) (touch_row t ref) (kb_sources k)\<rparr>)"

definition touch_last_seen :: "'i build_env \<Rightarrow> content \<Rightarrow> ('i bworld, nat option) op" where
  "touch_last_seen env c = bindM (nowM env) (\<lambda>t.
     bindM (kbM (touch_sources t (ct_source c))) (\<lambda>ids. liftM (scalar_one_or_none ids)))"

definition heal_row :: "int \<Rightarrow> content \<Rightarrow> kb_source \<Rightarrow> kb_source" where
  "heal_row t c s = (let ref = ct_source c in s\<lparr>src_version := rf_version ref, src_repo := rf_repo ref,
     src_branch := rf_branch ref, src_path := rf_path ref, src_external := rf_external ref, src_acl := rf_acl ref,
     src_hash := ct_hash c, src_last_seen := Some t, src_deleted := False\<rparr>)"

definition new_source :: "nat \<Rightarrow> int \<Rightarrow> content \<Rightarrow> kb_source" where
  "new_source u t c = (let ref = ct_source c in \<lparr>src_id = u, src_uri = rf_uri ref, src_type = Some (rf_type ref),
     src_path = rf_path ref, src_deleted = False, src_version = rf_version ref, src_repo = rf_repo ref,
     src_branch = rf_branch ref, src_external = rf_external ref, src_hash = ct_hash c, src_last_seen = Some t,
     src_acl = rf_acl ref, src_created = t\<rparr>)"

definition upsert_source :: "int \<Rightarrow> content \<Rightarrow> kb \<Rightarrow> nat \<times> kb" where
  "upsert_source t c k =
     (case filter (is_source (ct_source c)) (kb_sources k) of
        s # _ \<Rightarrow> (src_id s, k\<lparr>kb_sources := update_where (is_source (ct_source c)) (heal_row t c) (kb_sources k)\<rparr>)
      | [] \<Rightarrow> (let (u, k1) = gen_random_uuid k in (u, k1\<lparr>kb_sources := kb_sources k1 @ [new_source u t c]\<rparr>)))"

definition upsert_source_item :: "'i build_env \<Rightarrow> content \<Rightarrow> ('i bworld, nat) op" where
  "upsert_source_item env c = bindM (nowM env) (\<lambda>t. kbM (upsert_source t c))"

section \<open>Gated model calls\<close>

definition durable_doc :: "'i build_env \<Rightarrow> string \<Rightarrow> ('i bworld, doc_draft list option) op" where
  "durable_doc env key w = (if be_durable env
     then (let (r, d) = durable_get_doc key (bw_durable w) in (Inr r, w\<lparr>bw_durable := d\<rparr>)) else (Inr None, w))"

text \<open>One extraction: the model is called, counted when it answers, and its output put aside for good.\<close>

definition extract_doc :: "'i build_env \<Rightarrow> string \<Rightarrow> content \<Rightarrow> ('i bworld, doc_draft list) op" where
  "extract_doc env key c = bindM (getM bw_extracts) (\<lambda>n.
     bindM (modM (\<lambda>w. w\<lparr>bw_extracts := Suc n\<rparr>)) (\<lambda>_.
     bindM (liftM (be_extract env n c)) (\<lambda>drafts.
     bindM (countM (\<lambda>x. x\<lparr>llm_calls := llm_calls x + 1\<rparr>)) (\<lambda>_.
     bindM (modM (\<lambda>w. if be_durable env then w\<lparr>bw_durable := durable_put_doc key drafts (bw_durable w)\<rparr> else w)) (\<lambda>_.
     ret drafts)))))"

definition doc_key :: "'i build_env \<Rightarrow> content \<Rightarrow> string" where
  "doc_key env c = doc_extract_cache_key (ct_hash c) DOC_EXTRACT_PROMPT_VERSION (be_model env) (be_params env) OUTPUT_SCHEMA_VERSION"

definition write_extracted :: "'i build_env \<Rightarrow> int \<Rightarrow> content \<Rightarrow> nat \<Rightarrow> doc_draft list \<Rightarrow> ('i bworld, uuid list) op" where
  "write_extracted env seq c sid drafts =
     bindM (nowM env) (\<lambda>t.
     bindM (kbM (write_doc_artifacts sid (be_version env) seq (rf_acl (ct_source c)) t drafts)) (\<lambda>ids.
     bindM (countM (\<lambda>x. x\<lparr>artifacts_created := artifacts_created x + length ids\<rparr>)) (\<lambda>_.
     bindM (kbE (\<lambda>k. map_sum id (Pair ()) (generation_record (doc_key env c) (ct_hash c) ids k))) (\<lambda>_.
     ret ids))))"

definition docify_gated :: "'i build_env \<Rightarrow> int \<Rightarrow> content \<Rightarrow> nat \<Rightarrow> ('i bworld, uuid list) op" where
  "docify_gated env seq c sid =
     (let key = doc_key env c in
      bindM (getM (\<lambda>w. generation_lookup key (bw_kb w))) (\<lambda>hit.
        if hit \<noteq> None then getM (\<lambda>w. lookup_artifact_ids key (bw_kb w))
        else
          bindM (durable_doc env key) (\<lambda>kept.
          bindM (case kept of Some drafts \<Rightarrow> ret drafts | None \<Rightarrow> extract_doc env key c)
            (write_extracted env seq c sid))))"

definition embed_text_body :: "'i build_env \<Rightarrow> string \<times> string \<Rightarrow> string \<Rightarrow> ('i bworld, string \<times> real list) op" where
  "embed_text_body env key body = bindM (getM bw_embeds) (\<lambda>n.
     bindM (modM (\<lambda>w. w\<lparr>bw_embeds := Suc n\<rparr>)) (\<lambda>_.
     bindM (liftM (be_embed env n body)) (\<lambda>r.
     bindM (countM (\<lambda>x. x\<lparr>embedding_calls := embedding_calls x + 1\<rparr>)) (\<lambda>_.
     bindM (modM (\<lambda>w. if be_durable env then w\<lparr>bw_durable := durable_put_vector key r (bw_durable w)\<rparr> else w)) (\<lambda>_.
     ret r)))))"

definition durable_vector :: "'i build_env \<Rightarrow> string \<times> string \<Rightarrow> ('i bworld, (string \<times> real list) option) op" where
  "durable_vector env key w = (if be_durable env
     then (let (r, d) = durable_get_vector key (bw_durable w) in (Inr r, w\<lparr>bw_durable := d\<rparr>)) else (Inr None, w))"

definition embed_gated :: "'i build_env \<Rightarrow> uuid \<Rightarrow> ('i bworld, unit) op" where
  "embed_gated env u = bindM (getM (\<lambda>w. find (\<lambda>a. ka_id a = u) (kb_artifacts (bw_kb w)))) (\<lambda>a.
     case (case a of None \<Rightarrow> None | Some x \<Rightarrow> ka_body x) of
       None \<Rightarrow> ret ()
     | Some body \<Rightarrow>
         (let h = content_hash body; m = be_embed_model env in
          bindM (getM (\<lambda>w. embedding_lookup (u, h, m) (bw_kb w))) (\<lambda>hit.
            if hit \<noteq> None then ret ()
            else
              bindM (durable_vector env (h, m)) (\<lambda>kept.
              bindM (case kept of Some r \<Rightarrow> ret r | None \<Rightarrow> embed_text_body env (h, m) body) (\<lambda>r.
              modM (\<lambda>w. w\<lparr>bw_kb := embedding_record (u, h, m) (fst r) (Some (snd r)) None (bw_kb w)\<rparr>))))))"

fun embed_all :: "'i build_env \<Rightarrow> uuid list \<Rightarrow> ('i bworld, unit) op" where
  "embed_all env [] = ret ()"
| "embed_all env (u # us) = bindM (embed_gated env u) (\<lambda>_. embed_all env us)"

text \<open>\<open>indexer.upsert_documents\<close>; the index is outside the transaction.\<close>

definition index_docs :: "'i build_env \<Rightarrow> uuid list \<Rightarrow> ('i bworld, nat) op" where
  "index_docs env ids w = (let (r, k, idx) = upsert_documents (be_client env) ids (bw_kb w) (bw_index w)
     in (r, w\<lparr>bw_kb := k, bw_index := idx\<rparr>))"

definition index_counted :: "'i build_env \<Rightarrow> uuid list \<Rightarrow> ('i bworld, unit) op" where
  "index_counted env ids = (if ids = [] then ret ()
     else bindM (index_docs env ids) (\<lambda>n. countM (\<lambda>x. x\<lparr>search_docs_upserted := search_docs_upserted x + n\<rparr>)))"

section \<open>One changed source\<close>

definition process_commit_source :: "'i build_env \<Rightarrow> int \<Rightarrow> content \<Rightarrow> ('i bworld, nat) op" where
  "process_commit_source env seq c =
     bindM (upsert_source_item env c) (\<lambda>sid.
     bindM (nowM env) (\<lambda>t.
     bindM (kbM (write_commit_artifact sid (be_version env) seq (take 12 (rf_version (ct_source c))) (ct_text c)
                  (parse_changed_files (ct_text c)) (rf_repo (ct_source c)) t)) (\<lambda>u.
     bindM (countM (\<lambda>x. x\<lparr>artifacts_created := artifacts_created x + 1\<rparr>)) (\<lambda>_.
     bindM (embed_gated env u) (\<lambda>_.
     bindM (index_counted env [u]) (\<lambda>_. ret sid))))))"

definition process_changed_source :: "'i build_env \<Rightarrow> int \<Rightarrow> content \<Rightarrow> ('i bworld, nat) op" where
  "process_changed_source env seq c =
     (if rf_type (ct_source c) = ''git_metadata'' then process_commit_source env seq c
      else bindM (upsert_source_item env c) (\<lambda>sid.
           bindM (docify_gated env seq c sid) (\<lambda>ids.
           bindM (embed_all env ids) (\<lambda>_.
           bindM (index_counted env ids) (\<lambda>_. ret sid)))))"

record code_unit =
  cu_fetched :: content
  cu_path :: string
  cu_repo :: string
  cu_changed :: bool

record source_marks =
  mk_seen :: "nat set"
  mk_changed :: "nat set"
  mk_units :: "code_unit list"

definition seen_only :: "nat option \<Rightarrow> source_marks \<Rightarrow> source_marks" where
  "seen_only r m = (case r of None \<Rightarrow> m | Some u \<Rightarrow> m\<lparr>mk_seen := insert u (mk_seen m)\<rparr>)"

definition seen_changed :: "nat \<Rightarrow> source_marks \<Rightarrow> source_marks" where
  "seen_changed u m = m\<lparr>mk_seen := insert u (mk_seen m), mk_changed := insert u (mk_changed m)\<rparr>"

text \<open>
  A changed source: commit it whole, or roll back and keep what it had, marked as seen.
\<close>

definition build_source :: "'i build_env \<Rightarrow> int \<Rightarrow> content \<Rightarrow> source_marks \<Rightarrow> ('i bworld, source_marks) op" where
  "build_source env seq c m = tryM
     (bindM (process_changed_source env seq c) (\<lambda>u.
      bindM commitM (\<lambda>_.
      bindM (countM (\<lambda>x. x\<lparr>sources_changed := sources_changed x + 1\<rparr>)) (\<lambda>_. ret (seen_changed u m)))))
     (\<lambda>e. bindM rollbackM (\<lambda>_.
          bindM (countM (\<lambda>x. x\<lparr>extractor_failures := extractor_failures x + 1\<rparr>)) (\<lambda>_.
          bindM (touch_last_seen env c) (\<lambda>r.
          bindM (if r = None then ret () else commitM) (\<lambda>_. ret (seen_only r m))))))"

definition build_ref :: "'i build_env \<Rightarrow> int \<Rightarrow> connector \<Rightarrow> source_ref \<Rightarrow> source_marks \<Rightarrow> ('i bworld, source_marks) op" where
  "build_ref env seq cn ref m =
     bindM (liftM (cn_fetch cn ref)) (\<lambda>c.
     bindM (countM (\<lambda>x. x\<lparr>sources_seen := sources_seen x + 1\<rparr>)) (\<lambda>_.
     bindM (is_unchanged c) (\<lambda>same.
       case rf_path ref of
         Some (p # ps) \<Rightarrow>
           if rf_type (ct_source c) = ''github_code''
           then ret (m\<lparr>mk_units := mk_units m @ [\<lparr>cu_fetched = c, cu_path = p # ps,
                  cu_repo = (case rf_repo ref of Some r \<Rightarrow> r | None \<Rightarrow> []), cu_changed = \<not> same\<rparr>]\<rparr>)
           else if same then bindM (touch_last_seen env c) (\<lambda>r. ret (seen_only r m)) else build_source env seq c m
       | _ \<Rightarrow> if same then bindM (touch_last_seen env c) (\<lambda>r. ret (seen_only r m)) else build_source env seq c m)))"

fun build_refs :: "'i build_env \<Rightarrow> int \<Rightarrow> connector \<Rightarrow> source_ref list \<Rightarrow> source_marks \<Rightarrow> ('i bworld, source_marks) op" where
  "build_refs env seq cn [] m = ret m"
| "build_refs env seq cn (r # rs) m = bindM (build_ref env seq cn r m) (build_refs env seq cn rs)"

fun build_connectors :: "'i build_env \<Rightarrow> int \<Rightarrow> connector list \<Rightarrow> source_marks \<Rightarrow> ('i bworld, source_marks) op" where
  "build_connectors env seq [] m = ret m"
| "build_connectors env seq (cn # cns) m = bindM (liftM (cn_list cn)) (\<lambda>refs.
     bindM (build_refs env seq cn refs m) (build_connectors env seq cns))"

section \<open>The code tree\<close>

definition path_of_code_key :: "string \<Rightarrow> string" where
  "path_of_code_key key = (if prefix ''file:'' key then drop 5 key
     else if prefix ''sym:'' key
     then (case split_once ''::'' (drop 4 key) of Some (p, _) \<Rightarrow> p | None \<Rightarrow> drop 4 key) else [])"

text \<open>The upserts of one repo's files, and the source id of each path.\<close>

fun mark_units :: "'i build_env \<Rightarrow> code_unit list \<Rightarrow> (string, nat) dict \<Rightarrow> source_marks \<Rightarrow> ('i bworld, (string, nat) dict \<times> source_marks) op" where
  "mark_units env [] d m = ret (d, m)"
| "mark_units env (u # us) d m =
     bindM (if cu_changed u then bindM (upsert_source_item env (cu_fetched u)) (\<lambda>s. ret (Some s))
            else touch_last_seen env (cu_fetched u)) (\<lambda>r.
       case r of
         None \<Rightarrow> mark_units env us d m
       | Some s \<Rightarrow> bindM (countM (\<lambda>x. x\<lparr>sources_changed := sources_changed x + 1\<rparr>)) (\<lambda>_.
           mark_units env us (AList.update (cu_path u) s d) (seen_changed s m)))"

definition drafts_by_path :: "code_draft list \<Rightarrow> (string \<times> code_draft list) list" where
  "drafts_by_path ds = map (\<lambda>p. (p, filter (\<lambda>d. path_of_code_key (cf_key d) = p) ds))
     (dict_fromkeys (map (\<lambda>d. path_of_code_key (cf_key d)) ds))"

definition unit_at :: "code_unit list \<Rightarrow> string \<Rightarrow> code_unit option" where
  "unit_at us p = find (\<lambda>u. cu_path u = p) (rev us)"

fun write_units :: "'i build_env \<Rightarrow> int \<Rightarrow> string \<Rightarrow> code_unit list \<Rightarrow> (string, nat) dict
     \<Rightarrow> (string \<times> code_draft list) list \<Rightarrow> key_map \<Rightarrow> uuid list \<Rightarrow> ('i bworld, key_map \<times> uuid list) op" where
  "write_units env seq repo us ids [] m out = ret (m, out)"
| "write_units env seq repo us ids ((p, ds) # rest) m out =
     (case (unit_at us p, map_of ids p) of
        (Some u, Some sid) \<Rightarrow>
          bindM (nowM env) (\<lambda>t.
          bindM (kbM (write_code_artifacts sid (be_version env) seq (rf_acl (ct_source (cu_fetched u))) t ds)) (\<lambda>keys.
          bindM (countM (\<lambda>x. x\<lparr>artifacts_created := artifacts_created x + length keys\<rparr>)) (\<lambda>_.
          write_units env seq repo us ids rest (dict_update_all m (map (\<lambda>(key, a). ((repo, key), a)) keys))
            (out @ map snd keys))))
      | _ \<Rightarrow> write_units env seq repo us ids rest m out)"

definition graphify_result :: "'i build_env \<Rightarrow> code_unit list \<Rightarrow> ('i bworld, (code_draft list \<times> code_edge list) option) op" where
  "graphify_result env us = tryM
     (bindM (liftM (be_graphify env (map (\<lambda>u. (cu_path u, ct_text (cu_fetched u))) us))) (\<lambda>r. ret (Some r)))
     (\<lambda>e. bindM (countM (\<lambda>x. x\<lparr>extractor_failures := extractor_failures x + 1\<rparr>)) (\<lambda>_. ret None))"

definition graphify_one_repo :: "'i build_env \<Rightarrow> int \<Rightarrow> string \<Rightarrow> code_unit list \<Rightarrow> key_map \<times> source_marks
     \<Rightarrow> ('i bworld, key_map \<times> source_marks) op" where
  "graphify_one_repo env seq repo us st = (case st of (km, m) \<Rightarrow>
     bindM (graphify_result env us) (\<lambda>res. case res of
       None \<Rightarrow> ret (km, m)
     | Some (drafts, code_edges) \<Rightarrow>
         bindM (mark_units env us [] m) (\<lambda>(ids, m1).
         bindM (write_units env seq repo us ids (drafts_by_path drafts) km []) (\<lambda>(km1, out).
         bindM (embed_all env out) (\<lambda>_.
         bindM (index_counted env out) (\<lambda>_.
         bindM (kbE (write_code_edges (be_version env) seq repo km1 code_edges)) (\<lambda>_. ret (km1, m1))))))))"

fun graphify_repos :: "'i build_env \<Rightarrow> int \<Rightarrow> code_unit list \<Rightarrow> string list \<Rightarrow> key_map \<times> source_marks \<Rightarrow> ('i bworld, key_map \<times> source_marks) op" where
  "graphify_repos env seq us [] st = ret st"
| "graphify_repos env seq us (r # rs) st =
     bindM (graphify_one_repo env seq r (filter (\<lambda>u. cu_repo u = r) us) st) (graphify_repos env seq us rs)"

definition graphify_code_tree :: "'i build_env \<Rightarrow> int \<Rightarrow> code_unit list \<Rightarrow> source_marks \<Rightarrow> ('i bworld, source_marks) op" where
  "graphify_code_tree env seq us m =
     bindM (graphify_repos env seq us (sort (remdups (map cu_repo us))) ([], m)) (\<lambda>(km, m1). ret m1)"

fun touch_units :: "'i build_env \<Rightarrow> code_unit list \<Rightarrow> source_marks \<Rightarrow> ('i bworld, source_marks) op" where
  "touch_units env [] m = ret m"
| "touch_units env (u # us) m = bindM (touch_last_seen env (cu_fetched u)) (\<lambda>r. touch_units env us (seen_only r m))"

definition no_marks :: source_marks where "no_marks = \<lparr>mk_seen = {}, mk_changed = {}, mk_units = []\<rparr>"

definition process_sources :: "'i build_env \<Rightarrow> int \<Rightarrow> connector list \<Rightarrow> ('i bworld, source_marks) op" where
  "process_sources env seq cns =
     bindM (build_connectors env seq cns no_marks) (\<lambda>m.
       if mk_units m \<noteq> [] \<and> list_ex cu_changed (mk_units m)
       then bindM (graphify_code_tree env seq (mk_units m) m) (\<lambda>m1. bindM commitM (\<lambda>_. ret m1))
       else touch_units env (mk_units m) m)"

end
