(* ===== verification/PublishGates.thy ===== *)
theory PublishGates
  imports Indexing Invalidation
begin

text \<open>
  The publish gates (\<open>application/publish_gates.py\<close>) and the activation they guard
  (\<open>application/active_version.py\<close>). A gate reads the registry and may raise; activation
  runs them in order, records the first failure and promotes the run only when all pass.
  Rates are reals.
\<close>

section \<open>Reads the gates share\<close>

definition ALLOWED_EDGE_TYPES :: "string set" where
  "ALLOWED_EDGE_TYPES = {''imports'', ''calls'', ''inherits'', ''exposes'', ''tests'', ''documents'',
     ''implements'', ''mentions'', ''exposed_as'', ''requests'', ''defined_in'', ''uses'', ''references'', ''aliases''}"

definition EXTRACTOR_ERROR_RATE_THRESHOLD :: real where
  "EXTRACTOR_ERROR_RATE_THRESHOLD = 1 / 100"

definition SYMBOL_COUNT_DELTA_THRESHOLD :: real where
  "SYMBOL_COUNT_DELTA_THRESHOLD = 1 / 4"

definition completed_run :: "kb \<Rightarrow> string \<Rightarrow> kb_run option" where
  "completed_run k v =
     (case sorted_desc br_build_seq (filter (\<lambda>r. br_kb_version r = v \<and> br_status r = ''completed'') (kb_runs k)) of
        [] \<Rightarrow> None | r # _ \<Rightarrow> Some r)"

definition build_seq_for :: "kb \<Rightarrow> string \<Rightarrow> exn + int" where
  "build_seq_for k v = opt_or_raise ValueError (map_option br_build_seq (completed_run k v))"

definition previous_active_seq :: "kb \<Rightarrow> string \<Rightarrow> exn + int option" where
  "previous_active_seq k v =
     (case filter (\<lambda>r. br_status r = ''active'' \<and> br_kb_version r \<noteq> v) (kb_runs k) of
        [] \<Rightarrow> Inr None | [r] \<Rightarrow> Inr (Some (br_build_seq r)) | _ \<Rightarrow> Inl MultipleResultsFound)"

definition count_artifacts :: "kb \<Rightarrow> int \<Rightarrow> string \<Rightarrow> nat" where
  "count_artifacts k s typ = length (filter (\<lambda>a. in_version s a \<and> ka_type a = typ) (kb_artifacts k))"

section \<open>The gates\<close>

record gate_result =
  gr_name :: string
  gr_passed :: bool
  gr_value :: "real option"
  gr_skipped :: bool

type_synonym gate = "kb \<Rightarrow> string \<Rightarrow> exn + gate_result"

definition gate_verdict :: "string \<Rightarrow> bool \<Rightarrow> real \<Rightarrow> gate_result" where
  "gate_verdict name passed v = \<lparr>gr_name = name, gr_passed = passed, gr_value = Some v, gr_skipped = False\<rparr>"

definition with_seq :: "kb \<Rightarrow> string \<Rightarrow> (int \<Rightarrow> exn + gate_result) \<Rightarrow> exn + gate_result" where
  "with_seq k v f = (case build_seq_for k v of Inl e \<Rightarrow> Inl e | Inr s \<Rightarrow> f s)"

definition extractor_error_rate_gate :: gate where
  "extractor_error_rate_gate k v =
     (let failures = (case completed_run k v of Some r \<Rightarrow> extractor_failures (br_counters r) | None \<Rightarrow> 0)
      in with_seq k v (\<lambda>s.
        let attempted = count_artifacts k s ''code_file'' + failures;
            rate = (if attempted = 0 then 0 else real failures / real attempted)
        in Inr (gate_verdict ''extractor_error_rate'' (rate \<le> EXTRACTOR_ERROR_RATE_THRESHOLD) rate)))"

definition symbol_delta :: "nat \<Rightarrow> nat \<Rightarrow> real" where
  "symbol_delta new prev = (if prev = 0 then 0 else \<bar>real new - real prev\<bar> / real prev)"

definition symbol_count_delta_gate :: gate where
  "symbol_count_delta_gate k v =
     (let override = (case completed_run k v of Some r \<Rightarrow> br_allow_large_delta r | None \<Rightarrow> False)
      in with_seq k v (\<lambda>s. case previous_active_seq k v of
           Inl e \<Rightarrow> Inl e
         | Inr None \<Rightarrow> Inr (gate_verdict ''symbol_count_delta'' True 0)
         | Inr (Some p) \<Rightarrow>
             (let delta = symbol_delta (count_artifacts k s ''code_symbol'') (count_artifacts k p ''code_symbol'')
              in Inr (gate_verdict ''symbol_count_delta''
                   (delta \<le> SYMBOL_COUNT_DELTA_THRESHOLD \<or> override) delta))))"

text \<open>The outer join with \<open>source_item\<close>: a row per matching source, or one without any.\<close>

definition outer_sources :: "kb \<Rightarrow> kb_artifact \<Rightarrow> kb_source option list" where
  "outer_sources k a = (case filter (\<lambda>s. src_id s = ka_source a) (kb_sources k) of
     [] \<Rightarrow> [None] | ss \<Rightarrow> map Some ss)"

definition dangling :: "kb_source option \<Rightarrow> bool" where
  "dangling s = (case s of None \<Rightarrow> True | Some src \<Rightarrow> src_deleted src)"

definition dangling_citations :: "kb \<Rightarrow> int \<Rightarrow> nat" where
  "dangling_citations k s = sum_list (map (\<lambda>a. length (filter dangling (outer_sources k a)))
     (filter (\<lambda>a. in_version s a \<and> ka_body a \<noteq> None) (kb_artifacts k)))"

definition no_dangling_citations_gate :: gate where
  "no_dangling_citations_gate k v = with_seq k v (\<lambda>s.
     Inr (gate_verdict ''no_dangling_citations'' (dangling_citations k s = 0) (real (dangling_citations k s))))"

definition member_ids :: "kb \<Rightarrow> int \<Rightarrow> uuid set" where
  "member_ids k s = ka_id ` set (filter (in_version s) (kb_artifacts k))"

definition bad_type_edges :: "kb \<Rightarrow> int \<Rightarrow> kb_edge list" where
  "bad_type_edges k s = filter (\<lambda>e. edge_in_version s e \<and> ke_type e \<notin> ALLOWED_EDGE_TYPES) (kb_edges k)"

definition ghost_edges :: "kb \<Rightarrow> int \<Rightarrow> kb_edge list" where
  "ghost_edges k s = filter (\<lambda>e. edge_in_version s e
     \<and> (ke_from e \<notin> member_ids k s \<or> ke_to e \<notin> member_ids k s)) (kb_edges k)"

definition edge_evidence_integrity_gate :: gate where
  "edge_evidence_integrity_gate k v = with_seq k v (\<lambda>s.
     let offending = length (bad_type_edges k s) + length (ghost_edges k s)
     in Inr (gate_verdict ''edge_evidence_integrity'' (offending = 0) (real offending)))"

definition unevidenced_edges :: "kb \<Rightarrow> int \<Rightarrow> kb_edge list" where
  "unevidenced_edges k s = filter (\<lambda>e. edge_in_version s e \<and> ke_source e = Some ''linker''
     \<and> ke_evidence e = None) (kb_edges k)"

definition relation_precision_gate :: gate where
  "relation_precision_gate k v = with_seq k v (\<lambda>s.
     Inr (gate_verdict ''relation_precision'' (unevidenced_edges k s = []) (real (length (unevidenced_edges k s)))))"

text \<open>The recall gate only logs its proxy and never blocks.\<close>
text \<open>The proxy the recall gate logs: the code symbols of the version an edge of the version touches, and all of them.\<close>

definition recall_proxy :: "kb \<Rightarrow> int \<Rightarrow> nat \<times> nat" where
  "recall_proxy k s = (card (ka_id ` {a \<in> set (kb_artifacts k). in_version s a \<and> ka_type a = ''code_symbol''
       \<and> (\<exists>e \<in> set (kb_edges k). edge_in_version s e \<and> touches {ka_id a} e)}),
     count_artifacts k s ''code_symbol'')"

lemma recall_proxy_bound: "fst (recall_proxy k s) \<le> snd (recall_proxy k s)"
proof -
  let ?members = "filter (\<lambda>a. in_version s a \<and> ka_type a = ''code_symbol'') (kb_artifacts k)"
  have "card (ka_id ` {a \<in> set (kb_artifacts k). in_version s a \<and> ka_type a = ''code_symbol''
       \<and> (\<exists>e \<in> set (kb_edges k). edge_in_version s e \<and> touches {ka_id a} e)}) \<le> card (set (map ka_id ?members))"
    by (rule card_mono) auto
  also have "\<dots> \<le> length ?members" using card_length [of "map ka_id ?members"] by simp
  finally show ?thesis by (simp add: recall_proxy_def count_artifacts_def)
qed

definition evidence_recall_gate :: gate where
  "evidence_recall_gate k v = with_seq k v (\<lambda>s.
     Inr \<lparr>gr_name = ''evidence_recall'', gr_passed = True, gr_value = None, gr_skipped = True\<rparr>)"

section \<open>Composition\<close>

definition record_failure :: "string \<Rightarrow> gate_result \<Rightarrow> kb \<Rightarrow> kb" where
  "record_failure v g k = k\<lparr>kb_runs := update_where (\<lambda>r. br_kb_version r = v \<and> br_status r = ''completed'')
     (\<lambda>r. r\<lparr>br_failed_gate := Some (gr_name g), br_gate_value := gr_value g\<rparr>) (kb_runs k)\<rparr>"

fun compose_gates :: "gate list \<Rightarrow> string \<Rightarrow> kb \<Rightarrow> (exn + bool) \<times> kb" where
  "compose_gates [] v k = (Inr True, k)"
| "compose_gates (g # gs) v k =
     (case g k v of
        Inl e \<Rightarrow> (Inl e, k)
      | Inr r \<Rightarrow> if gr_skipped r \<or> gr_passed r then compose_gates gs v k
                 else (Inr False, record_failure v r k))"

definition index_consistency_gate :: "(kb \<Rightarrow> bool) \<Rightarrow> gate" where
  "index_consistency_gate consistency k v =
     Inr \<lparr>gr_name = ''index_consistency'', gr_passed = consistency k, gr_value = None, gr_skipped = False\<rparr>"

definition publish_gates :: "(kb \<Rightarrow> bool) \<Rightarrow> gate list" where
  "publish_gates consistency = [index_consistency_gate consistency, extractor_error_rate_gate,
     symbol_count_delta_gate, no_dangling_citations_gate, edge_evidence_integrity_gate,
     relation_precision_gate, evidence_recall_gate]"

definition publish_validator :: "(kb \<Rightarrow> bool) \<Rightarrow> string \<Rightarrow> kb \<Rightarrow> (exn + bool) \<times> kb" where
  "publish_validator consistency = compose_gates (publish_gates consistency)"

section \<open>Activation (active_version.py)\<close>

definition get_active_kb_version :: "kb \<Rightarrow> exn + string option" where
  "get_active_kb_version k =
     (case filter (\<lambda>r. br_status r = ''active'') (kb_runs k) of
        [] \<Rightarrow> Inr None | [r] \<Rightarrow> Inr (Some (br_kb_version r)) | _ \<Rightarrow> Inl MultipleResultsFound)"

definition set_status :: "uuid \<Rightarrow> string \<Rightarrow> kb \<Rightarrow> kb" where
  "set_status u st k = k\<lparr>kb_runs := update_where (\<lambda>r. br_id r = u) (\<lambda>r. r\<lparr>br_status := st\<rparr>) (kb_runs k)\<rparr>"

definition supersede_active :: "int \<Rightarrow> kb \<Rightarrow> kb" where
  "supersede_active now k = k\<lparr>kb_runs := update_where (\<lambda>r. br_status r = ''active'')
     (\<lambda>r. r\<lparr>br_status := ''superseded'',
       br_completed_at := (case br_completed_at r of Some t \<Rightarrow> Some t | None \<Rightarrow> Some now)\<rparr>) (kb_runs k)\<rparr>"

definition get_run :: "kb \<Rightarrow> uuid \<Rightarrow> kb_run option" where
  "get_run k u = find (\<lambda>r. br_id r = u) (kb_runs k)"

definition activate_kb_version ::
  "int \<Rightarrow> uuid \<Rightarrow> (string \<Rightarrow> kb \<Rightarrow> (exn + bool) \<times> kb) \<Rightarrow> kb \<Rightarrow> (exn + bool) \<times> kb" where
  "activate_kb_version now u validate k =
     (case get_run k u of
        None \<Rightarrow> (Inl ValueError, k)
      | Some r \<Rightarrow>
          if br_status r \<noteq> ''completed'' then (Inl ValueError, k)
          else (case validate (br_kb_version r) k of
              (Inl e, k') \<Rightarrow> (Inl e, k')
            | (Inr False, k') \<Rightarrow> (Inr False, set_status u ''validation_failed'' k')
            | (Inr True, k') \<Rightarrow> (Inr True, set_status u ''active'' (supersede_active now k'))))"

section \<open>What the gates establish\<close>

lemma compose_gates_True:
  assumes "compose_gates gs v k = (Inr True, k')"
  shows "k' = k \<and> (\<forall>g \<in> set gs. \<exists>r. g k v = Inr r \<and> (gr_skipped r \<or> gr_passed r))"
  using assms by (induction gs) (auto split: sum.splits if_splits)

lemma compose_gates_artifacts:
  "kb_artifacts (snd (compose_gates gs v k)) = kb_artifacts k \<and> kb_edges (snd (compose_gates gs v k)) = kb_edges k
   \<and> kb_sources (snd (compose_gates gs v k)) = kb_sources k"
  by (induction gs) (auto simp: record_failure_def split: sum.splits)

definition run_view :: "kb_run \<Rightarrow> build_run" where
  "run_view r = build_run.truncate r"

lemma compose_gates_runs: "map run_view (kb_runs (snd (compose_gates gs v k))) = map run_view (kb_runs k)
   \<and> map br_id (kb_runs (snd (compose_gates gs v k))) = map br_id (kb_runs k)"
  by (induction gs)
    (auto simp: record_failure_def update_where_def run_view_def build_run.truncate_def split: sum.splits)

lemma with_seqD: "with_seq k v f = Inr r \<Longrightarrow> \<exists>s. build_seq_for k v = Inr s \<and> f s = Inr r"
  by (auto simp: with_seq_def split: sum.splits)

lemma outer_sources_dangling:
  "filter dangling (outer_sources k a) = [] \<longleftrightarrow>
     (\<exists>s \<in> set (kb_sources k). src_id s = ka_source a)
     \<and> (\<forall>s \<in> set (kb_sources k). src_id s = ka_source a \<longrightarrow> \<not> src_deleted s)"
proof (cases "filter (\<lambda>s. src_id s = ka_source a) (kb_sources k)")
  case Nil
  then show ?thesis by (auto simp: outer_sources_def dangling_def filter_empty_conv)
next
  case (Cons s ss)
  then have "set (s # ss) = {s \<in> set (kb_sources k). src_id s = ka_source a}" by (metis set_filter)
  then show ?thesis by (auto simp: outer_sources_def Cons dangling_def filter_empty_conv)
qed

lemma no_dangling_iff:
  "dangling_citations k s = 0 \<longleftrightarrow>
   (\<forall>a \<in> set (kb_artifacts k). in_version s a \<longrightarrow> ka_body a \<noteq> None \<longrightarrow>
     (\<exists>src \<in> set (kb_sources k). src_id src = ka_source a)
     \<and> (\<forall>src \<in> set (kb_sources k). src_id src = ka_source a \<longrightarrow> \<not> src_deleted src))"
  unfolding dangling_citations_def sum_list_eq_0_iff by (auto simp: outer_sources_dangling)

lemma publish_gates_pass:
  assumes "publish_validator c v k = (Inr True, k')"
  obtains s where "build_seq_for k v = Inr s" and "c k"
    and "dangling_citations k s = 0" and "bad_type_edges k s = []" and "ghost_edges k s = []"
    and "unevidenced_edges k s = []" and "k' = k"
proof -
  have all: "\<exists>r. g k v = Inr r \<and> (gr_skipped r \<or> gr_passed r)" if "g \<in> set (publish_gates c)" for g
    using assms compose_gates_True that by (metis publish_validator_def)
  have k': "k' = k" using assms compose_gates_True by (metis publish_validator_def)
  from all [of "relation_precision_gate"] obtain s where s: "build_seq_for k v = Inr s" "unevidenced_edges k s = []"
    by (auto simp: publish_gates_def relation_precision_gate_def gate_verdict_def dest!: with_seqD)
  from all [of "index_consistency_gate c"] have "c k"
    by (auto simp: publish_gates_def index_consistency_gate_def)
  moreover from all [of no_dangling_citations_gate] s have "dangling_citations k s = 0"
    by (auto simp: publish_gates_def no_dangling_citations_gate_def gate_verdict_def dest!: with_seqD)
  moreover from all [of edge_evidence_integrity_gate] s have "bad_type_edges k s = []" "ghost_edges k s = []"
    by (auto simp: publish_gates_def edge_evidence_integrity_gate_def gate_verdict_def Let_def dest!: with_seqD)
  ultimately show thesis using that s k' by blast
qed

section \<open>What activation establishes\<close>

lemma get_run_mem: "get_run k u = Some r \<Longrightarrow> r \<in> set (kb_runs k) \<and> br_id r = u"
  by (auto simp: get_run_def find_Some_iff)

text \<open>A registry with at most one active run (the partial unique index).\<close>

definition single_active :: "kb \<Rightarrow> bool" where
  "single_active k \<longleftrightarrow> length (filter (\<lambda>r. br_status r = ''active'') (kb_runs k)) \<le> 1"

lemma activated_runs:
  assumes "distinct (map br_id (kb_runs k))" and "get_run k u = Some r"
  shows "filter (\<lambda>r. br_status r = ''active'') (kb_runs (set_status u ''active'' (supersede_active now k)))
     = [(if br_status r = ''active'' then r\<lparr>br_status := ''superseded'',
          br_completed_at := (case br_completed_at r of Some t \<Rightarrow> Some t | None \<Rightarrow> Some now)\<rparr> else r)\<lparr>br_status := ''active''\<rparr>]"
proof -
  let ?f = "\<lambda>r. if br_status r = ''active'' then r\<lparr>br_status := ''superseded'',
          br_completed_at := (case br_completed_at r of Some t \<Rightarrow> Some t | None \<Rightarrow> Some now)\<rparr> else r"
  have f: "br_id (?f x) = br_id x" "br_status (?f x) \<noteq> ''active''" for x by simp_all
  have g: "filter (\<lambda>r. br_status r = ''active'') (map (\<lambda>x. if br_id x = u then x\<lparr>br_status := ''active''\<rparr> else x) (map ?f rs))
      = map (\<lambda>x. (?f x)\<lparr>br_status := ''active''\<rparr>) (filter (\<lambda>x. br_id x = u) rs)" for rs
    by (induction rs) (use f in auto)
  have "filter (\<lambda>x. br_id x = u) (kb_runs k) = [r]"
    using filter_key [OF assms(1)] get_run_mem [OF assms(2)] by auto
  then show ?thesis using g [of "kb_runs k"]
    by (simp add: set_status_def supersede_active_def update_where_def)
qed

text \<open>The broker serves the activated build, with its own sequence number.\<close>

lemma activation_serves:
  assumes run: "activate_kb_version now u (publish_validator c) k = (Inr True, k')"
    and ids: "distinct (map br_id (kb_runs k))"
  obtains r where "get_run k u = Some r" and "br_status r = ''completed''"
    and "publish_validator c (br_kb_version r) k = (Inr True, k)"
    and "k' = set_status u ''active'' (supersede_active now k)"
    and "fetch_active_version (published evs ents k') =
           Inr (Some \<lparr>av_kb_version = br_kb_version r, av_build_seq = br_build_seq r\<rparr>)"
proof -
  from run obtain r k1 where r: "get_run k u = Some r" "br_status r = ''completed''"
    and v: "publish_validator c (br_kb_version r) k = (Inr True, k1)"
    and k': "k' = set_status u ''active'' (supersede_active now k1)"
    by (auto simp: activate_kb_version_def split: option.splits if_splits prod.splits sum.splits bool.splits)
  have "k1 = k" using v compose_gates_True by (metis publish_validator_def)
  with v k' have v': "publish_validator c (br_kb_version r) k = (Inr True, k)"
    "k' = set_status u ''active'' (supersede_active now k)" by simp_all
  have act: "filter (\<lambda>r. br_status r = ''active'') (kb_runs k') = [r\<lparr>br_status := ''active''\<rparr>]"
    using activated_runs [OF ids r(1), of now] r(2) v'(2) by simp
  have "filter (\<lambda>b. br_status b = ''active'') (map build_run.truncate rs)
      = map build_run.truncate (filter (\<lambda>b. br_status b = ''active'') rs)" for rs :: "kb_run list"
    by (induction rs) auto
  then have "fetch_active_version (published evs ents k') =
      Inr (Some \<lparr>av_kb_version = br_kb_version r, av_build_seq = br_build_seq r\<rparr>)"
    by (simp add: fetch_active_version_def published_def act)
  with r v' that show thesis by blast
qed

text \<open>Whatever else happens, the version served before is served after.\<close>

lemma active_filter_views:
  assumes "map run_view rs = map run_view rs'"
  shows "map run_view (filter (\<lambda>r. br_status r = ''active'') rs) = map run_view (filter (\<lambda>r. br_status r = ''active'') rs')"
proof -
  have st: "br_status (run_view r) = br_status r" for r by (simp add: run_view_def)
  have "length rs = length rs'" using assms by (metis length_map)
  then show ?thesis using assms
  proof (induction rs rs' rule: list_induct2)
    case (Cons a as b bs)
    then have "br_status a = br_status b" using st by (metis list.inject list.simps(9))
    with Cons show ?case by simp
  qed simp
qed

lemma served_of_views:
  assumes "map run_view (filter (\<lambda>r. br_status r = ''active'') (kb_runs k))
         = map run_view (filter (\<lambda>r. br_status r = ''active'') (kb_runs k'))"
  shows "fetch_active_version (published evs ents k) = fetch_active_version (published evs' ents' k')"
proof -
  have "filter (\<lambda>b. br_status b = ''active'') (map build_run.truncate rs)
      = map run_view (filter (\<lambda>b. br_status b = ''active'') rs)" for rs :: "kb_run list"
    by (induction rs) (auto simp: run_view_def)
  with assms show ?thesis by (simp add: fetch_active_version_def published_def)
qed

lemma set_status_not_active:
  assumes "\<And>r. r \<in> set (kb_runs k) \<Longrightarrow> br_id r = u \<Longrightarrow> br_status r \<noteq> ''active''" and "st \<noteq> ''active''"
  shows "filter (\<lambda>r. br_status r = ''active'') (kb_runs (set_status u st k)) = filter (\<lambda>r. br_status r = ''active'') (kb_runs k)"
proof -
  have "filter (\<lambda>r. br_status r = ''active'') (update_where (\<lambda>r. br_id r = u) (\<lambda>r. r\<lparr>br_status := st\<rparr>) rs)
      = filter (\<lambda>r. br_status r = ''active'') rs"
    if "\<And>r. r \<in> set rs \<Longrightarrow> br_id r = u \<Longrightarrow> br_status r \<noteq> ''active''" for rs
    using that assms(2) by (induction rs) auto
  from this [OF assms(1)] show ?thesis by (simp add: set_status_def)
qed

lemma refusal_keeps_serving:
  assumes run: "activate_kb_version now u (publish_validator c) k = (res, k')" and no: "res \<noteq> Inr True"
    and ids: "distinct (map br_id (kb_runs k))"
  shows "fetch_active_version (published evs ents k') = fetch_active_version (published evs ents k)"
proof (cases "get_run k u")
  case (Some r)
  show ?thesis
  proof (cases "br_status r = ''completed''")
    case ok: True
    obtain vres k1 where v: "publish_validator c (br_kb_version r) k = (vres, k1)" by fastforce
    have views: "map run_view (kb_runs k1) = map run_view (kb_runs k)" "map br_id (kb_runs k1) = map br_id (kb_runs k)"
      using compose_gates_runs [of "publish_gates c" "br_kb_version r" k] v by (simp_all add: publish_validator_def)
    have "br_status x \<noteq> ''active''" if x: "x \<in> set (kb_runs k1)" "br_id x = u" for x
    proof -
      obtain i where i: "i < length (kb_runs k1)" "kb_runs k1 ! i = x" using x(1) by (metis in_set_conv_nth)
      have len: "length (kb_runs k1) = length (kb_runs k)" using views(1) by (metis length_map)
      define y where "y = kb_runs k ! i"
      have "br_id y = u" using views(2) i len x(2) by (metis nth_map y_def)
      moreover have "r \<in> set (kb_runs k)" "br_id r = u" using get_run_mem [OF Some] by auto
      moreover have "y \<in> set (kb_runs k)" using i len by (simp add: y_def)
      ultimately have "y = r" using key_unique [OF ids] by metis
      moreover have "run_view x = run_view y" using views(1) i len by (metis nth_map y_def)
      ultimately have "br_status x = br_status r"
        by (metis run_view_def truncate_selectors(3))
      then show ?thesis by (simp add: ok)
    qed
    then have "filter (\<lambda>r. br_status r = ''active'') (kb_runs (set_status u ''validation_failed'' k1))
        = filter (\<lambda>r. br_status r = ''active'') (kb_runs k1)" by (rule set_status_not_active) auto
    moreover have "k' = k1 \<or> k' = set_status u ''validation_failed'' k1"
      using run no Some ok v by (auto simp: activate_kb_version_def split: sum.splits bool.splits)
    ultimately have "map run_view (filter (\<lambda>r. br_status r = ''active'') (kb_runs k'))
        = map run_view (filter (\<lambda>r. br_status r = ''active'') (kb_runs k))"
      using active_filter_views [OF views(1)] by metis
    then show ?thesis by (rule served_of_views)
  next
    case False with run Some show ?thesis by (auto simp: activate_kb_version_def)
  qed
next
  case None with run show ?thesis by (auto simp: activate_kb_version_def)
qed

text \<open>The gate for ghosts passes on a registry without ghosts, at a version after all its rows.\<close>

definition rows_before :: "int \<Rightarrow> kb \<Rightarrow> bool" where
  "rows_before s k \<longleftrightarrow>
     (\<forall>a \<in> set (kb_artifacts k). ka_valid_from a \<le> s)
     \<and> (\<forall>e \<in> set (kb_edges k). ke_valid_from e \<le> s \<and> (case ke_invalidated e of None \<Rightarrow> True | Some i \<Rightarrow> i \<le> s))"

lemma no_ghosts_gate:
  assumes "no_ghosts k" and "rows_before s k" shows "ghost_edges k s = []"
proof -
  have "edge_in_version s e \<Longrightarrow> live_edge e" if "e \<in> set (kb_edges k)" for e
    using assms(2) that by (auto simp: rows_before_def edge_in_version_def member_at_def live_edge_def split: option.splits)
  moreover have "live_ids k \<subseteq> member_ids k s"
    using assms(2) by (auto simp: live_ids_def member_ids_def rows_before_def in_version_def member_at_def live_artifact_def)
  ultimately show ?thesis using assms(1) by (force simp: ghost_edges_def filter_empty_conv no_ghosts_def)
qed

end
