(* ===== verification/EdgeStore.thy ===== *)
theory EdgeStore
  imports PublishGates
begin

text \<open>
  What the two writers of edges rely on (\<open>linker/write_edges.py\<close>, \<open>linker/judge.py\<close>): one row per
  (from, to, type) and source, an upsert that revives a dead row, and a sweep that ends the rows of the
  source that were not written again. The laws of one upsert are the interface \<open>edge_writer\<close>; the
  exactness of a whole reconciliation is proved once inside it.
\<close>

text \<open>The conflict target of the partial unique indexes.\<close>

definition edge_key :: "kb_edge \<Rightarrow> uuid \<times> uuid \<times> string" where
  "edge_key e = (ke_from e, ke_to e, ke_type e)"

text \<open>The sweep: the ids are read first, then the rows with those ids are ended.\<close>

definition invalidate_where :: "(kb_edge \<Rightarrow> bool) \<Rightarrow> int \<Rightarrow> kb \<Rightarrow> nat \<times> kb" where
  "invalidate_where stale seq k =
     (let ids = map ke_id (filter stale (kb_edges k))
      in (length ids, k\<lparr>kb_edges := update_where (\<lambda>e. ke_id e \<in> set ids)
            (\<lambda>e. e\<lparr>ke_invalidated := Some seq\<rparr>) (kb_edges k)\<rparr>))"

definition live_of :: "string \<Rightarrow> kb \<Rightarrow> (uuid \<times> uuid \<times> string) set" where
  "live_of src k = edge_key ` {e \<in> set (kb_edges k). ke_source e = Some src \<and> live_edge e}"

text \<open>Edge ids are a primary key, and fresh ids are unused.\<close>

definition edge_ids_ok :: "kb \<Rightarrow> bool" where
  "edge_ids_ok k \<longleftrightarrow> distinct (map ke_id (kb_edges k)) \<and> inj (kb_uuids k)
     \<and> (\<forall>i \<ge> kb_drawn k. kb_uuids k i \<notin> ke_id ` set (kb_edges k))"

lemma in_live_of: "key \<in> live_of src k \<longleftrightarrow>
    (\<exists>e \<in> set (kb_edges k). ke_source e = Some src \<and> live_edge e \<and> edge_key e = key)"
  by (auto simp: live_of_def)

lemma bex_update_where: "(\<exists>e \<in> set (update_where p f es). Q e) \<longleftrightarrow> (\<exists>e \<in> set es. Q (if p e then f e else e))"
  by (induction es) simp_all

lemma invalidate_where_spec:
  assumes "edge_ids_ok k" "\<And>e. st e \<Longrightarrow> ke_source e = Some src"
  shows "key \<in> live_of src (snd (invalidate_where st s k)) \<longleftrightarrow>
    (\<exists>e \<in> set (kb_edges k). ke_source e = Some src \<and> live_edge e \<and> edge_key e = key \<and> \<not> st e)"
proof -
  let ?ids = "set (map ke_id (filter st (kb_edges k)))"
  let ?g = "\<lambda>e. if ke_id e \<in> ?ids then e\<lparr>ke_invalidated := Some s\<rparr> else e"
  have ids: "ke_id e \<in> ?ids \<longleftrightarrow> st e" if "e \<in> set (kb_edges k)" for e
    using that key_unique [of ke_id "kb_edges k"] assms by (auto simp: edge_ids_ok_def)
  have g: "edge_key (?g e) = edge_key e" "ke_source (?g e) = ke_source e"
    "live_edge (?g e) \<longleftrightarrow> live_edge e \<and> ke_id e \<notin> ?ids" for e by (simp_all add: edge_key_def live_edge_def)
  have "key \<in> live_of src (snd (invalidate_where st s k)) \<longleftrightarrow> (\<exists>e \<in> set (kb_edges k).
      ke_source e = Some src \<and> (live_edge e \<and> ke_id e \<notin> ?ids) \<and> edge_key e = key)"
    by (simp add: in_live_of invalidate_where_def Let_def bex_update_where g del: if_split set_map set_filter)
  then show ?thesis using ids by (auto simp del: set_map set_filter)
qed

lemma update_where_ids:
  assumes "edge_ids_ok k" "\<And>e. ke_id (f e) = ke_id e"
  shows "edge_ids_ok (k\<lparr>kb_edges := update_where p f (kb_edges k)\<rparr>)"
proof -
  have m: "map ke_id (update_where p f (kb_edges k)) = map ke_id (kb_edges k)"
    using assms(2) by (rule map_update_where)
  then have "ke_id ` set (update_where p f (kb_edges k)) = ke_id ` set (kb_edges k)"
    unfolding set_map [symmetric] by simp
  with m assms(1) show ?thesis by (simp add: edge_ids_ok_def)
qed

lemma invalidate_where_ids: "edge_ids_ok k \<Longrightarrow> edge_ids_ok (snd (invalidate_where st s k))"
  by (simp add: invalidate_where_def Let_def update_where_ids)

lemma append_ids:
  assumes "edge_ids_ok k" "gen_random_uuid k = (u, k1)" "ke_id e = u"
  shows "edge_ids_ok (k1\<lparr>kb_edges := kb_edges k1 @ [e]\<rparr>)"
proof -
  have u: "u = kb_uuids k (kb_drawn k)" and k1: "k1 = k\<lparr>kb_drawn := Suc (kb_drawn k)\<rparr>"
    using assms(2) by (auto simp: gen_random_uuid_def)
  have new: "kb_uuids k i \<noteq> u" if "Suc (kb_drawn k) \<le> i" for i
    using that assms(1) unfolding u edge_ids_ok_def by (metis injD not_less_eq_eq order_refl)
  have "kb_uuids k i \<notin> ke_id ` set (kb_edges k)" if "kb_drawn k \<le> i" for i
    using that assms(1) by (simp add: edge_ids_ok_def)
  then show ?thesis using assms(1,3) new by (auto simp: edge_ids_ok_def k1 u dest: Suc_leD)
qed

text \<open>One upsert, as both writers do it: refresh and revive the row with the key, or insert one.\<close>

lemma upsert_live_of:
  assumes "\<And>e. p e \<longleftrightarrow> ke_source e = Some src \<and> edge_key e = key"
    and "\<And>e. p e \<Longrightarrow> edge_key (f e) = edge_key e \<and> ke_source (f e) = ke_source e \<and> live_edge (f e)"
    and "list_ex p (kb_edges k)"
  shows "live_of src (k\<lparr>kb_edges := update_where p f (kb_edges k)\<rparr>) = insert key (live_of src k)"
proof (rule set_eqI)
  fix key'
  let ?g = "\<lambda>e. if p e then f e else e"
  have g: "edge_key (?g e) = edge_key e" "ke_source (?g e) = ke_source e"
    "live_edge (?g e) \<longleftrightarrow> p e \<or> live_edge e" for e using assms(2) [of e] by auto
  obtain c where c: "c \<in> set (kb_edges k)" "p c" using assms(3) by (auto simp: list_ex_iff)
  have "key' \<in> live_of src (k\<lparr>kb_edges := update_where p f (kb_edges k)\<rparr>) \<longleftrightarrow>
      (\<exists>e \<in> set (kb_edges k). ke_source e = Some src \<and> (p e \<or> live_edge e) \<and> edge_key e = key')"
    by (simp add: in_live_of bex_update_where g del: if_split)
  then show "key' \<in> live_of src (k\<lparr>kb_edges := update_where p f (kb_edges k)\<rparr>) \<longleftrightarrow> key' \<in> insert key (live_of src k)"
    using c by (auto simp: in_live_of assms(1))
qed

lemma append_live_of:
  assumes "gen_random_uuid k = (u, k1)" "ke_source e = Some src" "live_edge e"
  shows "live_of src (k1\<lparr>kb_edges := kb_edges k1 @ [e]\<rparr>) = insert (edge_key e) (live_of src k)"
  using assms by (auto simp: live_of_def gen_random_uuid_def)

section \<open>The interface of an edge writer\<close>

locale edge_writer =
  fixes src :: string and key :: "'d \<Rightarrow> uuid \<times> uuid \<times> string" and put :: "'d \<Rightarrow> kb \<Rightarrow> kb"
  assumes put_live: "live_of src (put d k) = insert (key d) (live_of src k)"
    and put_ids: "edge_ids_ok k \<Longrightarrow> edge_ids_ok (put d k)"
begin

lemma puts_live: "live_of src (fold put ds k) = key ` set ds \<union> live_of src k"
  by (induction ds arbitrary: k) (auto simp: put_live)

lemma puts_ids: "edge_ids_ok k \<Longrightarrow> edge_ids_ok (fold put ds k)"
  by (induction ds arbitrary: k) (simp_all add: put_ids)

text \<open>After the sweep the live edges of the source are the ones written, and those the sweep spares.\<close>

lemma reconciled:
  assumes ok: "edge_ids_ok k"
    and st: "\<And>e. st e \<longleftrightarrow> ke_source e = Some src \<and> live_edge e \<and> edge_key e \<notin> key ` set ds \<and> \<not> spared e"
  shows "key' \<in> live_of src (snd (invalidate_where st s (fold put ds k))) \<longleftrightarrow> key' \<in> key ` set ds
    \<or> (\<exists>e \<in> set (kb_edges (fold put ds k)). ke_source e = Some src \<and> live_edge e \<and> edge_key e = key' \<and> spared e)"
proof -
  have "key' \<in> live_of src (fold put ds k)" if "key' \<in> key ` set ds" using that by (simp add: puts_live)
  moreover have "key' \<in> live_of src (snd (invalidate_where st s (fold put ds k))) \<longleftrightarrow>
      (\<exists>e \<in> set (kb_edges (fold put ds k)). ke_source e = Some src \<and> live_edge e \<and> edge_key e = key' \<and> \<not> st e)"
    by (rule invalidate_where_spec [OF puts_ids [OF ok]]) (simp add: st)
  ultimately show ?thesis by (cases "key' \<in> key ` set ds") (force simp: st in_live_of, force simp: st)
qed

lemma reconciled_exact:
  assumes "edge_ids_ok k"
    and "\<And>e. st e \<longleftrightarrow> ke_source e = Some src \<and> live_edge e \<and> edge_key e \<notin> key ` set ds"
  shows "live_of src (snd (invalidate_where st s (fold put ds k))) = key ` set ds"
proof (rule set_eqI)
  fix key' show "key' \<in> live_of src (snd (invalidate_where st s (fold put ds k))) \<longleftrightarrow> key' \<in> key ` set ds"
    by (subst reconciled [where spared = "\<lambda>_. False"]) (simp_all add: assms)
qed

end

end
