(* ===== verification/BuildSafety.thy ===== *)
theory BuildSafety
  imports BuildSources EdgeStore
begin

text \<open>
  What processing the sources may do to the registry (\<open>grown\<close>), the interfaces of an invariant of a
  session and of a build, and what follows: the versions before the build keep their rows, a failed source
  leaves the committed registry as it was, and a model's output is paid for once.
\<close>

section \<open>One step of the registry\<close>

definition drawn_ids :: "kb \<Rightarrow> kb \<Rightarrow> uuid list \<Rightarrow> bool" where
  "drawn_ids k k' us \<longleftrightarrow> (\<exists>ns. us = map (kb_uuids k) ns \<and> distinct ns \<and> set ns \<subseteq> {kb_drawn k ..< kb_drawn k'})"

definition grown :: "int \<Rightarrow> kb \<Rightarrow> kb \<Rightarrow> bool" where
  "grown s k k' \<longleftrightarrow> kb_runs k' = kb_runs k \<and> kb_uuids k' = kb_uuids k \<and> kb_drawn k \<le> kb_drawn k'
     \<and> (\<exists>as. kb_artifacts k' = kb_artifacts k @ as \<and> (\<forall>a \<in> set as. ka_valid_from a = s) \<and> drawn_ids k k' (map ka_id as))
     \<and> (\<exists>es. kb_edges k' = kb_edges k @ es \<and> (\<forall>e \<in> set es. ke_valid_from e = s) \<and> drawn_ids k k' (map ke_id es))"

lemma drawn_ids_Nil: "drawn_ids k k' []"
  by (auto simp: drawn_ids_def intro: exI [of _ "[]"])

lemma drawn_ids_append:
  assumes "drawn_ids k k1 us" "drawn_ids k1 k2 vs" "kb_uuids k1 = kb_uuids k" "kb_drawn k \<le> kb_drawn k1" "kb_drawn k1 \<le> kb_drawn k2"
  shows "drawn_ids k k2 (us @ vs)"
proof -
  obtain ns js where "us = map (kb_uuids k) ns" "distinct ns" "set ns \<subseteq> {kb_drawn k ..< kb_drawn k1}"
    "vs = map (kb_uuids k1) js" "distinct js" "set js \<subseteq> {kb_drawn k1 ..< kb_drawn k2}"
    using assms(1,2) by (auto simp: drawn_ids_def)
  then show ?thesis using assms(3-5) unfolding drawn_ids_def by (intro exI [of _ "ns @ js"]) fastforce
qed

lemma grown_refl [simp]: "grown s k k"
  by (auto simp: grown_def drawn_ids_Nil)

lemma grown_trans:
  assumes "grown s k k1" "grown s k1 k2" shows "grown s k k2"
proof -
  obtain as es where 1: "kb_artifacts k1 = kb_artifacts k @ as" "\<forall>a \<in> set as. ka_valid_from a = s" "drawn_ids k k1 (map ka_id as)"
    "kb_edges k1 = kb_edges k @ es" "\<forall>e \<in> set es. ke_valid_from e = s" "drawn_ids k k1 (map ke_id es)"
    using assms(1) by (auto simp: grown_def)
  obtain bs fs where 2: "kb_artifacts k2 = kb_artifacts k1 @ bs" "\<forall>a \<in> set bs. ka_valid_from a = s" "drawn_ids k1 k2 (map ka_id bs)"
    "kb_edges k2 = kb_edges k1 @ fs" "\<forall>e \<in> set fs. ke_valid_from e = s" "drawn_ids k1 k2 (map ke_id fs)"
    using assms(2) by (auto simp: grown_def)
  have le: "kb_uuids k1 = kb_uuids k" "kb_drawn k \<le> kb_drawn k1" "kb_drawn k1 \<le> kb_drawn k2" using assms by (auto simp: grown_def)
  have "drawn_ids k k2 (map ka_id (as @ bs))" "drawn_ids k k2 (map ke_id (es @ fs))"
    using drawn_ids_append [OF 1(3) 2(3) le] drawn_ids_append [OF 1(6) 2(6) le] by simp_all
  then show ?thesis using assms 1 2 le unfolding grown_def
    by (intro conjI exI [of _ "as @ bs"] exI [of _ "es @ fs"]) auto
qed

text \<open>A step that touches neither table.\<close>

lemma grown_same:
  assumes "kb_runs k' = kb_runs k" "kb_uuids k' = kb_uuids k" "kb_drawn k \<le> kb_drawn k'"
    "kb_artifacts k' = kb_artifacts k" "kb_edges k' = kb_edges k"
  shows "grown s k k'"
  using assms by (auto simp: grown_def drawn_ids_Nil)

lemma grown_touch: "grown s k (snd (touch_sources t ref k))"
  by (rule grown_same) (simp_all add: touch_sources_def)

lemma grown_upsert: "grown s k (snd (upsert_source t c k))"
  by (rule grown_same) (simp_all add: upsert_source_def gen_random_uuid_def split: list.splits)

lemma grown_record: "generation_record key h ids k = Inr k' \<Longrightarrow> grown s k k'"
  by (rule grown_same) (auto simp: generation_record_def Let_def split: if_splits)

lemma grown_embedding: "grown s k (embedding_record key h v d k)"
  by (rule grown_same) (simp_all add: embedding_record_def split: option.splits)

lemma grown_record_ids: "grown s k (record_doc_ids docs k)"
proof -
  have st: "grown s k (stamp_doc_id d k)" for d k
    by (rule grown_same) (simp_all add: stamp_doc_id_def split: option.splits)
  show ?thesis unfolding record_doc_ids_def by (induction docs arbitrary: k) (auto intro: grown_trans st)
qed

lemma grown_write_docs: "write_docs c msg docs k idx = (r, k', idx') \<Longrightarrow> grown s k k'"
  by (auto simp: write_docs_def Let_def grown_record_ids split: if_splits prod.splits)

lemma grown_index: "upsert_documents c ids k idx = (r, k', idx') \<Longrightarrow> grown s k k'"
  by (auto simp: upsert_documents_def Let_def grown_write_docs split: if_splits)

lemma grown_add_artifacts:
  assumes "add_artifacts fs k = (us, k')" "\<And>f u. f \<in> set fs \<Longrightarrow> ka_valid_from (f u) = s \<and> ka_id (f u) = u"
  shows "grown s k k'"
proof -
  note sp = add_artifacts_spec [OF assms(1)]
  let ?new = "map (\<lambda>(f, u). f u) (zip fs us)"
  have "map ka_id ?new = us"
    using sp(1) assms(2) by (intro nth_equalityI) auto
  then have "drawn_ids k k' (map ka_id ?new)" using sp(2)
    unfolding drawn_ids_def by (intro exI [of _ "[kb_drawn k ..< kb_drawn k + length fs]"]) (auto simp: sp(3))
  moreover have "\<forall>a \<in> set ?new. ka_valid_from a = s" using assms(2) by (auto dest: set_zip_leftD)
  ultimately show ?thesis unfolding grown_def by (auto simp: sp(3) drawn_ids_Nil)
qed

lemma grown_docs: "grown s k (snd (write_doc_artifacts sid v s acl t drafts k))"
  by (rule grown_add_artifacts [OF prod.collapse [symmetric, of "write_doc_artifacts sid v s acl t drafts k", unfolded write_doc_artifacts_def],
        folded write_doc_artifacts_def]) (auto simp: doc_artifact_def new_artifact_def)

lemma grown_code: "grown s k (snd (write_code_artifacts sid v s acl t drafts k))"
proof -
  obtain us k' where a: "add_artifacts (map (code_artifact sid v s acl t) drafts) k = (us, k')" by fastforce
  have "grown s k k'" by (rule grown_add_artifacts [OF a]) (auto simp: code_artifact_def new_artifact_def)
  with a show ?thesis by (simp add: write_code_artifacts_def)
qed

lemma grown_commit: "grown s k (snd (write_commit_artifact sid v s title body fs repo t k))"
proof -
  obtain us k' where a: "add_artifacts [\<lambda>u. commit_artifact k u t sid v s title body fs repo] k = (us, k')" by fastforce
  have "grown s k k'" by (rule grown_add_artifacts [OF a]) (auto simp: commit_artifact_def new_artifact_def)
  with a show ?thesis by (simp add: write_commit_artifact_def)
qed

lemma write_code_edges_step:
  assumes "write_code_edges v s repo m (d # ds) k = Inr (c, k')"
  shows "(\<exists>c'. write_code_edges v s repo m ds k = Inr (c', k'))
    \<or> (\<exists>f t c'. write_code_edges v s repo m ds (k\<lparr>kb_drawn := Suc (kb_drawn k),
           kb_edges := kb_edges k @ [graphify_edge (kb_uuids k (kb_drawn k)) f t v s d]\<rparr>) = Inr (c', k'))"
proof (cases "resolve_key repo m (ed_from d) k")
  case (Inr f)
  show ?thesis
  proof (cases "resolve_key repo m (ed_to d) k")
    case (Inr t)
    with \<open>resolve_key repo m (ed_from d) k = Inr f\<close> assms show ?thesis
      by (cases f; cases t) (auto simp: gen_random_uuid_def split: sum.splits)
  qed (use Inr assms in \<open>cases f, auto\<close>)
qed (use assms in auto)

lemma grown_edges: "write_code_edges v s repo m ds k = Inr (c, k') \<Longrightarrow> grown s k k'"
proof (induction ds arbitrary: k c)
  case (Cons d ds)
  have "grown s k (k\<lparr>kb_drawn := Suc (kb_drawn k), kb_edges := kb_edges k @ [graphify_edge (kb_uuids k (kb_drawn k)) f t v s d]\<rparr>)" for f t
  proof -
    have "drawn_ids k (k\<lparr>kb_drawn := Suc (kb_drawn k), kb_edges := es\<rparr>) [kb_uuids k (kb_drawn k)]" for es
      unfolding drawn_ids_def by (intro exI [of _ "[kb_drawn k]"]) simp
    then show ?thesis by (auto simp: grown_def drawn_ids_Nil graphify_edge_def)
  qed
  then show ?case using write_code_edges_step [OF Cons.prems] Cons.IH grown_trans by blast
qed simp

section \<open>An invariant of a session\<close>

text \<open>The durable cache only gains entries.\<close>

definition durable_le :: "durable \<Rightarrow> durable \<Rightarrow> bool" where
  "durable_le d d' \<longleftrightarrow> (\<forall>key x. map_of (du_docs d) key = Some x \<longrightarrow> map_of (du_docs d') key = Some x)
     \<and> (\<forall>key x. map_of (du_vectors d) key = Some x \<longrightarrow> map_of (du_vectors d') key = Some x)"

lemma durable_le_steps:
  "durable_le d (snd (durable_get_doc key d))" "durable_le d (durable_put_doc key drafts d)"
  "durable_le d (snd (durable_get_vector vkey d))" "durable_le d (durable_put_vector vkey r d)"
  by (auto simp: durable_le_def durable_get_doc_def durable_put_doc_def durable_get_vector_def durable_put_vector_def
      durable_fault_def split_beta map_add_def split: list.splits)

text \<open>First without a call of the extractor.\<close>

locale quiet_inv =
  fixes I :: "'i bworld \<Rightarrow> bool" and seq :: int
  assumes kb_step: "I w \<Longrightarrow> grown seq (bw_kb w) k \<Longrightarrow> I (w\<lparr>bw_kb := k\<rparr>)"
    and durable_step: "I w \<Longrightarrow> durable_le (bw_durable w) d \<Longrightarrow> I (w\<lparr>bw_durable := d\<rparr>)"
    and other_steps: "I w \<Longrightarrow> I (w\<lparr>bw_index := idx\<rparr>)" "I w \<Longrightarrow> I (w\<lparr>bw_counters := c\<rparr>)"
      "I w \<Longrightarrow> I (w\<lparr>bw_embeds := n\<rparr>)"
begin

lemma keeps_kbM: "(\<And>k. grown seq k (snd (f k))) \<Longrightarrow> keeps I (kbM f)"
  by (simp add: keeps_def kbM_def split_beta kb_step)

lemma keeps_kbE: "(\<And>k x k'. f k = Inr (x, k') \<Longrightarrow> grown seq k k') \<Longrightarrow> keeps I (kbE f)"
  by (auto simp: keeps_def kbE_def kb_step split: sum.splits)

lemma keeps_countM: "keeps I (countM f)"
  unfolding countM_def by (intro keeps_modM other_steps)

lemma keeps_is_unchanged: "keeps I (is_unchanged c)"
  unfolding is_unchanged_def by (intro keeps_intros)

lemma keeps_touch: "keeps I (touch_last_seen env c)"
  unfolding touch_last_seen_def nowM_def by (intro keeps_intros keeps_kbM grown_touch)

lemma keeps_upsert: "keeps I (upsert_source_item env c)"
  unfolding upsert_source_item_def nowM_def by (intro keeps_intros keeps_kbM grown_upsert)

lemma keeps_durable: "keeps I (durable_doc env key)" "keeps I (durable_vector env vkey)"
  unfolding keeps_def durable_doc_def durable_vector_def
  by (auto simp: split_beta intro!: durable_step durable_le_steps)

lemma keeps_write_extracted: "keeps I (write_extracted env seq c sid drafts)"
  unfolding write_extracted_def nowM_def
  by (intro keeps_intros keeps_kbM keeps_kbE keeps_countM grown_docs)
     (auto split: sum.splits simp: map_sum_def intro: grown_record)

lemma keeps_embed_text: "keeps I (embed_text_body env key body)"
  unfolding embed_text_body_def
  by (intro keeps_intros keeps_countM other_steps) (auto intro: durable_step durable_le_steps)

lemma keeps_embed: "keeps I (embed_gated env u)"
  unfolding embed_gated_def Let_def
  by (intro keeps_intros keeps_durable keeps_embed_text kb_step grown_embedding)

lemma keeps_embed_all: "keeps I (embed_all env us)"
  by (induction us) (auto intro!: keeps_intros keeps_embed)

lemma keeps_index: "keeps I (index_counted env us)"
proof -
  have "keeps I (index_docs env us)"
    unfolding keeps_def index_docs_def
  proof (intro allI impI)
    fix w assume w: "I w"
    obtain r k idx where u: "upsert_documents (be_client env) us (bw_kb w) (bw_index w) = (r, k, idx)" by (metis prod_cases3)
    have "I (w\<lparr>bw_kb := k, bw_index := idx\<rparr>)" by (rule other_steps(1) [OF kb_step [OF w grown_index [OF u]]])
    with u show "I (snd (let (r, k, idx) = upsert_documents (be_client env) us (bw_kb w) (bw_index w)
        in (r, w\<lparr>bw_kb := k, bw_index := idx\<rparr>)))" by simp
  qed
  then show ?thesis unfolding index_counted_def by (intro keeps_intros keeps_countM)
qed

lemma keeps_mark_units: "keeps I (mark_units env us d m)"
  by (induction us arbitrary: d m) (auto intro!: keeps_intros keeps_upsert keeps_touch keeps_countM)

lemma keeps_write_units: "keeps I (write_units env seq repo us ids ps m out)"
proof (induction ps arbitrary: m out)
  case (Cons x ps)
  obtain p ds where x: "x = (p, ds)" by fastforce
  from Cons show ?case
    by (auto split: option.splits simp: x nowM_def intro!: keeps_intros keeps_kbM keeps_countM grown_code)
qed (auto intro: keeps_intros)

lemma keeps_graphify_repo: "keeps I (graphify_one_repo env seq repo us st)"
proof (cases st)
  case (Pair km m)
  have "keeps I (graphify_result env us)"
    unfolding graphify_result_def by (intro keeps_intros keeps_countM)
  then show ?thesis unfolding graphify_one_repo_def Pair
    by (auto intro!: keeps_intros keeps_mark_units keeps_write_units keeps_embed_all keeps_index keeps_kbE
        simp: split_beta intro: grown_edges)
qed

lemma keeps_graphify_tree: "keeps I (graphify_code_tree env seq us m)"
proof -
  have "keeps I (graphify_repos env seq us rs st)" for rs st
    by (induction rs arbitrary: st) (auto intro!: keeps_intros keeps_graphify_repo)
  then show ?thesis unfolding graphify_code_tree_def by (auto intro!: keeps_intros)
qed

lemma keeps_touch_units: "keeps I (touch_units env us m)"
  by (induction us arbitrary: m) (auto intro!: keeps_intros keeps_touch)

end

locale session_inv = quiet_inv +
  assumes extract_step: "I w \<Longrightarrow> I (w\<lparr>bw_extracts := n\<rparr>)"
begin

lemma keeps_extract: "keeps I (extract_doc env key c)"
  unfolding extract_doc_def
  by (intro keeps_intros keeps_countM extract_step) (auto intro: durable_step durable_le_steps)

lemma keeps_docify: "keeps I (docify_gated env seq c sid)"
  unfolding docify_gated_def Let_def
  by (intro keeps_intros keeps_durable keeps_extract keeps_write_extracted)

lemma keeps_process_changed: "keeps I (process_changed_source env seq c)"
  unfolding process_changed_source_def process_commit_source_def nowM_def
  by (intro keeps_intros keeps_upsert keeps_docify keeps_embed_all keeps_embed keeps_index keeps_countM keeps_kbM grown_commit)

end

text \<open>An invariant of the whole build holds across the commits and the rollbacks too.\<close>

locale build_inv = session_inv +
  assumes commit_step: "I w \<Longrightarrow> I (w\<lparr>bw_saved := bw_kb w, bw_txn := n\<rparr>)"
    and rollback_step: "I w \<Longrightarrow> I (w\<lparr>bw_kb := (bw_saved w)\<lparr>kb_drawn := kb_drawn (bw_kb w)\<rparr>, bw_txn := n\<rparr>)"
begin

lemma keeps_commitM: "keeps I commitM"
  unfolding commitM_def by (intro keeps_modM commit_step)

lemma keeps_rollbackM: "keeps I rollbackM"
  unfolding rollbackM_def by (intro keeps_modM rollback_step)

lemma keeps_build_source: "keeps I (build_source env seq c m)"
  unfolding build_source_def
  by (intro keeps_intros keeps_process_changed keeps_commitM keeps_rollbackM keeps_countM keeps_touch)

lemma keeps_build_ref: "keeps I (build_ref env seq cn r m)"
  unfolding build_ref_def
  by (auto intro!: keeps_intros keeps_countM keeps_is_unchanged keeps_touch keeps_build_source
      split: option.splits list.splits)

lemma keeps_build_connectors: "keeps I (build_connectors env seq cns m)"
proof -
  have "keeps I (build_refs env seq cn rs m)" for cn rs m
    by (induction rs arbitrary: m) (auto intro!: keeps_intros keeps_build_ref)
  then show ?thesis by (induction cns arbitrary: m) (auto intro!: keeps_intros)
qed

lemma keeps_process_sources: "keeps I (process_sources env seq cns)"
  unfolding process_sources_def
  by (intro keeps_intros keeps_build_connectors keeps_graphify_tree keeps_commitM keeps_touch_units)

end

section \<open>Earlier versions keep their rows\<close>

definition session_grown :: "int \<Rightarrow> kb \<Rightarrow> 'i bworld \<Rightarrow> bool" where
  "session_grown s k w \<longleftrightarrow> grown s k (bw_saved w) \<and> grown s (bw_saved w) (bw_kb w)"

interpretation growth: build_inv "session_grown s k" s for s k
proof unfold_locales
  fix w n assume w: "session_grown s k w"
  then show "session_grown s k (w\<lparr>bw_saved := bw_kb w, bw_txn := n\<rparr>)" by (auto simp: session_grown_def intro: grown_trans)
  have "grown s (bw_saved w) ((bw_saved w)\<lparr>kb_drawn := kb_drawn (bw_kb w)\<rparr>)"
    using w by (intro grown_same) (auto simp: session_grown_def grown_def)
  with w show "session_grown s k (w\<lparr>bw_kb := (bw_saved w)\<lparr>kb_drawn := kb_drawn (bw_kb w)\<rparr>, bw_txn := n\<rparr>)"
    by (simp add: session_grown_def)
qed (auto simp: session_grown_def intro: grown_trans)

lemma process_sources_grown:
  assumes "bw_saved w = bw_kb w" "process_sources env s cns w = (r, w')"
  shows "grown s (bw_kb w) (bw_saved w')" "grown s (bw_kb w) (bw_kb w')"
proof -
  have "session_grown s (bw_kb w) w" using assms(1) by (simp add: session_grown_def)
  from keepsD2 [OF growth.keeps_process_sources this assms(2)]
  show "grown s (bw_kb w) (bw_saved w')" "grown s (bw_kb w) (bw_kb w')"
    by (auto simp: session_grown_def intro: grown_trans)
qed

lemma grown_versions:
  assumes "grown s k k'" "t < s"
  shows "filter (in_version t) (kb_artifacts k') = filter (in_version t) (kb_artifacts k)"
    "filter (edge_in_version t) (kb_edges k') = filter (edge_in_version t) (kb_edges k)"
  using assms by (auto simp: grown_def in_version_def edge_in_version_def member_at_def filter_empty_conv)

text \<open>Artifact and edge ids stay primary keys, as long as the ids drawn are fresh.\<close>

definition build_ids_ok :: "kb \<Rightarrow> bool" where
  "build_ids_ok k \<longleftrightarrow> edge_ids_ok k \<and> distinct (map ka_id (kb_artifacts k))
     \<and> (\<forall>i \<ge> kb_drawn k. kb_uuids k i \<notin> ka_id ` set (kb_artifacts k))"

lemma drawn_fresh:
  assumes "drawn_ids k k' us" "inj (kb_uuids k)" "\<forall>i \<ge> kb_drawn k. kb_uuids k i \<notin> old"
  shows "distinct us" "set us \<inter> old = {}" "\<forall>i \<ge> kb_drawn k'. kb_uuids k i \<notin> set us"
proof -
  obtain ns where ns: "us = map (kb_uuids k) ns" "distinct ns" "set ns \<subseteq> {kb_drawn k ..< kb_drawn k'}"
    using assms(1) by (auto simp: drawn_ids_def)
  then show "distinct us" using assms(2) by (simp add: distinct_map inj_on_subset)
  show "set us \<inter> old = {}" using ns assms(3) by auto
  show "\<forall>i \<ge> kb_drawn k'. kb_uuids k i \<notin> set us" using ns assms(2) by (auto dest!: injD)
qed

lemma grown_ids:
  assumes "build_ids_ok k" "grown s k k'" shows "build_ids_ok k'"
proof -
  obtain as es where g: "kb_artifacts k' = kb_artifacts k @ as" "drawn_ids k k' (map ka_id as)"
    "kb_edges k' = kb_edges k @ es" "drawn_ids k k' (map ke_id es)" "kb_uuids k' = kb_uuids k" "kb_drawn k \<le> kb_drawn k'"
    using assms(2) by (auto simp: grown_def)
  note ok = assms(1) [unfolded build_ids_ok_def edge_ids_ok_def]
  have inj: "inj (kb_uuids k)" using ok by blast
  have fa: "distinct (map ka_id as)" "set (map ka_id as) \<inter> ka_id ` set (kb_artifacts k) = {}"
    "\<forall>i \<ge> kb_drawn k'. kb_uuids k i \<notin> set (map ka_id as)"
    using drawn_fresh [OF g(2) inj] ok by blast+
  have fe: "distinct (map ke_id es)" "set (map ke_id es) \<inter> ke_id ` set (kb_edges k) = {}"
    "\<forall>i \<ge> kb_drawn k'. kb_uuids k i \<notin> set (map ke_id es)"
    using drawn_fresh [OF g(4) inj] ok by blast+
  have "distinct (map ka_id (kb_artifacts k'))" "distinct (map ke_id (kb_edges k'))"
    using ok fa(1,2) fe(1,2) unfolding g(1,3) by auto
  moreover have "kb_uuids k' i \<notin> ka_id ` set (kb_artifacts k')" "kb_uuids k' i \<notin> ke_id ` set (kb_edges k')" if "kb_drawn k' \<le> i" for i
    using that ok fa(3) fe(3) g(6) unfolding g(1,3,5) by (auto dest: order_trans)
  ultimately show ?thesis using inj unfolding build_ids_ok_def edge_ids_ok_def g(5) by blast
qed

section \<open>A failed source leaves no trace\<close>

interpretation saved: session_inv "\<lambda>w. bw_saved w = S" s for S s
  by unfold_locales simp_all

lemma touch_run:
  "touch_last_seen env c w = (scalar_one_or_none (map src_id (filter (is_source (ct_source c)) (kb_sources (bw_kb w)))),
     w\<lparr>bw_kb := snd (touch_sources (be_clock env (bw_txn w)) (ct_source c) (bw_kb w))\<rparr>)"
  by (simp add: touch_last_seen_def nowM_def kbM_def touch_sources_def liftM_def bindM_def getM_def)

text \<open>
  The source's transaction is undone: what is left is the committed registry with the source row
  touched, and the failure is counted.
\<close>

lemma failed_source_isolated:
  assumes fail: "process_changed_source env s c w = (Inl e, w1)" "e \<noteq> CancelledError"
    and run: "build_source env s c m w = (r, w2)"
  shows "\<exists>t d. bw_kb w2 = (snd (touch_sources t (ct_source c) ((bw_saved w)\<lparr>kb_drawn := d\<rparr>)))"
    "extractor_failures (bw_counters w2) = extractor_failures (bw_counters w1) + 1"
    "bw_saved w2 = bw_saved w \<or> bw_saved w2 = bw_kb w2" "r = Inr m' \<Longrightarrow> mk_changed m' = mk_changed m"
proof -
  have s: "bw_saved w1 = bw_saved w" using keepsD2 [OF saved.keeps_process_changed refl fail(1)] .
  define w0 where "w0 = w1\<lparr>bw_kb := (bw_saved w)\<lparr>kb_drawn := kb_drawn (bw_kb w1)\<rparr>, bw_txn := Suc (bw_txn w1),
    bw_counters := (bw_counters w1)\<lparr>extractor_failures := extractor_failures (bw_counters w1) + 1\<rparr>\<rparr>"
  define v where "v = snd (touch_last_seen env c w0)"
  have run': "build_source env s c m w = (bindM (touch_last_seen env c) (\<lambda>r.
      bindM (if r = None then ret () else commitM) (\<lambda>_. ret (seen_only r m)))) w0"
    using fail s by (simp add: build_source_def tryM_def rollbackM_def countM_def w0_def)
  have v: "bw_kb v = snd (touch_sources (be_clock env (bw_txn w0)) (ct_source c) ((bw_saved w)\<lparr>kb_drawn := kb_drawn (bw_kb w1)\<rparr>))"
    "bw_saved v = bw_saved w" "bw_counters v = bw_counters w0"
    by (simp_all add: v_def touch_run w0_def s)
  have w2: "w2 = v \<or> w2 = v\<lparr>bw_saved := bw_kb v, bw_txn := Suc (bw_txn v)\<rparr>"
    "r = Inr m' \<Longrightarrow> \<exists>x. m' = seen_only x m"
    using run unfolding run' by (auto simp: bindM_def v_def commitM_def op_defs split: prod.splits sum.splits if_splits)
  then have "bw_kb w2 = bw_kb v" by auto
  with v(1) show "\<exists>t d. bw_kb w2 = (snd (touch_sources t (ct_source c) ((bw_saved w)\<lparr>kb_drawn := d\<rparr>)))" by metis
  show "extractor_failures (bw_counters w2) = extractor_failures (bw_counters w1) + 1"
    "bw_saved w2 = bw_saved w \<or> bw_saved w2 = bw_kb w2" "r = Inr m' \<Longrightarrow> mk_changed m' = mk_changed m"
    using v w2 by (auto simp: seen_only_def w0_def split: option.splits)
qed

end
