(* ===== verification/LinkText.thy ===== *)
theory LinkText
  imports Injection GitMetadata
begin

text \<open>
  The text side of the linker (\<open>linker/deterministic.py\<close>, \<open>linker/cross_domain.py\<close>): title
  patterns with their boundary guards, and the explicit work-item and commit references.
  Each regular expression is a scanner over the positions of the subject that knows the
  character before; \<open>\w\<close>, \<open>\s\<close> and \<open>\d\<close> follow Latin-1.
\<close>

section \<open>Guarded titles\<close>

text \<open>\<open>re.search\<close> of an escaped needle between a look-behind and a look-ahead.\<close>

fun search_guarded :: "(char option \<Rightarrow> string \<Rightarrow> bool) \<Rightarrow> (char option \<Rightarrow> string \<Rightarrow> bool) \<Rightarrow> (char \<Rightarrow> char)
     \<Rightarrow> string \<Rightarrow> char option \<Rightarrow> string \<Rightarrow> bool" where
  "search_guarded before after f needle pv [] =
     (needle = [] \<and> before pv [] \<and> after pv [])"
| "search_guarded before after f needle pv (c # cs) =
     (before pv (c # cs) \<and> prefix (map f needle) (map f (c # cs))
        \<and> (let rest = drop (length needle) (c # cs);
               pv' = (if needle = [] then pv else Some ((c # cs) ! (length needle - 1)))
           in after pv' rest)
      \<or> search_guarded before after f needle (Some c) cs)"

definition word_boundary :: "char option \<Rightarrow> string \<Rightarrow> bool" where
  "word_boundary pv s \<longleftrightarrow> opt_word pv \<noteq> opt_word (peek s)"

definition not_in :: "(char \<Rightarrow> bool) \<Rightarrow> char option \<Rightarrow> bool" where
  "not_in p x = (case x of None \<Rightarrow> True | Some c \<Rightarrow> \<not> p c)"

text \<open>\<open>_symbol_pattern\<close>, \<open>_phrase_pattern\<close>, \<open>_path_pattern\<close>: does the compiled pattern occur?\<close>

definition symbol_pattern :: "string \<Rightarrow> string \<Rightarrow> bool" where
  "symbol_pattern name text = search_guarded
     (\<lambda>pv s. not_in (\<lambda>c. word_char c \<or> c = CHR ''.'') pv) (\<lambda>pv s. not_in word_char (peek s)) id name None text"

definition phrase_pattern :: "string \<Rightarrow> string \<Rightarrow> bool" where
  "phrase_pattern phrase text = search_guarded word_boundary word_boundary lower_char phrase None text"

definition path_pattern :: "string \<Rightarrow> string \<Rightarrow> bool" where
  "path_pattern title text = search_guarded
     (\<lambda>pv s. not_in (\<lambda>c. word_char c \<or> c = CHR ''/'') pv)
     (\<lambda>pv s. not_in (\<lambda>c. word_char c \<or> c = CHR ''/'') (peek s)) id title None text"

section \<open>References\<close>

definition digit :: "char \<Rightarrow> bool" where
  "digit c \<longleftrightarrow> 48 \<le> code c \<and> code c \<le> 57"

definition hex_low :: "char \<Rightarrow> bool" where
  "hex_low c \<longleftrightarrow> digit c \<or> (97 \<le> code c \<and> code c \<le> 102)"

record reference =
  re_key :: string
  re_matched :: string

text \<open>
  A matcher at a position: the captured key and the whole match. \<open>finditer\<close> goes on after a
  match; an empty match does not occur.
\<close>

type_synonym matcher = "char option \<Rightarrow> string \<Rightarrow> (string \<times> string) option"

function finditer :: "matcher \<Rightarrow> char option \<Rightarrow> string \<Rightarrow> (string \<times> string) list" where
  "finditer m pv s =
     (case s of [] \<Rightarrow> []
      | c # cs \<Rightarrow>
         (case m pv s of
            Some (k, w) \<Rightarrow> if w = [] then finditer m (Some c) cs
                           else (k, w) # finditer m (Some (last w)) (drop (length w) s)
          | None \<Rightarrow> finditer m (Some c) cs))"
  by pat_completeness auto
termination
  by (relation "measure (\<lambda>(m, pv, s). length s)") auto

declare finditer.simps [simp del]

definition literal_number :: "string \<Rightarrow> matcher" where
  "literal_number p pv s =
     (if prefix p s
      then (let d = takeWhile digit (drop (length p) s) in if d = [] then None else Some (d, p @ d))
      else None)"

text \<open>\<open>PR\s*#(\d+)\<close>, ignoring case.\<close>

definition pull_request :: matcher where
  "pull_request pv s =
     (case s of
        a # b # r \<Rightarrow>
          if lower_char a = CHR ''p'' \<and> lower_char b = CHR ''r'' then
            (let sp = takeWhile py_space r
             in case dropWhile py_space r of
                  h # r2 \<Rightarrow>
                    if h = CHR ''#'' then
                      (let d = takeWhile digit r2
                       in if d = [] then None else Some (d, a # b # sp @ h # d))
                    else None
                | [] \<Rightarrow> None)
          else None
      | _ \<Rightarrow> None)"

definition bare_number :: matcher where
  "bare_number pv s =
     (if not_in (\<lambda>c. word_char c \<or> c = CHR ''#'' \<or> c = CHR ''-'') pv then literal_number ''#'' pv s else None)"

definition WORK_ITEM_PATTERNS :: "matcher list" where
  "WORK_ITEM_PATTERNS = [literal_number ''AB#'', literal_number ''GH-'', pull_request, bare_number]"

text \<open>\<open>(?=[-_/]|$)\<close>: \<open>$\<close> also matches before a final line end.\<close>

definition branch_end :: "string \<Rightarrow> bool" where
  "branch_end s \<longleftrightarrow> (case s of [] \<Rightarrow> True | c # cs \<Rightarrow> c \<in> {CHR ''-'', CHR ''_'', CHR ''/''} \<or> (c = nl \<and> cs = []))"

definition branch_number :: "(char option \<Rightarrow> bool) \<Rightarrow> matcher" where
  "branch_number before pv s =
     (let d = takeWhile digit s
      in if before pv \<and> d \<noteq> [] \<and> branch_end (drop (length d) s) then Some (d, d) else None)"

definition BRANCH_PATTERNS :: "matcher list" where
  "BRANCH_PATTERNS = [literal_number ''AB-'', literal_number ''GH-'',
     branch_number (\<lambda>pv. pv = Some (CHR ''/'')), branch_number (\<lambda>pv. pv = None)]"

definition sha_at :: matcher where
  "sha_at pv s =
     (let h = takeWhile hex_low s
      in if not_in word_char pv \<and> list_ex (\<lambda>c. \<not> digit c) h \<and> 7 \<le> length h \<and> length h \<le> 40
            \<and> not_in word_char (peek (drop (length h) s))
         then Some (h, h) else None)"

text \<open>\<open>refs.setdefault(key, ...)\<close>: the first match of a key wins, in order of first match.\<close>

fun first_refs :: "(string \<times> string) list \<Rightarrow> reference list \<Rightarrow> reference list" where
  "first_refs [] acc = acc"
| "first_refs ((k, w) # ms) acc =
     first_refs ms (if k \<in> re_key ` set acc then acc else acc @ [\<lparr>re_key = k, re_matched = w\<rparr>])"

definition parse_work_item_references :: "string \<Rightarrow> string option \<Rightarrow> reference list" where
  "parse_work_item_references message branch =
     first_refs
       (concat (map (\<lambda>m. finditer m None message) WORK_ITEM_PATTERNS) @
        (case branch of None \<Rightarrow> []
         | Some b \<Rightarrow> if b = [] then [] else concat (map (\<lambda>m. finditer m None b) BRANCH_PATTERNS))) []"

definition parse_sha_references :: "string \<Rightarrow> reference list" where
  "parse_sha_references message = first_refs (finditer sha_at None message) []"

text \<open>\<open>re.findall(r"\d+", s)\<close>.\<close>

definition digit_runs :: "string \<Rightarrow> string list" where
  "digit_runs s = map fst (finditer (\<lambda>pv s. let d = takeWhile digit s in if d = [] then None else Some (d, d)) None s)"

section \<open>What a reference is\<close>

text \<open>A pattern that occurs has its needle in the text.\<close>

lemma search_guarded_in:
  "search_guarded b a f needle pv s \<Longrightarrow> py_in (map f needle) (map f s)"
  by (induction b a f needle pv s rule: search_guarded.induct) auto

lemma symbol_pattern_in: "symbol_pattern name s \<Longrightarrow> py_in name s"
  using search_guarded_in [of _ _ id name] by (auto simp: symbol_pattern_def)

text \<open>The whole match of a scanner is a factor of the subject.\<close>

definition matches_prefix :: "matcher \<Rightarrow> bool" where
  "matches_prefix m \<longleftrightarrow> (\<forall>pv s k w. m pv s = Some (k, w) \<longrightarrow> prefix w s)"

lemma py_in_drop: "py_in w (drop n s) \<Longrightarrow> py_in w s"
proof (induction n arbitrary: s)
  case (Suc n)
  then show ?case by (cases s) auto
qed simp

lemma prefix_py_in: "prefix w s \<Longrightarrow> py_in w s"
  by (cases s) auto

lemma finditer_in:
  "matches_prefix m \<Longrightarrow> (k, w) \<in> set (finditer m pv s) \<Longrightarrow> py_in w s \<and> w \<noteq> [] \<and> (\<exists>pv' s'. m pv' s' = Some (k, w))"
proof (induction m pv s rule: finditer.induct)
  case (1 m pv s)
  note hyp = 1(4)
  show ?case
  proof (cases s)
    case Nil with 1(5) show ?thesis by (simp add: finditer.simps)
  next
    case (Cons c cs)
    show ?thesis
    proof (cases "m pv s")
      case None
      with 1(5) Cons have "(k, w) \<in> set (finditer m (Some c) cs)" by (simp add: finditer.simps [of m pv "c # cs"])
      from 1(1) [OF Cons None 1(4) this] Cons show ?thesis by auto
    next
      case (Some kw)
      obtain k0 w0 where kw: "kw = (k0, w0)" by (cases kw)
      show ?thesis
      proof (cases "w0 = []")
        case True
        with 1(5) Cons Some kw have "(k, w) \<in> set (finditer m (Some c) cs)" by (simp add: finditer.simps [of m pv "c # cs"])
        from 1(2) [OF Cons Some kw [symmetric] True 1(4) this] Cons show ?thesis by auto
      next
        case False
        with 1(5) Cons Some kw consider "k = k0" "w = w0" | "(k, w) \<in> set (finditer m (Some (last w0)) (drop (length w0) s))"
          by (auto simp: finditer.simps [of m pv "c # cs"])
        then show ?thesis
        proof cases
          case 1
          then have "prefix w s" using hyp Some kw by (auto simp: matches_prefix_def)
          then show ?thesis using Some kw False 1 prefix_py_in by blast
        next
          case 2
          from "1.IH"(3) [OF Cons Some kw [symmetric] False hyp this] show ?thesis using py_in_drop by blast
        qed
      qed
    qed
  qed
qed

lemma first_refs_in:
  "r \<in> set (first_refs ms acc) \<Longrightarrow> r \<in> set acc \<or> (re_key r, re_matched r) \<in> set ms"
  by (induction ms acc rule: first_refs.induct) (auto split: if_splits)

lemma first_refs_keys:
  "distinct (map re_key acc) \<Longrightarrow> distinct (map re_key (first_refs ms acc))"
  by (induction ms acc rule: first_refs.induct) auto

lemma prefix_takeWhile: "prefix (takeWhile p s) s"
  by (metis prefixI takeWhile_dropWhile_id)

lemma prefix_drop_append: "prefix p s \<Longrightarrow> prefix d (drop (length p) s) \<Longrightarrow> prefix (p @ d) s"
  by (auto simp: prefix_def)

lemma literal_number_some:
  assumes "literal_number p pv s = Some (k, w)"
  shows "w = p @ k \<and> k \<noteq> [] \<and> (\<forall>c \<in> set k. digit c) \<and> prefix w s"
  using assms prefix_drop_append [OF _ prefix_takeWhile]
  by (auto simp: literal_number_def Let_def split: if_splits dest: set_takeWhileD)

lemma pull_request_some:
  assumes "pull_request pv s = Some (k, w)"
  shows "k \<noteq> [] \<and> (\<forall>c \<in> set k. digit c) \<and> prefix w s \<and> CHR ''#'' \<in> set w"
proof -
  from assms obtain a b r r2 where s: "s = a # b # r" "dropWhile py_space r = CHR ''#'' # r2"
    and k: "k = takeWhile digit r2" "k \<noteq> []" "w = a # b # takeWhile py_space r @ CHR ''#'' # k"
    by (auto simp: pull_request_def Let_def split: list.splits if_splits)
  have "r = takeWhile py_space r @ CHR ''#'' # r2" using s(2) by (metis takeWhile_dropWhile_id)
  moreover have "r2 = k @ dropWhile digit r2" using k(1) by simp
  ultimately have "s = w @ dropWhile digit r2" using s(1) k(3) by (metis append.assoc append_Cons)
  then show ?thesis using k by (auto dest: set_takeWhileD simp: prefix_takeWhile)
qed

text \<open>
  A bare number is never a reference: what a message is linked by occurs in it verbatim and
  carries a prefix sign, and the key is a run of digits.
\<close>

lemma message_reference:
  assumes "r \<in> set (parse_work_item_references message None)"
  shows "py_in (re_matched r) message \<and> (CHR ''#'' \<in> set (re_matched r) \<or> CHR ''-'' \<in> set (re_matched r))
    \<and> re_key r \<noteq> [] \<and> (\<forall>c \<in> set (re_key r). digit c)"
proof -
  have pre: "matches_prefix m" if "m \<in> set WORK_ITEM_PATTERNS" for m
    using that literal_number_some pull_request_some
    by (auto simp: WORK_ITEM_PATTERNS_def matches_prefix_def bare_number_def split: if_splits)
  from assms first_refs_in [of r _ "[]"] obtain m where m: "m \<in> set WORK_ITEM_PATTERNS"
    "(re_key r, re_matched r) \<in> set (finditer m None message)"
    by (fastforce simp: parse_work_item_references_def)
  from finditer_in [OF pre [OF m(1)] m(2)] obtain pv s where
    at: "m pv s = Some (re_key r, re_matched r)" and in_msg: "py_in (re_matched r) message" by blast
  have "(CHR ''#'' \<in> set (re_matched r) \<or> CHR ''-'' \<in> set (re_matched r)) \<and> re_key r \<noteq> [] \<and> (\<forall>c \<in> set (re_key r). digit c)"
    using m(1) at literal_number_some [of _ pv s "re_key r" "re_matched r"] pull_request_some [of pv s]
    by (auto simp: WORK_ITEM_PATTERNS_def bare_number_def split: if_splits) fastforce+
  with in_msg show ?thesis by blast
qed

end
