(* ===== verification/Linker.thy ===== *)
theory Linker
  imports LinkText EdgeStore
begin

text \<open>
  The deterministic linker (\<open>linker/\<close>): the artifacts it loads, the drafts of the title
  scan and of the cross-domain rules, the semantic fallback, and the reconciliation of the
  linker edges. The similarity provider is a parameter; logs are left out.
\<close>

section \<open>Records (records.py, link_records.py)\<close>

definition LINK_CODE_TYPES :: "string set" where
  "LINK_CODE_TYPES = {''code_file'', ''code_symbol'', ''endpoint''}"

definition DOC_SOURCES :: "string set" where "DOC_SOURCES = {''azure_wiki'', ''github_doc''}"
definition CARD_SOURCES :: "string set" where "CARD_SOURCES = {''ado_card''}"
definition COMMIT_SOURCES :: "string set" where "COMMIT_SOURCES = {''git_metadata''}"

definition LINK_DOC_TYPES :: "string set" where
  "LINK_DOC_TYPES = {''chunk'', ''summary'', ''source_backed_fact''}"

record linkable =
  la_id :: uuid
  la_type :: string
  la_title :: "string option"
  la_body :: "string option"
  la_source_type :: string
  la_external :: "string option"
  la_path :: "string option"
  la_branch :: "string option"

record link_draft =
  ld_from :: uuid
  ld_to :: uuid
  ld_type :: string
  ld_confidence :: real
  ld_strategy :: string
  ld_evidence :: "json option"

definition draft_key :: "link_draft \<Rightarrow> uuid \<times> uuid \<times> string" where
  "draft_key d = (ld_from d, ld_to d, ld_type d)"

definition la_text :: "linkable \<Rightarrow> string" where
  "la_text a = (case la_body a of Some b \<Rightarrow> b | None \<Rightarrow> [])"

text \<open>The \<open>add\<close> closures: a draft whose key was seen, or a self link, is dropped.\<close>

definition add_draft :: "link_draft \<Rightarrow> link_draft list \<Rightarrow> link_draft list" where
  "add_draft d ds = (if draft_key d \<in> draft_key ` set ds \<or> ld_from d = ld_to d then ds else ds @ [d])"

definition add_all :: "link_draft list \<Rightarrow> link_draft list \<Rightarrow> link_draft list" where
  "add_all new ds = fold add_draft new ds"

section \<open>Title matches (deterministic.py)\<close>

definition MIN_CONCEPT_TITLE_CHARS :: nat where "MIN_CONCEPT_TITLE_CHARS = 6"
definition MIN_SYMBOL_TITLE_CHARS :: nat where "MIN_SYMBOL_TITLE_CHARS = 4"
definition LINK_IMPLEMENTS_CONFIDENCE :: real where "LINK_IMPLEMENTS_CONFIDENCE = 95 / 100"
definition DOC_LINK_CONFIDENCE :: real where "DOC_LINK_CONFIDENCE = 9 / 10"

record link_matcher =
  mt_artifact :: linkable
  mt_needle :: string
  mt_pattern :: "string \<Rightarrow> bool"
  mt_fold :: bool

definition eligible_concept_title :: "string \<Rightarrow> bool" where
  "eligible_concept_title t \<longleftrightarrow> CHR '' '' \<in> set (py_strip t) \<or> MIN_CONCEPT_TITLE_CHARS \<le> length t"

definition link_matches :: "link_matcher \<Rightarrow> string \<Rightarrow> bool" where
  "link_matches m text \<longleftrightarrow> py_in (mt_needle m) (if mt_fold m then py_lower text else text) \<and> mt_pattern m text"

definition titled :: "(linkable \<Rightarrow> string \<Rightarrow> bool) \<Rightarrow> (string \<Rightarrow> string) \<Rightarrow> (string \<Rightarrow> string \<Rightarrow> bool) \<Rightarrow> bool
     \<Rightarrow> linkable list \<Rightarrow> link_matcher list" where
  "titled ok needle pat fold_case as = concat (map (\<lambda>a. case la_title a of None \<Rightarrow> []
     | Some t \<Rightarrow> if ok a t then [\<lparr>mt_artifact = a, mt_needle = needle t, mt_pattern = pat t, mt_fold = fold_case\<rparr>]
                 else []) as)"

definition concept_matchers :: "linkable list \<Rightarrow> link_matcher list" where
  "concept_matchers = titled (\<lambda>a t. la_type a = ''concept'' \<and> eligible_concept_title t) py_lower phrase_pattern True"

definition symbol_matchers :: "linkable list \<Rightarrow> link_matcher list" where
  "symbol_matchers = titled (\<lambda>a t. la_type a = ''code_symbol'' \<and> MIN_SYMBOL_TITLE_CHARS \<le> length t) id symbol_pattern False"

definition code_matchers :: "linkable list \<Rightarrow> link_matcher list" where
  "code_matchers as = symbol_matchers as @
     titled (\<lambda>a t. la_type a \<in> LINK_CODE_TYPES \<and> la_type a \<noteq> ''code_symbol'') id path_pattern False as"

definition link_docs :: "linkable list \<Rightarrow> linkable list" where
  "link_docs as = filter (\<lambda>a. la_type a \<in> LINK_DOC_TYPES \<and> la_source_type a \<in> DOC_SOURCES \<union> CARD_SOURCES
     \<and> la_body a \<noteq> None) as"

definition concept_text :: "linkable \<Rightarrow> string" where
  "concept_text a = py_join [nl] (filter (\<lambda>s. s \<noteq> [])
     ((case la_title a of Some t \<Rightarrow> [t] | None \<Rightarrow> []) @ (case la_body a of Some b \<Rightarrow> [b] | None \<Rightarrow> [])))"

definition plain_draft :: "linkable \<Rightarrow> linkable \<Rightarrow> string \<Rightarrow> real \<Rightarrow> link_draft" where
  "plain_draft a b typ conf = \<lparr>ld_from = la_id a, ld_to = la_id b, ld_type = typ, ld_confidence = conf,
     ld_strategy = ''deterministic'', ld_evidence = None\<rparr>"

definition concept_drafts :: "linkable list \<Rightarrow> link_draft list" where
  "concept_drafts as = concat (map (\<lambda>c. map (\<lambda>s. plain_draft (mt_artifact s) (mt_artifact c) ''implements'' LINK_IMPLEMENTS_CONFIDENCE)
     (filter (\<lambda>s. link_matches s (concept_text (mt_artifact c))) (symbol_matchers as))) (concept_matchers as))"

definition doc_drafts :: "linkable list \<Rightarrow> linkable \<Rightarrow> link_draft list" where
  "doc_drafts as d =
     (let body = la_text d; typ = (if la_source_type d \<in> CARD_SOURCES then ''requests'' else ''documents'')
      in map (\<lambda>m. plain_draft d (mt_artifact m) typ DOC_LINK_CONFIDENCE) (filter (\<lambda>m. link_matches m body) (concept_matchers as))
       @ map (\<lambda>m. plain_draft d (mt_artifact m) ''mentions'' DOC_LINK_CONFIDENCE) (filter (\<lambda>m. link_matches m body) (code_matchers as)))"

section \<open>Cross-domain rules (cross_domain.py)\<close>

definition work_item_keys :: "linkable \<Rightarrow> string set" where
  "work_item_keys a =
     (case la_external a of None \<Rightarrow> {} | Some x \<Rightarrow> if x = [] then {} else insert (py_strip x) (set (digit_runs x)))
     \<union> (case la_title a of None \<Rightarrow> {} | Some t \<Rightarrow> set (digit_runs t)) - {[]}"

text \<open>\<open>_work_item_index\<close> looked up: the first work item with the key.\<close>

definition work_item :: "linkable list \<Rightarrow> string \<Rightarrow> linkable option" where
  "work_item as key = find (\<lambda>a. la_source_type a \<in> CARD_SOURCES \<and> key \<in> work_item_keys a) as"

definition link_commits :: "linkable list \<Rightarrow> linkable list" where
  "link_commits as = filter (\<lambda>a. la_type a = ''commit'') as"

definition sha_index :: "linkable list \<Rightarrow> (string, linkable) dict" where
  "sha_index as = dict_update_all [] (concat (map (\<lambda>a. case la_external a of Some x \<Rightarrow> if x = [] then [] else [(x, a)]
     | None \<Rightarrow> []) (link_commits as)))"

definition code_files :: "linkable list \<Rightarrow> (string, linkable) dict" where
  "code_files as = dict_update_all [] (concat (map (\<lambda>a. case la_path a of Some p \<Rightarrow> [(p, a)] | None \<Rightarrow> [])
     (filter (\<lambda>a. la_type a = ''code_file'') as)))"

definition resolve_sha :: "string \<Rightarrow> (string, linkable) dict \<Rightarrow> linkable option" where
  "resolve_sha sha idx =
     (case map_of idx sha of Some a \<Rightarrow> Some a
      | None \<Rightarrow> (case filter (\<lambda>(k, a). prefix sha k) idx of [(k, a)] \<Rightarrow> Some a | _ \<Rightarrow> None))"

definition evidenced :: "linkable \<Rightarrow> linkable \<Rightarrow> string \<Rightarrow> (string \<times> string) list \<Rightarrow> link_draft" where
  "evidenced a b typ ev = \<lparr>ld_from = la_id a, ld_to = la_id b, ld_type = typ, ld_confidence = 95 / 100,
     ld_strategy = ''deterministic'', ld_evidence = Some (JObj (map (\<lambda>(k, v). (k, JStr v)) ev))\<rparr>"

definition work_item_drafts :: "linkable list \<Rightarrow> linkable \<Rightarrow> string \<Rightarrow> reference list \<Rightarrow> link_draft list" where
  "work_item_drafts as a typ refs = concat (map (\<lambda>r. case work_item as (re_key r) of None \<Rightarrow> []
     | Some w \<Rightarrow> [evidenced a w typ [(''kind'', ''work_item_ref''), (''matched'', re_matched r)]]) refs)"

definition sha_drafts :: "linkable list \<Rightarrow> linkable \<Rightarrow> link_draft list" where
  "sha_drafts as c = concat (map (\<lambda>r. case resolve_sha (re_key r) (sha_index as) of None \<Rightarrow> []
     | Some t \<Rightarrow> if la_id t = la_id c then []
                 else [evidenced c t ''implements'' [(''kind'', ''commit_ref''), (''matched'', re_matched r)]])
     (parse_sha_references (la_text c)))"

definition file_drafts :: "linkable list \<Rightarrow> linkable \<Rightarrow> link_draft list" where
  "file_drafts as c = concat (map (\<lambda>p. case map_of (code_files as) p of None \<Rightarrow> []
     | Some f \<Rightarrow> [evidenced c f ''mentions'' [(''kind'', ''changed_file''), (''path'', p)]])
     (parse_changed_files (la_text c)))"

definition commit_drafts :: "linkable list \<Rightarrow> linkable \<Rightarrow> link_draft list" where
  "commit_drafts as c =
     work_item_drafts as c ''implements'' (parse_work_item_references (la_text c) (la_branch c))
     @ sha_drafts as c @ file_drafts as c"

definition find_cross_domain_links :: "linkable list \<Rightarrow> link_draft list" where
  "find_cross_domain_links as = add_all (concat (map (commit_drafts as) (link_commits as))) []"

definition find_doc_work_item_mentions :: "linkable list \<Rightarrow> linkable list \<Rightarrow> link_draft list" where
  "find_doc_work_item_mentions docs as =
     add_all (concat (map (\<lambda>d. work_item_drafts as d ''mentions'' (parse_work_item_references (la_text d) None)) docs)) []"

text \<open>The merge drops seen keys only; the cross-domain drafts hold no self links.\<close>

definition merge_draft :: "link_draft \<Rightarrow> link_draft list \<Rightarrow> link_draft list" where
  "merge_draft d ds = (if draft_key d \<in> draft_key ` set ds then ds else ds @ [d])"

definition find_deterministic_links :: "linkable list \<Rightarrow> link_draft list" where
  "find_deterministic_links as =
     (let docs = link_docs as;
          ds = add_all (concat (map (doc_drafts as) docs)) (add_all (concept_drafts as) [])
      in fold merge_draft (find_cross_domain_links as @ find_doc_work_item_mentions docs as) ds)"

section \<open>Semantic fallback (semantic.py)\<close>

definition SEMANTIC_ACCEPT_THRESHOLD :: real where "SEMANTIC_ACCEPT_THRESHOLD = 82 / 100"
definition SEMANTIC_TOP_K :: nat where "SEMANTIC_TOP_K = 3"

type_synonym similarity_provider = "uuid \<Rightarrow> nat \<Rightarrow> exn + (uuid \<times> real) list"

definition semantic_draft :: "uuid \<Rightarrow> uuid \<times> real \<Rightarrow> link_draft" where
  "semantic_draft concept c = \<lparr>ld_from = fst c, ld_to = concept, ld_type = ''implements'', ld_confidence = snd c,
     ld_strategy = ''semantic'', ld_evidence = None\<rparr>"

text \<open>A draft with a confidence above one does not validate.\<close>

definition semantic_candidate :: "uuid \<Rightarrow> uuid \<times> real \<Rightarrow> (uuid \<times> uuid \<times> string) set \<times> link_draft list
     \<Rightarrow> exn + (uuid \<times> uuid \<times> string) set \<times> link_draft list" where
  "semantic_candidate concept c st =
     (let (pairs, ds) = st; d = semantic_draft concept c
      in if snd c < SEMANTIC_ACCEPT_THRESHOLD \<or> draft_key d \<in> pairs then Inr (pairs, ds)
         else if snd c > 1 then Inl PydanticValidationError
         else Inr (insert (draft_key d) pairs, ds @ [d]))"

definition semantic_one :: "similarity_provider \<Rightarrow> linkable \<Rightarrow> (uuid \<times> uuid \<times> string) set \<times> link_draft list
     \<Rightarrow> exn + (uuid \<times> uuid \<times> string) set \<times> link_draft list" where
  "semantic_one sim concept st =
     (case sim (la_id concept) SEMANTIC_TOP_K of
        Inl e \<Rightarrow> Inl e
      | Inr scored \<Rightarrow> foldE (semantic_candidate (la_id concept)) scored st)"

definition find_semantic_links :: "similarity_provider \<Rightarrow> linkable list \<Rightarrow> (uuid \<times> uuid \<times> string) set \<Rightarrow> exn + link_draft list" where
  "find_semantic_links sim concepts pairs =
     (case foldE (semantic_one sim) concepts (pairs, []) of Inl e \<Rightarrow> Inl e | Inr (_, ds) \<Rightarrow> Inr ds)"

section \<open>Reconciliation (write_edges.py)\<close>

definition RELATION_SCHEMA_VERSION :: int where "RELATION_SCHEMA_VERSION = 1"

text \<open>The \<open>set_\<close> of the conflict clause, which revives a dead row.\<close>

definition refresh_link :: "string \<Rightarrow> link_draft \<Rightarrow> kb_edge \<Rightarrow> kb_edge" where
  "refresh_link version d e = e\<lparr>ke_confidence := Some (ld_confidence d), ke_version := version,
     ke_schema := RELATION_SCHEMA_VERSION, ke_evidence := to_jsonb (ld_evidence d), ke_invalidated := None\<rparr>"

definition insert_link :: "uuid \<Rightarrow> string \<Rightarrow> int \<Rightarrow> link_draft \<Rightarrow> kb_edge" where
  "insert_link u version seq d = \<lparr>ke_id = u, ke_from = ld_from d, ke_to = ld_to d,
     ke_type = ld_type d, ke_confidence = Some (ld_confidence d), ke_source = Some ''linker'',
     ke_trust = ''EXTRACTED'', ke_valid_from = seq, ke_invalidated = None, ke_version = version,
     ke_schema = RELATION_SCHEMA_VERSION, ke_evidence = to_jsonb (ld_evidence d)\<rparr>"

definition conflicts :: "link_draft \<Rightarrow> kb_edge \<Rightarrow> bool" where
  "conflicts d e \<longleftrightarrow> ke_source e = Some ''linker'' \<and> edge_key e = draft_key d"

definition upsert_link_edge :: "string \<Rightarrow> int \<Rightarrow> link_draft \<Rightarrow> kb \<Rightarrow> bool \<times> kb" where
  "upsert_link_edge version seq d k =
     (if list_ex (conflicts d) (kb_edges k)
      then (False, k\<lparr>kb_edges := update_where (conflicts d) (refresh_link version d) (kb_edges k)\<rparr>)
      else (let (u, k1) = gen_random_uuid k
            in (True, k1\<lparr>kb_edges := kb_edges k1 @ [insert_link u version seq d]\<rparr>)))"

definition stale_link_edge :: "(uuid \<times> uuid \<times> string) set \<Rightarrow> string set \<Rightarrow> kb_edge \<Rightarrow> bool" where
  "stale_link_edge computed protected e \<longleftrightarrow> ke_source e = Some ''linker'' \<and> live_edge e
     \<and> edge_key e \<notin> computed \<and> \<not> (ke_type e \<in> protected \<and> jsonb_is_none (ke_evidence e))"

definition invalidate_stale_links :: "int \<Rightarrow> link_draft list \<Rightarrow> string set \<Rightarrow> kb \<Rightarrow> nat \<times> kb" where
  "invalidate_stale_links seq drafts protected = invalidate_where (stale_link_edge (draft_key ` set drafts) protected) seq"

fun upsert_links :: "string \<Rightarrow> int \<Rightarrow> link_draft list \<Rightarrow> kb \<Rightarrow> nat \<times> nat \<times> kb" where
  "upsert_links version seq [] k = (0, 0, k)"
| "upsert_links version seq (d # ds) k =
     (let (new, k1) = upsert_link_edge version seq d k; (ins, ref, k2) = upsert_links version seq ds k1
      in if new then (ins + 1, ref, k2) else (ins, ref + 1, k2))"

definition write_link_edges :: "string \<Rightarrow> int \<Rightarrow> link_draft list \<Rightarrow> string set \<Rightarrow> kb \<Rightarrow> (nat \<times> nat \<times> nat) \<times> kb" where
  "write_link_edges version seq drafts protected k =
     (let (ins, ref, k1) = upsert_links version seq drafts k;
          (inv, k2) = invalidate_stale_links seq drafts protected k1
      in ((ins, ref, inv), k2))"

section \<open>The linker (run.py)\<close>

definition linkable_of :: "kb_artifact \<times> kb_source \<Rightarrow> linkable" where
  "linkable_of x = (case x of (a, s) \<Rightarrow> \<lparr>la_id = ka_id a, la_type = ka_type a, la_title = ka_title a,
     la_body = ka_body a, la_source_type = (case src_type s of Some t \<Rightarrow> t | None \<Rightarrow> []),
     la_external = src_external s, la_path = src_path s, la_branch = src_branch s\<rparr>)"

definition load_linkable_artifacts :: "kb \<Rightarrow> linkable list" where
  "load_linkable_artifacts k = map linkable_of (filter (\<lambda>(a, s). \<not> src_deleted s) (kb_joined k))"

definition linker_drafts :: "similarity_provider option \<Rightarrow> linkable list \<Rightarrow> exn + link_draft list" where
  "linker_drafts similarity as =
     (let drafts = find_deterministic_links as in
      case similarity of
        None \<Rightarrow> Inr drafts
      | Some sim \<Rightarrow>
          (let linked = ld_to ` set (filter (\<lambda>d. ld_type d = ''implements'') drafts);
               unlinked = filter (\<lambda>a. la_type a = ''concept'' \<and> la_id a \<notin> linked) as
           in case find_semantic_links sim unlinked (draft_key ` set drafts) of
                Inl e \<Rightarrow> Inl e | Inr ds \<Rightarrow> Inr (drafts @ ds)))"

definition run_linker :: "string \<Rightarrow> int \<Rightarrow> similarity_provider option \<Rightarrow> kb \<Rightarrow> (exn + nat \<times> nat \<times> nat) \<times> kb" where
  "run_linker version seq similarity k =
     (case linker_drafts similarity (load_linkable_artifacts k) of
        Inl e \<Rightarrow> (Inl e, k)
      | Inr drafts \<Rightarrow>
          (let (counts, k') = write_link_edges version seq drafts
             (if similarity = None then {''implements''} else {}) k
           in (Inr counts, k')))"

section \<open>Drafts are unique links between different artifacts\<close>

definition proper_drafts :: "link_draft list \<Rightarrow> bool" where
  "proper_drafts ds \<longleftrightarrow> distinct (map draft_key ds) \<and> (\<forall>d \<in> set ds. ld_from d \<noteq> ld_to d)"

lemma proper_Nil [simp]: "proper_drafts []"
  by (simp add: proper_drafts_def)

lemma proper_add: "proper_drafts ds \<Longrightarrow> proper_drafts (add_draft d ds)"
  by (auto simp: proper_drafts_def add_draft_def)

lemma proper_add_all: "proper_drafts ds \<Longrightarrow> proper_drafts (add_all new ds)"
  unfolding add_all_def by (induction new arbitrary: ds) (simp_all add: proper_add)

lemma proper_merge: "proper_drafts ds \<Longrightarrow> ld_from d \<noteq> ld_to d \<Longrightarrow> proper_drafts (merge_draft d ds)"
  by (auto simp: proper_drafts_def merge_draft_def)

lemma proper_merge_all:
  "proper_drafts ds \<Longrightarrow> \<forall>d \<in> set new. ld_from d \<noteq> ld_to d \<Longrightarrow> proper_drafts (fold merge_draft new ds)"
  by (induction new arbitrary: ds) (simp_all add: proper_merge)

lemma deterministic_proper: "proper_drafts (find_deterministic_links as)"
proof -
  have "\<forall>d \<in> set (find_cross_domain_links as @ find_doc_work_item_mentions (link_docs as) as). ld_from d \<noteq> ld_to d"
    using proper_add_all [OF proper_Nil]
    by (auto simp: find_cross_domain_links_def find_doc_work_item_mentions_def proper_drafts_def)
  then show ?thesis unfolding find_deterministic_links_def Let_def
    by (intro proper_merge_all proper_add_all proper_Nil)
qed

text \<open>The merge keeps every key, so a cross-domain rule that fires gives a draft.\<close>

lemma merge_keys: "draft_key ` set (fold merge_draft new ds) = draft_key ` set new \<union> draft_key ` set ds"
  by (induction new arbitrary: ds) (auto simp: merge_draft_def)

section \<open>Reconciliation is exact\<close>

lemma refresh_link_simps [simp]:
  "edge_key (refresh_link v d e) = edge_key e" "ke_id (refresh_link v d e) = ke_id e"
  "ke_source (refresh_link v d e) = ke_source e" "live_edge (refresh_link v d e)"
  "ke_from (refresh_link v d e) = ke_from e" "ke_to (refresh_link v d e) = ke_to e"
  "ke_type (refresh_link v d e) = ke_type e" "ke_valid_from (refresh_link v d e) = ke_valid_from e"
  by (simp_all add: refresh_link_def edge_key_def live_edge_def)

lemma insert_link_simps [simp]:
  "edge_key (insert_link u v s d) = draft_key d" "ke_source (insert_link u v s d) = Some ''linker''"
  "live_edge (insert_link u v s d)" "ke_id (insert_link u v s d) = u"
  by (simp_all add: insert_link_def edge_key_def draft_key_def live_edge_def)

lemma link_put_live: "live_of ''linker'' (snd (upsert_link_edge v s d k)) = insert (draft_key d) (live_of ''linker'' k)"
proof (cases "list_ex (conflicts d) (kb_edges k)")
  case True
  have "live_of ''linker'' (k\<lparr>kb_edges := update_where (conflicts d) (refresh_link v d) (kb_edges k)\<rparr>)
      = insert (draft_key d) (live_of ''linker'' k)"
    by (rule upsert_live_of) (simp_all add: conflicts_def True)
  with True show ?thesis by (simp add: upsert_link_edge_def)
next
  case False
  then show ?thesis
    by (simp add: upsert_link_edge_def append_live_of [OF prod.collapse [symmetric]] split_beta)
qed

lemma link_put_ids: "edge_ids_ok k \<Longrightarrow> edge_ids_ok (snd (upsert_link_edge v s d k))"
  by (simp add: upsert_link_edge_def update_where_ids append_ids [OF _ prod.collapse [symmetric]] split_beta)

interpretation links: edge_writer "''linker''" draft_key "\<lambda>d k. snd (upsert_link_edge v s d k)" for v s
  by unfold_locales (rule link_put_live, erule link_put_ids)

lemma upsert_links_fold: "snd (snd (upsert_links v s ds k)) = fold (\<lambda>d k. snd (upsert_link_edge v s d k)) ds k"
proof (induction ds arbitrary: k)
  case (Cons d ds)
  show ?case by (simp add: split_beta Let_def Cons [symmetric])
qed simp

lemma write_links_split:
  "snd (write_link_edges v s ds prot k) =
     snd (invalidate_where (stale_link_edge (draft_key ` set ds) prot) s (fold (\<lambda>d k. snd (upsert_link_edge v s d k)) ds k))"
  by (simp add: write_link_edges_def invalidate_stale_links_def split_beta Let_def upsert_links_fold)

text \<open>With no protected type, the live linker edges are the computed links, no more, no less.\<close>

lemma write_links_exact:
  "edge_ids_ok k \<Longrightarrow> live_of ''linker'' (snd (write_link_edges v s ds {} k)) = draft_key ` set ds"
  unfolding write_links_split by (rule links.reconciled_exact) (auto simp: stale_link_edge_def)

text \<open>With protection, the computed links are all live, and what else is live is protected.\<close>

lemma write_links_protected:
  assumes "edge_ids_ok k"
  shows "key \<in> live_of ''linker'' (snd (write_link_edges v s ds prot k)) \<longleftrightarrow> key \<in> draft_key ` set ds
    \<or> (\<exists>e \<in> set (kb_edges (snd (snd (upsert_links v s ds k)))). ke_source e = Some ''linker'' \<and> live_edge e
         \<and> edge_key e = key \<and> ke_type e \<in> prot \<and> jsonb_is_none (ke_evidence e))"
  unfolding write_links_split upsert_links_fold
  by (rule links.reconciled [OF assms]) (auto simp: stale_link_edge_def)

end
