(* ===== verification/Candidates.thy ===== *)
theory Candidates
  imports Linker "HOL-Library.Multiset"
begin

text \<open>
  The candidate generator (\<open>linker/candidates.py\<close>, \<open>linker/run_candidates.py\<close>): signals per ordered
  cross-domain pair, the bound per source artifact, and the audit table it keeps equal to its output.
\<close>

section \<open>Signals\<close>

definition CANDIDATE_FAN_OUT_K :: nat where "CANDIDATE_FAN_OUT_K = 10"
definition EMBEDDING_SIMILARITY_FLOOR :: real where "EMBEDDING_SIMILARITY_FLOOR = 8 / 10"
definition TOKEN_OVERLAP_FLOOR :: real where "TOKEN_OVERLAP_FLOOR = 1 / 10"
definition SECTION_PROXIMITY_SCORE :: real where "SECTION_PROXIMITY_SCORE = 6 / 10"
definition PATH_COLOCATION_SCORE :: real where "PATH_COLOCATION_SCORE = 4 / 10"
definition HIGH_BUCKET_FLOOR :: real where "HIGH_BUCKET_FLOOR = 7 / 10"
definition MEDIUM_BUCKET_FLOOR :: real where "MEDIUM_BUCKET_FLOOR = 4 / 10"
definition EMBEDDING_TOP_K :: nat where "EMBEDDING_TOP_K = 5"

record candidate_draft =
  cd_from :: uuid
  cd_to :: uuid
  cd_signals :: "(string \<times> real) list"
  cd_bucket :: string

definition top_signal :: "(string \<times> real) list \<Rightarrow> real" where
  "top_signal sg = (case map snd sg of [] \<Rightarrow> 0 | x # xs \<Rightarrow> fold max xs x)"

definition cd_score :: "candidate_draft \<Rightarrow> real" where
  "cd_score d = top_signal (cd_signals d)"

definition offer_signal :: "string \<Rightarrow> real \<Rightarrow> (string, real) dict \<Rightarrow> (string, real) dict" where
  "offer_signal name score sg =
     (if score > (case map_of sg name of Some x \<Rightarrow> x | None \<Rightarrow> 0) then AList.update name score sg else sg)"

definition artifact_domain :: "linkable \<Rightarrow> string" where
  "artifact_domain a =
     (if la_source_type a \<in> COMMIT_SOURCES then ''commit''
      else if la_source_type a \<in> CARD_SOURCES then ''card''
      else if la_source_type a \<in> DOC_SOURCES then ''doc''
      else if la_type a \<in> LINK_CODE_TYPES \<or> la_path a \<noteq> None then ''code'' else ''other'')"

definition token_char :: "char \<Rightarrow> bool" where
  "token_char c \<longleftrightarrow> digit c \<or> (65 \<le> code c \<and> code c \<le> 90) \<or> (97 \<le> code c \<and> code c \<le> 122)"

text \<open>\<open>_TOKEN_PATTERN.findall\<close>: the runs of letters and digits.\<close>

definition token_runs :: "string \<Rightarrow> string list" where
  "token_runs s = map fst (finditer (\<lambda>pv s. let d = takeWhile token_char s in if d = [] then None else Some (d, d)) None s)"

definition link_tokens :: "string option list \<Rightarrow> string set" where
  "link_tokens parts = set (concat (map (\<lambda>p. case p of None \<Rightarrow> []
     | Some s \<Rightarrow> map py_lower (filter (\<lambda>t. 3 \<le> length t) (token_runs s))) parts))"

definition token_overlap :: "string set \<Rightarrow> string set \<Rightarrow> real" where
  "token_overlap a b =
     (if a = {} \<or> b = {} \<or> a \<inter> b = {} then 0 else real (card (a \<inter> b)) / real (card (a \<union> b)))"

text \<open>\<open>path.rsplit("/", 1)[0]\<close>, for a path with a slash.\<close>

definition dir_prefix :: "string option \<Rightarrow> string option" where
  "dir_prefix p = (case p of None \<Rightarrow> None | Some s \<Rightarrow>
     if CHR ''/'' \<in> set s then Some (take (length s - Suc (length (after_last CHR ''/'' s))) s) else None)"

definition recall_bucket :: "real \<Rightarrow> string" where
  "recall_bucket score =
     (if score \<ge> HIGH_BUCKET_FLOOR then ''high'' else if score \<ge> MEDIUM_BUCKET_FLOOR then ''medium'' else ''low'')"

section \<open>generate_candidates\<close>

type_synonym scratch = "(uuid \<times> uuid, (string, real) dict) dict"

definition by_id :: "linkable list \<Rightarrow> uuid \<Rightarrow> linkable option" where
  "by_id as = map_of (dict_update_all [] (map (\<lambda>a. (la_id a, a)) as))"

definition same_domain :: "linkable list \<Rightarrow> uuid \<Rightarrow> uuid \<Rightarrow> bool" where
  "same_domain as f t = (map_option artifact_domain (by_id as f) = map_option artifact_domain (by_id as t))"

definition offer_pair :: "linkable list \<Rightarrow> uuid set set \<Rightarrow> uuid \<Rightarrow> uuid \<Rightarrow> string \<Rightarrow> real \<Rightarrow> scratch \<Rightarrow> scratch" where
  "offer_pair as existing f t name score st =
     (if f = t \<or> {f, t} \<in> existing \<or> same_domain as f t then st
      else AList.update (f, t) (offer_signal name score (case map_of st (f, t) of Some sg \<Rightarrow> sg | None \<Rightarrow> [])) st)"

definition offer_neighbour :: "linkable list \<Rightarrow> uuid set set \<Rightarrow> uuid \<Rightarrow> uuid \<times> real \<Rightarrow> scratch \<Rightarrow> scratch" where
  "offer_neighbour as existing f c st =
     (if snd c < EMBEDDING_SIMILARITY_FLOOR \<or> by_id as (fst c) = None then st
      else offer_pair as existing f (fst c) ''embedding_similarity'' (snd c) st)"

definition embedding_sweep :: "linkable list \<Rightarrow> uuid set set \<Rightarrow> similarity_provider \<Rightarrow> exn + scratch" where
  "embedding_sweep as existing sim = foldE (\<lambda>a st. case sim (la_id a) EMBEDDING_TOP_K of
     Inl e \<Rightarrow> Inl e | Inr scored \<Rightarrow> Inr (fold (offer_neighbour as existing (la_id a)) scored st)) (sort_key la_id as) []"

definition link_needle :: "linkable \<Rightarrow> string" where
  "link_needle a = py_lower (case la_path a of Some (c # cs) \<Rightarrow> c # cs
     | _ \<Rightarrow> (case la_title a of Some t \<Rightarrow> t | None \<Rightarrow> []))"

definition pair_tokens :: "linkable \<Rightarrow> string set" where
  "pair_tokens a = link_tokens [la_title a, la_path a, la_external a]"

text \<open>The three textual signals of one ordered pair.\<close>

definition pair_signals :: "linkable \<Rightarrow> linkable \<Rightarrow> (string \<times> real) list" where
  "pair_signals a b =
     (let ov = token_overlap (pair_tokens a) (pair_tokens b); body = py_lower (la_text a) in
      (if ov \<ge> TOKEN_OVERLAP_FLOOR then [(''token_overlap'', ov)] else [])
      @ (if 4 \<le> length (link_needle b) \<and> body \<noteq> [] \<and> py_in (link_needle b) body
         then [(''section_proximity'', SECTION_PROXIMITY_SCORE)] else [])
      @ (if dir_prefix (la_path a) \<noteq> None \<and> dir_prefix (la_path a) = dir_prefix (la_path b)
         then [(''path_colocation'', PATH_COLOCATION_SCORE)] else []))"

definition pair_sweep :: "linkable list \<Rightarrow> uuid set set \<Rightarrow> linkable \<Rightarrow> linkable \<Rightarrow> scratch \<Rightarrow> scratch" where
  "pair_sweep as existing a b st =
     (if la_id b = la_id a then st
      else fold (\<lambda>(name, score). offer_pair as existing (la_id a) (la_id b) name score) (pair_signals a b) st)"

definition scratch_drafts :: "scratch \<Rightarrow> candidate_draft list" where
  "scratch_drafts st = map (\<lambda>((f, t), sg). \<lparr>cd_from = f, cd_to = t, cd_signals = sort_key fst sg,
     cd_bucket = recall_bucket (top_signal sg)\<rparr>) (filter (\<lambda>(_, sg). sg \<noteq> []) st)"

definition ranked_for :: "candidate_draft list \<Rightarrow> uuid \<Rightarrow> candidate_draft list" where
  "ranked_for ds f = sort_key (\<lambda>d. (- cd_score d, uuid_str (cd_to d))) (filter (\<lambda>d. cd_from d = f) ds)"

definition bound_fan_out :: "candidate_draft list \<Rightarrow> candidate_draft list" where
  "bound_fan_out ds =
     (let kept = concat (map (\<lambda>f. take CANDIDATE_FAN_OUT_K (ranked_for ds f)) (sort (dict_fromkeys (map cd_from ds))))
      in sort_key (\<lambda>d. (uuid_str (cd_from d), uuid_str (cd_to d))) kept)"

definition text_sweep :: "linkable list \<Rightarrow> uuid set set \<Rightarrow> scratch \<Rightarrow> scratch" where
  "text_sweep as existing =
     (let ordered = sort_key la_id as in fold (\<lambda>a. fold (pair_sweep as existing a) ordered) ordered)"

definition generate_candidates :: "similarity_provider option \<Rightarrow> uuid set set \<Rightarrow> linkable list \<Rightarrow> exn + candidate_draft list" where
  "generate_candidates similarity existing as =
     (case (case similarity of None \<Rightarrow> Inr [] | Some sim \<Rightarrow> embedding_sweep as existing sim) of
        Inl e \<Rightarrow> Inl e
      | Inr st \<Rightarrow> Inr (bound_fan_out (scratch_drafts (text_sweep as existing st))))"

section \<open>run_candidate_generator\<close>

definition live_linker_pairs :: "kb \<Rightarrow> uuid set set" where
  "live_linker_pairs k = set (map (\<lambda>e. {ke_from e, ke_to e})
     (filter (\<lambda>e. ke_source e = Some ''linker'' \<and> live_edge e) (kb_edges k)))"

definition same_candidate :: "string \<Rightarrow> candidate_draft \<Rightarrow> candidate_row \<Rightarrow> bool" where
  "same_candidate version d r \<longleftrightarrow> cr_from r = cd_from d \<and> cr_to r = cd_to d \<and> cr_version r = version"

definition upsert_candidate :: "string \<Rightarrow> candidate_draft \<Rightarrow> kb \<Rightarrow> bool \<times> kb" where
  "upsert_candidate version d k =
     (if list_ex (same_candidate version d) (kb_candidates k)
      then (False, k\<lparr>kb_candidates := update_where (same_candidate version d)
             (\<lambda>r. r\<lparr>cr_signals := cd_signals d, cr_bucket := cd_bucket d\<rparr>) (kb_candidates k)\<rparr>)
      else (let (u, k1) = gen_random_uuid k
            in (True, k1\<lparr>kb_candidates := kb_candidates k1 @ [\<lparr>cr_id = u, cr_from = cd_from d, cr_to = cd_to d,
                 cr_signals = cd_signals d, cr_bucket = cd_bucket d, cr_version = version\<rparr>]\<rparr>)))"

definition prune_stale :: "string \<Rightarrow> (uuid \<times> uuid) set \<Rightarrow> kb \<Rightarrow> nat \<times> kb" where
  "prune_stale version produced k =
     (let ids = map cr_id (filter (\<lambda>r. cr_version r = version \<and> (cr_from r, cr_to r) \<notin> produced) (kb_candidates k))
      in (length ids, k\<lparr>kb_candidates := filter (\<lambda>r. cr_id r \<notin> set ids) (kb_candidates k)\<rparr>))"

fun upsert_candidates :: "string \<Rightarrow> candidate_draft list \<Rightarrow> kb \<Rightarrow> nat \<times> nat \<times> kb" where
  "upsert_candidates version [] k = (0, 0, k)"
| "upsert_candidates version (d # ds) k =
     (let (new, k1) = upsert_candidate version d k; (ins, ref, k2) = upsert_candidates version ds k1
      in if new then (ins + 1, ref, k2) else (ins, ref + 1, k2))"

definition run_candidate_generator :: "string \<Rightarrow> similarity_provider option \<Rightarrow> kb \<Rightarrow> (exn + nat \<times> nat \<times> nat) \<times> kb" where
  "run_candidate_generator version similarity k =
     (case generate_candidates similarity (live_linker_pairs k) (load_linkable_artifacts k) of
        Inl e \<Rightarrow> (Inl e, k)
      | Inr ds \<Rightarrow>
          (let (ins, ref, k1) = upsert_candidates version ds k;
               (pruned, k2) = prune_stale version ((\<lambda>d. (cd_from d, cd_to d)) ` set ds) k1
           in (Inr (ins, ref, pruned), k2)))"

section \<open>What a candidate is\<close>

definition signal_floor :: "string \<Rightarrow> real" where
  "signal_floor name =
     (if name = ''embedding_similarity'' then EMBEDDING_SIMILARITY_FLOOR
      else if name = ''token_overlap'' then TOKEN_OVERLAP_FLOOR
      else if name = ''section_proximity'' then SECTION_PROXIMITY_SCORE else PATH_COLOCATION_SCORE)"

definition signals_ok :: "(string \<times> real) list \<Rightarrow> bool" where
  "signals_ok sg \<longleftrightarrow> dict_ok sg \<and> (\<forall>(name, score) \<in> set sg. signal_floor name \<le> score)"

definition pair_ok :: "linkable list \<Rightarrow> uuid set set \<Rightarrow> uuid \<times> uuid \<Rightarrow> bool" where
  "pair_ok as existing p \<longleftrightarrow> fst p \<noteq> snd p \<and> {fst p, snd p} \<notin> existing \<and> \<not> same_domain as (fst p) (snd p)
     \<and> fst p \<in> la_id ` set as"

definition scratch_ok :: "linkable list \<Rightarrow> uuid set set \<Rightarrow> scratch \<Rightarrow> bool" where
  "scratch_ok as existing st \<longleftrightarrow> dict_ok st \<and> (\<forall>(p, sg) \<in> set st. pair_ok as existing p \<and> signals_ok sg)"

lemma dict_ok_AList_update [simp]: "dict_ok d \<Longrightarrow> dict_ok (AList.update k v d)"
  using dict_ok_update_all [of d "[(k, v)]"] by simp

lemma dict_all_update: "\<forall>x \<in> set d. P x \<Longrightarrow> P (k, v) \<Longrightarrow> \<forall>x \<in> set (AList.update k v d). P x"
  using set_update_subset [of k v d] by blast

lemma signals_ok_offer: "signals_ok sg \<Longrightarrow> signal_floor name \<le> score \<Longrightarrow> signals_ok (offer_signal name score sg)"
  using set_update_subset [of name score sg] by (fastforce simp: signals_ok_def offer_signal_def)

lemma scratch_ok_offer:
  assumes "scratch_ok as existing st" "signal_floor name \<le> score" "f \<in> la_id ` set as"
  shows "scratch_ok as existing (offer_pair as existing f t name score st)"
proof (cases "f = t \<or> {f, t} \<in> existing \<or> same_domain as f t")
  case False
  let ?sg = "case map_of st (f, t) of Some sg \<Rightarrow> sg | None \<Rightarrow> []"
  have "signals_ok ?sg"
    using assms(1) by (cases "map_of st (f, t)") (auto simp: scratch_ok_def signals_ok_def dest!: map_of_SomeD)
  then have "signals_ok (offer_signal name score ?sg)" using assms(2) by (rule signals_ok_offer)
  moreover have "pair_ok as existing (f, t)" using False assms(3) by (simp add: pair_ok_def)
  ultimately have "\<forall>(p, sg) \<in> set (AList.update (f, t) (offer_signal name score ?sg) st). pair_ok as existing p \<and> signals_ok sg"
    using assms(1) by (intro dict_all_update) (auto simp: scratch_ok_def)
  then show ?thesis using False assms(1) by (simp add: offer_pair_def scratch_ok_def)
qed (use assms(1) in \<open>auto simp: offer_pair_def\<close>)

lemma scratch_ok_neighbour:
  "scratch_ok as existing st \<Longrightarrow> f \<in> la_id ` set as \<Longrightarrow> scratch_ok as existing (offer_neighbour as existing f c st)"
  by (simp add: offer_neighbour_def scratch_ok_offer signal_floor_def)

lemma scratch_ok_neighbours:
  "scratch_ok as existing st \<Longrightarrow> f \<in> la_id ` set as \<Longrightarrow> scratch_ok as existing (fold (offer_neighbour as existing f) scored st)"
  by (induction scored arbitrary: st) (simp_all add: scratch_ok_neighbour)

lemma scratch_ok_Nil: "scratch_ok as existing []"
  by (simp add: scratch_ok_def)

lemma embedding_sweep_ok:
  assumes "embedding_sweep as existing sim = Inr st" shows "scratch_ok as existing st"
proof -
  have step: "scratch_ok as existing st''" if "a \<in> set (sort_key la_id as)" "scratch_ok as existing st'"
    "(case sim (la_id a) EMBEDDING_TOP_K of Inl e \<Rightarrow> Inl e
      | Inr scored \<Rightarrow> Inr (fold (offer_neighbour as existing (la_id a)) scored st')) = Inr st''" for a st' st''
    using that by (cases "sim (la_id a) EMBEDDING_TOP_K") (auto simp: scratch_ok_neighbours)
  show ?thesis
    by (rule foldE_invariant [where I = "scratch_ok as existing", OF assms [unfolded embedding_sweep_def] scratch_ok_Nil step])
qed

lemma pair_signals_floor: "(name, score) \<in> set (pair_signals a b) \<Longrightarrow> signal_floor name \<le> score"
  by (auto simp: pair_signals_def signal_floor_def Let_def split: if_splits)

lemma fold_keeps: "(\<And>x s. x \<in> set xs \<Longrightarrow> P s \<Longrightarrow> P (f x s)) \<Longrightarrow> P s \<Longrightarrow> P (fold f xs s)"
  by (induction xs arbitrary: s) auto

lemma pair_sweep_ok:
  assumes "scratch_ok as existing st" "a \<in> set as"
  shows "scratch_ok as existing (pair_sweep as existing a b st)"
proof -
  have "scratch_ok as existing (fold (\<lambda>(name, score). offer_pair as existing (la_id a) (la_id b) name score) (pair_signals a b) st)"
  proof (rule fold_keeps)
    fix x st' assume x: "x \<in> set (pair_signals a b)" and ok: "scratch_ok as existing st'"
    have "signal_floor (fst x) \<le> snd x" using x pair_signals_floor [of "fst x" "snd x"] by simp
    then show "scratch_ok as existing ((case x of (name, score) \<Rightarrow> offer_pair as existing (la_id a) (la_id b) name score) st')"
      using ok assms(2) by (simp add: split_beta scratch_ok_offer)
  qed (rule assms(1))
  with assms(1) show ?thesis by (simp add: pair_sweep_def)
qed

lemma text_sweep_ok: "scratch_ok as existing st \<Longrightarrow> scratch_ok as existing (text_sweep as existing st)"
proof -
  assume st: "scratch_ok as existing st"
  have inner: "scratch_ok as existing (fold (pair_sweep as existing a) xs st')"
    if "a \<in> set as" "scratch_ok as existing st'" for a xs st'
    by (rule fold_keeps [where P = "scratch_ok as existing"]) (use that in \<open>simp_all add: pair_sweep_ok\<close>)
  have "scratch_ok as existing (fold (\<lambda>a. fold (pair_sweep as existing a) xs) ys st)" if "set ys \<subseteq> set as" for xs ys
    by (rule fold_keeps [where P = "scratch_ok as existing"]) (use that st inner in auto)
  then show ?thesis by (simp add: text_sweep_def Let_def)
qed

text \<open>A draft: a cross-domain pair with no live link, and at least one signal at its floor.\<close>

definition draft_ok :: "linkable list \<Rightarrow> uuid set set \<Rightarrow> candidate_draft \<Rightarrow> bool" where
  "draft_ok as existing d \<longleftrightarrow> pair_ok as existing (cd_from d, cd_to d) \<and> cd_signals d \<noteq> []
     \<and> (\<forall>(name, score) \<in> set (cd_signals d). signal_floor name \<le> score)"

definition cd_pair :: "candidate_draft \<Rightarrow> uuid \<times> uuid" where
  "cd_pair d = (cd_from d, cd_to d)"

lemma scratch_drafts_ok:
  assumes "scratch_ok as existing st"
  shows "d \<in> set (scratch_drafts st) \<Longrightarrow> draft_ok as existing d" "distinct (map cd_pair (scratch_drafts st))"
proof -
  have ne: "sort_key fst sg \<noteq> []" if "sg \<noteq> []" for sg :: "(string \<times> real) list"
    using that by (metis length_sort length_0_conv)
  show "d \<in> set (scratch_drafts st) \<Longrightarrow> draft_ok as existing d"
  proof -
    assume "d \<in> set (scratch_drafts st)"
    then obtain f t sg where sg: "((f, t), sg) \<in> set st" "sg \<noteq> []"
      and d: "d = \<lparr>cd_from = f, cd_to = t, cd_signals = sort_key fst sg, cd_bucket = recall_bucket (top_signal sg)\<rparr>"
      by (auto simp: scratch_drafts_def)
    with assms have "pair_ok as existing (f, t)" "signals_ok sg" by (auto simp: scratch_ok_def)
    then show ?thesis using ne [OF sg(2)] by (simp add: d draft_ok_def signals_ok_def)
  qed
  have "map cd_pair (scratch_drafts st) = map fst (filter (\<lambda>(_, sg). sg \<noteq> []) st)"
    by (simp add: scratch_drafts_def cd_pair_def split_beta comp_def)
  then show "distinct (map cd_pair (scratch_drafts st))"
    using assms by (simp add: scratch_ok_def dict_ok_def distinct_map_filter)
qed

section \<open>The bound\<close>

definition kept_candidates :: "candidate_draft list \<Rightarrow> candidate_draft list" where
  "kept_candidates ds = concat (map (\<lambda>f. take CANDIDATE_FAN_OUT_K (ranked_for ds f)) (sort (dict_fromkeys (map cd_from ds))))"

lemma bound_mset: "mset (bound_fan_out ds) = mset (kept_candidates ds)"
  by (simp add: bound_fan_out_def kept_candidates_def)

lemma ranked_from: "d \<in> set (take n (ranked_for ds f)) \<Longrightarrow> cd_from d = f \<and> d \<in> set ds"
  using set_take_subset [of n "ranked_for ds f"] by (auto simp: ranked_for_def)

lemma filter_ranked: "filter (\<lambda>d. cd_from d = f) (take n (ranked_for ds g)) = (if f = g then take n (ranked_for ds g) else [])"
  using ranked_from [of _ n ds g] by (auto simp: filter_id_conv filter_empty_conv)

lemma kept_for:
  "filter (\<lambda>d. cd_from d = f) (kept_candidates ds) =
     (if f \<in> cd_from ` set ds then take CANDIDATE_FAN_OUT_K (ranked_for ds f) else [])"
proof -
  have "filter (\<lambda>d. cd_from d = f) (concat (map (\<lambda>g. take n (ranked_for ds g)) gs)) =
      (if f \<in> set gs then take n (ranked_for ds f) else [])" if "distinct gs" for gs n
    using that by (induction gs) (auto simp: filter_ranked)
  from this [of "sort (dict_fromkeys (map cd_from ds))"] show ?thesis by (simp add: kept_candidates_def)
qed

lemma bound_for: "mset (filter (\<lambda>d. cd_from d = f) (bound_fan_out ds)) =
    mset (if f \<in> cd_from ` set ds then take CANDIDATE_FAN_OUT_K (ranked_for ds f) else [])"
  unfolding kept_for [symmetric] mset_filter bound_mset ..

lemma bound_fan_out_le: "length (filter (\<lambda>d. cd_from d = f) (bound_fan_out ds)) \<le> CANDIDATE_FAN_OUT_K"
  using mset_eq_length [OF bound_for, of f ds] by (simp split: if_splits)

lemma bound_length: "length (bound_fan_out ds) \<le> CANDIDATE_FAN_OUT_K * card (cd_from ` set ds)"
proof -
  have "length (concat (map (\<lambda>g. take n (ranked_for ds g)) gs)) \<le> n * length gs" for n gs
    by (induction gs) auto
  from this [of CANDIDATE_FAN_OUT_K "sort (dict_fromkeys (map cd_from ds))"]
  have "length (kept_candidates ds) \<le> CANDIDATE_FAN_OUT_K * length (dict_fromkeys (map cd_from ds))"
    by (simp add: kept_candidates_def)
  moreover have "length (dict_fromkeys (map cd_from ds)) = card (cd_from ` set ds)"
    using distinct_card [OF dict_fromkeys_distinct, of "map cd_from ds"] by simp
  ultimately show ?thesis using arg_cong [OF bound_mset, of size ds] by simp
qed

lemma bound_subset: "set (bound_fan_out ds) \<subseteq> set ds"
proof -
  have "set (bound_fan_out ds) = set (kept_candidates ds)" using bound_mset by (metis set_mset_mset)
  then show ?thesis by (auto simp: kept_candidates_def dest: ranked_from)
qed

lemma bound_distinct:
  assumes "distinct (map cd_pair ds)" shows "distinct (map cd_pair (bound_fan_out ds))"
proof -
  have d: "distinct (map cd_pair (take n (ranked_for ds f)))" for n f
  proof -
    have "distinct (map cd_pair (filter (\<lambda>d. cd_from d = f) ds))" using assms by (rule distinct_map_filter)
    then have "distinct (map cd_pair (ranked_for ds f))"
      by (simp add: ranked_for_def distinct_map)
    then show ?thesis by (simp add: take_map [symmetric])
  qed
  have "distinct (map cd_pair (concat (map (\<lambda>g. take n (ranked_for ds g)) gs)))" if "distinct gs" for gs n
    using that
  proof (induction gs)
    case (Cons g gs)
    have "cd_pair x \<noteq> cd_pair y" if "x \<in> set (take n (ranked_for ds g))" "h \<in> set gs" "y \<in> set (take n (ranked_for ds h))" for x y h
      using ranked_from [OF that(1)] ranked_from [OF that(3)] that(2) Cons.prems by (auto simp: cd_pair_def)
    then have "cd_pair ` set (take n (ranked_for ds g)) \<inter> cd_pair ` set (concat (map (\<lambda>g. take n (ranked_for ds g)) gs)) = {}"
      by (fastforce simp: disjoint_iff)
    with Cons d show ?case by (simp del: set_concat)
  qed simp
  then have "distinct (map cd_pair (kept_candidates ds))" by (simp add: kept_candidates_def)
  moreover have "mset (map cd_pair (bound_fan_out ds)) = mset (map cd_pair (kept_candidates ds))"
    by (simp add: bound_mset)
  ultimately show ?thesis by (metis mset_eq_imp_distinct_iff)
qed

text \<open>What the bound drops scores no higher than what it keeps for the same artifact.\<close>

lemma bound_keeps_best:
  assumes "d \<in> set ds" "d \<notin> set (bound_fan_out ds)" "d' \<in> set (bound_fan_out ds)" "cd_from d' = cd_from d"
  shows "cd_score d \<le> cd_score d'"
proof -
  let ?r = "ranked_for ds (cd_from d)" and ?K = CANDIDATE_FAN_OUT_K
  have s: "set (filter (\<lambda>x. cd_from x = cd_from d) (bound_fan_out ds)) = set (take ?K ?r)"
    using mset_eq_setD [OF bound_for [of "cd_from d" ds]] assms(1) by (simp del: set_filter)
  have "d' \<in> set (take ?K ?r)" using assms(3,4) unfolding s [symmetric] by simp
  moreover have "d \<notin> set (take ?K ?r)" using assms(2) unfolding s [symmetric] by simp
  moreover have "d \<in> set ?r" using assms(1) by (simp add: ranked_for_def)
  then have "d \<in> set (take ?K ?r) \<or> d \<in> set (drop ?K ?r)" by (metis append_take_drop_id set_append UnE)
  ultimately have m: "d' \<in> set (take ?K ?r)" "d \<in> set (drop ?K ?r)" by auto
  have "sorted (map (\<lambda>d. (- cd_score d, uuid_str (cd_to d))) (take ?K ?r @ drop ?K ?r))"
    by (simp add: ranked_for_def)
  then have "(- cd_score d', uuid_str (cd_to d')) \<le> (- cd_score d, uuid_str (cd_to d))"
    unfolding map_append sorted_append set_map using m by blast
  then show ?thesis by (auto simp: less_eq_prod_def)
qed

lemma generate_candidates_spec:
  assumes "generate_candidates similarity existing as = Inr ds"
  shows "\<And>d. d \<in> set ds \<Longrightarrow> draft_ok as existing d" "distinct (map cd_pair ds)"
    "length (filter (\<lambda>d. cd_from d = f) ds) \<le> CANDIDATE_FAN_OUT_K"
    "length ds \<le> CANDIDATE_FAN_OUT_K * length as"
proof -
  let ?start = "case similarity of None \<Rightarrow> Inr [] | Some sim \<Rightarrow> embedding_sweep as existing sim"
  obtain st where st: "?start = Inr st" and ds: "ds = bound_fan_out (scratch_drafts (text_sweep as existing st))"
    using assms by (auto simp: generate_candidates_def split: sum.splits)
  have ok: "scratch_ok as existing st"
    using st scratch_ok_Nil by (cases similarity) (auto intro: embedding_sweep_ok)
  note dr = scratch_drafts_ok [OF text_sweep_ok [OF ok]]
  show d: "draft_ok as existing d" if "d \<in> set ds" for d using that bound_subset dr(1) by (auto simp: ds)
  show "distinct (map cd_pair ds)" unfolding ds by (rule bound_distinct [OF dr(2)])
  show "length (filter (\<lambda>d. cd_from d = f) ds) \<le> CANDIDATE_FAN_OUT_K" unfolding ds by (rule bound_fan_out_le)
  let ?ds = "scratch_drafts (text_sweep as existing st)"
  have "cd_from ` set ?ds \<subseteq> la_id ` set as" using dr(1) by (auto simp: draft_ok_def pair_ok_def)
  then have "card (cd_from ` set ?ds) \<le> length as"
    by (meson card_image_le card_length card_mono finite_imageI finite_set order_trans)
  then show "length ds \<le> CANDIDATE_FAN_OUT_K * length as"
    unfolding ds using bound_length [of ?ds] by (meson mult_le_mono2 order_trans)
qed

section \<open>The audit table\<close>

definition candidate_ids_ok :: "kb \<Rightarrow> bool" where
  "candidate_ids_ok k \<longleftrightarrow> distinct (map cr_id (kb_candidates k)) \<and> inj (kb_uuids k)
     \<and> (\<forall>i \<ge> kb_drawn k. kb_uuids k i \<notin> cr_id ` set (kb_candidates k))"

type_synonym audit = "(uuid \<times> uuid) \<times> (string \<times> real) list \<times> string"

definition audit_of :: "candidate_row \<Rightarrow> audit" where
  "audit_of r = ((cr_from r, cr_to r), cr_signals r, cr_bucket r)"

definition audit_draft :: "candidate_draft \<Rightarrow> audit" where
  "audit_draft d = (cd_pair d, cd_signals d, cd_bucket d)"

text \<open>What the table says of one version, and its rows of the others.\<close>

definition audit_set :: "string \<Rightarrow> kb \<Rightarrow> audit set" where
  "audit_set version k = audit_of ` {r \<in> set (kb_candidates k). cr_version r = version}"

definition other_versions :: "string \<Rightarrow> kb \<Rightarrow> candidate_row list" where
  "other_versions version k = filter (\<lambda>r. cr_version r \<noteq> version) (kb_candidates k)"

lemma candidate_update_ids:
  assumes "candidate_ids_ok k" "\<And>r. cr_id (f r) = cr_id r"
  shows "candidate_ids_ok (k\<lparr>kb_candidates := update_where p f (kb_candidates k)\<rparr>)"
proof -
  have m: "map cr_id (update_where p f (kb_candidates k)) = map cr_id (kb_candidates k)"
    using assms(2) by (rule map_update_where)
  then have "cr_id ` set (update_where p f (kb_candidates k)) = cr_id ` set (kb_candidates k)"
    unfolding set_map [symmetric] by simp
  with m assms(1) show ?thesis by (simp add: candidate_ids_ok_def)
qed

lemma candidate_append_ids:
  assumes ok: "candidate_ids_ok k" and "gen_random_uuid k = (u, k1)" "cr_id r = u"
  shows "candidate_ids_ok (k1\<lparr>kb_candidates := kb_candidates k1 @ [r]\<rparr>)"
proof -
  have u: "u = kb_uuids k (kb_drawn k)" and k1: "k1 = k\<lparr>kb_drawn := Suc (kb_drawn k)\<rparr>"
    using assms(2) by (auto simp: gen_random_uuid_def)
  have new: "kb_uuids k i \<noteq> u" if "Suc (kb_drawn k) \<le> i" for i
    using that ok unfolding u candidate_ids_ok_def by (metis injD not_less_eq_eq order_refl)
  have "kb_uuids k i \<notin> cr_id ` set (kb_candidates k)" if "kb_drawn k \<le> i" for i
    using that ok by (simp add: candidate_ids_ok_def)
  then show ?thesis using ok assms(3) new by (auto simp: candidate_ids_ok_def k1 u dest: Suc_leD)
qed

lemma upsert_candidate_ids: "candidate_ids_ok k \<Longrightarrow> candidate_ids_ok (snd (upsert_candidate v d k))"
  by (simp add: upsert_candidate_def candidate_update_ids candidate_append_ids [OF _ prod.collapse [symmetric]] split_beta)

lemma filter_update_off:
  "(\<And>r. p r \<Longrightarrow> \<not> q r \<and> \<not> q (f r)) \<Longrightarrow> filter q (update_where p f rows) = filter q rows"
  by (induction rows) auto

lemma upsert_candidate_others: "other_versions v (snd (upsert_candidate v d k)) = other_versions v k"
  by (auto simp: other_versions_def upsert_candidate_def gen_random_uuid_def same_candidate_def split_beta
      intro!: filter_update_off)

lemma upsert_candidate_audit:
  "audit_set v (snd (upsert_candidate v d k)) = insert (audit_draft d) {x \<in> audit_set v k. fst x \<noteq> cd_pair d}"
proof (rule set_eqI)
  fix x
  let ?c = "same_candidate v d" and ?f = "\<lambda>r. r\<lparr>cr_signals := cd_signals d, cr_bucket := cd_bucket d\<rparr>"
  have c: "?c r \<longleftrightarrow> cr_version r = v \<and> fst (audit_of r) = cd_pair d" for r
    by (auto simp: same_candidate_def audit_of_def cd_pair_def)
  have f: "audit_of (?f r) = audit_draft d" if "?c r" for r
    using that by (simp add: same_candidate_def audit_of_def audit_draft_def cd_pair_def)
  have in_audit: "y \<in> audit_set v k' \<longleftrightarrow> (\<exists>r \<in> set (kb_candidates k'). cr_version r = v \<and> audit_of r = y)" for y k'
    by (auto simp: audit_set_def)
  show "x \<in> audit_set v (snd (upsert_candidate v d k)) \<longleftrightarrow> x \<in> insert (audit_draft d) {x \<in> audit_set v k. fst x \<noteq> cd_pair d}"
  proof (cases "list_ex ?c (kb_candidates k)")
    case True
    then obtain r0 where r0: "r0 \<in> set (kb_candidates k)" "?c r0" by (auto simp: list_ex_iff)
    have g: "(cr_version (if ?c r then ?f r else r) = v \<and> audit_of (if ?c r then ?f r else r) = x) \<longleftrightarrow>
        (?c r \<and> x = audit_draft d) \<or> (cr_version r = v \<and> audit_of r = x \<and> fst x \<noteq> cd_pair d)" for r
      using f [of r] c [of r] by auto
    have "x \<in> audit_set v (snd (upsert_candidate v d k)) \<longleftrightarrow> (\<exists>r \<in> set (kb_candidates k).
        (?c r \<and> x = audit_draft d) \<or> (cr_version r = v \<and> audit_of r = x \<and> fst x \<noteq> cd_pair d))"
      using True by (simp add: in_audit upsert_candidate_def bex_update_where g del: if_split)
    then show ?thesis using r0 by (auto simp: in_audit)
  next
    case False
    then have nc: "cr_version r \<noteq> v \<or> fst (audit_of r) \<noteq> cd_pair d" if "r \<in> set (kb_candidates k)" for r
      using that by (auto simp: list_ex_iff c)
    let ?new = "\<lparr>cr_id = kb_uuids k (kb_drawn k), cr_from = cd_from d, cr_to = cd_to d, cr_signals = cd_signals d,
      cr_bucket = cd_bucket d, cr_version = v\<rparr>"
    have "snd (upsert_candidate v d k) = k\<lparr>kb_drawn := Suc (kb_drawn k), kb_candidates := kb_candidates k @ [?new]\<rparr>"
      using False by (simp add: upsert_candidate_def gen_random_uuid_def)
    moreover have "audit_of ?new = audit_draft d" by (simp add: audit_of_def audit_draft_def cd_pair_def)
    ultimately have "x \<in> audit_set v (snd (upsert_candidate v d k)) \<longleftrightarrow> x = audit_draft d \<or> x \<in> audit_set v k"
      by (auto simp: in_audit)
    moreover have "fst x \<noteq> cd_pair d" if "x \<in> audit_set v k" using that nc unfolding in_audit by blast
    ultimately show ?thesis by blast
  qed
qed

lemma upsert_candidates_fold:
  "snd (snd (upsert_candidates v ds k)) = fold (\<lambda>d k. snd (upsert_candidate v d k)) ds k"
proof (induction ds arbitrary: k)
  case (Cons d ds)
  show ?case by (simp add: split_beta Let_def Cons [symmetric])
qed simp

lemma upserts_audit:
  assumes "distinct (map cd_pair ds)"
  shows "audit_set v (fold (\<lambda>d k. snd (upsert_candidate v d k)) ds k)
    = audit_draft ` set ds \<union> {x \<in> audit_set v k. fst x \<notin> cd_pair ` set ds}"
  using assms
proof (induction ds arbitrary: k)
  case (Cons d ds)
  have "fst (audit_draft d) \<notin> cd_pair ` set ds" using Cons.prems by (simp add: audit_draft_def)
  then show ?case using Cons by (auto simp: upsert_candidate_audit)
qed simp

lemma upserts_keep:
  "candidate_ids_ok k \<Longrightarrow> candidate_ids_ok (fold (\<lambda>d k. snd (upsert_candidate v d k)) ds k)"
  "other_versions v (fold (\<lambda>d k. snd (upsert_candidate v d k)) ds k) = other_versions v k"
  by (induction ds arbitrary: k) (simp_all add: upsert_candidate_ids upsert_candidate_others)

lemma prune_rows:
  assumes "candidate_ids_ok k"
  shows "kb_candidates (snd (prune_stale v produced k)) =
    filter (\<lambda>r. cr_version r \<noteq> v \<or> (cr_from r, cr_to r) \<in> produced) (kb_candidates k)"
proof -
  have "cr_id r \<in> cr_id ` {r \<in> set (kb_candidates k). cr_version r = v \<and> (cr_from r, cr_to r) \<notin> produced}
      \<longleftrightarrow> cr_version r = v \<and> (cr_from r, cr_to r) \<notin> produced" if "r \<in> set (kb_candidates k)" for r
    using that key_unique [of cr_id "kb_candidates k"] assms by (auto simp: candidate_ids_ok_def)
  then show ?thesis by (auto simp: prune_stale_def Let_def intro: filter_cong)
qed

text \<open>After a run, the rows of the version are the drafts, and the other versions keep theirs.\<close>

lemma run_candidate_generator_spec:
  assumes "candidate_ids_ok k" and "run_candidate_generator v sim k = (Inr c, k')"
  obtains ds where "generate_candidates sim (live_linker_pairs k) (load_linkable_artifacts k) = Inr ds"
    "audit_set v k' = audit_draft ` set ds" "other_versions v k' = other_versions v k"
proof -
  obtain ds where ds: "generate_candidates sim (live_linker_pairs k) (load_linkable_artifacts k) = Inr ds"
    using assms(2) by (auto simp: run_candidate_generator_def split: sum.splits)
  let ?k1 = "fold (\<lambda>d k. snd (upsert_candidate v d k)) ds k" and ?p = "cd_pair ` set ds"
  have p: "?p = (\<lambda>d. (cd_from d, cd_to d)) ` set ds" by (simp add: cd_pair_def)
  have k': "k' = snd (prune_stale v ?p ?k1)"
    using assms(2) ds unfolding p by (simp add: run_candidate_generator_def upsert_candidates_fold [symmetric] split_beta Let_def)
  note rows = prune_rows [OF upserts_keep(1) [OF assms(1)], of v ?p v ds, folded k']
  have "audit_set v k' = {x \<in> audit_set v ?k1. fst x \<in> ?p}"
    unfolding audit_set_def rows by (auto simp: audit_of_def)
  also have "\<dots> = audit_draft ` set ds"
    unfolding upserts_audit [OF generate_candidates_spec(2) [OF ds]] by (auto simp: audit_draft_def)
  finally have "audit_set v k' = audit_draft ` set ds" .
  moreover have "other_versions v k' = other_versions v ?k1" by (auto simp: other_versions_def rows intro: filter_cong)
  then have "other_versions v k' = other_versions v k" by (simp add: upserts_keep(2))
  ultimately show thesis using ds that by blast
qed

text \<open>The generator never writes an edge.\<close>

lemma candidates_write_no_edge: "kb_edges (snd (run_candidate_generator v sim k)) = kb_edges k"
proof -
  have "kb_edges (fold (\<lambda>d k. snd (upsert_candidate v d k)) ds k) = kb_edges k" for ds
    by (induction ds arbitrary: k) (simp_all add: upsert_candidate_def gen_random_uuid_def split_beta)
  then show ?thesis
    by (simp add: run_candidate_generator_def upsert_candidates_fold [symmetric] split_beta Let_def prune_stale_def split: sum.splits)
qed

end
