(* ===== verification/AliasMining.thy ===== *)
theory AliasMining
  imports Candidates ClaimLedger
begin

text \<open>
  Alias phrases (\<open>alias/mining.py\<close>, \<open>alias/resolve.py\<close>): what a commit subject or a document name
  contributes, the aggregation over sources, and the resolution of a query. A set of targets is a list that is
  sorted and freed of duplicates where the code does so.
\<close>

section \<open>Tokens\<close>

definition CONVENTIONAL_TYPES :: "string set" where
  "CONVENTIONAL_TYPES = {''build'', ''chore'', ''ci'', ''docs'', ''feat'', ''fix'', ''perf'', ''refactor'',
     ''revert'', ''style'', ''test''}"

definition STOPWORDS :: "string list" where
  "STOPWORDS = [
     ''a'', ''an'', ''the'', ''and'', ''or'', ''nor'', ''not'', ''no'', ''is'', ''are'', ''was'', ''were'',
     ''be'', ''been'', ''being'', ''am'', ''do'', ''does'', ''did'', ''done'', ''of'', ''in'', ''on'',
     ''at'', ''to'', ''for'', ''with'', ''from'', ''by'', ''as'', ''into'', ''onto'', ''over'', ''under'',
     ''after'', ''before'', ''against'', ''between'', ''during'', ''without'', ''within'', ''about'',
     ''above'', ''below'', ''out'', ''off'', ''up'', ''down'', ''again'', ''further'', ''it'', ''its'',
     ''this'', ''that'', ''these'', ''those'', ''there'', ''here'', ''so'', ''such'', ''both'', ''each'',
     ''few'', ''more'', ''most'', ''other'', ''some'', ''own'', ''same'', ''too'', ''very'', ''than'',
     ''then'', ''when'', ''where'', ''which'', ''who'', ''whom'', ''whose'', ''why'', ''how'', ''what'',
     ''while'', ''can'', ''could'', ''should'', ''would'', ''may'', ''might'', ''must'', ''will'',
     ''shall'', ''have'', ''has'', ''had'', ''having'', ''we'', ''our'', ''ours'', ''you'', ''your'',
     ''yours'', ''i'', ''he'', ''she'', ''they'', ''them'', ''their'', ''his'', ''her'', ''also'',
     ''just'', ''only'', ''ever'', ''never'', ''per'', ''via'']"

definition lower_alnum :: "char \<Rightarrow> bool" where
  "lower_alnum c \<longleftrightarrow> digit c \<or> (97 \<le> code c \<and> code c \<le> 122)"

text \<open>\<open>_NON_ALNUM.split\<close>, without the empty pieces.\<close>

fun alnum_go :: "string \<Rightarrow> string \<Rightarrow> string list" where
  "alnum_go cur [] = (if cur = [] then [] else [rev cur])"
| "alnum_go cur (c # cs) =
     (if lower_alnum c then alnum_go (c # cur) cs else if cur = [] then alnum_go [] cs else rev cur # alnum_go [] cs)"

definition tokenize :: "string \<Rightarrow> string list" where
  "tokenize s = filter (\<lambda>t. 2 \<le> length t) (alnum_go [] (py_lower s))"

definition stopword :: "string \<Rightarrow> bool" where
  "stopword t \<longleftrightarrow> t \<in> set STOPWORDS"

definition normalize_phrase :: "string \<Rightarrow> string" where
  "normalize_phrase s = py_join '' '' (filter (\<lambda>t. \<not> stopword t) (tokenize s))"

definition phrase_variants :: "string \<Rightarrow> string list" where
  "phrase_variants phrase =
     (let ts = py_split phrase in if length ts < 2 then [] else [py_join ''-'' ts, py_join ''_'' ts])"

section \<open>Subjects and document names\<close>

text \<open>\<open>\s*(?P<desc>.+)$\<close> after the colon, stripped.\<close>

definition subject_desc :: "string \<Rightarrow> string option" where
  "subject_desc r =
     (let r' = dropWhile py_space r in
      if r' \<noteq> [] then
        (let line = takeWhile (\<lambda>c. c \<noteq> CHR 0x0A) r'; rest = drop (length line) r'
         in if rest = [] \<or> rest = [CHR 0x0A] then Some (py_strip line) else None)
      else (let b = (if r \<noteq> [] \<and> last r = CHR 0x0A then butlast r else r)
            in if b \<noteq> [] \<and> last b \<noteq> CHR 0x0A then Some [] else None))"

definition ascii_letter :: "char \<Rightarrow> bool" where
  "ascii_letter c \<longleftrightarrow> (65 \<le> code c \<and> code c \<le> 90) \<or> (97 \<le> code c \<and> code c \<le> 122)"

definition lead_char :: "char \<Rightarrow> bool" where
  "lead_char c \<longleftrightarrow> word_char c \<or> c \<in> {CHR ''.'', CHR ''/'', CHR ''-''}"

text \<open>The optional \<open>(scope)\<close>, then \<open>!?:\<close>.\<close>

definition subject_scope :: "string \<Rightarrow> string option \<times> string" where
  "subject_scope r = (case r of
     c # cs \<Rightarrow> if c = CHR ''('' \<and> CHR '')'' \<in> set cs
                then (let sc = takeWhile (\<lambda>c. c \<noteq> CHR '')'') cs in (Some sc, drop (Suc (length sc)) cs)) else (None, r)
   | [] \<Rightarrow> (None, r))"

definition after_colon :: "string \<Rightarrow> string option" where
  "after_colon r = (case (case r of c # cs \<Rightarrow> if c = CHR ''!'' then cs else r | [] \<Rightarrow> r) of
     c # cs \<Rightarrow> if c = CHR '':'' then Some cs else None | [] \<Rightarrow> None)"

definition match_subject :: "string \<Rightarrow> (string \<times> string option \<times> string) option" where
  "match_subject s =
     (case dropWhile py_space s of
        [] \<Rightarrow> None
      | c # cs \<Rightarrow>
          if \<not> ascii_letter c then None
          else (let lead = c # takeWhile lead_char cs; (scope, r) = subject_scope (dropWhile lead_char cs)
                in case after_colon r of None \<Rightarrow> None
                   | Some r' \<Rightarrow> map_option (\<lambda>d. (lead, scope, d)) (subject_desc r')))"

definition parse_subject_label :: "string \<Rightarrow> string option \<times> string" where
  "parse_subject_label subj =
     (case match_subject subj of
        None \<Rightarrow> (None, py_strip subj)
      | Some (lead, scope, d) \<Rightarrow>
          (let sc = (case scope of Some (c # cs) \<Rightarrow> Some (c # cs) | _ \<Rightarrow> None)
           in if py_lower lead \<in> CONVENTIONAL_TYPES then (sc, d)
              else (Some (case sc of Some x \<Rightarrow> x | None \<Rightarrow> lead), d)))"

definition NGRAM_MIN :: nat where "NGRAM_MIN = 2"
definition NGRAM_MAX :: nat where "NGRAM_MAX = 4"
definition MIN_SLUG_TOKENS :: nat where "MIN_SLUG_TOKENS = 2"
definition MAX_BODY_TARGETS :: nat where "MAX_BODY_TARGETS = 50"

text \<open>The runs of tokens between stopwords.\<close>

fun token_windows :: "string list \<Rightarrow> string list list" where
  "token_windows [] = [[]]"
| "token_windows (t # ts) =
     (if stopword t then [] # token_windows ts
      else (case token_windows ts of [] \<Rightarrow> [[t]] | r # rs \<Rightarrow> (t # r) # rs))"

definition ngrams_of :: "string list \<Rightarrow> string list" where
  "ngrams_of run = concat (map (\<lambda>size. map (\<lambda>start. py_join '' '' (take size (drop start run)))
     [0 ..< length run + 1 - size]) [NGRAM_MIN ..< NGRAM_MAX + 1])"

definition ngram_phrases :: "string \<Rightarrow> string list" where
  "ngram_phrases description = concat (map ngrams_of (token_windows (tokenize description)))"

definition doc_slug_phrase :: "string \<Rightarrow> string option" where
  "doc_slug_phrase path =
     (let filename = after_last CHR ''/'' path in
      if \<not> suffix ''.md'' (py_lower filename) then None
      else (let ts = dropWhile (\<lambda>t. list_all digit t \<or> t = ''pr'' \<or> t = ''adr'')
                       (tokenize (take (length filename - 3) filename));
                words = filter (\<lambda>t. \<not> stopword t) ts;
                phrase = py_join '' '' words
            in if length (py_split phrase) < MIN_SLUG_TOKENS then None else Some phrase))"

section \<open>Mining one source\<close>

record mined_phrase =
  mp_phrase :: string
  mp_targets :: "string list"

text \<open>\<open>_merge\<close> over the pairs, then the two sorts.\<close>

definition collect_phrases :: "(string \<times> string) list \<Rightarrow> mined_phrase list" where
  "collect_phrases pairs = map (\<lambda>p. \<lparr>mp_phrase = p, mp_targets = sorted_set (map snd (filter (\<lambda>x. fst x = p) pairs))\<rparr>)
     (sorted_set (map fst pairs))"

definition commit_pairs :: "string \<Rightarrow> string list \<Rightarrow> (string \<times> string) list" where
  "commit_pairs subj files =
     (let (scope, description) = parse_subject_label subj;
          names = (case scope of Some s \<Rightarrow> [normalize_phrase s] | None \<Rightarrow> []) @ ngram_phrases description
      in concat (map (\<lambda>p. if p = [] then [] else map (Pair p) files) names)
         @ concat (map (\<lambda>path. if prefix ''docs/'' path then
             (case doc_slug_phrase path of Some slug \<Rightarrow> [(slug, path)] | None \<Rightarrow> []) else []) files))"

definition mine_commit :: "string \<Rightarrow> string list \<Rightarrow> mined_phrase list" where
  "mine_commit subj paths = collect_phrases (commit_pairs subj (sorted_set paths))"

definition mine_doc_source :: "string \<Rightarrow> mined_phrase list" where
  "mine_doc_source path = (case doc_slug_phrase path of None \<Rightarrow> [] | Some slug \<Rightarrow> [\<lparr>mp_phrase = slug, mp_targets = [path]\<rparr>])"

section \<open>Aggregation\<close>

record contribution =
  sc_source :: string
  sc_ref :: string
  sc_hash :: string
  sc_phrases :: "mined_phrase list"

definition mined_test_path :: "string \<Rightarrow> bool" where
  "mined_test_path path \<longleftrightarrow> py_in ''/tests/'' (''/'' @ path) \<or> prefix ''test_'' (after_last CHR ''/'' path)"

definition name_overlap :: "string \<Rightarrow> string \<Rightarrow> nat" where
  "name_overlap phrase path = card (set (tokenize (after_last CHR ''/'' path)) \<inter> set (py_split phrase))"

record alias_aggregate =
  ag_phrase :: string
  ag_confirmations :: nat
  ag_targets :: "(string \<times> nat) list"
  ag_evidence :: "(string \<times> string \<times> string \<times> string list) list"

definition phrase_entries :: "contribution list \<Rightarrow> (string \<times> contribution \<times> string list) list" where
  "phrase_entries cs = concat (map (\<lambda>c. map (\<lambda>m. (mp_phrase m, c, mp_targets m)) (sc_phrases c)) cs)"

definition count_paths :: "string list \<Rightarrow> (string, nat) dict" where
  "count_paths ps = foldl (\<lambda>d p. AList.update p (Suc (case map_of d p of Some n \<Rightarrow> n | None \<Rightarrow> 0)) d) [] ps"

definition aggregate_of :: "string \<Rightarrow> (contribution \<times> string list) list \<Rightarrow> alias_aggregate" where
  "aggregate_of phrase entries = \<lparr>ag_phrase = phrase, ag_confirmations = length entries,
     ag_targets = take MAX_BODY_TARGETS (sort_key (\<lambda>(p, n). (- int n, mined_test_path p, - int (name_overlap phrase p), p))
       (count_paths (concat (map snd entries)))),
     ag_evidence = sort (map (\<lambda>(c, ts). (sc_source c, sc_ref c, sc_hash c, ts)) entries)\<rparr>"

definition aggregate_contributions :: "contribution list \<Rightarrow> alias_aggregate list" where
  "aggregate_contributions cs =
     (let es = phrase_entries cs
      in map (\<lambda>p. aggregate_of p (map snd (filter (\<lambda>e. fst e = p) es))) (sorted_set (map fst es)))"

section \<open>Resolution (resolve.py)\<close>

definition MIN_FUZZY_SCORE :: real where "MIN_FUZZY_SCORE = 3 / 10"

record alias_entry =
  ae_alias :: string
  ae_targets :: "string list"
  ae_confirmations :: int

record resolution =
  rs_alias :: string
  rs_score :: real
  rs_exact :: bool
  rs_targets :: "string list"

definition jaccard :: "string list \<Rightarrow> string list \<Rightarrow> real" where
  "jaccard a b = real (card (set a \<inter> set b)) / real (card (set a \<union> set b))"

definition beats :: "real \<times> int \<times> string \<Rightarrow> (real \<times> int \<times> string) option \<Rightarrow> bool" where
  "beats key best = (case best of None \<Rightarrow> True
     | Some b \<Rightarrow> (fst key, fst (snd key)) > (fst b, fst (snd b))
         \<or> (fst key, fst (snd key)) = (fst b, fst (snd b)) \<and> snd (snd key) < snd (snd b))"

fun resolve_go :: "string \<Rightarrow> string list \<Rightarrow> alias_entry list \<Rightarrow> ((real \<times> int \<times> string) \<times> alias_entry) option \<Rightarrow> resolution option" where
  "resolve_go nq qs [] best =
     (case best of None \<Rightarrow> None
      | Some (key, e) \<Rightarrow> Some \<lparr>rs_alias = ae_alias e, rs_score = fst key, rs_exact = False, rs_targets = ae_targets e\<rparr>)"
| "resolve_go nq qs (e # es) best =
     (if ae_alias e = nq
      then Some \<lparr>rs_alias = ae_alias e, rs_score = 1, rs_exact = True, rs_targets = ae_targets e\<rparr>
      else (let ts = py_split (ae_alias e); score = jaccard qs ts; key = (score, ae_confirmations e, ae_alias e) in
        if qs = [] \<and> ts = [] \<or> score < MIN_FUZZY_SCORE then resolve_go nq qs es best
        else if beats key (map_option fst best) then resolve_go nq qs es (Some (key, e))
        else resolve_go nq qs es best))"

definition resolve_alias :: "string \<Rightarrow> alias_entry list \<Rightarrow> resolution option" where
  "resolve_alias query es =
     (let nq = normalize_phrase query in if nq = [] then None else resolve_go nq (py_split nq) es None)"

section \<open>Phrases are in normal form\<close>

definition plain_word :: "string \<Rightarrow> bool" where
  "plain_word w \<longleftrightarrow> 2 \<le> length w \<and> (\<forall>c \<in> set w. lower_alnum c)"

definition alias_phrase :: "string \<Rightarrow> bool" where
  "alias_phrase p \<longleftrightarrow> (\<exists>ws. ws \<noteq> [] \<and> (\<forall>w \<in> set ws. plain_word w \<and> \<not> stopword w) \<and> p = py_join '' '' ws)"

definition blank_out :: "char \<Rightarrow> char" where
  "blank_out c = (if lower_alnum c then c else CHR '' '')"

lemma lower_alnum_props:
  "lower_alnum c \<Longrightarrow> \<not> py_space c \<and> lower_char c = c \<and> blank_out c = c"
  by (auto simp: lower_alnum_def digit_def py_space_def lower_char_def blank_out_def Let_def)

lemma space_props: "py_space CHR '' ''" "lower_char CHR '' '' = CHR '' ''" "blank_out CHR '' '' = CHR '' ''"
  by (simp_all add: py_space_def lower_char_def blank_out_def Let_def)

lemma alnum_split: "alnum_go cur s = split_go cur (map blank_out s)"
proof (induction cur s rule: alnum_go.induct)
  case (2 cur c cs)
  then show ?case by (cases "lower_alnum c") (simp_all add: lower_alnum_props blank_out_def space_props)
qed simp

lemma tokenize_words: "t \<in> set (tokenize s) \<Longrightarrow> plain_word t"
proof -
  have "c \<in> set t \<Longrightarrow> lower_alnum c" if "t \<in> set (alnum_go cur s)" "\<forall>c \<in> set cur. lower_alnum c" for t cur s c
    using that by (induction cur s rule: alnum_go.induct) (auto split: if_splits)
  from this [of t "[]"] show "t \<in> set (tokenize s) \<Longrightarrow> plain_word t" by (auto simp: tokenize_def plain_word_def)
qed

lemma join_chars: "c \<in> set (py_join '' '' ws) \<Longrightarrow> c = CHR '' '' \<or> (\<exists>w \<in> set ws. c \<in> set w)"
  by (induction "'' ''" ws rule: py_join.induct) auto

lemma py_split_plain: "\<forall>w \<in> set ws. plain_word w \<Longrightarrow> py_split (py_join '' '' ws) = ws"
  by (rule py_split_join) (auto simp: plain_word_def lower_alnum_props)

lemma tokenize_join:
  assumes "\<forall>w \<in> set ws. plain_word w" shows "tokenize (py_join '' '' ws) = ws"
proof -
  let ?s = "py_join '' '' ws"
  have "lower_char c = c \<and> blank_out c = c" if "c \<in> set ?s" for c
    using join_chars [OF that] assms by (auto simp: plain_word_def lower_alnum_props space_props)
  then have "map blank_out (py_lower ?s) = ?s" by (simp add: py_lower_def comp_def map_idI)
  then have "alnum_go [] (py_lower ?s) = ws" by (simp add: alnum_split py_split_plain [OF assms, unfolded py_split_def])
  then show ?thesis using assms by (auto simp: tokenize_def plain_word_def filter_id_conv)
qed

lemma normalize_alias: "alias_phrase p \<Longrightarrow> normalize_phrase p = p"
  by (auto simp: alias_phrase_def normalize_phrase_def tokenize_join filter_id_conv)

lemma join_nonempty: "ws \<noteq> [] \<Longrightarrow> \<forall>w \<in> set ws. w \<noteq> [] \<Longrightarrow> py_join sep ws \<noteq> []"
  by (induction sep ws rule: py_join.induct) auto

lemma alias_phrase_nonempty: "alias_phrase p \<Longrightarrow> p \<noteq> []"
proof -
  assume "alias_phrase p"
  then obtain ws where "ws \<noteq> []" "\<forall>w \<in> set ws. plain_word w" "p = py_join '' '' ws" by (auto simp: alias_phrase_def)
  then show "p \<noteq> []" using join_nonempty [of ws "'' ''"] by (force simp: plain_word_def)
qed

lemma normalize_phrase_alias: "normalize_phrase s \<noteq> [] \<Longrightarrow> alias_phrase (normalize_phrase s)"
  unfolding alias_phrase_def normalize_phrase_def
  by (rule exI [of _ "filter (\<lambda>t. \<not> stopword t) (tokenize s)"]) (auto dest: tokenize_words)

lemma windows_words:
  "r \<in> set (token_windows ts) \<Longrightarrow> w \<in> set r \<Longrightarrow> w \<in> set ts \<and> \<not> stopword w"
proof (induction ts arbitrary: r)
  case (Cons t ts)
  show ?case
  proof (cases "stopword t \<or> token_windows ts = []")
    case True
    with Cons show ?thesis by (cases "stopword t") (auto simp: Cons.IH)
  next
    case False
    then obtain x xs where x: "token_windows ts = x # xs" by (cases "token_windows ts") auto
    have "w \<in> set x \<Longrightarrow> w \<in> set ts \<and> \<not> stopword w" using Cons.IH [of x] x by simp
    moreover have "w \<in> set ts \<and> \<not> stopword w" if "x' \<in> set xs" "w \<in> set x'" for x' using Cons.IH [of x'] x that by simp
    ultimately show ?thesis using Cons.prems False x by auto
  qed
qed simp

lemma ngram_phrases_alias: "p \<in> set (ngram_phrases s) \<Longrightarrow> alias_phrase p"
proof -
  assume "p \<in> set (ngram_phrases s)"
  then obtain r size start where r: "r \<in> set (token_windows (tokenize s))" "2 \<le> size" "start < length r + 1 - size"
    "p = py_join '' '' (take size (drop start r))"
    by (auto simp: ngram_phrases_def ngrams_of_def NGRAM_MIN_def)
  have "take size (drop start r) \<noteq> []" using r(2,3) by auto
  moreover have "set (take size (drop start r)) \<subseteq> set r" by (meson set_drop_subset set_take_subset subset_trans)
  then have "\<forall>w \<in> set (take size (drop start r)). plain_word w \<and> \<not> stopword w"
    using windows_words [OF r(1)] tokenize_words by blast
  ultimately show ?thesis using r(4) unfolding alias_phrase_def by blast
qed

lemma doc_slug_alias: "doc_slug_phrase path = Some p \<Longrightarrow> alias_phrase p"
proof -
  assume a: "doc_slug_phrase path = Some p"
  define ts where "ts = dropWhile (\<lambda>t. list_all digit t \<or> t = ''pr'' \<or> t = ''adr'')
    (tokenize (take (length (after_last CHR ''/'' path) - 3) (after_last CHR ''/'' path)))"
  define ws where "ws = filter (\<lambda>t. \<not> stopword t) ts"
  have p: "p = py_join '' '' ws" "length (py_split p) \<ge> 2"
    using a by (auto simp: doc_slug_phrase_def Let_def ws_def ts_def MIN_SLUG_TOKENS_def split: if_splits)
  have "\<forall>w \<in> set ws. plain_word w \<and> \<not> stopword w"
    by (auto simp: ws_def ts_def dest!: set_dropWhileD intro: tokenize_words)
  moreover have "ws \<noteq> []" using p by (auto simp: py_split_def)
  ultimately show ?thesis unfolding alias_phrase_def using p(1) by blast
qed

lemma in_collect: "m \<in> set (collect_phrases pairs) \<Longrightarrow>
    mp_phrase m \<in> fst ` set pairs \<and> distinct (mp_targets m) \<and> (\<forall>t \<in> set (mp_targets m). (mp_phrase m, t) \<in> set pairs)"
  by (force simp: collect_phrases_def sorted_set_def)

lemma commit_pairs_alias: "(p, t) \<in> set (commit_pairs subj files) \<Longrightarrow> alias_phrase p \<and> t \<in> set files"
  by (auto simp: commit_pairs_def split_beta Let_def dest: ngram_phrases_alias doc_slug_alias [OF sym] doc_slug_alias
      normalize_phrase_alias split: if_splits option.splits)

lemma mine_commit_alias:
  assumes "m \<in> set (mine_commit subj paths)"
  shows "alias_phrase (mp_phrase m)" "distinct (mp_targets m)" "set (mp_targets m) \<subseteq> set paths"
  using in_collect [OF assms [unfolded mine_commit_def]] commit_pairs_alias
  by (fastforce simp: sorted_set_def)+

section \<open>A mined phrase resolves to itself\<close>

lemma resolve_go_exact:
  "e \<in> set es \<Longrightarrow> ae_alias e = nq \<Longrightarrow> \<exists>r. resolve_go nq qs es best = Some r \<and> rs_alias r = nq \<and> rs_exact r
     \<and> (\<exists>e' \<in> set es. ae_alias e' = nq \<and> rs_targets r = ae_targets e')"
proof (induction es arbitrary: best)
  case (Cons x es)
  show ?case
  proof (cases "ae_alias x = nq")
    case False
    with Cons.prems have "e \<in> set es" by auto
    from Cons.IH [OF this Cons.prems(2)] False show ?thesis by (simp add: Let_def)
  qed (simp add: bexI)
qed simp

lemma resolve_alias_mined:
  assumes "alias_phrase p" "e \<in> set es" "ae_alias e = p"
  obtains r where "resolve_alias p es = Some r" "rs_exact r" "rs_alias r = p"
  using resolve_go_exact [OF assms(2,3), of "py_split p" None] normalize_alias [OF assms(1)] alias_phrase_nonempty [OF assms(1)]
  by (auto simp: resolve_alias_def)

text \<open>A guess is never below the floor, and no entry scores higher.\<close>

lemma resolve_go_guess:
  assumes "resolve_go nq qs es best = Some r" "\<not> rs_exact r"
    and "\<And>key e. best = Some (key, e) \<Longrightarrow> MIN_FUZZY_SCORE \<le> fst key"
  shows "MIN_FUZZY_SCORE \<le> rs_score r \<and> (\<forall>key e. best = Some (key, e) \<longrightarrow> fst key \<le> rs_score r)
    \<and> (\<forall>e \<in> set es. jaccard qs (py_split (ae_alias e)) \<le> rs_score r)"
  using assms
proof (induction es arbitrary: best)
  case Nil
  then show ?case by (auto split: option.splits prod.splits)
next
  case (Cons e es)
  let ?ts = "py_split (ae_alias e)" and ?s = "jaccard qs (py_split (ae_alias e))"
  let ?key = "(?s, ae_confirmations e, ae_alias e)"
  have ne: "ae_alias e \<noteq> nq" using Cons.prems(1,2) by (auto split: if_splits)
  have min: "0 \<le> MIN_FUZZY_SCORE" by (simp add: MIN_FUZZY_SCORE_def)
  consider (low) "qs = [] \<and> ?ts = [] \<or> ?s < MIN_FUZZY_SCORE"
    | (win) "\<not> (qs = [] \<and> ?ts = [] \<or> ?s < MIN_FUZZY_SCORE)" "beats ?key (map_option fst best)"
    | (lose) "\<not> (qs = [] \<and> ?ts = [] \<or> ?s < MIN_FUZZY_SCORE)" "\<not> beats ?key (map_option fst best)" by blast
  then show ?case
  proof cases
    case low
    then have go: "resolve_go nq qs es best = Some r" using Cons.prems(1) ne by (simp add: Let_def)
    have "?s \<le> MIN_FUZZY_SCORE" using low min by (auto simp: jaccard_def)
    with Cons.IH [OF go Cons.prems(2)] Cons.prems(3) show ?thesis by fastforce
  next
    case win
    then have go: "resolve_go nq qs es (Some (?key, e)) = Some r" using Cons.prems(1) ne by (auto simp: Let_def split: if_splits)
    have "fst k \<le> ?s" if "best = Some (k, x)" for k x
      using win(2) that by (auto simp: beats_def less_prod_def)
    with Cons.IH [OF go Cons.prems(2)] win(1) show ?thesis by fastforce
  next
    case lose
    then have go: "resolve_go nq qs es best = Some r" using Cons.prems(1) ne by (auto simp: Let_def split: if_splits)
    from lose(2) obtain k x where best: "best = Some (k, x)" by (auto simp: beats_def split: option.splits)
    have "?s \<le> fst k" using lose(2) best by (auto simp: beats_def less_prod_def)
    with Cons.IH [OF go Cons.prems(2)] Cons.prems(3) best show ?thesis by fastforce
  qed
qed

section \<open>A target is named by at most all the sources\<close>

lemma count_paths_foldl:
  "map_of (foldl (\<lambda>d p. AList.update p (Suc (case map_of d p of Some n \<Rightarrow> n | None \<Rightarrow> 0)) d) d ps) q =
     (case map_of d q of Some n \<Rightarrow> Some (n + count_list ps q)
      | None \<Rightarrow> if count_list ps q = 0 then None else Some (count_list ps q))"
  by (induction ps arbitrary: d) (auto split: option.splits)

lemma count_concat: "\<forall>xs \<in> set xss. distinct xs \<Longrightarrow> count_list (concat xss) q \<le> length xss"
proof (induction xss)
  case (Cons xs xss)
  have "distinct xs \<Longrightarrow> count_list xs q \<le> 1" by (induction xs) (auto simp: count_list_0_iff)
  then have "count_list xs q \<le> 1" using Cons.prems by simp
  then show ?case using Cons by simp
qed simp

lemma dict_ok_count: "dict_ok d \<Longrightarrow> dict_ok (foldl (\<lambda>d p. AList.update p (Suc (case map_of d p of Some n \<Rightarrow> n | None \<Rightarrow> 0)) d) d ps)"
  by (induction ps arbitrary: d) simp_all

lemma aggregate_counts:
  assumes "\<forall>(c, ts) \<in> set entries. distinct ts" "(path, n) \<in> set (ag_targets (aggregate_of p entries))"
  shows "0 < n" "n \<le> ag_confirmations (aggregate_of p entries)"
proof -
  let ?d = "count_paths (concat (map snd entries))"
  have "(path, n) \<in> set ?d" using assms(2) by (auto simp: aggregate_of_def dest: in_set_takeD)
  moreover have "dict_ok ?d" by (simp add: count_paths_def dict_ok_count)
  ultimately have "map_of ?d path = Some n" by (simp add: dict_getD)
  then have n: "n = count_list (concat (map snd entries)) path" "n \<noteq> 0"
    by (auto simp: count_paths_def count_paths_foldl split: if_splits)
  then show "0 < n" by simp
  have "\<forall>xs \<in> set (map snd entries). distinct xs" using assms(1) by auto
  from count_concat [OF this] n(1) show "n \<le> ag_confirmations (aggregate_of p entries)" by (simp add: aggregate_of_def)
qed

end
