(* ===== verification/AliasRun.thy ===== *)
theory AliasRun
  imports AliasMining Writers JsonParse EdgeStore
begin

text \<open>
  The alias miner's pass over the registry (kb-builder, \<open>alias/run.py\<close>): it reconciles the
  \<open>alias_reference\<close> rows and the \<open>aliases\<close> edges with what the live commits and documents say, replaying
  a source's stored evidence when its content hash has not changed. A row of the session is its current
  state in the registry, found by its id; the flush at the end of a reconcile has nothing to add.
\<close>

section \<open>What can be mined\<close>

definition ALIAS_ARTIFACT_TYPE :: string where "ALIAS_ARTIFACT_TYPE = ''alias_reference''"
definition ALIAS_BODY_SCHEMA :: string where "ALIAS_BODY_SCHEMA = ''alias_reference_v1''"
definition ALIAS_EDGE_TYPE :: string where "ALIAS_EDGE_TYPE = ''aliases''"
definition ALIAS_EDGE_SOURCE :: string where "ALIAS_EDGE_SOURCE = ''alias_miner''"
definition MAX_EDGE_TARGETS :: nat where "MAX_EDGE_TARGETS = 20"
definition LEDGER_MINED_PROVENANCE :: string where "LEDGER_MINED_PROVENANCE = ''ledger_mined''"

record mining_input =
  mi_key :: string
  mi_ref :: string
  mi_hash :: string
  mi_source :: nat
  mi_commit :: bool
  mi_repo :: "string option"
  mi_subject :: string
  mi_files :: "string list"
  mi_path :: string

definition commit_input :: "kb_artifact \<times> kb_source \<Rightarrow> mining_input list" where
  "commit_input x = (case x of (a, s) \<Rightarrow>
     (case (ka_body a, ka_content_hash a) of
        (Some body, Some h) \<Rightarrow> [\<lparr>mi_key = ''commit:'' @ src_uri s, mi_ref = take 12 (src_version s), mi_hash = h,
           mi_source = ka_source a, mi_commit = True, mi_repo = src_repo s,
           mi_subject = py_strip (takeWhile (\<lambda>c. c \<noteq> nl) body), mi_files = parse_changed_files body, mi_path = []\<rparr>]
      | _ \<Rightarrow> []))"

definition doc_input :: "kb_source \<Rightarrow> mining_input list" where
  "doc_input s = (case src_path s of
     Some p \<Rightarrow> if suffix ''.md'' (py_lower p)
       then [\<lparr>mi_key = ''doc:'' @ src_uri s, mi_ref = p, mi_hash = src_hash s, mi_source = src_id s,
              mi_commit = False, mi_repo = src_repo s, mi_subject = [], mi_files = [], mi_path = p\<rparr>]
       else []
   | None \<Rightarrow> [])"

definition load_mining_inputs :: "kb \<Rightarrow> mining_input list" where
  "load_mining_inputs k = sort_key mi_key
     (concat (map commit_input (filter (\<lambda>(a, s). ka_type a = ''commit'' \<and> live_artifact a \<and> \<not> src_deleted s) (kb_joined k)))
      @ concat (map doc_input (filter (\<lambda>s. src_type s = Some ''github_doc'' \<and> \<not> src_deleted s) (kb_sources k))))"

definition extract_phrases :: "mining_input \<Rightarrow> mined_phrase list" where
  "extract_phrases i = (if mi_commit i then mine_commit (mi_subject i) (mi_files i) else mine_doc_source (mi_path i))"

section \<open>The rows of earlier builds\<close>

definition revivable :: "int \<Rightarrow> int option \<Rightarrow> bool" where
  "revivable seq left \<longleftrightarrow> left = None \<or> left = Some seq"

type_synonym prior_rows = "(string, kb_artifact) dict"

definition keep_prior :: "int \<Rightarrow> kb_artifact \<Rightarrow> prior_rows \<times> kb \<Rightarrow> prior_rows \<times> kb" where
  "keep_prior seq row st = (case st of (d, k) \<Rightarrow>
     (case ka_title row of
        None \<Rightarrow> (d, k)
      | Some t \<Rightarrow>
          if map_of d t = None then (d @ [(t, row)], k)
          else (d, if live_artifact row then invalidate_artifacts seq {ka_id row} k else k)))"

definition load_prior_alias_rows :: "int \<Rightarrow> kb \<Rightarrow> prior_rows \<times> kb" where
  "load_prior_alias_rows seq k = fold (keep_prior seq)
     (sort_key (\<lambda>a. (ka_invalidated a \<noteq> None, uuid_str (ka_id a)))
       (filter (\<lambda>a. ka_type a = ALIAS_ARTIFACT_TYPE \<and> revivable seq (ka_invalidated a)) (kb_artifacts k))) ([], k)"

text \<open>A body that is no JSON object counts as none.\<close>

definition parse_body :: "kb_artifact \<Rightarrow> (string, json) dict option" where
  "parse_body a = (case ka_body a of None \<Rightarrow> None
     | Some b \<Rightarrow> (case json_loads b of Some (JObj kvs) \<Rightarrow> Some kvs | _ \<Rightarrow> None))"

text \<open>Iterating over a JSON value, and calling \<open>get\<close> on one.\<close>

definition py_iter :: "json \<Rightarrow> exn + json list" where
  "py_iter j = (case j of JArr js \<Rightarrow> Inr js | JObj kvs \<Rightarrow> Inr (map (\<lambda>(k, v). JStr k) kvs)
     | JStr s \<Rightarrow> Inr (map (\<lambda>c. JStr [c]) s) | _ \<Rightarrow> Inl TypeError)"

definition py_items :: "json \<Rightarrow> exn + (string, json) dict" where
  "py_items j = (case j of JObj kvs \<Rightarrow> Inr kvs | _ \<Rightarrow> Inl AttributeError)"

definition get_or :: "(string, json) dict \<Rightarrow> string \<Rightarrow> json \<Rightarrow> json" where
  "get_or d key z = (case map_of d key of Some j \<Rightarrow> j | None \<Rightarrow> z)"

text \<open>The watermarks: for a source the hash it was mined at and its phrases, and the sources in conflict.\<close>

type_synonym extraction = "string \<times> (string, json list) dict"
type_synonym watermarks = "(string, extraction) dict \<times> string set"

definition note_watermark :: "string \<Rightarrow> string \<Rightarrow> string \<Rightarrow> json list \<Rightarrow> watermarks \<Rightarrow> watermarks" where
  "note_watermark title key h targets st = (case st of (d, poisoned) \<Rightarrow>
     if key \<in> poisoned then st
     else (case map_of d key of
         None \<Rightarrow> (AList.update key (h, [(title, targets)]) d, poisoned)
       | Some (h', phrases) \<Rightarrow>
           if h' = h then (AList.update key (h, AList.update title targets phrases) d, poisoned)
           else (AList.delete key d, insert key poisoned)))"

definition read_entry :: "string \<Rightarrow> json \<Rightarrow> watermarks \<Rightarrow> exn + watermarks" where
  "read_entry title entry st =
     (case py_items entry of Inl e \<Rightarrow> Inl e
      | Inr d \<Rightarrow> (case py_iter (get_or d ''targets'' (JArr [])) of Inl e \<Rightarrow> Inl e
        | Inr targets \<Rightarrow> (case (map_of d ''source'', map_of d ''content_hash'') of
             (Some (JStr key), Some (JStr h)) \<Rightarrow> Inr (note_watermark title key h targets st)
           | _ \<Rightarrow> Inr st)))"

definition read_prior_row :: "string \<times> kb_artifact \<Rightarrow> watermarks \<Rightarrow> exn + watermarks" where
  "read_prior_row x st = (case parse_body (snd x) of None \<Rightarrow> Inr st
     | Some body \<Rightarrow> (case py_iter (get_or body ''evidence'' (JArr [])) of Inl e \<Rightarrow> Inl e
        | Inr entries \<Rightarrow> foldE (read_entry (fst x)) entries st))"

definition prior_extractions :: "prior_rows \<Rightarrow> exn + (string, extraction) dict" where
  "prior_extractions prior = (case foldE read_prior_row (sort_key fst prior) ([], {}) of
     Inl e \<Rightarrow> Inl e | Inr (d, _) \<Rightarrow> Inr d)"

text \<open>A target that is no string fails where the aggregation takes its file name.\<close>

definition target_path :: "json \<Rightarrow> exn + string" where
  "target_path j = (case j of JStr s \<Rightarrow> Inr s | JArr js \<Rightarrow> Inl TypeError | JObj kvs \<Rightarrow> Inl TypeError | _ \<Rightarrow> Inl AttributeError)"

definition replay :: "(string, json list) dict \<Rightarrow> exn + mined_phrase list" where
  "replay phrases = mapE (\<lambda>(p, ts). map_sum id (\<lambda>us. \<lparr>mp_phrase = p, mp_targets = us\<rparr>) (mapE target_path ts))
     (sort_key fst phrases)"

definition is_kept :: "(string, extraction) dict \<Rightarrow> mining_input \<Rightarrow> bool" where
  "is_kept prior i \<longleftrightarrow> (case map_of prior (mi_key i) of Some (h, _) \<Rightarrow> h = mi_hash i | None \<Rightarrow> False)"

definition contribution_of :: "(string, extraction) dict \<Rightarrow> mining_input \<Rightarrow> exn + contribution" where
  "contribution_of prior i = map_sum id (\<lambda>ps. \<lparr>sc_source = mi_key i, sc_ref = mi_ref i, sc_hash = mi_hash i, sc_phrases = ps\<rparr>)
     (case map_of prior (mi_key i) of
        Some (h, phrases) \<Rightarrow> if h = mi_hash i then replay phrases else Inr (extract_phrases i)
      | None \<Rightarrow> Inr (extract_phrases i))"

section \<open>Where the targets are\<close>

definition contributing_repos :: "alias_aggregate list \<Rightarrow> (string, string option) dict \<Rightarrow> string \<Rightarrow> string option set" where
  "contributing_repos aggs repos path = set (concat (map (\<lambda>ag. concat (map (\<lambda>(key, ref, h, targets).
     case map_of repos key of Some r \<Rightarrow> if path \<in> set targets then [r] else [] | None \<Rightarrow> []) (ag_evidence ag))) aggs))"

definition target_rank :: "string \<Rightarrow> nat" where
  "target_rank typ = (if typ = ''code_file'' then 0 else if typ = ''summary'' then 1 else 2)"

definition better_target :: "nat \<times> uuid \<Rightarrow> nat \<times> uuid \<Rightarrow> bool" where
  "better_target x y \<longleftrightarrow> (fst x, uuid_str (snd x)) < (fst y, uuid_str (snd y))"

definition offer_target :: "(nat, string) dict \<Rightarrow> kb_artifact \<Rightarrow> (string, nat \<times> uuid) dict \<Rightarrow> (string, nat \<times> uuid) dict" where
  "offer_target paths a best = (case map_of paths (ka_source a) of
     None \<Rightarrow> best
   | Some p \<Rightarrow> (let key = (target_rank (ka_type a), ka_id a) in
       case map_of best p of
         None \<Rightarrow> AList.update p key best
       | Some cur \<Rightarrow> if better_target key cur then AList.update p key best else best))"

definition target_sources :: "string set \<Rightarrow> (string \<Rightarrow> string option set) \<Rightarrow> kb \<Rightarrow> kb_source list" where
  "target_sources paths repos k = filter (\<lambda>s. \<not> src_deleted s \<and> (case src_path s of
     Some p \<Rightarrow> p \<in> paths \<and> src_repo s \<in> repos p | None \<Rightarrow> False)) (kb_sources k)"

definition source_paths :: "kb_source list \<Rightarrow> (nat, string) dict" where
  "source_paths ss = dict_update_all [] (concat (map (\<lambda>s. case src_path s of Some p \<Rightarrow> [(src_id s, p)] | None \<Rightarrow> []) ss))"

definition resolve_targets :: "string set \<Rightarrow> (string \<Rightarrow> string option set) \<Rightarrow> kb
     \<Rightarrow> (string, string list) dict \<times> (string, uuid) dict" where
  "resolve_targets paths repos k =
     (let ss = target_sources paths repos k;
          acls = map (\<lambda>(p, acl_lists). (p, merge_path_acls acl_lists)) (acl_rows_by_path ss);
          ids = source_paths ss;
          best = fold (offer_target ids) (filter (\<lambda>a. map_of ids (ka_source a) \<noteq> None \<and> live_artifact a
                   \<and> ka_type a \<noteq> ALIAS_ARTIFACT_TYPE) (kb_artifacts k)) []
      in (acls, map (\<lambda>(p, r, u). (p, u)) best))"

section \<open>The rows as they should be\<close>

definition target_doc :: "(string, uuid) dict \<Rightarrow> string \<times> nat \<Rightarrow> doc" where
  "target_doc ids t = DObj [(''path'', DStr (fst t)),
     (''artifact_id'', case map_of ids (fst t) of Some u \<Rightarrow> DStr (uuid_str u) | None \<Rightarrow> DNull),
     (''count'', DInt (int (snd t)))]"

definition evidence_doc :: "string \<times> string \<times> string \<times> string list \<Rightarrow> doc" where
  "evidence_doc e = (case e of (source, ref, h, targets) \<Rightarrow> DObj [(''source'', DStr source), (''ref'', DStr ref),
     (''content_hash'', DStr h), (''targets'', DArr (map DStr targets))])"

definition alias_doc :: "alias_aggregate \<Rightarrow> (string, uuid) dict \<Rightarrow> doc" where
  "alias_doc ag ids = DObj [(''schema'', DStr ALIAS_BODY_SCHEMA), (''alias'', DStr (ag_phrase ag)),
     (''variants'', DArr (map DStr (phrase_variants (ag_phrase ag)))), (''confidence_tier'', DStr ''interpreted''),
     (''confirmation_count'', DInt (int (ag_confirmations ag))), (''targets'', DArr (map (target_doc ids) (ag_targets ag))),
     (''evidence'', DArr (map evidence_doc (ag_evidence ag)))]"

definition desired_body :: "alias_aggregate \<Rightarrow> (string, uuid) dict \<Rightarrow> string" where
  "desired_body ag ids = json_dumps (alias_doc ag ids)"

record alias_row =
  al_title :: string
  al_body :: string
  al_search :: string
  al_acl :: "string list"
  al_anchor :: nat

definition alias_search :: "string \<Rightarrow> string" where
  "alias_search phrase = py_join '' '' (phrase # phrase_variants phrase)"

definition desired_row :: "alias_aggregate \<Rightarrow> (string, string list) dict \<Rightarrow> (string, uuid) dict \<Rightarrow> nat \<Rightarrow> alias_row" where
  "desired_row ag acls ids anchor = \<lparr>al_title = ag_phrase ag, al_body = desired_body ag ids,
     al_search = alias_search (ag_phrase ag),
     al_acl = commit_acl_intersection (map fst (ag_targets ag)) acls, al_anchor = anchor\<rparr>"

definition new_alias :: "string \<Rightarrow> int \<Rightarrow> int \<Rightarrow> alias_row \<Rightarrow> uuid \<Rightarrow> kb_artifact" where
  "new_alias version seq t r u =
     (new_artifact u (al_anchor r) ALIAS_ARTIFACT_TYPE (Some (al_title r)) (Some (al_body r)) version seq (al_acl r)
        ''interpreted'' 0 0 t)\<lparr>ka_search := Some (al_search r), ka_authority := None, ka_freshness := None\<rparr>"

definition shows_row :: "kb_artifact \<Rightarrow> alias_row \<Rightarrow> bool" where
  "shows_row a r \<longleftrightarrow> ka_body a = Some (al_body r) \<and> ka_search a = Some (al_search r) \<and> ka_acl a = al_acl r
     \<and> ka_source a = al_anchor r \<and> live_artifact a"

definition refresh_alias :: "string \<Rightarrow> alias_row \<Rightarrow> kb_artifact \<Rightarrow> kb_artifact" where
  "refresh_alias version r a = a\<lparr>ka_body := Some (al_body r), ka_content_hash := Some (content_hash (al_body r)),
     ka_search := Some (al_search r), ka_acl := al_acl r, ka_source := al_anchor r, ka_version := version,
     ka_invalidated := None\<rparr>"

definition update_artifact :: "uuid \<Rightarrow> (kb_artifact \<Rightarrow> kb_artifact) \<Rightarrow> kb \<Rightarrow> kb" where
  "update_artifact u f k = k\<lparr>kb_artifacts := update_where (\<lambda>a. ka_id a = u) f (kb_artifacts k)\<rparr>"

section \<open>Reconciling the rows\<close>

record tally =
  ty_inserted :: nat
  ty_refreshed :: nat
  ty_unchanged :: nat
  ty_invalidated :: nat

definition no_tally :: tally where
  "no_tally = \<lparr>ty_inserted = 0, ty_refreshed = 0, ty_unchanged = 0, ty_invalidated = 0\<rparr>"

definition place_alias :: "string \<Rightarrow> int \<Rightarrow> int \<Rightarrow> prior_rows \<Rightarrow> alias_row
     \<Rightarrow> tally \<times> (string, uuid) dict \<times> kb \<Rightarrow> tally \<times> (string, uuid) dict \<times> kb" where
  "place_alias version seq t prior r st = (case st of (n, ids, k) \<Rightarrow>
     (case map_of prior (al_title r) of
        None \<Rightarrow>
          (let (u, k1) = gen_random_uuid k
           in (n\<lparr>ty_inserted := ty_inserted n + 1\<rparr>, AList.update (al_title r) u ids,
               k1\<lparr>kb_artifacts := kb_artifacts k1 @ [new_alias version seq t r u]\<rparr>))
      | Some a \<Rightarrow>
          if shows_row a r
          then (n\<lparr>ty_unchanged := ty_unchanged n + 1\<rparr>, AList.update (al_title r) (ka_id a) ids, k)
          else (n\<lparr>ty_refreshed := ty_refreshed n + 1\<rparr>, AList.update (al_title r) (ka_id a) ids,
                update_artifact (ka_id a) (refresh_alias version r) k)))"

definition desired_rows :: "alias_aggregate list \<Rightarrow> (string, nat) dict \<Rightarrow> (string, string list) dict \<Rightarrow> (string, uuid) dict
     \<Rightarrow> alias_row list" where
  "desired_rows aggs anchors acls ids = concat (map (\<lambda>ag. case map_of anchors (fst (hd (ag_evidence ag))) of
     None \<Rightarrow> [] | Some anchor \<Rightarrow> [desired_row ag acls ids anchor]) aggs)"

definition ledger_mined :: "kb_artifact \<Rightarrow> bool" where
  "ledger_mined a \<longleftrightarrow> (case parse_body a of None \<Rightarrow> False
     | Some body \<Rightarrow> map_of body ''provenance'' = Some (JStr LEDGER_MINED_PROVENANCE))"

definition drop_aliases :: "int \<Rightarrow> string set \<Rightarrow> prior_rows \<Rightarrow> kb \<Rightarrow> nat \<times> kb" where
  "drop_aliases seq desired prior k =
     (let gone = filter (\<lambda>(t, a). t \<notin> desired \<and> live_artifact a \<and> \<not> ledger_mined a) (sort_key fst prior)
      in (length gone, fold (\<lambda>(t, a). update_artifact (ka_id a) (\<lambda>b. b\<lparr>ka_invalidated := Some seq\<rparr>)) gone k))"

definition reconcile_artifacts :: "string \<Rightarrow> int \<Rightarrow> int \<Rightarrow> alias_aggregate list \<Rightarrow> prior_rows \<Rightarrow> (string, nat) dict
     \<Rightarrow> (string, string list) dict \<Rightarrow> (string, uuid) dict \<Rightarrow> kb \<Rightarrow> tally \<times> (string, uuid) dict \<times> kb" where
  "reconcile_artifacts version seq t aggs prior anchors acls ids k =
     (let (n, alias_ids, k1) = fold (place_alias version seq t prior) (desired_rows aggs anchors acls ids) (no_tally, [], k);
          (gone, k2) = drop_aliases seq (ag_phrase ` set aggs) prior k1
      in (n\<lparr>ty_invalidated := gone\<rparr>, alias_ids, k2))"

section \<open>Reconciling the edges\<close>

definition refs_for :: "alias_aggregate \<Rightarrow> string \<Rightarrow> string list" where
  "refs_for ag path = sort (concat (map (\<lambda>(key, ref, h, targets). map (\<lambda>p. ref) (filter (\<lambda>p. p = path) targets)) (ag_evidence ag)))"

type_synonym alias_edges = "(uuid \<times> uuid, real \<times> json) dict"

definition edge_evidence :: "alias_aggregate \<Rightarrow> string \<Rightarrow> json" where
  "edge_evidence ag path = JObj [(''alias'', JStr (ag_phrase ag)), (''target_path'', JStr path),
     (''sources'', JArr (map JStr (refs_for ag path)))]"

definition edges_of_alias :: "(string, uuid) dict \<Rightarrow> (string, uuid) dict \<Rightarrow> alias_aggregate \<Rightarrow> ((uuid \<times> uuid) \<times> real \<times> json) list" where
  "edges_of_alias alias_ids ids ag = (case map_of alias_ids (ag_phrase ag) of None \<Rightarrow> []
     | Some u \<Rightarrow> concat (map (\<lambda>(path, n). case map_of ids path of None \<Rightarrow> []
         | Some v \<Rightarrow> [((u, v), real n / real (ag_confirmations ag), edge_evidence ag path)])
         (take MAX_EDGE_TARGETS (ag_targets ag))))"

definition desired_edges :: "alias_aggregate list \<Rightarrow> (string, uuid) dict \<Rightarrow> (string, uuid) dict \<Rightarrow> alias_edges" where
  "desired_edges aggs alias_ids ids = dict_update_all [] (concat (map (edges_of_alias alias_ids ids) aggs))"

text \<open>Python compares objects as dicts, whatever the order of the keys.\<close>

definition same_evidence :: "json option \<Rightarrow> json \<Rightarrow> bool" where
  "same_evidence e j = (case (e, j) of (Some (JObj a), JObj b) \<Rightarrow> set a = set b | _ \<Rightarrow> False)"

definition shows_edge :: "kb_edge \<Rightarrow> real \<times> json \<Rightarrow> bool" where
  "shows_edge e d \<longleftrightarrow> ke_confidence e = Some (fst d) \<and> same_evidence (ke_evidence e) (snd d) \<and> live_edge e"

definition refresh_alias_edge :: "string \<Rightarrow> real \<times> json \<Rightarrow> kb_edge \<Rightarrow> kb_edge" where
  "refresh_alias_edge version d e = e\<lparr>ke_confidence := Some (fst d), ke_evidence := Some (snd d), ke_version := version,
     ke_schema := RELATION_SCHEMA_VERSION, ke_invalidated := None\<rparr>"

definition new_alias_edge :: "string \<Rightarrow> int \<Rightarrow> uuid \<Rightarrow> (uuid \<times> uuid) \<times> real \<times> json \<Rightarrow> kb_edge" where
  "new_alias_edge version seq u d = \<lparr>ke_id = u, ke_from = fst (fst d), ke_to = snd (fst d), ke_type = ALIAS_EDGE_TYPE,
     ke_confidence = Some (fst (snd d)), ke_source = Some ALIAS_EDGE_SOURCE, ke_trust = ''EXTRACTED'',
     ke_valid_from = seq, ke_invalidated = None, ke_version = version, ke_schema = RELATION_SCHEMA_VERSION,
     ke_evidence = Some (snd (snd d))\<rparr>"

definition update_edge :: "uuid \<Rightarrow> (kb_edge \<Rightarrow> kb_edge) \<Rightarrow> kb \<Rightarrow> kb" where
  "update_edge u f k = k\<lparr>kb_edges := update_where (\<lambda>e. ke_id e = u) f (kb_edges k)\<rparr>"

definition visit_edge :: "string \<Rightarrow> int \<Rightarrow> alias_edges \<Rightarrow> kb_edge
     \<Rightarrow> tally \<times> (uuid \<times> uuid) set \<times> kb \<Rightarrow> tally \<times> (uuid \<times> uuid) set \<times> kb" where
  "visit_edge version seq desired e st = (case st of (n, seen, k) \<Rightarrow>
     (let key = (ke_from e, ke_to e) in
      case (if key \<in> seen then None else map_of desired key) of
        None \<Rightarrow> if live_edge e
                then (n\<lparr>ty_invalidated := ty_invalidated n + 1\<rparr>, seen, update_edge (ke_id e) (\<lambda>e. e\<lparr>ke_invalidated := Some seq\<rparr>) k)
                else (n, seen, k)
      | Some d \<Rightarrow>
          if shows_edge e d then (n\<lparr>ty_unchanged := ty_unchanged n + 1\<rparr>, insert key seen, k)
          else (n\<lparr>ty_refreshed := ty_refreshed n + 1\<rparr>, insert key seen, update_edge (ke_id e) (refresh_alias_edge version d) k)))"

fun insert_alias_edges :: "string \<Rightarrow> int \<Rightarrow> ((uuid \<times> uuid) \<times> real \<times> json) list \<Rightarrow> kb \<Rightarrow> kb" where
  "insert_alias_edges version seq [] k = k"
| "insert_alias_edges version seq (d # ds) k =
     (let (u, k1) = gen_random_uuid k
      in insert_alias_edges version seq ds (k1\<lparr>kb_edges := kb_edges k1 @ [new_alias_edge version seq u d]\<rparr>))"

definition alias_edge :: "int \<Rightarrow> kb_edge \<Rightarrow> bool" where
  "alias_edge seq e \<longleftrightarrow> ke_source e = Some ALIAS_EDGE_SOURCE \<and> ke_type e = ALIAS_EDGE_TYPE \<and> revivable seq (ke_invalidated e)"

definition reconcile_edges :: "string \<Rightarrow> int \<Rightarrow> alias_edges \<Rightarrow> kb \<Rightarrow> tally \<times> kb" where
  "reconcile_edges version seq desired k =
     (let (n, seen, k1) = fold (visit_edge version seq desired)
            (sort_key (\<lambda>e. uuid_str (ke_id e)) (filter (alias_edge seq) (kb_edges k))) (no_tally, {}, k);
          new = sort_key (\<lambda>d. (uuid_str (fst (fst d)), uuid_str (snd (fst d)))) (filter (\<lambda>d. fst d \<notin> seen) desired)
      in (n\<lparr>ty_inserted := length new\<rparr>, insert_alias_edges version seq new k1))"

section \<open>The pass\<close>

record alias_miner_result =
  mr_seen :: nat
  mr_mined :: nat
  mr_skipped :: nat
  mr_phrases :: nat
  mr_artifacts :: tally
  mr_edges :: tally

definition run_alias_miner :: "string \<Rightarrow> int \<Rightarrow> int \<Rightarrow> kb \<Rightarrow> exn + alias_miner_result \<times> kb" where
  "run_alias_miner version seq t k =
     (let inputs = load_mining_inputs k; (prior, k1) = load_prior_alias_rows seq k in
      case prior_extractions prior of Inl e \<Rightarrow> Inl e | Inr watermarks \<Rightarrow>
      case mapE (contribution_of watermarks) inputs of Inl e \<Rightarrow> Inl e | Inr contributions \<Rightarrow>
        (let aggs = aggregate_contributions contributions;
             anchors = dict_update_all [] (map (\<lambda>i. (mi_key i, mi_source i)) inputs);
             repos = dict_update_all [] (map (\<lambda>i. (mi_key i, mi_repo i)) inputs);
             (acls, ids) = resolve_targets (set (concat (map (\<lambda>ag. map fst (ag_targets ag)) aggs))) (contributing_repos aggs repos) k1;
             (na, alias_ids, k2) = reconcile_artifacts version seq t aggs prior anchors acls ids k1;
             (ne, k3) = reconcile_edges version seq (desired_edges aggs alias_ids ids) k2;
             kept = length (filter (is_kept watermarks) inputs)
         in Inr (\<lparr>mr_seen = length inputs, mr_mined = length inputs - kept, mr_skipped = kept,
                  mr_phrases = length aggs, mr_artifacts = na, mr_edges = ne\<rparr>, k3)))"

end
