(* ===== verification/LedgerMining.thy ===== *)
theory LedgerMining
  imports AliasRun
begin

text \<open>
  Aliases from the broker's own misses (kb-builder, \<open>alias/ledger_mining.py\<close>): a phrase \<open>kb_search\<close> was asked
  for and hardly answered becomes an alias row of its own provenance when a live artifact's title resolves
  it. The retrieval events are the broker's and only read. Timestamps are microseconds since 1970, in UTC.
\<close>

section \<open>Dates\<close>

definition US_PER_DAY :: int where "US_PER_DAY = 86400000000"

text \<open>\<open>date\<close> and \<open>isoformat\<close> of a UTC datetime: the proleptic Gregorian calendar, its years counted from March.\<close>

definition civil_date :: "int \<Rightarrow> int \<times> int \<times> int" where
  "civil_date day =
     (let z = day + 719468; era = z div 146097; doe = z mod 146097;
          yoe = (doe - doe div 1460 + doe div 36524 - doe div 146096) div 365;
          doy = doe - (365 * yoe + yoe div 4 - yoe div 100); mp = (5 * doy + 2) div 153;
          m = (if mp < 10 then mp + 3 else mp - 9)
      in (yoe + era * 400 + (if m \<le> 2 then 1 else 0), m, doy - (153 * mp + 2) div 5 + 1))"

definition pad :: "nat \<Rightarrow> int \<Rightarrow> string" where
  "pad n i = (let s = nat_str (nat i) in replicate (n - length s) CHR ''0'' @ s)"

definition isoformat :: "int \<Rightarrow> string" where
  "isoformat t =
     (let (y, m, d) = civil_date (t div US_PER_DAY); us = t mod US_PER_DAY; sec = us div 1000000; frac = us mod 1000000
      in pad 4 y @ ''-'' @ pad 2 m @ ''-'' @ pad 2 d @ ''T'' @ pad 2 (sec div 3600) @ '':'' @ pad 2 (sec div 60 mod 60)
         @ '':'' @ pad 2 (sec mod 60) @ (if frac = 0 then [] else ''.'' @ pad 6 frac) @ ''+00:00'')"

section \<open>The misses\<close>

definition DEFAULT_WINDOW_DAYS :: int where "DEFAULT_WINDOW_DAYS = 14"
definition MAX_RAW_QUERY_CHARS :: nat where "MAX_RAW_QUERY_CHARS = 80"

record miss_event = retrieval_event +
  ev_created :: int

definition sanitize_query_text :: "string \<Rightarrow> string" where
  "sanitize_query_text raw = take MAX_RAW_QUERY_CHARS (filter (\<lambda>c. \<not> (code c < 32 \<or> code c = 127)) raw)"

record miss_group =
  mg_phrase :: string
  mg_first :: int
  mg_last :: int
  mg_misses :: nat
  mg_days :: nat

definition is_miss :: "int \<Rightarrow> miss_event \<Rightarrow> bool" where
  "is_miss start e \<longleftrightarrow> ev_tool_name e = ''kb_search'' \<and> ev_status e = ''approved'' \<and> length (ev_returned e) \<le> 1
     \<and> start \<le> ev_created e \<and> ev_query_text e \<noteq> None"

definition miss_phrases :: "miss_event list \<Rightarrow> (string \<times> int) list" where
  "miss_phrases es = filter (\<lambda>(p, t). p \<noteq> []) (concat (map (\<lambda>e. case ev_query_text e of None \<Rightarrow> []
     | Some q \<Rightarrow> [(normalize_phrase (sanitize_query_text q), ev_created e)]) es))"

definition miss_group_of :: "(string \<times> int) list \<Rightarrow> string \<Rightarrow> miss_group" where
  "miss_group_of ps p = (let ts = map snd (filter (\<lambda>x. fst x = p) ps) in
     \<lparr>mg_phrase = p, mg_first = Min (set ts), mg_last = Max (set ts), mg_misses = length ts,
      mg_days = card ((\<lambda>t. t div US_PER_DAY) ` set ts)\<rparr>)"

definition load_miss_groups :: "int \<Rightarrow> miss_event list \<Rightarrow> miss_group list \<times> nat" where
  "load_miss_groups start es = (let misses = filter (is_miss start) es; ps = miss_phrases misses
     in (map (miss_group_of ps) (sorted_set (map fst ps)), length misses))"

section \<open>The candidates\<close>

record path_choice =
  pc_rank :: nat
  pc_artifact :: uuid
  pc_acl :: "string list"
  pc_source :: nat

definition titled_row :: "kb_artifact \<times> kb_source \<Rightarrow> (string \<times> string \<times> path_choice) list" where
  "titled_row x = (case x of (a, s) \<Rightarrow> (case (ka_title a, src_path s) of
     (Some t, Some p) \<Rightarrow> (let alias = normalize_phrase t in if alias = [] then []
        else [(alias, p, \<lparr>pc_rank = target_rank (ka_type a), pc_artifact = ka_id a, pc_acl = src_acl s, pc_source = src_id s\<rparr>)])
   | _ \<Rightarrow> []))"

definition candidate_rows :: "kb \<Rightarrow> (string \<times> string \<times> path_choice) list" where
  "candidate_rows k = concat (map titled_row (filter (\<lambda>(a, s). ka_type a \<noteq> ALIAS_ARTIFACT_TYPE \<and> live_artifact a
     \<and> \<not> src_deleted s) (kb_joined k)))"

definition offer_path :: "string \<times> string \<times> path_choice \<Rightarrow> (string, path_choice) dict \<Rightarrow> (string, path_choice) dict" where
  "offer_path x d = (case x of (alias, p, c) \<Rightarrow> (case map_of d p of
     None \<Rightarrow> AList.update p c d
   | Some cur \<Rightarrow> if better_target (pc_rank c, pc_artifact c) (pc_rank cur, pc_artifact cur) then AList.update p c d else d))"

definition alias_entries :: "(string \<times> string \<times> path_choice) list \<Rightarrow> alias_entry list" where
  "alias_entries cands = sort_key (\<lambda>e. (ae_alias e, ae_targets e))
     (map (\<lambda>(alias, p, c). \<lparr>ae_alias = alias, ae_targets = [p], ae_confirmations = 1\<rparr>) cands)"

section \<open>The pass\<close>

definition miss_doc :: "miss_group \<Rightarrow> string \<Rightarrow> uuid \<Rightarrow> doc" where
  "miss_doc g path u = DObj [(''schema'', DStr ALIAS_BODY_SCHEMA), (''alias'', DStr (mg_phrase g)),
     (''variants'', DArr (map DStr (phrase_variants (mg_phrase g)))), (''confidence_tier'', DStr ''interpreted''),
     (''confirmation_count'', DInt (int (mg_days g))), (''provenance'', DStr LEDGER_MINED_PROVENANCE),
     (''targets'', DArr [DObj [(''path'', DStr path), (''artifact_id'', DStr (uuid_str u)), (''count'', DInt 1)]]),
     (''evidence'', DArr [DObj [(''first_seen'', DStr (isoformat (mg_first g))), (''last_seen'', DStr (isoformat (mg_last g))),
        (''miss_count'', DInt (int (mg_misses g)))]])]"

definition miss_row :: "miss_group \<Rightarrow> string \<Rightarrow> path_choice \<Rightarrow> alias_row" where
  "miss_row g path c = \<lparr>al_title = mg_phrase g, al_body = json_dumps (miss_doc g path (pc_artifact c)),
     al_search = alias_search (mg_phrase g), al_acl = commit_acl_intersection [path] [(path, pc_acl c)], al_anchor = pc_source c\<rparr>"

text \<open>The titles of the live alias rows, and the rows of this pass among them.\<close>

definition live_aliases :: "kb \<Rightarrow> kb_artifact list" where
  "live_aliases k = filter (\<lambda>a. ka_type a = ALIAS_ARTIFACT_TYPE \<and> live_artifact a \<and> ka_title a \<noteq> None) (kb_artifacts k)"

definition ledger_rows :: "kb \<Rightarrow> prior_rows" where
  "ledger_rows k = dict_update_all [] (map (\<lambda>a. (the (ka_title a), a)) (filter ledger_mined (live_aliases k)))"

record ledger_result =
  lr_misses :: nat
  lr_phrases :: nat
  lr_mined :: nat
  lr_aliased :: nat
  lr_unresolved :: nat
  lr_rows :: tally

datatype miss_outcome = Unresolved | AlreadyAliased | Mined alias_row

definition judge_miss :: "alias_entry list \<Rightarrow> (string, path_choice) dict \<Rightarrow> string set \<Rightarrow> prior_rows \<Rightarrow> miss_group \<Rightarrow> miss_outcome" where
  "judge_miss entries paths titles owned g =
     (case resolve_alias (mg_phrase g) entries of
        None \<Rightarrow> Unresolved
      | Some r \<Rightarrow> (case map_of paths (hd (rs_targets r)) of
          None \<Rightarrow> Unresolved
        | Some c \<Rightarrow> if mg_phrase g \<in> titles \<and> map_of owned (mg_phrase g) = None then AlreadyAliased
                    else Mined (miss_row g (hd (rs_targets r)) c)))"

definition mined_rows :: "miss_outcome list \<Rightarrow> alias_row list" where
  "mined_rows os = concat (map (\<lambda>x. case x of Mined r \<Rightarrow> [r] | _ \<Rightarrow> []) os)"

definition drop_unmined :: "int \<Rightarrow> string set \<Rightarrow> prior_rows \<Rightarrow> kb \<Rightarrow> nat \<times> kb" where
  "drop_unmined seq desired owned k =
     (let gone = filter (\<lambda>(t, a). t \<notin> desired) (sort_key fst owned)
      in (length gone, fold (\<lambda>(t, a). update_artifact (ka_id a) (\<lambda>b. b\<lparr>ka_invalidated := Some seq\<rparr>)) gone k))"

definition run_ledger_alias_miner :: "string \<Rightarrow> int \<Rightarrow> int \<Rightarrow> int \<Rightarrow> int \<Rightarrow> miss_event list \<Rightarrow> kb \<Rightarrow> ledger_result \<times> kb" where
  "run_ledger_alias_miner version seq t now window_days es k =
     (let (groups, misses) = load_miss_groups (now - window_days * US_PER_DAY) es;
          cands = candidate_rows k; entries = alias_entries cands; paths = fold offer_path cands [];
          titles = (\<lambda>a. the (ka_title a)) ` set (live_aliases k); owned = ledger_rows k;
          outcomes = map (judge_miss entries paths titles owned) groups; new = mined_rows outcomes;
          (n, ids, k1) = fold (place_alias version seq t owned) new (no_tally, [], k);
          (gone, k2) = drop_unmined seq (al_title ` set new) owned k1
      in (\<lparr>lr_misses = misses, lr_phrases = length groups,
           lr_mined = length (filter (\<lambda>x. x \<noteq> Unresolved) outcomes),
           lr_aliased = length (filter (\<lambda>x. x = AlreadyAliased) outcomes),
           lr_unresolved = length (filter (\<lambda>x. x = Unresolved) outcomes),
           lr_rows = n\<lparr>ty_invalidated := gone\<rparr>\<rparr>, k2))"

end
