(* ===== verification/Judge.thy ===== *)
theory Judge
  imports Candidates
begin

text \<open>
  The relationship judge (\<open>domain/judge_records.py\<close>, \<open>linker/judgment_cache.py\<close>, \<open>linker/judge.py\<close>):
  the quote guard, the cache gate in front of the model, and the reconciliation of the judge's edges. The
  model is a parameter that may raise and may answer differently at each call.
\<close>

section \<open>Verdicts (judge_records.py)\<close>

definition JUDGE_RELATION_TYPES :: "string set" where "JUDGE_RELATION_TYPES = {''documents''}"
definition JUDGE_TRUST_BUCKETS :: "string set" where
  "JUDGE_TRUST_BUCKETS = {''INFERRED_HIGH'', ''INFERRED_LOW'', ''AMBIGUOUS'', ''REJECTED''}"
definition INFERRED_EDGE_BUCKETS :: "string set" where
  "INFERRED_EDGE_BUCKETS = {''INFERRED_HIGH'', ''INFERRED_LOW''}"

record judge_endpoint =
  jp_artifact :: uuid
  jp_title :: string
  jp_evidence :: string
  jp_hash :: string

record judge_candidate =
  jc_from :: judge_endpoint
  jc_to :: judge_endpoint

definition cited_spans :: "judge_candidate \<Rightarrow> string list" where
  "cited_spans c = [jp_evidence (jc_from c), jp_evidence (jc_to c)]"

text \<open>The pydantic model: its two closed vocabularies.\<close>

definition relationship_judgment :: "judged \<Rightarrow> exn + judged" where
  "relationship_judgment j = (if jd_relation j \<in> JUDGE_RELATION_TYPES \<and> jd_bucket j \<in> JUDGE_TRUST_BUCKETS
     then Inr j else Inl PydanticValidationError)"

definition collapse_space :: "string \<Rightarrow> string" where
  "collapse_space s = py_join '' '' (py_split s)"

definition quote_is_grounded :: "string \<Rightarrow> string list \<Rightarrow> bool" where
  "quote_is_grounded quote spans =
     (let needle = collapse_space quote
      in needle \<noteq> [] \<and> list_ex (\<lambda>s. py_in needle (collapse_space s)) spans)"

definition guard_quote :: "judged \<Rightarrow> string list \<Rightarrow> judged" where
  "guard_quote j spans =
     (if jd_bucket j \<in> INFERRED_EDGE_BUCKETS \<and> \<not> quote_is_grounded (jd_quote j) spans
      then j\<lparr>jd_bucket := ''AMBIGUOUS''\<rparr> else j)"

section \<open>The cache gate (judgment_cache.py)\<close>

definition JUDGE_PROMPT_VERSION :: string where "JUDGE_PROMPT_VERSION = ''1.0.0''"

definition judgment_cache_parts :: "string \<Rightarrow> string \<Rightarrow> int \<Rightarrow> string \<Rightarrow> string \<Rightarrow> judgment_key" where
  "judgment_cache_parts a b schema prompt model =
     (let s = sort [a, b] in (s ! 0, s ! 1, schema, prompt, model))"

definition judgment_lookup :: "judgment_key \<Rightarrow> kb \<Rightarrow> judged option" where
  "judgment_lookup key k = map_of (kb_judgments k) key"

text \<open>\<open>ON CONFLICT DO NOTHING\<close> on the composite primary key.\<close>

definition judgment_record :: "judgment_key \<Rightarrow> judged \<Rightarrow> kb \<Rightarrow> kb" where
  "judgment_record key j k =
     (if map_of (kb_judgments k) key = None then k\<lparr>kb_judgments := kb_judgments k @ [(key, j)]\<rparr> else k)"

section \<open>Loading the candidates\<close>

definition judge_endpoint_of :: "kb_artifact \<Rightarrow> string \<Rightarrow> judge_endpoint" where
  "judge_endpoint_of a body = \<lparr>jp_artifact = ka_id a,
     jp_title = (case ka_title a of Some (c # cs) \<Rightarrow> c # cs | _ \<Rightarrow> uuid_str (ka_id a)),
     jp_evidence = body, jp_hash = content_hash body\<rparr>"

definition judge_candidate_of :: "kb_artifact \<Rightarrow> kb_artifact \<Rightarrow> judge_candidate list" where
  "judge_candidate_of a b =
     (case (ka_body a, ka_body b) of
        (Some (c # cs), Some (d # ds)) \<Rightarrow>
          [\<lparr>jc_from = judge_endpoint_of a (c # cs), jc_to = judge_endpoint_of b (d # ds)\<rparr>]
      | _ \<Rightarrow> [])"

definition load_candidates :: "string \<Rightarrow> kb \<Rightarrow> judge_candidate list" where
  "load_candidates version k =
     concat (map (\<lambda>r. concat (map (\<lambda>a. concat (map (judge_candidate_of a)
         (filter (\<lambda>b. ka_id b = cr_to r) (kb_artifacts k))))
       (filter (\<lambda>a. ka_id a = cr_from r) (kb_artifacts k))))
     (sort_key (\<lambda>r. (cr_from r, cr_to r)) (filter (\<lambda>r. cr_version r = version) (kb_candidates k))))"

section \<open>Judge edges\<close>

definition evidence_pointer :: "judged \<Rightarrow> json" where
  "evidence_pointer j = JObj [(''quote'', JStr (jd_quote j)), (''judge_prompt_version'', JStr JUDGE_PROMPT_VERSION)]"

type_synonym verdict = "uuid \<times> uuid \<times> judged"

definition verdict_key :: "verdict \<Rightarrow> uuid \<times> uuid \<times> string" where
  "verdict_key v = (case v of (f, t, j) \<Rightarrow> (f, t, jd_relation j))"

definition judges :: "verdict \<Rightarrow> kb_edge \<Rightarrow> bool" where
  "judges v e \<longleftrightarrow> ke_source e = Some ''llm_judge'' \<and> edge_key e = verdict_key v"

definition refresh_judgment :: "string \<Rightarrow> verdict \<Rightarrow> kb_edge \<Rightarrow> kb_edge" where
  "refresh_judgment version v e = (case v of (f, t, j) \<Rightarrow> e\<lparr>ke_trust := jd_bucket j, ke_version := version,
     ke_schema := RELATION_SCHEMA_VERSION, ke_evidence := Some (evidence_pointer j), ke_invalidated := None\<rparr>)"

definition insert_judgment :: "uuid \<Rightarrow> string \<Rightarrow> int \<Rightarrow> verdict \<Rightarrow> kb_edge" where
  "insert_judgment u version seq v = (case v of (f, t, j) \<Rightarrow>
     \<lparr>ke_id = u, ke_from = f, ke_to = t, ke_type = jd_relation j, ke_confidence = None,
      ke_source = Some ''llm_judge'', ke_trust = jd_bucket j, ke_valid_from = seq, ke_invalidated = None,
      ke_version = version, ke_schema = RELATION_SCHEMA_VERSION, ke_evidence = Some (evidence_pointer j)\<rparr>)"

definition upsert_judge_edge :: "string \<Rightarrow> int \<Rightarrow> verdict \<Rightarrow> kb \<Rightarrow> kb" where
  "upsert_judge_edge version seq v k =
     (if list_ex (judges v) (kb_edges k)
      then k\<lparr>kb_edges := update_where (judges v) (refresh_judgment version v) (kb_edges k)\<rparr>
      else (let (u, k1) = gen_random_uuid k in k1\<lparr>kb_edges := kb_edges k1 @ [insert_judgment u version seq v]\<rparr>))"

definition stale_judge_edge :: "(uuid \<times> uuid \<times> string) set \<Rightarrow> kb_edge \<Rightarrow> bool" where
  "stale_judge_edge computed e \<longleftrightarrow> ke_source e = Some ''llm_judge'' \<and> live_edge e \<and> edge_key e \<notin> computed"

definition invalidate_stale_judgments :: "int \<Rightarrow> (uuid \<times> uuid \<times> string) set \<Rightarrow> kb \<Rightarrow> nat \<times> kb" where
  "invalidate_stale_judgments seq computed = invalidate_where (stale_judge_edge computed) seq"

section \<open>run_judge\<close>

text \<open>The loop's locals: the registry, the counters, and the verdicts that became edges, in order.\<close>

record judging =
  jg_kb :: kb
  jg_judged :: nat
  jg_hits :: nat
  jg_inferred :: nat
  jg_ambiguous :: nat
  jg_rejected :: nat
  jg_written :: "verdict list"

record judge_stats =
  js_candidates :: nat
  js_judged :: nat
  js_hits :: nat
  js_inferred :: nat
  js_ambiguous :: nat
  js_rejected :: nat

type_synonym judge_model = "nat \<Rightarrow> judge_candidate \<Rightarrow> exn + judged"

definition candidate_key :: "string \<Rightarrow> judge_candidate \<Rightarrow> judgment_key" where
  "candidate_key model c = judgment_cache_parts (jp_hash (jc_from c)) (jp_hash (jc_to c))
     RELATION_SCHEMA_VERSION JUDGE_PROMPT_VERSION model"

text \<open>A hit never calls the model; a miss calls it once and records its verdict.\<close>

definition gated_judgment :: "judge_model \<Rightarrow> string \<Rightarrow> judge_candidate \<Rightarrow> judging \<Rightarrow> (exn + judged) \<times> judging" where
  "gated_judgment judge model c g =
     (case judgment_lookup (candidate_key model c) (jg_kb g) of
        Some hit \<Rightarrow> (relationship_judgment hit, g\<lparr>jg_hits := jg_hits g + 1\<rparr>)
      | None \<Rightarrow>
          (case judge (jg_judged g) c of
             Inl e \<Rightarrow> (Inl e, g)
           | Inr raw \<Rightarrow>
               (case relationship_judgment raw of
                  Inl e \<Rightarrow> (Inl e, g)
                | Inr j \<Rightarrow> (Inr j, g\<lparr>jg_judged := jg_judged g + 1,
                    jg_kb := judgment_record (candidate_key model c) j (jg_kb g)\<rparr>))))"

definition place_judgment :: "string \<Rightarrow> int \<Rightarrow> judge_candidate \<Rightarrow> judged \<Rightarrow> judging \<Rightarrow> judging" where
  "place_judgment version seq c j0 g =
     (let j = guard_quote j0 (cited_spans c); v = (jp_artifact (jc_from c), jp_artifact (jc_to c), j) in
      if jd_bucket j = ''REJECTED'' then g\<lparr>jg_rejected := jg_rejected g + 1\<rparr>
      else (let g1 = g\<lparr>jg_kb := upsert_judge_edge version seq v (jg_kb g), jg_written := jg_written g @ [v]\<rparr> in
        if jd_bucket j \<in> INFERRED_EDGE_BUCKETS then g1\<lparr>jg_inferred := jg_inferred g1 + 1\<rparr>
        else g1\<lparr>jg_ambiguous := jg_ambiguous g1 + 1\<rparr>))"

fun judge_all :: "judge_model \<Rightarrow> string \<Rightarrow> string \<Rightarrow> int \<Rightarrow> judge_candidate list \<Rightarrow> judging \<Rightarrow> (exn + unit) \<times> judging" where
  "judge_all judge model version seq [] g = (Inr (), g)"
| "judge_all judge model version seq (c # cs) g =
     (case gated_judgment judge model c g of
        (Inl e, g1) \<Rightarrow> (Inl e, g1)
      | (Inr j, g1) \<Rightarrow> judge_all judge model version seq cs (place_judgment version seq c j g1))"

definition judging_start :: "kb \<Rightarrow> judging" where
  "judging_start k = \<lparr>jg_kb = k, jg_judged = 0, jg_hits = 0, jg_inferred = 0, jg_ambiguous = 0,
     jg_rejected = 0, jg_written = []\<rparr>"

definition run_judge :: "judge_model \<Rightarrow> string \<Rightarrow> string \<Rightarrow> int \<Rightarrow> kb \<Rightarrow> (exn + judge_stats) \<times> kb" where
  "run_judge judge model version seq k =
     (let cs = load_candidates version k in
      case judge_all judge model version seq cs (judging_start k) of
        (Inl e, g) \<Rightarrow> (Inl e, jg_kb g)
      | (Inr _, g) \<Rightarrow>
          (Inr \<lparr>js_candidates = length cs, js_judged = jg_judged g, js_hits = jg_hits g,
             js_inferred = jg_inferred g, js_ambiguous = jg_ambiguous g, js_rejected = jg_rejected g\<rparr>,
           if cs = [] then jg_kb g
           else snd (invalidate_stale_judgments seq (verdict_key ` set (jg_written g)) (jg_kb g))))"

section \<open>The judge as an edge writer\<close>

lemma refresh_judgment_simps [simp]:
  "edge_key (refresh_judgment ver v e) = edge_key e" "ke_id (refresh_judgment ver v e) = ke_id e"
  "ke_source (refresh_judgment ver v e) = ke_source e" "live_edge (refresh_judgment ver v e)"
  by (simp_all add: refresh_judgment_def edge_key_def live_edge_def split: prod.splits)

lemma insert_judgment_simps [simp]:
  "edge_key (insert_judgment u ver s v) = verdict_key v" "ke_id (insert_judgment u ver s v) = u"
  "ke_source (insert_judgment u ver s v) = Some ''llm_judge''" "live_edge (insert_judgment u ver s v)"
  by (simp_all add: insert_judgment_def edge_key_def verdict_key_def live_edge_def split: prod.splits)

lemma judge_put_live: "live_of ''llm_judge'' (upsert_judge_edge ver s v k) = insert (verdict_key v) (live_of ''llm_judge'' k)"
proof (cases "list_ex (judges v) (kb_edges k)")
  case True
  have "live_of ''llm_judge'' (k\<lparr>kb_edges := update_where (judges v) (refresh_judgment ver v) (kb_edges k)\<rparr>)
      = insert (verdict_key v) (live_of ''llm_judge'' k)"
    by (rule upsert_live_of [OF _ _ True]) (simp_all add: judges_def)
  with True show ?thesis by (simp add: upsert_judge_edge_def)
next
  case False
  then show ?thesis
    by (simp add: upsert_judge_edge_def append_live_of [OF prod.collapse [symmetric]] split_beta)
qed

lemma judge_put_ids: "edge_ids_ok k \<Longrightarrow> edge_ids_ok (upsert_judge_edge ver s v k)"
  by (simp add: upsert_judge_edge_def update_where_ids append_ids [OF _ prod.collapse [symmetric]] split_beta)

interpretation verdicts: edge_writer "''llm_judge''" verdict_key "upsert_judge_edge ver s" for ver s
  by unfold_locales (rule judge_put_live, erule judge_put_ids)

lemma judge_put_judgments:
  "upsert_judge_edge ver s v (k\<lparr>kb_judgments := J\<rparr>) = (upsert_judge_edge ver s v k)\<lparr>kb_judgments := J\<rparr>"
  by (simp add: upsert_judge_edge_def gen_random_uuid_def)

lemma judge_put_keeps [simp]:
  "kb_artifacts (upsert_judge_edge ver s v k) = kb_artifacts k" "kb_candidates (upsert_judge_edge ver s v k) = kb_candidates k"
  "kb_judgments (upsert_judge_edge ver s v k) = kb_judgments k"
  by (simp_all add: upsert_judge_edge_def gen_random_uuid_def)

lemma judge_puts_keep [simp]:
  "kb_artifacts (fold (upsert_judge_edge ver s) vs k) = kb_artifacts k"
  "kb_candidates (fold (upsert_judge_edge ver s) vs k) = kb_candidates k"
  by (induction vs arbitrary: k) simp_all

lemma judge_puts_judgments:
  "fold (upsert_judge_edge ver s) vs (k\<lparr>kb_judgments := J\<rparr>) = (fold (upsert_judge_edge ver s) vs k)\<lparr>kb_judgments := J\<rparr>"
  by (induction vs arbitrary: k) (simp_all add: judge_put_judgments)

section \<open>What one run writes\<close>

definition verdict_on :: "judge_candidate \<Rightarrow> verdict \<Rightarrow> bool" where
  "verdict_on c v \<longleftrightarrow> (case v of (f, t, j) \<Rightarrow> f = jp_artifact (jc_from c) \<and> t = jp_artifact (jc_to c)
     \<and> (jd_bucket j \<in> INFERRED_EDGE_BUCKETS \<longrightarrow> quote_is_grounded (jd_quote j) (cited_spans c)))"

lemma guard_quote_grounded:
  "jd_bucket (guard_quote j spans) \<in> INFERRED_EDGE_BUCKETS \<Longrightarrow> quote_is_grounded (jd_quote (guard_quote j spans)) spans"
  by (auto simp: guard_quote_def INFERRED_EDGE_BUCKETS_def split: if_splits)

lemma gated_judgment_kb:
  assumes "gated_judgment judge model c g = (r, g1)"
  obtains J where "jg_kb g1 = (jg_kb g)\<lparr>kb_judgments := J\<rparr>" "jg_written g1 = jg_written g"
proof -
  have "\<exists>J. jg_kb g1 = (jg_kb g)\<lparr>kb_judgments := J\<rparr> \<and> jg_written g1 = jg_written g"
    using assms by (auto simp: gated_judgment_def judgment_record_def split: option.splits sum.splits if_splits
        intro: exI [of _ "kb_judgments (jg_kb g)"])
  with that show thesis by blast
qed

lemma place_judgment_kb:
  obtains vs where "jg_kb (place_judgment ver s c j g) = fold (upsert_judge_edge ver s) vs (jg_kb g)"
    "jg_written (place_judgment ver s c j g) = jg_written g @ vs" "\<forall>v \<in> set vs. verdict_on c v"
proof (cases "jd_bucket (guard_quote j (cited_spans c)) = ''REJECTED''")
  case True
  then show thesis using that [of "[]"] by (simp add: place_judgment_def)
next
  case False
  let ?v = "(jp_artifact (jc_from c), jp_artifact (jc_to c), guard_quote j (cited_spans c))"
  have "verdict_on c ?v" using guard_quote_grounded by (simp add: verdict_on_def)
  then show thesis using that [of "[?v]"] False by (simp add: place_judgment_def Let_def)
qed

lemma judge_all_shape:
  assumes "judge_all judge model ver s cs g = (r, g')"
  shows "\<exists>vs J. jg_kb g' = (fold (upsert_judge_edge ver s) vs (jg_kb g))\<lparr>kb_judgments := J\<rparr>
    \<and> jg_written g' = jg_written g @ vs \<and> (\<forall>v \<in> set vs. \<exists>c \<in> set cs. verdict_on c v)"
  using assms
proof (induction judge model ver s cs g rule: judge_all.induct)
  case (1 judge model ver s g)
  then show ?case by (auto intro!: exI [of _ "[]"] exI [of _ "kb_judgments (jg_kb g)"])
next
  case (2 judge model ver s c cs g)
  obtain r1 g1 where g1: "gated_judgment judge model c g = (r1, g1)" by fastforce
  obtain J1 where J1: "jg_kb g1 = (jg_kb g)\<lparr>kb_judgments := J1\<rparr>" "jg_written g1 = jg_written g"
    using gated_judgment_kb [OF g1] .
  show ?case
  proof (cases r1)
    case (Inl e)
    then have "g' = g1" using 2(2) g1 by simp
    then show ?thesis using J1 by (auto intro!: exI [of _ "[]"] exI [of _ J1])
  next
    case (Inr j)
    obtain vs1 where v1: "jg_kb (place_judgment ver s c j g1) = fold (upsert_judge_edge ver s) vs1 (jg_kb g1)"
      "jg_written (place_judgment ver s c j g1) = jg_written g1 @ vs1" "\<forall>v \<in> set vs1. verdict_on c v"
      by (rule place_judgment_kb)
    have "judge_all judge model ver s cs (place_judgment ver s c j g1) = (r, g')" using 2(2) g1 Inr by simp
    from 2(1) [OF g1 [symmetric] Inr this] obtain vs J where
      "jg_kb g' = (fold (upsert_judge_edge ver s) vs (jg_kb (place_judgment ver s c j g1)))\<lparr>kb_judgments := J\<rparr>"
      "jg_written g' = jg_written (place_judgment ver s c j g1) @ vs" "\<forall>v \<in> set vs. \<exists>c \<in> set cs. verdict_on c v" by blast
    then have "jg_kb g' = (fold (upsert_judge_edge ver s) (vs1 @ vs) (jg_kb g))\<lparr>kb_judgments := J\<rparr>
      \<and> jg_written g' = jg_written g @ (vs1 @ vs) \<and> (\<forall>v \<in> set (vs1 @ vs). \<exists>c \<in> set (c # cs). verdict_on c v)"
      using v1 J1 by (auto simp: judge_puts_judgments)
    then show ?thesis by blast
  qed
qed

text \<open>A row of the judge after the writes: written by one of them, or of a pair none of them names.\<close>

definition carries :: "verdict \<Rightarrow> kb_edge \<Rightarrow> bool" where
  "carries v e \<longleftrightarrow> judges v e \<and> ke_trust e = jd_bucket (snd (snd v)) \<and> ke_evidence e = Some (evidence_pointer (snd (snd v)))"

lemma carries_put:
  assumes "e \<in> set (kb_edges (upsert_judge_edge ver s v k))" "ke_source e = Some ''llm_judge''"
  shows "carries v e \<or> e \<in> set (kb_edges k) \<and> edge_key e \<noteq> verdict_key v"
proof -
  obtain f t j where v: "v = (f, t, j)" by (cases v)
  have "carries v (refresh_judgment ver v e0)" if "judges v e0" for e0
    using that by (simp add: carries_def judges_def) (simp add: v refresh_judgment_def)
  moreover have "carries v (insert_judgment u ver s v)" for u
    by (simp add: carries_def judges_def) (simp add: v insert_judgment_def)
  ultimately show ?thesis using assms
    by (auto simp: upsert_judge_edge_def gen_random_uuid_def set_update_where list_ex_iff judges_def split: if_splits)
qed

lemma carries_puts:
  "e \<in> set (kb_edges (fold (upsert_judge_edge ver s) vs k)) \<Longrightarrow> ke_source e = Some ''llm_judge'' \<Longrightarrow>
   (\<exists>v \<in> set vs. carries v e) \<or> e \<in> set (kb_edges k) \<and> edge_key e \<notin> verdict_key ` set vs"
proof (induction vs arbitrary: k)
  case (Cons v vs)
  then have "(\<exists>v \<in> set vs. carries v e) \<or> e \<in> set (kb_edges (upsert_judge_edge ver s v k)) \<and> edge_key e \<notin> verdict_key ` set vs"
    by simp
  with carries_put [of e ver s v k] Cons.prems(2) show ?case by auto
qed simp

lemma invalidate_where_live:
  "e \<in> set (kb_edges (snd (invalidate_where st s k))) \<Longrightarrow> live_edge e \<Longrightarrow> e \<in> set (kb_edges k)"
  by (auto simp: invalidate_where_def Let_def live_edge_def set_update_where split: if_splits)

text \<open>The live edges of the judge, after a run that had candidates, are the ones it wrote.\<close>

lemma run_judge_writes:
  assumes "edge_ids_ok k" "load_candidates ver k \<noteq> []" "run_judge judge model ver s k = (Inr st, k')"
  obtains vs J where "\<forall>v \<in> set vs. \<exists>c \<in> set (load_candidates ver k). verdict_on c v"
    "k' = snd (invalidate_stale_judgments s (verdict_key ` set vs) ((fold (upsert_judge_edge ver s) vs k)\<lparr>kb_judgments := J\<rparr>))"
proof -
  obtain g where g: "judge_all judge model ver s (load_candidates ver k) (judging_start k) = (Inr (), g)"
    using assms(3) by (auto simp: run_judge_def Let_def split: sum.splits prod.splits)
  obtain vs J where "jg_kb g = (fold (upsert_judge_edge ver s) vs k)\<lparr>kb_judgments := J\<rparr>" "jg_written g = vs"
    "\<forall>v \<in> set vs. \<exists>c \<in> set (load_candidates ver k). verdict_on c v"
    using judge_all_shape [OF g] by (auto simp: judging_start_def)
  moreover have "k' = snd (invalidate_stale_judgments s (verdict_key ` set (jg_written g)) (jg_kb g))"
    using g assms(2,3) by (simp add: run_judge_def)
  ultimately show thesis using that by metis
qed

lemma run_judge_exact:
  assumes "edge_ids_ok k" "load_candidates ver k \<noteq> []" "run_judge judge model ver s k = (Inr st, k')"
  shows "\<exists>vs. live_of ''llm_judge'' k' = verdict_key ` set vs
    \<and> (\<forall>v \<in> set vs. \<exists>c \<in> set (load_candidates ver k). verdict_on c v)"
proof -
  obtain vs J where vs: "\<forall>v \<in> set vs. \<exists>c \<in> set (load_candidates ver k). verdict_on c v"
    and k': "k' = snd (invalidate_stale_judgments s (verdict_key ` set vs) ((fold (upsert_judge_edge ver s) vs k)\<lparr>kb_judgments := J\<rparr>))"
    using run_judge_writes [OF assms] .
  have "edge_ids_ok (k\<lparr>kb_judgments := J\<rparr>)" using assms(1) by (simp add: edge_ids_ok_def)
  from verdicts.reconciled_exact [OF this, of "stale_judge_edge (verdict_key ` set vs)" vs s ver s]
  have "live_of ''llm_judge'' k' = verdict_key ` set vs"
    by (simp add: k' invalidate_stale_judgments_def judge_puts_judgments stale_judge_edge_def)
  with vs show ?thesis by blast
qed

lemma load_candidates_bodies:
  assumes "c \<in> set (load_candidates ver k)"
  obtains a b where "a \<in> set (kb_artifacts k)" "b \<in> set (kb_artifacts k)" "ka_id a = jp_artifact (jc_from c)"
    "ka_id b = jp_artifact (jc_to c)" "ka_body a = Some (jp_evidence (jc_from c))" "ka_body b = Some (jp_evidence (jc_to c))"
proof -
  obtain a b where ab: "a \<in> set (kb_artifacts k)" "b \<in> set (kb_artifacts k)" "c \<in> set (judge_candidate_of a b)"
    using assms by (auto simp: load_candidates_def)
  from ab(3) have "ka_id a = jp_artifact (jc_from c)" "ka_id b = jp_artifact (jc_to c)"
    "ka_body a = Some (jp_evidence (jc_from c))" "ka_body b = Some (jp_evidence (jc_to c))"
    by (auto simp: judge_candidate_of_def judge_endpoint_of_def split: option.splits list.splits)
  with ab show thesis using that by blast
qed

text \<open>
  The quote guard holds of the registry, whatever the model and the cache said: a live inferred edge
  quotes the body of one of its two artifacts.
\<close>

definition quotes_source :: "kb \<Rightarrow> kb_edge \<Rightarrow> bool" where
  "quotes_source k e \<longleftrightarrow> (\<exists>a \<in> set (kb_artifacts k). \<exists>b \<in> set (kb_artifacts k). \<exists>q x y.
     ka_id a = ke_from e \<and> ka_id b = ke_to e \<and> ka_body a = Some x \<and> ka_body b = Some y
     \<and> ke_evidence e = Some (JObj [(''quote'', JStr q), (''judge_prompt_version'', JStr JUDGE_PROMPT_VERSION)])
     \<and> quote_is_grounded q [x, y])"

lemma run_judge_quotes:
  assumes ok: "edge_ids_ok k" "load_candidates ver k \<noteq> []" "run_judge judge model ver s k = (Inr st, k')"
    and e: "e \<in> set (kb_edges k')" "ke_source e = Some ''llm_judge''" "live_edge e" "ke_trust e \<in> INFERRED_EDGE_BUCKETS"
  shows "quotes_source k' e"
proof -
  obtain vs J where vs: "\<forall>v \<in> set vs. \<exists>c \<in> set (load_candidates ver k). verdict_on c v"
    and k': "k' = snd (invalidate_stale_judgments s (verdict_key ` set vs) ((fold (upsert_judge_edge ver s) vs k)\<lparr>kb_judgments := J\<rparr>))"
    using run_judge_writes [OF ok] .
  have art: "kb_artifacts k' = kb_artifacts k"
    by (simp add: k' invalidate_stale_judgments_def invalidate_where_def Let_def)
  have "e \<in> set (kb_edges (fold (upsert_judge_edge ver s) vs k))"
    using invalidate_where_live [OF e(1) [unfolded k' invalidate_stale_judgments_def] e(3)] by simp
  from carries_puts [OF this e(2)] have "(\<exists>v \<in> set vs. carries v e) \<or> edge_key e \<notin> verdict_key ` set vs" by blast
  moreover have "live_of ''llm_judge'' k' = verdict_key ` set vs"
    using verdicts.reconciled_exact [of "k\<lparr>kb_judgments := J\<rparr>" "stale_judge_edge (verdict_key ` set vs)" vs s ver s] ok(1)
    by (simp add: k' invalidate_stale_judgments_def judge_puts_judgments stale_judge_edge_def edge_ids_ok_def)
  then have "edge_key e \<in> verdict_key ` set vs" using e by (auto simp: live_of_def)
  ultimately obtain v where v: "v \<in> set vs" "carries v e" by blast
  obtain c where c: "c \<in> set (load_candidates ver k)" "verdict_on c v" using vs v(1) by blast
  obtain f t j where fj: "v = (f, t, j)" by (cases v)
  have "quote_is_grounded (jd_quote j) [jp_evidence (jc_from c), jp_evidence (jc_to c)]"
    using c(2) v(2) e(4) by (simp add: fj verdict_on_def carries_def cited_spans_def)
  moreover have "ke_from e = jp_artifact (jc_from c)" "ke_to e = jp_artifact (jc_to c)"
    using c(2) v(2) by (auto simp: fj verdict_on_def carries_def judges_def edge_key_def verdict_key_def)
  moreover have "ke_evidence e = Some (evidence_pointer j)" using v(2) by (simp add: fj carries_def)
  moreover obtain a b where "a \<in> set (kb_artifacts k)" "b \<in> set (kb_artifacts k)" "ka_id a = jp_artifact (jc_from c)"
    "ka_id b = jp_artifact (jc_to c)" "ka_body a = Some (jp_evidence (jc_from c))" "ka_body b = Some (jp_evidence (jc_to c))"
    using load_candidates_bodies [OF c(1)] .
  ultimately show ?thesis unfolding quotes_source_def art evidence_pointer_def by metis
qed

section \<open>A second run calls no model\<close>

lemma judgment_record_keeps:
  "map_of (kb_judgments k) key = Some j \<Longrightarrow> map_of (kb_judgments (judgment_record key' j' k)) key = Some j"
  by (auto simp: judgment_record_def map_add_def)

lemma judgment_record_new: "map_of (kb_judgments k) key = None \<Longrightarrow> map_of (kb_judgments (judgment_record key j k)) key = Some j"
  by (auto simp: judgment_record_def map_add_def)

lemma place_judgment_keeps [simp]:
  "kb_judgments (jg_kb (place_judgment ver s c j g)) = kb_judgments (jg_kb g)"
  "jg_judged (place_judgment ver s c j g) = jg_judged g" "jg_hits (place_judgment ver s c j g) = jg_hits g"
  by (simp_all add: place_judgment_def Let_def)

definition settled :: "string \<Rightarrow> kb \<Rightarrow> judge_candidate \<Rightarrow> bool" where
  "settled model k c \<longleftrightarrow> (\<exists>j. judgment_lookup (candidate_key model c) k = Some j \<and> relationship_judgment j = Inr j)"

lemma relationship_judgment_id: "relationship_judgment j = Inr j' \<Longrightarrow> j' = j \<and> relationship_judgment j = Inr j"
  by (simp add: relationship_judgment_def split: if_splits)

lemma gated_settles:
  assumes "gated_judgment judge model c g = (Inr j, g1)"
  shows "settled model (jg_kb g1) c" "settled model (jg_kb g) c' \<Longrightarrow> settled model (jg_kb g1) c'"
    "jg_judged g1 + jg_hits g1 = jg_judged g + jg_hits g + 1"
proof -
  show "settled model (jg_kb g1) c"
  proof (cases "judgment_lookup (candidate_key model c) (jg_kb g)")
    case None
    with assms obtain raw where raw: "relationship_judgment raw = Inr j"
      "jg_kb g1 = judgment_record (candidate_key model c) j (jg_kb g)"
      by (auto simp: gated_judgment_def split: sum.splits)
    with None relationship_judgment_id [OF raw(1)] show ?thesis
      by (simp add: settled_def judgment_lookup_def judgment_record_new)
  next
    case (Some hit)
    with assms have "relationship_judgment hit = Inr j" "jg_kb g1 = jg_kb g" by (auto simp: gated_judgment_def)
    with Some relationship_judgment_id show ?thesis by (auto simp: settled_def)
  qed
  have "jg_kb g1 = jg_kb g \<or> jg_kb g1 = judgment_record (candidate_key model c) j (jg_kb g)"
    using assms by (auto simp: gated_judgment_def split: option.splits sum.splits)
  then show "settled model (jg_kb g1) c'" if "settled model (jg_kb g) c'"
    using that judgment_record_keeps [of "jg_kb g" "candidate_key model c'"]
    unfolding settled_def judgment_lookup_def by metis
  show "jg_judged g1 + jg_hits g1 = jg_judged g + jg_hits g + 1"
    using assms by (auto simp: gated_judgment_def split: option.splits sum.splits)
qed

lemma settled_place [simp]: "settled model (jg_kb (place_judgment ver s c j g)) = settled model (jg_kb g)"
  by (simp add: settled_def judgment_lookup_def fun_eq_iff)

lemma judge_all_settles:
  assumes "judge_all judge model ver s cs g = (Inr (), g')"
  shows "(\<forall>c \<in> set cs. settled model (jg_kb g') c) \<and> (\<forall>c. settled model (jg_kb g) c \<longrightarrow> settled model (jg_kb g') c)
    \<and> jg_judged g' + jg_hits g' = jg_judged g + jg_hits g + length cs"
  using assms
proof (induction judge model ver s cs g rule: judge_all.induct)
  case (2 judge model ver s c cs g)
  obtain j g1 where g1: "gated_judgment judge model c g = (Inr j, g1)"
    using 2(2) by (auto split: sum.splits prod.splits)
  have "judge_all judge model ver s cs (place_judgment ver s c j g1) = (Inr (), g')" using 2(2) g1 by simp
  from 2(1) [OF g1 [symmetric] refl this] gated_settles [OF g1] show ?case by auto
qed simp

lemma judge_all_hits:
  assumes "\<forall>c \<in> set cs. settled model (jg_kb g) c"
  shows "\<exists>g'. judge_all judge model ver s cs g = (Inr (), g') \<and> jg_judged g' = jg_judged g"
  using assms
proof (induction cs arbitrary: g)
  case (Cons c cs)
  then obtain j where j: "judgment_lookup (candidate_key model c) (jg_kb g) = Some j" "relationship_judgment j = Inr j"
    by (auto simp: settled_def)
  let ?g1 = "g\<lparr>jg_hits := jg_hits g + 1\<rparr>"
  have "gated_judgment judge model c g = (Inr j, ?g1)" using j by (simp add: gated_judgment_def)
  moreover have "\<forall>c \<in> set cs. settled model (jg_kb (place_judgment ver s c' j ?g1)) c" for c' using Cons.prems by simp
  from Cons.IH [OF this] obtain g' where
    "judge_all judge model ver s cs (place_judgment ver s c j ?g1) = (Inr (), g')" "jg_judged g' = jg_judged g" by auto
  ultimately show ?case by simp
qed simp

lemma run_judge_again:
  assumes "run_judge judge model ver s k = (Inr st, k')"
  shows "js_judged st + js_hits st = js_candidates st"
    and "\<exists>st' k''. run_judge judge' model ver s' k' = (Inr st', k'') \<and> js_judged st' = 0 \<and> js_hits st' = js_candidates st"
proof -
  let ?cs = "load_candidates ver k"
  obtain g where g: "judge_all judge model ver s ?cs (judging_start k) = (Inr (), g)"
    using assms by (auto simp: run_judge_def Let_def split: sum.splits prod.splits)
  have st: "js_judged st = jg_judged g" "js_hits st = jg_hits g" "js_candidates st = length ?cs"
    and k': "k' = (if ?cs = [] then jg_kb g else snd (invalidate_stale_judgments s (verdict_key ` set (jg_written g)) (jg_kb g)))"
    using assms g by (auto simp: run_judge_def Let_def)
  note settle = judge_all_settles [OF g]
  then show "js_judged st + js_hits st = js_candidates st" by (simp add: st judging_start_def)
  have keep: "kb_judgments k' = kb_judgments (jg_kb g)" "kb_artifacts k' = kb_artifacts (jg_kb g)" "kb_candidates k' = kb_candidates (jg_kb g)"
    by (simp_all add: k' invalidate_stale_judgments_def invalidate_where_def Let_def)
  obtain vs J where "jg_kb g = (fold (upsert_judge_edge ver s) vs k)\<lparr>kb_judgments := J\<rparr>"
    using judge_all_shape [OF g] by (auto simp: judging_start_def)
  then have cs: "load_candidates ver k' = ?cs" by (simp add: load_candidates_def keep)
  have "\<forall>c \<in> set ?cs. settled model (jg_kb (judging_start k')) c"
    using settle by (simp add: settled_def judgment_lookup_def keep judging_start_def)
  from judge_all_hits [OF this, of judge' ver s'] obtain g' where
    g': "judge_all judge' model ver s' ?cs (judging_start k') = (Inr (), g')" "jg_judged g' = 0" 
    unfolding judging_start_def by fastforce
  with judge_all_settles [OF g'(1)] show "\<exists>st' k''. run_judge judge' model ver s' k' = (Inr st', k'') \<and> js_judged st' = 0 \<and> js_hits st' = js_candidates st"
    by (simp add: run_judge_def Let_def cs st(3) judging_start_def)
qed

end
