(* ===== verification/Centrality.thy ===== *)
theory Centrality
  imports BuildTables
begin

text \<open>
  Graph centrality (\<open>application/centrality.py\<close>): PageRank over the live graph, scaled to a
  peak of one, and its write into the member artifacts. Floats are reals; node ids are the
  UUID strings the code ranks.
\<close>

section \<open>PageRank\<close>

definition DAMPING :: real where "DAMPING = 85 / 100"
definition MAX_ITERATIONS :: nat where "MAX_ITERATIONS = 100"
definition TOLERANCE :: real where "TOLERANCE = 1 / 10 ^ 9"

type_synonym rank_vec = "string \<Rightarrow> real"

definition out_edges :: "(string \<times> string) list \<Rightarrow> string list \<Rightarrow> string \<Rightarrow> string list" where
  "out_edges es nodes u = sort (map snd (filter (\<lambda>(a, b). a = u \<and> a \<in> set nodes \<and> b \<in> set nodes) es))"

definition dangling_mass :: "(string \<Rightarrow> string list) \<Rightarrow> string list \<Rightarrow> rank_vec \<Rightarrow> real" where
  "dangling_mass out nodes r = sum_list (map r (filter (\<lambda>u. out u = []) nodes))"

text \<open>\<open>for v in outs: nxt[v] += share\<close>, for every node in order.\<close>

definition give :: "real \<Rightarrow> string list \<Rightarrow> rank_vec \<Rightarrow> rank_vec" where
  "give share outs nxt = fold (\<lambda>v nxt. nxt(v := nxt v + share)) outs nxt"

definition spread :: "(string \<Rightarrow> string list) \<Rightarrow> rank_vec \<Rightarrow> string list \<Rightarrow> rank_vec \<Rightarrow> rank_vec" where
  "spread out r nodes nxt =
     fold (\<lambda>u nxt. if out u = [] then nxt else give (DAMPING * r u / real (length (out u))) (out u) nxt) nodes nxt"

definition rank_step :: "(string \<Rightarrow> string list) \<Rightarrow> string list \<Rightarrow> rank_vec \<Rightarrow> rank_vec" where
  "rank_step out nodes r =
     (let n = real (length nodes);
          base = (1 - DAMPING) / n + DAMPING * dangling_mass out nodes r / n
      in spread out r nodes (\<lambda>_. base))"

fun iterate_rank :: "nat \<Rightarrow> (string \<Rightarrow> string list) \<Rightarrow> string list \<Rightarrow> rank_vec \<Rightarrow> rank_vec" where
  "iterate_rank 0 out nodes r = r"
| "iterate_rank (Suc i) out nodes r =
     (let nxt = rank_step out nodes r
      in if sum_list (map (\<lambda>u. \<bar>nxt u - r u\<bar>) nodes) < TOLERANCE then nxt
         else iterate_rank i out nodes nxt)"

definition scale :: "string list \<Rightarrow> rank_vec \<Rightarrow> (string, real) dict" where
  "scale nodes r =
     (let peak = Max (r ` set nodes)
      in if peak \<le> 0 then map (\<lambda>u. (u, 0)) nodes else map (\<lambda>u. (u, r u / peak)) nodes)"

definition pagerank :: "(string \<times> string) list \<Rightarrow> string list \<Rightarrow> (string, real) dict" where
  "pagerank es node_ids =
     (let nodes = sort (remdups node_ids); n = length nodes
      in if n = 0 then []
         else if filter (\<lambda>(a, b). a \<in> set nodes \<and> b \<in> set nodes) es = [] then map (\<lambda>u. (u, 0)) nodes
         else scale nodes (iterate_rank MAX_ITERATIONS (out_edges es nodes) nodes (\<lambda>_. 1 / real n)))"

section \<open>The write\<close>

definition run_centrality :: "int \<Rightarrow> kb \<Rightarrow> nat \<times> kb" where
  "run_centrality s k =
     (let nodes = remdups (map (\<lambda>a. uuid_str (ka_id a)) (filter (in_version s) (kb_artifacts k)));
          es = map (\<lambda>e. (uuid_str (ke_from e), uuid_str (ke_to e))) (filter (edge_in_version s) (kb_edges k));
          scores = pagerank es nodes
      in (length nodes, k\<lparr>kb_artifacts := map (\<lambda>a. case map_of scores (uuid_str (ka_id a)) of
             Some x \<Rightarrow> a\<lparr>ka_centrality := Some x\<rparr> | None \<Rightarrow> a) (kb_artifacts k)\<rparr>))"

section \<open>The mass of a rank vector\<close>

definition mass :: "string list \<Rightarrow> rank_vec \<Rightarrow> real" where
  "mass nodes r = sum_list (map r nodes)"

lemma mass_upd:
  "distinct nodes \<Longrightarrow> v \<in> set nodes \<Longrightarrow> mass nodes (r(v := r v + x)) = mass nodes r + x"
proof (induction nodes)
  case (Cons a nodes)
  show ?case
  proof (cases "a = v")
    case True
    have "map (r(v := r v + x)) nodes = map r nodes" using Cons.prems(1) True by (intro map_cong) auto
    then have "mass nodes (r(v := r v + x)) = mass nodes r" unfolding mass_def by (rule arg_cong)
    moreover have "mass (a # nodes) f = f a + mass nodes f" for f by (simp add: mass_def)
    ultimately show ?thesis using True by (simp only: fun_upd_same)
  next
    case False with Cons show ?thesis by (simp add: mass_def)
  qed
qed simp

lemma mass_give:
  "distinct nodes \<Longrightarrow> set outs \<subseteq> set nodes \<Longrightarrow> mass nodes (give share outs r) = mass nodes r + real (length outs) * share"
proof (induction outs arbitrary: r)
  case (Cons v outs)
  then have "mass nodes (give share outs (r(v := r v + share))) = mass nodes (r(v := r v + share)) + real (length outs) * share"
    by simp
  also have "\<dots> = mass nodes r + share + real (length outs) * share" using Cons.prems by (simp add: mass_upd)
  finally show ?case by (simp add: give_def algebra_simps)
qed (simp add: give_def)

lemma mass_spread:
  assumes "distinct nodes" and "\<And>u. set (out u) \<subseteq> set nodes"
  shows "mass nodes (spread out r us nxt) = mass nodes nxt + DAMPING * (mass us r - dangling_mass out us r)"
proof (induction us arbitrary: nxt)
  case (Cons u us)
  show ?case
  proof (cases "out u = []")
    case True
    with Cons [of nxt] show ?thesis by (simp add: spread_def mass_def dangling_mass_def)
  next
    case False
    let ?n = "give (DAMPING * r u / real (length (out u))) (out u) nxt"
    have "mass nodes ?n = mass nodes nxt + DAMPING * r u" using False assms by (simp add: mass_give)
    moreover have "spread out r (u # us) nxt = spread out r us ?n" using False by (simp add: spread_def)
    ultimately show ?thesis using Cons [of ?n] False
      by (simp add: mass_def dangling_mass_def algebra_simps)
  qed
qed (simp add: spread_def mass_def dangling_mass_def)

lemma mass_step:
  assumes "distinct nodes" and "nodes \<noteq> []" and "\<And>u. set (out u) \<subseteq> set nodes"
  shows "mass nodes (rank_step out nodes r) = 1 - DAMPING + DAMPING * mass nodes r"
proof -
  have "mass nodes (\<lambda>_. c) = real (length nodes) * c" for c by (simp add: mass_def sum_list_triv)
  then show ?thesis using assms
    by (simp add: rank_step_def Let_def mass_spread) (simp add: field_simps)
qed

lemma mass_iterate:
  assumes "distinct nodes" and "nodes \<noteq> []" and "\<And>u. set (out u) \<subseteq> set nodes" and "mass nodes r = 1"
  shows "mass nodes (iterate_rank i out nodes r) = 1"
  using assms(4)
proof (induction i arbitrary: r)
  case (Suc i)
  then have "mass nodes (rank_step out nodes r) = 1" by (simp add: mass_step [OF assms(1-3)])
  with Suc.IH show ?case by (simp add: Let_def)
qed simp

section \<open>Ranks stay nonnegative, scores lie in [0, 1]\<close>

lemma give_mono: "0 \<le> share \<Longrightarrow> nxt v \<le> give share outs nxt v"
proof (induction outs arbitrary: nxt)
  case (Cons w outs)
  have "nxt v \<le> (nxt(w := nxt w + share)) v" using Cons.prems by simp
  also have "\<dots> \<le> give share outs (nxt(w := nxt w + share)) v" by (rule Cons) (rule Cons.prems)
  finally show ?case by (simp add: give_def)
qed (simp add: give_def)

lemma spread_mono:
  assumes "\<And>u. 0 \<le> r u" shows "nxt v \<le> spread out r us nxt v"
proof (induction us arbitrary: nxt)
  case (Cons u us)
  let ?n = "if out u = [] then nxt else give (DAMPING * r u / real (length (out u))) (out u) nxt"
  have "nxt v \<le> ?n v" using assms [of u] by (simp add: give_mono DAMPING_def)
  also have "\<dots> \<le> spread out r us ?n v" by (rule Cons)
  finally show ?case by (simp add: spread_def)
qed (simp add: spread_def)

lemma rank_step_nonneg:
  assumes "\<And>u. 0 \<le> r u" shows "0 \<le> rank_step out nodes r v"
proof -
  have "0 \<le> dangling_mass out nodes r" unfolding dangling_mass_def by (rule sum_list_nonneg) (use assms in auto)
  then have "0 \<le> (1 - DAMPING) / real (length nodes) + DAMPING * dangling_mass out nodes r / real (length nodes)"
    by (simp add: DAMPING_def)
  also have "\<dots> \<le> rank_step out nodes r v" unfolding rank_step_def Let_def by (rule spread_mono [OF assms])
  finally show ?thesis .
qed

lemma iterate_nonneg: "(\<And>u. 0 \<le> r u) \<Longrightarrow> 0 \<le> iterate_rank i out nodes r v"
proof (induction i arbitrary: r)
  case (Suc i)
  then have "\<And>u. 0 \<le> rank_step out nodes r u" by (intro rank_step_nonneg)
  with Suc.IH show ?case by (simp add: Let_def)
qed simp

lemma scale_bounds:
  assumes "\<And>u. 0 \<le> r u" and "(u, x) \<in> set (scale nodes r)" shows "0 \<le> x \<and> x \<le> 1"
proof (cases "Max (r ` set nodes) \<le> 0")
  case True with assms(2) show ?thesis by (auto simp: scale_def)
next
  case False
  with assms(2) have x: "x = r u / Max (r ` set nodes)" "u \<in> set nodes" by (auto simp: scale_def)
  then have "r u \<le> Max (r ` set nodes)" by simp
  with x False assms(1) [of u] show ?thesis by simp
qed

lemma pagerank_bounds:
  assumes "(u, x) \<in> set (pagerank es ns)" shows "0 \<le> x \<and> x \<le> 1"
proof -
  have nonneg: "0 \<le> iterate_rank i out nodes (\<lambda>_. 1 / real n) v" for i out nodes n v
    by (rule iterate_nonneg) simp
  show ?thesis using assms scale_bounds [OF nonneg] unfolding pagerank_def Let_def
    by (auto split: if_splits)
qed

lemma out_edges_subset: "set (out_edges es nodes u) \<subseteq> set nodes"
  by (auto simp: out_edges_def)

text \<open>An edge inside the graph gives a peak: some node scores one.\<close>

lemma sum_list_nonpos': "(\<And>u. u \<in> set us \<Longrightarrow> r u \<le> (0 :: real)) \<Longrightarrow> sum_list (map r us) \<le> 0"
  by (induction us) (auto intro: add_nonpos_nonpos)

lemma pagerank_peak:
  assumes e: "(a, b) \<in> set es" "a \<in> set ns" "b \<in> set ns"
  shows "\<exists>u. (u, 1) \<in> set (pagerank es ns)"
proof -
  define nodes where "nodes = sort (remdups ns)"
  have nodes: "distinct nodes" "set nodes = set ns" by (simp_all add: nodes_def)
  have ne0: "nodes \<noteq> []" using e(2) nodes(2) by auto
  define r where "r = iterate_rank MAX_ITERATIONS (out_edges es nodes) nodes (\<lambda>_. 1 / real (length nodes))"
  have "mass nodes (\<lambda>_. 1 / real (length nodes)) = 1" using ne0 by (simp add: mass_def sum_list_triv)
  then have mass: "mass nodes r = 1" unfolding r_def by (rule mass_iterate [OF nodes(1) ne0 out_edges_subset])
  have peak: "0 < Max (r ` set nodes)"
  proof (rule ccontr)
    assume "\<not> 0 < Max (r ` set nodes)"
    then have "r u \<le> 0" if "u \<in> set nodes" for u using that
      by (meson Max_ge List.finite_set finite_imageI imageI linorder_not_less order_trans)
    then have "mass nodes r \<le> 0" unfolding mass_def by (rule sum_list_nonpos') 
    with mass show False by simp
  qed
  have "Max (r ` set nodes) \<in> r ` set nodes" using ne0 by (intro Max_in) auto
  then obtain u where u: "u \<in> set nodes" "r u = Max (r ` set nodes)" by auto
  have ne: "filter (\<lambda>(a, b). a \<in> set nodes \<and> b \<in> set nodes) es \<noteq> []"
    using e nodes(2) by (auto simp: filter_empty_conv)
  have "pagerank es ns = scale nodes r" using ne0 ne
    by (simp add: pagerank_def Let_def nodes_def [symmetric] r_def)
  moreover have "(u, 1) \<in> set (scale nodes r)" using u peak by (force simp: scale_def Let_def)
  ultimately show ?thesis by metis
qed

lemma pagerank_keys: "fst ` set (pagerank es ns) = set ns"
proof -
  have "fst ` set (scale nodes r) = set nodes" for nodes r by (simp add: scale_def Let_def image_image)
  moreover have "sort (remdups ns) = [] \<longleftrightarrow> ns = []" by (metis set_empty2 set_remdups set_sort)
  ultimately show ?thesis by (simp add: pagerank_def Let_def image_image)
qed

end
