(* ===== verification/BuildRun.thy ===== *)
theory BuildRun
  imports BuildSources LedgerMining Judge Invalidation Centrality
begin

text \<open>
  One build from start to activation (kb-builder, \<open>application/build_runner.py\<close>, \<open>build.py\<close>,
  \<open>application/builder_lock.py\<close>): the run row, the sources, the finalization of the graph, the index, the
  outcome, and the publish gates. \<open>bw_seq\<close> is the database sequence \<open>kb_build_seq\<close>, which no rollback resets.
\<close>

section \<open>What a build is given\<close>

text \<open>
  Beside the collaborators of the sources: the semantic provider over the registry as it is when asked, the
  judge with its name and parameters, the window and the events of the ledger step, the clock of the
  process, and the text of an exception.
\<close>

record 'i run_env =
  re_build :: "'i build_env"
  re_similarity :: "(kb \<Rightarrow> similarity_provider) option"
  re_judge :: "(judge_model \<times> string \<times> string) option"
  re_window :: int
  re_events :: "miss_event list"
  re_now :: int
  re_error_text :: "exn \<Rightarrow> string"

definition kbR :: "(kb \<Rightarrow> (exn + 'a) \<times> kb) \<Rightarrow> ('i bworld, 'a) op" where
  "kbR f w = (let (r, k) = f (bw_kb w) in (r, w\<lparr>bw_kb := k\<rparr>))"

section \<open>The run row\<close>

definition new_run :: "uuid \<Rightarrow> string \<Rightarrow> int \<Rightarrow> int \<Rightarrow> kb_run" where
  "new_run u version seq t = \<lparr>br_kb_version = version, br_build_seq = seq, br_status = ''running'', br_id = u,
     br_started_at = t, br_completed_at = None, br_counters = no_counters, br_error = None,
     br_allow_large_delta = False, br_failed_gate = None, br_gate_value = None\<rparr>"

definition add_run :: "string \<Rightarrow> int \<Rightarrow> int \<Rightarrow> kb \<Rightarrow> uuid \<times> kb" where
  "add_run version seq t k = (let (u, k1) = gen_random_uuid k in (u, k1\<lparr>kb_runs := kb_runs k1 @ [new_run u version seq t]\<rparr>))"

definition nextvalM :: "('i bworld, int) op" where
  "nextvalM = bindM (modM (\<lambda>w. w\<lparr>bw_seq := bw_seq w + 1\<rparr>)) (\<lambda>_. getM bw_seq)"

definition start_run :: "'i run_env \<Rightarrow> ('i bworld, uuid \<times> int \<times> int) op" where
  "start_run env = bindM nextvalM (\<lambda>seq. bindM (nowM (re_build env)) (\<lambda>t.
     bindM (kbM (add_run (be_version (re_build env)) seq t)) (\<lambda>u. bindM commitM (\<lambda>_. ret (u, seq, t)))))"

definition assert_run_row_alive :: "uuid \<Rightarrow> ('i bworld, unit) op" where
  "assert_run_row_alive u = bindM (getM (\<lambda>w. get_run (bw_kb w) u)) (\<lambda>r.
     if r = None then raise (RuntimeError ''BuildEnvironmentLostError'') else ret ())"

definition close_run :: "uuid \<Rightarrow> string \<Rightarrow> string option \<Rightarrow> int \<Rightarrow> counters \<Rightarrow> kb \<Rightarrow> kb" where
  "close_run u status err t c k = k\<lparr>kb_runs := update_where (\<lambda>r. br_id r = u)
     (\<lambda>r. r\<lparr>br_status := status, br_error := err, br_completed_at := Some t, br_counters := c\<rparr>) (kb_runs k)\<rparr>"

definition finish_run :: "'i run_env \<Rightarrow> uuid \<Rightarrow> string \<Rightarrow> string option \<Rightarrow> ('i bworld, unit) op" where
  "finish_run env u status err = bindM (nowM (re_build env)) (\<lambda>t. bindM (getM bw_counters) (\<lambda>c.
     kbM (\<lambda>k. ((), close_run u status err t c k))))"

section \<open>The graph and the index\<close>

definition similarity_of :: "'i run_env \<Rightarrow> kb \<Rightarrow> similarity_provider option" where
  "similarity_of env k = map_option (\<lambda>f. f k) (re_similarity env)"

definition judge_step :: "'i run_env \<Rightarrow> int \<Rightarrow> ('i bworld, unit) op" where
  "judge_step env seq = (case re_judge env of None \<Rightarrow> ret ()
     | Some (judge, name, params) \<Rightarrow>
         bindM (kbR (run_judge judge (name @ ''|'' @ params) (be_version (re_build env)) seq)) (\<lambda>_. ret ()))"

definition linker_step :: "'i run_env \<Rightarrow> int \<Rightarrow> ('i bworld, unit) op" where
  "linker_step env seq = (let version = be_version (re_build env) in
     bindM (kbR (\<lambda>k. run_linker version seq (similarity_of env k) k)) (\<lambda>_.
     bindM (kbR (\<lambda>k. run_candidate_generator version (similarity_of env k) k)) (\<lambda>_. judge_step env seq)))"

definition count_ledger :: "ledger_result \<Rightarrow> counters \<Rightarrow> counters" where
  "count_ledger r c = c\<lparr>misses_seen := lr_misses r, mined := lr_mined r, unresolved_misses := lr_unresolved r\<rparr>"

definition alias_step :: "'i run_env \<Rightarrow> int \<Rightarrow> ('i bworld, unit) op" where
  "alias_step env seq = (let version = be_version (re_build env) in
     bindM (nowM (re_build env)) (\<lambda>t.
     bindM (kbE (run_alias_miner version seq t)) (\<lambda>_.
     bindM (kbM (run_ledger_alias_miner version seq t (re_now env) (re_window env) (re_events env))) (\<lambda>r.
     countM (count_ledger r)))))"

definition finalize_graph :: "'i run_env \<Rightarrow> int \<Rightarrow> int \<Rightarrow> source_marks \<Rightarrow> ('i bworld, unit) op" where
  "finalize_graph env seq started m =
     bindM (linker_step env seq) (\<lambda>_.
     bindM (kbM (run_invalidation_pass seq (mk_seen m) (mk_changed m) started)) (\<lambda>_.
     bindM (alias_step env seq) (\<lambda>_.
     bindM (kbM (run_centrality seq)) (\<lambda>_. ret ()))))"

definition index_reconcile :: "'i search_client \<Rightarrow> ('i bworld, nat) op" where
  "index_reconcile c w = (let (n, idx) = delete_orphaned_docs c (bw_kb w) (bw_index w);
       (r, k, idx') = reconcile_missing c (bw_kb w) idx
     in (r, w\<lparr>bw_kb := k, bw_index := idx'\<rparr>))"

definition reconcile_index :: "'i run_env \<Rightarrow> ('i bworld, unit) op" where
  "reconcile_index env = bindM (index_reconcile (be_client (re_build env))) (\<lambda>n.
     countM (\<lambda>c. c\<lparr>search_docs_upserted := search_docs_upserted c + n\<rparr>))"

section \<open>The run\<close>

definition build_body :: "'i run_env \<Rightarrow> connector list \<Rightarrow> uuid \<Rightarrow> int \<Rightarrow> int \<Rightarrow> ('i bworld, unit) op" where
  "build_body env cns u seq started =
     bindM (process_sources (re_build env) seq cns) (\<lambda>m.
     bindM (assert_run_row_alive u) (\<lambda>_.
     bindM (finalize_graph env seq started m) (\<lambda>_.
     bindM (reconcile_index env) (\<lambda>_.
     bindM (finish_run env u ''completed'' None) (\<lambda>_. commitM)))))"

definition build_failed :: "'i run_env \<Rightarrow> uuid \<Rightarrow> exn \<Rightarrow> ('i bworld, unit) op" where
  "build_failed env u e = bindM rollbackM (\<lambda>_.
     bindM (finish_run env u ''failed'' (Some (re_error_text env e))) (\<lambda>_. bindM commitM (\<lambda>_. raise e)))"

definition build_run_loop :: "'i run_env \<Rightarrow> connector list \<Rightarrow> ('i bworld, kb_run) op" where
  "build_run_loop env cns = bindM (start_run env) (\<lambda>(u, seq, started).
     bindM (countM (\<lambda>_. no_counters)) (\<lambda>_.
     bindM (tryM (build_body env cns u seq started) (build_failed env u)) (\<lambda>_.
     bindM (getM (\<lambda>w. get_run (bw_kb w) u)) (\<lambda>r. liftM (opt_or_raise (RuntimeError ''NoResultFound'') r)))))"

section \<open>Activation\<close>

definition allow_delta :: "uuid \<Rightarrow> bool \<Rightarrow> kb \<Rightarrow> kb" where
  "allow_delta u b k = k\<lparr>kb_runs := update_where (\<lambda>r. br_id r = u) (\<lambda>r. r\<lparr>br_allow_large_delta := b\<rparr>) (kb_runs k)\<rparr>"

definition activation :: "'i run_env \<Rightarrow> uuid \<Rightarrow> ('i bworld, bool) op" where
  "activation env u = bindM (nowM (re_build env)) (\<lambda>t. bindM (getM bw_index) (\<lambda>idx.
     kbR (activate_kb_version t u (publish_validator (\<lambda>k. validate_index_consistency (be_client (re_build env)) k idx)))))"

text \<open>\<open>async with factory() as session\<close>: leaving it by an exception drops what was not committed.\<close>

definition session_scope :: "('i bworld, 'a) op \<Rightarrow> ('i bworld, 'a) op" where
  "session_scope m w = (case m w of (Inl e, w1) \<Rightarrow> (Inl e, snd (rollbackM w1)) | (Inr x, w1) \<Rightarrow> (Inr x, w1))"

definition run_build :: "'i run_env \<Rightarrow> bool \<Rightarrow> bool \<Rightarrow> connector list \<Rightarrow> ('i bworld, uuid) op" where
  "run_build env activate allow cns = session_scope (bindM (build_run_loop env cns) (\<lambda>run.
     if activate \<and> br_status run = ''completed'' then
       bindM (kbM (\<lambda>k. ((), allow_delta (br_id run) allow k))) (\<lambda>_.
       bindM (activation env (br_id run)) (\<lambda>_. bindM commitM (\<lambda>_. ret (br_id run))))
     else ret (br_id run)))"

section \<open>One builder at a time\<close>

text \<open>The key of the advisory lock is the CRC-32 of the namespace.\<close>

definition crc_bit :: "32 word \<Rightarrow> 32 word" where
  "crc_bit c = (if bit c 0 then xor (drop_bit 1 c) 0xEDB88320 else drop_bit 1 c)"

definition crc_byte :: "32 word \<Rightarrow> char \<Rightarrow> 32 word" where
  "crc_byte c x = (crc_bit ^^ 8) (xor c (of_nat (code x)))"

definition crc32 :: "string \<Rightarrow> 32 word" where
  "crc32 s = not (foldl crc_byte (not 0) s)"

definition BUILDER_LOCK_KEY :: int where
  "BUILDER_LOCK_KEY = uint (crc32 ''agentic_kb_builder'')"

text \<open>
  \<open>pg_try_advisory_lock\<close> on the keys held, whoever holds them: a taken key refuses at once, and the key is
  given back however the block ends.
\<close>

definition with_builder_lock :: "(int set \<times> 'w, 'a) op \<Rightarrow> (int set \<times> 'w, 'a) op" where
  "with_builder_lock m = (\<lambda>(held, w).
     if BUILDER_LOCK_KEY \<in> held then (Inl (RuntimeError ''BuilderLockUnavailableError''), (held, w))
     else (let (r, (held', w')) = m (insert BUILDER_LOCK_KEY held, w) in (r, (held' - {BUILDER_LOCK_KEY}, w'))))"

definition on_registry :: "('w, 'a) op \<Rightarrow> (int set \<times> 'w, 'a) op" where
  "on_registry m = (\<lambda>(held, w). let (r, w') = m w in (r, (held, w')))"

definition build_main :: "'i run_env \<Rightarrow> bool \<Rightarrow> bool \<Rightarrow> connector list \<Rightarrow> (int set \<times> 'i bworld, uuid) op" where
  "build_main env activate allow cns = with_builder_lock (on_registry (run_build env activate allow cns))"

end
