(* ===== verification/Evolution.thy ===== *)
theory Evolution
  imports BuildSafety BuildRun
begin

text \<open>
  What a whole build may do to the registry, from its first source to its activation: rows are appended
  under ids drawn by the build and with its sequence number, and a row that was there keeps its identity
  (\<open>row_face\<close>) and its place in every earlier version. One invariant (\<open>evolved\<close>) carries this through
  every step, whether the build completes, fails or is refused its activation.
\<close>

section \<open>One step\<close>

text \<open>
  The columns a build rewrites in place: the end of the validity, the ACL, the renamed row's predecessor and
  the centrality; and of an alias row, which both miners refresh, also what it says.
\<close>

definition row_face :: "kb_artifact \<Rightarrow> kb_artifact" where
  "row_face a = (let b = a\<lparr>ka_invalidated := None, ka_acl := [], ka_prior := None, ka_centrality := None\<rparr> in
     if ka_type a = ALIAS_ARTIFACT_TYPE
     then b\<lparr>ka_body := None, ka_search := None, ka_content_hash := None, ka_source := 0, ka_version := []\<rparr> else b)"

definition same_face :: "int \<Rightarrow> kb_artifact \<Rightarrow> kb_artifact \<Rightarrow> bool" where
  "same_face seq a b \<longleftrightarrow> row_face a = row_face b \<and> (\<forall>s < seq. in_version s a = in_version s b)"

definition evolved :: "int \<Rightarrow> kb \<Rightarrow> kb \<Rightarrow> bool" where
  "evolved seq k k' \<longleftrightarrow> kb_runs k' = kb_runs k \<and> kb_uuids k' = kb_uuids k \<and> kb_drawn k \<le> kb_drawn k'
     \<and> (\<exists>as bs. kb_artifacts k' = as @ bs \<and> list_all2 (same_face seq) (kb_artifacts k) as
          \<and> (\<forall>b \<in> set bs. ka_valid_from b = seq) \<and> drawn_ids k k' (map ka_id bs))
     \<and> (\<exists>us. map ke_id (kb_edges k') = map ke_id (kb_edges k) @ us \<and> drawn_ids k k' us)"

lemma same_face_refl [simp]: "same_face seq a a"
  by (simp add: same_face_def)

lemma same_face_trans: "same_face seq a b \<Longrightarrow> same_face seq b c \<Longrightarrow> same_face seq a c"
  by (simp add: same_face_def)

lemma row_face_fields: "ka_id (row_face a) = ka_id a" "ka_valid_from (row_face a) = ka_valid_from a"
  "ka_type (row_face a) = ka_type a"
  by (simp_all add: row_face_def Let_def)

lemma same_face_fields:
  assumes "same_face seq a b" shows "ka_id b = ka_id a" "ka_valid_from b = ka_valid_from a" "ka_type b = ka_type a"
  using assms row_face_fields by (metis same_face_def)+

lemma faces_map:
  assumes "list_all2 (same_face seq) as bs"
  shows "map ka_id bs = map ka_id as" "map row_face bs = map row_face as"
    "(\<forall>a \<in> set as. ka_valid_from a = s) \<Longrightarrow> (\<forall>b \<in> set bs. ka_valid_from b = s)"
proof -
  have f: "ka_id b = ka_id a \<and> row_face b = row_face a \<and> ka_valid_from b = ka_valid_from a" if "same_face seq a b" for a b
    using that same_face_fields [OF that] by (simp add: same_face_def)
  show "map ka_id bs = map ka_id as" "map row_face bs = map row_face as"
    "(\<forall>a \<in> set as. ka_valid_from a = s) \<Longrightarrow> (\<forall>b \<in> set bs. ka_valid_from b = s)"
    using assms by (induction rule: list_all2_induct) (auto dest: f)
qed

lemma evolvedI:
  assumes "kb_runs k' = kb_runs k" "kb_uuids k' = kb_uuids k" "kb_drawn k \<le> kb_drawn k'" "kb_artifacts k' = as @ bs"
    "list_all2 (same_face seq) (kb_artifacts k) as" "\<forall>b \<in> set bs. ka_valid_from b = seq" "drawn_ids k k' (map ka_id bs)"
    "map ke_id (kb_edges k') = map ke_id (kb_edges k) @ us" "drawn_ids k k' us"
  shows "evolved seq k k'"
  unfolding evolved_def using assms by blast

lemma evolved_trans:
  assumes "evolved seq k k1" "evolved seq k1 k2" shows "evolved seq k k2"
proof -
  obtain as bs us where 1: "kb_artifacts k1 = as @ bs" "list_all2 (same_face seq) (kb_artifacts k) as"
    "\<forall>b \<in> set bs. ka_valid_from b = seq" "drawn_ids k k1 (map ka_id bs)"
    "map ke_id (kb_edges k1) = map ke_id (kb_edges k) @ us" "drawn_ids k k1 us"
    using assms(1) by (auto simp: evolved_def)
  obtain cs ds vs where 2: "kb_artifacts k2 = cs @ ds" "list_all2 (same_face seq) (as @ bs) cs"
    "\<forall>b \<in> set ds. ka_valid_from b = seq" "drawn_ids k1 k2 (map ka_id ds)"
    "map ke_id (kb_edges k2) = map ke_id (kb_edges k1) @ vs" "drawn_ids k1 k2 vs"
    using assms(2) by (auto simp: evolved_def 1(1))
  obtain as' bs' where 3: "cs = as' @ bs'" "list_all2 (same_face seq) as as'" "list_all2 (same_face seq) bs bs'"
    using 2(2) by (auto simp: list_all2_append1)
  have le: "kb_uuids k1 = kb_uuids k" "kb_drawn k \<le> kb_drawn k1" "kb_drawn k1 \<le> kb_drawn k2"
    using assms by (auto simp: evolved_def)
  have "drawn_ids k k2 (map ka_id (bs' @ ds))" "drawn_ids k k2 (us @ vs)"
    using drawn_ids_append [OF 1(4) 2(4) le] drawn_ids_append [OF 1(6) 2(6) le] faces_map(1) [OF 3(3)] by simp_all
  moreover have "list_all2 (same_face seq) (kb_artifacts k) as'"
    using list_all2_trans [OF same_face_trans 1(2) 3(2)] .
  moreover have "\<forall>b \<in> set (bs' @ ds). ka_valid_from b = seq" using faces_map(3) [OF 3(3) 1(3)] 2(3) by auto
  moreover have "kb_artifacts k2 = as' @ (bs' @ ds)" "map ke_id (kb_edges k2) = map ke_id (kb_edges k) @ (us @ vs)"
    using 2(1,5) 3(1) 1(5) by simp_all
  moreover have "kb_runs k2 = kb_runs k" "kb_uuids k2 = kb_uuids k" "kb_drawn k \<le> kb_drawn k2" using assms by (auto simp: evolved_def)
  ultimately show ?thesis by (intro evolvedI)
qed

lemma evolved_same:
  assumes "kb_runs k' = kb_runs k" "kb_uuids k' = kb_uuids k" "kb_drawn k \<le> kb_drawn k'" "list_all2 (same_face seq) (kb_artifacts k) (kb_artifacts k')"
    "map ke_id (kb_edges k') = map ke_id (kb_edges k)"
  shows "evolved seq k k'"
  by (rule evolvedI [OF assms(1-3) _ assms(4), of "[]" "[]"]) (simp_all add: assms(5) drawn_ids_Nil)

lemma faces_refl [simp]: "list_all2 (same_face seq) as as"
  by (simp add: list_all2_refl)

lemma evolved_refl [simp]: "evolved seq k k"
  by (rule evolved_same) simp_all

lemma faces_update:
  assumes "\<And>a. a \<in> set as \<Longrightarrow> p a \<Longrightarrow> same_face seq a (f a)"
  shows "list_all2 (same_face seq) as (update_where p f as)"
  using assms by (induction as) auto

lemma evolved_edge:
  assumes "gen_random_uuid k = (u, k1)" "ke_id e = u"
  shows "evolved seq k (k1\<lparr>kb_edges := kb_edges k1 @ [e]\<rparr>)"
proof -
  have "drawn_ids k (k1\<lparr>kb_edges := kb_edges k1 @ [e]\<rparr>) [u]" using assms(1) unfolding drawn_ids_def
    by (intro exI [of _ "[kb_drawn k]"]) (auto simp: gen_random_uuid_def)
  then show ?thesis using assms
    by (intro evolvedI [of _ _ "kb_artifacts k" "[]" _ "[u]"]) (auto simp: gen_random_uuid_def drawn_ids_Nil)
qed

lemma evolved_row:
  assumes "gen_random_uuid k = (u, k1)" "ka_id a = u" "ka_valid_from a = seq"
  shows "evolved seq k (k1\<lparr>kb_artifacts := kb_artifacts k1 @ [a]\<rparr>)"
proof -
  have "drawn_ids k (k1\<lparr>kb_artifacts := kb_artifacts k1 @ [a]\<rparr>) (map ka_id [a])" using assms(1,2) unfolding drawn_ids_def
    by (intro exI [of _ "[kb_drawn k]"]) (auto simp: gen_random_uuid_def)
  then show ?thesis using assms
    by (intro evolvedI [of _ _ "kb_artifacts k" "[a]" _ "[]"]) (auto simp: gen_random_uuid_def drawn_ids_Nil)
qed

lemma evolved_edges_updated: "(\<And>e. ke_id (f e) = ke_id e) \<Longrightarrow> evolved seq k (k\<lparr>kb_edges := update_where p f (kb_edges k)\<rparr>)"
  by (rule evolved_same) (simp_all add: map_update_where)

lemma evolved_fold: "(\<And>x k. evolved seq k (f x k)) \<Longrightarrow> evolved seq k (fold f xs k)"
  by (induction xs arbitrary: k) (auto intro: evolved_trans)

lemma grown_evolved: "grown seq k k' \<Longrightarrow> evolved seq k k'"
  unfolding grown_def by (elim conjE exE, rule evolvedI [of k' k "kb_artifacts k"]) (simp_all add: list_all2_refl)

section \<open>What evolution keeps\<close>

lemma evolved_versions:
  assumes "evolved seq k k'" "t < seq"
  shows "map row_face (filter (in_version t) (kb_artifacts k')) = map row_face (filter (in_version t) (kb_artifacts k))"
proof -
  obtain as bs where e: "kb_artifacts k' = as @ bs" "list_all2 (same_face seq) (kb_artifacts k) as" "\<forall>b \<in> set bs. ka_valid_from b = seq"
    using assms(1) by (auto simp: evolved_def)
  have "filter (in_version t) bs = []" using e(3) assms(2) by (auto simp: filter_empty_conv in_version_def member_at_def)
  moreover have "map row_face (filter (in_version t) as) = map row_face (filter (in_version t) (kb_artifacts k))"
    using e(2) assms(2) by (induction rule: list_all2_induct) (auto simp: same_face_def)
  ultimately show ?thesis by (simp add: e(1))
qed

lemma evolved_ids:
  assumes "build_ids_ok k" "evolved seq k k'" shows "build_ids_ok k'"
proof -
  obtain as bs us where g: "kb_artifacts k' = as @ bs" "list_all2 (same_face seq) (kb_artifacts k) as" "drawn_ids k k' (map ka_id bs)"
    "map ke_id (kb_edges k') = map ke_id (kb_edges k) @ us" "drawn_ids k k' us" "kb_uuids k' = kb_uuids k" "kb_drawn k \<le> kb_drawn k'"
    using assms(2) by (auto simp: evolved_def)
  note ok = assms(1) [unfolded build_ids_ok_def edge_ids_ok_def]
  have inj: "inj (kb_uuids k)" using ok by blast
  have fa: "distinct (map ka_id bs)" "set (map ka_id bs) \<inter> ka_id ` set (kb_artifacts k) = {}"
    "\<forall>i \<ge> kb_drawn k'. kb_uuids k i \<notin> set (map ka_id bs)"
    using drawn_fresh [OF g(3) inj] ok by blast+
  have fe: "distinct us" "set us \<inter> ke_id ` set (kb_edges k) = {}" "\<forall>i \<ge> kb_drawn k'. kb_uuids k i \<notin> set us"
    using drawn_fresh [OF g(5) inj] ok by blast+
  have ids: "map ka_id (kb_artifacts k') = map ka_id (kb_artifacts k) @ map ka_id bs"
    using g(1) faces_map(1) [OF g(2)] by simp
  have sets: "ka_id ` set (kb_artifacts k') = ka_id ` set (kb_artifacts k) \<union> set (map ka_id bs)"
    "ke_id ` set (kb_edges k') = ke_id ` set (kb_edges k) \<union> set us"
    using arg_cong [OF ids, of set] arg_cong [OF g(4), of set] by simp_all
  have "distinct (map ka_id (kb_artifacts k'))" "distinct (map ke_id (kb_edges k'))"
    unfolding ids g(4) using ok fa(1,2) fe(1,2) by auto
  moreover have "kb_uuids k' i \<notin> ka_id ` set (kb_artifacts k')" "kb_uuids k' i \<notin> ke_id ` set (kb_edges k')" if "kb_drawn k' \<le> i" for i
    using that ok fa(3) fe(3) g(7) unfolding sets g(6) by (auto dest: order_trans)
  ultimately show ?thesis using inj unfolding build_ids_ok_def edge_ids_ok_def g(6) by blast
qed

section \<open>The linker, the candidates and the judge\<close>

lemma evolved_invalidate_where: "evolved seq k (snd (invalidate_where p s k))"
  by (simp add: invalidate_where_def Let_def evolved_edges_updated)

lemma evolved_upsert_link: "evolved seq k (snd (upsert_link_edge v s d k))"
  by (auto simp: upsert_link_edge_def split_beta intro: evolved_edges_updated
      intro!: evolved_edge [OF prod.collapse [symmetric]])

lemma evolved_linker: "evolved seq k (snd (run_linker v s sim k))"
proof -
  have "evolved seq k (snd (write_link_edges v s ds prot k))" for ds prot unfolding write_links_split
    by (rule evolved_trans [OF evolved_fold evolved_invalidate_where]) (rule evolved_upsert_link)
  then show ?thesis by (auto simp: run_linker_def split: sum.splits prod.splits) (metis snd_conv)+
qed

lemma evolved_candidates: "evolved seq k (snd (run_candidate_generator v sim k))"
proof -
  have "evolved seq k (snd (upsert_candidate v d k))" for d k
    by (rule evolved_same) (simp_all add: upsert_candidate_def gen_random_uuid_def)
  then have "evolved seq k (snd (snd (upsert_candidates v ds k)))" for ds
    unfolding upsert_candidates_fold by (intro evolved_fold) simp
  moreover have "evolved seq k (snd (prune_stale v produced k))" for produced k
    by (rule evolved_same) (simp_all add: prune_stale_def Let_def)
  ultimately show ?thesis
    by (auto simp: run_candidate_generator_def split: sum.splits prod.splits) (metis evolved_trans snd_conv)+
qed

lemma evolved_judge: "evolved seq k (snd (run_judge judge model v s k))"
proof -
  have put: "evolved seq k (upsert_judge_edge v s x k)" for x k
    by (auto simp: upsert_judge_edge_def split_beta refresh_judgment_def split: prod.splits intro: evolved_edges_updated
      intro!: evolved_edge [OF prod.collapse [symmetric]])
  have all: "evolved seq k (jg_kb g)" if g: "judge_all judge model v s cs (judging_start k) = (r, g)" for cs r g
  proof -
    obtain vs J where "jg_kb g = (fold (upsert_judge_edge v s) vs k)\<lparr>kb_judgments := J\<rparr>"
      using judge_all_shape [OF g] by (auto simp: judging_start_def)
    moreover have "evolved seq k (fold (upsert_judge_edge v s) vs k)" by (rule evolved_fold) (rule put)
    moreover have "evolved seq k0 (k0\<lparr>kb_judgments := J\<rparr>)" for k0 by (rule evolved_same) simp_all
    ultimately show ?thesis by (metis evolved_trans)
  qed
  obtain r g where g: "judge_all judge model v s (load_candidates v k) (judging_start k) = (r, g)" by fastforce
  from all [OF this] show ?thesis
    by (cases r) (auto simp: run_judge_def Let_def g invalidate_stale_judgments_def intro: evolved_trans [OF _ evolved_invalidate_where])
qed

section \<open>The invalidation pass\<close>

text \<open>The pass neither draws an id nor adds or removes an edge.\<close>

definition edges_stay :: "kb \<Rightarrow> kb \<Rightarrow> bool" where
  "edges_stay k k' \<longleftrightarrow> kb_runs k' = kb_runs k \<and> kb_uuids k' = kb_uuids k \<and> kb_drawn k' = kb_drawn k \<and> map ke_id (kb_edges k') = map ke_id (kb_edges k)"

lemma edges_stay_trans: "edges_stay k k1 \<Longrightarrow> edges_stay k1 k2 \<Longrightarrow> edges_stay k k2"
  by (simp add: edges_stay_def)

lemma edges_stay_steps:
  "edges_stay k (invalidate_artifacts seq ids k)" "edges_stay k (invalidate_edges seq p k)" "edges_stay k (mark_deleted ids k)"
  "edges_stay k (k\<lparr>kb_artifacts := as\<rparr>)" "edges_stay k (snd (retire_caches ids k))" "edges_stay k k"
  by (simp_all add: edges_stay_def invalidate_artifacts_def invalidate_edges_def mark_deleted_def retire_caches_def map_update_where)

lemma edges_stay_reattach: "edges_stay k (snd (reattach_edges seq old new k))"
proof -
  have "edges_stay k (snd (reattach_column seq old new get oth put k))" if "\<And>u e. ke_id (put u e) = ke_id e" for get oth put k
    by (simp add: reattach_column_def Let_def edges_stay_def invalidate_edges_def map_update_where that)
  then show ?thesis unfolding reattach_edges_def
    by (simp add: split_beta Let_def put_from_def put_to_def edges_stay_def)
qed

lemma edges_stay_fold: "(\<And>x st. edges_stay (g st) (g (f x st))) \<Longrightarrow> edges_stay (g st) (g (fold f xs st))"
  by (induction xs arbitrary: st) (auto intro: edges_stay_trans edges_stay_steps)

lemma edges_stay_pass: "edges_stay k (snd (run_invalidation_pass seq seen changed started k))"
proof -
  have step: "edges_stay (rn_kb st) (rn_kb (rename_step seq old row st))" for old row st
    by (auto simp: rename_step_def split_beta Let_def split: option.splits
        intro!: edges_stay_steps edges_stay_trans [OF _ edges_stay_steps(3)] edges_stay_trans [OF _ edges_stay_steps(1)]
          edges_stay_trans [OF _ edges_stay_reattach])
  have "edges_stay (rn_kb st) (rn_kb (fold (rename_step seq old) rows st))" for old rows st
    by (rule edges_stay_fold [where g = rn_kb]) (rule step)
  then have "edges_stay (rn_kb (no_renames k)) (rn_kb (detect_renames seq vanished k))" for vanished
    by (auto simp: detect_renames_def Let_def intro: edges_stay_steps)
  then have rn: "edges_stay k (rn_kb (detect_renames seq vanished k))" for vanished by (simp add: no_renames_def)
  have del: "edges_stay k (snd (deletion_sweep seq ids k))" for ids k
    by (auto simp: deletion_sweep_def Let_def split_beta intro!: edges_stay_steps edges_stay_trans [OF _ edges_stay_steps(5)]
        edges_stay_trans [OF _ edges_stay_steps(2)] edges_stay_trans [OF _ edges_stay_steps(1)])
  have sup: "edges_stay k (snd (supersession_sweep seq ids k))" for ids k
    by (auto simp: supersession_sweep_def Let_def intro!: edges_stay_steps edges_stay_trans [OF _ edges_stay_steps(2)])
  have one: "edges_stay (snd (snd st)) (snd (snd (propagate_one s st)))" for s st
    by (cases st) (simp add: propagate_one_def Let_def edges_stay_steps)
  have "edges_stay (snd (snd st)) (snd (snd (fold propagate_one ss st)))" for ss st
    by (rule edges_stay_fold [where g = "\<lambda>st. snd (snd st)"]) (rule one)
  from this [of "(0, 0, k)" for k] have "edges_stay k (snd (snd (propagate_acl seen k)))" for k
    by (auto simp: propagate_acl_def intro: edges_stay_steps)
  then show ?thesis unfolding run_invalidation_pass_def Let_def split_beta
    by simp (intro edges_stay_trans [OF rn edges_stay_trans [OF del edges_stay_trans [OF sup]]])
qed

lemma same_row_face: "same_row seq a b \<Longrightarrow> same_face seq a b"
proof -
  have "row_face a = row_face (row_core a)" for a by (simp add: row_face_def row_core_def)
  then show "same_row seq a b \<Longrightarrow> same_face seq a b" unfolding same_row_def same_face_def by metis
qed

lemma evolved_kept: "versions_kept seq k k' \<Longrightarrow> edges_stay k k' \<Longrightarrow> evolved seq k k'"
  by (rule evolved_same) (auto simp: edges_stay_def versions_kept_def intro: list_all2_mono same_row_face)

lemma evolved_pass: "evolved seq k (snd (run_invalidation_pass seq seen changed started k))"
  by (rule evolved_kept [OF kept_pass edges_stay_pass])

section \<open>The alias registry\<close>

text \<open>While a miner runs, the rows it may write by their id are alias rows no earlier version has lost.\<close>

definition alias_ids_safe :: "uuid set \<Rightarrow> int \<Rightarrow> kb \<Rightarrow> bool" where
  "alias_ids_safe us seq k \<longleftrightarrow> (\<forall>a \<in> set (kb_artifacts k). ka_id a \<in> us \<longrightarrow>
     ka_type a = ALIAS_ARTIFACT_TYPE \<and> revivable seq (ka_invalidated a))"

definition alias_step_safe :: "uuid set \<Rightarrow> int \<Rightarrow> kb \<Rightarrow> kb \<Rightarrow> bool" where
  "alias_step_safe us seq k k' \<longleftrightarrow> (alias_ids_safe us seq k \<longrightarrow> alias_ids_safe us seq k' \<and> evolved seq k k')"

lemma safe_trans: "alias_step_safe us seq k k1 \<Longrightarrow> alias_step_safe us seq k1 k2 \<Longrightarrow> alias_step_safe us seq k k2"
  by (auto simp: alias_step_safe_def intro: evolved_trans)

lemma safe_refl [simp]: "alias_step_safe us seq k k"
  by (simp add: alias_step_safe_def)

lemma safe_fold: "(\<And>x st. x \<in> set xs \<Longrightarrow> alias_step_safe us seq (g st) (g (f x st))) \<Longrightarrow> alias_step_safe us seq (g st) (g (fold f xs st))"
  by (induction xs arbitrary: st) (auto intro: safe_trans)

lemma alias_member: "revivable seq gone \<Longrightarrow> t < seq \<Longrightarrow> member_at t v gone \<longleftrightarrow> v \<le> t"
  by (auto simp: revivable_def member_at_def)

lemma safe_update:
  assumes "u \<in> us" "\<And>a. ka_type a = ALIAS_ARTIFACT_TYPE \<Longrightarrow> row_face (f a) = row_face a"
    "\<And>a. ka_type (f a) = ka_type a" "\<And>a. ka_valid_from (f a) = ka_valid_from a" "\<And>a. revivable seq (ka_invalidated a) \<Longrightarrow> revivable seq (ka_invalidated (f a))"
  shows "alias_step_safe us seq k (update_artifact u f k)"
  unfolding alias_step_safe_def
proof (intro impI conjI)
  assume k: "alias_ids_safe us seq k"
  have old: "ka_type a = ALIAS_ARTIFACT_TYPE \<and> revivable seq (ka_invalidated a)" if "a \<in> set (kb_artifacts k)" "ka_id a = u" for a
    using k that assms(1) by (auto simp: alias_ids_safe_def)
  have "same_face seq a (f a)" if "a \<in> set (kb_artifacts k)" "ka_id a = u" for a
    using old [OF that] assms(2) [of a] assms(4) [of a] assms(5) [of a] alias_member [of seq "ka_invalidated a"]
    by (simp add: same_face_def in_version_def alias_member)
  then show "evolved seq k (update_artifact u f k)" unfolding update_artifact_def
    by (intro evolved_same) (auto intro: faces_update)
  show "alias_ids_safe us seq (update_artifact u f k)" unfolding alias_ids_safe_def
  proof (intro ballI impI)
    fix b assume "b \<in> set (kb_artifacts (update_artifact u f k))" "ka_id b \<in> us"
    then obtain a where a: "a \<in> set (kb_artifacts k)" "b = (if ka_id a = u then f a else a)"
      by (auto simp: update_artifact_def set_update_where)
    then show "ka_type b = ALIAS_ARTIFACT_TYPE \<and> revivable seq (ka_invalidated b)"
      using k old [OF a(1)] assms(3,5) \<open>ka_id b \<in> us\<close> by (auto simp: alias_ids_safe_def split: if_splits)
  qed
qed

lemma safe_invalidate: "alias_step_safe us seq k (invalidate_artifacts seq ids k)"
  unfolding alias_step_safe_def
proof (intro impI conjI)
  have "versions_kept seq k (invalidate_artifacts seq ids k)" by (rule kept_invalidate [OF kept_same]) simp
  then show "evolved seq k (invalidate_artifacts seq ids k)" by (rule evolved_kept) (rule edges_stay_steps)
qed (auto simp: alias_ids_safe_def invalidate_artifacts_def set_update_where revivable_def live_artifact_def)

lemma safe_place:
  assumes "snd ` set prior \<subseteq> {a. ka_id a \<in> us}"
  shows "alias_step_safe us seq (snd (snd st)) (snd (snd (place_alias v seq t prior r st)))"
proof (cases st)
  case (fields n ids k)
  show ?thesis
  proof (cases "map_of prior (al_title r)")
    case None
    obtain u k1 where g: "gen_random_uuid k = (u, k1)" by fastforce
    have new: "ka_id (new_alias v seq t r u) = u" "ka_valid_from (new_alias v seq t r u) = seq"
      "ka_type (new_alias v seq t r u) = ALIAS_ARTIFACT_TYPE" "revivable seq (ka_invalidated (new_alias v seq t r u))"
      by (simp_all add: new_alias_def new_artifact_def revivable_def)
    have "evolved seq k (k1\<lparr>kb_artifacts := kb_artifacts k1 @ [new_alias v seq t r u]\<rparr>)" by (rule evolved_row [OF g new(1,2)])
    then show ?thesis using new g None
      by (auto simp: place_alias_def fields alias_step_safe_def alias_ids_safe_def gen_random_uuid_def)
  next
    case (Some a)
    then have "a \<in> snd ` set prior" by (force dest: map_of_SomeD)
    then have "ka_id a \<in> us" using assms by auto
    then have "alias_step_safe us seq k (update_artifact (ka_id a) (refresh_alias v r) k)"
      by (rule safe_update) (simp_all add: refresh_alias_def row_face_def Let_def revivable_def)
    then show ?thesis by (simp add: place_alias_def fields Some)
  qed
qed

lemma safe_end: "u \<in> us \<Longrightarrow> alias_step_safe us seq k (update_artifact u (\<lambda>b. b\<lparr>ka_invalidated := Some seq\<rparr>) k)"
  by (rule safe_update) (simp_all add: row_face_def Let_def revivable_def)

lemma safe_ends:
  assumes "snd ` set xs \<subseteq> {a. ka_id a \<in> us}"
  shows "alias_step_safe us seq k (fold (\<lambda>(t, a). update_artifact (ka_id a) (\<lambda>b. b\<lparr>ka_invalidated := Some seq\<rparr>)) xs k)"
  using assms by (intro safe_fold [where g = "\<lambda>k. k"]) (auto simp: split_beta intro!: safe_end)

lemma distinct_ids_safe:
  assumes "distinct (map ka_id (kb_artifacts k))"
    "\<And>a. a \<in> set as \<Longrightarrow> a \<in> set (kb_artifacts k) \<and> ka_type a = ALIAS_ARTIFACT_TYPE \<and> revivable seq (ka_invalidated a)"
  shows "alias_ids_safe (ka_id ` set as) seq k"
  unfolding alias_ids_safe_def using key_unique [OF assms(1)] assms(2) by (metis imageE)

lemma load_prior:
  assumes "load_prior_alias_rows seq k = (d, k1)" "distinct (map ka_id (kb_artifacts k))"
  obtains us where "alias_ids_safe us seq k1" "evolved seq k k1" "snd ` set d \<subseteq> {a. ka_id a \<in> us}"
proof -
  define xs where "xs = sort_key (\<lambda>a. (ka_invalidated a \<noteq> None, uuid_str (ka_id a)))
       (filter (\<lambda>a. ka_type a = ALIAS_ARTIFACT_TYPE \<and> revivable seq (ka_invalidated a)) (kb_artifacts k))"
  have run: "(d, k1) = fold (keep_prior seq) xs ([], k)" using assms(1) by (simp add: load_prior_alias_rows_def xs_def)
  let ?us = "ka_id ` set xs"
  have ok: "alias_ids_safe ?us seq k" by (rule distinct_ids_safe [OF assms(2)]) (auto simp: xs_def)
  have "alias_step_safe ?us seq (snd st) (snd (fold (keep_prior seq) ys st))" for ys and st :: "prior_rows \<times> kb"
    by (rule safe_fold [where g = snd]) (auto simp: keep_prior_def safe_invalidate split: prod.splits option.splits)
  from this [of "([], k)" xs]
  have "alias_step_safe ?us seq k k1" by (simp add: run [symmetric])
  moreover have "snd ` set (fst (fold (keep_prior seq) ys st)) \<subseteq> snd ` set (fst st) \<union> set ys" for ys st
    by (induction ys arbitrary: st) (fastforce simp: keep_prior_def split: prod.splits option.splits if_splits)+
  from this [of xs "([], k)"] have "snd ` set d \<subseteq> set xs" by (simp add: run [symmetric])
  ultimately show thesis using that [of ?us] ok by (auto simp: alias_step_safe_def)
qed

lemma evolved_reconcile_edges: "evolved seq k (snd (reconcile_edges v s desired k))"
proof -
  have upd: "evolved seq k (update_edge u f k)" if "\<And>e. ke_id (f e) = ke_id e" for u f k
    unfolding update_edge_def by (rule evolved_edges_updated) (rule that)
  have visit: "evolved seq (snd (snd st)) (snd (snd (visit_edge v s desired e st)))" for e st
    by (cases st) (auto simp: visit_edge_def Let_def refresh_alias_edge_def split: option.splits intro!: upd)
  have visits: "evolved seq (snd (snd st)) (snd (snd (fold (visit_edge v s desired) es st)))" for es st
  proof (induction es arbitrary: st)
    case (Cons e es)
    show ?case using evolved_trans [OF visit Cons.IH] by simp
  qed simp
  have ins: "evolved seq k (insert_alias_edges v s ds k)" for ds k
  proof (induction ds arbitrary: k)
    case (Cons d ds)
    obtain u k1 where g: "gen_random_uuid k = (u, k1)" by fastforce
    have "evolved seq k (k1\<lparr>kb_edges := kb_edges k1 @ [new_alias_edge v s u d]\<rparr>)"
      by (rule evolved_edge [OF g]) (simp add: new_alias_edge_def)
    from evolved_trans [OF this Cons.IH] show ?case by (simp add: g)
  qed simp
  from visits [of "(no_tally, {}, k)"] show ?thesis unfolding reconcile_edges_def Let_def split_beta snd_conv
    by (rule evolved_trans [OF _ ins])
qed

lemma evolved_aliases:
  assumes "build_ids_ok k" "run_alias_miner v seq t k = Inr (x, k')" shows "evolved seq k k'"
proof -
  obtain d k1 where load: "load_prior_alias_rows seq k = (d, k1)" by fastforce
  obtain us where us: "alias_ids_safe us seq k1" "evolved seq k k1" "snd ` set d \<subseteq> {a. ka_id a \<in> us}"
    by (rule load_prior [OF load]) (use assms(1) in \<open>auto simp: build_ids_ok_def\<close>)
  have "alias_step_safe us seq k1 (snd (snd (reconcile_artifacts v seq t aggs d anchors acls ids k1)))" for aggs anchors acls ids
  proof -
    have "alias_step_safe us seq (snd (snd st)) (snd (snd (fold (place_alias v seq t d) rs st)))" for rs st
      by (rule safe_fold [where g = "\<lambda>st. snd (snd st)"]) (rule safe_place [OF us(3)])
    from this [of "(no_tally, [], k1)"] have "alias_step_safe us seq k1 (snd (snd (fold (place_alias v seq t d) rs (no_tally, [], k1))))" for rs
      by simp
    moreover have "alias_step_safe us seq k0 (snd (drop_aliases seq desired d k0))" for desired k0
      unfolding drop_aliases_def Let_def snd_conv by (rule safe_ends) (use us(3) in auto)
    ultimately show ?thesis unfolding reconcile_artifacts_def Let_def split_beta snd_conv by (blast intro: safe_trans)
  qed
  then have rows: "evolved seq k (snd (snd (reconcile_artifacts v seq t aggs d anchors acls ids k1)))" for aggs anchors acls ids
    using us(1,2) by (auto simp: alias_step_safe_def intro: evolved_trans)
  obtain w cs where w: "prior_extractions d = Inr w" "mapE (contribution_of w) (load_mining_inputs k) = Inr cs"
    using assms(2) by (auto simp: run_alias_miner_def load Let_def split: sum.splits)
  obtain aggs anchors acls ids na alias_ids k2 ne k3 where st: "reconcile_artifacts v seq t aggs d anchors acls ids k1 = (na, alias_ids, k2)"
    "reconcile_edges v seq (desired_edges aggs alias_ids ids) k2 = (ne, k3)" "k' = k3"
    using assms(2) by (auto simp: run_alias_miner_def load Let_def w split: prod.splits)
  have "evolved seq k k2" using rows [of aggs anchors acls ids] st(1) by simp
  moreover have "evolved seq k2 k3" using evolved_reconcile_edges [of seq k2 v seq "desired_edges aggs alias_ids ids"] st(2) by simp
  ultimately show ?thesis using st(3) by (auto intro: evolved_trans)
qed

lemma evolved_ledger:
  assumes "build_ids_ok k" shows "evolved seq k (snd (run_ledger_alias_miner v seq t now days es k))"
proof -
  let ?owned = "ledger_rows k"
  define xs where "xs = filter ledger_mined (live_aliases k)"
  have owned: "snd ` set ?owned \<subseteq> set xs"
    using set_dict_update_all_subset [of "[]" "map (\<lambda>a. (the (ka_title a), a)) xs"] by (auto simp: ledger_rows_def xs_def)
  have ok: "alias_ids_safe (ka_id ` set xs) seq k"
    using assms by (intro distinct_ids_safe) (auto simp: build_ids_ok_def xs_def live_aliases_def live_artifact_def revivable_def)
  have sub: "snd ` set ?owned \<subseteq> {a. ka_id a \<in> ka_id ` set xs}" using owned by auto
  have "alias_step_safe (ka_id ` set xs) seq (snd (snd st)) (snd (snd (fold (place_alias v seq t ?owned) rs st)))" for rs st
    by (rule safe_fold [where g = "\<lambda>st. snd (snd st)"]) (rule safe_place [OF sub])
  from this [of "(no_tally, [], k)"]
  have "alias_step_safe (ka_id ` set xs) seq k (snd (snd (fold (place_alias v seq t ?owned) rs (no_tally, [], k))))" for rs by simp
  moreover have "alias_step_safe (ka_id ` set xs) seq k0 (snd (drop_unmined seq desired ?owned k0))" for desired k0
    unfolding drop_unmined_def Let_def snd_conv by (rule safe_ends) (use sub in auto)
  ultimately have "alias_step_safe (ka_id ` set xs) seq k (snd (run_ledger_alias_miner v seq t now days es k))"
    unfolding run_ledger_alias_miner_def Let_def split_beta snd_conv by (blast intro: safe_trans)
  with ok show ?thesis by (auto simp: alias_step_safe_def)
qed

lemma evolved_centrality: "evolved seq k (snd (run_centrality s k))"
proof -
  have "list_all2 (same_face seq) as (map (\<lambda>a. case m (uuid_str (ka_id a)) of Some x \<Rightarrow> a\<lparr>ka_centrality := Some x\<rparr> | None \<Rightarrow> a) as)" for m as
    by (induction as) (auto simp: same_face_def row_face_def in_version_def Let_def split: option.splits)
  then show ?thesis unfolding run_centrality_def Let_def snd_conv by (intro evolved_same) simp_all
qed

end
