(* ===== verification/BuildLife.thy ===== *)
theory BuildLife
  imports Evolution
begin

text \<open>
  The life of a whole build: every row of earlier versions keeps its face and its membership, ids stay keys,
  the run row is closed with the outcome and its audit is never lost, and the served version only changes
  to this build's, and only past the gates.
\<close>

section \<open>The invariant of a session\<close>

definition session_evolved :: "int \<Rightarrow> kb \<Rightarrow> 'i bworld \<Rightarrow> bool" where
  "session_evolved s k w \<longleftrightarrow> build_ids_ok k \<and> evolved s k (bw_saved w) \<and> evolved s (bw_saved w) (bw_kb w)"

interpretation evolution: build_inv "session_evolved s k" s for s k
proof unfold_locales
  fix w n assume w: "session_evolved s k w"
  then show "session_evolved s k (w\<lparr>bw_saved := bw_kb w, bw_txn := n\<rparr>)" by (auto simp: session_evolved_def intro: evolved_trans)
  have "evolved s (bw_saved w) ((bw_saved w)\<lparr>kb_drawn := kb_drawn (bw_kb w)\<rparr>)"
    using w by (intro evolved_same) (auto simp: session_evolved_def evolved_def)
  with w show "session_evolved s k (w\<lparr>bw_kb := (bw_saved w)\<lparr>kb_drawn := kb_drawn (bw_kb w)\<rparr>, bw_txn := n\<rparr>)"
    by (simp add: session_evolved_def)
qed (auto simp: session_evolved_def intro: evolved_trans grown_evolved)

lemma session_step:
  assumes "session_evolved s k w" "build_ids_ok (bw_kb w) \<Longrightarrow> evolved s (bw_kb w) k'"
  shows "session_evolved s k (w\<lparr>bw_kb := k'\<rparr>)"
proof -
  have "build_ids_ok (bw_kb w)" using assms(1) by (auto simp: session_evolved_def intro: evolved_ids)
  with assms show ?thesis by (auto simp: session_evolved_def intro: evolved_trans)
qed

lemma keeps_kbR: "(\<And>k. build_ids_ok k \<Longrightarrow> evolved s k (snd (f k))) \<Longrightarrow> keeps (session_evolved s k0) (kbR f)"
  by (simp add: keeps_def kbR_def split_beta session_step)

lemma keeps_evo_kbM: "(\<And>k. build_ids_ok k \<Longrightarrow> evolved s k (snd (f k))) \<Longrightarrow> keeps (session_evolved s k0) (kbM f)"
  by (simp add: keeps_def kbM_def split_beta session_step)

lemma keeps_evo_kbE:
  "(\<And>k x k'. build_ids_ok k \<Longrightarrow> f k = Inr (x, k') \<Longrightarrow> evolved s k k') \<Longrightarrow> keeps (session_evolved s k0) (kbE f)"
  by (auto simp: keeps_def kbE_def session_step split: sum.splits)

lemma keeps_finalize: "keeps (session_evolved s k) (finalize_graph env s started m)"
  unfolding finalize_graph_def linker_step_def judge_step_def alias_step_def nowM_def Let_def
  by (auto intro!: keeps_intros keeps_kbR keeps_evo_kbM keeps_evo_kbE evolution.keeps_countM evolved_linker evolved_candidates
      evolved_judge evolved_pass evolved_ledger evolved_centrality intro: evolved_aliases split: option.splits prod.splits)

lemma keeps_reconcile_index: "keeps (session_evolved s k) (reconcile_index env)"
proof -
  have "keeps (session_evolved s k) (index_reconcile c)" for c :: "'i search_client"
    unfolding keeps_def
  proof (intro allI impI)
    fix w :: "'i bworld" assume w: "session_evolved s k w"
    obtain n idx where n: "delete_orphaned_docs c (bw_kb w) (bw_index w) = (n, idx)" by fastforce
    obtain r k' idx' where r: "reconcile_missing c (bw_kb w) idx = (r, k', idx')" by (metis prod_cases3)
    have "grown s (bw_kb w) k'" using r by (auto simp: reconcile_missing_def Let_def split: if_splits sum.splits intro: grown_write_docs)
    from evolution.other_steps(1) [OF evolution.kb_step [OF w this], of idx']
    show "session_evolved s k (snd (index_reconcile c w))" by (simp add: index_reconcile_def n r)
  qed
  then show ?thesis unfolding reconcile_index_def by (intro keeps_intros evolution.keeps_countM)
qed

section \<open>The run row\<close>

text \<open>The body before its outcome is written.\<close>

definition build_front :: "'i run_env \<Rightarrow> connector list \<Rightarrow> uuid \<Rightarrow> int \<Rightarrow> int \<Rightarrow> ('i bworld, unit) op" where
  "build_front env cns u seq started =
     bindM (process_sources (re_build env) seq cns) (\<lambda>m.
     bindM (assert_run_row_alive u) (\<lambda>_. bindM (finalize_graph env seq started m) (\<lambda>_. reconcile_index env)))"

lemma bindM_assoc: "bindM (bindM m f) g = bindM m (\<lambda>x. bindM (f x) g)"
  by (rule ext) (simp add: bindM_def split: prod.splits sum.splits)

lemma body_front: "build_body env cns u seq started =
    bindM (build_front env cns u seq started) (\<lambda>_. bindM (finish_run env u ''completed'' None) (\<lambda>_. commitM))"
  by (simp add: build_body_def build_front_def bindM_assoc)

lemma keeps_front: "keeps (session_evolved s k) (build_front env cns u s started)"
  unfolding build_front_def assert_run_row_alive_def
  by (intro keeps_intros evolution.keeps_process_sources keeps_finalize keeps_reconcile_index)

lemma start_run_spec:
  assumes "start_run env w = (r, w1)"
  obtains u t where "r = Inr (u, bw_seq w + 1, t)" "u = kb_uuids (bw_kb w) (kb_drawn (bw_kb w))" "bw_saved w1 = bw_kb w1"
    "bw_seq w1 = bw_seq w + 1"
    "bw_kb w1 = (bw_kb w)\<lparr>kb_drawn := Suc (kb_drawn (bw_kb w)),
       kb_runs := kb_runs (bw_kb w) @ [new_run u (be_version (re_build env)) (bw_seq w + 1) t]\<rparr>"
  using assms by (simp add: start_run_def nextvalM_def nowM_def kbM_def commitM_def add_run_def gen_random_uuid_def
      bindM_def getM_def modM_def ret_def Let_def split_beta) (auto intro: that)

text \<open>Run ids are keys, and unused ones fresh.\<close>

definition run_ids_ok :: "kb \<Rightarrow> bool" where
  "run_ids_ok k \<longleftrightarrow> distinct (map br_id (kb_runs k)) \<and> (\<forall>i \<ge> kb_drawn k. kb_uuids k i \<notin> br_id ` set (kb_runs k))"

lemma update_last:
  assumes "u \<notin> br_id ` set rs" "br_id x = u"
  shows "update_where (\<lambda>r. br_id r = u) f (rs @ [x]) = rs @ [f x]"
  using assms by (induction rs) auto

lemma find_last: "u \<notin> br_id ` set rs \<Longrightarrow> br_id x = u \<Longrightarrow> find (\<lambda>r. br_id r = u) (rs @ [x]) = Some x"
  by (induction rs) auto

text \<open>The sequence is not touched while the sources are processed.\<close>

interpretation sequence: build_inv "\<lambda>w. bw_seq w = n" s for n s
  by unfold_locales simp_all

lemma keeps_seq_front: "keeps (\<lambda>w. bw_seq w = n) (build_front env cns u s started)"
proof -
  have kb: "keeps (\<lambda>w. bw_seq w = n) (kbR f)" "keeps (\<lambda>w. bw_seq w = n) (kbM g)" "keeps (\<lambda>w. bw_seq w = n) (kbE h)" for f g h
    by (auto simp: keeps_def kbR_def kbM_def kbE_def split_beta split: sum.splits)
  have "keeps (\<lambda>w. bw_seq w = n) (index_reconcile c)" for c by (simp add: keeps_def index_reconcile_def split_beta Let_def)
  then show ?thesis
    unfolding build_front_def assert_run_row_alive_def finalize_graph_def linker_step_def judge_step_def alias_step_def
      nowM_def reconcile_index_def Let_def
    by (auto intro!: keeps_intros kb sequence.keeps_countM sequence.keeps_process_sources split: option.splits prod.splits)
qed

text \<open>What is left of the run once its front has ended with \<open>fr\<close>.\<close>

definition settle :: "'i run_env \<Rightarrow> uuid \<Rightarrow> exn + unit \<Rightarrow> ('i bworld, kb_run) op" where
  "settle env u fr = bindM (tryM (bindM (liftM fr) (\<lambda>_. bindM (finish_run env u ''completed'' None) (\<lambda>_. commitM))) (build_failed env u))
     (\<lambda>_. bindM (getM (\<lambda>w. get_run (bw_kb w) u)) (\<lambda>r. liftM (opt_or_raise (RuntimeError ''NoResultFound'') r)))"

definition this_run :: "'i run_env \<Rightarrow> int \<Rightarrow> kb \<Rightarrow> kb_run \<Rightarrow> bool" where
  "this_run env seq k x \<longleftrightarrow> br_id x = kb_uuids k (kb_drawn k) \<and> br_build_seq x = seq \<and> br_kb_version x = be_version (re_build env)"

lemma build_run_front:
  assumes ready: "build_ids_ok (bw_kb w)" "run_ids_ok (bw_kb w)"
  obtains x fr w3 where "build_run_loop env cns w = settle env (br_id x) fr w3" "this_run env (bw_seq w + 1) (bw_kb w) x"
    "br_status x = ''running''" "kb_runs (bw_saved w3) = kb_runs (bw_kb w) @ [x]" "br_id x \<notin> br_id ` set (kb_runs (bw_kb w))"
    "evolved (bw_seq w + 1) (bw_kb w) ((bw_saved w3)\<lparr>kb_runs := kb_runs (bw_kb w)\<rparr>)"
    "evolved (bw_seq w + 1) (bw_saved w3) (bw_kb w3)" "bw_seq w3 = bw_seq w + 1"
proof -
  let ?s = "bw_seq w + 1" and ?rs = "kb_runs (bw_kb w)" and ?v = "be_version (re_build env)"
  obtain r1 w1 where start: "start_run env w = (r1, w1)" by fastforce
  obtain u t where st: "r1 = Inr (u, ?s, t)" "u = kb_uuids (bw_kb w) (kb_drawn (bw_kb w))" "bw_saved w1 = bw_kb w1" "bw_seq w1 = ?s"
    "bw_kb w1 = (bw_kb w)\<lparr>kb_drawn := Suc (kb_drawn (bw_kb w)), kb_runs := ?rs @ [new_run u ?v ?s t]\<rparr>"
    using start_run_spec [OF start] .
  define w2 where "w2 = w1\<lparr>bw_counters := no_counters\<rparr>"
  obtain fr w3 where front: "build_front env cns u ?s t w2 = (fr, w3)" by fastforce
  have fresh: "u \<notin> br_id ` set ?rs" using ready(2) st(2) by (auto simp: run_ids_ok_def)
  have ev1: "evolved ?s (bw_kb w) ((bw_kb w1)\<lparr>kb_runs := ?rs\<rparr>)" unfolding st(5) by (rule evolved_same) simp_all
  have ids1: "build_ids_ok (bw_kb w1)" using evolved_ids [OF ready(1) ev1] by (simp add: build_ids_ok_def edge_ids_ok_def)
  have "session_evolved ?s (bw_kb w1) w2" by (simp add: session_evolved_def w2_def st(3) ids1)
  from keepsD2 [OF keeps_front this front] have ev3: "evolved ?s (bw_kb w1) (bw_saved w3)" "evolved ?s (bw_saved w3) (bw_kb w3)"
    by (auto simp: session_evolved_def)
  have id: "br_id (new_run u ?v ?s t) = u" by (simp add: new_run_def)
  show thesis
  proof (rule that [of "new_run u ?v ?s t" fr w3])
    show "build_run_loop env cns w = settle env (br_id (new_run u ?v ?s t)) fr w3"
      by (simp add: build_run_loop_def settle_def body_front tryM_def bindM_def start st(1) countM_def modM_def liftM_def w2_def [symmetric] front id)
    show "this_run env ?s (bw_kb w) (new_run u ?v ?s t)" "br_status (new_run u ?v ?s t) = ''running''"
      by (simp_all add: this_run_def new_run_def st(2))
    show "kb_runs (bw_saved w3) = ?rs @ [new_run u ?v ?s t]" using ev3 st(5) by (simp add: evolved_def)
    show "evolved ?s (bw_kb w) ((bw_saved w3)\<lparr>kb_runs := ?rs\<rparr>)"
      using ev3(1) by (intro evolved_trans [OF ev1]) (simp add: evolved_def drawn_ids_def)
    show "bw_seq w3 = ?s" by (rule keepsD2 [OF keeps_seq_front _ front]) (simp add: w2_def st(4))
  qed (use fresh ev3(2) in \<open>simp_all add: id\<close>)
qed

definition outcome_on :: "'i run_env \<Rightarrow> exn + kb_run \<Rightarrow> kb_run \<Rightarrow> bool" where
  "outcome_on env r run \<longleftrightarrow> (case r of
     Inr x \<Rightarrow> x = run \<and> br_status run = ''completed''
   | Inl e \<Rightarrow> if e = CancelledError then br_status run = ''running''
              else br_status run = ''failed'' \<and> br_error run = Some (re_error_text env e))"

lemma settle_completed:
  assumes "kb_runs (bw_kb w) = rs @ [x]" "br_id x \<notin> br_id ` set rs" "settle env (br_id x) (Inr ()) w = (r, w')"
  obtains y where "outcome_on env r y" "br_id y = br_id x" "br_build_seq y = br_build_seq x" "br_kb_version y = br_kb_version x"
    "bw_kb w' = (bw_kb w)\<lparr>kb_runs := rs @ [y]\<rparr>" "bw_saved w' = bw_kb w'" "bw_seq w' = bw_seq w" "r \<noteq> Inl CancelledError"
proof -
  define y where "y = x\<lparr>br_status := ''completed'', br_error := None, br_completed_at := Some (be_clock (re_build env) (bw_txn w)), br_counters := bw_counters w\<rparr>"
  have "close_run (br_id x) ''completed'' None (be_clock (re_build env) (bw_txn w)) (bw_counters w) (bw_kb w) = (bw_kb w)\<lparr>kb_runs := rs @ [y]\<rparr>"
    by (simp add: close_run_def y_def assms(1) update_last [OF assms(2) refl])
  moreover have "get_run (k\<lparr>kb_runs := rs @ [y]\<rparr>) (br_id x) = Some y" for k
    unfolding get_run_def by (simp add: find_last [OF assms(2)] y_def)
  ultimately have "r = Inr y \<and> w' = w\<lparr>bw_kb := (bw_kb w)\<lparr>kb_runs := rs @ [y]\<rparr>, bw_saved := (bw_kb w)\<lparr>kb_runs := rs @ [y]\<rparr>, bw_txn := Suc (bw_txn w)\<rparr>"
    using assms(3) by (auto simp: settle_def tryM_def bindM_def liftM_def finish_run_def nowM_def getM_def kbM_def commitM_def modM_def)
  then show thesis using that [of y] by (simp add: outcome_on_def) (simp add: y_def)
qed

lemma settle_failed:
  assumes "kb_runs (bw_saved w) = rs @ [x]" "br_id x \<notin> br_id ` set rs" "settle env (br_id x) (Inl e) w = (r, w')" "e \<noteq> CancelledError"
  obtains y where "outcome_on env r y" "br_id y = br_id x" "br_build_seq y = br_build_seq x" "br_kb_version y = br_kb_version x" "r = Inl e"
    "bw_kb w' = (bw_saved w)\<lparr>kb_drawn := kb_drawn (bw_kb w), kb_runs := rs @ [y]\<rparr>" "bw_saved w' = bw_kb w'" "bw_seq w' = bw_seq w"
proof -
  define y where "y = x\<lparr>br_status := ''failed'', br_error := Some (re_error_text env e),
    br_completed_at := Some (be_clock (re_build env) (Suc (bw_txn w))), br_counters := bw_counters w\<rparr>"
  define k where "k = (bw_saved w)\<lparr>kb_drawn := kb_drawn (bw_kb w), kb_runs := rs @ [y]\<rparr>"
  have "close_run (br_id x) ''failed'' (Some (re_error_text env e)) (be_clock (re_build env) (Suc (bw_txn w))) (bw_counters w)
      ((bw_saved w)\<lparr>kb_drawn := kb_drawn (bw_kb w)\<rparr>) = k"
    by (simp add: close_run_def y_def k_def assms(1) update_last [OF assms(2) refl])
  then have "r = Inl e \<and> w' = w\<lparr>bw_kb := k, bw_saved := k, bw_txn := Suc (Suc (bw_txn w))\<rparr>"
    using assms(3,4) by (auto simp: settle_def tryM_def bindM_def liftM_def build_failed_def rollbackM_def finish_run_def nowM_def getM_def
        kbM_def commitM_def modM_def raise_def)
  then show thesis using that [of y] assms(4) by (simp add: outcome_on_def k_def) (simp add: y_def)
qed

definition recorded :: "'i run_env \<Rightarrow> exn + kb_run \<Rightarrow> 'i bworld \<Rightarrow> 'i bworld \<Rightarrow> kb_run \<Rightarrow> bool" where
  "recorded env r w w' run \<longleftrightarrow> kb_runs (bw_saved w') = kb_runs (bw_kb w) @ [run] \<and> outcome_on env r run
     \<and> this_run env (bw_seq w + 1) (bw_kb w) run \<and> bw_seq w' = bw_seq w + 1"

text \<open>However it ends, the run is recorded with its outcome, and nothing else of the registry's past is touched.\<close>

lemma build_run_loop_recorded:
  assumes ready: "build_ids_ok (bw_kb w)" "run_ids_ok (bw_kb w)" and run: "build_run_loop env cns w = (r, w')"
  obtains x where "recorded env r w w' x" "r \<noteq> Inl CancelledError \<longrightarrow> bw_kb w' = bw_saved w'"
    "evolved (bw_seq w + 1) (bw_kb w) ((bw_saved w')\<lparr>kb_runs := kb_runs (bw_kb w)\<rparr>)"
    "evolved (bw_seq w + 1) (bw_saved w') (bw_kb w')"
proof -
  let ?s = "bw_seq w + 1" and ?rs = "kb_runs (bw_kb w)"
  obtain x fr w3 where f: "build_run_loop env cns w = settle env (br_id x) fr w3" "this_run env ?s (bw_kb w) x"
    "br_status x = ''running''" "kb_runs (bw_saved w3) = ?rs @ [x]" "br_id x \<notin> br_id ` set ?rs"
    "evolved ?s (bw_kb w) ((bw_saved w3)\<lparr>kb_runs := ?rs\<rparr>)" "evolved ?s (bw_saved w3) (bw_kb w3)" "bw_seq w3 = ?s"
    using build_run_front [OF ready] .
  note run' = run [unfolded f(1)]
  have later: "evolved ?s (bw_kb w) (k\<lparr>kb_runs := ?rs\<rparr>)" if "evolved ?s (bw_saved w3) k" for k
    using that by (intro evolved_trans [OF f(6)]) (simp add: evolved_def drawn_ids_def)
  consider "fr = Inl CancelledError" | e where "fr = Inl e" "e \<noteq> CancelledError" | "fr = Inr ()" by (cases fr) auto
  then show thesis
  proof cases
    case 1
    then have "r = Inl CancelledError \<and> w' = w3" using run' by (simp add: settle_def tryM_def bindM_def liftM_def)
    then show thesis using that [of x] f by (simp add: recorded_def outcome_on_def)
  next
    case 2
    obtain y where y: "outcome_on env r y" "br_id y = br_id x" "br_build_seq y = br_build_seq x" "br_kb_version y = br_kb_version x" "r = Inl e"
      "bw_kb w' = (bw_saved w3)\<lparr>kb_drawn := kb_drawn (bw_kb w3), kb_runs := ?rs @ [y]\<rparr>" "bw_saved w' = bw_kb w'" "bw_seq w' = bw_seq w3"
      using settle_failed [OF f(4,5) run' [unfolded 2(1)] 2(2)] .
    have "evolved ?s (bw_saved w3) ((bw_saved w3)\<lparr>kb_drawn := kb_drawn (bw_kb w3)\<rparr>)"
      using f(7) by (intro evolved_same) (simp_all add: evolved_def)
    from later [OF this] show thesis using y f(2,8) by (intro that [of y]) (simp_all add: recorded_def this_run_def)
  next
    case 3
    have runs: "kb_runs (bw_kb w3) = ?rs @ [x]" using f(4,7) by (simp add: evolved_def)
    obtain y where y: "outcome_on env r y" "br_id y = br_id x" "br_build_seq y = br_build_seq x" "br_kb_version y = br_kb_version x"
      "bw_kb w' = (bw_kb w3)\<lparr>kb_runs := ?rs @ [y]\<rparr>" "bw_saved w' = bw_kb w'" "bw_seq w' = bw_seq w3"
      using settle_completed [OF runs f(5) run' [unfolded 3]] .
    from later [OF f(7)] show thesis using y f(2,8) by (intro that [of y]) (simp_all add: recorded_def this_run_def)
  qed
qed

section \<open>Activation\<close>

lemma activation_frame:
  assumes "activate_kb_version now u (publish_validator c) k = (res, k')"
  shows "k'\<lparr>kb_runs := kb_runs k\<rparr> = k"
proof -
  have "(snd (compose_gates gs v k))\<lparr>kb_runs := kb_runs k\<rparr> = k" for gs v
    by (induction gs) (auto simp: record_failure_def split: sum.splits)
  then have "(snd (publish_validator c v k))\<lparr>kb_runs := kb_runs k\<rparr> = k" for v by (simp add: publish_validator_def)
  then show ?thesis using assms
    by (auto simp: activate_kb_version_def set_status_def supersede_active_def split: option.splits if_splits prod.splits sum.splits bool.splits)
       (metis snd_conv)+
qed

text \<open>What is committed in the end: what the run committed, or that with the verdict of the activation.\<close>

definition gate_of :: "'i run_env \<Rightarrow> 'i \<Rightarrow> kb \<Rightarrow> bool" where
  "gate_of env idx k = validate_index_consistency (be_client (re_build env)) k idx"

definition activated :: "'i run_env \<Rightarrow> bool \<Rightarrow> kb_run \<Rightarrow> kb \<Rightarrow> 'i bworld \<Rightarrow> bool \<Rightarrow> bool" where
  "activated env allow x k w' b \<longleftrightarrow> (\<exists>now. activate_kb_version now (br_id x) (publish_validator (gate_of env (bw_index w')))
     (allow_delta (br_id x) allow k) = (Inr b, bw_saved w'))"

lemma run_build_result:
  assumes ready: "build_ids_ok (bw_kb w)" "run_ids_ok (bw_kb w)" and run: "run_build env act allow cns w = (r, w')"
  obtains r1 x w1 where "recorded env r1 w w1 x" "evolved (bw_seq w + 1) (bw_kb w) ((bw_saved w1)\<lparr>kb_runs := kb_runs (bw_kb w)\<rparr>)"
    "bw_saved w' = bw_saved w1 \<or> (\<exists>b. act \<and> r1 = Inr x \<and> activated env allow x (bw_saved w1) w' b)"
    "bw_kb w' = (bw_saved w')\<lparr>kb_drawn := kb_drawn (bw_kb w')\<rparr>" "kb_drawn (bw_saved w') \<le> kb_drawn (bw_kb w')" "bw_seq w' = bw_seq w + 1"
proof -
  obtain r1 w1 where loop: "build_run_loop env cns w = (r1, w1)" by fastforce
  obtain x where x: "recorded env r1 w w1 x" "r1 \<noteq> Inl CancelledError \<longrightarrow> bw_kb w1 = bw_saved w1"
    "evolved (bw_seq w + 1) (bw_kb w) ((bw_saved w1)\<lparr>kb_runs := kb_runs (bw_kb w)\<rparr>)" "evolved (bw_seq w + 1) (bw_saved w1) (bw_kb w1)"
    using build_run_loop_recorded [OF ready loop] .
  have seq: "bw_seq w1 = bw_seq w + 1" using x(1) by (simp add: recorded_def)
  show thesis
  proof (cases r1)
    case (Inl e)
    then have "w' = snd (rollbackM w1)" using run by (simp add: run_build_def session_scope_def bindM_def loop split: prod.splits)
    then show thesis using that x seq by (simp add: rollbackM_def modM_def evolved_def)
  next
    case (Inr y)
    have y: "y = x" "br_status x = ''completed''" using x(1) Inr by (simp_all add: recorded_def outcome_on_def)
    have clean: "bw_kb w1 = bw_saved w1" using x(2) Inr by simp
    show thesis
    proof (cases act)
      case False
      then have "w' = w1" using run by (simp add: run_build_def session_scope_def bindM_def loop Inr ret_def)
      then show thesis using that x seq clean by simp
    next
      case True
      obtain res k where k: "activate_kb_version (be_clock (re_build env) (bw_txn w1)) (br_id x) (publish_validator (gate_of env (bw_index w1)))
          (allow_delta (br_id x) allow (bw_saved w1)) = (res, k)" by fastforce
      have g: "gate_of env idx = (\<lambda>k. validate_index_consistency (be_client (re_build env)) k idx)" for idx by (simp add: gate_of_def fun_eq_iff)
      have r: "(r, w') = (case res of Inl e \<Rightarrow> (Inl e, w1\<lparr>bw_kb := (bw_saved w1)\<lparr>kb_drawn := kb_drawn k\<rparr>, bw_txn := Suc (bw_txn w1)\<rparr>)
          | Inr b \<Rightarrow> (Inr (br_id x), w1\<lparr>bw_kb := k, bw_saved := k, bw_txn := Suc (bw_txn w1)\<rparr>))"
        using run True y k clean by (simp add: run_build_def session_scope_def bindM_def loop Inr activation_def nowM_def getM_def kbM_def kbR_def
            commitM_def modM_def ret_def rollbackM_def g split: sum.splits)
      have "kb_drawn k = kb_drawn (bw_saved w1)" using arg_cong [OF activation_frame [OF k], of kb_drawn] by (simp add: allow_delta_def)
      then show thesis using r that [OF x(1,3)] seq True Inr y k by (cases res) (auto simp: activated_def)
    qed
  qed
qed

lemma runs_frame:
  assumes "k'\<lparr>kb_runs := kb_runs k\<rparr> = k" shows "k'\<lparr>kb_runs := rs\<rparr> = (k\<lparr>kb_runs := rs\<rparr> :: kb)"
proof -
  have "k'\<lparr>kb_runs := kb_runs k\<rparr>\<lparr>kb_runs := rs\<rparr> = k\<lparr>kb_runs := rs\<rparr>" by (simp only: assms)
  then show ?thesis by simp
qed

lemma activated_frame:
  assumes "activated env allow x k w' b" shows "(bw_saved w')\<lparr>kb_runs := rs\<rparr> = k\<lparr>kb_runs := rs\<rparr>"
proof -
  have "(bw_saved w')\<lparr>kb_runs := kb_runs (allow_delta (br_id x) allow k)\<rparr> = allow_delta (br_id x) allow k"
    using assms activation_frame by (auto simp: activated_def)
  from runs_frame [OF this, of rs] show ?thesis by (simp add: allow_delta_def)
qed

section \<open>What a build leaves alone\<close>

lemma build_evolves:
  assumes ready: "build_ids_ok (bw_kb w)" "run_ids_ok (bw_kb w)" and run: "run_build env act allow cns w = (r, w')"
  shows "evolved (bw_seq w + 1) (bw_kb w) ((bw_saved w')\<lparr>kb_runs := kb_runs (bw_kb w)\<rparr>)"
    "evolved (bw_seq w + 1) (bw_kb w) ((bw_kb w')\<lparr>kb_runs := kb_runs (bw_kb w)\<rparr>)"
proof -
  let ?rs = "kb_runs (bw_kb w)" and ?s = "bw_seq w + 1"
  obtain r1 x w1 where "recorded env r1 w w1 x" and b: "evolved ?s (bw_kb w) ((bw_saved w1)\<lparr>kb_runs := ?rs\<rparr>)"
    "bw_saved w' = bw_saved w1 \<or> (\<exists>b. act \<and> r1 = Inr x \<and> activated env allow x (bw_saved w1) w' b)"
    "bw_kb w' = (bw_saved w')\<lparr>kb_drawn := kb_drawn (bw_kb w')\<rparr>" "kb_drawn (bw_saved w') \<le> kb_drawn (bw_kb w')" "bw_seq w' = ?s"
    using run_build_result [OF ready run] .
  have "(bw_saved w')\<lparr>kb_runs := ?rs\<rparr> = (bw_saved w1)\<lparr>kb_runs := ?rs\<rparr>" using b(2) activated_frame by metis
  then show saved: "evolved ?s (bw_kb w) ((bw_saved w')\<lparr>kb_runs := ?rs\<rparr>)" using b(1) by simp
  have "evolved ?s ((bw_saved w')\<lparr>kb_runs := ?rs\<rparr>) ((bw_saved w')\<lparr>kb_runs := ?rs, kb_drawn := kb_drawn (bw_kb w')\<rparr>)"
    using b(4) by (intro evolved_same) simp_all
  moreover have "(bw_kb w')\<lparr>kb_runs := ?rs\<rparr> = (bw_saved w')\<lparr>kb_runs := ?rs, kb_drawn := kb_drawn (bw_kb w')\<rparr>" by (subst b(3)) simp
  ultimately show "evolved ?s (bw_kb w) ((bw_kb w')\<lparr>kb_runs := ?rs\<rparr>)" using evolved_trans [OF saved] by simp
qed

text \<open>Earlier versions keep their rows, and ids stay keys, however the build ended.\<close>

lemma run_build_versions:
  assumes "build_ids_ok (bw_kb w)" "run_ids_ok (bw_kb w)" "run_build env act allow cns w = (r, w')" "t \<le> bw_seq w"
  shows "map row_face (filter (in_version t) (kb_artifacts (bw_saved w'))) = map row_face (filter (in_version t) (kb_artifacts (bw_kb w)))"
  using evolved_versions [OF build_evolves(1) [OF assms(1-3)]] assms(4) by simp

lemma run_build_ids:
  assumes "build_ids_ok (bw_kb w)" "run_ids_ok (bw_kb w)" "run_build env act allow cns w = (r, w')"
  shows "build_ids_ok (bw_saved w')" "build_ids_ok (bw_kb w')"
  using evolved_ids [OF assms(1) build_evolves(1) [OF assms]] evolved_ids [OF assms(1) build_evolves(2) [OF assms]]
  by (simp_all add: build_ids_ok_def edge_ids_ok_def)

section \<open>What is served\<close>

definition served :: "kb \<Rightarrow> exn + active_version option" where
  "served k = fetch_active_version (published [] [] k)"

lemma served_cong: "map run_view (kb_runs k) = map run_view (kb_runs k') \<Longrightarrow> served k = served k'"
  unfolding served_def by (rule served_of_views [OF active_filter_views])

lemma served_append: "kb_runs k' = kb_runs k @ [x] \<Longrightarrow> br_status x \<noteq> ''active'' \<Longrightarrow> served k' = served k"
  unfolding served_def by (rule served_of_views) simp

lemma not_active_run: "outcome_on env r x \<Longrightarrow> br_status x \<noteq> ''active''"
  by (auto simp: outcome_on_def split: sum.splits if_splits)

lemma allow_delta_views: "map run_view (kb_runs (allow_delta u b k)) = map run_view (kb_runs k)"
  "map br_id (kb_runs (allow_delta u b k)) = map br_id (kb_runs k)"
  by (simp_all add: allow_delta_def update_where_def run_view_def build_run.truncate_def)

text \<open>Nothing but this build's version can start to be served, and only when every gate passed on what was committed.\<close>

lemma run_build_serves:
  assumes ready: "build_ids_ok (bw_kb w)" "run_ids_ok (bw_kb w)" and run: "run_build env act allow cns w = (r, w')"
  shows "served (bw_saved w') = served (bw_kb w)
    \<or> act \<and> served (bw_saved w') = Inr (Some \<lparr>av_kb_version = be_version (re_build env), av_build_seq = bw_seq w + 1\<rparr>)
        \<and> (\<exists>k. k\<lparr>kb_runs := kb_runs (bw_saved w')\<rparr> = bw_saved w'
              \<and> publish_validator (gate_of env (bw_index w')) (be_version (re_build env)) k = (Inr True, k))"
proof -
  obtain r1 x w1 where x: "recorded env r1 w w1 x" and b: "bw_saved w' = bw_saved w1 \<or> (\<exists>b. act \<and> r1 = Inr x \<and> activated env allow x (bw_saved w1) w' b)"
    using run_build_result [OF ready run] by metis
  note x' = x [unfolded recorded_def this_run_def]
  have old: "served (bw_saved w1) = served (bw_kb w)" using x' by (intro served_append) (auto dest: not_active_run)
  have ids: "distinct (map br_id (kb_runs (bw_saved w1)))" using x' ready(2) by (auto simp: run_ids_ok_def)
  show ?thesis
  proof (cases "bw_saved w' = bw_saved w1")
    case False
    then obtain v now where act: "act" and v: "activate_kb_version now (br_id x) (publish_validator (gate_of env (bw_index w')))
        (allow_delta (br_id x) allow (bw_saved w1)) = (Inr v, bw_saved w')" using b by (auto simp: activated_def)
    let ?k = "allow_delta (br_id x) allow (bw_saved w1)"
    have ids': "distinct (map br_id (kb_runs ?k))" using ids by (simp add: allow_delta_views)
    show ?thesis
    proof (cases v)
      case True
      obtain y where y: "get_run ?k (br_id x) = Some y" "publish_validator (gate_of env (bw_index w')) (br_kb_version y) ?k = (Inr True, ?k)"
        "served (bw_saved w') = Inr (Some \<lparr>av_kb_version = br_kb_version y, av_build_seq = br_build_seq y\<rparr>)"
        using activation_serves [OF _ ids', of _ _ _ _ "[]" "[]"] v True by (metis (full_types) served_def)
      have "y \<in> set (kb_runs ?k)" "br_id y = br_id x" using get_run_mem [OF y(1)] by auto
      moreover have "x\<lparr>br_allow_large_delta := allow\<rparr> \<in> set (kb_runs ?k)" using x' by (auto simp: allow_delta_def set_update_where)
      ultimately have "y = x\<lparr>br_allow_large_delta := allow\<rparr>" using key_unique [OF ids', of y "x\<lparr>br_allow_large_delta := allow\<rparr>"] by simp
      then have "br_kb_version y = be_version (re_build env)" "br_build_seq y = bw_seq w + 1" using x' by simp_all
      moreover have "?k\<lparr>kb_runs := kb_runs (bw_saved w')\<rparr> = bw_saved w'"
        using runs_frame [OF activation_frame [OF v], of "kb_runs (bw_saved w')"] by simp
      ultimately show ?thesis using y act by auto
    next
      case False
      then have "served (bw_saved w') = served ?k" using refusal_keeps_serving [OF v _ ids', of "[]" "[]"] by (simp add: served_def)
      also have "\<dots> = served (bw_saved w1)" by (rule served_cong) (simp add: allow_delta_views)
      finally show ?thesis by (simp add: old)
    qed
  qed (simp add: old)
qed

section \<open>One builder at a time\<close>

lemma lock_released:
  assumes "with_builder_lock m (held, w) = (r, (held', w'))" "BUILDER_LOCK_KEY \<notin> held"
    "\<And>h w r h' w'. m (h, w) = (r, (h', w')) \<Longrightarrow> h' = h"
  shows "held' = held"
proof -
  obtain r1 h1 w1 where m: "m (insert BUILDER_LOCK_KEY held, w) = (r1, (h1, w1))" by (metis prod_cases3)
  from assms(3) [OF m] assms(1,2) m show ?thesis by (simp add: with_builder_lock_def)
qed

lemma second_builder_refused:
  "BUILDER_LOCK_KEY \<in> held \<Longrightarrow> build_main env act allow cns (held, w) = (Inl (RuntimeError ''BuilderLockUnavailableError''), (held, w))"
  by (simp add: build_main_def with_builder_lock_def)

lemma build_main_run:
  assumes "BUILDER_LOCK_KEY \<notin> held" "run_build env act allow cns w = (r, w')"
  shows "build_main env act allow cns (held, w) = (r, (held, w'))"
  using assms by (simp add: build_main_def with_builder_lock_def on_registry_def)

end
