(* ===== verification/AclGaps.thy ===== *)
theory AclGaps
  imports Invalidation AclIntersection
begin

text \<open>
  What ACL propagation does to the artifacts of a seen source: each live one gets the ACL of its source,
  whatever its own was. A commit's source has no teams, so the intersection its artifact was written with
  is gone by the end of the build that wrote it.
\<close>

definition acl_follows :: "kb_source \<Rightarrow> kb \<Rightarrow> bool" where
  "acl_follows s k \<longleftrightarrow> (\<forall>a \<in> set (kb_artifacts k). ka_source a = src_id s \<longrightarrow> live_artifact a \<longrightarrow> ka_acl a = src_acl s)"

lemma propagate_one_follows: "acl_follows s (snd (snd (propagate_one s st)))"
  by (cases st) (auto simp: propagate_one_def Let_def acl_follows_def set_update_where acl_differs_def live_artifact_def)

lemma propagate_one_other:
  "acl_follows s (snd (snd st)) \<Longrightarrow> src_id s' \<noteq> src_id s \<Longrightarrow> acl_follows s (snd (snd (propagate_one s' st)))"
  by (cases st) (auto simp: propagate_one_def Let_def acl_follows_def set_update_where acl_differs_def live_artifact_def)

lemma propagate_fold:
  assumes "distinct (map src_id ss)" "s \<in> set ss \<or> (acl_follows s (snd (snd st)) \<and> src_id s \<notin> src_id ` set ss)"
  shows "acl_follows s (snd (snd (fold propagate_one ss st)))"
  using assms
proof (induction ss arbitrary: st)
  case (Cons x ss)
  show ?case
  proof (cases "x = s")
    case True
    then have "src_id s \<notin> src_id ` set ss" using Cons.prems(1) by auto
    with True show ?thesis using Cons.IH [of "propagate_one x st"] Cons.prems(1) propagate_one_follows by auto
  next
    case False
    have "s \<in> set ss \<or> (acl_follows s (snd (snd (propagate_one x st))) \<and> src_id s \<notin> src_id ` set ss)"
      using Cons.prems(2) False propagate_one_other [of s st x] by auto
    then show ?thesis using Cons.IH [of "propagate_one x st"] Cons.prems(1) by simp
  qed
qed auto

lemma propagate_sources [simp]: "kb_sources (snd (snd (propagate_acl seen k))) = kb_sources k"
proof -
  have "kb_sources (snd (snd (fold propagate_one ss st))) = kb_sources (snd (snd st))" for ss st
    by (induction ss arbitrary: st) (auto simp: propagate_one_def Let_def split: prod.splits)
  then show ?thesis by (simp add: propagate_acl_def)
qed

lemma map_id_deleted: "map src_id (kb_sources (mark_deleted ids k)) = map src_id (kb_sources k)"
  by (simp add: mark_deleted_def map_update_where)

lemma pass_source_ids: "map src_id (kb_sources (snd (run_invalidation_pass seq seen changed started k))) = map src_id (kb_sources k)"
proof -
  have "map src_id (kb_sources (rn_kb (rename_step seq old row st))) = map src_id (kb_sources (rn_kb st))" for old row st
    by (auto simp: rename_step_def split_beta Let_def map_id_deleted split: option.splits)
  then have "map src_id (kb_sources (rn_kb (fold (rename_step seq old) rows st))) = map src_id (kb_sources (rn_kb st))" for old rows st
    by (induction rows arbitrary: st) simp_all
  from this [of _ _ "no_renames k"] have "map src_id (kb_sources (rn_kb (detect_renames seq v k))) = map src_id (kb_sources k)" for v
    by (simp add: detect_renames_def no_renames_def Let_def)
  moreover have "map src_id (kb_sources (snd (deletion_sweep seq ids k))) = map src_id (kb_sources k)" for ids k
    by (simp add: deletion_sweep_def Let_def split_beta map_id_deleted)
  moreover have "kb_sources (snd (supersession_sweep seq ids k)) = kb_sources k" for ids k
    by (simp add: supersession_sweep_def Let_def)
  ultimately show ?thesis by (simp add: run_invalidation_pass_def Let_def split_beta)
qed

lemma pass_acl_follows:
  assumes "distinct (map src_id (kb_sources k))" "run_invalidation_pass seq seen changed started k = (res, k')"
    "s \<in> set (kb_sources k')" "src_id s \<in> seen" "a \<in> set (kb_artifacts k')" "ka_source a = src_id s" "live_artifact a"
  shows "ka_acl a = src_acl s"
proof -
  obtain k3 where k3: "k' = snd (snd (propagate_acl seen k3))"
    using assms(2) by (auto simp: run_invalidation_pass_def Let_def split: prod.splits) (metis snd_conv)
  have "distinct (map src_id (kb_sources k'))" using pass_source_ids [of seq seen changed started k] assms(1,2) by simp
  then have "distinct (map src_id (filter (\<lambda>s. src_id s \<in> seen) (kb_sources k3)))" by (simp add: k3 distinct_map_filter)
  moreover have "s \<in> set (filter (\<lambda>s. src_id s \<in> seen) (kb_sources k3))" using assms(3,4) by (simp add: k3)
  ultimately have "acl_follows s k'" using assms(4) unfolding k3 by (auto simp: propagate_acl_def intro!: propagate_fold)
  then show ?thesis using assms(5-7) by (simp add: acl_follows_def)
qed

end
