(* ===== verification/RenameGaps.thy ===== *)
theory RenameGaps
  imports PublishGates
begin

text \<open>
  Two consequences of how renames are detected artifact by artifact. A source one of whose
  artifacts was matched is left out of the deletion sweep, so its other artifacts stay live
  under a deleted source and every later publish is refused; and the edges of the matched
  artifact are repointed in place, under versions that are already published.
\<close>

section \<open>Following one row through the pass\<close>

lemma kept_row:
  assumes "versions_kept seq k k'" and "distinct (map ka_id (kb_artifacts k))"
    and a: "a \<in> set (kb_artifacts k)" and b: "b \<in> set (kb_artifacts k')" and id: "ka_id b = ka_id a"
  shows "row_core b = row_core a"
proof -
  have core: "ka_id (row_core x) = ka_id x" for x by (simp add: row_core_def)
  from b assms(1) obtain c where c: "c \<in> set (kb_artifacts k)" "same_row seq c b"
    unfolding versions_kept_def by (metis in_set_conv_nth list_all2_conv_all_nth)
  then have "row_core c = row_core b" by (simp add: same_row_def)
  with core id have "ka_id c = ka_id a" by metis
  with key_unique [OF assms(2) c(1) a] \<open>row_core c = row_core b\<close> show ?thesis by simp
qed

lemma kept_ids:
  assumes "versions_kept seq k k'" shows "map ka_id (kb_artifacts k') = map ka_id (kb_artifacts k)"
proof -
  have core: "ka_id (row_core x) = ka_id x" for x by (simp add: row_core_def)
  from assms show ?thesis unfolding versions_kept_def
  proof (induction rule: list_all2_induct)
    case (Cons a as b bs)
    then have "ka_id b = ka_id a" using core by (metis same_row_def)
    with Cons show ?case by simp
  qed simp
qed

lemma row_core_fields:
  assumes "row_core b = row_core a"
  shows "ka_source b = ka_source a" "ka_body b = ka_body a" "ka_valid_from b = ka_valid_from a"
    "ka_content_hash b = ka_content_hash a" "ka_id b = ka_id a"
proof -
  have "ka_source (row_core x) = ka_source x" "ka_body (row_core x) = ka_body x" "ka_id (row_core x) = ka_id x"
    "ka_valid_from (row_core x) = ka_valid_from x" "ka_content_hash (row_core x) = ka_content_hash x" for x
    by (simp_all add: row_core_def)
  with assms show "ka_source b = ka_source a" "ka_body b = ka_body a" "ka_valid_from b = ka_valid_from a"
    "ka_content_hash b = ka_content_hash a" "ka_id b = ka_id a" by metis+
qed

lemma rename_step_cases:
  obtains (same) "rename_step seq old row st = st"
  | (renamed) h u s k1 where "ka_content_hash row = Some h" and "map_of old h = Some (u, s)"
    and "k1 = (rn_kb st)\<lparr>kb_artifacts := update_where (\<lambda>a. ka_id a = ka_id row)
           (\<lambda>a. a\<lparr>ka_prior := Some u\<rparr>) (kb_artifacts (rn_kb st))\<rparr>"
    and "rn_sources (rename_step seq old row st) = insert s (rn_sources st)"
    and "rn_kb (rename_step seq old row st) =
           mark_deleted {s} (invalidate_artifacts seq {u} (snd (reattach_edges seq u (ka_id row) k1)))"
proof (cases "ka_content_hash row")
  case None with same show ?thesis by (simp add: rename_step_def)
next
  case (Some h)
  show ?thesis
  proof (cases "h \<in> rn_matched st \<or> map_of old h = None")
    case True with Some same show ?thesis by (auto simp: rename_step_def)
  next
    case False
    then obtain u s where "map_of old h = Some (u, s)" by auto
    with Some False show ?thesis by (intro renamed [OF Some _ refl]) (simp_all add: rename_step_def split_beta Let_def)
  qed
qed

subsection \<open>Sources that are gone\<close>

definition gone :: "nat \<Rightarrow> kb \<Rightarrow> bool" where
  "gone x k \<longleftrightarrow> (\<forall>s \<in> set (kb_sources k). src_id s = x \<longrightarrow> src_deleted s)"

lemma gone_mark: "gone x k \<or> x \<in> ids \<Longrightarrow> gone x (mark_deleted ids k)"
  by (auto simp: gone_def mark_deleted_def set_update_where)

lemma gone_cong: "kb_sources k' = kb_sources k \<Longrightarrow> gone x k' = gone x k"
  by (simp add: gone_def)

lemma sources_of_update [simp]: "kb_sources (k\<lparr>kb_artifacts := as\<rparr>) = kb_sources k"
  by simp

lemma gone_rename_step:
  assumes "gone x (rn_kb st) \<or> x \<in> rn_sources (rename_step seq old row st) - rn_sources st"
  shows "gone x (rn_kb (rename_step seq old row st))"
proof (cases rule: rename_step_cases [of seq old row st])
  case same with assms show ?thesis by simp
next
  case (renamed h u s k1)
  have "gone x (invalidate_artifacts seq {u} (snd (reattach_edges seq u (ka_id row) k1))) = gone x (rn_kb st)"
    by (rule gone_cong) (simp add: renamed(3))
  with assms renamed(4) show ?thesis unfolding renamed(5) by (intro gone_mark) auto
qed

lemma gone_renames:
  assumes "gone x k \<or> x \<in> rn_sources (detect_renames seq vanished k)"
  shows "gone x (rn_kb (detect_renames seq vanished k))"
proof -
  have fold: "gone x (rn_kb (fold (rename_step seq old) rows st))"
    if "gone x (rn_kb st) \<or> x \<in> rn_sources (fold (rename_step seq old) rows st) - rn_sources st" for old rows st
    using that
  proof (induction rows arbitrary: st)
    case (Cons row rows)
    then show ?case using gone_rename_step [of x st seq old row] by simp blast
  qed simp
  from assms show ?thesis using fold [of "no_renames k"]
    by (auto simp: detect_renames_def no_renames_def Let_def split: if_splits)
qed

lemma gone_pass:
  assumes "gone x k \<or> x \<in> rn_sources (detect_renames seq (fst (vanished_live_sources seen started k)) k)"
  shows "gone x (snd (run_invalidation_pass seq seen changed started k))"
proof -
  have del: "gone x (snd (deletion_sweep seq ids k'))" if g: "gone x k'" for ids k'
  proof -
    have "gone x (mark_deleted ids k')" by (rule gone_mark) (simp add: g)
    moreover have "kb_sources (snd (deletion_sweep seq ids k')) \<in> {kb_sources k', kb_sources (mark_deleted ids k')}"
      by (simp add: deletion_sweep_def Let_def split_beta)
    ultimately show ?thesis using g unfolding gone_def by auto
  qed
  have sup: "gone x (snd (supersession_sweep seq changed k')) = gone x k'" for k'
    by (simp add: supersession_sweep_def Let_def gone_def)
  have one: "kb_sources (snd (snd (propagate_one s st))) = kb_sources (snd (snd st))" for s st
    by (cases st) (simp add: propagate_one_def Let_def)
  have "kb_sources (snd (snd (fold propagate_one ss st))) = kb_sources (snd (snd st))" for ss st
    by (induction ss arbitrary: st) (simp_all add: one)
  then have acl: "gone x (snd (snd (propagate_acl seen k'))) = gone x k'" for k'
    by (simp add: propagate_acl_def gone_def)
  show ?thesis using gone_renames [OF assms]
    by (simp add: run_invalidation_pass_def Let_def split_beta acl sup del)
qed

subsection \<open>Artifacts the pass spares\<close>

definition unmatched :: "int \<Rightarrow> nat set \<Rightarrow> kb \<Rightarrow> kb_artifact \<Rightarrow> bool" where
  "unmatched seq vanished k a \<longleftrightarrow> ka_source a \<in> vanished \<longrightarrow>
     (\<forall>b \<in> set (kb_artifacts k). ka_valid_from b = seq \<longrightarrow> ka_source b \<notin> vanished \<longrightarrow>
        ka_content_hash b \<noteq> ka_content_hash a)"

lemma spared_renames:
  assumes "distinct (map ka_id (kb_artifacts k))" and a: "a \<in> set (kb_artifacts k)"
    and um: "unmatched seq vanished k a" and live: "ka_id a \<in> live_ids k"
  shows "ka_id a \<in> live_ids (rn_kb (detect_renames seq vanished k))"
proof -
  let ?old = "old_by_hash (old_rows vanished k) []"
  let ?new = "new_rows seq vanished ?old k"
  have other: "u \<noteq> ka_id a" if row: "row \<in> set ?new" "ka_content_hash row = Some h" "map_of ?old h = Some (u, s)"
    for row h u s
  proof
    assume u: "u = ka_id a"
    from row(3) obtain b where b: "b \<in> set (old_rows vanished k)" "ka_id b = u" "ka_content_hash b = Some h"
      by (auto dest: old_by_hash_ids)
    then have "b = a" using key_unique [OF assms(1)] a u by (auto simp: old_rows_def live_of_sources_def)
    with b row um show False by (auto simp: old_rows_def live_of_sources_def new_rows_def unmatched_def)
  qed
  have step: "ka_id a \<in> live_ids (rn_kb (rename_step seq ?old row st))"
    if "ka_id a \<in> live_ids (rn_kb st)" "row \<in> set ?new" for row st
  proof -
    have up: "live_ids ((rn_kb st)\<lparr>kb_artifacts := update_where p (\<lambda>a. a\<lparr>ka_prior := Some u\<rparr>) (kb_artifacts (rn_kb st))\<rparr>)
        = live_ids (rn_kb st)" for p u by (rule live_ids_update) (simp_all add: live_artifact_def)
    show ?thesis
    proof (cases rule: rename_step_cases [of seq ?old row st])
      case same with that show ?thesis by simp
    next
      case (renamed h u s k1)
      have "u \<noteq> ka_id a" by (rule other [OF that(2) renamed(1,2)])
      then show ?thesis unfolding renamed(5) using that(1) by (simp add: live_ids_invalidate renamed(3) up)
    qed
  qed
  have "ka_id a \<in> live_ids (rn_kb (fold (rename_step seq ?old) rows st))"
    if "set rows \<subseteq> set ?new" "ka_id a \<in> live_ids (rn_kb st)" for rows st
    using that by (induction rows arbitrary: st) (simp_all add: step)
  from this [of ?new "no_renames k"] live show ?thesis
    by (simp add: detect_renames_def no_renames_def Let_def)
qed

lemma live_ids_deletion: "live_ids (snd (deletion_sweep seq ids k)) = live_ids k - ka_id ` set (live_of_sources ids k)"
proof -
  have "live_ids (mark_deleted ids k) = live_ids k" by simp
  then show ?thesis
    by (auto simp: deletion_sweep_def Let_def split_beta live_ids_invalidate live_of_sources_def)
qed

lemma live_ids_supersession:
  "live_ids (snd (supersession_sweep seq ch k)) \<supseteq> live_ids k - ka_id ` set (live_of_sources ch k)"
  by (auto simp: supersession_sweep_def Let_def live_ids_invalidate)

lemma live_ids_propagate: "live_ids (snd (snd (propagate_acl seen k))) = live_ids k"
proof -
  have one: "live_ids (snd (snd (propagate_one s st))) = live_ids (snd (snd st))" for s st
    by (cases st) (simp add: propagate_one_def Let_def live_ids_update live_artifact_def)
  have "live_ids (snd (snd (fold propagate_one ss st))) = live_ids (snd (snd st))" for ss st
    by (induction ss arbitrary: st) (simp_all add: one)
  then show ?thesis by (simp add: propagate_acl_def)
qed

lemma not_of_sources:
  assumes "versions_kept seq k k'" and "distinct (map ka_id (kb_artifacts k))" and "a \<in> set (kb_artifacts k)"
    and "ka_source a \<notin> ids"
  shows "ka_id a \<notin> ka_id ` set (live_of_sources ids k')"
proof
  assume "ka_id a \<in> ka_id ` set (live_of_sources ids k')"
  then obtain b where "b \<in> set (kb_artifacts k')" "ka_id b = ka_id a" "ka_source b \<in> ids"
    by (auto simp: live_of_sources_def)
  with row_core_fields(1) [OF kept_row [OF assms(1-3)]] assms(4) show False by metis
qed

lemma pass_spares:
  assumes d: "distinct (map ka_id (kb_artifacts k))" and a: "a \<in> set (kb_artifacts k)" and live: "live_artifact a"
    and ch: "ka_source a \<notin> changed" and um: "unmatched seq vanished k a"
    and v: "vanished = fst (vanished_live_sources seen started k)"
    and del: "ka_source a \<notin> vanished - rn_sources (detect_renames seq vanished k)"
  shows "ka_id a \<in> live_ids (snd (run_invalidation_pass seq seen changed started k))"
proof -
  let ?rn = "detect_renames seq vanished k"
  let ?k2 = "snd (deletion_sweep seq (vanished - rn_sources ?rn) (rn_kb ?rn))"
  have "ka_id a \<in> live_ids k" using a live by (auto simp: live_ids_def)
  from spared_renames [OF d a um this] have "ka_id a \<in> live_ids ?k2"
    using not_of_sources [OF kept_renames d a del, of seq vanished] by (simp add: live_ids_deletion)
  moreover have "versions_kept seq k ?k2" using kept_trans [OF kept_renames kept_deletion] .
  ultimately have "ka_id a \<in> live_ids (snd (supersession_sweep seq changed ?k2))"
    using not_of_sources [OF _ d a ch] live_ids_supersession by blast
  then show ?thesis by (simp add: run_invalidation_pass_def v Let_def split_beta live_ids_propagate)
qed

section \<open>A partial rename strands the rest of the source\<close>

definition stranded :: "uuid \<Rightarrow> nat \<Rightarrow> int \<Rightarrow> kb \<Rightarrow> bool" where
  "stranded u x s k \<longleftrightarrow> gone x k \<and> (\<exists>a \<in> set (kb_artifacts k). ka_id a = u \<and> ka_source a = x
     \<and> live_artifact a \<and> ka_body a \<noteq> None \<and> ka_valid_from a \<le> s)"

lemma strandedI:
  assumes kept: "versions_kept seq k k'" and d: "distinct (map ka_id (kb_artifacts k))" and a: "a \<in> set (kb_artifacts k)"
    and "ka_body a \<noteq> None" "ka_valid_from a \<le> s" and "ka_id a \<in> live_ids k'" and "gone (ka_source a) k'"
  shows "stranded (ka_id a) (ka_source a) s k'"
proof -
  from assms(6) obtain b where b: "b \<in> set (kb_artifacts k')" "live_artifact b" "ka_id b = ka_id a"
    by (auto simp: live_ids_def)
  from row_core_fields [OF kept_row [OF kept d a b(1,3)]] assms b show ?thesis
    unfolding stranded_def by (intro conjI bexI [of _ b]) auto
qed

lemma partial_rename_strands:
  assumes d: "distinct (map ka_id (kb_artifacts k))" and a: "a \<in> set (kb_artifacts k)" "live_artifact a" "ka_body a \<noteq> None"
    and v: "vanished = fst (vanished_live_sources seen started k)"
    and rn: "ka_source a \<in> rn_sources (detect_renames seq vanished k)"
    and um: "unmatched seq vanished k a" and ch: "ka_source a \<notin> changed" and s: "ka_valid_from a \<le> s"
  shows "stranded (ka_id a) (ka_source a) s (snd (run_invalidation_pass seq seen changed started k))"
proof (rule strandedI [OF kept_pass d a(1,3) s])
  show "ka_id a \<in> live_ids (snd (run_invalidation_pass seq seen changed started k))"
    by (rule pass_spares [OF d a(1,2) ch um v]) (use rn in simp)
  show "gone (ka_source a) (snd (run_invalidation_pass seq seen changed started k))"
    by (rule gone_pass) (use rn v in simp)
qed

lemma gone_not_vanished: "gone x k \<Longrightarrow> x \<notin> fst (vanished_live_sources seen started k)"
  by (auto simp: gone_def vanished_live_sources_def unseen_live_def)

lemma stranded_stays:
  assumes st: "stranded u x s k" and d: "distinct (map ka_id (kb_artifacts k))" and ch: "x \<notin> changed"
  shows "stranded u x s (snd (run_invalidation_pass seq seen changed started k))"
proof -
  from st obtain a where a: "a \<in> set (kb_artifacts k)" "ka_id a = u" "ka_source a = x" "live_artifact a"
    "ka_body a \<noteq> None" "ka_valid_from a \<le> s" and g: "gone x k" by (auto simp: stranded_def)
  from gone_not_vanished [OF g] have nv: "x \<notin> fst (vanished_live_sources seen started k)" .
  have "stranded (ka_id a) (ka_source a) s (snd (run_invalidation_pass seq seen changed started k))"
  proof (rule strandedI [OF kept_pass d a(1,5,6)])
    show "ka_id a \<in> live_ids (snd (run_invalidation_pass seq seen changed started k))"
      by (rule pass_spares [OF d a(1,4) _ _ refl]) (use nv a(3) ch in \<open>auto simp: unmatched_def\<close>)
    show "gone (ka_source a) (snd (run_invalidation_pass seq seen changed started k))"
      by (rule gone_pass) (simp add: g a(3))
  qed
  with a show ?thesis by simp
qed

lemma stranded_blocks:
  assumes "stranded u x s k" and "build_seq_for k v = Inr seq" and "s \<le> seq"
  shows "fst (publish_validator c v k) \<noteq> Inr True"
proof
  assume "fst (publish_validator c v k) = Inr True"
  then obtain k' where "publish_validator c v k = (Inr True, k')" by (metis prod.collapse)
  then obtain s' where s': "build_seq_for k v = Inr s'" "dangling_citations k s' = 0" by (rule publish_gates_pass)
  from assms(1) obtain a where a: "a \<in> set (kb_artifacts k)" "ka_source a = x" "live_artifact a"
    "ka_body a \<noteq> None" "ka_valid_from a \<le> s" and g: "gone x k" by (auto simp: stranded_def)
  have "in_version s' a" using a assms(2,3) s' by (auto simp: in_version_def member_at_def live_artifact_def)
  with s'(2) a obtain src where "src \<in> set (kb_sources k)" "src_id src = x" "\<not> src_deleted src"
    by (auto simp: no_dangling_iff)
  with g show False by (auto simp: gone_def)
qed

section \<open>Repointing reaches into published versions\<close>

lemma reattach_repoints:
  assumes e: "e \<in> set (kb_edges k)" "live_edge e" "ke_from e = old" "ke_to e \<noteq> new" "ke_to e \<noteq> old" and ne: "new \<noteq> old"
  shows "put_from new e \<in> set (kb_edges (snd (reattach_edges seq old new k)))"
proof -
  let ?f = "redirect seq old new ke_from ke_to put_from" and ?g = "redirect seq old new ke_to ke_from put_to"
  have col: "kb_edges (snd (reattach_column seq old new get oth put k)) = map (redirect seq old new get oth put) (kb_edges k)"
    for get oth put k
    by (auto simp: reattach_column_def invalidate_edges_def update_where_def Let_def redirect_def live_edge_def)
  have "kb_edges (snd (reattach_edges seq old new k)) = map ?g (map ?f (kb_edges k))"
    unfolding reattach_edges_def Let_def split_beta snd_conv col ..
  then have "?g (?f e) \<in> set (kb_edges (snd (reattach_edges seq old new k)))" using e(1) by simp
  moreover have "?f e = put_from new e" using e by (simp add: redirect_def)
  moreover have "?g (put_from new e) = put_from new e" using e by (simp add: redirect_def put_from_def)
  ultimately show ?thesis by simp
qed

lemma repointing_haunts:
  assumes d: "distinct (map ka_id (kb_artifacts k))"
    and e: "e \<in> set (kb_edges k)" "live_edge e" "ke_from e = old" "ke_to e \<noteq> new" "ke_to e \<noteq> old" "edge_in_version s e"
    and new: "a \<in> set (kb_artifacts k)" "ka_id a = new" "s < ka_valid_from a" and ne: "new \<noteq> old"
  shows "ghost_edges (snd (reattach_edges seq old new k)) s \<noteq> []"
proof -
  have "new \<notin> member_ids (snd (reattach_edges seq old new k)) s"
  proof
    assume "new \<in> member_ids (snd (reattach_edges seq old new k)) s"
    then obtain b where "b \<in> set (kb_artifacts k)" "ka_id b = new" "in_version s b" by (auto simp: member_ids_def)
    moreover from this(1,2) have "b = a" using key_unique [OF d] new(1,2) by blast
    ultimately show False using new(3) by (simp add: in_version_def member_at_def)
  qed
  moreover have "edge_in_version s (put_from new e)" using e(6) by (simp add: edge_in_version_def put_from_def)
  ultimately have "put_from new e \<in> set (ghost_edges (snd (reattach_edges seq old new k)) s)"
    using reattach_repoints [OF e(1-5) ne] by (simp add: ghost_edges_def put_from_def)
  then show ?thesis by (metis empty_iff list.set(1))
qed

end
