(* ===== verification/LinkerGaps.thy ===== *)
theory LinkerGaps
  imports Judge RenameGaps
begin

text \<open>
  Where the linker and the invalidation pass miss each other. The linker loads the artifacts of every
  source that is not deleted, dead generations included (\<open>_load_linkable_artifacts\<close>), and its upsert revives
  the edges the pass ended; the pass ends only the edges of what the same build retires.
\<close>

lemma upsert_link_rows [simp]:
  "kb_artifacts (snd (upsert_link_edge v s d k)) = kb_artifacts k" "kb_sources (snd (upsert_link_edge v s d k)) = kb_sources k"
  "kb_runs (snd (upsert_link_edge v s d k)) = kb_runs k"
  by (simp_all add: upsert_link_edge_def gen_random_uuid_def)

lemma upsert_links_rows [simp]:
  "kb_artifacts (fold (\<lambda>d k. snd (upsert_link_edge v s d k)) ds k) = kb_artifacts k"
  "kb_sources (fold (\<lambda>d k. snd (upsert_link_edge v s d k)) ds k) = kb_sources k"
  "kb_runs (fold (\<lambda>d k. snd (upsert_link_edge v s d k)) ds k) = kb_runs k"
  by (induction ds arbitrary: k) simp_all

lemma write_links_rows [simp]:
  "kb_artifacts (snd (write_link_edges v s ds prot k)) = kb_artifacts k"
  "kb_sources (snd (write_link_edges v s ds prot k)) = kb_sources k"
  "kb_runs (snd (write_link_edges v s ds prot k)) = kb_runs k"
  by (simp_all add: write_links_split invalidate_where_def Let_def)

definition edges_since :: "int \<Rightarrow> kb \<Rightarrow> bool" where
  "edges_since s k \<longleftrightarrow> (\<forall>e \<in> set (kb_edges k). ke_valid_from e \<le> s)"

lemma upsert_link_since: "edges_since s k \<Longrightarrow> edges_since s (snd (upsert_link_edge v s d k))"
  by (auto simp: edges_since_def upsert_link_edge_def gen_random_uuid_def set_update_where insert_link_def)

lemma write_links_since: "edges_since s k \<Longrightarrow> edges_since s (snd (write_link_edges v s ds prot k))"
proof -
  assume "edges_since s k"
  then have "edges_since s (fold (\<lambda>d k. snd (upsert_link_edge v s d k)) ds k)"
    by (rule fold_keeps [where P = "edges_since s", rotated]) (rule upsert_link_since)
  then show ?thesis by (auto simp: write_links_split invalidate_where_def Let_def edges_since_def set_update_where)
qed

section \<open>A quiet rebuild\<close>

lemma quiet_pass:
  assumes "fst (vanished_live_sources seen started k) = {}"
  shows "kb_edges (snd (run_invalidation_pass s seen {} started k)) = kb_edges k"
    "member_ids (snd (run_invalidation_pass s seen {} started k)) t = member_ids k t"
    "kb_runs (snd (run_invalidation_pass s seen {} started k)) = kb_runs k"
proof -
  have p: "snd (run_invalidation_pass s seen {} started k) = snd (snd (propagate_acl seen k))"
    using assms by (simp add: run_invalidation_pass_def split_beta detect_renames_def no_renames_def
        deletion_sweep_def supersession_sweep_def Let_def)
  define I :: "kb \<Rightarrow> bool" where "I = (\<lambda>k'. kb_edges k' = kb_edges k \<and> kb_runs k' = kb_runs k
    \<and> map (\<lambda>a. (ka_id a, ka_valid_from a, ka_invalidated a)) (kb_artifacts k') = map (\<lambda>a. (ka_id a, ka_valid_from a, ka_invalidated a)) (kb_artifacts k))"
  have step: "I (snd (snd (propagate_one src st)))" if "I (snd (snd st))" for src st
  proof -
    have "map (\<lambda>a. (ka_id a, ka_valid_from a, ka_invalidated a)) (update_where (acl_differs src) (\<lambda>a. a\<lparr>ka_acl := src_acl src\<rparr>) rows)
        = map (\<lambda>a. (ka_id a, ka_valid_from a, ka_invalidated a)) rows" for rows :: "kb_artifact list"
      by (rule map_update_where) simp
    then show ?thesis using that by (simp add: I_def propagate_one_def Let_def split_beta)
  qed
  have "I (snd (snd (fold propagate_one ss (0, 0, k))))" for ss
    by (rule fold_keeps [where P = "\<lambda>st. I (snd (snd st))"]) (simp_all add: step, simp add: I_def)
  then have i: "I (snd (snd (propagate_acl seen k)))" by (simp add: propagate_acl_def) (simp add: I_def)
  then show "kb_edges (snd (run_invalidation_pass s seen {} started k)) = kb_edges k"
    "kb_runs (snd (run_invalidation_pass s seen {} started k)) = kb_runs k" unfolding p by (simp_all add: I_def)
  have m: "member_ids k' t = fst ` set (filter (\<lambda>(u, f, i). f \<le> t \<and> (case i of None \<Rightarrow> True | Some j \<Rightarrow> t < j))
      (map (\<lambda>a. (ka_id a, ka_valid_from a, ka_invalidated a)) (kb_artifacts k')))" for k'
    by (force simp: member_ids_def in_version_def member_at_def split: option.splits)
  show "member_ids (snd (run_invalidation_pass s seen {} started k)) t = member_ids k t"
    unfolding p m using i by (simp add: I_def)
qed

text \<open>
  A link the linker computes on a dead artifact is live again after a build in which nothing changed, and
  the publish gates refuse that build.
\<close>

lemma dead_link_revived:
  assumes ok: "edge_ids_ok k" "edges_since s k" "distinct (map ka_id (kb_artifacts k))"
    and run: "run_linker v s None k = (Inr c, k1)"
    and d: "d \<in> set (find_deterministic_links (load_linkable_artifacts k))"
    and a: "a \<in> set (kb_artifacts k)" "ka_id a = ld_from d \<or> ka_id a = ld_to d" "ka_invalidated a = Some i" "i \<le> s"
  shows "ghost_edges k1 s \<noteq> []"
proof -
  let ?ds = "find_deterministic_links (load_linkable_artifacts k)"
  have k1: "k1 = snd (write_link_edges v s ?ds {''implements''} k)"
    using run by (simp add: run_linker_def linker_drafts_def Let_def split_beta)
  have "draft_key d \<in> live_of ''linker'' k1"
    unfolding k1 write_links_protected [OF ok(1)] using d by simp
  then obtain e where e: "e \<in> set (kb_edges k1)" "live_edge e" "edge_key e = draft_key d" by (auto simp: live_of_def)
  have "edges_since s k1" unfolding k1 by (rule write_links_since [OF ok(2)])
  then have "edge_in_version s e"
    using e(1,2) by (auto simp: edges_since_def edge_in_version_def member_at_def live_edge_def)
  moreover have "ka_id a \<notin> member_ids k1 s"
  proof
    assume "ka_id a \<in> member_ids k1 s"
    then obtain b where b: "b \<in> set (kb_artifacts k)" "ka_id b = ka_id a" "in_version s b"
      by (auto simp: member_ids_def k1)
    then have "b = a" using key_unique [OF ok(3) b(1) a(1)] by simp
    with b(3) a(3,4) show False by (simp add: in_version_def member_at_def)
  qed
  then have "ke_from e \<notin> member_ids k1 s \<or> ke_to e \<notin> member_ids k1 s"
    using a(2) e(3) by (auto simp: edge_key_def draft_key_def)
  ultimately show ?thesis using e(1) by (auto simp: ghost_edges_def filter_empty_conv)
qed

lemma ghosts_block:
  assumes "ghost_edges k s \<noteq> []" and "build_seq_for k v = Inr s"
  shows "fst (publish_validator consistency v k) \<noteq> Inr True"
proof
  assume "fst (publish_validator consistency v k) = Inr True"
  then obtain k' where "publish_validator consistency v k = (Inr True, k')" by (metis prod.collapse)
  then obtain s' where "build_seq_for k v = Inr s'" "ghost_edges k s' = []" by (rule publish_gates_pass)
  with assms show False by simp
qed

lemma quiet_rebuild_refused:
  assumes "edge_ids_ok k" "edges_since s k" "distinct (map ka_id (kb_artifacts k))"
    and "run_linker v s None k = (Inr c, k1)"
    and "d \<in> set (find_deterministic_links (load_linkable_artifacts k))"
    and "a \<in> set (kb_artifacts k)" "ka_id a = ld_from d \<or> ka_id a = ld_to d" "ka_invalidated a = Some i" "i \<le> s"
    and quiet: "fst (vanished_live_sources seen started k1) = {}"
    and k2: "k2 = snd (run_invalidation_pass s seen {} started k1)" and seq: "build_seq_for k2 v = Inr s"
  shows "fst (publish_validator consistency v k2) \<noteq> Inr True"
proof (rule ghosts_block [OF _ seq])
  have "ghost_edges k2 s = ghost_edges k1 s"
    unfolding k2 ghost_edges_def quiet_pass [OF quiet] ..
  then show "ghost_edges k2 s \<noteq> []" using dead_link_revived [OF assms(1-9)] by simp
qed

section \<open>Revival rewrites the versions in between\<close>

lemma revival_rewrites:
  assumes e: "e \<in> set (kb_edges k)" "conflicts d e" "ke_invalidated e = Some i" "ke_valid_from e \<le> t" "i \<le> t"
  shows "\<not> edge_in_version t e"
    and "\<exists>e' \<in> set (kb_edges (snd (upsert_link_edge v s d k))). ke_id e' = ke_id e \<and> edge_in_version t e'"
proof -
  show "\<not> edge_in_version t e" using e by (simp add: edge_in_version_def member_at_def)
  have "refresh_link v d e \<in> set (kb_edges (snd (upsert_link_edge v s d k)))"
    using e(1,2) by (auto simp: upsert_link_edge_def list_ex_iff set_update_where)
  moreover have "edge_in_version t (refresh_link v d e)"
    using e(4) by (simp add: edge_in_version_def member_at_def refresh_link_def)
  ultimately show "\<exists>e' \<in> set (kb_edges (snd (upsert_link_edge v s d k))). ke_id e' = ke_id e \<and> edge_in_version t e'"
    by (intro bexI [of _ "refresh_link v d e"]) simp_all
qed

end
