(* ===== verification/BuildFacts.thy ===== *)
theory BuildFacts
  imports BuildSafety RenameGaps
begin

text \<open>
  The incremental build: an output of the extractor is paid for once, an unchanged source costs nothing,
  and two ways in which the skips lose knowledge.
\<close>

section \<open>The extractor is paid once\<close>

interpretation paid: session_inv "\<lambda>w. durable_le d (bw_durable w)" s for d s
  by unfold_locales (auto simp: durable_le_def)

interpretation unpaid: quiet_inv "\<lambda>w. bw_extracts w = n" s for n s
  by unfold_locales simp_all

lemma durable_doc_run:
  assumes "be_durable env" "du_faults (bw_durable w) = []"
  shows "durable_doc env key w = (Inr (map_of (du_docs (bw_durable w)) key), w)"
  using assms by (simp add: durable_doc_def durable_get_doc_def durable_fault_def)

lemma upsert_item_keeps:
  assumes "upsert_source_item env c w = (r, w1)"
  shows "bw_durable w1 = bw_durable w" "bw_extracts w1 = bw_extracts w" "\<exists>sid. r = Inr sid"
    "kb_gen_cache (bw_kb w1) = kb_gen_cache (bw_kb w)" "kb_gen_maps (bw_kb w1) = kb_gen_maps (bw_kb w)"
    "kb_artifacts (bw_kb w1) = kb_artifacts (bw_kb w)"
  using assms by (auto simp: upsert_source_item_def nowM_def kbM_def upsert_source_def gen_random_uuid_def split_beta
      split: list.splits)

text \<open>An answered extraction is kept, whatever happens to the build afterwards.\<close>

lemma extraction_kept:
  assumes "be_durable env" "du_faults (bw_durable w) = []" "generation_lookup (doc_key env c) (bw_kb w) = None"
    and ans: "be_extract env (bw_extracts w) c = Inr drafts"
    and run: "docify_gated env s c sid w = (r, w1)"
  shows "map_of (du_docs (bw_durable w1)) (doc_key env c) \<noteq> None"
proof -
  have rest: "map_of (du_docs (bw_durable w1)) (doc_key env c) \<noteq> None"
    if "write_extracted env s c sid x v = (r, w1)" "map_of (du_docs (bw_durable v)) (doc_key env c) = Some y" for x v y
    using keepsD2 [OF paid.keeps_write_extracted _ that(1), of "bw_durable v"] that(2) by (simp add: durable_le_def)
  let ?kept = "map_of (du_docs (bw_durable w)) (doc_key env c)"
  have step: "docify_gated env s c sid w = bindM (case ?kept of Some drafts \<Rightarrow> ret drafts | None \<Rightarrow> extract_doc env (doc_key env c) c)
      (write_extracted env s c sid) w"
    using assms(1-3) by (simp add: docify_gated_def Let_def durable_doc_run)
  show ?thesis
  proof (cases ?kept)
    case (Some x)
    with run step rest show ?thesis by simp
  next
    case None
    let ?v = "w\<lparr>bw_extracts := Suc (bw_extracts w), bw_counters := (bw_counters w)\<lparr>llm_calls := llm_calls (bw_counters w) + 1\<rparr>,
      bw_durable := durable_put_doc (doc_key env c) drafts (bw_durable w)\<rparr>"
    have "extract_doc env (doc_key env c) c w = (Inr drafts, ?v)"
      using ans assms(1) by (simp add: extract_doc_def countM_def) (simp add: ret_def)
    with run step None have "write_extracted env s c sid drafts ?v = (r, w1)" by simp
    moreover have "map_of (du_docs (bw_durable ?v)) (doc_key env c) = Some drafts"
      using None assms(2) by (simp add: durable_put_doc_def durable_fault_def map_add_def)
    ultimately show ?thesis by (rule rest)
  qed
qed

text \<open>With the output kept, another attempt does not call the extractor.\<close>

lemma kept_not_called:
  assumes "be_durable env" "du_faults (bw_durable w) = []"
    and "map_of (du_docs (bw_durable w)) (doc_key env c) \<noteq> None" "docify_gated env s c sid w = (r, w1)"
  shows "bw_extracts w1 = bw_extracts w"
proof (cases "generation_lookup (doc_key env c) (bw_kb w)")
  case (Some h)
  with assms(4) show ?thesis by (auto simp: docify_gated_def Let_def getM_def)
next
  case None
  obtain x where x: "map_of (du_docs (bw_durable w)) (doc_key env c) = Some x" using assms(3) by blast
  have "write_extracted env s c sid x w = (r, w1)"
    using assms(4) None x by (simp add: docify_gated_def Let_def durable_doc_run [OF assms(1,2)])
  from keepsD2 [OF unpaid.keeps_write_extracted refl this] show ?thesis .
qed

lemma paid_once:
  assumes "be_durable env" "du_faults (bw_durable w) = []" "generation_lookup (doc_key env c) (bw_kb w) = None"
    and "be_extract env (bw_extracts w) c = Inr drafts" and "docify_gated env s c sid w = (r, w1)"
    and later: "durable_le (bw_durable w1) (bw_durable w2)" "du_faults (bw_durable w2) = []"
    and "docify_gated env s' c sid' w2 = (r', w3)"
  shows "bw_extracts w3 = bw_extracts w2"
proof (rule kept_not_called [OF assms(1) later(2) _ assms(8)])
  show "map_of (du_docs (bw_durable w2)) (doc_key env c) \<noteq> None"
    using extraction_kept [OF assms(1-5)] later(1) by (auto simp: durable_le_def)
qed

section \<open>An unchanged source costs nothing\<close>

definition known :: "content \<Rightarrow> kb \<Rightarrow> bool" where
  "known c k \<longleftrightarrow> (\<exists>s. filter (is_source (ct_source c)) (kb_sources k) = [s] \<and> src_hash s = ct_hash c)"

text \<open>What a touch leaves of the sources.\<close>

definition source_keys :: "kb \<Rightarrow> (nat \<times> string option \<times> string \<times> string \<times> bool) list" where
  "source_keys k = map (\<lambda>s. (src_id s, src_type s, src_uri s, src_hash s, src_deleted s)) (kb_sources k)"

lemma touch_keys: "source_keys (snd (touch_sources t ref k)) = source_keys k"
  unfolding source_keys_def touch_sources_def by (simp add: map_update_where touch_row_def)

lemma known_cong: "source_keys k' = source_keys k \<Longrightarrow> known c k' = known c k"
proof -
  have "known c k = (\<exists>x. filter (\<lambda>(i, t, u, h, d). t = Some (rf_type (ct_source c)) \<and> u = rf_uri (ct_source c)) (source_keys k) = [x]
      \<and> fst (snd (snd (snd x))) = ct_hash c)" for k
    unfolding known_def source_keys_def filter_map
    by (auto simp: comp_def is_source_def [abs_def] split_beta map_eq_Cons_conv)
  then show "source_keys k' = source_keys k \<Longrightarrow> known c k' = known c k" by simp
qed

text \<open>The session of a quiet build: only the two columns a touch writes may differ.\<close>

definition quiet_since :: "'i bworld \<Rightarrow> 'i bworld \<Rightarrow> bool" where
  "quiet_since w w' \<longleftrightarrow> source_keys (bw_kb w') = source_keys (bw_kb w)
     \<and> kb_artifacts (bw_kb w') = kb_artifacts (bw_kb w) \<and> kb_edges (bw_kb w') = kb_edges (bw_kb w)
     \<and> bw_saved w' = bw_saved w \<and> bw_index w' = bw_index w \<and> bw_extracts w' = bw_extracts w \<and> bw_embeds w' = bw_embeds w
     \<and> llm_calls (bw_counters w') = llm_calls (bw_counters w) \<and> embedding_calls (bw_counters w') = embedding_calls (bw_counters w)"

lemma quiet_refl: "quiet_since w w" by (simp add: quiet_since_def)

lemma quiet_trans: "quiet_since w w1 \<Longrightarrow> quiet_since w1 w2 \<Longrightarrow> quiet_since w w2" by (simp add: quiet_since_def)

lemma touch_known:
  assumes "known c (bw_kb w)"
  obtains u w1 where "touch_last_seen env c w = (Inr (Some u), w1)" "quiet_since w w1"
proof -
  obtain s where s: "filter (is_source (ct_source c)) (kb_sources (bw_kb w)) = [s]" using assms by (auto simp: known_def)
  let ?w1 = "w\<lparr>bw_kb := snd (touch_sources (be_clock env (bw_txn w)) (ct_source c) (bw_kb w))\<rparr>"
  have "touch_last_seen env c w = (Inr (Some (src_id s)), ?w1)" by (simp add: touch_run s scalar_one_or_none_def)
  moreover have "quiet_since w ?w1" by (simp add: quiet_since_def touch_keys) (simp add: touch_sources_def)
  ultimately show thesis using that by blast
qed

lemma is_unchanged_known: "known c (bw_kb w) \<Longrightarrow> is_unchanged c w = (Inr True, w)"
  by (auto simp: known_def is_unchanged_def scalar_one_or_none_def ret_def)

definition quiet_ref :: "connector \<Rightarrow> kb \<Rightarrow> source_ref \<Rightarrow> bool" where
  "quiet_ref cn k ref \<longleftrightarrow> (\<exists>c. cn_fetch cn ref = Inr c \<and> known c k)"

definition quiet_marks :: "kb \<Rightarrow> source_marks \<Rightarrow> bool" where
  "quiet_marks k m \<longleftrightarrow> mk_changed m = {} \<and> (\<forall>u \<in> set (mk_units m). \<not> cu_changed u \<and> known (cu_fetched u) k)"

lemma quiet_seen [simp]: "quiet_marks k (seen_only r m) = quiet_marks k m"
  by (simp add: quiet_marks_def seen_only_def split: option.splits)

lemma build_ref_run:
  assumes "cn_fetch cn ref = Inr c"
    and "is_unchanged c (w\<lparr>bw_counters := (bw_counters w)\<lparr>sources_seen := sources_seen (bw_counters w) + 1\<rparr>\<rparr>)
      = (Inr True, w\<lparr>bw_counters := (bw_counters w)\<lparr>sources_seen := sources_seen (bw_counters w) + 1\<rparr>\<rparr>)"
  shows "build_ref env s cn ref m w =
    (if rf_path ref \<noteq> None \<and> rf_path ref \<noteq> Some [] \<and> rf_type (ct_source c) = ''github_code''
     then ret (m\<lparr>mk_units := mk_units m @ [\<lparr>cu_fetched = c, cu_path = the (rf_path ref),
            cu_repo = (case rf_repo ref of Some r \<Rightarrow> r | None \<Rightarrow> []), cu_changed = False\<rparr>]\<rparr>)
     else bindM (touch_last_seen env c) (\<lambda>r. ret (seen_only r m)))
    (w\<lparr>bw_counters := (bw_counters w)\<lparr>sources_seen := sources_seen (bw_counters w) + 1\<rparr>\<rparr>)"
proof (cases "rf_path ref")
  case None
  with assms show ?thesis by (simp add: build_ref_def countM_def)
next
  case (Some p)
  with assms show ?thesis by (cases p) (simp_all add: build_ref_def countM_def)
qed

lemma build_ref_quiet:
  assumes "quiet_ref cn (bw_kb w) ref" "quiet_marks (bw_kb w) m"
  obtains m1 w1 where "build_ref env s cn ref m w = (Inr m1, w1)" "quiet_since w w1" "quiet_marks (bw_kb w) m1"
proof -
  obtain c where c: "cn_fetch cn ref = Inr c" "known c (bw_kb w)" using assms(1) by (auto simp: quiet_ref_def)
  let ?w = "w\<lparr>bw_counters := (bw_counters w)\<lparr>sources_seen := sources_seen (bw_counters w) + 1\<rparr>\<rparr>"
  have q: "quiet_since w ?w" by (simp add: quiet_since_def)
  have kw: "known c (bw_kb ?w)" using c(2) by simp
  note run = build_ref_run [OF c(1) is_unchanged_known [OF kw], of env s m]
  obtain u w1 where t: "touch_last_seen env c ?w = (Inr (Some u), w1)" "quiet_since ?w w1"
    using touch_known [OF kw] by blast
  show thesis
  proof (cases "rf_path ref \<noteq> None \<and> rf_path ref \<noteq> Some [] \<and> rf_type (ct_source c) = ''github_code''")
    case True
    let ?m = "m\<lparr>mk_units := mk_units m @ [\<lparr>cu_fetched = c, cu_path = the (rf_path ref),
            cu_repo = (case rf_repo ref of Some r \<Rightarrow> r | None \<Rightarrow> []), cu_changed = False\<rparr>]\<rparr>"
    have "build_ref env s cn ref m w = (Inr ?m, ?w)" unfolding run if_P [OF True] ret_def ..
    moreover have "quiet_marks (bw_kb w) ?m" using assms(2) c(2) by (simp add: quiet_marks_def)
    ultimately show thesis using that q by blast
  next
    case False
    have "build_ref env s cn ref m w = (Inr (seen_only (Some u) m), w1)"
      unfolding run if_not_P [OF False] using t(1) by (simp only: bindM_apply(2)) (simp add: ret_def)
    then show thesis using that quiet_trans [OF q t(2)] assms(2) by fastforce
  qed
qed

lemma quiet_known: "quiet_since w w1 \<Longrightarrow> known c (bw_kb w1) = known c (bw_kb w)"
  unfolding quiet_since_def by (elim conjE) (rule known_cong)

lemma build_refs_quiet:
  "\<forall>r \<in> set rs. quiet_ref cn (bw_kb w) r \<Longrightarrow> quiet_marks (bw_kb w) m \<Longrightarrow>
    \<exists>m1 w1. build_refs env s cn rs m w = (Inr m1, w1) \<and> quiet_since w w1 \<and> quiet_marks (bw_kb w) m1"
proof (induction rs arbitrary: m w)
  case (Cons r rs)
  obtain m1 w1 where 1: "build_ref env s cn r m w = (Inr m1, w1)" "quiet_since w w1" "quiet_marks (bw_kb w) m1"
    using build_ref_quiet Cons.prems by (metis list.set_intros(1))
  have "\<forall>r \<in> set rs. quiet_ref cn (bw_kb w1) r" "quiet_marks (bw_kb w1) m1"
    using Cons.prems(1) 1(2,3) by (auto simp: quiet_ref_def quiet_marks_def quiet_known)
  from Cons.IH [OF this] obtain m2 w2 where
    "build_refs env s cn rs m1 w1 = (Inr m2, w2)" "quiet_since w1 w2" "quiet_marks (bw_kb w1) m2" by blast
  with 1 show ?case by (auto simp: quiet_marks_def quiet_known intro: quiet_trans)
qed (simp add: ret_def quiet_refl)

definition quiet_connector :: "kb \<Rightarrow> connector \<Rightarrow> bool" where
  "quiet_connector k cn \<longleftrightarrow> (\<exists>refs. cn_list cn = Inr refs \<and> (\<forall>r \<in> set refs. quiet_ref cn k r))"

lemma build_connectors_quiet:
  "\<forall>cn \<in> set cns. quiet_connector (bw_kb w) cn \<Longrightarrow> quiet_marks (bw_kb w) m \<Longrightarrow>
    \<exists>m1 w1. build_connectors env s cns m w = (Inr m1, w1) \<and> quiet_since w w1 \<and> quiet_marks (bw_kb w) m1"
proof (induction cns arbitrary: m w)
  case (Cons cn cns)
  obtain refs where refs: "cn_list cn = Inr refs" "\<forall>r \<in> set refs. quiet_ref cn (bw_kb w) r"
    using Cons.prems(1) by (auto simp: quiet_connector_def)
  obtain m1 w1 where 1: "build_refs env s cn refs m w = (Inr m1, w1)" "quiet_since w w1" "quiet_marks (bw_kb w) m1"
    using build_refs_quiet [OF refs(2) Cons.prems(2), of env s] by blast
  have "\<forall>cn \<in> set cns. quiet_connector (bw_kb w1) cn" "quiet_marks (bw_kb w1) m1"
    using Cons.prems(1) 1(2,3) by (auto simp: quiet_connector_def quiet_ref_def quiet_marks_def quiet_known)
  from Cons.IH [OF this] obtain m2 w2 where
    "build_connectors env s cns m1 w1 = (Inr m2, w2)" "quiet_since w1 w2" "quiet_marks (bw_kb w1) m2" by blast
  with 1 refs(1) show ?case by (auto simp: quiet_marks_def quiet_known intro: quiet_trans)
qed (simp add: ret_def quiet_refl)

lemma touch_units_quiet:
  "\<forall>u \<in> set us. known (cu_fetched u) (bw_kb w) \<Longrightarrow>
    \<exists>m1 w1. touch_units env us m w = (Inr m1, w1) \<and> quiet_since w w1 \<and> mk_changed m1 = mk_changed m"
proof (induction us arbitrary: m w)
  case (Cons u us)
  obtain x w1 where 1: "touch_last_seen env (cu_fetched u) w = (Inr (Some x), w1)" "quiet_since w w1"
    using touch_known Cons.prems by (metis list.set_intros(1))
  have "\<forall>u \<in> set us. known (cu_fetched u) (bw_kb w1)" using Cons.prems 1(2) by (simp add: quiet_known)
  from Cons.IH [OF this, of "seen_only (Some x) m"] obtain m2 w2 where
    "touch_units env us (seen_only (Some x) m) w1 = (Inr m2, w2)" "quiet_since w1 w2" "mk_changed m2 = mk_changed m"
    by (auto simp: seen_only_def)
  with 1 show ?case by (auto intro: quiet_trans)
qed (simp add: ret_def quiet_refl)

lemma quiet_build:
  assumes "\<forall>cn \<in> set cns. quiet_connector (bw_kb w) cn"
  obtains m w1 where "process_sources env s cns w = (Inr m, w1)" "mk_changed m = {}" "quiet_since w w1"
proof -
  have "quiet_marks (bw_kb w) no_marks" by (simp add: quiet_marks_def no_marks_def)
  from build_connectors_quiet [OF assms this] obtain m1 w1 where
    1: "build_connectors env s cns no_marks w = (Inr m1, w1)" "quiet_since w w1" "quiet_marks (bw_kb w) m1" by blast
  have no: "\<not> list_ex cu_changed (mk_units m1)" using 1(3) by (auto simp: quiet_marks_def list_ex_iff)
  have "\<forall>u \<in> set (mk_units m1). known (cu_fetched u) (bw_kb w1)" using 1(2,3) by (simp add: quiet_marks_def quiet_known)
  from touch_units_quiet [OF this] obtain m2 w2 where
    2: "touch_units env (mk_units m1) m1 w1 = (Inr m2, w2)" "quiet_since w1 w2" "mk_changed m2 = mk_changed m1" by blast
  have "process_sources env s cns w = (Inr m2, w2)" using 1(1) 2(1) no by (simp add: process_sources_def)
  then show thesis using that 2(3) 1(2,3) quiet_trans [OF 1(2) 2(2)] by (simp add: quiet_marks_def)
qed

section \<open>A cached document at a new place is lost\<close>

definition same_tables :: "kb_artifact list \<Rightarrow> kb_source list \<Rightarrow> 'i bworld \<Rightarrow> bool" where
  "same_tables as ss w \<longleftrightarrow> kb_artifacts (bw_kb w) = as \<and> kb_sources (bw_kb w) = ss"

lemma keeps_tables_embed: "keeps (same_tables as ss) (embed_gated env u)"
proof -
  have k: "kb_artifacts (embedding_record key h v d k) = kb_artifacts k" "kb_sources (embedding_record key h v d k) = kb_sources k"
    for key h v d k by (simp_all add: embedding_record_def split: option.splits)
  have d: "keeps (same_tables as ss) (durable_vector env key)" for key
    by (auto simp: keeps_def durable_vector_def same_tables_def split_beta)
  have t: "keeps (same_tables as ss) (embed_text_body env key b)" for key b
    unfolding embed_text_body_def countM_def by (intro keeps_intros) (auto simp: same_tables_def)
  show ?thesis unfolding embed_gated_def Let_def by (intro keeps_intros d t) (simp add: same_tables_def k)
qed

lemma keeps_tables_index: "keeps (same_tables as ss) (index_counted env us)"
proof -
  have st: "kb_artifacts (record_doc_ids docs k) = kb_artifacts k \<and> kb_sources (record_doc_ids docs k) = kb_sources k" for docs k
    unfolding record_doc_ids_def by (induction docs arbitrary: k) (simp_all add: stamp_doc_id_def split: option.splits)
  have "keeps (same_tables as ss) (index_docs env us)"
    using st by (auto simp: keeps_def index_docs_def upsert_documents_def write_docs_def same_tables_def Let_def
        split: prod.splits if_splits)
  then show ?thesis unfolding index_counted_def countM_def by (intro keeps_intros) (auto simp: same_tables_def)
qed

lemma cached_document_adds_nothing:
  assumes "generation_lookup (doc_key env c) (bw_kb w) \<noteq> None" "rf_type (ct_source c) \<noteq> ''git_metadata''"
    and new: "filter (is_source (ct_source c)) (kb_sources (bw_kb w)) = []"
    and run: "process_changed_source env s c w = (Inr sid, w1)"
  shows "sid = kb_uuids (bw_kb w) (kb_drawn (bw_kb w))" "kb_artifacts (bw_kb w1) = kb_artifacts (bw_kb w)"
    "\<exists>t. kb_sources (bw_kb w1) = kb_sources (bw_kb w) @ [new_source sid t c]"
proof -
  let ?t = "be_clock env (bw_txn w)" and ?u = "kb_uuids (bw_kb w) (kb_drawn (bw_kb w))"
  let ?w = "w\<lparr>bw_kb := (bw_kb w)\<lparr>kb_drawn := Suc (kb_drawn (bw_kb w)), kb_sources := kb_sources (bw_kb w) @ [new_source ?u ?t c]\<rparr>\<rparr>"
  have up: "upsert_source_item env c w = (Inr ?u, ?w)"
    using new by (simp add: upsert_source_item_def nowM_def kbM_def upsert_source_def gen_random_uuid_def)
  have hit: "docify_gated env s c sid' ?w = (Inr (lookup_artifact_ids (doc_key env c) (bw_kb ?w)), ?w)" for sid'
    using assms(1) by (simp add: docify_gated_def Let_def generation_lookup_def getM_def)
  have rest: "bindM (embed_all env ids) (\<lambda>_. bindM (index_counted env ids) (\<lambda>_. ret ?u)) ?w = (Inr sid, w1)"
    if "ids = lookup_artifact_ids (doc_key env c) (bw_kb ?w)" for ids
    using run assms(2) that by (simp only: process_changed_source_def if_False bindM_apply(2) up hit)
  then show sid: "sid = ?u" by (auto simp: op_iff)
  have ea: "keeps (same_tables as ss) (embed_all env us)" for as ss us
    by (induction us) (auto intro!: keeps_intros keeps_tables_embed)
  have k: "keeps (same_tables as ss) (bindM (embed_all env ids) (\<lambda>_. bindM (index_counted env ids) (\<lambda>_. ret u)))" for as ss ids u
    by (intro keeps_intros ea keeps_tables_index)
  define wn where "wn = ?w"
  define us where "us = lookup_artifact_ids (doc_key env c) (bw_kb ?w)"
  have r: "bindM (embed_all env us) (\<lambda>_. bindM (index_counted env us) (\<lambda>_. ret ?u)) wn = (Inr sid, w1)"
    unfolding wn_def by (rule rest) (simp add: us_def)
  have "same_tables (kb_artifacts (bw_kb wn)) (kb_sources (bw_kb wn)) wn" by (simp add: same_tables_def)
  from keepsD2 [OF k this r]
  show "kb_artifacts (bw_kb w1) = kb_artifacts (bw_kb w)"
    "\<exists>t. kb_sources (bw_kb w1) = kb_sources (bw_kb w) @ [new_source sid t c]"
    unfolding sid by (auto simp: same_tables_def wn_def)
qed

text \<open>
  When the document's old place vanished in the same build, the pass finds no new artifact to take the
  old one's name and retires it: neither place has a live artifact.
\<close>

lemma cached_rename_lost:
  assumes "\<forall>a \<in> set (kb_artifacts k). ka_valid_from a < s \<and> ka_source a \<noteq> sid"
    and ids: "distinct (map ka_id (kb_artifacts k))"
    and x: "x \<in> fst (vanished_live_sources seen started k)"
    and a: "a \<in> set (kb_artifacts k)" "ka_source a = x \<or> ka_source a = sid"
  shows "ka_id a \<notin> live_ids (snd (run_invalidation_pass s seen changed started k))"
proof -
  let ?v = "fst (vanished_live_sources seen started k)"
  have "new_rows s ?v old k = []" for old using assms(1) by (fastforce simp: new_rows_def filter_empty_conv)
  then have rn: "detect_renames s ?v k = no_renames k" by (simp add: detect_renames_def Let_def)
  have ax: "ka_source a = x" using assms(1) a by auto
  have "ka_id a \<notin> live_ids k - ka_id ` set (live_of_sources ?v k)"
  proof
    assume l: "ka_id a \<in> live_ids k - ka_id ` set (live_of_sources ?v k)"
    then obtain b where "b \<in> set (kb_artifacts k)" "live_artifact b" "ka_id b = ka_id a" by (auto simp: live_ids_def)
    with key_unique [OF ids this(1) a(1)] l x ax a(1) show False by (auto simp: live_of_sources_def)
  qed
  moreover have "live_ids (snd (supersession_sweep s ch k')) \<subseteq> live_ids k'" for ch k'
    by (auto simp: supersession_sweep_def Let_def live_ids_invalidate)
  then have "live_ids (snd (run_invalidation_pass s seen changed started k)) \<subseteq> live_ids k - ka_id ` set (live_of_sources ?v k)"
    by (fastforce simp: run_invalidation_pass_def split_beta Let_def rn no_renames_def live_ids_propagate live_ids_deletion)
  ultimately show ?thesis by blast
qed

section \<open>A deleted source that comes back unchanged stays deleted\<close>

lemma returning_source_stays_deleted:
  assumes "cn_fetch cn ref = Inr c" "filter (is_source (ct_source c)) (kb_sources (bw_kb w)) = [x]"
    and "src_hash x = ct_hash c" "src_deleted x" "rf_type (ct_source c) \<noteq> ''github_code''"
  shows "\<exists>w1. build_ref env s cn ref m w = (Inr (m\<lparr>mk_seen := insert (src_id x) (mk_seen m)\<rparr>), w1)
    \<and> (\<exists>y \<in> set (kb_sources (bw_kb w1)). src_id y = src_id x \<and> src_deleted y)
    \<and> kb_artifacts (bw_kb w1) = kb_artifacts (bw_kb w)"
proof -
  let ?w = "w\<lparr>bw_counters := (bw_counters w)\<lparr>sources_seen := sources_seen (bw_counters w) + 1\<rparr>\<rparr>"
  have "known c (bw_kb ?w)" using assms(2,3) by (simp add: known_def)
  note run = build_ref_run [OF assms(1) is_unchanged_known [OF this], of env s m]
  let ?t = "be_clock env (bw_txn w)"
  let ?w1 = "?w\<lparr>bw_kb := snd (touch_sources ?t (ct_source c) (bw_kb w))\<rparr>"
  have t: "touch_last_seen env c ?w = (Inr (Some (src_id x)), ?w1)"
    using assms(2) by (simp add: touch_run scalar_one_or_none_def)
  have "build_ref env s cn ref m w = (Inr (m\<lparr>mk_seen := insert (src_id x) (mk_seen m)\<rparr>), ?w1)"
    unfolding run using assms(5) t by (simp only: bindM_apply(2) if_False simp_thms) (simp add: ret_def seen_only_def)
  moreover have x: "x \<in> set (kb_sources (bw_kb w))" "is_source (ct_source c) x"
    using arg_cong [OF assms(2), of set] by auto
  then have "touch_row ?t (ct_source c) x \<in> set (kb_sources (bw_kb ?w1))"
    by (auto simp: touch_sources_def set_update_where)
  then have "\<exists>y \<in> set (kb_sources (bw_kb ?w1)). src_id y = src_id x \<and> src_deleted y"
    using assms(4) by (intro bexI [of _ "touch_row ?t (ct_source c) x"]) (simp_all add: touch_row_def)
  moreover have "kb_artifacts (bw_kb ?w1) = kb_artifacts (bw_kb w)" by (simp add: touch_sources_def)
  ultimately show ?thesis by blast
qed

end
