(* ===== verification/BuildSample.thy ===== *)
theory BuildSample
  imports BuildLife AclGaps LinkerGaps BuildFacts
begin

text \<open>A small registry, its builder and its collaborators, on which the properties of the builder are seen at work.\<close>

definition empty_kb :: kb where
  "empty_kb = \<lparr>kb_runs = [], kb_sources = [], kb_artifacts = [], kb_edges = [], kb_gen_cache = [], kb_gen_maps = [],
     kb_embeddings = [], kb_candidates = [], kb_judgments = [], kb_uuids = (\<lambda>i. i), kb_drawn = 10\<rparr>"

text \<open>Source 7 is a commit's, public as all of them; the artifact is restricted to the security team.\<close>

definition plain_source :: "nat \<Rightarrow> string \<Rightarrow> string \<Rightarrow> string \<Rightarrow> kb_source" where
  "plain_source u typ uri h = \<lparr>src_id = u, src_uri = uri, src_type = Some typ, src_path = None, src_deleted = False,
     src_version = ''v'', src_repo = None, src_branch = None, src_external = None, src_hash = h,
     src_last_seen = Some 5, src_acl = [], src_created = 0\<rparr>"

definition plain_row :: "uuid \<Rightarrow> nat \<Rightarrow> string \<Rightarrow> string \<Rightarrow> string option \<Rightarrow> int \<Rightarrow> string list \<Rightarrow> kb_artifact" where
  "plain_row u s typ body h seq acl = \<lparr>ka_id = u, ka_source = s, ka_type = typ, ka_title = Some ''t'', ka_body = Some body,
     ka_search = None, ka_kind = None, ka_authority = None, ka_centrality = None, ka_acl = acl, ka_span_start = None,
     ka_span_end = None, ka_valid_from = seq, ka_invalidated = None, ka_content_hash = h, ka_artifact_hash = None,
     ka_version = ''old'', ka_prior = None, ka_freshness = None, ka_created = 0\<rparr>"

definition sample_kb :: kb where
  "sample_kb = empty_kb\<lparr>kb_sources := [plain_source 7 ''git_metadata'' ''git:a'' ''h''],
     kb_artifacts := [plain_row 1 7 ''commit'' ''one'' (Some ''h'') 2 [''security'']]\<rparr>"

definition sample_ref :: "string \<Rightarrow> string \<Rightarrow> source_ref" where
  "sample_ref typ uri = \<lparr>rf_type = typ, rf_uri = uri, rf_version = ''v'', rf_repo = None, rf_branch = None, rf_path = None,
     rf_external = None, rf_acl = []\<rparr>"

definition sample_content :: "string \<Rightarrow> string \<Rightarrow> string \<Rightarrow> content" where
  "sample_content typ uri h = \<lparr>ct_source = sample_ref typ uri, ct_text = ''one'', ct_hash = h\<rparr>"

definition sample_connector :: connector where
  "sample_connector = \<lparr>cn_type = ''git_metadata'', cn_list = Inr [sample_ref ''git_metadata'' ''git:a''],
     cn_fetch = (\<lambda>r. Inr (sample_content ''git_metadata'' ''git:a'' ''h''))\<rparr>"

text \<open>An extractor that fails, and one that finds nothing.\<close>

definition sample_env :: "(exn + doc_draft list) \<Rightarrow> local_index build_env" where
  "sample_env drafts = \<lparr>be_version = ''new'', be_model = ''m'', be_params = ''p'', be_extract = (\<lambda>n c. drafts),
     be_embed_model = ''e'', be_embed = (\<lambda>n s. Inr (''e'', [])), be_client = local_client,
     be_graphify = (\<lambda>files. Inr ([], [])), be_durable = True, be_clock = (\<lambda>n. 9)\<rparr>"

definition sample_run :: "(exn + doc_draft list) \<Rightarrow> local_index run_env" where
  "sample_run drafts = \<lparr>re_build = sample_env drafts, re_similarity = None, re_judge = None, re_window = 14, re_events = [],
     re_now = 9, re_error_text = (\<lambda>e. ''failed'')\<rparr>"

definition sample_build_world :: "local_index bworld" where
  "sample_build_world = \<lparr>bw_kb = sample_kb, bw_saved = sample_kb, bw_index = [], bw_counters = no_counters,
     bw_durable = \<lparr>du_docs = [], du_vectors = [], du_degraded = False, du_faults = []\<rparr>, bw_txn = 0, bw_seq = 2,
     bw_extracts = 0, bw_embeds = 0\<rparr>"

lemmas sample_build_defs = empty_kb_def plain_source_def plain_row_def sample_kb_def sample_ref_def sample_content_def
  sample_connector_def sample_env_def sample_run_def sample_build_world_def

lemma sample_ready [simp]: "build_ids_ok (bw_kb sample_build_world)" "run_ids_ok (bw_kb sample_build_world)"
  by (simp_all add: sample_build_defs build_ids_ok_def edge_ids_ok_def run_ids_ok_def inj_def)

text \<open>A registry where a source with two artifacts vanishes and one of them appears under another source.\<close>

definition split_kb :: kb where
  "split_kb = empty_kb\<lparr>
     kb_runs := [\<lparr>br_kb_version = ''new'', br_build_seq = 3, br_status = ''completed'', br_id = 9, br_started_at = 8,
       br_completed_at = Some 9, br_counters = no_counters, br_error = None, br_allow_large_delta = False,
       br_failed_gate = None, br_gate_value = None\<rparr>],
     kb_sources := [plain_source 1 ''github_doc'' ''d'' ''x'', plain_source 2 ''github_doc'' ''e'' ''y''],
     kb_artifacts := [plain_row 1 1 ''concept'' ''one'' (Some ''h0'') 2 [], plain_row 2 1 ''concept'' ''two'' (Some ''h1'') 2 [],
       plain_row 3 2 ''concept'' ''one'' (Some ''h0'') 3 []]\<rparr>"

end
