(* ===== verification/BuildClaims.thy ===== *)
theory BuildClaims
  imports BuildSample
begin

text \<open>The properties of the knowledge-base builder, each with an instance on the sample registry where it has hypotheses.\<close>

section \<open>A whole build\<close>







text \<open>
  C21. A build changes the served version at most to its own, only when it was asked to activate, and only when
  every publish gate passed on the registry it committed, up to the table of runs.
\<close>
theorem only_gated_builds_serve:
  assumes "build_ids_ok (bw_kb w)" "run_ids_ok (bw_kb w)" "run_build env act allow cns w = (r, w')"
  shows "served (bw_saved w') = served (bw_kb w)
    \<or> act \<and> served (bw_saved w') = Inr (Some \<lparr>av_kb_version = be_version (re_build env), av_build_seq = bw_seq w + 1\<rparr>)
        \<and> (\<exists>k. k\<lparr>kb_runs := kb_runs (bw_saved w')\<rparr> = bw_saved w'
              \<and> publish_validator (\<lambda>k. validate_index_consistency (be_client (re_build env)) k (bw_index w')) (be_version (re_build env)) k = (Inr True, k))"
  using run_build_serves [OF assms] by (simp add: gate_of_def [abs_def])

lemma only_gated_builds_serve_witness:
  "served (bw_saved (snd (run_build (sample_run (Inr [])) False False [sample_connector] sample_build_world))) = Inr None"
proof -
  have "served (bw_kb (sample_build_world :: local_index bworld)) = Inr None"
    by (simp add: served_def fetch_active_version_def published_def sample_build_defs)
  with only_gated_builds_serve [OF sample_ready prod.collapse [symmetric], of "sample_run (Inr [])" False False "[sample_connector]"]
  show ?thesis by simp
qed

section \<open>The sources\<close>



text \<open>
  C23. One extraction is paid for once: after an answered extraction of a document, any later attempt at it with
  the same model and prompt calls the extractor no more, even when the first transaction was rolled back, as
  long as the durable cache only gained entries and answers.
\<close>
theorem extraction_paid_once:
  assumes "be_durable env" "du_faults (bw_durable w) = []" "generation_lookup (doc_key env c) (bw_kb w) = None"
    and "be_extract env (bw_extracts w) c = Inr drafts"
    and "durable_le (bw_durable (snd (docify_gated env s c sid w))) (bw_durable w2)" "du_faults (bw_durable w2) = []"
  shows "bw_extracts (snd (docify_gated env s' c sid' w2)) = bw_extracts w2"
  using paid_once [OF assms(1-4) prod.collapse [symmetric] assms(5,6) prod.collapse [symmetric]] .

lemma extraction_paid_once_witness:
  "\<exists>w2. bw_extracts w2 = 0 \<and> bw_kb w2 = sample_kb
     \<and> bw_extracts (snd (docify_gated (sample_env (Inr [])) 4 (sample_content ''azure_wiki'' ''w'' ''z'') 8 w2)) = 0"
proof -
  let ?c = "sample_content ''azure_wiki'' ''w'' ''z''" and ?env = "sample_env (Inr [])"
  define w1 where "w1 = snd (docify_gated ?env 3 ?c 8 sample_build_world)"
  define w2 where "w2 = sample_build_world\<lparr>bw_durable := (bw_durable w1)\<lparr>du_faults := []\<rparr>\<rparr>"
  have "durable_le (bw_durable w1) (bw_durable w2)" by (simp add: w2_def durable_le_def)
  from extraction_paid_once [of ?env sample_build_world ?c "[]" 3 8 w2, folded w1_def, OF _ _ _ _ this]
  have "bw_extracts (snd (docify_gated ?env 4 ?c 8 w2)) = bw_extracts w2"
    by (simp add: sample_build_defs generation_lookup_def w2_def)
  then show ?thesis by (intro exI [of _ w2]) (simp add: w2_def sample_build_world_def)
qed

text \<open>
  C24. Processing sources that all list and fetch what the registry has returns, marks nothing changed, leaves
  rows, index and committed registry alone, and calls no model.
\<close>
theorem unchanged_sources_cost_nothing:
  assumes "list_all (quiet_connector (bw_kb w)) cns"
  shows "\<exists>m w1. process_sources env s cns w = (Inr m, w1) \<and> mk_changed m = {} \<and> kb_artifacts (bw_kb w1) = kb_artifacts (bw_kb w)
    \<and> kb_edges (bw_kb w1) = kb_edges (bw_kb w) \<and> bw_saved w1 = bw_saved w \<and> bw_index w1 = bw_index w
    \<and> bw_extracts w1 = bw_extracts w \<and> bw_embeds w1 = bw_embeds w \<and> llm_calls (bw_counters w1) = llm_calls (bw_counters w)"
proof -
  have "\<forall>cn \<in> set cns. quiet_connector (bw_kb w) cn" using assms by (simp add: list_all_iff)
  then obtain m w1 where "process_sources env s cns w = (Inr m, w1)" "mk_changed m = {}" "quiet_since w w1" by (rule quiet_build)
  then show ?thesis unfolding quiet_since_def by blast
qed

lemma unchanged_sources_cost_nothing_witness:
  "\<exists>m w1. process_sources (sample_env (Inl TypeError)) 3 [sample_connector] sample_build_world = (Inr m, w1) \<and> bw_extracts w1 = 0"
proof -
  have "list_all (quiet_connector (bw_kb (sample_build_world :: local_index bworld))) [sample_connector]"
    by (simp add: quiet_connector_def quiet_ref_def known_def sample_build_defs is_source_def)
  from unchanged_sources_cost_nothing [OF this, of "sample_env (Inl TypeError)" 3] show ?thesis by (auto simp: sample_build_world_def)
qed

section \<open>ACLs and renames\<close>

text \<open>
  C25. After the invalidation pass every live artifact of a source the build saw has exactly the ACL of the source,
  whatever it was written with: a commit's source is public, so its artifact is public by the end of the build,
  although it was written with the intersection of the teams of the files it changes.
\<close>
theorem pass_overwrites_acl:
  assumes "distinct (map src_id (kb_sources k))" "s \<in> set (kb_sources (snd (run_invalidation_pass seq seen changed started k)))" "src_id s \<in> seen"
    and "a \<in> set (kb_artifacts (snd (run_invalidation_pass seq seen changed started k)))" "ka_source a = src_id s" "live_artifact a"
  shows "ka_acl a = src_acl s"
  using pass_acl_follows [OF assms(1) prod.collapse [symmetric] assms(2-6)] .

lemma pass_overwrites_acl_witness:
  "map ka_acl (kb_artifacts sample_kb) = [[''security'']]
   \<and> (\<exists>a \<in> set (kb_artifacts (snd (run_invalidation_pass 3 {7} {} 6 sample_kb))). ka_id a = 1 \<and> ka_acl a = [])"
proof -
  let ?k = "snd (run_invalidation_pass 3 {7} {} 6 sample_kb)"
  have k: "kb_sources ?k = [plain_source 7 ''git_metadata'' ''git:a'' ''h'']"
    "\<exists>a \<in> set (kb_artifacts ?k). ka_id a = 1 \<and> ka_source a = 7 \<and> live_artifact a"
    by (simp_all add: sample_build_defs run_invalidation_pass_def vanished_live_sources_def unseen_live_def last_recorded_def detect_renames_def
        no_renames_def deletion_sweep_def supersession_sweep_def propagate_acl_def propagate_one_def acl_differs_def live_artifact_def Let_def)
  from k(2) obtain a where a: "a \<in> set (kb_artifacts ?k)" "ka_id a = 1" "ka_source a = 7" "live_artifact a" by blast
  have mem: "plain_source 7 ''git_metadata'' ''git:a'' ''h'' \<in> set (kb_sources ?k)" unfolding k(1) by simp
  have "ka_acl a = src_acl (plain_source 7 ''git_metadata'' ''git:a'' ''h'')"
    by (rule pass_overwrites_acl [OF _ mem _ a(1) _ a(4)]) (simp_all add: a(3) sample_build_defs)
  with a show ?thesis by (auto simp: sample_build_defs)
qed



section \<open>The index\<close>

text \<open>
  C27. With the local index, the orphan sweep and the back-fill always succeed on a registry whose ids are keys,
  and the index then passes the consistency check, whatever it held before.
\<close>
theorem local_index_reconciles:
  assumes "kb_keys k"
  shows "\<exists>n k' idx'. reconcile_missing local_client k (snd (delete_orphaned_docs local_client k idx)) = (Inr n, k', idx')
    \<and> validate_index_consistency local_client k' idx'"
  using local_reconcile_ok [OF assms] local_index.reconciled [OF assms] by metis

lemma local_index_reconciles_witness:
  "\<exists>n k' idx'. reconcile_missing local_client sample_kb (snd (delete_orphaned_docs local_client sample_kb [])) = (Inr n, k', idx')
    \<and> validate_index_consistency local_client k' idx'"
  by (rule local_index_reconciles) (simp add: kb_keys_def sample_build_defs uuid_ok_def)

section \<open>The graph\<close>

text \<open>
  C39. After the linker wrote with no protected type, the live linker edges are exactly the computed links: new
  ones are there, ended ones revived, and all others ended.
\<close>
theorem linker_edges_exact:
  assumes "edge_ids_ok k"
  shows "live_of ''linker'' (snd (write_link_edges v s ds {} k)) = draft_key ` set ds"
  by (rule write_links_exact [OF assms])

lemma linker_edges_exact_witness:
  "live_of ''linker'' (snd (write_link_edges ''new'' 3 [\<lparr>ld_from = 1, ld_to = 2, ld_type = ''implements'', ld_confidence = 1,
     ld_strategy = ''exact'', ld_evidence = None\<rparr>] {} sample_kb)) = {(1, 2, ''implements'')}"
  using linker_edges_exact [of sample_kb] by (simp add: draft_key_def edge_ids_ok_def sample_build_defs inj_def)

text \<open>
  Candidate generation yields pairs in different domains, not yet linked, each once and each with a signal
  above its floor, at most \<open>CANDIDATE_FAN_OUT_K\<close> from one artifact, so at most that many per artifact in all.
\<close>
theorem candidates_bounded:
  "case generate_candidates sim existing as of Inl e \<Rightarrow> True
   | Inr ds \<Rightarrow> set ds \<subseteq> {d. draft_ok as existing d} \<and> distinct (map (\<lambda>d. (cd_from d, cd_to d)) ds)
       \<and> (\<forall>f. length (filter (\<lambda>d. cd_from d = f) ds) \<le> CANDIDATE_FAN_OUT_K) \<and> length ds \<le> CANDIDATE_FAN_OUT_K * length as"
proof (cases "generate_candidates sim existing as")
  case (Inr ds)
  note spec = generate_candidates_spec [OF Inr]
  have "cd_pair = (\<lambda>d. (cd_from d, cd_to d))" by (simp add: fun_eq_iff cd_pair_def)
  with spec show ?thesis by (auto simp: Inr)
qed simp

text \<open>
  C40. Whatever the judge model answered and whatever the cache held, a live inferred edge after a run that had
  candidates quotes, up to white space, the body of one of its two artifacts.
\<close>
theorem inferred_edges_quote:
  assumes "edge_ids_ok k" "load_candidates ver k \<noteq> []" "run_judge judge model ver s k = (Inr st, k')"
    and "e \<in> set (kb_edges k')" "ke_source e = Some ''llm_judge''" "live_edge e" "ke_trust e \<in> INFERRED_EDGE_BUCKETS"
  shows "\<exists>a \<in> set (kb_artifacts k'). \<exists>b \<in> set (kb_artifacts k'). \<exists>q x y.
     ka_id a = ke_from e \<and> ka_id b = ke_to e \<and> ka_body a = Some x \<and> ka_body b = Some y
     \<and> ke_evidence e = Some (JObj [(''quote'', JStr q), (''judge_prompt_version'', JStr JUDGE_PROMPT_VERSION)])
     \<and> quote_is_grounded q [x, y]"
  using run_judge_quotes [OF assms] by (simp add: quotes_source_def)

text \<open>A registry with one candidate pair, and a judge that quotes its first artifact.\<close>

definition judged_kb :: kb where
  "judged_kb = empty_kb\<lparr>kb_artifacts := [plain_row 1 7 ''concept'' ''one'' None 2 [], plain_row 2 7 ''code_file'' ''two'' None 2 []],
     kb_candidates := [\<lparr>cr_id = 5, cr_from = 1, cr_to = 2, cr_signals = [], cr_bucket = ''candidate'', cr_version = ''new''\<rparr>]\<rparr>"

definition quoting_judge :: judge_model where
  "quoting_judge n c = Inr \<lparr>jd_relation = ''documents'', jd_bucket = ''INFERRED_HIGH'', jd_quote = ''one'', jd_reason = []\<rparr>"

lemma inferred_edges_quote_witness:
  "\<exists>e \<in> set (kb_edges (snd (run_judge quoting_judge ''m|p'' ''new'' 3 judged_kb))). ke_from e = 1
     \<and> (\<exists>q x y. ke_evidence e = Some (JObj [(''quote'', JStr q), (''judge_prompt_version'', JStr JUDGE_PROMPT_VERSION)]) \<and> quote_is_grounded q [x, y])"
proof -
  have ids: "edge_ids_ok judged_kb" by (simp add: edge_ids_ok_def judged_kb_def sample_build_defs inj_def)
  have some: "load_candidates ''new'' judged_kb \<noteq> []"
    by (simp add: load_candidates_def judged_kb_def sample_build_defs judge_candidate_of_def)
  have g: "quote_is_grounded ''one'' [''one'', ''two'']" by code_simp
  have run: "\<exists>st e. run_judge quoting_judge ''m|p'' ''new'' 3 judged_kb = (Inr st, snd (run_judge quoting_judge ''m|p'' ''new'' 3 judged_kb))
      \<and> e \<in> set (kb_edges (snd (run_judge quoting_judge ''m|p'' ''new'' 3 judged_kb))) \<and> ke_source e = Some ''llm_judge''
      \<and> live_edge e \<and> ke_trust e = ''INFERRED_HIGH'' \<and> ke_from e = 1"
    by (simp add: run_judge_def load_candidates_def judged_kb_def sample_build_defs judge_candidate_of_def judge_endpoint_of_def
        judging_start_def gated_judgment_def judgment_lookup_def quoting_judge_def relationship_judgment_def JUDGE_RELATION_TYPES_def
        JUDGE_TRUST_BUCKETS_def place_judgment_def guard_quote_def cited_spans_def INFERRED_EDGE_BUCKETS_def g Let_def
        upsert_judge_edge_def gen_random_uuid_def insert_judgment_def judgment_record_def invalidate_stale_judgments_def
        invalidate_where_def stale_judge_edge_def edge_key_def verdict_key_def live_edge_def image_iff)
  then obtain st e where e: "run_judge quoting_judge ''m|p'' ''new'' 3 judged_kb = (Inr st, snd (run_judge quoting_judge ''m|p'' ''new'' 3 judged_kb))"
    "e \<in> set (kb_edges (snd (run_judge quoting_judge ''m|p'' ''new'' 3 judged_kb)))" "ke_source e = Some ''llm_judge''"
    "live_edge e" "ke_trust e = ''INFERRED_HIGH''" "ke_from e = 1" by blast
  have "ke_trust e \<in> INFERRED_EDGE_BUCKETS" by (simp add: e(5) INFERRED_EDGE_BUCKETS_def)
  from inferred_edges_quote [OF ids some e(1-4) this] e(2,6) show ?thesis by blast
qed

section \<open>Commits\<close>

text \<open>
  The body rendered for a commit gives back its changed files, in order, when each is a listed path: not
  empty, on one line, without outer white space, and not the header line itself.
\<close>
theorem commit_body_round_trip:
  assumes "list_all listed_path (cm_files c)"
  shows "parse_changed_files (render_commit c) = cm_files c"
  by (rule parse_render) (use assms in \<open>auto simp: list_all_iff\<close>)

lemma commit_body_round_trip_witness:
  "parse_changed_files (render_commit \<lparr>cm_sha = ''a'', cm_subject = ''fix'', cm_body = ''Changed files:'', cm_files = [''a.py'', ''b/c.py'']\<rparr>)
    = [''a.py'', ''b/c.py'']"
proof -
  have "list_all listed_path [''a.py'', ''b/c.py'']" by code_simp
  then show ?thesis using commit_body_round_trip by fastforce
qed

end
