(* ===== verification/PanelReconcile.thy ===== *)
theory PanelReconcile
  imports PanelDomain "HOL-Library.Multiset"
begin

text \<open>
  The review panel's merge of the lenses' findings (\<open>domain/reconcile.py\<close>), the texts rendered from it
  (\<open>domain/render.py\<close>) and the draft document (\<open>domain/draft.py\<close>). A set of tokens or evidence ids is a
  list without repeats. What a merge keeps is stated against the findings that went into it.
\<close>

section \<open>Merging duplicates\<close>

definition latin_alnum :: "char \<Rightarrow> bool" where
  "latin_alnum c \<longleftrightarrow> (let n = code c in
     (48 \<le> n \<and> n \<le> 57) \<or> (65 \<le> n \<and> n \<le> 90) \<or> (97 \<le> n \<and> n \<le> 122)
     \<or> n \<in> {170, 178, 179, 181, 185, 186, 188, 189, 190} \<or> (192 \<le> n \<and> n \<noteq> 215 \<and> n \<noteq> 247))"

definition normalize_tokens :: "string \<Rightarrow> string list" where
  "normalize_tokens t =
     remdups (filter (\<lambda>w. 1 < length w)
       (py_split (map (\<lambda>c. if latin_alnum c \<or> py_space c then c else CHR '' '') (py_lower t))))"

definition DUPLICATE_SIMILARITY :: real where
  "DUPLICATE_SIMILARITY = 7 / 10"

definition is_duplicate :: "string list \<Rightarrow> string list \<Rightarrow> bool" where
  "is_duplicate a b \<longleftrightarrow> a \<noteq> [] \<and> b \<noteq> []
     \<and> (let u = length (remdups (a @ b))
        in 0 < u \<and> DUPLICATE_SIMILARITY \<le> real (length (filter (\<lambda>w. w \<in> set b) a)) / real u)"

record panel_group =
  pg_tokens :: "string list"
  pg_severities :: "(string, severity) dict"
  pg_texts :: "(severity \<times> string) list"
  pg_evidence :: "string list"

record merged_finding =
  mf_severity :: severity
  mf_finding :: string
  mf_evidence_ids :: "string list"
  mf_lenses :: "string list"
  mf_disagreement :: "string option"

record reconciled_review =
  rc_findings :: "merged_finding list"
  rc_open_questions :: "string list"
  rc_lens_verdicts :: "(string, string) dict"

definition new_group :: "string \<Rightarrow> review_finding \<Rightarrow> panel_group" where
  "new_group lens f =
     \<lparr>pg_tokens = normalize_tokens (rfi_finding f), pg_severities = [(lens, rfi_severity f)],
      pg_texts = [(rfi_severity f, rfi_finding f)], pg_evidence = remdups (rfi_evidence_ids f)\<rparr>"

definition absorb :: "string \<Rightarrow> review_finding \<Rightarrow> panel_group \<Rightarrow> panel_group" where
  "absorb lens f g =
     \<lparr>pg_tokens = remdups (pg_tokens g @ normalize_tokens (rfi_finding f)),
      pg_severities = AList.update lens (rfi_severity f) (pg_severities g),
      pg_texts = pg_texts g @ [(rfi_severity f, rfi_finding f)],
      pg_evidence = remdups (pg_evidence g @ rfi_evidence_ids f)\<rparr>"

text \<open>\<open>min(_, key=_)\<close> of a list with a head: the first of the least.\<close>

fun min_by :: "('a \<Rightarrow> nat) \<Rightarrow> 'a \<Rightarrow> 'a list \<Rightarrow> 'a" where
  "min_by f x [] = x"
| "min_by f x (y # ys) = min_by f (if f y < f x then y else x) ys"

definition group_merged :: "panel_group \<Rightarrow> merged_finding" where
  "group_merged g =
     (let votes = map snd (pg_severities g);
          top_severity = min_by SEVERITY_RANK (hd votes) (tl votes);
          top_text = snd (min_by (\<lambda>p. SEVERITY_RANK (fst p)) (hd (pg_texts g)) (tl (pg_texts g)));
          shown = py_join '', '' (map (\<lambda>(l, s). l @ ''='' @ severity_str s) (sort_key fst (pg_severities g)))
      in \<lparr>mf_severity = top_severity, mf_finding = top_text,
          mf_evidence_ids = sort (pg_evidence g), mf_lenses = sort (map fst (pg_severities g)),
          mf_disagreement = (if 1 < length (remdups votes)
             then Some (''severity disputed ('' @ shown @ ''); highest kept'') else None)\<rparr>)"

text \<open>The first group that takes the finding, or a new one at the end.\<close>

fun place_finding :: "string \<Rightarrow> review_finding \<Rightarrow> panel_group list \<Rightarrow> panel_group list" where
  "place_finding lens f [] = [new_group lens f]"
| "place_finding lens f (g # gs) =
     (if is_duplicate (pg_tokens g) (normalize_tokens (rfi_finding f)) then absorb lens f g # gs
      else g # place_finding lens f gs)"

definition add_questions :: "string list \<Rightarrow> string list \<Rightarrow> string list" where
  "add_questions qs new = foldl (\<lambda>acc q. if q \<in> set acc then acc else acc @ [q]) qs new"

definition panel_groups :: "panelist_review list \<Rightarrow> panel_group list" where
  "panel_groups reviews =
     foldl (\<lambda>gs p. foldl (\<lambda>gs f. place_finding (pv_lens p) f gs) gs (rv_findings (pv_review p))) [] reviews"

definition reconcile :: "panelist_review list \<Rightarrow> reconciled_review" where
  "reconcile reviews =
     \<lparr>rc_findings = sort_key (\<lambda>m. SEVERITY_RANK (mf_severity m)) (map group_merged (panel_groups reviews)),
      rc_open_questions = foldl (\<lambda>qs p. add_questions qs (rv_open_questions (pv_review p))) [] reviews,
      rc_lens_verdicts = sort_key fst
        (foldl (\<lambda>d p. AList.update (pv_lens p) (verdict_str (rv_verdict (pv_review p))) d) [] reviews)\<rparr>"

section \<open>Rendering\<close>

definition DRAFT_DISCLAIMER :: string where
  "DRAFT_DISCLAIMER =
     ''_Draft prepared by the review-panel engine (ADR-0031). It is never published ''
     @ ''automatically - read it, edit it, and publish it yourself from your own session._''"

definition quoted_ids :: "string list \<Rightarrow> string" where
  "quoted_ids ids = py_join '', '' (map (\<lambda>e. ''`'' @ e @ ''`'') ids)"

definition suggested_comment :: "merged_finding \<Rightarrow> string" where
  "suggested_comment f =
     py_join newline
       ([''**['' @ severity_str (mf_severity f) @ '']** '' @ mf_finding f,
         ''Evidence: '' @ quoted_ids (mf_evidence_ids f) @ '' (lenses: '' @ py_join '', '' (mf_lenses f) @ '')'']
        @ (case mf_disagreement f of None \<Rightarrow> [] | Some d \<Rightarrow> [''Panel disagreement: '' @ d]))"

definition summary_finding :: "nat \<times> merged_finding \<Rightarrow> string list" where
  "summary_finding = (\<lambda>(i, f).
     (nat_str i @ ''. **['' @ severity_str (mf_severity f) @ '']** '' @ mf_finding f
        @ '' (lenses: '' @ py_join '', '' (mf_lenses f) @ ''; evidence: '' @ quoted_ids (mf_evidence_ids f) @ '')'')
     # (case mf_disagreement f of None \<Rightarrow> [] | Some d \<Rightarrow> [''   - Disagreement: '' @ d]))"

definition summary_markdown ::
  "string \<Rightarrow> int \<Rightarrow> string \<Rightarrow> reconciled_review \<Rightarrow> review_findings \<Rightarrow> string" where
  "summary_markdown repo pr_nr head_sha rec synthesis =
     (let open_questions = add_questions (rc_open_questions rec) (rv_open_questions synthesis)
      in py_join newline
       ([''## Review-panel draft - '' @ repo @ ''#'' @ int_str pr_nr @ '' @ `'' @ take 12 head_sha @ ''`'', [],
         ''**Advisory verdict (draft, not published): `'' @ verdict_str (rv_verdict synthesis) @ ''`**'', []]
        @ (if rv_findings synthesis = [] then []
           else ''### Synthesis (code_reviewer)''
             # map (\<lambda>f. ''- **['' @ severity_str (rfi_severity f) @ '']** '' @ rfi_finding f @ '' (evidence: ''
                  @ py_join '', '' (rfi_evidence_ids f) @ '')'') (rv_findings synthesis) @ [[]])
        @ [''### Panel findings ('' @ nat_str (length (rc_lens_verdicts rec)) @ '' lenses, ranked by severity)'']
        @ (if rc_findings rec = [] then [''No findings from any lens.'']
           else concat (map summary_finding (enumerate 1 (rc_findings rec))))
        @ (if open_questions = [] then []
           else [[], ''### Open questions''] @ map (\<lambda>q. ''- '' @ q) open_questions)
        @ [[], DRAFT_DISCLAIMER]))"

section \<open>The draft\<close>

definition REVIEW_DRAFT_SCHEMA_VERSION :: string where
  "REVIEW_DRAFT_SCHEMA_VERSION = ''1.0.0''"

definition ENGINE_NAME :: string where
  "ENGINE_NAME = ''review-panel''"

definition ENGINE_VERSION :: string where
  "ENGINE_VERSION = ''0.1.0''"

definition panel_draft_key :: "string \<Rightarrow> int \<Rightarrow> string \<Rightarrow> string" where
  "panel_draft_key repo pr_nr head_sha = repo @ ''#'' @ int_str pr_nr @ ''@'' @ head_sha"

definition pr_key :: "pr_context \<Rightarrow> string" where
  "pr_key pr = panel_draft_key (px_repo pr) (px_number pr) (px_head_sha pr)"

record draft_finding = merged_finding +
  df_suggested_comment :: string

record draft_provenance =
  dp_engine :: string
  dp_engine_version :: string
  dp_model :: string
  dp_lenses :: "string list"
  dp_kb_used :: bool

record panel_draft =
  dd_schema_version :: string
  dd_draft_key :: string
  dd_repo :: string
  dd_pr_number :: int
  dd_head_sha :: string
  dd_generated_at :: int
  dd_advisory_verdict :: verdict
  dd_lens_verdicts :: "(string, string) dict"
  dd_findings :: "draft_finding list"
  dd_open_questions :: "string list"
  dd_synthesis :: review_findings
  dd_summary_markdown :: string
  dd_provenance :: draft_provenance

definition build_draft ::
  "int \<Rightarrow> pr_context \<Rightarrow> reconciled_review \<Rightarrow> review_findings \<Rightarrow> string \<Rightarrow> bool \<Rightarrow> panel_draft" where
  "build_draft now pr rec synthesis model kb_used =
     \<lparr>dd_schema_version = REVIEW_DRAFT_SCHEMA_VERSION, dd_draft_key = pr_key pr, dd_repo = px_repo pr,
      dd_pr_number = px_number pr, dd_head_sha = px_head_sha pr, dd_generated_at = now,
      dd_advisory_verdict = rv_verdict synthesis, dd_lens_verdicts = rc_lens_verdicts rec,
      dd_findings = map (\<lambda>f. merged_finding.extend f \<lparr>df_suggested_comment = suggested_comment f\<rparr>) (rc_findings rec),
      dd_open_questions = add_questions (rc_open_questions rec) (rv_open_questions synthesis),
      dd_synthesis = synthesis,
      dd_summary_markdown =
        summary_markdown (px_repo pr) (px_number pr) (px_head_sha pr) rec synthesis,
      dd_provenance = \<lparr>dp_engine = ENGINE_NAME, dp_engine_version = ENGINE_VERSION, dp_model = model,
        dp_lenses = PANEL_LENSES, dp_kb_used = kb_used\<rparr>\<rparr>"

section \<open>What a merged finding stands for\<close>

type_synonym instance_row = "string \<times> review_finding"

definition panel_instances :: "panelist_review list \<Rightarrow> instance_row list" where
  "panel_instances reviews = concat (map (\<lambda>p. map (Pair (pv_lens p)) (rv_findings (pv_review p))) reviews)"

definition lens_votes :: "instance_row list \<Rightarrow> (string \<times> severity) list" where
  "lens_votes p = map (\<lambda>(l, f). (l, rfi_severity f)) p"

text \<open>The last severity a lens gave among the findings of a group.\<close>

definition last_vote :: "instance_row list \<Rightarrow> string \<Rightarrow> severity" where
  "last_vote p l = the (map_of (rev (lens_votes p)) l)"

text \<open>The findings \<open>p\<close>, in the order they came, are what the merged finding \<open>m\<close> says.\<close>

definition stands_for :: "instance_row list \<Rightarrow> merged_finding \<Rightarrow> bool" where
  "stands_for p m \<longleftrightarrow> p \<noteq> []
     \<and> mf_lenses m = sorted_list_of_set (fst ` set p)
     \<and> mf_evidence_ids m = sorted_list_of_set (\<Union>(l, f) \<in> set p. set (rfi_evidence_ids f))
     \<and> (\<exists>(l, f) \<in> set p. mf_finding m = rfi_finding f
          \<and> (\<forall>(l', f') \<in> set p. SEVERITY_RANK (rfi_severity f) \<le> SEVERITY_RANK (rfi_severity f')))
     \<and> mf_severity m \<in> last_vote p ` fst ` set p
     \<and> (\<forall>l \<in> fst ` set p. SEVERITY_RANK (mf_severity m) \<le> SEVERITY_RANK (last_vote p l))
     \<and> (mf_disagreement m = None \<longleftrightarrow> (\<forall>l \<in> fst ` set p. last_vote p l = mf_severity m))"

definition group_of :: "instance_row list \<Rightarrow> panel_group" where
  "group_of p = foldl (\<lambda>g (l, f). absorb l f g) (new_group (fst (hd p)) (snd (hd p))) (tl p)"

lemma group_of_snoc: "p \<noteq> [] \<Longrightarrow> group_of (p @ [(l, f)]) = absorb l f (group_of p)"
  by (simp add: group_of_def)

lemma group_of_single: "group_of [(l, f)] = new_group l f"
  by (simp add: group_of_def)

lemma group_of_parts:
  assumes "p \<noteq> []"
  shows "dict_ok (pg_severities (group_of p)) \<and> map_of (pg_severities (group_of p)) = map_of (rev (lens_votes p))
    \<and> pg_texts (group_of p) = map (\<lambda>(l, f). (rfi_severity f, rfi_finding f)) p
    \<and> distinct (pg_evidence (group_of p))
    \<and> set (pg_evidence (group_of p)) = (\<Union>(l, f) \<in> set p. set (rfi_evidence_ids f))"
  using assms
proof (induction p rule: rev_induct)
  case (snoc x p)
  obtain l f where x: "x = (l, f)" by (cases x)
  show ?case
  proof (cases "p = []")
    case True
    then show ?thesis by (simp add: x group_of_single new_group_def lens_votes_def dict_ok_def)
  next
    case False
    with snoc.IH show ?thesis
      by (simp add: x group_of_snoc absorb_def lens_votes_def Un_commute)
  qed
qed simp

lemma votes_of_group:
  assumes "p \<noteq> []"
  shows "set (map fst (pg_severities (group_of p))) = fst ` set p"
    and "(l, s) \<in> set (pg_severities (group_of p)) \<longleftrightarrow> l \<in> fst ` set p \<and> s = last_vote p l"
    and "set (map snd (pg_severities (group_of p))) = last_vote p ` fst ` set p"
proof -
  note g = group_of_parts [OF assms]
  have "set (map fst (pg_severities (group_of p))) = dom (map_of (pg_severities (group_of p)))"
    by (simp add: dom_map_of_conv_image_fst)
  also have "\<dots> = fst ` set p" using g by (force simp: dom_map_of_conv_image_fst lens_votes_def)
  finally show k: "set (map fst (pg_severities (group_of p))) = fst ` set p" .
  have m: "(l, s) \<in> set (pg_severities (group_of p)) \<longleftrightarrow> map_of (rev (lens_votes p)) l = Some s" for l s
    using g by (metis dict_ok_def map_of_eq_Some_iff)
  have "map_of (rev (lens_votes p)) l \<noteq> None \<longleftrightarrow> l \<in> fst ` set p" for l
    by (force simp: map_of_eq_None_iff lens_votes_def)
  then show v: "(l, s) \<in> set (pg_severities (group_of p)) \<longleftrightarrow> l \<in> fst ` set p \<and> s = last_vote p l" for l s
    unfolding m last_vote_def by (metis option.distinct(1) option.sel option.collapse)
  show "set (map snd (pg_severities (group_of p))) = last_vote p ` fst ` set p"
    using v by force
qed

lemma min_by_least: "min_by f x xs \<in> set (x # xs) \<and> (\<forall>y \<in> set (x # xs). f (min_by f x xs) \<le> f y)"
proof (induction f x xs rule: min_by.induct)
  case (2 f x y ys)
  then show ?case by (auto split: if_splits)
qed simp

lemma min_by_list: "xs \<noteq> [] \<Longrightarrow> min_by f (hd xs) (tl xs) \<in> set xs \<and> (\<forall>y \<in> set xs. f (min_by f (hd xs) (tl xs)) \<le> f y)"
  using min_by_least [of f "hd xs" "tl xs"] by simp

lemma sort_distinct_set: "distinct xs \<Longrightarrow> sort xs = sorted_list_of_set (set xs)"
  by (simp add: sorted_list_of_set_sort_remdups distinct_remdups_id)

lemma single_vote: "xs \<noteq> [] \<Longrightarrow> \<not> 1 < length (remdups xs) \<longleftrightarrow> (\<exists>v. \<forall>x \<in> set xs. x = v)"
proof -
  assume ne: "xs \<noteq> []"
  have "length (remdups xs) = card (set xs)" by (simp add: length_remdups_card_conv)
  moreover have "card (set xs) \<noteq> 0" using ne by simp
  ultimately have "\<not> 1 < length (remdups xs) \<longleftrightarrow> card (set xs) = 1" by linarith
  also have "\<dots> \<longleftrightarrow> (\<exists>v. set xs = {v})" by (simp add: card_1_singleton_iff)
  also have "\<dots> \<longleftrightarrow> (\<exists>v. \<forall>x \<in> set xs. x = v)" using ne by (metis insertI1 singletonD subsetI subset_singletonD list.set_intros(1) neq_Nil_conv empty_set set_empty)
  finally show ?thesis .
qed

lemma rank_inj: "SEVERITY_RANK s = SEVERITY_RANK t \<longleftrightarrow> s = t"
  by (cases s; cases t) auto

lemma group_stands_for: "p \<noteq> [] \<Longrightarrow> stands_for p (group_merged (group_of p))"
proof -
  assume ne: "p \<noteq> []"
  note g = group_of_parts [OF ne] and v = votes_of_group [OF ne]
  let ?g = "group_of p" and ?m = "group_merged (group_of p)"
  have vne: "map snd (pg_severities ?g) \<noteq> []" using v(1) ne by force
  have tne: "pg_texts ?g \<noteq> []" using g ne by simp
  have len: "mf_lenses ?m = sorted_list_of_set (fst ` set p)"
    using sort_distinct_set [of "map fst (pg_severities ?g)"] g v(1)
    by (simp add: group_merged_def Let_def dict_ok_def)
  have ev: "mf_evidence_ids ?m = sorted_list_of_set (\<Union>(l, f) \<in> set p. set (rfi_evidence_ids f))"
    using sort_distinct_set [of "pg_evidence ?g"] g by (simp add: group_merged_def Let_def)
  have txt1: "\<exists>(l, f) \<in> set p. mf_finding ?m = rfi_finding f
          \<and> (\<forall>(l', f') \<in> set p. SEVERITY_RANK (rfi_severity f) \<le> SEVERITY_RANK (rfi_severity f'))"
  proof -
    let ?q = "min_by (\<lambda>q. SEVERITY_RANK (fst q)) (hd (pg_texts ?g)) (tl (pg_texts ?g))"
    have t: "pg_texts ?g = map (\<lambda>(l, f). (rfi_severity f, rfi_finding f)) p" using g by blast
    have q: "?q \<in> set (pg_texts ?g)" "\<forall>y \<in> set (pg_texts ?g). SEVERITY_RANK (fst ?q) \<le> SEVERITY_RANK (fst y)"
      using min_by_list [OF tne, of "\<lambda>q. SEVERITY_RANK (fst q)"] by blast+
    from q(1) obtain l f where lf: "(l, f) \<in> set p" "?q = (rfi_severity f, rfi_finding f)" unfolding t by auto
    have "SEVERITY_RANK (rfi_severity f) \<le> SEVERITY_RANK (rfi_severity f')" if "(l', f') \<in> set p" for l' f'
      using q(2) that lf(2) unfolding t by fastforce
    moreover have "mf_finding ?m = snd ?q" by (simp add: group_merged_def Let_def)
    ultimately show ?thesis using lf by (intro bexI [OF _ lf(1)]) auto
  qed
  have sev: "mf_severity ?m \<in> last_vote p ` fst ` set p"
    "\<forall>l \<in> fst ` set p. SEVERITY_RANK (mf_severity ?m) \<le> SEVERITY_RANK (last_vote p l)"
    using min_by_list [OF vne, of SEVERITY_RANK] unfolding v(3) by (simp_all add: group_merged_def Let_def)
  have "mf_disagreement ?m = None \<longleftrightarrow> (\<exists>s. \<forall>x \<in> last_vote p ` fst ` set p. x = s)"
    using single_vote [OF vne] unfolding v(3) by (auto simp: group_merged_def Let_def)
  also have "\<dots> \<longleftrightarrow> (\<forall>x \<in> last_vote p ` fst ` set p. x = mf_severity ?m)"
    by (rule iffI) (use sev(1) in \<open>metis+\<close>)
  also have "\<dots> \<longleftrightarrow> (\<forall>l \<in> fst ` set p. last_vote p l = mf_severity ?m)" by simp
  finally show ?thesis using ne len ev txt1 sev unfolding stands_for_def by blast
qed

section \<open>The groups partition the findings\<close>

definition grouped :: "instance_row list \<Rightarrow> instance_row list list \<Rightarrow> bool" where
  "grouped xs parts \<longleftrightarrow> mset (concat parts) = mset xs \<and> (\<forall>p \<in> set parts. p \<noteq> [] \<and> subseq p xs)"

lemma place_finding_parts:
  assumes "[] \<notin> set parts"
  shows "\<exists>parts'. place_finding l f (map group_of parts) = map group_of parts'
    \<and> mset (concat parts') = add_mset (l, f) (mset (concat parts))
    \<and> (\<forall>p' \<in> set parts'. p' \<in> set parts \<or> p' = [(l, f)] \<or> (\<exists>p \<in> set parts. p' = p @ [(l, f)]))"
  using assms
proof (induction parts)
  case Nil
  show ?case by (rule exI [of _ "[[(l, f)]]"]) (simp add: group_of_single)
next
  case (Cons p parts)
  show ?case
  proof (cases "is_duplicate (pg_tokens (group_of p)) (normalize_tokens (rfi_finding f))")
    case True
    have "p \<noteq> []" using Cons.prems by auto
    with True show ?thesis
      by (intro exI [of _ "(p @ [(l, f)]) # parts"]) (auto simp: group_of_snoc)
  next
    case False
    from Cons obtain parts' where "place_finding l f (map group_of parts) = map group_of parts'"
      "mset (concat parts') = add_mset (l, f) (mset (concat parts))"
      "\<forall>p' \<in> set parts'. p' \<in> set parts \<or> p' = [(l, f)] \<or> (\<exists>p \<in> set parts. p' = p @ [(l, f)])"
      by auto
    with False show ?thesis by (intro exI [of _ "p # parts'"]) auto
  qed
qed

lemma grouped_step:
  assumes "grouped xs parts"
  shows "\<exists>parts'. grouped (xs @ [(l, f)]) parts' \<and> place_finding l f (map group_of parts) = map group_of parts'"
proof -
  have "[] \<notin> set parts" using assms by (auto simp: grouped_def)
  from place_finding_parts [OF this] obtain parts' where
    p: "place_finding l f (map group_of parts) = map group_of parts'"
    "mset (concat parts') = add_mset (l, f) (mset (concat parts))"
    "\<forall>p' \<in> set parts'. p' \<in> set parts \<or> p' = [(l, f)] \<or> (\<exists>p \<in> set parts. p' = p @ [(l, f)])"
    by blast
  have "subseq p' (xs @ [(l, f)])" if "p' \<in> set parts'" for p'
  proof -
    have old: "subseq p xs" if "p \<in> set parts" for p using that assms by (simp add: grouped_def)
    consider "p' \<in> set parts" | "p' = [(l, f)]" | p where "p \<in> set parts" "p' = p @ [(l, f)]"
      using p(3) \<open>p' \<in> set parts'\<close> by blast
    then show ?thesis
    proof cases
      case 1 then show ?thesis using old list_emb_append_mono [of "(=)" p' xs "[]" "[(l, f)]"] by simp
    next
      case 2 then show ?thesis by (simp add: subseq_singleton_left)
    next
      case 3 then show ?thesis using old [OF 3(1)] by (simp add: list_emb_append_mono)
    qed
  qed
  with p assms have "grouped (xs @ [(l, f)]) parts'" unfolding grouped_def by fastforce
  with p(1) show ?thesis by blast
qed

lemma place_all:
  "grouped xs parts \<Longrightarrow> \<exists>parts'. grouped (xs @ ys) parts'
     \<and> foldl (\<lambda>gs (l, f). place_finding l f gs) (map group_of parts) ys = map group_of parts'"
proof (induction ys arbitrary: xs parts)
  case Nil
  then show ?case by auto
next
  case (Cons y ys)
  obtain l f where y: "y = (l, f)" by (cases y)
  from grouped_step [OF Cons.prems, of l f] obtain parts' where
    p: "grouped (xs @ [y]) parts'" "place_finding l f (map group_of parts) = map group_of parts'"
    unfolding y by blast
  from Cons.IH [OF p(1)] p(2) show ?case by (simp add: y)
qed

lemma panel_groups_instances:
  "panel_groups reviews = foldl (\<lambda>gs (l, f). place_finding l f gs) [] (panel_instances reviews)"
proof -
  have inner: "foldl (\<lambda>gs (l, f). place_finding l f gs) gs (map (Pair l) fs) = foldl (\<lambda>gs f. place_finding l f gs) gs fs"
    for gs l fs by (induction fs arbitrary: gs) simp_all
  have "foldl (\<lambda>gs (l, f). place_finding l f gs) gs (panel_instances reviews)
    = foldl (\<lambda>gs p. foldl (\<lambda>gs f. place_finding (pv_lens p) f gs) gs (rv_findings (pv_review p))) gs reviews" for gs
    by (induction reviews arbitrary: gs) (simp_all add: panel_instances_def inner)
  then show ?thesis by (simp add: panel_groups_def)
qed

lemma groups_partition:
  "\<exists>parts. grouped (panel_instances reviews) parts \<and> panel_groups reviews = map group_of parts"
  using place_all [of "[]" "[]" "panel_instances reviews"] by (simp add: panel_groups_instances grouped_def)

lemma insort_key_map: "insort_key f (g x) (map g xs) = map g (insort_key (\<lambda>y. f (g y)) x xs)"
  by (induction xs) auto

lemma sort_key_map: "sort_key f (map g xs) = map g (sort_key (\<lambda>x. f (g x)) xs)"
  by (induction xs) (simp_all add: insort_key_map)

lemma reconcile_parts:
  "\<exists>parts. grouped (panel_instances reviews) parts \<and> list_all2 stands_for parts (rc_findings (reconcile reviews))"
proof -
  from groups_partition [of reviews] obtain parts where
    p: "grouped (panel_instances reviews) parts" "panel_groups reviews = map group_of parts" by blast
  let ?parts = "sort_key (\<lambda>x. SEVERITY_RANK (mf_severity (group_merged (group_of x)))) parts"
  have e: "rc_findings (reconcile reviews) = map (\<lambda>x. group_merged (group_of x)) ?parts"
    using p(2) by (simp add: reconcile_def sort_key_map comp_def)
  have ms: "mset (concat ?parts) = mset (concat parts)"
    by (simp add: mset_concat flip: sum_mset_sum_list)
  have "grouped (panel_instances reviews) ?parts" using p(1) ms by (simp add: grouped_def)
  moreover have "list_all2 stands_for ?parts (rc_findings (reconcile reviews))"
    unfolding e list_all2_map2 by (rule list.rel_refl_strong) (use p(1) group_stands_for in \<open>auto simp: grouped_def\<close>)
  ultimately show ?thesis by blast
qed

lemma reconcile_ranked: "sorted (map (\<lambda>m. SEVERITY_RANK (mf_severity m)) (rc_findings (reconcile reviews)))"
  by (simp add: reconcile_def)

end
