(* ===== verification/PanelRun.thy ===== *)
theory PanelRun
  imports PanelNodes
begin

text \<open>
  The review panel's draft store, graph and use cases (\<open>infrastructure/draft_store.py\<close>, \<open>graph/build.py\<close>,
  \<open>application.py\<close>). The graph runtime and its checkpointer are third-party code; of them the program relies
  on this: the nodes that still have to run do so in the order of the topology, the four reviewers in any
  order among themselves, the update of each node that finished is kept in the thread, and the first failure
  ends the run. The order in which the reviewers finish is an argument.
\<close>

section \<open>The draft store\<close>

definition get_draft :: "(string, panel_draft) dict \<Rightarrow> string \<Rightarrow> panel_draft option" where
  "get_draft drafts key = map_of drafts key"

definition put_if_absent ::
  "panel_draft \<Rightarrow> (string, panel_draft) dict \<Rightarrow> panel_draft \<times> (string, panel_draft) dict" where
  "put_if_absent d drafts = (case map_of drafts (dd_draft_key d) of
      Some winner \<Rightarrow> (winner, drafts)
    | None \<Rightarrow> (d, drafts @ [(dd_draft_key d, d)]))"

text \<open>A row of \<open>review_draft\<close>; its \<open>jsonb\<close> column is the draft that was dumped into it.\<close>

record draft_row =
  dr_draft_key :: string
  dr_repo :: string
  dr_pr_number :: int
  dr_head_sha :: string
  dr_draft :: panel_draft

definition pg_get_draft :: "draft_row list \<Rightarrow> string \<Rightarrow> panel_draft option" where
  "pg_get_draft table key = map_option dr_draft (find (\<lambda>r. dr_draft_key r = key) table)"

definition row_of_draft :: "panel_draft \<Rightarrow> draft_row" where
  "row_of_draft d = \<lparr>dr_draft_key = dd_draft_key d, dr_repo = dd_repo d, dr_pr_number = dd_pr_number d,
     dr_head_sha = dd_head_sha d, dr_draft = d\<rparr>"

definition insert_draft :: "panel_draft \<Rightarrow> draft_row list \<Rightarrow> draft_row list" where
  "insert_draft d table =
     (if list_ex (\<lambda>r. dr_draft_key r = dd_draft_key d) table then table else table @ [row_of_draft d])"

definition pg_put_if_absent :: "panel_draft \<Rightarrow> draft_row list \<Rightarrow> (panel_exn + panel_draft) \<times> draft_row list" where
  "pg_put_if_absent d table =
     (let table' = insert_draft d table
      in (case pg_get_draft table' (dd_draft_key d) of
            None \<Rightarrow> Inl (PanelRuntimeError (''draft vanished after write: '' @ dd_draft_key d))
          | Some stored \<Rightarrow> Inr stored, table'))"

text \<open>The contract of the port: the first writer of a key wins, and nothing else is touched.\<close>

locale draft_store =
  fixes get :: "'s \<Rightarrow> string \<Rightarrow> panel_draft option"
    and put :: "panel_draft \<Rightarrow> 's \<Rightarrow> panel_draft \<times> 's"
  assumes put_absent: "get s (dd_draft_key d) = None \<Longrightarrow> fst (put d s) = d"
    and put_present: "get s (dd_draft_key d) = Some e \<Longrightarrow> fst (put d s) = e"
    and get_put: "get (snd (put d s)) k = (if k = dd_draft_key d then Some (fst (put d s)) else get s k)"
begin

lemma kept: "get s k = Some e \<Longrightarrow> get (snd (put d s)) k = Some e"
  using get_put put_present by auto

lemma kept_through: "get s k = Some e \<Longrightarrow> get (foldl (\<lambda>s d. snd (put d s)) s ds) k = Some e"
  by (induction ds arbitrary: s) (simp_all add: kept)

lemma first_writer_wins:
  "fst (put d s) = e \<Longrightarrow> dd_draft_key d' = dd_draft_key d
   \<Longrightarrow> fst (put d' (foldl (\<lambda>s d. snd (put d s)) (snd (put d s)) ds)) = e"
  by (rule put_present, rule kept_through) (simp add: get_put)

end

interpretation memory_store: draft_store get_draft put_if_absent
  by unfold_locales (auto simp: get_draft_def put_if_absent_def map_add_def split: option.splits)

definition pg_put :: "panel_draft \<Rightarrow> draft_row list \<Rightarrow> panel_draft \<times> draft_row list" where
  "pg_put d table = (case pg_put_if_absent d table of (Inr e, t) \<Rightarrow> (e, t) | (Inl _, t) \<Rightarrow> (d, t))"

lemma find_append: "find P (xs @ ys) = (case find P xs of None \<Rightarrow> find P ys | r \<Rightarrow> r)"
  by (induction xs) auto

lemma pg_get_insert:
  "pg_get_draft (insert_draft d table) k
   = (if k = dd_draft_key d then Some (case pg_get_draft table k of None \<Rightarrow> d | Some e \<Rightarrow> e) else pg_get_draft table k)"
proof -
  have "list_ex (\<lambda>r. dr_draft_key r = dd_draft_key d) table
      \<longleftrightarrow> find (\<lambda>r. dr_draft_key r = dd_draft_key d) table \<noteq> None"
    by (induction table) auto
  then show ?thesis
    by (auto simp: pg_get_draft_def insert_draft_def row_of_draft_def find_append split: option.splits)
qed

lemma pg_put_returns: "\<exists>e. pg_put_if_absent d table = (Inr e, insert_draft d table)"
  by (simp add: pg_put_if_absent_def Let_def pg_get_insert)

interpretation pg_store: draft_store pg_get_draft pg_put
  by unfold_locales (auto simp: pg_put_def pg_put_if_absent_def Let_def pg_get_insert)

section \<open>The graph\<close>

datatype panel_node = LoadNode | ReviewNode string | ReconcileNode | StoreNode

definition lenses_of :: "panel_state \<Rightarrow> string list" where
  "lenses_of s = map pv_lens (ps_reviews s)"

text \<open>The nodes that have not run on the thread, with the reviewers in the order they will finish.\<close>

definition remaining :: "string list \<Rightarrow> panel_state \<Rightarrow> panel_node list" where
  "remaining order s =
     (if ps_kb_context s = None then [LoadNode] else [])
     @ map ReviewNode (filter (\<lambda>l. l \<notin> set (lenses_of s)) order)
     @ (if ps_draft s = None then [ReconcileNode] else [])
     @ (if ps_stored s then [] else [StoreNode])"

definition store_draft :: "panel_state \<Rightarrow> panel_world \<Rightarrow> (panel_exn + panel_state) \<times> panel_world" where
  "store_draft s w = (case ps_draft s of
      None \<Rightarrow> (Inl (PanelRuntimeError ''store_draft reached without a draft in state''), w)
    | Some d \<Rightarrow> (let (stored, drafts) = put_if_absent d (pw_drafts w)
                in (Inr (s\<lparr>ps_draft := Some stored, ps_stored := True\<rparr>), w\<lparr>pw_drafts := drafts\<rparr>)))"

fun run_node ::
  "panel_deps \<Rightarrow> panel_node \<Rightarrow> panel_state \<Rightarrow> panel_world \<Rightarrow> (panel_exn + panel_state) \<times> panel_world" where
  "run_node deps LoadNode s w = (load_pr deps s, w)"
| "run_node deps (ReviewNode lens) s w =
     (let (r, n) = review deps lens s (pw_calls w) in (r, w\<lparr>pw_calls := n\<rparr>))"
| "run_node deps ReconcileNode s w =
     (let (r, n) = reconcile_node deps s (pw_calls w) in (r, w\<lparr>pw_calls := n\<rparr>))"
| "run_node deps StoreNode s w = store_draft s w"

definition save_thread :: "bool \<Rightarrow> string \<Rightarrow> panel_state \<Rightarrow> panel_world \<Rightarrow> panel_world" where
  "save_thread saver key s w =
     (if saver then w\<lparr>pw_threads := AList.update key s (pw_threads w)\<rparr> else w)"

fun run_nodes ::
  "panel_deps \<Rightarrow> bool \<Rightarrow> string \<Rightarrow> panel_node list \<Rightarrow> panel_state \<Rightarrow> panel_world
    \<Rightarrow> (panel_exn + panel_state) \<times> panel_world" where
  "run_nodes deps saver key [] s w = (Inr s, w)"
| "run_nodes deps saver key (n # ns) s w =
     (case run_node deps n s w of
        (Inl e, w') \<Rightarrow> (Inl e, w')
      | (Inr s', w') \<Rightarrow> run_nodes deps saver key ns s' (save_thread saver key s' w'))"

section \<open>The use cases\<close>

datatype draft_source = Stored | Computed | Resumed

record draft_outcome =
  do_draft :: panel_draft
  do_source :: draft_source

definition fresh_state :: "pr_context \<Rightarrow> panel_state" where
  "fresh_state pr = \<lparr>ps_pr = pr, ps_kb_context = None, ps_reviews = [], ps_reconciled = None, ps_synthesis = None,
     ps_draft = None, ps_stored = False\<rparr>"

text \<open>The state a run starts from: a thread with nodes to run is resumed, a finished one is cleared.\<close>

definition open_thread ::
  "bool \<Rightarrow> string list \<Rightarrow> pr_context \<Rightarrow> panel_world \<Rightarrow> bool \<times> panel_state \<times> panel_world" where
  "open_thread saver order pr w =
     (let key = pr_key pr; fresh = (\<lambda>w. (False, fresh_state pr, save_thread saver key (fresh_state pr) w))
      in case (if saver then map_of (pw_threads w) key else None) of
           None \<Rightarrow> fresh w
         | Some s \<Rightarrow> if remaining order s \<noteq> [] then (True, s, w)
                     else fresh (w\<lparr>pw_threads := AList.delete key (pw_threads w)\<rparr>))"

definition get_stored_draft ::
  "panel_deps \<Rightarrow> string \<Rightarrow> int \<Rightarrow> panel_world \<Rightarrow> panel_exn + (pr_context \<times> panel_draft option)" where
  "get_stored_draft deps repo pr_nr w =
     (case pd_github deps repo pr_nr of Inl e \<Rightarrow> Inl e
      | Inr pr \<Rightarrow> Inr (pr, get_draft (pw_drafts w) (pr_key pr)))"

definition compute_draft ::
  "panel_deps \<Rightarrow> bool \<Rightarrow> string list \<Rightarrow> pr_context \<Rightarrow> panel_world \<Rightarrow> (panel_exn + draft_outcome) \<times> panel_world" where
  "compute_draft deps saver order pr w =
     (let (resuming, s, w1) = open_thread saver order pr w
      in case run_nodes deps saver (pr_key pr) (remaining order s) s w1 of
           (Inl e, w2) \<Rightarrow> (Inl e, w2)
         | (Inr s', w2) \<Rightarrow> (case ps_draft s' of
             None \<Rightarrow> (Inl PanelKeyError, w2)
           | Some d \<Rightarrow> (Inr \<lparr>do_draft = d, do_source = (if resuming then Resumed else Computed)\<rparr>, w2)))"

definition compute_or_get_draft ::
  "panel_deps \<Rightarrow> bool \<Rightarrow> string list \<Rightarrow> string \<Rightarrow> int \<Rightarrow> panel_world \<Rightarrow> (panel_exn + draft_outcome) \<times> panel_world" where
  "compute_or_get_draft deps saver order repo pr_nr w =
     (case get_stored_draft deps repo pr_nr w of
        Inl e \<Rightarrow> (Inl e, w)
      | Inr (pr, Some d) \<Rightarrow> (Inr \<lparr>do_draft = d, do_source = Stored\<rparr>, w)
      | Inr (pr, None) \<Rightarrow> compute_draft deps saver order pr w)"

text \<open>A run whose process dies after \<open>k\<close> nodes.\<close>

definition killed_run ::
  "panel_deps \<Rightarrow> string list \<Rightarrow> nat \<Rightarrow> pr_context \<Rightarrow> panel_world \<Rightarrow> panel_world" where
  "killed_run deps order k pr w =
     (let (_, s, w1) = open_thread True order pr w
      in snd (run_nodes deps True (pr_key pr) (take k (remaining order s)) s w1))"

end
