(* ===== verification/PanelClients.thy ===== *)
theory PanelClients
  imports PanelRun
begin

text \<open>
  The review panel's adapters and command (\<open>infrastructure/kb_search.py\<close>, \<open>model_client.py\<close>,
  \<open>github_client.py\<close>, \<open>postgres.py\<close>, \<open>config.py\<close>, \<open>cli.py\<close>): what is made of an HTTP response, of the
  environment and of a run's outcome. Sending a request is an argument, its failure a text; so are Python's
  \<open>repr\<close> of a string and \<open>str\<close> of a JSON value that is no string.
\<close>

section \<open>HTTP responses\<close>

record http_response =
  hr_status :: int
  hr_content_type :: string
  hr_session :: "string option"
  hr_text :: string

fun json_falsy :: "json \<Rightarrow> bool" where
  "json_falsy JNull = True"
| "json_falsy (JBool b) = (\<not> b)"
| "json_falsy (JInt i) = (i = 0)"
| "json_falsy (JNum x) = (x = 0)"
| "json_falsy (JStr s) = (s = [])"
| "json_falsy (JArr xs) = (xs = [])"
| "json_falsy (JObj kvs) = (kvs = [])"
| "json_falsy (JNonFinite _) = False"

section \<open>Knowledge-base search\<close>

definition PROTOCOL_VERSION :: string where
  "PROTOCOL_VERSION = ''2025-06-18''"

text \<open>Of the text blocks, in order.\<close>

fun text_block :: "json \<Rightarrow> string list" where
  "text_block (JObj kvs) =
     (case (map_of kvs ''text'', map_of kvs ''type'') of
        (Some (JStr t), Some (JStr ty)) \<Rightarrow> if ty = ''text'' then [t] else []
      | _ \<Rightarrow> [])"
| "text_block _ = []"

fun text_blocks :: "json option \<Rightarrow> string list option" where
  "text_blocks (Some (JArr blocks)) = Some (concat (map text_block blocks))"
| "text_blocks _ = None"

fun result_text :: "json option \<Rightarrow> string" where
  "result_text (Some (JObj kvs)) = (case text_blocks (map_of kvs ''content'') of
      None \<Rightarrow> [] | Some parts \<Rightarrow> py_join newline parts)"
| "result_text _ = []"

fun extract_text :: "json option \<Rightarrow> panel_exn + string" where
  "extract_text None = Inr []"
| "extract_text (Some j) =
     (if json_falsy j then Inr []
      else (case j of JObj kvs \<Rightarrow> Inr (result_text (map_of kvs ''result'')) | _ \<Rightarrow> Inl PanelAttributeError))"

text \<open>\<open>None\<close> is a \<open>JSONDecodeError\<close> or a \<open>KBSearchError\<close>, which the search both takes as no result.\<close>

definition parse_rpc_response :: "http_response \<Rightarrow> json option" where
  "parse_rpc_response r =
     (if py_in ''text/event-stream'' (hr_content_type r)
      then (case find (prefix ''data:'') (splitlines (hr_text r)) of
              None \<Rightarrow> None
            | Some line \<Rightarrow> json_loads (py_strip (drop (length ''data:'') line)))
      else json_loads (hr_text r))"

definition mcp_headers :: "string option \<Rightarrow> string option \<Rightarrow> (string, string) dict" where
  "mcp_headers token session_id =
     [(''Accept'', ''application/json, text/event-stream''), (''Content-Type'', ''application/json'')]
     @ (case token of None \<Rightarrow> [] | Some t \<Rightarrow> if t = [] then [] else [(''Authorization'', ''Bearer '' @ t)])
     @ (case session_id of None \<Rightarrow> [] | Some i \<Rightarrow> if i = [] then [] else [(''mcp-session-id'', i)])"

definition rpc_message :: "string \<Rightarrow> doc option \<Rightarrow> int option \<Rightarrow> doc" where
  "rpc_message rpc_method params rpc_id =
     DObj ([(''jsonrpc'', DStr ''2.0''), (''method'', DStr rpc_method)]
       @ (case params of None \<Rightarrow> [] | Some p \<Rightarrow> [(''params'', p)])
       @ (case rpc_id of None \<Rightarrow> [] | Some i \<Rightarrow> [(''id'', DInt i)]))"

text \<open>One request; \<open>None\<close> as above, or an \<open>HTTPError\<close>.\<close>

definition mcp_rpc ::
  "((string, string) dict \<Rightarrow> doc \<Rightarrow> string + http_response) \<Rightarrow> string option \<Rightarrow> string option \<Rightarrow> string
    \<Rightarrow> doc option \<Rightarrow> int option \<Rightarrow> (json option \<times> string option) option" where
  "mcp_rpc post token session_id rpc_method params rpc_id =
     (case post (mcp_headers token session_id) (rpc_message rpc_method params rpc_id) of
        Inl _ \<Rightarrow> None
      | Inr r \<Rightarrow>
          if 400 \<le> hr_status r then None
          else let new_session = (case hr_session r of None \<Rightarrow> session_id | s \<Rightarrow> s)
               in if rpc_id = None then Some (None, new_session)
                  else map_option (\<lambda>j. (Some j, new_session)) (parse_rpc_response r))"

definition init_params :: doc where
  "init_params = DObj [(''protocolVersion'', DStr PROTOCOL_VERSION), (''capabilities'', DObj []),
     (''clientInfo'', DObj [(''name'', DStr ''review-panel''), (''version'', DStr ''0.1.0'')])]"

definition mcp_search ::
  "((string, string) dict \<Rightarrow> doc \<Rightarrow> string + http_response) \<Rightarrow> string option \<Rightarrow> string \<Rightarrow> panel_exn + string" where
  "mcp_search post token q =
     (case mcp_rpc post token None ''initialize'' (Some init_params) (Some 1) of
        None \<Rightarrow> Inr []
      | Some (_, session_id) \<Rightarrow>
          (case mcp_rpc post token session_id ''notifications/initialized'' None None of
             None \<Rightarrow> Inr []
           | Some _ \<Rightarrow>
               (case mcp_rpc post token session_id ''tools/call''
                       (Some (DObj [(''name'', DStr ''kb_search''), (''arguments'', DObj [(''query'', DStr q)])])) (Some 2) of
                  None \<Rightarrow> Inr []
                | Some (result, _) \<Rightarrow> extract_text result)))"

definition null_search :: "string \<Rightarrow> panel_exn + string" where
  "null_search q = Inr []"

text \<open>
  A search fails only on an answer that is JSON, not empty, and no object; everything else that goes wrong is
  an empty result.
\<close>

lemma mcp_search_fails:
  assumes "mcp_search post token q = Inl e"
  shows "e = PanelAttributeError \<and> (\<exists>h m r j. post h m = Inr r \<and> parse_rpc_response r = Some j
    \<and> \<not> json_falsy j \<and> (\<forall>kvs. j \<noteq> JObj kvs))"
proof -
  obtain sid result sid' where run: "mcp_rpc post token sid ''tools/call''
      (Some (DObj [(''name'', DStr ''kb_search''), (''arguments'', DObj [(''query'', DStr q)])])) (Some 2) = Some (result, sid')"
    and e: "extract_text result = Inl e"
    using assms by (auto simp: mcp_search_def split: option.splits prod.splits)
  obtain j where j: "result = Some j" "\<not> json_falsy j" "\<forall>kvs. j \<noteq> JObj kvs" "e = PanelAttributeError"
    using e by (cases result rule: extract_text.cases) (auto split: if_splits json.splits)
  with run show ?thesis by (fastforce simp: mcp_rpc_def Let_def split: sum.splits if_splits)
qed

section \<open>The model client\<close>

definition OPENAI_COMPATIBLE :: "string list" where
  "OPENAI_COMPATIBLE = [''groq'', ''openai'', ''openai_compatible'', ''ollama'']"

definition ANTHROPIC_LIKE :: "string list" where
  "ANTHROPIC_LIKE = [''anthropic'', ''anthropic_foundry'']"

definition DEFAULT_BASE_URLS :: "(string, string) dict" where
  "DEFAULT_BASE_URLS = [(''groq'', ''https://api.groq.com/openai/v1''), (''openai'', ''https://api.openai.com/v1''),
     (''ollama'', ''http://localhost:11434/v1''), (''anthropic'', ''https://api.anthropic.com'')]"

definition MAX_TOKENS :: int where
  "MAX_TOKENS = 4096"

record model_settings =
  ms_provider :: string
  ms_model :: string
  ms_api_key :: string
  ms_base_url :: string
  ms_ca_cert :: "string option"

definition env_get :: "(string, string) dict \<Rightarrow> string \<Rightarrow> string \<Rightarrow> string" where
  "env_get env name dflt = (case map_of env name of None \<Rightarrow> dflt | Some v \<Rightarrow> v)"

definition env_or :: "(string, string) dict \<Rightarrow> string \<Rightarrow> string \<Rightarrow> string" where
  "env_or env name other = (let v = env_get env name [] in if v \<noteq> [] then v else other)"

definition load_model_settings :: "(string \<Rightarrow> string) \<Rightarrow> (string, string) dict \<Rightarrow> panel_exn + model_settings" where
  "load_model_settings py_repr env =
     (let provider = env_get env ''LLM_PROVIDER'' ''groq'';
          model = env_get env ''LLM_MODEL'' (if provider = ''groq'' then ''llama-3.3-70b-versatile'' else []);
          api_key = env_or env ''LLM_API_KEY'' (env_get env ''GROQ_API_KEY'' []);
          base_url = env_or env ''LLM_BASE_URL'' (env_get DEFAULT_BASE_URLS provider []);
          ca_cert = env_or env ''LLM_CA_CERT'' (env_get env ''SSL_CERT_FILE'' [])
      in if provider \<notin> set (OPENAI_COMPATIBLE @ ANTHROPIC_LIKE)
         then Inl (ModelAPIError (''unsupported LLM_PROVIDER: '' @ py_repr provider))
         else if model = [] then Inl (ModelAPIError ''LLM_MODEL is required for this provider'')
         else if api_key = [] \<and> provider \<noteq> ''ollama'' then Inl (ModelAPIError ''LLM_API_KEY (or GROQ_API_KEY) is required'')
         else if base_url = [] then Inl (ModelAPIError (''LLM_BASE_URL is required for provider '' @ py_repr provider))
         else Inr \<lparr>ms_provider = provider, ms_model = model, ms_api_key = api_key,
                   ms_base_url = rstrip_by (\<lambda>c. c = CHR ''/'') base_url,
                   ms_ca_cert = (if ca_cert = [] then None else Some ca_cert)\<rparr>)"

type_synonym poster = "string \<Rightarrow> (string, string) dict \<Rightarrow> doc \<Rightarrow> string + http_response"

definition post_json :: "poster \<Rightarrow> string \<Rightarrow> (string, string) dict \<Rightarrow> doc \<Rightarrow> panel_exn + json" where
  "post_json post url headers payload =
     (case post url headers payload of
        Inl err \<Rightarrow> Inl (ModelAPIError (''model request failed: '' @ err))
      | Inr r \<Rightarrow>
          if 400 \<le> hr_status r
          then Inl (ModelAPIError (''model endpoint returned '' @ int_str (hr_status r) @ '': '' @ take 500 (hr_text r)))
          else (case json_loads (hr_text r) of None \<Rightarrow> Inl PanelValueError | Some j \<Rightarrow> Inr j))"

definition chat_message :: "string \<Rightarrow> string \<Rightarrow> doc" where
  "chat_message role content = DObj [(''role'', DStr role), (''content'', DStr content)]"

text \<open>\<open>body["choices"][0]["message"]["content"]\<close>; \<open>None\<close> is a \<open>KeyError\<close>, \<open>IndexError\<close> or \<open>TypeError\<close>.\<close>

fun json_field :: "string \<Rightarrow> json \<Rightarrow> json option" where
  "json_field k (JObj kvs) = map_of kvs k"
| "json_field _ _ = None"

fun json_first :: "json \<Rightarrow> json option" where
  "json_first (JArr (j # _)) = Some j"
| "json_first (JStr (c # _)) = Some (JStr [c])"
| "json_first _ = None"

definition choices_content :: "json \<Rightarrow> json option" where
  "choices_content body =
     Option.bind (json_field ''choices'' body) (\<lambda>cs. Option.bind (json_first cs)
       (\<lambda>c. Option.bind (json_field ''message'' c) (json_field ''content'')))"

definition openai_complete ::
  "(json \<Rightarrow> string) \<Rightarrow> poster \<Rightarrow> model_settings \<Rightarrow> string \<Rightarrow> string \<Rightarrow> panel_exn + string" where
  "openai_complete shape_error post ms system user =
     (case post_json post (ms_base_url ms @ ''/chat/completions'') [(''Authorization'', ''Bearer '' @ ms_api_key ms)]
             (DObj [(''model'', DStr (ms_model ms)), (''max_tokens'', DInt MAX_TOKENS),
                    (''messages'', DArr [chat_message ''system'' system, chat_message ''user'' user])]) of
        Inl e \<Rightarrow> Inl e
      | Inr body \<Rightarrow> (case choices_content body of
            None \<Rightarrow> Inl (ModelAPIError (''unexpected chat-completions response shape: '' @ shape_error body))
          | Some (JStr s) \<Rightarrow> Inr s
          | Some _ \<Rightarrow> Inl (ModelAPIError ''chat-completions content is not text'')))"

definition anthropic_headers :: "model_settings \<Rightarrow> (string, string) dict" where
  "anthropic_headers ms =
     [(''x-api-key'', ms_api_key ms), (''anthropic-version'', ''2023-06-01'')]
     @ (if ms_provider ms = ''anthropic_foundry'' then [(''api-key'', ms_api_key ms)] else [])"

definition anthropic_complete :: "poster \<Rightarrow> model_settings \<Rightarrow> string \<Rightarrow> string \<Rightarrow> panel_exn + string" where
  "anthropic_complete post ms system user =
     (case post_json post (ms_base_url ms @ ''/v1/messages'') (anthropic_headers ms)
             (DObj [(''model'', DStr (ms_model ms)), (''max_tokens'', DInt MAX_TOKENS), (''system'', DStr system),
                    (''messages'', DArr [chat_message ''user'' user])]) of
        Inl e \<Rightarrow> Inl e
      | Inr (JObj kvs) \<Rightarrow> (case text_blocks (map_of kvs ''content'') of
            None \<Rightarrow> Inl (ModelAPIError ''unexpected messages response shape: no content list'')
          | Some parts \<Rightarrow> Inr (concat parts))
      | Inr _ \<Rightarrow> Inl PanelAttributeError)"

definition model_complete ::
  "(json \<Rightarrow> string) \<Rightarrow> poster \<Rightarrow> model_settings \<Rightarrow> string \<Rightarrow> string \<Rightarrow> panel_exn + string" where
  "model_complete shape_error post ms =
     (if ms_provider ms \<in> set OPENAI_COMPATIBLE then openai_complete shape_error post ms else anthropic_complete post ms)"

section \<open>The pull request\<close>

definition github_get :: "(string \<Rightarrow> string \<Rightarrow> string + http_response) \<Rightarrow> string \<Rightarrow> string \<Rightarrow> panel_exn + http_response" where
  "github_get fetch url accept =
     (case fetch url accept of
        Inl err \<Rightarrow> Inl (GitHubAPIError (''github request failed: '' @ err))
      | Inr r \<Rightarrow> if 400 \<le> hr_status r
                then Inl (GitHubAPIError (''github returned '' @ int_str (hr_status r) @ '' for GET '' @ url)) else Inr r)"

text \<open>\<open>str(d.get(k) or "")\<close> and \<open>d[k]\<close>.\<close>

definition str_or_empty :: "(json \<Rightarrow> string) \<Rightarrow> json option \<Rightarrow> string" where
  "str_or_empty py_str j = (case j of None \<Rightarrow> [] | Some v \<Rightarrow> if json_falsy v then [] else
     (case v of JStr s \<Rightarrow> s | _ \<Rightarrow> py_str v))"

fun subscript :: "string \<Rightarrow> json \<Rightarrow> panel_exn + json" where
  "subscript k (JObj kvs) = (case map_of kvs k of None \<Rightarrow> Inl PanelKeyError | Some v \<Rightarrow> Inr v)"
| "subscript k _ = Inl PanelTypeError"

definition get_pr ::
  "(json \<Rightarrow> string) \<Rightarrow> (string \<Rightarrow> string \<Rightarrow> string + http_response) \<Rightarrow> string \<Rightarrow> string \<Rightarrow> int \<Rightarrow> panel_exn + pr_context" where
  "get_pr py_str fetch api_url repo nr =
     (let base = rstrip_by (\<lambda>c. c = CHR ''/'') api_url @ ''/repos/'' @ repo @ ''/pulls/'' @ int_str nr
      in case github_get fetch base ''application/vnd.github+json'' of Inl e \<Rightarrow> Inl e
       | Inr r \<Rightarrow> (case json_loads (hr_text r) of None \<Rightarrow> Inl PanelValueError
       | Some meta \<Rightarrow> (case github_get fetch base ''application/vnd.github.diff'' of Inl e \<Rightarrow> Inl e
       | Inr d \<Rightarrow> (case meta of
           JObj kvs \<Rightarrow>
             (case (case map_of kvs ''user'' of None \<Rightarrow> JObj [] | Some u \<Rightarrow> if json_falsy u then JObj [] else u) of
                user \<Rightarrow>
                (case subscript ''head'' meta of Inl e \<Rightarrow> Inl e
                 | Inr h \<Rightarrow> (case subscript ''sha'' h of Inl e \<Rightarrow> Inl e
                 | Inr sha \<Rightarrow> (case user of
                     JObj us \<Rightarrow>
                       Inr \<lparr>px_repo = repo, px_number = nr,
                            px_head_sha = (case sha of JStr s \<Rightarrow> s | _ \<Rightarrow> py_str sha),
                            px_title = str_or_empty py_str (map_of kvs ''title''),
                            px_body = str_or_empty py_str (map_of kvs ''body''),
                            px_author = str_or_empty py_str (map_of us ''login''), px_diff = hr_text d\<rparr>
                   | _ \<Rightarrow> Inl PanelAttributeError))))
         | _ \<Rightarrow> Inl PanelAttributeError))))"

section \<open>Configuration and the command\<close>

definition env_flag :: "(string, string) dict \<Rightarrow> string \<Rightarrow> bool" where
  "env_flag env name \<longleftrightarrow> py_lower (py_strip (env_get env name [])) \<in> {''1'', ''true'', ''yes'', ''on''}"

record panel_config =
  pc_github_token :: string
  pc_github_api_url :: string
  pc_agents_dir :: string
  pc_database_url :: "string option"
  pc_mcp_url :: "string option"
  pc_mcp_token :: "string option"
  pc_langsmith_tracing :: bool
  pc_trace_sink :: string

definition env_optional :: "(string, string) dict \<Rightarrow> string \<Rightarrow> string option" where
  "env_optional env name = (let v = env_get env name [] in if v = [] then None else Some v)"

definition load_config :: "string \<Rightarrow> (string, string) dict \<Rightarrow> panel_config" where
  "load_config default_agents_dir env =
     \<lparr>pc_github_token = env_get env ''GITHUB_TOKEN'' [],
      pc_github_api_url = env_get env ''GITHUB_API_URL'' ''https://api.github.com'',
      pc_agents_dir = env_or env ''REVIEW_PANEL_AGENTS_DIR'' default_agents_dir,
      pc_database_url = env_optional env ''REVIEW_PANEL_DATABASE_URL'',
      pc_mcp_url = env_optional env ''REVIEW_PANEL_MCP_URL'',
      pc_mcp_token = env_optional env ''REVIEW_PANEL_MCP_TOKEN'',
      pc_langsmith_tracing = (env_flag env ''LANGSMITH_TRACING'' \<or> env_flag env ''LANGCHAIN_TRACING_V2''),
      pc_trace_sink = py_lower (py_strip (env_get env ''TRACE_SINK'' []))\<rparr>"

definition to_psycopg_url :: "string \<Rightarrow> string" where
  "to_psycopg_url url =
     (let (scheme, rest) = (case split_once ''://'' url of None \<Rightarrow> (url, []) | Some p \<Rightarrow> p)
      in hd (split_on CHR ''+'' scheme) @ ''://'' @ rest)"

definition kb_client ::
  "(string \<Rightarrow> (string, string) dict \<Rightarrow> doc \<Rightarrow> string + http_response) \<Rightarrow> panel_config \<Rightarrow> string \<Rightarrow> panel_exn + string" where
  "kb_client post c = (case pc_mcp_url c of None \<Rightarrow> null_search | Some url \<Rightarrow> mcp_search (post url) (pc_mcp_token c))"

text \<open>
  The outside world of the command: \<open>show_error\<close> gives the text of a malformed answer, \<open>read_text\<close> reads a
  manifest, \<open>model_answer\<close> and the other functions send requests.
\<close>

record panel_host =
  ph_env :: "(string, string) dict"
  ph_default_agents_dir :: string
  ph_read_text :: "string \<Rightarrow> string + string"
  ph_fetch :: "string \<Rightarrow> string \<Rightarrow> string + http_response"
  ph_post :: "nat \<Rightarrow> poster"
  ph_mcp_post :: poster
  ph_repr :: "string \<Rightarrow> string"
  ph_str :: "json \<Rightarrow> string"
  ph_json_error :: "string \<Rightarrow> string"
  ph_schema_error :: "json \<Rightarrow> string"
  ph_shape_error :: "json \<Rightarrow> string"
  ph_now :: int

definition command_compute ::
  "panel_host \<Rightarrow> panel_config \<Rightarrow> string list \<Rightarrow> pr_context \<Rightarrow> panel_world \<Rightarrow> (panel_exn + draft_outcome) \<times> panel_world" where
  "command_compute h c order pr w =
     (case load_model_settings (ph_repr h) (ph_env h) of
        Inl e \<Rightarrow> (Inl e, w)
      | Inr ms \<Rightarrow> (case load_panel_prompts (ph_read_text h) (pc_agents_dir c) of
            Inl e \<Rightarrow> (Inl e, w)
          | Inr prompts \<Rightarrow>
              compute_draft
                \<lparr>pd_model = (\<lambda>n. model_complete (ph_shape_error h) (ph_post h n) ms),
                 pd_github = get_pr (ph_str h) (ph_fetch h) (pc_github_api_url c),
                 pd_kb = kb_client (ph_mcp_post h) c, pd_prompts = prompts,
                 pd_model_label = ms_provider ms @ '':'' @ ms_model ms, pd_max_diff_chars = MAX_DIFF_CHARS,
                 pd_json_error = ph_json_error h, pd_schema_error = ph_schema_error h, pd_now = ph_now h\<rparr>
                True order pr w))"

text \<open>\<open>run_draft\<close>, with the stores already opened: the outcome whose draft is printed.\<close>

definition run_draft ::
  "panel_host \<Rightarrow> string list \<Rightarrow> string \<Rightarrow> int \<Rightarrow> panel_world \<Rightarrow> (panel_exn + draft_outcome) \<times> panel_world" where
  "run_draft h order repo nr w =
     (let c = load_config (ph_default_agents_dir h) (ph_env h)
      in if pc_trace_sink c \<notin> {[], ''postgres'', ''none''}
         then (Inl (PanelRuntimeError (''invalid TRACE_SINK='' @ ph_repr h (pc_trace_sink c) @ ''; expected ''
                 @ [CHR 0x27] @ ''postgres'' @ [CHR 0x27] @ '' or '' @ [CHR 0x27] @ ''none'' @ [CHR 0x27])), w)
         else (case get_pr (ph_str h) (ph_fetch h) (pc_github_api_url c) repo nr of
                 Inl e \<Rightarrow> (Inl e, w)
               | Inr pr \<Rightarrow> (case get_draft (pw_drafts w) (pr_key pr) of
                     Some d \<Rightarrow> (Inr \<lparr>do_draft = d, do_source = Stored\<rparr>, w)
                   | None \<Rightarrow> command_compute h c order pr w)))"

text \<open>\<open>main\<close>: the exit code, or the exception that is not caught.\<close>

fun caught_by_main :: "panel_exn \<Rightarrow> bool" where
  "caught_by_main (ReviewerOutputError _) = True"
| "caught_by_main (ModelAPIError _) = True"
| "caught_by_main (GitHubAPIError _) = True"
| "caught_by_main (KBSearchError _) = True"
| "caught_by_main (PromptLoadError _) = True"
| "caught_by_main (PanelRuntimeError _) = True"
| "caught_by_main _ = False"

definition exit_code :: "panel_exn + draft_outcome \<Rightarrow> panel_exn + int" where
  "exit_code r = (case r of Inr _ \<Rightarrow> Inr 0 | Inl e \<Rightarrow> if caught_by_main e then Inr 1 else Inl e)"

text \<open>Printing a stored draft takes no model settings and no manifest.\<close>

lemma stored_draft_needs_no_model:
  assumes "get_pr (ph_str h) (ph_fetch h) (pc_github_api_url (load_config (ph_default_agents_dir h) (ph_env h))) repo nr = Inr pr"
    and "get_draft (pw_drafts w) (pr_key pr) = Some d"
    and "pc_trace_sink (load_config (ph_default_agents_dir h) (ph_env h)) \<in> {[], ''postgres'', ''none''}"
  shows "run_draft h order repo nr w = (Inr \<lparr>do_draft = d, do_source = Stored\<rparr>, w)"
  using assms by (simp add: run_draft_def Let_def)

end
