(* ===== verification/PanelSafety.thy ===== *)
theory PanelSafety
  imports PanelRun
begin

text \<open>
  What the review panel's runs keep: a thread never holds two reviews of one lens, a stored draft comes from
  one validated review of each lens, a finished review is never paid for again, and the first draft of a key
  stays.
\<close>

section \<open>What is kept of a thread\<close>

definition panel_order :: "string list \<Rightarrow> bool" where
  "panel_order order \<longleftrightarrow> mset order = mset PANEL_LENSES"

definition sound_draft :: "string \<Rightarrow> panel_draft \<Rightarrow> bool" where
  "sound_draft key d \<longleftrightarrow> dd_draft_key d = key \<and> review_ok (dd_synthesis d)
     \<and> dd_advisory_verdict d = rv_verdict (dd_synthesis d)
     \<and> (\<exists>reviews. mset (map pv_lens reviews) = mset PANEL_LENSES \<and> (\<forall>p \<in> set reviews. review_ok (pv_review p))
          \<and> map merged_finding.truncate (dd_findings d) = rc_findings (reconcile reviews))"

definition thread_ok :: "string \<Rightarrow> panel_state \<Rightarrow> bool" where
  "thread_ok key s \<longleftrightarrow> pr_key (ps_pr s) = key \<and> distinct (lenses_of s) \<and> set (lenses_of s) \<subseteq> set PANEL_LENSES
     \<and> (\<forall>p \<in> set (ps_reviews s). review_ok (pv_review p)) \<and> (ps_kb_context s = None \<longrightarrow> ps_reviews s = [])
     \<and> (\<forall>d. ps_draft s = Some d \<longrightarrow> sound_draft key d \<and> set (lenses_of s) = set PANEL_LENSES)
     \<and> (ps_stored s \<longrightarrow> ps_draft s \<noteq> None)"

definition drafts_ok :: "(string, panel_draft) dict \<Rightarrow> bool" where
  "drafts_ok drafts \<longleftrightarrow> (\<forall>key d. map_of drafts key = Some d \<longrightarrow> sound_draft key d)"

definition panel_ok :: "panel_world \<Rightarrow> bool" where
  "panel_ok w \<longleftrightarrow> drafts_ok (pw_drafts w) \<and> (\<forall>key s. map_of (pw_threads w) key = Some s \<longrightarrow> thread_ok key s)"

lemma order_facts:
  assumes "panel_order order" shows "distinct order" "set order = set PANEL_LENSES"
proof -
  have "distinct PANEL_LENSES" by (simp add: PANEL_LENSES_def)
  then show "distinct order" using assms unfolding panel_order_def by (metis mset_eq_imp_distinct_iff)
  show "set order = set PANEL_LENSES" using assms unfolding panel_order_def by (rule mset_eq_setD)
qed

section \<open>One node\<close>

lemma repair_calls:
  "complete_with_schema_repair deps system user lens n = (r, n') \<Longrightarrow> n < n' \<and> n' \<le> n + 2"
  by (auto simp: complete_with_schema_repair_def Let_def split: sum.splits)

lemma repair_validated:
  "complete_with_schema_repair deps system user lens n = (Inr r, n') \<Longrightarrow> review_ok r"
  by (auto simp: complete_with_schema_repair_def Let_def dest: parse_review_ok split: sum.splits)

lemma review_run:
  assumes "review deps lens s n = (Inr s', n')"
  obtains r where "review_ok r" and "s' = s\<lparr>ps_reviews := ps_reviews s @ [\<lparr>pv_lens = lens, pv_review = r\<rparr>]\<rparr>"
    and "n' \<le> n + 2"
  using assms repair_calls repair_validated
  by (fastforce simp: review_def Let_def split: option.splits prod.splits sum.splits)

lemma review_calls: "review deps lens s n = (r, n') \<Longrightarrow> n \<le> n' \<and> n' \<le> n + 2"
  by (auto simp: review_def Let_def dest!: repair_calls split: option.splits prod.splits)

lemma reconcile_calls: "reconcile_node deps s n = (r, n') \<Longrightarrow> n \<le> n' \<and> n' \<le> n + 2"
  by (auto simp: reconcile_node_def Let_def dest!: repair_calls split: prod.splits)

lemma reconcile_run:
  assumes "reconcile_node deps s n = (Inr s', n')"
  obtains r where "review_ok r"
    and "s' = s\<lparr>ps_reconciled := Some (reconcile (ps_reviews s)), ps_synthesis := Some r,
           ps_draft := Some (build_draft (pd_now deps) (ps_pr s) (reconcile (ps_reviews s)) r (pd_model_label deps)
             (get_kb (ps_kb_context s) \<noteq> []))\<rparr>"
  using assms repair_validated
  by (fastforce simp: reconcile_node_def Let_def split: prod.splits sum.splits)

lemma built_draft_sound:
  assumes "thread_ok key s" and "set (lenses_of s) = set PANEL_LENSES" and "review_ok r"
  shows "sound_draft key (build_draft now (ps_pr s) (reconcile (ps_reviews s)) r model kb)"
proof -
  have "distinct PANEL_LENSES" by (simp add: PANEL_LENSES_def)
  then have "mset (map pv_lens (ps_reviews s)) = mset PANEL_LENSES"
    using assms(1,2) set_eq_iff_mset_eq_distinct [of "lenses_of s" PANEL_LENSES]
    by (simp add: thread_ok_def lenses_of_def)
  moreover have "map merged_finding.truncate (map (\<lambda>f. merged_finding.extend f e) fs) = fs" if "e = (\<lambda>f. e') f" for fs e e'
    by (induction fs) (simp_all add: merged_finding.defs)
  ultimately show ?thesis using assms
    by (auto simp: sound_draft_def build_draft_def thread_ok_def merged_finding.defs comp_def intro!: exI [of _ "ps_reviews s"])
qed

lemma filter_next:
  assumes "filter (\<lambda>l. l \<notin> A) order = x # xs" and "distinct order"
  shows "filter (\<lambda>l. l \<notin> insert x A) order = xs"
proof -
  have "filter (\<lambda>l. l \<notin> insert x A) order = filter (\<lambda>l. l \<noteq> x) (filter (\<lambda>l. l \<notin> A) order)"
    by (simp add: conj_commute)
  moreover have "x \<notin> set xs" using distinct_filter [OF assms(2), of "\<lambda>l. l \<notin> A"] unfolding assms(1) by simp
  moreover have "x \<notin> set xs \<Longrightarrow> filter (\<lambda>l. l \<noteq> x) (x # xs) = xs" by (auto simp: filter_id_conv)
  ultimately show ?thesis unfolding assms(1) by simp
qed

lemma load_run:
  assumes "load_pr deps s = Inr s'"
  obtains pr k where "s' = s\<lparr>ps_pr := pr, ps_kb_context := Some k\<rparr>" and "pr_key pr = pr_key (ps_pr s)"
  using assms by (auto simp: load_pr_def Let_def pr_key_def split: sum.splits)

lemma remaining_head:
  assumes "remaining order s = n # ns"
  shows "(n = LoadNode \<longrightarrow> ps_kb_context s = None) \<and> (n = ReviewNode l \<longrightarrow> ps_kb_context s \<noteq> None)
    \<and> (n = ReconcileNode \<or> n = StoreNode \<longrightarrow> ps_kb_context s \<noteq> None
         \<and> filter (\<lambda>l. l \<notin> set (lenses_of s)) order = [] \<and> (ps_draft s = None \<longleftrightarrow> n = ReconcileNode))
    \<and> (n = StoreNode \<longrightarrow> ns = [])"
  using assms
  by (cases "filter (\<lambda>l. l \<notin> set (lenses_of s)) order") (auto simp: remaining_def split: if_splits)

lemma run_node_keeps:
  assumes ok: "thread_ok key s" and rem: "remaining order s = n # ns" and ord: "panel_order order"
    and run: "run_node deps n s w = (Inr s', w')" and dr: "drafts_ok (pw_drafts w)"
  shows "thread_ok key s' \<and> remaining order s' = ns \<and> drafts_ok (pw_drafts w') \<and> pw_threads w' = pw_threads w"
proof (cases n)
  case LoadNode
  with run obtain pr k where s': "s' = s\<lparr>ps_pr := pr, ps_kb_context := Some k\<rparr>" "pr_key pr = pr_key (ps_pr s)" "w' = w"
    by (auto elim: load_run)
  from remaining_head [OF rem] LoadNode have "ps_kb_context s = None" by blast
  with s' rem LoadNode ok dr show ?thesis
    by (auto simp: remaining_def thread_ok_def lenses_of_def split: if_splits)
next
  case (ReviewNode l)
  with run obtain m where rv: "review deps l s (pw_calls w) = (Inr s', m)" "w' = w\<lparr>pw_calls := m\<rparr>"
    by (auto split: prod.splits)
  from review_run [OF rv(1)] obtain r where
    r: "review_ok r" "s' = s\<lparr>ps_reviews := ps_reviews s @ [\<lparr>pv_lens = l, pv_review = r\<rparr>]\<rparr>" by blast
  have k: "ps_kb_context s \<noteq> None" using remaining_head [OF rem] ReviewNode by blast
  then obtain fs where fs: "filter (\<lambda>l. l \<notin> set (lenses_of s)) order = l # fs"
    "ns = map ReviewNode fs @ (if ps_draft s = None then [ReconcileNode] else []) @ (if ps_stored s then [] else [StoreNode])"
    using rem ReviewNode by (cases "filter (\<lambda>l. l \<notin> set (lenses_of s)) order") (auto simp: remaining_def split: if_splits)
  then have "l \<in> set (filter (\<lambda>l. l \<notin> set (lenses_of s)) order)" by simp
  then have l: "l \<notin> set (lenses_of s)" "l \<in> set PANEL_LENSES" using order_facts(2) [OF ord] by auto
  have "ps_draft s = None" using ok l by (cases "ps_draft s") (auto simp: thread_ok_def)
  moreover have "filter (\<lambda>l. l \<notin> set (lenses_of s')) order = fs"
    using filter_next [OF fs(1) order_facts(1) [OF ord]] r(2) by (simp add: lenses_of_def)
  ultimately show ?thesis using ok l k fs(2) r rv(2) dr
    by (auto simp: thread_ok_def remaining_def lenses_of_def)
next
  case ReconcileNode
  with run obtain m where rv: "reconcile_node deps s (pw_calls w) = (Inr s', m)" "w' = w\<lparr>pw_calls := m\<rparr>"
    by (auto split: prod.splits)
  from reconcile_run [OF rv(1)] obtain r where r: "review_ok r"
    "s' = s\<lparr>ps_reconciled := Some (reconcile (ps_reviews s)), ps_synthesis := Some r,
           ps_draft := Some (build_draft (pd_now deps) (ps_pr s) (reconcile (ps_reviews s)) r (pd_model_label deps)
             (get_kb (ps_kb_context s) \<noteq> []))\<rparr>" by blast
  have f: "ps_kb_context s \<noteq> None" "filter (\<lambda>l. l \<notin> set (lenses_of s)) order = []" "ps_draft s = None"
    using remaining_head [OF rem] ReconcileNode by blast+
  then have all: "set (lenses_of s) = set PANEL_LENSES"
    using ok order_facts(2) [OF ord] by (auto simp: thread_ok_def filter_empty_conv)
  from built_draft_sound [OF ok all r(1)] ok all f r(2) rem ReconcileNode rv(2) dr show ?thesis
    by (auto simp: thread_ok_def remaining_def lenses_of_def)
next
  case StoreNode
  then have f: "ps_kb_context s \<noteq> None" "filter (\<lambda>l. l \<notin> set (lenses_of s)) order = []" "ps_draft s \<noteq> None" "ns = []"
    using remaining_head [OF rem] by blast+
  then obtain d where d: "ps_draft s = Some d" by blast
  have snd: "sound_draft key d" using ok d by (simp add: thread_ok_def)
  then have kd: "dd_draft_key d = key" by (simp add: sound_draft_def)
  obtain e drafts where p: "put_if_absent d (pw_drafts w) = (e, drafts)" by fastforce
  then have s': "s' = s\<lparr>ps_draft := Some e, ps_stored := True\<rparr>" "w' = w\<lparr>pw_drafts := drafts\<rparr>"
    using run StoreNode d by (auto simp: store_draft_def)
  have "sound_draft key e" "drafts_ok drafts"
    using p snd dr kd by (auto simp: put_if_absent_def drafts_ok_def map_add_def split: option.splits if_splits)
  with s' f ok d show ?thesis by (auto simp: thread_ok_def remaining_def lenses_of_def)
qed

section \<open>A run\<close>

lemma save_thread_ok: "panel_ok w \<Longrightarrow> thread_ok key s \<Longrightarrow> panel_ok (save_thread saver key s w)"
  by (auto simp: save_thread_def panel_ok_def)

lemma save_thread_simps [simp]:
  "pw_drafts (save_thread saver key s w) = pw_drafts w" "pw_calls (save_thread saver key s w) = pw_calls w"
  by (simp_all add: save_thread_def)

text \<open>Whatever prefix of the remaining nodes is run, and however it ends.\<close>

lemma run_node_failed_keeps:
  assumes "run_node deps n s w = (Inl e, w')"
  shows "pw_drafts w' = pw_drafts w \<and> pw_threads w' = pw_threads w"
  using assms by (cases n) (auto simp: store_draft_def split: prod.splits option.splits)

lemma run_nodes_keep:
  assumes "thread_ok key s" and "remaining order s = ns @ ms" and "panel_order order" and "panel_ok w"
    and "run_nodes deps saver key ns s w = (r, w')"
  shows "panel_ok w' \<and> (\<forall>s'. r = Inr s' \<longrightarrow> thread_ok key s' \<and> remaining order s' = ms)"
  using assms
proof (induction ns arbitrary: s w)
  case (Cons n ns)
  have dr: "drafts_ok (pw_drafts w)" using Cons.prems(4) by (simp add: panel_ok_def)
  obtain r1 w1 where r1: "run_node deps n s w = (r1, w1)" by fastforce
  show ?case
  proof (cases r1)
    case (Inl e)
    with r1 run_node_failed_keeps Cons.prems(4,5) show ?thesis by (auto simp: panel_ok_def)
  next
    case (Inr s1)
    have rem: "remaining order s = n # (ns @ ms)" using Cons.prems(2) by simp
    have k: "thread_ok key s1" "remaining order s1 = ns @ ms" "drafts_ok (pw_drafts w1)" "pw_threads w1 = pw_threads w"
      using run_node_keeps [OF Cons.prems(1) rem Cons.prems(3) r1 [unfolded Inr] dr] by blast+
    then have "panel_ok w1" using Cons.prems(4) by (simp add: panel_ok_def)
    then have "panel_ok (save_thread saver key s1 w1)" using k(1) by (rule save_thread_ok)
    from Cons.IH [OF k(1,2) Cons.prems(3) this] Cons.prems(5) r1 Inr show ?thesis by simp
  qed
qed auto

lemma fresh_ok: "thread_ok (pr_key pr) (fresh_state pr)"
  by (simp add: thread_ok_def fresh_state_def lenses_of_def)

lemma open_thread_ok:
  assumes "panel_ok w" and "open_thread saver order pr w = (resuming, s, w1)"
  shows "thread_ok (pr_key pr) s \<and> panel_ok w1 \<and> pw_drafts w1 = pw_drafts w \<and> pw_calls w1 = pw_calls w"
proof -
  have "panel_ok (w\<lparr>pw_threads := AList.delete (pr_key pr) (pw_threads w)\<rparr>)"
    using assms(1) by (auto simp: panel_ok_def)
  with assms show ?thesis
    by (auto simp: open_thread_def Let_def fresh_ok save_thread_ok split: option.splits if_splits)
      (simp add: panel_ok_def)
qed

lemma compute_keeps:
  assumes "panel_ok w" and "panel_order order" and "compute_draft deps saver order pr w = (r, w')"
  shows "panel_ok w' \<and> (\<forall>out. r = Inr out \<longrightarrow> sound_draft (pr_key pr) (do_draft out))"
proof -
  obtain resuming s w1 where o1: "open_thread saver order pr w = (resuming, s, w1)" by (cases "open_thread saver order pr w")
  note k = open_thread_ok [OF assms(1) o1]
  obtain r2 w2 where r2: "run_nodes deps saver (pr_key pr) (remaining order s) s w1 = (r2, w2)" by fastforce
  have "panel_ok w2 \<and> (\<forall>s'. r2 = Inr s' \<longrightarrow> thread_ok (pr_key pr) s' \<and> remaining order s' = [])"
    by (rule run_nodes_keep [OF _ _ assms(2) _ r2]) (use k in auto)
  with assms(3) o1 r2 show ?thesis
    by (auto simp: compute_draft_def thread_ok_def split: sum.splits option.splits)
qed

lemma killed_keeps: "panel_ok w \<Longrightarrow> panel_order order \<Longrightarrow> panel_ok (killed_run deps order k pr w)"
proof -
  assume w: "panel_ok w" and ord: "panel_order order"
  obtain resuming s w1 where o1: "open_thread True order pr w = (resuming, s, w1)" by (cases "open_thread True order pr w")
  note k = open_thread_ok [OF w o1]
  obtain r2 w2 where r2: "run_nodes deps True (pr_key pr) (take k (remaining order s)) s w1 = (r2, w2)" by fastforce
  have "panel_ok w2"
    using run_nodes_keep [OF _ _ ord _ r2, where ms = "drop k (remaining order s)"] k by simp
  with o1 r2 show ?thesis by (simp add: killed_run_def)
qed

section \<open>Reachable states\<close>

text \<open>
  A step is a call with any dependencies, or a run killed between two nodes; drafts may be deleted from
  outside at any time.
\<close>

inductive panel_step :: "panel_world \<Rightarrow> panel_world \<Rightarrow> bool" where
  called: "panel_order order \<Longrightarrow> compute_or_get_draft deps saver order repo pr_nr w = (r, w') \<Longrightarrow> panel_step w w'"
| killed: "panel_order order \<Longrightarrow> panel_step w (killed_run deps order k pr w)"

inductive_cases panel_stepE: "panel_step w w'"

inductive panel_reach :: "panel_world \<Rightarrow> bool" where
  start: "panel_reach \<lparr>pw_drafts = [], pw_threads = [], pw_calls = 0\<rparr>"
| stepped: "panel_reach w \<Longrightarrow> panel_step w w' \<Longrightarrow> panel_reach w'"
| deleted: "panel_reach w \<Longrightarrow> panel_reach (w\<lparr>pw_drafts := AList.delete key (pw_drafts w)\<rparr>)"

lemma call_keeps:
  assumes "panel_ok w" and "panel_order order"
    and "compute_or_get_draft deps saver order repo pr_nr w = (r, w')"
  shows "panel_ok w'"
  using assms compute_keeps
  by (auto simp: compute_or_get_draft_def get_stored_draft_def split: sum.splits option.splits)

lemma step_keeps: "panel_step w w' \<Longrightarrow> panel_ok w \<Longrightarrow> panel_ok w'"
  by (induction rule: panel_step.induct) (blast intro: call_keeps killed_keeps)+

lemma reach_ok: "panel_reach w \<Longrightarrow> panel_ok w"
proof (induction rule: panel_reach.induct)
  case start
  show ?case by (simp add: panel_ok_def drafts_ok_def)
next
  case (stepped w w')
  then show ?case by (blast intro: step_keeps)
next
  case (deleted w key)
  then show ?case by (auto simp: panel_ok_def drafts_ok_def)
qed

section \<open>The first draft stays\<close>

lemma put_kept:
  "put_if_absent e drafts = (e', drafts') \<Longrightarrow> get_draft drafts key = Some d \<Longrightarrow> get_draft drafts' key = Some d"
  using memory_store.kept by (metis snd_conv)

lemma run_node_drafts:
  "run_node deps n s w = (r, w') \<Longrightarrow> get_draft (pw_drafts w) key = Some d \<Longrightarrow> get_draft (pw_drafts w') key = Some d"
  by (cases n) (auto simp: store_draft_def split: prod.splits option.splits intro: put_kept)

lemma run_nodes_drafts:
  "run_nodes deps saver thread ns s w = (r, w') \<Longrightarrow> get_draft (pw_drafts w) key = Some d
   \<Longrightarrow> get_draft (pw_drafts w') key = Some d"
proof (induction ns arbitrary: s w)
  case (Cons n ns)
  obtain r1 w1 where r1: "run_node deps n s w = (r1, w1)" by fastforce
  note kept = run_node_drafts [OF r1 Cons.prems(2)]
  show ?case
  proof (cases r1)
    case (Inl e)
    with Cons.prems(1) r1 kept show ?thesis by simp
  next
    case (Inr s1)
    with Cons.prems(1) r1 have "run_nodes deps saver thread ns s1 (save_thread saver thread s1 w1) = (r, w')" by simp
    from Cons.IH [OF this] kept show ?thesis by simp
  qed
qed simp

lemma open_thread_drafts: "open_thread saver order pr w = (resuming, s, w1) \<Longrightarrow> pw_drafts w1 = pw_drafts w"
  by (auto simp: open_thread_def Let_def split: option.splits if_splits)

lemma compute_drafts:
  assumes "compute_draft deps saver order pr w = (r, w')" and "get_draft (pw_drafts w) key = Some d"
  shows "get_draft (pw_drafts w') key = Some d"
proof -
  obtain resuming s w1 where o1: "open_thread saver order pr w = (resuming, s, w1)" by (cases "open_thread saver order pr w")
  obtain r2 w2 where r2: "run_nodes deps saver (pr_key pr) (remaining order s) s w1 = (r2, w2)" by fastforce
  have "w' = w2" using assms(1) o1 r2 by (auto simp: compute_draft_def split: sum.splits option.splits)
  with run_nodes_drafts [OF r2] open_thread_drafts [OF o1] assms(2) show ?thesis by simp
qed

lemma step_drafts:
  assumes "panel_step w w'" and "get_draft (pw_drafts w) key = Some d"
  shows "get_draft (pw_drafts w') key = Some d"
  using assms(1)
proof (cases rule: panel_step.cases)
  case (called order deps saver repo pr_nr r)
  then show ?thesis using assms(2) compute_drafts
    by (auto simp: compute_or_get_draft_def split: sum.splits prod.splits option.splits)
next
  case (killed order deps k pr)
  obtain resuming s w1 where o1: "open_thread True order pr w = (resuming, s, w1)" by (cases "open_thread True order pr w")
  obtain r2 w2 where r2: "run_nodes deps True (pr_key pr) (take k (remaining order s)) s w1 = (r2, w2)" by fastforce
  have "w' = w2" using killed(1) o1 r2 by (simp add: killed_run_def)
  with run_nodes_drafts [OF r2] open_thread_drafts [OF o1] assms(2) show ?thesis by simp
qed

lemma steps_drafts: "panel_step\<^sup>*\<^sup>* w w' \<Longrightarrow> get_draft (pw_drafts w) key = Some d \<Longrightarrow> get_draft (pw_drafts w') key = Some d"
  by (induction rule: rtranclp_induct) (blast intro: step_drafts)+

text \<open>A run that returns has stored what it returns.\<close>

lemma not_stored:
  assumes "thread_ok key s" and "remaining order s \<noteq> []" and "panel_order order"
  shows "\<not> ps_stored s"
proof
  assume st: "ps_stored s"
  then obtain d where d: "ps_draft s = Some d" using assms(1) unfolding thread_ok_def by blast
  then have all: "ps_draft s \<noteq> None" "set (lenses_of s) = set PANEL_LENSES"
    using assms(1) unfolding thread_ok_def by simp_all
  have "set (lenses_of s) \<noteq> {}" unfolding all(2) by (simp add: PANEL_LENSES_def)
  then have "ps_reviews s \<noteq> []" by (auto simp: lenses_of_def)
  then have "ps_kb_context s \<noteq> None" using assms(1) unfolding thread_ok_def by blast
  moreover have "filter (\<lambda>l. l \<notin> set (lenses_of s)) order = []"
    unfolding all(2) order_facts(2) [OF assms(3), symmetric] by simp
  ultimately show False using assms(2) st d by (simp add: remaining_def)
qed

lemma run_stores:
  assumes "thread_ok key s" and "panel_order order" and "drafts_ok (pw_drafts w)" and "\<not> ps_stored s"
    and "run_nodes deps saver key (remaining order s) s w = (Inr s', w')"
  shows "\<exists>d. ps_draft s' = Some d \<and> get_draft (pw_drafts w') key = Some d"
  using assms(1,3-5)
proof (induction "remaining order s" arbitrary: s w)
  case Nil
  then show ?case by (auto simp: remaining_def)
next
  case (Cons n ns)
  obtain r1 w1 where r1: "run_node deps n s w = (r1, w1)" by fastforce
  have "run_nodes deps saver key (n # ns) s w = (Inr s', w')" using Cons.prems(4) by (simp only: Cons.hyps(2))
  with r1 obtain s1 where s1: "r1 = Inr s1"
    "run_nodes deps saver key ns s1 (save_thread saver key s1 w1) = (Inr s', w')"
    by (cases r1) auto
  note k = run_node_keeps [OF Cons.prems(1) Cons.hyps(2) [symmetric] assms(2) r1 [unfolded s1(1)] Cons.prems(2)]
  show ?case
  proof (cases "n = StoreNode")
    case True
    then have "ns = []" using remaining_head [OF Cons.hyps(2) [symmetric]] by blast
    with s1(2) have e: "s' = s1" "w' = save_thread saver key s1 w1" by auto
    obtain d where d: "ps_draft s = Some d" using r1 s1(1) True by (auto simp: store_draft_def split: option.splits)
    have "dd_draft_key d = key" using Cons.prems(1) d by (simp add: thread_ok_def sound_draft_def)
    with d r1 s1(1) True e show ?thesis
      using memory_store.get_put [of d "pw_drafts w" key] by (auto simp: store_draft_def split: prod.splits)
  next
    case False
    then have "ps_stored s1 = ps_stored s" using r1 s1(1)
      by (cases n) (auto split: prod.splits elim!: load_run review_run reconcile_run)
    with Cons.hyps(1) [of s1 "save_thread saver key s1 w1"] k s1(2) Cons.prems(3) show ?thesis by simp
  qed
qed

lemma compute_stores:
  assumes "panel_ok w" and "panel_order order" and "compute_draft deps saver order pr w = (Inr out, w')"
  shows "get_draft (pw_drafts w') (pr_key pr) = Some (do_draft out)"
proof -
  obtain resuming s w1 where o1: "open_thread saver order pr w = (resuming, s, w1)" by (cases "open_thread saver order pr w")
  note k = open_thread_ok [OF assms(1) o1]
  have "remaining order s \<noteq> []"
    using o1 by (auto simp: open_thread_def Let_def fresh_state_def remaining_def split: option.splits if_splits)
  then have ns: "\<not> ps_stored s" using not_stored k assms(2) by blast
  from assms(3) o1 obtain s' where
    r2: "run_nodes deps saver (pr_key pr) (remaining order s) s w1 = (Inr s', w')" "ps_draft s' = Some (do_draft out)"
    by (auto simp: compute_draft_def split: sum.splits option.splits prod.splits)
  from run_stores [OF _ assms(2) _ ns r2(1)] r2(2) k show ?thesis by (auto simp: panel_ok_def)
qed

section \<open>What a run costs\<close>

fun node_cost :: "panel_node \<Rightarrow> nat" where
  "node_cost (ReviewNode _) = 2"
| "node_cost ReconcileNode = 2"
| "node_cost _ = 0"

lemma run_node_cost:
  "run_node deps n s w = (r, w') \<Longrightarrow> pw_calls w \<le> pw_calls w' \<and> pw_calls w' \<le> pw_calls w + node_cost n"
  by (cases n)
    (auto simp: store_draft_def dest: review_calls reconcile_calls split: prod.splits option.splits)

lemma run_nodes_cost:
  "run_nodes deps saver key ns s w = (r, w')
   \<Longrightarrow> pw_calls w \<le> pw_calls w' \<and> pw_calls w' \<le> pw_calls w + sum_list (map node_cost ns)"
proof (induction ns arbitrary: s w)
  case (Cons n ns)
  obtain r1 w1 where r1: "run_node deps n s w = (r1, w1)" by fastforce
  note c = run_node_cost [OF r1]
  show ?case
  proof (cases r1)
    case (Inl e)
    with Cons.prems r1 c show ?thesis by auto
  next
    case (Inr s1)
    with Cons.prems r1 have "run_nodes deps saver key ns s1 (save_thread saver key s1 w1) = (r, w')" by simp
    from Cons.IH [OF this] c show ?thesis by simp
  qed
qed simp

lemma missing_lenses:
  assumes "thread_ok key s" and "panel_order order"
  shows "length (filter (\<lambda>l. l \<notin> set (lenses_of s)) order) = 4 - length (ps_reviews s)"
proof -
  note o1 = order_facts [OF assms(2)]
  have "length (filter (\<lambda>l. l \<notin> set (lenses_of s)) order) = card (set PANEL_LENSES - set (lenses_of s))"
  proof -
    have "set (filter (\<lambda>l. l \<notin> set (lenses_of s)) order) = set PANEL_LENSES - set (lenses_of s)" using o1(2) by auto
    then show ?thesis using distinct_card [OF distinct_filter [OF o1(1)]] by metis
  qed
  also have "\<dots> = card (set PANEL_LENSES) - card (set (lenses_of s))"
    using assms(1) by (simp add: card_Diff_subset thread_ok_def)
  also have "\<dots> = 4 - length (ps_reviews s)"
  proof -
    have "card (set (lenses_of s)) = length (ps_reviews s)"
      using assms(1) distinct_card [of "lenses_of s"] by (simp add: thread_ok_def lenses_of_def)
    then show ?thesis by (simp add: PANEL_LENSES_def)
  qed
  finally show ?thesis .
qed

lemma remaining_cost:
  assumes "thread_ok key s" and "panel_order order"
  shows "sum_list (map node_cost (remaining order s)) \<le> 2 * (4 - length (ps_reviews s)) + 2"
proof -
  have "sum_list (map node_cost (map ReviewNode ls)) = 2 * length ls" for ls by (induction ls) simp_all
  then show ?thesis using missing_lenses [OF assms] by (simp add: remaining_def)
qed


section \<open>A resumed run\<close>

lemma run_node_reviews:
  "run_node deps n s w = (Inr s', w') \<Longrightarrow> prefix (ps_reviews s) (ps_reviews s') \<and> pw_threads w' = pw_threads w"
  by (cases n)
    (auto simp: store_draft_def split: prod.splits option.splits elim!: load_run review_run reconcile_run)

lemma run_nodes_thread:
  assumes "run_nodes deps True key ns s w = (r, w')" and "map_of (pw_threads w) key = Some s"
  shows "\<exists>s'. map_of (pw_threads w') key = Some s' \<and> prefix (ps_reviews s) (ps_reviews s') \<and> (\<forall>t. r = Inr t \<longrightarrow> t = s')"
  using assms
proof (induction ns arbitrary: s w)
  case (Cons n ns)
  obtain r1 w1 where r1: "run_node deps n s w = (r1, w1)" by fastforce
  show ?case
  proof (cases r1)
    case (Inl e)
    with Cons.prems r1 run_node_failed_keeps show ?thesis by (intro exI [of _ s]) auto
  next
    case (Inr s1)
    with r1 have p: "prefix (ps_reviews s) (ps_reviews s1)" using run_node_reviews by blast
    from Inr Cons.prems(1) r1 have "run_nodes deps True key ns s1 (save_thread True key s1 w1) = (r, w')" by simp
    from Cons.IH [OF this] obtain s' where "map_of (pw_threads w') key = Some s'"
      "prefix (ps_reviews s1) (ps_reviews s')" "\<forall>t. r = Inr t \<longrightarrow> t = s'"
      by (auto simp: save_thread_def)
    with p show ?thesis using prefix_order.trans by blast
  qed
qed auto

section \<open>A model that answers\<close>

text \<open>Its first answer may be anything; the repaired one passes the gate.\<close>

definition answering :: "panel_deps \<Rightarrow> bool" where
  "answering deps \<longleftrightarrow> (\<forall>q. \<exists>k. pd_kb deps q = Inr k)
     \<and> (\<forall>l \<in> set PANEL_LENSES. map_of (pp_reviewers (pd_prompts deps)) l \<noteq> None)
     \<and> (\<forall>n system user. \<exists>raw. pd_model deps n system user = Inr raw)
     \<and> (\<forall>n system user err lens raw. pd_model deps n system (schema_repair_prompt user err) = Inr raw
          \<longrightarrow> (\<exists>r. parse_review_findings (pd_json_error deps) (pd_schema_error deps) lens raw = Inr r))"

lemma repair_answers:
  assumes "answering deps" shows "\<exists>r n'. complete_with_schema_repair deps system user lens n = (Inr r, n')"
proof -
  obtain raw where raw: "pd_model deps n system user = Inr raw" using assms unfolding answering_def by blast
  show ?thesis
  proof (cases "parse_review_findings (pd_json_error deps) (pd_schema_error deps) lens raw")
    case (Inl err)
    obtain raw2 where "pd_model deps (n + 1) system (schema_repair_prompt user (exn_text err)) = Inr raw2"
      using assms unfolding answering_def by blast
    moreover from this obtain r where
      "parse_review_findings (pd_json_error deps) (pd_schema_error deps) lens raw2 = Inr r"
      using assms unfolding answering_def by blast
    ultimately show ?thesis using raw Inl by (simp add: complete_with_schema_repair_def Let_def)
  qed (simp add: complete_with_schema_repair_def Let_def raw)
qed

lemma run_node_answers:
  assumes "answering deps" and "thread_ok key s" and "remaining order s = n # ns" and "panel_order order"
  shows "\<exists>s' w'. run_node deps n s w = (Inr s', w')"
proof (cases n)
  case LoadNode
  have "\<exists>s'. load_pr deps s = Inr s'"
  proof (cases "load_pr deps s")
    case (Inl e)
    then obtain q where "pd_kb deps q = Inl e" by (auto simp: load_pr_def Let_def split: sum.splits if_splits)
    then show ?thesis using assms(1) unfolding answering_def by (metis Inl_Inr_False)
  qed simp
  then show ?thesis using LoadNode by auto
next
  case (ReviewNode l)
  then have "ReviewNode l \<in> set (remaining order s)" using assms(3) by simp
  then have "l \<in> set PANEL_LENSES" using order_facts(2) [OF assms(4)] by (auto simp: remaining_def split: if_splits)
  then obtain i where i: "map_of (pp_reviewers (pd_prompts deps)) l = Some i" using assms(1) by (auto simp: answering_def)
  obtain r n' where "complete_with_schema_repair deps (py_join blank_line [i, OUTPUT_FORMAT_INSTRUCTION])
      (reviewer_prompt (ps_pr s) (get_kb (ps_kb_context s))) l (pw_calls w) = (Inr r, n')"
    using repair_answers [OF assms(1)] by blast
  with ReviewNode i show ?thesis by (simp add: review_def Let_def del: py_join.simps)
next
  case ReconcileNode
  obtain r n' where "complete_with_schema_repair deps (py_join blank_line [pp_synthesizer (pd_prompts deps), OUTPUT_FORMAT_INSTRUCTION])
      (reconcile_prompt (ps_pr s) (ps_reviews s) (reconcile (ps_reviews s))) ''synthesizer'' (pw_calls w) = (Inr r, n')"
    using repair_answers [OF assms(1)] by blast
  with ReconcileNode show ?thesis by (simp add: reconcile_node_def Let_def del: py_join.simps)
next
  case StoreNode
  then have "ps_draft s \<noteq> None" using remaining_head [OF assms(3)] by blast
  with StoreNode show ?thesis by (auto simp: store_draft_def split: prod.splits)
qed

lemma run_nodes_answers:
  assumes "answering deps" and "panel_order order" and "thread_ok key s" and "drafts_ok (pw_drafts w)"
  shows "\<exists>s' w'. run_nodes deps saver key (remaining order s) s w = (Inr s', w')"
  using assms(3,4)
proof (induction "remaining order s" arbitrary: s w)
  case (Cons n ns)
  obtain s1 w1 where r1: "run_node deps n s w = (Inr s1, w1)"
    using run_node_answers [OF assms(1) Cons.prems(1) Cons.hyps(2) [symmetric] assms(2)] by blast
  note k = run_node_keeps [OF Cons.prems(1) Cons.hyps(2) [symmetric] assms(2) r1 Cons.prems(2)]
  from Cons.hyps(1) [of s1 "save_thread saver key s1 w1"] k r1 show ?case by (simp flip: Cons.hyps(2))
qed simp

lemma answered_run:
  assumes "panel_reach w" "panel_order order" "answering deps" "pd_github deps repo pr_nr = Inr pr"
  shows "\<exists>out w'. compute_or_get_draft deps saver order repo pr_nr w = (Inr out, w')"
proof (cases "get_draft (pw_drafts w) (pr_key pr)")
  case (Some d)
  then show ?thesis using assms(4) by (simp add: compute_or_get_draft_def get_stored_draft_def)
next
  case None
  obtain resuming s w1 where o1: "open_thread saver order pr w = (resuming, s, w1)" by (cases "open_thread saver order pr w")
  note k = open_thread_ok [OF reach_ok [OF assms(1)] o1]
  then obtain s' w2 where r2: "run_nodes deps saver (pr_key pr) (remaining order s) s w1 = (Inr s', w2)"
    using run_nodes_answers [OF assms(3,2)] unfolding panel_ok_def by blast
  have "thread_ok (pr_key pr) s'" "remaining order s' = []"
    using run_nodes_keep [OF _ _ assms(2) _ r2, of "[]"] k by simp_all
  then have "ps_draft s' \<noteq> None" by (auto simp: remaining_def split: if_splits)
  with None o1 r2 assms(4) show ?thesis by (auto simp: compute_or_get_draft_def get_stored_draft_def compute_draft_def)
qed

end
