(* ===== verification/PanelClaims.thy ===== *)
theory PanelClaims
  imports PanelSafety
begin

text \<open>
  The review panel's properties, each with a witness where it has hypotheses; first a pull request, a hostile
  variant of it, and a model that always answers with one finding.
\<close>

section \<open>A sample panel\<close>

definition sample_pr :: pr_context where
  "sample_pr = \<lparr>px_repo = ''o/r'', px_number = 7, px_head_sha = ''abc'', px_title = ''t'', px_body = [],
     px_author = ''dev'', px_diff = []\<rparr>"


definition sample_finding :: review_finding where
  "sample_finding = \<lparr>rfi_severity = Major, rfi_finding = ''leak'', rfi_evidence_ids = [''f'']\<rparr>"

definition sample_review :: review_findings where
  "sample_review = \<lparr>rv_verdict = Request_changes, rv_findings = [sample_finding], rv_open_questions = []\<rparr>"

definition sample_answer :: string where
  "sample_answer = json_raw (review_dump sample_review)"

definition sample_panel :: panel_deps where
  "sample_panel = \<lparr>pd_model = (\<lambda>_ _ _. Inr sample_answer), pd_github = (\<lambda>_ _. Inr sample_pr), pd_kb = (\<lambda>_. Inr []),
     pd_prompts = \<lparr>pp_reviewers = map (\<lambda>l. (l, ''Review.'')) PANEL_LENSES, pp_synthesizer = ''Merge.''\<rparr>,
     pd_model_label = ''m'', pd_max_diff_chars = MAX_DIFF_CHARS, pd_json_error = id, pd_schema_error = (\<lambda>_. []), pd_now = 0\<rparr>"

definition empty_panel :: panel_world where
  "empty_panel = \<lparr>pw_drafts = [], pw_threads = [], pw_calls = 0\<rparr>"

lemma sample_gate: "parse_review_findings id (\<lambda>_. []) lens sample_answer = Inr sample_review"
proof -
  have "py_strip sample_answer = sample_answer" "code_fence sample_answer = None" by code_simp+
  moreover have "validate_review (as_dicts (json_of_doc (review_dump sample_review))) = Some sample_review" by code_simp
  ultimately show ?thesis
    by (simp add: parse_review_findings_def json_loads_def sample_answer_def json_read_raw)
qed

lemma sample_answering: "answering sample_panel"
  by (simp add: answering_def sample_panel_def sample_gate PANEL_LENSES_def)

lemma sample_order: "panel_order PANEL_LENSES"
  by (simp add: panel_order_def)

lemma empty_panel_ok: "panel_reach empty_panel" "panel_ok empty_panel"
  using panel_reach.start reach_ok by (simp_all add: empty_panel_def)

lemma sample_github: "pd_github sample_panel repo pr_nr = Inr sample_pr"
  by (simp add: sample_panel_def)

lemma sample_returns:
  obtains out w1 where "compute_or_get_draft sample_panel True PANEL_LENSES ''o/r'' 7 empty_panel = (Inr out, w1)"
    and "panel_step empty_panel w1" and "panel_reach w1"
    and "get_draft (pw_drafts w1) (pr_key sample_pr) = Some (do_draft out)"
proof -
  obtain out w1 where run: "compute_or_get_draft sample_panel True PANEL_LENSES ''o/r'' 7 empty_panel = (Inr out, w1)"
    using answered_run [OF empty_panel_ok(1) sample_order sample_answering sample_github] by blast
  have st: "panel_step empty_panel w1" by (rule panel_step.called [OF sample_order run])
  have "get_draft (pw_drafts w1) (pr_key sample_pr) = Some (do_draft out)"
    using run compute_stores [OF empty_panel_ok(2) sample_order]
    by (auto simp: compute_or_get_draft_def get_stored_draft_def sample_github split: option.splits)
  with run st panel_reach.stepped [OF empty_panel_ok(1) st] that show thesis by blast
qed

lemma sample_repair: "complete_with_schema_repair sample_panel system user lens n = (Inr sample_review, n + 1)"
  by (simp add: complete_with_schema_repair_def sample_panel_def sample_gate)

definition half_run :: panel_world where
  "half_run = killed_run sample_panel PANEL_LENSES 2 sample_pr empty_panel"

lemma half_run_thread:
  "\<exists>s. map_of (pw_threads half_run) (pr_key sample_pr) = Some s
     \<and> ps_reviews s = [\<lparr>pv_lens = ''bug'', pv_review = sample_review\<rparr>] \<and> ps_draft s = None \<and> pw_calls half_run = 1"
proof -
  let ?s = "(fresh_state sample_pr)\<lparr>ps_kb_context := Some []\<rparr>"
  have "load_pr sample_panel (fresh_state sample_pr) = Inr ?s"
    by (simp add: load_pr_def Let_def truncated_diff_def fresh_state_def sample_pr_def sample_panel_def)
  moreover have "review sample_panel ''bug'' ?s n
      = (Inr (?s\<lparr>ps_reviews := [\<lparr>pv_lens = ''bug'', pv_review = sample_review\<rparr>]\<rparr>), n + 1)" for n
  proof -
    have "map_of (pp_reviewers (pd_prompts sample_panel)) ''bug'' = Some ''Review.''"
      by (simp add: sample_panel_def PANEL_LENSES_def)
    then show ?thesis by (simp add: review_def sample_repair fresh_state_def Let_def)
  qed
  ultimately show ?thesis
    by (simp add: half_run_def killed_run_def open_thread_def empty_panel_def remaining_def lenses_of_def save_thread_def
        Let_def fresh_state_def PANEL_LENSES_def)
qed

lemma half_run_reach: "panel_reach half_run"
  unfolding half_run_def by (rule panel_reach.stepped [OF empty_panel_ok(1)]) (rule panel_step.killed [OF sample_order])

section \<open>The prompts\<close>



section \<open>The merge\<close>

text \<open>
  C29. The reconciled findings are a partition of all the lenses' findings into groups that keep their order, one
  finding for each group, ranked by severity: it names exactly the group's lenses and evidence, speaks with a
  most severe instance, has the most severe of the lenses' last votes, and records a disagreement when those
  votes differ.
\<close>
theorem reconcile_keeps_everything:
  "\<exists>parts. grouped (panel_instances reviews) parts
     \<and> list_all2 stands_for parts (rc_findings (reconcile reviews))
     \<and> sorted (map (\<lambda>m. SEVERITY_RANK (mf_severity m)) (rc_findings (reconcile reviews)))"
  using reconcile_parts reconcile_ranked by blast

text \<open>
  A lens that reports one issue twice is believed the second time: the merged finding has the later severity,
  however much milder it is than the first, and shows no disagreement.
\<close>
theorem own_duplicate_softens:
  assumes "normalize_tokens t \<noteq> []"
  shows "rc_findings (reconcile [\<lparr>pv_lens = lens, pv_review = \<lparr>rv_verdict = v, rv_findings =
       [\<lparr>rfi_severity = s, rfi_finding = t, rfi_evidence_ids = ids\<rparr>, \<lparr>rfi_severity = s', rfi_finding = t, rfi_evidence_ids = ids'\<rparr>],
       rv_open_questions = qs\<rparr>\<rparr>])
     = [\<lparr>mf_severity = s', mf_finding = t, mf_evidence_ids = sort (remdups (remdups ids @ ids')), mf_lenses = [lens],
         mf_disagreement = None\<rparr>]"
proof -
  let ?t = "normalize_tokens t"
  have d: "distinct ?t" by (simp add: normalize_tokens_def)
  have "length (remdups (?t @ ?t)) = length ?t"
    using distinct_card [OF d] by (simp add: length_remdups_card_conv)
  moreover have "filter (\<lambda>w. w \<in> set ?t) ?t = ?t" by (simp add: filter_id_conv)
  ultimately have "is_duplicate ?t ?t" using assms by (simp add: is_duplicate_def Let_def DUPLICATE_SIMILARITY_def)
  moreover have "is_duplicate ?t ?t \<Longrightarrow> snd (min_by (\<lambda>p. SEVERITY_RANK (fst p)) (s, t) [(s', t)]) = t" by simp
  ultimately show ?thesis
    by (simp add: reconcile_def panel_groups_def new_group_def absorb_def group_merged_def Let_def)
qed

lemma own_duplicate_softens_witness:
  "map mf_severity (rc_findings (reconcile [\<lparr>pv_lens = ''security'', pv_review = \<lparr>rv_verdict = Request_changes, rv_findings =
       [\<lparr>rfi_severity = Blocker, rfi_finding = ''key leaks'', rfi_evidence_ids = [''a'']\<rparr>,
        \<lparr>rfi_severity = Note, rfi_finding = ''key leaks'', rfi_evidence_ids = [''b'']\<rparr>],
       rv_open_questions = []\<rparr>\<rparr>])) = [Note]"
proof -
  have "normalize_tokens ''key leaks'' \<noteq> []" by code_simp
  from own_duplicate_softens [OF this, of "''security''" Request_changes Blocker "[''a'']" Note "[''b'']" "[]"] show ?thesis by simp
qed

section \<open>The runs\<close>



text \<open>
  C31. Once a call has returned a draft, every later call for the same pull request and head returns that draft,
  marked stored, and changes nothing, whatever its model and whatever calls and killed runs came between.
\<close>
theorem draft_computed_once:
  assumes "panel_reach w" "panel_order order" "compute_or_get_draft deps saver order repo pr_nr w = (Inr out, w1)"
    and "pd_github deps repo pr_nr = Inr pr" and "panel_step\<^sup>*\<^sup>* w1 w2"
    and "pd_github deps' repo' pr_nr' = Inr pr'" "pr_key pr' = pr_key pr"
  shows "compute_or_get_draft deps' saver' order' repo' pr_nr' w2 = (Inr \<lparr>do_draft = do_draft out, do_source = Stored\<rparr>, w2)"
proof -
  have "get_draft (pw_drafts w1) (pr_key pr) = Some (do_draft out)"
    using assms(3,4) compute_stores [OF reach_ok [OF assms(1)] assms(2)]
    by (auto simp: compute_or_get_draft_def get_stored_draft_def split: option.splits)
  from steps_drafts [OF assms(5) this] assms(6,7) show ?thesis
    by (simp add: compute_or_get_draft_def get_stored_draft_def)
qed

lemma draft_computed_once_witness:
  "\<exists>out w1. compute_or_get_draft sample_panel True PANEL_LENSES ''o/r'' 7 empty_panel = (Inr out, w1)
     \<and> compute_or_get_draft (sample_panel\<lparr>pd_model := \<lambda>_ _ _. Inl (ModelAPIError [])\<rparr>) False PANEL_LENSES ''o/r'' 7 w1
       = (Inr \<lparr>do_draft = do_draft out, do_source = Stored\<rparr>, w1)"
proof -
  obtain out w1 where run: "compute_or_get_draft sample_panel True PANEL_LENSES ''o/r'' 7 empty_panel = (Inr out, w1)"
    by (rule sample_returns)
  from draft_computed_once [OF empty_panel_ok(1) sample_order run sample_github rtranclp.rtrancl_refl,
      where deps' = "sample_panel\<lparr>pd_model := \<lambda>_ _ _. Inl (ModelAPIError [])\<rparr>" and pr' = sample_pr]
  show ?thesis using run by (simp add: sample_github)
qed

text \<open>
  C32. A resumed run keeps the reviews its thread holds, whatever happens to it, and calls the model at most twice for
  each missing lens and twice for the synthesis; when it returns, the thread has four reviews.
\<close>
theorem resumed_run_pays_the_rest:
  assumes "panel_reach w" "panel_order order" "map_of (pw_threads w) (pr_key pr) = Some s" "remaining order s \<noteq> []"
    and "compute_draft deps True order pr w = (r, w')"
  shows "pw_calls w' \<le> pw_calls w + 2 * (4 - length (ps_reviews s)) + 2
    \<and> (\<exists>s'. map_of (pw_threads w') (pr_key pr) = Some s' \<and> prefix (ps_reviews s) (ps_reviews s')
          \<and> (r \<in> range Inr \<longrightarrow> length (ps_reviews s') = 4))"
proof -
  have ok: "panel_ok w" "thread_ok (pr_key pr) s" using reach_ok [OF assms(1)] assms(3) by (auto simp: panel_ok_def)
  have o1: "open_thread True order pr w = (True, s, w)" using assms(3,4) by (simp add: open_thread_def)
  obtain r2 w2 where r2: "run_nodes deps True (pr_key pr) (remaining order s) s w = (r2, w2)" by fastforce
  have w2: "w' = w2" "r \<in> range Inr \<Longrightarrow> \<exists>t. r2 = Inr t"
    using assms(5) o1 r2 by (auto simp: compute_draft_def split: sum.splits option.splits)
  obtain s' where s': "map_of (pw_threads w2) (pr_key pr) = Some s'" "prefix (ps_reviews s) (ps_reviews s')"
    "\<forall>t. r2 = Inr t \<longrightarrow> t = s'"
    using run_nodes_thread [OF r2 assms(3)] by blast
  have k: "\<forall>t. r2 = Inr t \<longrightarrow> thread_ok (pr_key pr) t \<and> remaining order t = []"
    using run_nodes_keep [OF ok(2) _ assms(2) ok(1) r2, of "[]"] by simp
  have "length (ps_reviews s') = 4" if "r \<in> range Inr"
  proof -
    from w2(2) [OF that] s'(3) k have t: "thread_ok (pr_key pr) s'" "remaining order s' = []" by auto
    then have "set (lenses_of s') = set PANEL_LENSES"
      using order_facts(2) [OF assms(2)] by (auto simp: remaining_def thread_ok_def filter_empty_conv split: if_splits)
    then show ?thesis using t(1) distinct_card [of "lenses_of s'"] by (simp add: thread_ok_def lenses_of_def PANEL_LENSES_def)
  qed
  with s' w2(1) run_nodes_cost [OF r2] remaining_cost [OF ok(2) assms(2)] show ?thesis by auto
qed

lemma resumed_run_pays_the_rest_witness:
  "pw_calls (snd (compute_draft sample_panel True PANEL_LENSES sample_pr half_run)) \<le> 9"
proof -
  obtain s where s: "map_of (pw_threads half_run) (pr_key sample_pr) = Some s"
    "ps_reviews s = [\<lparr>pv_lens = ''bug'', pv_review = sample_review\<rparr>]" "ps_draft s = None" "pw_calls half_run = 1"
    using half_run_thread by blast
  then have "remaining PANEL_LENSES s \<noteq> []" by (simp add: remaining_def)
  from resumed_run_pays_the_rest [OF half_run_reach sample_order s(1) this prod.collapse [symmetric], of sample_panel] s
  show ?thesis by simp
qed



end
