(* ===== verification/HttpFetch.thy ===== *)
theory HttpFetch
  imports JsonParse GitMetadata
begin

text \<open>
  The builder's HTTP client (\<open>connectors/http_client.py\<close>): bounded retries with backoff, the error text, and
  Azure DevOps' basic authentication. What the transport answers to the attempts of one request is an
  argument; the waits it makes are recorded. Bodies are texts: bytes that are no UTF-8 are left out. An em
  dash of a message is a hyphen.
\<close>

section \<open>Basic authentication\<close>

definition base64_char :: "nat \<Rightarrow> char" where
  "base64_char n = (if n < 26 then char_of (65 + n) else if n < 52 then char_of (71 + n)
     else if n < 62 then char_of (n - 4) else if n = 62 then CHR ''+'' else CHR ''/'')"

fun base64 :: "nat list \<Rightarrow> string" where
  "base64 [] = []"
| "base64 [a] = [base64_char (a div 4), base64_char (a mod 4 * 16), CHR ''='', CHR ''='']"
| "base64 [a, b] = [base64_char (a div 4), base64_char (a mod 4 * 16 + b div 16), base64_char (b mod 16 * 4), CHR ''='']"
| "base64 (a # b # c # r) =
     [base64_char (a div 4), base64_char (a mod 4 * 16 + b div 16), base64_char (b mod 16 * 4 + c div 64),
      base64_char (c mod 64)] @ base64 r"

definition ado_basic_auth_header :: "string option \<Rightarrow> string option" where
  "ado_basic_auth_header token =
     (case token of None \<Rightarrow> None
      | Some t \<Rightarrow> if t = [] then None else Some (''Basic '' @ base64 (map unat (utf8 ('':'' @ t)))))"

section \<open>Numbers in texts\<close>

text \<open>Digits with single underscores between them; the digits and the rest.\<close>

fun digit_run :: "string \<Rightarrow> string \<times> string" where
  "digit_run [] = ([], [])"
| "digit_run (c # s) =
     (if is_digit c then (let (ds, r) = digit_run s in (c # ds, r))
      else if c = CHR ''_'' \<and> s \<noteq> [] \<and> is_digit (hd s) then digit_run s
      else ([], c # s))"

definition digit_part :: "string \<Rightarrow> string \<times> string" where
  "digit_part s = (if s \<noteq> [] \<and> is_digit (hd s) then digit_run s else ([], s))"

definition signed :: "string \<Rightarrow> bool \<times> string" where
  "signed s = (if s \<noteq> [] \<and> hd s \<in> {CHR ''+'', CHR ''-''} then (hd s = CHR ''-'', tl s) else (False, s))"

text \<open>\<open>int(text)\<close> and \<open>float(text)\<close>; \<open>None\<close> is a \<open>ValueError\<close>.\<close>

definition int_text :: "string \<Rightarrow> int option" where
  "int_text s = (let (neg, u) = signed (py_strip s); (ds, r) = digit_part u in
     if ds = [] \<or> r \<noteq> [] then None else Some ((if neg then - 1 else 1) * int (digits_value ds)))"

definition exponent_text :: "string \<Rightarrow> int option" where
  "exponent_text s = (case s of [] \<Rightarrow> Some 0
     | e # t \<Rightarrow> let (neg, u) = signed t; (ds, r) = digit_part u in
         if e \<notin> {CHR ''e'', CHR ''E''} \<or> ds = [] \<or> r \<noteq> [] then None
         else Some ((if neg then - 1 else 1) * int (digits_value ds)))"

definition float_text :: "string \<Rightarrow> json option" where
  "float_text s =
     (let (neg, u) = signed (py_strip s); low = py_lower u in
      if low \<in> {''inf'', ''infinity''} then Some (JNonFinite (if neg then ''-Infinity'' else ''Infinity''))
      else if low = ''nan'' then Some (JNonFinite ''NaN'')
      else (let (whole, r1) = digit_part u;
                (frac, r2) = (if r1 \<noteq> [] \<and> hd r1 = CHR ''.'' then digit_part (tl r1) else ([], r1));
                mant = real (digits_value (whole @ frac)) / 10 ^ length frac
            in if whole = [] \<and> frac = [] then None
               else map_option (\<lambda>e. JNum ((if neg then - 1 else 1) * (if e < 0 then mant / 10 ^ nat (- e) else mant * 10 ^ nat e)))
                      (exponent_text r2)))"

section \<open>Requests\<close>

datatype fetch_reply =
    Unreachable string
  | Answer int "string option" string

definition DEFAULT_MAX_RETRIES :: nat where "DEFAULT_MAX_RETRIES = 4"
definition BACKOFF_BASE :: real where "BACKOFF_BASE = 1 / 2"
definition BACKOFF_CAP :: real where "BACKOFF_CAP = 8"

definition RETRYABLE_STATUS :: "int list" where
  "RETRYABLE_STATUS = [429, 500, 502, 503, 504]"

definition STATUS_HINTS :: "(int \<times> string) list" where
  "STATUS_HINTS =
     [(401, ''bad or expired credentials - check the token value in its auth env var''),
      (403, ''forbidden - token lacks scope, SSO not authorized for the PAT, or rate-limited''),
      (404, ''not found, OR the resource is private and the token cannot access it - ''
            @ ''verify the PAT'' @ [CHR 0x27] @ ''s scope and that it is granted to this repo/org/project'')]"

definition UNAUTHENTICATED_HINT :: string where
  "UNAUTHENTICATED_HINT =
     ''no Authorization header was sent - this source has no auth.token_env configured, so it ''
     @ ''runs UNAUTHENTICATED (public resources only); a PRIVATE repo/org/project returns 404. ''
     @ ''Add an auth.token_env to this source in your sources.yaml to send a token''"

definition provider_message :: "string \<Rightarrow> string option" where
  "provider_message body =
     (let told = (case json_loads body of
            Some (JObj kvs) \<Rightarrow> (case map_of kvs ''message'' of
                Some (JStr m) \<Rightarrow> if py_strip m \<noteq> [] then Some (take 300 (py_strip m)) else None
              | _ \<Rightarrow> None)
          | _ \<Rightarrow> None);
          shown = py_strip body
      in case told of Some m \<Rightarrow> Some m | None \<Rightarrow> if shown \<noteq> [] then Some (take 300 shown) else None)"

definition http_error_message :: "string \<Rightarrow> string \<Rightarrow> int \<Rightarrow> bool \<Rightarrow> string option \<Rightarrow> string" where
  "http_error_message http_method url status authenticated told =
     py_join '' ''
       ([http_method @ '' '' @ url @ '' returned '' @ int_str status]
        @ (case (if \<not> authenticated \<and> status \<in> {401, 403, 404} then Some UNAUTHENTICATED_HINT
                 else map_of STATUS_HINTS status) of
             None \<Rightarrow> [] | Some h \<Rightarrow> [''('' @ h @ '')''])
        @ (case told of None \<Rightarrow> [] | Some m \<Rightarrow> [''- http_server said: '' @ m]))"

definition backoff_seconds :: "nat \<Rightarrow> real" where
  "backoff_seconds attempt = min (BACKOFF_BASE * 2 ^ attempt) BACKOFF_CAP"

text \<open>A delay below zero, or none that is a number, ends at once.\<close>

definition retry_delay :: "nat \<Rightarrow> string option \<Rightarrow> real" where
  "retry_delay attempt retry_after =
     (case Option.bind retry_after float_text of
        None \<Rightarrow> backoff_seconds attempt
      | Some (JNum s) \<Rightarrow> max 0 (min s BACKOFF_CAP)
      | Some (JNonFinite w) \<Rightarrow> if w = ''Infinity'' then BACKOFF_CAP else 0
      | Some _ \<Rightarrow> backoff_seconds attempt)"

text \<open>The attempts from \<open>attempt\<close> on, with \<open>retries\<close> left: the outcome and the waits.\<close>

definition final_answer :: "bool \<Rightarrow> string \<Rightarrow> string \<Rightarrow> int \<Rightarrow> string \<Rightarrow> exn + string" where
  "final_answer authenticated http_method url status body =
     (if 400 \<le> status
      then Inl (HttpFetchError (http_error_message http_method url status authenticated (provider_message body)))
      else Inr body)"

fun attempts :: "bool \<Rightarrow> string \<Rightarrow> string \<Rightarrow> (nat \<Rightarrow> fetch_reply) \<Rightarrow> nat \<Rightarrow> nat
    \<Rightarrow> (exn + string) \<times> real list" where
  "attempts authenticated http_method url transport attempt 0 =
     (case transport attempt of
        Unreachable err \<Rightarrow> (Inl (HttpFetchError (http_method @ '' '' @ url @ '' failed: '' @ err)), [])
      | Answer status _ body \<Rightarrow> (final_answer authenticated http_method url status body, []))"
| "attempts authenticated http_method url transport attempt (Suc retries) =
     (case transport attempt of
        Unreachable err \<Rightarrow>
          (let (r, ds) = attempts authenticated http_method url transport (attempt + 1) retries
           in (r, backoff_seconds attempt # ds))
      | Answer status retry_after body \<Rightarrow>
          if status \<in> set RETRYABLE_STATUS
          then (let (r, ds) = attempts authenticated http_method url transport (attempt + 1) retries
                in (r, retry_delay attempt retry_after # ds))
          else (final_answer authenticated http_method url status body, []))"

definition http_request :: "bool \<Rightarrow> string \<Rightarrow> string \<Rightarrow> (nat \<Rightarrow> fetch_reply) \<Rightarrow> (exn + string) \<times> real list" where
  "http_request authenticated http_method url transport =
     attempts authenticated http_method url transport 0 DEFAULT_MAX_RETRIES"

definition response_json :: "exn + string \<Rightarrow> exn + json" where
  "response_json r = (case r of Inl e \<Rightarrow> Inl e
     | Inr body \<Rightarrow> (case json_loads body of None \<Rightarrow> Inl ValueError | Some j \<Rightarrow> Inr j))"

subsection \<open>What a request costs and returns\<close>

lemma retry_delay_le: "retry_delay attempt retry_after \<le> BACKOFF_CAP"
  by (simp add: retry_delay_def backoff_seconds_def BACKOFF_CAP_def split: option.splits json.splits)

lemma attempts_waits:
  "attempts au m url tr a n = (r, ds) \<Longrightarrow> length ds \<le> n \<and> (\<forall>d \<in> set ds. d \<le> BACKOFF_CAP)"
proof (induction n arbitrary: a r ds)
  case 0
  then show ?case by (auto split: fetch_reply.splits)
next
  case (Suc n)
  then show ?case
    by (auto simp: backoff_seconds_def intro: retry_delay_le split: fetch_reply.splits prod.splits if_splits)
qed

text \<open>
  A request that succeeds returns the body of the first attempt that is neither unreachable nor answered with
  a retryable status, and that answer is below 400; so a redirect is taken as content.
\<close>

definition retried :: "fetch_reply \<Rightarrow> bool" where
  "retried r = (case r of Unreachable _ \<Rightarrow> True | Answer status _ _ \<Rightarrow> status \<in> set RETRYABLE_STATUS)"

lemma attempts_returns:
  "attempts au m url tr a n = (Inr body, ds)
   \<Longrightarrow> \<exists>k status ra. k \<le> n \<and> (\<forall>i < k. retried (tr (a + i))) \<and> tr (a + k) = Answer status ra body \<and> status < 400
        \<and> length ds = k"
proof (induction n arbitrary: a ds)
  case 0
  then show ?case by (auto simp: final_answer_def split: fetch_reply.splits if_splits)
next
  case (Suc n)
  show ?case
  proof (cases "retried (tr a)")
    case True
    with Suc.prems obtain ds' where "attempts au m url tr (a + 1) n = (Inr body, ds')" "length ds = Suc (length ds')"
      by (auto simp: retried_def split: fetch_reply.splits prod.splits if_splits)
    from Suc.IH [OF this(1)] this(2) obtain k status ra where k: "k \<le> n" "\<forall>i < k. retried (tr (a + 1 + i))"
      "tr (a + 1 + k) = Answer status ra body" "status < 400" "length ds = Suc k" by auto
    have "retried (tr (a + i))" if "i < Suc k" for i
      using that k(2) True by (cases i) auto
    with k show ?thesis by (intro exI [of _ "Suc k"]) auto
  next
    case False
    then obtain status ra body' where now: "tr a = Answer status ra body'" "status \<notin> set RETRYABLE_STATUS"
      by (auto simp: retried_def split: fetch_reply.splits)
    with Suc.prems have "body' = body" "status < 400" "ds = []" by (auto simp: final_answer_def split: if_splits)
    with now have "tr (a + 0) = Answer status ra body" "status < 400" "length ds = 0" by simp_all
    then show ?thesis by (intro exI [of _ 0] exI [of _ status] exI [of _ ra]) simp
  qed
qed

text \<open>Redirects are content.\<close>

lemma redirect_is_content:
  assumes "300 \<le> status" and "status < 400" and "transport 0 = Answer status ra body"
  shows "http_request au m url transport = (Inr body, [])"
  using assms by (simp add: http_request_def DEFAULT_MAX_RETRIES_def RETRYABLE_STATUS_def final_answer_def numeral_eq_Suc)

end
