(* ===== verification/SourceGlob.thy ===== *)
theory SourceGlob
  imports PyText
begin

text \<open>
  The path globs of a source configuration (\<open>domain/source_config.py\<close>): the translation of a pattern into a
  regular expression, kept as the list of the pieces the code concatenates, with the texts each piece can
  leave behind, and \<open>PathFilter\<close>. The reference is matching segment by segment.
\<close>

section \<open>Translation\<close>

datatype glob_error = EmptyGlob | LeadingSlash | EmptySegment | StarsNotAlone

text \<open>
  An escaped character, \<open>[^/]\<close>, \<open>[^/]*\<close>, \<open>/\<close>, \<open>(?:[^/]+/)*\<close>, \<open>(?:/[^/]+)*\<close> and \<open>[^/]+(?:/[^/]+)*\<close>.
\<close>

datatype glob_part = GlobChar char | GlobOne | GlobStar | GlobSlash | GlobDirs | GlobTail | GlobAll

definition segment_part :: "char \<Rightarrow> glob_part" where
  "segment_part c = (if c = CHR ''*'' then GlobStar else if c = CHR ''?'' then GlobOne else GlobChar c)"

definition segment_regex :: "string \<Rightarrow> glob_error + glob_part list" where
  "segment_regex segment = (if py_in ''**'' segment then Inl StarsNotAlone else Inr (map segment_part segment))"

definition collapse_step :: "string list \<Rightarrow> string \<Rightarrow> string list" where
  "collapse_step segments segment =
     (if segment = ''**'' \<and> segments \<noteq> [] \<and> last segments = ''**'' then segments else segments @ [segment])"

definition collapse_stars :: "string list \<Rightarrow> string list" where
  "collapse_stars raw = foldl collapse_step [] raw"

text \<open>The loop, with \<open>need_separator\<close> and whether anything has been emitted.\<close>

fun glob_parts :: "bool \<Rightarrow> bool \<Rightarrow> string list \<Rightarrow> glob_error + glob_part list" where
  "glob_parts need emitted [] = Inr []"
| "glob_parts need emitted (s # ss) =
     (let sep = (if need then [GlobSlash] else []) in
      if s = [] then Inl EmptySegment
      else if s = ''**''
        then if ss = [] then Inr (if emitted then [GlobTail] else [GlobAll])
             else map_sum id ((@) (sep @ [GlobDirs])) (glob_parts False True ss)
      else (case segment_regex s of Inl e \<Rightarrow> Inl e
            | Inr ps \<Rightarrow> map_sum id ((@) (sep @ ps)) (glob_parts True True ss)))"

definition glob_to_regex :: "string \<Rightarrow> glob_error + glob_part list" where
  "glob_to_regex pattern =
     (if pattern = [] then Inl EmptyGlob
      else if prefix ''/'' pattern then Inl LeadingSlash
      else glob_parts False False (collapse_stars (split_on CHR ''/'' pattern)))"

section \<open>Matching\<close>

text \<open>\<open>[^/]*\<close> and \<open>[^/]+\<close>: the texts that can be left.\<close>

fun seg_rests :: "string \<Rightarrow> string list" where
  "seg_rests [] = [[]]"
| "seg_rests (c # s) = (c # s) # (if c = CHR ''/'' then [] else seg_rests s)"

definition seg1_rests :: "string \<Rightarrow> string list" where
  "seg1_rests s = (case s of [] \<Rightarrow> [] | c # r \<Rightarrow> if c = CHR ''/'' then [] else seg_rests r)"

definition after_slash :: "string \<Rightarrow> string list" where
  "after_slash s = (case s of [] \<Rightarrow> [] | c # r \<Rightarrow> if c = CHR ''/'' then [r] else [])"

lemma seg_rests_shorter: "r \<in> set (seg_rests s) \<Longrightarrow> length r \<le> length s"
  by (induction s) (auto split: if_splits)

lemma seg1_rests_shorter: "r \<in> set (seg1_rests s) \<Longrightarrow> length r < length s"
  by (auto simp: seg1_rests_def dest: seg_rests_shorter split: list.splits if_splits)

lemma after_slash_shorter: "r \<in> set (after_slash s) \<Longrightarrow> length r < length s"
  by (auto simp: after_slash_def split: list.splits if_splits)

function dir_rests :: "string \<Rightarrow> string list" where
  "dir_rests s = s # concat (map (\<lambda>r. concat (map dir_rests (after_slash r))) (seg1_rests s))"
  by pat_completeness auto
termination
  by (relation "measure length") (auto dest!: seg1_rests_shorter after_slash_shorter)

function tail_rests :: "string \<Rightarrow> string list" where
  "tail_rests s = s # concat (map (\<lambda>r. concat (map tail_rests (seg1_rests r))) (after_slash s))"
  by pat_completeness auto
termination
  by (relation "measure length") (auto dest!: seg1_rests_shorter after_slash_shorter)

declare dir_rests.simps [simp del] tail_rests.simps [simp del]

fun part_rests :: "glob_part \<Rightarrow> string \<Rightarrow> string list" where
  "part_rests (GlobChar c) s = (case s of [] \<Rightarrow> [] | d # r \<Rightarrow> if d = c then [r] else [])"
| "part_rests GlobOne s = (case s of [] \<Rightarrow> [] | d # r \<Rightarrow> if d = CHR ''/'' then [] else [r])"
| "part_rests GlobStar s = seg_rests s"
| "part_rests GlobSlash s = after_slash s"
| "part_rests GlobDirs s = dir_rests s"
| "part_rests GlobTail s = tail_rests s"
| "part_rests GlobAll s = concat (map tail_rests (seg1_rests s))"

fun glob_match :: "glob_part list \<Rightarrow> string \<Rightarrow> bool" where
  "glob_match [] s \<longleftrightarrow> s = []"
| "glob_match (p # ps) s \<longleftrightarrow> list_ex (glob_match ps) (part_rests p s)"

definition path_filter_matches :: "glob_part list list \<Rightarrow> glob_part list list \<Rightarrow> string \<Rightarrow> bool" where
  "path_filter_matches included excluded path \<longleftrightarrow>
     list_ex (\<lambda>ps. glob_match ps path) included \<and> \<not> list_ex (\<lambda>ps. glob_match ps path) excluded"

section \<open>The reference: segment by segment\<close>

fun seg_match :: "string \<Rightarrow> string \<Rightarrow> bool" where
  "seg_match [] s \<longleftrightarrow> s = []"
| "seg_match (c # p) s \<longleftrightarrow>
     (if c = CHR ''*'' then list_ex (seg_match p) (suffixes s)
      else (case s of [] \<Rightarrow> False | d # r \<Rightarrow> (c = CHR ''?'' \<or> c = d) \<and> seg_match p r))"

fun segments_match :: "string list \<Rightarrow> string list \<Rightarrow> bool" where
  "segments_match [] qs \<longleftrightarrow> qs = []"
| "segments_match (p # ps) qs \<longleftrightarrow>
     (if p = ''**'' then list_ex (segments_match ps) (suffixes qs)
      else (case qs of [] \<Rightarrow> False | q # qs \<Rightarrow> seg_match p q \<and> segments_match ps qs))"

text \<open>A relative path without empty segments.\<close>

definition clean_segments :: "string list \<Rightarrow> bool" where
  "clean_segments qs \<longleftrightarrow> (\<forall>q \<in> set qs. q \<noteq> [] \<and> CHR ''/'' \<notin> set q)"

definition clean_path :: "string \<Rightarrow> bool" where
  "clean_path path \<longleftrightarrow> clean_segments (split_on CHR ''/'' path)"

text \<open>The text behind a finished segment.\<close>

definition rest_text :: "string list \<Rightarrow> string" where
  "rest_text qs = concat (map (\<lambda>q. CHR ''/'' # q) qs)"

abbreviation slash_joined :: "string list \<Rightarrow> string" where "slash_joined qs \<equiv> py_join ''/'' qs"

lemma joined_Cons: "slash_joined (q # qs) = q @ rest_text qs"
  by (induction qs arbitrary: q) (simp_all add: rest_text_def)

lemma rest_text_joined: "qs \<noteq> [] \<Longrightarrow> rest_text qs = CHR ''/'' # slash_joined qs"
  by (cases qs) (simp_all only: joined_Cons, simp_all add: rest_text_def)

lemma rest_text_head: "rest_text qs = [] \<or> hd (rest_text qs) = CHR ''/''"
  by (cases qs) (simp_all add: rest_text_def)

lemma clean_segments_simps [simp]:
  "clean_segments []"
  "clean_segments (q # qs) \<longleftrightarrow> q \<noteq> [] \<and> CHR ''/'' \<notin> set q \<and> clean_segments qs"
  by (auto simp: clean_segments_def)

subsection \<open>Pieces on clean texts\<close>

definition at_boundary :: "string \<Rightarrow> bool" where
  "at_boundary t \<longleftrightarrow> t = [] \<or> hd t = CHR ''/''"

lemma at_boundary_rest [simp]: "at_boundary (rest_text qs)"
  using rest_text_head by (simp add: at_boundary_def)

lemma seg_rests_clean:
  "CHR ''/'' \<notin> set q \<Longrightarrow> at_boundary t \<Longrightarrow> seg_rests (q @ t) = map (\<lambda>u. u @ t) (rev (suffixes q))"
proof (induction q)
  case Nil
  then show ?case by (cases t) (auto simp: at_boundary_def)
qed auto

lemma seg1_rests_clean:
  "c \<noteq> CHR ''/'' \<Longrightarrow> CHR ''/'' \<notin> set q \<Longrightarrow> at_boundary t
   \<Longrightarrow> seg1_rests ((c # q) @ t) = map (\<lambda>u. u @ t) (rev (suffixes q))"
  using seg_rests_clean by (simp add: seg1_rests_def)

lemma list_ex_iff_ex: "list_ex P xs \<longleftrightarrow> (\<exists>x \<in> set xs. P x)"
  by (simp add: list_ex_iff)

lemma glob_match_segment:
  assumes "\<And>u. glob_match ps u \<Longrightarrow> at_boundary u" and "at_boundary t"
    and "CHR ''/'' \<notin> set s" and "CHR ''/'' \<notin> set q"
  shows "glob_match (map segment_part s @ ps) (q @ t) \<longleftrightarrow> seg_match s q \<and> glob_match ps t"
  using assms(3,4)
proof (induction s arbitrary: q)
  case Nil
  show ?case
  proof (cases q)
    case (Cons c q')
    with Nil.prems have "\<not> at_boundary (q @ t)" by (auto simp: at_boundary_def)
    with assms(1) Cons show ?thesis by auto
  qed simp
next
  case (Cons c s)
  show ?case
  proof (cases "c = CHR ''*''")
    case True
    have sub: "CHR ''/'' \<notin> set u" if "u \<in> set (suffixes q)" for u
      using that Cons.prems(2) set_mono_suffix by (fastforce simp: in_set_suffixes)
    have "glob_match (map segment_part (c # s) @ ps) (q @ t)
        \<longleftrightarrow> (\<exists>u \<in> set (suffixes q). glob_match (map segment_part s @ ps) (u @ t))"
      using True seg_rests_clean [OF Cons.prems(2) assms(2)] by (simp add: segment_part_def list_ex_iff_ex)
    also have "\<dots> \<longleftrightarrow> (\<exists>u \<in> set (suffixes q). seg_match s u \<and> glob_match ps t)"
      using Cons.IH sub Cons.prems(1) by auto
    finally show ?thesis using True by (auto simp: list_ex_iff_ex)
  next
    case False
    show ?thesis
    proof (cases q)
      case Nil
      then show ?thesis using False Cons.prems(1) assms(2)
        by (cases t) (auto simp: segment_part_def at_boundary_def)
    next
      case (Cons d r)
      then show ?thesis using False Cons.IH [of r] Cons.prems by (auto simp: segment_part_def)
    qed
  qed
qed

lemma after_slash_boundary: "r \<in> set (after_slash u) \<Longrightarrow> at_boundary u"
  by (auto simp: after_slash_def at_boundary_def split: list.splits if_splits)

lemma dir_rests_joined:
  "qs \<noteq> [] \<Longrightarrow> clean_segments qs \<Longrightarrow> set (dir_rests (slash_joined qs)) = slash_joined ` {v \<in> set (suffixes qs). v \<noteq> []}"
proof (induction qs)
  case (Cons q qs)
  obtain c q' where q: "q = c # q'" "c \<noteq> CHR ''/''" "CHR ''/'' \<notin> set q'" using Cons.prems(2) by (cases q) auto
  have s1: "seg1_rests (slash_joined (q # qs)) = map (\<lambda>u. u @ rest_text qs) (rev (suffixes q'))"
    unfolding joined_Cons q(1) using seg1_rests_clean [OF q(2,3)] by simp
  have s2: "set (after_slash (u @ rest_text qs)) = (if u = [] \<and> qs \<noteq> [] then {slash_joined qs} else {})"
    if "u \<in> set (suffixes q')" for u
  proof (cases u)
    case Nil
    then show ?thesis by (cases "qs = []") (simp_all add: rest_text_joined after_slash_def, simp add: rest_text_def)
  next
    case (Cons d u')
    then have "d \<noteq> CHR ''/''" using that q(3) set_mono_suffix by (fastforce simp: in_set_suffixes)
    with Cons show ?thesis by (simp add: after_slash_def)
  qed
  have "set (dir_rests (slash_joined (q # qs))) = insert (slash_joined (q # qs))
      (\<Union>u \<in> set (suffixes q'). \<Union>r \<in> set (after_slash (u @ rest_text qs)). set (dir_rests r))"
    by (subst dir_rests.simps) (simp add: s1)
  also have "\<dots> = insert (slash_joined (q # qs)) (if qs = [] then {} else set (dir_rests (slash_joined qs)))"
  proof -
    have "[] \<in> set (suffixes q')" by (simp add: in_set_suffixes)
    then have "(\<Union>u \<in> set (suffixes q'). \<Union>r \<in> set (after_slash (u @ rest_text qs)). set (dir_rests r))
        = (if qs = [] then {} else set (dir_rests (slash_joined qs)))"
      using s2 by (auto split: if_splits)
    then show ?thesis by simp
  qed
  also have "\<dots> = slash_joined ` {v \<in> set (suffixes (q # qs)). v \<noteq> []}"
  proof -
    have "{v \<in> set (suffixes (q # qs)). v \<noteq> []} = insert (q # qs) {v \<in> set (suffixes qs). v \<noteq> []}" by auto
    moreover have "qs = [] \<Longrightarrow> {v \<in> set (suffixes qs). v \<noteq> []} = {}" by auto
    ultimately show ?thesis using Cons by auto
  qed
  finally show ?case .
qed simp

lemma tail_rests_all: "clean_segments qs \<Longrightarrow> [] \<in> set (tail_rests (rest_text qs))"
proof (induction qs)
  case Nil
  show ?case by (subst tail_rests.simps) (simp add: rest_text_def)
next
  case (Cons q qs)
  obtain c q' where q: "q = c # q'" "c \<noteq> CHR ''/''" "CHR ''/'' \<notin> set q'" using Cons.prems by (cases q) auto
  have "rest_text (q # qs) = CHR ''/'' # q @ rest_text qs" by (simp add: rest_text_def)
  moreover have "rest_text qs \<in> set (seg1_rests (q @ rest_text qs))"
    unfolding q(1) using seg1_rests_clean [OF q(2,3)] by (force simp: in_set_suffixes)
  ultimately show ?case using Cons by (subst tail_rests.simps) (auto simp: after_slash_def)
qed

lemma glob_tail_boundary: "glob_match [GlobTail] u \<Longrightarrow> at_boundary u"
proof -
  assume "glob_match [GlobTail] u"
  then have "[] \<in> set (tail_rests u)" by (auto simp: list_ex_iff_ex)
  then show "at_boundary u"
    by (subst (asm) tail_rests.simps) (auto dest: after_slash_boundary, simp add: at_boundary_def)
qed

lemma path_match_stars: "segments_match [''**''] qs"
  by (simp add: list_ex_iff_ex in_set_suffixes exI [of _ "[]"] bexI [of _ "[]"])

lemma path_match_dirs:
  assumes "ss \<noteq> []" and "hd ss \<noteq> ''**''"
  shows "segments_match (''**'' # ss) qs \<longleftrightarrow> (\<exists>v \<in> set (suffixes qs). v \<noteq> [] \<and> segments_match ss v)"
proof -
  have "\<not> segments_match ss []" using assms by (cases ss) auto
  moreover have "segments_match (''**'' # ss) qs \<longleftrightarrow> (\<exists>v \<in> set (suffixes qs). segments_match ss v)"
    by (simp add: list_ex_iff_ex)
  ultimately show ?thesis by metis
qed

definition no_double :: "string list \<Rightarrow> bool" where
  "no_double ss \<longleftrightarrow> successively (\<lambda>a b. \<not> (a = ''**'' \<and> b = ''**'')) ss"

lemma no_double_Cons: "no_double (s # ss) \<Longrightarrow> no_double ss \<and> (s = ''**'' \<longrightarrow> ss \<noteq> [] \<longrightarrow> hd ss \<noteq> ''**'')"
  by (cases ss) (auto simp: no_double_def)

lemma glob_parts_match:
  assumes "glob_parts need emitted ss = Inr ps" and "\<forall>s \<in> set ss. CHR ''/'' \<notin> set s" and "no_double ss"
    and "need \<longrightarrow> emitted" and "\<not> need \<longrightarrow> ss \<noteq> [] \<and> (emitted \<longrightarrow> hd ss \<noteq> ''**'')"
  shows "(need \<longrightarrow> (\<forall>qs. clean_segments qs \<longrightarrow> glob_match ps (rest_text qs) = segments_match ss qs)
            \<and> (\<forall>u. glob_match ps u \<longrightarrow> at_boundary u))
       \<and> (\<not> need \<longrightarrow> (\<forall>qs. qs \<noteq> [] \<longrightarrow> clean_segments qs \<longrightarrow> glob_match ps (slash_joined qs) = segments_match ss qs))"
  using assms
proof (induction ss arbitrary: need emitted ps)
  case Nil
  have "rest_text qs = [] \<longleftrightarrow> qs = []" for qs by (cases qs) (simp_all add: rest_text_def)
  with Nil show ?case by (simp add: at_boundary_def)
next
  case (Cons s ss)
  note nd = no_double_Cons [OF Cons.prems(3)]
  have sep: "list_ex (glob_match ps) (after_slash (rest_text qs)) = (qs \<noteq> [] \<and> glob_match ps (slash_joined qs))" for ps qs
    by (cases "qs = []") (simp_all add: rest_text_joined after_slash_def, simp add: rest_text_def)
  have bnd: "glob_match (GlobSlash # ps) u \<Longrightarrow> at_boundary u" for ps u
    by (auto simp: list_ex_iff_ex dest: after_slash_boundary)
  consider (last) "s = ''**''" "ss = []" | (dirs) "s = ''**''" "ss \<noteq> []" | (plain) "s \<noteq> ''**''" by blast
  then show ?case
  proof cases
    case last
    show ?thesis
    proof (cases emitted)
      case True
      with last Cons.prems(1,5) have "need" "ps = [GlobTail]" by auto
      moreover have "glob_match [GlobTail] (rest_text qs)" if "clean_segments qs" for qs
        using tail_rests_all [OF that] by (auto simp: list_ex_iff_ex)
      ultimately show ?thesis using last path_match_stars glob_tail_boundary by simp
    next
      case False
      with last Cons.prems(1,4) have n: "\<not> need" "ps = [GlobAll]" by auto
      have "glob_match [GlobAll] (slash_joined qs)" if g: "qs \<noteq> []" "clean_segments qs" for qs
      proof -
        obtain c q vs where q: "qs = (c # q) # vs" "c \<noteq> CHR ''/''" "CHR ''/'' \<notin> set q" "clean_segments vs"
        proof -
          obtain x vs where x: "qs = x # vs" using g(1) by (cases qs) auto
          with g(2) obtain c q where "x = c # q" by (cases x) auto
          with x g that show thesis by auto
        qed
        have "rest_text vs \<in> set (seg1_rests ((c # q) @ rest_text vs))"
          using seg1_rests_clean [OF q(2,3)] by (force simp: in_set_suffixes)
        with tail_rests_all [OF q(4)] show ?thesis unfolding q(1) joined_Cons by (auto simp: list_ex_iff_ex)
      qed
      with n last path_match_stars show ?thesis by simp
    qed
  next
    case dirs
    from dirs Cons.prems(1) obtain ps' where ps': "glob_parts False True ss = Inr ps'"
      "ps = (if need then [GlobSlash] else []) @ [GlobDirs] @ ps'"
      by (cases "glob_parts False True ss") (auto simp: Let_def split: if_splits)
    have hd: "hd ss \<noteq> ''**''" using nd dirs by blast
    have IH: "glob_match ps' (slash_joined qs) = segments_match ss qs" if "qs \<noteq> []" "clean_segments qs" for qs
      using Cons.IH [OF ps'(1)] Cons.prems(2) nd dirs hd that by auto
    have d: "glob_match (GlobDirs # ps') (slash_joined qs) = segments_match (s # ss) qs" if qs: "qs \<noteq> []" "clean_segments qs" for qs
    proof -
      have cl: "clean_segments v" if "v \<in> set (suffixes qs)" for v
        using that qs(2) set_mono_suffix by (fastforce simp: clean_segments_def in_set_suffixes)
      have "glob_match (GlobDirs # ps') (slash_joined qs) \<longleftrightarrow> (\<exists>v \<in> set (suffixes qs). v \<noteq> [] \<and> glob_match ps' (slash_joined v))"
        using dir_rests_joined [OF qs] by (auto simp: list_ex_iff_ex)
      also have "\<dots> \<longleftrightarrow> (\<exists>v \<in> set (suffixes qs). v \<noteq> [] \<and> segments_match ss v)" using IH cl by blast
      finally show ?thesis using path_match_dirs [OF dirs(2) hd] dirs(1) by simp
    qed
    have e: "\<not> segments_match (s # ss) []" using path_match_dirs [OF dirs(2) hd, of "[]"] dirs(1) by simp
    show ?thesis
    proof (cases need)
      case True
      have "glob_match ps (rest_text qs) = segments_match (s # ss) qs" if "clean_segments qs" for qs
        using sep [of "GlobDirs # ps'" qs] d [OF _ that] e True ps'(2) by (cases "qs = []") auto
      with True bnd ps'(2) show ?thesis by simp
    next
      case False
      with d ps'(2) show ?thesis by simp
    qed
  next
    case plain
    from plain Cons.prems(1) obtain ps' where s: "\<not> py_in ''**'' s" "s \<noteq> []" and ps': "glob_parts True True ss = Inr ps'"
      "ps = (if need then [GlobSlash] else []) @ map segment_part s @ ps'"
      by (cases "glob_parts True True ss") (auto simp: segment_regex_def Let_def split: if_splits)
    have IH: "\<forall>qs. clean_segments qs \<longrightarrow> glob_match ps' (rest_text qs) = segments_match ss qs" "\<And>u. glob_match ps' u \<Longrightarrow> at_boundary u"
      using Cons.IH [OF ps'(1)] Cons.prems(2) nd by auto
    have d: "glob_match (map segment_part s @ ps') (slash_joined qs) = segments_match (s # ss) qs" if qs: "qs \<noteq> []" "clean_segments qs" for qs
    proof -
      obtain q vs where q: "qs = q # vs" using qs(1) by (cases qs) auto
      have "glob_match (map segment_part s @ ps') (q @ rest_text vs) = (seg_match s q \<and> glob_match ps' (rest_text vs))"
        by (rule glob_match_segment [OF IH(2)]) (use qs q Cons.prems(2) in auto)
      with IH(1) qs q plain show ?thesis by (simp add: joined_Cons)
    qed
    show ?thesis
    proof (cases need)
      case True
      have "glob_match ps (rest_text qs) = segments_match (s # ss) qs" if "clean_segments qs" for qs
        using sep [of "map segment_part s @ ps'" qs] d [OF _ that] plain True ps'(2) by (cases "qs = []") auto
      with True bnd ps'(2) show ?thesis by simp
    next
      case False
      with d ps'(2) show ?thesis by simp
    qed
  qed
qed

section \<open>Whole patterns\<close>

lemma path_stars: "segments_match (''**'' # ss) qs \<longleftrightarrow> (\<exists>u v. qs = u @ v \<and> segments_match ss v)"
proof -
  have "segments_match (''**'' # ss) qs \<longleftrightarrow> (\<exists>v. suffix v qs \<and> segments_match ss v)" by (auto simp: list_ex_iff_ex)
  then show ?thesis unfolding suffix_def by metis
qed

lemma path_match_append: "segments_match (xs @ ys) qs \<longleftrightarrow> (\<exists>a b. qs = a @ b \<and> segments_match xs a \<and> segments_match ys b)"
proof (induction xs arbitrary: qs)
  case (Cons x xs)
  show ?case
  proof (cases "x = ''**''")
    case True
    have "segments_match (x # xs @ ys) qs \<longleftrightarrow> (\<exists>u v. qs = u @ v \<and> segments_match (xs @ ys) v)"
      using True path_stars by simp
    also have "\<dots> \<longleftrightarrow> (\<exists>u a b. qs = u @ a @ b \<and> segments_match xs a \<and> segments_match ys b)" using Cons.IH by blast
    also have "\<dots> \<longleftrightarrow> (\<exists>a b. qs = a @ b \<and> segments_match (x # xs) a \<and> segments_match ys b)"
      unfolding True path_stars by (metis append_assoc)
    finally show ?thesis by simp
  next
    case False
    show ?thesis
    proof (cases qs)
      case Nil
      with False show ?thesis by simp
    next
      case (Cons q vs)
      have "(\<exists>a b. q # vs = a @ b \<and> segments_match (x # xs) a \<and> segments_match ys b)
          \<longleftrightarrow> (\<exists>a b. vs = a @ b \<and> seg_match x q \<and> segments_match xs a \<and> segments_match ys b)"
      proof
        assume "\<exists>a b. q # vs = a @ b \<and> segments_match (x # xs) a \<and> segments_match ys b"
        then obtain a b where ab: "q # vs = a @ b" "segments_match (x # xs) a" "segments_match ys b" by blast
        then obtain a' where "a = q # a'" using False by (cases a) auto
        with ab False show "\<exists>a b. vs = a @ b \<and> seg_match x q \<and> segments_match xs a \<and> segments_match ys b" by auto
      next
        assume "\<exists>a b. vs = a @ b \<and> seg_match x q \<and> segments_match xs a \<and> segments_match ys b"
        then obtain a b where "vs = a @ b" "seg_match x q" "segments_match xs a" "segments_match ys b" by blast
        with False show "\<exists>a b. q # vs = a @ b \<and> segments_match (x # xs) a \<and> segments_match ys b"
          by - (rule exI [of _ "q # a"], rule exI [of _ b], simp)
      qed
      moreover have "segments_match ((x # xs) @ ys) qs \<longleftrightarrow> seg_match x q \<and> (\<exists>a b. vs = a @ b \<and> segments_match xs a \<and> segments_match ys b)"
        using False Cons Cons.IH by simp
      ultimately show ?thesis using Cons by metis
    qed
  qed
qed simp

lemma double_stars: "segments_match (''**'' # ''**'' # ss) qs = segments_match (''**'' # ss) qs"
  unfolding path_stars by (metis append_assoc append_Nil)

lemma collapse_match: "segments_match (foldl collapse_step acc raw) qs = segments_match (acc @ raw) qs"
proof (induction raw arbitrary: acc)
  case (Cons s raw)
  show ?case
  proof (cases "s = ''**'' \<and> acc \<noteq> [] \<and> last acc = ''**''")
    case True
    then obtain as where as: "acc = as @ [''**'']" by (metis append_butlast_last_id)
    have "segments_match (as @ ''**'' # ''**'' # raw) qs = segments_match (as @ ''**'' # raw) qs"
      by (simp only: path_match_append double_stars)
    with True Cons as show ?thesis by (simp add: collapse_step_def)
  next
    case False
    then have "collapse_step acc s = acc @ [s]" by (auto simp: collapse_step_def)
    with Cons [of "acc @ [s]"] show ?thesis by simp
  qed
qed simp

lemma collapse_shape:
  "no_double acc \<Longrightarrow> no_double (foldl collapse_step acc raw)
    \<and> set (foldl collapse_step acc raw) = set acc \<union> set raw
    \<and> (acc \<noteq> [] \<or> raw \<noteq> [] \<longrightarrow> foldl collapse_step acc raw \<noteq> [])"
proof (induction raw arbitrary: acc)
  case (Cons s raw)
  have "no_double (collapse_step acc s)"
    using Cons.prems by (auto simp: collapse_step_def no_double_def successively_append_iff)
  moreover have "set (collapse_step acc s) = insert s (set acc)"
    by (auto simp: collapse_step_def) (metis last_in_set)
  moreover have "collapse_step acc s \<noteq> []" by (simp add: collapse_step_def)
  ultimately show ?case using Cons.IH [of "collapse_step acc s"] by auto
qed simp

lemma collapse_stars_shape:
  "no_double (collapse_stars raw)" "set (collapse_stars raw) = set raw" "raw \<noteq> [] \<Longrightarrow> collapse_stars raw \<noteq> []"
  using collapse_shape [of "[]" raw] by (simp_all add: collapse_stars_def no_double_def)

lemma glob_parts_total:
  "(\<exists>ps. glob_parts need emitted ss = Inr ps) \<longleftrightarrow> (\<forall>s \<in> set ss. s \<noteq> [] \<and> (s = ''**'' \<or> \<not> py_in ''**'' s))"
proof (induction ss arbitrary: need emitted)
  case (Cons s ss)
  have m: "(\<exists>ps. map_sum id f r = Inr ps) \<longleftrightarrow> (\<exists>ps. r = Inr ps)" for f :: "glob_part list \<Rightarrow> glob_part list" and r :: "glob_error + glob_part list"
    by (cases r) auto
  show ?case using Cons.IH
    by (cases "s = ''**''") (auto simp: Let_def segment_regex_def m)
qed simp

lemma glob_accepted:
  "(\<exists>ps. glob_to_regex pattern = Inr ps) \<longleftrightarrow> pattern \<noteq> [] \<and> \<not> prefix ''/'' pattern
     \<and> (\<forall>s \<in> set (split_on CHR ''/'' pattern). s \<noteq> [] \<and> (s = ''**'' \<or> \<not> py_in ''**'' s))"
  by (simp add: glob_to_regex_def glob_parts_total collapse_stars_shape)

lemma glob_segments:
  assumes "glob_to_regex pattern = Inr ps" and "clean_path path"
  shows "glob_match ps path \<longleftrightarrow> segments_match (split_on CHR ''/'' pattern) (split_on CHR ''/'' path)"
proof -
  let ?ss = "collapse_stars (split_on CHR ''/'' pattern)" and ?qs = "split_on CHR ''/'' path"
  from assms(1) have go: "glob_parts False False ?ss = Inr ps" by (simp add: glob_to_regex_def split: if_splits)
  have sf: "\<forall>s \<in> set ?ss. CHR ''/'' \<notin> set s" using split_on_pieces by (auto simp: collapse_stars_shape)
  have ne: "?ss \<noteq> []" by (rule collapse_stars_shape(3)) simp
  have "clean_segments ?qs" "?qs \<noteq> []" using assms(2) by (simp_all add: clean_path_def)
  with glob_parts_match [OF go sf collapse_stars_shape(1)] ne
  have "glob_match ps (slash_joined ?qs) = segments_match ?ss ?qs" by simp
  then show ?thesis by (simp add: split_on_join collapse_stars_def collapse_match)
qed

end
