(* ===== verification/SourceConfig.thy ===== *)
theory SourceConfig
  imports SourceGlob BuildTables BuildSources
begin

text \<open>
  The declarative source configuration: its schema (\<open>domain/source_config.py\<close>), its loading and the
  construction of connectors (\<open>connectors/config_loader.py\<close>, \<open>source_connector.py\<close>) and the checks before a
  build (\<open>config_validator.py\<close>). YAML and pydantic's typing of the parsed data are arguments; what the code
  declares on top of the types (patterns, minimum lengths, validators, defaults) is written out. The
  environment is a partial map, the workspace a tree of directories. An em dash of a message is a hyphen.
\<close>

section \<open>The schema\<close>

record path_select =
  pl_include :: "string list"
  pl_exclude :: "string list"

datatype source_kind =
    GithubCode path_select string string
  | GithubDoc path_select string string
  | AzureWiki path_select string string string
  | AdoCard string string "string option" "string list" "string list" "string list"

text \<open>\<open>sp_acl\<close> is \<open>None\<close> when \<open>acl_teams\<close> is not in \<open>model_fields_set\<close>.\<close>

record source_spec =
  sp_name :: string
  sp_enabled :: bool
  sp_acl :: "string list option"
  sp_auth :: "string option"
  sp_public :: bool
  sp_kind :: source_kind

record source_config =
  cg_version :: int
  cg_default_acl :: "string list"
  cg_git :: "string option option"
  cg_sources :: "source_spec list"

definition spec_type :: "source_spec \<Rightarrow> string" where
  "spec_type spec = (case sp_kind spec of GithubCode _ _ _ \<Rightarrow> ''github_code'' | GithubDoc _ _ _ \<Rightarrow> ''github_doc''
     | AzureWiki _ _ _ _ \<Rightarrow> ''azure_wiki'' | AdoCard _ _ _ _ _ _ \<Rightarrow> ''ado_card'')"

definition spec_select :: "source_spec \<Rightarrow> path_select option" where
  "spec_select spec = (case sp_kind spec of GithubCode ps _ _ \<Rightarrow> Some ps | GithubDoc ps _ _ \<Rightarrow> Some ps
     | AzureWiki ps _ _ _ \<Rightarrow> Some ps | AdoCard _ _ _ _ _ _ \<Rightarrow> None)"

definition spec_acl_teams :: "source_spec \<Rightarrow> string list" where
  "spec_acl_teams spec = (case sp_acl spec of Some xs \<Rightarrow> xs | None \<Rightarrow> [])"

subsection \<open>Patterns\<close>

text \<open>White space of the regular expressions of pydantic-core.\<close>

definition rust_space :: "char \<Rightarrow> bool" where
  "rust_space c \<longleftrightarrow> code c \<in> {9, 10, 11, 12, 13, 32, 133, 160}"

definition is_upper :: "char \<Rightarrow> bool" where "is_upper c \<longleftrightarrow> 65 \<le> code c \<and> code c \<le> 90"
definition is_lower :: "char \<Rightarrow> bool" where "is_lower c \<longleftrightarrow> 97 \<le> code c \<and> code c \<le> 122"
definition is_num :: "char \<Rightarrow> bool" where "is_num c \<longleftrightarrow> 48 \<le> code c \<and> code c \<le> 57"

definition alnum_char :: "char \<Rightarrow> bool" where
  "alnum_char c \<longleftrightarrow> is_upper c \<or> is_lower c \<or> is_num c"

definition headed :: "(char \<Rightarrow> bool) \<Rightarrow> (char \<Rightarrow> bool) \<Rightarrow> nat option \<Rightarrow> string \<Rightarrow> bool" where
  "headed p q most s = (case s of [] \<Rightarrow> False
     | c # r \<Rightarrow> p c \<and> list_all q r \<and> (case most of None \<Rightarrow> True | Some n \<Rightarrow> length r \<le> n))"

definition name_pattern :: "string \<Rightarrow> bool" where
  "name_pattern = headed (\<lambda>c. is_lower c \<or> is_num c) (\<lambda>c. is_lower c \<or> is_num c \<or> c \<in> set ''._-'') (Some 63)"

definition token_env_pattern :: "string \<Rightarrow> bool" where
  "token_env_pattern = headed is_upper (\<lambda>c. is_upper c \<or> is_num c \<or> c = CHR ''_'') None"

definition repo_pattern :: "string \<Rightarrow> bool" where
  "repo_pattern s = (case split_on CHR ''/'' s of
     [owner, repo] \<Rightarrow> owner \<noteq> [] \<and> repo \<noteq> [] \<and> \<not> list_ex rust_space s
   | _ \<Rightarrow> False)"

definition ado_org_pattern :: "string \<Rightarrow> bool" where
  "ado_org_pattern = headed alnum_char (\<lambda>c. alnum_char c \<or> c = CHR ''-'') (Some 62)"

definition ado_name_pattern :: "string \<Rightarrow> bool" where
  "ado_name_pattern = headed alnum_char (\<lambda>c. alnum_char c \<or> c \<in> set '' ._-'') (Some 127)"

definition ado_area_path_pattern :: "string \<Rightarrow> bool" where
  "ado_area_path_pattern s \<longleftrightarrow> s \<noteq> [] \<and> length s \<le> 255
     \<and> list_all (\<lambda>c. alnum_char c \<or> c \<in> set ('' ._-'' @ [CHR 0x5C])) s"

definition patterns_compile :: "string list \<Rightarrow> bool" where
  "patterns_compile ps \<longleftrightarrow> list_all (\<lambda>p. case glob_to_regex p of Inl _ \<Rightarrow> False | Inr _ \<Rightarrow> True) ps"

definition select_valid :: "path_select \<Rightarrow> bool" where
  "select_valid ps \<longleftrightarrow> pl_include ps \<noteq> [] \<and> patterns_compile (pl_include ps) \<and> patterns_compile (pl_exclude ps)"

definition kind_valid :: "source_kind \<Rightarrow> bool" where
  "kind_valid k = (case k of
     GithubCode ps repo _ \<Rightarrow> select_valid ps \<and> repo_pattern repo
   | GithubDoc ps repo _ \<Rightarrow> select_valid ps \<and> repo_pattern repo
   | AzureWiki ps org project wiki \<Rightarrow>
       select_valid ps \<and> ado_org_pattern org \<and> ado_name_pattern project \<and> ado_name_pattern wiki
   | AdoCard org project area _ _ _ \<Rightarrow>
       ado_org_pattern org \<and> ado_name_pattern project \<and> (case area of None \<Rightarrow> True | Some a \<Rightarrow> ado_area_path_pattern a))"

definition spec_valid :: "source_spec \<Rightarrow> bool" where
  "spec_valid spec \<longleftrightarrow> name_pattern (sp_name spec) \<and> pred_option token_env_pattern (sp_auth spec)
     \<and> kind_valid (sp_kind spec)"

subsection \<open>The whole configuration\<close>

text \<open>The first name that was seen before.\<close>

fun duplicate_name :: "string set \<Rightarrow> source_spec list \<Rightarrow> string option" where
  "duplicate_name seen [] = None"
| "duplicate_name seen (spec # specs) =
     (if sp_name spec \<in> seen then Some (sp_name spec) else duplicate_name (insert (sp_name spec) seen) specs)"

definition names_unique :: "source_config \<Rightarrow> bool" where
  "names_unique cfg \<longleftrightarrow> duplicate_name {} (cg_sources cfg) = None"

definition apply_defaults :: "source_config \<Rightarrow> source_config" where
  "apply_defaults cfg =
     (if cg_default_acl cfg = [] then cfg
      else cfg\<lparr>cg_sources := map (\<lambda>spec. if sp_acl spec \<noteq> None then spec
                 else spec\<lparr>sp_acl := Some (cg_default_acl cfg)\<rparr>) (cg_sources cfg)\<rparr>)"

text \<open>\<open>SourceConfig.model_validate\<close> on typed data; \<open>None\<close> is a \<open>ValidationError\<close>.\<close>

definition validate_model :: "source_config \<Rightarrow> source_config option" where
  "validate_model cfg =
     (if cg_version cfg = 1 \<and> cg_sources cfg \<noteq> [] \<and> list_all spec_valid (cg_sources cfg)
         \<and> (case cg_git cfg of Some (Some repo) \<Rightarrow> repo_pattern repo | _ \<Rightarrow> True)
         \<and> names_unique cfg
      then Some (apply_defaults cfg) else None)"

lemma duplicate_name_iff:
  "duplicate_name seen specs = None \<longleftrightarrow> distinct (map sp_name specs) \<and> sp_name ` set specs \<inter> seen = {}"
  by (induction specs arbitrary: seen) auto

lemma names_unique_iff: "names_unique cfg \<longleftrightarrow> distinct (map sp_name (cg_sources cfg))"
  by (simp add: names_unique_def duplicate_name_iff)

lemma patterns_compile_iff: "patterns_compile ps \<longleftrightarrow> (\<forall>p \<in> set ps. \<exists>g. glob_to_regex p = Inr g)"
proof -
  have "(case r of Inl (_ :: glob_error) \<Rightarrow> False | Inr _ \<Rightarrow> True) \<longleftrightarrow> (\<exists>g. r = Inr g)" for r :: "glob_error + glob_part list"
    by (cases r) auto
  then show ?thesis by (simp add: patterns_compile_def list_all_iff)
qed

section \<open>Loading\<close>

text \<open>\<open>repr\<close> of a text.\<close>

definition repr_char :: "char \<Rightarrow> char \<Rightarrow> string" where
  "repr_char q c =
     (if c = q \<or> c = CHR 0x5C then [CHR 0x5C, c]
      else if c = CHR 0x0A then [CHR 0x5C, CHR ''n'']
      else if c = CHR 0x0D then [CHR 0x5C, CHR ''r'']
      else if c = CHR 0x09 then [CHR 0x5C, CHR ''t'']
      else if code c < 32 \<or> (127 \<le> code c \<and> code c \<le> 160) \<or> code c = 173 then [CHR 0x5C, CHR ''x''] @ hex_digits 2 (code c)
      else [c])"

definition py_repr :: "string \<Rightarrow> string" where
  "py_repr s = (let q = (if CHR 0x27 \<in> set s \<and> CHR 0x22 \<notin> set s then CHR 0x22 else CHR 0x27)
     in [q] @ concat (map (repr_char q) s) @ [q])"

datatype loc_part = LocKey string | LocIndex nat

definition loc_str :: "loc_part \<Rightarrow> string" where
  "loc_str p = (case p of LocKey k \<Rightarrow> k | LocIndex n \<Rightarrow> nat_str n)"

definition error_prefix :: "(string, json) dict \<Rightarrow> loc_part list \<Rightarrow> string" where
  "error_prefix data loc = (case loc of
     LocKey k # LocIndex n # _ \<Rightarrow>
       if k \<noteq> ''sources'' then []
       else (case map_of data ''sources'' of
           Some (JArr entries) \<Rightarrow>
             (if n < length entries
              then (case entries ! n of
                  JObj kvs \<Rightarrow> (case map_of kvs ''name'' of
                      Some (JStr name) \<Rightarrow> ''source '' @ py_repr name @ '' ''
                    | _ \<Rightarrow> ''source #'' @ nat_str n @ '' '')
                | _ \<Rightarrow> ''source #'' @ nat_str n @ '' '')
              else ''source #'' @ nat_str n @ '' '')
         | _ \<Rightarrow> ''source #'' @ nat_str n @ '' '')
   | _ \<Rightarrow> [])"

definition format_validation_error :: "string \<Rightarrow> (string, json) dict \<Rightarrow> (loc_part list \<times> string) list \<Rightarrow> string" where
  "format_validation_error path data errors =
     py_join [CHR 0x0A] ((''invalid source config '' @ path @ '':'')
       # map (\<lambda>(loc, msg). ''  '' @ error_prefix data loc @ ''at '' @ py_join ''.'' (map loc_str loc) @ '': '' @ msg) errors)"

text \<open>
  What is read and parsed: the file's text or the error of reading it, YAML's value or its error, pydantic's
  typing of a mapping or its errors, and its description of a constraint that fails.
\<close>

record config_reader =
  cr_read :: "string + string"
  cr_yaml :: "string \<Rightarrow> string + json"
  cr_typed :: "(string, json) dict \<Rightarrow> (loc_part list \<times> string) list + source_config"
  cr_explain :: "source_config \<Rightarrow> (loc_part list \<times> string) list"

definition load_source_config :: "config_reader \<Rightarrow> string \<Rightarrow> exn + source_config" where
  "load_source_config cr path =
     (case cr_read cr of
        Inl err \<Rightarrow> Inl (SourceConfigError (''cannot read source config '' @ path @ '': '' @ err))
      | Inr raw_text \<Rightarrow> (case cr_yaml cr raw_text of
          Inl err \<Rightarrow> Inl (SourceConfigError (''invalid YAML in '' @ path @ '': '' @ err))
        | Inr (JObj data) \<Rightarrow> (case cr_typed cr data of
            Inl errors \<Rightarrow> Inl (SourceConfigError (format_validation_error path data errors))
          | Inr typed \<Rightarrow> (case validate_model typed of
              None \<Rightarrow> Inl (SourceConfigError (format_validation_error path data (cr_explain cr typed)))
            | Some cfg \<Rightarrow> Inr cfg))
        | Inr _ \<Rightarrow> Inl (SourceConfigError (path @ '': top level must be a mapping''))))"

section \<open>Connectors\<close>

record fetch_backend =
  fb_list :: "exn + source_ref list"
  fb_text :: "source_ref \<Rightarrow> exn + string"

definition spec_filter :: "source_spec \<Rightarrow> (string \<Rightarrow> bool) option" where
  "spec_filter spec = (let ps = (case spec_select spec of Some ps \<Rightarrow> ps | None \<Rightarrow> \<lparr>pl_include = [''**''], pl_exclude = []\<rparr>)
     in case (those (map (\<lambda>p. case glob_to_regex p of Inl _ \<Rightarrow> None | Inr g \<Rightarrow> Some g) (pl_include ps)),
              those (map (\<lambda>p. case glob_to_regex p of Inl _ \<Rightarrow> None | Inr g \<Rightarrow> Some g) (pl_exclude ps))) of
          (Some inc, Some exc) \<Rightarrow> Some (path_filter_matches inc exc)
        | _ \<Rightarrow> None)"

definition keeps_ref :: "(string \<Rightarrow> bool) \<Rightarrow> source_ref \<Rightarrow> bool" where
  "keeps_ref pf ref = (case rf_path ref of None \<Rightarrow> True | Some p \<Rightarrow> pf p)"

definition filtered_backend :: "fetch_backend \<Rightarrow> (string \<Rightarrow> bool) \<Rightarrow> string list \<Rightarrow> fetch_backend" where
  "filtered_backend inner pf acl =
     \<lparr>fb_list = map_sum id (\<lambda>refs. map (\<lambda>r. r\<lparr>rf_acl := acl\<rparr>) (filter (keeps_ref pf) refs)) (fb_list inner),
      fb_text = fb_text inner\<rparr>"

definition connector_normalize :: "string \<Rightarrow> string \<Rightarrow> string" where
  "connector_normalize ty raw = (if ty = ''github_code'' then normalize_code raw else normalize_text raw)"

definition checked_sources :: "string \<Rightarrow> exn + source_ref list \<Rightarrow> exn + source_ref list" where
  "checked_sources ty listed = (case listed of Inl e \<Rightarrow> Inl e
     | Inr refs \<Rightarrow> if list_all (\<lambda>r. rf_type r = ty) refs then Inr refs else Inl ValueError)"

definition connector_fetch :: "string \<Rightarrow> fetch_backend \<Rightarrow> source_ref \<Rightarrow> exn + content" where
  "connector_fetch ty b ref = (case fb_text b ref of Inl e \<Rightarrow> Inl e
     | Inr raw \<Rightarrow> let t = connector_normalize ty raw in Inr \<lparr>ct_source = ref, ct_text = t, ct_hash = content_hash t\<rparr>)"

definition base_connector :: "string \<Rightarrow> fetch_backend \<Rightarrow> connector" where
  "base_connector ty b =
     \<lparr>cn_type = ty, cn_list = checked_sources ty (fb_list b), cn_fetch = connector_fetch ty b\<rparr>"

definition resolve_token :: "(string \<Rightarrow> string option) \<Rightarrow> source_spec \<Rightarrow> exn + string option" where
  "resolve_token environ spec = (case sp_auth spec of None \<Rightarrow> Inr None
     | Some token_env \<Rightarrow> (case environ token_env of
         None \<Rightarrow> Inl (SourceConfigError (''source '' @ py_repr (sp_name spec) @ '': auth.token_env '' @ token_env
                       @ '' is not set in the environment''))
       | Some v \<Rightarrow> Inr (Some v)))"

definition locally_fetchable :: "source_spec \<Rightarrow> bool" where
  "locally_fetchable spec = (case sp_kind spec of GithubCode _ _ _ \<Rightarrow> True | GithubDoc _ _ _ \<Rightarrow> True | _ \<Rightarrow> False)"

type_synonym backend_factory = "source_spec \<Rightarrow> string option \<Rightarrow> exn + fetch_backend"

text \<open>A pattern that does not compile is a \<open>GlobError\<close>, which is a \<open>ValueError\<close>.\<close>

definition connector_of :: "backend_factory \<Rightarrow> bool \<Rightarrow> (string \<Rightarrow> string option) \<Rightarrow> source_spec \<Rightarrow> exn + connector" where
  "connector_of factory authenticates environ spec =
     (case (if authenticates then resolve_token environ spec else Inr None) of
        Inl e \<Rightarrow> Inl e
      | Inr token \<Rightarrow> (case factory spec token of
          Inl e \<Rightarrow> Inl e
        | Inr b \<Rightarrow> (case spec_filter spec of
            None \<Rightarrow> Inl ValueError
          | Some pf \<Rightarrow> Inr (base_connector (spec_type spec) (filtered_backend b pf (spec_acl_teams spec))))))"

definition served_source :: "bool \<Rightarrow> source_spec \<Rightarrow> bool" where
  "served_source locally_only spec \<longleftrightarrow> sp_enabled spec \<and> (locally_only \<longrightarrow> locally_fetchable spec)"

definition connectors_from_config :: "backend_factory \<Rightarrow> bool \<Rightarrow> bool \<Rightarrow> (string \<Rightarrow> string option) \<Rightarrow> source_config
    \<Rightarrow> exn + connector list" where
  "connectors_from_config factory authenticates locally_only environ cfg =
     mapE (connector_of factory authenticates environ) (filter (served_source locally_only) (cg_sources cfg))"

definition github_repos :: "source_config \<Rightarrow> string list" where
  "github_repos cfg = remdups (concat (map (\<lambda>spec. if sp_enabled spec
     then (case sp_kind spec of GithubCode _ repo _ \<Rightarrow> [repo] | GithubDoc _ repo _ \<Rightarrow> [repo] | _ \<Rightarrow> []) else [])
     (cg_sources cfg)))"

definition resolve_git_metadata_repo :: "source_config \<Rightarrow> string option" where
  "resolve_git_metadata_repo cfg = (case cg_git cfg of
     Some (Some repo) \<Rightarrow> Some repo
   | _ \<Rightarrow> (case github_repos cfg of [repo] \<Rightarrow> Some repo | _ \<Rightarrow> None))"

section \<open>Checks before a build\<close>

text \<open>A directory's entries by name.\<close>

datatype fs_node = FsFile string | FsDir "(string \<times> fs_node) list"

definition PRUNE_DIRS :: "string set" where
  "PRUNE_DIRS = {''.git'', ''.venv'', ''venv'', ''node_modules'', ''__pycache__'', ''.mypy_cache'', ''.pytest_cache'',
     ''.ruff_cache'', ''.kb-local-search-index.json''}"

text \<open>The relative paths of the files \<open>os.walk\<close> meets, as segments.\<close>

fun walk_files :: "string set \<Rightarrow> fs_node \<Rightarrow> string list list" where
  "walk_files prune (FsFile _) = [[]]"
| "walk_files prune (FsDir es) = concat (map (\<lambda>(name, n). case n of
     FsFile _ \<Rightarrow> [[name]]
   | FsDir _ \<Rightarrow> if name \<in> prune then [] else map ((#) name) (walk_files prune n)) es)"

definition any_local_match :: "fs_node \<Rightarrow> source_spec \<Rightarrow> bool" where
  "any_local_match ws spec = (case spec_filter spec of None \<Rightarrow> False
     | Some pf \<Rightarrow> list_ex (\<lambda>ps. pf (py_join ''/'' ps)) (walk_files PRUNE_DIRS ws))"

datatype issue_severity = SevError | SevWarning

datatype issue_message =
    WorkspaceMissing
  | NoTokenEnv string
  | TokenUnset string
  | PublicWithAuth
  | NotLocal string
  | NoLocalMatch "string list"

record validation_issue =
  vi_severity :: issue_severity
  vi_source :: string
  vi_message :: issue_message

definition type_text :: "string \<Rightarrow> string" where "type_text ty = ''type '' @ py_repr ty"

definition issue_text :: "string \<Rightarrow> issue_message \<Rightarrow> string" where
  "issue_text workspace m = (case m of
     WorkspaceMissing \<Rightarrow> ''--workspace path does not exist: '' @ workspace
   | NoTokenEnv ty \<Rightarrow> type_text ty @ '' has no auth.token_env - it would send no token, and a ''
       @ ''private repo/org returns 404 (not 403). Add `auth: {token_env: <ENV>}`, or ''
       @ ''set `public: true` if this source is genuinely public.''
   | TokenUnset token_env \<Rightarrow> ''auth.token_env '' @ token_env @ '' is not set in the build environment ''
       @ ''(export it or `source` your .env before building).''
   | PublicWithAuth \<Rightarrow> ''marked `public: true` but also sets auth - the token will be sent anyway.''
   | NotLocal ty \<Rightarrow> type_text ty @ '' is not fetchable by --backend local (it reads workspace ''
       @ ''files only) and will be skipped - use --backend production to ingest it.''
   | NoLocalMatch inc \<Rightarrow> ''include globs ['' @ py_join '', '' (map py_repr inc) @ ''] match no files under '' @ workspace
       @ '' - check the paths (build will produce nothing for this source).'')"

definition render_issue :: "string \<Rightarrow> validation_issue \<Rightarrow> string" where
  "render_issue workspace i =
     ''['' @ (case vi_severity i of SevError \<Rightarrow> ''error'' | SevWarning \<Rightarrow> ''warning'') @ ''] ''
     @ (if vi_source i = [] then [] else ''source '' @ py_repr (vi_source i) @ '': '') @ issue_text workspace (vi_message i)"

definition has_errors :: "validation_issue list \<Rightarrow> bool" where
  "has_errors issues \<longleftrightarrow> list_ex (\<lambda>i. vi_severity i = SevError) issues"

definition is_dir :: "fs_node option \<Rightarrow> bool" where
  "is_dir w = (case w of Some (FsDir _) \<Rightarrow> True | _ \<Rightarrow> False)"

definition validate_production_source :: "(string \<Rightarrow> string option) \<Rightarrow> source_spec \<Rightarrow> validation_issue list" where
  "validate_production_source environ spec = (case sp_auth spec of
     None \<Rightarrow> if sp_public spec then []
       else [\<lparr>vi_severity = SevError, vi_source = sp_name spec, vi_message = NoTokenEnv (spec_type spec)\<rparr>]
   | Some token_env \<Rightarrow>
       (if environ token_env \<in> {None, Some []}
        then [\<lparr>vi_severity = SevError, vi_source = sp_name spec, vi_message = TokenUnset token_env\<rparr>] else [])
       @ (if sp_public spec then [\<lparr>vi_severity = SevWarning, vi_source = sp_name spec, vi_message = PublicWithAuth\<rparr>] else []))"

definition validate_local_source :: "fs_node option \<Rightarrow> source_spec \<Rightarrow> validation_issue list" where
  "validate_local_source workspace spec =
     (if \<not> locally_fetchable spec
      then [\<lparr>vi_severity = SevWarning, vi_source = sp_name spec, vi_message = NotLocal (spec_type spec)\<rparr>]
      else (case workspace of
        Some (FsDir es) \<Rightarrow> (case spec_select spec of
            Some ps \<Rightarrow> if any_local_match (FsDir es) spec then []
              else [\<lparr>vi_severity = SevWarning, vi_source = sp_name spec, vi_message = NoLocalMatch (pl_include ps)\<rparr>]
          | None \<Rightarrow> [])
      | _ \<Rightarrow> []))"

definition validate_source_config :: "string \<Rightarrow> (string \<Rightarrow> string option) \<Rightarrow> fs_node option \<Rightarrow> source_config
    \<Rightarrow> validation_issue list" where
  "validate_source_config backend environ workspace cfg =
     (if backend = ''local'' \<and> \<not> is_dir workspace
      then [\<lparr>vi_severity = SevError, vi_source = [], vi_message = WorkspaceMissing\<rparr>] else [])
     @ concat (map (\<lambda>spec. if \<not> sp_enabled spec then []
         else if backend = ''production'' then validate_production_source environ spec
         else validate_local_source workspace spec) (cg_sources cfg))"

section \<open>What a connector lists\<close>

lemma those_Some_iff: "those xs = Some ys \<longleftrightarrow> xs = map Some ys"
proof (induction xs arbitrary: ys)
  case (Cons x xs)
  then show ?case by (cases x; cases ys) auto
qed auto

lemma those_total: "(\<exists>ys. those xs = Some ys) \<longleftrightarrow> None \<notin> set xs"
proof (induction xs)
  case (Cons x xs)
  then show ?case by (cases x) auto
qed simp

text \<open>The filter of a source in terms of the segments of its patterns.\<close>

definition in_scope :: "source_spec \<Rightarrow> string \<Rightarrow> bool" where
  "in_scope spec path \<longleftrightarrow> (case spec_select spec of None \<Rightarrow> True
     | Some ps \<Rightarrow> (let hit = (\<lambda>p. segments_match (split_on CHR ''/'' p) (split_on CHR ''/'' path)) in
         list_ex hit (pl_include ps) \<and> \<not> list_ex hit (pl_exclude ps)))"

definition compiled :: "string \<Rightarrow> glob_part list option" where
  "compiled p = (case glob_to_regex p of Inl _ \<Rightarrow> None | Inr g \<Rightarrow> Some g)"

lemma compiled_match:
  assumes "map compiled pats = map Some gs" and "clean_path path"
  shows "list_ex (\<lambda>g. glob_match g path) gs
     \<longleftrightarrow> list_ex (\<lambda>p. segments_match (split_on CHR ''/'' p) (split_on CHR ''/'' path)) pats"
  using assms(1)
proof (induction pats arbitrary: gs)
  case (Cons p pats)
  then obtain g gs' where gs: "gs = g # gs'" "compiled p = Some g" "map compiled pats = map Some gs'" by auto
  then have "glob_to_regex p = Inr g" by (auto simp: compiled_def split: sum.splits)
  from glob_segments [OF this assms(2)] Cons.IH [OF gs(3)] gs(1) show ?case by simp
qed simp

lemma spec_filter_parts:
  assumes "spec_filter spec = Some pf"
  obtains inc exc where "pf = path_filter_matches inc exc"
    and "\<And>ps. spec_select spec = Some ps \<Longrightarrow> map compiled (pl_include ps) = map Some inc \<and> map compiled (pl_exclude ps) = map Some exc"
    and "spec_select spec = None \<Longrightarrow> map compiled [''**''] = map Some inc \<and> exc = []"
proof -
  let ?ps = "case spec_select spec of Some ps \<Rightarrow> ps | None \<Rightarrow> \<lparr>pl_include = [''**''], pl_exclude = []\<rparr>"
  from assms obtain inc exc where "pf = path_filter_matches inc exc"
    "map compiled (pl_include ?ps) = map Some inc" "map compiled (pl_exclude ?ps) = map Some exc"
    unfolding spec_filter_def Let_def compiled_def [abs_def] by (auto simp: those_Some_iff split: option.splits)
  then show ?thesis by (intro that [of inc exc]) auto
qed

lemma spec_filter_scope:
  assumes "spec_filter spec = Some pf" and "clean_path path"
  shows "pf path \<longleftrightarrow> in_scope spec path"
proof (rule spec_filter_parts [OF assms(1)])
  fix inc exc
  assume pf: "pf = path_filter_matches inc exc"
    and some: "\<And>ps. spec_select spec = Some ps \<Longrightarrow> map compiled (pl_include ps) = map Some inc \<and> map compiled (pl_exclude ps) = map Some exc"
    and none: "spec_select spec = None \<Longrightarrow> map compiled [''**''] = map Some inc \<and> exc = []"
  show ?thesis
  proof (cases "spec_select spec")
    case None
    from none [OF None] compiled_match [OF _ assms(2), of "[''**'']" inc]
    show ?thesis using None by (simp add: pf path_filter_matches_def in_scope_def path_match_stars del: segments_match.simps)
  next
    case (Some ps)
    from some [OF Some] compiled_match [OF _ assms(2), of "pl_include ps" inc]
      compiled_match [OF _ assms(2), of "pl_exclude ps" exc]
    show ?thesis using Some by (simp add: pf path_filter_matches_def in_scope_def Let_def)
  qed
qed

lemma spec_filter_total:
  assumes "kind_valid (sp_kind spec)" shows "\<exists>pf. spec_filter spec = Some pf"
proof -
  have total: "\<exists>gs. those (map compiled pats) = Some gs" if "patterns_compile pats" for pats
    using that unfolding those_total patterns_compile_iff by (force simp: compiled_def)
  have stars: "patterns_compile [''**'']" by (simp add: patterns_compile_def glob_to_regex_def collapse_stars_def collapse_step_def)
  let ?ps = "case spec_select spec of Some ps \<Rightarrow> ps | None \<Rightarrow> \<lparr>pl_include = [''**''], pl_exclude = []\<rparr>"
  have "patterns_compile (pl_include ?ps) \<and> patterns_compile (pl_exclude ?ps)"
    using assms stars by (auto simp: kind_valid_def spec_select_def select_valid_def patterns_compile_def split: source_kind.splits)
  then obtain inc exc where "those (map compiled (pl_include ?ps)) = Some inc" "those (map compiled (pl_exclude ?ps)) = Some exc"
    using total by blast
  then show ?thesis unfolding spec_filter_def Let_def compiled_def [abs_def] by simp
qed

end
