(* ===== verification/SourceFacts.thy ===== *)
theory SourceFacts
  imports SourceConfig
begin

text \<open>
  What the configuration guarantees about the connectors made from it, for every factory of fetch backends
  that keeps the contract \<open>backend_contract\<close>, and what the checks before a build guarantee about their making.
\<close>

section \<open>Loaded configurations\<close>

lemma apply_defaults_sources:
  "spec \<in> set (cg_sources (apply_defaults cfg)) \<Longrightarrow>
     \<exists>s \<in> set (cg_sources cfg). sp_kind spec = sp_kind s \<and> sp_name spec = sp_name s \<and> sp_auth spec = sp_auth s"
  by (auto simp: apply_defaults_def split: if_splits)

lemma apply_defaults_names: "map sp_name (cg_sources (apply_defaults cfg)) = map sp_name (cg_sources cfg)"
  by (simp add: apply_defaults_def)

text \<open>After the defaults, a source without teams of its own has the configured ones.\<close>

lemma apply_defaults_acl:
  "map spec_acl_teams (cg_sources (apply_defaults cfg)) =
   map (\<lambda>s. case sp_acl s of Some xs \<Rightarrow> xs | None \<Rightarrow> cg_default_acl cfg) (cg_sources cfg)"
  by (auto simp: apply_defaults_def spec_acl_teams_def split: option.splits)

lemma load_Inr:
  assumes "load_source_config cr path = Inr cfg"
  obtains typed where "cfg = apply_defaults typed" and "list_all spec_valid (cg_sources typed)" and "names_unique typed"
    and "cg_sources typed \<noteq> []"
  using assms by (auto simp: load_source_config_def validate_model_def split: sum.splits json.splits option.splits if_splits)

lemma loaded_kind_valid:
  assumes "load_source_config cr path = Inr cfg" and "spec \<in> set (cg_sources cfg)"
  shows "kind_valid (sp_kind spec)"
proof (rule load_Inr [OF assms(1)])
  fix typed
  assume "cfg = apply_defaults typed" and valid: "list_all spec_valid (cg_sources typed)"
  with assms(2) obtain s where "s \<in> set (cg_sources typed)" "sp_kind spec = sp_kind s"
    using apply_defaults_sources by blast
  with valid show ?thesis by (auto simp: list_all_iff spec_valid_def)
qed

text \<open>Names stay keys, so that a log or an issue names one source.\<close>

lemma loaded_names_distinct:
  assumes "load_source_config cr path = Inr cfg" shows "distinct (map sp_name (cg_sources cfg))"
  by (rule load_Inr [OF assms]) (simp add: apply_defaults_names names_unique_iff)

text \<open>Every failure of loading is a \<open>SourceConfigError\<close>.\<close>

lemma load_error: "load_source_config cr path = Inl e \<Longrightarrow> \<exists>m. e = SourceConfigError m"
  by (auto simp: load_source_config_def split: sum.splits json.splits option.splits)

section \<open>The contract of a factory\<close>

text \<open>What a ref must satisfy to be one of a source.\<close>

definition ref_of :: "source_spec \<Rightarrow> source_ref \<Rightarrow> bool" where
  "ref_of spec r \<longleftrightarrow> rf_type r = spec_type spec \<and> rf_acl r = spec_acl_teams spec
     \<and> (\<forall>p. rf_path r = Some p \<longrightarrow> clean_path p \<longrightarrow> in_scope spec p)"

locale backend_contract =
  fixes factory :: backend_factory and accepts :: "source_spec \<Rightarrow> bool"
  assumes builds: "(\<exists>b. factory spec token = Inr b) \<longleftrightarrow> accepts spec"
    and lists_type: "factory spec token = Inr b \<Longrightarrow> fb_list b = Inr refs \<Longrightarrow> r \<in> set refs \<Longrightarrow> rf_type r = spec_type spec"
begin

lemma connector_Inr:
  assumes "connector_of factory authenticates environ spec = Inr cn"
  obtains token b pf where "factory spec token = Inr b" and "spec_filter spec = Some pf"
    and "cn = base_connector (spec_type spec) (filtered_backend b pf (spec_acl_teams spec))"
  using assms by (auto simp: connector_of_def split: sum.splits option.splits if_splits)

text \<open>A connector's list is its backend's, filtered and stamped: the check of the type never raises.\<close>

lemma connector_list:
  assumes "factory spec token = Inr b"
  shows "cn_list (base_connector (spec_type spec) (filtered_backend b pf acl))
    = map_sum id (\<lambda>refs. map (\<lambda>r. r\<lparr>rf_acl := acl\<rparr>) (filter (keeps_ref pf) refs)) (fb_list b)"
proof (cases "fb_list b")
  case (Inr refs)
  then have "list_all (\<lambda>r. rf_type r = spec_type spec) (map (\<lambda>r. r\<lparr>rf_acl := acl\<rparr>) (filter (keeps_ref pf) refs))"
    using lists_type [OF assms Inr] by (simp add: list_all_iff)
  with Inr show ?thesis by (simp add: base_connector_def checked_sources_def filtered_backend_def)
qed (simp add: base_connector_def checked_sources_def filtered_backend_def)

lemma connector_refs:
  assumes "connector_of factory authenticates environ spec = Inr cn" and "cn_list cn = Inr refs" and "r \<in> set refs"
  shows "ref_of spec r"
proof (rule connector_Inr [OF assms(1)])
  fix token b pf
  assume b: "factory spec token = Inr b" and pf: "spec_filter spec = Some pf"
    and cn: "cn = base_connector (spec_type spec) (filtered_backend b pf (spec_acl_teams spec))"
  from assms(2) obtain rs where rs: "fb_list b = Inr rs"
    and refs: "refs = map (\<lambda>r. r\<lparr>rf_acl := spec_acl_teams spec\<rparr>) (filter (keeps_ref pf) rs)"
    unfolding cn connector_list [OF b] by (cases "fb_list b") auto
  from assms(3) obtain s where s: "s \<in> set rs" "keeps_ref pf s" "r = s\<lparr>rf_acl := spec_acl_teams spec\<rparr>"
    unfolding refs by auto
  have "rf_type s = spec_type spec" by (rule lists_type [OF b rs s(1)])
  with s show ?thesis using spec_filter_scope [OF pf] by (cases "rf_path s") (auto simp: ref_of_def keeps_ref_def)
qed

lemma configured_refs:
  assumes "connectors_from_config factory authenticates locally_only environ cfg = Inr cns"
    and "cn \<in> set cns" and "cn_list cn = Inr refs" and "r \<in> set refs"
  shows "\<exists>spec \<in> set (cg_sources cfg). served_source locally_only spec \<and> cn_type cn = spec_type spec \<and> ref_of spec r"
proof -
  from mapE_in [OF assms(1) [unfolded connectors_from_config_def] assms(2)]
  obtain spec where spec: "spec \<in> set (cg_sources cfg)" "served_source locally_only spec"
    "connector_of factory authenticates environ spec = Inr cn" by auto
  from spec(3) have "cn_type cn = spec_type spec" by (rule connector_Inr) (simp add: base_connector_def)
  with spec connector_refs [OF spec(3) assms(3,4)] show ?thesis by blast
qed

lemma connector_total:
  assumes "kind_valid (sp_kind spec)"
  shows "(\<exists>cn. connector_of factory authenticates environ spec = Inr cn)
     \<longleftrightarrow> accepts spec \<and> (authenticates \<longrightarrow> (\<exists>t. resolve_token environ spec = Inr t))"
proof -
  obtain pf where pf: "spec_filter spec = Some pf" using spec_filter_total [OF assms] by blast
  have acc: "accepts spec \<longleftrightarrow> (\<exists>b. factory spec token = Inr b)" for token using builds by simp
  let ?t = "if authenticates then resolve_token environ spec else Inr None"
  have "(\<exists>t. ?t = Inr t) \<longleftrightarrow> (authenticates \<longrightarrow> (\<exists>t. resolve_token environ spec = Inr t))" by simp
  moreover have "(\<exists>cn. connector_of factory authenticates environ spec = Inr cn) \<longleftrightarrow> accepts spec \<and> (\<exists>t. ?t = Inr t)"
  proof (cases ?t)
    case (Inl e)
    then show ?thesis by (simp add: connector_of_def del: if_split_asm)
  next
    case (Inr token)
    then show ?thesis using acc [of token] pf by (cases "factory spec token") (simp_all add: connector_of_def)
  qed
  ultimately show ?thesis by blast
qed

lemma configured_total:
  assumes "\<And>spec. spec \<in> set (cg_sources cfg) \<Longrightarrow> kind_valid (sp_kind spec)"
  shows "(\<exists>cns. connectors_from_config factory authenticates locally_only environ cfg = Inr cns)
    \<longleftrightarrow> (\<forall>spec \<in> set (cg_sources cfg). served_source locally_only spec \<longrightarrow> accepts spec
          \<and> (authenticates \<longrightarrow> (\<exists>t. resolve_token environ spec = Inr t)))"
  unfolding connectors_from_config_def mapE_total
  by (simp add: connector_total [OF assms] cong: ball_cong) blast

end

section \<open>The checks before a production build\<close>

lemma production_issues:
  assumes "\<not> has_errors (validate_source_config ''production'' environ workspace cfg)"
    and "spec \<in> set (cg_sources cfg)" and "sp_enabled spec"
  shows "case sp_auth spec of None \<Rightarrow> sp_public spec | Some v \<Rightarrow> \<exists>t. environ v = Some t \<and> t \<noteq> []"
proof -
  have "\<not> has_errors (validate_production_source environ spec)"
    using assms by (auto simp: has_errors_def validate_source_config_def list_ex_iff)
  then show ?thesis
    by (cases "sp_auth spec"; cases "environ (the (sp_auth spec))")
      (auto simp: validate_production_source_def has_errors_def split: if_splits)
qed

lemma preflight_token:
  assumes "\<not> has_errors (validate_source_config ''production'' environ workspace cfg)"
    and "spec \<in> set (cg_sources cfg)" and "sp_enabled spec"
  shows "\<exists>t. resolve_token environ spec = Inr t \<and> (case t of None \<Rightarrow> sp_public spec | Some v \<Rightarrow> v \<noteq> [])"
  using production_issues [OF assms] by (auto simp: resolve_token_def split: option.splits)

text \<open>The repository of the commits is the one the configuration names, or the only one it fetches.\<close>

lemma git_repo_known:
  assumes "resolve_git_metadata_repo cfg = Some repo" and "cg_git cfg \<noteq> Some (Some repo)"
    and "spec \<in> set (cg_sources cfg)" and "sp_enabled spec" and "locally_fetchable spec"
  shows "\<exists>ps branch. sp_kind spec \<in> {GithubCode ps repo branch, GithubDoc ps repo branch}"
proof -
  from assms(1,2) have one: "github_repos cfg = [repo]"
    by (auto simp: resolve_git_metadata_repo_def split: option.splits list.splits)
  then have "set (github_repos cfg) = {repo}" by simp
  with assms(3-5) show ?thesis
    unfolding github_repos_def locally_fetchable_def by (cases "sp_kind spec") (fastforce split: if_splits)+
qed

end
