(* ===== verification/Connectors.thy ===== *)
theory Connectors
  imports HttpFetch SourceFacts
begin

text \<open>
  The fetch backends: the workspace's files (\<open>connectors/local_fs.py\<close>), GitHub's REST API
  (\<open>connectors/github_rest.py\<close>), Azure DevOps' wikis and work items (\<open>connectors/ado_wiki_backend.py\<close>,
  \<open>ado_work_item_backend.py\<close>) and the factories that choose among them (\<open>production_factory.py\<close>). What a server
  answers to the attempts of a request is an argument, and may be any JSON. \<open>str\<close> of a float, a list or
  an object is an argument.
\<close>

section \<open>Files\<close>

definition SKIP_DIRS :: "string set" where
  "SKIP_DIRS = {''.git'', ''__pycache__'', ''node_modules'', ''.venv'', ''.mypy_cache'', ''.ruff_cache''}"

definition skipped_part :: "string \<Rightarrow> bool" where
  "skipped_part part \<longleftrightarrow> part \<in> SKIP_DIRS \<or> prefix ''.'' part"

text \<open>\<open>sorted(root.rglob(\<dots>))\<close>: every path below the root, in the order of their segments.\<close>

fun tree_paths :: "fs_node \<Rightarrow> (string list \<times> fs_node) list" where
  "tree_paths (FsFile _) = []"
| "tree_paths (FsDir es) = concat (map (\<lambda>(name, n). ([name], n) # map (\<lambda>(ps, m). (name # ps, m)) (tree_paths n)) es)"

definition iter_files :: "fs_node \<Rightarrow> (string list \<times> string) list" where
  "iter_files ws = concat (map (\<lambda>(ps, n). case n of
       FsDir _ \<Rightarrow> []
     | FsFile content \<Rightarrow> if list_ex skipped_part ps then [] else [(ps, content)]) (sort_key fst (tree_paths ws)))"

definition uri_safe :: "nat \<Rightarrow> bool" where
  "uri_safe b \<longleftrightarrow> b < 128 \<and> (alnum_char (char_of b) \<or> char_of b \<in> set ''_.-~/'')"

definition upper_hex :: "nat \<Rightarrow> char" where
  "upper_hex d = char_of (if d < 10 then 48 + d else 55 + d)"

definition url_quote :: "string \<Rightarrow> string" where
  "url_quote s = concat (map (\<lambda>b. if uri_safe b then [char_of b] else [CHR ''%'', upper_hex (b div 16), upper_hex (b mod 16)])
     (map unat (utf8 s)))"

definition spec_repo :: "source_spec \<Rightarrow> string option" where
  "spec_repo spec = (case sp_kind spec of GithubCode _ repo _ \<Rightarrow> Some repo | GithubDoc _ repo _ \<Rightarrow> Some repo | _ \<Rightarrow> None)"

definition spec_branch :: "source_spec \<Rightarrow> string option" where
  "spec_branch spec = (case sp_kind spec of GithubCode _ _ b \<Rightarrow> Some b | GithubDoc _ _ b \<Rightarrow> Some b | _ \<Rightarrow> None)"

definition local_ref :: "string \<Rightarrow> source_spec \<Rightarrow> string \<Rightarrow> string list \<times> string \<Rightarrow> source_ref" where
  "local_ref home spec version f =
     \<lparr>rf_type = spec_type spec, rf_uri = ''file://'' @ url_quote (home @ ''/'' @ py_join ''/'' (fst f)), rf_version = version,
      rf_repo = spec_repo spec, rf_branch = spec_branch spec, rf_path = Some (py_join ''/'' (fst f)),
      rf_external = None, rf_acl = []\<rparr>"

text \<open>Reading the file at a relative path, in text mode: line ends become LF.\<close>

fun tree_lookup :: "string list \<Rightarrow> fs_node \<Rightarrow> fs_node option" where
  "tree_lookup [] n = Some n"
| "tree_lookup (p # ps) (FsFile _) = None"
| "tree_lookup (p # ps) (FsDir es) = (case map_of es p of None \<Rightarrow> None | Some n \<Rightarrow> tree_lookup ps n)"

definition path_parts :: "string \<Rightarrow> string list" where
  "path_parts path = filter (\<lambda>p. p \<noteq> [] \<and> p \<noteq> ''.'') (split_on CHR ''/'' path)"

definition local_fetch_text :: "fs_node \<Rightarrow> source_ref \<Rightarrow> exn + string" where
  "local_fetch_text ws ref =
     (case tree_lookup (path_parts (case rf_path ref of Some p \<Rightarrow> p | None \<Rightarrow> [])) ws of
        Some (FsFile content) \<Rightarrow> Inr (normalize_code content)
      | _ \<Rightarrow> Inl OSError)"

definition local_fs_backend_factory :: "string \<Rightarrow> fs_node \<Rightarrow> string \<Rightarrow> backend_factory" where
  "local_fs_backend_factory home ws version spec token =
     Inr \<lparr>fb_list = Inr (map (local_ref home spec version) (iter_files ws)), fb_text = local_fetch_text ws\<rparr>"

section \<open>Requests to a http_server\<close>

record http_client =
  hc_base :: string
  hc_headers :: "(string, string) dict"
  hc_authenticated :: bool

definition async_http_client :: "string \<Rightarrow> string option \<Rightarrow> (string, string) dict \<Rightarrow> http_client" where
  "async_http_client base auth_header extra_headers =
     (let headers = dict_update_all [(''Accept'', ''application/json'')] extra_headers in
      \<lparr>hc_base = base,
       hc_headers = (case auth_header of None \<Rightarrow> headers | Some h \<Rightarrow> AList.update ''Authorization'' h headers),
       hc_authenticated = (auth_header \<noteq> None)\<rparr>)"

record http_call =
  hq_method :: string
  hq_url :: string
  hq_params :: "(string, string) dict"
  hq_body :: "doc option"

type_synonym http_server = "http_client \<Rightarrow> http_call \<Rightarrow> nat \<Rightarrow> fetch_reply"

definition fetch_response :: "http_server \<Rightarrow> http_client \<Rightarrow> http_call \<Rightarrow> exn + string" where
  "fetch_response srv c q = fst (http_request (hc_authenticated c) (hq_method q) (hq_url q) (srv c q))"

definition get_json :: "http_server \<Rightarrow> http_client \<Rightarrow> string \<Rightarrow> (string, string) dict \<Rightarrow> exn + json" where
  "get_json srv c url params = response_json (fetch_response srv c
     \<lparr>hq_method = ''GET'', hq_url = url, hq_params = params, hq_body = None\<rparr>)"

definition get_text :: "http_server \<Rightarrow> http_client \<Rightarrow> string \<Rightarrow> (string, string) dict \<Rightarrow> exn + string" where
  "get_text srv c url params = fetch_response srv c
     \<lparr>hq_method = ''GET'', hq_url = url, hq_params = params, hq_body = None\<rparr>"

definition client_post_json :: "http_server \<Rightarrow> http_client \<Rightarrow> string \<Rightarrow> doc \<Rightarrow> (string, string) dict \<Rightarrow> exn + json" where
  "client_post_json srv c url body params = response_json (fetch_response srv c
     \<lparr>hq_method = ''POST'', hq_url = url, hq_params = params, hq_body = Some body\<rparr>)"

subsection \<open>Python on JSON values\<close>

abbreviation bindE :: "exn + 'a \<Rightarrow> ('a \<Rightarrow> exn + 'b) \<Rightarrow> exn + 'b" where
  "bindE r f \<equiv> case r of Inl e \<Rightarrow> Inl e | Inr x \<Rightarrow> f x"

text \<open>\<open>j[key]\<close>, \<open>j.get(key)\<close>, \<open>bool(j)\<close>, \<open>int(j)\<close>.\<close>

definition json_item :: "string \<Rightarrow> json \<Rightarrow> exn + json" where
  "json_item key j = (case j of JObj kvs \<Rightarrow> opt_or_raise KeyError (map_of kvs key) | _ \<Rightarrow> Inl TypeError)"

definition json_get :: "string \<Rightarrow> json \<Rightarrow> exn + json option" where
  "json_get key j = (case j of JObj kvs \<Rightarrow> Inr (map_of kvs key) | _ \<Rightarrow> Inl AttributeError)"

definition json_truthy :: "json \<Rightarrow> bool" where
  "json_truthy j = (case j of JNull \<Rightarrow> False | JBool b \<Rightarrow> b | JInt i \<Rightarrow> i \<noteq> 0 | JNum x \<Rightarrow> x \<noteq> 0 | JNonFinite _ \<Rightarrow> True
     | JStr s \<Rightarrow> s \<noteq> [] | JArr js \<Rightarrow> js \<noteq> [] | JObj kvs \<Rightarrow> kvs \<noteq> [])"

definition json_iter :: "json \<Rightarrow> exn + json list" where
  "json_iter j = (case j of JArr js \<Rightarrow> Inr js | JObj kvs \<Rightarrow> Inr (map (\<lambda>(k, v). JStr k) kvs)
     | JStr s \<Rightarrow> Inr (map (\<lambda>c. JStr [c]) s) | _ \<Rightarrow> Inl TypeError)"

text \<open>\<open>j or []\<close>, where \<open>None\<close> is a missing key.\<close>

definition or_empty :: "json option \<Rightarrow> json" where
  "or_empty j = (case j of Some v \<Rightarrow> if json_truthy v then v else JArr [] | None \<Rightarrow> JArr [])"

definition json_int :: "json \<Rightarrow> exn + int" where
  "json_int j = (case j of JInt i \<Rightarrow> Inr i | JBool b \<Rightarrow> Inr (if b then 1 else 0)
     | JNum x \<Rightarrow> Inr (if x < 0 then \<lceil>x\<rceil> else \<lfloor>x\<rfloor>)
     | JNonFinite w \<Rightarrow> if w = ''NaN'' then Inl ValueError else Inl OverflowError
     | JStr s \<Rightarrow> opt_or_raise ValueError (int_text s) | _ \<Rightarrow> Inl TypeError)"

definition json_text :: "(json \<Rightarrow> string) \<Rightarrow> json \<Rightarrow> string" where
  "json_text str j = (case j of JNull \<Rightarrow> ''None'' | JBool b \<Rightarrow> if b then ''True'' else ''False'' | JInt i \<Rightarrow> int_str i
     | JStr s \<Rightarrow> s | _ \<Rightarrow> str j)"

section \<open>GitHub\<close>

text \<open>The trailing \<open>$\<close> of the expression also stands before a final newline.\<close>

definition branch_core :: "string \<Rightarrow> bool" where
  "branch_core t \<longleftrightarrow> t \<noteq> [] \<and> \<not> list_ex py_space t \<and> hd t \<noteq> CHR ''/'' \<and> last t \<noteq> CHR ''/''"

definition branch_ok :: "string \<Rightarrow> bool" where
  "branch_ok b \<longleftrightarrow> \<not> py_in ''..'' b
     \<and> (branch_core b \<or> (b \<noteq> [] \<and> last b = CHR 0x0A \<and> branch_core (butlast b)))"

definition validate_branch :: "string \<Rightarrow> exn + string" where
  "validate_branch b = (if branch_ok b then Inr b else Inl (HttpFetchError (''invalid github branch name '' @ py_repr b)))"

definition github_client :: "string option \<Rightarrow> string \<Rightarrow> http_client" where
  "github_client token accept = async_http_client ''https://api.github.com''
     (case token of Some t \<Rightarrow> if t \<noteq> [] then Some (''Bearer '' @ t) else None | None \<Rightarrow> None)
     [(''Accept'', accept), (''X-GitHub-Api-Version'', ''2022-11-28'')]"

record github_source =
  gs_type :: string
  gs_full :: string
  gs_owner :: string
  gs_repo :: string
  gs_branch :: string

definition github_backend :: "string \<Rightarrow> string \<Rightarrow> string \<Rightarrow> exn + github_source" where
  "github_backend ty repo b = (case validate_branch b of Inl e \<Rightarrow> Inl e
     | Inr b \<Rightarrow> Inr \<lparr>gs_type = ty, gs_full = repo, gs_owner = takeWhile (\<lambda>c. c \<noteq> CHR ''/'') repo,
         gs_repo = tl (dropWhile (\<lambda>c. c \<noteq> CHR ''/'') repo), gs_branch = b\<rparr>)"

definition github_path :: "github_source \<Rightarrow> string \<Rightarrow> string" where
  "github_path g rest = ''/repos/'' @ gs_owner g @ ''/'' @ gs_repo g @ rest"

definition github_resolve_sha :: "http_server \<Rightarrow> http_client \<Rightarrow> github_source \<Rightarrow> exn + string" where
  "github_resolve_sha srv c g =
     bindE (get_json srv c (github_path g (''/branches/'' @ gs_branch g)) []) (\<lambda>data.
     bindE (json_item ''commit'' data) (\<lambda>commit. bindE (json_item ''sha'' commit) (\<lambda>sha.
       case sha of JStr s \<Rightarrow> if s \<noteq> [] then Inr s
           else Inl (HttpFetchError (''github branch '' @ py_repr (gs_branch g) @ '' returned no commit sha for '' @ gs_owner g @ ''/'' @ gs_repo g))
       | _ \<Rightarrow> Inl (HttpFetchError (''github branch '' @ py_repr (gs_branch g) @ '' returned no commit sha for '' @ gs_owner g @ ''/'' @ gs_repo g)))))"

definition github_ref :: "github_source \<Rightarrow> string \<Rightarrow> string option \<Rightarrow> source_ref" where
  "github_ref g sha path =
     \<lparr>rf_type = gs_type g,
      rf_uri = ''github://'' @ gs_owner g @ ''/'' @ gs_repo g @ ''/'' @ (case path of Some p \<Rightarrow> p | None \<Rightarrow> ''None''),
      rf_version = sha, rf_repo = Some (gs_full g), rf_branch = Some (gs_branch g), rf_path = path, rf_external = None, rf_acl = []\<rparr>"

text \<open>One entry of the tree; a path that is no text fails the validation of the ref.\<close>

definition github_entry :: "github_source \<Rightarrow> string \<Rightarrow> json \<Rightarrow> exn + source_ref list" where
  "github_entry g sha entry =
     bindE (json_get ''type'' entry) (\<lambda>ty.
       if ty \<noteq> Some (JStr ''blob'') then Inr []
       else bindE (json_item ''path'' entry) (\<lambda>p. case p of
           JStr path \<Rightarrow> Inr [github_ref g sha (Some path)]
         | JNull \<Rightarrow> Inr [github_ref g sha None]
         | _ \<Rightarrow> Inl PydanticValidationError))"

definition path_key :: "source_ref \<Rightarrow> string" where
  "path_key ref = (case rf_path ref of Some p \<Rightarrow> p | None \<Rightarrow> [])"

definition github_refs :: "github_source \<Rightarrow> string \<Rightarrow> json \<Rightarrow> exn + source_ref list" where
  "github_refs g sha tree =
     bindE (json_get ''truncated'' tree) (\<lambda>_. bindE (json_get ''tree'' tree) (\<lambda>listed.
     bindE (json_iter (case listed of Some j \<Rightarrow> j | None \<Rightarrow> JArr [])) (\<lambda>entries.
     bindE (mapE (github_entry g sha) entries) (\<lambda>refs. Inr (sort_key path_key (concat refs))))))"

definition github_list_sources :: "http_server \<Rightarrow> string option \<Rightarrow> github_source \<Rightarrow> exn + source_ref list" where
  "github_list_sources srv token g =
     (let c = github_client token ''application/vnd.github+json'' in
      bindE (github_resolve_sha srv c g) (\<lambda>sha.
      bindE (get_json srv c (github_path g (''/git/trees/'' @ sha)) [(''recursive'', ''1'')]) (github_refs g sha)))"

definition github_fetch_text :: "http_server \<Rightarrow> string option \<Rightarrow> github_source \<Rightarrow> source_ref \<Rightarrow> exn + string" where
  "github_fetch_text srv token g ref =
     get_text srv (github_client token ''application/vnd.github.raw'')
       (github_path g (''/contents/'' @ path_key ref)) [(''ref'', rf_version ref)]"

section \<open>Azure DevOps wikis\<close>

definition ado_client :: "string \<Rightarrow> string option \<Rightarrow> http_client" where
  "ado_client base token = async_http_client base (ado_basic_auth_header token) []"

definition ADO_API_VERSION :: "string \<times> string" where "ADO_API_VERSION = (''api-version'', ''7.1'')"

record wiki_source =
  ws_org :: string
  ws_project :: string
  ws_wiki :: string

definition wiki_path :: "wiki_source \<Rightarrow> string \<Rightarrow> string" where
  "wiki_path w rest = ''/'' @ ws_org w @ ''/'' @ ws_project w @ rest"

definition wiki_client :: "string option \<Rightarrow> http_client" where
  "wiki_client token = ado_client ''https://dev.azure.com'' token"

text \<open>\<open>(repo.get(\<dots>) or \<dots>).removeprefix(\<dots>)\<close>.\<close>

definition wiki_ref_filter :: "json \<Rightarrow> exn + string" where
  "wiki_ref_filter repo = bindE (json_get ''defaultBranch'' repo) (\<lambda>b. case b of
     Some j \<Rightarrow> if \<not> json_truthy j then Inr ''heads/main''
       else (case j of JStr s \<Rightarrow> Inr (if prefix ''refs/'' s then drop 5 s else s) | _ \<Rightarrow> Inl AttributeError)
   | None \<Rightarrow> Inr ''heads/main'')"

definition wiki_head :: "json \<Rightarrow> exn + json option" where
  "wiki_head refs = bindE (json_get ''value'' refs) (\<lambda>v.
     case (case v of Some j \<Rightarrow> j | None \<Rightarrow> JArr []) of
       JArr [] \<Rightarrow> Inr None
     | JArr (j # _) \<Rightarrow> json_get ''objectId'' j
     | JObj kvs \<Rightarrow> if kvs = [] then Inr None else Inl KeyError
     | JStr s \<Rightarrow> if s = [] then Inr None else Inl AttributeError
     | j \<Rightarrow> if json_truthy j then Inl TypeError else Inr None)"

definition wiki_resolve_version :: "http_server \<Rightarrow> http_client \<Rightarrow> wiki_source \<Rightarrow> exn + string" where
  "wiki_resolve_version srv c w =
     bindE (get_json srv c (wiki_path w (''/_apis/wiki/wikis/'' @ ws_wiki w)) [ADO_API_VERSION]) (\<lambda>wiki.
     bindE (json_get ''repositoryId'' wiki) (\<lambda>rid. case rid of
       Some (JStr repo_id) \<Rightarrow>
         if repo_id = [] then Inl (HttpFetchError (''ado wiki '' @ py_repr (ws_wiki w) @ '' in '' @ ws_org w @ ''/'' @ ws_project w @ '' returned no repositoryId''))
         else bindE (get_json srv c (wiki_path w (''/_apis/git/repositories/'' @ repo_id)) [ADO_API_VERSION]) (\<lambda>repo.
           bindE (wiki_ref_filter repo) (\<lambda>flt.
           bindE (get_json srv c (wiki_path w (''/_apis/git/repositories/'' @ repo_id @ ''/refs'')) [(''filter'', flt), ADO_API_VERSION]) (\<lambda>refs.
           bindE (wiki_head refs) (\<lambda>sha. case sha of
             Some (JStr s) \<Rightarrow> if s \<noteq> [] then Inr s
               else Inl (HttpFetchError (''ado wiki '' @ py_repr (ws_wiki w) @ '' backing repo '' @ repo_id @ '' returned no head commit''))
           | _ \<Rightarrow> Inl (HttpFetchError (''ado wiki '' @ py_repr (ws_wiki w) @ '' backing repo '' @ repo_id @ '' returned no head commit''))))))
     | _ \<Rightarrow> Inl (HttpFetchError (''ado wiki '' @ py_repr (ws_wiki w) @ '' in '' @ ws_org w @ ''/'' @ ws_project w @ '' returned no repositoryId''))))"

definition wiki_ref :: "(json \<Rightarrow> string) \<Rightarrow> wiki_source \<Rightarrow> string \<Rightarrow> (string, json) dict \<Rightarrow> string \<Rightarrow> source_ref" where
  "wiki_ref str w sha page path =
     \<lparr>rf_type = ''azure_wiki'',
      rf_uri = ''azuredevops://'' @ ws_org w @ ''/'' @ ws_project w @ ''/_wiki/wikis/'' @ ws_wiki w @ path,
      rf_version = sha, rf_repo = None, rf_branch = None,
      rf_path = Some (if prefix ''/'' path then tl path else path),
      rf_external = (case map_of page ''id'' of None \<Rightarrow> None | Some JNull \<Rightarrow> None | Some j \<Rightarrow> Some (json_text str j)),
      rf_acl = []\<rparr>"

text \<open>
  The depth-first walk. A list of children is walked; iterating over a text or over an object's keys meets
  a text, which has no \<open>get\<close>, and over a number or a truth value is a \<open>TypeError\<close>.
\<close>

lemma child_smaller: "map_of kvs k = Some (JArr js) \<Longrightarrow> j \<in> set js \<Longrightarrow> size j < size (JObj kvs)"
proof -
  assume "map_of kvs k = Some (JArr js)" "j \<in> set js"
  then have "(k, JArr js) \<in> set kvs" "size j < size (JArr js)"
    using size_list_estimation' [of j js "size j" size] by (auto dest: map_of_SomeD)
  moreover have "(k, v) \<in> set kvs \<Longrightarrow> size v < size (JObj kvs)" for v
    by (induction kvs) auto
  ultimately show ?thesis by fastforce
qed

function walk_wiki :: "(json \<Rightarrow> string) \<Rightarrow> wiki_source \<Rightarrow> string \<Rightarrow> json \<Rightarrow> exn + source_ref list" where
  "walk_wiki str w sha page =
     (case page of
        JObj kvs \<Rightarrow>
          (let here = (case map_of kvs ''path'' of
                 Some (JStr p) \<Rightarrow> if p \<in> {[], ''/''} then [] else [wiki_ref str w sha kvs p]
               | _ \<Rightarrow> [])
           in case map_of kvs ''subPages'' of
                Some (JArr js) \<Rightarrow> (case mapE (walk_wiki str w sha) js of Inl e \<Rightarrow> Inl e | Inr rs \<Rightarrow> Inr (here @ concat rs))
              | Some j \<Rightarrow> if \<not> json_truthy j then Inr here
                  else (case j of JStr _ \<Rightarrow> Inl AttributeError | JObj _ \<Rightarrow> Inl AttributeError | _ \<Rightarrow> Inl TypeError)
              | None \<Rightarrow> Inr here)
      | _ \<Rightarrow> Inl AttributeError)"
  by pat_completeness auto
termination
  by (relation "measure (\<lambda>(str, w, sha, page). size page)") (auto dest: child_smaller)

declare walk_wiki.simps [simp del]

definition wiki_refs :: "source_ref list \<Rightarrow> source_ref list" where
  "wiki_refs refs = sort_key path_key (map snd (dict_update_all [] (map (\<lambda>r. (rf_path r, r)) refs)))"

definition wiki_list_sources :: "(json \<Rightarrow> string) \<Rightarrow> http_server \<Rightarrow> string option \<Rightarrow> wiki_source \<Rightarrow> exn + source_ref list" where
  "wiki_list_sources str srv token w =
     (let c = wiki_client token in
      bindE (wiki_resolve_version srv c w) (\<lambda>sha.
      bindE (get_json srv c (wiki_path w (''/_apis/wiki/wikis/'' @ ws_wiki w @ ''/pages''))
               [(''path'', ''/''), (''recursionLevel'', ''full''), ADO_API_VERSION]) (\<lambda>tree.
      bindE (walk_wiki str w sha tree) (\<lambda>refs. Inr (wiki_refs refs)))))"

definition wiki_fetch_text :: "http_server \<Rightarrow> string option \<Rightarrow> wiki_source \<Rightarrow> source_ref \<Rightarrow> exn + string" where
  "wiki_fetch_text srv token w ref =
     (let rel = path_key ref; path = (if prefix ''/'' rel then rel else ''/'' @ rel) in
      bindE (get_json srv (wiki_client token) (wiki_path w (''/_apis/wiki/wikis/'' @ ws_wiki w @ ''/pages''))
               [(''path'', path), (''includeContent'', ''true''), ADO_API_VERSION]) (\<lambda>page.
      bindE (json_get ''content'' page) (\<lambda>content. case content of
        Some (JStr t) \<Rightarrow> Inr t
      | _ \<Rightarrow> Inl (HttpFetchError (''ado wiki page '' @ py_repr path @ '' in '' @ ws_org w @ ''/'' @ ws_project w @ '' returned no content'')))))"

section \<open>Azure DevOps work items\<close>

record card_source =
  ks_org :: string
  ks_project :: string
  ks_area :: "string option"

definition BATCH_SIZE :: nat where "BATCH_SIZE = 200"

function chunked :: "nat \<Rightarrow> 'a list \<Rightarrow> 'a list list" where
  "chunked n xs = (if xs = [] \<or> n = 0 then [] else take n xs # chunked n (drop n xs))"
  by pat_completeness auto
termination
  by (relation "measure (\<lambda>(n, xs). length xs)") (auto simp: diff_less)

declare chunked.simps [simp del]

definition PRIORITY_FIELDS :: "string list" where
  "PRIORITY_FIELDS = [''System.Title'', ''System.State'', ''System.WorkItemType'', ''System.AreaPath'']"

fun render_field_value :: "(json \<Rightarrow> string) \<Rightarrow> json \<Rightarrow> string" where
  "render_field_value str JNull = []"
| "render_field_value str (JBool b) = (if b then ''true'' else ''false'')"
| "render_field_value str (JObj kvs) =
     ''{'' @ py_join '', '' (map (\<lambda>(k, v). k @ ''='' @ v) (sort (map (\<lambda>(k, v). (k, render_field_value str v)) kvs))) @ ''}''"
| "render_field_value str (JArr js) = ''['' @ py_join '', '' (map (render_field_value str) js) @ '']''"
| "render_field_value str j = json_text str j"

definition render_snapshot :: "(json \<Rightarrow> string) \<Rightarrow> int \<Rightarrow> (string, json) dict \<Rightarrow> string" where
  "render_snapshot str work_item_id fs =
     (let line = (\<lambda>name. name @ '': '' @ (case map_of fs name of Some v \<Rightarrow> render_field_value str v | None \<Rightarrow> []));
          present = filter (\<lambda>name. name \<in> fst ` set fs) PRIORITY_FIELDS;
          others = filter (\<lambda>name. name \<notin> set present) (sort (map fst fs))
      in py_join [CHR 0x0A] ((''WorkItem: '' @ int_str work_item_id) # map line (present @ others)) @ [CHR 0x0A])"

definition card_client :: "string option \<Rightarrow> card_source \<Rightarrow> http_client" where
  "card_client token k = ado_client (''https://dev.azure.com/'' @ ks_org k) token"

definition wiql_query :: "card_source \<Rightarrow> string" where
  "wiql_query k =
     ''SELECT [System.Id] FROM WorkItems WHERE '' @ py_join '' AND ''
       (''[System.TeamProject] = @project''
        # (case ks_area k of
             Some a \<Rightarrow> if a = [] then []
               else [''[System.AreaPath] UNDER '' @ [CHR 0x27]
                     @ concat (map (\<lambda>c. if c = CHR 0x27 then [CHR 0x27, CHR 0x27] else [c]) a) @ [CHR 0x27]]
           | None \<Rightarrow> []))
     @ '' ORDER BY [System.Id]''"

definition wiql_ids :: "http_server \<Rightarrow> http_client \<Rightarrow> card_source \<Rightarrow> exn + int list" where
  "wiql_ids srv c k =
     bindE (client_post_json srv c (''/'' @ ks_project k @ ''/_apis/wit/wiql'') (DObj [(''query'', DStr (wiql_query k))]) [ADO_API_VERSION]) (\<lambda>data.
     bindE (json_get ''workItems'' data) (\<lambda>ws. bindE (json_iter (or_empty ws)) (\<lambda>rows.
     bindE (mapE (\<lambda>r. bindE (json_item ''id'' r) json_int) rows) (\<lambda>ids. Inr (dict_fromkeys ids)))))"

definition note_revision :: "json \<Rightarrow> (int, int) dict \<Rightarrow> exn + (int, int) dict" where
  "note_revision item revs =
     bindE (json_get ''fields'' item) (\<lambda>f. bindE (json_item ''id'' item) (\<lambda>i. bindE (json_int i) (\<lambda>work_item_id.
     bindE (case f of Some j \<Rightarrow> if json_truthy j then json_get ''System.Rev'' j else Inr None | None \<Rightarrow> Inr None) (\<lambda>rv.
     case rv of None \<Rightarrow> Inr revs | Some JNull \<Rightarrow> Inr revs
     | Some j \<Rightarrow> bindE (json_int j) (\<lambda>r. Inr (AList.update work_item_id r revs))))))"

definition revision_batch :: "http_server \<Rightarrow> http_client \<Rightarrow> int list \<Rightarrow> (int, int) dict \<Rightarrow> exn + (int, int) dict" where
  "revision_batch srv c chunk revs =
     bindE (get_json srv c ''/_apis/wit/workitems''
        [(''ids'', py_join '','' (map int_str chunk)), (''fields'', ''System.Id,System.Rev''), ADO_API_VERSION]) (\<lambda>data.
     bindE (json_get ''value'' data) (\<lambda>v. bindE (json_iter (or_empty v)) (\<lambda>items. foldE note_revision items revs)))"

definition card_revisions :: "http_server \<Rightarrow> http_client \<Rightarrow> int list \<Rightarrow> exn + (int, int) dict" where
  "card_revisions srv c ids = foldE (revision_batch srv c) (chunked BATCH_SIZE ids) []"

definition card_ref :: "card_source \<Rightarrow> int \<Rightarrow> int \<Rightarrow> source_ref" where
  "card_ref k work_item_id rv =
     \<lparr>rf_type = ''ado_card'',
      rf_uri = ''azuredevops://'' @ ks_org k @ ''/'' @ ks_project k @ ''/_workitems/edit/'' @ int_str work_item_id,
      rf_version = int_str rv, rf_repo = None, rf_branch = None, rf_path = None,
      rf_external = Some (int_str work_item_id), rf_acl = []\<rparr>"

definition external_id_int :: "source_ref \<Rightarrow> int option" where
  "external_id_int ref = int_text (case rf_external ref of Some e \<Rightarrow> if e \<noteq> [] then e else ''0'' | None \<Rightarrow> ''0'')"

definition card_refs :: "card_source \<Rightarrow> (int, int) dict \<Rightarrow> int list \<Rightarrow> source_ref list" where
  "card_refs k revs ids =
     sort_key (\<lambda>r. the (external_id_int r))
       (concat (map (\<lambda>i. case map_of revs i of None \<Rightarrow> [] | Some rv \<Rightarrow> [card_ref k i rv]) ids))"

definition card_list_sources :: "http_server \<Rightarrow> string option \<Rightarrow> card_source \<Rightarrow> exn + source_ref list" where
  "card_list_sources srv token k =
     (let c = card_client token k in
      bindE (wiql_ids srv c k) (\<lambda>ids.
        if ids = [] then Inr [] else bindE (card_revisions srv c ids) (\<lambda>revs. Inr (card_refs k revs ids))))"

definition card_fetch_text :: "(json \<Rightarrow> string) \<Rightarrow> http_server \<Rightarrow> string option \<Rightarrow> card_source \<Rightarrow> source_ref \<Rightarrow> exn + string" where
  "card_fetch_text str srv token k ref =
     (case external_id_int ref of None \<Rightarrow> Inl ValueError
      | Some work_item_id \<Rightarrow>
          bindE (get_json srv (card_client token k) (''/_apis/wit/workitems/'' @ int_str work_item_id)
                   [(''$expand'', ''fields''), ADO_API_VERSION]) (\<lambda>data.
          bindE (json_get ''fields'' data) (\<lambda>fs. case fs of
            Some (JObj kvs) \<Rightarrow> Inr (render_snapshot str work_item_id kvs)
          | _ \<Rightarrow> Inl (HttpFetchError (''ado work item '' @ int_str work_item_id @ '' returned no fields for '' @ ks_org k @ ''/'' @ ks_project k)))))"

section \<open>The production factory\<close>

definition production_backend_factory :: "(json \<Rightarrow> string) \<Rightarrow> http_server \<Rightarrow> backend_factory" where
  "production_backend_factory str srv spec token =
     (let github = (\<lambda>repo b. bindE (github_backend (spec_type spec) repo b) (\<lambda>g.
            Inr \<lparr>fb_list = github_list_sources srv token g, fb_text = github_fetch_text srv token g\<rparr>))
      in case sp_kind spec of
        GithubCode _ repo b \<Rightarrow> github repo b
      | GithubDoc _ repo b \<Rightarrow> github repo b
      | AzureWiki _ org project wiki \<Rightarrow>
          (let w = \<lparr>ws_org = org, ws_project = project, ws_wiki = wiki\<rparr> in
           Inr \<lparr>fb_list = wiki_list_sources str srv token w, fb_text = wiki_fetch_text srv token w\<rparr>)
      | AdoCard org project area _ _ _ \<Rightarrow>
          (let k = \<lparr>ks_org = org, ks_project = project, ks_area = area\<rparr> in
           Inr \<lparr>fb_list = card_list_sources srv token k, fb_text = card_fetch_text str srv token k\<rparr>))"

end
