(* ===== verification/ConnectorFacts.thy ===== *)
theory ConnectorFacts
  imports Connectors "HOL-Library.Multiset"
begin

text \<open>
  The backends keep the contract of \<open>SourceFacts\<close>, and do not depend on the order in which a server or a
  file system answers: GitHub's listing and a card's snapshot are invariant under it, the workspace's files
  read back.
\<close>

section \<open>The factories keep their contract\<close>

definition branch_valid :: "source_spec \<Rightarrow> bool" where
  "branch_valid spec \<longleftrightarrow> (case spec_branch spec of Some b \<Rightarrow> branch_ok b | None \<Rightarrow> True)"

lemma bindE_Inr_iff: "bindE r f = Inr y \<longleftrightarrow> (\<exists>x. r = Inr x \<and> f x = Inr y)"
  by (cases r) auto

lemma github_refs_Inr:
  assumes "github_refs g sha tree = Inr refs"
  obtains listed entries rss where "json_get ''tree'' tree = Inr listed"
    and "json_iter (case listed of Some j \<Rightarrow> j | None \<Rightarrow> JArr []) = Inr entries"
    and "mapE (github_entry g sha) entries = Inr rss" and "refs = sort_key path_key (concat rss)"
  using assms unfolding github_refs_def by (auto simp: bindE_Inr_iff split: sum.splits)

lemma github_entry_type: "github_entry g sha entry = Inr rs \<Longrightarrow> r \<in> set rs \<Longrightarrow> rf_type r = gs_type g"
  by (auto simp: github_entry_def github_ref_def bindE_Inr_iff split: sum.splits json.splits if_splits)

lemma github_refs_type:
  assumes "github_refs g sha tree = Inr refs" and "r \<in> set refs" shows "rf_type r = gs_type g"
proof (rule github_refs_Inr [OF assms(1)])
  fix listed entries rss
  assume m: "mapE (github_entry g sha) entries = Inr rss" and refs: "refs = sort_key path_key (concat rss)"
  from assms(2) obtain rs where "rs \<in> set rss" "r \<in> set rs" by (auto simp: refs)
  with mapE_in [OF m] github_entry_type show ?thesis by blast
qed

lemma wiki_ref_type [simp]: "rf_type (wiki_ref str w sha kvs p) = ''azure_wiki''"
  by (simp add: wiki_ref_def)

lemma walk_wiki_type: "walk_wiki str w sha page = Inr refs \<Longrightarrow> r \<in> set refs \<Longrightarrow> rf_type r = ''azure_wiki''"
proof (induction str w sha page arbitrary: refs r rule: walk_wiki.induct)
  case (1 str w sha page)
  from 1(2) obtain kvs where page: "page = JObj kvs"
    by (subst (asm) walk_wiki.simps) (cases page; simp)
  have down: "rf_type r = ''azure_wiki''"
    if sub: "map_of kvs ''subPages'' = Some (JArr js)" and m: "mapE (walk_wiki str w sha) js = Inr rs"
      and x: "xs \<in> set rs" "r \<in> set xs" for js rs xs r
  proof -
    from mapE_in [OF m x(1)] obtain j where "j \<in> set js" "walk_wiki str w sha j = Inr xs" by blast
    with 1(1) [OF page refl sub] x(2) show ?thesis by simp
  qed
  from 1(2,3) show ?case
    by (subst (asm) walk_wiki.simps)
      (auto simp: page Let_def split: option.splits json.splits sum.splits if_splits intro: down)
qed

lemma dict_update_all_values:
  "snd ` set (dict_update_all d kvs) \<subseteq> snd ` set d \<union> snd ` set kvs"
proof (induction d kvs rule: dict_update_all.induct)
  case (2 d k v kvs)
  have "snd ` set (AList.update k v d) \<subseteq> insert v (snd ` set d)"
    by (induction d) auto
  with 2 show ?case by auto
qed auto

lemma wiki_refs_from: "r \<in> set (wiki_refs refs) \<Longrightarrow> r \<in> set refs"
  using dict_update_all_values [of "[]" "map (\<lambda>r. (rf_path r, r)) refs"] by (force simp: wiki_refs_def)

lemma card_refs_type: "r \<in> set (card_refs k revs ids) \<Longrightarrow> rf_type r = ''ado_card''"
  by (auto simp: card_refs_def card_ref_def split: option.splits)

interpretation local_files: backend_contract "local_fs_backend_factory home ws version" "\<lambda>_. True"
  by unfold_locales (auto simp: local_fs_backend_factory_def local_ref_def)

interpretation production: backend_contract "production_backend_factory str srv" branch_valid
proof unfold_locales
  fix spec token
  show "(\<exists>b. production_backend_factory str srv spec token = Inr b) \<longleftrightarrow> branch_valid spec"
    by (cases "sp_kind spec")
      (auto simp: production_backend_factory_def branch_valid_def spec_branch_def github_backend_def validate_branch_def Let_def)
next
  fix spec token b refs r
  assume b: "production_backend_factory str srv spec token = Inr b" and l: "fb_list b = Inr refs" and r: "r \<in> set refs"
  show "rf_type r = spec_type spec"
  proof (cases "spec_branch spec")
    case (Some br)
    then obtain g repo where gb: "github_backend (spec_type spec) repo br = Inr g" and "fb_list b = github_list_sources srv token g"
      using b by (auto simp: production_backend_factory_def spec_branch_def bindE_Inr_iff Let_def split: source_kind.splits)
    moreover from gb have "gs_type g = spec_type spec" by (auto simp: github_backend_def split: sum.splits)
    ultimately have g: "gs_type g = spec_type spec" "fb_list b = github_list_sources srv token g" by simp_all
    from l r github_refs_type show ?thesis unfolding g(2) g(1) [symmetric] github_list_sources_def Let_def bindE_Inr_iff by blast
  next
    case None
    then show ?thesis using b l r
      by (auto simp: production_backend_factory_def spec_branch_def spec_type_def Let_def wiki_list_sources_def
          card_list_sources_def bindE_Inr_iff split: source_kind.splits if_splits
          dest!: wiki_refs_from card_refs_type walk_wiki_type)
  qed
qed

section \<open>Orders that do not matter\<close>

lemma sort_key_mset:
  assumes "mset xs = mset ys" and "distinct (map f xs)" shows "sort_key f xs = sort_key f ys"
proof (rule sort_key_inj_key_eq)
  show "inj_on f (set xs)" using assms(2) by (simp add: distinct_map)
qed (use assms(1) in simp_all)

lemma mapE_mset:
  "mapE f xs = Inr rs \<Longrightarrow> mset xs = mset ys \<Longrightarrow> \<exists>rs'. mapE f ys = Inr rs' \<and> mset rs' = mset rs"
proof (induction xs arbitrary: ys rs)
  case (Cons x xs)
  from Cons.prems(1) obtain r rs0 where r: "f x = Inr r" "mapE f xs = Inr rs0" "rs = r # rs0" by (auto split: sum.splits)
  have "x \<in> set ys" using Cons.prems(2) by (metis list.set_intros(1) set_mset_mset)
  then obtain a b where ys: "ys = a @ x # b" by (meson split_list)
  with Cons.prems(2) have "mset xs = mset (a @ b)" by simp
  from Cons.IH [OF r(2) this] obtain rs' where "mapE f (a @ b) = Inr rs'" "mset rs' = mset rs0" by blast
  then obtain ra rb where ab: "mapE f a = Inr ra" "mapE f b = Inr rb" "rs' = ra @ rb"
    unfolding mapE_Inr_iff list_all2_append1 by (auto simp: mapE_Inr_iff)
  with r(1) have "mapE f ys = Inr (ra @ r # rb)"
    unfolding ys mapE_Inr_iff by (simp add: list_all2_appendI)
  moreover have "mset (ra @ r # rb) = mset rs" using \<open>mset rs' = mset rs0\<close> ab(3) r(3) by simp
  ultimately show ?case by blast
qed simp

lemma concat_mset: "mset (concat xss) = sum_mset (image_mset mset (mset xss))"
  by (induction xss) auto

lemma github_order:
  assumes "github_refs g sha (JObj kvs) = Inr refs" and "map_of kvs ''tree'' = Some (JArr entries)"
    and "mset entries = mset entries'" and "distinct (map path_key refs)"
  shows "github_refs g sha (JObj (AList.update ''tree'' (JArr entries') kvs)) = Inr refs"
proof (rule github_refs_Inr [OF assms(1)])
  fix listed es rss
  assume "json_get ''tree'' (JObj kvs) = Inr listed"
    and "json_iter (case listed of Some j \<Rightarrow> j | None \<Rightarrow> JArr []) = Inr es"
    and m: "mapE (github_entry g sha) es = Inr rss" and refs: "refs = sort_key path_key (concat rss)"
  then have "es = entries" using assms(2) by (auto simp: json_get_def json_iter_def)
  with mapE_mset [OF m] assms(3) obtain rss' where m': "mapE (github_entry g sha) entries' = Inr rss'" "mset rss' = mset rss"
    by blast
  then have "mset (concat rss) = mset (concat rss')"
    using m'(2) by (simp only: concat_mset)
  moreover have "distinct (map path_key (concat rss))"
    using assms(4) by (simp add: refs distinct_map)
  ultimately have "sort_key path_key (concat rss') = refs" unfolding refs by (metis sort_key_mset)
  with m'(1) show ?thesis by (simp add: github_refs_def json_get_def json_iter_def)
qed

lemma map_of_eq_set:
  assumes "distinct (map fst ys)" and "set xs = set ys" and "distinct (map fst xs)" shows "map_of xs = map_of ys"
proof
  fix k
  have "map_of xs k = Some v \<longleftrightarrow> map_of ys k = Some v" for v using assms by (metis map_of_eq_Some_iff)
  then show "map_of xs k = map_of ys k" by (metis not_None_eq)
qed

text \<open>A dictionary's order is no part of its snapshot.\<close>

lemma snapshot_order:
  assumes "mset fs = mset fs'" and "distinct (map fst fs)"
  shows "render_snapshot str i fs = render_snapshot str i fs'"
proof -
  have d: "distinct (map fst fs')" using assms by (metis mset_map mset_eq_imp_distinct_iff)
  have same: "set fs = set fs'" using assms(1) by (metis set_mset_mset)
  have "map_of fs = map_of fs'" by (rule map_of_eq_set [OF d same assms(2)])
  moreover note same
  moreover have "sort (map fst fs) = sort (map fst fs')"
    using assms(1) by (metis mset_map properties_for_sort mset_sort sorted_sort)
  ultimately show ?thesis by (simp add: render_snapshot_def)
qed

section \<open>The workspace reads back\<close>

definition file_name :: "string \<Rightarrow> bool" where
  "file_name p \<longleftrightarrow> p \<noteq> [] \<and> p \<noteq> ''.'' \<and> CHR ''/'' \<notin> set p"

fun fs_ok :: "fs_node \<Rightarrow> bool" where
  "fs_ok (FsFile _) \<longleftrightarrow> True"
| "fs_ok (FsDir es) \<longleftrightarrow> distinct (map fst es) \<and> list_all (\<lambda>(name, n). file_name name \<and> fs_ok n) es"

lemma tree_paths_lookup:
  "fs_ok ws \<Longrightarrow> (ps, n) \<in> set (tree_paths ws) \<Longrightarrow> tree_lookup ps ws = Some n \<and> ps \<noteq> [] \<and> (\<forall>p \<in> set ps. file_name p)"
proof (induction ws arbitrary: ps n rule: tree_paths.induct)
  case (2 es)
  from "2.prems"(2) obtain name m where e: "(name, m) \<in> set es"
    and here: "(ps, n) = ([name], m) \<or> (\<exists>qs. ps = name # qs \<and> (qs, n) \<in> set (tree_paths m))"
    by auto
  have "map_of es name = Some m" using "2.prems"(1) e by simp
  moreover have "file_name name" "fs_ok m" using "2.prems"(1) e by (auto simp: list_all_iff)
  ultimately show ?case using here "2.IH" [OF e refl \<open>fs_ok m\<close>] by (auto simp del: tree_paths.simps)
qed simp

lemma iter_files_iff:
  "(ps, content) \<in> set (iter_files ws) \<longleftrightarrow> (ps, FsFile content) \<in> set (tree_paths ws) \<and> \<not> list_ex skipped_part ps"
  by (force simp: iter_files_def split: fs_node.splits if_splits)

lemma joined_parts:
  assumes "ps \<noteq> []" and "\<forall>p \<in> set ps. file_name p"
  shows "split_on CHR ''/'' (py_join ''/'' ps) = ps" and "path_parts (py_join ''/'' ps) = ps" and "clean_path (py_join ''/'' ps)"
proof -
  show s: "split_on CHR ''/'' (py_join ''/'' ps) = ps"
    using assms by (intro split_on_join_list) (auto simp: file_name_def)
  show "path_parts (py_join ''/'' ps) = ps" using assms(2) by (simp add: path_parts_def s filter_id_conv file_name_def)
  show "clean_path (py_join ''/'' ps)" using assms(2) by (simp add: clean_path_def clean_segments_def s file_name_def)
qed

lemma local_file_reads_back:
  assumes "fs_ok ws" and "f \<in> set (iter_files ws)"
  shows "local_fetch_text ws (local_ref home spec version f) = Inr (normalize_code (snd f))"
proof -
  obtain ps content where f: "f = (ps, content)" by (cases f)
  from assms(2) have "(ps, FsFile content) \<in> set (tree_paths ws)" by (simp add: f iter_files_iff)
  from tree_paths_lookup [OF assms(1) this] show ?thesis
    by (simp add: local_fetch_text_def local_ref_def f joined_parts)
qed

end
