(* ===== verification/ConnectorClaims.thy ===== *)
theory ConnectorClaims
  imports ConnectorFacts
begin

text \<open>
  The properties of the source configuration and the connectors made from it, and a small workspace and
  configuration on which they are applied.
\<close>

section \<open>A configuration\<close>

definition doc_spec :: source_spec where
  "doc_spec = \<lparr>sp_name = ''docs'', sp_enabled = True, sp_acl = Some [''core''], sp_auth = None, sp_public = True,
     sp_kind = GithubDoc \<lparr>pl_include = [''**''], pl_exclude = [''x/*'']\<rparr> ''o/r'' ''main''\<rparr>"

definition doc_config :: source_config where
  "doc_config = \<lparr>cg_version = 1, cg_default_acl = [], cg_git = None, cg_sources = [doc_spec]\<rparr>"

definition doc_reader :: config_reader where
  "doc_reader = \<lparr>cr_read = Inr [], cr_yaml = (\<lambda>_. Inr (JObj [])), cr_typed = (\<lambda>_. Inr doc_config), cr_explain = (\<lambda>_. [])\<rparr>"

definition doc_tree :: fs_node where
  "doc_tree = FsDir [(''a'', FsFile ''text''), (''x'', FsDir [(''b'', FsFile ''more'')])]"

definition doc_factory :: backend_factory where
  "doc_factory = local_fs_backend_factory ''/w'' doc_tree ''v''"

definition doc_connector :: connector where
  "doc_connector = (case connector_of doc_factory False (\<lambda>_. None) doc_spec of Inr cn \<Rightarrow> cn)"

definition doc_ref :: source_ref where
  "doc_ref = (local_ref ''/w'' doc_spec ''v'' ([''a''], ''text''))\<lparr>rf_acl := [''core'']\<rparr>"

lemma doc_filter: "spec_filter doc_spec = Some (path_filter_matches [[GlobAll]] [[GlobChar CHR ''x'', GlobSlash, GlobStar]])"
  by (simp add: spec_filter_def spec_select_def doc_spec_def glob_to_regex_def collapse_stars_def collapse_step_def
      segment_regex_def segment_part_def)

lemma doc_files: "iter_files doc_tree = [([''a''], ''text''), ([''x'', ''b''], ''more'')]"
  by code_simp

lemma doc_backend: "doc_factory doc_spec None = Inr \<lparr>fb_list = Inr [local_ref ''/w'' doc_spec ''v'' ([''a''], ''text''),
    local_ref ''/w'' doc_spec ''v'' ([''x'', ''b''], ''more'')], fb_text = local_fetch_text doc_tree\<rparr>"
  by (simp add: doc_factory_def local_fs_backend_factory_def doc_files)

lemma doc_kept: "path_filter_matches [[GlobAll]] [[GlobChar CHR ''x'', GlobSlash, GlobStar]] ''a''"
  "\<not> path_filter_matches [[GlobAll]] [[GlobChar CHR ''x'', GlobSlash, GlobStar]] ''x/b''"
  by code_simp+

lemma doc_connector_of: "connector_of doc_factory False (\<lambda>_. None) doc_spec = Inr doc_connector"
  "cn_list doc_connector = Inr [doc_ref]" "cn_type doc_connector = ''github_doc''"
proof -
  have t: "spec_type doc_spec = ''github_doc''" "spec_acl_teams doc_spec = [''core'']"
    by (simp_all add: doc_spec_def spec_type_def spec_acl_teams_def)
  show "connector_of doc_factory False (\<lambda>_. None) doc_spec = Inr doc_connector"
    by (simp add: doc_connector_def connector_of_def doc_backend doc_filter)
  show "cn_list doc_connector = Inr [doc_ref]"
    by (simp add: doc_connector_def connector_of_def doc_backend doc_filter base_connector_def checked_sources_def
        filtered_backend_def keeps_ref_def local_ref_def doc_kept doc_ref_def t)
  show "cn_type doc_connector = ''github_doc''"
    by (simp add: doc_connector_def connector_of_def doc_backend doc_filter base_connector_def t)
qed

lemma doc_connectors: "connectors_from_config doc_factory False True (\<lambda>_. None) doc_config = Inr [doc_connector]"
proof -
  have "filter (served_source True) (cg_sources doc_config) = [doc_spec]"
    by (simp add: doc_config_def served_source_def locally_fetchable_def doc_spec_def)
  then show ?thesis by (simp add: connectors_from_config_def doc_connector_of)
qed

lemma doc_loaded: "load_source_config doc_reader ''sources.yaml'' = Inr doc_config"
proof -
  have "kind_valid (sp_kind doc_spec)"
    by (simp add: doc_spec_def kind_valid_def select_valid_def patterns_compile_def repo_pattern_def rust_space_def
        glob_to_regex_def collapse_stars_def collapse_step_def segment_regex_def segment_part_def)
  then have "spec_valid doc_spec" by (simp add: spec_valid_def doc_spec_def name_pattern_def headed_def is_lower_def)
  then have "validate_model doc_config = Some doc_config"
    by (simp add: validate_model_def doc_config_def names_unique_def apply_defaults_def)
  then show ?thesis by (simp add: load_source_config_def doc_reader_def)
qed

section \<open>Properties\<close>





text \<open>
  C35. When the checks before a production build report no error on a loaded configuration, every enabled
  source either resolves a token that is not empty or is declared public, and making the connectors fails only
  over the branch name of an enabled GitHub source, which the checks do not look at.
\<close>

theorem preflight_guards_the_build:
  assumes "load_source_config cr path = Inr cfg"
    and "\<not> has_errors (validate_source_config ''production'' environ workspace cfg)"
  shows "list_all (\<lambda>spec. case resolve_token environ spec of Inl _ \<Rightarrow> \<not> sp_enabled spec
      | Inr None \<Rightarrow> sp_public spec \<or> \<not> sp_enabled spec | Inr (Some v) \<Rightarrow> v \<noteq> [] \<or> \<not> sp_enabled spec) (cg_sources cfg)
    \<and> ((\<exists>cns. connectors_from_config (production_backend_factory str srv) True False environ cfg = Inr cns)
        \<longleftrightarrow> list_all (\<lambda>spec. sp_enabled spec \<longrightarrow> branch_valid spec) (cg_sources cfg))"
proof
  note token = preflight_token [OF assms(2)]
  have "case resolve_token environ spec of Inl _ \<Rightarrow> \<not> sp_enabled spec
      | Inr None \<Rightarrow> sp_public spec \<or> \<not> sp_enabled spec | Inr (Some v) \<Rightarrow> v \<noteq> [] \<or> \<not> sp_enabled spec"
    if s: "spec \<in> set (cg_sources cfg)" for spec
  proof (cases "sp_enabled spec")
    case True
    from token [OF s True] show ?thesis by (auto split: option.splits)
  qed (auto split: sum.splits option.splits)
  then show "list_all (\<lambda>spec. case resolve_token environ spec of Inl _ \<Rightarrow> \<not> sp_enabled spec
      | Inr None \<Rightarrow> sp_public spec \<or> \<not> sp_enabled spec | Inr (Some v) \<Rightarrow> v \<noteq> [] \<or> \<not> sp_enabled spec) (cg_sources cfg)"
    by (simp add: list_all_iff)
  have "(\<exists>cns. connectors_from_config (production_backend_factory str srv) True False environ cfg = Inr cns)
      \<longleftrightarrow> (\<forall>spec \<in> set (cg_sources cfg). served_source False spec \<longrightarrow> branch_valid spec
            \<and> (True \<longrightarrow> (\<exists>t. resolve_token environ spec = Inr t)))"
    by (rule production.configured_total) (rule loaded_kind_valid [OF assms(1)])
  also have "\<dots> \<longleftrightarrow> list_all (\<lambda>spec. sp_enabled spec \<longrightarrow> branch_valid spec) (cg_sources cfg)"
    using token unfolding list_all_iff served_source_def by blast
  finally show "(\<exists>cns. connectors_from_config (production_backend_factory str srv) True False environ cfg = Inr cns)
        \<longleftrightarrow> list_all (\<lambda>spec. sp_enabled spec \<longrightarrow> branch_valid spec) (cg_sources cfg)" .
qed

theorem preflight_guards_the_build_witness:
  "\<exists>cns. connectors_from_config (production_backend_factory (\<lambda>_. []) (\<lambda>_ _ _. Unreachable [])) True False (\<lambda>_. None) doc_config
     = Inr cns"
proof -
  have "\<not> has_errors (validate_source_config ''production'' (\<lambda>_. None) None doc_config)"
    by (simp add: validate_source_config_def doc_config_def doc_spec_def validate_production_source_def has_errors_def)
  note preflight_guards_the_build [OF doc_loaded this, of "\<lambda>_. []" "\<lambda>_ _ _. Unreachable []"]
  moreover have "branch_ok ''main''" by (simp add: branch_ok_def branch_core_def py_space_def)
  then have "list_all (\<lambda>spec. sp_enabled spec \<longrightarrow> branch_valid spec) (cg_sources doc_config)"
    by (simp add: doc_config_def doc_spec_def branch_valid_def spec_branch_def)
  ultimately show ?thesis by blast
qed

text \<open>
  C38. GitHub's listing does not depend on the order of the entries in the tree the API answers, as long as no two
  of them have the same path.
\<close>

theorem github_listing_order_free:
  assumes "github_refs g sha (JObj kvs) = Inr refs" and "map_of kvs ''tree'' = Some (JArr entries)"
    and "mset entries = mset entries'" and "distinct (map path_key refs)"
  shows "github_refs g sha (JObj (AList.update ''tree'' (JArr entries') kvs)) = Inr refs"
  by (rule github_order [OF assms])

definition blob :: "string \<Rightarrow> json" where
  "blob p = JObj [(''path'', JStr p), (''type'', JStr ''blob'')]"

definition sample_repo :: github_source where
  "sample_repo = \<lparr>gs_type = ''github_code'', gs_full = ''o/r'', gs_owner = ''o'', gs_repo = ''r'', gs_branch = ''main''\<rparr>"

theorem github_listing_order_free_witness:
  "github_refs sample_repo ''s'' (JObj [(''tree'', JArr [blob ''b'', blob ''a''])])
     = Inr [github_ref sample_repo ''s'' (Some ''a''), github_ref sample_repo ''s'' (Some ''b'')]"
proof -
  have "github_refs sample_repo ''s'' (JObj [(''tree'', JArr [blob ''a'', blob ''b''])])
     = Inr [github_ref sample_repo ''s'' (Some ''a''), github_ref sample_repo ''s'' (Some ''b'')]"
    by (simp add: github_refs_def json_get_def json_iter_def github_entry_def json_item_def blob_def github_ref_def path_key_def)
  from github_listing_order_free [OF this, of "[blob ''a'', blob ''b'']" "[blob ''b'', blob ''a'']"]
  show ?thesis by (simp add: github_ref_def path_key_def)
qed

text \<open>
  C37. A ref listed by a connector over the local workspace is one of the workspace's files outside the skipped
  directories, and fetching it gives that file's text with its line ends normalized, then normalized as the
  type asks, with the hash of the result.
\<close>

theorem local_refs_read_back:
  assumes "fs_ok ws"
    and "connectors_from_config (local_fs_backend_factory home ws version) authenticates locally_only environ cfg = Inr cns"
    and "cn \<in> set cns" and "cn_list cn = Inr refs" and "r \<in> set refs"
  shows "\<exists>(ps, content) \<in> set (iter_files ws). rf_path r = Some (py_join ''/'' ps)
    \<and> (let t = connector_normalize (cn_type cn) (normalize_code content)
       in cn_fetch cn r = Inr \<lparr>ct_source = r, ct_text = t, ct_hash = content_hash t\<rparr>)"
proof -
  from mapE_in [OF assms(2) [unfolded connectors_from_config_def] assms(3)] obtain spec where
    "connector_of (local_fs_backend_factory home ws version) authenticates environ spec = Inr cn" by blast
  then obtain token b pf where b: "local_fs_backend_factory home ws version spec token = Inr b"
    and cn: "cn = base_connector (spec_type spec) (filtered_backend b pf (spec_acl_teams spec))"
    by (rule local_files.connector_Inr)
  from b have fb: "fb_list b = Inr (map (local_ref home spec version) (iter_files ws))" "fb_text b = local_fetch_text ws"
    by (auto simp: local_fs_backend_factory_def)
  from assms(4,5) obtain f where f: "f \<in> set (iter_files ws)" and r: "r = (local_ref home spec version f)\<lparr>rf_acl := spec_acl_teams spec\<rparr>"
    unfolding cn local_files.connector_list [OF b] fb(1) by auto
  have "local_fetch_text ws r = Inr (normalize_code (snd f))"
    using local_file_reads_back [OF assms(1) f] by (simp add: r local_fetch_text_def local_ref_def)
  then show ?thesis using f
    by (intro bexI [of _ f]) (auto simp: cn base_connector_def connector_fetch_def filtered_backend_def fb(2) r local_ref_def Let_def split: prod.splits)
qed

theorem local_refs_read_back_witness:
  "\<exists>(ps, content) \<in> set (iter_files doc_tree). rf_path doc_ref = Some (py_join ''/'' ps)
    \<and> (let t = connector_normalize (cn_type doc_connector) (normalize_code content)
       in cn_fetch doc_connector doc_ref = Inr \<lparr>ct_source = doc_ref, ct_text = t, ct_hash = content_hash t\<rparr>)"
proof (rule local_refs_read_back [OF _ doc_connectors [unfolded doc_factory_def] _ doc_connector_of(2)])
  show "fs_ok doc_tree" by (simp add: doc_tree_def file_name_def)
qed simp_all

end
