(* ===== verification/Spec2Isabelle.thy ===== *)
theory Spec2Isabelle
  imports Sample Injection ChangeContext BuildClaims PanelClients PanelClaims ConnectorClaims
begin

text \<open>
  A model of the agentic knowledge platform and what makes it correct. The platform's services share
  one Postgres registry: \<open>services/kb-builder\<close> builds versioned knowledge artifacts and edges, and
  \<open>services/mcp-server\<close>, the Context Broker, serves them to agents as tools, under a team ACL, token
  budgets and a ledger with one retrieval event per call.

  \<^bold>\<open>Conventions.\<close> A coroutine of the broker is a function from a world (database, faults, pack store,
  windows, counters) to a result or an exception and the next world (\<open>Prelude\<close>, \<open>Broker\<close>). Every database
  call takes the next entry of an arbitrary list of faults, so each theorem holds for every pattern of
  failing or cancelled calls. An \<open>await\<close> under a lock runs to its end; what runs outside the lock is a
  separate step. Python ints are \<open>int\<close> or \<open>nat\<close>, floats are reals, strings have 8-bit characters, a dict is
  an association list in insertion order, mutable objects shared by reference live on a heap
  (\<open>PackState\<close>). What the code calls and this repository does not hold (search service, entailment model,
  \<open>uuid4\<close>, the serialization of a response by pydantic, the iteration order of a Python set) is an
  argument; where a theorem relies on it, its hypothesis says so (\<open>uuid4_ok\<close>, \<open>entailment_ok\<close>).

  \<^bold>\<open>Theories of the broker (src/services/mcp-server/src/agentic_mcp_server).\<close>
  \<^item> \<open>PyText\<close>, \<open>QueryText\<close>: string methods, UUIDs; \<open>domain/query_text.py\<close>, \<open>token_budget.py\<close>.
  \<^item> \<open>Sha256\<close>, \<open>JsonText\<close>, \<open>JsonParse\<close>: SHA-256, HMAC, \<open>json.dumps\<close> and \<open>json.loads\<close> of the standard library.
  \<^item> \<open>Injection\<close> (\<open>untrusted.py\<close>), \<open>Auth\<close> (\<open>auth/\<close>), \<open>Registry\<close> (\<open>infrastructure/postgres/\<close>), \<open>Temporal\<close>, \<open>Trust\<close>,
    \<open>Lru\<close> and \<open>Budgets\<close> (\<open>budgets.py\<close>), \<open>Dedupe\<close>, \<open>PackState\<close> (\<open>state.py\<close>), \<open>Broker\<close> (\<open>dependencies.py\<close>,
    \<open>error_ledger.py\<close>, \<open>authorization.py\<close>).
  \<^item> \<open>Retrieval\<close>, \<open>Pack\<close>, \<open>Charge\<close> and \<open>RequestMore\<close>, \<open>OpenEvidence\<close>, \<open>Traverse\<close> and \<open>Expand\<close>, \<open>Graph\<close>,
    \<open>KbSearch\<close>, \<open>Ledger\<close>: the retrieval tools, one theory per module of \<open>context_broker/\<close>.
  \<^item> \<open>Receipt\<close>, \<open>ClaimLedger\<close>, \<open>Entailment\<close>, \<open>Verify\<close>: answer verification at its levels L0 to L3, and receipts.
  \<^item> \<open>Paths\<close>, \<open>ChangeContext\<close>: the file selector of the build lane (\<open>change_context.py\<close>).
  \<^item> \<open>TaskScope\<close>, \<open>TaskNodes\<close>, \<open>TaskContext\<close>: \<open>get_task_context\<close> and its graph.
  \<^item> \<open>ToolHandlers\<close>: the scope gate, dispatch, ledger wrapper and schema boundary over all of them.
  \<^item> \<open>Sample\<close>: a concrete world for the witnesses.

  \<^bold>\<open>Theories of the builder (src/services/kb-builder/src/agentic_kb_builder).\<close> A step of the build takes the
  registry (record \<open>kb\<close>, one list of rows per table) to the next one; the runner's steps are operations
  on a world that also holds the state of the last commit, so a rollback is a field.
  \<^item> \<open>BuildTables\<close>: the tables (\<open>infrastructure/postgres/models\<close>), interval membership, \<open>UPDATE\<close>.
  \<^item> \<open>GitMetadata\<close> (\<open>connectors/git_metadata.py\<close>), \<open>CacheGates\<close> (\<open>application/cache_gates.py\<close>, the durable cache),
    \<open>AclIntersection\<close> and \<open>Writers\<close> (the writers of documents, code, commits; symbolic keys).
  \<^item> \<open>LinkText\<close>, \<open>EdgeStore\<close>, \<open>Linker\<close>, \<open>Candidates\<close>, \<open>Judge\<close>: \<open>linker/\<close>, its regular expressions, the contract
    of its two edge writers (locale \<open>edge_writer\<close>), and the three passes.
  \<^item> \<open>AliasMining\<close> (\<open>alias/mining.py\<close>, \<open>alias/resolve.py\<close>), \<open>Centrality\<close>, \<open>Indexing\<close> (\<open>indexing/\<close>).
  \<^item> \<open>Invalidation\<close> and \<open>RenameGaps\<close> (\<open>application/invalidation.py\<close>), \<open>PublishGates\<close> (the gates, activation),
    \<open>LinkerGaps\<close> (how linker and gates meet).
  \<^item> \<open>BuildSources\<close>: the source half of \<open>application/build_runner.py\<close>; \<open>BuildSafety\<close> its invariants, proved once
    in the locales \<open>quiet_inv\<close>, \<open>session_inv\<close>, \<open>build_inv\<close>; \<open>BuildFacts\<close> what a build costs and misses.
  \<^item> \<open>AliasRun\<close> and \<open>LedgerMining\<close>: the two reconciliations of the alias registry (\<open>alias/run.py\<close>,
    \<open>alias/ledger_mining.py\<close>).
  \<^item> \<open>BuildRun\<close>: the rest of the runner, \<open>build.py\<close> and \<open>application/builder_lock.py\<close>: the run row, the graph,
    the index, the outcome, activation, the lock. \<open>Evolution\<close> carries one invariant through every step of it,
    \<open>BuildLife\<close> draws from it what a whole build keeps, records and may start to serve.
  \<^item> \<open>AclGaps\<close>: what ACL propagation overwrites. \<open>BuildSample\<close> and \<open>BuildClaims\<close>: the properties of the builder,
    on a sample registry where they have hypotheses.

  What a build reads is configured: \<open>sources.yaml\<close> names sources, and a connector lists and fetches the refs of one.
  \<^item> \<open>SourceGlob\<close> and \<open>SourceConfig\<close> (\<open>domain/source_config.py\<close>, \<open>connectors/config_loader.py\<close>,
    \<open>config_validator.py\<close>, \<open>source_connector.py\<close>): globs against matching by segments, the schema, loading, the
    checks before a build, the making of connectors. \<open>SourceFacts\<close>: the contract of a backend factory (locale
    \<open>backend_contract\<close>) and what follows for the refs listed.
  \<^item> \<open>HttpFetch\<close> (\<open>connectors/http_client.py\<close>): retries, at most four waits of at most eight seconds. \<open>Connectors\<close>:
    the backends for files, GitHub and Azure DevOps and the two factories, which \<open>ConnectorFacts\<close> shows to keep the
    contract. \<open>ConnectorClaims\<close>: the properties. What a server answers is an arbitrary function of the request and
    the attempt; typing by pydantic and the parsing of YAML are arguments; symbolic links are left out.

  The review panel (\<open>services/review-panel\<close>) prepares a draft review of a pull request: four reviewing models
  and a synthesis, over a checkpointed graph; it shares nothing with the registry.
  \<^item> \<open>PanelDomain\<close> (\<open>domain/untrusted.py\<close>, \<open>findings.py\<close>): fences and the schema gate; \<open>PanelReconcile\<close>
    (\<open>reconcile.py\<close>, \<open>render.py\<close>, \<open>draft.py\<close>): the merge, what it stands for, the draft.
  \<^item> \<open>PanelNodes\<close> (\<open>graph/prompts.py\<close>, \<open>nodes.py\<close>): prompts, model calls with one repair, the nodes.
    \<open>PanelRun\<close> (\<open>graph/build.py\<close>, \<open>application.py\<close>, \<open>draft_store.py\<close>): the graph's run over a thread, resuming,
    the two draft stores, which interpret the locale \<open>draft_store\<close>. \<open>PanelClients\<close>: the HTTP adapters, the
    configuration and the command.
  \<^item> \<open>PanelSafety\<close>: the invariant of the reachable states, a step relation over calls and killed runs, the cost
    of a run. \<open>PanelClaims\<close>: the properties.

  \<^bold>\<open>What the lemmas show.\<close> In each theory: what an operation returns and leaves on every exit (lemmas
  ending in \<open>_Inr\<close> or \<open>_spec\<close>), that it keeps the store well-formed and writes its row (\<open>_one_row\<close>), and that
  a failed charge is undone (\<open>_safe\<close>, \<open>_books\<close>). Loops are structural recursions or carry a termination
  measure; the searches on the graph are bounded by the depth and the caps of the code, so no fuel is
  used anywhere. The interfaces are locales (\<open>lru_store\<close>, \<open>authorization_policy\<close> and others), each
  interpreted on the model in the theory that provides it.

  \<^bold>\<open>Not modelled.\<close> Clock readings, log lines, trace spans, the SQLAlchemy and FastMCP wiring, the model
  clients and the Entra token check are library calls or leave no state a caller can read. Interleavings
  inside one handler outside its lock are not modelled. Characters above U+00FF do not occur. The
  Graphify and Docify backends and the embedding provider (adapters around libraries and models), the
  migrations, the Obsidian export, \<open>src/scripts\<close> and \<open>src/evals\<close> are left out. Of LangGraph the
  panel's model has the order of the nodes and the kept updates; a branch's model calls are taken together,
  which loses nothing because the model's answers are an arbitrary function of the call's number.
\<close>

section \<open>Refunds\<close>

text \<open>
  C1. \<open>context.request_more\<close>: a call that fails leaves every pack and every usage meter as it
  found them, whichever read or write failed, unless the task itself was cancelled.
\<close>

theorem request_more_refund: "books_safe (request_more dp req rq)"
  by (rule request_more_safe)

text \<open>
  \<open>context.open_evidence\<close>: the same refund. In particular a ledger write that fails after
  the charge gives the tokens back.
\<close>

theorem open_evidence_refund: "books_safe (open_evidence dp req rq)"
  by (rule open_evidence_safe)

text \<open>\<open>context.expand\<close>: the same refund, cards and history included.\<close>

theorem expand_refund: "books_safe (expand dp req rq)"
  by (rule expand_safe)


section \<open>What a call costs and returns\<close>

text \<open>
  C3. \<open>context.request_more\<close>, when it returns: an approval found its request and its tokens within
  the caller's allowance and the run's budget, returned only cards neither in the pack nor
  already checked, and charged exactly their tokens and one request; every other decision
  returned nothing new and changed no meter.
\<close>

theorem request_more_outcome:
  "valid (\<lambda>w. w = w0 \<and> 0 \<le> rm_max_tokens req) (request_more dp req rq)
     (\<lambda>resp w. \<exists>r s. get_pack (rm_pack_id req) (w_store w0) = Some (r, s) \<and> more_post dp req rq r resp s (w_store w))
     (\<lambda>_ _. True)"
  by (rule validI) (auto elim: request_more_Inr)

text \<open>
  C4. \<open>context.open_evidence\<close>, when it returns: the card is in the pack, its artifact is a member of
  the pack's build the caller may see, the text is the artifact's body cut at the token cap, and
  exactly its tokens, which fit the run's budget and the caller's allowance, were charged.
\<close>

theorem open_evidence_outcome:
  "valid (\<lambda>w. w = w0) (open_evidence dp req rq)
     (\<lambda>resp w. \<exists>r s c row. get_pack (oe_pack_id req) (w_store w0) = Some (r, s)
        \<and> map_of (pk_cards (pack_obj s r)) (oe_evidence_id req) = Some c
        \<and> row \<in> set (fetch_artifacts (w_db w0) [ec_artifact_id c] (pk_build_seq (pack_obj s r)))
        \<and> acl_admits rq (ar_acl row) \<and> open_post dp req rq r (str_or (ar_body row) []) resp s (w_store w))
     (\<lambda>_ _. True)"
  by (rule validI) (simp, erule open_evidence_Inr, blast, simp)

text \<open>
  \<open>context.read_pack\<close>, when it returns: at most fifty cards, each of the pack and each visible to
  the caller at the pack's own build, and the run's true remaining budget.
\<close>

theorem read_pack_outcome:
  "valid (\<lambda>w. w = w0) (read_pack dp req rq)
     (\<lambda>resp _. \<exists>r s. get_pack (rp_pack_id req) (w_store w0) = Some (r, s) \<and> length (rr_cards resp) \<le> 50
        \<and> rr_remaining resp = run_remaining_tokens (pack_obj s r)
        \<and> set (rr_cards resp) \<subseteq> {c \<in> snd ` set (pk_cards (pack_obj s r)).
            \<exists>row \<in> set (pack_artifacts (w_db w0) (pack_obj s r)). ar_id row = ec_artifact_id c \<and> acl_admits rq (ar_acl row)})
     (\<lambda>_ _. True)"
proof (rule validI, goal_cases)
  case (1 w resp w')
  then have "read_pack dp req rq w0 = (Inr resp, w')" by simp
  then show ?case
  proof (rule read_pack_Inr)
    fix r s assume g: "get_pack (rp_pack_id req) (w_store w0) = Some (r, s)"
      and c: "rr_cards resp = readable_cards rq (pack_artifacts (w_db w0) (pack_obj s r)) (map snd (pk_cards (pack_obj s r)))"
      and m: "rr_remaining resp = run_remaining_tokens (pack_obj s r)"
    show ?thesis
      by (intro exI conjI, rule g, simp add: c readable_cards_length, rule m)
        (use in_readable_cards c in fastforce)
  qed
qed simp

text \<open>
  \<open>context.create_pack\<close>, when it returns: the tokens reported are those of the cards returned,
  and they fit the requested budget and the server's ceiling.
\<close>

theorem create_pack_within_budget:
  "valid (\<lambda>_. 1 \<le> cp_budget req \<and> 0 \<le> max_run_budget_tokens (dp_settings dp)) (create_pack dp req rq)
     (\<lambda>resp _. cr_used resp = sum_list (map (card_tokens dp) (cr_cards resp)) \<and> cr_used resp \<le> cp_budget req
        \<and> cr_used resp \<le> max_run_budget_tokens (dp_settings dp)
        \<and> length (cr_cards resp) \<le> max_cards_per_retrieval (dp_settings dp))
     (\<lambda>_ _. True)"
  by (rule validI) (auto dest: create_pack_budget)

text \<open>
  \<open>kb_search\<close>, when it returns: with either cap reached before the call it returns nothing and
  charges nothing; otherwise it counts one call and exactly the tokens of its hits, every hit
  built from a row the caller may see, and reports what is left.
\<close>

theorem kb_search_outcome:
  "valid (\<lambda>w. w = w0 \<and> 0 < max_windows (w_kb w)) (kb_search dp dump_hit query rq session_key)
     (\<lambda>resp w. kb_post dp dump_hit query rq (w_db w0) (window_usage (w_kb w0) (session_key, subject rq)) resp
        (window_usage (w_kb w) (session_key, subject rq)))
     (\<lambda>_ _. True)"
  by (rule validI) (use kb_search_Inr(1) in blast)+

section \<open>The graph\<close>


text \<open>
  C6. \<open>graph.get_neighbors\<close>: the nodes found lie at their shortest distance along visible nodes and
  admitted edges, no farther than the depth; no node is listed twice; and when fewer than the
  cap were found, they are all the nodes within the depth.
\<close>

theorem neighbors_at_shortest_distance:
  "valid (\<lambda>w. w = w0) (search_neighbors dp req rq build_seq)
     (\<lambda>found _. if visible (w_db w0) build_seq rq (nb_artifact req)
        then search_ok (w_db w0) build_seq rq req (max_graph_neighbors (dp_settings dp)) (nb_depth req) found
        else found = [])
     (\<lambda>_ _. True)"
  by (rule validI) (use search_neighbors_spec in blast)+

section \<open>One ledger row per call\<close>

text \<open>
  C7. The handlers that cannot fail between their row and their answer: a run that returns, or
  ends in the marker of a ledgered failure, has written exactly one event, any other failure
  none; and the state stays well-formed.
\<close>

theorem handlers_write_one_row:
  "one_row (read_pack dp rp rq) \<and> one_row (request_more dp rm rq) \<and> one_row (open_evidence dp oe rq)
   \<and> one_row (expand dp ex rq) \<and> one_row (get_neighbors dp nb rq) \<and> one_row (kb_search dp dump_hit query rq session_key)
   \<and> one_row (get_review_draft drafts repo pr_number head_sha rq) \<and> one_row (get_task_context dp env dump task rq)
   \<and> one_row (record_checkpoint run_id from_agent to_agent plan_summary decision edits)"
  by (intro conjI ledger_intros)

text \<open>
  C8. A call of one of ten tools, through the gate and the ledger wrapper: when the handler
  returns, or fails with its own row, or fails otherwise while the database takes the wrapper's
  row, the call has written exactly one event; else none. The answer or the exception is the
  handler's, unless the task was cancelled while the wrapper wrote.
\<close>

theorem calls_ledgered_once:
  "disciplined c \<Longrightarrow> uuid4_ok (sv_deps srv) \<Longrightarrow> entailment_ok (sv_entail srv)
   \<Longrightarrow> served_once (raw_handler srv ss c) (handle srv ss c)"
  unfolding handle_def by (intro ledgered_once raw_handler_one_row)

theorem calls_ledgered_once_witness:
  "served_once (raw_handler sample_server \<lparr>ss_token = None, ss_id = None\<rparr> (KbSearch ''cache''))
     (handle sample_server \<lparr>ss_token = None, ss_id = None\<rparr> (KbSearch ''cache''))"
  by (rule calls_ledgered_once)
    (simp_all add: disciplined_def sample_server_def sample_deps_def uuid4_ok_def uuid_ok_def entailment_ok_def)

text \<open>
  C9. A client without a token, an identity or the tool's scope gets an error, and the call changes
  nothing but the ledger, by at most one row: no pack, no budget, no window.
\<close>

theorem refused_call_changes_nothing:
  "case current_client_identity (sv_clients srv) (ss_token ss) of
     Inr client \<Rightarrow> if client_may_call client (tool_name c) then True
       else \<exists>e es fs. handle srv ss c w = (Inl e, w\<lparr>w_db := (w_db w)\<lparr>events := events (w_db w) @ es\<rparr>, w_faults := fs\<rparr>) \<and> length es \<le> 1
   | Inl _ \<Rightarrow> \<exists>e es fs. handle srv ss c w = (Inl e, w\<lparr>w_db := (w_db w)\<lparr>events := events (w_db w) @ es\<rparr>, w_faults := fs\<rparr>) \<and> length es \<le> 1"
  using refused_handle [where srv = srv and ss = ss and c = c and w = w] by (auto split: sum.splits)

text \<open>An answered \<open>context.platform_trust\<close> leaves no row: the call is missing from the ledger.\<close>

theorem platform_trust_is_unledgered:
  "case handle srv ss (PlatformTrust rc) w of (Inr _, w') \<Rightarrow> rows w' = rows w | (Inl _, _) \<Rightarrow> True"
  by (auto split: prod.splits sum.splits dest: platform_trust_no_row)

text \<open>
  A validation error raised inside a handler is ledgered twice, by the wrapper and again by the
  boundary middleware, whenever the database is up.
\<close>

theorem validation_error_ledgered_twice:
  "case raw_handler srv ss c w of
     (Inl PydanticValidationError, w1) \<Rightarrow> if w_faults w1 = []
       then \<exists>e1 e2. rows (snd (serve srv ss wire errs (Some c) w)) = rows w1 @ [e1, e2] else True
   | _ \<Rightarrow> True"
proof (cases "raw_handler srv ss c w")
  case (Pair r w1)
  then show ?thesis using two_rows [of srv ss c w w1 wire errs] by (cases r) (auto split: exn.splits)
qed

text \<open>
  A call whose arguments the schema rejects writes one row when the database is up, under the
  tool's canonical name, and changes nothing else.
\<close>

theorem rejected_call_ledgered_once:
  "if db_up w
   then \<exists>e. serve srv ss (wire_name (tool_name c)) errs None w
          = (Inl PydanticValidationError, w\<lparr>w_db := add_event e (w_db w), w_faults := tl (w_faults w)\<rparr>)
        \<and> ev_tool_name e = tool_name c \<and> ev_status e = ''error''
   else True"
  using rejected_row [of w srv ss "wire_name (tool_name c)" errs] by (simp add: canonical_wire_name)

section \<open>Verification and receipts\<close>



text \<open>
  C11. A signed receipt verifies under its key, for its own client or for none in particular, and
  for no other client.
\<close>

theorem signed_receipt_verifies:
  assumes "env v = Some key" and "key \<noteq> []"
  shows "\<exists>r'. sign_receipt env v r = Inr r' \<and> signed_fields r' = signed_fields r
    \<and> verify_receipt_signature r' key expected = Inr (expected = None \<or> expected = rc_client r)"
proof -
  obtain r' where "sign_receipt env v r = Inr r'"
    using assms by (simp add: sign_receipt_def load_key_def)
  with verify_signed [OF this assms(1)] show ?thesis by blast
qed

theorem signed_receipt_verifies_witness:
  "\<exists>r'. sign_receipt (\<lambda>_. Some ''k'') ''KEY'' \<lparr>rc_answer_hash = ''h'', rc_graph_version = ''v5'', rc_levels = [''L0''],
      rc_overall = ''passed'', rc_claims = [], rc_client = Some ''c'', rc_signature = None, rc_key_id = None\<rparr> = Inr r'
    \<and> verify_receipt_signature r' ''k'' (Some ''c'') = Inr True"
  using signed_receipt_verifies [of "\<lambda>_. Some ''k''" "''KEY''" "''k''" "\<lparr>rc_answer_hash = ''h'',
      rc_graph_version = ''v5'', rc_levels = [''L0''], rc_overall = ''passed'', rc_claims = [], rc_client = Some ''c'',
      rc_signature = None, rc_key_id = None\<rparr>" "Some ''c''"]
  by auto

text \<open>
  The signature covers exactly the answer hash, the served version, the client and each claim's
  id, result and checks: a signature moved to another receipt verifies only when those agree,
  or when the two payloads are an HMAC-SHA256 collision.
\<close>

theorem moved_signature:
  "verify_receipt_signature (r'\<lparr>rc_signature := Some (receipt_mac (utf8 key) r)\<rparr>) key None =
     Inr (signed_fields r' = signed_fields r
       \<or> (canonical_payload r' \<noteq> canonical_payload r
          \<and> hmac_sha256 (utf8 key) (canonical_payload r') = hmac_sha256 (utf8 key) (canonical_payload r)))"
proof -
  let ?q = "r'\<lparr>rc_signature := Some (receipt_mac (utf8 key) r)\<rparr>"
  have q: "receipt_mac (utf8 key) ?q = receipt_mac (utf8 key) r'"
    by (simp add: receipt_mac_def canonical_payload_def payload_fields_def)
  have "compare_digest (receipt_mac (utf8 key) ?q) (receipt_mac (utf8 key) r)
      = Inr (hmac_sha256 (utf8 key) (canonical_payload r') = hmac_sha256 (utf8 key) (canonical_payload r))"
    unfolding q by (auto simp: compare_digest_def receipt_mac_def hexdigest_inj dest: hexdigest_ascii)
  moreover have "canonical_payload r' = canonical_payload r \<longleftrightarrow> signed_fields r' = signed_fields r"
    by (rule canonical_payload_eq)
  ultimately show ?thesis by (auto simp: verify_receipt_signature_def)
qed

text \<open>
  C12. The platform trusts an answer of a client that must verify exactly when its receipt is for
  that client, carries the HMAC of its own payload under the configured key, and passed overall;
  the gate raises only on a signature outside ASCII.
\<close>

theorem platform_trust_gate:
  "case evaluate_platform_trust env client rc v of
     Inl e \<Rightarrow> \<exists>r sig. rc = Some r \<and> rc_signature r = Some sig \<and> (\<exists>c \<in> set sig. 128 \<le> code c)
   | Inr d \<Rightarrow> (td_status d = ''trusted'') = (verification_required client \<and>
       (\<exists>r key. rc = Some r \<and> env v = Some key \<and> key \<noteq> [] \<and> rc_client r = Some (client_id client)
        \<and> rc_signature r = Some (receipt_mac (utf8 key) r) \<and> rc_overall r = ''passed''))"
proof (cases "evaluate_platform_trust env client rc v")
  case (Inl e)
  then have "\<not> (\<exists>d. evaluate_platform_trust env client rc v = Inr d)" by simp
  then obtain r sig where "rc = Some r" "rc_signature r = Some sig" "\<not> (\<forall>c \<in> set sig. code c < 128)"
    using platform_trust_total by blast
  then show ?thesis using Inl by (auto simp: not_less)
next
  case (Inr d)
  then show ?thesis using platform_trusted_iff [OF Inr] by simp
qed

text \<open>
  C13. Typed facts: a fact found true names a member of the build whose units the cited ids reach,
  with claim-supporting trust for edges.
\<close>

theorem typed_fact_sound:
  "adjudicate_typed_fact a build_seq rq cited w = (Inr True, w') \<Longrightarrow> fact_holds (w_db w) build_seq cited a"
  by (rule adjudicate_sound)

theorem typed_fact_sound_witness: "fact_holds sample_registry 5 {8} (SymbolInFile ''t'' ''a.py'')"
proof -
  have "adjudicate_typed_fact (SymbolInFile ''t'' ''a.py'') 5 core_user {8} sample_world = (Inr True, sample_world)"
    by (simp add: adjudicate_typed_fact_def bindM_def ret_def db_get_def db_read_def db_call_def sample_world_def
        sample_registry_def art_def fetch_symbol_in_file_units_def joined_def SYMBOL_ARTIFACT_TYPES_def artifact_member_def
        member_at_def visible_symbol_units_def acl_visible_def core_user_def)
  from typed_fact_sound [OF this] show ?thesis by (simp add: sample_world_def)
qed

text \<open>
  The intersection of two disjoint team lists is the empty list, which reads as public: an
  import between a file and a module with no team in common is confirmed to every caller who
  cites the file, whatever the caller's teams.
\<close>

theorem disjoint_teams_read_as_public:
  assumes "imports_across_teams (w_db w) build_seq path modl u" and "u \<in> cited" and "w_faults w = []"
  shows "fst (adjudicate_typed_fact (FileImportsModule path modl) build_seq rq cited w) = Inr True"
proof -
  from assms(1) obtain e f s t where
    r: "e \<in> set (edges (w_db w))" "(f, s) \<in> set (joined (w_db w))" "t \<in> set (artifacts (w_db w))"
      "ka_id f = ke_from e" "ka_id t = ke_to e" "ke_type e = ''imports''" "ka_type f = ''code_file''"
      "src_path s = Some path" "ka_title t = Some modl" "ke_trust e = CLAIM_SUPPORTING"
      "edge_member build_seq e" "artifact_member build_seq f" "artifact_member build_seq t"
      "ka_acl f \<noteq> []" "ka_acl t \<noteq> []" "set (ka_acl f) \<inter> set (ka_acl t) = {}" and u: "ka_id f = u"
    unfolding imports_across_teams_def by blast
  from u assms(2) have "ka_id f \<in> cited" by simp
  from adjudicate_disjoint [OF r this refl assms(3)] show ?thesis .
qed

theorem disjoint_teams_read_as_public_witness:
  "fst (adjudicate_typed_fact (FileImportsModule ''a.py'' ''m'') 5 \<lparr>subject = ''eve'', teams = {}\<rparr> {1} split_world) = Inr True"
  by (rule disjoint_teams_read_as_public [OF split_world_imports]) (simp_all add: split_world_def sample_world_def)

section \<open>Access\<close>

text \<open>
  The scope gate lets every client call \<open>context.expand\<close>, registered or not and whatever its
  scopes, while each tool the table names is kept from a registered client without its scope.
\<close>

theorem expand_is_not_scoped:
  "client_may_call client ''context.expand''
   \<and> client_may_call client ''context.read_pack'' = (if registered client then has_scope client ''context.read'' else True)"
  by (auto simp: client_may_call_def TOOL_REQUIRED_SCOPES_def)

text \<open>
  \<open>retrieve_cards\<close>, when it returns: at most the configured number of cards, in the order of the
  rows they were built from; every row is a member of the build which the caller may see; and no
  row is a near-duplicate of an earlier one.
\<close>

theorem retrieval_outcome:
  "valid (\<lambda>w. w = w0) (retrieve_cards dp query build_seq rq intent)
     (\<lambda>(cards, ranked) _. length cards \<le> max_cards_per_retrieval (dp_settings dp)
        \<and> map ec_artifact_id cards = map ar_id ranked
        \<and> set ranked \<subseteq> {row. acl_admits rq (ar_acl row) \<and> (\<exists>ids. row \<in> set (fetch_artifacts (w_db w0) ids build_seq))}
        \<and> sorted_wrt (\<lambda>a b. similarity (dedupe_text b) (dedupe_text a) < semantic_dupe_threshold (dp_settings dp)) ranked)
     (\<lambda>_ _. True)"
proof (rule validI, goal_cases)
  case (1 w r w')
  then have run: "retrieve_cards dp query build_seq rq intent w0 = (Inr (fst r, snd r), w')" by simp
  note out = retrieve_cards_Inr [OF run]
  have "set (snd r) \<subseteq> {row. acl_admits rq (ar_acl row) \<and> (\<exists>ids. row \<in> set (fetch_artifacts (w_db w0) ids build_seq))}"
    using out(3) by blast
  with out(1,5,6) show ?case by (simp add: case_prod_beta not_le)
qed simp

section \<open>Reuse\<close>

text \<open>
  Semantic reuse finds an entry exactly when some entry is at or above the threshold with a
  positive similarity, and then it is one of the most similar.
\<close>

theorem semantic_reuse_is_best:
  "case find_semantic entries q threshold of
     None \<Rightarrow> {e \<in> set entries. threshold \<le> similarity q (pr_query e) \<and> 0 < similarity q (pr_query e)} = {}
   | Some e \<Rightarrow> e \<in> set entries \<and> threshold \<le> similarity q (pr_query e) \<and> 0 < similarity q (pr_query e)
       \<and> {x \<in> set entries. threshold \<le> similarity q (pr_query x) \<and> similarity q (pr_query e) < similarity q (pr_query x)} = {}"
proof (cases "find_semantic entries q threshold")
  case None
  then have "{e \<in> set entries. threshold \<le> similarity q (pr_query e) \<and> 0 < similarity q (pr_query e)} = {}"
    unfolding find_semantic_None by blast
  then show ?thesis by (simp only: None option.case)
next
  case (Some e)
  note out = find_semantic_Some [OF Some]
  then show ?thesis using Some by (auto simp: not_less dest: out(4))
qed

text \<open>
  The similarity lies between 0 and 1, is symmetric, and is 1 on equal queries with a word;
  so a normalized query is always its own semantic match at any threshold up to 1.
\<close>

theorem similarity_is_a_measure:
  "0 \<le> similarity a b \<and> similarity a b \<le> 1 \<and> similarity a b = similarity b a
   \<and> similarity a a = (if py_split a = [] then 0 else 1)"
  using cosine.sim_nonneg cosine.sim_le_1 cosine.sim_sym cosine.sim_self by simp

text \<open>
  The entailment cache: a cached verdict is returned without calling the model and without a
  write, whatever else happens.
\<close>

theorem cached_verdict_costs_nothing:
  assumes "lookup_entailment (w_db w) (entail_key ec claim_text ids) = Some verdict"
  shows "case run_l3_entailment ec claim_text ids build_seq w of (r, w') \<Rightarrow>
    w_llm w' = w_llm w \<and> w_db w' = w_db w \<and> (case r of Inl e \<Rightarrow> True | Inr x \<Rightarrow> x = (fst verdict, True))"
proof (cases "run_l3_entailment ec claim_text ids build_seq w")
  case (Pair r w')
  note hit = run_l3_hit [OF assms Pair]
  show ?thesis
  proof (cases r)
    case (Inl e)
    with hit(1,2) Pair show ?thesis by simp
  next
    case (Inr x)
    with hit(1,2) hit(3) [OF Inr] Pair show ?thesis by simp
  qed
qed

theorem cached_verdict_costs_nothing_witness:
  "w_llm (snd (run_l3_entailment sample_client ''text'' [7] 5
     (sample_world\<lparr>w_db := record_entailment (entail_key sample_client ''text'' [7]) True ''why'' sample_registry\<rparr>))) = 0"
proof -
  let ?w = "sample_world\<lparr>w_db := record_entailment (entail_key sample_client ''text'' [7]) True ''why'' sample_registry\<rparr>"
  have "lookup_entailment (w_db ?w) (entail_key sample_client ''text'' [7]) = Some (True, ''why'')"
    by (simp add: record_entailment_lookup) (simp add: lookup_entailment_def sample_registry_def)
  from cached_verdict_costs_nothing [OF this, of 5] show ?thesis
    by (simp add: case_prod_beta) (simp add: sample_world_def)
qed

section \<open>Text\<close>

text \<open>Query normalization is idempotent and its results are exactly the normal forms.\<close>

theorem normalization_is_canonical:
  "normalize_query (normalize_query q) = normalize_query q \<and> query_normal (normalize_query q)
   \<and> (query_normal q = (normalize_query q = q))"
  using normalize_query_idem normalize_query_normal normalize_query_fixed by metis

text \<open>\<open>uuid.UUID(str(u))\<close> is \<open>u\<close>, for every 128-bit \<open>u\<close>.\<close>

theorem uuid_round_trip: "uuid_ok u \<Longrightarrow> parse_uuid (uuid_str u) = Some u"
  by (rule parse_uuid_str)

theorem uuid_round_trip_witness: "parse_uuid (uuid_str 9) = Some 9"
  by (rule uuid_round_trip) (simp add: uuid_ok_def)

text \<open>
  C14. The trim keeps the longest prefix of the ranking that fits, and reports its tokens.
\<close>

theorem trim_keeps_longest_prefix:
  assumes "0 \<le> budget"
  shows "\<exists>n \<le> length cards. trim_to_budget dp cards budget = (take n cards, sum_list (map (card_tokens dp) (take n cards)))
    \<and> sum_list (map (card_tokens dp) (take n cards)) \<le> budget
    \<and> {m \<in> {n<..length cards}. sum_list (map (card_tokens dp) (take m cards)) \<le> budget} = {}"
proof -
  obtain out u where run: "trim_to_budget dp cards budget = (out, u)" by fastforce
  show ?thesis
  proof (rule trim_spec [OF run])
    fix n assume n: "n \<le> length cards" "out = take n cards" "u = sum_list (map (card_tokens dp) out)" "0 \<le> budget \<Longrightarrow> u \<le> budget"
      and above: "\<And>m. n < m \<Longrightarrow> m \<le> length cards \<Longrightarrow> budget < sum_list (map (card_tokens dp) (take m cards))"
    from n assms above show ?thesis using run by (intro exI [of _ n]) (fastforce simp: not_le [symmetric])
  qed
qed

theorem trim_keeps_longest_prefix_witness:
  "\<exists>n \<le> 0. trim_to_budget sample_deps [] 0 = (take n [], 0)"
  using trim_keeps_longest_prefix [of 0 "[]" sample_deps] by simp

text \<open>
  \<open>get_review_draft\<close> serves the newest stored draft of the pull request, at the given commit when
  one is given, and none exactly when none is stored.
\<close>

theorem review_draft_is_newest:
  "case fetch_review_draft drafts repo pr sha of
     None \<Rightarrow> {d \<in> set drafts. rd_repo d = repo \<and> rd_pr_number d = pr \<and> (sha = None \<or> sha = Some (rd_head_sha d))} = {}
   | Some d \<Rightarrow> d \<in> {d \<in> set drafts. rd_repo d = repo \<and> rd_pr_number d = pr \<and> (sha = None \<or> sha = Some (rd_head_sha d))}
       \<and> {d' \<in> set drafts. rd_repo d' = repo \<and> rd_pr_number d' = pr \<and> (sha = None \<or> sha = Some (rd_head_sha d'))
           \<and> rd_created_at d < rd_created_at d'} = {}"
proof (cases "fetch_review_draft drafts repo pr sha")
  case None
  then have "{d \<in> set drafts. rd_repo d = repo \<and> rd_pr_number d = pr \<and> (sha = None \<or> sha = Some (rd_head_sha d))} = {}"
    unfolding fetch_review_draft_None by blast
  then show ?thesis by (simp only: None option.case)
next
  case (Some d)
  note out = fetch_review_draft_Some [OF Some]
  then show ?thesis using Some by (auto simp: not_less dest: out(5))
qed



text \<open>
  Trimming a task context drops from the lowest-value tail and stops at the first response that
  fits, or when nothing droppable is left.
\<close>

theorem task_context_trims_least:
  "\<exists>n. drops n b = Some (trim_buckets tokens_of cap b)
     \<and> (\<forall>k. k \<in> {k. k < n \<and> (case drops k b of Some b' \<Rightarrow> int (tokens_of b') \<le> cap | None \<Rightarrow> True)} = False)
     \<and> (if int (tokens_of (trim_buckets tokens_of cap b)) \<le> cap then True else pop_lowest (trim_buckets tokens_of cap b) = None)"
proof -
  from trim_buckets_least [of b tokens_of cap] obtain n where n: "drops n b = Some (trim_buckets tokens_of cap b)"
    "\<forall>k < n. \<exists>b'. drops k b = Some b' \<and> cap < int (tokens_of b')"
    "int (tokens_of (trim_buckets tokens_of cap b)) \<le> cap \<or> pop_lowest (trim_buckets tokens_of cap b) = None" by blast
  then show ?thesis by (intro exI [of _ n]) (fastforce split: option.splits)
qed

text \<open>
  C17. When comparable alias phrases disagree, every id their stored bodies name becomes a candidate and
  hence evidence, for every caller: the team ACL is not consulted.
\<close>

theorem ambiguous_targets_unfiltered:
  assumes "filter (\<lambda>a. ar_type a = ALIAS_TYPE) found = best # others"
    and "alias_targets best \<noteq> []" and "differing_aliases scores best others \<noteq> []" and "tk_task (tx_request cx) \<noteq> []"
  shows "\<exists>s. resolve_from_alias cx found scores m w = (Inr (s, m), w)
    \<and> set (concat (map am_candidates (sr_ambiguous s)))
      = set (alias_targets best) \<union> (\<Union>a \<in> set (differing_aliases scores best others). set (alias_targets a))"
  by (rule alias_unfiltered [OF assms])

theorem ambiguous_targets_unfiltered_witness:
  "\<exists>s. resolve_from_alias sample_ctx [sample_alias 3 11, sample_alias 4 12] [(3, 1), (4, 1)] new_meter sample_world = (Inr (s, new_meter), sample_world)
    \<and> set (concat (map am_candidates (sr_ambiguous s))) = {12, 11}"
proof -
  have t: "alias_targets (sample_alias 3 11) = [11]" "alias_targets (sample_alias 4 12) = [12]"
    by (simp_all add: sample_alias_targets uuid_ok_def)
  have d: "differing_aliases [(3, 1), (4, 1)] (sample_alias 3 11) [sample_alias 4 12] = [sample_alias 4 12]"
    by (simp add: differing_aliases_def t get_default_def sample_alias_fields)
  have f: "filter (\<lambda>a. ar_type a = ALIAS_TYPE) [sample_alias 3 11, sample_alias 4 12] = sample_alias 3 11 # [sample_alias 4 12]"
    by (simp add: sample_alias_fields)
  show ?thesis
    using ambiguous_targets_unfiltered [OF f, of "[(3, 1), (4, 1)]" sample_ctx new_meter sample_world]
    by (simp add: t d sample_ctx_def)
qed

end
